(* ===== verification/Prelude.thy ===== *)
theory Prelude
  imports "HOL-Library.Word"
begin

unbundle bit_operations_syntax

text \<open>
  Shared vocabulary of the development: Rust's fixed width integers, the outcome of a
  Rust call (a value, an \<open>Err\<close>, or a panic), byte slices that panic when an index is
  out of range, little-endian integer fields, checked and saturating arithmetic and the
  UTF-8 check of \<open>core::str::from_utf8\<close>.  The laws of reading and writing slices are
  collected in \<open>slice_laws\<close>; every codec proof of the other theories rests on them.
\<close>

named_theorems slice_laws "reading a subslice after a write, and lengths of writes"

type_synonym u8 = "8 word"
type_synonym u16 = "16 word"
type_synonym u32 = "32 word"
type_synonym u64 = "64 word"
type_synonym bytes = "8 word list"

subsection \<open>Outcomes\<close>

text \<open>
  \<open>Result<T, E>\<close> of Rust with the third possibility a call has: it panics (index out
  of range, failed assertion).  \<open>and_then\<close> is the \<open>?\<close> operator.
\<close>

datatype ('a, 'e) res = Ok 'a | Err 'e | Panic

fun and_then :: "('a, 'e) res \<Rightarrow> ('a \<Rightarrow> ('b, 'e) res) \<Rightarrow> ('b, 'e) res" where
  "and_then (Ok x) f = f x"
| "and_then (Err e) f = Err e"
| "and_then Panic f = Panic"

fun map_err :: "('e \<Rightarrow> 'd) \<Rightarrow> ('a, 'e) res \<Rightarrow> ('a, 'd) res" where
  "map_err g (Ok x) = Ok x"
| "map_err g (Err e) = Err (g e)"
| "map_err g Panic = Panic"

fun ok_or :: "'e \<Rightarrow> 'a option \<Rightarrow> ('a, 'e) res" where
  "ok_or e None = Err e"
| "ok_or e (Some x) = Ok x"

fun is_ok :: "('a, 'e) res \<Rightarrow> bool" where
  "is_ok (Ok x) = True"
| "is_ok _ = False"

lemma and_then_Ok_iff: "and_then m f = Ok y \<longleftrightarrow> (\<exists>x. m = Ok x \<and> f x = Ok y)"
  by (cases m) auto

lemma and_then_Panic_iff:
  "and_then m f = Panic \<longleftrightarrow> m = Panic \<or> (\<exists>x. m = Ok x \<and> f x = Panic)"
  by (cases m) auto

lemma and_then_assoc: "and_then (and_then m f) g = and_then m (\<lambda>x. and_then (f x) g)"
  by (cases m) auto

lemma and_then_cong [fundef_cong]:
  "m = m' \<Longrightarrow> (\<And>x. m' = Ok x \<Longrightarrow> f x = f' x) \<Longrightarrow> and_then m f = and_then m' f'"
  by (cases m') auto

lemma ok_or_Ok_iff [simp]: "ok_or e m = Ok y \<longleftrightarrow> m = Some y"
  by (cases m) auto

lemma ok_or_not_Panic [simp]: "ok_or e m \<noteq> Panic"
  by (cases m) auto

lemma map_err_Ok_iff [simp]: "map_err g m = Ok y \<longleftrightarrow> m = Ok y"
  by (cases m) auto

lemma map_err_Panic_iff [simp]: "map_err g m = Panic \<longleftrightarrow> m = Panic"
  by (cases m) auto

subsection \<open>Slices\<close>

text \<open>
  \<open>subslice p i n\<close> is \<open>p[i..i+n]\<close>; \<open>overwrite out i bs\<close> is \<open>out\<close> after
  \<open>out[i..i+bs.len()].copy_from_slice(bs)\<close>.  The checked forms \<open>byte_at\<close>,
  \<open>bytes_at\<close> and \<open>put\<close> panic exactly when Rust does.
\<close>

definition subslice :: "'a list \<Rightarrow> nat \<Rightarrow> nat \<Rightarrow> 'a list" where
  "subslice p i n = take n (drop i p)"

definition overwrite :: "'a list \<Rightarrow> nat \<Rightarrow> 'a list \<Rightarrow> 'a list" where
  "overwrite out i bs = take i out @ bs @ drop (i + length bs) out"

definition byte_at :: "'a list \<Rightarrow> nat \<Rightarrow> ('a, 'e) res" where
  "byte_at p i = (if i < length p then Ok (p ! i) else Panic)"

definition bytes_at :: "'a list \<Rightarrow> nat \<Rightarrow> nat \<Rightarrow> ('a list, 'e) res" where
  "bytes_at p i n = (if i + n \<le> length p then Ok (subslice p i n) else Panic)"

definition put :: "'a list \<Rightarrow> nat \<Rightarrow> 'a list \<Rightarrow> ('a list, 'e) res" where
  "put out i bs = (if i + length bs \<le> length out then Ok (overwrite out i bs) else Panic)"

lemma length_subslice [simp]: "length (subslice p i n) = min n (length p - i)"
  by (simp add: subslice_def)

lemma subslice_0 [simp]: "subslice p i 0 = []"
  by (simp add: subslice_def)

lemma length_overwrite [slice_laws]: "i + length bs \<le> length out \<Longrightarrow> length (overwrite out i bs) = length out"
  by (simp add: overwrite_def)

lemma byte_at_Ok [slice_laws]: "i < length p \<Longrightarrow> byte_at p i = Ok (p ! i)"
  by (simp add: byte_at_def)

lemma bytes_at_Ok [slice_laws]: "i + n \<le> length p \<Longrightarrow> bytes_at p i n = Ok (subslice p i n)"
  by (simp add: bytes_at_def)

lemma put_Ok [slice_laws]: "i + length bs \<le> length out \<Longrightarrow> put out i bs = Ok (overwrite out i bs)"
  by (simp add: put_def)

lemma put_not_Err [simp]: "put out i bs \<noteq> Err e"
  by (simp add: put_def)

lemma nth_overwrite [slice_laws]:
  assumes "i + length bs \<le> length out"
  shows "overwrite out i bs ! j = (if i \<le> j \<and> j < i + length bs then bs ! (j - i) else out ! j)"
proof -
  consider "j < i" | "i \<le> j" "j < i + length bs" | "i + length bs \<le> j" by linarith
  then show ?thesis
  proof cases
    case 3
    then have "j - length (take i out) - length bs = j - (i + length bs)"
      using assms by simp
    with 3 assms show ?thesis
      by (cases "j < length out") (auto simp: overwrite_def nth_append min_def)
  qed (use assms in \<open>auto simp: overwrite_def nth_append min_def\<close>)
qed

lemma subslice_overwrite_same [slice_laws]:
  "i + length bs \<le> length out \<Longrightarrow> n = length bs \<Longrightarrow> subslice (overwrite out i bs) i n = bs"
  by (simp add: subslice_def overwrite_def)

lemma subslice_overwrite_other [slice_laws]:
  assumes "i + length bs \<le> length out" and "j + n \<le> i \<or> i + length bs \<le> j"
  shows "subslice (overwrite out i bs) j n = subslice out j n"
proof (rule nth_equalityI)
  show "length (subslice (overwrite out i bs) j n) = length (subslice out j n)"
    using assms by (simp add: length_overwrite)
  fix k assume "k < length (subslice (overwrite out i bs) j n)"
  then show "subslice (overwrite out i bs) j n ! k = subslice out j n ! k"
    using assms by (auto simp: subslice_def nth_overwrite length_overwrite)
qed

lemma subslice_take [slice_laws]: "j + n \<le> m \<Longrightarrow> subslice (take m p) j n = subslice p j n"
  by (simp add: subslice_def drop_take min_def)

lemma subslice_prefix [slice_laws]: "subslice p 0 n = take n p"
  by (simp add: subslice_def)

lemma take_overwrite_before [slice_laws]:
  "n \<le> i \<Longrightarrow> i \<le> length out \<Longrightarrow> take n (overwrite out i bs) = take n out"
  by (simp add: overwrite_def min_def)

text \<open>
  Fields written one after the other are one write of their concatenation; fields read one
  after the other are the bytes themselves.
\<close>

lemma overwrite_Nil [simp]: "overwrite out i [] = out"
  by (simp add: overwrite_def)

lemma overwrite_compose:
  "i + length xs + length ys \<le> length out \<Longrightarrow> j = i + length xs \<Longrightarrow>
   overwrite (overwrite out i xs) j ys = overwrite out i (xs @ ys)"
  by (simp add: overwrite_def ac_simps)

lemma overwrite_start: "overwrite out 0 xs = xs @ drop (length xs) out"
  by (simp add: overwrite_def)

named_theorems slice_join "reassembling a list from its consecutive fields"

lemma subslice_drop [slice_join]: "j = i + n \<Longrightarrow> subslice p i n @ drop j p = drop i p"
  using append_take_drop_id[of n "drop i p"] by (simp add: subslice_def add.commute)

lemma take_drop_join [slice_join]: "take n p @ drop n p = p"
  by simp

lemma fixed_tail: "length p = n \<Longrightarrow> p = w @ drop n p \<Longrightarrow> p = w"
  by simp

lemma Cons_drop [slice_join]:
  "0 < j \<Longrightarrow> j \<le> length p \<Longrightarrow> p ! (j - 1) = b \<Longrightarrow> b # drop j p = drop (j - 1) p"
  by (metis Cons_nth_drop_Suc Suc_diff_1 Suc_le_eq)

named_theorems slice_read "reading a field of a concatenation"

lemma subslice_append_right [slice_read]:
  "length xs \<le> i \<Longrightarrow> subslice (xs @ ys) i n = subslice ys (i - length xs) n"
  by (simp add: subslice_def)

lemma subslice_append_left [slice_read]:
  "i + n \<le> length xs \<Longrightarrow> subslice (xs @ ys) i n = subslice xs i n"
  by (simp add: subslice_def)

lemma subslice_Cons [slice_read]: "0 < i \<Longrightarrow> subslice (x # ys) i n = subslice ys (i - 1) n"
  by (cases i) (simp_all add: subslice_def)

lemma subslice_full [slice_read]: "length xs \<le> n \<Longrightarrow> subslice xs 0 n = xs"
  by (simp add: subslice_def)

lemma subslice_3:
  "i + 3 \<le> length p \<Longrightarrow> subslice p i 3 = [a, b, c] \<longleftrightarrow> p ! i = a \<and> p ! (i + 1) = b \<and> p ! (i + 2) = c"
  by (simp add: subslice_def numeral_3_eq_3 take_Suc_conv_app_nth)

lemma nth_append_right [slice_read]: "length xs \<le> i \<Longrightarrow> (xs @ ys) ! i = ys ! (i - length xs)"
  by (simp add: nth_append)

lemma subslice_Suc0: "i < length p \<Longrightarrow> subslice p i (Suc 0) = [p ! i]"
  by (simp add: subslice_def take_Suc_conv_app_nth)

lemma take_overwrite [slice_laws]:
  "m = i + length bs \<Longrightarrow> i \<le> length out \<Longrightarrow> take m (overwrite out i bs) = take i out @ bs"
  by (simp add: overwrite_def)

lemma overwrite_append:
  "length xs = i \<Longrightarrow> overwrite (xs @ ys) i bs = xs @ bs @ drop (length bs) ys"
  by (simp add: overwrite_def)

subsection \<open>Little-endian integers\<close>

fun to_le :: "nat \<Rightarrow> 'a::len word \<Rightarrow> bytes" where
  "to_le 0 w = []"
| "to_le (Suc n) w = ucast w # to_le n (drop_bit 8 w)"

fun of_le :: "bytes \<Rightarrow> 'a::len word" where
  "of_le [] = 0"
| "of_le (b # bs) = ucast b OR push_bit 8 (of_le bs)"

lemma length_to_le [simp]: "length (to_le n w) = n"
  by (induction n arbitrary: w) auto

lemma to_le_eq_Nil [simp]: "to_le n w = [] \<longleftrightarrow> n = 0"
  by (metis length_0_conv length_to_le)

lemma bit_of_le_to_le:
  "bit (of_le (to_le n (w :: 'a::len word)) :: 'a word) k \<longleftrightarrow> bit w k \<and> k < 8 * n"
proof (induction n arbitrary: w k)
  case (Suc n)
  have step: "bit (of_le (to_le n (drop_bit 8 w)) :: 'a word) (k - 8)
      \<longleftrightarrow> bit (drop_bit 8 w) (k - 8) \<and> k - 8 < 8 * n"
    by (rule Suc.IH)
  show ?case
  proof (cases "k < 8")
    case True
    then show ?thesis by (auto simp: bit_simps dest: bit_imp_le_length)
  next
    case False
    then have "k = 8 + (k - 8)" by simp
    with False step show ?thesis
      by (auto simp: bit_simps dest: bit_imp_le_length)
  qed
qed simp

lemma of_le_to_le [slice_laws]:
  "LENGTH('a) \<le> 8 * n \<Longrightarrow> of_le (to_le n (w :: 'a::len word)) = w"
  by (rule bit_word_eqI) (auto simp: bit_of_le_to_le dest: bit_imp_le_length)

lemma bit_of_le_low:
  "k < 8 \<Longrightarrow> 8 \<le> LENGTH('a) \<Longrightarrow> bit (of_le (b # bs) :: 'a::len word) k = bit b k"
  by (auto simp: bit_simps)

lemma to_le_of_le [slice_laws]:
  "length bs = n \<Longrightarrow> 8 * n \<le> LENGTH('a) \<Longrightarrow> to_le n (of_le bs :: 'a::len word) = bs"
proof (induction bs arbitrary: n)
  case (Cons b bs)
  then obtain m where n: "n = Suc m" and m: "length bs = m" by auto
  have len: "8 \<le> LENGTH('a)" using Cons.prems n by simp
  have head: "ucast (of_le (b # bs) :: 'a word) = b"
    by (rule bit_word_eqI) (use len in \<open>auto simp: bit_simps\<close>)
  have high: "\<not> bit (of_le bs :: 'a word) k" if "8 * length bs \<le> k" for k bs
    using that
  proof (induction bs arbitrary: k)
    case (Cons c cs)
    then show ?case
      using Cons.IH[of "k - 8"] by (auto simp: bit_simps dest: bit_imp_le_length)
  qed simp
  have tail: "drop_bit 8 (of_le (b # bs) :: 'a word) = of_le bs"
  proof (rule bit_word_eqI)
    fix k assume "k < LENGTH('a)"
    show "bit (drop_bit 8 (of_le (b # bs) :: 'a word)) k = bit (of_le bs :: 'a word) k"
      using high[of bs k] Cons.prems m n
      by (cases "8 + k < LENGTH('a)") (auto simp: bit_simps dest: bit_imp_le_length)
  qed
  show ?case
    using Cons.IH[OF m] Cons.prems n head tail by simp
qed simp

text \<open>
  Fields of a record at a fixed offset: \<open>u32::from_le_bytes([p[i], p[i+1], p[i+2],
  p[i+3]])\<close> and its siblings.
\<close>

definition u16_at :: "bytes \<Rightarrow> nat \<Rightarrow> (u16, 'e) res" where
  "u16_at p i = and_then (bytes_at p i 2) (\<lambda>b. Ok (of_le b))"

definition u32_at :: "bytes \<Rightarrow> nat \<Rightarrow> (u32, 'e) res" where
  "u32_at p i = and_then (bytes_at p i 4) (\<lambda>b. Ok (of_le b))"

definition u64_at :: "bytes \<Rightarrow> nat \<Rightarrow> (u64, 'e) res" where
  "u64_at p i = and_then (bytes_at p i 8) (\<lambda>b. Ok (of_le b))"

lemma u16_at_Ok [slice_laws]: "i + 2 \<le> length p \<Longrightarrow> u16_at p i = Ok (of_le (subslice p i 2))"
  by (simp add: u16_at_def bytes_at_def)

lemma u32_at_Ok [slice_laws]: "i + 4 \<le> length p \<Longrightarrow> u32_at p i = Ok (of_le (subslice p i 4))"
  by (simp add: u32_at_def bytes_at_def)

lemma u64_at_Ok [slice_laws]: "i + 8 \<le> length p \<Longrightarrow> u64_at p i = Ok (of_le (subslice p i 8))"
  by (simp add: u64_at_def bytes_at_def)

lemma at_Panic_iff:
  "byte_at p i = Panic \<longleftrightarrow> length p \<le> i" "bytes_at p i n = Panic \<longleftrightarrow> length p < i + n"
  "u16_at p i = Panic \<longleftrightarrow> length p < i + 2" "u32_at p i = Panic \<longleftrightarrow> length p < i + 4"
  "u64_at p i = Panic \<longleftrightarrow> length p < i + 8"
  by (auto simp: byte_at_def bytes_at_def u16_at_def u32_at_def u64_at_def)

subsection \<open>Integer arithmetic\<close>

definition checked_add :: "'a::len word \<Rightarrow> 'a word \<Rightarrow> 'a word option" where
  "checked_add a b = (if unat a + unat b < 2 ^ LENGTH('a) then Some (a + b) else None)"

definition checked_mul :: "'a::len word \<Rightarrow> 'a word \<Rightarrow> 'a word option" where
  "checked_mul a b = (if unat a * unat b < 2 ^ LENGTH('a) then Some (a * b) else None)"

definition saturating_add :: "'a::len word \<Rightarrow> 'a word \<Rightarrow> 'a word" where
  "saturating_add a b = (if unat a + unat b < 2 ^ LENGTH('a) then a + b else - 1)"

definition saturating_sub :: "'a::len word \<Rightarrow> 'a word \<Rightarrow> 'a word" where
  "saturating_sub a b = (if b \<le> a then a - b else 0)"

lemma unat_add_small: "unat (a :: 'a::len word) + unat b < 2 ^ LENGTH('a) \<Longrightarrow> unat (a + b) = unat a + unat b"
  by (simp add: unat_word_ariths)

lemma checked_add_Some: "checked_add a b = Some c \<longleftrightarrow> unat c = unat a + unat b"
  for a b c :: "'a::len word"
proof
  assume "checked_add a b = Some c"
  then show "unat c = unat a + unat b"
    by (auto simp: checked_add_def unat_add_small split: if_splits)
next
  assume h: "unat c = unat a + unat b"
  moreover have "unat c < 2 ^ LENGTH('a)" by simp
  ultimately have lt: "unat a + unat b < 2 ^ LENGTH('a)" by simp
  then have "unat (a + b) = unat c" using h by (simp add: unat_add_small)
  then have "a + b = c" by (simp only: word_unat_eq_iff)
  then show "checked_add a b = Some c" using lt by (simp add: checked_add_def)
qed

lemma checked_mul_Some: "checked_mul a b = Some c \<Longrightarrow> unat c = unat a * unat b"
  for a b c :: "'a::len word"
  by (auto simp: checked_mul_def unat_word_ariths split: if_splits)

lemma unat_saturating_add:
  "unat (saturating_add a b) = min (unat a + unat b) (2 ^ LENGTH('a) - 1)"
  for a b :: "'a::len word"
  by (auto simp: saturating_add_def unat_add_small unsigned_minus_1_eq_mask mask_eq_exp_minus_1)

lemma unat_saturating_sub: "unat (saturating_sub a b) = unat a - unat b"
  by (auto simp: saturating_sub_def unat_sub word_le_nat_alt)

lemma unat_u8_less: "unat (w :: u8) < 256"
  by (rule order_less_le_trans[OF unsigned_less]) simp

lemma unat_u16_less: "unat (w :: u16) < 65536"
  by (rule order_less_le_trans[OF unsigned_less]) simp

lemma unat_u32_less: "unat (w :: u32) < 4294967296"
  by (rule order_less_le_trans[OF unsigned_less]) simp

subsection \<open>Stateful calls and small vectors\<close>

text \<open>
  A method of a Rust object returns its result together with the object's new state.
  \<open>on_ok r s f\<close> is the \<open>?\<close> operator there: an error leaves the method in state \<open>s\<close>.
  \<open>position\<close> and \<open>remove_at\<close> are \<open>Iterator::position\<close> and \<open>Vec::remove\<close>; \<open>next_id\<close> is
  \<open>wrapping_add(1).max(1)\<close>.
\<close>

fun on_ok :: "('a, 'e) res \<Rightarrow> 's \<Rightarrow> ('a \<Rightarrow> ('b, 'e) res \<times> 's) \<Rightarrow> ('b, 'e) res \<times> 's" where
  "on_ok (Ok x) s f = f x"
| "on_ok (Err e) s f = (Err e, s)"
| "on_ok Panic s f = (Panic, s)"

fun position :: "('a \<Rightarrow> bool) \<Rightarrow> 'a list \<Rightarrow> nat option" where
  "position P [] = None"
| "position P (x # xs) = (if P x then Some 0 else map_option Suc (position P xs))"

definition remove_at :: "nat \<Rightarrow> 'a list \<Rightarrow> 'a list" where
  "remove_at i xs = take i xs @ drop (Suc i) xs"

definition next_id :: "u32 \<Rightarrow> u32" where
  "next_id v = (if v + 1 = 0 then 1 else v + 1)"

lemma position_None [simp]: "position P xs = None \<longleftrightarrow> (\<forall>x\<in>set xs. \<not> P x)"
  by (induction xs) auto

lemma position_Some: "position P xs = Some i \<longleftrightarrow> i < length xs \<and> P (xs ! i) \<and> (\<forall>j<i. \<not> P (xs ! j))"
proof (induction xs arbitrary: i)
  case (Cons x xs)
  show ?case by (cases i) (auto simp: Cons.IH All_less_Suc2)
qed simp

lemma position_SomeD: "position P xs = Some i \<Longrightarrow> i < length xs \<and> P (xs ! i)"
  by (simp add: position_Some)

lemma length_remove_at [simp]: "i < length xs \<Longrightarrow> length (remove_at i xs) = length xs - 1"
  by (simp add: remove_at_def)

lemma remove_at_0 [simp]: "remove_at 0 (x # xs) = xs"
  by (simp add: remove_at_def)

lemma set_remove_at_subset: "set (remove_at i xs) \<subseteq> set xs"
  by (auto simp: remove_at_def dest: in_set_takeD in_set_dropD)

lemma remove_at_split: "i < length xs \<Longrightarrow> xs = take i xs @ xs ! i # drop (Suc i) xs"
  by (rule id_take_nth_drop)

lemma set_remove_at:
  assumes "i < length xs"
  shows "set xs = insert (xs ! i) (set (remove_at i xs))"
  by (subst remove_at_split[OF assms]) (auto simp: remove_at_def)

lemma distinct_remove_at:
  assumes "distinct xs" and "i < length xs"
  shows "distinct (remove_at i xs) \<and> xs ! i \<notin> set (remove_at i xs)"
proof -
  have "distinct (take i xs @ xs ! i # drop (Suc i) xs)"
    using assms remove_at_split[OF assms(2)] by simp
  then show ?thesis by (auto simp: remove_at_def)
qed

lemma map_remove_at: "map f (remove_at i xs) = remove_at i (map f xs)"
  by (simp add: remove_at_def take_map drop_map)

lemma on_ok_split:
  "P (on_ok r s f) \<longleftrightarrow> (\<forall>x. r = Ok x \<longrightarrow> P (f x)) \<and> (\<forall>e. r = Err e \<longrightarrow> P (Err e, s)) \<and> (r = Panic \<longrightarrow> P (Panic, s))"
  by (cases r) simp_all

lemma on_ok_split_asm:
  "P (on_ok r s f) \<longleftrightarrow> \<not> ((\<exists>x. r = Ok x \<and> \<not> P (f x)) \<or> (\<exists>e. r = Err e \<and> \<not> P (Err e, s)) \<or> (r = Panic \<and> \<not> P (Panic, s)))"
  by (cases r) simp_all

lemma next_id_neq: "next_id v \<noteq> 0" "next_id v \<noteq> v"
proof -
  show "next_id v \<noteq> 0" by (simp add: next_id_def)
  have "v + 1 \<noteq> v" by simp
  moreover have "v + 1 = 0 \<Longrightarrow> v \<noteq> 1" by auto
  ultimately show "next_id v \<noteq> v" by (auto simp: next_id_def)
qed

subsection \<open>UTF-8\<close>

text \<open>
  \<open>core::str::from_utf8(p).is_ok()\<close>: the well-formed byte sequences of the Unicode
  standard (no overlong forms, no surrogates, nothing above U+10FFFF).
\<close>

definition utf8_cont :: "u8 \<Rightarrow> bool" where
  "utf8_cont b = (0x80 \<le> b \<and> b \<le> 0xBF)"

fun utf8_valid :: "bytes \<Rightarrow> bool" where
  "utf8_valid [] = True"
| "utf8_valid (a # rest) =
    (if a < 0x80 then utf8_valid rest
     else case rest of
       [] \<Rightarrow> False
     | b # rest1 \<Rightarrow>
        (if 0xC2 \<le> a \<and> a \<le> 0xDF then utf8_cont b \<and> utf8_valid rest1
         else case rest1 of
           [] \<Rightarrow> False
         | c # rest2 \<Rightarrow>
            (if a = 0xE0 then 0xA0 \<le> b \<and> b \<le> 0xBF \<and> utf8_cont c \<and> utf8_valid rest2
             else if a = 0xED then 0x80 \<le> b \<and> b \<le> 0x9F \<and> utf8_cont c \<and> utf8_valid rest2
             else if 0xE1 \<le> a \<and> a \<le> 0xEF then utf8_cont b \<and> utf8_cont c \<and> utf8_valid rest2
             else case rest2 of
               [] \<Rightarrow> False
             | d # rest3 \<Rightarrow>
                (if a = 0xF0 then 0x90 \<le> b \<and> b \<le> 0xBF \<and> utf8_cont c \<and> utf8_cont d \<and> utf8_valid rest3
                 else if 0xF1 \<le> a \<and> a \<le> 0xF3 then utf8_cont b \<and> utf8_cont c \<and> utf8_cont d \<and> utf8_valid rest3
                 else if a = 0xF4 then 0x80 \<le> b \<and> b \<le> 0x8F \<and> utf8_cont c \<and> utf8_cont d \<and> utf8_valid rest3
                 else False))))"

end
