(* ===== verification/Protocol_Types.thy ===== *)
theory Protocol_Types
  imports Prelude
begin

text \<open>
  The constants, error codes and one-byte enumerations of the diagnostic protocol
  (\<^verbatim>\<open>types.rs\<close> and the enumerations next to the messages that use them in
  \<^verbatim>\<open>transfer_trace.rs\<close>, \<^verbatim>\<open>bulk_control.rs\<close>,
  \<^verbatim>\<open>storage.rs\<close> and \<^verbatim>\<open>sd_write_trace.rs\<close>).  \<open>X_to_u8\<close> is the
  discriminant (\<open>x as u8\<close>), \<open>X_from_u8\<close> the hand written inverse.  What every
  message codec needs of an enumeration is the contract \<open>wire_enum\<close>.
\<close>

subsection \<open>Constants and errors\<close>

definition PROTOCOL_VERSION :: u8 where [simp]: "PROTOCOL_VERSION = 2"
definition MAX_FRAME_BYTES :: nat where [simp]: "MAX_FRAME_BYTES = 4126"
definition MAX_PAYLOAD_BYTES :: nat where [simp]: "MAX_PAYLOAD_BYTES = 4096"
definition FRAME_DELIMITER :: u8 where [simp]: "FRAME_DELIMITER = 0"
definition MAGIC :: bytes where [simp]: "MAGIC = [0x42, 0x42]"
definition HELLO_ID_MAX_BYTES :: nat where [simp]: "HELLO_ID_MAX_BYTES = 16"

datatype ProtocolError =
    OutputTooSmall
  | BadMagic
  | BadCrc
  | FrameTooLarge
  | BadCobs
  | UnknownOpcode
  | PayloadTooLarge
  | BadStatus
  | BadPayloadLength
  | BadVersion
  | InvalidValue

subsection \<open>The contract of a wire enumeration\<close>

locale wire_enum =
  fixes to_u8 :: "'a \<Rightarrow> u8"
    and from_u8 :: "u8 \<Rightarrow> 'a option"
  assumes from_to [simp]: "from_u8 (to_u8 x) = Some x"
    and to_from: "from_u8 v = Some x \<Longrightarrow> to_u8 x = v"
begin

lemma from_u8_Some_iff: "from_u8 v = Some x \<longleftrightarrow> v = to_u8 x"
  using from_to to_from by blast

lemma to_u8_inject: "to_u8 x = to_u8 y \<longleftrightarrow> x = y"
  by (metis from_to option.inject)

lemma from_u8_None_iff: "from_u8 v = None \<longleftrightarrow> v \<notin> range to_u8"
  using from_u8_Some_iff by (metis not_None_eq rangeE rangeI)

end

lemma if_SomeE:
  assumes "(if c then Some a else r) = Some x"
  obtains "c" "a = x" | "r = Some x"
  using assms by (auto split: if_splits)

subsection \<open>The enumerations\<close>

datatype FrameKind =
    Fk_Request
  | Fk_Response
  | Fk_Event

primrec FrameKind_to_u8 :: "FrameKind \<Rightarrow> u8" where
  "FrameKind_to_u8 Fk_Request = 1"
| "FrameKind_to_u8 Fk_Response = 2"
| "FrameKind_to_u8 Fk_Event = 3"

definition FrameKind_from_u8 :: "u8 \<Rightarrow> FrameKind option" where
  "FrameKind_from_u8 v =
    (if v = 1 then Some Fk_Request
     else if v = 2 then Some Fk_Response
     else if v = 3 then Some Fk_Event
     else None)"

interpretation frameKind_wire: wire_enum FrameKind_to_u8 FrameKind_from_u8
proof
  show "FrameKind_from_u8 (FrameKind_to_u8 x) = Some x" for x
    by (cases x) (simp_all add: FrameKind_from_u8_def)
  show "FrameKind_to_u8 x = v" if "FrameKind_from_u8 v = Some x" for v x
    using that unfolding FrameKind_from_u8_def by (elim if_SomeE) auto
qed

datatype Opcode =
    Op_Hello
  | Op_Key
  | Op_Page
  | Op_Status
  | Op_LogGet
  | Op_LogClear
  | Op_CrashGet
  | Op_CrashClear
  | Op_DisplayProbe
  | Op_StoreList
  | Op_StoreUploadBegin
  | Op_StoreUploadWrite
  | Op_StoreUploadCommit
  | Op_StoreAbort
  | Op_StoreDelete
  | Op_StoreRead
  | Op_RefreshMode
  | Op_StoreTransferLimits
  | Op_StoreTransferTrace
  | Op_StoreBulkOpen
  | Op_StoreBulkData
  | Op_StoreBulkCredit
  | Op_StoreBulkStatus
  | Op_StoreBulkFinish
  | Op_StoreBulkAbort
  | Op_StoreSdWriteTrace

primrec Opcode_to_u8 :: "Opcode \<Rightarrow> u8" where
  "Opcode_to_u8 Op_Hello = 1"
| "Opcode_to_u8 Op_Key = 2"
| "Opcode_to_u8 Op_Page = 3"
| "Opcode_to_u8 Op_Status = 4"
| "Opcode_to_u8 Op_LogGet = 5"
| "Opcode_to_u8 Op_LogClear = 6"
| "Opcode_to_u8 Op_CrashGet = 7"
| "Opcode_to_u8 Op_CrashClear = 8"
| "Opcode_to_u8 Op_DisplayProbe = 9"
| "Opcode_to_u8 Op_StoreList = 10"
| "Opcode_to_u8 Op_StoreUploadBegin = 11"
| "Opcode_to_u8 Op_StoreUploadWrite = 12"
| "Opcode_to_u8 Op_StoreUploadCommit = 13"
| "Opcode_to_u8 Op_StoreAbort = 14"
| "Opcode_to_u8 Op_StoreDelete = 15"
| "Opcode_to_u8 Op_StoreRead = 16"
| "Opcode_to_u8 Op_RefreshMode = 17"
| "Opcode_to_u8 Op_StoreTransferLimits = 18"
| "Opcode_to_u8 Op_StoreTransferTrace = 19"
| "Opcode_to_u8 Op_StoreBulkOpen = 20"
| "Opcode_to_u8 Op_StoreBulkData = 21"
| "Opcode_to_u8 Op_StoreBulkCredit = 22"
| "Opcode_to_u8 Op_StoreBulkStatus = 23"
| "Opcode_to_u8 Op_StoreBulkFinish = 24"
| "Opcode_to_u8 Op_StoreBulkAbort = 25"
| "Opcode_to_u8 Op_StoreSdWriteTrace = 26"

definition Opcode_from_u8 :: "u8 \<Rightarrow> Opcode option" where
  "Opcode_from_u8 v =
    (if v = 1 then Some Op_Hello
     else if v = 2 then Some Op_Key
     else if v = 3 then Some Op_Page
     else if v = 4 then Some Op_Status
     else if v = 5 then Some Op_LogGet
     else if v = 6 then Some Op_LogClear
     else if v = 7 then Some Op_CrashGet
     else if v = 8 then Some Op_CrashClear
     else if v = 9 then Some Op_DisplayProbe
     else if v = 10 then Some Op_StoreList
     else if v = 11 then Some Op_StoreUploadBegin
     else if v = 12 then Some Op_StoreUploadWrite
     else if v = 13 then Some Op_StoreUploadCommit
     else if v = 14 then Some Op_StoreAbort
     else if v = 15 then Some Op_StoreDelete
     else if v = 16 then Some Op_StoreRead
     else if v = 17 then Some Op_RefreshMode
     else if v = 18 then Some Op_StoreTransferLimits
     else if v = 19 then Some Op_StoreTransferTrace
     else if v = 20 then Some Op_StoreBulkOpen
     else if v = 21 then Some Op_StoreBulkData
     else if v = 22 then Some Op_StoreBulkCredit
     else if v = 23 then Some Op_StoreBulkStatus
     else if v = 24 then Some Op_StoreBulkFinish
     else if v = 25 then Some Op_StoreBulkAbort
     else if v = 26 then Some Op_StoreSdWriteTrace
     else None)"

interpretation opcode_wire: wire_enum Opcode_to_u8 Opcode_from_u8
proof
  show "Opcode_from_u8 (Opcode_to_u8 x) = Some x" for x
    by (cases x) (simp_all add: Opcode_from_u8_def)
  show "Opcode_to_u8 x = v" if "Opcode_from_u8 v = Some x" for v x
    using that unfolding Opcode_from_u8_def by (elim if_SomeE) auto
qed

datatype Status =
    St_Ok
  | St_Error
  | St_BadRequest
  | St_NotFound
  | St_InternalError
  | St_Unsupported

primrec Status_to_u8 :: "Status \<Rightarrow> u8" where
  "Status_to_u8 St_Ok = 0"
| "Status_to_u8 St_Error = 1"
| "Status_to_u8 St_BadRequest = 2"
| "Status_to_u8 St_NotFound = 3"
| "Status_to_u8 St_InternalError = 4"
| "Status_to_u8 St_Unsupported = 5"

definition Status_from_u8 :: "u8 \<Rightarrow> Status option" where
  "Status_from_u8 v =
    (if v = 0 then Some St_Ok
     else if v = 1 then Some St_Error
     else if v = 2 then Some St_BadRequest
     else if v = 3 then Some St_NotFound
     else if v = 4 then Some St_InternalError
     else if v = 5 then Some St_Unsupported
     else None)"

interpretation status_wire: wire_enum Status_to_u8 Status_from_u8
proof
  show "Status_from_u8 (Status_to_u8 x) = Some x" for x
    by (cases x) (simp_all add: Status_from_u8_def)
  show "Status_to_u8 x = v" if "Status_from_u8 v = Some x" for v x
    using that unfolding Status_from_u8_def by (elim if_SomeE) auto
qed

datatype StorageBackend =
    Sb_Sd
  | Sb_Flash

primrec StorageBackend_to_u8 :: "StorageBackend \<Rightarrow> u8" where
  "StorageBackend_to_u8 Sb_Sd = 0"
| "StorageBackend_to_u8 Sb_Flash = 1"

definition StorageBackend_from_u8 :: "u8 \<Rightarrow> StorageBackend option" where
  "StorageBackend_from_u8 v =
    (if v = 0 then Some Sb_Sd
     else if v = 1 then Some Sb_Flash
     else None)"

interpretation storageBackend_wire: wire_enum StorageBackend_to_u8 StorageBackend_from_u8
proof
  show "StorageBackend_from_u8 (StorageBackend_to_u8 x) = Some x" for x
    by (cases x) (simp_all add: StorageBackend_from_u8_def)
  show "StorageBackend_to_u8 x = v" if "StorageBackend_from_u8 v = Some x" for v x
    using that unfolding StorageBackend_from_u8_def by (elim if_SomeE) auto
qed

datatype KeyCode =
    Key_Left
  | Key_Right
  | Key_Up
  | Key_Down
  | Key_Select
  | Key_Back
  | Key_Power

primrec KeyCode_to_u8 :: "KeyCode \<Rightarrow> u8" where
  "KeyCode_to_u8 Key_Left = 1"
| "KeyCode_to_u8 Key_Right = 2"
| "KeyCode_to_u8 Key_Up = 3"
| "KeyCode_to_u8 Key_Down = 4"
| "KeyCode_to_u8 Key_Select = 5"
| "KeyCode_to_u8 Key_Back = 6"
| "KeyCode_to_u8 Key_Power = 7"

definition KeyCode_from_u8 :: "u8 \<Rightarrow> KeyCode option" where
  "KeyCode_from_u8 v =
    (if v = 1 then Some Key_Left
     else if v = 2 then Some Key_Right
     else if v = 3 then Some Key_Up
     else if v = 4 then Some Key_Down
     else if v = 5 then Some Key_Select
     else if v = 6 then Some Key_Back
     else if v = 7 then Some Key_Power
     else None)"

interpretation keyCode_wire: wire_enum KeyCode_to_u8 KeyCode_from_u8
proof
  show "KeyCode_from_u8 (KeyCode_to_u8 x) = Some x" for x
    by (cases x) (simp_all add: KeyCode_from_u8_def)
  show "KeyCode_to_u8 x = v" if "KeyCode_from_u8 v = Some x" for v x
    using that unfolding KeyCode_from_u8_def by (elim if_SomeE) auto
qed

datatype KeyAction =
    Ka_Press
  | Ka_Release

primrec KeyAction_to_u8 :: "KeyAction \<Rightarrow> u8" where
  "KeyAction_to_u8 Ka_Press = 1"
| "KeyAction_to_u8 Ka_Release = 2"

definition KeyAction_from_u8 :: "u8 \<Rightarrow> KeyAction option" where
  "KeyAction_from_u8 v =
    (if v = 1 then Some Ka_Press
     else if v = 2 then Some Ka_Release
     else None)"

interpretation keyAction_wire: wire_enum KeyAction_to_u8 KeyAction_from_u8
proof
  show "KeyAction_from_u8 (KeyAction_to_u8 x) = Some x" for x
    by (cases x) (simp_all add: KeyAction_from_u8_def)
  show "KeyAction_to_u8 x = v" if "KeyAction_from_u8 v = Some x" for v x
    using that unfolding KeyAction_from_u8_def by (elim if_SomeE) auto
qed

datatype PageAction =
    Pa_Next
  | Pa_Previous
  | Pa_First
  | Pa_Last
  | Pa_Goto
  | Pa_Current

primrec PageAction_to_u8 :: "PageAction \<Rightarrow> u8" where
  "PageAction_to_u8 Pa_Next = 1"
| "PageAction_to_u8 Pa_Previous = 2"
| "PageAction_to_u8 Pa_First = 3"
| "PageAction_to_u8 Pa_Last = 4"
| "PageAction_to_u8 Pa_Goto = 5"
| "PageAction_to_u8 Pa_Current = 6"

definition PageAction_from_u8 :: "u8 \<Rightarrow> PageAction option" where
  "PageAction_from_u8 v =
    (if v = 1 then Some Pa_Next
     else if v = 2 then Some Pa_Previous
     else if v = 3 then Some Pa_First
     else if v = 4 then Some Pa_Last
     else if v = 5 then Some Pa_Goto
     else if v = 6 then Some Pa_Current
     else None)"

interpretation pageAction_wire: wire_enum PageAction_to_u8 PageAction_from_u8
proof
  show "PageAction_from_u8 (PageAction_to_u8 x) = Some x" for x
    by (cases x) (simp_all add: PageAction_from_u8_def)
  show "PageAction_to_u8 x = v" if "PageAction_from_u8 v = Some x" for v x
    using that unfolding PageAction_from_u8_def by (elim if_SomeE) auto
qed

datatype PanelModeCode =
    Pm_Unknown
  | Pm_Grayscale
  | Pm_Bw

primrec PanelModeCode_to_u8 :: "PanelModeCode \<Rightarrow> u8" where
  "PanelModeCode_to_u8 Pm_Unknown = 0"
| "PanelModeCode_to_u8 Pm_Grayscale = 1"
| "PanelModeCode_to_u8 Pm_Bw = 2"

definition PanelModeCode_from_u8 :: "u8 \<Rightarrow> PanelModeCode option" where
  "PanelModeCode_from_u8 v =
    (if v = 0 then Some Pm_Unknown
     else if v = 1 then Some Pm_Grayscale
     else if v = 2 then Some Pm_Bw
     else None)"

interpretation panelModeCode_wire: wire_enum PanelModeCode_to_u8 PanelModeCode_from_u8
proof
  show "PanelModeCode_from_u8 (PanelModeCode_to_u8 x) = Some x" for x
    by (cases x) (simp_all add: PanelModeCode_from_u8_def)
  show "PanelModeCode_to_u8 x = v" if "PanelModeCode_from_u8 v = Some x" for v x
    using that unfolding PanelModeCode_from_u8_def by (elim if_SomeE) auto
qed

datatype ProbeCode =
    Pr_FullRefreshCurrent
  | Pr_ClearWhite
  | Pr_WindowCorners
  | Pr_PartialWindowBusyMatrix
  | Pr_CustomLutFastA
  | Pr_CustomLutFastB

primrec ProbeCode_to_u8 :: "ProbeCode \<Rightarrow> u8" where
  "ProbeCode_to_u8 Pr_FullRefreshCurrent = 1"
| "ProbeCode_to_u8 Pr_ClearWhite = 2"
| "ProbeCode_to_u8 Pr_WindowCorners = 3"
| "ProbeCode_to_u8 Pr_PartialWindowBusyMatrix = 4"
| "ProbeCode_to_u8 Pr_CustomLutFastA = 5"
| "ProbeCode_to_u8 Pr_CustomLutFastB = 6"

definition ProbeCode_from_u8 :: "u8 \<Rightarrow> ProbeCode option" where
  "ProbeCode_from_u8 v =
    (if v = 1 then Some Pr_FullRefreshCurrent
     else if v = 2 then Some Pr_ClearWhite
     else if v = 3 then Some Pr_WindowCorners
     else if v = 4 then Some Pr_PartialWindowBusyMatrix
     else if v = 5 then Some Pr_CustomLutFastA
     else if v = 6 then Some Pr_CustomLutFastB
     else None)"

interpretation probeCode_wire: wire_enum ProbeCode_to_u8 ProbeCode_from_u8
proof
  show "ProbeCode_from_u8 (ProbeCode_to_u8 x) = Some x" for x
    by (cases x) (simp_all add: ProbeCode_from_u8_def)
  show "ProbeCode_to_u8 x = v" if "ProbeCode_from_u8 v = Some x" for v x
    using that unfolding ProbeCode_from_u8_def by (elim if_SomeE) auto
qed

datatype RefreshModeAction =
    Ra_Get
  | Ra_Set

primrec RefreshModeAction_to_u8 :: "RefreshModeAction \<Rightarrow> u8" where
  "RefreshModeAction_to_u8 Ra_Get = 1"
| "RefreshModeAction_to_u8 Ra_Set = 2"

definition RefreshModeAction_from_u8 :: "u8 \<Rightarrow> RefreshModeAction option" where
  "RefreshModeAction_from_u8 v =
    (if v = 1 then Some Ra_Get
     else if v = 2 then Some Ra_Set
     else None)"

interpretation refreshModeAction_wire: wire_enum RefreshModeAction_to_u8 RefreshModeAction_from_u8
proof
  show "RefreshModeAction_from_u8 (RefreshModeAction_to_u8 x) = Some x" for x
    by (cases x) (simp_all add: RefreshModeAction_from_u8_def)
  show "RefreshModeAction_to_u8 x = v" if "RefreshModeAction_from_u8 v = Some x" for v x
    using that unfolding RefreshModeAction_from_u8_def by (elim if_SomeE) auto
qed

datatype RefreshModeCode =
    Rm_Balanced
  | Rm_Fast

primrec RefreshModeCode_to_u8 :: "RefreshModeCode \<Rightarrow> u8" where
  "RefreshModeCode_to_u8 Rm_Balanced = 0"
| "RefreshModeCode_to_u8 Rm_Fast = 1"

definition RefreshModeCode_from_u8 :: "u8 \<Rightarrow> RefreshModeCode option" where
  "RefreshModeCode_from_u8 v =
    (if v = 0 then Some Rm_Balanced
     else if v = 1 then Some Rm_Fast
     else None)"

interpretation refreshModeCode_wire: wire_enum RefreshModeCode_to_u8 RefreshModeCode_from_u8
proof
  show "RefreshModeCode_from_u8 (RefreshModeCode_to_u8 x) = Some x" for x
    by (cases x) (simp_all add: RefreshModeCode_from_u8_def)
  show "RefreshModeCode_to_u8 x = v" if "RefreshModeCode_from_u8 v = Some x" for v x
    using that unfolding RefreshModeCode_from_u8_def by (elim if_SomeE) auto
qed

datatype TransferDirection =
    Td_Upload
  | Td_Readback
  | Td_Unspecified

primrec TransferDirection_to_u8 :: "TransferDirection \<Rightarrow> u8" where
  "TransferDirection_to_u8 Td_Upload = 0"
| "TransferDirection_to_u8 Td_Readback = 1"
| "TransferDirection_to_u8 Td_Unspecified = 255"

definition TransferDirection_from_u8 :: "u8 \<Rightarrow> TransferDirection option" where
  "TransferDirection_from_u8 v =
    (if v = 0 then Some Td_Upload
     else if v = 1 then Some Td_Readback
     else if v = 255 then Some Td_Unspecified
     else None)"

interpretation transferDirection_wire: wire_enum TransferDirection_to_u8 TransferDirection_from_u8
proof
  show "TransferDirection_from_u8 (TransferDirection_to_u8 x) = Some x" for x
    by (cases x) (simp_all add: TransferDirection_from_u8_def)
  show "TransferDirection_to_u8 x = v" if "TransferDirection_from_u8 v = Some x" for v x
    using that unfolding TransferDirection_from_u8_def by (elim if_SomeE) auto
qed

datatype TransferTraceAction =
    Ta_Start
  | Ta_Get
  | Ta_Clear

primrec TransferTraceAction_to_u8 :: "TransferTraceAction \<Rightarrow> u8" where
  "TransferTraceAction_to_u8 Ta_Start = 0"
| "TransferTraceAction_to_u8 Ta_Get = 1"
| "TransferTraceAction_to_u8 Ta_Clear = 2"

definition TransferTraceAction_from_u8 :: "u8 \<Rightarrow> TransferTraceAction option" where
  "TransferTraceAction_from_u8 v =
    (if v = 0 then Some Ta_Start
     else if v = 1 then Some Ta_Get
     else if v = 2 then Some Ta_Clear
     else None)"

interpretation transferTraceAction_wire: wire_enum TransferTraceAction_to_u8 TransferTraceAction_from_u8
proof
  show "TransferTraceAction_from_u8 (TransferTraceAction_to_u8 x) = Some x" for x
    by (cases x) (simp_all add: TransferTraceAction_from_u8_def)
  show "TransferTraceAction_to_u8 x = v" if "TransferTraceAction_from_u8 v = Some x" for v x
    using that unfolding TransferTraceAction_from_u8_def by (elim if_SomeE) auto
qed

datatype TransferTraceState =
    Ts_Active
  | Ts_Succeeded
  | Ts_Failed
  | Ts_Aborted

primrec TransferTraceState_to_u8 :: "TransferTraceState \<Rightarrow> u8" where
  "TransferTraceState_to_u8 Ts_Active = 0"
| "TransferTraceState_to_u8 Ts_Succeeded = 1"
| "TransferTraceState_to_u8 Ts_Failed = 2"
| "TransferTraceState_to_u8 Ts_Aborted = 3"

definition TransferTraceState_from_u8 :: "u8 \<Rightarrow> TransferTraceState option" where
  "TransferTraceState_from_u8 v =
    (if v = 0 then Some Ts_Active
     else if v = 1 then Some Ts_Succeeded
     else if v = 2 then Some Ts_Failed
     else if v = 3 then Some Ts_Aborted
     else None)"

interpretation transferTraceState_wire: wire_enum TransferTraceState_to_u8 TransferTraceState_from_u8
proof
  show "TransferTraceState_from_u8 (TransferTraceState_to_u8 x) = Some x" for x
    by (cases x) (simp_all add: TransferTraceState_from_u8_def)
  show "TransferTraceState_to_u8 x = v" if "TransferTraceState_from_u8 v = Some x" for v x
    using that unfolding TransferTraceState_from_u8_def by (elim if_SomeE) auto
qed

datatype StoreBulkState =
    Bs_Receiving
  | Bs_Finishing
  | Bs_Complete
  | Bs_Failed

primrec StoreBulkState_to_u8 :: "StoreBulkState \<Rightarrow> u8" where
  "StoreBulkState_to_u8 Bs_Receiving = 0"
| "StoreBulkState_to_u8 Bs_Finishing = 1"
| "StoreBulkState_to_u8 Bs_Complete = 2"
| "StoreBulkState_to_u8 Bs_Failed = 3"

definition StoreBulkState_from_u8 :: "u8 \<Rightarrow> StoreBulkState option" where
  "StoreBulkState_from_u8 v =
    (if v = 0 then Some Bs_Receiving
     else if v = 1 then Some Bs_Finishing
     else if v = 2 then Some Bs_Complete
     else if v = 3 then Some Bs_Failed
     else None)"

interpretation storeBulkState_wire: wire_enum StoreBulkState_to_u8 StoreBulkState_from_u8
proof
  show "StoreBulkState_from_u8 (StoreBulkState_to_u8 x) = Some x" for x
    by (cases x) (simp_all add: StoreBulkState_from_u8_def)
  show "StoreBulkState_to_u8 x = v" if "StoreBulkState_from_u8 v = Some x" for v x
    using that unfolding StoreBulkState_from_u8_def by (elim if_SomeE) auto
qed

datatype StoreUploadCommitResult =
    Uc_Ok
  | Uc_CrcMismatch

primrec StoreUploadCommitResult_to_u8 :: "StoreUploadCommitResult \<Rightarrow> u8" where
  "StoreUploadCommitResult_to_u8 Uc_Ok = 0"
| "StoreUploadCommitResult_to_u8 Uc_CrcMismatch = 1"

definition StoreUploadCommitResult_from_u8 :: "u8 \<Rightarrow> StoreUploadCommitResult option" where
  "StoreUploadCommitResult_from_u8 v =
    (if v = 0 then Some Uc_Ok
     else if v = 1 then Some Uc_CrcMismatch
     else None)"

interpretation storeUploadCommitResult_wire: wire_enum StoreUploadCommitResult_to_u8 StoreUploadCommitResult_from_u8
proof
  show "StoreUploadCommitResult_from_u8 (StoreUploadCommitResult_to_u8 x) = Some x" for x
    by (cases x) (simp_all add: StoreUploadCommitResult_from_u8_def)
  show "StoreUploadCommitResult_to_u8 x = v" if "StoreUploadCommitResult_from_u8 v = Some x" for v x
    using that unfolding StoreUploadCommitResult_from_u8_def by (elim if_SomeE) auto
qed

datatype SdSectorPurpose =
    Sp_Unknown
  | Sp_Reserved
  | Sp_Fat0
  | Sp_Fat1
  | Sp_Directory
  | Sp_Journal
  | Sp_Payload
  | Sp_DataOther
  | Sp_OutsideVolume

primrec SdSectorPurpose_to_u8 :: "SdSectorPurpose \<Rightarrow> u8" where
  "SdSectorPurpose_to_u8 Sp_Unknown = 0"
| "SdSectorPurpose_to_u8 Sp_Reserved = 1"
| "SdSectorPurpose_to_u8 Sp_Fat0 = 2"
| "SdSectorPurpose_to_u8 Sp_Fat1 = 3"
| "SdSectorPurpose_to_u8 Sp_Directory = 4"
| "SdSectorPurpose_to_u8 Sp_Journal = 5"
| "SdSectorPurpose_to_u8 Sp_Payload = 6"
| "SdSectorPurpose_to_u8 Sp_DataOther = 7"
| "SdSectorPurpose_to_u8 Sp_OutsideVolume = 8"

definition SdSectorPurpose_from_u8 :: "u8 \<Rightarrow> SdSectorPurpose option" where
  "SdSectorPurpose_from_u8 v =
    (if v = 0 then Some Sp_Unknown
     else if v = 1 then Some Sp_Reserved
     else if v = 2 then Some Sp_Fat0
     else if v = 3 then Some Sp_Fat1
     else if v = 4 then Some Sp_Directory
     else if v = 5 then Some Sp_Journal
     else if v = 6 then Some Sp_Payload
     else if v = 7 then Some Sp_DataOther
     else if v = 8 then Some Sp_OutsideVolume
     else None)"

interpretation sdSectorPurpose_wire: wire_enum SdSectorPurpose_to_u8 SdSectorPurpose_from_u8
proof
  show "SdSectorPurpose_from_u8 (SdSectorPurpose_to_u8 x) = Some x" for x
    by (cases x) (simp_all add: SdSectorPurpose_from_u8_def)
  show "SdSectorPurpose_to_u8 x = v" if "SdSectorPurpose_from_u8 v = Some x" for v x
    using that unfolding SdSectorPurpose_from_u8_def by (elim if_SomeE) auto
qed

datatype SdWriteTraceAction =
    Sa_Clear
  | Sa_Get
  | Sa_Freeze

primrec SdWriteTraceAction_to_u8 :: "SdWriteTraceAction \<Rightarrow> u8" where
  "SdWriteTraceAction_to_u8 Sa_Clear = 0"
| "SdWriteTraceAction_to_u8 Sa_Get = 1"
| "SdWriteTraceAction_to_u8 Sa_Freeze = 2"

definition SdWriteTraceAction_from_u8 :: "u8 \<Rightarrow> SdWriteTraceAction option" where
  "SdWriteTraceAction_from_u8 v =
    (if v = 0 then Some Sa_Clear
     else if v = 1 then Some Sa_Get
     else if v = 2 then Some Sa_Freeze
     else None)"

interpretation sdWriteTraceAction_wire: wire_enum SdWriteTraceAction_to_u8 SdWriteTraceAction_from_u8
proof
  show "SdWriteTraceAction_from_u8 (SdWriteTraceAction_to_u8 x) = Some x" for x
    by (cases x) (simp_all add: SdWriteTraceAction_from_u8_def)
  show "SdWriteTraceAction_to_u8 x = v" if "SdWriteTraceAction_from_u8 v = Some x" for v x
    using that unfolding SdWriteTraceAction_from_u8_def by (elim if_SomeE) auto
qed

end
