(* ===== verification/Cobs.thy ===== *)
theory Cobs
  imports Protocol_Types
begin

text \<open>
  Byte stuffing and the frame checksum (\<^verbatim>\<open>cobs.rs\<close>): the table driven CRC-16,
  \<open>cobs_encode\<close>, \<open>cobs_decode\<close> and the in-place decoder, translated with their
  read and write positions over the output buffer.  \<open>enc_blocks\<close>, \<open>dec_blocks\<close>
  and \<open>survives\<close> are the abstract specification they refine.
\<close>

subsection \<open>CRC-16/CCITT-FALSE\<close>

definition crc16_bit :: "u16 \<Rightarrow> u16" where
  "crc16_bit value =
    (if value AND 0x8000 \<noteq> 0 then push_bit 1 value XOR 0x1021 else push_bit 1 value)"

definition make_crc16_table :: "u16 list" where
  "make_crc16_table = map (\<lambda>index. (crc16_bit ^^ 8) (push_bit 8 (of_nat index))) [0..<256]"

fun crc16_loop :: "u16 \<Rightarrow> bytes \<Rightarrow> u16" where
  "crc16_loop crc [] = crc"
| "crc16_loop crc (byte # data) =
    crc16_loop (push_bit 8 crc XOR make_crc16_table ! unat (drop_bit 8 crc XOR ucast byte)) data"

definition crc16_ccitt_false :: "bytes \<Rightarrow> u16" where
  "crc16_ccitt_false data = crc16_loop 0xFFFF data"

text \<open>The bit-serial reference: shift the byte into the high end, eight reductions.\<close>

fun crc16_ref :: "u16 \<Rightarrow> bytes \<Rightarrow> u16" where
  "crc16_ref crc [] = crc"
| "crc16_ref crc (byte # data) = crc16_ref ((crc16_bit ^^ 8) (crc XOR push_bit 8 (ucast byte))) data"

lemma and_top_bit: "(v :: u16) AND 0x8000 \<noteq> 0 \<longleftrightarrow> bit v 15"
  using and_exp_eq_0_iff_not_bit [of v 15] by simp

lemma crc16_bit_alt: "crc16_bit v = push_bit 1 v XOR (if bit v 15 then 0x1021 else 0)"
  by (simp add: crc16_bit_def and_top_bit)

lemma push_bit_xor_word: "push_bit n (a XOR b) = push_bit n a XOR push_bit n b" for a b :: "'a::len word"
  by (rule bit_word_eqI) (auto simp: bit_simps)

lemma crc16_bit_xor: "crc16_bit (a XOR b) = crc16_bit a XOR crc16_bit b"
  by (auto simp: crc16_bit_alt bit_xor_iff push_bit_xor_word ac_simps)

lemma crc16_bits_xor: "(crc16_bit ^^ n) (a XOR b) = (crc16_bit ^^ n) a XOR (crc16_bit ^^ n) b"
  by (induction n) (simp_all add: crc16_bit_xor)

lemma crc16_bits_low:
  "(\<And>k. k \<ge> 8 \<Longrightarrow> \<not> bit v k) \<Longrightarrow> n \<le> 8 \<Longrightarrow> (crc16_bit ^^ n) v = push_bit n v"
proof (induction n)
  case (Suc n)
  then have "(crc16_bit ^^ n) v = push_bit n v" by simp
  moreover have "\<not> bit (push_bit n v) 15"
    using Suc.prems by (auto simp: bit_simps)
  ultimately have "(crc16_bit ^^ Suc n) v = push_bit 1 (push_bit n v)"
    by (simp only: funpow.simps o_apply crc16_bit_alt if_False xor.right_neutral)
  then show ?case by (simp only: push_bit_push_bit plus_1_eq_Suc)
qed simp

lemma crc16_index_bound: "unat (drop_bit 8 crc XOR ucast (byte :: u8) :: u16) < 256"
proof -
  have "take_bit 8 (drop_bit 8 crc XOR ucast byte) = (drop_bit 8 crc XOR ucast byte :: u16)"
    by (rule bit_word_eqI) (auto simp: bit_simps dest: bit_imp_le_length)
  then have "unat (drop_bit 8 crc XOR ucast byte :: u16) = take_bit 8 (unat (drop_bit 8 crc XOR ucast byte :: u16))"
    by (metis unsigned_take_bit_eq)
  also have "\<dots> < 2 ^ 8" by (rule take_bit_nat_less_exp)
  finally show ?thesis by simp
qed

lemma crc16_step_eq:
  fixes byte :: u8
  shows "push_bit 8 crc XOR make_crc16_table ! unat (drop_bit 8 crc XOR ucast byte)
    = (crc16_bit ^^ 8) (crc XOR push_bit 8 (ucast byte))"
proof -
  let ?i = "drop_bit 8 crc XOR ucast byte :: u16"
  have entry: "make_crc16_table ! unat ?i = (crc16_bit ^^ 8) (push_bit 8 ?i)"
    using crc16_index_bound[of crc byte] by (simp add: make_crc16_table_def)
  have split: "crc XOR push_bit 8 (ucast byte) = push_bit 8 ?i XOR take_bit 8 crc"
    by (rule bit_word_eqI) (auto simp: bit_simps)
  have low: "(crc16_bit ^^ 8) (take_bit 8 crc) = push_bit 8 crc"
  proof -
    have "(crc16_bit ^^ 8) (take_bit 8 crc) = push_bit 8 (take_bit 8 crc)"
      by (rule crc16_bits_low) (auto simp: bit_simps)
    also have "\<dots> = push_bit 8 crc"
      by (rule bit_word_eqI) (auto simp: bit_simps)
    finally show ?thesis .
  qed
  show ?thesis
    unfolding split crc16_bits_xor entry low by (simp add: ac_simps)
qed

lemma crc16_loop_ref: "crc16_loop crc data = crc16_ref crc data"
  by (induction data arbitrary: crc) (simp_all only: crc16_loop.simps crc16_ref.simps crc16_step_eq)

lemma crc16_loop_append: "crc16_loop crc (xs @ ys) = crc16_loop (crc16_loop crc xs) ys"
  by (induction xs arbitrary: crc) simp_all

subsection \<open>The encoder and the decoders of the code\<close>

text \<open>
  \<open>cobs_encode\<close>: the loop state is the output buffer, \<open>write_pos\<close>,
  \<open>code_pos\<close> and \<open>code\<close>; every indexed store panics when out of range.
\<close>

fun cobs_encode_loop ::
    "bytes \<Rightarrow> bytes \<Rightarrow> nat \<Rightarrow> nat \<Rightarrow> u8 \<Rightarrow> (bytes \<times> nat \<times> nat \<times> u8, ProtocolError) res" where
  "cobs_encode_loop [] output write_pos code_pos code = Ok (output, write_pos, code_pos, code)"
| "cobs_encode_loop (b # input) output write_pos code_pos code =
    (if b = 0 then
       and_then (put output code_pos [code]) (\<lambda>output.
       cobs_encode_loop input output (write_pos + 1) write_pos 1)
     else if code = 0xFF then
       and_then (put output code_pos [code]) (\<lambda>output.
       and_then (put output (write_pos + 1) [b]) (\<lambda>output.
       cobs_encode_loop input output (write_pos + 2) write_pos (1 + 1)))
     else
       and_then (put output write_pos [b]) (\<lambda>output.
       cobs_encode_loop input output (write_pos + 1) code_pos (code + 1)))"

text \<open>The two stores after the loop: the pending code byte and the delimiter.\<close>

fun cobs_encode_end :: "bytes \<times> nat \<times> nat \<times> u8 \<Rightarrow> (nat \<times> bytes, ProtocolError) res" where
  "cobs_encode_end (output, write_pos, code_pos, code) =
    and_then (put output code_pos [code]) (\<lambda>output.
    and_then (put output write_pos [FRAME_DELIMITER]) (\<lambda>output.
    Ok (write_pos + 1, output)))"

definition cobs_encode :: "bytes \<Rightarrow> bytes \<Rightarrow> (nat \<times> bytes, ProtocolError) res" where
  "cobs_encode input output =
    (if length output < length input + 2 then Err OutputTooSmall
     else and_then (cobs_encode_loop input output 1 0 1) cobs_encode_end)"

text \<open>
  \<open>cobs_decode\<close>: the inner copy loop and the outer loop over code bytes.  The result is
  the number of bytes written and the buffer.
\<close>

function cobs_copy ::
    "bytes \<Rightarrow> bytes \<Rightarrow> nat \<Rightarrow> nat \<Rightarrow> nat \<Rightarrow> (nat \<times> bytes, ProtocolError) res" where
  "cobs_copy input output read_pos write_pos limit =
    (if read_pos < limit then
       (if write_pos \<ge> length output then Err OutputTooSmall
        else
          and_then (byte_at input read_pos) (\<lambda>b.
          and_then (put output write_pos [b]) (\<lambda>output.
          cobs_copy input output (read_pos + 1) (write_pos + 1) limit)))
     else Ok (write_pos, output))"
  by pat_completeness auto
termination by (relation "measure (\<lambda>(i, out, r, w, limit). limit - r)") auto

function cobs_decode_loop ::
    "bytes \<Rightarrow> bytes \<Rightarrow> nat \<Rightarrow> nat \<Rightarrow> (nat \<times> bytes, ProtocolError) res" where
  "cobs_decode_loop input output read_pos write_pos =
    (if read_pos \<ge> length input - 1 then Ok (write_pos, output)
     else
       and_then (byte_at input read_pos) (\<lambda>b.
       let code = unat b; read_pos = read_pos + 1 in
       if code = 0 then Err BadCobs
       else
         let limit = read_pos + code - 1 in
         if limit > length input - 1 then Err BadCobs
         else
           and_then (cobs_copy input output read_pos write_pos limit) (\<lambda>(write_pos, output).
           if code < 0xFF \<and> limit < length input - 1 then
             (if write_pos \<ge> length output then Err OutputTooSmall
              else
                and_then (put output write_pos [0]) (\<lambda>output.
                cobs_decode_loop input output limit (write_pos + 1)))
           else cobs_decode_loop input output limit write_pos)))"
  by pat_completeness auto
termination by (relation "measure (\<lambda>(i, out, r, w). length i - r)") auto

definition cobs_decode :: "bytes \<Rightarrow> bytes \<Rightarrow> (nat \<times> bytes, ProtocolError) res" where
  "cobs_decode input output =
    (if input = [] then Err BadCobs
     else
       and_then (byte_at input (length input - 1)) (\<lambda>b.
       if b \<noteq> FRAME_DELIMITER then Err BadCobs
       else cobs_decode_loop input output 0 0))"

text \<open>The in-place decoder reads and writes the same buffer.\<close>

function cobs_copy_in_place ::
    "bytes \<Rightarrow> nat \<Rightarrow> nat \<Rightarrow> nat \<Rightarrow> (nat \<times> bytes, ProtocolError) res" where
  "cobs_copy_in_place buffer read_pos write_pos limit =
    (if read_pos < limit then
       and_then (byte_at buffer read_pos) (\<lambda>b.
       and_then (put buffer write_pos [b]) (\<lambda>buffer.
       cobs_copy_in_place buffer (read_pos + 1) (write_pos + 1) limit))
     else Ok (write_pos, buffer))"
  by pat_completeness auto
termination by (relation "measure (\<lambda>(buf, r, w, limit). limit - r)") auto

function cobs_decode_in_place_loop ::
    "bytes \<Rightarrow> nat \<Rightarrow> nat \<Rightarrow> nat \<Rightarrow> (nat \<times> bytes, ProtocolError) res" where
  "cobs_decode_in_place_loop buffer input_len read_pos write_pos =
    (if read_pos < input_len - 1 then
       and_then (byte_at buffer read_pos) (\<lambda>b.
       let code = unat b; read_pos = read_pos + 1 in
       if code = 0 then Err BadCobs
       else
         let limit = read_pos + code - 1 in
         if limit > input_len - 1 then Err BadCobs
         else
           and_then (cobs_copy_in_place buffer read_pos write_pos limit) (\<lambda>(write_pos, buffer).
           if code < 0xff \<and> limit < input_len - 1 then
             and_then (put buffer write_pos [0]) (\<lambda>buffer.
             cobs_decode_in_place_loop buffer input_len limit (write_pos + 1))
           else cobs_decode_in_place_loop buffer input_len limit write_pos))
     else Ok (write_pos, buffer))"
  by pat_completeness auto
termination by (relation "measure (\<lambda>(buf, n, r, w). n - r)") auto

definition cobs_decode_in_place :: "bytes \<Rightarrow> nat \<Rightarrow> (nat \<times> bytes, ProtocolError) res" where
  "cobs_decode_in_place buffer input_len =
    (if input_len = 0 \<or> input_len > length buffer then Err BadCobs
     else
       and_then (byte_at buffer (input_len - 1)) (\<lambda>b.
       if b \<noteq> FRAME_DELIMITER then Err BadCobs
       else cobs_decode_in_place_loop buffer input_len 0 0))"

declare cobs_copy.simps [simp del] cobs_decode_loop.simps [simp del]
  cobs_copy_in_place.simps [simp del] cobs_decode_in_place_loop.simps [simp del]

subsection \<open>Specification: blocks\<close>

text \<open>
  What the encoder writes, without positions: \<open>cur\<close> holds the non-zero bytes of the
  open block.  A block is closed by a zero of the input, or, when it holds 254 bytes, by the
  next non-zero byte.
\<close>

fun enc_blocks :: "bytes \<Rightarrow> bytes \<Rightarrow> bytes" where
  "enc_blocks cur [] = of_nat (length cur + 1) # cur"
| "enc_blocks cur (b # bs) =
    (if b = 0 then of_nat (length cur + 1) # cur @ enc_blocks [] bs
     else if length cur = 254 then 255 # cur @ enc_blocks [b] bs
     else enc_blocks (cur @ [b]) bs)"

text \<open>What the decoders accept, on the bytes before the delimiter.\<close>

function dec_blocks :: "bytes \<Rightarrow> bytes option" where
  "dec_blocks [] = Some []"
| "dec_blocks (c # rest) =
    (let n = unat c - 1 in
     if c = 0 \<or> length rest < n then None
     else map_option (\<lambda>tl. take n rest @ (if unat c < 255 \<and> n < length rest then [0] else []) @ tl)
            (dec_blocks (drop n rest)))"
  by pat_completeness auto
termination by (relation "measure length") auto

text \<open>
  The bytes of the input that survive a round trip; \<open>k\<close> is the number of bytes in the
  open block.  A zero that arrives when the block is full (254 bytes) is not encoded.
\<close>

fun survives :: "nat \<Rightarrow> bytes \<Rightarrow> bytes" where
  "survives k [] = []"
| "survives k (b # bs) =
    (if b = 0 then (if k = 254 then survives 0 bs else 0 # survives 0 bs)
     else b # survives (if k = 254 then 1 else k + 1) bs)"

text \<open>No zero of the input arrives at a full block.\<close>

fun cobs_safe :: "nat \<Rightarrow> bytes \<Rightarrow> bool" where
  "cobs_safe k [] = True"
| "cobs_safe k (b # bs) =
    (if b = 0 then k \<noteq> 254 \<and> cobs_safe 0 bs
     else cobs_safe (if k = 254 then 1 else k + 1) bs)"

lemma length_survives: "length (survives k xs) \<le> length xs"
  by (induction k xs rule: survives.induct) auto

lemma survives_eq_iff: "survives k xs = xs \<longleftrightarrow> cobs_safe k xs"
proof (induction k xs rule: survives.induct)
  case (2 k b bs)
  have "survives 0 bs \<noteq> 0 # bs"
    using length_survives[of 0 bs] by (metis Suc_n_not_le_n length_Cons)
  with 2 show ?case by auto
qed simp

subsection \<open>The encoder refines the block specification\<close>

lemma enc_blocks_longer: "length cur < length (enc_blocks cur xs)"
  by (induction cur xs rule: enc_blocks.induct) auto

lemma enc_blocks_not_Nil [simp]: "enc_blocks cur xs \<noteq> []"
  using enc_blocks_longer[of cur xs] by auto

lemma cobs_encode_loop_not_Err: "cobs_encode_loop input out wp cp code \<noteq> Err e"
proof (induction input arbitrary: out wp cp code)
  case (Cons b input)
  then show ?case by (auto simp: put_def)
qed simp

lemma unat_block_code: "k \<le> 254 \<Longrightarrow> unat (of_nat (k + 1) :: u8) = k + 1"
  by (subst unat_of_nat) simp

lemma block_code_full: "k \<le> 254 \<Longrightarrow> (of_nat (k + 1) :: u8) = 0xFF \<longleftrightarrow> k = 254"
  using unat_block_code[of k] by (auto simp: word_unat_eq_iff)

lemma cobs_encode_loop_Ok:
  assumes "cobs_encode_loop input out wp cp code = Ok (out', wp', cp', code')"
    and "code = of_nat (length cur + 1)" and "length cur \<le> 254"
  shows "length out' = length out \<and> wp' + length cur + 1 = wp + length (enc_blocks cur input)"
  using assms
proof (induction input arbitrary: out wp cp code cur)
  case (Cons b input)
  have full: "code = 0xFF \<longleftrightarrow> length cur = 254"
    unfolding Cons.prems(2) by (rule block_code_full) (rule Cons.prems(3))
  consider "b = 0" | "b \<noteq> 0" "length cur = 254" | "b \<noteq> 0" "length cur < 254"
    using Cons.prems(3) by linarith
  then show ?case
  proof cases
    case 1
    with Cons.prems show ?thesis
      using Cons.IH[where cur = "[]"]
      by (fastforce simp: and_then_Ok_iff put_def length_overwrite split: if_splits)
  next
    case 2
    with Cons.prems full show ?thesis
      using Cons.IH[where cur = "[b]"]
      by (fastforce simp: and_then_Ok_iff put_def length_overwrite split: if_splits)
  next
    case 3
    with Cons.prems full show ?thesis
      using Cons.IH[where cur = "cur @ [b]"]
      by (fastforce simp: and_then_Ok_iff put_def length_overwrite ac_simps split: if_splits)
  qed
qed auto

lemma cobs_encode_loop_run:
  assumes "code = of_nat (length cur + 1)" and "length cur \<le> 254"
    and "length (enc_blocks cur input) \<le> length cur + length rest"
  shows "and_then (cobs_encode_loop input (pre @ x # cur @ rest) (length pre + 1 + length cur) (length pre) code)
           cobs_encode_end =
         (let E = length (enc_blocks cur input) in
          Ok (length pre + E + 1, pre @ enc_blocks cur input @ [0] @ drop (E - length cur) rest))"
  using assms
proof (induction input arbitrary: pre x cur rest code)
  case Nil
  then obtain y rest' where "rest = y # rest'" by (cases rest) auto
  then show ?case using Nil
    by (simp add: put_def overwrite_def)
next
  case (Cons b input)
  have full: "code = 0xFF \<longleftrightarrow> length cur = 254"
    unfolding Cons.prems(1) by (rule block_code_full) (rule Cons.prems(2))
  consider "b = 0" | "b \<noteq> 0" "length cur = 254" | "b \<noteq> 0" "length cur < 254"
    using Cons.prems(2) by linarith
  then show ?case
  proof cases
    case 1
    then have "rest \<noteq> []" using Cons.prems(3) enc_blocks_longer[of "[]" input] by auto
    then obtain y rest' where r: "rest = y # rest'" by (cases rest) auto
    show ?thesis
      using 1 Cons.prems Cons.IH[where pre = "pre @ code # cur" and cur = "[]" and x = y and rest = rest' and code = 1]
      by (simp add: r put_def overwrite_def Let_def add.commute)
  next
    case 2
    then have "2 \<le> length rest" using Cons.prems(3) enc_blocks_longer[of "[b]" input] by auto
    then obtain y z rest' where r: "rest = y # z # rest'"
      by (metis Suc_le_length_iff numeral_2_eq_2)
    show ?thesis
      using 2 full Cons.prems Cons.IH[where pre = "pre @ code # cur" and cur = "[b]" and x = y and rest = rest' and code = 2]
        enc_blocks_longer[of "[b]" input]
      by (simp add: r put_def overwrite_def Let_def add.commute drop_Cons')
  next
    case 3
    then have "rest \<noteq> []" using Cons.prems(3) enc_blocks_longer[of "cur @ [b]" input] by auto
    then obtain y rest' where r: "rest = y # rest'" by (cases rest) auto
    show ?thesis
      using 3 full Cons.prems Cons.IH[where pre = pre and cur = "cur @ [b]" and x = x and rest = rest' and code = "code + 1"]
        enc_blocks_longer[of "cur @ [b]" input]
      by (simp add: r put_def overwrite_def Let_def add.commute drop_Cons')
  qed
qed

lemma cobs_encode_eq:
  "cobs_encode input out =
    (if length out < length input + 2 then Err OutputTooSmall
     else if length out < length (enc_blocks [] input) + 1 then Panic
     else Ok (length (enc_blocks [] input) + 1,
              enc_blocks [] input @ [0] @ drop (length (enc_blocks [] input) + 1) out))"
proof (cases "length out < length input + 2")
  case False
  let ?E = "length (enc_blocks [] input)"
  let ?r = "and_then (cobs_encode_loop input out 1 0 1) cobs_encode_end"
  have r: "cobs_encode input out = ?r"
    using False by (simp add: cobs_encode_def)
  show ?thesis
  proof (cases "length out < ?E + 1")
    case True
    have "?r = Panic"
    proof (cases "cobs_encode_loop input out 1 0 1")
      case (Ok a)
      then obtain out' wp' cp' code' where a: "a = (out', wp', cp', code')" by (metis prod_cases4)
      have "length out' = length out \<and> wp' + 1 = 1 + ?E"
        using cobs_encode_loop_Ok[where cur = "[]", OF Ok[unfolded a]] by simp
      with True have "\<not> wp' < length out'" by simp
      then show ?thesis unfolding Ok a by (simp add: put_def length_overwrite)
    qed (simp_all add: cobs_encode_loop_not_Err)
    with True False r show ?thesis by simp
  next
    case enough: False
    then obtain x rest where o: "out = x # rest" by (cases out) auto
    have "?r = (let E = ?E in Ok (length [] + E + 1, [] @ enc_blocks [] input @ [0] @ drop (E - length []) rest))"
      using cobs_encode_loop_run[of 1 "[]" input rest "[]" x] enough by (simp add: o)
    then show ?thesis using False enough r by (simp add: o Let_def)
  qed
qed (simp add: cobs_encode_def)

subsection \<open>The decoders refine the block specification\<close>

lemma cobs_copy_eq:
  assumes "limit \<le> length input" and "read_pos \<le> limit" and "write_pos \<le> length out"
  shows "cobs_copy input out read_pos write_pos limit =
    (if write_pos + (limit - read_pos) \<le> length out
     then Ok (write_pos + (limit - read_pos),
              overwrite out write_pos (subslice input read_pos (limit - read_pos)))
     else Err OutputTooSmall)"
  using assms
proof (induction input out read_pos write_pos limit rule: cobs_copy.induct)
  case (1 input out read_pos write_pos limit)
  show ?case
  proof (cases "read_pos < limit \<and> write_pos < length out")
    case True
    then have step: "cobs_copy input out read_pos write_pos limit =
        cobs_copy input (overwrite out write_pos [input ! read_pos]) (read_pos + 1) (write_pos + 1) limit"
      using "1.prems" by (simp add: cobs_copy.simps[of input out] byte_at_def put_def)
    have slice: "subslice input read_pos (limit - read_pos) =
        input ! read_pos # subslice input (read_pos + 1) (limit - (read_pos + 1))"
      using True "1.prems" by (simp add: subslice_def Cons_nth_drop_Suc[symmetric] take_Cons' del: drop_Suc)
    have two: "overwrite (overwrite out write_pos [input ! read_pos]) (write_pos + 1) bs =
        overwrite out write_pos (input ! read_pos # bs)" for bs
      using True by (simp add: overwrite_def ac_simps)
    show ?thesis
      unfolding step slice
      using True "1.prems" "1.IH"[of "input ! read_pos" "overwrite out write_pos [input ! read_pos]"] two
      by (auto simp: length_overwrite byte_at_def put_def)
  next
    case False
    then show ?thesis
      using "1.prems" by (auto simp: cobs_copy.simps[of input out] overwrite_def)
  qed
qed

text \<open>
  One round of the decoding loop on the abstract side: \<open>body\<close> is the unread part of the
  input before the delimiter.
\<close>

lemma dec_blocks_Cons:
  assumes "unat c = n + 1" and "n \<le> length rest"
  shows "dec_blocks (c # rest) =
    map_option (\<lambda>tl. take n rest @ (if unat c < 255 \<and> n < length rest then [0] else []) @ tl)
      (dec_blocks (drop n rest))"
proof -
  have "c \<noteq> 0" using assms(1) by auto
  then show ?thesis using assms by (simp add: Let_def)
qed

declare dec_blocks.simps(2) [simp del]

lemma unread_body:
  assumes "read_pos < length input - 1"
  shows "drop read_pos (butlast input) = input ! read_pos # drop (read_pos + 1) (butlast input)"
  using assms by (metis Cons_nth_drop_Suc Suc_eq_plus1 length_butlast nth_butlast)

lemma cobs_decode_loop_eq:
  assumes "read_pos \<le> length input - 1" and "write_pos \<le> length out"
  shows "case dec_blocks (drop read_pos (butlast input)) of
      Some xs \<Rightarrow> cobs_decode_loop input out read_pos write_pos =
        (if write_pos + length xs \<le> length out
         then Ok (write_pos + length xs, overwrite out write_pos xs) else Err OutputTooSmall)
    | None \<Rightarrow> cobs_decode_loop input out read_pos write_pos =
        (if write_pos + (length input - 1 - read_pos) \<le> length out then Err BadCobs
         else cobs_decode_loop input out read_pos write_pos) \<and>
        cobs_decode_loop input out read_pos write_pos \<in> {Err BadCobs, Err OutputTooSmall}"
  using assms
proof (induction "length input - read_pos" arbitrary: out read_pos write_pos rule: less_induct)
  case less
  show ?case
  proof (cases "read_pos < length input - 1")
    case False
    then show ?thesis
      using less.prems by (simp add: cobs_decode_loop.simps[of input out])
  next
    case True
    define c where "c = input ! read_pos"
    define rest where "rest = drop (read_pos + 1) (butlast input)"
    define n where "n = unat c - 1"
    define limit where "limit = Suc (read_pos + n)"
    have body: "drop read_pos (butlast input) = c # rest"
      using unread_body[OF True] by (simp add: c_def rest_def)
    have lrest: "length rest = length input - 1 - (read_pos + 1)" by (simp add: rest_def)
    have cn: "unat c = n + 1" if "c \<noteq> 0"
      using that unat_gt_0[of c] by (simp add: n_def)
    show ?thesis
    proof (cases "c = 0 \<or> length rest < n")
      case bad: True
      then have "dec_blocks (c # rest) = None" by (simp add: dec_blocks.simps(2) n_def)
      moreover have "cobs_decode_loop input out read_pos write_pos = Err BadCobs"
        using bad True lrest cn
        by (cases "c = 0") (auto simp: cobs_decode_loop.simps[of input out] byte_at_def c_def[symmetric] Let_def)
      ultimately show ?thesis by (simp add: body)
    next
      case ok: False
      then have cpos: "unat c = n + 1" using cn by simp
      have lim: "limit \<le> length input - 1" using ok True lrest by (auto simp: limit_def)
      have copied: "subslice input (read_pos + 1) n = take n rest"
        using lim by (simp add: subslice_def rest_def limit_def butlast_conv_take drop_take)
      have dropped: "drop n rest = drop limit (butlast input)"
        by (simp add: rest_def limit_def ac_simps)
      define z where "z = (if unat c < 255 \<and> limit < length input - 1 then [0] else [] :: bytes)"
      have dec: "dec_blocks (c # rest) =
          map_option (\<lambda>tl. take n rest @ z @ tl) (dec_blocks (drop limit (butlast input)))"
        using ok lrest dec_blocks_Cons[OF cpos, of rest] unfolding dropped[symmetric] z_def
        by (auto simp: limit_def)
      have copy: "cobs_copy input out (read_pos + 1) write_pos limit =
          (if write_pos + n \<le> length out then Ok (write_pos + n, overwrite out write_pos (take n rest))
           else Err OutputTooSmall)"
      proof -
        have diff: "limit - (read_pos + 1) = n" by (simp add: limit_def)
        have "limit \<le> length input" "read_pos + 1 \<le> limit" using lim by (simp_all add: limit_def)
        from cobs_copy_eq[OF this less.prems(2)] show ?thesis unfolding diff copied .
      qed
      have round: "cobs_decode_loop input out read_pos write_pos =
          and_then (cobs_copy input out (read_pos + 1) write_pos limit) (\<lambda>(wp, b).
            if unat c < 255 \<and> limit < length input - 1 then
              (if wp \<ge> length b then Err OutputTooSmall
               else and_then (put b wp [0]) (\<lambda>b. cobs_decode_loop input b limit (wp + 1)))
            else cobs_decode_loop input b limit wp)"
        using True lim cpos ok unfolding limit_def
        by (subst cobs_decode_loop.simps) (auto simp: byte_at_def Let_def c_def[symmetric])
      have lz: "length (take n rest @ z) = n + length z" using ok by simp
      have unfold: "cobs_decode_loop input out read_pos write_pos =
          (if write_pos + n + length z \<le> length out
           then cobs_decode_loop input (overwrite out write_pos (take n rest @ z)) limit (write_pos + n + length z)
           else Err OutputTooSmall)"
        unfolding round copy using lz ok
        by (auto simp: z_def put_def overwrite_compose length_overwrite)
      let ?out = "overwrite out write_pos (take n rest @ z)"
      let ?wp = "write_pos + n + length z"
      show ?thesis
      proof (cases "?wp \<le> length out")
        case fits: True
        have lo: "length ?out = length out"
          using fits lz by (subst length_overwrite) simp_all
        have more: "limit > read_pos" by (simp add: limit_def)
        have IH: "case dec_blocks (drop limit (butlast input)) of
            Some xs \<Rightarrow> cobs_decode_loop input ?out limit ?wp =
              (if ?wp + length xs \<le> length out
               then Ok (?wp + length xs, overwrite ?out ?wp xs) else Err OutputTooSmall)
          | None \<Rightarrow> cobs_decode_loop input ?out limit ?wp =
              (if ?wp + (length input - 1 - limit) \<le> length out then Err BadCobs
               else cobs_decode_loop input ?out limit ?wp) \<and>
              cobs_decode_loop input ?out limit ?wp \<in> {Err BadCobs, Err OutputTooSmall}"
        proof -
          have closer: "length input - limit < length input - read_pos" using True more by simp
          have room: "?wp \<le> length ?out" using fits lo by simp
          from less.hyps[OF closer lim room] show ?thesis unfolding lo .
        qed
        have join: "overwrite ?out ?wp xs = overwrite out write_pos (take n rest @ z @ xs)"
          if "?wp + length xs \<le> length out" for xs
          using overwrite_compose[of write_pos "take n rest @ z" xs out ?wp] that lz by simp
        show ?thesis
        proof (cases "dec_blocks (drop limit (butlast input))")
          case None
          have "length z \<le> 1" by (simp add: z_def)
          then have "?wp + (length input - 1 - limit) \<le> write_pos + (length input - 1 - read_pos)"
            using lim unfolding limit_def by linarith
          with None IH fits show ?thesis by (auto simp: body dec unfold)
        next
          case (Some xs)
          with IH fits ok join show ?thesis by (auto simp: body dec unfold)
        qed
      next
        case False
        have zle: "length z \<le> 1" by (simp add: z_def)
        from False have "\<not> write_pos + (length input - 1 - read_pos) \<le> length out"
          using lim zle unfolding limit_def by linarith
        with False show ?thesis
          using unfold ok by (auto simp: body dec split: option.splits)
      qed
    qed
  qed
qed

lemma cobs_decode_eq:
  assumes "input \<noteq> []" and "last input = 0"
  shows "case dec_blocks (butlast input) of
      Some xs \<Rightarrow> cobs_decode input out =
        (if length xs \<le> length out then Ok (length xs, xs @ drop (length xs) out) else Err OutputTooSmall)
    | None \<Rightarrow> cobs_decode input out =
        (if length input - 1 \<le> length out then Err BadCobs else cobs_decode input out) \<and>
        cobs_decode input out \<in> {Err BadCobs, Err OutputTooSmall}"
proof -
  have "cobs_decode input out = cobs_decode_loop input out 0 0"
    using assms by (simp add: cobs_decode_def byte_at_def last_conv_nth)
  then show ?thesis
    using cobs_decode_loop_eq[of 0 input 0 out] by (auto simp: overwrite_def split: option.splits)
qed

lemma cobs_copy_in_place_eq:
  assumes "limit \<le> length buf" and "read_pos \<le> limit" and "write_pos \<le> read_pos"
  shows "cobs_copy_in_place buf read_pos write_pos limit =
    Ok (write_pos + (limit - read_pos), overwrite buf write_pos (subslice buf read_pos (limit - read_pos)))"
  using assms
proof (induction buf read_pos write_pos limit rule: cobs_copy_in_place.induct)
  case (1 buf read_pos write_pos limit)
  show ?case
  proof (cases "read_pos < limit")
    case True
    let ?b = "overwrite buf write_pos [buf ! read_pos]"
    have lb: "length ?b = length buf" using True "1.prems" by (simp add: length_overwrite)
    have step: "cobs_copy_in_place buf read_pos write_pos limit =
        cobs_copy_in_place ?b (read_pos + 1) (write_pos + 1) limit"
      using True "1.prems" by (simp add: cobs_copy_in_place.simps[of buf] byte_at_def put_def)
    have slice: "subslice buf read_pos (limit - read_pos) =
        buf ! read_pos # subslice buf (read_pos + 1) (limit - (read_pos + 1))"
      using True "1.prems" by (simp add: subslice_def Cons_nth_drop_Suc[symmetric] take_Cons' del: drop_Suc)
    have unread: "subslice ?b (read_pos + 1) k = subslice buf (read_pos + 1) k" for k
      using True "1.prems" by (subst subslice_overwrite_other) auto
    have "cobs_copy_in_place ?b (read_pos + 1) (write_pos + 1) limit =
        Ok (write_pos + 1 + (limit - (read_pos + 1)),
            overwrite ?b (write_pos + 1) (subslice ?b (read_pos + 1) (limit - (read_pos + 1))))"
      using True "1.prems" lb by (intro "1.IH") (auto simp: byte_at_def put_def)
    then show ?thesis
      unfolding step slice unread using True "1.prems"
      by (simp add: overwrite_compose)
  next
    case False
    then show ?thesis using "1.prems" by (simp add: cobs_copy_in_place.simps[of buf])
  qed
qed

lemma drop_take_overwrite:
  "i + length xs \<le> j \<Longrightarrow> j \<le> length buf \<Longrightarrow> drop j (take m (overwrite buf i xs)) = drop j (take m buf)"
proof (rule nth_equalityI)
  assume h: "i + length xs \<le> j" "j \<le> length buf"
  then have l: "length (overwrite buf i xs) = length buf" by (simp add: length_overwrite)
  then show "length (drop j (take m (overwrite buf i xs))) = length (drop j (take m buf))" by simp
  fix k assume "k < length (drop j (take m (overwrite buf i xs)))"
  then show "drop j (take m (overwrite buf i xs)) ! k = drop j (take m buf) ! k"
    using h l by (auto simp: nth_overwrite)
qed

lemma cobs_decode_in_place_loop_eq:
  assumes "n \<le> length buf" and "read_pos \<le> n - 1" and "write_pos \<le> read_pos"
  shows "cobs_decode_in_place_loop buf n read_pos write_pos =
    (case dec_blocks (drop read_pos (take (n - 1) buf)) of
      Some xs \<Rightarrow> Ok (write_pos + length xs, overwrite buf write_pos xs)
    | None \<Rightarrow> Err BadCobs) \<and>
    (\<forall>xs. dec_blocks (drop read_pos (take (n - 1) buf)) = Some xs \<longrightarrow> write_pos + length xs \<le> n)"
  using assms
proof (induction "n - read_pos" arbitrary: buf read_pos write_pos rule: less_induct)
  case less
  show ?case
  proof (cases "read_pos < n - 1")
    case False
    then show ?thesis
      using less.prems by (simp add: cobs_decode_in_place_loop.simps[of buf])
  next
    case True
    define c where "c = buf ! read_pos"
    define rest where "rest = drop (read_pos + 1) (take (n - 1) buf)"
    define k where "k = unat c - 1"
    define limit where "limit = Suc (read_pos + k)"
    have body: "drop read_pos (take (n - 1) buf) = c # rest"
      using True less.prems by (simp add: c_def rest_def Cons_nth_drop_Suc[symmetric])
    have lrest: "length rest = n - 1 - (read_pos + 1)" using less.prems by (simp add: rest_def)
    have ck: "unat c = k + 1" if "c \<noteq> 0"
      using that unat_gt_0[of c] by (simp add: k_def)
    show ?thesis
    proof (cases "c = 0 \<or> length rest < k")
      case bad: True
      then have "dec_blocks (c # rest) = None" by (simp add: dec_blocks.simps(2) k_def)
      moreover have "cobs_decode_in_place_loop buf n read_pos write_pos = Err BadCobs"
        using bad True lrest ck less.prems
        by (cases "c = 0") (auto simp: cobs_decode_in_place_loop.simps[of buf] byte_at_def c_def[symmetric] Let_def)
      ultimately show ?thesis unfolding body by simp
    next
      case ok: False
      then have cpos: "unat c = k + 1" using ck by simp
      have lim: "limit \<le> n - 1" "read_pos < limit" using ok True lrest by (auto simp: limit_def)
      have copied: "subslice buf (read_pos + 1) k = take k rest"
        using lim by (simp add: subslice_def rest_def limit_def drop_take)
      have dropped: "drop k rest = drop limit (take (n - 1) buf)"
        by (simp add: rest_def limit_def ac_simps)
      define z where "z = (if unat c < 255 \<and> limit < n - 1 then [0] else [] :: bytes)"
      have dec: "dec_blocks (c # rest) =
          map_option (\<lambda>tl. take k rest @ z @ tl) (dec_blocks (drop limit (take (n - 1) buf)))"
        using ok lrest dec_blocks_Cons[OF cpos, of rest] unfolding dropped[symmetric] z_def
        by (auto simp: limit_def)
      have copy: "cobs_copy_in_place buf (read_pos + 1) write_pos limit =
          Ok (write_pos + k, overwrite buf write_pos (take k rest))"
      proof -
        have diff: "limit - (read_pos + 1) = k" by (simp add: limit_def)
        have "limit \<le> length buf" "read_pos + 1 \<le> limit" "write_pos \<le> read_pos + 1"
          using lim less.prems by simp_all
        from cobs_copy_in_place_eq[OF this] show ?thesis unfolding diff copied .
      qed
      have round: "cobs_decode_in_place_loop buf n read_pos write_pos =
          and_then (cobs_copy_in_place buf (read_pos + 1) write_pos limit) (\<lambda>(wp, b).
            if unat c < 255 \<and> limit < n - 1 then
              and_then (put b wp [0]) (\<lambda>b. cobs_decode_in_place_loop b n limit (wp + 1))
            else cobs_decode_in_place_loop b n limit wp)"
        using True lim cpos ok less.prems unfolding limit_def
        by (subst cobs_decode_in_place_loop.simps) (auto simp: byte_at_def Let_def c_def[symmetric])
      let ?b = "overwrite buf write_pos (take k rest @ z)"
      let ?wp = "write_pos + k + length z"
      have lz: "length (take k rest @ z) = k + length z" using ok by simp
      have zlen: "length z \<le> 1" by (simp add: z_def)
      have fits: "?wp \<le> limit" using zlen less.prems by (simp add: limit_def)
      have lb: "length ?b = length buf"
        using fits lz lim less.prems by (subst length_overwrite) simp_all
      have unfold: "cobs_decode_in_place_loop buf n read_pos write_pos =
          cobs_decode_in_place_loop ?b n limit ?wp"
        unfolding round copy using lz ok fits lim less.prems
        by (auto simp: z_def put_def overwrite_compose length_overwrite)
      have same: "drop limit (take (n - 1) ?b) = drop limit (take (n - 1) buf)"
        using fits lz lim less.prems by (intro drop_take_overwrite) simp_all
      have closer: "n - limit < n - read_pos" using True lim by simp
      have "n \<le> length ?b" using lb less.prems by simp
      from less.hyps[OF closer this lim(1) fits, unfolded same]
      show ?thesis
        using ok lz lim less.prems unfolding body dec unfold
        by (auto simp: overwrite_compose split: option.splits)
    qed
  qed
qed

lemma cobs_decode_in_place_eq:
  assumes "0 < n" and "n \<le> length buf" and "buf ! (n - 1) = 0"
  shows "cobs_decode_in_place buf n =
    (case dec_blocks (take (n - 1) buf) of
      Some xs \<Rightarrow> Ok (length xs, xs @ drop (length xs) buf)
    | None \<Rightarrow> Err BadCobs) \<and>
    (\<forall>xs. dec_blocks (take (n - 1) buf) = Some xs \<longrightarrow> length xs \<le> n)"
proof -
  have "cobs_decode_in_place buf n = cobs_decode_in_place_loop buf n 0 0"
    using assms by (simp add: cobs_decode_in_place_def byte_at_Ok)
  then show ?thesis
    using cobs_decode_in_place_loop_eq[of n buf 0 0] assms
    by (auto simp: overwrite_def split: option.splits)
qed

subsection \<open>The two block functions\<close>

lemma dec_blocks_block:
  assumes "length cur \<le> 254"
  shows "dec_blocks (of_nat (length cur + 1) # cur @ rest) =
    map_option (\<lambda>tl. cur @ (if length cur < 254 \<and> rest \<noteq> [] then [0] else []) @ tl) (dec_blocks rest)"
proof -
  define c :: u8 where "c = of_nat (length cur + 1)"
  have code: "unat c = length cur + 1"
    unfolding c_def using assms by (rule unat_block_code)
  show ?thesis
    unfolding c_def[symmetric] using dec_blocks_Cons[OF code, of "cur @ rest"] code
    by (simp add: less_Suc_eq_le)
qed

lemma dec_enc_blocks:
  "length cur \<le> 254 \<Longrightarrow> dec_blocks (enc_blocks cur xs) = Some (cur @ survives (length cur) xs)"
proof (induction cur xs rule: enc_blocks.induct)
  case (1 cur)
  then show ?case using dec_blocks_block[of cur "[]"] by simp
next
  case (2 cur b bs)
  consider "b = 0" | "b \<noteq> 0" "length cur = 254" | "b \<noteq> 0" "length cur < 254"
    using "2.prems" by linarith
  then show ?case
  proof cases
    case 1
    then show ?thesis
      using "2.IH"(1) "2.prems" dec_blocks_block[of cur "enc_blocks [] bs"] by auto
  next
    case 2
    then have "enc_blocks cur (b # bs) = of_nat (length cur + 1) # cur @ enc_blocks [b] bs"
      by simp
    then show ?thesis
      using 2 "2.IH"(2) dec_blocks_block[of cur "enc_blocks [b] bs"] by simp
  next
    case 3
    then show ?thesis using "2.IH"(3) by simp
  qed
qed

lemma enc_blocks_nonzero: "length cur \<le> 254 \<Longrightarrow> 0 \<notin> set cur \<Longrightarrow> 0 \<notin> set (enc_blocks cur xs)"
proof (induction cur xs rule: enc_blocks.induct)
  case (1 cur)
  then show ?case using unat_block_code[of "length cur"] by auto
next
  case (2 cur b bs)
  then show ?case using unat_block_code[of "length cur"] by auto
qed

text \<open>
  The encoding is at most one byte longer than the input, plus one more byte for every full
  254 bytes after the first byte.
\<close>

lemma length_enc_blocks:
  "length cur \<le> 254 \<Longrightarrow>
   length (enc_blocks cur xs) \<le> length cur + length xs + 1 + (length cur + length xs - 1) div 254"
proof (induction cur xs rule: enc_blocks.induct)
  case (2 cur b bs)
  consider "b = 0" | "b \<noteq> 0" "length cur = 254" | "b \<noteq> 0" "length cur < 254"
    using "2.prems" by linarith
  then show ?case
  proof cases
    case 1
    have "(length bs - 1) div 254 \<le> (length cur + Suc (length bs) - 1) div 254"
      by (rule div_le_mono) simp
    then show ?thesis using 1 "2.IH"(1) by simp
  next
    case 2
    have "(254 + Suc (length bs) - 1) div 254 = Suc (length bs div 254)" by simp
    then show ?thesis using 2 "2.IH"(2) by simp
  next
    case 3
    then show ?thesis using "2.IH"(3) by simp
  qed
qed simp

subsection \<open>What the client code relies on\<close>

lemma cobs_encode_Ok:
  assumes "length input + 2 + (length input - 1) div 254 \<le> length out"
  shows "cobs_encode input out =
    Ok (length (enc_blocks [] input) + 1, enc_blocks [] input @ [0] @ drop (length (enc_blocks [] input) + 1) out)"
    and "length (enc_blocks [] input) + 1 \<le> length out"
proof -
  show "length (enc_blocks [] input) + 1 \<le> length out"
    using assms length_enc_blocks[of "[]" input] by simp
  then show "cobs_encode input out =
    Ok (length (enc_blocks [] input) + 1, enc_blocks [] input @ [0] @ drop (length (enc_blocks [] input) + 1) out)"
    using assms by (simp add: cobs_encode_eq)
qed

lemma length_dec_blocks: "dec_blocks body = Some xs \<Longrightarrow> length xs \<le> length body"
proof (induction body arbitrary: xs rule: dec_blocks.induct)
  case (2 c rest)
  then show ?case by (fastforce simp: dec_blocks.simps(2) Let_def split: if_splits)
qed simp

lemma cobs_decode_bad_delimiter:
  "input = [] \<or> last input \<noteq> 0 \<Longrightarrow> cobs_decode input out = Err BadCobs"
  by (auto simp: cobs_decode_def byte_at_def last_conv_nth)

lemma cobs_decode_outcome:
  obtains (ok) n out' where "cobs_decode input out = Ok (n, out')" and "n < length input"
      and "n \<le> length out" and "length out' = length out" and "drop n out' = drop n out"
      and "dec_blocks (butlast input) = Some (take n out')"
  | (err) e where "cobs_decode input out = Err e" and "e = BadCobs \<or> e = OutputTooSmall"
proof (cases "input = [] \<or> last input \<noteq> 0")
  case True
  then show ?thesis using err cobs_decode_bad_delimiter by blast
next
  case False
  then have "input \<noteq> []" "last input = 0" by simp_all
  note dec = cobs_decode_eq[OF this, of out]
  show ?thesis
  proof (cases "dec_blocks (butlast input)")
    case None
    with dec have "cobs_decode input out = Err BadCobs \<or> cobs_decode input out = Err OutputTooSmall"
      by simp
    then show ?thesis using err by blast
  next
    case (Some xs)
    then have "length xs < length input"
      using False length_dec_blocks[OF Some] by (cases input rule: rev_cases) auto
    with Some dec show ?thesis
      using ok[of "length xs" "xs @ drop (length xs) out"] err by (auto split: if_splits)
  qed
qed

text \<open>The bytes a decoder call delivers.\<close>

fun delivered :: "(nat \<times> bytes, 'e) res \<Rightarrow> (bytes, 'e) res" where
  "delivered (Ok (n, out)) = Ok (take n out)"
| "delivered (Err e) = Err e"
| "delivered Panic = Panic"

lemma delivered_cobs_decode:
  assumes "length input \<le> length out"
  shows "delivered (cobs_decode input out) =
    (if input = [] \<or> last input \<noteq> 0 then Err BadCobs else ok_or BadCobs (dec_blocks (butlast input)))"
proof (cases "input = [] \<or> last input \<noteq> 0")
  case False
  then show ?thesis
    using cobs_decode_eq[of input out] assms length_dec_blocks[of "butlast input"]
    by (fastforce split: option.splits if_splits)
qed (simp add: cobs_decode_bad_delimiter)

lemma delivered_cobs_decode_in_place:
  assumes "n \<le> length buf"
  shows "delivered (cobs_decode_in_place buf n) =
    (if n = 0 \<or> buf ! (n - 1) \<noteq> 0 then Err BadCobs else ok_or BadCobs (dec_blocks (take (n - 1) buf)))"
proof (cases "n = 0 \<or> buf ! (n - 1) \<noteq> 0")
  case True
  then show ?thesis using assms by (auto simp: cobs_decode_in_place_def byte_at_def)
next
  case False
  then show ?thesis
    using cobs_decode_in_place_eq[of n buf] assms by (auto split: option.splits)
qed

lemma cobs_decode_in_place_Ok:
  assumes "cobs_decode_in_place buf n = Ok (m, buf')" and "n \<le> length buf"
  shows "m \<le> n \<and> length buf' = length buf"
proof -
  have pos: "0 < n \<and> buf ! (n - 1) = 0"
    using assms by (auto simp: cobs_decode_in_place_def byte_at_def split: if_splits)
  then have "0 < n" "buf ! (n - 1) = 0" by simp_all
  from cobs_decode_in_place_eq[OF this(1) assms(2) this(2)] show ?thesis
    using assms by (auto split: option.splits)
qed

lemma delivered_in_place:
  assumes "n \<le> length buf" and "n \<le> length out"
  shows "delivered (cobs_decode_in_place buf n) = delivered (cobs_decode (take n buf) out)"
  using assms
proof (cases "n = 0")
  case False
  then have ne: "take n buf \<noteq> []" using assms by auto
  have "last (take n buf) = buf ! (n - 1)"
    using assms False by (simp add: last_conv_nth[OF ne])
  with False assms show ?thesis
    using ne by (simp add: delivered_cobs_decode_in_place delivered_cobs_decode butlast_take)
qed (use assms in \<open>simp add: delivered_cobs_decode_in_place delivered_cobs_decode\<close>)

subsection \<open>Properties\<close>

text \<open>C16: Encoding any input into a large enough buffer and decoding the written bytes
  succeeds and returns exactly the bytes that are not zeros arriving at a full 254-byte block;
  it returns the input itself if and only if there is no such zero.\<close>

theorem cobs_roundtrip:
  assumes "length input + 2 + (length input - 1) div 254 \<le> length out"
    and "length out \<le> length dst"
  shows "\<exists>wire xs. delivered (cobs_encode input out) = Ok wire \<and>
    delivered (cobs_decode wire dst) = Ok xs \<and> xs = survives 0 input \<and>
    (xs = input \<longleftrightarrow> cobs_safe 0 input)"
proof -
  let ?w = "enc_blocks [] input @ [0]"
  have "delivered (cobs_encode input out) = Ok ?w"
    using cobs_encode_Ok[OF assms(1)] by simp
  moreover have "delivered (cobs_decode ?w dst) = Ok (survives 0 input)"
    using delivered_cobs_decode[of ?w dst] cobs_encode_Ok(2)[OF assms(1)] assms(2)
      dec_enc_blocks[of "[]" input] by (simp add: butlast_append)
  ultimately show ?thesis using survives_eq_iff by blast
qed

lemma cobs_roundtrip_witness:
  "\<exists>wire xs. delivered (cobs_encode [7, 0, 9] (replicate 6 0)) = Ok wire \<and>
    delivered (cobs_decode wire (replicate 6 0)) = Ok xs \<and> xs = survives 0 [7, 0, 9] \<and>
    (xs = [7, 0, 9] \<longleftrightarrow> cobs_safe 0 [7, 0, 9])"
  by (rule cobs_roundtrip) simp_all

text \<open>The encoder loses a zero byte that follows exactly 254 non-zero bytes: 254 ones
  and a zero are encoded and decoded without an error, and the zero is gone.\<close>

theorem cobs_loses_zero:
  "\<exists>wire. delivered (cobs_encode (replicate 254 1 @ [0]) (replicate 300 0)) = Ok wire \<and>
    delivered (cobs_decode wire (replicate 300 0)) = Ok (replicate 254 1)"
proof -
  let ?in = "replicate 254 1 @ [0] :: bytes"
  have enc: "enc_blocks xs (replicate n 1 @ [0]) = 255 # xs @ replicate n 1 @ [1]"
    if "length xs + n = 254" for xs n
    using that
  proof (induction n arbitrary: xs)
    case (Suc n)
    then show ?case using Suc.IH[of "xs @ [1]"] by simp
  qed simp
  have eq: "enc_blocks [] ?in = 255 # replicate 254 1 @ [1]"
    using enc[of "[]" 254] by simp
  have "delivered (cobs_encode ?in (replicate 300 0)) = Ok (255 # replicate 254 1 @ [1] @ [0])"
    using cobs_encode_Ok[of ?in "replicate 300 0"] eq by simp
  moreover have "dec_blocks (255 # replicate 254 1 @ [1]) = Some (replicate 254 1)"
    using dec_blocks_block[of "replicate 254 1" "[1]"] dec_blocks_block[of "[]" "[]"]
    by simp
  then have "delivered (cobs_decode (255 # replicate 254 1 @ [1] @ [0]) (replicate 300 0)) = Ok (replicate 254 1)"
    by (subst delivered_cobs_decode) (simp_all add: butlast_append)
  ultimately show ?thesis by blast
qed

text \<open>On a buffer with one byte to spare for every 254 input bytes the encoder never
  panics and never fails; what it writes contains no delimiter before its last byte, which is
  the delimiter, and the rest of the buffer is untouched.\<close>

theorem cobs_encode_framing:
  assumes "length input + 2 + (length input - 1) div 254 \<le> length out"
  shows "\<exists>n out'. cobs_encode input out = Ok (n, out') \<and>
    0 < n \<and> n \<le> length input + 2 + (length input - 1) div 254 \<and> length out' = length out \<and>
    FRAME_DELIMITER \<notin> set (take (n - 1) out') \<and> out' ! (n - 1) = FRAME_DELIMITER \<and>
    drop n out' = drop n out"
  using cobs_encode_Ok[OF assms] length_enc_blocks[of "[]" input] enc_blocks_nonzero[of "[]" input]
  by (auto simp: nth_append)

lemma cobs_encode_framing_witness:
  "\<exists>n out'. cobs_encode [7, 0, 9] (replicate 6 3) = Ok (n, out') \<and>
    0 < n \<and> n \<le> length [7, 0, 9 :: u8] + 2 + (length [7, 0, 9 :: u8] - 1) div 254 \<and>
    length out' = length (replicate 6 (3 :: u8)) \<and>
    FRAME_DELIMITER \<notin> set (take (n - 1) out') \<and> out' ! (n - 1) = FRAME_DELIMITER \<and>
    drop n out' = drop n (replicate 6 3)"
  by (rule cobs_encode_framing) simp

text \<open>The decoder is total on arbitrary bytes: it never panics, and when it succeeds it
  has written fewer bytes than it read, inside the output buffer.\<close>

theorem cobs_decode_total:
  "case cobs_decode input out of
     Panic \<Rightarrow> False
   | Err e \<Rightarrow> e = BadCobs \<or> e = OutputTooSmall
   | Ok (n, out') \<Rightarrow>
       n < length input \<and> n \<le> length out \<and> length out' = length out \<and> drop n out' = drop n out"
  by (rule cobs_decode_outcome[of input out]) auto

text \<open>The in-place decoder, which overwrites the bytes it is reading, delivers on every
  buffer the same bytes or the same error as the decoder with a separate output.\<close>

theorem cobs_decode_in_place_equiv:
  assumes "n \<le> length buf" and "n \<le> length out"
  shows "delivered (cobs_decode_in_place buf n) = delivered (cobs_decode (take n buf) out)"
  using assms by (rule delivered_in_place)

lemma cobs_decode_in_place_equiv_witness:
  "delivered (cobs_decode_in_place [2, 7, 2, 9, 0, 5] 5) =
   delivered (cobs_decode (take 5 [2, 7, 2, 9, 0, 5]) (replicate 5 0))"
  by (rule cobs_decode_in_place_equiv) simp_all

text \<open>The table driven checksum of the frames is the bit-serial CRC-16/CCITT-FALSE
  (polynomial 0x1021, initial value 0xFFFF) on every input.\<close>

theorem crc16_table_correct: "crc16_ccitt_false data = crc16_ref 0xFFFF data"
  by (simp add: crc16_ccitt_false_def crc16_loop_ref)

end
