(* ===== verification/Frame.thy ===== *)
theory Frame
  imports Cobs
begin

text \<open>
  The frames of the diagnostic protocol (\<^verbatim>\<open>frame.rs\<close>): a ten byte header, the
  payload and a CRC-16, byte stuffed.  The profiled decoders report their phases to an
  observer; the model threads the list of reported events, and the plain decoders drop it.
\<close>

subsection \<open>Headers and events\<close>

record RawFrameHeader =
  raw_kind :: u8
  raw_opcode :: u8
  raw_status :: u8
  raw_sequence :: u16
  raw_payload_len :: u16

record FrameHeader =
  fh_kind :: FrameKind
  fh_opcode :: Opcode
  fh_status :: Status
  fh_sequence :: u16
  fh_payload_len :: u16

datatype FrameDecodeEvent = FramingStart | FramingEnd | CrcStart | CrcEnd
  | Complete u16 u16

subsection \<open>Encoding\<close>

definition encode_raw_frame :: "RawFrameHeader \<Rightarrow> bytes \<Rightarrow> bytes \<Rightarrow> (nat \<times> bytes, ProtocolError) res" where
  "encode_raw_frame header payload output =
    (if length payload > MAX_PAYLOAD_BYTES then Err PayloadTooLarge
     else if unat (raw_payload_len header) \<noteq> length payload then Err BadPayloadLength
     else
       let raw = replicate MAX_FRAME_BYTES 0 in
       and_then (put raw 0 MAGIC) (\<lambda>raw.
       and_then (put raw 2 [PROTOCOL_VERSION]) (\<lambda>raw.
       and_then (put raw 3 [raw_kind header]) (\<lambda>raw.
       and_then (put raw 4 [raw_opcode header]) (\<lambda>raw.
       and_then (put raw 5 [raw_status header]) (\<lambda>raw.
       and_then (put raw 6 (to_le 2 (raw_sequence header))) (\<lambda>raw.
       and_then (put raw 8 (to_le 2 (raw_payload_len header))) (\<lambda>raw.
       and_then (put raw 10 payload) (\<lambda>raw.
       let pos = 10 + length payload in
       and_then (bytes_at raw 0 pos) (\<lambda>body.
       let crc = crc16_ccitt_false body in
       and_then (put raw pos (to_le 2 crc)) (\<lambda>raw.
       let total_len = pos + 2 in
       and_then (bytes_at raw 0 total_len) (\<lambda>raw.
       cobs_encode raw output))))))))))))"

definition encode_frame :: "FrameHeader \<Rightarrow> bytes \<Rightarrow> bytes \<Rightarrow> (nat \<times> bytes, ProtocolError) res" where
  "encode_frame header payload output =
    encode_raw_frame
      \<lparr>raw_kind = FrameKind_to_u8 (fh_kind header),
       raw_opcode = Opcode_to_u8 (fh_opcode header),
       raw_status = Status_to_u8 (fh_status header),
       raw_sequence = fh_sequence header,
       raw_payload_len = fh_payload_len header\<rparr> payload output"

subsection \<open>Decoding\<close>

text \<open>\<open>?\<close> in a function that reports events: an early return keeps those reported so far.\<close>

fun observed :: "('a, 'e) res \<Rightarrow> 'o list \<Rightarrow> ('a \<Rightarrow> ('b, 'e) res \<times> 'o list) \<Rightarrow> ('b, 'e) res \<times> 'o list" where
  "observed (Ok x) obs f = f x"
| "observed (Err e) obs f = (Err e, obs)"
| "observed Panic obs f = (Panic, obs)"

definition decode_raw_frame_profiled ::
    "bytes \<Rightarrow> bytes \<Rightarrow> FrameDecodeEvent list \<Rightarrow>
     (RawFrameHeader \<times> nat \<times> bytes, ProtocolError) res \<times> FrameDecodeEvent list" where
  "decode_raw_frame_profiled input payload_out obs =
    (if length input > MAX_FRAME_BYTES then (Err FrameTooLarge, obs)
     else
       let raw = replicate MAX_FRAME_BYTES 0; obs = obs @ [FramingStart];
           decoded = cobs_decode input raw; obs = obs @ [FramingEnd] in
       observed decoded obs (\<lambda>(raw_len, raw).
       if raw_len < 12 then (Err BadMagic, obs)
       else observed (bytes_at raw 0 2) obs (\<lambda>magic.
       if magic \<noteq> MAGIC then (Err BadMagic, obs)
       else observed (byte_at raw 2) obs (\<lambda>version.
       if version \<noteq> PROTOCOL_VERSION then (Err BadVersion, obs)
       else observed (u16_at raw 6) obs (\<lambda>sequence.
       observed (u16_at raw 8) obs (\<lambda>len16.
       let payload_len = unat len16; header_len = 10; total_len = header_len + payload_len + 2 in
       if raw_len \<noteq> total_len then (Err BadPayloadLength, obs)
       else observed (u16_at raw (raw_len - 2)) obs (\<lambda>expected_crc.
       let obs = obs @ [CrcStart] in
       observed (bytes_at raw 0 (raw_len - 2)) obs (\<lambda>body.
       let actual_crc = crc16_ccitt_false body; obs = obs @ [CrcEnd] in
       if expected_crc \<noteq> actual_crc then (Err BadCrc, obs)
       else if length payload_out < payload_len then (Err OutputTooSmall, obs)
       else observed (bytes_at raw header_len payload_len) obs (\<lambda>payload.
       observed (put payload_out 0 payload) obs (\<lambda>payload_out.
       observed (byte_at raw 3) obs (\<lambda>kind.
       observed (byte_at raw 4) obs (\<lambda>opcode.
       observed (byte_at raw 5) obs (\<lambda>status.
       (Ok (\<lparr>raw_kind = kind, raw_opcode = opcode, raw_status = status,
             raw_sequence = sequence, raw_payload_len = of_nat payload_len\<rparr>,
            payload_len, payload_out), obs))))))))))))))"

definition decode_raw_frame ::
    "bytes \<Rightarrow> bytes \<Rightarrow> (RawFrameHeader \<times> nat \<times> bytes, ProtocolError) res" where
  "decode_raw_frame input payload_out = fst (decode_raw_frame_profiled input payload_out [])"

text \<open>The three fields a raw header has to have a meaning for.\<close>

definition typed_header :: "u8 \<Rightarrow> u8 \<Rightarrow> u8 \<Rightarrow> u16 \<Rightarrow> u16 \<Rightarrow> (FrameHeader, ProtocolError) res" where
  "typed_header kind opcode status sequence len =
    and_then (ok_or BadMagic (FrameKind_from_u8 kind)) (\<lambda>kind.
    and_then (ok_or UnknownOpcode (Opcode_from_u8 opcode)) (\<lambda>opcode.
    and_then (ok_or BadStatus (Status_from_u8 status)) (\<lambda>status.
    Ok \<lparr>fh_kind = kind, fh_opcode = opcode, fh_status = status,
        fh_sequence = sequence, fh_payload_len = len\<rparr>)))"

text \<open>\<open>len.min(usize::from(u16::MAX)) as u16\<close>\<close>

definition clamp_u16 :: "nat \<Rightarrow> u16" where
  "clamp_u16 n = of_nat (min n 0xFFFF)"

definition decode_frame_profiled ::
    "bytes \<Rightarrow> bytes \<Rightarrow> FrameDecodeEvent list \<Rightarrow>
     (FrameHeader \<times> nat \<times> bytes, ProtocolError) res \<times> FrameDecodeEvent list" where
  "decode_frame_profiled input payload_out obs =
    (let (r, obs) = decode_raw_frame_profiled input payload_out obs in
     observed r obs (\<lambda>(raw, payload_len, payload_out).
     observed (typed_header (raw_kind raw) (raw_opcode raw) (raw_status raw)
                 (raw_sequence raw) (raw_payload_len raw)) obs (\<lambda>header.
     (Ok (header, payload_len, payload_out),
      obs @ [Complete (raw_payload_len raw) (clamp_u16 (length input))]))))"

definition decode_frame :: "bytes \<Rightarrow> bytes \<Rightarrow> (FrameHeader \<times> nat \<times> bytes, ProtocolError) res" where
  "decode_frame input payload_out = fst (decode_frame_profiled input payload_out [])"

text \<open>
  The in-place decoder leaves the payload in the buffer; its result is the header, the payload
  range (start and length) and the buffer.
\<close>

definition decode_frame_in_place_profiled ::
    "bytes \<Rightarrow> nat \<Rightarrow> FrameDecodeEvent list \<Rightarrow>
     (FrameHeader \<times> (nat \<times> nat) \<times> bytes, ProtocolError) res \<times> FrameDecodeEvent list" where
  "decode_frame_in_place_profiled buffer input_len obs =
    (if input_len > MAX_FRAME_BYTES then (Err FrameTooLarge, obs)
     else
       let obs = obs @ [FramingStart] in
       observed (cobs_decode_in_place buffer input_len) obs (\<lambda>(raw_len, buffer).
       let obs = obs @ [FramingEnd] in
       if raw_len < 12 then (Err BadMagic, obs)
       else observed (bytes_at buffer 0 2) obs (\<lambda>magic.
       if magic \<noteq> MAGIC then (Err BadMagic, obs)
       else observed (byte_at buffer 2) obs (\<lambda>version.
       if version \<noteq> PROTOCOL_VERSION then (Err BadVersion, obs)
       else observed (u16_at buffer 8) obs (\<lambda>len16.
       let payload_len = unat len16; total_len = 10 + payload_len + 2 in
       if raw_len \<noteq> total_len then (Err BadPayloadLength, obs)
       else observed (u16_at buffer (raw_len - 2)) obs (\<lambda>expected_crc.
       let obs = obs @ [CrcStart] in
       observed (bytes_at buffer 0 (raw_len - 2)) obs (\<lambda>body.
       let actual_crc = crc16_ccitt_false body; obs = obs @ [CrcEnd] in
       if expected_crc \<noteq> actual_crc then (Err BadCrc, obs)
       else observed (byte_at buffer 3) obs (\<lambda>kind.
       observed (byte_at buffer 4) obs (\<lambda>opcode.
       observed (byte_at buffer 5) obs (\<lambda>status.
       observed (u16_at buffer 6) obs (\<lambda>sequence.
       observed (typed_header kind opcode status sequence (of_nat payload_len)) obs (\<lambda>header.
       (Ok (header, (10, payload_len), buffer),
        obs @ [Complete (of_nat payload_len) (clamp_u16 input_len)])))))))))))))"

definition decode_frame_in_place ::
    "bytes \<Rightarrow> nat \<Rightarrow> (FrameHeader \<times> (nat \<times> nat) \<times> bytes, ProtocolError) res" where
  "decode_frame_in_place buffer input_len = fst (decode_frame_in_place_profiled buffer input_len [])"

subsection \<open>Specification: the raw frame\<close>

text \<open>The bytes covered by the checksum, and the whole raw frame.\<close>

definition frame_body :: "RawFrameHeader \<Rightarrow> bytes \<Rightarrow> bytes" where
  "frame_body h payload =
    MAGIC @ [PROTOCOL_VERSION, raw_kind h, raw_opcode h, raw_status h] @
    to_le 2 (raw_sequence h) @ to_le 2 (raw_payload_len h) @ payload"

definition raw_frame :: "RawFrameHeader \<Rightarrow> bytes \<Rightarrow> bytes" where
  "raw_frame h payload = frame_body h payload @ to_le 2 (crc16_ccitt_false (frame_body h payload))"

definition raw_of :: "FrameHeader \<Rightarrow> RawFrameHeader" where
  "raw_of h = \<lparr>raw_kind = FrameKind_to_u8 (fh_kind h), raw_opcode = Opcode_to_u8 (fh_opcode h),
    raw_status = Status_to_u8 (fh_status h), raw_sequence = fh_sequence h,
    raw_payload_len = fh_payload_len h\<rparr>"

text \<open>What the decoders accept, on the raw frame and without buffers.\<close>

definition parse_raw :: "bytes \<Rightarrow> (RawFrameHeader \<times> bytes, ProtocolError) res" where
  "parse_raw raw =
    (if length raw < 12 \<or> take 2 raw \<noteq> MAGIC then Err BadMagic
     else if raw ! 2 \<noteq> PROTOCOL_VERSION then Err BadVersion
     else
       let len = of_le (subslice raw 8 2) :: u16 in
       if length raw \<noteq> 12 + unat len then Err BadPayloadLength
       else if of_le (subslice raw (length raw - 2) 2) \<noteq> crc16_ccitt_false (take (length raw - 2) raw)
       then Err BadCrc
       else Ok (\<lparr>raw_kind = raw ! 3, raw_opcode = raw ! 4, raw_status = raw ! 5,
                 raw_sequence = of_le (subslice raw 6 2), raw_payload_len = len\<rparr>,
                subslice raw 10 (unat len)))"

lemma length_frame_body [simp]: "length (frame_body h payload) = 10 + length payload"
  by (simp add: frame_body_def)

lemma length_raw_frame [simp]: "length (raw_frame h payload) = 12 + length payload"
  by (simp add: raw_frame_def)

lemma encode_raw_frame_eq:
  assumes "length payload \<le> MAX_PAYLOAD_BYTES" and "unat (raw_payload_len h) = length payload"
  shows "encode_raw_frame h payload out = cobs_encode (raw_frame h payload) out"
  using assms
  by (simp add: encode_raw_frame_def raw_frame_def frame_body_def slice_laws bytes_at_def subslice_def Let_def)

lemma fst_observed [simp]: "fst (observed m obs f) = and_then m (\<lambda>x. fst (f x))"
  by (cases m) auto

text \<open>The decoders refine \<open>parse_raw\<close> on the delivered bytes.\<close>

lemma decode_raw_frame_eq:
  "decode_raw_frame input payload_out =
    (if length input > MAX_FRAME_BYTES then Err FrameTooLarge
     else and_then (delivered (cobs_decode input (replicate MAX_FRAME_BYTES 0))) (\<lambda>raw.
       and_then (parse_raw raw) (\<lambda>(h, payload).
       if length payload_out < length payload then Err OutputTooSmall
       else Ok (h, length payload, overwrite payload_out 0 payload))))"
proof (rule cobs_decode_outcome[of input "replicate MAX_FRAME_BYTES 0"])
  fix n arr
  assume "cobs_decode input (replicate MAX_FRAME_BYTES 0) = Ok (n, arr)"
    and "n \<le> length (replicate MAX_FRAME_BYTES (0 :: u8))"
    and "length arr = length (replicate MAX_FRAME_BYTES (0 :: u8))"
  then show ?thesis
    by (simp add: decode_raw_frame_def decode_raw_frame_profiled_def Let_def parse_raw_def slice_laws)
qed (simp_all add: decode_raw_frame_def decode_raw_frame_profiled_def Let_def)

lemma decode_frame_in_place_eq:
  assumes "length buffer = MAX_FRAME_BYTES"
  shows "and_then (decode_frame_in_place buffer input_len) (\<lambda>(h, (i, n), buf). Ok (h, i, subslice buf i n)) =
    (if input_len > MAX_FRAME_BYTES then Err FrameTooLarge
     else and_then (delivered (cobs_decode_in_place buffer input_len)) (\<lambda>raw.
       and_then (parse_raw raw) (\<lambda>(h, payload).
       and_then (typed_header (raw_kind h) (raw_opcode h) (raw_status h) (raw_sequence h) (raw_payload_len h))
         (\<lambda>h. Ok (h, 10, payload)))))"
proof (cases "input_len > MAX_FRAME_BYTES")
  case False
  show ?thesis
  proof (cases "cobs_decode_in_place buffer input_len")
    case (Ok r)
    obtain n arr where r: "r = (n, arr)" by (cases r)
    have "n \<le> input_len" "length arr = length buffer"
      using Ok r cobs_decode_in_place_Ok[of buffer input_len n arr] False assms by auto
    then show ?thesis
      using Ok r False assms
      by (simp add: decode_frame_in_place_def decode_frame_in_place_profiled_def Let_def parse_raw_def
          slice_laws and_then_assoc)
  qed (use False in \<open>simp_all add: decode_frame_in_place_def decode_frame_in_place_profiled_def Let_def\<close>)
qed (simp add: decode_frame_in_place_def decode_frame_in_place_profiled_def)

lemma decode_frame_eq:
  "decode_frame input payload_out =
    and_then (decode_raw_frame input payload_out) (\<lambda>(raw, n, out).
    and_then (typed_header (raw_kind raw) (raw_opcode raw) (raw_status raw) (raw_sequence raw) (raw_payload_len raw))
      (\<lambda>h. Ok (h, n, out)))"
  by (simp add: decode_frame_def decode_frame_profiled_def decode_raw_frame_def case_prod_unfold Let_def)

lemma typed_header_Ok_iff:
  "typed_header k c s q l = Ok h \<longleftrightarrow>
    k = FrameKind_to_u8 (fh_kind h) \<and> c = Opcode_to_u8 (fh_opcode h) \<and> s = Status_to_u8 (fh_status h) \<and>
    q = fh_sequence h \<and> l = fh_payload_len h"
  by (cases h) (auto simp: typed_header_def and_then_Ok_iff frameKind_wire.from_u8_Some_iff
      opcode_wire.from_u8_Some_iff status_wire.from_u8_Some_iff)

text \<open>A raw frame is accepted exactly when it is the canonical encoding of what is returned.\<close>

lemma parse_raw_frame:
  assumes "unat (raw_payload_len h) = length payload"
  shows "parse_raw (raw_frame h payload) = Ok (h, payload)"
proof -
  have "unat (raw_payload_len h) < 2 ^ LENGTH(16)" by (rule unsigned_less)
  then have "length payload < 65536" using assms by simp
  let ?r = "raw_frame h payload"
  have fixed: "take 2 ?r = MAGIC" "?r ! 2 = PROTOCOL_VERSION" "?r ! 3 = raw_kind h"
    "?r ! 4 = raw_opcode h" "?r ! 5 = raw_status h"
    by (simp_all add: raw_frame_def frame_body_def)
  have "subslice ?r 6 2 = to_le 2 (raw_sequence h)" "subslice ?r 8 2 = to_le 2 (raw_payload_len h)"
    "subslice ?r 10 (length payload) = payload"
    by (simp_all add: raw_frame_def frame_body_def subslice_def)
  then show ?thesis
    using assms fixed
    by (simp add: parse_raw_def Let_def of_le_to_le) (simp add: raw_frame_def subslice_def of_le_to_le)
qed

lemma parse_raw_canonical:
  assumes "parse_raw raw = Ok (h, payload)"
  shows "raw = raw_frame h payload \<and> unat (raw_payload_len h) = length payload"
proof -
  define n where "n = unat (of_le (subslice raw 8 2) :: u16)"
  have len: "length raw = 12 + n" and magic: "take 2 raw = MAGIC" and ver: "raw ! 2 = PROTOCOL_VERSION"
    and crc: "of_le (subslice raw (length raw - 2) 2) = crc16_ccitt_false (take (length raw - 2) raw)"
    and h: "h = \<lparr>raw_kind = raw ! 3, raw_opcode = raw ! 4, raw_status = raw ! 5,
                 raw_sequence = of_le (subslice raw 6 2), raw_payload_len = of_le (subslice raw 8 2)\<rparr>"
    and payload: "payload = subslice raw 10 n"
    using assms by (auto simp: parse_raw_def Let_def n_def split: if_splits)
  have head: "take 10 raw = MAGIC @ [PROTOCOL_VERSION, raw ! 3, raw ! 4, raw ! 5] @ subslice raw 6 2 @ subslice raw 8 2"
  proof -
    have "take 10 raw = take 2 raw @ take 4 (drop 2 raw) @ take 4 (drop 6 raw)"
      using take_add[of 2 8 raw] take_add[of 4 4 "drop 2 raw"] by simp
    moreover have "take 4 (drop 2 raw) = [raw ! 2, raw ! 3, raw ! 4, raw ! 5]"
      using len by (simp add: take_Suc_conv_app_nth numeral_eq_Suc)
    moreover have "take 4 (drop 6 raw) = subslice raw 6 2 @ subslice raw 8 2"
      using take_add[of 2 2 "drop 6 raw"] by (simp add: subslice_def)
    ultimately show ?thesis using magic ver by simp
  qed
  have body: "take (10 + n) raw = frame_body h payload"
    using len by (simp add: frame_body_def h payload take_add subslice_def[symmetric] head to_le_of_le)
  have "raw = take (10 + n) raw @ subslice raw (10 + n) 2"
    using len by (simp add: subslice_def)
  also have "subslice raw (10 + n) 2 = to_le 2 (of_le (subslice raw (10 + n) 2) :: u16)"
    using len by (simp add: to_le_of_le)
  also have "of_le (subslice raw (10 + n) 2) = crc16_ccitt_false (take (10 + n) raw)"
    using crc len by simp
  finally have "raw = raw_frame h payload" by (simp add: body raw_frame_def)
  then show ?thesis using len by (simp add: h payload n_def)
qed

lemma encode_frame_wire:
  assumes "length out = MAX_FRAME_BYTES" and "length payload \<le> MAX_PAYLOAD_BYTES"
    and "unat (fh_payload_len h) = length payload"
  shows "\<exists>n wire. encode_frame h payload out = Ok (n, wire) \<and> n \<le> MAX_FRAME_BYTES \<and>
    length wire = MAX_FRAME_BYTES \<and> take n wire = enc_blocks [] (raw_frame (raw_of h) payload) @ [0]"
proof -
  let ?raw = "raw_frame (raw_of h) payload"
  have "encode_frame h payload out = encode_raw_frame (raw_of h) payload out"
    by (simp add: encode_frame_def raw_of_def)
  also have "\<dots> = cobs_encode ?raw out"
    using assms by (intro encode_raw_frame_eq) (simp_all add: raw_of_def)
  finally have eq: "encode_frame h payload out = cobs_encode ?raw out" .
  have "(length payload + 11) div 254 \<le> 4107 div 254"
    using assms(2) by (intro div_le_mono) simp
  then have "length ?raw + 2 + (length ?raw - 1) div 254 \<le> length out"
    using assms by simp
  from cobs_encode_Ok[OF this] show ?thesis unfolding eq using assms(1) by simp
qed

lemma decode_wire:
  assumes "length xs + 1 \<le> MAX_FRAME_BYTES" and "dec_blocks xs = Some raw"
  shows "decode_raw_frame (xs @ [0]) pout =
    and_then (parse_raw raw) (\<lambda>(h, payload).
      if length pout < length payload then Err OutputTooSmall
      else Ok (h, length payload, overwrite pout 0 payload))"
  using assms by (simp add: decode_raw_frame_eq delivered_cobs_decode butlast_append)

lemma to_le_2: "to_le 2 w = [ucast w, ucast (drop_bit 8 w)]"
  by (simp add: numeral_2_eq_2)

lemma survives_zero: "length xs + k < 254 \<Longrightarrow> survives k (xs @ 0 # ys) = xs @ 0 # survives 0 ys"
proof (induction xs arbitrary: k)
  case (Cons x xs)
  then show ?case using Cons.IH[of 0] Cons.IH[of "k + 1"] by simp
qed simp

lemma survives_full:
  "length xs + k = 254 \<Longrightarrow> 0 \<notin> set xs \<Longrightarrow> survives k (xs @ 0 # ys) = xs @ survives 0 ys"
proof (induction xs arbitrary: k)
  case (Cons x xs)
  then show ?case using Cons.IH[of "k + 1"] by simp
qed simp

lemma survives_less: "length xs + k \<le> 254 \<Longrightarrow> survives k xs = xs"
proof (induction xs arbitrary: k)
  case (Cons x xs)
  then show ?case using Cons.IH[of 0] Cons.IH[of "k + 1"] by simp
qed simp

subsection \<open>Properties\<close>

text \<open>C14: A header with a payload of at most 4096 bytes is always encoded without a panic into the
  4126-byte frame buffer, with the delimiter as the last byte only; decoding the frame returns
  the same header and payload exactly when no zero of the raw frame falls on a full block.\<close>

theorem frame_roundtrip:
  assumes "length out = MAX_FRAME_BYTES" and "length payload \<le> MAX_PAYLOAD_BYTES"
    and "unat (fh_payload_len h) = length payload" and "length payload \<le> length pout"
  shows "\<exists>n wire. encode_frame h payload out = Ok (n, wire) \<and> n \<le> MAX_FRAME_BYTES \<and>
    FRAME_DELIMITER \<notin> set (butlast (take n wire)) \<and> last (take n wire) = FRAME_DELIMITER \<and>
    (decode_frame (take n wire) pout = Ok (h, length payload, overwrite pout 0 payload) \<longleftrightarrow>
     cobs_safe 0 (raw_frame (raw_of h) payload))"
proof -
  let ?raw = "raw_frame (raw_of h) payload"
  let ?enc = "enc_blocks [] ?raw"
  obtain n wire where n: "encode_frame h payload out = Ok (n, wire)" "n \<le> MAX_FRAME_BYTES"
    "length wire = MAX_FRAME_BYTES" and wire: "take n wire = ?enc @ [0]"
    using encode_frame_wire[OF assms(1-3)] by blast
  have "length (take n wire) = n" using n by simp
  then have len: "length ?enc + 1 \<le> MAX_FRAME_BYTES" using n(2) unfolding wire by simp
  have dec: "dec_blocks ?enc = Some (survives 0 ?raw)"
    using dec_enc_blocks[of "[]" ?raw] by simp
  note decode = decode_frame_eq[of "take n wire" pout, unfolded wire decode_wire[OF len dec]]
  have iff: "decode_frame (take n wire) pout = Ok (h, length payload, overwrite pout 0 payload) \<longleftrightarrow> survives 0 ?raw = ?raw"
  proof
    assume "survives 0 ?raw = ?raw"
    moreover have "parse_raw ?raw = Ok (raw_of h, payload)"
      using assms(3) by (intro parse_raw_frame) (simp add: raw_of_def)
    ultimately show "decode_frame (take n wire) pout = Ok (h, length payload, overwrite pout 0 payload)"
      unfolding wire decode using assms(4) by (simp add: and_then_Ok_iff typed_header_Ok_iff raw_of_def)
  next
    assume "decode_frame (take n wire) pout = Ok (h, length payload, overwrite pout 0 payload)"
    then obtain rh p where p: "parse_raw (survives 0 ?raw) = Ok (rh, p)" and len: "length p = length payload"
      "length p \<le> length pout" and ov: "overwrite pout 0 p = overwrite pout 0 payload"
      and th: "typed_header (raw_kind rh) (raw_opcode rh) (raw_status rh) (raw_sequence rh) (raw_payload_len rh) = Ok h"
      unfolding wire decode by (auto simp: and_then_Ok_iff split: if_splits)
    have "p = payload" using ov len by (simp add: overwrite_def)
    moreover have "rh = raw_of h" using th by (cases rh) (simp add: typed_header_Ok_iff raw_of_def)
    ultimately show "survives 0 ?raw = ?raw" using parse_raw_canonical[OF p] by simp
  qed
  show ?thesis
  proof (intro exI conjI)
    show "FRAME_DELIMITER \<notin> set (butlast (take n wire))" "last (take n wire) = FRAME_DELIMITER"
      using wire enc_blocks_nonzero[of "[]" ?raw] by (simp_all add: butlast_append)
  qed (use n iff survives_eq_iff in auto)
qed

lemma frame_roundtrip_witness:
  "\<exists>n wire. encode_frame \<lparr>fh_kind = Fk_Request, fh_opcode = Op_Page, fh_status = St_Ok, fh_sequence = 7,
      fh_payload_len = 2\<rparr> [3, 0] (replicate MAX_FRAME_BYTES 0) = Ok (n, wire) \<and> n \<le> MAX_FRAME_BYTES \<and>
    FRAME_DELIMITER \<notin> set (butlast (take n wire)) \<and> last (take n wire) = FRAME_DELIMITER \<and>
    (decode_frame (take n wire) [9, 9, 9] = Ok (\<lparr>fh_kind = Fk_Request, fh_opcode = Op_Page,
      fh_status = St_Ok, fh_sequence = 7, fh_payload_len = 2\<rparr>, length [3, 0 :: u8], overwrite [9, 9, 9] 0 [3, 0]) \<longleftrightarrow>
     cobs_safe 0 (raw_frame (raw_of \<lparr>fh_kind = Fk_Request, fh_opcode = Op_Page,
      fh_status = St_Ok, fh_sequence = 7, fh_payload_len = 2\<rparr>) [3, 0]))"
  by (rule frame_roundtrip) simp_all

text \<open>C17: Some frames the encoder produces are rejected by the decoder: with a payload of 254 ones
  and a zero, every header is encoded and every receiver answers \<open>BadPayloadLength\<close>.\<close>

theorem frame_lost_payload:
  "\<exists>n wire. encode_frame (h\<lparr>fh_payload_len := 255\<rparr>) (replicate 254 1 @ [0]) (replicate MAX_FRAME_BYTES 0) = Ok (n, wire) \<and>
    decode_frame (take n wire) pout = Err BadPayloadLength"
proof -
  let ?h = "h\<lparr>fh_payload_len := 255\<rparr>" and ?p = "replicate 254 1 @ [0] :: bytes"
  let ?crc = "to_le 2 (crc16_ccitt_false (frame_body (raw_of ?h) ?p))"
  let ?enc = "enc_blocks [] (raw_frame (raw_of ?h) ?p)"
  let ?head = "MAGIC @ [PROTOCOL_VERSION, raw_kind (raw_of ?h), raw_opcode (raw_of ?h), raw_status (raw_of ?h)] @
     to_le 2 (raw_sequence (raw_of ?h)) @ [255]"
  have "\<exists>n wire. encode_frame ?h ?p (replicate MAX_FRAME_BYTES 0) = Ok (n, wire) \<and> n \<le> MAX_FRAME_BYTES \<and>
    length wire = MAX_FRAME_BYTES \<and> take n wire = ?enc @ [0]"
    by (rule encode_frame_wire) simp_all
  then obtain n wire where n: "encode_frame ?h ?p (replicate MAX_FRAME_BYTES 0) = Ok (n, wire)" "n \<le> MAX_FRAME_BYTES"
    "length wire = MAX_FRAME_BYTES" and wire: "take n wire = ?enc @ [0]"
    by blast
  have "length (take n wire) = n" using n by simp
  then have len: "length ?enc + 1 \<le> MAX_FRAME_BYTES" using n(2) unfolding wire by simp
  have le: "to_le 2 (255 :: u16) = [255, 0]" by (simp add: to_le_2)
  have raw: "raw_frame (raw_of ?h) ?p = ?head @ 0 # replicate 254 1 @ 0 # ?crc"
    by (simp add: raw_frame_def frame_body_def raw_of_def le)
  have "survives 0 (?head @ 0 # replicate 254 1 @ 0 # ?crc) = ?head @ 0 # survives 0 (replicate 254 1 @ 0 # ?crc)"
    by (rule survives_zero) simp
  also have "survives 0 (replicate 254 1 @ 0 # ?crc) = replicate 254 1 @ survives 0 ?crc"
    by (rule survives_full) simp_all
  also have "survives 0 ?crc = ?crc" by (rule survives_less) simp
  finally have dec: "dec_blocks ?enc = Some (?head @ 0 # replicate 254 1 @ ?crc)"
    using dec_enc_blocks[of "[]" "raw_frame (raw_of ?h) ?p"] unfolding raw by simp
  have bad: "parse_raw (?head @ 0 # replicate 254 1 @ ?crc) = Err BadPayloadLength"
  proof -
    have "to_le 2 (raw_sequence (raw_of ?h)) \<in> {[a, b] |a b. True}" by (simp add: to_le_2)
    then obtain a b where ab: "to_le 2 (raw_sequence (raw_of ?h)) = [a, b]" by blast
    have "of_le [255, 0] = (255 :: u16)" by code_simp
    then show ?thesis unfolding ab by (simp add: parse_raw_def subslice_def)
  qed
  have "decode_frame (take n wire) pout = Err BadPayloadLength"
    unfolding decode_frame_eq wire decode_wire[OF len dec] bad by simp
  with n show ?thesis by blast
qed

text \<open>C4: The frame decoder is total on arbitrary bytes and accepts only canonical frames: when
  it succeeds, the stuffed bytes decode to exactly the header it returns, the payload it wrote
  and their checksum, and the rest of the output buffer is untouched.\<close>

theorem decode_frame_sound:
  "case decode_frame input pout of
     Panic \<Rightarrow> False
   | Err e \<Rightarrow> True
   | Ok (h, n, pout') \<Rightarrow>
       n = unat (fh_payload_len h) \<and> n \<le> length pout \<and> drop n pout' = drop n pout \<and>
       length pout' = length pout \<and> length input \<le> MAX_FRAME_BYTES \<and>
       dec_blocks (butlast input) = Some (raw_frame (raw_of h) (take n pout'))"
proof (cases "decode_frame input pout")
  case (Ok r)
  obtain h n pout' where r: "r = (h, n, pout')" by (cases r)
  obtain raw rh p where size: "length input \<le> MAX_FRAME_BYTES"
    and d: "delivered (cobs_decode input (replicate MAX_FRAME_BYTES 0)) = Ok raw"
    and p: "parse_raw raw = Ok (rh, p)" and n: "n = length p" "length p \<le> length pout"
    and out: "pout' = overwrite pout 0 p"
    and th: "typed_header (raw_kind rh) (raw_opcode rh) (raw_status rh) (raw_sequence rh) (raw_payload_len rh) = Ok h"
    using Ok unfolding r decode_frame_eq decode_raw_frame_eq
    by (auto simp: and_then_Ok_iff split: if_splits)
  have "dec_blocks (butlast input) = Some raw"
    using d size by (auto simp: delivered_cobs_decode split: if_splits)
  moreover have "rh = raw_of h" using th by (cases rh) (simp add: typed_header_Ok_iff raw_of_def)
  ultimately show ?thesis
    using parse_raw_canonical[OF p] n out size unfolding Ok r by (simp add: overwrite_def raw_of_def)
next
  case Panic
  moreover have "parse_raw raw \<noteq> Panic" for raw by (simp add: parse_raw_def Let_def)
  moreover have "typed_header k c s q l \<noteq> Panic" for k c s q l
    by (simp add: typed_header_def and_then_Panic_iff)
  ultimately show ?thesis
    by (auto simp: decode_frame_eq decode_raw_frame_eq and_then_Panic_iff delivered_cobs_decode split: if_splits)
qed simp

text \<open>C15: Decoding a frame inside its own 4126-byte receive buffer gives on every input the same
  header, the same payload bytes and the same error as decoding it into a separate buffer.\<close>

theorem decode_frame_in_place_equiv:
  assumes "length buffer = MAX_FRAME_BYTES" and "n \<le> MAX_FRAME_BYTES" and "MAX_FRAME_BYTES \<le> length pout"
  shows "and_then (decode_frame_in_place buffer n) (\<lambda>(h, (i, k), buf). Ok (h, subslice buf i k)) =
    and_then (decode_frame (take n buffer) pout) (\<lambda>(h, k, out). Ok (h, take k out))"
proof -
  have "and_then (decode_frame_in_place buffer n) (\<lambda>(h, (i, k), buf). Ok (h, subslice buf i k)) =
    and_then (and_then (decode_frame_in_place buffer n) (\<lambda>(h, (i, k), buf). Ok (h, i, subslice buf i k)))
      (\<lambda>(h, i, p). Ok (h, p))"
    by (cases "decode_frame_in_place buffer n") auto
  also have "\<dots> = and_then (delivered (cobs_decode (take n buffer) (replicate MAX_FRAME_BYTES 0))) (\<lambda>raw.
       and_then (parse_raw raw) (\<lambda>(h, payload).
       and_then (typed_header (raw_kind h) (raw_opcode h) (raw_status h) (raw_sequence h) (raw_payload_len h))
         (\<lambda>h. Ok (h, payload))))"
  proof -
    have "delivered (cobs_decode_in_place buffer n) =
        delivered (cobs_decode (take n buffer) (replicate MAX_FRAME_BYTES 0))"
      using assms by (intro delivered_in_place) simp_all
    then show ?thesis
      unfolding decode_frame_in_place_eq[OF assms(1)] using assms(2)
      by (auto simp: and_then_assoc intro!: and_then_cong)
  qed
  also have "\<dots> = and_then (decode_frame (take n buffer) pout) (\<lambda>(h, k, out). Ok (h, take k out))"
  proof -
    have short: "length p \<le> length pout"
      if "delivered (cobs_decode (take n buffer) (replicate MAX_FRAME_BYTES 0)) = Ok raw"
        and "parse_raw raw = Ok (h, p)" for raw h p
    proof -
      have "length raw \<le> MAX_FRAME_BYTES"
        using that(1) assms length_dec_blocks[of "butlast (take n buffer)" raw]
        by (auto simp: delivered_cobs_decode split: if_splits)
      then show ?thesis using parse_raw_canonical[OF that(2)] assms(3) by simp
    qed
    show ?thesis
      unfolding decode_frame_eq decode_raw_frame_eq using assms(1,2)
      by (auto simp: and_then_assoc overwrite_def intro!: and_then_cong dest: short[simplified])
  qed
  finally show ?thesis .
qed

lemma decode_frame_in_place_equiv_witness:
  "and_then (decode_frame_in_place ([2, 7, 0] @ replicate 4123 0) 3) (\<lambda>(h, (i, k), buf). Ok (h, subslice buf i k)) =
   and_then (decode_frame (take 3 ([2, 7, 0] @ replicate 4123 0)) (replicate MAX_FRAME_BYTES 0))
     (\<lambda>(h, k, out). Ok (h, take k out))"
  by (rule decode_frame_in_place_equiv) simp_all

end
