(* ===== verification/Codec.thy ===== *)
theory Codec
  imports Protocol_Types
begin

text \<open>
  The contract of the message codecs of the diagnostic protocol.  A codec is specified by the
  byte string \<open>wire m\<close> of a message: its encoder stores \<open>wire m\<close> at the start
  of the output buffer or reports why it cannot, and its decoder reads \<open>wire m\<close> back.
  \<open>typed\<close> holds what Rust's types guarantee of a message value (a \<open>&str\<close> is
  well-formed UTF-8), \<open>valid\<close> is what the encoder checks.
\<close>

locale codec =
  fixes typed :: "'m \<Rightarrow> bool"
    and valid :: "'m \<Rightarrow> bool"
    and wire :: "'m \<Rightarrow> bytes"
    and enc :: "'m \<Rightarrow> bytes \<Rightarrow> (nat \<times> bytes, ProtocolError) res"
    and dec :: "bytes \<Rightarrow> ('m, ProtocolError) res"
  assumes enc_invalid: "typed m \<Longrightarrow> \<not> valid m \<Longrightarrow> enc m out = Err InvalidValue"
    and enc_small: "typed m \<Longrightarrow> valid m \<Longrightarrow> length out < length (wire m) \<Longrightarrow> enc m out = Err OutputTooSmall"
    and enc_wire: "typed m \<Longrightarrow> valid m \<Longrightarrow> length (wire m) \<le> length out \<Longrightarrow>
      enc m out = Ok (length (wire m), wire m @ drop (length (wire m)) out)"
    and dec_wire: "typed m \<Longrightarrow> valid m \<Longrightarrow> dec (wire m) = Ok m"
    and dec_total: "dec p \<noteq> Panic"
begin

lemma enc_cases:
  assumes "typed m"
  obtains (invalid) "\<not> valid m" "enc m out = Err InvalidValue"
  | (small) "valid m" "enc m out = Err OutputTooSmall"
  | (ok) "valid m" "length (wire m) \<le> length out"
      "enc m out = Ok (length (wire m), wire m @ drop (length (wire m)) out)"
  using enc_invalid enc_small enc_wire assms by (metis not_le_imp_less)

lemma enc_eq: "typed m \<Longrightarrow> enc m out =
    (if \<not> valid m then Err InvalidValue
     else if length out < length (wire m) then Err OutputTooSmall
     else Ok (length (wire m), wire m @ drop (length (wire m)) out))"
  by (auto simp: enc_invalid enc_small enc_wire)

lemma enc_total: "typed m \<Longrightarrow> enc m out \<noteq> Panic"
  by (erule enc_cases[where out = out]) simp_all

lemma roundtrip:
  assumes "typed m" and "enc m out = Ok (n, out')"
  shows "valid m \<and> n \<le> length out \<and> length out' = length out \<and> drop n out' = drop n out \<and>
    dec (take n out') = Ok m"
  using assms(1)
proof (cases rule: enc_cases[where out = out])
  case ok
  with assms dec_wire[of m] show ?thesis by auto
qed (use assms in simp_all)

lemma enc_succeeds:
  "typed m \<Longrightarrow> valid m \<Longrightarrow> length (wire m) \<le> length out \<Longrightarrow> \<exists>n out'. enc m out = Ok (n, out')"
  using enc_wire by blast

lemma wire_inject: "typed m \<Longrightarrow> valid m \<Longrightarrow> typed m' \<Longrightarrow> valid m' \<Longrightarrow> wire m = wire m' \<Longrightarrow> m = m'"
  using dec_wire by (metis res.inject(1))

end

text \<open>A decoder that accepts exactly the encodings of valid messages.\<close>

locale strict_codec = codec +
  assumes dec_only: "dec p = Ok m \<Longrightarrow> typed m \<and> valid m \<and> p = wire m"
begin

lemma dec_iff: "dec p = Ok m \<longleftrightarrow> typed m \<and> valid m \<and> p = wire m"
  using dec_only dec_wire by blast

lemma dec_inject: "dec p = Ok m \<Longrightarrow> dec q = Ok m \<Longrightarrow> p = q"
  using dec_only by blast

lemma reencode:
  "dec p = Ok m \<Longrightarrow> length p \<le> length out \<Longrightarrow> enc m out = Ok (length p, p @ drop (length p) out)"
  using dec_only enc_wire by metis

end

text \<open>A decoder of one record at the start of a longer payload.\<close>

locale prefix_codec = codec +
  assumes dec_prefix: "typed m \<Longrightarrow> valid m \<Longrightarrow> dec (wire m @ rest) = Ok m"

text \<open>Encoders and decoders of one message are unfolded with these facts.\<close>

named_theorems codec_defs "definitions of encoders, decoders, wire formats and validity checks"

lemmas codec_enc = slice_laws overwrite_compose Let_def

lemmas wire_from_to =
  frameKind_wire.from_to opcode_wire.from_to status_wire.from_to storageBackend_wire.from_to
  keyCode_wire.from_to keyAction_wire.from_to pageAction_wire.from_to panelModeCode_wire.from_to
  probeCode_wire.from_to refreshModeAction_wire.from_to refreshModeCode_wire.from_to
  transferDirection_wire.from_to transferTraceAction_wire.from_to transferTraceState_wire.from_to
  storeBulkState_wire.from_to storeUploadCommitResult_wire.from_to sdSectorPurpose_wire.from_to
  sdWriteTraceAction_wire.from_to

lemmas wire_from_iff =
  frameKind_wire.from_u8_Some_iff opcode_wire.from_u8_Some_iff status_wire.from_u8_Some_iff
  storageBackend_wire.from_u8_Some_iff keyCode_wire.from_u8_Some_iff keyAction_wire.from_u8_Some_iff
  pageAction_wire.from_u8_Some_iff panelModeCode_wire.from_u8_Some_iff probeCode_wire.from_u8_Some_iff
  refreshModeAction_wire.from_u8_Some_iff refreshModeCode_wire.from_u8_Some_iff
  transferDirection_wire.from_u8_Some_iff transferTraceAction_wire.from_u8_Some_iff
  transferTraceState_wire.from_u8_Some_iff storeBulkState_wire.from_u8_Some_iff
  storeUploadCommitResult_wire.from_u8_Some_iff sdSectorPurpose_wire.from_u8_Some_iff
  sdWriteTraceAction_wire.from_u8_Some_iff

text \<open>What the proofs of an encoding, of a decoding and of its converse unfold.\<close>

lemmas codec_dec = codec_enc slice_read wire_from_to
lemmas codec_only = codec_enc and_then_Ok_iff slice_join to_le_of_le wire_from_iff

subsection \<open>Checks, names and flags\<close>

text \<open>A check of the code: \<open>Err(InvalidValue)\<close> unless the condition holds.\<close>

definition require :: "bool \<Rightarrow> (unit, ProtocolError) res" where
  "require c = (if c then Ok () else Err InvalidValue)"

lemma require_simps [simp]: "require True = Ok ()" "require False = Err InvalidValue"
  "require c \<noteq> Panic" "require c = Ok x \<longleftrightarrow> c"
  by (simp_all add: require_def)

definition STORE_NAME_MAX :: nat where [simp]: "STORE_NAME_MAX = 121"

text \<open>Names of stored files: one to 121 bytes without a path separator.\<close>

definition valid_name :: "bytes \<Rightarrow> bool" where
  "valid_name bytes = (bytes \<noteq> [] \<and> length bytes \<le> STORE_NAME_MAX \<and> 0x2F \<notin> set bytes \<and> 0x5C \<notin> set bytes)"

definition validate_name :: "bytes \<Rightarrow> (bytes, ProtocolError) res" where
  "validate_name bytes =
    (if bytes = [] \<or> length bytes > STORE_NAME_MAX \<or> list_ex (\<lambda>b. b = 0x2F \<or> b = 0x5C) bytes
     then Err InvalidValue else Ok bytes)"

lemma validate_name_eq: "validate_name n = (if valid_name n then Ok n else Err InvalidValue)"
  by (auto simp: validate_name_def valid_name_def list_ex_iff)

lemma valid_name_length: "valid_name n \<Longrightarrow> length n < 256 \<and> length n \<le> 121 \<and> n \<noteq> []"
  by (simp add: valid_name_def)

text \<open>\<open>from_utf8\<close> borrows the bytes it was given or fails.\<close>

definition from_utf8 :: "bytes \<Rightarrow> (bytes, ProtocolError) res" where
  "from_utf8 bytes = (if utf8_valid bytes then Ok bytes else Err InvalidValue)"

lemma byte_length [simp]: "n < 256 \<Longrightarrow> unat (of_nat n :: u8) = n"
  by (subst unat_of_nat) simp

lemma u16_length [simp]: "n < 65536 \<Longrightarrow> unat (of_nat n :: u16) = n"
  by (subst unat_of_nat) simp

text \<open>A slice is shorter than the 32-bit address space of the device.\<close>

definition addressable :: "bytes \<Rightarrow> bool" where
  "addressable bs = (length bs < 2 ^ 32)"

lemma addressable_length [simp]: "addressable bs \<Longrightarrow> unat (of_nat (length bs) :: u32) = length bs"
  by (subst unat_of_nat) (simp add: addressable_def)

lemma addressable_unat: "length bs = unat (w :: u32) \<Longrightarrow> addressable bs"
  using unsigned_less[of w] by (simp add: addressable_def)

text \<open>\<open>u8::from(bool)\<close>\<close>

definition bool_byte :: "bool \<Rightarrow> u8" where
  "bool_byte b = (if b then 1 else 0)"

lemma bool_byte_simps [simp]: "bool_byte b \<noteq> 0 \<longleftrightarrow> b" "\<not> 1 < bool_byte b"
  by (simp_all add: bool_byte_def)

lemma bool_byte_flag [simp]: "\<not> 1 < b \<Longrightarrow> bool_byte (b \<noteq> 0) = b"
proof -
  assume "\<not> 1 < b"
  then have "unat b \<le> 1" by (simp add: word_less_nat_alt)
  then have "b = 0 \<or> b = 1"
    using word_unat_eq_iff[of b 0] word_unat_eq_iff[of b 1] by (cases "unat b = 0") simp_all
  then show ?thesis by (auto simp: bool_byte_def)
qed

end
