(* ===== verification/Bulk_Messages.thy ===== *)
theory Bulk_Messages
  imports Codec
begin

text \<open>
  The messages of the bulk transfer sub-protocol (\<^verbatim>\<open>bulk_open.rs\<close>,
  \<^verbatim>\<open>bulk_data.rs\<close>, \<^verbatim>\<open>bulk_control.rs\<close>) and the transfer
  limits (\<^verbatim>\<open>transfer_limits.rs\<close>).  Every encoder stores its fields at the
  offsets of the code; \<open>wire_*\<close> is the byte string it has to produce, \<open>valid_*\<close>
  the condition its validation checks.
\<close>

definition STORE_BULK_OPEN_HEADER_BYTES :: nat where [simp]: "STORE_BULK_OPEN_HEADER_BYTES = 16"
definition STORE_BULK_OPEN_RESPONSE_BYTES :: nat where [simp]: "STORE_BULK_OPEN_RESPONSE_BYTES = 16"
definition STORE_BULK_MAX_DATA_BYTES :: u16 where [simp]: "STORE_BULK_MAX_DATA_BYTES = 3584"
definition STORE_BULK_DATA_HEADER_BYTES :: nat where [simp]: "STORE_BULK_DATA_HEADER_BYTES = 12"
definition STORE_BULK_CREDIT_BYTES :: nat where [simp]: "STORE_BULK_CREDIT_BYTES = 12"
definition STORE_BULK_ID_BYTES :: nat where [simp]: "STORE_BULK_ID_BYTES = 4"
definition STORE_BULK_STATUS_RESPONSE_BYTES :: nat where [simp]: "STORE_BULK_STATUS_RESPONSE_BYTES = 20"
definition STORE_BULK_FINISH_RESPONSE_BYTES :: nat where [simp]: "STORE_BULK_FINISH_RESPONSE_BYTES = 16"
definition TRANSFER_LIMITS_SCHEMA_VERSION :: u8 where [simp]: "TRANSFER_LIMITS_SCHEMA_VERSION = 1"
definition TRANSFER_LIMITS_BYTES :: nat where [simp]: "TRANSFER_LIMITS_BYTES = 16"
definition TRANSFER_LIMIT_FLAGS :: u8 where [simp]: "TRANSFER_LIMIT_FLAGS = 3"
definition BULK_DATA_HEADER_BYTES :: nat where [simp]: "BULK_DATA_HEADER_BYTES = 12"

subsection \<open>Opening a stream\<close>

record StoreBulkOpenRequest =
  obr_direction :: TransferDirection
  obr_backend :: StorageBackend
  obr_requested_window :: u8
  obr_requested_chunk :: u16
  obr_name :: bytes
  obr_total_size :: u32
  obr_expected_crc32 :: u32

record StoreBulkOpenResponse =
  obs_stream_id :: u32
  obs_selected_chunk :: u16
  obs_initial_credits :: u8
  obs_direction :: TransferDirection
  obs_durable_offset :: u32
  obs_total_size :: u32

definition valid_requested_window :: "u8 \<Rightarrow> bool" where
  "valid_requested_window value = (value \<in> {0, 1, 2, 4, 8})"

definition open_metadata_valid :: "StoreBulkOpenRequest \<Rightarrow> bool" where
  "open_metadata_valid value = (case obr_direction value of
      Td_Upload \<Rightarrow> obr_total_size value \<noteq> 0
    | Td_Readback \<Rightarrow> obr_total_size value = 0 \<and> obr_expected_crc32 value = 0
    | Td_Unspecified \<Rightarrow> False)"

definition validate_open_request :: "StoreBulkOpenRequest \<Rightarrow> (unit, ProtocolError) res" where
  "validate_open_request value =
    and_then (validate_name (obr_name value)) (\<lambda>_.
    if \<not> valid_requested_window (obr_requested_window value) \<or>
       (obr_requested_chunk value \<noteq> 0 \<and> obr_requested_chunk value < 512) \<or>
       \<not> open_metadata_valid value
    then Err InvalidValue else Ok ())"

definition valid_open_request :: "StoreBulkOpenRequest \<Rightarrow> bool" where
  "valid_open_request value = (valid_name (obr_name value) \<and>
    valid_requested_window (obr_requested_window value) \<and>
    (obr_requested_chunk value = 0 \<or> 512 \<le> obr_requested_chunk value) \<and> open_metadata_valid value)"

lemma validate_open_request_eq: "validate_open_request v = require (valid_open_request v)"
  by (auto simp: validate_open_request_def validate_name_eq valid_open_request_def require_def)

definition encode_store_bulk_open_request :: "StoreBulkOpenRequest \<Rightarrow> bytes \<Rightarrow> (nat \<times> bytes, ProtocolError) res" where [codec_defs]:
  "encode_store_bulk_open_request value out =
    and_then (validate_open_request value) (\<lambda>_.
    (let name = obr_name value in
    (let total = STORE_BULK_OPEN_HEADER_BYTES + length name in
    (if length out < total then Err OutputTooSmall else
    and_then (put out 0 [TransferDirection_to_u8 (obr_direction value)]) (\<lambda>out.
    and_then (put out 1 [StorageBackend_to_u8 (obr_backend value)]) (\<lambda>out.
    and_then (put out 2 [obr_requested_window value]) (\<lambda>out.
    and_then (put out 3 [0]) (\<lambda>out.
    and_then (put out 4 (to_le 2 (obr_requested_chunk value))) (\<lambda>out.
    and_then (put out 6 [of_nat (length name)]) (\<lambda>out.
    and_then (put out 7 [0]) (\<lambda>out.
    and_then (put out 8 (to_le 4 (obr_total_size value))) (\<lambda>out.
    and_then (put out 12 (to_le 4 (obr_expected_crc32 value))) (\<lambda>out.
    and_then (put out 16 name) (\<lambda>out.
    Ok (total, out)))))))))))))))"

definition decode_store_bulk_open_request :: "bytes \<Rightarrow> (StoreBulkOpenRequest, ProtocolError) res" where [codec_defs]:
  "decode_store_bulk_open_request payload =
    (if length payload < STORE_BULK_OPEN_HEADER_BYTES then Err BadPayloadLength else
    and_then (byte_at payload 3) (\<lambda>r3.
    and_then (byte_at payload 7) (\<lambda>r7.
    (if r3 \<noteq> 0 \<or> r7 \<noteq> 0 then Err InvalidValue else
    and_then (byte_at payload 6) (\<lambda>len8.
    (let name_len = unat len8 in
    (if length payload \<noteq> STORE_BULK_OPEN_HEADER_BYTES + name_len then Err BadPayloadLength else
    and_then (from_utf8 (drop 16 payload)) (\<lambda>name.
    and_then (byte_at payload 0) (\<lambda>d.
    and_then (ok_or InvalidValue (TransferDirection_from_u8 d)) (\<lambda>direction.
    and_then (byte_at payload 1) (\<lambda>b.
    and_then (ok_or InvalidValue (StorageBackend_from_u8 b)) (\<lambda>backend.
    and_then (byte_at payload 2) (\<lambda>window.
    and_then (u16_at payload 4) (\<lambda>chunk.
    and_then (u32_at payload 8) (\<lambda>size.
    and_then (u32_at payload 12) (\<lambda>crc.
    (let value = \<lparr>obr_direction = direction, obr_backend = backend, obr_requested_window = window, obr_requested_chunk = chunk, obr_name = name, obr_total_size = size, obr_expected_crc32 = crc\<rparr> in
    and_then (validate_open_request value) (\<lambda>_.
    Ok value))))))))))))))))))"

definition wire_open_request :: "StoreBulkOpenRequest \<Rightarrow> bytes" where
  "wire_open_request m = 
    [TransferDirection_to_u8 (obr_direction m), StorageBackend_to_u8 (obr_backend m), obr_requested_window m, 0] @
    to_le 2 (obr_requested_chunk m) @ [of_nat (length (obr_name m)), 0] @
    to_le 4 (obr_total_size m) @ to_le 4 (obr_expected_crc32 m) @ obr_name m"

interpretation open_request: strict_codec "\<lambda>m. utf8_valid (obr_name m)" "valid_open_request"
  "wire_open_request" "encode_store_bulk_open_request" "decode_store_bulk_open_request"
proof
  fix m :: "StoreBulkOpenRequest" and out p :: bytes
  show "encode_store_bulk_open_request m out = Err InvalidValue" if "(\<lambda>m. utf8_valid (obr_name m)) m" "\<not> valid_open_request m"
    using that by (auto simp: encode_store_bulk_open_request_def decode_store_bulk_open_request_def wire_open_request_def validate_open_request_eq Let_def)
  show "encode_store_bulk_open_request m out = Err OutputTooSmall" if "(\<lambda>m. utf8_valid (obr_name m)) m" "valid_open_request m" "length out < length (wire_open_request m)"
    using that by (auto simp: encode_store_bulk_open_request_def decode_store_bulk_open_request_def wire_open_request_def validate_open_request_eq Let_def)
  show "encode_store_bulk_open_request m out = Ok (length (wire_open_request m), wire_open_request m @ drop (length (wire_open_request m)) out)"
    if "(\<lambda>m. utf8_valid (obr_name m)) m" "valid_open_request m" "length (wire_open_request m) \<le> length out"
    using that by (simp add: encode_store_bulk_open_request_def decode_store_bulk_open_request_def wire_open_request_def validate_open_request_eq codec_enc) (simp add: overwrite_start)
  show "decode_store_bulk_open_request (wire_open_request m) = Ok m" if "(\<lambda>m. utf8_valid (obr_name m)) m" "valid_open_request m"
  proof -
    have len: "length (obr_name m) < 256"
      using that by (simp add: valid_open_request_def valid_name_length)
    then show ?thesis
      using that by (cases m) (simp add: encode_store_bulk_open_request_def decode_store_bulk_open_request_def wire_open_request_def validate_open_request_eq from_utf8_def codec_dec)
  qed
  show "decode_store_bulk_open_request p \<noteq> Panic"
    by (auto simp: encode_store_bulk_open_request_def decode_store_bulk_open_request_def wire_open_request_def validate_open_request_eq from_utf8_def codec_enc and_then_Panic_iff)
  show "(\<lambda>m. utf8_valid (obr_name m)) m \<and> valid_open_request m \<and> p = wire_open_request m" if "decode_store_bulk_open_request p = Ok m"
    using that by (auto simp: encode_store_bulk_open_request_def decode_store_bulk_open_request_def wire_open_request_def validate_open_request_eq from_utf8_def  codec_only split: if_splits)
qed

definition validate_open_response :: "StoreBulkOpenResponse \<Rightarrow> (unit, ProtocolError) res" where
  "validate_open_response value =
    (if obs_stream_id value = 0 \<or> obs_direction value = Td_Unspecified \<or>
        obs_selected_chunk value < 512 \<or> obs_selected_chunk value > STORE_BULK_MAX_DATA_BYTES \<or>
        obs_selected_chunk value mod 512 \<noteq> 0 \<or> obs_initial_credits value = 0 \<or>
        obs_total_size value = 0 \<or> obs_durable_offset value > obs_total_size value
     then Err InvalidValue else Ok ())"

definition valid_open_response :: "StoreBulkOpenResponse \<Rightarrow> bool" where
  "valid_open_response value = (obs_stream_id value \<noteq> 0 \<and> obs_direction value \<noteq> Td_Unspecified \<and>
    512 \<le> obs_selected_chunk value \<and> obs_selected_chunk value \<le> STORE_BULK_MAX_DATA_BYTES \<and>
    512 dvd unat (obs_selected_chunk value) \<and> obs_initial_credits value \<noteq> 0 \<and>
    obs_total_size value \<noteq> 0 \<and> obs_durable_offset value \<le> obs_total_size value)"

lemma mod_512_zero: "(c :: u16) mod 512 = 0 \<longleftrightarrow> 512 dvd unat c"
proof -
  have "unat (c mod 512) = unat c mod 512" by (simp add: unat_mod_distrib)
  then show ?thesis by (metis dvd_eq_mod_eq_0 unat_0 word_unat_eq_iff)
qed

lemma validate_open_response_eq: "validate_open_response v = require (valid_open_response v)"
  by (auto simp: validate_open_response_def valid_open_response_def require_def mod_512_zero not_less not_le)

definition encode_store_bulk_open_response :: "StoreBulkOpenResponse \<Rightarrow> bytes \<Rightarrow> (nat \<times> bytes, ProtocolError) res" where [codec_defs]:
  "encode_store_bulk_open_response value out =
    and_then (validate_open_response value) (\<lambda>_.
    (if length out < STORE_BULK_OPEN_RESPONSE_BYTES then Err OutputTooSmall else
    and_then (put out 0 (to_le 4 (obs_stream_id value))) (\<lambda>out.
    and_then (put out 4 (to_le 2 (obs_selected_chunk value))) (\<lambda>out.
    and_then (put out 6 [obs_initial_credits value]) (\<lambda>out.
    and_then (put out 7 [TransferDirection_to_u8 (obs_direction value)]) (\<lambda>out.
    and_then (put out 8 (to_le 4 (obs_durable_offset value))) (\<lambda>out.
    and_then (put out 12 (to_le 4 (obs_total_size value))) (\<lambda>out.
    Ok (STORE_BULK_OPEN_RESPONSE_BYTES, out)))))))))"

definition decode_store_bulk_open_response :: "bytes \<Rightarrow> (StoreBulkOpenResponse, ProtocolError) res" where [codec_defs]:
  "decode_store_bulk_open_response payload =
    (if length payload \<noteq> STORE_BULK_OPEN_RESPONSE_BYTES then Err BadPayloadLength else
    and_then (u32_at payload 0) (\<lambda>stream_id.
    and_then (u16_at payload 4) (\<lambda>chunk.
    and_then (byte_at payload 6) (\<lambda>credits.
    and_then (byte_at payload 7) (\<lambda>d.
    and_then (ok_or InvalidValue (TransferDirection_from_u8 d)) (\<lambda>direction.
    and_then (u32_at payload 8) (\<lambda>durable.
    and_then (u32_at payload 12) (\<lambda>size.
    (let value = \<lparr>obs_stream_id = stream_id, obs_selected_chunk = chunk, obs_initial_credits = credits, obs_direction = direction, obs_durable_offset = durable, obs_total_size = size\<rparr> in
    and_then (validate_open_response value) (\<lambda>_.
    Ok value))))))))))"

definition wire_open_response :: "StoreBulkOpenResponse \<Rightarrow> bytes" where
  "wire_open_response m = 
    to_le 4 (obs_stream_id m) @ to_le 2 (obs_selected_chunk m) @
    [obs_initial_credits m, TransferDirection_to_u8 (obs_direction m)] @
    to_le 4 (obs_durable_offset m) @ to_le 4 (obs_total_size m)"

interpretation open_response: strict_codec "\<lambda>_. True" "valid_open_response"
  "wire_open_response" "encode_store_bulk_open_response" "decode_store_bulk_open_response"
proof
  fix m :: "StoreBulkOpenResponse" and out p :: bytes
  show "encode_store_bulk_open_response m out = Err InvalidValue" if "(\<lambda>_. True) m" "\<not> valid_open_response m"
    using that by (auto simp: encode_store_bulk_open_response_def decode_store_bulk_open_response_def wire_open_response_def validate_open_response_eq Let_def)
  show "encode_store_bulk_open_response m out = Err OutputTooSmall" if "(\<lambda>_. True) m" "valid_open_response m" "length out < length (wire_open_response m)"
    using that by (auto simp: encode_store_bulk_open_response_def decode_store_bulk_open_response_def wire_open_response_def validate_open_response_eq Let_def)
  show "encode_store_bulk_open_response m out = Ok (length (wire_open_response m), wire_open_response m @ drop (length (wire_open_response m)) out)"
    if "(\<lambda>_. True) m" "valid_open_response m" "length (wire_open_response m) \<le> length out"
    using that by (simp add: encode_store_bulk_open_response_def decode_store_bulk_open_response_def wire_open_response_def validate_open_response_eq codec_enc) (simp add: overwrite_start)
  show "decode_store_bulk_open_response (wire_open_response m) = Ok m" if "(\<lambda>_. True) m" "valid_open_response m"
    using that by (cases m) (simp add: encode_store_bulk_open_response_def decode_store_bulk_open_response_def wire_open_response_def validate_open_response_eq  codec_dec)
  show "decode_store_bulk_open_response p \<noteq> Panic"
    by (auto simp: encode_store_bulk_open_response_def decode_store_bulk_open_response_def wire_open_response_def validate_open_response_eq  codec_enc and_then_Panic_iff)
  show "(\<lambda>_. True) m \<and> valid_open_response m \<and> p = wire_open_response m" if "decode_store_bulk_open_response p = Ok m"
  proof -
    have "(\<lambda>_. True) m \<and> valid_open_response m \<and> length p = 16 \<and> p = wire_open_response m @ drop 16 p"
      using that by (auto simp: encode_store_bulk_open_response_def decode_store_bulk_open_response_def wire_open_response_def validate_open_response_eq   codec_only split: if_splits simp del: drop_all)
    then show ?thesis using fixed_tail by blast
  qed
qed

subsection \<open>Data and credit\<close>

record StoreBulkData =
  bd_stream_id :: u32
  bd_offset :: u32
  bd_end_of_data :: bool
  bd_data :: bytes

record StoreBulkCredit =
  bc_stream_id :: u32
  bc_durable_offset :: u32
  bc_credits :: u8
  bc_status :: Status

definition encode_store_bulk_data :: "StoreBulkData \<Rightarrow> bytes \<Rightarrow> (nat \<times> bytes, ProtocolError) res" where [codec_defs]:
  "encode_store_bulk_data value out =
    (if bd_stream_id value = 0 \<or> bd_data value = [] \<or> length (bd_data value) > unat STORE_BULK_MAX_DATA_BYTES then Err InvalidValue else
    (let total = STORE_BULK_DATA_HEADER_BYTES + length (bd_data value) in
    (if length out < total then Err OutputTooSmall else
    and_then (put out 0 (to_le 4 (bd_stream_id value))) (\<lambda>out.
    and_then (put out 4 (to_le 4 (bd_offset value))) (\<lambda>out.
    and_then (put out 8 (to_le 2 (of_nat (length (bd_data value)) :: u16))) (\<lambda>out.
    and_then (put out 10 [bool_byte (bd_end_of_data value)]) (\<lambda>out.
    and_then (put out 11 [0]) (\<lambda>out.
    and_then (put out 12 (bd_data value)) (\<lambda>out.
    Ok (total, out))))))))))"

definition decode_store_bulk_data :: "bytes \<Rightarrow> (StoreBulkData, ProtocolError) res" where [codec_defs]:
  "decode_store_bulk_data payload =
    (if length payload < STORE_BULK_DATA_HEADER_BYTES then Err BadPayloadLength else
    and_then (byte_at payload 10) (\<lambda>eod.
    and_then (byte_at payload 11) (\<lambda>r11.
    (if eod > 1 \<or> r11 \<noteq> 0 then Err InvalidValue else
    and_then (u16_at payload 8) (\<lambda>len16.
    (let data_len = unat len16 in
    (if length payload \<noteq> STORE_BULK_DATA_HEADER_BYTES + data_len then Err BadPayloadLength else
    and_then (u32_at payload 0) (\<lambda>stream_id.
    and_then (u32_at payload 4) (\<lambda>offset.
    (let value = \<lparr>bd_stream_id = stream_id, bd_offset = offset, bd_end_of_data = eod \<noteq> 0, bd_data = drop 12 payload\<rparr> in
    (if bd_stream_id value = 0 \<or> bd_data value = [] \<or> length (bd_data value) > unat STORE_BULK_MAX_DATA_BYTES then Err InvalidValue else
    Ok value)))))))))))"

definition wire_bulk_data :: "StoreBulkData \<Rightarrow> bytes" where
  "wire_bulk_data m = 
    to_le 4 (bd_stream_id m) @ to_le 4 (bd_offset m) @ to_le 2 (of_nat (length (bd_data m)) :: u16) @
    [bool_byte (bd_end_of_data m), 0] @ bd_data m"

definition valid_bulk_data :: "StoreBulkData \<Rightarrow> bool" where
  "valid_bulk_data m = (bd_stream_id m \<noteq> 0 \<and> bd_data m \<noteq> [] \<and> length (bd_data m) \<le> 3584)"

interpretation bulk_data: strict_codec "\<lambda>_. True" "valid_bulk_data"
  "wire_bulk_data" "encode_store_bulk_data" "decode_store_bulk_data"
proof
  fix m :: "StoreBulkData" and out p :: bytes
  show "encode_store_bulk_data m out = Err InvalidValue" if "(\<lambda>_. True) m" "\<not> valid_bulk_data m"
    using that by (auto simp: encode_store_bulk_data_def decode_store_bulk_data_def wire_bulk_data_def valid_bulk_data_def  Let_def)
  show "encode_store_bulk_data m out = Err OutputTooSmall" if "(\<lambda>_. True) m" "valid_bulk_data m" "length out < length (wire_bulk_data m)"
    using that by (auto simp: encode_store_bulk_data_def decode_store_bulk_data_def wire_bulk_data_def valid_bulk_data_def  Let_def)
  show "encode_store_bulk_data m out = Ok (length (wire_bulk_data m), wire_bulk_data m @ drop (length (wire_bulk_data m)) out)"
    if "(\<lambda>_. True) m" "valid_bulk_data m" "length (wire_bulk_data m) \<le> length out"
    using that by (simp add: encode_store_bulk_data_def decode_store_bulk_data_def wire_bulk_data_def valid_bulk_data_def  codec_enc) (simp add: overwrite_start)
  show "decode_store_bulk_data (wire_bulk_data m) = Ok m" if "(\<lambda>_. True) m" "valid_bulk_data m"
  proof -
    have len: "length (bd_data m) < 65536"
      using that by (simp add: valid_bulk_data_def)
    then show ?thesis
      using that by (cases m) (simp add: encode_store_bulk_data_def decode_store_bulk_data_def wire_bulk_data_def valid_bulk_data_def   codec_dec)
  qed
  show "decode_store_bulk_data p \<noteq> Panic"
    by (auto simp: encode_store_bulk_data_def decode_store_bulk_data_def wire_bulk_data_def valid_bulk_data_def   codec_enc and_then_Panic_iff)
  show "(\<lambda>_. True) m \<and> valid_bulk_data m \<and> p = wire_bulk_data m" if "decode_store_bulk_data p = Ok m"
    using that by (auto simp: encode_store_bulk_data_def decode_store_bulk_data_def wire_bulk_data_def valid_bulk_data_def    codec_only split: if_splits)
qed

definition encode_store_bulk_credit :: "StoreBulkCredit \<Rightarrow> bytes \<Rightarrow> (nat \<times> bytes, ProtocolError) res" where [codec_defs]:
  "encode_store_bulk_credit value out =
    (if bc_stream_id value = 0 then Err InvalidValue else
    (if length out < STORE_BULK_CREDIT_BYTES then Err OutputTooSmall else
    and_then (put out 0 (to_le 4 (bc_stream_id value))) (\<lambda>out.
    and_then (put out 4 (to_le 4 (bc_durable_offset value))) (\<lambda>out.
    and_then (put out 8 [bc_credits value]) (\<lambda>out.
    and_then (put out 9 [Status_to_u8 (bc_status value)]) (\<lambda>out.
    and_then (put out 10 [0, 0]) (\<lambda>out.
    Ok (STORE_BULK_CREDIT_BYTES, out))))))))"

definition decode_store_bulk_credit :: "bytes \<Rightarrow> (StoreBulkCredit, ProtocolError) res" where [codec_defs]:
  "decode_store_bulk_credit payload =
    (if length payload \<noteq> STORE_BULK_CREDIT_BYTES then Err BadPayloadLength else
    and_then (byte_at payload 10) (\<lambda>r10.
    and_then (byte_at payload 11) (\<lambda>r11.
    (if r10 \<noteq> 0 \<or> r11 \<noteq> 0 then Err InvalidValue else
    and_then (u32_at payload 0) (\<lambda>stream_id.
    and_then (u32_at payload 4) (\<lambda>durable.
    and_then (byte_at payload 8) (\<lambda>credits.
    and_then (byte_at payload 9) (\<lambda>s.
    and_then (ok_or InvalidValue (Status_from_u8 s)) (\<lambda>status.
    (let value = \<lparr>bc_stream_id = stream_id, bc_durable_offset = durable, bc_credits = credits, bc_status = status\<rparr> in
    (if bc_stream_id value = 0 then Err InvalidValue else
    Ok value)))))))))))"

definition wire_bulk_credit :: "StoreBulkCredit \<Rightarrow> bytes" where
  "wire_bulk_credit m = 
    to_le 4 (bc_stream_id m) @ to_le 4 (bc_durable_offset m) @ [bc_credits m, Status_to_u8 (bc_status m), 0, 0]"

interpretation bulk_credit: strict_codec "\<lambda>_. True" "\<lambda>m. bc_stream_id m \<noteq> 0"
  "wire_bulk_credit" "encode_store_bulk_credit" "decode_store_bulk_credit"
proof
  fix m :: "StoreBulkCredit" and out p :: bytes
  show "encode_store_bulk_credit m out = Err InvalidValue" if "(\<lambda>_. True) m" "\<not> (\<lambda>m. bc_stream_id m \<noteq> 0) m"
    using that by (auto simp: encode_store_bulk_credit_def decode_store_bulk_credit_def wire_bulk_credit_def  Let_def)
  show "encode_store_bulk_credit m out = Err OutputTooSmall" if "(\<lambda>_. True) m" "(\<lambda>m. bc_stream_id m \<noteq> 0) m" "length out < length (wire_bulk_credit m)"
    using that by (auto simp: encode_store_bulk_credit_def decode_store_bulk_credit_def wire_bulk_credit_def  Let_def)
  show "encode_store_bulk_credit m out = Ok (length (wire_bulk_credit m), wire_bulk_credit m @ drop (length (wire_bulk_credit m)) out)"
    if "(\<lambda>_. True) m" "(\<lambda>m. bc_stream_id m \<noteq> 0) m" "length (wire_bulk_credit m) \<le> length out"
    using that by (simp add: encode_store_bulk_credit_def decode_store_bulk_credit_def wire_bulk_credit_def  codec_enc) (simp add: overwrite_start)
  show "decode_store_bulk_credit (wire_bulk_credit m) = Ok m" if "(\<lambda>_. True) m" "(\<lambda>m. bc_stream_id m \<noteq> 0) m"
    using that by (cases m) (simp add: encode_store_bulk_credit_def decode_store_bulk_credit_def wire_bulk_credit_def   codec_dec)
  show "decode_store_bulk_credit p \<noteq> Panic"
    by (auto simp: encode_store_bulk_credit_def decode_store_bulk_credit_def wire_bulk_credit_def   codec_enc and_then_Panic_iff)
  show "(\<lambda>_. True) m \<and> (\<lambda>m. bc_stream_id m \<noteq> 0) m \<and> p = wire_bulk_credit m" if "decode_store_bulk_credit p = Ok m"
  proof -
    have "(\<lambda>_. True) m \<and> (\<lambda>m. bc_stream_id m \<noteq> 0) m \<and> length p = 12 \<and> p = wire_bulk_credit m @ drop 12 p"
      using that by (auto simp: encode_store_bulk_credit_def decode_store_bulk_credit_def wire_bulk_credit_def    codec_only split: if_splits simp del: drop_all)
    then show ?thesis using fixed_tail by blast
  qed
qed

subsection \<open>Status, finish and abort\<close>

record StoreBulkStatusResponse =
  bs_stream_id :: u32
  bs_direction :: TransferDirection
  bs_state :: StoreBulkState
  bs_available_credits :: u8
  bs_durable_offset :: u32
  bs_total_size :: u32
  bs_running_crc32 :: u32

record StoreBulkFinishResponse =
  bf_stream_id :: u32
  bf_result :: StoreUploadCommitResult
  bf_total_bytes :: u32
  bf_computed_crc32 :: u32

definition encode_id :: "u32 \<Rightarrow> bytes \<Rightarrow> (nat \<times> bytes, ProtocolError) res" where [codec_defs]:
  "encode_id stream_id out =
    (if stream_id = 0 then Err InvalidValue else
    (if length out < STORE_BULK_ID_BYTES then Err OutputTooSmall else
    and_then (put out 0 (to_le 4 stream_id)) (\<lambda>out.
    Ok (STORE_BULK_ID_BYTES, out))))"

definition decode_id :: "bytes \<Rightarrow> (u32, ProtocolError) res" where [codec_defs]:
  "decode_id payload =
    (if length payload \<noteq> STORE_BULK_ID_BYTES then Err BadPayloadLength else
    and_then (u32_at payload 0) (\<lambda>value.
    (if value = 0 then Err InvalidValue else
    Ok value)))"

definition encode_store_bulk_status_request :: "u32 \<Rightarrow> bytes \<Rightarrow> (nat \<times> bytes, ProtocolError) res" where
  "encode_store_bulk_status_request stream_id out = encode_id stream_id out"

definition decode_store_bulk_status_request :: "bytes \<Rightarrow> (u32, ProtocolError) res" where
  "decode_store_bulk_status_request payload = decode_id payload"

definition encode_store_bulk_finish_request :: "u32 \<Rightarrow> bytes \<Rightarrow> (nat \<times> bytes, ProtocolError) res" where
  "encode_store_bulk_finish_request stream_id out = encode_id stream_id out"

definition decode_store_bulk_finish_request :: "bytes \<Rightarrow> (u32, ProtocolError) res" where
  "decode_store_bulk_finish_request payload = decode_id payload"

definition encode_store_bulk_abort_request :: "u32 \<Rightarrow> bytes \<Rightarrow> (nat \<times> bytes, ProtocolError) res" where
  "encode_store_bulk_abort_request stream_id out = encode_id stream_id out"

definition decode_store_bulk_abort_request :: "bytes \<Rightarrow> (u32, ProtocolError) res" where
  "decode_store_bulk_abort_request payload = decode_id payload"

interpretation bulk_status_request: strict_codec "\<lambda>_. True" "\<lambda>m. m \<noteq> 0"
  "to_le 4" "encode_store_bulk_status_request" "decode_store_bulk_status_request"
proof
  fix m :: "u32" and out p :: bytes
  show "encode_store_bulk_status_request m out = Err InvalidValue" if "(\<lambda>_. True) m" "\<not> (\<lambda>m. m \<noteq> 0) m"
    using that by (auto simp: encode_store_bulk_status_request_def decode_store_bulk_status_request_def encode_id_def decode_id_def  Let_def)
  show "encode_store_bulk_status_request m out = Err OutputTooSmall" if "(\<lambda>_. True) m" "(\<lambda>m. m \<noteq> 0) m" "length out < length (to_le 4 m)"
    using that by (auto simp: encode_store_bulk_status_request_def decode_store_bulk_status_request_def encode_id_def decode_id_def  Let_def)
  show "encode_store_bulk_status_request m out = Ok (length (to_le 4 m), to_le 4 m @ drop (length (to_le 4 m)) out)"
    if "(\<lambda>_. True) m" "(\<lambda>m. m \<noteq> 0) m" "length (to_le 4 m) \<le> length out"
    using that by (simp add: encode_store_bulk_status_request_def decode_store_bulk_status_request_def encode_id_def decode_id_def  codec_enc) (simp add: overwrite_start)
  show "decode_store_bulk_status_request (to_le 4 m) = Ok m" if "(\<lambda>_. True) m" "(\<lambda>m. m \<noteq> 0) m"
    using that by (simp add: encode_store_bulk_status_request_def decode_store_bulk_status_request_def encode_id_def decode_id_def   codec_dec)
  show "decode_store_bulk_status_request p \<noteq> Panic"
    by (auto simp: encode_store_bulk_status_request_def decode_store_bulk_status_request_def encode_id_def decode_id_def   codec_enc and_then_Panic_iff)
  show "(\<lambda>_. True) m \<and> (\<lambda>m. m \<noteq> 0) m \<and> p = to_le 4 m" if "decode_store_bulk_status_request p = Ok m"
    using that by (auto simp: encode_store_bulk_status_request_def decode_store_bulk_status_request_def encode_id_def decode_id_def    codec_only split: if_splits)
qed

interpretation bulk_finish_request: strict_codec "\<lambda>_. True" "\<lambda>m. m \<noteq> 0"
  "to_le 4" "encode_store_bulk_finish_request" "decode_store_bulk_finish_request"
proof
  fix m :: "u32" and out p :: bytes
  show "encode_store_bulk_finish_request m out = Err InvalidValue" if "(\<lambda>_. True) m" "\<not> (\<lambda>m. m \<noteq> 0) m"
    using that by (auto simp: encode_store_bulk_finish_request_def decode_store_bulk_finish_request_def encode_id_def decode_id_def  Let_def)
  show "encode_store_bulk_finish_request m out = Err OutputTooSmall" if "(\<lambda>_. True) m" "(\<lambda>m. m \<noteq> 0) m" "length out < length (to_le 4 m)"
    using that by (auto simp: encode_store_bulk_finish_request_def decode_store_bulk_finish_request_def encode_id_def decode_id_def  Let_def)
  show "encode_store_bulk_finish_request m out = Ok (length (to_le 4 m), to_le 4 m @ drop (length (to_le 4 m)) out)"
    if "(\<lambda>_. True) m" "(\<lambda>m. m \<noteq> 0) m" "length (to_le 4 m) \<le> length out"
    using that by (simp add: encode_store_bulk_finish_request_def decode_store_bulk_finish_request_def encode_id_def decode_id_def  codec_enc) (simp add: overwrite_start)
  show "decode_store_bulk_finish_request (to_le 4 m) = Ok m" if "(\<lambda>_. True) m" "(\<lambda>m. m \<noteq> 0) m"
    using that by (simp add: encode_store_bulk_finish_request_def decode_store_bulk_finish_request_def encode_id_def decode_id_def   codec_dec)
  show "decode_store_bulk_finish_request p \<noteq> Panic"
    by (auto simp: encode_store_bulk_finish_request_def decode_store_bulk_finish_request_def encode_id_def decode_id_def   codec_enc and_then_Panic_iff)
  show "(\<lambda>_. True) m \<and> (\<lambda>m. m \<noteq> 0) m \<and> p = to_le 4 m" if "decode_store_bulk_finish_request p = Ok m"
    using that by (auto simp: encode_store_bulk_finish_request_def decode_store_bulk_finish_request_def encode_id_def decode_id_def    codec_only split: if_splits)
qed

interpretation bulk_abort_request: strict_codec "\<lambda>_. True" "\<lambda>m. m \<noteq> 0"
  "to_le 4" "encode_store_bulk_abort_request" "decode_store_bulk_abort_request"
proof
  fix m :: "u32" and out p :: bytes
  show "encode_store_bulk_abort_request m out = Err InvalidValue" if "(\<lambda>_. True) m" "\<not> (\<lambda>m. m \<noteq> 0) m"
    using that by (auto simp: encode_store_bulk_abort_request_def decode_store_bulk_abort_request_def encode_id_def decode_id_def  Let_def)
  show "encode_store_bulk_abort_request m out = Err OutputTooSmall" if "(\<lambda>_. True) m" "(\<lambda>m. m \<noteq> 0) m" "length out < length (to_le 4 m)"
    using that by (auto simp: encode_store_bulk_abort_request_def decode_store_bulk_abort_request_def encode_id_def decode_id_def  Let_def)
  show "encode_store_bulk_abort_request m out = Ok (length (to_le 4 m), to_le 4 m @ drop (length (to_le 4 m)) out)"
    if "(\<lambda>_. True) m" "(\<lambda>m. m \<noteq> 0) m" "length (to_le 4 m) \<le> length out"
    using that by (simp add: encode_store_bulk_abort_request_def decode_store_bulk_abort_request_def encode_id_def decode_id_def  codec_enc) (simp add: overwrite_start)
  show "decode_store_bulk_abort_request (to_le 4 m) = Ok m" if "(\<lambda>_. True) m" "(\<lambda>m. m \<noteq> 0) m"
    using that by (simp add: encode_store_bulk_abort_request_def decode_store_bulk_abort_request_def encode_id_def decode_id_def   codec_dec)
  show "decode_store_bulk_abort_request p \<noteq> Panic"
    by (auto simp: encode_store_bulk_abort_request_def decode_store_bulk_abort_request_def encode_id_def decode_id_def   codec_enc and_then_Panic_iff)
  show "(\<lambda>_. True) m \<and> (\<lambda>m. m \<noteq> 0) m \<and> p = to_le 4 m" if "decode_store_bulk_abort_request p = Ok m"
    using that by (auto simp: encode_store_bulk_abort_request_def decode_store_bulk_abort_request_def encode_id_def decode_id_def    codec_only split: if_splits)
qed

definition validate_status :: "StoreBulkStatusResponse \<Rightarrow> (unit, ProtocolError) res" where
  "validate_status value =
    (if bs_stream_id value = 0 \<or> bs_direction value = Td_Unspecified \<or> bs_available_credits value = 0 \<or>
        bs_total_size value = 0 \<or> bs_durable_offset value > bs_total_size value \<or>
        (bs_durable_offset value = 0 \<and> bs_running_crc32 value \<noteq> 0)
     then Err InvalidValue else Ok ())"

definition valid_status :: "StoreBulkStatusResponse \<Rightarrow> bool" where
  "valid_status value = (bs_stream_id value \<noteq> 0 \<and> bs_direction value \<noteq> Td_Unspecified \<and>
    bs_available_credits value \<noteq> 0 \<and> bs_total_size value \<noteq> 0 \<and>
    bs_durable_offset value \<le> bs_total_size value \<and>
    (bs_durable_offset value = 0 \<longrightarrow> bs_running_crc32 value = 0))"

lemma validate_status_eq: "validate_status v = require (valid_status v)"
  by (auto simp: validate_status_def valid_status_def require_def not_less not_le)

definition encode_store_bulk_status_response :: "StoreBulkStatusResponse \<Rightarrow> bytes \<Rightarrow> (nat \<times> bytes, ProtocolError) res" where [codec_defs]:
  "encode_store_bulk_status_response value out =
    and_then (validate_status value) (\<lambda>_.
    (if length out < STORE_BULK_STATUS_RESPONSE_BYTES then Err OutputTooSmall else
    and_then (put out 0 (to_le 4 (bs_stream_id value))) (\<lambda>out.
    and_then (put out 4 [TransferDirection_to_u8 (bs_direction value)]) (\<lambda>out.
    and_then (put out 5 [StoreBulkState_to_u8 (bs_state value)]) (\<lambda>out.
    and_then (put out 6 [bs_available_credits value]) (\<lambda>out.
    and_then (put out 7 [0]) (\<lambda>out.
    and_then (put out 8 (to_le 4 (bs_durable_offset value))) (\<lambda>out.
    and_then (put out 12 (to_le 4 (bs_total_size value))) (\<lambda>out.
    and_then (put out 16 (to_le 4 (bs_running_crc32 value))) (\<lambda>out.
    Ok (STORE_BULK_STATUS_RESPONSE_BYTES, out)))))))))))"

definition decode_store_bulk_status_response :: "bytes \<Rightarrow> (StoreBulkStatusResponse, ProtocolError) res" where [codec_defs]:
  "decode_store_bulk_status_response payload =
    (if length payload \<noteq> STORE_BULK_STATUS_RESPONSE_BYTES then Err BadPayloadLength else
    and_then (byte_at payload 7) (\<lambda>r7.
    (if r7 \<noteq> 0 then Err InvalidValue else
    and_then (u32_at payload 0) (\<lambda>stream_id.
    and_then (byte_at payload 4) (\<lambda>d.
    and_then (ok_or InvalidValue (TransferDirection_from_u8 d)) (\<lambda>direction.
    and_then (byte_at payload 5) (\<lambda>s.
    and_then (ok_or InvalidValue (StoreBulkState_from_u8 s)) (\<lambda>state.
    and_then (byte_at payload 6) (\<lambda>credits.
    and_then (u32_at payload 8) (\<lambda>durable.
    and_then (u32_at payload 12) (\<lambda>size.
    and_then (u32_at payload 16) (\<lambda>crc.
    (let value = \<lparr>bs_stream_id = stream_id, bs_direction = direction, bs_state = state, bs_available_credits = credits, bs_durable_offset = durable, bs_total_size = size, bs_running_crc32 = crc\<rparr> in
    and_then (validate_status value) (\<lambda>_.
    Ok value))))))))))))))"

definition wire_bulk_status :: "StoreBulkStatusResponse \<Rightarrow> bytes" where
  "wire_bulk_status m = 
    to_le 4 (bs_stream_id m) @
    [TransferDirection_to_u8 (bs_direction m), StoreBulkState_to_u8 (bs_state m), bs_available_credits m, 0] @
    to_le 4 (bs_durable_offset m) @ to_le 4 (bs_total_size m) @ to_le 4 (bs_running_crc32 m)"

interpretation bulk_status_response: strict_codec "\<lambda>_. True" "valid_status"
  "wire_bulk_status" "encode_store_bulk_status_response" "decode_store_bulk_status_response"
proof
  fix m :: "StoreBulkStatusResponse" and out p :: bytes
  show "encode_store_bulk_status_response m out = Err InvalidValue" if "(\<lambda>_. True) m" "\<not> valid_status m"
    using that by (auto simp: encode_store_bulk_status_response_def decode_store_bulk_status_response_def wire_bulk_status_def validate_status_eq Let_def)
  show "encode_store_bulk_status_response m out = Err OutputTooSmall" if "(\<lambda>_. True) m" "valid_status m" "length out < length (wire_bulk_status m)"
    using that by (auto simp: encode_store_bulk_status_response_def decode_store_bulk_status_response_def wire_bulk_status_def validate_status_eq Let_def)
  show "encode_store_bulk_status_response m out = Ok (length (wire_bulk_status m), wire_bulk_status m @ drop (length (wire_bulk_status m)) out)"
    if "(\<lambda>_. True) m" "valid_status m" "length (wire_bulk_status m) \<le> length out"
    using that by (simp add: encode_store_bulk_status_response_def decode_store_bulk_status_response_def wire_bulk_status_def validate_status_eq codec_enc) (simp add: overwrite_start)
  show "decode_store_bulk_status_response (wire_bulk_status m) = Ok m" if "(\<lambda>_. True) m" "valid_status m"
    using that by (cases m) (simp add: encode_store_bulk_status_response_def decode_store_bulk_status_response_def wire_bulk_status_def validate_status_eq  codec_dec)
  show "decode_store_bulk_status_response p \<noteq> Panic"
    by (auto simp: encode_store_bulk_status_response_def decode_store_bulk_status_response_def wire_bulk_status_def validate_status_eq  codec_enc and_then_Panic_iff)
  show "(\<lambda>_. True) m \<and> valid_status m \<and> p = wire_bulk_status m" if "decode_store_bulk_status_response p = Ok m"
  proof -
    have "(\<lambda>_. True) m \<and> valid_status m \<and> length p = 20 \<and> p = wire_bulk_status m @ drop 20 p"
      using that by (auto simp: encode_store_bulk_status_response_def decode_store_bulk_status_response_def wire_bulk_status_def validate_status_eq   codec_only split: if_splits simp del: drop_all)
    then show ?thesis using fixed_tail by blast
  qed
qed

definition encode_store_bulk_finish_response :: "StoreBulkFinishResponse \<Rightarrow> bytes \<Rightarrow> (nat \<times> bytes, ProtocolError) res" where [codec_defs]:
  "encode_store_bulk_finish_response value out =
    (if bf_stream_id value = 0 \<or> bf_total_bytes value = 0 then Err InvalidValue else
    (if length out < STORE_BULK_FINISH_RESPONSE_BYTES then Err OutputTooSmall else
    and_then (put out 0 (to_le 4 (bf_stream_id value))) (\<lambda>out.
    and_then (put out 4 [StoreUploadCommitResult_to_u8 (bf_result value)]) (\<lambda>out.
    and_then (put out 5 [0, 0, 0]) (\<lambda>out.
    and_then (put out 8 (to_le 4 (bf_total_bytes value))) (\<lambda>out.
    and_then (put out 12 (to_le 4 (bf_computed_crc32 value))) (\<lambda>out.
    Ok (STORE_BULK_FINISH_RESPONSE_BYTES, out))))))))"

definition decode_store_bulk_finish_response :: "bytes \<Rightarrow> (StoreBulkFinishResponse, ProtocolError) res" where [codec_defs]:
  "decode_store_bulk_finish_response payload =
    (if length payload \<noteq> STORE_BULK_FINISH_RESPONSE_BYTES then Err BadPayloadLength else
    and_then (bytes_at payload 5 3) (\<lambda>reserved.
    (if reserved \<noteq> [0, 0, 0] then Err InvalidValue else
    and_then (u32_at payload 0) (\<lambda>stream_id.
    and_then (byte_at payload 4) (\<lambda>r.
    and_then (ok_or InvalidValue (StoreUploadCommitResult_from_u8 r)) (\<lambda>result.
    and_then (u32_at payload 8) (\<lambda>total.
    and_then (u32_at payload 12) (\<lambda>crc.
    (let value = \<lparr>bf_stream_id = stream_id, bf_result = result, bf_total_bytes = total, bf_computed_crc32 = crc\<rparr> in
    (if bf_stream_id value = 0 \<or> bf_total_bytes value = 0 then Err InvalidValue else
    Ok value))))))))))"

definition wire_bulk_finish :: "StoreBulkFinishResponse \<Rightarrow> bytes" where
  "wire_bulk_finish m = 
    to_le 4 (bf_stream_id m) @ [StoreUploadCommitResult_to_u8 (bf_result m)] @ [0, 0, 0] @
    to_le 4 (bf_total_bytes m) @ to_le 4 (bf_computed_crc32 m)"

interpretation bulk_finish_response: strict_codec "\<lambda>_. True" "\<lambda>m. bf_stream_id m \<noteq> 0 \<and> bf_total_bytes m \<noteq> 0"
  "wire_bulk_finish" "encode_store_bulk_finish_response" "decode_store_bulk_finish_response"
proof
  fix m :: "StoreBulkFinishResponse" and out p :: bytes
  show "encode_store_bulk_finish_response m out = Err InvalidValue" if "(\<lambda>_. True) m" "\<not> (\<lambda>m. bf_stream_id m \<noteq> 0 \<and> bf_total_bytes m \<noteq> 0) m"
    using that by (auto simp: encode_store_bulk_finish_response_def decode_store_bulk_finish_response_def wire_bulk_finish_def  Let_def)
  show "encode_store_bulk_finish_response m out = Err OutputTooSmall" if "(\<lambda>_. True) m" "(\<lambda>m. bf_stream_id m \<noteq> 0 \<and> bf_total_bytes m \<noteq> 0) m" "length out < length (wire_bulk_finish m)"
    using that by (auto simp: encode_store_bulk_finish_response_def decode_store_bulk_finish_response_def wire_bulk_finish_def  Let_def)
  show "encode_store_bulk_finish_response m out = Ok (length (wire_bulk_finish m), wire_bulk_finish m @ drop (length (wire_bulk_finish m)) out)"
    if "(\<lambda>_. True) m" "(\<lambda>m. bf_stream_id m \<noteq> 0 \<and> bf_total_bytes m \<noteq> 0) m" "length (wire_bulk_finish m) \<le> length out"
    using that by (simp add: encode_store_bulk_finish_response_def decode_store_bulk_finish_response_def wire_bulk_finish_def  codec_enc) (simp add: overwrite_start)
  show "decode_store_bulk_finish_response (wire_bulk_finish m) = Ok m" if "(\<lambda>_. True) m" "(\<lambda>m. bf_stream_id m \<noteq> 0 \<and> bf_total_bytes m \<noteq> 0) m"
    using that by (cases m) (simp add: encode_store_bulk_finish_response_def decode_store_bulk_finish_response_def wire_bulk_finish_def   codec_dec)
  show "decode_store_bulk_finish_response p \<noteq> Panic"
    by (auto simp: encode_store_bulk_finish_response_def decode_store_bulk_finish_response_def wire_bulk_finish_def   codec_enc and_then_Panic_iff)
  show "(\<lambda>_. True) m \<and> (\<lambda>m. bf_stream_id m \<noteq> 0 \<and> bf_total_bytes m \<noteq> 0) m \<and> p = wire_bulk_finish m" if "decode_store_bulk_finish_response p = Ok m"
  proof -
    have "(\<lambda>_. True) m \<and> (\<lambda>m. bf_stream_id m \<noteq> 0 \<and> bf_total_bytes m \<noteq> 0) m \<and> length p = 16 \<and> p = wire_bulk_finish m @ drop 16 p"
      using that by (auto simp: encode_store_bulk_finish_response_def decode_store_bulk_finish_response_def wire_bulk_finish_def   subslice_3 codec_only split: if_splits simp del: drop_all)
    then show ?thesis using fixed_tail by blast
  qed
qed

subsection \<open>Transfer limits\<close>

record TransferLimits =
  tl_flags :: u8
  tl_max_data_bytes :: u16
  tl_legacy_upload_window :: u8
  tl_legacy_read_window :: u8
  tl_bulk_slots :: u8
  tl_rx_capacity_bytes :: u16
  tl_max_frame_bytes :: u16
  tl_idle_timeout_ms :: u32

definition validate_limits :: "TransferLimits \<Rightarrow> (unit, ProtocolError) res" where
  "validate_limits value =
    (if tl_flags value AND NOT TRANSFER_LIMIT_FLAGS \<noteq> 0 \<or> tl_max_data_bytes value = 0 \<or>
        unat (tl_max_data_bytes value) > MAX_PAYLOAD_BYTES - BULK_DATA_HEADER_BYTES \<or>
        tl_legacy_upload_window value = 0 \<or> tl_legacy_read_window value = 0 \<or>
        tl_rx_capacity_bytes value = 0 \<or> tl_max_frame_bytes value = 0 \<or>
        tl_max_data_bytes value > tl_max_frame_bytes value \<or> tl_idle_timeout_ms value = 0 \<or>
        (tl_flags value \<noteq> 0 \<and> tl_bulk_slots value = 0) \<or> (tl_flags value = 0 \<and> tl_bulk_slots value \<noteq> 0)
     then Err InvalidValue else Ok ())"

definition valid_limits :: "TransferLimits \<Rightarrow> bool" where
  "valid_limits value = (tl_flags value AND NOT TRANSFER_LIMIT_FLAGS = 0 \<and>
    0 < unat (tl_max_data_bytes value) \<and> unat (tl_max_data_bytes value) \<le> 4084 \<and>
    tl_max_data_bytes value \<le> tl_max_frame_bytes value \<and>
    tl_legacy_upload_window value \<noteq> 0 \<and> tl_legacy_read_window value \<noteq> 0 \<and>
    tl_rx_capacity_bytes value \<noteq> 0 \<and> tl_max_frame_bytes value \<noteq> 0 \<and> tl_idle_timeout_ms value \<noteq> 0 \<and>
    (tl_flags value = 0 \<longleftrightarrow> tl_bulk_slots value = 0))"

lemma validate_limits_eq: "validate_limits v = require (valid_limits v)"
  by (auto simp: validate_limits_def valid_limits_def require_def not_less not_le unat_gt_0)

definition encode_transfer_limits :: "TransferLimits \<Rightarrow> bytes \<Rightarrow> (nat \<times> bytes, ProtocolError) res" where [codec_defs]:
  "encode_transfer_limits value out =
    and_then (validate_limits value) (\<lambda>_.
    (if length out < TRANSFER_LIMITS_BYTES then Err OutputTooSmall else
    and_then (put out 0 [TRANSFER_LIMITS_SCHEMA_VERSION]) (\<lambda>out.
    and_then (put out 1 [tl_flags value]) (\<lambda>out.
    and_then (put out 2 (to_le 2 (tl_max_data_bytes value))) (\<lambda>out.
    and_then (put out 4 [tl_legacy_upload_window value]) (\<lambda>out.
    and_then (put out 5 [tl_legacy_read_window value]) (\<lambda>out.
    and_then (put out 6 [tl_bulk_slots value]) (\<lambda>out.
    and_then (put out 7 [0]) (\<lambda>out.
    and_then (put out 8 (to_le 2 (tl_rx_capacity_bytes value))) (\<lambda>out.
    and_then (put out 10 (to_le 2 (tl_max_frame_bytes value))) (\<lambda>out.
    and_then (put out 12 (to_le 4 (tl_idle_timeout_ms value))) (\<lambda>out.
    Ok (TRANSFER_LIMITS_BYTES, out)))))))))))))"

definition decode_transfer_limits :: "bytes \<Rightarrow> (TransferLimits, ProtocolError) res" where [codec_defs]:
  "decode_transfer_limits payload =
    (if length payload \<noteq> TRANSFER_LIMITS_BYTES then Err BadPayloadLength else
    and_then (byte_at payload 0) (\<lambda>version.
    and_then (byte_at payload 7) (\<lambda>r7.
    (if version \<noteq> TRANSFER_LIMITS_SCHEMA_VERSION \<or> r7 \<noteq> 0 then Err InvalidValue else
    and_then (byte_at payload 1) (\<lambda>flags.
    and_then (u16_at payload 2) (\<lambda>max_data.
    and_then (byte_at payload 4) (\<lambda>upload.
    and_then (byte_at payload 5) (\<lambda>read.
    and_then (byte_at payload 6) (\<lambda>slots.
    and_then (u16_at payload 8) (\<lambda>rx.
    and_then (u16_at payload 10) (\<lambda>frame.
    and_then (u32_at payload 12) (\<lambda>idle.
    (let value = \<lparr>tl_flags = flags, tl_max_data_bytes = max_data, tl_legacy_upload_window = upload, tl_legacy_read_window = read, tl_bulk_slots = slots, tl_rx_capacity_bytes = rx, tl_max_frame_bytes = frame, tl_idle_timeout_ms = idle\<rparr> in
    and_then (validate_limits value) (\<lambda>_.
    Ok value))))))))))))))"

definition wire_limits :: "TransferLimits \<Rightarrow> bytes" where
  "wire_limits m = 
    [TRANSFER_LIMITS_SCHEMA_VERSION, tl_flags m] @ to_le 2 (tl_max_data_bytes m) @
    [tl_legacy_upload_window m, tl_legacy_read_window m, tl_bulk_slots m, 0] @
    to_le 2 (tl_rx_capacity_bytes m) @ to_le 2 (tl_max_frame_bytes m) @ to_le 4 (tl_idle_timeout_ms m)"

interpretation limits: strict_codec "\<lambda>_. True" "valid_limits"
  "wire_limits" "encode_transfer_limits" "decode_transfer_limits"
proof
  fix m :: "TransferLimits" and out p :: bytes
  show "encode_transfer_limits m out = Err InvalidValue" if "(\<lambda>_. True) m" "\<not> valid_limits m"
    using that by (auto simp: encode_transfer_limits_def decode_transfer_limits_def wire_limits_def validate_limits_eq Let_def)
  show "encode_transfer_limits m out = Err OutputTooSmall" if "(\<lambda>_. True) m" "valid_limits m" "length out < length (wire_limits m)"
    using that by (auto simp: encode_transfer_limits_def decode_transfer_limits_def wire_limits_def validate_limits_eq Let_def)
  show "encode_transfer_limits m out = Ok (length (wire_limits m), wire_limits m @ drop (length (wire_limits m)) out)"
    if "(\<lambda>_. True) m" "valid_limits m" "length (wire_limits m) \<le> length out"
    using that by (simp add: encode_transfer_limits_def decode_transfer_limits_def wire_limits_def validate_limits_eq codec_enc) (simp add: overwrite_start)
  show "decode_transfer_limits (wire_limits m) = Ok m" if "(\<lambda>_. True) m" "valid_limits m"
    using that by (cases m) (simp add: encode_transfer_limits_def decode_transfer_limits_def wire_limits_def validate_limits_eq  codec_dec)
  show "decode_transfer_limits p \<noteq> Panic"
    by (auto simp: encode_transfer_limits_def decode_transfer_limits_def wire_limits_def validate_limits_eq  codec_enc and_then_Panic_iff)
  show "(\<lambda>_. True) m \<and> valid_limits m \<and> p = wire_limits m" if "decode_transfer_limits p = Ok m"
  proof -
    have "(\<lambda>_. True) m \<and> valid_limits m \<and> length p = 16 \<and> p = wire_limits m @ drop 16 p"
      using that by (auto simp: encode_transfer_limits_def decode_transfer_limits_def wire_limits_def validate_limits_eq   codec_only split: if_splits simp del: drop_all)
    then show ?thesis using fixed_tail by blast
  qed
qed

subsection \<open>Properties\<close>

text \<open>The bytes an encoder stores, or its error, on every message and every output buffer.\<close>

definition stores :: "bool \<Rightarrow> bytes \<Rightarrow> bytes \<Rightarrow> (nat \<times> bytes, ProtocolError) res" where
  "stores ok w out = (if \<not> ok then Err InvalidValue else if length out < length w then Err OutputTooSmall
    else Ok (length w, w @ drop (length w) out))"

text \<open>The decoders of the bulk transfer messages accept a payload exactly when it is the
  encoding of the message they return and that message is valid: no other payload, no shorter or
  longer one and none with a reserved byte set is accepted.\<close>

theorem bulk_decoders_exact:
  "(decode_store_bulk_open_request p = Ok open_req \<longleftrightarrow>
      utf8_valid (obr_name open_req) \<and> valid_open_request open_req \<and> p = wire_open_request open_req) \<and>
   (decode_store_bulk_open_response p = Ok open_resp \<longleftrightarrow>
      valid_open_response open_resp \<and> p = wire_open_response open_resp) \<and>
   (decode_store_bulk_data p = Ok data \<longleftrightarrow> valid_bulk_data data \<and> p = wire_bulk_data data) \<and>
   (decode_store_bulk_credit p = Ok credit \<longleftrightarrow> bc_stream_id credit \<noteq> 0 \<and> p = wire_bulk_credit credit) \<and>
   (decode_store_bulk_status_response p = Ok status \<longleftrightarrow> valid_status status \<and> p = wire_bulk_status status) \<and>
   (decode_store_bulk_finish_response p = Ok fin \<longleftrightarrow>
      bf_stream_id fin \<noteq> 0 \<and> bf_total_bytes fin \<noteq> 0 \<and> p = wire_bulk_finish fin) \<and>
   (decode_transfer_limits p = Ok lim \<longleftrightarrow> valid_limits lim \<and> p = wire_limits lim)"
  using open_request.dec_iff open_response.dec_iff bulk_data.dec_iff bulk_credit.dec_iff
    bulk_status_response.dec_iff bulk_finish_response.dec_iff limits.dec_iff by simp

text \<open>The encoders of the bulk transfer messages write exactly the bytes the decoders accept
  and leave the rest of the buffer alone; an invalid message is \<open>InvalidValue\<close>, a buffer that is too
  short \<open>OutputTooSmall\<close>, and no encoder panics.\<close>

theorem bulk_encoders_exact:
  "encode_store_bulk_open_response open_resp out =
     stores (valid_open_response open_resp) (wire_open_response open_resp) out \<and>
   encode_store_bulk_data data out = stores (valid_bulk_data data) (wire_bulk_data data) out \<and>
   encode_store_bulk_credit credit out = stores (bc_stream_id credit \<noteq> 0) (wire_bulk_credit credit) out \<and>
   encode_store_bulk_status_response status out = stores (valid_status status) (wire_bulk_status status) out \<and>
   encode_store_bulk_finish_response fin out =
     stores (bf_stream_id fin \<noteq> 0 \<and> bf_total_bytes fin \<noteq> 0) (wire_bulk_finish fin) out \<and>
   encode_transfer_limits lim out = stores (valid_limits lim) (wire_limits lim) out"
  using open_response.enc_eq bulk_data.enc_eq bulk_credit.enc_eq bulk_status_response.enc_eq
    bulk_finish_response.enc_eq limits.enc_eq by (simp add: stores_def)

text \<open>A bulk open request whose name is UTF-8 is read back unchanged from whatever buffer it was
  encoded into, and every accepted request names a file of one to 121 bytes without a separator,
  a window of at most eight chunks and, for a readback, no size or checksum.\<close>

theorem bulk_open_roundtrip:
  assumes "utf8_valid (obr_name m)" and "encode_store_bulk_open_request m out = Ok (n, out')"
  shows "decode_store_bulk_open_request (take n out') = Ok m \<and> n = 16 + length (obr_name m) \<and>
    drop n out' = drop n out \<and> 0 < length (obr_name m) \<and> length (obr_name m) \<le> 121 \<and>
    0x2F \<notin> set (obr_name m) \<and> obr_requested_window m \<le> 8 \<and>
    (obr_direction m = Td_Readback \<longrightarrow> obr_total_size m = 0 \<and> obr_expected_crc32 m = 0)"
proof -
  have v: "valid_open_request m" "decode_store_bulk_open_request (take n out') = Ok m" "drop n out' = drop n out"
    using open_request.roundtrip[OF assms] by simp_all
  moreover have "n = length (wire_open_request m)"
    using assms v(1) open_request.enc_eq[of m out] by (simp split: if_splits)
  ultimately show ?thesis
    by (auto simp: valid_open_request_def valid_name_def valid_requested_window_def open_metadata_valid_def
        wire_open_request_def)
qed

definition sample_open :: StoreBulkOpenRequest where
  "sample_open = \<lparr>obr_direction = Td_Upload, obr_backend = Sb_Sd, obr_requested_window = 2,
    obr_requested_chunk = 512, obr_name = [0x61, 0x62], obr_total_size = 9, obr_expected_crc32 = 7\<rparr>"

lemma bulk_open_roundtrip_witness:
  "\<exists>n out'. encode_store_bulk_open_request sample_open (replicate 20 0) = Ok (n, out') \<and>
    decode_store_bulk_open_request (take n out') = Ok sample_open \<and> n = 18"
proof -
  have typed: "utf8_valid (obr_name sample_open)" by (simp add: sample_open_def)
  have valid: "valid_open_request sample_open"
    by (simp add: sample_open_def valid_open_request_def valid_name_def valid_requested_window_def open_metadata_valid_def)
  have "length (wire_open_request sample_open) = 18" by (simp add: wire_open_request_def sample_open_def)
  then obtain n out' where ok: "encode_store_bulk_open_request sample_open (replicate 20 0) = Ok (n, out')"
    using open_request.enc_succeeds[OF typed valid, of "replicate 20 0"] by auto
  then show ?thesis
    using bulk_open_roundtrip[OF typed ok] by (auto simp: sample_open_def)
qed

end
