(* ===== verification/Storage_Messages.thy ===== *)
theory Storage_Messages
  imports Codec
begin

text \<open>
  The messages of the storage commands (\<^verbatim>\<open>storage.rs\<close>): listing, reading,
  uploading, aborting and deleting stored books.  File names are byte strings that Rust's type
  \<open>&str\<close> guarantees to be UTF-8.
\<close>

definition read_name :: "bytes \<Rightarrow> nat \<Rightarrow> (bytes \<times> nat, ProtocolError) res" where
  "read_name payload pos =
    (if pos \<ge> length payload then Err BadPayloadLength
     else and_then (byte_at payload pos) (\<lambda>len8.
     let name_len = unat len8; pos = pos + 1 in
     if name_len = 0 \<or> name_len > STORE_NAME_MAX then Err InvalidValue
     else let stop = pos + name_len in
     if stop > length payload then Err BadPayloadLength
     else and_then (bytes_at payload pos name_len) (\<lambda>bytes.
     and_then (from_utf8 bytes) (\<lambda>name.
     and_then (validate_name name) (\<lambda>_. Ok (name, stop))))))"

lemma read_name_Ok_iff:
  "read_name p pos = Ok (name, stop) \<longleftrightarrow>
    pos < length p \<and> stop = pos + 1 + unat (p ! pos) \<and> stop \<le> length p \<and>
    name = subslice p (pos + 1) (unat (p ! pos)) \<and> valid_name name \<and> utf8_valid name"
  by (auto simp: read_name_def codec_enc and_then_Ok_iff from_utf8_def validate_name_eq valid_name_def
      split: if_splits)

lemma read_name_total [simp]: "read_name p pos \<noteq> Panic"
  by (simp add: read_name_def codec_enc and_then_Panic_iff from_utf8_def validate_name_def)

lemma read_name_wire:
  "valid_name name \<Longrightarrow> utf8_valid name \<Longrightarrow>
   read_name (b # of_nat (length name) # name @ rest) (Suc 0) = Ok (name, 2 + length name)"
  "valid_name name \<Longrightarrow> utf8_valid name \<Longrightarrow>
   read_name (b # of_nat (length name) # name) (Suc 0) = Ok (name, 2 + length name)"
  using valid_name_length[of name] by (simp_all add: read_name_Ok_iff subslice_def)

subsection \<open>Listing\<close>

record StoreListRequest =
  slr_backend :: StorageBackend
  slr_start_index :: u16

definition encode_store_list_request :: "StoreListRequest \<Rightarrow> bytes \<Rightarrow> (nat \<times> bytes, ProtocolError) res" where [codec_defs]:
  "encode_store_list_request value out =
    (if length out < 3 then Err OutputTooSmall else
    and_then (put out 0 [StorageBackend_to_u8 (slr_backend value)]) (\<lambda>out.
    and_then (put out 1 (to_le 2 (slr_start_index value))) (\<lambda>out.
    Ok (3, out))))"

definition decode_store_list_request :: "bytes \<Rightarrow> (StoreListRequest, ProtocolError) res" where
  "decode_store_list_request payload =
    (if length payload \<noteq> 1 \<and> length payload \<noteq> 3 then Err BadPayloadLength
     else and_then (byte_at payload 0) (\<lambda>b.
     and_then (ok_or InvalidValue (StorageBackend_from_u8 b)) (\<lambda>backend.
     and_then (if length payload = 3 then u16_at payload 1 else Ok 0) (\<lambda>start_index.
     Ok \<lparr>slr_backend = backend, slr_start_index = start_index\<rparr>))))"

definition wire_list_request :: "StoreListRequest \<Rightarrow> bytes" where
  "wire_list_request m = [StorageBackend_to_u8 (slr_backend m)] @ to_le 2 (slr_start_index m)"

interpretation list_request: codec "\<lambda>_. True" "\<lambda>_. True"
  "wire_list_request" "encode_store_list_request" "decode_store_list_request"
proof
  fix m :: "StoreListRequest" and out p :: bytes
  show "encode_store_list_request m out = Err InvalidValue" if "(\<lambda>_. True) m" "\<not> (\<lambda>_. True) m"
    using that by (auto simp: encode_store_list_request_def decode_store_list_request_def wire_list_request_def  Let_def)
  show "encode_store_list_request m out = Err OutputTooSmall" if "(\<lambda>_. True) m" "(\<lambda>_. True) m" "length out < length (wire_list_request m)"
    using that by (auto simp: encode_store_list_request_def decode_store_list_request_def wire_list_request_def  Let_def)
  show "encode_store_list_request m out = Ok (length (wire_list_request m), wire_list_request m @ drop (length (wire_list_request m)) out)"
    if "(\<lambda>_. True) m" "(\<lambda>_. True) m" "length (wire_list_request m) \<le> length out"
    using that by (simp add: encode_store_list_request_def decode_store_list_request_def wire_list_request_def  codec_enc) (simp add: overwrite_start)
  show "decode_store_list_request (wire_list_request m) = Ok m" if "(\<lambda>_. True) m" "(\<lambda>_. True) m"
    using that by (cases m) (simp add: encode_store_list_request_def decode_store_list_request_def wire_list_request_def    codec_dec)
  show "decode_store_list_request p \<noteq> Panic"
    by (auto simp: encode_store_list_request_def decode_store_list_request_def wire_list_request_def   codec_enc and_then_Panic_iff at_Panic_iff)
qed

definition STORE_LIST_ENTRY_HEADER_BYTES :: nat where [simp]: "STORE_LIST_ENTRY_HEADER_BYTES = 1 + 8 + 4"
definition STORE_LIST_ENTRY_NAME_MAX :: nat where [simp]: "STORE_LIST_ENTRY_NAME_MAX = STORE_NAME_MAX"

record StoreListEntry =
  sle_name :: bytes
  sle_file_size :: u64
  sle_page_count :: u32

text \<open>
  \<open>push_entry\<close> writes the next entry into the rest of the buffer and returns the number of
  bytes it used; the closure's own state is threaded.
\<close>

fun encode_store_list_loop ::
    "('s \<Rightarrow> bytes \<Rightarrow> (nat \<times> bytes \<times> 's, ProtocolError) res) \<Rightarrow> nat \<Rightarrow> 's \<Rightarrow> nat \<Rightarrow> bytes \<Rightarrow>
     (nat \<times> bytes \<times> 's, ProtocolError) res" where
  "encode_store_list_loop push_entry 0 s pos out = Ok (pos, out, s)"
| "encode_store_list_loop push_entry (Suc k) s pos out =
    (if pos > length out then Panic
     else and_then (push_entry s (drop pos out)) (\<lambda>(entry_bytes, rest, s).
     let out = take pos out @ rest; pos = pos + entry_bytes in
     if pos > length out then Err OutputTooSmall
     else encode_store_list_loop push_entry k s pos out))"

definition encode_store_list_entries ::
    "bytes \<Rightarrow> ('s \<Rightarrow> bytes \<Rightarrow> (nat \<times> bytes \<times> 's, ProtocolError) res) \<Rightarrow> 's \<Rightarrow> u16 \<Rightarrow>
     (nat \<times> bytes \<times> 's, ProtocolError) res" where
  "encode_store_list_entries out push_entry s entry_count =
    (if length out < 2 then Err OutputTooSmall
     else and_then (put out 0 (to_le 2 entry_count)) (\<lambda>out.
     encode_store_list_loop push_entry (unat entry_count) s 2 out))"

definition encode_store_entry :: "bytes \<Rightarrow> u64 \<Rightarrow> u32 \<Rightarrow> bytes \<Rightarrow> (nat \<times> bytes, ProtocolError) res" where [codec_defs]:
  "encode_store_entry raw_name file_size page_count out =
    and_then (from_utf8 raw_name) (\<lambda>name.
    and_then (validate_name name) (\<lambda>name.
    (let total = STORE_LIST_ENTRY_HEADER_BYTES + length name in
    (if length out < total then Err OutputTooSmall else
    and_then (put out 0 [of_nat (length name)]) (\<lambda>out.
    and_then (put out 1 name) (\<lambda>out.
    (let pos = 1 + length name in
    and_then (put out pos (to_le 8 file_size)) (\<lambda>out.
    (let pos = pos + 8 in
    and_then (put out pos (to_le 4 page_count)) (\<lambda>out.
    Ok (total, out)))))))))))"

definition decode_store_list_entry :: "bytes \<Rightarrow> (StoreListEntry, ProtocolError) res" where [codec_defs]:
  "decode_store_list_entry payload =
    (if payload = [] then Err BadPayloadLength else
    and_then (byte_at payload 0) (\<lambda>len8.
    (let name_len = unat len8 in
    (if name_len = 0 \<or> name_len > STORE_LIST_ENTRY_NAME_MAX then Err InvalidValue else
    (if length payload < STORE_LIST_ENTRY_HEADER_BYTES + name_len then Err BadPayloadLength else
    and_then (bytes_at payload 1 name_len) (\<lambda>raw.
    and_then (from_utf8 raw) (\<lambda>name.
    and_then (validate_name name) (\<lambda>_.
    (let pos = 1 + name_len in
    and_then (u64_at payload pos) (\<lambda>file_size.
    (let pos = pos + 8 in
    and_then (u32_at payload pos) (\<lambda>page_count.
    Ok \<lparr>sle_name = name, sle_file_size = file_size, sle_page_count = page_count\<rparr>))))))))))))"

definition wire_list_entry :: "StoreListEntry \<Rightarrow> bytes" where
  "wire_list_entry m = [of_nat (length (sle_name m))] @ sle_name m @ to_le 8 (sle_file_size m) @ to_le 4 (sle_page_count m)"

interpretation list_entry: prefix_codec "\<lambda>m. utf8_valid (sle_name m)" "\<lambda>m. valid_name (sle_name m)"
  "wire_list_entry" "\<lambda>m. encode_store_entry (sle_name m) (sle_file_size m) (sle_page_count m)" "decode_store_list_entry"
proof
  fix m :: "StoreListEntry" and out p :: bytes
  show "(\<lambda>m. encode_store_entry (sle_name m) (sle_file_size m) (sle_page_count m)) m out = Err InvalidValue" if "(\<lambda>m. utf8_valid (sle_name m)) m" "\<not> (\<lambda>m. valid_name (sle_name m)) m"
    using that by (auto simp: encode_store_entry_def decode_store_list_entry_def wire_list_entry_def from_utf8_def validate_name_eq Let_def)
  show "(\<lambda>m. encode_store_entry (sle_name m) (sle_file_size m) (sle_page_count m)) m out = Err OutputTooSmall" if "(\<lambda>m. utf8_valid (sle_name m)) m" "(\<lambda>m. valid_name (sle_name m)) m" "length out < length (wire_list_entry m)"
    using that by (auto simp: encode_store_entry_def decode_store_list_entry_def wire_list_entry_def from_utf8_def validate_name_eq Let_def)
  show "(\<lambda>m. encode_store_entry (sle_name m) (sle_file_size m) (sle_page_count m)) m out = Ok (length (wire_list_entry m), wire_list_entry m @ drop (length (wire_list_entry m)) out)"
    if "(\<lambda>m. utf8_valid (sle_name m)) m" "(\<lambda>m. valid_name (sle_name m)) m" "length (wire_list_entry m) \<le> length out"
    using that by (simp add: encode_store_entry_def decode_store_list_entry_def wire_list_entry_def from_utf8_def validate_name_eq codec_enc) (simp add: overwrite_start)
  show "decode_store_list_entry (wire_list_entry m) = Ok m" if "(\<lambda>m. utf8_valid (sle_name m)) m" "(\<lambda>m. valid_name (sle_name m)) m"
  proof -
    have len: "length (sle_name m) < 256 \<and> length (sle_name m) \<le> 121 \<and> sle_name m \<noteq> []"
      using that by (simp add: valid_name_length)
    then show ?thesis
      using that by (cases m) (simp add: encode_store_entry_def decode_store_list_entry_def wire_list_entry_def from_utf8_def validate_name_eq   codec_dec)
  qed
  show "decode_store_list_entry p \<noteq> Panic"
    by (auto simp: encode_store_entry_def decode_store_list_entry_def wire_list_entry_def from_utf8_def validate_name_eq  codec_enc and_then_Panic_iff at_Panic_iff)
  show "decode_store_list_entry (wire_list_entry m @ rest) = Ok m" if "(\<lambda>m. utf8_valid (sle_name m)) m" "(\<lambda>m. valid_name (sle_name m)) m" for rest
  proof -
    have len: "length (sle_name m) < 256 \<and> length (sle_name m) \<le> 121 \<and> sle_name m \<noteq> []"
      using that by (simp add: valid_name_length)
    then show ?thesis
      using that by (cases m) (simp add: encode_store_entry_def decode_store_list_entry_def wire_list_entry_def from_utf8_def validate_name_eq   codec_dec)
  qed
qed

definition decode_store_list_count :: "bytes \<Rightarrow> (u16, ProtocolError) res" where [codec_defs]:
  "decode_store_list_count payload =
    (if length payload < 2 then Err BadPayloadLength else
    and_then (u16_at payload 0) (\<lambda>count.
    Ok count))"

subsection \<open>Reading\<close>

record StoreReadRequest =
  srq_backend :: StorageBackend
  srq_name :: bytes
  srq_offset :: u32
  srq_max_bytes :: u32

definition encode_store_read_request :: "StoreReadRequest \<Rightarrow> bytes \<Rightarrow> (nat \<times> bytes, ProtocolError) res" where [codec_defs]:
  "encode_store_read_request value out =
    and_then (validate_name (srq_name value)) (\<lambda>name.
    (let total = 1 + 1 + length name + 4 + 4 in
    (if length out < total then Err OutputTooSmall else
    (let pos = 0 :: nat in
    and_then (put out pos [StorageBackend_to_u8 (srq_backend value)]) (\<lambda>out.
    (let pos = pos + 1 in
    and_then (put out pos [of_nat (length name)]) (\<lambda>out.
    (let pos = pos + 1 in
    and_then (put out pos name) (\<lambda>out.
    (let pos = pos + length name in
    and_then (put out pos (to_le 4 (srq_offset value))) (\<lambda>out.
    (let pos = pos + 4 in
    and_then (put out pos (to_le 4 (srq_max_bytes value))) (\<lambda>out.
    Ok (total, out))))))))))))))"

definition decode_store_read_request :: "bytes \<Rightarrow> (StoreReadRequest, ProtocolError) res" where [codec_defs]:
  "decode_store_read_request payload =
    (if length payload < 10 then Err BadPayloadLength else
    and_then (byte_at payload 0) (\<lambda>b.
    and_then (ok_or InvalidValue (StorageBackend_from_u8 b)) (\<lambda>backend.
    and_then (read_name payload 1) (\<lambda>(name, pos).
    (if length payload \<noteq> pos + 8 then Err BadPayloadLength else
    and_then (u32_at payload pos) (\<lambda>offset.
    (let pos = pos + 4 in
    and_then (u32_at payload pos) (\<lambda>max_bytes.
    Ok \<lparr>srq_backend = backend, srq_name = name, srq_offset = offset, srq_max_bytes = max_bytes\<rparr>))))))))"

definition wire_read_request :: "StoreReadRequest \<Rightarrow> bytes" where
  "wire_read_request m = 
    [StorageBackend_to_u8 (srq_backend m), of_nat (length (srq_name m))] @ srq_name m @
    to_le 4 (srq_offset m) @ to_le 4 (srq_max_bytes m)"

interpretation read_request: strict_codec "\<lambda>m. utf8_valid (srq_name m)" "\<lambda>m. valid_name (srq_name m)"
  "wire_read_request" "encode_store_read_request" "decode_store_read_request"
proof
  fix m :: "StoreReadRequest" and out p :: bytes
  show "encode_store_read_request m out = Err InvalidValue" if "(\<lambda>m. utf8_valid (srq_name m)) m" "\<not> (\<lambda>m. valid_name (srq_name m)) m"
    using that by (auto simp: encode_store_read_request_def decode_store_read_request_def wire_read_request_def validate_name_eq Let_def)
  show "encode_store_read_request m out = Err OutputTooSmall" if "(\<lambda>m. utf8_valid (srq_name m)) m" "(\<lambda>m. valid_name (srq_name m)) m" "length out < length (wire_read_request m)"
    using that by (auto simp: encode_store_read_request_def decode_store_read_request_def wire_read_request_def validate_name_eq Let_def)
  show "encode_store_read_request m out = Ok (length (wire_read_request m), wire_read_request m @ drop (length (wire_read_request m)) out)"
    if "(\<lambda>m. utf8_valid (srq_name m)) m" "(\<lambda>m. valid_name (srq_name m)) m" "length (wire_read_request m) \<le> length out"
    using that by (simp add: encode_store_read_request_def decode_store_read_request_def wire_read_request_def validate_name_eq codec_enc) (simp add: overwrite_start)
  show "decode_store_read_request (wire_read_request m) = Ok m" if "(\<lambda>m. utf8_valid (srq_name m)) m" "(\<lambda>m. valid_name (srq_name m)) m"
  proof -
    have len: "length (srq_name m) < 256 \<and> length (srq_name m) \<le> 121 \<and> srq_name m \<noteq> []"
      using that by (simp add: valid_name_length)
    then show ?thesis
      using that by (cases m) (simp add: encode_store_read_request_def decode_store_read_request_def wire_read_request_def validate_name_eq  read_name_wire codec_dec)
  qed
  show "decode_store_read_request p \<noteq> Panic"
    by (auto simp: encode_store_read_request_def decode_store_read_request_def wire_read_request_def validate_name_eq  codec_enc and_then_Panic_iff at_Panic_iff)
  show "(\<lambda>m. utf8_valid (srq_name m)) m \<and> (\<lambda>m. valid_name (srq_name m)) m \<and> p = wire_read_request m" if "decode_store_read_request p = Ok m"
  proof -
    have "(\<lambda>m. utf8_valid (srq_name m)) m \<and> (\<lambda>m. valid_name (srq_name m)) m \<and> length p = (10 + length (srq_name m)) \<and> p = wire_read_request m @ drop (10 + length (srq_name m)) p"
      using that by (auto simp: encode_store_read_request_def decode_store_read_request_def wire_read_request_def validate_name_eq  read_name_Ok_iff codec_only split: if_splits simp del: drop_all)
    then show ?thesis using fixed_tail by blast
  qed
qed

record StoreReadResponse =
  srs_data :: bytes
  srs_eof :: bool

definition encode_store_read_response :: "bytes \<Rightarrow> bool \<Rightarrow> bytes \<Rightarrow> (nat \<times> bytes, ProtocolError) res" where [codec_defs]:
  "encode_store_read_response data eof out =
    (let total = 5 + length data in
    (if length out < total then Err OutputTooSmall else
    and_then (put out 0 (to_le 4 (of_nat (length data) :: u32))) (\<lambda>out.
    and_then (put out 4 [bool_byte eof]) (\<lambda>out.
    and_then (put out 5 data) (\<lambda>out.
    Ok (total, out))))))"

definition decode_store_read_response :: "bytes \<Rightarrow> (StoreReadResponse, ProtocolError) res" where [codec_defs]:
  "decode_store_read_response payload =
    (if length payload < 5 then Err BadPayloadLength else
    and_then (u32_at payload 0) (\<lambda>len32.
    (let data_len = unat len32 in
    and_then (byte_at payload 4) (\<lambda>eof.
    (if eof > 1 then Err InvalidValue else
    (if length payload \<noteq> 5 + data_len then Err BadPayloadLength else
    Ok \<lparr>srs_data = drop 5 payload, srs_eof = eof \<noteq> 0\<rparr>))))))"

definition wire_read_response :: "StoreReadResponse \<Rightarrow> bytes" where
  "wire_read_response m = to_le 4 (of_nat (length (srs_data m)) :: u32) @ [bool_byte (srs_eof m)] @ srs_data m"

interpretation read_response: strict_codec "\<lambda>m. addressable (srs_data m)" "\<lambda>_. True"
  "wire_read_response" "\<lambda>m. encode_store_read_response (srs_data m) (srs_eof m)" "decode_store_read_response"
proof
  fix m :: "StoreReadResponse" and out p :: bytes
  show "(\<lambda>m. encode_store_read_response (srs_data m) (srs_eof m)) m out = Err InvalidValue" if "(\<lambda>m. addressable (srs_data m)) m" "\<not> (\<lambda>_. True) m"
    using that by (auto simp: encode_store_read_response_def decode_store_read_response_def wire_read_response_def  Let_def)
  show "(\<lambda>m. encode_store_read_response (srs_data m) (srs_eof m)) m out = Err OutputTooSmall" if "(\<lambda>m. addressable (srs_data m)) m" "(\<lambda>_. True) m" "length out < length (wire_read_response m)"
    using that by (auto simp: encode_store_read_response_def decode_store_read_response_def wire_read_response_def  Let_def)
  show "(\<lambda>m. encode_store_read_response (srs_data m) (srs_eof m)) m out = Ok (length (wire_read_response m), wire_read_response m @ drop (length (wire_read_response m)) out)"
    if "(\<lambda>m. addressable (srs_data m)) m" "(\<lambda>_. True) m" "length (wire_read_response m) \<le> length out"
    using that by (simp add: encode_store_read_response_def decode_store_read_response_def wire_read_response_def  codec_enc) (simp add: overwrite_start)
  show "decode_store_read_response (wire_read_response m) = Ok m" if "(\<lambda>m. addressable (srs_data m)) m" "(\<lambda>_. True) m"
    using that by (cases m) (simp add: encode_store_read_response_def decode_store_read_response_def wire_read_response_def    codec_dec)
  show "decode_store_read_response p \<noteq> Panic"
    by (auto simp: encode_store_read_response_def decode_store_read_response_def wire_read_response_def   codec_enc and_then_Panic_iff at_Panic_iff simp del: take_all take_all_iff)
  show "(\<lambda>m. addressable (srs_data m)) m \<and> (\<lambda>_. True) m \<and> p = wire_read_response m" if "decode_store_read_response p = Ok m"
    using that by (auto simp: encode_store_read_response_def decode_store_read_response_def wire_read_response_def   addressable_unat codec_only split: if_splits simp del: take_all take_all_iff)
qed

subsection \<open>Uploading\<close>

record StoreUploadBeginRequest =
  sub_backend :: StorageBackend
  sub_name :: bytes
  sub_file_size :: u32
  sub_expected_crc32 :: u32

definition encode_store_upload_begin_request :: "StoreUploadBeginRequest \<Rightarrow> bytes \<Rightarrow> (nat \<times> bytes, ProtocolError) res" where [codec_defs]:
  "encode_store_upload_begin_request value out =
    and_then (validate_name (sub_name value)) (\<lambda>name.
    (let total = 1 + 1 + length name + 4 + 4 in
    (if length out < total then Err OutputTooSmall else
    (let pos = 0 :: nat in
    and_then (put out pos [StorageBackend_to_u8 (sub_backend value)]) (\<lambda>out.
    (let pos = pos + 1 in
    and_then (put out pos [of_nat (length name)]) (\<lambda>out.
    (let pos = pos + 1 in
    and_then (put out pos name) (\<lambda>out.
    (let pos = pos + length name in
    and_then (put out pos (to_le 4 (sub_file_size value))) (\<lambda>out.
    (let pos = pos + 4 in
    and_then (put out pos (to_le 4 (sub_expected_crc32 value))) (\<lambda>out.
    Ok (total, out))))))))))))))"

definition decode_store_upload_begin_request :: "bytes \<Rightarrow> (StoreUploadBeginRequest, ProtocolError) res" where [codec_defs]:
  "decode_store_upload_begin_request payload =
    (if length payload < 10 then Err BadPayloadLength else
    and_then (byte_at payload 0) (\<lambda>b.
    and_then (ok_or InvalidValue (StorageBackend_from_u8 b)) (\<lambda>backend.
    and_then (read_name payload 1) (\<lambda>(name, pos).
    (if length payload \<noteq> pos + 8 then Err BadPayloadLength else
    and_then (u32_at payload pos) (\<lambda>file_size.
    (let pos = pos + 4 in
    and_then (u32_at payload pos) (\<lambda>expected_crc32.
    Ok \<lparr>sub_backend = backend, sub_name = name, sub_file_size = file_size, sub_expected_crc32 = expected_crc32\<rparr>))))))))"

definition wire_upload_begin_request :: "StoreUploadBeginRequest \<Rightarrow> bytes" where
  "wire_upload_begin_request m = 
    [StorageBackend_to_u8 (sub_backend m), of_nat (length (sub_name m))] @ sub_name m @
    to_le 4 (sub_file_size m) @ to_le 4 (sub_expected_crc32 m)"

interpretation upload_begin_request: strict_codec "\<lambda>m. utf8_valid (sub_name m)" "\<lambda>m. valid_name (sub_name m)"
  "wire_upload_begin_request" "encode_store_upload_begin_request" "decode_store_upload_begin_request"
proof
  fix m :: "StoreUploadBeginRequest" and out p :: bytes
  show "encode_store_upload_begin_request m out = Err InvalidValue" if "(\<lambda>m. utf8_valid (sub_name m)) m" "\<not> (\<lambda>m. valid_name (sub_name m)) m"
    using that by (auto simp: encode_store_upload_begin_request_def decode_store_upload_begin_request_def wire_upload_begin_request_def validate_name_eq Let_def)
  show "encode_store_upload_begin_request m out = Err OutputTooSmall" if "(\<lambda>m. utf8_valid (sub_name m)) m" "(\<lambda>m. valid_name (sub_name m)) m" "length out < length (wire_upload_begin_request m)"
    using that by (auto simp: encode_store_upload_begin_request_def decode_store_upload_begin_request_def wire_upload_begin_request_def validate_name_eq Let_def)
  show "encode_store_upload_begin_request m out = Ok (length (wire_upload_begin_request m), wire_upload_begin_request m @ drop (length (wire_upload_begin_request m)) out)"
    if "(\<lambda>m. utf8_valid (sub_name m)) m" "(\<lambda>m. valid_name (sub_name m)) m" "length (wire_upload_begin_request m) \<le> length out"
    using that by (simp add: encode_store_upload_begin_request_def decode_store_upload_begin_request_def wire_upload_begin_request_def validate_name_eq codec_enc) (simp add: overwrite_start)
  show "decode_store_upload_begin_request (wire_upload_begin_request m) = Ok m" if "(\<lambda>m. utf8_valid (sub_name m)) m" "(\<lambda>m. valid_name (sub_name m)) m"
  proof -
    have len: "length (sub_name m) < 256 \<and> length (sub_name m) \<le> 121 \<and> sub_name m \<noteq> []"
      using that by (simp add: valid_name_length)
    then show ?thesis
      using that by (cases m) (simp add: encode_store_upload_begin_request_def decode_store_upload_begin_request_def wire_upload_begin_request_def validate_name_eq  read_name_wire codec_dec)
  qed
  show "decode_store_upload_begin_request p \<noteq> Panic"
    by (auto simp: encode_store_upload_begin_request_def decode_store_upload_begin_request_def wire_upload_begin_request_def validate_name_eq  codec_enc and_then_Panic_iff at_Panic_iff)
  show "(\<lambda>m. utf8_valid (sub_name m)) m \<and> (\<lambda>m. valid_name (sub_name m)) m \<and> p = wire_upload_begin_request m" if "decode_store_upload_begin_request p = Ok m"
  proof -
    have "(\<lambda>m. utf8_valid (sub_name m)) m \<and> (\<lambda>m. valid_name (sub_name m)) m \<and> length p = (10 + length (sub_name m)) \<and> p = wire_upload_begin_request m @ drop (10 + length (sub_name m)) p"
      using that by (auto simp: encode_store_upload_begin_request_def decode_store_upload_begin_request_def wire_upload_begin_request_def validate_name_eq  read_name_Ok_iff codec_only split: if_splits simp del: drop_all)
    then show ?thesis using fixed_tail by blast
  qed
qed

definition encode_store_upload_begin_response :: "u32 \<Rightarrow> bytes \<Rightarrow> (nat \<times> bytes, ProtocolError) res" where [codec_defs]:
  "encode_store_upload_begin_response upload_id out =
    (if length out < 4 then Err OutputTooSmall else
    and_then (put out 0 (to_le 4 upload_id)) (\<lambda>out.
    Ok (4, out)))"

definition decode_store_upload_begin_response :: "bytes \<Rightarrow> (u32, ProtocolError) res" where [codec_defs]:
  "decode_store_upload_begin_response payload =
    (if length payload \<noteq> 4 then Err BadPayloadLength else
    and_then (u32_at payload 0) (\<lambda>upload_id.
    Ok upload_id))"

interpretation upload_begin_response: strict_codec "\<lambda>_. True" "\<lambda>_. True"
  "to_le 4" "encode_store_upload_begin_response" "decode_store_upload_begin_response"
proof
  fix m :: "u32" and out p :: bytes
  show "encode_store_upload_begin_response m out = Err InvalidValue" if "(\<lambda>_. True) m" "\<not> (\<lambda>_. True) m"
    using that by (auto simp: encode_store_upload_begin_response_def decode_store_upload_begin_response_def  Let_def)
  show "encode_store_upload_begin_response m out = Err OutputTooSmall" if "(\<lambda>_. True) m" "(\<lambda>_. True) m" "length out < length (to_le 4 m)"
    using that by (auto simp: encode_store_upload_begin_response_def decode_store_upload_begin_response_def  Let_def)
  show "encode_store_upload_begin_response m out = Ok (length (to_le 4 m), to_le 4 m @ drop (length (to_le 4 m)) out)"
    if "(\<lambda>_. True) m" "(\<lambda>_. True) m" "length (to_le 4 m) \<le> length out"
    using that by (simp add: encode_store_upload_begin_response_def decode_store_upload_begin_response_def  codec_enc) (simp add: overwrite_start)
  show "decode_store_upload_begin_response (to_le 4 m) = Ok m" if "(\<lambda>_. True) m" "(\<lambda>_. True) m"
    using that by (simp add: encode_store_upload_begin_response_def decode_store_upload_begin_response_def    codec_dec)
  show "decode_store_upload_begin_response p \<noteq> Panic"
    by (auto simp: encode_store_upload_begin_response_def decode_store_upload_begin_response_def   codec_enc and_then_Panic_iff at_Panic_iff)
  show "(\<lambda>_. True) m \<and> (\<lambda>_. True) m \<and> p = to_le 4 m" if "decode_store_upload_begin_response p = Ok m"
    using that by (auto simp: encode_store_upload_begin_response_def decode_store_upload_begin_response_def    codec_only split: if_splits)
qed

definition encode_store_upload_write_response :: "u32 \<Rightarrow> bytes \<Rightarrow> (nat \<times> bytes, ProtocolError) res" where [codec_defs]:
  "encode_store_upload_write_response bytes_accepted out =
    (if length out < 4 then Err OutputTooSmall else
    and_then (put out 0 (to_le 4 bytes_accepted)) (\<lambda>out.
    Ok (4, out)))"

definition decode_store_upload_write_response :: "bytes \<Rightarrow> (u32, ProtocolError) res" where [codec_defs]:
  "decode_store_upload_write_response payload =
    (if length payload \<noteq> 4 then Err BadPayloadLength else
    and_then (u32_at payload 0) (\<lambda>bytes_accepted.
    Ok bytes_accepted))"

interpretation upload_write_response: strict_codec "\<lambda>_. True" "\<lambda>_. True"
  "to_le 4" "encode_store_upload_write_response" "decode_store_upload_write_response"
proof
  fix m :: "u32" and out p :: bytes
  show "encode_store_upload_write_response m out = Err InvalidValue" if "(\<lambda>_. True) m" "\<not> (\<lambda>_. True) m"
    using that by (auto simp: encode_store_upload_write_response_def decode_store_upload_write_response_def  Let_def)
  show "encode_store_upload_write_response m out = Err OutputTooSmall" if "(\<lambda>_. True) m" "(\<lambda>_. True) m" "length out < length (to_le 4 m)"
    using that by (auto simp: encode_store_upload_write_response_def decode_store_upload_write_response_def  Let_def)
  show "encode_store_upload_write_response m out = Ok (length (to_le 4 m), to_le 4 m @ drop (length (to_le 4 m)) out)"
    if "(\<lambda>_. True) m" "(\<lambda>_. True) m" "length (to_le 4 m) \<le> length out"
    using that by (simp add: encode_store_upload_write_response_def decode_store_upload_write_response_def  codec_enc) (simp add: overwrite_start)
  show "decode_store_upload_write_response (to_le 4 m) = Ok m" if "(\<lambda>_. True) m" "(\<lambda>_. True) m"
    using that by (simp add: encode_store_upload_write_response_def decode_store_upload_write_response_def    codec_dec)
  show "decode_store_upload_write_response p \<noteq> Panic"
    by (auto simp: encode_store_upload_write_response_def decode_store_upload_write_response_def   codec_enc and_then_Panic_iff at_Panic_iff)
  show "(\<lambda>_. True) m \<and> (\<lambda>_. True) m \<and> p = to_le 4 m" if "decode_store_upload_write_response p = Ok m"
    using that by (auto simp: encode_store_upload_write_response_def decode_store_upload_write_response_def    codec_only split: if_splits)
qed

definition encode_store_upload_commit_request :: "u32 \<Rightarrow> bytes \<Rightarrow> (nat \<times> bytes, ProtocolError) res" where [codec_defs]:
  "encode_store_upload_commit_request upload_id out =
    (if length out < 4 then Err OutputTooSmall else
    and_then (put out 0 (to_le 4 upload_id)) (\<lambda>out.
    Ok (4, out)))"

definition decode_store_upload_commit_request :: "bytes \<Rightarrow> (u32, ProtocolError) res" where [codec_defs]:
  "decode_store_upload_commit_request payload =
    (if length payload \<noteq> 4 then Err BadPayloadLength else
    and_then (u32_at payload 0) (\<lambda>upload_id.
    Ok upload_id))"

interpretation upload_commit_request: strict_codec "\<lambda>_. True" "\<lambda>_. True"
  "to_le 4" "encode_store_upload_commit_request" "decode_store_upload_commit_request"
proof
  fix m :: "u32" and out p :: bytes
  show "encode_store_upload_commit_request m out = Err InvalidValue" if "(\<lambda>_. True) m" "\<not> (\<lambda>_. True) m"
    using that by (auto simp: encode_store_upload_commit_request_def decode_store_upload_commit_request_def  Let_def)
  show "encode_store_upload_commit_request m out = Err OutputTooSmall" if "(\<lambda>_. True) m" "(\<lambda>_. True) m" "length out < length (to_le 4 m)"
    using that by (auto simp: encode_store_upload_commit_request_def decode_store_upload_commit_request_def  Let_def)
  show "encode_store_upload_commit_request m out = Ok (length (to_le 4 m), to_le 4 m @ drop (length (to_le 4 m)) out)"
    if "(\<lambda>_. True) m" "(\<lambda>_. True) m" "length (to_le 4 m) \<le> length out"
    using that by (simp add: encode_store_upload_commit_request_def decode_store_upload_commit_request_def  codec_enc) (simp add: overwrite_start)
  show "decode_store_upload_commit_request (to_le 4 m) = Ok m" if "(\<lambda>_. True) m" "(\<lambda>_. True) m"
    using that by (simp add: encode_store_upload_commit_request_def decode_store_upload_commit_request_def    codec_dec)
  show "decode_store_upload_commit_request p \<noteq> Panic"
    by (auto simp: encode_store_upload_commit_request_def decode_store_upload_commit_request_def   codec_enc and_then_Panic_iff at_Panic_iff)
  show "(\<lambda>_. True) m \<and> (\<lambda>_. True) m \<and> p = to_le 4 m" if "decode_store_upload_commit_request p = Ok m"
    using that by (auto simp: encode_store_upload_commit_request_def decode_store_upload_commit_request_def    codec_only split: if_splits)
qed

definition encode_store_abort_request :: "u32 \<Rightarrow> bytes \<Rightarrow> (nat \<times> bytes, ProtocolError) res" where [codec_defs]:
  "encode_store_abort_request upload_id out =
    (if length out < 4 then Err OutputTooSmall else
    and_then (put out 0 (to_le 4 upload_id)) (\<lambda>out.
    Ok (4, out)))"

definition decode_store_abort_request :: "bytes \<Rightarrow> (u32, ProtocolError) res" where [codec_defs]:
  "decode_store_abort_request payload =
    (if length payload \<noteq> 4 then Err BadPayloadLength else
    and_then (u32_at payload 0) (\<lambda>upload_id.
    Ok upload_id))"

interpretation abort_request: strict_codec "\<lambda>_. True" "\<lambda>_. True"
  "to_le 4" "encode_store_abort_request" "decode_store_abort_request"
proof
  fix m :: "u32" and out p :: bytes
  show "encode_store_abort_request m out = Err InvalidValue" if "(\<lambda>_. True) m" "\<not> (\<lambda>_. True) m"
    using that by (auto simp: encode_store_abort_request_def decode_store_abort_request_def  Let_def)
  show "encode_store_abort_request m out = Err OutputTooSmall" if "(\<lambda>_. True) m" "(\<lambda>_. True) m" "length out < length (to_le 4 m)"
    using that by (auto simp: encode_store_abort_request_def decode_store_abort_request_def  Let_def)
  show "encode_store_abort_request m out = Ok (length (to_le 4 m), to_le 4 m @ drop (length (to_le 4 m)) out)"
    if "(\<lambda>_. True) m" "(\<lambda>_. True) m" "length (to_le 4 m) \<le> length out"
    using that by (simp add: encode_store_abort_request_def decode_store_abort_request_def  codec_enc) (simp add: overwrite_start)
  show "decode_store_abort_request (to_le 4 m) = Ok m" if "(\<lambda>_. True) m" "(\<lambda>_. True) m"
    using that by (simp add: encode_store_abort_request_def decode_store_abort_request_def    codec_dec)
  show "decode_store_abort_request p \<noteq> Panic"
    by (auto simp: encode_store_abort_request_def decode_store_abort_request_def   codec_enc and_then_Panic_iff at_Panic_iff)
  show "(\<lambda>_. True) m \<and> (\<lambda>_. True) m \<and> p = to_le 4 m" if "decode_store_abort_request p = Ok m"
    using that by (auto simp: encode_store_abort_request_def decode_store_abort_request_def    codec_only split: if_splits)
qed

record StoreUploadWriteRequest =
  suw_upload_id :: u32
  suw_offset :: u32
  suw_data :: bytes

definition encode_store_upload_write_request :: "StoreUploadWriteRequest \<Rightarrow> bytes \<Rightarrow> (nat \<times> bytes, ProtocolError) res" where [codec_defs]:
  "encode_store_upload_write_request value out =
    (let total = 4 + 4 + length (suw_data value) in
    (if length out < total then Err OutputTooSmall else
    and_then (put out 0 (to_le 4 (suw_upload_id value))) (\<lambda>out.
    and_then (put out 4 (to_le 4 (suw_offset value))) (\<lambda>out.
    and_then (put out 8 (suw_data value)) (\<lambda>out.
    Ok (total, out))))))"

definition decode_store_upload_write_request :: "bytes \<Rightarrow> (StoreUploadWriteRequest, ProtocolError) res" where [codec_defs]:
  "decode_store_upload_write_request payload =
    (if length payload < 8 then Err BadPayloadLength else
    and_then (u32_at payload 0) (\<lambda>upload_id.
    and_then (u32_at payload 4) (\<lambda>offset.
    Ok \<lparr>suw_upload_id = upload_id, suw_offset = offset, suw_data = drop 8 payload\<rparr>)))"

definition wire_upload_write :: "StoreUploadWriteRequest \<Rightarrow> bytes" where
  "wire_upload_write m = to_le 4 (suw_upload_id m) @ to_le 4 (suw_offset m) @ suw_data m"

interpretation upload_write_request: strict_codec "\<lambda>_. True" "\<lambda>_. True"
  "wire_upload_write" "encode_store_upload_write_request" "decode_store_upload_write_request"
proof
  fix m :: "StoreUploadWriteRequest" and out p :: bytes
  show "encode_store_upload_write_request m out = Err InvalidValue" if "(\<lambda>_. True) m" "\<not> (\<lambda>_. True) m"
    using that by (auto simp: encode_store_upload_write_request_def decode_store_upload_write_request_def wire_upload_write_def  Let_def)
  show "encode_store_upload_write_request m out = Err OutputTooSmall" if "(\<lambda>_. True) m" "(\<lambda>_. True) m" "length out < length (wire_upload_write m)"
    using that by (auto simp: encode_store_upload_write_request_def decode_store_upload_write_request_def wire_upload_write_def  Let_def)
  show "encode_store_upload_write_request m out = Ok (length (wire_upload_write m), wire_upload_write m @ drop (length (wire_upload_write m)) out)"
    if "(\<lambda>_. True) m" "(\<lambda>_. True) m" "length (wire_upload_write m) \<le> length out"
    using that by (simp add: encode_store_upload_write_request_def decode_store_upload_write_request_def wire_upload_write_def  codec_enc) (simp add: overwrite_start)
  show "decode_store_upload_write_request (wire_upload_write m) = Ok m" if "(\<lambda>_. True) m" "(\<lambda>_. True) m"
    using that by (cases m) (simp add: encode_store_upload_write_request_def decode_store_upload_write_request_def wire_upload_write_def    codec_dec)
  show "decode_store_upload_write_request p \<noteq> Panic"
    by (auto simp: encode_store_upload_write_request_def decode_store_upload_write_request_def wire_upload_write_def   codec_enc and_then_Panic_iff at_Panic_iff)
  show "(\<lambda>_. True) m \<and> (\<lambda>_. True) m \<and> p = wire_upload_write m" if "decode_store_upload_write_request p = Ok m"
    using that by (auto simp: encode_store_upload_write_request_def decode_store_upload_write_request_def wire_upload_write_def    codec_only split: if_splits)
qed

record StoreUploadCommitResponse =
  suc_result :: StoreUploadCommitResult
  suc_computed_crc32 :: u32

definition encode_store_upload_commit_response :: "StoreUploadCommitResult \<Rightarrow> u32 \<Rightarrow> bytes \<Rightarrow> (nat \<times> bytes, ProtocolError) res" where [codec_defs]:
  "encode_store_upload_commit_response result computed_crc32 out =
    (if length out < 5 then Err OutputTooSmall else
    and_then (put out 0 [StoreUploadCommitResult_to_u8 result]) (\<lambda>out.
    and_then (put out 1 (to_le 4 computed_crc32)) (\<lambda>out.
    Ok (5, out))))"

definition decode_store_upload_commit_response :: "bytes \<Rightarrow> (StoreUploadCommitResponse, ProtocolError) res" where [codec_defs]:
  "decode_store_upload_commit_response payload =
    (if length payload \<noteq> 5 then Err BadPayloadLength else
    and_then (byte_at payload 0) (\<lambda>r.
    and_then (ok_or InvalidValue (StoreUploadCommitResult_from_u8 r)) (\<lambda>result.
    and_then (u32_at payload 1) (\<lambda>computed_crc32.
    Ok \<lparr>suc_result = result, suc_computed_crc32 = computed_crc32\<rparr>))))"

definition wire_commit_response :: "StoreUploadCommitResponse \<Rightarrow> bytes" where
  "wire_commit_response m = [StoreUploadCommitResult_to_u8 (suc_result m)] @ to_le 4 (suc_computed_crc32 m)"

interpretation commit_response: strict_codec "\<lambda>_. True" "\<lambda>_. True"
  "wire_commit_response" "\<lambda>m. encode_store_upload_commit_response (suc_result m) (suc_computed_crc32 m)" "decode_store_upload_commit_response"
proof
  fix m :: "StoreUploadCommitResponse" and out p :: bytes
  show "(\<lambda>m. encode_store_upload_commit_response (suc_result m) (suc_computed_crc32 m)) m out = Err InvalidValue" if "(\<lambda>_. True) m" "\<not> (\<lambda>_. True) m"
    using that by (auto simp: encode_store_upload_commit_response_def decode_store_upload_commit_response_def wire_commit_response_def  Let_def)
  show "(\<lambda>m. encode_store_upload_commit_response (suc_result m) (suc_computed_crc32 m)) m out = Err OutputTooSmall" if "(\<lambda>_. True) m" "(\<lambda>_. True) m" "length out < length (wire_commit_response m)"
    using that by (auto simp: encode_store_upload_commit_response_def decode_store_upload_commit_response_def wire_commit_response_def  Let_def)
  show "(\<lambda>m. encode_store_upload_commit_response (suc_result m) (suc_computed_crc32 m)) m out = Ok (length (wire_commit_response m), wire_commit_response m @ drop (length (wire_commit_response m)) out)"
    if "(\<lambda>_. True) m" "(\<lambda>_. True) m" "length (wire_commit_response m) \<le> length out"
    using that by (simp add: encode_store_upload_commit_response_def decode_store_upload_commit_response_def wire_commit_response_def  codec_enc) (simp add: overwrite_start)
  show "decode_store_upload_commit_response (wire_commit_response m) = Ok m" if "(\<lambda>_. True) m" "(\<lambda>_. True) m"
    using that by (cases m) (simp add: encode_store_upload_commit_response_def decode_store_upload_commit_response_def wire_commit_response_def    codec_dec)
  show "decode_store_upload_commit_response p \<noteq> Panic"
    by (auto simp: encode_store_upload_commit_response_def decode_store_upload_commit_response_def wire_commit_response_def   codec_enc and_then_Panic_iff at_Panic_iff)
  show "(\<lambda>_. True) m \<and> (\<lambda>_. True) m \<and> p = wire_commit_response m" if "decode_store_upload_commit_response p = Ok m"
  proof -
    have "(\<lambda>_. True) m \<and> (\<lambda>_. True) m \<and> length p = 5 \<and> p = wire_commit_response m @ drop 5 p"
      using that by (auto simp: encode_store_upload_commit_response_def decode_store_upload_commit_response_def wire_commit_response_def    codec_only split: if_splits simp del: drop_all)
    then show ?thesis using fixed_tail by blast
  qed
qed

subsection \<open>Deleting\<close>

record StoreDeleteRequest =
  sdr_backend :: StorageBackend
  sdr_name :: bytes

definition encode_store_delete_request :: "StoreDeleteRequest \<Rightarrow> bytes \<Rightarrow> (nat \<times> bytes, ProtocolError) res" where [codec_defs]:
  "encode_store_delete_request value out =
    and_then (validate_name (sdr_name value)) (\<lambda>name.
    (let total = 1 + 1 + length name in
    (if length out < total then Err OutputTooSmall else
    and_then (put out 0 [StorageBackend_to_u8 (sdr_backend value)]) (\<lambda>out.
    and_then (put out 1 [of_nat (length name)]) (\<lambda>out.
    and_then (put out 2 name) (\<lambda>out.
    Ok (total, out)))))))"

definition decode_store_delete_request :: "bytes \<Rightarrow> (StoreDeleteRequest, ProtocolError) res" where [codec_defs]:
  "decode_store_delete_request payload =
    (if length payload < 2 then Err BadPayloadLength else
    and_then (byte_at payload 0) (\<lambda>b.
    and_then (ok_or InvalidValue (StorageBackend_from_u8 b)) (\<lambda>backend.
    and_then (read_name payload 1) (\<lambda>(name, pos).
    (if length payload \<noteq> pos then Err BadPayloadLength else
    Ok \<lparr>sdr_backend = backend, sdr_name = name\<rparr>)))))"

definition wire_delete_request :: "StoreDeleteRequest \<Rightarrow> bytes" where
  "wire_delete_request m = [StorageBackend_to_u8 (sdr_backend m), of_nat (length (sdr_name m))] @ sdr_name m"

interpretation delete_request: strict_codec "\<lambda>m. utf8_valid (sdr_name m)" "\<lambda>m. valid_name (sdr_name m)"
  "wire_delete_request" "encode_store_delete_request" "decode_store_delete_request"
proof
  fix m :: "StoreDeleteRequest" and out p :: bytes
  show "encode_store_delete_request m out = Err InvalidValue" if "(\<lambda>m. utf8_valid (sdr_name m)) m" "\<not> (\<lambda>m. valid_name (sdr_name m)) m"
    using that by (auto simp: encode_store_delete_request_def decode_store_delete_request_def wire_delete_request_def validate_name_eq Let_def)
  show "encode_store_delete_request m out = Err OutputTooSmall" if "(\<lambda>m. utf8_valid (sdr_name m)) m" "(\<lambda>m. valid_name (sdr_name m)) m" "length out < length (wire_delete_request m)"
    using that by (auto simp: encode_store_delete_request_def decode_store_delete_request_def wire_delete_request_def validate_name_eq Let_def)
  show "encode_store_delete_request m out = Ok (length (wire_delete_request m), wire_delete_request m @ drop (length (wire_delete_request m)) out)"
    if "(\<lambda>m. utf8_valid (sdr_name m)) m" "(\<lambda>m. valid_name (sdr_name m)) m" "length (wire_delete_request m) \<le> length out"
    using that by (simp add: encode_store_delete_request_def decode_store_delete_request_def wire_delete_request_def validate_name_eq codec_enc) (simp add: overwrite_start)
  show "decode_store_delete_request (wire_delete_request m) = Ok m" if "(\<lambda>m. utf8_valid (sdr_name m)) m" "(\<lambda>m. valid_name (sdr_name m)) m"
  proof -
    have len: "length (sdr_name m) < 256 \<and> length (sdr_name m) \<le> 121 \<and> sdr_name m \<noteq> []"
      using that by (simp add: valid_name_length)
    then show ?thesis
      using that by (cases m) (simp add: encode_store_delete_request_def decode_store_delete_request_def wire_delete_request_def validate_name_eq  read_name_wire codec_dec)
  qed
  show "decode_store_delete_request p \<noteq> Panic"
    by (auto simp: encode_store_delete_request_def decode_store_delete_request_def wire_delete_request_def validate_name_eq  codec_enc and_then_Panic_iff at_Panic_iff)
  show "(\<lambda>m. utf8_valid (sdr_name m)) m \<and> (\<lambda>m. valid_name (sdr_name m)) m \<and> p = wire_delete_request m" if "decode_store_delete_request p = Ok m"
  proof -
    have "(\<lambda>m. utf8_valid (sdr_name m)) m \<and> (\<lambda>m. valid_name (sdr_name m)) m \<and> length p = (2 + length (sdr_name m)) \<and> p = wire_delete_request m @ drop (2 + length (sdr_name m)) p"
      using that by (auto simp: encode_store_delete_request_def decode_store_delete_request_def wire_delete_request_def validate_name_eq  read_name_Ok_iff codec_only split: if_splits simp del: drop_all)
    then show ?thesis using fixed_tail by blast
  qed
qed

subsection \<open>Properties\<close>

text \<open>The decoders of the storage commands accept a payload exactly when it is the encoding
  of the message they return, with a valid UTF-8 name of one to 121 bytes and no separator.\<close>

theorem storage_decoders_exact:
  "(decode_store_read_request p = Ok rd \<longleftrightarrow>
      utf8_valid (srq_name rd) \<and> valid_name (srq_name rd) \<and> p = wire_read_request rd) \<and>
   (decode_store_upload_begin_request p = Ok begin_req \<longleftrightarrow>
      utf8_valid (sub_name begin_req) \<and> valid_name (sub_name begin_req) \<and> p = wire_upload_begin_request begin_req) \<and>
   (decode_store_delete_request p = Ok del \<longleftrightarrow>
      utf8_valid (sdr_name del) \<and> valid_name (sdr_name del) \<and> p = wire_delete_request del) \<and>
   (decode_store_upload_write_request p = Ok wr \<longleftrightarrow> p = wire_upload_write wr) \<and>
   (decode_store_upload_commit_response p = Ok commit \<longleftrightarrow> p = wire_commit_response commit) \<and>
   (decode_store_read_response p = Ok resp \<longleftrightarrow> addressable (srs_data resp) \<and> p = wire_read_response resp)"
  using read_request.dec_iff upload_begin_request.dec_iff delete_request.dec_iff
    upload_write_request.dec_iff commit_response.dec_iff read_response.dec_iff by simp

text \<open>A directory entry is decoded from the front of a listing: whatever follows the encoded
  entry, its name, size and page count are read back.\<close>

theorem list_entry_roundtrip:
  assumes "utf8_valid name" and "valid_name name" and "13 + length name \<le> length out"
  shows "\<exists>n out'. encode_store_entry name fsize pages out = Ok (n, out') \<and> n = 13 + length name \<and>
    decode_store_list_entry (take n out' @ rest) =
      Ok \<lparr>sle_name = name, sle_file_size = fsize, sle_page_count = pages\<rparr>"
proof -
  let ?m = "\<lparr>sle_name = name, sle_file_size = fsize, sle_page_count = pages\<rparr>"
  have len: "length (wire_list_entry ?m) = 13 + length name" by (simp add: wire_list_entry_def)
  have "encode_store_entry name fsize pages out =
      Ok (13 + length name, wire_list_entry ?m @ drop (13 + length name) out)"
    using assms list_entry.enc_wire[of ?m out] len by simp
  moreover have "decode_store_list_entry (wire_list_entry ?m @ rest) = Ok ?m"
    using assms by (intro list_entry.dec_prefix) simp_all
  ultimately show ?thesis using len by simp
qed

lemma list_entry_roundtrip_witness:
  "\<exists>n out'. encode_store_entry [0x61] 5 6 (replicate 20 0) = Ok (n, out') \<and> n = 13 + length [0x61 :: u8] \<and>
    decode_store_list_entry (take n out' @ [1, 2]) =
      Ok \<lparr>sle_name = [0x61], sle_file_size = 5, sle_page_count = 6\<rparr>"
  by (rule list_entry_roundtrip) (simp_all add: valid_name_def)

end
