(* ===== verification/Control_Messages.thy ===== *)
theory Control_Messages
  imports Codec
begin

text \<open>
  The control messages of the diagnostic protocol (\<^verbatim>\<open>key_page.rs\<close>,
  \<^verbatim>\<open>status_log.rs\<close>, \<^verbatim>\<open>probe.rs\<close>,
  \<^verbatim>\<open>refresh_mode.rs\<close>): the greeting, keys, page commands, status, the log and
  the crash summary.  Signed fields are held as their two's complement words.
\<close>

type_synonym i32 = "32 word"

subsection \<open>Greeting\<close>

record HelloResponse =
  hr_protocol_version :: u8
  hr_max_frame_bytes :: u16
  hr_capabilities :: u32
  hr_firmware_name :: bytes
  hr_target :: bytes

text \<open>The borrowed form the decoder returns has the same fields.\<close>

type_synonym HelloResponseRef = HelloResponse

definition encode_hello_response :: "HelloResponse \<Rightarrow> bytes \<Rightarrow> (nat \<times> bytes, ProtocolError) res" where [codec_defs]:
  "encode_hello_response value out =
    (let name_bytes = hr_firmware_name value in
    (let target_bytes = hr_target value in
    (if length name_bytes > HELLO_ID_MAX_BYTES \<or> length target_bytes > HELLO_ID_MAX_BYTES then Err InvalidValue else
    (let total = 1 + 2 + 4 + 1 + length name_bytes + 1 + length target_bytes in
    (if length out < total then Err OutputTooSmall else
    (let pos = 0 :: nat in
    and_then (put out pos [hr_protocol_version value]) (\<lambda>out.
    (let pos = pos + 1 in
    and_then (put out pos (to_le 2 (hr_max_frame_bytes value))) (\<lambda>out.
    (let pos = pos + 2 in
    and_then (put out pos (to_le 4 (hr_capabilities value))) (\<lambda>out.
    (let pos = pos + 4 in
    and_then (put out pos [of_nat (length name_bytes)]) (\<lambda>out.
    (let pos = pos + 1 in
    and_then (put out pos name_bytes) (\<lambda>out.
    (let pos = pos + length name_bytes in
    and_then (put out pos [of_nat (length target_bytes)]) (\<lambda>out.
    (let pos = pos + 1 in
    and_then (put out pos target_bytes) (\<lambda>out.
    (let pos = pos + length target_bytes in
    Ok (pos, out)))))))))))))))))))))"

definition decode_hello_response :: "bytes \<Rightarrow> (HelloResponseRef, ProtocolError) res" where [codec_defs]:
  "decode_hello_response payload =
    (if length payload < 8 then Err PayloadTooLarge else
    (let pos = 0 :: nat in
    and_then (byte_at payload pos) (\<lambda>version.
    (let pos = pos + 1 in
    and_then (u16_at payload pos) (\<lambda>max_frame.
    (let pos = pos + 2 in
    and_then (u32_at payload pos) (\<lambda>capabilities.
    (let pos = pos + 4 in
    and_then (byte_at payload pos) (\<lambda>name8.
    (let name_len = unat name8 in
    (let pos = pos + 1 in
    (if length payload < pos + name_len + 1 then Err PayloadTooLarge else
    and_then (bytes_at payload pos name_len) (\<lambda>firmware_name.
    (let pos = pos + name_len in
    and_then (byte_at payload pos) (\<lambda>target8.
    (let target_len = unat target8 in
    (let pos = pos + 1 in
    (if length payload < pos + target_len then Err PayloadTooLarge else
    (if length payload \<noteq> pos + target_len \<or> name_len > HELLO_ID_MAX_BYTES \<or> target_len > HELLO_ID_MAX_BYTES then Err BadPayloadLength else
    and_then (bytes_at payload pos target_len) (\<lambda>target.
    Ok \<lparr>hr_protocol_version = version, hr_max_frame_bytes = max_frame, hr_capabilities = capabilities, hr_firmware_name = firmware_name, hr_target = target\<rparr>))))))))))))))))))))"

definition wire_hello :: "HelloResponse \<Rightarrow> bytes" where
  "wire_hello m = 
    [hr_protocol_version m] @ to_le 2 (hr_max_frame_bytes m) @ to_le 4 (hr_capabilities m) @
    [of_nat (length (hr_firmware_name m))] @ hr_firmware_name m @
    [of_nat (length (hr_target m))] @ hr_target m"

interpretation hello: strict_codec "\<lambda>_. True" "\<lambda>m. length (hr_firmware_name m) \<le> 16 \<and> length (hr_target m) \<le> 16"
  "wire_hello" "encode_hello_response" "decode_hello_response"
proof
  fix m :: "HelloResponse" and out p :: bytes
  show "encode_hello_response m out = Err InvalidValue" if "(\<lambda>_. True) m" "\<not> (\<lambda>m. length (hr_firmware_name m) \<le> 16 \<and> length (hr_target m) \<le> 16) m"
    using that by (auto simp: encode_hello_response_def decode_hello_response_def wire_hello_def  Let_def)
  show "encode_hello_response m out = Err OutputTooSmall" if "(\<lambda>_. True) m" "(\<lambda>m. length (hr_firmware_name m) \<le> 16 \<and> length (hr_target m) \<le> 16) m" "length out < length (wire_hello m)"
    using that by (auto simp: encode_hello_response_def decode_hello_response_def wire_hello_def  Let_def)
  show "encode_hello_response m out = Ok (length (wire_hello m), wire_hello m @ drop (length (wire_hello m)) out)"
    if "(\<lambda>_. True) m" "(\<lambda>m. length (hr_firmware_name m) \<le> 16 \<and> length (hr_target m) \<le> 16) m" "length (wire_hello m) \<le> length out"
    using that by (simp add: encode_hello_response_def decode_hello_response_def wire_hello_def  codec_enc) (simp add: overwrite_start)
  show "decode_hello_response (wire_hello m) = Ok m" if "(\<lambda>_. True) m" "(\<lambda>m. length (hr_firmware_name m) \<le> 16 \<and> length (hr_target m) \<le> 16) m"
    using that by (cases m) (simp add: encode_hello_response_def decode_hello_response_def wire_hello_def    codec_dec)
  show "decode_hello_response p \<noteq> Panic"
    by (auto simp: encode_hello_response_def decode_hello_response_def wire_hello_def   codec_enc and_then_Panic_iff at_Panic_iff)
  show "(\<lambda>_. True) m \<and> (\<lambda>m. length (hr_firmware_name m) \<le> 16 \<and> length (hr_target m) \<le> 16) m \<and> p = wire_hello m" if "decode_hello_response p = Ok m"
  proof -
    have "(\<lambda>_. True) m \<and> (\<lambda>m. length (hr_firmware_name m) \<le> 16 \<and> length (hr_target m) \<le> 16) m \<and> length p = (9 + length (hr_firmware_name m) + length (hr_target m)) \<and> p = wire_hello m @ drop (9 + length (hr_firmware_name m) + length (hr_target m)) p"
      using that by (auto simp: encode_hello_response_def decode_hello_response_def wire_hello_def    codec_only split: if_splits simp del: drop_all)
    then show ?thesis using fixed_tail by blast
  qed
qed

subsection \<open>Keys and pages\<close>

record KeyPayload =
  kp_key :: KeyCode
  kp_action :: KeyAction

definition encode_key_payload :: "KeyCode \<Rightarrow> KeyAction \<Rightarrow> bytes \<Rightarrow> (nat \<times> bytes, ProtocolError) res" where [codec_defs]:
  "encode_key_payload key action out =
    (if length out < 2 then Err OutputTooSmall else
    and_then (put out 0 [KeyCode_to_u8 key]) (\<lambda>out.
    and_then (put out 1 [KeyAction_to_u8 action]) (\<lambda>out.
    Ok (2, out))))"

definition decode_key_payload :: "bytes \<Rightarrow> (KeyPayload, ProtocolError) res" where [codec_defs]:
  "decode_key_payload payload =
    (if length payload \<noteq> 2 then Err BadPayloadLength else
    and_then (byte_at payload 0) (\<lambda>k.
    and_then (ok_or InvalidValue (KeyCode_from_u8 k)) (\<lambda>key.
    and_then (byte_at payload 1) (\<lambda>a.
    and_then (ok_or InvalidValue (KeyAction_from_u8 a)) (\<lambda>action.
    Ok \<lparr>kp_key = key, kp_action = action\<rparr>)))))"

definition wire_key :: "KeyPayload \<Rightarrow> bytes" where
  "wire_key m = [KeyCode_to_u8 (kp_key m), KeyAction_to_u8 (kp_action m)]"

interpretation key_payload: strict_codec "\<lambda>_. True" "\<lambda>_. True"
  "wire_key" "\<lambda>m. encode_key_payload (kp_key m) (kp_action m)" "decode_key_payload"
proof
  fix m :: "KeyPayload" and out p :: bytes
  show "(\<lambda>m. encode_key_payload (kp_key m) (kp_action m)) m out = Err InvalidValue" if "(\<lambda>_. True) m" "\<not> (\<lambda>_. True) m"
    using that by (auto simp: encode_key_payload_def decode_key_payload_def wire_key_def  Let_def)
  show "(\<lambda>m. encode_key_payload (kp_key m) (kp_action m)) m out = Err OutputTooSmall" if "(\<lambda>_. True) m" "(\<lambda>_. True) m" "length out < length (wire_key m)"
    using that by (auto simp: encode_key_payload_def decode_key_payload_def wire_key_def  Let_def)
  show "(\<lambda>m. encode_key_payload (kp_key m) (kp_action m)) m out = Ok (length (wire_key m), wire_key m @ drop (length (wire_key m)) out)"
    if "(\<lambda>_. True) m" "(\<lambda>_. True) m" "length (wire_key m) \<le> length out"
    using that by (simp add: encode_key_payload_def decode_key_payload_def wire_key_def  codec_enc) (simp add: overwrite_start)
  show "decode_key_payload (wire_key m) = Ok m" if "(\<lambda>_. True) m" "(\<lambda>_. True) m"
    using that by (cases m) (simp add: encode_key_payload_def decode_key_payload_def wire_key_def    codec_dec)
  show "decode_key_payload p \<noteq> Panic"
    by (auto simp: encode_key_payload_def decode_key_payload_def wire_key_def   codec_enc and_then_Panic_iff at_Panic_iff)
  show "(\<lambda>_. True) m \<and> (\<lambda>_. True) m \<and> p = wire_key m" if "decode_key_payload p = Ok m"
  proof -
    have "(\<lambda>_. True) m \<and> (\<lambda>_. True) m \<and> length p = 2 \<and> p = wire_key m @ drop 2 p"
      using that by (auto simp: encode_key_payload_def decode_key_payload_def wire_key_def    codec_only split: if_splits simp del: drop_all)
    then show ?thesis using fixed_tail by blast
  qed
qed

record PagePayload =
  pp_action :: PageAction
  pp_page_index :: "u32 option"

definition encode_page_payload :: "PageAction \<Rightarrow> u32 option \<Rightarrow> bytes \<Rightarrow> (nat \<times> bytes, ProtocolError) res" where
  "encode_page_payload action page out =
    (if action = Pa_Goto then
       and_then (ok_or InvalidValue page) (\<lambda>page_index.
       if length out < 5 then Err OutputTooSmall
       else and_then (put out 0 [PageAction_to_u8 action]) (\<lambda>out.
       and_then (put out 1 (to_le 4 page_index)) (\<lambda>out. Ok (5, out))))
     else if out = [] then Err OutputTooSmall
     else and_then (put out 0 [PageAction_to_u8 action]) (\<lambda>out. Ok (1, out)))"

definition decode_page_payload :: "bytes \<Rightarrow> (PagePayload, ProtocolError) res" where
  "decode_page_payload payload =
    (if payload = [] then Err PayloadTooLarge
     else and_then (byte_at payload 0) (\<lambda>a.
     and_then (ok_or InvalidValue (PageAction_from_u8 a)) (\<lambda>action.
     if action = Pa_Goto then
       (if length payload \<noteq> 5 then Err BadPayloadLength
        else and_then (u32_at payload 1) (\<lambda>page_index.
        Ok \<lparr>pp_action = action, pp_page_index = Some page_index\<rparr>))
     else if length payload = 1 then Ok \<lparr>pp_action = action, pp_page_index = None\<rparr>
     else Err BadPayloadLength)))"

definition wire_page :: "PagePayload \<Rightarrow> bytes" where
  "wire_page m = PageAction_to_u8 (pp_action m) # (case pp_page_index m of None \<Rightarrow> [] | Some i \<Rightarrow> to_le 4 i)"

text \<open>
  A page index belongs to \<open>Goto\<close>: the encoder insists on it there and drops it otherwise.
\<close>

definition page_typed :: "PagePayload \<Rightarrow> bool" where
  "page_typed m = (pp_action m = Pa_Goto \<or> pp_page_index m = None)"

definition page_valid :: "PagePayload \<Rightarrow> bool" where
  "page_valid m = (pp_action m = Pa_Goto \<longrightarrow> pp_page_index m \<noteq> None)"

interpretation page_payload: strict_codec page_typed page_valid wire_page
  "\<lambda>m. encode_page_payload (pp_action m) (pp_page_index m)" decode_page_payload
proof
  fix m :: PagePayload and out p :: bytes
  note defs = encode_page_payload_def decode_page_payload_def wire_page_def page_typed_def page_valid_def
  show "encode_page_payload (pp_action m) (pp_page_index m) out = Err InvalidValue"
    if "page_typed m" "\<not> page_valid m"
    using that by (auto simp: defs)
  show "encode_page_payload (pp_action m) (pp_page_index m) out = Err OutputTooSmall"
    if "page_typed m" "page_valid m" "length out < length (wire_page m)"
    using that by (auto simp: defs split: option.splits)
  show "encode_page_payload (pp_action m) (pp_page_index m) out =
      Ok (length (wire_page m), wire_page m @ drop (length (wire_page m)) out)"
    if "page_typed m" "page_valid m" "length (wire_page m) \<le> length out"
    using that by (auto simp: defs codec_enc split: option.splits) (simp_all add: overwrite_start)
  show "decode_page_payload (wire_page m) = Ok m" if "page_typed m" "page_valid m"
    using that by (cases m) (auto simp: defs codec_dec split: option.splits)
  show "decode_page_payload p \<noteq> Panic"
    by (auto simp: decode_page_payload_def codec_enc and_then_Panic_iff at_Panic_iff)
  show "page_typed m \<and> page_valid m \<and> p = wire_page m" if "decode_page_payload p = Ok m"
  proof -
    have "page_typed m \<and> page_valid m \<and> length p = length (wire_page m) \<and> p = wire_page m @ drop (length (wire_page m)) p"
      using that by (auto simp: defs codec_only split: if_splits simp del: drop_all)
    then show ?thesis using fixed_tail by blast
  qed
qed

definition encode_page_response :: "u32 \<Rightarrow> bytes \<Rightarrow> (nat \<times> bytes, ProtocolError) res" where [codec_defs]:
  "encode_page_response page out =
    (if length out < 4 then Err OutputTooSmall else
    and_then (put out 0 (to_le 4 page)) (\<lambda>out.
    Ok (4, out)))"

subsection \<open>Status and log\<close>

record StatusPayload =
  sp_current_page :: u32
  sp_page_count :: u32
  sp_panel_mode :: PanelModeCode
  sp_dropped_log_count :: u32
  sp_protocol_error_count :: u32
  sp_last_error :: i32

definition encode_status_payload :: "StatusPayload \<Rightarrow> bytes \<Rightarrow> (nat \<times> bytes, ProtocolError) res" where [codec_defs]:
  "encode_status_payload value out =
    (let total = 4 + 4 + 1 + 4 + 4 + 4 in
    (if length out < total then Err OutputTooSmall else
    (let pos = 0 :: nat in
    and_then (put out pos (to_le 4 (sp_current_page value))) (\<lambda>out.
    (let pos = pos + 4 in
    and_then (put out pos (to_le 4 (sp_page_count value))) (\<lambda>out.
    (let pos = pos + 4 in
    and_then (put out pos [PanelModeCode_to_u8 (sp_panel_mode value)]) (\<lambda>out.
    (let pos = pos + 1 in
    and_then (put out pos (to_le 4 (sp_dropped_log_count value))) (\<lambda>out.
    (let pos = pos + 4 in
    and_then (put out pos (to_le 4 (sp_protocol_error_count value))) (\<lambda>out.
    (let pos = pos + 4 in
    and_then (put out pos (to_le 4 (sp_last_error value))) (\<lambda>out.
    (let pos = pos + 4 in
    Ok (pos, out))))))))))))))))"

definition decode_status_payload :: "bytes \<Rightarrow> (StatusPayload, ProtocolError) res" where [codec_defs]:
  "decode_status_payload payload =
    (let expected = 4 + 4 + 1 + 4 + 4 + 4 in
    (if length payload \<noteq> expected then Err BadPayloadLength else
    (let pos = 0 :: nat in
    and_then (u32_at payload pos) (\<lambda>current_page.
    (let pos = pos + 4 in
    and_then (u32_at payload pos) (\<lambda>page_count.
    (let pos = pos + 4 in
    and_then (byte_at payload pos) (\<lambda>m.
    and_then (ok_or InvalidValue (PanelModeCode_from_u8 m)) (\<lambda>panel_mode.
    (let pos = pos + 1 in
    and_then (u32_at payload pos) (\<lambda>dropped.
    (let pos = pos + 4 in
    and_then (u32_at payload pos) (\<lambda>errors.
    (let pos = pos + 4 in
    and_then (u32_at payload pos) (\<lambda>last.
    Ok \<lparr>sp_current_page = current_page, sp_page_count = page_count, sp_panel_mode = panel_mode, sp_dropped_log_count = dropped, sp_protocol_error_count = errors, sp_last_error = last\<rparr>)))))))))))))))"

definition wire_status :: "StatusPayload \<Rightarrow> bytes" where
  "wire_status m = 
    to_le 4 (sp_current_page m) @ to_le 4 (sp_page_count m) @ [PanelModeCode_to_u8 (sp_panel_mode m)] @
    to_le 4 (sp_dropped_log_count m) @ to_le 4 (sp_protocol_error_count m) @ to_le 4 (sp_last_error m)"

interpretation status_payload: strict_codec "\<lambda>_. True" "\<lambda>_. True"
  "wire_status" "encode_status_payload" "decode_status_payload"
proof
  fix m :: "StatusPayload" and out p :: bytes
  show "encode_status_payload m out = Err InvalidValue" if "(\<lambda>_. True) m" "\<not> (\<lambda>_. True) m"
    using that by (auto simp: encode_status_payload_def decode_status_payload_def wire_status_def  Let_def)
  show "encode_status_payload m out = Err OutputTooSmall" if "(\<lambda>_. True) m" "(\<lambda>_. True) m" "length out < length (wire_status m)"
    using that by (auto simp: encode_status_payload_def decode_status_payload_def wire_status_def  Let_def)
  show "encode_status_payload m out = Ok (length (wire_status m), wire_status m @ drop (length (wire_status m)) out)"
    if "(\<lambda>_. True) m" "(\<lambda>_. True) m" "length (wire_status m) \<le> length out"
    using that by (simp add: encode_status_payload_def decode_status_payload_def wire_status_def  codec_enc) (simp add: overwrite_start)
  show "decode_status_payload (wire_status m) = Ok m" if "(\<lambda>_. True) m" "(\<lambda>_. True) m"
    using that by (cases m) (simp add: encode_status_payload_def decode_status_payload_def wire_status_def    codec_dec)
  show "decode_status_payload p \<noteq> Panic"
    by (auto simp: encode_status_payload_def decode_status_payload_def wire_status_def   codec_enc and_then_Panic_iff at_Panic_iff)
  show "(\<lambda>_. True) m \<and> (\<lambda>_. True) m \<and> p = wire_status m" if "decode_status_payload p = Ok m"
  proof -
    have "(\<lambda>_. True) m \<and> (\<lambda>_. True) m \<and> length p = 21 \<and> p = wire_status m @ drop 21 p"
      using that by (auto simp: encode_status_payload_def decode_status_payload_def wire_status_def    codec_only split: if_splits simp del: drop_all)
    then show ?thesis using fixed_tail by blast
  qed
qed

record LogGetPayload =
  lg_cursor_sequence :: u32
  lg_max_bytes :: u16

definition encode_log_get_payload :: "LogGetPayload \<Rightarrow> bytes \<Rightarrow> (nat \<times> bytes, ProtocolError) res" where [codec_defs]:
  "encode_log_get_payload value out =
    (let total = 4 + 2 in
    (if length out < total then Err OutputTooSmall else
    and_then (put out 0 (to_le 4 (lg_cursor_sequence value))) (\<lambda>out.
    and_then (put out 4 (to_le 2 (lg_max_bytes value))) (\<lambda>out.
    Ok (total, out)))))"

definition decode_log_get_payload :: "bytes \<Rightarrow> (LogGetPayload, ProtocolError) res" where [codec_defs]:
  "decode_log_get_payload payload =
    (let expected = 4 + 2 in
    (if length payload \<noteq> expected then Err BadPayloadLength else
    and_then (u32_at payload 0) (\<lambda>cursor.
    and_then (u16_at payload 4) (\<lambda>max_bytes.
    Ok \<lparr>lg_cursor_sequence = cursor, lg_max_bytes = max_bytes\<rparr>))))"

definition wire_log_get :: "LogGetPayload \<Rightarrow> bytes" where
  "wire_log_get m = to_le 4 (lg_cursor_sequence m) @ to_le 2 (lg_max_bytes m)"

interpretation log_get: strict_codec "\<lambda>_. True" "\<lambda>_. True"
  "wire_log_get" "encode_log_get_payload" "decode_log_get_payload"
proof
  fix m :: "LogGetPayload" and out p :: bytes
  show "encode_log_get_payload m out = Err InvalidValue" if "(\<lambda>_. True) m" "\<not> (\<lambda>_. True) m"
    using that by (auto simp: encode_log_get_payload_def decode_log_get_payload_def wire_log_get_def  Let_def)
  show "encode_log_get_payload m out = Err OutputTooSmall" if "(\<lambda>_. True) m" "(\<lambda>_. True) m" "length out < length (wire_log_get m)"
    using that by (auto simp: encode_log_get_payload_def decode_log_get_payload_def wire_log_get_def  Let_def)
  show "encode_log_get_payload m out = Ok (length (wire_log_get m), wire_log_get m @ drop (length (wire_log_get m)) out)"
    if "(\<lambda>_. True) m" "(\<lambda>_. True) m" "length (wire_log_get m) \<le> length out"
    using that by (simp add: encode_log_get_payload_def decode_log_get_payload_def wire_log_get_def  codec_enc) (simp add: overwrite_start)
  show "decode_log_get_payload (wire_log_get m) = Ok m" if "(\<lambda>_. True) m" "(\<lambda>_. True) m"
    using that by (cases m) (simp add: encode_log_get_payload_def decode_log_get_payload_def wire_log_get_def    codec_dec)
  show "decode_log_get_payload p \<noteq> Panic"
    by (auto simp: encode_log_get_payload_def decode_log_get_payload_def wire_log_get_def   codec_enc and_then_Panic_iff at_Panic_iff)
  show "(\<lambda>_. True) m \<and> (\<lambda>_. True) m \<and> p = wire_log_get m" if "decode_log_get_payload p = Ok m"
  proof -
    have "(\<lambda>_. True) m \<and> (\<lambda>_. True) m \<and> length p = 6 \<and> p = wire_log_get m @ drop 6 p"
      using that by (auto simp: encode_log_get_payload_def decode_log_get_payload_def wire_log_get_def    codec_only split: if_splits simp del: drop_all)
    then show ?thesis using fixed_tail by blast
  qed
qed

definition LOG_RESPONSE_HEADER_BYTES :: nat where [simp]: "LOG_RESPONSE_HEADER_BYTES = 10"
definition CRASH_SUMMARY_BYTES :: nat where [simp]: "CRASH_SUMMARY_BYTES = 128"
definition LOG_RECORD_BYTES :: nat where [simp]: "LOG_RECORD_BYTES = 24"

record LogResponseHeader =
  lh_next_cursor :: u32
  lh_dropped_log_count :: u32
  lh_record_count :: u16

definition encode_log_response_header :: "LogResponseHeader \<Rightarrow> bytes \<Rightarrow> (nat \<times> bytes, ProtocolError) res" where [codec_defs]:
  "encode_log_response_header value out =
    (if length out < LOG_RESPONSE_HEADER_BYTES then Err OutputTooSmall else
    and_then (put out 0 (to_le 4 (lh_next_cursor value))) (\<lambda>out.
    and_then (put out 4 (to_le 4 (lh_dropped_log_count value))) (\<lambda>out.
    and_then (put out 8 (to_le 2 (lh_record_count value))) (\<lambda>out.
    Ok (LOG_RESPONSE_HEADER_BYTES, out)))))"

definition decode_log_response_header :: "bytes \<Rightarrow> (LogResponseHeader, ProtocolError) res" where [codec_defs]:
  "decode_log_response_header payload =
    (if length payload < LOG_RESPONSE_HEADER_BYTES then Err BadPayloadLength else
    and_then (u32_at payload 0) (\<lambda>next_cursor.
    and_then (u32_at payload 4) (\<lambda>dropped.
    and_then (u16_at payload 8) (\<lambda>count.
    Ok \<lparr>lh_next_cursor = next_cursor, lh_dropped_log_count = dropped, lh_record_count = count\<rparr>))))"

definition wire_log_header :: "LogResponseHeader \<Rightarrow> bytes" where
  "wire_log_header m = to_le 4 (lh_next_cursor m) @ to_le 4 (lh_dropped_log_count m) @ to_le 2 (lh_record_count m)"

interpretation log_header: prefix_codec "\<lambda>_. True" "\<lambda>_. True"
  "wire_log_header" "encode_log_response_header" "decode_log_response_header"
proof
  fix m :: "LogResponseHeader" and out p :: bytes
  show "encode_log_response_header m out = Err InvalidValue" if "(\<lambda>_. True) m" "\<not> (\<lambda>_. True) m"
    using that by (auto simp: encode_log_response_header_def decode_log_response_header_def wire_log_header_def  Let_def)
  show "encode_log_response_header m out = Err OutputTooSmall" if "(\<lambda>_. True) m" "(\<lambda>_. True) m" "length out < length (wire_log_header m)"
    using that by (auto simp: encode_log_response_header_def decode_log_response_header_def wire_log_header_def  Let_def)
  show "encode_log_response_header m out = Ok (length (wire_log_header m), wire_log_header m @ drop (length (wire_log_header m)) out)"
    if "(\<lambda>_. True) m" "(\<lambda>_. True) m" "length (wire_log_header m) \<le> length out"
    using that by (simp add: encode_log_response_header_def decode_log_response_header_def wire_log_header_def  codec_enc) (simp add: overwrite_start)
  show "decode_log_response_header (wire_log_header m) = Ok m" if "(\<lambda>_. True) m" "(\<lambda>_. True) m"
    using that by (cases m) (simp add: encode_log_response_header_def decode_log_response_header_def wire_log_header_def    codec_dec)
  show "decode_log_response_header p \<noteq> Panic"
    by (auto simp: encode_log_response_header_def decode_log_response_header_def wire_log_header_def   codec_enc and_then_Panic_iff at_Panic_iff)
  show "decode_log_response_header (wire_log_header m @ rest) = Ok m" if "(\<lambda>_. True) m" "(\<lambda>_. True) m" for rest
    using that by (cases m) (simp add: encode_log_response_header_def decode_log_response_header_def wire_log_header_def    codec_dec)
qed

definition encode_crash_response :: "bytes option \<Rightarrow> bytes \<Rightarrow> (nat \<times> bytes, ProtocolError) res" where
  "encode_crash_response summary out =
    (let required = (if summary \<noteq> None then 1 + CRASH_SUMMARY_BYTES else 1) in
     if length out < required then Err OutputTooSmall
     else case summary of
       Some summary \<Rightarrow>
         and_then (put out 0 [1]) (\<lambda>out.
         and_then (put out 1 summary) (\<lambda>out. Ok (required, out)))
     | None \<Rightarrow> and_then (put out 0 [0]) (\<lambda>out. Ok (required, out)))"

definition decode_crash_response :: "bytes \<Rightarrow> (bytes option, ProtocolError) res" where
  "decode_crash_response payload =
    (if payload = [0] then Ok None
     else if length payload = 1 + CRASH_SUMMARY_BYTES \<and> payload ! 0 = 1 then Ok (Some (drop 1 payload))
     else Err BadPayloadLength)"

definition wire_crash :: "bytes option \<Rightarrow> bytes" where
  "wire_crash m = (case m of None \<Rightarrow> [0] | Some summary \<Rightarrow> 1 # summary)"

text \<open>A summary is an array of 128 bytes.\<close>

definition crash_typed :: "bytes option \<Rightarrow> bool" where
  "crash_typed m = (case m of None \<Rightarrow> True | Some summary \<Rightarrow> length summary = CRASH_SUMMARY_BYTES)"

interpretation crash_response: strict_codec crash_typed "\<lambda>_. True" wire_crash
  encode_crash_response decode_crash_response
proof
  fix m :: "bytes option" and out p :: bytes
  note defs = encode_crash_response_def decode_crash_response_def wire_crash_def crash_typed_def
  show "encode_crash_response m out = Err InvalidValue" if "crash_typed m" "\<not> True"
    using that by simp
  show "encode_crash_response m out = Err OutputTooSmall"
    if "crash_typed m" True "length out < length (wire_crash m)"
    using that by (auto simp: defs split: option.splits)
  show "encode_crash_response m out = Ok (length (wire_crash m), wire_crash m @ drop (length (wire_crash m)) out)"
    if "crash_typed m" True "length (wire_crash m) \<le> length out"
    using that by (auto simp: defs codec_enc split: option.splits) (simp_all add: overwrite_start)
  show "decode_crash_response (wire_crash m) = Ok m" if "crash_typed m" True
    using that by (cases m) (auto simp: defs)
  show "decode_crash_response p \<noteq> Panic"
    by (simp add: decode_crash_response_def)
  show "crash_typed m \<and> True \<and> p = wire_crash m" if "decode_crash_response p = Ok m"
    using that by (cases p) (auto simp: defs split: if_splits)
qed

record LogRecordPayload =
  lr_sequence :: u32
  lr_tick_ms :: u32
  lr_level :: u8
  lr_subsystem :: u8
  lr_event :: u16
  lr_arg0 :: i32
  lr_arg1 :: i32
  lr_arg2 :: i32

definition encode_log_record :: "LogRecordPayload \<Rightarrow> bytes \<Rightarrow> (nat \<times> bytes, ProtocolError) res" where [codec_defs]:
  "encode_log_record value out =
    (if length out < LOG_RECORD_BYTES then Err OutputTooSmall else
    (let pos = 0 :: nat in
    and_then (put out pos (to_le 4 (lr_sequence value))) (\<lambda>out.
    (let pos = pos + 4 in
    and_then (put out pos (to_le 4 (lr_tick_ms value))) (\<lambda>out.
    (let pos = pos + 4 in
    and_then (put out pos [lr_level value]) (\<lambda>out.
    (let pos = pos + 1 in
    and_then (put out pos [lr_subsystem value]) (\<lambda>out.
    (let pos = pos + 1 in
    and_then (put out pos (to_le 2 (lr_event value))) (\<lambda>out.
    (let pos = pos + 2 in
    and_then (put out pos (to_le 4 (lr_arg0 value))) (\<lambda>out.
    (let pos = pos + 4 in
    and_then (put out pos (to_le 4 (lr_arg1 value))) (\<lambda>out.
    (let pos = pos + 4 in
    and_then (put out pos (to_le 4 (lr_arg2 value))) (\<lambda>out.
    (let pos = pos + 4 in
    Ok (pos, out)))))))))))))))))))"

definition decode_log_record :: "bytes \<Rightarrow> (LogRecordPayload, ProtocolError) res" where [codec_defs]:
  "decode_log_record payload =
    (if length payload < LOG_RECORD_BYTES then Err PayloadTooLarge else
    (let pos = 0 :: nat in
    and_then (u32_at payload pos) (\<lambda>sequence.
    (let pos = pos + 4 in
    and_then (u32_at payload pos) (\<lambda>tick_ms.
    (let pos = pos + 4 in
    and_then (byte_at payload pos) (\<lambda>level.
    (let pos = pos + 1 in
    and_then (byte_at payload pos) (\<lambda>subsystem.
    (let pos = pos + 1 in
    and_then (u16_at payload pos) (\<lambda>event.
    (let pos = pos + 2 in
    and_then (u32_at payload pos) (\<lambda>arg0.
    (let pos = pos + 4 in
    and_then (u32_at payload pos) (\<lambda>arg1.
    (let pos = pos + 4 in
    and_then (u32_at payload pos) (\<lambda>arg2.
    Ok \<lparr>lr_sequence = sequence, lr_tick_ms = tick_ms, lr_level = level, lr_subsystem = subsystem, lr_event = event, lr_arg0 = arg0, lr_arg1 = arg1, lr_arg2 = arg2\<rparr>)))))))))))))))))"

definition wire_log_record :: "LogRecordPayload \<Rightarrow> bytes" where
  "wire_log_record m = 
    to_le 4 (lr_sequence m) @ to_le 4 (lr_tick_ms m) @ [lr_level m, lr_subsystem m] @ to_le 2 (lr_event m) @
    to_le 4 (lr_arg0 m) @ to_le 4 (lr_arg1 m) @ to_le 4 (lr_arg2 m)"

interpretation log_record: prefix_codec "\<lambda>_. True" "\<lambda>_. True"
  "wire_log_record" "encode_log_record" "decode_log_record"
proof
  fix m :: "LogRecordPayload" and out p :: bytes
  show "encode_log_record m out = Err InvalidValue" if "(\<lambda>_. True) m" "\<not> (\<lambda>_. True) m"
    using that by (auto simp: encode_log_record_def decode_log_record_def wire_log_record_def  Let_def)
  show "encode_log_record m out = Err OutputTooSmall" if "(\<lambda>_. True) m" "(\<lambda>_. True) m" "length out < length (wire_log_record m)"
    using that by (auto simp: encode_log_record_def decode_log_record_def wire_log_record_def  Let_def)
  show "encode_log_record m out = Ok (length (wire_log_record m), wire_log_record m @ drop (length (wire_log_record m)) out)"
    if "(\<lambda>_. True) m" "(\<lambda>_. True) m" "length (wire_log_record m) \<le> length out"
    using that by (simp add: encode_log_record_def decode_log_record_def wire_log_record_def  codec_enc) (simp add: overwrite_start)
  show "decode_log_record (wire_log_record m) = Ok m" if "(\<lambda>_. True) m" "(\<lambda>_. True) m"
    using that by (cases m) (simp add: encode_log_record_def decode_log_record_def wire_log_record_def    codec_dec)
  show "decode_log_record p \<noteq> Panic"
    by (auto simp: encode_log_record_def decode_log_record_def wire_log_record_def   codec_enc and_then_Panic_iff at_Panic_iff)
  show "decode_log_record (wire_log_record m @ rest) = Ok m" if "(\<lambda>_. True) m" "(\<lambda>_. True) m" for rest
    using that by (cases m) (simp add: encode_log_record_def decode_log_record_def wire_log_record_def    codec_dec)
qed

subsection \<open>Probe and refresh mode\<close>

definition encode_probe_payload :: "ProbeCode \<Rightarrow> bytes \<Rightarrow> (nat \<times> bytes, ProtocolError) res" where [codec_defs]:
  "encode_probe_payload probe out =
    (if out = [] then Err OutputTooSmall else
    and_then (put out 0 [ProbeCode_to_u8 probe]) (\<lambda>out.
    Ok (1, out)))"

definition decode_probe_payload :: "bytes \<Rightarrow> (ProbeCode, ProtocolError) res" where [codec_defs]:
  "decode_probe_payload payload =
    (if length payload \<noteq> 1 then Err BadPayloadLength else
    and_then (byte_at payload 0) (\<lambda>p.
    ok_or InvalidValue (ProbeCode_from_u8 p)))"

definition wire_probe :: "ProbeCode \<Rightarrow> bytes" where
  "wire_probe m = [ProbeCode_to_u8 m]"

interpretation probe_payload: strict_codec "\<lambda>_. True" "\<lambda>_. True"
  "wire_probe" "encode_probe_payload" "decode_probe_payload"
proof
  fix m :: "ProbeCode" and out p :: bytes
  show "encode_probe_payload m out = Err InvalidValue" if "(\<lambda>_. True) m" "\<not> (\<lambda>_. True) m"
    using that by (auto simp: encode_probe_payload_def decode_probe_payload_def wire_probe_def Suc_le_eq Let_def)
  show "encode_probe_payload m out = Err OutputTooSmall" if "(\<lambda>_. True) m" "(\<lambda>_. True) m" "length out < length (wire_probe m)"
    using that by (auto simp: encode_probe_payload_def decode_probe_payload_def wire_probe_def Suc_le_eq Let_def)
  show "encode_probe_payload m out = Ok (length (wire_probe m), wire_probe m @ drop (length (wire_probe m)) out)"
    if "(\<lambda>_. True) m" "(\<lambda>_. True) m" "length (wire_probe m) \<le> length out"
    using that by (simp add: encode_probe_payload_def decode_probe_payload_def wire_probe_def Suc_le_eq codec_enc) (simp add: overwrite_start)
  show "decode_probe_payload (wire_probe m) = Ok m" if "(\<lambda>_. True) m" "(\<lambda>_. True) m"
    using that by (simp add: encode_probe_payload_def decode_probe_payload_def wire_probe_def Suc_le_eq   codec_dec)
  show "decode_probe_payload p \<noteq> Panic"
    by (auto simp: encode_probe_payload_def decode_probe_payload_def wire_probe_def Suc_le_eq  codec_enc and_then_Panic_iff at_Panic_iff)
  show "(\<lambda>_. True) m \<and> (\<lambda>_. True) m \<and> p = wire_probe m" if "decode_probe_payload p = Ok m"
  proof -
    have "(\<lambda>_. True) m \<and> (\<lambda>_. True) m \<and> length p = 1 \<and> p = wire_probe m @ drop 1 p"
      using that by (auto simp: encode_probe_payload_def decode_probe_payload_def wire_probe_def Suc_le_eq   codec_only split: if_splits simp del: drop_all)
    then show ?thesis using fixed_tail by blast
  qed
qed

record RefreshModePayload =
  rm_action :: RefreshModeAction
  rm_mode :: RefreshModeCode

definition encode_refresh_mode_payload :: "RefreshModePayload \<Rightarrow> bytes \<Rightarrow> (nat \<times> bytes, ProtocolError) res" where [codec_defs]:
  "encode_refresh_mode_payload value out =
    (if length out < 2 then Err OutputTooSmall else
    and_then (put out 0 [RefreshModeAction_to_u8 (rm_action value)]) (\<lambda>out.
    and_then (put out 1 [RefreshModeCode_to_u8 (rm_mode value)]) (\<lambda>out.
    Ok (2, out))))"

definition decode_refresh_mode_payload :: "bytes \<Rightarrow> (RefreshModePayload, ProtocolError) res" where [codec_defs]:
  "decode_refresh_mode_payload payload =
    (if length payload \<noteq> 2 then Err BadPayloadLength else
    and_then (byte_at payload 0) (\<lambda>a.
    and_then (ok_or InvalidValue (RefreshModeAction_from_u8 a)) (\<lambda>action.
    and_then (byte_at payload 1) (\<lambda>m.
    and_then (ok_or InvalidValue (RefreshModeCode_from_u8 m)) (\<lambda>mode.
    Ok \<lparr>rm_action = action, rm_mode = mode\<rparr>)))))"

definition wire_refresh_mode :: "RefreshModePayload \<Rightarrow> bytes" where
  "wire_refresh_mode m = [RefreshModeAction_to_u8 (rm_action m), RefreshModeCode_to_u8 (rm_mode m)]"

interpretation refresh_mode_payload: strict_codec "\<lambda>_. True" "\<lambda>_. True"
  "wire_refresh_mode" "encode_refresh_mode_payload" "decode_refresh_mode_payload"
proof
  fix m :: "RefreshModePayload" and out p :: bytes
  show "encode_refresh_mode_payload m out = Err InvalidValue" if "(\<lambda>_. True) m" "\<not> (\<lambda>_. True) m"
    using that by (auto simp: encode_refresh_mode_payload_def decode_refresh_mode_payload_def wire_refresh_mode_def  Let_def)
  show "encode_refresh_mode_payload m out = Err OutputTooSmall" if "(\<lambda>_. True) m" "(\<lambda>_. True) m" "length out < length (wire_refresh_mode m)"
    using that by (auto simp: encode_refresh_mode_payload_def decode_refresh_mode_payload_def wire_refresh_mode_def  Let_def)
  show "encode_refresh_mode_payload m out = Ok (length (wire_refresh_mode m), wire_refresh_mode m @ drop (length (wire_refresh_mode m)) out)"
    if "(\<lambda>_. True) m" "(\<lambda>_. True) m" "length (wire_refresh_mode m) \<le> length out"
    using that by (simp add: encode_refresh_mode_payload_def decode_refresh_mode_payload_def wire_refresh_mode_def  codec_enc) (simp add: overwrite_start)
  show "decode_refresh_mode_payload (wire_refresh_mode m) = Ok m" if "(\<lambda>_. True) m" "(\<lambda>_. True) m"
    using that by (cases m) (simp add: encode_refresh_mode_payload_def decode_refresh_mode_payload_def wire_refresh_mode_def    codec_dec)
  show "decode_refresh_mode_payload p \<noteq> Panic"
    by (auto simp: encode_refresh_mode_payload_def decode_refresh_mode_payload_def wire_refresh_mode_def   codec_enc and_then_Panic_iff at_Panic_iff)
  show "(\<lambda>_. True) m \<and> (\<lambda>_. True) m \<and> p = wire_refresh_mode m" if "decode_refresh_mode_payload p = Ok m"
  proof -
    have "(\<lambda>_. True) m \<and> (\<lambda>_. True) m \<and> length p = 2 \<and> p = wire_refresh_mode m @ drop 2 p"
      using that by (auto simp: encode_refresh_mode_payload_def decode_refresh_mode_payload_def wire_refresh_mode_def    codec_only split: if_splits simp del: drop_all)
    then show ?thesis using fixed_tail by blast
  qed
qed

subsection \<open>Properties\<close>

text \<open>The decoders of the control messages accept a payload exactly when it is the encoding of
  the message they return; a page index is present exactly in a \<open>Goto\<close>.\<close>

theorem control_decoders_exact:
  "(decode_hello_response p = Ok hello_m \<longleftrightarrow>
      length (hr_firmware_name hello_m) \<le> 16 \<and> length (hr_target hello_m) \<le> 16 \<and> p = wire_hello hello_m) \<and>
   (decode_key_payload p = Ok key_m \<longleftrightarrow> p = wire_key key_m) \<and>
   (decode_page_payload p = Ok page_m \<longleftrightarrow>
      (pp_action page_m = Pa_Goto \<longleftrightarrow> pp_page_index page_m \<noteq> None) \<and> p = wire_page page_m) \<and>
   (decode_status_payload p = Ok status_m \<longleftrightarrow> p = wire_status status_m) \<and>
   (decode_log_get_payload p = Ok log_m \<longleftrightarrow> p = wire_log_get log_m) \<and>
   (decode_crash_response p = Ok crash_m \<longleftrightarrow> crash_typed crash_m \<and> p = wire_crash crash_m) \<and>
   (decode_probe_payload p = Ok probe_m \<longleftrightarrow> p = wire_probe probe_m) \<and>
   (decode_refresh_mode_payload p = Ok mode_m \<longleftrightarrow> p = wire_refresh_mode mode_m)"
  using hello.dec_iff key_payload.dec_iff page_payload.dec_iff status_payload.dec_iff log_get.dec_iff
    crash_response.dec_iff probe_payload.dec_iff refresh_mode_payload.dec_iff
  by (auto simp: page_typed_def page_valid_def)

end
