(* ===== verification/Trace_Messages.thy ===== *)
theory Trace_Messages
  imports Codec
begin

text \<open>
  The messages of the transfer trace (\<^verbatim>\<open>transfer_trace.rs\<close>) and of the SD write
  trace (\<^verbatim>\<open>sd_write_trace.rs\<close>).  The counters of a snapshot and the records of a
  write trace are stored by loops over consecutive offsets.
\<close>

definition TRANSFER_TRACE_REQUEST_BYTES :: nat where [simp]: "TRANSFER_TRACE_REQUEST_BYTES = 8"
definition TRANSFER_TRACE_SNAPSHOT_BYTES :: nat where [simp]: "TRANSFER_TRACE_SNAPSHOT_BYTES = 132"
definition TRANSFER_TRACE_FLAGS :: u8 where [simp]: "TRANSFER_TRACE_FLAGS = 3"

subsection \<open>Arrays of counters\<close>

text \<open>\<open>for (index, field) in fields.iter().enumerate()\<close>: one store per counter.\<close>

fun put_fields :: "nat \<Rightarrow> nat \<Rightarrow> u32 list \<Rightarrow> bytes \<Rightarrow> (bytes, ProtocolError) res" where
  "put_fields base index [] out = Ok out"
| "put_fields base index (field # fields) out =
    (let offset = base + index * 4 in
     and_then (put out offset (to_le 4 field)) (\<lambda>out. put_fields base (index + 1) fields out))"

fun read_fields :: "bytes \<Rightarrow> nat \<Rightarrow> nat \<Rightarrow> nat \<Rightarrow> (u32 list, ProtocolError) res" where
  "read_fields payload base index 0 = Ok []"
| "read_fields payload base index (Suc k) =
    and_then (u32_at payload (base + index * 4)) (\<lambda>field.
    and_then (read_fields payload base (index + 1) k) (\<lambda>fields. Ok (field # fields)))"

definition words_le :: "u32 list \<Rightarrow> bytes" where
  "words_le fields = concat (map (to_le 4) fields)"

lemma length_words_le [simp]: "length (words_le fs) = 4 * length fs"
  by (induction fs) (simp_all add: words_le_def)

lemma put_fields_eq:
  "base + (index + length fs) * 4 \<le> length out \<Longrightarrow>
   put_fields base index fs out = Ok (overwrite out (base + index * 4) (words_le fs))"
proof (induction fs arbitrary: index out)
  case (Cons f fs)
  then show ?case
    using Cons.IH[of "index + 1" "overwrite out (base + index * 4) (to_le 4 f)"] length_words_le[of fs]
    by (simp add: slice_laws overwrite_compose words_le_def algebra_simps)
qed (simp add: words_le_def)

lemma read_fields_wire:
  "length xs = base + index * 4 \<Longrightarrow>
   read_fields (xs @ words_le fs @ ys) base index (length fs) = Ok fs"
proof (induction fs arbitrary: xs index)
  case (Cons f fs)
  have "subslice (xs @ words_le (f # fs) @ ys) (base + index * 4) 4 = to_le 4 f"
    using Cons.prems by (simp add: subslice_def words_le_def)
  then show ?case
    using Cons.IH[of "xs @ to_le 4 f" "index + 1"] Cons.prems
    by (simp add: slice_laws words_le_def)
qed simp

lemma read_fields_eq:
  "base + (index + k) * 4 \<le> length p \<Longrightarrow>
   read_fields p base index k = Ok (map (\<lambda>i. of_le (subslice p (base + i * 4) 4)) [index..<index + k])"
proof (induction k arbitrary: index)
  case (Suc k)
  have "[index..<index + Suc k] = index # [index + 1..<index + 1 + k]"
    by (simp add: upt_conv_Cons del: upt_Suc)
  then show ?case using Suc by (simp add: slice_laws del: upt_Suc)
qed simp

lemma words_le_read:
  "base + k * 4 \<le> length p \<Longrightarrow>
   words_le (map (\<lambda>i. of_le (subslice p (base + i * 4) 4)) [0..<k]) = subslice p base (k * 4)"
proof (induction k)
  case (Suc k)
  have "subslice p base (Suc k * 4) = subslice p base (k * 4) @ subslice p (base + k * 4) 4"
    using take_add[of "k * 4" 4 "drop base p"] by (simp add: subslice_def ac_simps)
  then show ?case using Suc by (simp add: words_le_def to_le_of_le)
qed (simp add: words_le_def)

subsection \<open>The transfer trace\<close>

record TransferTraceRequest =
  tr_action :: TransferTraceAction
  tr_direction :: TransferDirection
  tr_trace_id :: u32

definition valid_trace_request :: "TransferTraceRequest \<Rightarrow> bool" where
  "valid_trace_request value = (case tr_action value of
      Ta_Start \<Rightarrow> tr_trace_id value = 0 \<and> tr_direction value \<noteq> Td_Unspecified
    | Ta_Get \<Rightarrow> tr_trace_id value \<noteq> 0
    | Ta_Clear \<Rightarrow> tr_trace_id value \<noteq> 0)"

definition validate_trace_request :: "TransferTraceRequest \<Rightarrow> (unit, ProtocolError) res" where
  "validate_trace_request value = (if valid_trace_request value then Ok () else Err InvalidValue)"

lemma validate_trace_request_eq: "validate_trace_request v = require (valid_trace_request v)"
  by (simp add: validate_trace_request_def require_def)

definition encode_transfer_trace_request :: "TransferTraceRequest \<Rightarrow> bytes \<Rightarrow> (nat \<times> bytes, ProtocolError) res" where [codec_defs]:
  "encode_transfer_trace_request value out =
    and_then (validate_trace_request value) (\<lambda>_.
    (if length out < TRANSFER_TRACE_REQUEST_BYTES then Err OutputTooSmall else
    and_then (put out 0 [TransferTraceAction_to_u8 (tr_action value), TransferDirection_to_u8 (tr_direction value), 0, 0]) (\<lambda>out.
    and_then (put out 4 (to_le 4 (tr_trace_id value))) (\<lambda>out.
    Ok (TRANSFER_TRACE_REQUEST_BYTES, out)))))"

definition decode_transfer_trace_request :: "bytes \<Rightarrow> (TransferTraceRequest, ProtocolError) res" where [codec_defs]:
  "decode_transfer_trace_request payload =
    (if length payload \<noteq> TRANSFER_TRACE_REQUEST_BYTES then Err BadPayloadLength else
    and_then (byte_at payload 2) (\<lambda>r2.
    and_then (byte_at payload 3) (\<lambda>r3.
    (if r2 \<noteq> 0 \<or> r3 \<noteq> 0 then Err InvalidValue else
    and_then (byte_at payload 0) (\<lambda>a.
    and_then (ok_or InvalidValue (TransferTraceAction_from_u8 a)) (\<lambda>action.
    and_then (byte_at payload 1) (\<lambda>d.
    and_then (ok_or InvalidValue (TransferDirection_from_u8 d)) (\<lambda>direction.
    and_then (u32_at payload 4) (\<lambda>trace_id.
    (let value = \<lparr>tr_action = action, tr_direction = direction, tr_trace_id = trace_id\<rparr> in
    and_then (validate_trace_request value) (\<lambda>_.
    Ok value)))))))))))"

definition wire_trace_request :: "TransferTraceRequest \<Rightarrow> bytes" where
  "wire_trace_request m = 
    [TransferTraceAction_to_u8 (tr_action m), TransferDirection_to_u8 (tr_direction m), 0, 0] @ to_le 4 (tr_trace_id m)"

interpretation trace_request: strict_codec "\<lambda>_. True" "valid_trace_request"
  "wire_trace_request" "encode_transfer_trace_request" "decode_transfer_trace_request"
proof
  fix m :: "TransferTraceRequest" and out p :: bytes
  show "encode_transfer_trace_request m out = Err InvalidValue" if "(\<lambda>_. True) m" "\<not> valid_trace_request m"
    using that by (auto simp: encode_transfer_trace_request_def decode_transfer_trace_request_def wire_trace_request_def validate_trace_request_eq Let_def)
  show "encode_transfer_trace_request m out = Err OutputTooSmall" if "(\<lambda>_. True) m" "valid_trace_request m" "length out < length (wire_trace_request m)"
    using that by (auto simp: encode_transfer_trace_request_def decode_transfer_trace_request_def wire_trace_request_def validate_trace_request_eq Let_def)
  show "encode_transfer_trace_request m out = Ok (length (wire_trace_request m), wire_trace_request m @ drop (length (wire_trace_request m)) out)"
    if "(\<lambda>_. True) m" "valid_trace_request m" "length (wire_trace_request m) \<le> length out"
    using that by (simp add: encode_transfer_trace_request_def decode_transfer_trace_request_def wire_trace_request_def validate_trace_request_eq codec_enc) (simp add: overwrite_start)
  show "decode_transfer_trace_request (wire_trace_request m) = Ok m" if "(\<lambda>_. True) m" "valid_trace_request m"
    using that by (cases m) (simp add: encode_transfer_trace_request_def decode_transfer_trace_request_def wire_trace_request_def validate_trace_request_eq   codec_dec)
  show "decode_transfer_trace_request p \<noteq> Panic"
    by (auto simp: encode_transfer_trace_request_def decode_transfer_trace_request_def wire_trace_request_def validate_trace_request_eq  codec_enc and_then_Panic_iff at_Panic_iff)
  show "(\<lambda>_. True) m \<and> valid_trace_request m \<and> p = wire_trace_request m" if "decode_transfer_trace_request p = Ok m"
  proof -
    have "(\<lambda>_. True) m \<and> valid_trace_request m \<and> length p = 8 \<and> p = wire_trace_request m @ drop 8 p"
      using that by (auto simp: encode_transfer_trace_request_def decode_transfer_trace_request_def wire_trace_request_def validate_trace_request_eq   codec_only split: if_splits simp del: drop_all)
    then show ?thesis using fixed_tail by blast
  qed
qed

record TransferTraceSnapshot =
  ts_direction :: TransferDirection
  ts_state :: TransferTraceState
  ts_selected_window :: u8
  ts_trace_id :: u32
  ts_chunk_size :: u16
  ts_peak_rx_bytes :: u16
  ts_logical_bytes :: u32
  ts_frames :: u32
  ts_usb_rx_bytes :: u32
  ts_usb_tx_bytes :: u32
  ts_usb_rx_us :: u32
  ts_usb_tx_us :: u32
  ts_framing_us :: u32
  ts_frame_crc_us :: u32
  ts_owner_queue_us :: u32
  ts_owner_execute_us :: u32
  ts_sd_read_calls :: u32
  ts_sd_write_calls :: u32
  ts_sd_read_blocks :: u32
  ts_sd_write_blocks :: u32
  ts_sd_read_logical_bytes :: u32
  ts_sd_write_logical_bytes :: u32
  ts_sd_read_us :: u32
  ts_sd_write_us :: u32
  ts_fat_allocation_us :: u32
  ts_upload_prepare_us :: u32
  ts_data_io_us :: u32
  ts_crc_us :: u32
  ts_commit_us :: u32
  ts_library_refresh_us :: u32
  ts_data_phase_us :: u32
  ts_end_to_end_us :: u32
  ts_usb_sd_overlap_us :: u32
  ts_peak_slots :: u8
  ts_flags :: u8
  ts_queue_stalls :: u16
  ts_protocol_errors_start :: u32
  ts_protocol_errors_end :: u32

definition validate_snapshot :: "TransferTraceSnapshot \<Rightarrow> (unit, ProtocolError) res" where
  "validate_snapshot value =
    (if ts_direction value = Td_Unspecified \<or> ts_selected_window value = 0 \<or> ts_trace_id value = 0 \<or>
        ts_chunk_size value = 0 \<or> ts_flags value AND NOT TRANSFER_TRACE_FLAGS \<noteq> 0
     then Err InvalidValue else Ok ())"

definition valid_snapshot :: "TransferTraceSnapshot \<Rightarrow> bool" where
  "valid_snapshot value = (ts_direction value \<noteq> Td_Unspecified \<and> ts_selected_window value \<noteq> 0 \<and>
    ts_trace_id value \<noteq> 0 \<and> ts_chunk_size value \<noteq> 0 \<and> ts_flags value AND NOT TRANSFER_TRACE_FLAGS = 0)"

lemma validate_snapshot_eq: "validate_snapshot v = require (valid_snapshot v)"
  by (auto simp: validate_snapshot_def valid_snapshot_def require_def)

definition snapshot_fields :: "TransferTraceSnapshot \<Rightarrow> u32 list" where
  "snapshot_fields value =
    [ts_logical_bytes value, ts_frames value, ts_usb_rx_bytes value,
     ts_usb_tx_bytes value, ts_usb_rx_us value, ts_usb_tx_us value,
     ts_framing_us value, ts_frame_crc_us value, ts_owner_queue_us value,
     ts_owner_execute_us value, ts_sd_read_calls value, ts_sd_write_calls value,
     ts_sd_read_blocks value, ts_sd_write_blocks value, ts_sd_read_logical_bytes value,
     ts_sd_write_logical_bytes value, ts_sd_read_us value, ts_sd_write_us value,
     ts_fat_allocation_us value, ts_upload_prepare_us value, ts_data_io_us value,
     ts_crc_us value, ts_commit_us value, ts_library_refresh_us value,
     ts_data_phase_us value, ts_end_to_end_us value, ts_usb_sd_overlap_us value]"

lemma length_snapshot_fields [simp]: "length (snapshot_fields m) = 27"
  by (simp add: snapshot_fields_def)

definition encode_transfer_trace_snapshot :: "TransferTraceSnapshot \<Rightarrow> bytes \<Rightarrow> (nat \<times> bytes, ProtocolError) res" where [codec_defs]:
  "encode_transfer_trace_snapshot value out =
    and_then (validate_snapshot value) (\<lambda>_.
    (if length out < TRANSFER_TRACE_SNAPSHOT_BYTES then Err OutputTooSmall else
    and_then (put out 0 [1, TransferDirection_to_u8 (ts_direction value), TransferTraceState_to_u8 (ts_state value), ts_selected_window value]) (\<lambda>out.
    and_then (put out 4 (to_le 4 (ts_trace_id value))) (\<lambda>out.
    and_then (put out 8 (to_le 2 (ts_chunk_size value))) (\<lambda>out.
    and_then (put out 10 (to_le 2 (ts_peak_rx_bytes value))) (\<lambda>out.
    and_then (put_fields 12 0 (snapshot_fields value) out) (\<lambda>out.
    and_then (put out 120 [ts_peak_slots value]) (\<lambda>out.
    and_then (put out 121 [ts_flags value]) (\<lambda>out.
    and_then (put out 122 (to_le 2 (ts_queue_stalls value))) (\<lambda>out.
    and_then (put out 124 (to_le 4 (ts_protocol_errors_start value))) (\<lambda>out.
    and_then (put out 128 (to_le 4 (ts_protocol_errors_end value))) (\<lambda>out.
    Ok (TRANSFER_TRACE_SNAPSHOT_BYTES, out)))))))))))))"

definition decode_transfer_trace_snapshot :: "bytes \<Rightarrow> (TransferTraceSnapshot, ProtocolError) res" where [codec_defs]:
  "decode_transfer_trace_snapshot payload =
    (if length payload \<noteq> TRANSFER_TRACE_SNAPSHOT_BYTES then Err BadPayloadLength else
    and_then (byte_at payload 0) (\<lambda>version.
    (if version \<noteq> 1 then Err InvalidValue else
    and_then (read_fields payload 12 0 27) (\<lambda>fields.
    and_then (byte_at payload 1) (\<lambda>d.
    and_then (ok_or InvalidValue (TransferDirection_from_u8 d)) (\<lambda>direction.
    and_then (byte_at payload 2) (\<lambda>s.
    and_then (ok_or InvalidValue (TransferTraceState_from_u8 s)) (\<lambda>state.
    and_then (byte_at payload 3) (\<lambda>window.
    and_then (u32_at payload 4) (\<lambda>trace_id.
    and_then (u16_at payload 8) (\<lambda>chunk.
    and_then (u16_at payload 10) (\<lambda>peak_rx.
    and_then (byte_at payload 120) (\<lambda>slots.
    and_then (byte_at payload 121) (\<lambda>flags.
    and_then (u16_at payload 122) (\<lambda>stalls.
    and_then (u32_at payload 124) (\<lambda>start.
    and_then (u32_at payload 128) (\<lambda>stop.
    (let value = \<lparr>ts_direction = direction, ts_state = state, ts_selected_window = window, ts_trace_id = trace_id, ts_chunk_size = chunk, ts_peak_rx_bytes = peak_rx,
       ts_logical_bytes = fields ! 0, ts_frames = fields ! 1, ts_usb_rx_bytes = fields ! 2, ts_usb_tx_bytes = fields ! 3, ts_usb_rx_us = fields ! 4, ts_usb_tx_us = fields ! 5, ts_framing_us = fields ! 6, ts_frame_crc_us = fields ! 7, ts_owner_queue_us = fields ! 8, ts_owner_execute_us = fields ! 9, ts_sd_read_calls = fields ! 10, ts_sd_write_calls = fields ! 11, ts_sd_read_blocks = fields ! 12, ts_sd_write_blocks = fields ! 13, ts_sd_read_logical_bytes = fields ! 14, ts_sd_write_logical_bytes = fields ! 15, ts_sd_read_us = fields ! 16, ts_sd_write_us = fields ! 17, ts_fat_allocation_us = fields ! 18, ts_upload_prepare_us = fields ! 19, ts_data_io_us = fields ! 20, ts_crc_us = fields ! 21, ts_commit_us = fields ! 22, ts_library_refresh_us = fields ! 23, ts_data_phase_us = fields ! 24, ts_end_to_end_us = fields ! 25, ts_usb_sd_overlap_us = fields ! 26, ts_peak_slots = slots, ts_flags = flags, ts_queue_stalls = stalls, ts_protocol_errors_start = start, ts_protocol_errors_end = stop\<rparr> in
    and_then (validate_snapshot value) (\<lambda>_.
    Ok value)))))))))))))))))))"

definition wire_snapshot :: "TransferTraceSnapshot \<Rightarrow> bytes" where
  "wire_snapshot m = 
    ([1, TransferDirection_to_u8 (ts_direction m), TransferTraceState_to_u8 (ts_state m), ts_selected_window m] @
     to_le 4 (ts_trace_id m) @ to_le 2 (ts_chunk_size m) @ to_le 2 (ts_peak_rx_bytes m)) @
    words_le (snapshot_fields m) @
    [ts_peak_slots m, ts_flags m] @ to_le 2 (ts_queue_stalls m) @
    to_le 4 (ts_protocol_errors_start m) @ to_le 4 (ts_protocol_errors_end m)"

lemma nth_27: "length fs = 27 \<Longrightarrow> [fs ! 0, fs ! 1, fs ! 2, fs ! 3, fs ! 4, fs ! 5, fs ! 6, fs ! 7, fs ! 8, fs ! 9, fs ! 10, fs ! 11, fs ! 12, fs ! 13, fs ! 14, fs ! 15, fs ! 16, fs ! 17, fs ! 18, fs ! 19, fs ! 20, fs ! 21, fs ! 22, fs ! 23, fs ! 24, fs ! 25, fs ! 26] = fs"
proof -
  assume "length fs = 27"
  then have "map ((!) fs) [0..<27] = fs" using map_nth[of fs] by simp
  moreover have "[0..<27] = [0, 1, 2, 3, 4, 5, 6, 7, 8, 9, 10, 11, 12, 13, 14, 15, 16, 17, 18, 19, 20, 21, 22, 23, 24, 25, 26 :: nat]" by code_simp
  ultimately show ?thesis by (simp only: list.map)
qed

interpretation snapshot: strict_codec "\<lambda>_. True" valid_snapshot wire_snapshot
  encode_transfer_trace_snapshot decode_transfer_trace_snapshot
proof
  fix m :: TransferTraceSnapshot and out p :: bytes
  show "encode_transfer_trace_snapshot m out = Err InvalidValue" if True "\<not> valid_snapshot m"
    using that by (simp add: encode_transfer_trace_snapshot_def validate_snapshot_eq)
  show "encode_transfer_trace_snapshot m out = Err OutputTooSmall"
    if True "valid_snapshot m" "length out < length (wire_snapshot m)"
    using that by (simp add: encode_transfer_trace_snapshot_def validate_snapshot_eq wire_snapshot_def)
  show "encode_transfer_trace_snapshot m out =
      Ok (length (wire_snapshot m), wire_snapshot m @ drop (length (wire_snapshot m)) out)"
    if True "valid_snapshot m" "length (wire_snapshot m) \<le> length out"
    using that
    by (simp add: encode_transfer_trace_snapshot_def validate_snapshot_eq wire_snapshot_def codec_enc put_fields_eq)
      (simp add: overwrite_start)
  show "decode_transfer_trace_snapshot (wire_snapshot m) = Ok m" if True "valid_snapshot m"
  proof -
    have rf: "read_fields (wire_snapshot m) 12 0 27 = Ok (snapshot_fields m)"
      using read_fields_wire[of "[1, TransferDirection_to_u8 (ts_direction m), TransferTraceState_to_u8 (ts_state m),
          ts_selected_window m] @ to_le 4 (ts_trace_id m) @ to_le 2 (ts_chunk_size m) @ to_le 2 (ts_peak_rx_bytes m)"
          12 0 "snapshot_fields m"]
      by (simp add: wire_snapshot_def)
    have len: "length (wire_snapshot m) = 132" by (simp add: wire_snapshot_def)
    have bytes: "wire_snapshot m ! 0 = 1" "wire_snapshot m ! Suc 0 = TransferDirection_to_u8 (ts_direction m)"
      "wire_snapshot m ! 2 = TransferTraceState_to_u8 (ts_state m)" "wire_snapshot m ! 3 = ts_selected_window m"
      "wire_snapshot m ! 120 = ts_peak_slots m" "wire_snapshot m ! 121 = ts_flags m"
      by (simp_all add: wire_snapshot_def slice_read)
    have words: "subslice (wire_snapshot m) 4 4 = to_le 4 (ts_trace_id m)"
      "subslice (wire_snapshot m) 8 2 = to_le 2 (ts_chunk_size m)"
      "subslice (wire_snapshot m) 10 2 = to_le 2 (ts_peak_rx_bytes m)"
      "subslice (wire_snapshot m) 122 2 = to_le 2 (ts_queue_stalls m)"
      "subslice (wire_snapshot m) 124 4 = to_le 4 (ts_protocol_errors_start m)"
      "subslice (wire_snapshot m) 128 4 = to_le 4 (ts_protocol_errors_end m)"
      by (simp_all add: wire_snapshot_def slice_read)
    have "decode_transfer_trace_snapshot (wire_snapshot m) = and_then (validate_snapshot m) (\<lambda>_. Ok m)"
      using len bytes words rf unfolding decode_transfer_trace_snapshot_def
      by (cases m) (simp add: snapshot_fields_def codec_enc wire_from_to)
    then show ?thesis using that by (simp add: validate_snapshot_eq)
  qed
  show "decode_transfer_trace_snapshot p \<noteq> Panic"
    by (auto simp: decode_transfer_trace_snapshot_def validate_snapshot_eq codec_enc and_then_Panic_iff at_Panic_iff read_fields_eq)
  show "True \<and> valid_snapshot m \<and> p = wire_snapshot m" if "decode_transfer_trace_snapshot p = Ok m"
  proof -
    define fs :: "u32 list" where "fs = map (\<lambda>i. of_le (subslice p (12 + i * 4) 4)) [0..<27]"
    have len: "length p = 132"
      using that by (simp add: decode_transfer_trace_snapshot_def split: if_splits)
    then have rf: "read_fields p 12 0 27 = Ok fs" by (simp add: read_fields_eq fs_def del: upt_rec_numeral)
    have words: "words_le fs = subslice p 12 108"
      unfolding fs_def using words_le_read[of 12 27 p] len by simp
    have lfs: "length fs = 27" by (simp add: fs_def)
    have "valid_snapshot m \<and> snapshot_fields m = fs \<and> p = wire_snapshot m @ drop 132 p"
      using that len unfolding decode_transfer_trace_snapshot_def rf
      by (auto simp: snapshot_fields_def nth_27[OF lfs, unfolded One_nat_def] wire_snapshot_def words validate_snapshot_eq codec_only
          split: if_splits simp del: drop_all)
    then show ?thesis using fixed_tail[OF len] by blast
  qed
qed


subsection \<open>The SD write trace\<close>

definition SD_WRITE_TRACE_REQUEST_BYTES :: nat where [simp]: "SD_WRITE_TRACE_REQUEST_BYTES = 8"
definition SD_WRITE_TRACE_RESPONSE_HEADER_BYTES :: nat where [simp]: "SD_WRITE_TRACE_RESPONSE_HEADER_BYTES = 16"
definition SD_WRITE_TRACE_RECORD_BYTES :: nat where [simp]: "SD_WRITE_TRACE_RECORD_BYTES = 32"
definition SD_WRITE_TRACE_MAX_PAGE_RECORDS :: u16 where [simp]: "SD_WRITE_TRACE_MAX_PAGE_RECORDS = 127"
definition SD_WRITE_TRACE_FLAG_OVERFLOW :: u8 where [simp]: "SD_WRITE_TRACE_FLAG_OVERFLOW = 1"

record SdWriteTraceRequest =
  sw_action :: SdWriteTraceAction
  sw_start_index :: u16
  sw_max_records :: u16

definition valid_sd_request :: "SdWriteTraceRequest \<Rightarrow> bool" where
  "valid_sd_request value = (case sw_action value of
      Sa_Clear \<Rightarrow> sw_start_index value = 0 \<and> sw_max_records value = 0
    | Sa_Freeze \<Rightarrow> sw_start_index value = 0 \<and> sw_max_records value = 0
    | Sa_Get \<Rightarrow> sw_max_records value > 0 \<and> sw_max_records value \<le> SD_WRITE_TRACE_MAX_PAGE_RECORDS)"

definition validate_sd_request :: "SdWriteTraceRequest \<Rightarrow> (unit, ProtocolError) res" where
  "validate_sd_request value = (if valid_sd_request value then Ok () else Err InvalidValue)"

lemma validate_sd_request_eq: "validate_sd_request v = require (valid_sd_request v)"
  by (simp add: validate_sd_request_def require_def)

definition encode_sd_write_trace_request :: "SdWriteTraceRequest \<Rightarrow> bytes \<Rightarrow> (nat \<times> bytes, ProtocolError) res" where [codec_defs]:
  "encode_sd_write_trace_request value out =
    and_then (validate_sd_request value) (\<lambda>_.
    (if length out < SD_WRITE_TRACE_REQUEST_BYTES then Err OutputTooSmall else
    and_then (put out 0 [SdWriteTraceAction_to_u8 (sw_action value)]) (\<lambda>out.
    and_then (put out 1 [0]) (\<lambda>out.
    and_then (put out 2 (to_le 2 (sw_start_index value))) (\<lambda>out.
    and_then (put out 4 (to_le 2 (sw_max_records value))) (\<lambda>out.
    and_then (put out 6 [0, 0]) (\<lambda>out.
    Ok (SD_WRITE_TRACE_REQUEST_BYTES, out))))))))"

definition decode_sd_write_trace_request :: "bytes \<Rightarrow> (SdWriteTraceRequest, ProtocolError) res" where [codec_defs]:
  "decode_sd_write_trace_request payload =
    (if length payload \<noteq> SD_WRITE_TRACE_REQUEST_BYTES then Err BadPayloadLength else
    and_then (byte_at payload 1) (\<lambda>r1.
    and_then (byte_at payload 6) (\<lambda>r6.
    and_then (byte_at payload 7) (\<lambda>r7.
    (if r1 \<noteq> 0 \<or> r6 \<noteq> 0 \<or> r7 \<noteq> 0 then Err InvalidValue else
    and_then (byte_at payload 0) (\<lambda>a.
    and_then (ok_or InvalidValue (SdWriteTraceAction_from_u8 a)) (\<lambda>action.
    and_then (u16_at payload 2) (\<lambda>start.
    and_then (u16_at payload 4) (\<lambda>count.
    (let value = \<lparr>sw_action = action, sw_start_index = start, sw_max_records = count\<rparr> in
    and_then (validate_sd_request value) (\<lambda>_.
    Ok value)))))))))))"

definition wire_sd_request :: "SdWriteTraceRequest \<Rightarrow> bytes" where
  "wire_sd_request m = 
    [SdWriteTraceAction_to_u8 (sw_action m), 0] @ to_le 2 (sw_start_index m) @ to_le 2 (sw_max_records m) @ [0, 0]"

interpretation sd_request: strict_codec "\<lambda>_. True" "valid_sd_request"
  "wire_sd_request" "encode_sd_write_trace_request" "decode_sd_write_trace_request"
proof
  fix m :: "SdWriteTraceRequest" and out p :: bytes
  show "encode_sd_write_trace_request m out = Err InvalidValue" if "(\<lambda>_. True) m" "\<not> valid_sd_request m"
    using that by (auto simp: encode_sd_write_trace_request_def decode_sd_write_trace_request_def wire_sd_request_def validate_sd_request_eq Let_def)
  show "encode_sd_write_trace_request m out = Err OutputTooSmall" if "(\<lambda>_. True) m" "valid_sd_request m" "length out < length (wire_sd_request m)"
    using that by (auto simp: encode_sd_write_trace_request_def decode_sd_write_trace_request_def wire_sd_request_def validate_sd_request_eq Let_def)
  show "encode_sd_write_trace_request m out = Ok (length (wire_sd_request m), wire_sd_request m @ drop (length (wire_sd_request m)) out)"
    if "(\<lambda>_. True) m" "valid_sd_request m" "length (wire_sd_request m) \<le> length out"
    using that by (simp add: encode_sd_write_trace_request_def decode_sd_write_trace_request_def wire_sd_request_def validate_sd_request_eq codec_enc) (simp add: overwrite_start)
  show "decode_sd_write_trace_request (wire_sd_request m) = Ok m" if "(\<lambda>_. True) m" "valid_sd_request m"
    using that by (cases m) (simp add: encode_sd_write_trace_request_def decode_sd_write_trace_request_def wire_sd_request_def validate_sd_request_eq   codec_dec)
  show "decode_sd_write_trace_request p \<noteq> Panic"
    by (auto simp: encode_sd_write_trace_request_def decode_sd_write_trace_request_def wire_sd_request_def validate_sd_request_eq  codec_enc and_then_Panic_iff at_Panic_iff)
  show "(\<lambda>_. True) m \<and> valid_sd_request m \<and> p = wire_sd_request m" if "decode_sd_write_trace_request p = Ok m"
  proof -
    have "(\<lambda>_. True) m \<and> valid_sd_request m \<and> length p = 8 \<and> p = wire_sd_request m @ drop 8 p"
      using that by (auto simp: encode_sd_write_trace_request_def decode_sd_write_trace_request_def wire_sd_request_def validate_sd_request_eq   codec_only split: if_splits simp del: drop_all)
    then show ?thesis using fixed_tail by blast
  qed
qed

record SdWriteTraceRecord =
  sd_start_block :: u32
  sd_blocks :: u16
  sd_command :: u8
  sd_flags :: u8
  sd_command_setup_us :: u32
  sd_data_spi_us :: u32
  sd_busy_wait_us :: u32
  sd_total_us :: u32
  sd_gap_us :: u32
  sd_purpose :: SdSectorPurpose

text \<open>
  The response: \<open>get_record\<close> supplies the records and \<open>push\<close> takes them, with
  the state of the closure threaded.
\<close>

definition encode_sd_record :: "SdWriteTraceRecord \<Rightarrow> nat \<Rightarrow> bytes \<Rightarrow> (bytes, ProtocolError) res" where
  "encode_sd_record value at out =
    and_then (put out (at + 0) (to_le 4 (sd_start_block value))) (\<lambda>out.
    and_then (put out (at + 4) (to_le 2 (sd_blocks value))) (\<lambda>out.
    and_then (put out (at + 6) [sd_command value]) (\<lambda>out.
    and_then (put out (at + 7) [sd_flags value]) (\<lambda>out.
    and_then (put_fields (at + 8) 0 [sd_command_setup_us value, sd_data_spi_us value, sd_busy_wait_us value,
       sd_total_us value, sd_gap_us value] out) (\<lambda>out.
    and_then (put out (at + 28) [SdSectorPurpose_to_u8 (sd_purpose value)]) (\<lambda>out.
    put out (at + 29) [0, 0, 0]))))))"

fun encode_sd_records ::
    "(nat \<Rightarrow> (SdWriteTraceRecord, ProtocolError) res) \<Rightarrow> nat \<Rightarrow> nat \<Rightarrow> bytes \<Rightarrow> (bytes, ProtocolError) res" where
  "encode_sd_records get_record index 0 out = Ok out"
| "encode_sd_records get_record index (Suc k) out =
    and_then (get_record index) (\<lambda>value.
    let at = SD_WRITE_TRACE_RESPONSE_HEADER_BYTES + index * SD_WRITE_TRACE_RECORD_BYTES in
    and_then (encode_sd_record value at out) (\<lambda>out.
    encode_sd_records get_record (index + 1) k out))"

definition encode_sd_write_trace_response_with ::
    "u16 \<Rightarrow> u16 \<Rightarrow> u16 \<Rightarrow> bool \<Rightarrow> u32 \<Rightarrow> u16 \<Rightarrow> (nat \<Rightarrow> (SdWriteTraceRecord, ProtocolError) res) \<Rightarrow> bytes \<Rightarrow>
     (nat \<times> bytes, ProtocolError) res" where
  "encode_sd_write_trace_response_with total_records capacity start_index overflowed anomalies record_count get_record out =
    (if record_count > SD_WRITE_TRACE_MAX_PAGE_RECORDS \<or> start_index > total_records \<or>
        saturating_add start_index record_count > total_records
     then Err InvalidValue
     else
       let total = SD_WRITE_TRACE_RESPONSE_HEADER_BYTES + unat record_count * SD_WRITE_TRACE_RECORD_BYTES in
       if length out < total then Err OutputTooSmall
       else
         and_then (put out 0 [1]) (\<lambda>out.
         and_then (put out 1 [if overflowed then SD_WRITE_TRACE_FLAG_OVERFLOW else 0]) (\<lambda>out.
         and_then (put out 2 (to_le 2 total_records)) (\<lambda>out.
         and_then (put out 4 (to_le 2 capacity)) (\<lambda>out.
         and_then (put out 6 (to_le 2 start_index)) (\<lambda>out.
         and_then (put out 8 (to_le 2 record_count)) (\<lambda>out.
         and_then (put out 10 (to_le 4 anomalies)) (\<lambda>out.
         and_then (put out 14 [0, 0]) (\<lambda>out.
         and_then (encode_sd_records get_record 0 (unat record_count) out) (\<lambda>out.
         Ok (total, out)))))))))))"

definition encode_sd_write_trace_response ::
    "u16 \<Rightarrow> u16 \<Rightarrow> u16 \<Rightarrow> bool \<Rightarrow> u32 \<Rightarrow> SdWriteTraceRecord list \<Rightarrow> bytes \<Rightarrow> (nat \<times> bytes, ProtocolError) res" where
  "encode_sd_write_trace_response total_records capacity start_index overflowed anomalies records out =
    encode_sd_write_trace_response_with total_records capacity start_index overflowed anomalies
      (of_nat (length records))
      (\<lambda>index. if index < length records then Ok (records ! index) else Err InvalidValue) out"

definition decode_sd_record :: "bytes \<Rightarrow> (SdWriteTraceRecord, ProtocolError) res" where
  "decode_sd_record bytes =
    and_then (bytes_at bytes 29 3) (\<lambda>reserved.
    if reserved \<noteq> [0, 0, 0] then Err InvalidValue
    else and_then (u32_at bytes 0) (\<lambda>start_block.
    and_then (u16_at bytes 4) (\<lambda>blocks.
    and_then (byte_at bytes 6) (\<lambda>command.
    and_then (byte_at bytes 7) (\<lambda>flags.
    and_then (u32_at bytes 8) (\<lambda>setup.
    and_then (u32_at bytes 12) (\<lambda>spi.
    and_then (u32_at bytes 16) (\<lambda>busy.
    and_then (u32_at bytes 20) (\<lambda>total.
    and_then (u32_at bytes 24) (\<lambda>gap.
    and_then (byte_at bytes 28) (\<lambda>p.
    and_then (ok_or InvalidValue (SdSectorPurpose_from_u8 p)) (\<lambda>purpose.
    Ok \<lparr>sd_start_block = start_block, sd_blocks = blocks, sd_command = command, sd_flags = flags,
        sd_command_setup_us = setup, sd_data_spi_us = spi, sd_busy_wait_us = busy,
        sd_total_us = total, sd_gap_us = gap, sd_purpose = purpose\<rparr>))))))))))))"

fun decode_sd_records ::
    "bytes \<Rightarrow> ('s \<Rightarrow> SdWriteTraceRecord \<Rightarrow> ('s, ProtocolError) res) \<Rightarrow> nat \<Rightarrow> nat \<Rightarrow> 's \<Rightarrow> ('s, ProtocolError) res" where
  "decode_sd_records payload push index 0 s = Ok s"
| "decode_sd_records payload push index (Suc k) s =
    (let at = SD_WRITE_TRACE_RESPONSE_HEADER_BYTES + index * SD_WRITE_TRACE_RECORD_BYTES in
     and_then (bytes_at payload at SD_WRITE_TRACE_RECORD_BYTES) (\<lambda>bytes.
     and_then (decode_sd_record bytes) (\<lambda>record.
     and_then (push s record) (\<lambda>s.
     decode_sd_records payload push (index + 1) k s))))"

definition decode_sd_write_trace_response ::
    "bytes \<Rightarrow> ('s \<Rightarrow> SdWriteTraceRecord \<Rightarrow> ('s, ProtocolError) res) \<Rightarrow> 's \<Rightarrow>
     ((u16 \<times> u16 \<times> u16 \<times> u16 \<times> bool \<times> u32) \<times> 's, ProtocolError) res" where
  "decode_sd_write_trace_response payload push s =
    (if length payload < SD_WRITE_TRACE_RESPONSE_HEADER_BYTES then Err BadPayloadLength
     else and_then (byte_at payload 0) (\<lambda>version.
     if version \<noteq> 1 then Err BadPayloadLength
     else and_then (byte_at payload 1) (\<lambda>flags.
     and_then (byte_at payload 14) (\<lambda>r14.
     and_then (byte_at payload 15) (\<lambda>r15.
     if flags AND NOT SD_WRITE_TRACE_FLAG_OVERFLOW \<noteq> 0 \<or> r14 \<noteq> 0 \<or> r15 \<noteq> 0 then Err InvalidValue
     else and_then (u16_at payload 2) (\<lambda>total.
     and_then (u16_at payload 4) (\<lambda>capacity.
     and_then (u16_at payload 6) (\<lambda>start.
     and_then (u16_at payload 8) (\<lambda>count.
     and_then (u32_at payload 10) (\<lambda>anomalies.
     let expected = SD_WRITE_TRACE_RESPONSE_HEADER_BYTES + unat count * SD_WRITE_TRACE_RECORD_BYTES in
     if length payload \<noteq> expected \<or> start > total \<or> saturating_add start count > total
     then Err BadPayloadLength
     else and_then (decode_sd_records payload push 0 (unat count) s) (\<lambda>s.
     Ok ((total, capacity, start, count, flags \<noteq> 0, anomalies), s))))))))))))"

definition wire_sd_record :: "SdWriteTraceRecord \<Rightarrow> bytes" where
  "wire_sd_record m =
    to_le 4 (sd_start_block m) @ to_le 2 (sd_blocks m) @ [sd_command m, sd_flags m] @
    to_le 4 (sd_command_setup_us m) @ to_le 4 (sd_data_spi_us m) @ to_le 4 (sd_busy_wait_us m) @
    to_le 4 (sd_total_us m) @ to_le 4 (sd_gap_us m) @ [SdSectorPurpose_to_u8 (sd_purpose m), 0, 0, 0]"

lemma length_wire_sd_record [simp]: "length (wire_sd_record m) = 32"
  by (simp add: wire_sd_record_def)

definition wire_sd_records :: "SdWriteTraceRecord list \<Rightarrow> bytes" where
  "wire_sd_records records = concat (map wire_sd_record records)"

lemma wire_sd_records_simps [simp]:
  "wire_sd_records [] = []" "wire_sd_records (r # rs) = wire_sd_record r @ wire_sd_records rs"
  by (simp_all add: wire_sd_records_def)

lemma length_wire_sd_records [simp]: "length (wire_sd_records rs) = 32 * length rs"
  by (induction rs) simp_all

lemma encode_sd_record_eq:
  "at + 32 \<le> length out \<Longrightarrow> encode_sd_record r at out = Ok (overwrite out at (wire_sd_record r))"
  by (simp add: encode_sd_record_def wire_sd_record_def codec_enc put_fields_eq words_le_def)

lemma decode_sd_record_wire: "decode_sd_record (wire_sd_record r) = Ok r"
  by (cases r) (simp add: decode_sd_record_def wire_sd_record_def codec_dec)

lemma decode_sd_record_total: "length bytes = 32 \<Longrightarrow> decode_sd_record bytes \<noteq> Panic"
  by (auto simp: decode_sd_record_def codec_enc and_then_Panic_iff at_Panic_iff)

lemma encode_sd_records_eq:
  "(\<And>i. i < length rs \<Longrightarrow> get_record (index + i) = Ok (rs ! i)) \<Longrightarrow>
   16 + (index + length rs) * 32 \<le> length out \<Longrightarrow>
   encode_sd_records get_record index (length rs) out = Ok (overwrite out (16 + index * 32) (wire_sd_records rs))"
proof (induction rs arbitrary: index out)
  case (Cons r rs)
  let ?out = "overwrite out (16 + index * 32) (wire_sd_record r)"
  have first: "get_record index = Ok r" using Cons.prems(1)[of 0] by simp
  have rest: "get_record (index + 1 + i) = Ok (rs ! i)" if "i < length rs" for i
    using Cons.prems(1)[of "Suc i"] that by simp
  have "length ?out = length out" using Cons.prems(2) by (subst length_overwrite) simp_all
  then have "encode_sd_records get_record (index + 1) (length rs) ?out =
      Ok (overwrite ?out (16 + (index + 1) * 32) (wire_sd_records rs))"
    using Cons.prems(2) rest by (intro Cons.IH) auto
  then show ?case
    using Cons.prems(2) first by (simp add: encode_sd_record_eq overwrite_compose)
qed simp

lemma decode_sd_records_wire:
  "length xs = 16 + index * 32 \<Longrightarrow>
   decode_sd_records (xs @ wire_sd_records rs) (\<lambda>s r. Ok (s @ [r])) index (length rs) s = Ok (s @ rs)"
proof (induction rs arbitrary: xs index s)
  case (Cons r rs)
  have "decode_sd_records ((xs @ wire_sd_record r) @ wire_sd_records rs) (\<lambda>s r. Ok (s @ [r])) (index + 1)
      (length rs) (s @ [r]) = Ok ((s @ [r]) @ rs)"
    by (rule Cons.IH) (use Cons.prems in simp)
  moreover have "subslice (xs @ wire_sd_records (r # rs)) (16 + index * 32) 32 = wire_sd_record r"
    using Cons.prems by (simp add: subslice_def)
  ultimately show ?case
    using Cons.prems by (simp add: codec_enc decode_sd_record_wire)
qed simp

lemma decode_sd_records_total:
  "(\<And>s r. push s r \<noteq> Panic) \<Longrightarrow> 16 + (index + k) * 32 \<le> length payload \<Longrightarrow>
   decode_sd_records payload push index k s \<noteq> Panic"
proof (induction k arbitrary: index s)
  case (Suc k)
  then show ?case
    using decode_sd_record_total[of "subslice payload (16 + index * 32) 32"]
    by (auto simp: codec_enc and_then_Panic_iff)
qed simp

subsection \<open>Properties\<close>

text \<open>The 132-byte transfer snapshot with its 27 counters stored by a loop is decoded field by
  field to the snapshot that was encoded, and only such payloads are accepted.\<close>

theorem snapshot_exact:
  "(decode_transfer_trace_snapshot p = Ok m \<longleftrightarrow> valid_snapshot m \<and> p = wire_snapshot m) \<and>
   encode_transfer_trace_snapshot m out =
    (if \<not> valid_snapshot m then Err InvalidValue
     else if length out < 132 then Err OutputTooSmall
     else Ok (132, wire_snapshot m @ drop 132 out))"
  using snapshot.dec_iff[of p m] snapshot.enc_eq[of m out] by (simp add: wire_snapshot_def)

lemma stored_prefix:
  assumes "e = Ok (k, overwrite out 0 w)" and "dec w = r" and "length w = k"
  shows "\<exists>n out'. e = Ok (n, out') \<and> n = k \<and> drop n out' = drop n out \<and> dec (take n out') = r"
  using assms by (simp add: overwrite_start)

text \<open>A page of at most 127 SD write records that lies inside the trace is encoded, and the
  decoder delivers the header fields and exactly these records in order to its callback.\<close>

theorem sd_response_roundtrip:
  assumes "length rs \<le> 127" and "unat start + length rs \<le> unat total_n"
    and "16 + 32 * length rs \<le> length out"
  shows "\<exists>n out'. encode_sd_write_trace_response total_n cap start ovf anomalies rs out = Ok (n, out') \<and>
    n = 16 + 32 * length rs \<and> drop n out' = drop n out \<and>
    decode_sd_write_trace_response (take n out') (\<lambda>s r. Ok (s @ [r])) [] =
      Ok ((total_n, cap, start, of_nat (length rs), ovf, anomalies), rs)"
proof -
  let ?hdr = "[1, if ovf then 1 else 0] @ to_le 2 total_n @ to_le 2 cap @ to_le 2 start @
    to_le 2 (of_nat (length rs) :: u16) @ to_le 4 anomalies @ [0, 0]"
  have n: "unat (of_nat (length rs) :: u16) = length rs" using assms(1) by simp
  have small: "\<not> (127 :: u16) < of_nat (length rs)" using n assms(1) by (simp add: word_less_nat_alt)
  have inside: "\<not> total_n < start" using assms(2) by (simp add: word_less_nat_alt)
  have "unat (saturating_add start (of_nat (length rs) :: u16)) \<le> unat total_n"
    using assms(2) n by (simp add: unat_saturating_add)
  then have range: "\<not> total_n < saturating_add start (of_nat (length rs))" by (simp add: word_less_nat_alt)
  have "encode_sd_write_trace_response total_n cap start ovf anomalies rs out =
      Ok (16 + 32 * length rs, overwrite out 0 (?hdr @ wire_sd_records rs))"
    using assms n small inside range
    by (simp add: encode_sd_write_trace_response_def encode_sd_write_trace_response_with_def codec_enc
        encode_sd_records_eq)
  moreover have "decode_sd_write_trace_response (?hdr @ wire_sd_records rs) (\<lambda>s r. Ok (s @ [r])) [] =
      Ok ((total_n, cap, start, of_nat (length rs), ovf, anomalies), rs)"
    using n small inside range decode_sd_records_wire[of ?hdr 0 rs "[]"]
    by (simp add: decode_sd_write_trace_response_def codec_dec)
  moreover have "length (?hdr @ wire_sd_records rs) = 16 + 32 * length rs" by simp
  ultimately show ?thesis
    by (rule stored_prefix[where dec = "\<lambda>p. decode_sd_write_trace_response p (\<lambda>s r. Ok (s @ [r])) []"])
qed

definition sample_sd_record :: SdWriteTraceRecord where
  "sample_sd_record = \<lparr>sd_start_block = 9, sd_blocks = 1, sd_command = 24, sd_flags = 0, sd_command_setup_us = 1,
    sd_data_spi_us = 2, sd_busy_wait_us = 3, sd_total_us = 6, sd_gap_us = 0, sd_purpose = Sp_Fat0\<rparr>"

lemma sd_response_roundtrip_witness:
  "\<exists>n out'. encode_sd_write_trace_response 5 8 2 True 0 [sample_sd_record] (replicate 60 0) = Ok (n, out') \<and>
    n = 16 + 32 * length [sample_sd_record] \<and> drop n out' = drop n (replicate 60 0) \<and>
    decode_sd_write_trace_response (take n out') (\<lambda>s r. Ok (s @ [r])) [] =
      Ok ((5, 8, 2, of_nat (length [sample_sd_record]), True, 0), [sample_sd_record])"
  by (rule sd_response_roundtrip) simp_all

text \<open>The decoder of SD write traces is total: on arbitrary bytes and with any callback that does
  not panic it returns a value or an error.\<close>

theorem sd_decoder_total:
  assumes "\<And>s r. push s r \<noteq> Panic"
  shows "decode_sd_write_trace_response payload push s \<noteq> Panic"
  using decode_sd_records_total[of push 0 _ payload] assms
  by (auto simp: decode_sd_write_trace_response_def codec_enc and_then_Panic_iff at_Panic_iff)

lemma sd_decoder_total_witness:
  "decode_sd_write_trace_response [1, 2, 3] (\<lambda>s r. if length s < 4 then Ok (r # s) else Err OutputTooSmall) [] \<noteq> Panic"
  by (rule sd_decoder_total) simp

end
