(* ===== verification/PackBits.thy ===== *)
theory PackBits
  imports Prelude
begin

text \<open>
  The PackBits run-length codec of the page images: the encoder of
  \<^verbatim>\<open>binbook-compress/src/packbits.rs\<close> and the streaming decoder of
  \<^verbatim>\<open>binbook-decompress/src/packbits.rs\<close>, with the dispatch of
  \<^verbatim>\<open>binbook-decompress/src/lib.rs\<close> and \<^verbatim>\<open>lz4.rs\<close>.
  \<open>unpack\<close> is the format itself, on lists.
\<close>

subsection \<open>The encoder\<close>

definition MAX_RUN :: nat where [simp]: "MAX_RUN = 128"

datatype EncodeError = BufferTooSmall (required: nat) (provided: nat)

datatype RunKind = Literal | Repeat

record Run =
  run_kind :: RunKind
  run_length :: nat

text \<open>The guard \<open>length < available\<close> keeps the index inside the input.\<close>

function repeat_loop :: "bytes \<Rightarrow> nat \<Rightarrow> u8 \<Rightarrow> nat \<Rightarrow> nat \<Rightarrow> nat" where
  "repeat_loop input offset value available len =
    (if len < MAX_RUN \<and> len < available \<and> input ! (offset + len) = value
     then repeat_loop input offset value available (len + 1) else len)"
  by pat_completeness auto
termination by (relation "measure (\<lambda>(inp, off, v, av, len). av - len)") auto

definition repeat_length :: "bytes \<Rightarrow> nat \<Rightarrow> nat" where
  "repeat_length input offset =
    (if offset < length input
     then repeat_loop input offset (input ! offset) (length input - offset) 1 else 0)"

function literal_loop :: "bytes \<Rightarrow> nat \<Rightarrow> nat \<Rightarrow> nat" where
  "literal_loop input offset len =
    (if len < MAX_RUN \<and> offset + len < length input then
       (if repeat_length input (offset + len) \<ge> 2 then len
        else literal_loop input offset (len + 1))
     else len)"
  by pat_completeness auto
termination by (relation "measure (\<lambda>(inp, off, len). MAX_RUN - len)") auto

definition next_run :: "bytes \<Rightarrow> nat \<Rightarrow> Run" where
  "next_run input offset =
    (let repeat = repeat_length input offset in
     if repeat \<ge> 2 then \<lparr>run_kind = Repeat, run_length = repeat\<rparr>
     else \<lparr>run_kind = Literal, run_length = literal_loop input offset 1\<rparr>)"

declare repeat_loop.simps [simp del] literal_loop.simps [simp del]

lemma repeat_loop_spec:
  assumes "len \<le> MAX_RUN" and "len \<le> available"
    and "\<And>j. j < len \<Longrightarrow> input ! (offset + j) = v"
  shows "let n = repeat_loop input offset v available len in
    len \<le> n \<and> n \<le> MAX_RUN \<and> n \<le> available \<and> (\<forall>j < n. input ! (offset + j) = v)"
  using assms
proof (induction input offset v available len rule: repeat_loop.induct)
  case (1 input offset v available len)
  show ?case
  proof (cases "len < MAX_RUN \<and> len < available \<and> input ! (offset + len) = v")
    case True
    then have "\<And>j. j < len + 1 \<Longrightarrow> input ! (offset + j) = v"
      using "1.prems"(3) by (auto simp: less_Suc_eq)
    with True "1.IH" have "let n = repeat_loop input offset v available (len + 1) in
        len + 1 \<le> n \<and> n \<le> MAX_RUN \<and> n \<le> available \<and> (\<forall>j < n. input ! (offset + j) = v)"
      by auto
    then show ?thesis
      using True by (simp add: repeat_loop.simps[of input offset v available len] Let_def)
  next
    case False
    then show ?thesis
      using "1.prems" by (auto simp: repeat_loop.simps[of input offset v available len] Let_def)
  qed
qed

lemma repeat_length_spec:
  assumes "offset < length input"
  shows "1 \<le> repeat_length input offset" and "repeat_length input offset \<le> MAX_RUN"
    and "offset + repeat_length input offset \<le> length input"
    and "j < repeat_length input offset \<Longrightarrow> input ! (offset + j) = input ! offset"
proof -
  have "let n = repeat_length input offset in 1 \<le> n \<and> n \<le> MAX_RUN \<and> n \<le> length input - offset \<and>
      (\<forall>j < n. input ! (offset + j) = input ! offset)"
    using repeat_loop_spec[of 1 "length input - offset" input offset "input ! offset"] assms
    by (simp add: repeat_length_def Suc_le_eq)
  then show "1 \<le> repeat_length input offset" "repeat_length input offset \<le> MAX_RUN"
    "offset + repeat_length input offset \<le> length input"
    "j < repeat_length input offset \<Longrightarrow> input ! (offset + j) = input ! offset"
    using assms by (auto simp: Let_def)
qed

lemma literal_loop_spec:
  assumes "len \<le> MAX_RUN" and "offset + len \<le> length input"
  shows "let n = literal_loop input offset len in
    len \<le> n \<and> n \<le> MAX_RUN \<and> offset + n \<le> length input \<and>
    (n = MAX_RUN \<or> offset + n = length input \<or> 2 \<le> repeat_length input (offset + n))"
  using assms
proof (induction input offset len rule: literal_loop.induct)
  case (1 input offset len)
  then show ?case
    by (cases "len < MAX_RUN \<and> offset + len < length input")
      (auto simp: literal_loop.simps[of input offset len] Let_def)
qed

lemma next_run_cases:
  assumes "offset < length input"
  obtains (repeat) n where "next_run input offset = \<lparr>run_kind = Repeat, run_length = n\<rparr>"
      and "2 \<le> n" and "n \<le> 128" and "offset + n \<le> length input"
      and "take n (drop offset input) = replicate n (input ! offset)"
  | (literal) n where "next_run input offset = \<lparr>run_kind = Literal, run_length = n\<rparr>"
      and "1 \<le> n" and "n \<le> 128" and "offset + n \<le> length input"
      and "n = 128 \<or> offset + n = length input \<or>
        run_kind (next_run input (offset + n)) = Repeat \<and> offset + n < length input"
proof (cases "2 \<le> repeat_length input offset")
  case True
  have "take (repeat_length input offset) (drop offset input) =
      replicate (repeat_length input offset) (input ! offset)"
    using repeat_length_spec[OF assms] by (intro nth_equalityI) auto
  then show ?thesis
    using True repeat_length_spec[OF assms] repeat[of "repeat_length input offset"]
    by (simp add: next_run_def Let_def)
next
  case False
  have "offset + n < length input" if "2 \<le> repeat_length input (offset + n)" for n
    using that by (auto simp: repeat_length_def split: if_splits)
  then show ?thesis
    using False assms literal_loop_spec[of 1 offset input] literal[of "literal_loop input offset 1"]
    by (auto simp: next_run_def Let_def)
qed

lemma next_run_pos: "offset < length input \<Longrightarrow> 1 \<le> run_length (next_run input offset)"
  by (erule next_run_cases) auto

text \<open>
  \<open>1 + payload\<close> cannot saturate: the sum is at most twice the input.
\<close>

function encoded_len_loop :: "bytes \<Rightarrow> nat \<Rightarrow> nat \<Rightarrow> nat" where
  "encoded_len_loop input input_offset output_length =
    (if input_offset < length input then
       let run = next_run input input_offset;
           payload = (case run_kind run of Literal \<Rightarrow> run_length run | Repeat \<Rightarrow> 1)
       in encoded_len_loop input (input_offset + run_length run) (output_length + (1 + payload))
     else output_length)"
  by pat_completeness auto
termination
  by (relation "measure (\<lambda>(inp, i, n). length inp - i)") (use next_run_pos in \<open>force simp: Suc_le_eq\<close>)+

definition encoded_len :: "bytes \<Rightarrow> nat" where
  "encoded_len input = encoded_len_loop input 0 0"

function encode_runs_loop :: "bytes \<Rightarrow> bytes \<Rightarrow> nat \<Rightarrow> nat \<Rightarrow> (nat \<times> bytes, EncodeError) res" where
  "encode_runs_loop input output input_offset output_offset =
    (if input_offset < length input then
       let run = next_run input input_offset in
       (case run_kind run of
          Literal \<Rightarrow>
            and_then (put output output_offset [of_nat (run_length run - 1)]) (\<lambda>output.
            let output_offset = output_offset + 1 in
            and_then (bytes_at input input_offset (run_length run)) (\<lambda>bytes.
            and_then (put output output_offset bytes) (\<lambda>output.
            encode_runs_loop input output (input_offset + run_length run) (output_offset + run_length run))))
        | Repeat \<Rightarrow>
            and_then (put output output_offset [0x80 OR of_nat (run_length run - 1)]) (\<lambda>output.
            and_then (put output (output_offset + 1) [input ! input_offset]) (\<lambda>output.
            encode_runs_loop input output (input_offset + run_length run) (output_offset + 2))))
     else Ok (output_offset, output))"
  by pat_completeness auto
termination
  by (relation "measure (\<lambda>(inp, out, i, n). length inp - i)") (use next_run_pos in \<open>force simp: Suc_le_eq\<close>)+

definition encode_runs :: "bytes \<Rightarrow> bytes \<Rightarrow> (nat \<times> bytes, EncodeError) res" where
  "encode_runs input output = encode_runs_loop input output 0 0"

definition encode_into :: "bytes \<Rightarrow> bytes \<Rightarrow> (nat \<times> bytes, EncodeError) res" where
  "encode_into input output =
    (let required = encoded_len input in
     if length output < required then Err (BufferTooSmall required (length output))
     else encode_runs input output)"

definition encode :: "bytes \<Rightarrow> (bytes, EncodeError) res" where
  "encode input =
    and_then (encode_runs input (replicate (encoded_len input) 0)) (\<lambda>(n, output). Ok output)"

declare encoded_len_loop.simps [simp del] encode_runs_loop.simps [simp del]

subsection \<open>The format\<close>

definition prepend :: "bytes \<Rightarrow> bytes option \<Rightarrow> bytes option" where
  "prepend xs m = map_option (\<lambda>tl. xs @ tl) m"

lemma prepend_simps [simp]: "prepend [] m = m" "prepend xs (prepend ys m) = prepend (xs @ ys) m"
  "prepend xs None = None" "prepend xs (Some ys) = Some (xs @ ys)"
  by (cases m; simp add: prepend_def)+

function unpack :: "bytes \<Rightarrow> bytes option" where
  "unpack [] = Some []"
| "unpack (c # rest) =
    (if c \<le> 127 then
       (if length rest < unat c + 1 then None
        else prepend (take (unat c + 1) rest) (unpack (drop (unat c + 1) rest)))
     else
       (if rest = [] then None
        else prepend (replicate (unat (c AND 0x7F) + 1) (hd rest)) (unpack (tl rest))))"
  by pat_completeness auto
termination by (relation "measure length") auto

text \<open>The encoder's output as a list, from an offset of the input.\<close>

function pack :: "bytes \<Rightarrow> nat \<Rightarrow> bytes" where
  "pack input i =
    (if i < length input then
       let run = next_run input i; n = run_length run in
       (case run_kind run of
          Literal \<Rightarrow> of_nat (n - 1) # take n (drop i input)
        | Repeat \<Rightarrow> [0x80 OR of_nat (n - 1), input ! i]) @ pack input (i + n)
     else [])"
  by pat_completeness auto
termination
  by (relation "measure (\<lambda>(inp, i). length inp - i)") (use next_run_pos in \<open>force simp: Suc_le_eq\<close>)+

declare pack.simps [simp del] unpack.simps(2) [simp del]

lemma repeat_control: "n < 128 \<Longrightarrow>
  \<not> 0x80 OR of_nat n \<le> (127 :: u8) \<and> unat ((0x80 OR of_nat n) AND 0x7F :: u8) = n"
proof -
  have "list_all (\<lambda>n. \<not> 0x80 OR of_nat n \<le> (127 :: u8) \<and> unat ((0x80 OR of_nat n) AND 0x7F :: u8) = n) [0..<128]"
    by code_simp
  then show "n < 128 \<Longrightarrow> ?thesis" by (simp add: list_all_iff)
qed

lemma literal_control: "n < 128 \<Longrightarrow> of_nat n \<le> (127 :: u8) \<and> unat (of_nat n :: u8) = n"
  by (simp add: word_le_nat_alt unat_of_nat)

lemma unpack_literal:
  assumes "length xs = n" and "1 \<le> n" and "n \<le> 128"
  shows "unpack (of_nat (n - 1) # xs @ rest) = prepend xs (unpack rest)"
  using literal_control[of "n - 1"] assms by (simp add: unpack.simps(2))

lemma unpack_repeat:
  assumes "1 \<le> n" and "n \<le> 128"
  shows "unpack ((0x80 OR of_nat (n - 1)) # v # rest) = prepend (replicate n v) (unpack rest)"
  using repeat_control[of "n - 1"] assms by (simp add: unpack.simps(2))

lemma encoded_len_loop_eq: "encoded_len_loop input i n = n + length (pack input i)"
proof (induction input i arbitrary: n rule: pack.induct)
  case (1 input i)
  show ?case
  proof (cases "i < length input")
    case True
    note IH = "1.IH"[OF True refl refl]
    from True show ?thesis
      by (rule next_run_cases)
        (use True IH in \<open>simp_all add: encoded_len_loop.simps[of input i] pack.simps[of input i] Let_def\<close>)
  qed (simp add: encoded_len_loop.simps[of input i] pack.simps[of input i])
qed

lemma encoded_len_eq: "encoded_len input = length (pack input 0)"
  by (simp add: encoded_len_def encoded_len_loop_eq)

lemma encode_runs_loop_eq:
  "k + length (pack input i) \<le> length out \<Longrightarrow>
   encode_runs_loop input out i k = Ok (k + length (pack input i), overwrite out k (pack input i))"
proof (induction input i arbitrary: out k rule: pack.induct)
  case (1 input i)
  show ?case
  proof (cases "i < length input")
    case True
    note IH = "1.IH"[OF True refl refl]
    from True show ?thesis
    proof (rule next_run_cases)
      fix n
      assume run: "next_run input i = \<lparr>run_kind = Repeat, run_length = n\<rparr>" and n: "i + n \<le> length input"
      have pack: "pack input i = [0x80 OR of_nat (n - 1), input ! i] @ pack input (i + n)"
        using run True by (simp add: pack.simps[of input i])
      have room: "k + (2 + length (pack input (i + n))) \<le> length out" using "1.prems" pack by simp
      define out' where "out' = overwrite (overwrite out k [0x80 OR of_nat (n - 1)]) (k + 1) [input ! i]"
      have "length out' = length out" using room by (simp add: out'_def length_overwrite)
      then have "encode_runs_loop input out' (i + n) (k + 2) =
          Ok (k + 2 + length (pack input (i + n)), overwrite out' (k + 2) (pack input (i + n)))"
        using IH[of "k + 2" out'] room run by simp
      moreover have "encode_runs_loop input out i k = encode_runs_loop input out' (i + n) (k + 2)"
        using True run room
        by (simp add: encode_runs_loop.simps[of input out i] put_def length_overwrite out'_def)
      ultimately show ?thesis
        using room by (simp add: pack out'_def overwrite_compose)
    next
      fix n
      assume run: "next_run input i = \<lparr>run_kind = Literal, run_length = n\<rparr>" and n: "i + n \<le> length input"
        "1 \<le> n"
      let ?bs = "subslice input i n"
      have pack: "pack input i = [of_nat (n - 1)] @ ?bs @ pack input (i + n)"
        using run True by (simp add: pack.simps[of input i] subslice_def)
      have lbs: "length ?bs = n" using n by simp
      have room: "k + (1 + n + length (pack input (i + n))) \<le> length out"
        using "1.prems" pack lbs by simp
      define out' where "out' = overwrite (overwrite out k [of_nat (n - 1)]) (k + 1) ?bs"
      have "length out' = length out" using room lbs by (simp add: out'_def length_overwrite)
      then have "encode_runs_loop input out' (i + n) (k + 1 + n) =
          Ok (k + 1 + n + length (pack input (i + n)), overwrite out' (k + 1 + n) (pack input (i + n)))"
        using IH[of "k + 1 + n" out'] room run by simp
      moreover have "encode_runs_loop input out i k = encode_runs_loop input out' (i + n) (k + 1 + n)"
        using True run room n lbs
        by (simp add: encode_runs_loop.simps[of input out i] put_def bytes_at_def length_overwrite out'_def Let_def)
      ultimately show ?thesis
        using room lbs by (simp add: pack out'_def overwrite_compose)
    qed
  qed (simp add: encode_runs_loop.simps[of input out i] pack.simps[of input i])
qed

lemma encode_into_eq:
  "encode_into input out =
    (if length out < length (pack input 0) then Err (BufferTooSmall (length (pack input 0)) (length out))
     else Ok (length (pack input 0), pack input 0 @ drop (length (pack input 0)) out))"
  using encode_runs_loop_eq[of 0 input 0 out]
  by (simp add: encode_into_def encoded_len_eq encode_runs_def Let_def overwrite_start)

lemma unpack_pack: "unpack (pack input i) = Some (drop i input)"
proof (induction input i rule: pack.induct)
  case (1 input i)
  show ?case
  proof (cases "i < length input")
    case True
    note IH = "1.IH"[OF True refl refl]
    have split: "drop i input = take n (drop i input) @ drop (i + n) input" for n
      by (metis add.commute append_take_drop_id drop_drop)
    from True show ?thesis
    proof (rule next_run_cases)
      fix n
      assume run: "next_run input i = \<lparr>run_kind = Repeat, run_length = n\<rparr>" and n: "2 \<le> n" "n \<le> 128"
        and rep: "take n (drop i input) = replicate n (input ! i)"
      have "pack input i = (0x80 OR of_nat (n - 1)) # input ! i # pack input (i + n)"
        using run True by (simp add: pack.simps[of input i])
      then show ?thesis
        using IH run n unpack_repeat[of n "input ! i"] split[of n] rep by simp
    next
      fix n
      assume run: "next_run input i = \<lparr>run_kind = Literal, run_length = n\<rparr>" and n: "1 \<le> n" "n \<le> 128"
        "i + n \<le> length input"
      have "pack input i = of_nat (n - 1) # take n (drop i input) @ pack input (i + n)"
        using run True by (simp add: pack.simps[of input i])
      then show ?thesis
        using IH run n unpack_literal[of "take n (drop i input)" n] split[of n] by simp
    qed
  qed (simp add: pack.simps[of input i])
qed

text \<open>
  A literal run that ends early is followed by a repeat run, which pays for its control byte.
\<close>

lemma length_pack:
  "3 * length (pack input i) \<le> 4 * (length input - i) + 2 \<and>
   (i < length input \<and> run_kind (next_run input i) = Repeat \<longrightarrow>
    3 * length (pack input i) \<le> 4 * (length input - i))"
proof (induction input i rule: pack.induct)
  case (1 input i)
  show ?case
  proof (cases "i < length input")
    case True
    note IH = "1.IH"[OF True refl refl]
    from True show ?thesis
    proof (rule next_run_cases)
      fix n
      assume run: "next_run input i = \<lparr>run_kind = Repeat, run_length = n\<rparr>" and n: "2 \<le> n" "i + n \<le> length input"
      have "length (pack input i) = 2 + length (pack input (i + n))"
        using run True by (simp add: pack.simps[of input i])
      then show ?thesis using IH run n by auto
    next
      fix n
      assume run: "next_run input i = \<lparr>run_kind = Literal, run_length = n\<rparr>" and n: "1 \<le> n" "i + n \<le> length input"
        and after: "n = 128 \<or> i + n = length input \<or>
          run_kind (next_run input (i + n)) = Repeat \<and> i + n < length input"
      have len: "length (pack input i) = 1 + n + length (pack input (i + n))"
        using run True n by (simp add: pack.simps[of input i])
      have "pack input (i + n) = []" if "i + n = length input"
        using that by (simp add: pack.simps[of input "length input"])
      then show ?thesis using IH run n after len by auto
    qed
  qed (simp add: pack.simps[of input i])
qed

end
