(* ===== verification/PackBits_Decode.thy ===== *)
theory PackBits_Decode imports PackBits begin

text \<open>
  The PackBits decoder of \<open>crates/binbook-decompress/src/packbits.rs\<close> and the dispatch of
  \<open>crates/binbook-decompress/src/lib.rs\<close>.  The streaming decoder keeps the open run between calls;
  its loop is related to the list function \<open>unpack\<close> of theory \<open>PackBits\<close>.
\<close>

subsection \<open>The streaming decoder\<close>

datatype DecodeError = MalformedRun | OutputTooShort (expected: nat) (actual: nat)
  | OutputTooLong nat | Lz4Disabled | Lz4Failure

datatype PackBitsRun = RunLiteral u8 | RunRepeatValue u8 | RunRepeat u8 u8

text \<open>The decoder's state is its open run.  \<open>remaining_run\<close> is the run left after \<open>consumed\<close>
  bytes of it; \<open>build\<close> is the constructor.\<close>

definition remaining_run :: "u8 \<Rightarrow> nat \<Rightarrow> (u8 \<Rightarrow> PackBitsRun) \<Rightarrow> PackBitsRun option" where
  "remaining_run remaining consumed build =
    (if consumed > 255 \<or> unat remaining < consumed then None
     else let left = remaining - of_nat consumed in if left > 0 then Some (build left) else None)"

lemma put_Ok_length: "put out i bs = Ok out' \<Longrightarrow> length out' = length out"
  by (auto simp: put_def length_overwrite split: if_splits)

text \<open>
  The loop of \<open>PackBitsDecoder::decode\<close>.  Its result is the run, the two counters of
  \<open>DecodeProgress\<close> and the output slice.
\<close>

function decode_loop ::
    "PackBitsRun option \<Rightarrow> bytes \<Rightarrow> bytes \<Rightarrow> nat \<Rightarrow> nat \<Rightarrow>
     (PackBitsRun option \<times> nat \<times> nat \<times> bytes, DecodeError) res" where
  "decode_loop run input output consumed produced =
    (if produced < length output then
       (case run of
          None \<Rightarrow>
            if consumed < length input then
              let control = input ! consumed; consumed = consumed + 1;
                  run = (if control \<le> 127 then Some (RunLiteral (control + 1))
                         else Some (RunRepeatValue ((control AND 0x7F) + 1)))
              in decode_loop run input output consumed produced
            else Ok (run, consumed, produced, output)
        | Some (RunLiteral remaining) \<Rightarrow>
            let available_input = length input - consumed in
            if available_input = 0 then Ok (run, consumed, produced, output)
            else
              let count = min (min (unat remaining) available_input) (length output - produced) in
              and_then (bytes_at input consumed count) (\<lambda>bytes.
              and_then (put output produced bytes) (\<lambda>output.
              decode_loop (remaining_run remaining count RunLiteral) input output
                (consumed + count) (produced + count)))
        | Some (RunRepeatValue remaining) \<Rightarrow>
            if consumed < length input then
              decode_loop (Some (RunRepeat (input ! consumed) remaining)) input output (consumed + 1) produced
            else Ok (run, consumed, produced, output)
        | Some (RunRepeat v remaining) \<Rightarrow>
            let count = min (unat remaining) (length output - produced) in
            and_then (put output produced (replicate count v)) (\<lambda>output.
            decode_loop (remaining_run remaining count (RunRepeat v)) input output
              consumed (produced + count)))
     else Ok (run, consumed, produced, output))"
  by pat_completeness auto

lemma remaining_run_0: "remaining_run 0 n build = None"
  by (simp add: remaining_run_def)

fun run_weight :: "PackBitsRun option \<Rightarrow> nat" where
  "run_weight None = 0"
| "run_weight (Some (RunRepeatValue _)) = 2"
| "run_weight (Some _) = 1"

lemma run_weight_le: "run_weight run \<le> 2"
  by (cases run rule: run_weight.cases) simp_all

lemma run_weight_remaining: "unat remaining = 0 \<Longrightarrow> run_weight (remaining_run remaining n build) = 0"
  by (simp add: unat_eq_0 remaining_run_0)

termination decode_loop
proof (relation "measure (\<lambda>(run, inp, out, c, p). 3 * (length inp - c) + 3 * (length out - p) + run_weight run)",
    goal_cases)
  case (3 run inp out c p ra remaining avail count bytes out')
  then have "length out' = length out" using put_Ok_length by blast
  moreover have "count = min (min (unat remaining) (length inp - c)) (length out - p)"
    "0 < length inp - c" "0 < length out - p"
    using 3 by simp_all
  then have "count \<le> length inp - c \<and> count \<le> length out - p \<and> (count = 0 \<longleftrightarrow> unat remaining = 0)"
    by linarith
  ultimately have "3 * (length inp - (c + count)) + 3 * (length out' - (p + count)) +
      run_weight (remaining_run remaining count RunLiteral) < 3 * (length inp - c) + 3 * (length out - p) + 1"
    using run_weight_le[of "remaining_run remaining count RunLiteral"] run_weight_remaining[of remaining count RunLiteral]
    by (cases "count = 0") auto
  with 3(2,3) show ?case by simp
next
  case (5 run inp out c p ra v remaining count out')
  then have "length out' = length out" using put_Ok_length by blast
  moreover have "count \<le> length out - p" "count = 0 \<longleftrightarrow> unat remaining = 0"
    using 5 by auto
  ultimately have "3 * (length inp - c) + 3 * (length out' - (p + count)) +
      run_weight (remaining_run remaining count (RunRepeat v)) < 3 * (length inp - c) + 3 * (length out - p) + 1"
    using run_weight_le[of "remaining_run remaining count (RunRepeat v)"]
      run_weight_remaining[of remaining count "RunRepeat v"]
    by (cases "count = 0") auto
  with 5(2,3) show ?case by simp
qed auto

declare decode_loop.simps [simp del]

lemma unat_minus_of_nat: "n \<le> unat (w :: u8) \<Longrightarrow> unat (w - of_nat n) = unat w - n"
proof -
  assume n: "n \<le> unat w"
  then have "n < 256" using unat_u8_less[of w] by simp
  then have "unat (of_nat n :: u8) = n" by (simp add: unat_of_nat)
  with n show ?thesis by (simp add: unat_sub word_le_nat_alt)
qed

lemma remaining_run_eq:
  assumes "count \<le> unat remaining"
  shows "remaining_run remaining count build =
    (if count = unat remaining then None else Some (build (remaining - of_nat count)))"
proof -
  have "count \<le> 255" using assms unat_u8_less[of remaining] by simp
  moreover have "remaining - of_nat count > 0 \<longleftrightarrow> count \<noteq> unat remaining"
    using unat_minus_of_nat[OF assms] assms by (auto simp: word_less_nat_alt)
  ultimately show ?thesis using assms by (simp add: remaining_run_def Let_def)
qed

text \<open>An open run has at least one byte left.  Its remaining output on the rest of the input:\<close>

fun run_ok :: "PackBitsRun option \<Rightarrow> bool" where
  "run_ok None = True"
| "run_ok (Some (RunLiteral r)) = (0 < unat r)"
| "run_ok (Some (RunRepeatValue r)) = (0 < unat r)"
| "run_ok (Some (RunRepeat v r)) = (0 < unat r)"

fun unpack_from :: "PackBitsRun option \<Rightarrow> bytes \<Rightarrow> bytes option" where
  "unpack_from None inp = unpack inp"
| "unpack_from (Some (RunLiteral r)) inp =
    (if length inp < unat r then None
     else prepend (take (unat r) inp) (unpack (drop (unat r) inp)))"
| "unpack_from (Some (RunRepeatValue r)) inp =
    (if inp = [] then None
     else prepend (replicate (unat r) (hd inp)) (unpack (tl inp)))"
| "unpack_from (Some (RunRepeat v r)) inp = prepend (replicate (unat r) v) (unpack inp)"

fun is_repeat :: "PackBitsRun option \<Rightarrow> bool" where
  "is_repeat (Some (RunRepeat v r)) = True"
| "is_repeat _ = False"

text \<open>
  What a call of the loop does: it writes \<open>bs\<close> at \<open>p\<close>, and \<open>bs\<close> followed by what its final run
  and the rest of the input stand for is what the initial run and input stand for, whatever
  input is still to come later.  It stops
  before the output is full only at the end of the input.
\<close>

definition decodes :: "PackBitsRun option \<Rightarrow> bytes \<Rightarrow> bytes \<Rightarrow> nat \<Rightarrow> nat \<Rightarrow> bool" where
  "decodes run inp out c p \<longleftrightarrow>
    (\<exists>run' c' bs. decode_loop run inp out c p = Ok (run', c', p + length bs, overwrite out p bs) \<and>
      p + length bs \<le> length out \<and> c \<le> c' \<and> c' \<le> length inp \<and> run_ok run' \<and>
      (\<forall>later. unpack_from run (drop c inp @ later) = prepend bs (unpack_from run' (drop c' inp @ later))) \<and>
      (p + length bs < length out \<longrightarrow> c' = length inp \<and> \<not> is_repeat run'))"

lemma decodes_step:
  assumes "decodes run1 inp (overwrite out p xs) c1 (p + length xs)"
    and "decode_loop run inp out c p = decode_loop run1 inp (overwrite out p xs) c1 (p + length xs)"
    and "p + length xs \<le> length out" and "c \<le> c1"
    and "\<And>later. unpack_from run (drop c inp @ later) = prepend xs (unpack_from run1 (drop c1 inp @ later))"
  shows "decodes run inp out c p"
proof -
  have len: "length (overwrite out p xs) = length out" using assms(3) by (simp add: length_overwrite)
  from assms(1) obtain run' c' bs where
    r: "decode_loop run1 inp (overwrite out p xs) c1 (p + length xs) =
      Ok (run', c', p + length xs + length bs, overwrite (overwrite out p xs) (p + length xs) bs)"
    and b: "p + length xs + length bs \<le> length out" "c1 \<le> c'" "c' \<le> length inp" "run_ok run'"
    and u: "\<forall>later. unpack_from run1 (drop c1 inp @ later) = prepend bs (unpack_from run' (drop c' inp @ later))"
    and stop: "p + length xs + length bs < length out \<longrightarrow> c' = length inp \<and> \<not> is_repeat run'"
    unfolding decodes_def len by blast
  have "decode_loop run inp out c p = Ok (run', c', p + length (xs @ bs), overwrite out p (xs @ bs))"
    using assms(2) r b(1) by (simp add: overwrite_compose add.assoc)
  then show ?thesis
    unfolding decodes_def using b u stop assms(4,5)
    by (intro exI[of _ run'] exI[of _ c'] exI[of _ "xs @ bs"])
      auto
qed

lemma decodes_skip:
  "decodes run1 inp out c1 p \<Longrightarrow> decode_loop run inp out c p = decode_loop run1 inp out c1 p \<Longrightarrow>
   p \<le> length out \<Longrightarrow> c \<le> c1 \<Longrightarrow>
   (\<And>later. unpack_from run (drop c inp @ later) = unpack_from run1 (drop c1 inp @ later)) \<Longrightarrow> decodes run inp out c p"
  using decodes_step[of run1 inp out p "[]" c1 run c] by simp

lemma decodes_advance:
  "decodes run1 inp (overwrite out p xs) c1 (p + k) \<Longrightarrow> length xs = k \<Longrightarrow>
   decode_loop run inp out c p = decode_loop run1 inp (overwrite out p xs) c1 (p + k) \<Longrightarrow>
   p + k \<le> length out \<Longrightarrow> c \<le> c1 \<Longrightarrow>
   (\<And>later. unpack_from run (drop c inp @ later) = prepend xs (unpack_from run1 (drop c1 inp @ later))) \<Longrightarrow>
   decodes run inp out c p"
  using decodes_step[of run1 inp out p xs c1 run c] by simp

lemma decodes_stop:
  assumes "decode_loop run inp out c p = Ok (run, c, p, out)" and "c \<le> length inp" and "p \<le> length out"
    and "run_ok run" and "p < length out \<longrightarrow> c = length inp \<and> \<not> is_repeat run"
  shows "decodes run inp out c p"
  unfolding decodes_def using assms
  by (intro exI[of _ run] exI[of _ c] exI[of _ "[]"]) simp

lemma unat_succ_control:
  "unat ((c AND 0x7F) + 1 :: u8) = unat (c AND 0x7F) + 1" "c \<le> 127 \<Longrightarrow> unat (c + 1 :: u8) = unat c + 1"
proof -
  have "c AND 0x7F = take_bit 7 c" by (simp add: take_bit_eq_mask mask_eq_exp_minus_1)
  then have "unat (c AND 0x7F) < 128" using take_bit_nat_less_exp[of 7 "unat c"] by (simp add: unsigned_take_bit_eq)
  then show "unat ((c AND 0x7F) + 1) = unat (c AND 0x7F) + 1" by (simp add: unat_word_ariths)
  show "c \<le> 127 \<Longrightarrow> unat (c + 1) = unat c + 1" by (simp add: unat_word_ariths word_le_nat_alt)
qed

lemma unpack_from_control:
  "unpack_from (if c \<le> 127 then Some (RunLiteral (c + 1)) else Some (RunRepeatValue ((c AND 0x7F) + 1))) rest =
   unpack (c # rest)"
proof (cases "c \<le> 127")
  case True
  then show ?thesis using unat_succ_control(2)[OF True] by (simp add: unpack.simps(2) not_less_eq_eq less_Suc_eq_le)
next
  case False
  show ?thesis
    unfolding if_not_P[OF False] unpack.simps(2) unpack_from.simps unat_succ_control(1) by (rule refl)
qed

lemma unpack_literal_part:
  assumes "k \<le> unat r" and "k \<le> length xs"
  shows "unpack_from (Some (RunLiteral r)) (xs @ later) =
    prepend (take k xs) (unpack_from (remaining_run r k RunLiteral) (drop k xs @ later))"
proof (cases "k = unat r")
  case True
  then show ?thesis using assms by (simp add: remaining_run_eq)
next
  case False
  define m where "m = unat r - k"
  have "unat r = k + m" "unat (r - of_nat k) = m"
    using assms(1) unat_minus_of_nat[OF assms(1)] by (simp_all add: m_def)
  then show ?thesis
    using assms False take_add[of k m "xs @ later"] by (auto simp: remaining_run_eq ac_simps)
qed

lemma unpack_repeat_part:
  assumes "k \<le> unat r"
  shows "unpack_from (Some (RunRepeat v r)) xs =
    prepend (replicate k v) (unpack_from (remaining_run r k (RunRepeat v)) xs)"
proof (cases "k = unat r")
  case True
  then show ?thesis by (simp add: remaining_run_eq)
next
  case False
  define m where "m = unat r - k"
  have "unat r = k + m" "unat (r - of_nat k) = m"
    using assms unat_minus_of_nat[OF assms] by (simp_all add: m_def)
  then show ?thesis
    using assms False by (simp add: remaining_run_eq replicate_add)
qed

lemma next_byte: "c < length inp \<Longrightarrow> drop c inp = inp ! c # drop (Suc c) inp"
  by (simp add: Cons_nth_drop_Suc)

lemma decode_loop_decodes:
  "run_ok run \<Longrightarrow> c \<le> length inp \<Longrightarrow> p \<le> length out \<Longrightarrow> decodes run inp out c p"
proof (induction run inp out c p rule: decode_loop.induct)
  case (1 run inp out c p)
  show ?case
  proof (cases "p < length out")
    case False
    then show ?thesis
      using "1.prems" by (intro decodes_stop) (simp_all add: decode_loop.simps[of run inp out])
  next
    case room: True
    consider (idle) "run = None" | (lit) r where "run = Some (RunLiteral r)"
      | (val) r where "run = Some (RunRepeatValue r)" | (rep) v r where "run = Some (RunRepeat v r)"
      by (metis PackBitsRun.exhaust option.exhaust)
    then show ?thesis
    proof cases
      case idle
      show ?thesis
      proof (cases "c < length inp")
        case True
        define run1 where "run1 = (if inp ! c \<le> 127 then Some (RunLiteral (inp ! c + 1))
            else Some (RunRepeatValue ((inp ! c AND 0x7F) + 1)))"
        have "run_ok run1" using unat_succ_control[of "inp ! c"] by (simp add: run1_def)
        then have "decodes run1 inp out (c + 1) p"
          using "1.IH"(1)[OF room idle True refl refl run1_def] "1.prems" True by simp
        moreover have "decode_loop run inp out c p = decode_loop run1 inp out (c + 1) p"
          using room True by (simp add: decode_loop.simps[of None inp out] idle run1_def Let_def)
        moreover have "unpack_from run (drop c inp @ later) = unpack_from run1 (drop (c + 1) inp @ later)" for later
          by (simp only: idle run1_def next_byte[OF True] append_Cons unpack_from_control unpack_from.simps(1)) simp
        ultimately show ?thesis
          by (rule decodes_skip[OF _ _ "1.prems"(3) le_add1])
      qed (use "1.prems" room in \<open>intro decodes_stop; simp add: decode_loop.simps[of None inp out] idle\<close>)
    next
      case lit
      show ?thesis
      proof (cases "c < length inp")
        case True
        define k where "k = min (min (unat r) (length inp - c)) (length out - p)"
        let ?xs = "subslice inp c k"
        let ?run1 = "remaining_run r k RunLiteral"
        have "0 < unat r" using "1.prems"(1) lit by simp
        then have k: "k \<le> unat r" "c + k \<le> length inp" "p + k \<le> length out" "0 < k"
          unfolding k_def using True room by linarith+
        have run1: "?run1 = (if k = unat r then None else Some (RunLiteral (r - of_nat k)))"
          using k(1) by (rule remaining_run_eq)
        have len: "length ?xs = k" using k by simp
        have "run_ok ?run1" using run1 unat_minus_of_nat[OF k(1)] k(1) by simp
        moreover have out: "length (overwrite out p ?xs) = length out" using k len by (simp add: length_overwrite)
        ultimately have "decodes ?run1 inp (overwrite out p ?xs) (c + k) (p + k)"
          using k len True room
          by (intro "1.IH"(2)[OF room lit refl refl]) (auto simp: k_def[symmetric] slice_laws)
        moreover have "decode_loop run inp out c p = decode_loop ?run1 inp (overwrite out p ?xs) (c + k) (p + k)"
          using room True k len
          by (simp add: decode_loop.simps[of "Some (RunLiteral r)" inp out] lit Let_def k_def[symmetric] slice_laws)
        moreover have "unpack_from run (drop c inp @ later) = prepend ?xs (unpack_from ?run1 (drop (c + k) inp @ later))" for later
          using unpack_literal_part[OF k(1), of "drop c inp" later] k(2) unfolding lit subslice_def
          by (simp only: drop_drop add.commute[of k c] length_drop le_diff_conv2 "1.prems"(2) add.commute[of k c])
        ultimately show ?thesis
          by (rule decodes_advance[where xs = ?xs, OF _ len _ k(3) le_add1])
      qed (use "1.prems" room in \<open>intro decodes_stop; simp add: decode_loop.simps[of "Some (RunLiteral r)" inp out] lit\<close>)
    next
      case val
      show ?thesis
      proof (cases "c < length inp")
        case True
        let ?run1 = "Some (RunRepeat (inp ! c) r)"
        have "decodes ?run1 inp out (c + 1) p"
          using "1.IH"(3)[OF room val refl True] "1.prems" True val by simp
        moreover have "decode_loop run inp out c p = decode_loop ?run1 inp out (c + 1) p"
          using room True by (simp add: decode_loop.simps[of "Some (RunRepeatValue r)" inp out] val)
        moreover have "unpack_from run (drop c inp @ later) = unpack_from ?run1 (drop (c + 1) inp @ later)" for later
          by (simp add: val next_byte[OF True])
        ultimately show ?thesis
          by (rule decodes_skip[OF _ _ "1.prems"(3) le_add1])
      qed (use "1.prems" room in \<open>intro decodes_stop; simp add: decode_loop.simps[of "Some (RunRepeatValue r)" inp out] val\<close>)
    next
      case rep
      define k where "k = min (unat r) (length out - p)"
      let ?xs = "replicate k v"
      let ?run1 = "remaining_run r k (RunRepeat v)"
      have "0 < unat r" using "1.prems"(1) rep by simp
      then have k: "k \<le> unat r" "p + k \<le> length out" "0 < k"
        unfolding k_def using room by linarith+
      have run1: "?run1 = (if k = unat r then None else Some (RunRepeat v (r - of_nat k)))"
        using k(1) by (rule remaining_run_eq)
      have "run_ok ?run1" using run1 unat_minus_of_nat[OF k(1)] k(1) by simp
      moreover have "length (overwrite out p ?xs) = length out" using k by (simp add: length_overwrite)
      ultimately have "decodes ?run1 inp (overwrite out p ?xs) c (p + k)"
        using k "1.prems"(2) room
        by (intro "1.IH"(4)[OF room rep refl]) (auto simp: k_def[symmetric] slice_laws)
      moreover have "decode_loop run inp out c p = decode_loop ?run1 inp (overwrite out p ?xs) c (p + k)"
        using room k by (simp add: decode_loop.simps[of "Some (RunRepeat v r)" inp out] rep Let_def k_def[symmetric] slice_laws)
      moreover have "unpack_from run (drop c inp @ later) = prepend ?xs (unpack_from ?run1 (drop c inp @ later))" for later
        unfolding rep using k(1) by (rule unpack_repeat_part)
      ultimately show ?thesis
        by (rule decodes_advance[where xs = ?xs, OF _ length_replicate _ k(2) order_refl])
    qed
  qed
qed


subsection \<open>The decoder's interface\<close>

record DecodeProgress =
  consumed :: nat
  produced :: nat

definition decode ::
    "PackBitsRun option \<Rightarrow> bytes \<Rightarrow> bytes \<Rightarrow> (PackBitsRun option \<times> DecodeProgress \<times> bytes, DecodeError) res" where
  "decode run input output =
    and_then (decode_loop run input output 0 0) (\<lambda>(run, c, p, output).
    Ok (run, \<lparr>consumed = c, produced = p\<rparr>, output))"

definition finish :: "PackBitsRun option \<Rightarrow> (unit, DecodeError) res" where
  "finish run = (if run = None then Ok () else Err MalformedRun)"

definition is_idle :: "PackBitsRun option \<Rightarrow> bool" where
  "is_idle run \<longleftrightarrow> run = None"

lemma overwrite_take_drop: "length bs \<le> length out \<Longrightarrow>
    take (length bs) (overwrite out 0 bs) = bs \<and> drop (length bs) (overwrite out 0 bs) = drop (length bs) out"
  by (simp add: overwrite_def)

lemma decode_cases:
  assumes "run_ok run"
  obtains run' c' bs where
    "decode run inp out = Ok (run', \<lparr>consumed = c', produced = length bs\<rparr>, overwrite out 0 bs)"
    "length bs \<le> length out" "c' \<le> length inp" "run_ok run'"
    "\<forall>later. unpack_from run (inp @ later) = prepend bs (unpack_from run' (drop c' inp @ later))"
    "length bs < length out \<longrightarrow> c' = length inp \<and> \<not> is_repeat run'"
proof -
  have "decodes run inp out 0 0" using assms by (intro decode_loop_decodes) simp_all
  then obtain run' c' bs where
    "decode_loop run inp out 0 0 = Ok (run', c', 0 + length bs, overwrite out 0 bs)"
    "length bs \<le> length out" "c' \<le> length inp" "run_ok run'"
    "\<forall>later. unpack_from run (inp @ later) = prepend bs (unpack_from run' (drop c' inp @ later))"
    "length bs < length out \<longrightarrow> c' = length inp \<and> \<not> is_repeat run'"
    unfolding decodes_def drop_0 add_0 by blast
  then show ?thesis by (intro that[of run' c' bs]) (simp_all add: decode_def)
qed

lemma decode_loop_bounds:
  "decode_loop run inp out c p = Ok (run', c', p', out') \<Longrightarrow> c \<le> length inp \<Longrightarrow> p \<le> length out \<Longrightarrow>
   c \<le> c' \<and> c' \<le> length inp \<and> p \<le> p' \<and> p' \<le> length out' \<and> length out' = length out"
proof (induction run inp out c p arbitrary: run' c' p' out' rule: decode_loop.induct)
  case (1 run inp out c p)
  note loop = "1.prems"(1)
  show ?case
  proof (cases "p < length out")
    case False
    then show ?thesis using "1.prems" by (auto simp: decode_loop.simps[of run inp out])
  next
    case room: True
    consider (idle) "run = None" | (lit) r where "run = Some (RunLiteral r)"
      | (val) r where "run = Some (RunRepeatValue r)" | (rep) v r where "run = Some (RunRepeat v r)"
      by (metis PackBitsRun.exhaust option.exhaust)
    then show ?thesis
    proof cases
      case idle
      show ?thesis
      proof (cases "c < length inp")
        case True
        then show ?thesis
          using "1.IH"(1)[OF room idle True refl refl refl] loop room "1.prems"(3)
          by (simp add: decode_loop.simps[of None inp out] idle Let_def)
      qed (use "1.prems" room in \<open>simp add: decode_loop.simps[of None inp out] idle\<close>)
    next
      case lit
      show ?thesis
      proof (cases "c < length inp")
        case True
        define k where "k = min (min (unat r) (length inp - c)) (length out - p)"
        have k: "c + k \<le> length inp" "p + k \<le> length out"
          unfolding k_def using True room by linarith+
        then have len: "length (subslice inp c k) = k" by simp
        then have out: "length (overwrite out p (subslice inp c k)) = length out" using k by (simp add: length_overwrite)
        have "decode_loop (remaining_run r k RunLiteral) inp (overwrite out p (subslice inp c k)) (c + k) (p + k) =
            Ok (run', c', p', out')"
          using loop room True k len
          by (simp add: decode_loop.simps[of "Some (RunLiteral r)" inp out] lit Let_def k_def[symmetric] slice_laws)
        then have "c + k \<le> c' \<and> c' \<le> length inp \<and> p + k \<le> p' \<and> p' \<le> length out' \<and> length out' = length out"
          using "1.IH"(2)[OF room lit refl refl _ k_def, of "subslice inp c k" "overwrite out p (subslice inp c k)"] k len True
          by (simp add: slice_laws)
        then show ?thesis by simp
      qed (use "1.prems" room in \<open>simp add: decode_loop.simps[of "Some (RunLiteral r)" inp out] lit\<close>)
    next
      case val
      show ?thesis
      proof (cases "c < length inp")
        case True
        then show ?thesis
          using "1.IH"(3)[OF room val refl True] loop room "1.prems"(3)
          by (simp add: decode_loop.simps[of "Some (RunRepeatValue r)" inp out] val)
      qed (use "1.prems" room in \<open>simp add: decode_loop.simps[of "Some (RunRepeatValue r)" inp out] val\<close>)
    next
      case rep
      define k where "k = min (unat r) (length out - p)"
      have k: "p + k \<le> length out" unfolding k_def using room by linarith
      then have out: "length (overwrite out p (replicate k v)) = length out" by (simp add: length_overwrite)
      have "decode_loop (remaining_run r k (RunRepeat v)) inp (overwrite out p (replicate k v)) c (p + k) =
          Ok (run', c', p', out')"
        using loop room k
        by (simp add: decode_loop.simps[of "Some (RunRepeat v r)" inp out] rep Let_def k_def[symmetric] slice_laws)
      then have "c \<le> c' \<and> c' \<le> length inp \<and> p + k \<le> p' \<and> p' \<le> length out' \<and> length out' = length out"
        using "1.IH"(4)[OF room rep refl k_def, of "overwrite out p (replicate k v)"] k "1.prems"(2)
        by (simp add: slice_laws)
      then show ?thesis by simp
    qed
  qed
qed

lemma decode_bounds:
  "decode run inp out = Ok (run', progress, out') \<Longrightarrow>
   consumed progress \<le> length inp \<and> produced progress \<le> length out \<and> length out' = length out"
  using decode_loop_bounds[of run inp out 0 0] by (fastforce simp: decode_def and_then_Ok_iff)

subsection \<open>Decoding into an exact output\<close>

text \<open>The loop of \<open>decode_exact\<close>; slicing the input from beyond its end would panic.\<close>

definition slice_from :: "bytes \<Rightarrow> nat \<Rightarrow> (bytes, 'e) res" where
  "slice_from p i = (if i \<le> length p then Ok (drop i p) else Panic)"

function exact_loop ::
    "PackBitsRun option \<Rightarrow> bytes \<Rightarrow> bytes \<Rightarrow> nat \<Rightarrow> nat \<Rightarrow>
     (PackBitsRun option \<times> nat \<times> nat \<times> bytes, DecodeError) res" where
  "exact_loop run inp out c p =
    (if p < length out then
       and_then (slice_from inp c) (\<lambda>rest.
       and_then (decode run rest (drop p out)) (\<lambda>(run, progress, tail).
         let out = take p out @ tail; c = c + consumed progress; p = p + produced progress in
         if consumed progress = 0 \<and> produced progress = 0 then Ok (run, c, p, out)
         else exact_loop run inp out c p))
     else Ok (run, c, p, out))"
  by pat_completeness auto
termination
  by (relation "measure (\<lambda>(run, inp, out, c, p). (length inp - c) + (length out - p))")
    (auto simp: slice_from_def split: if_splits dest!: decode_bounds)

declare exact_loop.simps [simp del]

definition packbits_decode_exact :: "bytes \<Rightarrow> bytes \<Rightarrow> (bytes, DecodeError) res" where
  "packbits_decode_exact input output =
    and_then (exact_loop None input output 0 0) (\<lambda>(run, consumed, produced, output).
      if produced < length output then
        and_then (finish run) (\<lambda>_. Err (OutputTooShort (length output) produced))
      else if \<not> is_idle run then
        (case run of
           Some (RunRepeatValue _) \<Rightarrow> Err MalformedRun
         | Some (RunLiteral _) \<Rightarrow>
             if consumed = length input then Err MalformedRun else Err (OutputTooLong (length output))
         | Some (RunRepeat _ _) \<Rightarrow> Err (OutputTooLong (length output))
         | None \<Rightarrow> Err MalformedRun)
      else if consumed < length input then
        and_then (slice_from input consumed) (\<lambda>rest.
        and_then (decode run rest [0]) (\<lambda>(run, progress, probe).
          if 0 < DecodeProgress.produced progress then Err (OutputTooLong (length output))
          else and_then (finish run) (\<lambda>_. Ok output)))
      else Ok output)"

lemma decode_end: "\<not> is_repeat run \<Longrightarrow> decode run [] out = Ok (run, \<lparr>consumed = 0, produced = 0\<rparr>, out)"
  by (cases run rule: is_repeat.cases) (simp_all add: decode_def decode_loop.simps)

lemma exact_loop_cases:
  obtains run' c' bs where
    "exact_loop None inp out 0 0 = Ok (run', c', length bs, overwrite out 0 bs)"
    "length bs \<le> length out" "c' \<le> length inp" "run_ok run'"
    "unpack inp = prepend bs (unpack_from run' (drop c' inp))"
    "length bs < length out \<longrightarrow> c' = length inp \<and> \<not> is_repeat run'"
proof (cases "out = []")
  case True
  then show ?thesis
    using that[of None 0 "[]"] by (simp add: exact_loop.simps[of None inp "[]"] overwrite_def)
next
  case False
  obtain run' c' bs where
    d: "decode None inp out = Ok (run', \<lparr>consumed = c', produced = length bs\<rparr>, overwrite out 0 bs)"
    and len: "length bs \<le> length out" "c' \<le> length inp" "run_ok run'"
    and u: "\<forall>later. unpack_from None (inp @ later) = prepend bs (unpack_from run' (drop c' inp @ later))"
    and stop: "length bs < length out \<longrightarrow> c' = length inp \<and> \<not> is_repeat run'"
    by (rule decode_cases[of None inp out]) (simp, blast)
  let ?out = "overwrite out 0 bs"
  have lo: "length ?out = length out" using len by (simp add: length_overwrite)
  have again: "exact_loop run' inp ?out c' (length bs) = Ok (run', c', length bs, ?out)"
  proof (cases "length bs < length out")
    case True
    then show ?thesis
      using stop by (simp add: exact_loop.simps[of run' inp ?out] slice_from_def decode_end lo)
  qed (simp add: exact_loop.simps[of run' inp ?out] lo)
  have "exact_loop None inp out 0 0 = Ok (run', c', length bs, ?out)"
    using False d again by (simp add: exact_loop.simps[of None inp out] slice_from_def Let_def)
  then show ?thesis
    using that[of run' c' bs] len u[rule_format, of "[]"] stop by simp
qed

lemma unpack_nonempty: "xs \<noteq> [] \<Longrightarrow> unpack xs \<noteq> Some []"
  by (cases xs) (auto simp: unpack.simps(2) prepend_def split: if_splits)

lemma unpack_from_open: "run_ok run \<Longrightarrow> run \<noteq> None \<Longrightarrow> unpack_from run xs \<noteq> Some []"
  by (cases run rule: run_ok.cases) (auto simp: prepend_def)

lemma prepend_Some_iff: "prepend xs m = Some ys \<longleftrightarrow> (\<exists>zs. m = Some zs \<and> ys = xs @ zs)"
  by (auto simp: prepend_def)

text \<open>What \<open>decode_exact\<close> returns, on every branch.\<close>

lemma packbits_decode_exact_spec:
  "packbits_decode_exact inp out \<noteq> Panic \<and>
   (packbits_decode_exact inp out = Ok out' \<longleftrightarrow> unpack inp = Some out' \<and> length out' = length out)"
proof -
  obtain run' c' bs where
    e: "exact_loop None inp out 0 0 = Ok (run', c', length bs, overwrite out 0 bs)"
    and len: "length bs \<le> length out" "c' \<le> length inp" "run_ok run'"
    and u: "unpack inp = prepend bs (unpack_from run' (drop c' inp))"
    and stop: "length bs < length out \<longrightarrow> c' = length inp \<and> \<not> is_repeat run'"
    using exact_loop_cases[of inp out] by blast
  have lo: "length (overwrite out 0 bs) = length out" using len by (simp add: length_overwrite)
  have iff: "unpack inp = Some out' \<and> length out' = length out \<longleftrightarrow>
      (\<exists>zs. unpack_from run' (drop c' inp) = Some zs \<and> out' = bs @ zs \<and> length zs = length out - length bs)"
    using len by (auto simp: u prepend_Some_iff)
  consider (short) "length bs < length out" | (opened) "length bs = length out" "run' \<noteq> None"
    | (exact) "length bs = length out" "run' = None"
    using len by linarith
  then show ?thesis
  proof cases
    case short
    then have "unpack_from run' (drop c' inp) = Some zs \<Longrightarrow> zs = []" for zs
      using stop len by (cases run' rule: run_ok.cases) (auto simp: prepend_def split: if_splits)
    with short show ?thesis
      unfolding iff by (auto simp: packbits_decode_exact_def e lo finish_def)
  next
    case opened
    then show ?thesis
      using unpack_from_open[OF len(3), of "drop c' inp"] unfolding iff
      by (cases run' rule: run_ok.cases)
        (auto simp: packbits_decode_exact_def e lo is_idle_def)
  next
    case exact
    then have "overwrite out 0 bs = bs" by (simp add: overwrite_def)
    with exact have loop: "exact_loop None inp out 0 0 = Ok (None, c', length out, bs)" using e by simp
    show ?thesis
    proof (cases "c' < length inp")
      case True
      obtain run2 c2 bs2 where
        d: "decode None (drop c' inp) [0] = Ok (run2, \<lparr>consumed = c2, produced = length bs2\<rparr>, overwrite [0] 0 bs2)"
        and p: "run_ok run2" "c2 \<le> length (drop c' inp)"
        and u2: "\<forall>later. unpack_from None (drop c' inp @ later) =
            prepend bs2 (unpack_from run2 (drop c2 (drop c' inp) @ later))"
        and stop2: "length bs2 < length [0 :: u8] \<longrightarrow> c2 = length (drop c' inp) \<and> \<not> is_repeat run2"
        by (rule decode_cases[of None "drop c' inp" "[0]"]) (simp, blast)
      have "unpack (drop c' inp) = Some [] \<longleftrightarrow> bs2 = [] \<and> run2 = None"
        using u2[rule_format, of "[]"] stop2 unpack_from_open[OF p(1), of "[]"] unpack_nonempty[of "drop c' inp"] True
        by (cases bs2; cases run2) (auto simp: prepend_def)
      then show ?thesis
        unfolding iff using exact True
        by (auto simp: packbits_decode_exact_def loop is_idle_def slice_from_def d finish_def)
    next
      case False
      then show ?thesis
        unfolding iff using exact len by (auto simp: packbits_decode_exact_def loop is_idle_def)
    qed
  qed
qed

text \<open>
  The streaming decoder as a refinement of the list function: the bytes of one call, followed by
  what the returned state makes of the unread input, are what the state made of all of it.
\<close>

text \<open>C19: One call of the streaming PackBits decoder refines the run format: it never panics or fails; its
  open run stays well formed; it consumes at most its input and writes only the bytes it reports;
  whatever input comes later, the bytes written, followed by what the returned run makes of the unconsumed
  input and the later input, are what the original run makes of all the input; and it
  stops before its output is full only when it has used the whole input.\<close>

theorem packbits_streaming:
  assumes "run_ok run"
  shows "case decode run input output of Panic \<Rightarrow> False | Err _ \<Rightarrow> False
    | Ok (run', progress, output') \<Rightarrow>
        run_ok run' \<and> consumed progress \<le> length input \<and> produced progress \<le> length output \<and>
        length output' = length output \<and>
        drop (produced progress) output' = drop (produced progress) output \<and>
        (\<forall>later. unpack_from run (input @ later) =
          prepend (take (produced progress) output') (unpack_from run' (drop (consumed progress) input @ later))) \<and>
        (produced progress < length output \<longrightarrow> consumed progress = length input)"
  using assms
  by (rule decode_cases[of run "input" "output"]) (simp add: overwrite_take_drop length_overwrite)

theorem packbits_streaming_witness:
  "case decode (Some (RunLiteral 3)) [7, 8] [0, 0, 0, 0] of Panic \<Rightarrow> False | Err _ \<Rightarrow> False
   | Ok (run', progress, output') \<Rightarrow>
        run_ok run' \<and> consumed progress \<le> length [7, 8 :: u8] \<and> produced progress \<le> length [0, 0, 0, 0 :: u8] \<and>
        length output' = length [0, 0, 0, 0 :: u8] \<and>
        drop (produced progress) output' = drop (produced progress) [0, 0, 0, 0] \<and>
        (\<forall>later. unpack_from (Some (RunLiteral 3)) ([7, 8] @ later) =
          prepend (take (produced progress) output') (unpack_from run' (drop (consumed progress) [7, 8] @ later))) \<and>
        (produced progress < length [0, 0, 0, 0 :: u8] \<longrightarrow> consumed progress = length [7, 8 :: u8])"
  by (rule packbits_streaming) simp

text \<open>Exact PackBits decoding (\<open>decode_exact\<close>) never panics and accepts an input exactly when the run format
  gives that input a meaning of the length of the output buffer; it then returns that meaning.  Truncated runs, runs
  that overflow the buffer and trailing input are all rejected.\<close>

theorem packbits_decode_exact_correct:
  "packbits_decode_exact input output \<noteq> Panic \<and>
   (packbits_decode_exact input output = Ok output' \<longleftrightarrow>
    unpack input = Some output' \<and> length output' = length output)"
  by (rule packbits_decode_exact_spec)

text \<open>C18: Whatever the encoder writes decodes back: \<open>encode_into\<close> panics on no input; when its
  buffer is large enough it writes \<open>encoded_len\<close> bytes, at most a third more than the input (rounded up), and exact
  decoding of them returns the input; otherwise it reports the length it needs.\<close>

theorem packbits_roundtrip:
  "case encode_into input buffer of Panic \<Rightarrow> False
   | Err e \<Rightarrow> e = BufferTooSmall (encoded_len input) (length buffer) \<and> length buffer < encoded_len input
   | Ok (n, buffer') \<Rightarrow> n = encoded_len input \<and> 3 * n \<le> 4 * length input + 2 \<and>
       length buffer' = length buffer \<and> drop n buffer' = drop n buffer \<and>
       packbits_decode_exact (take n buffer') (replicate (length input) 0) = Ok input"
  using length_pack[of input 0]
  by (auto simp: encode_into_eq encoded_len_eq packbits_decode_exact_spec unpack_pack)

end
