(* ===== verification/Crc32.thy ===== *)
theory Crc32
  imports Prelude
begin

text \<open>
  CRC-32/ISO-HDLC, which the repository implements six times: table driven in the firmware
  (\<^verbatim>\<open>binbook-fw/src/crc32.rs\<close>), bit-serial with a branch in the host tool and in the upload journal
  (\<^verbatim>\<open>upload_source.rs\<close>, \<^verbatim>\<open>bulk_readback_stream.rs\<close>, \<^verbatim>\<open>upload_journal.rs\<close>), and bit-serial with a mask in
  the format crates (\<^verbatim>\<open>validation_crc.rs\<close>, \<^verbatim>\<open>hashing.rs\<close>).  All of them are shown to compute one function,
  which distinguishes any two messages that differ in one byte.
\<close>

subsection \<open>Chunked digests\<close>

text \<open>A digest that is fed one chunk after the other: only the concatenation matters.\<close>

locale streaming_digest =
  fixes upd :: "'s \<Rightarrow> 'b list \<Rightarrow> 's"
  assumes upd_Nil: "upd s [] = s"
    and upd_append: "upd s (xs @ ys) = upd (upd s xs) ys"
begin

lemma upd_concat: "upd s (concat xss) = fold (\<lambda>xs s. upd s xs) xss s"
  by (induction xss arbitrary: s) (simp_all add: upd_Nil upd_append)

lemma upd_snoc: "upd s (concat (xss @ [xs])) = upd (upd s (concat xss)) xs"
  by (simp add: upd_append)

end

subsection \<open>The implementations\<close>

definition crc32_bit :: "u32 \<Rightarrow> u32" where
  "crc32_bit value = (if value AND 1 \<noteq> 0 then drop_bit 1 value XOR 0xEDB88320 else drop_bit 1 value)"

definition make_table :: "u32 list" where
  "make_table = map (\<lambda>index. (crc32_bit ^^ 8) (of_nat index)) [0..<256]"

definition update_byte :: "u32 \<Rightarrow> u8 \<Rightarrow> u32" where
  "update_byte state byte = make_table ! unat ((state XOR ucast byte) AND 0xFF) XOR drop_bit 8 state"

fun update :: "u32 \<Rightarrow> bytes \<Rightarrow> u32" where
  "update state [] = state"
| "update state (byte # bytes) = update (update_byte state byte) bytes"

definition iso_hdlc :: "bytes \<Rightarrow> u32" where
  "iso_hdlc bytes = NOT (update (- 1) bytes)"

text \<open>The host tool and the journal: one bit at a time, with a branch.\<close>

definition crc32_bit_zero :: "u32 \<Rightarrow> u32" where
  "crc32_bit_zero crc = (if crc AND 1 = 0 then drop_bit 1 crc else drop_bit 1 crc XOR 0xEDB88320)"

fun host_crc32_update :: "u32 \<Rightarrow> bytes \<Rightarrow> u32" where
  "host_crc32_update crc [] = crc"
| "host_crc32_update crc (byte # bytes) =
    host_crc32_update ((crc32_bit_zero ^^ 8) (crc XOR ucast byte)) bytes"

definition journal_crc32 :: "bytes \<Rightarrow> u32" where
  "journal_crc32 bytes = NOT (host_crc32_update (- 1) bytes)"

text \<open>The format crates: one bit at a time, with a mask.\<close>

definition crc32_bit_mask :: "u32 \<Rightarrow> u32" where
  "crc32_bit_mask crc = drop_bit 1 crc XOR (0xEDB88320 AND (0 - (crc AND 1)))"

fun core_crc32_update :: "u32 \<Rightarrow> bytes \<Rightarrow> u32" where
  "core_crc32_update crc [] = crc"
| "core_crc32_update crc (byte # bytes) =
    core_crc32_update ((crc32_bit_mask ^^ 8) (crc XOR ucast byte)) bytes"

definition core_crc32_finish :: "u32 \<Rightarrow> u32" where
  "core_crc32_finish crc = crc XOR 0xFFFFFFFF"

definition encode_crc32 :: "bytes \<Rightarrow> u32" where
  "encode_crc32 bytes = core_crc32_update 0xFFFFFFFF bytes XOR 0xFFFFFFFF"

subsection \<open>They agree\<close>

lemma and_1_cases: "(v :: u32) AND 1 = (if bit v 0 then 1 else 0)"
  by (rule bit_word_eqI) (auto simp: bit_simps bit_1_iff intro: gr0I)

lemma crc32_bit_alt: "crc32_bit v = drop_bit 1 v XOR (if bit v 0 then 0xEDB88320 else 0)"
  by (simp add: crc32_bit_def and_1_cases)

lemma crc32_bit_zero_eq: "crc32_bit_zero = crc32_bit"
  by (rule ext) (simp add: crc32_bit_zero_def crc32_bit_def)

lemma crc32_bit_mask_eq: "crc32_bit_mask = crc32_bit"
  by (rule ext) (simp add: crc32_bit_mask_def crc32_bit_alt and_1_cases)

lemma drop_bit_xor_word: "drop_bit n (a XOR b) = drop_bit n a XOR drop_bit n b" for a b :: "'a::len word"
  by (rule bit_word_eqI) (auto simp: bit_simps)

lemma crc32_bit_xor: "crc32_bit (a XOR b) = crc32_bit a XOR crc32_bit b"
  by (auto simp: crc32_bit_alt bit_xor_iff drop_bit_xor_word ac_simps)

lemma crc32_bits_xor: "(crc32_bit ^^ n) (a XOR b) = (crc32_bit ^^ n) a XOR (crc32_bit ^^ n) b"
  by (induction n) (simp_all add: crc32_bit_xor)

lemma crc32_bits_high: "(\<And>k. k < 8 \<Longrightarrow> \<not> bit v k) \<Longrightarrow> n \<le> 8 \<Longrightarrow> (crc32_bit ^^ n) v = drop_bit n v"
proof (induction n)
  case (Suc n)
  then have "(crc32_bit ^^ n) v = drop_bit n v" by simp
  moreover have "\<not> bit (drop_bit n v) 0"
    using Suc.prems by (auto simp: bit_simps)
  ultimately have "(crc32_bit ^^ Suc n) v = drop_bit 1 (drop_bit n v)"
    by (simp only: funpow.simps o_apply crc32_bit_alt if_False xor.right_neutral)
  then show ?case by (simp only: drop_bit_drop_bit plus_1_eq_Suc)
qed simp

lemma crc32_low_bound: "unat ((v :: u32) AND 0xFF) < 256"
proof -
  have "v AND 0xFF = take_bit 8 v" by (simp add: take_bit_eq_mask mask_eq_exp_minus_1)
  then show ?thesis using take_bit_nat_less_exp[of 8 "unat v"] by (simp add: unsigned_take_bit_eq)
qed

lemma update_byte_eq: "update_byte state byte = (crc32_bit ^^ 8) (state XOR ucast byte)"
proof -
  let ?v = "state XOR ucast byte"
  let ?low = "?v AND 0xFF" and ?high = "push_bit 8 (drop_bit 8 state)"
  have entry: "make_table ! unat ?low = (crc32_bit ^^ 8) ?low"
    using crc32_low_bound[of ?v] by (simp add: make_table_def)
  have mask: "?low = take_bit 8 ?v" by (simp add: take_bit_eq_mask mask_eq_exp_minus_1)
  have "?v = ?low XOR ?high"
    unfolding mask by (rule bit_word_eqI) (auto simp: bit_simps dest: bit_imp_le_length)
  then have "(crc32_bit ^^ 8) ?v = (crc32_bit ^^ 8) ?low XOR (crc32_bit ^^ 8) ?high"
    by (metis crc32_bits_xor)
  also have "(crc32_bit ^^ 8) ?high = drop_bit 8 ?high"
    by (rule crc32_bits_high) (auto simp: bit_simps)
  also have "drop_bit 8 ?high = drop_bit 8 state"
    by (rule bit_word_eqI) (auto simp: bit_simps dest: bit_imp_le_length)
  finally show ?thesis by (simp only: update_byte_def entry)
qed

lemma host_crc32_update_eq: "host_crc32_update crc bs = update crc bs"
  by (induction bs arbitrary: crc) (simp_all only: host_crc32_update.simps update.simps update_byte_eq crc32_bit_zero_eq)

lemma core_crc32_update_eq: "core_crc32_update crc bs = update crc bs"
  by (induction bs arbitrary: crc) (simp_all only: core_crc32_update.simps update.simps update_byte_eq crc32_bit_mask_eq)

lemma ones32: "(0xFFFFFFFF :: u32) = - 1"
  by simp

lemma xor_ones: "(v :: u32) XOR 0xFFFFFFFF = NOT v"
  by (simp only: ones32 bit.xor_one_right)

lemma update_append: "update s (xs @ ys) = update (update s xs) ys"
  by (induction xs arbitrary: s) simp_all

interpretation crc32: streaming_digest update
  by unfold_locales (simp_all add: update_append)

subsection \<open>Error detection\<close>

lemma xor_cancel: "a XOR b = a XOR c \<Longrightarrow> b = c" for a b c :: u32
proof -
  assume "a XOR b = a XOR c"
  then have "(a XOR a) XOR b = (a XOR a) XOR c" by (simp only: xor.assoc)
  then show ?thesis by simp
qed

lemma xor_left_inj: "(a :: u32) XOR b = a XOR c \<longleftrightarrow> b = c" "b XOR a = c XOR a \<longleftrightarrow> b = c"
  using xor_cancel[of a b c] by (auto simp only: xor.commute[of b a] xor.commute[of c a])

text \<open>The bit step is injective: the top bit of its result is the bit it shifted out.\<close>

lemma crc32_bit_top: "bit (crc32_bit v) 31 = bit v 0"
  by (auto simp: crc32_bit_alt bit_simps dest: bit_imp_le_length)

lemma crc32_bit_inj: "crc32_bit a = crc32_bit b \<Longrightarrow> a = b"
proof (rule bit_word_eqI)
  assume eq: "crc32_bit a = crc32_bit b"
  then have low: "bit a 0 = bit b 0" by (metis crc32_bit_top)
  then have shifted: "drop_bit 1 a = drop_bit 1 b"
    using eq by (simp add: crc32_bit_alt xor_left_inj)
  fix k assume "k < LENGTH(32)"
  show "bit a k = bit b k"
  proof (cases k)
    case (Suc j)
    have "bit (drop_bit 1 a) j = bit (drop_bit 1 b) j" using shifted by simp
    then show ?thesis using Suc by (simp add: bit_simps)
  qed (use low in simp)
qed

lemma crc32_bits_inj: "(crc32_bit ^^ n) a = (crc32_bit ^^ n) b \<Longrightarrow> a = b"
  by (induction n) (auto dest: crc32_bit_inj)

lemma ucast_u8_inj: "(ucast (b :: u8) :: u32) = ucast c \<longleftrightarrow> b = c"
proof
  assume "(ucast b :: u32) = ucast c"
  then have "unat (ucast b :: u32) = unat (ucast c :: u32)" by simp
  then have "unat b = unat c" 
    using unat_u8_less[of b] unat_u8_less[of c] by (simp add: unsigned_ucast_eq take_bit_nat_eq_self)
  then show "b = c" by (simp only: word_unat_eq_iff)
qed simp

lemma update_byte_inj:
  "update_byte s b = update_byte t b \<longleftrightarrow> s = t" "update_byte s b = update_byte s c \<longleftrightarrow> b = c"
  by (auto simp: update_byte_eq xor_left_inj ucast_u8_inj dest!: crc32_bits_inj)

lemma update_inj: "update s bs = update t bs \<longleftrightarrow> s = t"
  by (induction bs arbitrary: s t) (auto simp: update_byte_inj)

lemma NOT_inj: "NOT (a :: u32) = NOT b \<longleftrightarrow> a = b"
  by (metis bit.double_compl)

lemma iso_hdlc_one_byte:
  assumes "iso_hdlc (xs @ b # ys) = iso_hdlc (xs @ c # ys)"
  shows "b = c"
  using assms by (simp add: iso_hdlc_def NOT_inj update_append update_inj update_byte_inj)

lemma iso_hdlc_update_nth:
  assumes "i < length bs" and "iso_hdlc (bs[i := c]) = iso_hdlc bs"
  shows "bs ! i = c"
  using iso_hdlc_one_byte[of "take i bs" c "drop (Suc i) bs" "bs ! i"] assms
  by (simp add: upd_conv_take_nth_drop id_take_nth_drop[OF assms(1), symmetric])

text \<open>The six CRC-32 implementations of the firmware, the host tool, the upload journal and the
  format crates compute the same function of every message, in any split into chunks.\<close>

theorem crc32_implementations_agree:
  "host_crc32_update state bs = update state bs \<and> core_crc32_update state bs = update state bs \<and>
   journal_crc32 (concat chunks) = iso_hdlc (concat chunks) \<and> encode_crc32 (concat chunks) = iso_hdlc (concat chunks) \<and>
   iso_hdlc (concat chunks) = NOT (fold (\<lambda>chunk crc. host_crc32_update crc chunk) chunks (- 1)) \<and>
   iso_hdlc (concat chunks) = core_crc32_finish (fold (\<lambda>chunk crc. core_crc32_update crc chunk) chunks 0xFFFFFFFF)"
  unfolding journal_crc32_def encode_crc32_def core_crc32_finish_def host_crc32_update_eq core_crc32_update_eq xor_ones
    iso_hdlc_def ones32 bit.xor_one_right crc32.upd_concat
  by (intro conjI refl)

text \<open>The checksum tells apart any two messages of the same length that differ in a single byte.\<close>

theorem crc32_detects_byte_error:
  "i < length bs \<Longrightarrow> iso_hdlc (bs[i := c]) = iso_hdlc bs \<longleftrightarrow> bs ! i = c"
  using iso_hdlc_update_nth by auto

theorem crc32_detects_byte_error_witness:
  "iso_hdlc ([1, 2, 3][1 := 7]) \<noteq> iso_hdlc [1, 2, 3]"
  using crc32_detects_byte_error[of 1 "[1, 2, 3]" 7] by simp

end
