(* ===== verification/Upload_Journal.thy ===== *)
theory Upload_Journal
  imports Codec Crc32
begin

text \<open>
  The upload journal of \<^verbatim>\<open>embedded-sd-storage/src/upload_journal.rs\<close>: one 148-byte record that says how
  far the publication of an uploaded book has come, protected by a CRC-32.
\<close>

definition UPLOAD_JOURNAL_BYTES :: nat where [simp]: "UPLOAD_JOURNAL_BYTES = 148"
definition UPLOAD_TARGET_NAME_BYTES :: nat where [simp]: "UPLOAD_TARGET_NAME_BYTES = 121"

datatype UploadJournalPhase = Uj_Clear | Uj_Receiving | Uj_Verified | Uj_OldMoved | Uj_Published

fun UploadJournalPhase_to_u8 :: "UploadJournalPhase \<Rightarrow> u8" where
  "UploadJournalPhase_to_u8 Uj_Clear = 0"
| "UploadJournalPhase_to_u8 Uj_Receiving = 1"
| "UploadJournalPhase_to_u8 Uj_Verified = 2"
| "UploadJournalPhase_to_u8 Uj_OldMoved = 3"
| "UploadJournalPhase_to_u8 Uj_Published = 4"

definition UploadJournalPhase_from_u8 :: "u8 \<Rightarrow> UploadJournalPhase option" where
  "UploadJournalPhase_from_u8 v =
    (if v = 0 then Some Uj_Clear else if v = 1 then Some Uj_Receiving else if v = 2 then Some Uj_Verified
     else if v = 3 then Some Uj_OldMoved else if v = 4 then Some Uj_Published else None)"

record UploadJournalRecord =
  uj_phase :: UploadJournalPhase
  uj_generation :: u32
  uj_expected_size :: u32
  uj_expected_crc32 :: u32
  uj_target_name :: bytes

datatype UploadJournalError = UjInvalidLength | UjInvalidValue | UjBadCrc

definition new_journal_record ::
    "UploadJournalPhase \<Rightarrow> u32 \<Rightarrow> u32 \<Rightarrow> u32 \<Rightarrow> bytes \<Rightarrow> (UploadJournalRecord, UploadJournalError) res" where
  "new_journal_record phase generation expected_size expected_crc32 target_name =
    (if generation = 0 \<or> phase \<noteq> Uj_Clear \<and> expected_size = 0 \<or> target_name = [] \<or>
        length target_name > UPLOAD_TARGET_NAME_BYTES \<or> list_ex (\<lambda>b. b = 0x2F \<or> b = 0x5C) target_name
     then Err UjInvalidValue
     else Ok \<lparr>uj_phase = phase, uj_generation = generation, uj_expected_size = expected_size,
       uj_expected_crc32 = expected_crc32, uj_target_name = target_name\<rparr>)"

text \<open>The magic \<open>BBXJ\<close>.\<close>

definition JOURNAL_MAGIC :: bytes where "JOURNAL_MAGIC = [0x42, 0x42, 0x58, 0x4A]"

definition encode_upload_journal :: "UploadJournalRecord \<Rightarrow> bytes \<Rightarrow> (bytes, UploadJournalError) res" where
  "encode_upload_journal rec out =
    (if length out \<noteq> UPLOAD_JOURNAL_BYTES then Err UjInvalidLength
     else
       and_then (new_journal_record (uj_phase rec) (uj_generation rec) (uj_expected_size rec)
         (uj_expected_crc32 rec) (uj_target_name rec)) (\<lambda>validated.
       let out = replicate (length out) 0 in
       and_then (put out 0 JOURNAL_MAGIC) (\<lambda>out.
       and_then (put out 4 [1]) (\<lambda>out.
       and_then (put out 5 [UploadJournalPhase_to_u8 (uj_phase validated)]) (\<lambda>out.
       and_then (put out 6 [of_nat (length (uj_target_name validated))]) (\<lambda>out.
       and_then (put out 8 (to_le 4 (uj_generation validated))) (\<lambda>out.
       and_then (put out 12 (to_le 4 (uj_expected_size validated))) (\<lambda>out.
       and_then (put out 16 (to_le 4 (uj_expected_crc32 validated))) (\<lambda>out.
       and_then (put out 20 (uj_target_name validated)) (\<lambda>out.
       and_then (bytes_at out 0 144) (\<lambda>prefix.
       put out 144 (to_le 4 (journal_crc32 prefix)))))))))))))"

definition decode_upload_journal :: "bytes \<Rightarrow> (UploadJournalRecord, UploadJournalError) res" where
  "decode_upload_journal bytes =
    (if length bytes \<noteq> UPLOAD_JOURNAL_BYTES then Err UjInvalidLength
     else if take 4 bytes \<noteq> JOURNAL_MAGIC \<or> bytes ! 4 \<noteq> 1 \<or> bytes ! 7 \<noteq> 0 \<or> subslice bytes 141 3 \<noteq> [0, 0, 0]
     then Err UjInvalidValue
     else
       and_then (u32_at bytes 144) (\<lambda>expected_crc.
       if journal_crc32 (take 144 bytes) \<noteq> expected_crc then Err UjBadCrc
       else let name_len = unat (bytes ! 6) in
         if name_len = 0 \<or> name_len > UPLOAD_TARGET_NAME_BYTES then Err UjInvalidValue
         else
           and_then (bytes_at bytes 20 name_len) (\<lambda>name.
           if \<not> utf8_valid name then Err UjInvalidValue
           else
             and_then (bytes_at bytes (20 + name_len) (141 - (20 + name_len))) (\<lambda>padding.
             if list_ex (\<lambda>byte. byte \<noteq> 0) padding then Err UjInvalidValue
             else
               and_then (ok_or UjInvalidValue (UploadJournalPhase_from_u8 (bytes ! 5))) (\<lambda>phase.
               and_then (u32_at bytes 8) (\<lambda>generation.
               and_then (u32_at bytes 12) (\<lambda>size.
               and_then (u32_at bytes 16) (\<lambda>crc.
               new_journal_record phase generation size crc name))))))))"

definition is_upload_journal_sector :: "bytes \<Rightarrow> bool" where
  "is_upload_journal_sector sector = is_ok (decode_upload_journal (take UPLOAD_JOURNAL_BYTES sector))"

subsection \<open>The record on the card\<close>

definition journal_valid :: "UploadJournalRecord \<Rightarrow> bool" where
  "journal_valid r \<longleftrightarrow> uj_generation r \<noteq> 0 \<and> (uj_phase r \<noteq> Uj_Clear \<longrightarrow> uj_expected_size r \<noteq> 0) \<and>
    valid_name (uj_target_name r)"

definition journal_body :: "UploadJournalRecord \<Rightarrow> bytes" where
  "journal_body r =
    JOURNAL_MAGIC @ [1, UploadJournalPhase_to_u8 (uj_phase r), of_nat (length (uj_target_name r)), 0] @
    to_le 4 (uj_generation r) @ to_le 4 (uj_expected_size r) @ to_le 4 (uj_expected_crc32 r) @
    uj_target_name r @ replicate (124 - length (uj_target_name r)) 0"

definition journal_wire :: "UploadJournalRecord \<Rightarrow> bytes" where
  "journal_wire r = journal_body r @ to_le 4 (journal_crc32 (journal_body r))"

lemma new_journal_record_eq:
  "new_journal_record p g s c n =
    (if journal_valid \<lparr>uj_phase = p, uj_generation = g, uj_expected_size = s, uj_expected_crc32 = c, uj_target_name = n\<rparr>
     then Ok \<lparr>uj_phase = p, uj_generation = g, uj_expected_size = s, uj_expected_crc32 = c, uj_target_name = n\<rparr>
     else Err UjInvalidValue)"
  by (auto simp: new_journal_record_def journal_valid_def valid_name_def list_ex_iff)

lemma phase_from_to [simp]: "UploadJournalPhase_from_u8 (UploadJournalPhase_to_u8 p) = Some p"
  by (cases p) (simp_all add: UploadJournalPhase_from_u8_def)

lemma phase_to_from: "UploadJournalPhase_from_u8 v = Some p \<longleftrightarrow> v = UploadJournalPhase_to_u8 p"
  by (cases p) (auto simp: UploadJournalPhase_from_u8_def split: if_splits)

lemma length_journal: 
  "journal_valid r \<Longrightarrow> length (journal_body r) = 144" "journal_valid r \<Longrightarrow> length (journal_wire r) = 148"
  by (simp_all add: journal_wire_def journal_body_def journal_valid_def valid_name_def JOURNAL_MAGIC_def)

text \<open>Filling a zeroed buffer from the front.\<close>

lemma put_zeros:
  "length xs = i \<Longrightarrow> length bs \<le> m \<Longrightarrow>
   put (xs @ replicate m 0) i bs = Ok ((xs @ bs) @ replicate (m - length bs) 0)"
  by (simp add: put_def overwrite_append)

lemma zeros_skip: "0 < m \<Longrightarrow> xs @ replicate m (0 :: u8) = (xs @ [0]) @ replicate (m - 1) 0"
  by (cases m) simp_all

lemma new_journal_record_self:
  "new_journal_record (uj_phase r) (uj_generation r) (uj_expected_size r) (uj_expected_crc32 r) (uj_target_name r) =
    (if journal_valid r then Ok r else Err UjInvalidValue)"
  by (cases r) (simp add: new_journal_record_eq)

text \<open>The record up to its name, field by field.\<close>

definition journal_head :: "UploadJournalRecord \<Rightarrow> bytes" where
  "journal_head r = JOURNAL_MAGIC @ [1, UploadJournalPhase_to_u8 (uj_phase r), of_nat (length (uj_target_name r))]"

definition journal_fixed :: "UploadJournalRecord \<Rightarrow> bytes" where
  "journal_fixed r = journal_head r @ [0] @ to_le 4 (uj_generation r) @ to_le 4 (uj_expected_size r) @
    to_le 4 (uj_expected_crc32 r)"

lemma length_journal_parts [simp]: "length (journal_head r) = 7" "length (journal_fixed r) = 20"
  by (simp_all add: journal_head_def journal_fixed_def JOURNAL_MAGIC_def)

lemma journal_head_written:
  fixes k :: "bytes \<Rightarrow> ('a, UploadJournalError) res"
  shows "and_then (put (replicate 148 0) 0 JOURNAL_MAGIC) (\<lambda>out.
   and_then (put out 4 [1]) (\<lambda>out.
   and_then (put out 5 [UploadJournalPhase_to_u8 (uj_phase r)]) (\<lambda>out.
   and_then (put out 6 [of_nat (length (uj_target_name r))]) k))) = k (journal_head r @ replicate 141 0)"
proof -
  let ?p = "UploadJournalPhase_to_u8 (uj_phase r)" and ?n = "of_nat (length (uj_target_name r)) :: u8"
  have len: "length JOURNAL_MAGIC = 4" by (simp add: JOURNAL_MAGIC_def)
  have "put (replicate 148 0) 0 JOURNAL_MAGIC = (Ok (JOURNAL_MAGIC @ replicate 144 0) :: (bytes, UploadJournalError) res)"
    using put_zeros[of "[]" 0 JOURNAL_MAGIC 148] len by simp
  moreover have "put (JOURNAL_MAGIC @ replicate 144 0) 4 [1] = (Ok (JOURNAL_MAGIC @ 1 # replicate 143 0) :: (bytes, UploadJournalError) res)"
    using put_zeros[of JOURNAL_MAGIC 4 "[1]" 144] len by simp
  moreover have "put (JOURNAL_MAGIC @ 1 # replicate 143 0) 5 [?p] = (Ok (JOURNAL_MAGIC @ 1 # ?p # replicate 142 0) :: (bytes, UploadJournalError) res)"
    using put_zeros[of "JOURNAL_MAGIC @ [1]" 5 "[?p]" 143] len by simp
  moreover have "put (JOURNAL_MAGIC @ 1 # ?p # replicate 142 0) 6 [?n] = (Ok (JOURNAL_MAGIC @ 1 # ?p # ?n # replicate 141 0) :: (bytes, UploadJournalError) res)"
    using put_zeros[of "JOURNAL_MAGIC @ [1, ?p]" 6 "[?n]" 142] len by simp
  ultimately show ?thesis by (simp add: journal_head_def)
qed

lemma journal_fixed_written:
  fixes k :: "bytes \<Rightarrow> ('a, UploadJournalError) res"
  shows "and_then (put (journal_head r @ replicate 141 0) 8 (to_le 4 (uj_generation r))) (\<lambda>out.
   and_then (put out 12 (to_le 4 (uj_expected_size r))) (\<lambda>out.
   and_then (put out 16 (to_le 4 (uj_expected_crc32 r))) k)) = k (journal_fixed r @ replicate 128 0)"
proof -
  let ?g = "to_le 4 (uj_generation r)" and ?s = "to_le 4 (uj_expected_size r)" and ?c = "to_le 4 (uj_expected_crc32 r)"
  have "put (journal_head r @ replicate 141 0) 8 ?g = (Ok (journal_head r @ 0 # ?g @ replicate 136 0) :: (bytes, UploadJournalError) res)"
    using put_zeros[of "journal_head r @ [0]" 8 ?g 140] zeros_skip[of 141 "journal_head r"] by simp
  moreover have "put (journal_head r @ 0 # ?g @ replicate 136 0) 12 ?s = (Ok (journal_head r @ 0 # ?g @ ?s @ replicate 132 0) :: (bytes, UploadJournalError) res)"
    using put_zeros[of "journal_head r @ 0 # ?g" 12 ?s 136] by simp
  moreover have "put (journal_head r @ 0 # ?g @ ?s @ replicate 132 0) 16 ?c =
      (Ok (journal_head r @ 0 # ?g @ ?s @ ?c @ replicate 128 0) :: (bytes, UploadJournalError) res)"
    using put_zeros[of "journal_head r @ 0 # ?g @ ?s" 16 ?c 132] by simp
  ultimately show ?thesis by (simp add: journal_fixed_def)
qed

lemma journal_body_fixed:
  "journal_body r = journal_fixed r @ uj_target_name r @ replicate (124 - length (uj_target_name r)) 0"
  by (simp add: journal_body_def journal_fixed_def journal_head_def)

lemma journal_rest_written:
  assumes "journal_valid r"
  shows "and_then (put (journal_fixed r @ replicate 128 0) 20 (uj_target_name r)) (\<lambda>out.
   and_then (bytes_at out 0 144) (\<lambda>prefix. put out 144 (to_le 4 (journal_crc32 prefix)))) = (Ok (journal_wire r) :: (bytes, UploadJournalError) res)"
proof -
  have name: "length (uj_target_name r) \<le> 121" using assms by (simp add: journal_valid_def valid_name_def)
  let ?crc = "to_le 4 (journal_crc32 (journal_body r))"
  have "put (journal_fixed r @ replicate 128 0) 20 (uj_target_name r) =
      (Ok (journal_body r @ replicate 4 0) :: (bytes, UploadJournalError) res)"
    using put_zeros[of "journal_fixed r" 20 "uj_target_name r" 128] name
    by (simp add: journal_body_fixed replicate_add[symmetric])
  moreover have "bytes_at (journal_body r @ replicate 4 0) 0 144 = (Ok (journal_body r) :: (bytes, UploadJournalError) res)"
    using assms by (simp add: bytes_at_def subslice_def length_journal)
  moreover have "put (journal_body r @ replicate 4 0) 144 ?crc = (Ok (journal_wire r) :: (bytes, UploadJournalError) res)"
    using put_zeros[of "journal_body r" 144 ?crc 4] assms by (simp add: length_journal journal_wire_def)
  ultimately show ?thesis by simp
qed

lemma encode_upload_journal_eq:
  "encode_upload_journal r out =
    (if length out \<noteq> 148 then Err UjInvalidLength
     else if \<not> journal_valid r then Err UjInvalidValue else Ok (journal_wire r))"
  by (simp add: encode_upload_journal_def new_journal_record_self Let_def journal_head_written
      journal_fixed_written journal_rest_written)

lemma journal_wire_fields:
  assumes "journal_valid r"
  shows "take 4 (journal_wire r) = JOURNAL_MAGIC" "journal_wire r ! 4 = 1" "journal_wire r ! 7 = 0"
    "journal_wire r ! 5 = UploadJournalPhase_to_u8 (uj_phase r)"
    "unat (journal_wire r ! 6) = length (uj_target_name r)"
    "u32_at (journal_wire r) 8 = (Ok (uj_generation r) :: (u32, UploadJournalError) res)"
    "u32_at (journal_wire r) 12 = (Ok (uj_expected_size r) :: (u32, UploadJournalError) res)"
    "u32_at (journal_wire r) 16 = (Ok (uj_expected_crc32 r) :: (u32, UploadJournalError) res)"
    "u32_at (journal_wire r) 144 = (Ok (journal_crc32 (journal_body r)) :: (u32, UploadJournalError) res)"
    "take 144 (journal_wire r) = journal_body r"
    "bytes_at (journal_wire r) 20 (length (uj_target_name r)) = (Ok (uj_target_name r) :: (bytes, UploadJournalError) res)"
    "bytes_at (journal_wire r) (20 + length (uj_target_name r)) (121 - length (uj_target_name r)) =
      (Ok (replicate (121 - length (uj_target_name r)) 0) :: (bytes, UploadJournalError) res)"
    "subslice (journal_wire r) 141 3 = [0, 0, 0]"
proof -
  have name: "length (uj_target_name r) \<le> 121" using assms by (simp add: journal_valid_def valid_name_def)
  have len: "length (journal_wire r) = 148" "length (journal_body r) = 144" using assms by (simp_all add: length_journal)
  show "take 4 (journal_wire r) = JOURNAL_MAGIC" "journal_wire r ! 4 = 1" "journal_wire r ! 7 = 0"
    "journal_wire r ! 5 = UploadJournalPhase_to_u8 (uj_phase r)"
    "unat (journal_wire r ! 6) = length (uj_target_name r)"
    using name by (simp_all add: journal_wire_def journal_body_def JOURNAL_MAGIC_def)
  show "take 144 (journal_wire r) = journal_body r" using len by (simp add: journal_wire_def)
  show "u32_at (journal_wire r) 144 = (Ok (journal_crc32 (journal_body r)) :: (u32, UploadJournalError) res)"
    using len by (simp add: u32_at_Ok journal_wire_def slice_read of_le_to_le)
  show "u32_at (journal_wire r) 8 = (Ok (uj_generation r) :: (u32, UploadJournalError) res)"
    "u32_at (journal_wire r) 12 = (Ok (uj_expected_size r) :: (u32, UploadJournalError) res)"
    "u32_at (journal_wire r) 16 = (Ok (uj_expected_crc32 r) :: (u32, UploadJournalError) res)"
    using len
    by (simp_all add: u32_at_Ok, simp_all add: journal_wire_def journal_body_def JOURNAL_MAGIC_def slice_read of_le_to_le)
  show "bytes_at (journal_wire r) 20 (length (uj_target_name r)) = (Ok (uj_target_name r) :: (bytes, UploadJournalError) res)"
    using len name by (simp add: bytes_at_Ok, simp add: journal_wire_def journal_body_fixed slice_read)
  show "bytes_at (journal_wire r) (20 + length (uj_target_name r)) (121 - length (uj_target_name r)) =
      (Ok (replicate (121 - length (uj_target_name r)) 0) :: (bytes, UploadJournalError) res)"
    using len name by (simp add: bytes_at_Ok, simp add: journal_wire_def journal_body_fixed slice_read subslice_def)
  show "subslice (journal_wire r) 141 3 = [0, 0, 0]"
    using len name by (simp add: journal_wire_def journal_body_fixed slice_read subslice_def numeral_3_eq_3)
qed

lemma decode_upload_journal_wire:
  assumes "journal_valid r" and "utf8_valid (uj_target_name r)"
  shows "decode_upload_journal (journal_wire r) = Ok r"
proof -
  have name: "length (uj_target_name r) \<le> 121" "uj_target_name r \<noteq> []"
    using assms by (simp_all add: journal_valid_def valid_name_def)
  then show ?thesis
    using assms by (simp add: decode_upload_journal_def length_journal journal_wire_fields list_ex_iff Let_def
      new_journal_record_self)
qed

lemma field_split: "drop i p = subslice p i n @ drop (i + n) p"
  by (simp add: subslice_def add.commute[of i n] flip: drop_drop)

lemma journal_split:
  assumes "length p = 148" and "n \<le> 121"
  shows "p = take 4 p @ [p ! 4, p ! 5, p ! 6, p ! 7] @ subslice p 8 4 @ subslice p 12 4 @ subslice p 16 4 @
    subslice p 20 n @ subslice p (20 + n) (121 - n) @ subslice p 141 3 @ subslice p 144 4"
proof -
  have "drop 4 p = [p ! 4, p ! 5, p ! 6, p ! 7] @ drop 8 p"
    using assms by (simp add: Cons_nth_drop_Suc numeral_eq_Suc)
  moreover have "drop 8 p = subslice p 8 4 @ drop 12 p" "drop 12 p = subslice p 12 4 @ drop 16 p"
    "drop 16 p = subslice p 16 4 @ drop 20 p" "drop 20 p = subslice p 20 n @ drop (20 + n) p"
    "drop 141 p = subslice p 141 3 @ drop 144 p"
    using field_split[of 8 p 4] field_split[of 12 p 4] field_split[of 16 p 4] field_split[of 20 p n]
      field_split[of 141 p 3] by simp_all
  moreover have "drop (20 + n) p = subslice p (20 + n) (121 - n) @ drop 141 p"
    using field_split[of "20 + n" p "121 - n"] assms by simp
  moreover have "drop 144 p = subslice p 144 4"
    using assms by (simp add: subslice_def)
  ultimately show ?thesis
    using append_take_drop_id[of 4 p] by metis
qed

lemma zeros_eq: "list_ex (\<lambda>b. b \<noteq> (0 :: u8)) xs \<longleftrightarrow> xs \<noteq> replicate (length xs) 0"
  by (induction xs) auto

lemma of_nat_unat_u8: "of_nat (unat (b :: u8)) = b"
  by simp

lemma decode_upload_journal_only:
  assumes "decode_upload_journal p = Ok r"
  shows "journal_valid r \<and> utf8_valid (uj_target_name r) \<and> p = journal_wire r"
proof -
  let ?n = "unat (p ! 6)"
  from assms have len: "length p = 148" by (auto simp: decode_upload_journal_def split: if_splits)
  from assms have n: "0 < ?n" "?n \<le> 121"
    by (auto simp: decode_upload_journal_def and_then_Ok_iff Let_def split: if_splits)
  have reads: "u32_at p i = (Ok (of_le (subslice p i 4)) :: (u32, UploadJournalError) res)" if "i + 4 \<le> 148" for i
    using that len by (simp add: u32_at_Ok)
  have slices: "bytes_at p 20 ?n = (Ok (subslice p 20 ?n) :: (bytes, UploadJournalError) res)"
    "bytes_at p (20 + ?n) (121 - ?n) = (Ok (subslice p (20 + ?n) (121 - ?n)) :: (bytes, UploadJournalError) res)"
    using n len by (simp_all add: bytes_at_Ok)
  from assms n obtain phase where
    fixed: "take 4 p = JOURNAL_MAGIC" "p ! 4 = 1" "p ! 7 = 0" "subslice p 141 3 = [0, 0, 0]"
    and crc: "journal_crc32 (take 144 p) = of_le (subslice p 144 4)"
    and name: "utf8_valid (subslice p 20 ?n)" and pad: "subslice p (20 + ?n) (121 - ?n) = replicate (121 - ?n) 0"
    and phase: "p ! 5 = UploadJournalPhase_to_u8 phase"
    and new: "new_journal_record phase (of_le (subslice p 8 4)) (of_le (subslice p 12 4)) (of_le (subslice p 16 4))
      (subslice p 20 ?n) = Ok r"
    using len n
    by (auto simp: decode_upload_journal_def reads slices and_then_Ok_iff Let_def zeros_eq phase_to_from split: if_splits)
  then have valid: "journal_valid r" and r: "r = \<lparr>uj_phase = phase, uj_generation = of_le (subslice p 8 4),
      uj_expected_size = of_le (subslice p 12 4), uj_expected_crc32 = of_le (subslice p 16 4),
      uj_target_name = subslice p 20 ?n\<rparr>"
    by (auto simp: new_journal_record_eq split: if_splits)
  have lengths: "length (subslice p 20 ?n) = ?n" "length (subslice p i 4) = 4" if "i + 4 \<le> 148" for i
    using len n that by simp_all
  have "124 - ?n = (121 - ?n) + 3" using n by simp
  then have pad3: "replicate (124 - ?n) (0 :: u8) = replicate (121 - ?n) 0 @ [0, 0, 0]"
    by (simp only: replicate_add) (simp add: numeral_3_eq_3)
  have "journal_body r = take 4 p @ [p ! 4, p ! 5, p ! 6, p ! 7] @ subslice p 8 4 @ subslice p 12 4 @
      subslice p 16 4 @ subslice p 20 ?n @ subslice p (20 + ?n) (121 - ?n) @ subslice p 141 3"
    using lengths[of 8] lengths[of 12] lengths[of 16] len
    by (simp add: journal_body_def r fixed phase pad pad3 to_le_of_le)
  then have body: "p = journal_body r @ subslice p 144 4"
    using journal_split[OF len n(2)] by simp
  then have "take 144 p = journal_body r"
    using length_journal(1)[OF valid] by (metis append_eq_conv_conj)
  then have "p = journal_wire r"
    using body crc lengths[of 144] by (simp add: journal_wire_def to_le_of_le)
  then show ?thesis using valid name r by simp
qed

lemma decode_upload_journal_iff:
  "decode_upload_journal p = Ok r \<longleftrightarrow> journal_valid r \<and> utf8_valid (uj_target_name r) \<and> p = journal_wire r"
  using decode_upload_journal_only decode_upload_journal_wire by blast

lemma decode_upload_journal_total: "decode_upload_journal p \<noteq> Panic"
proof (cases "length p = 148 \<and> unat (p ! 6) \<le> 121")
  case True
  then show ?thesis
    by (auto simp: decode_upload_journal_def u32_at_Ok bytes_at_Ok new_journal_record_eq Let_def and_then_Panic_iff)
next
  case False
  then show ?thesis
    by (auto simp: decode_upload_journal_def u32_at_Ok Let_def)
qed

text \<open>A record with one byte changed is not a record: the checksum covers every byte but its own.\<close>

lemma journal_wire_change:
  assumes "journal_valid r" and "i < 148" and "c \<noteq> journal_wire r ! i" and "journal_valid r'"
  shows "(journal_wire r)[i := c] \<noteq> journal_wire r'"
proof
  assume eq: "(journal_wire r)[i := c] = journal_wire r'"
  have l: "length (journal_body r) = 144" "length (journal_body r') = 144"
    using assms(1,4) by (simp_all add: length_journal)
  show False
  proof (cases "i < 144")
    case True
    then have "(journal_body r)[i := c] = journal_body r'"
      "to_le 4 (journal_crc32 (journal_body r)) = to_le 4 (journal_crc32 (journal_body r'))"
      using eq l by (simp_all add: journal_wire_def list_update_append)
    moreover have "of_le (to_le 4 w) = w" for w :: u32 by (simp add: of_le_to_le)
    ultimately have "journal_crc32 ((journal_body r)[i := c]) = journal_crc32 (journal_body r)" by metis
    then have "iso_hdlc ((journal_body r)[i := c]) = iso_hdlc (journal_body r)"
      by (simp add: journal_crc32_def iso_hdlc_def host_crc32_update_eq)
    then have "journal_body r ! i = c" using iso_hdlc_update_nth l True by simp
    then show False using assms(3) True l by (simp add: journal_wire_def nth_append)
  next
    case False
    then have "journal_body r = journal_body r'"
      using eq l by (simp add: journal_wire_def list_update_append)
    then have "(journal_wire r)[i := c] = journal_wire r" using eq by (simp add: journal_wire_def)
    then show False using assms(2,3) length_journal(2)[OF assms(1)] by (metis nth_list_update_eq)
  qed
qed

text \<open>C20: The upload journal decoder accepts exactly the records the encoder writes: it never
  panics, and \<open>decode_upload_journal\<close> reads \<open>r\<close> from \<open>p\<close> exactly when the name of \<open>r\<close> is well-formed and
  \<open>encode_upload_journal\<close> stores \<open>r\<close> as \<open>p\<close>, whatever the buffer of \<open>UPLOAD_JOURNAL_BYTES\<close> bytes held that it
  writes into; into a buffer of another size it stores nothing.\<close>

theorem journal_decoder_exact:
  "decode_upload_journal p \<noteq> Panic \<and>
   (decode_upload_journal p = Ok r \<and> length out = UPLOAD_JOURNAL_BYTES \<longleftrightarrow>
    utf8_valid (uj_target_name r) \<and> encode_upload_journal r out = Ok p)"
  using decode_upload_journal_total by (auto simp: decode_upload_journal_iff encode_upload_journal_eq)

text \<open>C21: A torn or corrupted journal is not mistaken for a record: changing any one byte of an
  encoded record makes the decoder reject it, and \<open>is_upload_journal_sector\<close> says no.\<close>

theorem journal_rejects_corruption:
  assumes "encode_upload_journal r out = Ok p" and "i < UPLOAD_JOURNAL_BYTES" and "c \<noteq> p ! i"
  shows "\<not> is_ok (decode_upload_journal (p[i := c])) \<and> \<not> is_upload_journal_sector (p[i := c] @ replicate 364 0)"
proof -
  from assms(1) have valid: "journal_valid r" and p: "p = journal_wire r"
    by (auto simp: encode_upload_journal_eq split: if_splits)
  have "decode_upload_journal (p[i := c]) \<noteq> Ok r'" for r'
    using journal_wire_change[OF valid] assms p by (auto simp: decode_upload_journal_iff)
  then have "\<not> is_ok (decode_upload_journal (p[i := c]))"
    by (cases "decode_upload_journal (p[i := c])") auto
  then show ?thesis using length_journal(2)[OF valid] p by (simp add: is_upload_journal_sector_def)
qed

definition sample_journal :: UploadJournalRecord where
  "sample_journal = \<lparr>uj_phase = Uj_Verified, uj_generation = 7, uj_expected_size = 1024, uj_expected_crc32 = 99,
    uj_target_name = [0x61, 0x2E, 0x62]\<rparr>"

theorem journal_rejects_corruption_witness:
  "\<not> is_ok (decode_upload_journal ((journal_wire sample_journal)[5 := 4])) \<and>
   \<not> is_upload_journal_sector ((journal_wire sample_journal)[5 := 4] @ replicate 364 0)"
  by (rule journal_rejects_corruption[where r = sample_journal and out = "replicate 148 0"])
    (simp_all add: encode_upload_journal_eq journal_valid_def valid_name_def sample_journal_def journal_wire_def
      journal_body_def JOURNAL_MAGIC_def)

end
