(* ===== verification/Storage_Owner.thy ===== *)
theory Storage_Owner
  imports Codec
begin

text \<open>
  The storage owner of \<^verbatim>\<open>binbook-fw/src/storage_owner.rs\<close>: the requests and responses that cross its
  queue, the record format of a directory scan, the priority mailboxes, the upload and scan protocol, and the
  execution of a request against a storage backend.  The backend is the trait \<open>OwnerBackend\<close>; here it is a
  record of functions on a backend state, and every definition takes it as an argument.
\<close>

subsection \<open>Names, buffers and priorities\<close>

definition MAX_BOUNDED_IO_BYTES :: u16 where [simp]: "MAX_BOUNDED_IO_BYTES = 4096"
definition SCAN_ENTRY_BUDGET :: u8 where [simp]: "SCAN_ENTRY_BUDGET = 8"
definition MAX_BINBOOK_NAME_BYTES :: nat where [simp]: "MAX_BINBOOK_NAME_BYTES = 121"
definition SCAN_RECORD_BYTES :: nat where "SCAN_RECORD_BYTES = 1 + MAX_BINBOOK_NAME_BYTES + 8 + 2"
definition SCAN_BATCH_BYTES :: nat where "SCAN_BATCH_BYTES = SCAN_RECORD_BYTES * unat SCAN_ENTRY_BUDGET"

lemma scan_bytes [simp]: "SCAN_RECORD_BYTES = 132" "SCAN_BATCH_BYTES = 1056"
  by (simp_all add: SCAN_RECORD_BYTES_def SCAN_BATCH_BYTES_def)

datatype RequestError = ReNameTooLong | ReEmpty | ReTooLarge | ReBusy | ReStale

text \<open>A \<open>StorageName\<close> is a string of at most 121 bytes.\<close>

type_synonym StorageName = bytes

definition StorageName_new :: "bytes \<Rightarrow> (StorageName, RequestError) res" where
  "StorageName_new name = (if length name \<le> MAX_BINBOOK_NAME_BYTES then Ok name else Err ReNameTooLong)"

text \<open>A \<open>MountFileToken\<close> is a non-zero 16-bit number: the mount generation and the entry number.\<close>

type_synonym MountFileToken = u16

definition MountFileToken_new :: "u16 \<Rightarrow> MountFileToken option" where
  "MountFileToken_new v = (if v = 0 then None else Some v)"

definition token_for_mount_entry :: "u8 \<Rightarrow> u8 \<Rightarrow> MountFileToken option" where
  "token_for_mount_entry generation index =
    (if generation = 0 \<or> 200 \<le> index then None
     else MountFileToken_new (push_bit 8 (ucast generation) OR (ucast index + 1)))"

definition token_mount_generation :: "MountFileToken \<Rightarrow> u8" where
  "token_mount_generation token = ucast (drop_bit 8 token)"

definition token_entry_index :: "MountFileToken \<Rightarrow> nat option" where
  "token_entry_index token =
    (let encoded = ucast (token AND 0xFF) :: u8 in
     if encoded = 0 \<or> 200 < encoded then None else Some (unat (encoded - 1)))"

datatype BufferSlot = BsReader | BsState | BsDiagnostic | BsLibraryIndex | Bulk0 | Bulk1 | Bulk2 | Bulk3

definition BufferSlot_bulk :: "u8 \<Rightarrow> BufferSlot option" where
  "BufferSlot_bulk index =
    (if index = 0 then Some Bulk0 else if index = 1 then Some Bulk1 else if index = 2 then Some Bulk2
     else if index = 3 then Some Bulk3 else None)"

fun bulk_index :: "BufferSlot \<Rightarrow> u8 option" where
  "bulk_index Bulk0 = Some 0"
| "bulk_index Bulk1 = Some 1"
| "bulk_index Bulk2 = Some 2"
| "bulk_index Bulk3 = Some 3"
| "bulk_index _ = None"

lemma bulk_index_bulk: "BufferSlot_bulk i = Some s \<longleftrightarrow> bulk_index s = Some i"
  by (cases s) (auto simp: BufferSlot_bulk_def split: if_splits)

lemma BufferSlot_bulk_None: "BufferSlot_bulk i = None \<longleftrightarrow> 4 \<le> unat i"
proof -
  have "i = 0 \<or> i = 1 \<or> i = 2 \<or> i = 3" if "unat i < 4"
  proof -
    have "unat i = 0 \<or> unat i = 1 \<or> unat i = 2 \<or> unat i = 3" using that by linarith
    then show ?thesis by (auto simp: word_unat_eq_iff)
  qed
  then show ?thesis by (force simp: BufferSlot_bulk_def)
qed

datatype RequestPriority = Background | Foreground | PowerSave | Control

fun priority_rank :: "RequestPriority \<Rightarrow> nat" where
  "priority_rank Background = 0"
| "priority_rank Foreground = 1"
| "priority_rank PowerSave = 2"
| "priority_rank Control = 3"

text \<open>The derived order of the enum: its variants in the order they are declared.\<close>

instantiation RequestPriority :: linorder
begin

definition less_eq_RequestPriority :: "RequestPriority \<Rightarrow> RequestPriority \<Rightarrow> bool" where
  "p \<le> q \<longleftrightarrow> priority_rank p \<le> priority_rank q"

definition less_RequestPriority :: "RequestPriority \<Rightarrow> RequestPriority \<Rightarrow> bool" where
  "p < q \<longleftrightarrow> priority_rank p < priority_rank q"

instance
proof
  show "x = y" if "x \<le> y" "y \<le> x" for x y :: RequestPriority
    using that by (cases x; cases y) (simp_all add: less_eq_RequestPriority_def)
qed (auto simp: less_eq_RequestPriority_def less_RequestPriority_def)

end

subsection \<open>Requests\<close>

datatype Request =
    ActivateFile StorageName MountFileToken
  | FileSize StorageName
  | ReadFile StorageName u64 u16 u16 BufferSlot
  | UploadBegin StorageName u64 u32 bool
  | UploadWrite u32 u64 u16 u16 BufferSlot
      bool
  | UploadCommit u32 bool
  | UploadAbort u32
  | DeleteFile StorageName
  | ScanStart
  | ScanPrefetch u32 StorageName
  | ScanStep u32 BufferSlot
  | ScanFinish u32
  | ScanCancel u32
  | LibraryScratchCreate
  | LibraryScratchWrite u64 u16 u16 BufferSlot
  | LibraryScratchRead u64 u16 u16 BufferSlot
  | LibraryScratchFlush
  | LibraryScratchDelete

definition validate_len :: "u16 \<Rightarrow> (unit, RequestError) res" where
  "validate_len len =
    (if len = 0 then Err ReEmpty else if MAX_BOUNDED_IO_BYTES < len then Err ReTooLarge else Ok ())"

definition Request_read :: "StorageName \<Rightarrow> u64 \<Rightarrow> u16 \<Rightarrow> BufferSlot \<Rightarrow> (Request, RequestError) res" where
  "Request_read name offset len buffer =
    and_then (validate_len len) (\<lambda>_. Ok (ReadFile name offset 0 len buffer))"

definition Request_read_into ::
    "StorageName \<Rightarrow> u64 \<Rightarrow> u16 \<Rightarrow> u16 \<Rightarrow> BufferSlot \<Rightarrow> (Request, RequestError) res" where
  "Request_read_into name offset buffer_offset len buffer =
    and_then (validate_len len) (\<lambda>_. Ok (ReadFile name offset buffer_offset len buffer))"

fun request_priority :: "Request \<Rightarrow> RequestPriority" where
  "request_priority ScanStart = Background"
| "request_priority (ScanPrefetch _ _) = Background"
| "request_priority (ScanStep _ _) = Background"
| "request_priority (ScanFinish _) = Background"
| "request_priority (ScanCancel _) = Background"
| "request_priority LibraryScratchCreate = Background"
| "request_priority (LibraryScratchWrite _ _ _ _) = Background"
| "request_priority (LibraryScratchRead _ _ _ _) = Background"
| "request_priority LibraryScratchFlush = Background"
| "request_priority LibraryScratchDelete = Background"
| "request_priority (UploadAbort _) = Control"
| "request_priority (UploadBegin _ _ _ power_save) = (if power_save then PowerSave else Foreground)"
| "request_priority (UploadWrite _ _ _ _ _ power_save) = (if power_save then PowerSave else Foreground)"
| "request_priority (UploadCommit _ power_save) = (if power_save then PowerSave else Foreground)"
| "request_priority _ = Foreground"

definition is_background :: "Request \<Rightarrow> bool" where
  "is_background r \<longleftrightarrow> request_priority r = Background"

datatype StorageClient = ScReader | ScState | ScDiagnostic | ScLibrary

record RequestEnvelope =
  rq_client :: StorageClient
  rq_sequence :: u32
  rq_request :: Request

datatype CompletionError = CeRequest RequestError | CeBackend | CeBufferUnavailable

record ScanProgress =
  sp_entries :: u8
  sp_complete :: bool
  sp_unsupported_name :: bool

datatype Response = Ack | RespFileSize u64 | RespRead u16 | RespWritten u16 | UploadStarted u32
  | ScanStarted u32 | RespScanProgress ScanProgress

record ResponseEnvelope =
  rs_client :: StorageClient
  rs_sequence :: u32
  rs_response :: "(Response, CompletionError) res"

record BufferLease =
  lease_slot :: BufferSlot
  lease_bytes :: bytes

record OwnedRequest =
  orq_envelope :: RequestEnvelope
  orq_buffer :: "BufferLease option"

record OwnedResponse =
  ors_envelope :: ResponseEnvelope
  ors_buffer :: "BufferLease option"

definition envelope_success :: "RequestEnvelope \<Rightarrow> Response \<Rightarrow> ResponseEnvelope" where
  "envelope_success request response =
    \<lparr>rs_client = rq_client request, rs_sequence = rq_sequence request, rs_response = Ok response\<rparr>"

definition envelope_failure :: "RequestEnvelope \<Rightarrow> CompletionError \<Rightarrow> ResponseEnvelope" where
  "envelope_failure request error =
    \<lparr>rs_client = rq_client request, rs_sequence = rq_sequence request, rs_response = Err error\<rparr>"

definition reject_owned_request :: "OwnedRequest \<Rightarrow> CompletionError \<Rightarrow> OwnedResponse" where
  "reject_owned_request request error =
    \<lparr>ors_envelope = envelope_failure (orq_envelope request) error, ors_buffer = orq_buffer request\<rparr>"

end
