(* ===== verification/Storage_Queue.thy ===== *)
theory Storage_Queue
  imports Storage_Owner
begin

text \<open>
  The priority mailboxes of \<^verbatim>\<open>binbook-fw/src/storage_owner.rs\<close>.  The three queue types of the file pop the
  first entry of the highest priority.  The locale \<open>priority_mailbox\<close> states that contract and proves the order
  in which a mailbox is drained.
\<close>

record QueuedRequest =
  qr_sequence :: u32
  qr_request :: Request

text \<open>The selection loop of every \<open>pop\<close>.\<close>

definition select_highest :: "('a \<Rightarrow> RequestPriority) \<Rightarrow> 'a list \<Rightarrow> nat" where
  "select_highest prio pending =
    foldl (\<lambda>selected index. if prio (pending ! index) > prio (pending ! selected) then index else selected)
      0 [1..<length pending]"

definition queue_push :: "nat \<Rightarrow> u32 \<Rightarrow> Request \<Rightarrow> QueuedRequest list \<Rightarrow> (unit, RequestError) res \<times> QueuedRequest list" where
  "queue_push capacity sequence request pending =
    (if length pending < capacity then (Ok (), pending @ [\<lparr>qr_sequence = sequence, qr_request = request\<rparr>])
     else (Err ReBusy, pending))"

definition queue_pop :: "QueuedRequest list \<Rightarrow> QueuedRequest option \<times> QueuedRequest list" where
  "queue_pop pending =
    (let selected = select_highest (\<lambda>q. request_priority (qr_request q)) pending in
     if pending = [] then (None, pending) else (Some (pending ! selected), remove_at selected pending))"

definition mailbox_push :: "nat \<Rightarrow> RequestEnvelope \<Rightarrow> RequestEnvelope list \<Rightarrow> (unit, RequestError) res \<times> RequestEnvelope list" where
  "mailbox_push capacity request pending =
    (if length pending < capacity then (Ok (), pending @ [request]) else (Err ReBusy, pending))"

definition mailbox_pop :: "RequestEnvelope list \<Rightarrow> RequestEnvelope option \<times> RequestEnvelope list" where
  "mailbox_pop pending =
    (if pending = [] then (None, pending)
     else let selected = select_highest (\<lambda>r. request_priority (rq_request r)) pending in
       (Some (pending ! selected), remove_at selected pending))"

text \<open>\<open>OwnedMailbox::push\<close> gives a refused request back, with its buffer.\<close>

definition owned_push :: "nat \<Rightarrow> OwnedRequest \<Rightarrow> OwnedRequest list \<Rightarrow> (unit, OwnedRequest) res \<times> OwnedRequest list" where
  "owned_push capacity request pending =
    (if length pending < capacity then (Ok (), pending @ [request]) else (Err request, pending))"

definition owned_priority :: "OwnedRequest \<Rightarrow> RequestPriority" where
  "owned_priority r = request_priority (rq_request (orq_envelope r))"

definition owned_pop :: "OwnedRequest list \<Rightarrow> OwnedRequest option \<times> OwnedRequest list" where
  "owned_pop pending =
    (if pending = [] then (None, pending)
     else let selected = select_highest owned_priority pending in
       (Some (pending ! selected), remove_at selected pending))"

definition owned_pop_client :: "StorageClient \<Rightarrow> OwnedRequest list \<Rightarrow> OwnedRequest option \<times> OwnedRequest list" where
  "owned_pop_client client pending =
    (let selected = foldl (\<lambda>selected index.
        if rq_client (orq_envelope (pending ! index)) \<noteq> client then selected
        else case selected of
            None \<Rightarrow> Some index
          | Some current \<Rightarrow>
              if owned_priority (pending ! index) > owned_priority (pending ! current) then Some index else selected)
        None [0..<length pending]
     in case selected of None \<Rightarrow> (None, pending) | Some i \<Rightarrow> (Some (pending ! i), remove_at i pending))"

subsection \<open>The contract\<close>

text \<open>The first of the highest entries that satisfy \<open>P\<close>.\<close>

definition first_highest :: "('a \<Rightarrow> 'p::linorder) \<Rightarrow> ('a \<Rightarrow> bool) \<Rightarrow> 'a list \<Rightarrow> nat \<Rightarrow> bool" where
  "first_highest prio P xs i \<longleftrightarrow> i < length xs \<and> P (xs ! i) \<and>
    (\<forall>j<length xs. P (xs ! j) \<longrightarrow> prio (xs ! j) \<le> prio (xs ! i)) \<and>
    (\<forall>j<i. P (xs ! j) \<longrightarrow> prio (xs ! j) < prio (xs ! i))"

text \<open>Popping until the mailbox is empty.\<close>

primrec drain :: "('a list \<Rightarrow> 'a option \<times> 'a list) \<Rightarrow> nat \<Rightarrow> 'a list \<Rightarrow> 'a list" where
  "drain pop 0 xs = []"
| "drain pop (Suc n) xs = (case pop xs of (None, _) \<Rightarrow> [] | (Some x, rest) \<Rightarrow> x # drain pop n rest)"

lemma filter_remove_other: "i < length xs \<Longrightarrow> \<not> Q (xs ! i) \<Longrightarrow> filter Q (remove_at i xs) = filter Q xs"
  using arg_cong[OF remove_at_split[of i xs], of "filter Q"] by (simp add: remove_at_def)

lemma filter_remove_first:
  assumes "i < length xs" and "Q (xs ! i)" and "\<forall>j<i. \<not> Q (xs ! j)"
  shows "filter Q xs = xs ! i # filter Q (remove_at i xs)"
proof -
  have "filter Q (take i xs) = []" using assms by (auto simp: filter_empty_conv in_set_conv_nth)
  then show ?thesis
    using arg_cong[OF remove_at_split[OF assms(1)], of "filter Q"] assms(2) by (simp add: remove_at_def)
qed

locale priority_mailbox =
  fixes prio :: "'a \<Rightarrow> 'p::linorder" and pop :: "'a list \<Rightarrow> 'a option \<times> 'a list"
  assumes pop_Nil: "pop [] = (None, [])"
    and pop_highest: "xs \<noteq> [] \<Longrightarrow>
      \<exists>i. first_highest prio (\<lambda>_. True) xs i \<and> pop xs = (Some (xs ! i), remove_at i xs)"
begin

lemma pop_cases:
  assumes "xs \<noteq> []"
  obtains i where "i < length xs" "first_highest prio (\<lambda>_. True) xs i" "pop xs = (Some (xs ! i), remove_at i xs)"
proof -
  from pop_highest[OF assms] obtain i where
    "first_highest prio (\<lambda>_. True) xs i" "pop xs = (Some (xs ! i), remove_at i xs)" by blast
  then show ?thesis by (intro that[of i]) (simp_all add: first_highest_def)
qed

lemma drain_set: "set (drain pop n xs) \<subseteq> set xs"
proof (induction n arbitrary: xs)
  case (Suc n)
  show ?case
  proof (cases "xs = []")
    case False
    then obtain i where "i < length xs" "pop xs = (Some (xs ! i), remove_at i xs)"
      by (rule pop_cases)
    then show ?thesis using Suc[of "remove_at i xs"] set_remove_at_subset[of i xs] by auto
  qed (simp add: pop_Nil)
qed simp

lemma drain_fair: "filter (\<lambda>x. prio x = p) (drain pop (length xs) xs) = filter (\<lambda>x. prio x = p) xs"
proof (induction "length xs" arbitrary: xs)
  case (Suc n)
  then have "xs \<noteq> []" by auto
  then obtain i where "i < length xs"
    and i: "first_highest prio (\<lambda>_. True) xs i" "pop xs = (Some (xs ! i), remove_at i xs)"
    by (rule pop_cases)
  then have "n = length (remove_at i xs)" using Suc.hyps(2) by simp
  then have IH: "filter (\<lambda>x. prio x = p) (drain pop n (remove_at i xs)) = filter (\<lambda>x. prio x = p) (remove_at i xs)"
    using Suc.hyps(1)[of "remove_at i xs"] by simp
  have step: "drain pop (length xs) xs = xs ! i # drain pop n (remove_at i xs)"
    using i Suc.hyps(2)[symmetric] by simp
  show ?case
  proof (cases "prio (xs ! i) = p")
    case True
    have "\<forall>j<i. \<not> prio (xs ! j) = p" using i True by (auto simp: first_highest_def)
    from filter_remove_first[of i xs "\<lambda>x. prio x = p", OF \<open>i < length xs\<close> True this]
    show ?thesis using True IH step by simp
  next
    case False
    then show ?thesis using filter_remove_other[of i xs "\<lambda>x. prio x = p"] \<open>i < length xs\<close> IH step by simp
  qed
qed simp

lemma drain_sorted: "sorted_wrt (\<lambda>x y. prio y \<le> prio x) (drain pop (length xs) xs)"
proof (induction "length xs" arbitrary: xs)
  case (Suc n)
  then have "xs \<noteq> []" by auto
  then obtain i where "i < length xs"
    and i: "first_highest prio (\<lambda>_. True) xs i" "pop xs = (Some (xs ! i), remove_at i xs)"
    by (rule pop_cases)
  then have "n = length (remove_at i xs)" using Suc.hyps(2) by simp
  then have IH: "sorted_wrt (\<lambda>x y. prio y \<le> prio x) (drain pop n (remove_at i xs))"
    using Suc.hyps(1)[of "remove_at i xs"] by simp
  have "\<forall>y\<in>set xs. prio y \<le> prio (xs ! i)" using i by (auto simp: first_highest_def in_set_conv_nth)
  then have "\<forall>y\<in>set (drain pop n (remove_at i xs)). prio y \<le> prio (xs ! i)"
    using drain_set[of n "remove_at i xs"] set_remove_at_subset[of i xs] by blast
  then show ?case using IH i Suc.hyps(2)[symmetric] by simp
qed simp

end

subsection \<open>The mailboxes of the code\<close>

lemma select_highest_upto:
  "n < length xs \<Longrightarrow>
   (let s = foldl (\<lambda>selected index. if prio (xs ! index) > prio (xs ! selected) then index else selected) 0 [1..<Suc n]
    in s \<le> n \<and> (\<forall>j\<le>n. prio (xs ! j) \<le> prio (xs ! s)) \<and> (\<forall>j < s. prio (xs ! j) < prio (xs ! s)))"
  for prio :: "'a \<Rightarrow> RequestPriority"
proof (induction n)
  case (Suc n)
  then show ?case by (fastforce simp: Let_def le_Suc_eq less_Suc_eq_le)
qed simp

lemma select_highest_first:
  assumes "xs \<noteq> []"
  shows "first_highest prio (\<lambda>_. True) xs (select_highest prio xs)"
proof -
  from assms obtain n where n: "length xs = Suc n" by (cases xs) auto
  define s where "s = select_highest prio xs"
  have "s \<le> n \<and> (\<forall>j\<le>n. prio (xs ! j) \<le> prio (xs ! s)) \<and> (\<forall>j < s. prio (xs ! j) < prio (xs ! s))"
    using select_highest_upto[of n xs prio] n by (simp add: s_def select_highest_def Let_def del: upt_Suc)
  then show ?thesis using n unfolding first_highest_def s_def[symmetric] by (simp add: less_Suc_eq_le)
qed

interpretation queue: priority_mailbox "\<lambda>q. request_priority (qr_request q)" queue_pop
  by unfold_locales (auto simp: queue_pop_def Let_def intro: select_highest_first)

interpretation mailbox: priority_mailbox "\<lambda>r. request_priority (rq_request r)" mailbox_pop
  by unfold_locales (auto simp: mailbox_pop_def Let_def intro: select_highest_first)

interpretation owned: priority_mailbox owned_priority owned_pop
  by unfold_locales (auto simp: owned_pop_def Let_def intro: select_highest_first)

text \<open>\<open>pop_client\<close> is the same selection among the requests of one client.\<close>

lemma pop_client_upto:
  "n \<le> length xs \<Longrightarrow>
   (case foldl (\<lambda>selected index.
        if rq_client (orq_envelope (xs ! index)) \<noteq> client then selected
        else case selected of
            None \<Rightarrow> Some index
          | Some current \<Rightarrow>
              if owned_priority (xs ! index) > owned_priority (xs ! current) then Some index else selected)
        None [0..<n] of
      None \<Rightarrow> \<forall>j<n. rq_client (orq_envelope (xs ! j)) \<noteq> client
    | Some i \<Rightarrow> i < n \<and> rq_client (orq_envelope (xs ! i)) = client \<and>
        (\<forall>j<n. rq_client (orq_envelope (xs ! j)) = client \<longrightarrow> owned_priority (xs ! j) \<le> owned_priority (xs ! i)) \<and>
        (\<forall>j<i. rq_client (orq_envelope (xs ! j)) = client \<longrightarrow> owned_priority (xs ! j) < owned_priority (xs ! i)))"
proof (induction n)
  case (Suc n)
  then show ?case
    by (auto simp: less_Suc_eq not_less split: option.splits if_splits)
qed simp

lemma owned_pop_client_cases:
  obtains (none) "owned_pop_client client xs = (None, xs)" "\<forall>r\<in>set xs. rq_client (orq_envelope r) \<noteq> client"
  | (some) i where "owned_pop_client client xs = (Some (xs ! i), remove_at i xs)"
      "first_highest owned_priority (\<lambda>r. rq_client (orq_envelope r) = client) xs i"
proof (cases "fst (owned_pop_client client xs)")
  case None
  then have "owned_pop_client client xs = (None, xs) \<and> (\<forall>r\<in>set xs. rq_client (orq_envelope r) \<noteq> client)"
    using pop_client_upto[of "length xs" xs client]
    by (auto simp: owned_pop_client_def in_set_conv_nth Let_def split: option.splits)
  then show ?thesis using none by blast
next
  case (Some r)
  then obtain i where "owned_pop_client client xs = (Some (xs ! i), remove_at i xs)"
      "first_highest owned_priority (\<lambda>r. rq_client (orq_envelope r) = client) xs i"
    using pop_client_upto[of "length xs" xs client]
    by (auto simp: owned_pop_client_def first_highest_def Let_def split: option.splits)
  then show ?thesis by (rule some)
qed

text \<open>C23: Draining the storage mailbox serves the requests in order of falling priority (control
  before power save before foreground before background) and, within one priority, in the order they arrived; none
  is lost or duplicated.  A full mailbox hands a refused request back unchanged.\<close>

theorem mailbox_order:
  "sorted_wrt (\<lambda>r r'. owned_priority r' \<le> owned_priority r) (drain owned_pop (length q) q) \<and>
   filter (\<lambda>r. owned_priority r = p) (drain owned_pop (length q) q) = filter (\<lambda>r. owned_priority r = p) q \<and>
   owned_push capacity r q = (if length q < capacity then (Ok (), q @ [r]) else (Err r, q))"
  using owned.drain_sorted owned.drain_fair by (simp add: owned_push_def)

end
