(* ===== verification/Machine.thy ===== *)
theory Machine
  imports Main
begin

text \<open>
  State machines, shared by the components that are driven by a sequence of calls: reachable states, invariants by
  rule induction, and refinement of one machine by another.
\<close>

inductive reachable :: "('s \<Rightarrow> bool) \<Rightarrow> ('s \<Rightarrow> 's \<Rightarrow> bool) \<Rightarrow> 's \<Rightarrow> bool"
  for init :: "'s \<Rightarrow> bool" and step :: "'s \<Rightarrow> 's \<Rightarrow> bool" where
  initial: "init s \<Longrightarrow> reachable init step s"
| followed: "reachable init step s \<Longrightarrow> step s t \<Longrightarrow> reachable init step t"

inductive_cases reachableE: "reachable init step s"

text \<open>A predicate that holds initially and is kept by every step.\<close>

locale machine =
  fixes init :: "'s \<Rightarrow> bool" and step :: "'s \<Rightarrow> 's \<Rightarrow> bool" and inv :: "'s \<Rightarrow> bool"
  assumes inv_init: "init s \<Longrightarrow> inv s"
    and inv_step: "inv s \<Longrightarrow> step s t \<Longrightarrow> inv t"
begin

lemma reachable_inv: "reachable init step s \<Longrightarrow> inv s"
  by (induction rule: reachable.induct) (auto intro: inv_init inv_step)

lemma steps_inv: "step\<^sup>*\<^sup>* s t \<Longrightarrow> inv s \<Longrightarrow> inv t"
  by (induction rule: rtranclp_induct) (auto intro: inv_step)

end

text \<open>
  A concrete machine whose states map to the states of an abstract one: a concrete step is an abstract step or
  changes nothing there.  Invariants of the abstract machine hold of the concrete one.
\<close>

locale refinement = machine ainit astep ainv
  for ainit :: "'a \<Rightarrow> bool" and astep :: "'a \<Rightarrow> 'a \<Rightarrow> bool" and ainv :: "'a \<Rightarrow> bool" +
  fixes cinit :: "'c \<Rightarrow> bool" and cstep :: "'c \<Rightarrow> 'c \<Rightarrow> bool" and cinv :: "'c \<Rightarrow> bool" and abs :: "'c \<Rightarrow> 'a"
  assumes cinv_init: "cinit c \<Longrightarrow> cinv c \<and> ainit (abs c)"
    and cinv_step: "cinv c \<Longrightarrow> cstep c d \<Longrightarrow> cinv d \<and> (astep (abs c) (abs d) \<or> abs d = abs c)"
begin

lemma concrete_machine: "machine cinit cstep (\<lambda>c. cinv c \<and> ainv (abs c))"
  using cinv_init cinv_step inv_init inv_step by unfold_locales (blast, metis)

sublocale concrete: machine cinit cstep "\<lambda>c. cinv c \<and> ainv (abs c)"
  by (rule concrete_machine)

lemma reachable_abs: "reachable cinit cstep c \<Longrightarrow> reachable ainit astep (abs c)"
proof (induction rule: reachable.induct)
  case (followed c d)
  then have "cinv c" using concrete.reachable_inv by blast
  then have "astep (abs c) (abs d) \<or> abs d = abs c" using cinv_step followed.hyps by blast
  then show ?case using followed.IH by (auto intro: reachable.followed)
qed (use cinv_init in \<open>auto intro: reachable.initial\<close>)

end

end
