(* ===== verification/Storage_Exec.thy ===== *)
theory Storage_Exec
  imports Storage_Queue Machine
begin

text \<open>
  The upload and scan protocol of the storage owner, the execution of a request against the backend and the
  pump that serves the mailbox (\<^verbatim>\<open>binbook-fw/src/storage_owner.rs\<close>).  A method returns its result, the
  owner and the buffer lease it was given.
\<close>

subsection \<open>The protocol state\<close>

record StorageOwnerProtocol =
  po_scan :: "u32 option"
  po_next_scan :: u32
  po_upload :: "u32 option"
  po_next_upload :: u32

definition StorageOwnerProtocol_new :: StorageOwnerProtocol where
  "StorageOwnerProtocol_new = \<lparr>po_scan = None, po_next_scan = 1, po_upload = None, po_next_upload = 1\<rparr>"

definition start_scan :: "StorageOwnerProtocol \<Rightarrow> (u32, RequestError) res \<times> StorageOwnerProtocol" where
  "start_scan p =
    (if po_scan p \<noteq> None then (Err ReBusy, p)
     else let token = po_next_scan p in
       (Ok token, p\<lparr>po_next_scan := next_id (po_next_scan p), po_scan := Some token\<rparr>))"

definition require_scan :: "u32 \<Rightarrow> StorageOwnerProtocol \<Rightarrow> (unit, RequestError) res" where
  "require_scan token p = (if po_scan p = Some token then Ok () else Err ReStale)"

definition finish_scan :: "u32 \<Rightarrow> StorageOwnerProtocol \<Rightarrow> (unit, RequestError) res \<times> StorageOwnerProtocol" where
  "finish_scan token p = on_ok (require_scan token p) p (\<lambda>_. (Ok (), p\<lparr>po_scan := None\<rparr>))"

definition cancel_scan :: "u32 \<Rightarrow> StorageOwnerProtocol \<Rightarrow> (unit, RequestError) res \<times> StorageOwnerProtocol" where
  "cancel_scan = finish_scan"

definition begin_upload :: "StorageOwnerProtocol \<Rightarrow> (u32, RequestError) res \<times> StorageOwnerProtocol" where
  "begin_upload p =
    (if po_upload p \<noteq> None then (Err ReBusy, p)
     else let upload_id = po_next_upload p in
       (Ok upload_id, p\<lparr>po_next_upload := next_id (po_next_upload p), po_upload := Some upload_id\<rparr>))"

definition require_upload :: "u32 \<Rightarrow> StorageOwnerProtocol \<Rightarrow> (unit, RequestError) res" where
  "require_upload upload_id p = (if po_upload p = Some upload_id then Ok () else Err ReStale)"

definition commit_upload :: "u32 \<Rightarrow> StorageOwnerProtocol \<Rightarrow> (unit, RequestError) res \<times> StorageOwnerProtocol" where
  "commit_upload upload_id p = on_ok (require_upload upload_id p) p (\<lambda>_. (Ok (), p\<lparr>po_upload := None\<rparr>))"

definition abort_upload :: "u32 \<Rightarrow> StorageOwnerProtocol \<Rightarrow> (unit, RequestError) res \<times> StorageOwnerProtocol" where
  "abort_upload = commit_upload"

subsection \<open>The backend\<close>

text \<open>
  The methods of the trait \<open>OwnerBackend\<close>.  A method that fills a slice takes the slice and returns it.
\<close>

record ('b, 'e) OwnerBackend =
  be_activate_file :: "'b \<Rightarrow> bytes \<Rightarrow> MountFileToken \<Rightarrow> (u64, 'e) res \<times> 'b"
  be_file_size :: "'b \<Rightarrow> bytes \<Rightarrow> (u64, 'e) res \<times> 'b"
  be_read_at :: "'b \<Rightarrow> bytes \<Rightarrow> u64 \<Rightarrow> bytes \<Rightarrow> (unit, 'e) res \<times> 'b \<times> bytes"
  be_upload_begin :: "'b \<Rightarrow> bytes \<Rightarrow> u64 \<Rightarrow> u32 \<Rightarrow> (unit, 'e) res \<times> 'b"
  be_upload_write :: "'b \<Rightarrow> bytes \<Rightarrow> u64 \<Rightarrow> bytes \<Rightarrow> (unit, 'e) res \<times> 'b"
  be_upload_commit :: "'b \<Rightarrow> bytes \<Rightarrow> (unit, 'e) res \<times> 'b"
  be_upload_abort :: "'b \<Rightarrow> bytes \<Rightarrow> (unit, 'e) res \<times> 'b"
  be_delete :: "'b \<Rightarrow> bytes \<Rightarrow> (unit, 'e) res \<times> 'b"
  be_scan_start :: "'b \<Rightarrow> (unit, 'e) res \<times> 'b"
  be_scan_prefetch :: "'b \<Rightarrow> bytes \<Rightarrow> (unit, 'e) res \<times> 'b"
  be_scan_step :: "'b \<Rightarrow> u8 \<Rightarrow> bytes \<Rightarrow> (ScanProgress, 'e) res \<times> 'b \<times> bytes"
  be_scan_finish :: "'b \<Rightarrow> (unit, 'e) res \<times> 'b"
  be_scan_cancel :: "'b \<Rightarrow> (unit, 'e) res \<times> 'b"
  be_scratch_create :: "'b \<Rightarrow> (unit, 'e) res \<times> 'b"
  be_scratch_write :: "'b \<Rightarrow> u64 \<Rightarrow> bytes \<Rightarrow> (unit, 'e) res \<times> 'b"
  be_scratch_read :: "'b \<Rightarrow> u64 \<Rightarrow> bytes \<Rightarrow> (unit, 'e) res \<times> 'b \<times> bytes"
  be_scratch_flush :: "'b \<Rightarrow> (unit, 'e) res \<times> 'b"
  be_scratch_delete :: "'b \<Rightarrow> (unit, 'e) res \<times> 'b"

text \<open>\<open>FilesystemOwnerBackend\<close>: the backend of a plain filesystem, whose scans are not incremental.\<close>

record ('f, 'e) WritableFilesystem =
  fs_file_size :: "'f \<Rightarrow> bytes \<Rightarrow> (u64, 'e) res \<times> 'f"
  fs_read_at :: "'f \<Rightarrow> bytes \<Rightarrow> u64 \<Rightarrow> bytes \<Rightarrow> (unit, 'e) res \<times> 'f \<times> bytes"
  fs_begin_upload :: "'f \<Rightarrow> bytes \<Rightarrow> u64 \<Rightarrow> (unit, 'e) res \<times> 'f"
  fs_write_upload_chunk :: "'f \<Rightarrow> bytes \<Rightarrow> u64 \<Rightarrow> bytes \<Rightarrow> (unit, 'e) res \<times> 'f"
  fs_commit_upload :: "'f \<Rightarrow> bytes \<Rightarrow> (unit, 'e) res \<times> 'f"
  fs_abort_upload :: "'f \<Rightarrow> bytes \<Rightarrow> (unit, 'e) res \<times> 'f"
  fs_delete_file :: "'f \<Rightarrow> bytes \<Rightarrow> (unit, 'e) res \<times> 'f"

datatype 'e FilesystemOwnerError = FsBackend 'e | IncrementalScanUnavailable

definition fs_result :: "('a, 'e) res \<times> 's \<Rightarrow> ('a, 'e FilesystemOwnerError) res \<times> 's" where
  "fs_result = (\<lambda>(r, s). (map_err FsBackend r, s))"

definition filesystem_backend :: "('f, 'e) WritableFilesystem \<Rightarrow> ('f, 'e FilesystemOwnerError) OwnerBackend" where
  "filesystem_backend fs =
    \<lparr>be_activate_file = (\<lambda>f name token. fs_result (fs_file_size fs f name)),
     be_file_size = (\<lambda>f name. fs_result (fs_file_size fs f name)),
     be_read_at = (\<lambda>f name offset out. fs_result (fs_read_at fs f name offset out)),
     be_upload_begin = (\<lambda>f name size crc. fs_result (fs_begin_upload fs f name size)),
     be_upload_write = (\<lambda>f name offset data. fs_result (fs_write_upload_chunk fs f name offset data)),
     be_upload_commit = (\<lambda>f name. fs_result (fs_commit_upload fs f name)),
     be_upload_abort = (\<lambda>f name. fs_result (fs_abort_upload fs f name)),
     be_delete = (\<lambda>f name. fs_result (fs_delete_file fs f name)),
     be_scan_start = (\<lambda>f. (Err IncrementalScanUnavailable, f)),
     be_scan_prefetch = (\<lambda>f name. (Err IncrementalScanUnavailable, f)),
     be_scan_step = (\<lambda>f budget out. (Err IncrementalScanUnavailable, f, out)),
     be_scan_finish = (\<lambda>f. (Err IncrementalScanUnavailable, f)),
     be_scan_cancel = (\<lambda>f. (Err IncrementalScanUnavailable, f)),
     be_scratch_create = (\<lambda>f. (Err IncrementalScanUnavailable, f)),
     be_scratch_write = (\<lambda>f offset data. (Err IncrementalScanUnavailable, f)),
     be_scratch_read = (\<lambda>f offset out. (Err IncrementalScanUnavailable, f, out)),
     be_scratch_flush = (\<lambda>f. (Err IncrementalScanUnavailable, f)),
     be_scratch_delete = (\<lambda>f. (Err IncrementalScanUnavailable, f))\<rparr>"

subsection \<open>Execution\<close>

datatype 'e OwnerError = OeRequest RequestError | OeBackend 'e | OeBufferUnavailable

record 'b StorageOwner =
  so_backend :: 'b
  so_protocol :: StorageOwnerProtocol
  so_upload_name :: "StorageName option"
  so_upload_client :: "StorageClient option"

definition StorageOwner_new :: "'b \<Rightarrow> 'b StorageOwner" where
  "StorageOwner_new backend =
    \<lparr>so_backend = backend, so_protocol = StorageOwnerProtocol_new, so_upload_name = None, so_upload_client = None\<rparr>"

text \<open>\<open>LeasePool::buffer_mut\<close> and \<open>buffer_range\<close>: the part of the request's own buffer that it names.\<close>

definition buffer_range :: "BufferLease option \<Rightarrow> BufferSlot \<Rightarrow> u16 \<Rightarrow> u16 \<Rightarrow> (bytes, 'e OwnerError) res" where
  "buffer_range lease slot offset len =
    (case lease of None \<Rightarrow> Err OeBufferUnavailable
     | Some l \<Rightarrow>
         if lease_slot l \<noteq> slot then Err OeBufferUnavailable
         else if unat offset + unat len \<le> length (lease_bytes l)
         then Ok (subslice (lease_bytes l) (unat offset) (unat len))
         else Err OeBufferUnavailable)"

text \<open>What the backend wrote through that slice.\<close>

definition store_range :: "BufferLease option \<Rightarrow> u16 \<Rightarrow> bytes \<Rightarrow> BufferLease option" where
  "store_range lease offset out =
    map_option (\<lambda>l. l\<lparr>lease_bytes := overwrite (lease_bytes l) (unat offset) out\<rparr>) lease"

definition on_backend :: "'b StorageOwner \<Rightarrow> ('a, 'e) res \<times> 'b \<Rightarrow> ('a, 'e OwnerError) res \<times> 'b StorageOwner" where
  "on_backend own = (\<lambda>(r, b). (map_err OeBackend r, own\<lparr>so_backend := b\<rparr>))"

definition on_protocol ::
    "'b StorageOwner \<Rightarrow> ('a, RequestError) res \<times> StorageOwnerProtocol \<Rightarrow> ('a, 'e OwnerError) res \<times> 'b StorageOwner" where
  "on_protocol own = (\<lambda>(r, p). (map_err OeRequest r, own\<lparr>so_protocol := p\<rparr>))"

text \<open>The reply of a request whose backend call returns nothing, and the end of an upload or scan.\<close>

definition ack_backend ::
    "BufferLease option \<Rightarrow> ('a, 'e OwnerError) res \<times> 'b StorageOwner \<Rightarrow>
     (Response, 'e OwnerError) res \<times> 'b StorageOwner \<times> BufferLease option" where
  "ack_backend lease = (\<lambda>(r, own). on_ok r (own, lease) (\<lambda>_. (Ok Ack, own, lease)))"

fun execute ::
    "('b, 'e) OwnerBackend \<Rightarrow> Request \<Rightarrow> 'b StorageOwner \<Rightarrow> BufferLease option \<Rightarrow>
     (Response, 'e OwnerError) res \<times> 'b StorageOwner \<times> BufferLease option" where
  "execute be (ActivateFile name token) own lease =
    (let (r, own) = on_backend own (be_activate_file be (so_backend own) name token) in
     on_ok r (own, lease) (\<lambda>n. (Ok (RespFileSize n), own, lease)))"
| "execute be (FileSize name) own lease =
    (let (r, own) = on_backend own (be_file_size be (so_backend own) name) in
     on_ok r (own, lease) (\<lambda>n. (Ok (RespFileSize n), own, lease)))"
| "execute be (ReadFile name offset buffer_offset len buffer) own lease =
    on_ok (map_err OeRequest (validate_len len)) (own, lease) (\<lambda>_.
    on_ok (buffer_range lease buffer buffer_offset len) (own, lease) (\<lambda>out.
    let (r, b, out) = be_read_at be (so_backend own) name offset out;
        own = own\<lparr>so_backend := b\<rparr>; lease = store_range lease buffer_offset out
    in on_ok (map_err OeBackend r) (own, lease) (\<lambda>_. (Ok (RespRead len), own, lease))))"
| "execute be (UploadBegin name expected_size expected_crc32 power_save) own lease =
    (if po_upload (so_protocol own) \<noteq> None then (Err (OeRequest ReBusy), own, lease)
     else
       let (r, own) = on_backend own (be_upload_begin be (so_backend own) name expected_size expected_crc32) in
       on_ok r (own, lease) (\<lambda>_.
       let (r, own) = on_protocol own (begin_upload (so_protocol own)) in
       on_ok r (own, lease) (\<lambda>upload_id.
       (Ok (UploadStarted upload_id), own\<lparr>so_upload_name := Some name\<rparr>, lease))))"
| "execute be (UploadWrite upload_id offset buffer_offset len buffer power_save) own lease =
    on_ok (map_err OeRequest (require_upload upload_id (so_protocol own))) (own, lease) (\<lambda>_.
    on_ok (map_err OeRequest (validate_len len)) (own, lease) (\<lambda>_.
    on_ok (buffer_range lease buffer buffer_offset len) (own, lease) (\<lambda>data.
    on_ok (ok_or (OeRequest ReStale) (so_upload_name own)) (own, lease) (\<lambda>name.
    let (r, own) = on_backend own (be_upload_write be (so_backend own) name offset data) in
    on_ok r (own, lease) (\<lambda>_. (Ok (RespWritten len), own, lease))))))"
| "execute be (UploadCommit upload_id power_save) own lease =
    on_ok (map_err OeRequest (require_upload upload_id (so_protocol own))) (own, lease) (\<lambda>_.
    on_ok (ok_or (OeRequest ReStale) (so_upload_name own)) (own, lease) (\<lambda>name.
    let (r, own) = on_backend own (be_upload_commit be (so_backend own) name) in
    on_ok r (own, lease) (\<lambda>_.
    let (r, own) = on_protocol own (commit_upload upload_id (so_protocol own)) in
    on_ok r (own, lease) (\<lambda>_. (Ok Ack, own\<lparr>so_upload_name := None\<rparr>, lease)))))"
| "execute be (UploadAbort upload_id) own lease =
    on_ok (map_err OeRequest (require_upload upload_id (so_protocol own))) (own, lease) (\<lambda>_.
    on_ok (ok_or (OeRequest ReStale) (so_upload_name own)) (own, lease) (\<lambda>name.
    let (r, own) = on_backend own (be_upload_abort be (so_backend own) name) in
    on_ok r (own, lease) (\<lambda>_.
    let (r, own) = on_protocol own (abort_upload upload_id (so_protocol own)) in
    on_ok r (own, lease) (\<lambda>_. (Ok Ack, own\<lparr>so_upload_name := None\<rparr>, lease)))))"
| "execute be (DeleteFile name) own lease =
    ack_backend lease (on_backend own (be_delete be (so_backend own) name))"
| "execute be ScanStart own lease =
    (if po_scan (so_protocol own) \<noteq> None then (Err (OeRequest ReBusy), own, lease)
     else
       let (r, own) = on_backend own (be_scan_start be (so_backend own)) in
       on_ok r (own, lease) (\<lambda>_.
       let (r, own) = on_protocol own (start_scan (so_protocol own)) in
       on_ok r (own, lease) (\<lambda>token. (Ok (ScanStarted token), own, lease))))"
| "execute be (ScanPrefetch token name) own lease =
    on_ok (map_err OeRequest (require_scan token (so_protocol own))) (own, lease) (\<lambda>_.
    ack_backend lease (on_backend own (be_scan_prefetch be (so_backend own) name)))"
| "execute be (ScanStep token buffer) own lease =
    on_ok (map_err OeRequest (require_scan token (so_protocol own))) (own, lease) (\<lambda>_.
    on_ok (buffer_range lease buffer 0 (of_nat SCAN_BATCH_BYTES)) (own, lease) (\<lambda>out.
    let (r, b, out) = be_scan_step be (so_backend own) SCAN_ENTRY_BUDGET (replicate (length out) 0);
        own = own\<lparr>so_backend := b\<rparr>; lease = store_range lease 0 out
    in on_ok (map_err OeBackend r) (own, lease) (\<lambda>progress. (Ok (RespScanProgress progress), own, lease))))"
| "execute be (ScanFinish token) own lease =
    on_ok (map_err OeRequest (require_scan token (so_protocol own))) (own, lease) (\<lambda>_.
    let (r, own) = on_backend own (be_scan_finish be (so_backend own)) in
    on_ok r (own, lease) (\<lambda>_. ack_backend lease (on_protocol own (finish_scan token (so_protocol own)))))"
| "execute be (ScanCancel token) own lease =
    on_ok (map_err OeRequest (require_scan token (so_protocol own))) (own, lease) (\<lambda>_.
    let (r, own) = on_backend own (be_scan_cancel be (so_backend own)) in
    on_ok r (own, lease) (\<lambda>_. ack_backend lease (on_protocol own (cancel_scan token (so_protocol own)))))"
| "execute be LibraryScratchCreate own lease =
    ack_backend lease (on_backend own (be_scratch_create be (so_backend own)))"
| "execute be (LibraryScratchWrite offset buffer_offset len buffer) own lease =
    (if buffer \<noteq> BsLibraryIndex then (Err (OeRequest ReStale), own, lease)
     else
       on_ok (map_err OeRequest (validate_len len)) (own, lease) (\<lambda>_.
       on_ok (buffer_range lease buffer buffer_offset len) (own, lease) (\<lambda>data.
       let (r, own) = on_backend own (be_scratch_write be (so_backend own) offset data) in
       on_ok r (own, lease) (\<lambda>_. (Ok (RespWritten len), own, lease)))))"
| "execute be (LibraryScratchRead offset buffer_offset len buffer) own lease =
    (if buffer \<noteq> BsLibraryIndex then (Err (OeRequest ReStale), own, lease)
     else
       on_ok (map_err OeRequest (validate_len len)) (own, lease) (\<lambda>_.
       on_ok (buffer_range lease buffer buffer_offset len) (own, lease) (\<lambda>out.
       let (r, b, out) = be_scratch_read be (so_backend own) offset out;
           own = own\<lparr>so_backend := b\<rparr>; lease = store_range lease buffer_offset out
       in on_ok (map_err OeBackend r) (own, lease) (\<lambda>_. (Ok (RespRead len), own, lease)))))"
| "execute be LibraryScratchFlush own lease =
    ack_backend lease (on_backend own (be_scratch_flush be (so_backend own)))"
| "execute be LibraryScratchDelete own lease =
    ack_backend lease (on_backend own (be_scratch_delete be (so_backend own)))"

text \<open>Who may use the scratch file, and which requests open and close an upload.\<close>

fun is_library_scratch :: "Request \<Rightarrow> bool" where
  "is_library_scratch LibraryScratchCreate = True"
| "is_library_scratch (LibraryScratchWrite _ _ _ _) = True"
| "is_library_scratch (LibraryScratchRead _ _ _ _) = True"
| "is_library_scratch LibraryScratchFlush = True"
| "is_library_scratch LibraryScratchDelete = True"
| "is_library_scratch _ = False"

fun begins_upload :: "Request \<Rightarrow> bool" where
  "begins_upload (UploadBegin _ _ _ _) = True"
| "begins_upload _ = False"

fun ends_upload :: "Request \<Rightarrow> bool" where
  "ends_upload (UploadCommit _ _) = True"
| "ends_upload (UploadAbort _) = True"
| "ends_upload _ = False"

fun completion_error :: "'e OwnerError \<Rightarrow> CompletionError" where
  "completion_error (OeRequest e) = CeRequest e"
| "completion_error (OeBackend _) = CeBackend"
| "completion_error OeBufferUnavailable = CeBufferUnavailable"

definition execute_owned ::
    "('b, 'e) OwnerBackend \<Rightarrow> OwnedRequest \<Rightarrow> 'b StorageOwner \<Rightarrow> OwnedResponse \<times> 'b StorageOwner" where
  "execute_owned be request own =
    (let client = rq_client (orq_envelope request);
         req = rq_request (orq_envelope request);
         (response, own, lease) =
           (if is_library_scratch req \<and> client \<noteq> ScLibrary
            then (Err (CeRequest ReStale), own, orq_buffer request)
            else let (r, own, lease) = execute be req own (orq_buffer request) in (map_err completion_error r, own, lease));
         own = (if is_ok response then
                  if begins_upload req then own\<lparr>so_upload_client := Some client\<rparr>
                  else if ends_upload req then own\<lparr>so_upload_client := None\<rparr> else own
                else own)
     in (\<lparr>ors_envelope = \<lparr>rs_client = client, rs_sequence = rq_sequence (orq_envelope request), rs_response = response\<rparr>,
          ors_buffer = lease\<rparr>, own))"

subsection \<open>The pump\<close>

record 'b StorageOwnerPump =
  pu_owner :: "'b StorageOwner"
  pu_mailbox :: "OwnedRequest list"

datatype StorageOwnerPhase = PhQueued StorageClient u32 | PhExecuting StorageClient u32 | PhCompleted StorageClient u32

text \<open>\<open>observe\<close> is a callback; here its calls are the returned list.\<close>

definition enqueue ::
    "nat \<Rightarrow> OwnedRequest \<Rightarrow> 'b StorageOwnerPump \<Rightarrow> (StorageOwnerPhase list, OwnedRequest) res \<times> 'b StorageOwnerPump" where
  "enqueue capacity request pump =
    (let client = rq_client (orq_envelope request); sequence = rq_sequence (orq_envelope request);
         (r, mailbox) = owned_push capacity request (pu_mailbox pump);
         pump = pump\<lparr>pu_mailbox := mailbox\<rparr>
     in on_ok r pump (\<lambda>_. (Ok [PhQueued client sequence], pump)))"

definition execute_next ::
    "('b, 'e) OwnerBackend \<Rightarrow> 'b StorageOwnerPump \<Rightarrow>
     (OwnedResponse \<times> StorageOwnerPhase list) option \<times> 'b StorageOwnerPump" where
  "execute_next be pump =
    (let (request, mailbox) =
       (case so_upload_client (pu_owner pump) of
          Some client \<Rightarrow> owned_pop_client client (pu_mailbox pump)
        | None \<Rightarrow> owned_pop (pu_mailbox pump));
         pump = pump\<lparr>pu_mailbox := mailbox\<rparr>
     in case request of
          None \<Rightarrow> (None, pump)
        | Some request \<Rightarrow>
            let client = rq_client (orq_envelope request); sequence = rq_sequence (orq_envelope request);
                (response, own) = execute_owned be request (pu_owner pump)
            in (Some (response, [PhExecuting client sequence, PhCompleted client sequence]), pump\<lparr>pu_owner := own\<rparr>))"

definition execute_immediate ::
    "('b, 'e) OwnerBackend \<Rightarrow> OwnedRequest \<Rightarrow> 'b StorageOwnerPump \<Rightarrow>
     (OwnedResponse \<times> StorageOwnerPhase list) \<times> 'b StorageOwnerPump" where
  "execute_immediate be request pump =
    (let client = rq_client (orq_envelope request); sequence = rq_sequence (orq_envelope request);
         (response, own) = execute_owned be request (pu_owner pump)
     in ((response, [PhExecuting client sequence, PhCompleted client sequence]), pump\<lparr>pu_owner := own\<rparr>))"

end
