(* ===== verification/Storage_Safety.thy ===== *)
theory Storage_Safety
  imports Storage_Exec
begin

text \<open>
  What the storage owner guarantees its clients: responses carry the correlation of their request and give its
  buffer back, stale transfers never reach the backend, and at most one upload is active.
\<close>

subsection \<open>Correlation and leases\<close>

text \<open>The documented behaviour of the slice-filling backend methods: a slice keeps its length.\<close>

definition keeps_length :: "('b, 'e) OwnerBackend \<Rightarrow> bool" where
  "keeps_length be \<longleftrightarrow>
    (\<forall>b name offset out. length (snd (snd (be_read_at be b name offset out))) = length out) \<and>
    (\<forall>b budget out. length (snd (snd (be_scan_step be b budget out))) = length out) \<and>
    (\<forall>b offset out. length (snd (snd (be_scratch_read be b offset out))) = length out)"

definition same_lease :: "BufferLease option \<Rightarrow> BufferLease option \<Rightarrow> bool" where
  "same_lease l l' \<longleftrightarrow> map_option (\<lambda>x. (lease_slot x, length (lease_bytes x))) l =
    map_option (\<lambda>x. (lease_slot x, length (lease_bytes x))) l'"

lemma same_lease_refl [simp]: "same_lease l l"
  by (simp add: same_lease_def)

lemma store_range_same:
  "buffer_range lease slot offset len = Ok out \<Longrightarrow> length out' = length out \<Longrightarrow>
   same_lease lease (store_range lease offset out')"
  by (auto simp: buffer_range_def store_range_def same_lease_def length_overwrite split: option.splits if_splits)

named_theorems owner_simps "unfolding one call of the storage owner"

lemma calls_eq [owner_simps]:
  "on_backend own rb = (map_err OeBackend (fst rb), own\<lparr>so_backend := snd rb\<rparr>)"
  "on_protocol own rp = (map_err OeRequest (fst rp), own\<lparr>so_protocol := snd rp\<rparr>)"
  "ack_backend lease ro = on_ok (fst ro) (snd ro, lease) (\<lambda>_. (Ok Ack, snd ro, lease))"
  by (simp_all add: on_backend_def on_protocol_def ack_backend_def split: prod.splits)

declare case_prod_beta [owner_simps] start_scan_def [owner_simps] finish_scan_def [owner_simps] cancel_scan_def [owner_simps]
  begin_upload_def [owner_simps] commit_upload_def [owner_simps] abort_upload_def [owner_simps]
  require_upload_def [owner_simps] require_scan_def [owner_simps] Let_def [owner_simps]

lemma execute_same_lease:
  assumes "keeps_length be"
  shows "same_lease lease (snd (snd (execute be req own lease)))"
proof -
  note lens = assms[unfolded keeps_length_def]
  have "same_lease lease (snd (snd (execute be (ReadFile name offset boff len buf) own lease)))" for name offset boff len buf
    using lens by (auto simp: owner_simps store_range_same split: on_ok_split)
  moreover have "same_lease lease (snd (snd (execute be (ScanStep token buf) own lease)))" for token buf
    using lens by (auto simp: owner_simps store_range_same split: on_ok_split)
  moreover have "same_lease lease (snd (snd (execute be (LibraryScratchRead offset boff len buf) own lease)))" for offset boff len buf
    using lens by (auto simp: owner_simps store_range_same split: on_ok_split)
  ultimately show ?thesis
    by (cases req) (simp_all add: owner_simps split: on_ok_split)
qed

text \<open>C10: Every response of the storage owner answers its request: it carries the client and
  sequence number of the request, and the request's buffer comes back (the same slot, the same length) whatever the
  outcome, so no lease is lost inside the owner.\<close>

theorem owner_correlation:
  assumes "keeps_length be"
  shows "rs_client (ors_envelope (fst (execute_owned be request own))) = rq_client (orq_envelope request) \<and>
    rs_sequence (ors_envelope (fst (execute_owned be request own))) = rq_sequence (orq_envelope request) \<and>
    same_lease (orq_buffer request) (ors_buffer (fst (execute_owned be request own)))"
  using execute_same_lease[OF assms, of "orq_buffer request" "rq_request (orq_envelope request)" own]
  by (auto simp: execute_owned_def Let_def split: prod.splits)

text \<open>A backend that stores one file in memory.\<close>

definition memory_backend :: "(bytes, unit) OwnerBackend" where
  "memory_backend =
    \<lparr>be_activate_file = (\<lambda>b name token. (Ok (of_nat (length b)), b)),
     be_file_size = (\<lambda>b name. (Ok (of_nat (length b)), b)),
     be_read_at = (\<lambda>b name offset out.
       if unat offset + length out \<le> length b then (Ok (), b, subslice b (unat offset) (length out)) else (Err (), b, out)),
     be_upload_begin = (\<lambda>b name size crc. (Ok (), [])),
     be_upload_write = (\<lambda>b name offset data. if unat offset = length b then (Ok (), b @ data) else (Err (), b)),
     be_upload_commit = (\<lambda>b name. (Ok (), b)),
     be_upload_abort = (\<lambda>b name. (Ok (), [])),
     be_delete = (\<lambda>b name. (Ok (), [])),
     be_scan_start = (\<lambda>b. (Err (), b)),
     be_scan_prefetch = (\<lambda>b name. (Err (), b)),
     be_scan_step = (\<lambda>b budget out. (Err (), b, out)),
     be_scan_finish = (\<lambda>b. (Err (), b)),
     be_scan_cancel = (\<lambda>b. (Err (), b)),
     be_scratch_create = (\<lambda>b. (Err (), b)),
     be_scratch_write = (\<lambda>b offset data. (Err (), b)),
     be_scratch_read = (\<lambda>b offset out. (Err (), b, out)),
     be_scratch_flush = (\<lambda>b. (Err (), b)),
     be_scratch_delete = (\<lambda>b. (Err (), b))\<rparr>"

lemma memory_backend_keeps_length: "keeps_length memory_backend"
  by (simp add: keeps_length_def memory_backend_def)

definition sample_read :: OwnedRequest where
  "sample_read = \<lparr>orq_envelope = \<lparr>rq_client = ScReader, rq_sequence = 9, rq_request = ReadFile [0x61] 1 0 2 BsReader\<rparr>,
    orq_buffer = Some \<lparr>lease_slot = BsReader, lease_bytes = [0, 0, 0, 0]\<rparr>\<rparr>"

theorem owner_correlation_witness:
  "rs_client (ors_envelope (fst (execute_owned memory_backend sample_read (StorageOwner_new [5, 6, 7])))) =
     rq_client (orq_envelope sample_read) \<and>
   rs_sequence (ors_envelope (fst (execute_owned memory_backend sample_read (StorageOwner_new [5, 6, 7])))) =
     rq_sequence (orq_envelope sample_read) \<and>
   same_lease (orq_buffer sample_read)
     (ors_buffer (fst (execute_owned memory_backend sample_read (StorageOwner_new [5, 6, 7]))))"
  by (rule owner_correlation[OF memory_backend_keeps_length])

subsection \<open>One upload and one scan at a time\<close>

definition protocol_part :: "'b StorageOwner \<Rightarrow> StorageOwnerProtocol \<times> StorageName option \<times> StorageClient option" where
  "protocol_part own = (so_protocol own, so_upload_name own, so_upload_client own)"

fun protocol_inv :: "StorageOwnerProtocol \<times> StorageName option \<times> StorageClient option \<Rightarrow> bool" where
  "protocol_inv (p, n, c) \<longleftrightarrow>
    (po_upload p = None \<longleftrightarrow> n = None) \<and> (po_upload p = None \<longleftrightarrow> c = None) \<and>
    po_upload p \<noteq> Some 0 \<and> po_next_upload p \<noteq> 0 \<and> po_scan p \<noteq> Some 0 \<and> po_next_scan p \<noteq> 0"

definition owner_inv :: "'b StorageOwner \<Rightarrow> bool" where
  "owner_inv own \<longleftrightarrow> protocol_inv (protocol_part own)"

lemma owner_inv_new: "owner_inv (StorageOwner_new backend)"
  by (simp add: owner_inv_def protocol_part_def StorageOwner_new_def StorageOwnerProtocol_new_def)

text \<open>
  The effect of a request on the part of the owner that is not the backend: only the six requests that open or
  close an upload or a scan have one, and only when they succeed.
\<close>

fun protocol_after ::
    "Request \<Rightarrow> StorageOwnerProtocol \<times> StorageName option \<times> StorageClient option \<Rightarrow>
     StorageOwnerProtocol \<times> StorageName option \<times> StorageClient option" where
  "protocol_after (UploadBegin name _ _ _) (p, n, c) =
    (p\<lparr>po_next_upload := next_id (po_next_upload p), po_upload := Some (po_next_upload p)\<rparr>, Some name, c)"
| "protocol_after (UploadCommit _ _) (p, n, c) = (p\<lparr>po_upload := None\<rparr>, None, c)"
| "protocol_after (UploadAbort _) (p, n, c) = (p\<lparr>po_upload := None\<rparr>, None, c)"
| "protocol_after ScanStart (p, n, c) =
    (p\<lparr>po_next_scan := next_id (po_next_scan p), po_scan := Some (po_next_scan p)\<rparr>, n, c)"
| "protocol_after (ScanFinish _) (p, n, c) = (p\<lparr>po_scan := None\<rparr>, n, c)"
| "protocol_after (ScanCancel _) (p, n, c) = (p\<lparr>po_scan := None\<rparr>, n, c)"
| "protocol_after _ s = s"

lemma execute_protocol:
  "protocol_part (fst (snd (execute be req own lease))) =
    (if is_ok (fst (execute be req own lease)) then protocol_after req (protocol_part own) else protocol_part own)"
  by (cases req)
    (simp_all add: owner_simps protocol_part_def split: on_ok_split)

lemma execute_upload_guard:
  "is_ok (fst (execute be (UploadBegin n s c p) own lease)) \<Longrightarrow> po_upload (so_protocol own) = None"
  "is_ok (fst (execute be (UploadWrite i o1 b l buf p) own lease)) \<Longrightarrow> po_upload (so_protocol own) = Some i"
  "is_ok (fst (execute be (UploadCommit i p) own lease)) \<Longrightarrow> po_upload (so_protocol own) = Some i"
  "is_ok (fst (execute be (UploadAbort i) own lease)) \<Longrightarrow> po_upload (so_protocol own) = Some i"
  by (auto simp: owner_simps split: if_splits on_ok_split_asm)

text \<open>The whole of \<open>execute_owned\<close> does to it:\<close>

definition protocol_step :: "OwnedRequest \<Rightarrow> StorageOwnerProtocol \<times> StorageName option \<times> StorageClient option \<Rightarrow>
    StorageOwnerProtocol \<times> StorageName option \<times> StorageClient option" where
  "protocol_step request s =
    (let req = rq_request (orq_envelope request); (p, n, c) = protocol_after req s in
     (p, n, if begins_upload req then Some (rq_client (orq_envelope request)) else if ends_upload req then None else c))"

lemma protocol_step_inv: "protocol_inv s \<Longrightarrow> protocol_inv (protocol_step request s)"
  by (cases s; cases "rq_request (orq_envelope request)") (auto simp: protocol_step_def next_id_neq)

lemma execute_owned_scratch:
  "is_library_scratch (rq_request (orq_envelope request)) \<Longrightarrow> rq_client (orq_envelope request) \<noteq> ScLibrary \<Longrightarrow>
   execute_owned be request own =
    (\<lparr>ors_envelope = \<lparr>rs_client = rq_client (orq_envelope request), rs_sequence = rq_sequence (orq_envelope request),
        rs_response = Err (CeRequest ReStale)\<rparr>, ors_buffer = orq_buffer request\<rparr>, own)"
  by (simp add: execute_owned_def)

lemma execute_owned_execute:
  assumes "\<not> (is_library_scratch (rq_request (orq_envelope request)) \<and> rq_client (orq_envelope request) \<noteq> ScLibrary)"
    and "execute be (rq_request (orq_envelope request)) own (orq_buffer request) = (r, own', lease)"
  shows "execute_owned be request own =
    (\<lparr>ors_envelope = \<lparr>rs_client = rq_client (orq_envelope request), rs_sequence = rq_sequence (orq_envelope request),
        rs_response = map_err completion_error r\<rparr>, ors_buffer = lease\<rparr>,
     if is_ok r then
       (if begins_upload (rq_request (orq_envelope request)) then own'\<lparr>so_upload_client := Some (rq_client (orq_envelope request))\<rparr>
        else if ends_upload (rq_request (orq_envelope request)) then own'\<lparr>so_upload_client := None\<rparr> else own')
     else own')"
proof -
  have "is_ok (map_err completion_error r) = is_ok r" by (cases r) simp_all
  then show ?thesis
    unfolding execute_owned_def Let_def if_not_P[OF assms(1)] assms(2) prod.case by simp
qed

lemma execute_owned_protocol:
  "protocol_part (snd (execute_owned be request own)) \<in> {protocol_part own, protocol_step request (protocol_part own)}"
proof (cases "is_library_scratch (rq_request (orq_envelope request)) \<and> rq_client (orq_envelope request) \<noteq> ScLibrary")
  case True
  then show ?thesis by (simp add: execute_owned_scratch)
next
  case False
  obtain r own' l where e: "execute be (rq_request (orq_envelope request)) own (orq_buffer request) = (r, own', l)"
    by (cases "execute be (rq_request (orq_envelope request)) own (orq_buffer request)")
  have eff: "protocol_part own' = (if is_ok r then protocol_after (rq_request (orq_envelope request)) (protocol_part own)
      else protocol_part own)"
    using execute_protocol[of be "rq_request (orq_envelope request)" own "orq_buffer request"] e by simp
  show ?thesis
  proof (cases "is_ok r")
    case True
    with eff have part: "protocol_after (rq_request (orq_envelope request)) (protocol_part own) =
        (so_protocol own', so_upload_name own', so_upload_client own')"
      by (simp add: protocol_part_def)
    have "protocol_part (snd (execute_owned be request own)) = protocol_step request (protocol_part own)"
      unfolding execute_owned_execute[OF False e] protocol_step_def Let_def part using True
      by (simp add: protocol_part_def)
    then show ?thesis by simp
  next
    case False': False
    then show ?thesis using eff unfolding execute_owned_execute[OF False e] by simp
  qed
qed

lemma execute_owned_inv: "owner_inv own \<Longrightarrow> owner_inv (snd (execute_owned be request own))"
  using execute_owned_protocol[of be request own] protocol_step_inv[of "protocol_part own" request]
  by (auto simp: owner_inv_def)

subsection \<open>The pump\<close>

inductive pump_step :: "('b, 'e) OwnerBackend \<Rightarrow> nat \<Rightarrow> 'b StorageOwnerPump \<Rightarrow> 'b StorageOwnerPump \<Rightarrow> bool"
  for be :: "('b, 'e) OwnerBackend" and capacity :: nat where
  queued: "pump_step be capacity p (snd (enqueue capacity request p))"
| next_one: "pump_step be capacity p (snd (execute_next be p))"
| immediate: "pump_step be capacity p (snd (execute_immediate be request p))"

inductive_cases pump_stepE: "pump_step be capacity p p'"

definition pump_new :: "'b \<Rightarrow> 'b StorageOwnerPump" where
  "pump_new backend = \<lparr>pu_owner = StorageOwner_new backend, pu_mailbox = []\<rparr>"

definition pump_inv :: "nat \<Rightarrow> 'b StorageOwnerPump \<Rightarrow> bool" where
  "pump_inv capacity p \<longleftrightarrow> owner_inv (pu_owner p) \<and> length (pu_mailbox p) \<le> capacity"

lemma owned_pop_owner:
  "owned_pop q = (Some r, q') \<Longrightarrow> length q' < length q" "owned_pop_client c q = (Some r, q') \<Longrightarrow> length q' < length q"
  "owned_pop q = (None, q') \<Longrightarrow> q' = q" "owned_pop_client c q = (None, q') \<Longrightarrow> q' = q"
proof -
  show "owned_pop q = (Some r, q') \<Longrightarrow> length q' < length q" "owned_pop q = (None, q') \<Longrightarrow> q' = q"
    using select_highest_first[of q owned_priority]
    by (auto simp: owned_pop_def Let_def first_highest_def split: if_splits)
  show "owned_pop_client c q = (Some r, q') \<Longrightarrow> length q' < length q" "owned_pop_client c q = (None, q') \<Longrightarrow> q' = q"
    by (rule owned_pop_client_cases[of c q]; auto simp: first_highest_def)+
qed

text \<open>No queued request may be served: the mailbox is empty, or all of it waits for the client of the open upload.\<close>

definition nothing_to_serve :: "'b StorageOwnerPump \<Rightarrow> bool" where
  "nothing_to_serve p \<longleftrightarrow>
    (case so_upload_client (pu_owner p) of
       None \<Rightarrow> pu_mailbox p = []
     | Some client \<Rightarrow> list_all (\<lambda>r. rq_client (orq_envelope r) \<noteq> client) (pu_mailbox p))"

lemma owned_pop_member:
  "owned_pop q = (Some r, q') \<Longrightarrow> r \<in> set q" "owned_pop_client c q = (Some r, q') \<Longrightarrow> r \<in> set q"
  "owned_pop q = (None, q') \<Longrightarrow> q = []"
  "owned_pop_client c q = (None, q') \<Longrightarrow> list_all (\<lambda>r. rq_client (orq_envelope r) \<noteq> c) q"
proof -
  show "owned_pop q = (Some r, q') \<Longrightarrow> r \<in> set q" "owned_pop q = (None, q') \<Longrightarrow> q = []"
    using select_highest_first[of q owned_priority]
    by (auto simp: owned_pop_def Let_def first_highest_def split: if_splits)
  show "owned_pop_client c q = (Some r, q') \<Longrightarrow> r \<in> set q"
    "owned_pop_client c q = (None, q') \<Longrightarrow> list_all (\<lambda>r. rq_client (orq_envelope r) \<noteq> c) q"
    by (rule owned_pop_client_cases[of c q]; auto simp: first_highest_def list_all_iff)+
qed

lemma execute_next_cases:
  obtains (idle) "execute_next be p = (None, p)" "nothing_to_serve p"
  | (served) request rest where
      "execute_next be p = (Some (fst (execute_owned be request (pu_owner p)),
          [PhExecuting (rq_client (orq_envelope request)) (rq_sequence (orq_envelope request)),
           PhCompleted (rq_client (orq_envelope request)) (rq_sequence (orq_envelope request))]),
        p\<lparr>pu_mailbox := rest, pu_owner := snd (execute_owned be request (pu_owner p))\<rparr>)"
      "length rest < length (pu_mailbox p)" "request \<in> set (pu_mailbox p)"
      "so_upload_client (pu_owner p) = None \<or> so_upload_client (pu_owner p) = Some (rq_client (orq_envelope request))"
proof -
  define popped where "popped = (case so_upload_client (pu_owner p) of
      Some client \<Rightarrow> owned_pop_client client (pu_mailbox p) | None \<Rightarrow> owned_pop (pu_mailbox p))"
  obtain m rest where pop: "popped = (m, rest)" by (cases popped)
  show ?thesis
  proof (cases m)
    case None
    then have "rest = pu_mailbox p"
      using pop owned_pop_owner(3,4) by (auto simp: popped_def split: option.splits)
    then have "execute_next be p = (None, p)"
      using pop None by (simp add: execute_next_def popped_def[symmetric])
    moreover have "nothing_to_serve p"
      using pop None owned_pop_member(3,4) by (auto simp: nothing_to_serve_def popped_def split: option.splits)
    ultimately show ?thesis by (rule idle)
  next
    case (Some request)
    then have "length rest < length (pu_mailbox p)"
      using pop owned_pop_owner(1,2) by (auto simp: popped_def split: option.splits)
    moreover have "request \<in> set (pu_mailbox p)"
      using pop Some owned_pop_member(1,2) by (auto simp: popped_def split: option.splits)
    moreover have "so_upload_client (pu_owner p) = None \<or>
        so_upload_client (pu_owner p) = Some (rq_client (orq_envelope request))"
    proof (cases "so_upload_client (pu_owner p)")
      case (Some client)
      then have "owned_pop_client client (pu_mailbox p) = (Some request, rest)"
        using pop \<open>m = Some request\<close> by (simp add: popped_def)
      then have "rq_client (orq_envelope request) = client"
        by (cases rule: owned_pop_client_cases[of client "pu_mailbox p"]) (auto simp: first_highest_def)
      then show ?thesis using Some by simp
    qed simp
    moreover have "execute_next be p = (Some (fst (execute_owned be request (pu_owner p)),
          [PhExecuting (rq_client (orq_envelope request)) (rq_sequence (orq_envelope request)),
           PhCompleted (rq_client (orq_envelope request)) (rq_sequence (orq_envelope request))]),
        p\<lparr>pu_mailbox := rest, pu_owner := snd (execute_owned be request (pu_owner p))\<rparr>)"
      using pop Some by (simp add: execute_next_def popped_def[symmetric] Let_def case_prod_beta)
    ultimately show ?thesis using served by blast
  qed
qed

lemma pump_step_inv: "pump_inv capacity p \<Longrightarrow> pump_step be capacity p p' \<Longrightarrow> pump_inv capacity p'"
proof (erule pump_stepE)
  assume inv: "pump_inv capacity p"
  show "pump_inv capacity p'" if "p' = snd (enqueue capacity request p)" for request
    using inv that by (auto simp: pump_inv_def enqueue_def owned_push_def)
  show "pump_inv capacity p'" if "p' = snd (execute_immediate be request p)" for request
    using inv that by (auto simp: pump_inv_def execute_immediate_def execute_owned_inv Let_def case_prod_beta)
  show "pump_inv capacity p'" if "p' = snd (execute_next be p)"
    using inv that by (cases rule: execute_next_cases[of be p]) (auto simp: pump_inv_def execute_owned_inv)
qed

interpretation pump: machine "\<lambda>p. \<exists>backend. p = pump_new backend" "pump_step be capacity" "pump_inv capacity"
  for be :: "('b, 'e) OwnerBackend" and capacity
proof
  show "pump_inv capacity p" if "\<exists>backend. p = pump_new backend" for p :: "'b StorageOwnerPump"
    using that by (auto simp: pump_inv_def pump_new_def owner_inv_new)
  show "pump_inv capacity t" if "pump_inv capacity s" "pump_step be capacity s t" for s t
    using that by (rule pump_step_inv)
qed

lemma immediate_begin_busy:
  assumes "po_upload (so_protocol (pu_owner p)) \<noteq> None" and "begins_upload (rq_request (orq_envelope request))"
  shows "rs_response (ors_envelope (fst (fst (execute_immediate be request p)))) = Err (CeRequest ReBusy) \<and>
    snd (execute_immediate be request p) = p"
  using assms
  by (cases "rq_request (orq_envelope request)")
    (auto simp: execute_immediate_def execute_owned_def Let_def)

text \<open>
  The task that runs the pump takes the mailbox for empty when \<open>execute_next\<close> has nothing to serve, and calls a refusal of
  the next request unreachable.  A mailbox filled by requests that wait for the end of an upload refuses it.
\<close>

lemma waiting_mailbox_refuses:
  assumes "nothing_to_serve p" and "length (pu_mailbox p) = capacity"
  shows "execute_next be p = (None, p) \<and> enqueue capacity request p = (Err request, p)"
proof -
  have "execute_next be p = (None, p)"
    by (cases rule: execute_next_cases[of be p])
      (use assms(1) in \<open>auto simp: nothing_to_serve_def list_all_iff split: option.splits\<close>)
  then show ?thesis using assms(2) by (simp add: enqueue_def owned_push_def)
qed

text \<open>C9: In every state the pump can reach, at most one upload is open, and its three records (the protocol's
  upload id, the target name and the owning client) are present or absent together; ids and tokens are never zero; and the
  mailbox stays within its capacity.  Of the queued requests the pump (\<open>execute_next\<close>) serves, while an upload is open,
  only those of its client; it serves nothing exactly when no such request is queued.  This concerns the mailbox only: a
  request that finds the mailbox full is executed at once by \<open>execute_immediate\<close>, whoever sends it; if it begins an
  upload while one is open, it is refused as busy and changes nothing.\<close>

theorem pump_upload_exclusive:
  assumes "reachable (\<lambda>p. \<exists>backend. p = pump_new backend) (pump_step be capacity) p"
  shows "(so_upload_name (pu_owner p) = None \<longleftrightarrow> po_upload (so_protocol (pu_owner p)) = None) \<and>
    (so_upload_client (pu_owner p) = None \<longleftrightarrow> po_upload (so_protocol (pu_owner p)) = None) \<and>
    po_upload (so_protocol (pu_owner p)) \<noteq> Some 0 \<and> po_scan (so_protocol (pu_owner p)) \<noteq> Some 0 \<and>
    length (pu_mailbox p) \<le> capacity \<and>
    (case execute_next be p of (None, p') \<Rightarrow> p' = p \<and> nothing_to_serve p
     | (Some (response, _), p') \<Rightarrow>
         so_upload_client (pu_owner p) \<in> {None, Some (rs_client (ors_envelope response))} \<and>
         length (pu_mailbox p') < length (pu_mailbox p) \<and>
         list_ex (\<lambda>r. rq_client (orq_envelope r) = rs_client (ors_envelope response) \<and>
           rq_sequence (orq_envelope r) = rs_sequence (ors_envelope response)) (pu_mailbox p)) \<and>
    (po_upload (so_protocol (pu_owner p)) \<noteq> None \<and> begins_upload (rq_request (orq_envelope request)) \<longrightarrow>
      rs_response (ors_envelope (fst (fst (execute_immediate be request p)))) = Err (CeRequest ReBusy) \<and>
      snd (execute_immediate be request p) = p)"
proof -
  have inv: "pump_inv capacity p" using assms by (rule pump.reachable_inv)
  have "case execute_next be p of (None, p') \<Rightarrow> p' = p \<and> nothing_to_serve p
     | (Some (response, _), p') \<Rightarrow>
         so_upload_client (pu_owner p) \<in> {None, Some (rs_client (ors_envelope response))} \<and>
         length (pu_mailbox p') < length (pu_mailbox p) \<and>
         list_ex (\<lambda>r. rq_client (orq_envelope r) = rs_client (ors_envelope response) \<and>
           rq_sequence (orq_envelope r) = rs_sequence (ors_envelope response)) (pu_mailbox p)"
    by (cases rule: execute_next_cases[of be p])
      (auto simp: execute_owned_def Let_def case_prod_beta list_ex_iff)
  moreover have "(so_upload_name (pu_owner p) = None \<longleftrightarrow> po_upload (so_protocol (pu_owner p)) = None) \<and>
    (so_upload_client (pu_owner p) = None \<longleftrightarrow> po_upload (so_protocol (pu_owner p)) = None) \<and>
    po_upload (so_protocol (pu_owner p)) \<noteq> Some 0 \<and> po_scan (so_protocol (pu_owner p)) \<noteq> Some 0 \<and>
    length (pu_mailbox p) \<le> capacity"
    using inv by (auto simp: pump_inv_def owner_inv_def protocol_part_def)
  ultimately show ?thesis using immediate_begin_busy by blast
qed

text \<open>An upload of the diagnostic client is open and a request of the reader waits: nothing is served.\<close>

definition sample_begin :: OwnedRequest where
  "sample_begin = \<lparr>orq_envelope = \<lparr>rq_client = ScDiagnostic, rq_sequence = 1, rq_request = UploadBegin [0x61] 2 0 False\<rparr>,
    orq_buffer = None\<rparr>"

definition sample_uploading :: "bytes StorageOwnerPump" where
  "sample_uploading = snd (enqueue 4 sample_read (snd (execute_immediate memory_backend sample_begin (pump_new [5, 6, 7]))))"

lemma sample_uploading_eq:
  "so_upload_client (pu_owner sample_uploading) = Some ScDiagnostic" "pu_mailbox sample_uploading = [sample_read]"
  by (simp_all add: sample_uploading_def sample_begin_def enqueue_def owned_push_def pump_new_def execute_immediate_def
      execute_owned_def StorageOwner_new_def StorageOwnerProtocol_new_def memory_backend_def on_backend_def on_protocol_def
      begin_upload_def Let_def)

theorem pump_upload_exclusive_witness:
  "so_upload_client (pu_owner sample_uploading) = Some ScDiagnostic \<and> pu_mailbox sample_uploading = [sample_read] \<and>
   fst (execute_next memory_backend sample_uploading) = None \<and>
   snd (execute_immediate memory_backend sample_begin sample_uploading) = sample_uploading"
proof -
  have reach: "reachable (\<lambda>p. \<exists>backend. p = pump_new backend) (pump_step memory_backend 4) sample_uploading"
    unfolding sample_uploading_def
    by (rule reachable.followed[OF reachable.followed[OF reachable.initial]]) (auto intro: pump_step.intros)
  have "po_upload (so_protocol (pu_owner sample_uploading)) \<noteq> None \<and> begins_upload (rq_request (orq_envelope sample_begin))"
    using pump_upload_exclusive[OF reach, of sample_begin] sample_uploading_eq(1) by (auto simp: sample_begin_def)
  with pump_upload_exclusive[OF reach, of sample_begin] sample_uploading_eq
  show ?thesis
    by (cases "execute_next memory_backend sample_uploading"; cases "fst (execute_next memory_backend sample_uploading)")
      (auto simp: sample_read_def)
qed

text \<open>The upload a request names.\<close>

fun upload_target :: "Request \<Rightarrow> u32 option" where
  "upload_target (UploadWrite upload_id _ _ _ _ _) = Some upload_id"
| "upload_target (UploadCommit upload_id _) = Some upload_id"
| "upload_target (UploadAbort upload_id) = Some upload_id"
| "upload_target _ = None"

text \<open>C8: A write, commit or abort that names an upload other than the open one is refused as stale; it
  reaches neither the backend nor the owner's state, and its buffer comes back untouched.  Likewise a scratch-file
  request of any client but the library.\<close>

theorem stale_request_refused:
  assumes "upload_target (rq_request (orq_envelope request)) = Some upload_id \<and> po_upload (so_protocol own) \<noteq> Some upload_id \<or>
    is_library_scratch (rq_request (orq_envelope request)) \<and> rq_client (orq_envelope request) \<noteq> ScLibrary"
  shows "execute_owned be request own = (reject_owned_request request (CeRequest ReStale), own)"
  using assms
proof
  assume stale: "upload_target (rq_request (orq_envelope request)) = Some upload_id \<and> po_upload (so_protocol own) \<noteq> Some upload_id"
  then have "execute be (rq_request (orq_envelope request)) own (orq_buffer request) =
      (Err (OeRequest ReStale), own, orq_buffer request)"
    by (cases "rq_request (orq_envelope request)") (auto simp: require_upload_def)
  moreover have "\<not> is_library_scratch (rq_request (orq_envelope request))"
    using stale by (cases "rq_request (orq_envelope request)") auto
  ultimately show ?thesis
    by (simp add: execute_owned_execute reject_owned_request_def envelope_failure_def)
qed (simp add: execute_owned_scratch reject_owned_request_def envelope_failure_def)

definition sample_write :: OwnedRequest where
  "sample_write = \<lparr>orq_envelope = \<lparr>rq_client = ScDiagnostic, rq_sequence = 3, rq_request = UploadWrite 7 0 0 2 Bulk0 False\<rparr>,
    orq_buffer = Some \<lparr>lease_slot = Bulk0, lease_bytes = [1, 2]\<rparr>\<rparr>"

theorem stale_request_refused_witness:
  "execute_owned memory_backend sample_write (StorageOwner_new [9]) =
    (reject_owned_request sample_write (CeRequest ReStale), StorageOwner_new [9])"
  by (rule stale_request_refused[where upload_id = 7])
    (simp add: sample_write_def StorageOwner_new_def StorageOwnerProtocol_new_def)

end
