(* ===== verification/Scan_Records.thy ===== *)
theory Scan_Records
  imports Storage_Owner
begin

text \<open>
  The batch of directory entries a scan step returns in the library buffer: eight fixed records of 132 bytes
  (\<open>encode_scan_records\<close>, \<open>decode_scan_records\<close> of \<^verbatim>\<open>binbook-fw/src/storage_owner.rs\<close>).
\<close>

record ScanRecord =
  sr_name :: StorageName
  sr_size :: u64
  sr_mount_token :: "MountFileToken option"

fun encode_scan_loop :: "ScanRecord list \<Rightarrow> nat \<Rightarrow> bytes \<Rightarrow> (bytes, RequestError) res" where
  "encode_scan_loop [] index out = Ok out"
| "encode_scan_loop (rec # records) index out =
    (let start = index * SCAN_RECORD_BYTES; name = sr_name rec;
         size_offset = start + 1 + MAX_BINBOOK_NAME_BYTES;
         token = (case sr_mount_token rec of None \<Rightarrow> 0 | Some t \<Rightarrow> t)
     in and_then (put out start [of_nat (length name)]) (\<lambda>out.
        and_then (put out (start + 1) name) (\<lambda>out.
        and_then (put out size_offset (to_le 8 (sr_size rec))) (\<lambda>out.
        and_then (put out (size_offset + 8) (to_le 2 token)) (\<lambda>out.
        encode_scan_loop records (index + 1) out)))))"

definition encode_scan_records :: "ScanRecord list \<Rightarrow> bytes \<Rightarrow> (bytes, RequestError) res" where
  "encode_scan_records records out =
    (if length records > unat SCAN_ENTRY_BUDGET \<or> length out < SCAN_BATCH_BYTES then Err ReTooLarge
     else and_then (put out 0 (replicate SCAN_BATCH_BYTES 0)) (encode_scan_loop records 0))"

definition decode_scan_record :: "nat \<Rightarrow> bytes \<Rightarrow> (ScanRecord, RequestError) res" where
  "decode_scan_record index bytes =
    (if index \<ge> unat SCAN_ENTRY_BUDGET \<or> length bytes < SCAN_BATCH_BYTES then Err ReTooLarge
     else
       let start = index * SCAN_RECORD_BYTES in
       and_then (byte_at bytes start) (\<lambda>len_byte.
       let name_len = unat len_byte in
       if name_len = 0 \<or> name_len > MAX_BINBOOK_NAME_BYTES then Err ReNameTooLong
       else
         and_then (bytes_at bytes (start + 1) name_len) (\<lambda>name.
         if \<not> utf8_valid name then Err ReNameTooLong
         else
           let size_offset = start + 1 + MAX_BINBOOK_NAME_BYTES in
           and_then (u64_at bytes size_offset) (\<lambda>sz.
           and_then (u16_at bytes (size_offset + 8)) (\<lambda>token.
           and_then (StorageName_new name) (\<lambda>name.
           Ok \<lparr>sr_name = name, sr_size = sz, sr_mount_token = MountFileToken_new token\<rparr>))))))"

fun decode_scan_loop :: "nat \<Rightarrow> nat \<Rightarrow> bytes \<Rightarrow> (ScanRecord list, RequestError) res" where
  "decode_scan_loop index 0 bytes = Ok []"
| "decode_scan_loop index (Suc n) bytes =
    and_then (decode_scan_record index bytes) (\<lambda>rec.
    and_then (decode_scan_loop (index + 1) n bytes) (\<lambda>records. Ok (rec # records)))"

definition decode_scan_records :: "u8 \<Rightarrow> bytes \<Rightarrow> (ScanRecord list, RequestError) res" where
  "decode_scan_records count bytes =
    (if count > SCAN_ENTRY_BUDGET \<or> length bytes < SCAN_BATCH_BYTES then Err ReTooLarge
     else decode_scan_loop 0 (unat count) bytes)"

text \<open>One record on the wire, and what Rust's types and the scan guarantee of it.\<close>

definition scan_record_bytes :: "ScanRecord \<Rightarrow> bytes" where
  "scan_record_bytes r = of_nat (length (sr_name r)) # sr_name r @ replicate (121 - length (sr_name r)) 0 @
    to_le 8 (sr_size r) @ to_le 2 (case sr_mount_token r of None \<Rightarrow> 0 | Some t \<Rightarrow> t)"

definition scan_record_ok :: "ScanRecord \<Rightarrow> bool" where
  "scan_record_ok r \<longleftrightarrow> sr_name r \<noteq> [] \<and> length (sr_name r) \<le> 121 \<and> utf8_valid (sr_name r) \<and> sr_mount_token r \<noteq> Some 0"

lemma length_scan_record [simp]: "length (sr_name r) \<le> 121 \<Longrightarrow> length (scan_record_bytes r) = 132"
  by (simp add: scan_record_bytes_def)

lemma write_scan_record:
  fixes k :: "bytes \<Rightarrow> (bytes, RequestError) res"
  assumes "length pre = i" and "length (sr_name r) \<le> 121"
  shows "and_then (put (pre @ replicate 132 0 @ rest) i [of_nat (length (sr_name r))]) (\<lambda>out.
    and_then (put out (i + 1) (sr_name r)) (\<lambda>out.
    and_then (put out (i + 122) (to_le 8 (sr_size r))) (\<lambda>out.
    and_then (put out (i + 130) (to_le 2 token)) k))) =
    k (pre @ (of_nat (length (sr_name r)) # sr_name r @ replicate (121 - length (sr_name r)) 0 @
      to_le 8 (sr_size r) @ to_le 2 token) @ rest)"
proof -
  let ?n = "sr_name r" and ?z = "replicate (121 - length (sr_name r)) (0 :: u8)"
  have put_mid: "put (xs @ ys @ zs) (length xs) bs = (Ok (xs @ bs @ zs) :: (bytes, RequestError) res)"
    if "length ys = length bs" for xs ys zs bs :: bytes
    using that by (simp add: put_def overwrite_def)
  have "132 = Suc 131" "(131 :: nat) = length ?n + (length ?z + 10)" "(10 :: nat) = 8 + 2" using assms by simp_all
  then have zeros: "replicate 132 (0 :: u8) = 0 # replicate (length ?n) 0 @ ?z @ replicate 8 0 @ replicate 2 0"
    by (metis length_replicate replicate_Suc replicate_add)
  have "put (pre @ replicate 132 0 @ rest) i [of_nat (length ?n)] =
      (Ok (pre @ [of_nat (length ?n)] @ replicate (length ?n) 0 @ ?z @ replicate 8 0 @ replicate 2 0 @ rest) :: (bytes, RequestError) res)"
    using put_mid[of "[0]" "[of_nat (length ?n)]" pre] assms(1) by (simp add: zeros)
  moreover have "put (pre @ [of_nat (length ?n)] @ replicate (length ?n) 0 @ ?z @ replicate 8 0 @ replicate 2 0 @ rest) (i + 1) ?n =
      (Ok (pre @ [of_nat (length ?n)] @ ?n @ ?z @ replicate 8 0 @ replicate 2 0 @ rest) :: (bytes, RequestError) res)"
    using put_mid[of "replicate (length ?n) 0" ?n "pre @ [of_nat (length ?n)]"] assms(1) by simp
  moreover have "put (pre @ [of_nat (length ?n)] @ ?n @ ?z @ replicate 8 0 @ replicate 2 0 @ rest) (i + 122) (to_le 8 (sr_size r)) =
      (Ok (pre @ [of_nat (length ?n)] @ ?n @ ?z @ to_le 8 (sr_size r) @ replicate 2 0 @ rest) :: (bytes, RequestError) res)"
    using put_mid[of "replicate 8 0" "to_le 8 (sr_size r)" "pre @ [of_nat (length ?n)] @ ?n @ ?z"] assms by simp
  moreover have "put (pre @ [of_nat (length ?n)] @ ?n @ ?z @ to_le 8 (sr_size r) @ replicate 2 0 @ rest) (i + 130) (to_le 2 token) =
      (Ok (pre @ [of_nat (length ?n)] @ ?n @ ?z @ to_le 8 (sr_size r) @ to_le 2 token @ rest) :: (bytes, RequestError) res)"
    using put_mid[of "replicate 2 0" "to_le 2 token" "pre @ [of_nat (length ?n)] @ ?n @ ?z @ to_le 8 (sr_size r)"] assms by simp
  ultimately show ?thesis by simp
qed

lemma encode_scan_loop_eq:
  "length pre = 132 * i \<Longrightarrow> length rs \<le> k \<Longrightarrow> \<forall>r\<in>set rs. length (sr_name r) \<le> 121 \<Longrightarrow>
   encode_scan_loop rs i (pre @ replicate (132 * k) 0 @ rest) =
     Ok (pre @ concat (map scan_record_bytes rs) @ replicate (132 * (k - length rs)) 0 @ rest)"
proof (induction rs arbitrary: pre i k)
  case (Cons r rs)
  then obtain m where k: "k = Suc m" by (cases k) auto
  let ?t = "case sr_mount_token r of None \<Rightarrow> 0 | Some t \<Rightarrow> t"
  have name: "length (sr_name r) \<le> 121" using Cons.prems by simp
  have "replicate (132 * k) (0 :: u8) @ rest = replicate 132 0 @ (replicate (132 * m) 0 @ rest)"
    by (simp only: k mult_Suc_right replicate_add append_assoc)
  then have "encode_scan_loop (r # rs) i (pre @ replicate (132 * k) 0 @ rest) =
      encode_scan_loop rs (i + 1) (pre @ scan_record_bytes r @ (replicate (132 * m) 0 @ rest))"
    using write_scan_record[of pre "i * 132" r "replicate (132 * m) 0 @ rest" ?t "encode_scan_loop rs (i + 1)"] Cons.prems(1) name
    by (simp add: scan_record_bytes_def Let_def add.commute[of 122] add.commute[of 130])
  also have "\<dots> = Ok ((pre @ scan_record_bytes r) @ concat (map scan_record_bytes rs) @ replicate (132 * (m - length rs)) 0 @ rest)"
    using Cons.IH[of "pre @ scan_record_bytes r" "i + 1" m] Cons.prems name k by simp
  finally show ?case by (simp add: k)
qed simp

lemma encode_scan_records_eq:
  assumes "\<forall>r\<in>set rs. length (sr_name r) \<le> 121"
  shows "encode_scan_records rs out =
    (if length rs > 8 \<or> length out < 1056 then Err ReTooLarge
     else Ok (concat (map scan_record_bytes rs) @ replicate (132 * (8 - length rs)) 0 @ drop 1056 out))"
  using encode_scan_loop_eq[of "[]" 0 rs 8 "drop 1056 out"] assms
  by (simp add: encode_scan_records_def put_def overwrite_start)

lemma decode_scan_record_eq:
  assumes "length pre = 132 * i" and "i < 8" and "1056 \<le> length (pre @ scan_record_bytes r @ rest)" and ok: "scan_record_ok r"
  shows "decode_scan_record i (pre @ scan_record_bytes r @ rest) = Ok r"
proof -
  let ?b = "pre @ scan_record_bytes r @ rest" and ?t = "case sr_mount_token r of None \<Rightarrow> 0 | Some t \<Rightarrow> t"
  let ?n = "length (sr_name r)"
  have n: "0 < ?n" "?n \<le> 121" and utf8: "utf8_valid (sr_name r)" using ok by (simp_all add: scan_record_ok_def)
  have len: "length ?b = 132 * i + 132 + length rest" using assms(1) n by simp
  have "byte_at ?b (132 * i) = (Ok (of_nat ?n) :: (u8, RequestError) res)"
    using assms(1) by (simp add: byte_at_def nth_append scan_record_bytes_def)
  moreover have "bytes_at ?b (132 * i + 1) ?n = (Ok (sr_name r) :: (bytes, RequestError) res)"
    using assms(1) n by (simp add: bytes_at_def subslice_def scan_record_bytes_def)
  moreover have "u64_at ?b (132 * i + 122) = (Ok (sr_size r) :: (u64, RequestError) res)"
    using assms(1) n by (simp add: u64_at_def bytes_at_def subslice_def scan_record_bytes_def of_le_to_le)
  moreover have "u16_at ?b (132 * i + 130) = (Ok ?t :: (u16, RequestError) res)"
    using assms(1) n by (simp add: u16_at_def bytes_at_def subslice_def scan_record_bytes_def of_le_to_le)
  moreover have "MountFileToken_new ?t = sr_mount_token r"
    using ok by (auto simp: MountFileToken_new_def scan_record_ok_def split: option.splits)
  ultimately show ?thesis
    using assms(2,3) n utf8 len
    by (simp add: decode_scan_record_def Let_def StorageName_new_def mult.commute[of i] add.commute[of 122]
        add.commute[of 130])
qed

lemma decode_scan_loop_eq:
  "length pre = 132 * i \<Longrightarrow> i + length rs \<le> 8 \<Longrightarrow> \<forall>r\<in>set rs. scan_record_ok r \<Longrightarrow>
   1056 \<le> length (pre @ concat (map scan_record_bytes rs) @ rest) \<Longrightarrow>
   decode_scan_loop i (length rs) (pre @ concat (map scan_record_bytes rs) @ rest) = Ok rs"
proof (induction rs arbitrary: pre i)
  case (Cons r rs)
  have name: "length (sr_name r) \<le> 121" using Cons.prems(3) by (simp add: scan_record_ok_def)
  have "decode_scan_record i (pre @ scan_record_bytes r @ (concat (map scan_record_bytes rs) @ rest)) = Ok r"
    using Cons.prems by (intro decode_scan_record_eq) simp_all
  moreover have "decode_scan_loop (i + 1) (length rs)
      ((pre @ scan_record_bytes r) @ concat (map scan_record_bytes rs) @ rest) = Ok rs"
    using Cons.prems name by (intro Cons.IH) simp_all
  ultimately show ?case by simp
qed simp

text \<open>A batch of scan records survives its buffer: encoding at most eight records with storable
  names into a buffer of the batch size succeeds, keeps the buffer's length and everything after the batch, and decoding
  that many records returns them in order.\<close>

theorem scan_batch_roundtrip:
  assumes "\<forall>r\<in>set records. scan_record_ok r" and "length records \<le> 8" and "SCAN_BATCH_BYTES \<le> length out"
  shows "\<exists>out'. encode_scan_records records out = Ok out' \<and> length out' = length out \<and>
    drop SCAN_BATCH_BYTES out' = drop SCAN_BATCH_BYTES out \<and>
    decode_scan_records (of_nat (length records)) out' = Ok records"
proof -
  let ?out' = "concat (map scan_record_bytes records) @ replicate (132 * (8 - length records)) 0 @ drop 1056 out"
  have names: "\<forall>r\<in>set records. length (sr_name r) \<le> 121" using assms(1) by (auto simp: scan_record_ok_def)
  have "map length (map scan_record_bytes records) = replicate (length records) 132"
    using names by (intro nth_equalityI) simp_all
  then have len: "length (concat (map scan_record_bytes records)) = 132 * length records"
    by (simp add: length_concat sum_list_replicate)
  have full: "length (concat (map scan_record_bytes records) @ replicate (132 * (8 - length records)) 0) = 1056"
    using len assms(2) by simp
  have count: "unat (of_nat (length records) :: u8) = length records" using assms(2) by simp
  have lo: "length ?out' = length out" using full assms(3) by simp
  have "decode_scan_loop 0 (length records) ([] @ ?out') = Ok records"
    using assms lo by (intro decode_scan_loop_eq) simp_all
  then have "decode_scan_records (of_nat (length records)) ?out' = Ok records"
    using assms(2,3) lo count by (simp add: decode_scan_records_def word_less_nat_alt)
  moreover have "encode_scan_records records out = Ok ?out'"
    using assms names by (simp add: encode_scan_records_eq)
  moreover have "drop 1056 ?out' = drop 1056 out"
    using full by (metis append.assoc append_eq_conv_conj)
  ultimately show ?thesis using lo by (intro exI[of _ ?out']) simp
qed

definition sample_scan :: "ScanRecord list" where
  "sample_scan = [\<lparr>sr_name = [0x61, 0x62], sr_size = 9, sr_mount_token = Some 257\<rparr>,
    \<lparr>sr_name = [0x63], sr_size = 70000, sr_mount_token = None\<rparr>]"

theorem scan_batch_roundtrip_witness:
  "\<exists>out'. encode_scan_records sample_scan (replicate 1056 7) = Ok out' \<and> length out' = length (replicate 1056 (7 :: u8)) \<and>
    drop SCAN_BATCH_BYTES out' = drop SCAN_BATCH_BYTES (replicate 1056 7) \<and>
    decode_scan_records (of_nat (length sample_scan)) out' = Ok sample_scan"
  by (rule scan_batch_roundtrip) (auto simp: sample_scan_def scan_record_ok_def)

end
