(* ===== verification/Bulk_Slots.thy ===== *)
theory Bulk_Slots
  imports Bulk_Messages Machine
begin

text \<open>
  The four-slot pool that tracks the data blocks of a streaming transfer
  (\<^verbatim>\<open>binbook-fw/src/bulk_slot_types.rs\<close>, \<^verbatim>\<open>bulk_slots.rs\<close>).  A block is named by a descriptor
  that carries the pool's generation, so that descriptors of an aborted session are refused.  \<open>claims\<close> is the
  abstract view the pipelines rest on: which slot holds which descriptor, in which state.
\<close>

definition TRANSFER_DATA_BYTES :: nat where [simp]: "TRANSFER_DATA_BYTES = 3584"
definition TRANSFER_SLOT_COUNT :: nat where [simp]: "TRANSFER_SLOT_COUNT = 4"

datatype BulkSlotState = SlFree | SlRxReady | SlStorageOwned | SlTxReady | SlAwaitingAck

datatype BulkSlotError = SeFull | SeLength | SeInvalidSlot | SeStaleGeneration | SeDescriptorMismatch | SeWrongState

record BulkSlotDescriptor =
  ds_slot :: u8
  ds_generation :: u32
  ds_offset :: u32
  ds_len :: u16
  ds_direction :: TransferDirection

record BulkSlot =
  sl_generation :: u32
  sl_offset :: u32
  sl_len :: u16
  sl_direction :: TransferDirection
  sl_state :: BulkSlotState

definition BulkSlot_new :: BulkSlot where
  "BulkSlot_new = \<lparr>sl_generation = 0, sl_offset = 0, sl_len = 0, sl_direction = Td_Unspecified, sl_state = SlFree\<rparr>"

definition slot_descriptor :: "BulkSlot \<Rightarrow> nat \<Rightarrow> BulkSlotDescriptor" where
  "slot_descriptor s slot =
    \<lparr>ds_slot = of_nat slot, ds_generation = sl_generation s, ds_offset = sl_offset s, ds_len = sl_len s,
     ds_direction = sl_direction s\<rparr>"

definition slot_reset :: "u32 \<Rightarrow> BulkSlot \<Rightarrow> BulkSlot" where
  "slot_reset generation s =
    s\<lparr>sl_generation := generation, sl_offset := 0, sl_len := 0, sl_direction := Td_Unspecified, sl_state := SlFree\<rparr>"

record BulkSlotPool =
  bp_slots :: "BulkSlot list"
  bp_generation :: u32
  bp_peak_occupied :: u8

definition BulkSlotPool_new :: BulkSlotPool where
  "BulkSlotPool_new = \<lparr>bp_slots = replicate TRANSFER_SLOT_COUNT BulkSlot_new, bp_generation = 0, bp_peak_occupied = 0\<rparr>"

definition pool_invalidate :: "BulkSlotPool \<Rightarrow> u32 \<times> BulkSlotPool" where
  "pool_invalidate pool =
    (let generation = next_id (bp_generation pool) in
     (generation, \<lparr>bp_slots = map (slot_reset generation) (bp_slots pool), bp_generation = generation, bp_peak_occupied = 0\<rparr>))"

definition begin_session :: "BulkSlotPool \<Rightarrow> u32 \<times> BulkSlotPool" where
  "begin_session = pool_invalidate"

definition abort_session :: "BulkSlotPool \<Rightarrow> u32 \<times> BulkSlotPool" where
  "abort_session = pool_invalidate"

definition occupied :: "BulkSlotPool \<Rightarrow> u8" where
  "occupied pool = of_nat (length (filter (\<lambda>s. sl_state s \<noteq> SlFree) (bp_slots pool)))"

definition update_peak :: "BulkSlotPool \<Rightarrow> BulkSlotPool" where
  "update_peak pool = pool\<lparr>bp_peak_occupied := max (bp_peak_occupied pool) (occupied pool)\<rparr>"

definition claim_upload ::
    "u32 \<Rightarrow> u16 \<Rightarrow> BulkSlotPool \<Rightarrow> (BulkSlotDescriptor, BulkSlotError) res \<times> BulkSlotPool" where
  "claim_upload offset len pool =
    (if len = 0 \<or> unat len > TRANSFER_DATA_BYTES then (Err SeLength, pool)
     else
       on_ok (ok_or SeFull (position (\<lambda>s. sl_state s = SlFree) (bp_slots pool))) pool (\<lambda>index.
       let slot = \<lparr>sl_generation = bp_generation pool, sl_offset = offset, sl_len = len,
             sl_direction = Td_Upload, sl_state = SlRxReady\<rparr>;
           pool = pool\<lparr>bp_slots := (bp_slots pool)[index := slot]\<rparr>
       in (Ok (slot_descriptor slot index), update_peak pool)))"

definition pool_validate :: "BulkSlotDescriptor \<Rightarrow> BulkSlotPool \<Rightarrow> (BulkSlot, BulkSlotError) res" where
  "pool_validate d pool =
    (if ds_generation d \<noteq> bp_generation pool then Err SeStaleGeneration
     else if unat (ds_slot d) \<ge> length (bp_slots pool) then Err SeInvalidSlot
     else let slot = bp_slots pool ! unat (ds_slot d) in
       if slot_descriptor slot (unat (ds_slot d)) \<noteq> d then Err SeDescriptorMismatch else Ok slot)"

text \<open>\<open>validate_mut\<close> returns the slot that the caller then updates in place.\<close>

definition validate_mut :: "BulkSlotDescriptor \<Rightarrow> BulkSlotState \<Rightarrow> BulkSlotPool \<Rightarrow> (BulkSlot, BulkSlotError) res" where
  "validate_mut d state pool =
    and_then (pool_validate d pool) (\<lambda>slot. if sl_state slot \<noteq> state then Err SeWrongState else Ok slot)"

definition set_slot :: "BulkSlotDescriptor \<Rightarrow> BulkSlot \<Rightarrow> BulkSlotPool \<Rightarrow> BulkSlotPool" where
  "set_slot d slot pool = pool\<lparr>bp_slots := (bp_slots pool)[unat (ds_slot d) := slot]\<rparr>"

definition take_upload_for_storage ::
    "BulkSlotDescriptor \<Rightarrow> BulkSlotPool \<Rightarrow> (unit, BulkSlotError) res \<times> BulkSlotPool" where
  "take_upload_for_storage d pool =
    on_ok (validate_mut d SlRxReady pool) pool (\<lambda>slot.
    if sl_direction slot \<noteq> Td_Upload then (Err SeWrongState, pool)
    else (Ok (), set_slot d (slot\<lparr>sl_state := SlStorageOwned\<rparr>) pool))"

definition complete_upload ::
    "BulkSlotDescriptor \<Rightarrow> BulkSlotPool \<Rightarrow> (u32, BulkSlotError) res \<times> BulkSlotPool" where
  "complete_upload d pool =
    on_ok (validate_mut d SlStorageOwned pool) pool (\<lambda>slot.
    if sl_direction slot \<noteq> Td_Upload then (Err SeWrongState, pool)
    else
      on_ok (ok_or SeLength (checked_add (sl_offset slot) (ucast (sl_len slot)))) pool (\<lambda>durable.
      (Ok durable, set_slot d (slot_reset (bp_generation pool) slot) pool)))"

definition reserve_read ::
    "u32 \<Rightarrow> u16 \<Rightarrow> BulkSlotPool \<Rightarrow> (BulkSlotDescriptor, BulkSlotError) res \<times> BulkSlotPool" where
  "reserve_read offset len pool =
    (if len = 0 \<or> unat len > TRANSFER_DATA_BYTES then (Err SeLength, pool)
     else
       on_ok (ok_or SeFull (position (\<lambda>s. sl_state s = SlFree) (bp_slots pool))) pool (\<lambda>index.
       let slot = \<lparr>sl_generation = bp_generation pool, sl_offset = offset, sl_len = len,
             sl_direction = Td_Readback, sl_state = SlStorageOwned\<rparr>;
           pool = pool\<lparr>bp_slots := (bp_slots pool)[index := slot]\<rparr>
       in (Ok (slot_descriptor slot index), update_peak pool)))"

definition transition_read ::
    "BulkSlotDescriptor \<Rightarrow> BulkSlotState \<Rightarrow> BulkSlotState \<Rightarrow> BulkSlotPool \<Rightarrow> (unit, BulkSlotError) res \<times> BulkSlotPool" where
  "transition_read d from_state to_state pool =
    on_ok (validate_mut d from_state pool) pool (\<lambda>slot.
    if sl_direction slot \<noteq> Td_Readback then (Err SeWrongState, pool)
    else (Ok (), set_slot d (slot\<lparr>sl_state := to_state\<rparr>) pool))"

definition pool_complete_read :: "BulkSlotDescriptor \<Rightarrow> BulkSlotPool \<Rightarrow> (unit, BulkSlotError) res \<times> BulkSlotPool" where
  "pool_complete_read d = transition_read d SlStorageOwned SlTxReady"

definition mark_awaiting_ack :: "BulkSlotDescriptor \<Rightarrow> BulkSlotPool \<Rightarrow> (unit, BulkSlotError) res \<times> BulkSlotPool" where
  "mark_awaiting_ack d = transition_read d SlTxReady SlAwaitingAck"

definition ack_read :: "BulkSlotDescriptor \<Rightarrow> BulkSlotPool \<Rightarrow> (unit, BulkSlotError) res \<times> BulkSlotPool" where
  "ack_read d pool =
    on_ok (validate_mut d SlAwaitingAck pool) pool (\<lambda>slot.
    if sl_direction slot \<noteq> Td_Readback then (Err SeWrongState, pool)
    else (Ok (), set_slot d (slot_reset (bp_generation pool) slot) pool))"

definition pool_state :: "u8 \<Rightarrow> BulkSlotPool \<Rightarrow> (BulkSlotState, BulkSlotError) res" where
  "pool_state slot pool =
    (if unat slot < length (bp_slots pool) then Ok (sl_state (bp_slots pool ! unat slot)) else Err SeInvalidSlot)"

subsection \<open>The abstract view\<close>

definition claims :: "BulkSlotPool \<Rightarrow> nat \<Rightarrow> (BulkSlotDescriptor \<times> BulkSlotState) option" where
  "claims pool i =
    (if i < length (bp_slots pool) \<and> sl_state (bp_slots pool ! i) \<noteq> SlFree
     then Some (slot_descriptor (bp_slots pool ! i) i, sl_state (bp_slots pool ! i)) else None)"

fun phase_ok :: "TransferDirection \<Rightarrow> BulkSlotState \<Rightarrow> bool" where
  "phase_ok Td_Upload st \<longleftrightarrow> st = SlRxReady \<or> st = SlStorageOwned"
| "phase_ok Td_Readback st \<longleftrightarrow> st = SlStorageOwned \<or> st = SlTxReady \<or> st = SlAwaitingAck"
| "phase_ok Td_Unspecified st \<longleftrightarrow> False"

definition slot_ok :: "u32 \<Rightarrow> BulkSlot \<Rightarrow> bool" where
  "slot_ok generation s \<longleftrightarrow> sl_state s = SlFree \<or>
    sl_generation s = generation \<and> 0 < unat (sl_len s) \<and> unat (sl_len s) \<le> 3584 \<and> phase_ok (sl_direction s) (sl_state s)"

definition pool_ok :: "BulkSlotPool \<Rightarrow> bool" where
  "pool_ok pool \<longleftrightarrow> length (bp_slots pool) = 4 \<and> (\<forall>s\<in>set (bp_slots pool). slot_ok (bp_generation pool) s)"

lemma small_index [simp]: "i < 4 \<Longrightarrow> unat (of_nat i :: u8) = i"
  by simp

lemma slot_descriptor_simps [simp]:
  "ds_slot (slot_descriptor s i) = of_nat i" "ds_generation (slot_descriptor s i) = sl_generation s"
  "ds_offset (slot_descriptor s i) = sl_offset s" "ds_len (slot_descriptor s i) = sl_len s"
  "ds_direction (slot_descriptor s i) = sl_direction s"
  "slot_descriptor (s\<lparr>sl_state := st\<rparr>) i = slot_descriptor s i"
  by (simp_all add: slot_descriptor_def)

lemma claims_Some:
  assumes "pool_ok pool" and "claims pool i = Some (d, st)"
  shows "i < 4" "ds_slot d = of_nat i" "unat (ds_slot d) = i" "ds_generation d = bp_generation pool" "st \<noteq> SlFree"
    "0 < unat (ds_len d)" "unat (ds_len d) \<le> 3584" "phase_ok (ds_direction d) st"
    "bp_slots pool ! i = \<lparr>sl_generation = ds_generation d, sl_offset = ds_offset d, sl_len = ds_len d,
      sl_direction = ds_direction d, sl_state = st\<rparr>"
    "slot_descriptor (bp_slots pool ! i) i = d"
proof -
  from assms have i: "i < 4" and st: "sl_state (bp_slots pool ! i) \<noteq> SlFree"
    and d: "d = slot_descriptor (bp_slots pool ! i) i" "st = sl_state (bp_slots pool ! i)"
    by (auto simp: claims_def pool_ok_def split: if_splits)
  then have "slot_ok (bp_generation pool) (bp_slots pool ! i)" using assms(1) by (simp add: pool_ok_def)
  with i st d show "i < 4" "ds_slot d = of_nat i" "unat (ds_slot d) = i" "ds_generation d = bp_generation pool" "st \<noteq> SlFree"
    "0 < unat (ds_len d)" "unat (ds_len d) \<le> 3584" "phase_ok (ds_direction d) st"
    "bp_slots pool ! i = \<lparr>sl_generation = ds_generation d, sl_offset = ds_offset d, sl_len = ds_len d,
      sl_direction = ds_direction d, sl_state = st\<rparr>"
    "slot_descriptor (bp_slots pool ! i) i = d"
    by (simp_all add: slot_ok_def)
qed

lemma claims_dom: "pool_ok pool \<Longrightarrow> dom (claims pool) \<subseteq> {..<4}"
  by (auto dest: claims_Some(1))

lemma finite_claims: "pool_ok pool \<Longrightarrow> finite (dom (claims pool))"
  using claims_dom finite_subset by blast

lemma occupied_claims: "pool_ok pool \<Longrightarrow> unat (occupied pool) = card (dom (claims pool))"
proof -
  assume ok: "pool_ok pool"
  let ?P = "\<lambda>s. sl_state s \<noteq> SlFree"
  have "length (filter ?P (bp_slots pool)) = card {i. i < length (bp_slots pool) \<and> ?P (bp_slots pool ! i)}"
    by (rule length_filter_conv_card)
  also have "{i. i < length (bp_slots pool) \<and> ?P (bp_slots pool ! i)} = dom (claims pool)"
    by (auto simp: claims_def split: if_splits)
  finally have count: "length (filter ?P (bp_slots pool)) = card (dom (claims pool))" .
  have "card (dom (claims pool)) \<le> card {..<4 :: nat}" using claims_dom[OF ok] by (intro card_mono) simp_all
  then show ?thesis by (simp add: occupied_def count)
qed

lemma occupied_le: "pool_ok pool \<Longrightarrow> unat (occupied pool) \<le> 4"
  using card_mono[OF _ claims_dom[of pool]] by (simp add: occupied_claims)

text \<open>Storing a slot.\<close>

lemma claims_store:
  assumes "i < length (bp_slots pool)"
  shows "claims (pool\<lparr>bp_slots := (bp_slots pool)[i := s]\<rparr>) =
    (claims pool)(i := if sl_state s = SlFree then None else Some (slot_descriptor s i, sl_state s))"
  using assms by (auto simp: claims_def fun_eq_iff nth_list_update)

lemma pool_ok_store:
  "pool_ok pool \<Longrightarrow> slot_ok (bp_generation pool) s \<Longrightarrow> pool_ok (pool\<lparr>bp_slots := (bp_slots pool)[i := s]\<rparr>)"
  using set_update_subset_insert[of "bp_slots pool" i s] by (auto simp: pool_ok_def)

lemma peak_irrelevant [simp]:
  "claims (update_peak pool) = claims pool" "pool_ok (update_peak pool) = pool_ok pool"
  "bp_generation (update_peak pool) = bp_generation pool"
  by (simp_all add: update_peak_def claims_def pool_ok_def fun_eq_iff)

lemma slot_reset_ok [simp]: "slot_ok g (slot_reset g' s)" "sl_state (slot_reset g' s) = SlFree"
  by (simp_all add: slot_ok_def slot_reset_def)

lemma pool_new_ok: "pool_ok BulkSlotPool_new" "claims BulkSlotPool_new = Map.empty"
  by (auto simp: BulkSlotPool_new_def BulkSlot_new_def pool_ok_def slot_ok_def claims_def fun_eq_iff nth_Cons'
      numeral_eq_Suc)

lemma invalidate_spec:
  "pool_ok pool \<Longrightarrow> pool_ok (snd (pool_invalidate pool))"
  "claims (snd (pool_invalidate pool)) = Map.empty"
  "bp_generation (snd (pool_invalidate pool)) = next_id (bp_generation pool)"
  "fst (pool_invalidate pool) = next_id (bp_generation pool)"
  by (auto simp: pool_invalidate_def pool_ok_def claims_def fun_eq_iff Let_def)

text \<open>A descriptor passes validation exactly when it names a claim in the required state.\<close>

lemma validate_mut_iff:
  assumes "pool_ok pool" and "st \<noteq> SlFree"
  shows "validate_mut d st pool = Ok s \<longleftrightarrow>
    claims pool (unat (ds_slot d)) = Some (d, st) \<and> s = bp_slots pool ! unat (ds_slot d)"
proof
  assume "validate_mut d st pool = Ok s"
  then show "claims pool (unat (ds_slot d)) = Some (d, st) \<and> s = bp_slots pool ! unat (ds_slot d)"
    using assms by (auto simp: validate_mut_def pool_validate_def claims_def and_then_Ok_iff Let_def split: if_splits)
next
  assume c: "claims pool (unat (ds_slot d)) = Some (d, st) \<and> s = bp_slots pool ! unat (ds_slot d)"
  then have "ds_generation d = bp_generation pool" "unat (ds_slot d) < 4"
    using claims_Some[OF assms(1)] by blast+
  then show "validate_mut d st pool = Ok s"
    using c assms by (auto simp: validate_mut_def pool_validate_def claims_def pool_ok_def Let_def split: if_splits)
qed

lemma validate_mut_total: "validate_mut d st pool \<noteq> Panic"
  by (simp add: validate_mut_def pool_validate_def and_then_Panic_iff Let_def)

lemma validate_mut_cases:
  assumes "pool_ok pool" and "st \<noteq> SlFree"
  obtains (claimed) "claims pool (unat (ds_slot d)) = Some (d, st)"
      "validate_mut d st pool = Ok (bp_slots pool ! unat (ds_slot d))"
  | (refused) e where "claims pool (unat (ds_slot d)) \<noteq> Some (d, st)" "validate_mut d st pool = Err e"
proof (cases "validate_mut d st pool")
  case (Ok s)
  then show ?thesis using validate_mut_iff[OF assms] claimed by blast
next
  case (Err e)
  then have "claims pool (unat (ds_slot d)) \<noteq> Some (d, st)" using validate_mut_iff[OF assms, of d] by auto
  then show ?thesis using Err refused by blast
qed (simp add: validate_mut_total)

subsection \<open>The operations on the abstract view\<close>

lemma position_free:
  assumes "pool_ok pool"
  obtains (none) "position (\<lambda>s. sl_state s = SlFree) (bp_slots pool) = None" "dom (claims pool) = {..<4}"
  | (some) i where "position (\<lambda>s. sl_state s = SlFree) (bp_slots pool) = Some i" "i < 4" "claims pool i = None"
      "\<forall>j<i. claims pool j \<noteq> None"
proof (cases "position (\<lambda>s. sl_state s = SlFree) (bp_slots pool)")
  case None
  then have "\<forall>i<4. sl_state (bp_slots pool ! i) \<noteq> SlFree" using assms by (auto simp: pool_ok_def)
  then have "{..<4} \<subseteq> dom (claims pool)" using assms by (auto simp: claims_def pool_ok_def)
  then show ?thesis using None none claims_dom[OF assms] by blast
next
  case (Some i)
  then have "i < 4" "sl_state (bp_slots pool ! i) = SlFree" "\<forall>j<i. sl_state (bp_slots pool ! j) \<noteq> SlFree"
    using assms by (auto simp: position_Some pool_ok_def)
  then show ?thesis using Some assms by (intro some[of i]) (auto simp: claims_def pool_ok_def)
qed

text \<open>Both ways of claiming a slot; \<open>st\<close> is the state it starts in.\<close>

definition claim_effect ::
    "TransferDirection \<Rightarrow> BulkSlotState \<Rightarrow> u32 \<Rightarrow> u16 \<Rightarrow> BulkSlotPool \<Rightarrow>
     (BulkSlotDescriptor, BulkSlotError) res \<times> BulkSlotPool \<Rightarrow> bool" where
  "claim_effect dir st offset len pool rp \<longleftrightarrow>
    (case rp of (r, pool') \<Rightarrow>
      if len = 0 \<or> 3584 < unat len then r = Err SeLength \<and> pool' = pool
      else if dom (claims pool) = {..<4} then r = Err SeFull \<and> pool' = pool
      else \<exists>i d. i < 4 \<and> claims pool i = None \<and> (\<forall>j<i. claims pool j \<noteq> None) \<and>
        d = \<lparr>ds_slot = of_nat i, ds_generation = bp_generation pool, ds_offset = offset, ds_len = len, ds_direction = dir\<rparr> \<and>
        r = Ok d \<and> claims pool' = (claims pool)(i \<mapsto> (d, st)) \<and> pool_ok pool' \<and>
        bp_generation pool' = bp_generation pool)"

lemma claim_store:
  fixes offset :: u32
  assumes ok: "pool_ok pool" and "i < 4" and "0 < unat len" and "unat len \<le> 3584" and "phase_ok dir st" and "st \<noteq> SlFree"
  defines "slot \<equiv> \<lparr>sl_generation = bp_generation pool, sl_offset = offset, sl_len = len, sl_direction = dir, sl_state = st\<rparr>"
  shows "claims (pool\<lparr>bp_slots := (bp_slots pool)[i := slot]\<rparr>) = (claims pool)(i \<mapsto> (slot_descriptor slot i, st))"
    "pool_ok (pool\<lparr>bp_slots := (bp_slots pool)[i := slot]\<rparr>)"
proof -
  show "claims (pool\<lparr>bp_slots := (bp_slots pool)[i := slot]\<rparr>) = (claims pool)(i \<mapsto> (slot_descriptor slot i, st))"
    using claims_store[of i pool slot] assms by (simp add: pool_ok_def)
  show "pool_ok (pool\<lparr>bp_slots := (bp_slots pool)[i := slot]\<rparr>)"
    using assms by (intro pool_ok_store) (simp_all add: slot_ok_def)
qed

lemma claim_effect_intro:
  assumes ok: "pool_ok pool" and "phase_ok dir st" and "st \<noteq> SlFree"
  shows "claim_effect dir st offset len pool
    (if len = 0 \<or> unat len > TRANSFER_DATA_BYTES then (Err SeLength, pool)
     else
       on_ok (ok_or SeFull (position (\<lambda>s. sl_state s = SlFree) (bp_slots pool))) pool (\<lambda>index.
       let slot = \<lparr>sl_generation = bp_generation pool, sl_offset = offset, sl_len = len, sl_direction = dir, sl_state = st\<rparr>;
           pool = pool\<lparr>bp_slots := (bp_slots pool)[index := slot]\<rparr>
       in (Ok (slot_descriptor slot index), update_peak pool)))"
proof (cases "len = 0 \<or> 3584 < unat len")
  case True
  then show ?thesis by (auto simp: claim_effect_def)
next
  case False
  then have len: "len \<noteq> 0" "0 < unat len" "unat len \<le> 3584" by (simp_all add: unat_gt_0)
  show ?thesis
    using ok
  proof (cases rule: position_free)
    case none
    then show ?thesis using len by (simp add: claim_effect_def del: position_None)
  next
    case (some i)
    then have "dom (claims pool) \<noteq> {..<4}" by blast
    then show ?thesis
      using claim_store[OF ok some(2) len(2,3) assms(2,3), of offset] some len
      by (auto simp: claim_effect_def Let_def slot_descriptor_def intro!: exI[of _ i])
  qed
qed

lemma claim_upload_effect: "pool_ok pool \<Longrightarrow> claim_effect Td_Upload SlRxReady offset len pool (claim_upload offset len pool)"
  unfolding claim_upload_def by (rule claim_effect_intro) simp_all

lemma reserve_read_effect: "pool_ok pool \<Longrightarrow> claim_effect Td_Readback SlStorageOwned offset len pool (reserve_read offset len pool)"
  unfolding reserve_read_def by (rule claim_effect_intro) simp_all

text \<open>Every other operation moves or releases one claim, or refuses and changes nothing.\<close>

definition move_effect ::
    "BulkSlotDescriptor \<Rightarrow> TransferDirection \<Rightarrow> BulkSlotState \<Rightarrow> BulkSlotState \<Rightarrow> BulkSlotPool \<Rightarrow>
     ('a, BulkSlotError) res \<times> BulkSlotPool \<Rightarrow> bool" where
  "move_effect d dir st st' pool rp \<longleftrightarrow>
    (case rp of (r, pool') \<Rightarrow>
      if claims pool (unat (ds_slot d)) = Some (d, st) \<and> ds_direction d = dir
      then (\<exists>x. r = Ok x) \<and> pool_ok pool' \<and> bp_generation pool' = bp_generation pool \<and>
        claims pool' = (claims pool)(unat (ds_slot d) := if st' = SlFree then None else Some (d, st'))
      else (\<exists>e. r = Err e) \<and> pool' = pool)"

lemma move_store:
  assumes ok: "pool_ok pool" and c: "claims pool (unat (ds_slot d)) = Some (d, st)" and "phase_ok (ds_direction d) st'"
  shows "claims (set_slot d ((bp_slots pool ! unat (ds_slot d))\<lparr>sl_state := st'\<rparr>) pool) =
      (claims pool)(unat (ds_slot d) \<mapsto> (d, st'))"
    "pool_ok (set_slot d ((bp_slots pool ! unat (ds_slot d))\<lparr>sl_state := st'\<rparr>) pool)"
proof -
  note s = claims_Some[OF ok c]
  have st': "st' \<noteq> SlFree" using assms(3) by (cases "ds_direction d") auto
  have len: "unat (ds_slot d) < length (bp_slots pool)" using s(1) ok by (simp add: pool_ok_def)
  show "claims (set_slot d ((bp_slots pool ! unat (ds_slot d))\<lparr>sl_state := st'\<rparr>) pool) =
      (claims pool)(unat (ds_slot d) \<mapsto> (d, st'))"
    using claims_store[OF len] s(10) st' by (simp add: set_slot_def)
  show "pool_ok (set_slot d ((bp_slots pool ! unat (ds_slot d))\<lparr>sl_state := st'\<rparr>) pool)"
    using s assms(3) ok by (simp add: set_slot_def pool_ok_store slot_ok_def)
qed

lemma release_store:
  assumes ok: "pool_ok pool" and c: "claims pool (unat (ds_slot d)) = Some (d, st)"
  shows "claims (set_slot d (slot_reset g (bp_slots pool ! unat (ds_slot d))) pool) = (claims pool)(unat (ds_slot d) := None)"
    "pool_ok (set_slot d (slot_reset g (bp_slots pool ! unat (ds_slot d))) pool)"
proof -
  have len: "unat (ds_slot d) < length (bp_slots pool)" using claims_Some(1)[OF ok c] ok by (simp add: pool_ok_def)
  show "claims (set_slot d (slot_reset g (bp_slots pool ! unat (ds_slot d))) pool) = (claims pool)(unat (ds_slot d) := None)"
    using claims_store[OF len] by (simp add: set_slot_def)
  show "pool_ok (set_slot d (slot_reset g (bp_slots pool ! unat (ds_slot d))) pool)"
    using ok by (simp add: set_slot_def pool_ok_store)
qed

lemma set_slot_generation [simp]: "bp_generation (set_slot d s pool) = bp_generation pool"
  by (simp add: set_slot_def)

lemma take_upload_effect:
  assumes ok: "pool_ok pool"
  shows "move_effect d Td_Upload SlRxReady SlStorageOwned pool (take_upload_for_storage d pool)"
  by (cases rule: validate_mut_cases[OF ok, of SlRxReady d])
    (use claims_Some[OF ok, of "unat (ds_slot d)" d SlRxReady] move_store[OF ok, of d SlRxReady SlStorageOwned] in
      \<open>auto simp: move_effect_def take_upload_for_storage_def\<close>)

lemma transition_read_effect:
  assumes ok: "pool_ok pool" and "from_state \<noteq> SlFree" and "phase_ok Td_Readback to_state"
  shows "move_effect d Td_Readback from_state to_state pool (transition_read d from_state to_state pool)"
  by (cases rule: validate_mut_cases[OF ok assms(2), of d])
    (use assms(3) claims_Some[OF ok, of "unat (ds_slot d)" d from_state] move_store[OF ok, of d from_state to_state] in
      \<open>auto simp: move_effect_def transition_read_def\<close>)

lemma pool_complete_read_effect:
  "pool_ok pool \<Longrightarrow> move_effect d Td_Readback SlStorageOwned SlTxReady pool (pool_complete_read d pool)"
  unfolding pool_complete_read_def by (rule transition_read_effect) simp_all

lemma mark_awaiting_ack_effect:
  "pool_ok pool \<Longrightarrow> move_effect d Td_Readback SlTxReady SlAwaitingAck pool (mark_awaiting_ack d pool)"
  unfolding mark_awaiting_ack_def by (rule transition_read_effect) simp_all

lemma ack_read_effect:
  assumes ok: "pool_ok pool"
  shows "move_effect d Td_Readback SlAwaitingAck SlFree pool (ack_read d pool)"
  by (cases rule: validate_mut_cases[OF ok, of SlAwaitingAck d])
    (use claims_Some[OF ok, of "unat (ds_slot d)" d SlAwaitingAck] release_store[OF ok, of d SlAwaitingAck] in
      \<open>auto simp: move_effect_def ack_read_def\<close>)

text \<open>Completing an upload block also reports the offset after it, which has to fit 32 bits.\<close>

lemma complete_upload_cases:
  assumes ok: "pool_ok pool"
  obtains (completed) pool' where "claims pool (unat (ds_slot d)) = Some (d, SlStorageOwned)" "ds_direction d = Td_Upload"
      "complete_upload d pool = (Ok (ds_offset d + ucast (ds_len d)), pool')" "pool_ok pool'"
      "unat (ds_offset d + ucast (ds_len d)) = unat (ds_offset d) + unat (ds_len d)"
      "claims pool' = (claims pool)(unat (ds_slot d) := None)" "bp_generation pool' = bp_generation pool"
  | (refused) e where "complete_upload d pool = (Err e, pool)"
      "claims pool (unat (ds_slot d)) = Some (d, SlStorageOwned) \<longrightarrow> ds_direction d = Td_Upload \<longrightarrow>
        2 ^ 32 \<le> unat (ds_offset d) + unat (ds_len d)"
proof (cases rule: validate_mut_cases[OF ok, of SlStorageOwned d])
  case 2
  note s = claims_Some[OF ok 2(1)]
  have uc: "unat (ucast (ds_len d) :: u32) = unat (ds_len d)"
    using unat_u16_less[of "ds_len d"] by (simp add: unsigned_ucast_eq take_bit_nat_eq_self)
  show ?thesis
  proof (cases "ds_direction d = Td_Upload \<and> unat (ds_offset d) + unat (ds_len d) < 2 ^ 32")
    case True
    then have "complete_upload d pool = (Ok (ds_offset d + ucast (ds_len d)),
        set_slot d (slot_reset (bp_generation pool) (bp_slots pool ! unat (ds_slot d))) pool)"
      using 2 s(9) uc by (simp add: complete_upload_def checked_add_def)
    then show ?thesis
      using completed[OF 2(1)] True release_store[OF ok 2(1)] uc by (simp add: unat_add_small)
  next
    case False
    then have "\<exists>e. complete_upload d pool = (Err e, pool)"
      using 2(2) s(9) uc by (cases "ds_direction d = Td_Upload") (simp_all add: complete_upload_def checked_add_def)
    moreover have "claims pool (unat (ds_slot d)) = Some (d, SlStorageOwned) \<longrightarrow> ds_direction d = Td_Upload \<longrightarrow>
        2 ^ 32 \<le> unat (ds_offset d) + unat (ds_len d)" using False by auto
    ultimately show ?thesis using refused by blast
  qed
next
  case (3 e)
  then show ?thesis using refused by (auto simp: complete_upload_def)
qed simp

subsection \<open>The abstract pool\<close>

text \<open>
  The specification of the pool: a generation number and a partial map from slots to claims, with one function for every
  call.  \<open>st\<close> is the state in which a claim starts, or from which it moves.
\<close>

type_synonym claim_map = "nat \<Rightarrow> (BulkSlotDescriptor \<times> BulkSlotState) option"

definition first_free :: "claim_map \<Rightarrow> nat option" where
  "first_free m = find (\<lambda>i. m i = None) [0..<TRANSFER_SLOT_COUNT]"

definition slots_session :: "u32 \<times> claim_map \<Rightarrow> u32 \<times> u32 \<times> claim_map" where
  "slots_session = (\<lambda>(g, m). (next_id g, next_id g, Map.empty))"

definition slots_claim ::
    "TransferDirection \<Rightarrow> BulkSlotState \<Rightarrow> u32 \<Rightarrow> u16 \<Rightarrow> u32 \<times> claim_map \<Rightarrow>
     (BulkSlotDescriptor, BulkSlotError) res \<times> u32 \<times> claim_map" where
  "slots_claim dir st offset len = (\<lambda>(g, m).
    if len = 0 \<or> TRANSFER_DATA_BYTES < unat len then (Err SeLength, g, m)
    else case first_free m of
        None \<Rightarrow> (Err SeFull, g, m)
      | Some i \<Rightarrow>
          let d = \<lparr>ds_slot = of_nat i, ds_generation = g, ds_offset = offset, ds_len = len, ds_direction = dir\<rparr>
          in (Ok d, g, m(i \<mapsto> (d, st))))"

text \<open>The descriptor that a free slot would have.\<close>

definition free_descriptor :: "u32 \<Rightarrow> u8 \<Rightarrow> BulkSlotDescriptor" where
  "free_descriptor g slot = \<lparr>ds_slot = slot, ds_generation = g, ds_offset = 0, ds_len = 0, ds_direction = Td_Unspecified\<rparr>"

definition slots_check :: "BulkSlotDescriptor \<Rightarrow> BulkSlotState \<Rightarrow> u32 \<times> claim_map \<Rightarrow> (unit, BulkSlotError) res" where
  "slots_check d st = (\<lambda>(g, m).
    if ds_generation d \<noteq> g then Err SeStaleGeneration
    else if TRANSFER_SLOT_COUNT \<le> unat (ds_slot d) then Err SeInvalidSlot
    else case m (unat (ds_slot d)) of
        None \<Rightarrow> Err (if d = free_descriptor g (ds_slot d) then SeWrongState else SeDescriptorMismatch)
      | Some (e, st') \<Rightarrow> if e \<noteq> d then Err SeDescriptorMismatch else if st' \<noteq> st then Err SeWrongState else Ok ())"

definition slots_move ::
    "TransferDirection \<Rightarrow> BulkSlotState \<Rightarrow> BulkSlotState \<Rightarrow> BulkSlotDescriptor \<Rightarrow> u32 \<times> claim_map \<Rightarrow>
     (unit, BulkSlotError) res \<times> u32 \<times> claim_map" where
  "slots_move dir st st' d = (\<lambda>(g, m).
    on_ok (slots_check d st (g, m)) (g, m) (\<lambda>_.
    if ds_direction d \<noteq> dir then (Err SeWrongState, g, m)
    else (Ok (), g, m(unat (ds_slot d) := if st' = SlFree then None else Some (d, st')))))"

definition slots_complete :: "BulkSlotDescriptor \<Rightarrow> u32 \<times> claim_map \<Rightarrow> (u32, BulkSlotError) res \<times> u32 \<times> claim_map" where
  "slots_complete d = (\<lambda>(g, m).
    on_ok (slots_check d SlStorageOwned (g, m)) (g, m) (\<lambda>_.
    if ds_direction d \<noteq> Td_Upload then (Err SeWrongState, g, m)
    else if 2 ^ 32 \<le> unat (ds_offset d) + unat (ds_len d) then (Err SeLength, g, m)
    else (Ok (ds_offset d + ucast (ds_len d)), g, m(unat (ds_slot d) := None))))"

text \<open>The calls of the specification.\<close>

inductive claim_step :: "u32 \<times> claim_map \<Rightarrow> u32 \<times> claim_map \<Rightarrow> bool" where
  invalidated: "claim_step a (snd (slots_session a))"
| claimed: "phase_ok dir st \<Longrightarrow> claim_step a (snd (slots_claim dir st offset len a))"
| moved: "st' = SlFree \<or> phase_ok dir st' \<Longrightarrow> claim_step a (snd (slots_move dir st st' d a))"
| completed: "claim_step a (snd (slots_complete d a))"

inductive_cases claim_stepE: "claim_step a b"

definition claim_inv :: "u32 \<times> claim_map \<Rightarrow> bool" where
  "claim_inv = (\<lambda>(g, m). \<forall>i d st. m i = Some (d, st) \<longrightarrow>
    i < 4 \<and> ds_slot d = of_nat i \<and> ds_generation d = g \<and> phase_ok (ds_direction d) st)"

lemma claim_inv_update:
  assumes "claim_inv (g, m)" and "c = None \<or> c = Some (d, st) \<and> i < 4 \<and> ds_slot d = of_nat i \<and> ds_generation d = g \<and>
    phase_ok (ds_direction d) st"
  shows "claim_inv (g, m(i := c))"
  using assms by (auto simp: claim_inv_def)

lemma first_free_Some: "first_free m = Some i \<Longrightarrow> i < 4 \<and> m i = None"
  by (auto simp: first_free_def find_Some_iff)

lemma slots_check_Ok: "slots_check d st (g, m) = Ok u \<longleftrightarrow>
    ds_generation d = g \<and> unat (ds_slot d) < 4 \<and> m (unat (ds_slot d)) = Some (d, st)"
  by (auto simp: slots_check_def split: option.splits if_splits prod.splits)

lemma slots_claim_inv: "claim_inv a \<Longrightarrow> phase_ok dir st \<Longrightarrow> claim_inv (snd (slots_claim dir st offset len a))"
  by (cases a) (auto simp: slots_claim_def Let_def split: option.split intro!: claim_inv_update dest!: first_free_Some)

lemma checked_claim:
  "claim_inv (g, m) \<Longrightarrow> slots_check d st (g, m) = Ok u \<Longrightarrow> unat (ds_slot d) < 4 \<and> ds_generation d = g"
  by (simp add: slots_check_Ok)

lemma slots_move_inv:
  "claim_inv a \<Longrightarrow> st' = SlFree \<or> phase_ok dir st' \<Longrightarrow> claim_inv (snd (slots_move dir st st' d a))"
  by (cases a) (auto simp: slots_move_def split: on_ok_split intro!: claim_inv_update dest: checked_claim)

lemma slots_complete_inv: "claim_inv a \<Longrightarrow> claim_inv (snd (slots_complete d a))"
  by (cases a) (auto simp: slots_complete_def split: on_ok_split intro!: claim_inv_update)

lemma claim_step_inv: "claim_step a b \<Longrightarrow> claim_inv a \<Longrightarrow> claim_inv b"
  by (induction rule: claim_step.induct)
    (simp_all add: slots_claim_inv slots_move_inv slots_complete_inv, simp add: claim_inv_def slots_session_def case_prod_beta)

subsection \<open>Refinement\<close>

text \<open>The calls of the pool.\<close>

inductive pool_step :: "BulkSlotPool \<Rightarrow> BulkSlotPool \<Rightarrow> bool" where
  session: "pool_step p (snd (begin_session p))"
| aborted: "pool_step p (snd (abort_session p))"
| claim: "pool_step p (snd (claim_upload offset len p))"
| take_up: "pool_step p (snd (take_upload_for_storage d p))"
| complete_up: "pool_step p (snd (complete_upload d p))"
| reserve: "pool_step p (snd (reserve_read offset len p))"
| complete_rd: "pool_step p (snd (pool_complete_read d p))"
| await: "pool_step p (snd (mark_awaiting_ack d p))"
| ack: "pool_step p (snd (ack_read d p))"

inductive_cases pool_stepE: "pool_step p p'"

definition pool_abs :: "BulkSlotPool \<Rightarrow> u32 \<times> claim_map" where
  "pool_abs p = (bp_generation p, claims p)"

text \<open>A free slot is blank; so is the slot that a call releases.\<close>

definition blank_slot :: "u32 \<Rightarrow> BulkSlot" where
  "blank_slot g = \<lparr>sl_generation = g, sl_offset = 0, sl_len = 0, sl_direction = Td_Unspecified, sl_state = SlFree\<rparr>"

lemma slot_reset_blank: "slot_reset g s = blank_slot g"
  by (cases s) (simp add: slot_reset_def blank_slot_def)

definition pool_clean :: "BulkSlotPool \<Rightarrow> bool" where
  "pool_clean p \<longleftrightarrow> list_all (\<lambda>s. sl_state s = SlFree \<longrightarrow> s = blank_slot (bp_generation p)) (bp_slots p)"

lemma pool_clean_store:
  "pool_clean p \<Longrightarrow> sl_state s \<noteq> SlFree \<or> s = blank_slot (bp_generation p) \<Longrightarrow>
   pool_clean (p\<lparr>bp_slots := (bp_slots p)[i := s]\<rparr>)"
  using set_update_subset_insert[of "bp_slots p" i s] by (auto simp: pool_clean_def list_all_iff)

lemma pool_clean_invalidate: "pool_clean (snd (pool_invalidate p))"
  by (simp add: pool_clean_def pool_invalidate_def Let_def list_all_iff slot_reset_blank)

lemma pool_clean_peak [simp]: "pool_clean (update_peak p) = pool_clean p"
  by (simp add: pool_clean_def update_peak_def)

lemma set_slot_clean:
  "pool_clean p \<Longrightarrow> sl_state s \<noteq> SlFree \<or> s = blank_slot (bp_generation p) \<Longrightarrow> pool_clean (set_slot d s p)"
  unfolding set_slot_def by (rule pool_clean_store)

lemma calls_clean:
  assumes "pool_clean p"
  shows "pool_clean (snd (begin_session p))" "pool_clean (snd (abort_session p))"
    "pool_clean (snd (claim_upload offset len p))" "pool_clean (snd (reserve_read offset len p))"
    "pool_clean (snd (take_upload_for_storage d p))" "pool_clean (snd (complete_upload d p))"
    "pool_clean (snd (pool_complete_read d p))" "pool_clean (snd (mark_awaiting_ack d p))" "pool_clean (snd (ack_read d p))"
  using assms
  by (simp_all add: begin_session_def abort_session_def pool_clean_invalidate claim_upload_def reserve_read_def Let_def
      take_upload_for_storage_def complete_upload_def pool_complete_read_def mark_awaiting_ack_def transition_read_def
      ack_read_def set_slot_clean pool_clean_store slot_reset_blank split: on_ok_split)

lemma validate_mut_eq:
  assumes ok: "pool_ok p" and clean: "pool_clean p" and "st \<noteq> SlFree"
  shows "validate_mut d st p = and_then (slots_check d st (pool_abs p)) (\<lambda>_. Ok (bp_slots p ! unat (ds_slot d)))"
proof (cases "unat (ds_slot d) < 4 \<and> sl_state (bp_slots p ! unat (ds_slot d)) = SlFree")
  case True
  let ?s = "bp_slots p ! unat (ds_slot d)"
  have "?s \<in> set (bp_slots p)" using ok True by (simp add: pool_ok_def)
  then have "?s = blank_slot (bp_generation p)" using clean True by (simp add: pool_clean_def list_all_iff)
  then have "slot_descriptor ?s (unat (ds_slot d)) = free_descriptor (bp_generation p) (ds_slot d)"
    by (simp add: slot_descriptor_def free_descriptor_def blank_slot_def)
  then show ?thesis
    using ok True assms(3)
    by (auto simp: validate_mut_def pool_validate_def slots_check_def pool_abs_def claims_def pool_ok_def Let_def)
next
  case False
  then show ?thesis
    using ok by (auto simp: validate_mut_def pool_validate_def slots_check_def pool_abs_def claims_def pool_ok_def Let_def)
qed

lemma first_free_position:
  assumes "pool_ok p"
  shows "first_free (claims p) = position (\<lambda>s. sl_state s = SlFree) (bp_slots p)"
  using assms
proof (cases rule: position_free)
  case none
  then have "\<forall>i<4. claims p i \<noteq> None" by blast
  then have "first_free (claims p) = None" by (auto simp: first_free_def find_None_iff)
  with none(1) show ?thesis by (simp del: position_None)
next
  case (some i)
  then have "first_free (claims p) = Some i"
    by (auto simp: first_free_def find_Some_iff intro!: exI[of _ i])
  with some show ?thesis by simp
qed

lemma claim_effect_abs:
  assumes "claim_effect dir st offset len p y" and ok: "pool_ok p"
  shows "apsnd pool_abs y = slots_claim dir st offset len (pool_abs p)"
  using ok
proof (cases rule: position_free)
  case none
  then show ?thesis
    using assms(1) first_free_position[OF ok]
    by (cases y) (auto simp: claim_effect_def slots_claim_def pool_abs_def simp del: position_None)
next
  case (some i)
  then have "dom (claims p) \<noteq> {..<4}" by blast
  moreover have "j = i" if "claims p j = None" "\<forall>k<j. claims p k \<noteq> None" for j
    using that some(3,4) by (metis nat_neq_iff)
  ultimately show ?thesis
    using assms(1) first_free_position[OF ok] some(1)
    by (cases y) (auto simp: claim_effect_def slots_claim_def pool_abs_def Let_def split: if_splits)
qed

lemma slots_check_claims:
  "pool_ok p \<Longrightarrow> slots_check d st (pool_abs p) = Ok u \<longleftrightarrow> claims p (unat (ds_slot d)) = Some (d, st)"
  by (auto simp: pool_abs_def slots_check_Ok dest: claims_Some(1,4))

lemma slots_check_not_Panic [simp]: "slots_check d st a \<noteq> Panic"
  by (auto simp: slots_check_def split: prod.split option.split)

lemma moved_abs:
  assumes ok: "pool_ok p" and clean: "pool_clean p" and "st \<noteq> SlFree" and st': "st' = SlFree \<or> phase_ok dir st'"
    and y: "y = on_ok (validate_mut d st p) p (\<lambda>slot.
      if sl_direction slot \<noteq> dir then (Err SeWrongState, p)
      else (Ok (), set_slot d (if st' = SlFree then slot_reset (bp_generation p) slot else slot\<lparr>sl_state := st'\<rparr>) p))"
  shows "apsnd pool_abs y = slots_move dir st st' d (pool_abs p)"
proof (cases "slots_check d st (pool_abs p)")
  case (Ok u)
  then have c: "claims p (unat (ds_slot d)) = Some (d, st)" using slots_check_claims[OF ok] by simp
  note s = claims_Some[OF ok c]
  show ?thesis
    using Ok validate_mut_eq[OF ok clean assms(3), of d] s(9) st' move_store[OF ok c, of st'] release_store[OF ok c]
    by (auto simp: y slots_move_def pool_abs_def)
next
  case (Err e)
  then show ?thesis
    using validate_mut_eq[OF ok clean assms(3), of d] by (simp add: y slots_move_def pool_abs_def)
qed simp

lemma pool_moves_abs:
  assumes "pool_ok p" and "pool_clean p"
  shows "apsnd pool_abs (take_upload_for_storage d p) = slots_move Td_Upload SlRxReady SlStorageOwned d (pool_abs p)"
    "apsnd pool_abs (pool_complete_read d p) = slots_move Td_Readback SlStorageOwned SlTxReady d (pool_abs p)"
    "apsnd pool_abs (mark_awaiting_ack d p) = slots_move Td_Readback SlTxReady SlAwaitingAck d (pool_abs p)"
    "apsnd pool_abs (ack_read d p) = slots_move Td_Readback SlAwaitingAck SlFree d (pool_abs p)"
  by (rule moved_abs[OF assms]; simp add: take_upload_for_storage_def pool_complete_read_def mark_awaiting_ack_def
      transition_read_def ack_read_def cong: if_cong)+

lemma complete_upload_abs:
  assumes ok: "pool_ok p" and clean: "pool_clean p"
  shows "apsnd pool_abs (complete_upload d p) = slots_complete d (pool_abs p)"
proof (cases "slots_check d SlStorageOwned (pool_abs p)")
  case (Ok u)
  then have c: "claims p (unat (ds_slot d)) = Some (d, SlStorageOwned)" using slots_check_claims[OF ok] by simp
  have "unat (ucast (ds_len d) :: u32) = unat (ds_len d)"
    using unat_u16_less[of "ds_len d"] by (simp add: unsigned_ucast_eq take_bit_nat_eq_self)
  then show ?thesis
    using Ok validate_mut_eq[OF ok clean, of SlStorageOwned d] claims_Some(9)[OF ok c] release_store[OF ok c]
    by (auto simp: complete_upload_def slots_complete_def pool_abs_def checked_add_def)
next
  case (Err e)
  then show ?thesis
    using validate_mut_eq[OF ok clean, of SlStorageOwned d]
    by (simp add: complete_upload_def slots_complete_def pool_abs_def)
qed simp

lemma session_abs: "apsnd pool_abs (pool_invalidate p) = slots_session (pool_abs p)"
  using invalidate_spec(2-4)[of p] by (cases "pool_invalidate p") (simp add: slots_session_def pool_abs_def)

lemma claim_effect_ok: "claim_effect dir st offset len p y \<Longrightarrow> pool_ok p \<Longrightarrow> pool_ok (snd y)"
  by (auto simp: claim_effect_def split: if_splits)

lemma move_effect_ok: "move_effect d dir st st' p y \<Longrightarrow> pool_ok p \<Longrightarrow> pool_ok (snd y)"
  by (auto simp: move_effect_def split: if_splits)

lemma complete_upload_ok: "pool_ok p \<Longrightarrow> pool_ok (snd (complete_upload d p))"
  by (cases rule: complete_upload_cases[of p d]) simp_all

lemmas calls_ok = claim_effect_ok[OF claim_upload_effect] claim_effect_ok[OF reserve_read_effect]
  move_effect_ok[OF take_upload_effect] move_effect_ok[OF pool_complete_read_effect]
  move_effect_ok[OF mark_awaiting_ack_effect] move_effect_ok[OF ack_read_effect] complete_upload_ok

lemma pool_step_refines:
  assumes "pool_step p q" and ok: "pool_ok p" and clean: "pool_clean p"
  shows "pool_ok q \<and> pool_clean q \<and> claim_step (pool_abs p) (pool_abs q)"
  using assms(1)
proof cases
  case session
  then show ?thesis
    using ok claim_step.invalidated[of "pool_abs p"]
    by (simp add: begin_session_def invalidate_spec(1) pool_clean_invalidate flip: session_abs)
next
  case aborted
  then show ?thesis
    using ok claim_step.invalidated[of "pool_abs p"]
    by (simp add: abort_session_def invalidate_spec(1) pool_clean_invalidate flip: session_abs)
next
  case (claim offset len)
  then show ?thesis
    using ok clean claim_step.claimed[of Td_Upload SlRxReady "pool_abs p" offset len]
    by (simp add: calls_ok calls_clean flip: claim_effect_abs[OF claim_upload_effect[OF ok] ok])
next
  case (reserve offset len)
  then show ?thesis
    using ok clean claim_step.claimed[of Td_Readback SlStorageOwned "pool_abs p" offset len]
    by (simp add: calls_ok calls_clean flip: claim_effect_abs[OF reserve_read_effect[OF ok] ok])
next
  case (take_up d)
  then show ?thesis
    using ok clean claim_step.moved[of SlStorageOwned Td_Upload "pool_abs p" SlRxReady d]
    by (simp add: calls_ok calls_clean flip: pool_moves_abs)
next
  case (complete_up d)
  then show ?thesis
    using ok clean claim_step.completed[of "pool_abs p" d] by (simp add: calls_ok calls_clean flip: complete_upload_abs)
next
  case (complete_rd d)
  then show ?thesis
    using ok clean claim_step.moved[of SlTxReady Td_Readback "pool_abs p" SlStorageOwned d]
    by (simp add: calls_ok calls_clean flip: pool_moves_abs)
next
  case (await d)
  then show ?thesis
    using ok clean claim_step.moved[of SlAwaitingAck Td_Readback "pool_abs p" SlTxReady d]
    by (simp add: calls_ok calls_clean flip: pool_moves_abs)
next
  case (ack d)
  then show ?thesis
    using ok clean claim_step.moved[of SlFree Td_Readback "pool_abs p" SlAwaitingAck d]
    by (simp add: calls_ok calls_clean flip: pool_moves_abs)
qed

interpretation pool: refinement "\<lambda>s. s = (0, Map.empty)" claim_step claim_inv
  "\<lambda>p. p = BulkSlotPool_new" pool_step "\<lambda>p. pool_ok p \<and> pool_clean p" pool_abs
proof
  show "claim_inv s" if "s = (0, Map.empty)" for s using that by (simp add: claim_inv_def)
  show "claim_inv t" if "claim_inv s" "claim_step s t" for s t using claim_step_inv that by blast
  show "(pool_ok c \<and> pool_clean c) \<and> pool_abs c = (0, Map.empty)" if "c = BulkSlotPool_new" for c
    using that pool_new_ok
    by (simp add: pool_abs_def) (simp add: BulkSlotPool_new_def BulkSlot_new_def pool_clean_def blank_slot_def list_all_iff)
  show "(pool_ok d \<and> pool_clean d) \<and> (claim_step (pool_abs c) (pool_abs d) \<or> pool_abs d = pool_abs c)"
    if "pool_ok c \<and> pool_clean c" "pool_step c d" for c d
    using pool_step_refines[OF that(2)] that(1) by blast
qed

text \<open>C13: Every call of the slot pool does exactly what its specification says, result and errors included.
  The specification sees a generation number and a map from the four slots to claims: a claim takes the first free slot,
  or is refused when its length is wrong or no slot is free; a claim moves from one phase of its direction to the next
  (received, storage-owned; or storage-owned, ready, awaiting acknowledgement) only for the descriptor that was handed
  out, of the current generation and in the phase that the call expects; the last call of each direction releases the
  slot, and completing an upload returns the offset after the block; a new session and an abort drop all claims and
  start the next generation.  This holds in every state reached from a new pool by any calls, where each claim names its
  slot and the current generation.\<close>

theorem slot_pool_refines:
  assumes "reachable (\<lambda>p. p = BulkSlotPool_new) pool_step p"
  shows "apsnd pool_abs (begin_session p) = slots_session (pool_abs p) \<and>
    apsnd pool_abs (abort_session p) = slots_session (pool_abs p) \<and>
    apsnd pool_abs (claim_upload offset len p) = slots_claim Td_Upload SlRxReady offset len (pool_abs p) \<and>
    apsnd pool_abs (take_upload_for_storage d p) = slots_move Td_Upload SlRxReady SlStorageOwned d (pool_abs p) \<and>
    apsnd pool_abs (complete_upload d p) = slots_complete d (pool_abs p) \<and>
    apsnd pool_abs (reserve_read offset len p) = slots_claim Td_Readback SlStorageOwned offset len (pool_abs p) \<and>
    apsnd pool_abs (pool_complete_read d p) = slots_move Td_Readback SlStorageOwned SlTxReady d (pool_abs p) \<and>
    apsnd pool_abs (mark_awaiting_ack d p) = slots_move Td_Readback SlTxReady SlAwaitingAck d (pool_abs p) \<and>
    apsnd pool_abs (ack_read d p) = slots_move Td_Readback SlAwaitingAck SlFree d (pool_abs p) \<and>
    pool_abs BulkSlotPool_new = (0, Map.empty) \<and>
    reachable (\<lambda>s. s = (0, Map.empty)) claim_step (bp_generation p, claims p) \<and>
    length (bp_slots p) = TRANSFER_SLOT_COUNT \<and> unat (occupied p) = card (dom (claims p)) \<and>
    (\<forall>i d st. claims p i = Some (d, st) \<longrightarrow>
      unat (ds_slot d) = i \<and> ds_generation d = bp_generation p \<and> phase_ok (ds_direction d) st)"
proof -
  have ok: "pool_ok p" and clean: "pool_clean p" using pool.concrete.reachable_inv[OF assms] by simp_all
  have "length (bp_slots p) = 4" using ok by (simp add: pool_ok_def)
  moreover have "reachable (\<lambda>s. s = (0, Map.empty)) claim_step (bp_generation p, claims p)"
    using pool.reachable_abs[OF assms] by (simp add: pool_abs_def)
  moreover have "pool_abs BulkSlotPool_new = (0, Map.empty)"
    using pool_new_ok(2) by (simp add: pool_abs_def) (simp add: BulkSlotPool_new_def)
  ultimately show ?thesis
    using claims_Some(3,4,8)[OF ok] occupied_claims[OF ok] session_abs pool_moves_abs[OF ok clean]
      complete_upload_abs[OF ok clean] claim_effect_abs[OF claim_upload_effect[OF ok] ok]
      claim_effect_abs[OF reserve_read_effect[OF ok] ok]
    by (simp add: begin_session_def abort_session_def)
qed

theorem slot_pool_refines_witness:
  "unat (occupied (snd (claim_upload 0 512 (snd (begin_session BulkSlotPool_new))))) =
   card (dom (claims (snd (claim_upload 0 512 (snd (begin_session BulkSlotPool_new))))))"
proof -
  have "reachable (\<lambda>p. p = BulkSlotPool_new) pool_step (snd (claim_upload 0 512 (snd (begin_session BulkSlotPool_new))))"
    by (rule reachable.followed[OF reachable.followed[OF reachable.initial]]) (rule refl pool_step.intros)+
  then show ?thesis using slot_pool_refines by blast
qed

text \<open>A descriptor of another generation is refused by every call that takes one, and the pool
  keeps its state: after a session ends, late completions of its blocks cannot touch the next session.\<close>

theorem stale_descriptor_refused:
  assumes "ds_generation d \<noteq> bp_generation p"
  shows "take_upload_for_storage d p = (Err SeStaleGeneration, p) \<and> complete_upload d p = (Err SeStaleGeneration, p) \<and>
    pool_complete_read d p = (Err SeStaleGeneration, p) \<and> mark_awaiting_ack d p = (Err SeStaleGeneration, p) \<and>
    ack_read d p = (Err SeStaleGeneration, p)"
  using assms
  by (simp add: take_upload_for_storage_def complete_upload_def pool_complete_read_def mark_awaiting_ack_def
      ack_read_def transition_read_def validate_mut_def pool_validate_def)

theorem stale_descriptor_refused_witness:
  "take_upload_for_storage (slot_descriptor BulkSlot_new 0) (snd (begin_session BulkSlotPool_new)) =
    (Err SeStaleGeneration, snd (begin_session BulkSlotPool_new))"
  using stale_descriptor_refused[of "slot_descriptor BulkSlot_new 0" "snd (begin_session BulkSlotPool_new)"]
  by (simp add: begin_session_def pool_invalidate_def BulkSlotPool_new_def BulkSlot_new_def next_id_def)

end
