(* ===== verification/Bulk_Upload.thy ===== *)
theory Bulk_Upload
  imports Bulk_Slots Crc32
begin

text \<open>
  The upload pipeline of a streaming transfer (\<^verbatim>\<open>binbook-fw/src/bulk_upload_types.rs\<close>,
  \<^verbatim>\<open>bulk_upload_pipeline.rs\<close>): blocks are admitted in order while the sender has credits, written by the storage
  owner, and their completion returns credits in batches.  The invariant says that the blocks in flight tile the
  file between the durable and the admitted offset and that no credit is lost or made up.
\<close>

datatype BulkUploadError =
    BuActive | BuInactive | BuWrongStream | BuWrongOffset | BuLength | BuEndFlag | BuNoCredit | BuBusy | BuIncomplete
  | BuSlot BulkSlotError

record UploadSession =
  us_stream_id :: u32
  us_total_size :: u32
  us_expected_crc32 :: u32
  us_chunk_size :: u16
  us_window :: u8
  us_sender_credits :: u8
  us_pending_credits :: u8
  us_admitted_offset :: u32
  us_durable_offset :: u32
  us_crc_state :: u32
  us_end_seen :: bool

record BulkUploadPipeline =
  ul_pool :: BulkSlotPool
  ul_active :: "UploadSession option"
  ul_aborted_tombstone :: "u32 option"

definition BulkUploadPipeline_new :: BulkUploadPipeline where
  "BulkUploadPipeline_new = \<lparr>ul_pool = BulkSlotPool_new, ul_active = None, ul_aborted_tombstone = None\<rparr>"

definition upload_open ::
    "u32 \<Rightarrow> u32 \<Rightarrow> u32 \<Rightarrow> u16 \<Rightarrow> u8 \<Rightarrow> BulkUploadPipeline \<Rightarrow> (u8, BulkUploadError) res \<times> BulkUploadPipeline" where
  "upload_open stream_id total_size expected_crc32 chunk_size window p =
    (if ul_active p \<noteq> None then (Err BuActive, p)
     else if stream_id = 0 \<or> total_size = 0 \<or> chunk_size = 0 \<or> unat chunk_size > TRANSFER_DATA_BYTES \<or> window = 0 \<or>
       unat window > TRANSFER_SLOT_COUNT
     then (Err BuLength, p)
     else
       let p = p\<lparr>ul_pool := snd (begin_session (ul_pool p)), ul_aborted_tombstone := None,
         ul_active := Some \<lparr>us_stream_id = stream_id, us_total_size = total_size, us_expected_crc32 = expected_crc32,
           us_chunk_size = chunk_size, us_window = window, us_sender_credits = window, us_pending_credits = 0,
           us_admitted_offset = 0, us_durable_offset = 0, us_crc_state = - 1, us_end_seen = False\<rparr>\<rparr>
       in (Ok window, p))"

definition upload_admit ::
    "StoreBulkData \<Rightarrow> BulkUploadPipeline \<Rightarrow> (BulkSlotDescriptor, BulkUploadError) res \<times> BulkUploadPipeline" where
  "upload_admit frame p =
    on_ok (ok_or BuInactive (ul_active p)) p (\<lambda>s.
    if bd_stream_id frame \<noteq> us_stream_id s then (Err BuWrongStream, p)
    else if bd_offset frame \<noteq> us_admitted_offset s then (Err BuWrongOffset, p)
    else if length (bd_data frame) \<ge> 2 ^ 32 then (Err BuLength, p)
    else
      let len = of_nat (length (bd_data frame)) :: u32 in
      on_ok (ok_or BuLength (checked_add (bd_offset frame) len)) p (\<lambda>end_offset.
      if len = 0 \<or> len > ucast (us_chunk_size s) \<or> end_offset > us_total_size s then (Err BuLength, p)
      else if end_offset < us_total_size s \<and> len \<noteq> ucast (us_chunk_size s) then (Err BuLength, p)
      else if bd_end_of_data frame \<noteq> (end_offset = us_total_size s) then (Err BuEndFlag, p)
      else if us_sender_credits s = 0 \<and> occupied (ul_pool p) < of_nat TRANSFER_SLOT_COUNT then (Err BuNoCredit, p)
      else
        let (r, pool) = claim_upload (bd_offset frame) (of_nat (length (bd_data frame))) (ul_pool p);
            p = p\<lparr>ul_pool := pool\<rparr> in
        on_ok (map_err BuSlot r) p (\<lambda>descriptor.
        let s = s\<lparr>us_sender_credits := saturating_sub (us_sender_credits s) 1, us_admitted_offset := end_offset,
              us_end_seen := bd_end_of_data frame\<rparr>
        in (Ok descriptor, p\<lparr>ul_active := Some s\<rparr>))))"

definition upload_take_for_storage ::
    "BulkSlotDescriptor \<Rightarrow> BulkUploadPipeline \<Rightarrow> (unit, BulkUploadError) res \<times> BulkUploadPipeline" where
  "upload_take_for_storage d p =
    (if ul_active p = None then (Err BuInactive, p)
     else let (r, pool) = take_upload_for_storage d (ul_pool p) in (map_err BuSlot r, p\<lparr>ul_pool := pool\<rparr>))"

definition upload_complete_storage ::
    "BulkSlotDescriptor \<Rightarrow> bytes \<Rightarrow> BulkUploadPipeline \<Rightarrow> (StoreBulkCredit option, BulkUploadError) res \<times> BulkUploadPipeline" where
  "upload_complete_storage d durable_bytes p =
    on_ok (ok_or BuInactive (ul_active p)) p (\<lambda>s.
    if ds_offset d \<noteq> us_durable_offset s then (Err BuWrongOffset, p)
    else if length durable_bytes \<noteq> unat (ds_len d) then (Err BuLength, p)
    else
      let s = s\<lparr>us_crc_state := update (us_crc_state s) durable_bytes\<rparr>;
          (r, pool) = complete_upload d (ul_pool p);
          p = p\<lparr>ul_active := Some s, ul_pool := pool\<rparr> in
      on_ok (map_err BuSlot r) p (\<lambda>durable.
      let s = s\<lparr>us_durable_offset := durable, us_pending_credits := saturating_add (us_pending_credits s) 1\<rparr>;
          batch = us_window s in
      if us_pending_credits s < batch \<and> us_durable_offset s \<noteq> us_total_size s
      then (Ok None, p\<lparr>ul_active := Some s\<rparr>)
      else
        let credits = us_pending_credits s;
            s = s\<lparr>us_pending_credits := 0,
              us_sender_credits := min (saturating_add (us_sender_credits s) credits) (us_window s)\<rparr>
        in (Ok (Some \<lparr>bc_stream_id = us_stream_id s, bc_durable_offset = us_durable_offset s, bc_credits = credits,
              bc_status = St_Ok\<rparr>), p\<lparr>ul_active := Some s\<rparr>)))"

definition upload_status ::
    "u32 \<Rightarrow> BulkUploadPipeline \<Rightarrow> (StoreBulkStatusResponse, BulkUploadError) res \<times> BulkUploadPipeline" where
  "upload_status stream_id p =
    on_ok (ok_or BuInactive (ul_active p)) p (\<lambda>s.
    if stream_id \<noteq> us_stream_id s then (Err BuWrongStream, p)
    else if occupied (ul_pool p) \<noteq> 0 then (Err BuBusy, p)
    else
      let s = s\<lparr>us_pending_credits := 0, us_sender_credits := us_window s\<rparr> in
      (Ok \<lparr>bs_stream_id = stream_id, bs_direction = Td_Upload, bs_state = Bs_Receiving,
           bs_available_credits = us_window s, bs_durable_offset = us_durable_offset s, bs_total_size = us_total_size s,
           bs_running_crc32 = (if us_durable_offset s = 0 then 0 else NOT (us_crc_state s))\<rparr>,
       p\<lparr>ul_active := Some s\<rparr>))"

definition upload_finish ::
    "u32 \<Rightarrow> BulkUploadPipeline \<Rightarrow> (StoreBulkFinishResponse, BulkUploadError) res \<times> BulkUploadPipeline" where
  "upload_finish stream_id p =
    on_ok (ok_or BuInactive (ul_active p)) p (\<lambda>s.
    if stream_id \<noteq> us_stream_id s then (Err BuWrongStream, p)
    else if occupied (ul_pool p) \<noteq> 0 then (Err BuBusy, p)
    else if \<not> us_end_seen s \<or> us_admitted_offset s \<noteq> us_total_size s \<or> us_durable_offset s \<noteq> us_total_size s
    then (Err BuIncomplete, p)
    else
      let computed_crc32 = NOT (us_crc_state s) in
      (Ok \<lparr>bf_stream_id = stream_id,
           bf_result = (if computed_crc32 = us_expected_crc32 s then Uc_Ok else Uc_CrcMismatch),
           bf_total_bytes = us_total_size s, bf_computed_crc32 = computed_crc32\<rparr>,
       p\<lparr>ul_active := None\<rparr>))"

definition upload_abort :: "u32 \<Rightarrow> BulkUploadPipeline \<Rightarrow> (unit, BulkUploadError) res \<times> BulkUploadPipeline" where
  "upload_abort stream_id p =
    (case ul_active p of
       Some s \<Rightarrow>
         if us_stream_id s = stream_id
         then (Ok (), p\<lparr>ul_pool := snd (abort_session (ul_pool p)), ul_active := None,
                 ul_aborted_tombstone := Some stream_id\<rparr>)
         else (Err BuWrongStream, p)
     | None \<Rightarrow> if ul_aborted_tombstone p = Some stream_id then (Ok (), p) else (Err BuWrongStream, p))"

definition upload_admitted_offset :: "BulkUploadPipeline \<Rightarrow> u32" where
  "upload_admitted_offset p = (case ul_active p of None \<Rightarrow> 0 | Some s \<Rightarrow> us_admitted_offset s)"

definition upload_durable_offset :: "BulkUploadPipeline \<Rightarrow> u32" where
  "upload_durable_offset p = (case ul_active p of None \<Rightarrow> 0 | Some s \<Rightarrow> us_durable_offset s)"

definition upload_generation :: "BulkUploadPipeline \<Rightarrow> u32" where
  "upload_generation p = bp_generation (ul_pool p)"

definition upload_is_active :: "BulkUploadPipeline \<Rightarrow> bool" where
  "upload_is_active p = (ul_active p \<noteq> None)"

definition upload_stream_id :: "BulkUploadPipeline \<Rightarrow> u32 option" where
  "upload_stream_id p = (case ul_active p of Some s \<Rightarrow> Some (us_stream_id s) | None \<Rightarrow> ul_aborted_tombstone p)"

subsection \<open>Blocks in flight\<close>

text \<open>\<open>tiling a ds b\<close>: the blocks \<open>ds\<close>, in this order, cover the bytes from \<open>a\<close> to \<open>b\<close> without gap or overlap.\<close>

fun tiling :: "nat \<Rightarrow> BulkSlotDescriptor list \<Rightarrow> nat \<Rightarrow> bool" where
  "tiling a [] b \<longleftrightarrow> a = b"
| "tiling a (d # ds) b \<longleftrightarrow> unat (ds_offset d) = a \<and> tiling (a + unat (ds_len d)) ds b"

lemma tiling_snoc: "tiling a (ds @ [d]) b \<longleftrightarrow> tiling a ds (unat (ds_offset d)) \<and> b = unat (ds_offset d) + unat (ds_len d)"
  by (induction ds arbitrary: a) auto

lemma tiling_le: "tiling a ds b \<Longrightarrow> a \<le> b"
  by (induction ds arbitrary: a) fastforce+

lemma tiling_member: "tiling a ds b \<Longrightarrow> d \<in> set ds \<Longrightarrow> a \<le> unat (ds_offset d) \<and> unat (ds_offset d) + unat (ds_len d) \<le> b"
proof (induction ds arbitrary: a)
  case (Cons e ds)
  show ?case
  proof (cases "d = e")
    case False
    then show ?thesis using Cons.IH[of "a + unat (ds_len e)"] Cons.prems by auto
  qed (use Cons.prems in \<open>auto dest: tiling_le\<close>)
qed simp

lemma tiling_first:
  assumes "tiling a ds b" and "d \<in> set ds" and "unat (ds_offset d) = a" and "\<forall>e\<in>set ds. 0 < unat (ds_len e)"
  shows "\<exists>es. ds = d # es \<and> tiling (a + unat (ds_len d)) es b"
proof (cases ds)
  case (Cons e es)
  have "d \<notin> set es"
  proof
    assume "d \<in> set es"
    then have "a + unat (ds_len e) \<le> unat (ds_offset d)" using tiling_member assms(1) Cons by auto
    then show False using assms(3,4) Cons by simp
  qed
  then show ?thesis using assms Cons by auto
qed (use assms in simp)

text \<open>\<open>held ds pool\<close>: the claims of the pool are the descriptors \<open>ds\<close>.\<close>

definition held :: "BulkSlotDescriptor list \<Rightarrow> BulkSlotPool \<Rightarrow> bool" where
  "held ds pool \<longleftrightarrow> distinct (map (\<lambda>d. unat (ds_slot d)) ds) \<and>
    (\<forall>i. claims pool i \<noteq> None \<longrightarrow> (\<exists>d\<in>set ds. unat (ds_slot d) = i)) \<and>
    (\<forall>d\<in>set ds. \<exists>st. claims pool (unat (ds_slot d)) = Some (d, st))"

lemma held_Nil: "held [] pool \<longleftrightarrow> claims pool = Map.empty"
  unfolding held_def fun_eq_iff by (simp, metis option.exhaust prod.exhaust option.distinct(1))

lemma heldD:
  assumes "held ds pool"
  shows "distinct (map (\<lambda>d. unat (ds_slot d)) ds)" "claims pool i \<noteq> None \<Longrightarrow> \<exists>d\<in>set ds. unat (ds_slot d) = i"
    "d \<in> set ds \<Longrightarrow> \<exists>st. claims pool (unat (ds_slot d)) = Some (d, st)"
  using assms unfolding held_def by blast+

lemma held_claimed: "held ds pool \<Longrightarrow> claims pool i = Some (d, st) \<Longrightarrow> d \<in> set ds \<and> unat (ds_slot d) = i"
  unfolding held_def by (metis option.distinct(1) option.inject prod.inject)

lemma held_same: "held ds pool \<Longrightarrow> d \<in> set ds \<Longrightarrow> e \<in> set ds \<Longrightarrow> unat (ds_slot d) = unat (ds_slot e) \<Longrightarrow> d = e"
  unfolding held_def by (metis option.inject prod.inject)

lemma held_count:
  assumes "held ds pool" and "pool_ok pool"
  shows "unat (occupied pool) = length ds" "length ds \<le> 4"
proof -
  have "dom (claims pool) = (\<lambda>d. unat (ds_slot d)) ` set ds"
    using assms(1) unfolding held_def by (auto simp: image_iff)
  then have "card (dom (claims pool)) = length ds"
    using assms(1) distinct_card[of "map (\<lambda>d. unat (ds_slot d)) ds"] by (simp add: held_def)
  then show "unat (occupied pool) = length ds" using assms(2) by (simp add: occupied_claims)
  then show "length ds \<le> 4" using occupied_le[OF assms(2)] by simp
qed

lemma held_facts:
  assumes "held ds pool" and "pool_ok pool" and "d \<in> set ds"
  shows "unat (ds_slot d) < 4" "ds_generation d = bp_generation pool" "0 < unat (ds_len d)" "unat (ds_len d) \<le> 3584"
proof -
  obtain st where "claims pool (unat (ds_slot d)) = Some (d, st)" using heldD(3)[OF assms(1,3)] by blast
  from claims_Some[OF assms(2) this]
  show "unat (ds_slot d) < 4" "ds_generation d = bp_generation pool" "0 < unat (ds_len d)" "unat (ds_len d) \<le> 3584"
    by blast+
qed

lemma held_claim:
  assumes h: "held ds pool" and free: "claims pool (unat (ds_slot d)) = None"
    and c: "claims pool' = (claims pool)(unat (ds_slot d) \<mapsto> (d, st))"
  shows "held (ds @ [d]) pool'"
proof -
  have other: "unat (ds_slot e) \<noteq> unat (ds_slot d)" if "e \<in> set ds" for e
    using heldD(3)[OF h that] free by force
  have "\<exists>st. claims pool' (unat (ds_slot e)) = Some (e, st)" if "e \<in> set (ds @ [d])" for e
    using that other heldD(3)[OF h, of e] by (auto simp: c)
  moreover have "\<exists>e\<in>set (ds @ [d]). unat (ds_slot e) = i" if "claims pool' i \<noteq> None" for i
    using that heldD(2)[OF h, of i] by (cases "i = unat (ds_slot d)") (auto simp: c)
  moreover have "distinct (map (\<lambda>d. unat (ds_slot d)) (ds @ [d]))" using heldD(1)[OF h] other by (simp add: image_iff) metis
  ultimately show ?thesis by (simp only: held_def) blast
qed

lemma held_release:
  assumes h: "held (d # ds) pool" and c: "claims pool' = (claims pool)(unat (ds_slot d) := None)"
  shows "held ds pool'"
proof -
  have other: "unat (ds_slot e) \<noteq> unat (ds_slot d)" if "e \<in> set ds" for e
    using heldD(1)[OF h] imageI[OF that, of "\<lambda>d. unat (ds_slot d)"] by force
  have "\<exists>st. claims pool' (unat (ds_slot e)) = Some (e, st)" if "e \<in> set ds" for e
    using that other heldD(3)[OF h, of e] by (simp add: c)
  moreover have "\<exists>e\<in>set ds. unat (ds_slot e) = i" if "claims pool' i \<noteq> None" for i
    using that heldD(2)[OF h, of i] by (cases "i = unat (ds_slot d)") (simp_all add: c)
  moreover have "distinct (map (\<lambda>d. unat (ds_slot d)) ds)" using heldD(1)[OF h] by simp
  ultimately show ?thesis by (simp only: held_def) blast
qed

lemma held_move:
  assumes h: "held ds pool" and d: "d \<in> set ds" and c: "claims pool' = (claims pool)(unat (ds_slot d) \<mapsto> (d, st))"
  shows "held ds pool'"
proof -
  have "\<exists>st. claims pool' (unat (ds_slot e)) = Some (e, st)" if "e \<in> set ds" for e
  proof (cases "e = d")
    case False
    then have "unat (ds_slot e) \<noteq> unat (ds_slot d)" using held_same[OF h d that] by auto
    then show ?thesis using heldD(3)[OF h that] by (simp add: c)
  qed (simp add: c)
  moreover have "\<exists>e\<in>set ds. unat (ds_slot e) = i" if "claims pool' i \<noteq> None" for i
  proof (cases "i = unat (ds_slot d)")
    case True
    then show ?thesis using d by blast
  next
    case False
    then have "claims pool i \<noteq> None" using that by (simp add: c)
    then show ?thesis by (rule heldD(2)[OF h])
  qed
  ultimately show ?thesis using heldD(1)[OF h] by (simp only: held_def) blast
qed

subsection \<open>The flow invariant\<close>

definition session_ok :: "UploadSession \<Rightarrow> bool" where
  "session_ok s \<longleftrightarrow> us_stream_id s \<noteq> 0 \<and> 0 < unat (us_total_size s) \<and> 0 < unat (us_chunk_size s) \<and>
    unat (us_chunk_size s) \<le> 3584 \<and> 0 < unat (us_window s) \<and> unat (us_window s) \<le> 4 \<and>
    unat (us_admitted_offset s) \<le> unat (us_total_size s) \<and>
    us_end_seen s = (us_admitted_offset s = us_total_size s)"

text \<open>\<open>ds\<close> are the blocks in flight, in the order they were admitted.\<close>

definition flow_inv :: "BulkSlotDescriptor list \<Rightarrow> BulkUploadPipeline \<Rightarrow> bool" where
  "flow_inv ds p \<longleftrightarrow> pool_ok (ul_pool p) \<and> held ds (ul_pool p) \<and>
    (\<forall>d\<in>set ds. ds_direction d = Td_Upload) \<and>
    (case ul_active p of
       None \<Rightarrow> ds = []
     | Some s \<Rightarrow> session_ok s \<and> tiling (unat (us_durable_offset s)) ds (unat (us_admitted_offset s)) \<and>
         unat (us_sender_credits s) + unat (us_pending_credits s) + length ds = unat (us_window s))"

lemma flow_new: "flow_inv [] BulkUploadPipeline_new"
  by (simp add: flow_inv_def BulkUploadPipeline_new_def pool_new_ok held_Nil)

text \<open>One lemma per operation: what it returns and which blocks are in flight after it.\<close>

lemma upload_open_flow:
  assumes "flow_inv ds p"
  obtains (opened) p' s where "upload_open sid tot crc chunk window p = (Ok window, p')" "flow_inv [] p'"
      "ul_active p = None" "ul_active p' = Some s" "us_stream_id s = sid" "us_total_size s = tot"
      "us_expected_crc32 s = crc" "us_durable_offset s = 0" "us_crc_state s = - 1"
      "bp_generation (ul_pool p') = next_id (bp_generation (ul_pool p))"
  | (refused) e where "upload_open sid tot crc chunk window p = (Err e, p)"
      "ul_active p = None \<longrightarrow> sid = 0 \<or> tot = 0 \<or> chunk = 0 \<or> unat chunk > 3584 \<or> window = 0 \<or> unat window > 4"
proof (cases "ul_active p = None \<and> \<not> (sid = 0 \<or> tot = 0 \<or> chunk = 0 \<or> unat chunk > 3584 \<or> window = 0 \<or> unat window > 4)")
  case True
  let ?p = "snd (upload_open sid tot crc chunk window p)"
  have "flow_inv [] ?p"
    using True assms invalidate_spec[of "ul_pool p"]
    by (auto simp: upload_open_def Let_def flow_inv_def session_ok_def held_Nil begin_session_def unat_gt_0)
  then show ?thesis
    using True invalidate_spec[of "ul_pool p"]
    by (intro opened[of ?p "the (ul_active ?p)"]) (simp_all add: upload_open_def Let_def begin_session_def)
next
  case False
  then have "\<exists>e. upload_open sid tot crc chunk window p = (Err e, p)" by (auto simp: upload_open_def)
  then show ?thesis using False refused by blast
qed


lemma unat_len32: "n < 2 ^ 32 \<Longrightarrow> unat (of_nat n :: u32) = n"
  by (simp add: unsigned_of_nat take_bit_nat_eq_self)

lemma unat_len16: "n < 65536 \<Longrightarrow> unat (of_nat n :: u16) = n"
  by (simp add: unsigned_of_nat take_bit_nat_eq_self)

lemma unat_u16_u32 [simp]: "unat (ucast (v :: u16) :: u32) = unat v"
  using unat_u16_less[of v] by (simp add: unsigned_ucast_eq take_bit_nat_eq_self)

text \<open>The frames that an upload takes next, and what taking one changes.\<close>

definition admissible :: "StoreBulkData \<Rightarrow> UploadSession \<Rightarrow> bool" where
  "admissible frame s \<longleftrightarrow>
    bd_stream_id frame = us_stream_id s \<and> bd_offset frame = us_admitted_offset s \<and>
    0 < length (bd_data frame) \<and> length (bd_data frame) \<le> unat (us_chunk_size s) \<and>
    unat (us_admitted_offset s) + length (bd_data frame) \<le> unat (us_total_size s) \<and>
    (unat (us_admitted_offset s) + length (bd_data frame) < unat (us_total_size s) \<longrightarrow>
      length (bd_data frame) = unat (us_chunk_size s)) \<and>
    bd_end_of_data frame = (unat (us_admitted_offset s) + length (bd_data frame) = unat (us_total_size s)) \<and>
    us_sender_credits s \<noteq> 0"

definition admitted :: "StoreBulkData \<Rightarrow> UploadSession \<Rightarrow> UploadSession" where
  "admitted frame s =
    s\<lparr>us_sender_credits := us_sender_credits s - 1,
      us_admitted_offset := us_admitted_offset s + of_nat (length (bd_data frame)), us_end_seen := bd_end_of_data frame\<rparr>"

text \<open>The guards of \<open>admit\<close>, on natural numbers.\<close>

lemma admit_guards:
  fixes a :: u32
  assumes "unat a + n < 2 ^ 32"
  shows "unat (of_nat n :: u32) = n" "checked_add a (of_nat n) = Some (a + of_nat n)" "unat (a + of_nat n) = unat a + n"
    "(of_nat n :: u32) = 0 \<longleftrightarrow> n = 0" "ucast (c :: u16) < (of_nat n :: u32) \<longleftrightarrow> unat c < n"
    "(of_nat n :: u32) = ucast c \<longleftrightarrow> n = unat c" "b < a + of_nat n \<longleftrightarrow> unat b < unat a + n"
    "a + of_nat n < b \<longleftrightarrow> unat a + n < unat b" "a + of_nat n = b \<longleftrightarrow> unat a + n = unat b"
proof -
  show n: "unat (of_nat n :: u32) = n" using assms by (intro unat_len32) simp
  then show "checked_add a (of_nat n) = Some (a + of_nat n)" and s: "unat (a + of_nat n) = unat a + n"
    using assms by (simp_all add: checked_add_def unat_add_small)
  show "(of_nat n :: u32) = 0 \<longleftrightarrow> n = 0" "ucast (c :: u16) < (of_nat n :: u32) \<longleftrightarrow> unat c < n"
    "(of_nat n :: u32) = ucast c \<longleftrightarrow> n = unat c" "b < a + of_nat n \<longleftrightarrow> unat b < unat a + n"
    "a + of_nat n < b \<longleftrightarrow> unat a + n < unat b" "a + of_nat n = b \<longleftrightarrow> unat a + n = unat b"
    by (simp_all only: word_unat_eq_iff word_less_nat_alt n s unat_0 unat_u16_u32)
qed

lemma admissible_fits: "admissible frame s \<Longrightarrow> unat (us_admitted_offset s) + length (bd_data frame) < 2 ^ 32"
  using unat_u32_less[of "us_total_size s"] by (simp add: admissible_def)

lemma upload_admit_Ok:
  assumes ok: "pool_ok (ul_pool p)" and s: "ul_active p = Some s" "session_ok s" and a: "admissible frame s"
    and free: "unat (occupied (ul_pool p)) < 4"
  obtains d p' where "upload_admit frame p = (Ok d, p')" "ul_active p' = Some (admitted frame s)"
      "pool_ok (ul_pool p')" "bp_generation (ul_pool p') = bp_generation (ul_pool p)"
      "claims (ul_pool p) (unat (ds_slot d)) = None"
      "claims (ul_pool p') = (claims (ul_pool p))(unat (ds_slot d) \<mapsto> (d, SlRxReady))"
      "ds_offset d = us_admitted_offset s" "unat (ds_len d) = length (bd_data frame)" "ds_direction d = Td_Upload"
proof -
  let ?n = "length (bd_data frame)"
  note guards = admit_guards[OF admissible_fits[OF a]]
  have n: "0 < ?n" "?n \<le> 3584" using a s by (auto simp: admissible_def session_ok_def)
  then have len: "unat (of_nat ?n :: u16) = ?n" by (intro unat_len16) simp
  have room: "dom (claims (ul_pool p)) \<noteq> {..<4}" using free occupied_claims[OF ok] by force
  have pos: "(of_nat ?n :: u16) \<noteq> 0" using len n(1) by (metis unat_0 less_irrefl)
  obtain r pool where rp: "claim_upload (bd_offset frame) (of_nat ?n) (ul_pool p) = (r, pool)" by fastforce
  then obtain d where d: "r = Ok d" "claims (ul_pool p) (unat (ds_slot d)) = None"
      "claims pool = (claims (ul_pool p))(unat (ds_slot d) \<mapsto> (d, SlRxReady))" "pool_ok pool"
      "bp_generation pool = bp_generation (ul_pool p)" "ds_offset d = bd_offset frame" "ds_len d = of_nat ?n"
      "ds_direction d = Td_Upload"
    using claim_upload_effect[OF ok, of "bd_offset frame" "of_nat ?n"] room pos len n by (auto simp: claim_effect_def)
  have sender: "us_sender_credits s \<noteq> 0" "saturating_sub (us_sender_credits s) 1 = us_sender_credits s - 1"
    using a by (simp_all add: saturating_sub_def admissible_def word_le_nat_alt) (simp add: unat_gt_0 Suc_le_eq)
  have cond: "\<not> (unat (us_admitted_offset s) + ?n < unat (us_total_size s) \<and> ?n \<noteq> unat (us_chunk_size s))"
    using a by (auto simp: admissible_def)
  have fr: "bd_stream_id frame = us_stream_id s" "bd_offset frame = us_admitted_offset s" "?n < 2 ^ 32"
    "\<not> (?n = 0 \<or> unat (us_chunk_size s) < ?n \<or> unat (us_total_size s) < unat (us_admitted_offset s) + ?n)"
    "bd_end_of_data frame = (unat (us_admitted_offset s) + ?n = unat (us_total_size s))"
    using a admissible_fits[OF a] n by (auto simp: admissible_def)
  have "upload_admit frame p = (Ok d, p\<lparr>ul_pool := pool, ul_active := Some (admitted frame s)\<rparr>)"
    unfolding upload_admit_def Let_def
    using rp s(1) cond fr sender by (simp add: guards d(1) admitted_def)
  then show ?thesis
    using that d len fr(2) by simp
qed

lemma upload_admit_Err:
  assumes ok: "pool_ok (ul_pool p)" and s: "ul_active p = Some s"
    and full: "admissible frame s \<Longrightarrow> unat (occupied (ul_pool p)) = 4"
  shows "\<exists>e. upload_admit frame p = (Err e, p)"
proof -
  let ?n = "length (bd_data frame)"
  show ?thesis
  proof (cases "bd_stream_id frame = us_stream_id s \<and> bd_offset frame = us_admitted_offset s \<and> ?n < 2 ^ 32 \<and>
      unat (us_admitted_offset s) + ?n < 2 ^ 32")
    case False
    then show ?thesis
      using s by (auto simp: upload_admit_def checked_add_def unat_len32 Let_def)
  next
    case True
    then have guards: "?n < 2 ^ 32" "unat (us_admitted_offset s) + ?n < 2 ^ 32" by simp_all
    note guards = admit_guards[OF guards(2)] guards(1)
    consider (length) "?n = 0 \<or> unat (us_chunk_size s) < ?n \<or> unat (us_total_size s) < unat (us_admitted_offset s) + ?n"
      | (short) "unat (us_admitted_offset s) + ?n < unat (us_total_size s) \<and> ?n \<noteq> unat (us_chunk_size s)"
      | (flag) "bd_end_of_data frame \<noteq> (unat (us_admitted_offset s) + ?n = unat (us_total_size s))"
      | (claim) "\<not> (?n = 0 \<or> unat (us_chunk_size s) < ?n \<or> unat (us_total_size s) < unat (us_admitted_offset s) + ?n)"
        "\<not> (unat (us_admitted_offset s) + ?n < unat (us_total_size s) \<and> ?n \<noteq> unat (us_chunk_size s))"
        "bd_end_of_data frame = (unat (us_admitted_offset s) + ?n = unat (us_total_size s))"
      by blast
    then show ?thesis
    proof cases
      case claim
      show ?thesis
      proof (cases "us_sender_credits s = 0 \<and> unat (occupied (ul_pool p)) < 4")
        case True4: True
        then show ?thesis
          using True s claim by (simp add: upload_admit_def Let_def guards word_less_nat_alt)
      next
        case False
        moreover have "unat (occupied (ul_pool p)) \<le> 4" by (rule occupied_le[OF ok])
        ultimately have four: "unat (occupied (ul_pool p)) = 4"
          using full claim True by (auto simp: admissible_def)
        then have "dom (claims (ul_pool p)) = {..<4}"
          using claims_dom[OF ok] by (intro card_seteq) (simp_all add: occupied_claims[OF ok])
        then have "\<exists>e. claim_upload (bd_offset frame) (of_nat ?n) (ul_pool p) = (Err e, ul_pool p)"
          using claim_upload_effect[OF ok, of "bd_offset frame" "of_nat ?n"]
          by (cases "claim_upload (bd_offset frame) (of_nat ?n) (ul_pool p)") (auto simp: claim_effect_def split: if_splits)
        then show ?thesis
          using True s claim four by (auto simp: upload_admit_def Let_def guards word_less_nat_alt)
      qed
    qed (use True s in \<open>auto simp: upload_admit_def Let_def guards\<close>)
  qed
qed

lemma upload_admit_flow:
  assumes inv: "flow_inv ds p"
  obtains (admitted) s d p' where "upload_admit frame p = (Ok d, p')" "flow_inv (ds @ [d]) p'"
      "ul_active p = Some s" "admissible frame s" "ul_active p' = Some (admitted frame s)"
      "bp_generation (ul_pool p') = bp_generation (ul_pool p)" "claims (ul_pool p) (unat (ds_slot d)) = None"
      "claims (ul_pool p') = (claims (ul_pool p))(unat (ds_slot d) \<mapsto> (d, SlRxReady))"
      "ds_offset d = us_admitted_offset s" "unat (ds_len d) = length (bd_data frame)" "ds_direction d = Td_Upload"
  | (refused) e where "upload_admit frame p = (Err e, p)"
      "\<forall>s. ul_active p = Some s \<longrightarrow> \<not> admissible frame s"
proof (cases "ul_active p")
  case None
  then show ?thesis using refused[of BuInactive] by (simp add: upload_admit_def)
next
  case (Some s)
  note f = inv[unfolded flow_inv_def Some option.case]
  have ok: "pool_ok (ul_pool p)" and held: "held ds (ul_pool p)" and sok: "session_ok s"
    and tile: "tiling (unat (us_durable_offset s)) ds (unat (us_admitted_offset s))"
    and credit: "unat (us_sender_credits s) + unat (us_pending_credits s) + length ds = unat (us_window s)"
    and up: "\<forall>d\<in>set ds. ds_direction d = Td_Upload"
    using f by auto
  show ?thesis
  proof (cases "admissible frame s")
    case True
    then have pos: "0 < unat (us_sender_credits s)" by (simp add: admissible_def unat_gt_0)
    then have "unat (occupied (ul_pool p)) < 4"
      using credit sok held_count(1)[OF held ok] by (simp add: session_ok_def)
    from upload_admit_Ok[OF ok Some sok True this] obtain d p' where d: "upload_admit frame p = (Ok d, p')"
      "ul_active p' = Some (admitted frame s)" "pool_ok (ul_pool p')"
      "bp_generation (ul_pool p') = bp_generation (ul_pool p)" "claims (ul_pool p) (unat (ds_slot d)) = None"
      "claims (ul_pool p') = (claims (ul_pool p))(unat (ds_slot d) \<mapsto> (d, SlRxReady))"
      "ds_offset d = us_admitted_offset s" "unat (ds_len d) = length (bd_data frame)" "ds_direction d = Td_Upload" .
    have off: "unat (us_admitted_offset s + of_nat (length (bd_data frame))) = unat (us_admitted_offset s) + length (bd_data frame)"
      by (rule admit_guards(3)[OF admissible_fits[OF True]])
    have "session_ok (admitted frame s)"
      using sok True off by (auto simp: session_ok_def admitted_def admissible_def word_unat_eq_iff)
    moreover have "unat (us_sender_credits s - 1) = unat (us_sender_credits s) - 1"
      using pos by (simp add: unat_minus_one unat_gt_0)
    ultimately have "flow_inv (ds @ [d]) p'"
      using d tile credit up pos off held_claim[OF held d(5,6)]
      by (simp add: flow_inv_def admitted_def tiling_snoc)
    then show ?thesis using d Some True admitted by blast
  next
    case False
    then have "\<exists>e. upload_admit frame p = (Err e, p)"
      using upload_admit_Err[OF ok Some, of frame] by blast
    then show ?thesis using refused False Some by auto
  qed
qed

lemma flow_active:
  assumes "flow_inv ds p" and "ul_active p = Some s"
  shows "pool_ok (ul_pool p)" "held ds (ul_pool p)" "session_ok s" "\<forall>d\<in>set ds. ds_direction d = Td_Upload"
    "tiling (unat (us_durable_offset s)) ds (unat (us_admitted_offset s))"
    "unat (us_sender_credits s) + unat (us_pending_credits s) + length ds = unat (us_window s)"
  using assms by (auto simp: flow_inv_def)

lemma upload_take_Ok:
  assumes ok: "pool_ok (ul_pool p)" and c: "claims (ul_pool p) (unat (ds_slot d)) = Some (d, SlRxReady)"
    and "ds_direction d = Td_Upload" and "ul_active p \<noteq> None"
  obtains p' where "upload_take_for_storage d p = (Ok (), p')" "ul_active p' = ul_active p"
      "claims (ul_pool p') = (claims (ul_pool p))(unat (ds_slot d) \<mapsto> (d, SlStorageOwned))" "pool_ok (ul_pool p')"
      "bp_generation (ul_pool p') = bp_generation (ul_pool p)"
proof -
  obtain r pool where rp: "take_upload_for_storage d (ul_pool p) = (r, pool)" by fastforce
  then show ?thesis
    using take_upload_effect[OF ok, of d] assms that[of "p\<lparr>ul_pool := pool\<rparr>"]
    by (simp add: move_effect_def upload_take_for_storage_def)
qed

lemma flow_moved:
  assumes "flow_inv ds p" and "d \<in> set ds" and "ul_active p' = ul_active p" and "pool_ok (ul_pool p')"
    and "claims (ul_pool p') = (claims (ul_pool p))(unat (ds_slot d) \<mapsto> (d, st))"
  shows "flow_inv ds p'"
  using assms held_move[of ds "ul_pool p" d "ul_pool p'" st] by (simp add: flow_inv_def)

lemma upload_take_flow:
  assumes inv: "flow_inv ds p"
  shows "flow_inv ds (snd (upload_take_for_storage d p))"
proof (cases "ul_active p = None \<or> claims (ul_pool p) (unat (ds_slot d)) \<noteq> Some (d, SlRxReady) \<or> ds_direction d \<noteq> Td_Upload")
  case True
  obtain r pool where rp: "take_upload_for_storage d (ul_pool p) = (r, pool)" by fastforce
  have "pool_ok (ul_pool p)" using inv by (simp add: flow_inv_def)
  then have "ul_active p = None \<or> pool = ul_pool p"
    using True rp take_upload_effect[of "ul_pool p" d] by (auto simp: move_effect_def)
  then show ?thesis using inv rp by (auto simp: upload_take_for_storage_def flow_inv_def)
next
  case False
  have ok: "pool_ok (ul_pool p)" and held: "held ds (ul_pool p)" using inv by (simp_all add: flow_inv_def)
  obtain p' where p': "upload_take_for_storage d p = (Ok (), p')" "ul_active p' = ul_active p"
      "claims (ul_pool p') = (claims (ul_pool p))(unat (ds_slot d) \<mapsto> (d, SlStorageOwned))" "pool_ok (ul_pool p')"
    using upload_take_Ok[OF ok, of d] False by blast
  have "d \<in> set ds" using held_claimed[OF held] False by blast
  then show ?thesis using flow_moved[OF inv _ p'(2,4,3)] p'(1) by simp
qed

subsection \<open>Completing a block\<close>

lemma unat_min: "unat (min a b) = min (unat a) (unat b)" for a b :: "'a::len word"
  by (simp add: min_def word_le_nat_alt)

text \<open>The credits after one more block: returned at once when the batch or the file is complete.\<close>

definition credited :: "u32 \<Rightarrow> UploadSession \<Rightarrow> UploadSession" where
  "credited durable s =
    (let s = s\<lparr>us_durable_offset := durable, us_pending_credits := us_pending_credits s + 1\<rparr> in
     if us_pending_credits s < us_window s \<and> durable \<noteq> us_total_size s then s
     else s\<lparr>us_pending_credits := 0, us_sender_credits := us_sender_credits s + us_pending_credits s\<rparr>)"

definition credit_message :: "u32 \<Rightarrow> UploadSession \<Rightarrow> StoreBulkCredit option" where
  "credit_message durable s =
    (if us_pending_credits s + 1 < us_window s \<and> durable \<noteq> us_total_size s then None
     else Some \<lparr>bc_stream_id = us_stream_id s, bc_durable_offset = durable, bc_credits = us_pending_credits s + 1,
       bc_status = St_Ok\<rparr>)"

lemma credit_arithmetic:
  assumes "unat (us_sender_credits s) + unat (us_pending_credits s) + Suc n = unat (us_window s)" and "session_ok s"
  shows "saturating_add (us_pending_credits s) 1 = us_pending_credits s + 1"
    "unat (us_pending_credits s + 1) = unat (us_pending_credits s) + 1"
    "unat (us_sender_credits s + (us_pending_credits s + 1)) = unat (us_sender_credits s) + unat (us_pending_credits s) + 1"
    "min (saturating_add (us_sender_credits s) (us_pending_credits s + 1)) (us_window s) =
      us_sender_credits s + (us_pending_credits s + 1)"
proof -
  have w: "unat (us_sender_credits s) + unat (us_pending_credits s) + 1 \<le> 4"
    "unat (us_sender_credits s) + unat (us_pending_credits s) + 1 \<le> unat (us_window s)"
    using assms by (simp_all add: session_ok_def)
  then show p: "saturating_add (us_pending_credits s) 1 = us_pending_credits s + 1"
    "unat (us_pending_credits s + 1) = unat (us_pending_credits s) + 1"
    by (simp_all add: saturating_add_def unat_add_small)
  then show u: "unat (us_sender_credits s + (us_pending_credits s + 1)) = unat (us_sender_credits s) + unat (us_pending_credits s) + 1"
    using w by (simp add: unat_add_small)
  have "saturating_add (us_sender_credits s) (us_pending_credits s + 1) = us_sender_credits s + (us_pending_credits s + 1)"
    using w p(2) by (simp add: saturating_add_def)
  moreover have "us_sender_credits s + (us_pending_credits s + 1) \<le> us_window s"
    using w u by (simp only: word_le_nat_alt)
  ultimately show "min (saturating_add (us_sender_credits s) (us_pending_credits s + 1)) (us_window s) =
      us_sender_credits s + (us_pending_credits s + 1)"
    by (simp add: min_def)
qed

lemma upload_complete_Ok:
  assumes inv: "flow_inv ds p" and s: "ul_active p = Some s"
    and c: "claims (ul_pool p) (unat (ds_slot d)) = Some (d, SlStorageOwned)"
    and off: "ds_offset d = us_durable_offset s" and len: "length bytes = unat (ds_len d)"
  obtains es p' durable where "ds = d # es" "flow_inv es p'"
      "upload_complete_storage d bytes p = (Ok (credit_message durable s), p')"
      "unat durable = unat (us_durable_offset s) + length bytes"
      "ul_active p' = Some (credited durable (s\<lparr>us_crc_state := update (us_crc_state s) bytes\<rparr>))"
      "claims (ul_pool p') = (claims (ul_pool p))(unat (ds_slot d) := None)"
      "bp_generation (ul_pool p') = bp_generation (ul_pool p)"
proof -
  note f = flow_active[OF inv s]
  have d: "d \<in> set ds" using held_claimed[OF f(2) c] by blast
  obtain es where es: "ds = d # es" "tiling (unat (us_durable_offset s) + unat (ds_len d)) es (unat (us_admitted_offset s))"
    using tiling_first[OF f(5) d] off held_facts(3)[OF f(2,1)] by auto
  have up: "ds_direction d = Td_Upload" using f(4) d by blast
  have fits: "unat (ds_offset d) + unat (ds_len d) < 2 ^ 32"
    using tiling_le[OF es(2)] off unat_u32_less[of "us_admitted_offset s"] by simp
  let ?durable = "ds_offset d + ucast (ds_len d) :: u32"
  obtain pool' where pool': "complete_upload d (ul_pool p) = (Ok ?durable, pool')" "pool_ok pool'"
      "unat ?durable = unat (ds_offset d) + unat (ds_len d)"
      "claims pool' = (claims (ul_pool p))(unat (ds_slot d) := None)" "bp_generation pool' = bp_generation (ul_pool p)"
    using f(1)
  proof (cases rule: complete_upload_cases[of _ d])
    case (refused e)
    then show ?thesis using c up fits by simp
  qed (use that in auto)
  let ?s = "credited ?durable (s\<lparr>us_crc_state := update (us_crc_state s) bytes\<rparr>)"
  let ?p = "p\<lparr>ul_pool := pool', ul_active := Some ?s\<rparr>"
  have credit: "unat (us_sender_credits s) + unat (us_pending_credits s) + Suc (length es) = unat (us_window s)"
    using f(6) es(1) by simp
  note arith = credit_arithmetic[OF credit f(3)]
  have run: "upload_complete_storage d bytes p = (Ok (credit_message ?durable s), ?p)"
    using s off len pool'(1) by (simp add: upload_complete_storage_def credited_def credit_message_def Let_def arith)
  have "session_ok ?s" using f(3) by (simp add: credited_def session_ok_def Let_def)
  moreover have "unat (us_sender_credits ?s) + unat (us_pending_credits ?s) + length es = unat (us_window ?s)"
    using credit arith(2,3) by (simp add: credited_def Let_def)
  moreover have "us_admitted_offset ?s = us_admitted_offset s" "us_durable_offset ?s = ?durable"
    by (simp_all add: credited_def Let_def)
  moreover have "held es pool'" using held_release[of d es "ul_pool p" pool'] f(2) es(1) pool'(4) by simp
  ultimately have "flow_inv es ?p"
    using pool'(2,3) es f(4) off by (simp add: flow_inv_def)
  then show ?thesis
    using that[of es ?p ?durable] run es pool' off len by simp
qed

lemma upload_complete_refused:
  assumes "pool_ok (ul_pool p)" and "ul_active p = Some s"
    and "\<not> (claims (ul_pool p) (unat (ds_slot d)) = Some (d, SlStorageOwned) \<and> ds_offset d = us_durable_offset s \<and>
      length bytes = unat (ds_len d) \<and> ds_direction d = Td_Upload \<and> unat (ds_offset d) + unat (ds_len d) < 2 ^ 32)"
  shows "\<exists>e crc. upload_complete_storage d bytes p = (Err e, p\<lparr>ul_active := Some (s\<lparr>us_crc_state := crc\<rparr>)\<rparr>)"
proof -
  have same: "p\<lparr>ul_active := Some (s\<lparr>us_crc_state := us_crc_state s\<rparr>)\<rparr> = p" using assms(2) by simp
  show ?thesis
  proof (cases "ds_offset d = us_durable_offset s \<and> length bytes = unat (ds_len d)")
    case True
    from assms(1) obtain e where "complete_upload d (ul_pool p) = (Err e, ul_pool p)"
      by (cases rule: complete_upload_cases[of _ d]) (use assms True unat_u32_less[of "ds_offset d + ucast (ds_len d)"] in auto)
    then show ?thesis using True assms(2) by (auto simp: upload_complete_storage_def Let_def)
  next
    case False
    then have "\<exists>e. upload_complete_storage d bytes p = (Err e, p)"
      using assms(2) by (auto simp: upload_complete_storage_def)
    then show ?thesis using same by metis
  qed
qed

lemma upload_complete_flow:
  assumes inv: "flow_inv ds p"
  shows "\<exists>es. flow_inv es (snd (upload_complete_storage d bytes p))"
proof (cases "ul_active p")
  case None
  then show ?thesis using inv by (auto simp: upload_complete_storage_def)
next
  case (Some s)
  note f = flow_active[OF inv Some]
  show ?thesis
  proof (cases "claims (ul_pool p) (unat (ds_slot d)) = Some (d, SlStorageOwned) \<and> ds_offset d = us_durable_offset s \<and>
      length bytes = unat (ds_len d)")
    case True
    then show ?thesis using upload_complete_Ok[OF inv Some, of d bytes] by (metis snd_conv)
  next
    case False
    then obtain e crc where "upload_complete_storage d bytes p = (Err e, p\<lparr>ul_active := Some (s\<lparr>us_crc_state := crc\<rparr>)\<rparr>)"
      using upload_complete_refused[OF f(1) Some, of d bytes] by blast
    moreover have "session_ok (s\<lparr>us_crc_state := crc\<rparr>) = session_ok s" by (simp add: session_ok_def)
    ultimately show ?thesis using inv Some by (auto simp: flow_inv_def)
  qed
qed

subsection \<open>Status, finish and abort\<close>

lemma no_blocks:
  assumes "flow_inv ds p" and "occupied (ul_pool p) = 0"
  shows "ds = []"
  using assms held_count(1)[of ds "ul_pool p"] by (simp add: flow_inv_def)

lemma upload_status_flow: "flow_inv ds p \<Longrightarrow> flow_inv ds (snd (upload_status sid p))"
  using no_blocks[of ds p]
  by (cases "ul_active p") (auto simp: upload_status_def flow_inv_def session_ok_def Let_def)

lemma upload_finish_cases:
  assumes inv: "flow_inv ds p"
  obtains (finished) s where "ul_active p = Some s" "us_stream_id s = sid" "ds = []" "claims (ul_pool p) = Map.empty"
      "us_durable_offset s = us_total_size s"
      "upload_finish sid p = (Ok \<lparr>bf_stream_id = sid,
        bf_result = (if NOT (us_crc_state s) = us_expected_crc32 s then Uc_Ok else Uc_CrcMismatch),
        bf_total_bytes = us_total_size s, bf_computed_crc32 = NOT (us_crc_state s)\<rparr>, p\<lparr>ul_active := None\<rparr>)"
      "flow_inv [] (p\<lparr>ul_active := None\<rparr>)"
  | (refused) e where "upload_finish sid p = (Err e, p)"
proof (cases "\<exists>s. ul_active p = Some s \<and> us_stream_id s = sid \<and> occupied (ul_pool p) = 0 \<and> us_end_seen s \<and>
    us_admitted_offset s = us_total_size s \<and> us_durable_offset s = us_total_size s")
  case True
  then obtain s where s: "ul_active p = Some s" "us_stream_id s = sid" "occupied (ul_pool p) = 0" "us_end_seen s"
    "us_admitted_offset s = us_total_size s" "us_durable_offset s = us_total_size s" by blast
  have ds: "ds = []" using no_blocks[OF inv s(3)] .
  then have "claims (ul_pool p) = Map.empty" "flow_inv [] (p\<lparr>ul_active := None\<rparr>)"
    using inv by (auto simp: flow_inv_def held_Nil)
  then show ?thesis using finished[of s] s ds by (simp add: upload_finish_def Let_def)
next
  case False
  then have "\<exists>e. upload_finish sid p = (Err e, p)"
    by (cases "ul_active p") (auto simp: upload_finish_def)
  then show ?thesis using refused by blast
qed

lemma upload_abort_cases:
  assumes inv: "flow_inv ds p"
  obtains (aborted) s p' where "ul_active p = Some s" "us_stream_id s = sid" "upload_abort sid p = (Ok (), p')"
      "flow_inv [] p'" "ul_active p' = None" "ul_aborted_tombstone p' = Some sid"
      "bp_generation (ul_pool p') = next_id (bp_generation (ul_pool p))"
  | (again) "ul_active p = None" "ul_aborted_tombstone p = Some sid" "upload_abort sid p = (Ok (), p)"
  | (refused) e where "upload_abort sid p = (Err e, p)"
proof (cases "ul_active p")
  case None
  then show ?thesis
    using again refused by (cases "ul_aborted_tombstone p = Some sid") (simp_all add: upload_abort_def)
next
  case (Some s)
  show ?thesis
  proof (cases "us_stream_id s = sid")
    case True
    let ?p = "snd (upload_abort sid p)"
    have "flow_inv [] ?p"
      using True Some inv invalidate_spec[of "ul_pool p"]
      by (simp add: upload_abort_def abort_session_def flow_inv_def held_Nil)
    then show ?thesis
      using aborted[of s ?p] True Some invalidate_spec[of "ul_pool p"] by (simp add: upload_abort_def abort_session_def)
  next
    case False
    then show ?thesis using refused Some by (simp add: upload_abort_def)
  qed
qed

subsection \<open>The pipeline as a state machine\<close>

text \<open>Any call of the pipeline, with any arguments.\<close>

inductive upload_step :: "BulkUploadPipeline \<Rightarrow> BulkUploadPipeline \<Rightarrow> bool" where
  opened: "upload_step p (snd (upload_open sid total_size crc chunk window p))"
| admitted: "upload_step p (snd (upload_admit frame p))"
| taken: "upload_step p (snd (upload_take_for_storage d p))"
| stored: "upload_step p (snd (upload_complete_storage d bytes p))"
| queried: "upload_step p (snd (upload_status sid p))"
| finished: "upload_step p (snd (upload_finish sid p))"
| aborted: "upload_step p (snd (upload_abort sid p))"

inductive_cases upload_stepE: "upload_step p p'"

lemma upload_step_flow:
  assumes "upload_step p p'" and inv: "flow_inv ds p"
  shows "\<exists>es. flow_inv es p'"
  using assms(1)
proof cases
  case (opened sid total_size crc chunk window)
  then show ?thesis
    using inv by (cases rule: upload_open_flow[OF inv, of sid total_size crc chunk window]) auto
next
  case (admitted frame)
  then show ?thesis using inv by (cases rule: upload_admit_flow[OF inv, of frame]) auto
next
  case (taken d)
  then show ?thesis using upload_take_flow[OF inv] by blast
next
  case (stored d bytes)
  then show ?thesis using upload_complete_flow[OF inv] by blast
next
  case (queried sid)
  then show ?thesis using upload_status_flow[OF inv] by blast
next
  case (finished sid)
  then show ?thesis using inv by (cases rule: upload_finish_cases[OF inv, of sid]) auto
next
  case (aborted sid)
  then show ?thesis using inv by (cases rule: upload_abort_cases[OF inv, of sid]) auto
qed

interpretation upload: machine "\<lambda>p. p = BulkUploadPipeline_new" upload_step "\<lambda>p. \<exists>ds. flow_inv ds p"
proof
  show "\<exists>ds. flow_inv ds p" if "p = BulkUploadPipeline_new" for p using that flow_new by blast
  show "\<exists>ds. flow_inv ds q" if "\<exists>ds. flow_inv ds p" "upload_step p q" for p q
    using that upload_step_flow by blast
qed

text \<open>C11: Whatever calls are made of the upload pipeline, the blocks in flight tile the file between the durable and
  the admitted offset, in order and without gap or overlap, and they are exactly the claims stored in the slot pool,
  with their offsets and lengths; the
  credits the sender holds, those waiting to be returned and the blocks in flight add up to the window; and the durable
  offset never passes the admitted one, nor that the size of the file.  Without an active upload no slot is
  occupied.\<close>

theorem upload_flow_invariant:
  assumes "reachable (\<lambda>p. p = BulkUploadPipeline_new) upload_step p"
  shows "case ul_active p of
      None \<Rightarrow> claims (ul_pool p) = Map.empty
    | Some s \<Rightarrow>
        (\<exists>ds. (\<forall>i d. (\<exists>st. claims (ul_pool p) i = Some (d, st)) \<longleftrightarrow> d \<in> set ds \<and> unat (ds_slot d) = i) \<and>
          distinct (map (\<lambda>d. unat (ds_slot d)) ds) \<and>
          tiling (unat (us_durable_offset s)) ds (unat (us_admitted_offset s)) \<and>
          unat (us_sender_credits s) + unat (us_pending_credits s) + length ds = unat (us_window s)) \<and>
        us_durable_offset s \<le> us_admitted_offset s \<and> us_admitted_offset s \<le> us_total_size s \<and>
        us_end_seen s = (us_admitted_offset s = us_total_size s)"
proof -
  obtain ds where inv: "flow_inv ds p" using upload.reachable_inv[OF assms] by blast
  show ?thesis
  proof (cases "ul_active p")
    case None
    then show ?thesis using inv by (auto simp: flow_inv_def held_Nil)
  next
    case (Some s)
    note f = flow_active[OF inv Some]
    have "\<forall>i d. (\<exists>st. claims (ul_pool p) i = Some (d, st)) \<longleftrightarrow> d \<in> set ds \<and> unat (ds_slot d) = i"
      using heldD(3)[OF f(2)] held_claimed[OF f(2)] by blast
    moreover have "us_durable_offset s \<le> us_admitted_offset s" using tiling_le[OF f(5)] by (simp add: word_le_nat_alt)
    moreover have "us_admitted_offset s \<le> us_total_size s" "us_end_seen s = (us_admitted_offset s = us_total_size s)"
      using f(3) by (simp_all add: session_ok_def word_le_nat_alt)
    ultimately show ?thesis using Some f(5,6) heldD(1)[OF f(2)] by auto
  qed
qed

theorem upload_flow_invariant_witness:
  "\<exists>s. ul_active (snd (upload_open 7 100 0 512 2 BulkUploadPipeline_new)) = Some s \<and>
    us_durable_offset s \<le> us_admitted_offset s"
proof -
  have "reachable (\<lambda>p. p = BulkUploadPipeline_new) upload_step (snd (upload_open 7 100 0 512 2 BulkUploadPipeline_new))"
    by (rule reachable.followed[OF reachable.initial]) (rule refl upload_step.opened)+
  from upload_flow_invariant[OF this] show ?thesis
    by (simp add: upload_open_def BulkUploadPipeline_new_def)
qed

text \<open>A reachable pipeline accepts a data frame exactly when it continues the active upload: its stream, the
  admitted offset, a full chunk or the last shorter one, the end flag exactly on the last, within the size, and with a
  credit in hand; then the pool has a free slot.  The accepted block is the next one and a refused frame changes
  nothing.\<close>

theorem upload_admit_exact:
  assumes "reachable (\<lambda>p. p = BulkUploadPipeline_new) upload_step p"
  shows "is_ok (fst (upload_admit frame p)) = (\<exists>s. ul_active p = Some s \<and> admissible frame s) \<and>
    (case upload_admit frame p of
       (Ok d, p') \<Rightarrow> ds_offset d = bd_offset frame \<and> unat (ds_len d) = length (bd_data frame) \<and>
         claims (ul_pool p) (unat (ds_slot d)) = None \<and>
         claims (ul_pool p') = (claims (ul_pool p))(unat (ds_slot d) \<mapsto> (d, SlRxReady)) \<and>
         ul_active p' = map_option (admitted frame) (ul_active p)
     | (Err e, p') \<Rightarrow> p' = p
     | (Panic, p') \<Rightarrow> False)"
proof -
  obtain ds where inv: "flow_inv ds p" using upload.reachable_inv[OF assms] by blast
  then show ?thesis
  proof (cases rule: upload_admit_flow[of ds p frame])
    case (admitted s d p')
    then show ?thesis by (simp add: admissible_def)
  next
    case (refused e)
    then show ?thesis by auto
  qed
qed

theorem upload_admit_exact_witness:
  "is_ok (fst (upload_admit \<lparr>bd_stream_id = 7, bd_offset = 0, bd_end_of_data = True, bd_data = replicate 100 1\<rparr>
    (snd (upload_open 7 100 0 512 2 BulkUploadPipeline_new))))"
proof -
  have "reachable (\<lambda>p. p = BulkUploadPipeline_new) upload_step (snd (upload_open 7 100 0 512 2 BulkUploadPipeline_new))"
    by (rule reachable.followed[OF reachable.initial]) (rule refl upload_step.opened)+
  from upload_admit_exact[OF this] show ?thesis
    by (simp add: upload_open_def BulkUploadPipeline_new_def admissible_def)
qed

end
