(* ===== verification/Bulk_Leases.thy ===== *)
theory Bulk_Leases
  imports Bulk_Slots Storage_Owner Frame
begin

text \<open>
  The buffers behind the four slots and how they are lent to the storage owner
  (\<^verbatim>\<open>binbook-fw/src/bulk_lease_pool.rs\<close>), the table of replies that wait for the owner
  (\<^verbatim>\<open>bulk_reply_tracker.rs\<close>) and the idle timer of a transfer (\<^verbatim>\<open>bulk_idle_timeout.rs\<close>).
\<close>

subsection \<open>The lease pool\<close>

datatype BulkLeaseError = LeInvalidSlot | LeStaleGeneration | LeLength | LeUnavailable | LeWrongLease

record BulkLeasePool =
  lp_buffers :: "bytes option list"
  lp_generation :: u32

definition BulkLeasePool_new :: "bytes list \<Rightarrow> BulkLeasePool" where
  "BulkLeasePool_new buffers = \<lparr>lp_buffers = map Some buffers, lp_generation = 0\<rparr>"

definition lease_begin_session :: "u32 \<Rightarrow> BulkLeasePool \<Rightarrow> (unit, BulkLeaseError) res \<times> BulkLeasePool" where
  "lease_begin_session generation p =
    (if generation = 0 \<or> list_ex (\<lambda>b. b = None) (lp_buffers p) then (Err LeUnavailable, p)
     else (Ok (), p\<lparr>lp_generation := generation\<rparr>))"

definition lease_invalidate :: "u32 \<Rightarrow> BulkLeasePool \<Rightarrow> BulkLeasePool" where
  "lease_invalidate generation p = p\<lparr>lp_generation := max generation 1\<rparr>"

definition lease_validate :: "BulkSlotDescriptor \<Rightarrow> BulkLeasePool \<Rightarrow> (unit, BulkLeaseError) res" where
  "lease_validate d p =
    (if unat (ds_slot d) \<ge> TRANSFER_SLOT_COUNT then Err LeInvalidSlot
     else if ds_generation d \<noteq> lp_generation p then Err LeStaleGeneration
     else if ds_len d = 0 \<or> unat (ds_len d) > TRANSFER_DATA_BYTES then Err LeLength
     else Ok ())"

definition lease_buffer :: "BulkSlotDescriptor \<Rightarrow> BulkLeasePool \<Rightarrow> (bytes, BulkLeaseError) res" where
  "lease_buffer d p =
    (if unat (ds_slot d) < length (lp_buffers p) then ok_or LeUnavailable (lp_buffers p ! unat (ds_slot d))
     else Err LeUnavailable)"

definition lease_write :: "BulkSlotDescriptor \<Rightarrow> bytes \<Rightarrow> BulkLeasePool \<Rightarrow> (unit, BulkLeaseError) res \<times> BulkLeasePool" where
  "lease_write d data p =
    on_ok (lease_validate d p) p (\<lambda>_.
    if length data \<noteq> unat (ds_len d) then (Err LeLength, p)
    else
      on_ok (lease_buffer d p) p (\<lambda>buffer.
      on_ok (put buffer 0 data) p (\<lambda>buffer.
      (Ok (), p\<lparr>lp_buffers := (lp_buffers p)[unat (ds_slot d) := Some buffer]\<rparr>))))"

definition lease_bytes_of :: "BulkSlotDescriptor \<Rightarrow> BulkLeasePool \<Rightarrow> (bytes, BulkLeaseError) res" where
  "lease_bytes_of d p =
    and_then (lease_validate d p) (\<lambda>_.
    and_then (lease_buffer d p) (\<lambda>buffer. bytes_at buffer 0 (unat (ds_len d))))"

definition lease_take :: "BulkSlotDescriptor \<Rightarrow> BulkLeasePool \<Rightarrow> (BufferLease, BulkLeaseError) res \<times> BulkLeasePool" where
  "lease_take d p =
    on_ok (lease_validate d p) p (\<lambda>_.
    let index = unat (ds_slot d) in
    on_ok (and_then (byte_at (lp_buffers p) index) (ok_or LeUnavailable)) p (\<lambda>buffer.
    let p = p\<lparr>lp_buffers := (lp_buffers p)[index := None]\<rparr> in
    on_ok (ok_or LeInvalidSlot (BufferSlot_bulk (ds_slot d))) p (\<lambda>slot.
    (Ok \<lparr>lease_slot = slot, lease_bytes = buffer\<rparr>, p))))"

definition lease_restore :: "BulkSlotDescriptor \<Rightarrow> BufferLease \<Rightarrow> BulkLeasePool \<Rightarrow> (unit, BulkLeaseError) res \<times> BulkLeasePool" where
  "lease_restore d lease p =
    (let index = unat (ds_slot d) in
     if index \<ge> TRANSFER_SLOT_COUNT \<or> bulk_index (lease_slot lease) \<noteq> Some (ds_slot d) \<or> lp_buffers p ! index \<noteq> None
     then (Err LeWrongLease, p)
     else if length (lease_bytes lease) \<noteq> TRANSFER_DATA_BYTES then (Err LeLength, p)
     else (Ok (), p\<lparr>lp_buffers := (lp_buffers p)[index := Some (lease_bytes lease)]\<rparr>))"

definition lease_available :: "BulkLeasePool \<Rightarrow> u8" where
  "lease_available p = of_nat (length (filter (\<lambda>b. b \<noteq> None) (lp_buffers p)))"

text \<open>Rust's types: four buffers of the block size.  \<open>at_home p i\<close>: the buffer of slot \<open>i\<close> is not lent.\<close>

definition leases_ok :: "BulkLeasePool \<Rightarrow> bool" where
  "leases_ok p \<longleftrightarrow> length (lp_buffers p) = 4 \<and> (\<forall>b. Some b \<in> set (lp_buffers p) \<longrightarrow> length b = 3584)"

definition at_home :: "BulkLeasePool \<Rightarrow> nat \<Rightarrow> bool" where
  "at_home p i \<longleftrightarrow> i < 4 \<and> lp_buffers p ! i \<noteq> None"

lemma leases_ok_nth: "leases_ok p \<Longrightarrow> i < 4 \<Longrightarrow> lp_buffers p ! i = Some b \<Longrightarrow> length b = 3584"
  by (metis leases_ok_def nth_mem)

lemma leases_ok_store:
  "leases_ok p \<Longrightarrow> (\<And>b. v = Some b \<Longrightarrow> length b = 3584) \<Longrightarrow> leases_ok (p\<lparr>lp_buffers := (lp_buffers p)[i := v]\<rparr>)"
  using set_update_subset_insert[of "lp_buffers p" i v] by (auto simp: leases_ok_def)

lemma leases_new_ok: "length buffers = 4 \<Longrightarrow> \<forall>b\<in>set buffers. length b = 3584 \<Longrightarrow> leases_ok (BulkLeasePool_new buffers)"
  by (auto simp: leases_ok_def BulkLeasePool_new_def)

lemma available_4:
  assumes "leases_ok p"
  shows "unat (lease_available p) = 4 \<longleftrightarrow> (\<forall>i<4. at_home p i)"
proof -
  have len: "length (lp_buffers p) = 4" using assms by (simp add: leases_ok_def)
  have le: "length (filter (\<lambda>b. b \<noteq> None) (lp_buffers p)) \<le> 4" using length_filter_le[of _ "lp_buffers p"] len by metis
  then have "unat (lease_available p) = length (filter (\<lambda>b. b \<noteq> None) (lp_buffers p))"
    by (simp add: lease_available_def)
  moreover have "length (filter (\<lambda>b. b \<noteq> None) (lp_buffers p)) = 4 \<longleftrightarrow> (\<forall>b\<in>set (lp_buffers p). b \<noteq> None)"
  proof
    assume all: "length (filter (\<lambda>b. b \<noteq> None) (lp_buffers p)) = 4"
    show "\<forall>b\<in>set (lp_buffers p). b \<noteq> None"
    proof (rule ballI, rule notI)
      fix b assume "b \<in> set (lp_buffers p)" and "b = None"
      then have "length (filter (\<lambda>b. b \<noteq> None) (lp_buffers p)) < length (lp_buffers p)"
        by (intro length_filter_less) simp_all
      with all len show False by simp
    qed
  next
    assume "\<forall>b\<in>set (lp_buffers p). b \<noteq> None"
    then have "filter (\<lambda>b. b \<noteq> None) (lp_buffers p) = lp_buffers p" by (rule filter_True)
    then show "length (filter (\<lambda>b. b \<noteq> None) (lp_buffers p)) = 4" using len by (simp only:)
  qed
  ultimately show ?thesis using len by (auto simp: at_home_def all_set_conv_all_nth)
qed

text \<open>Each operation, on a pool of four buffers.\<close>

definition lease_fits :: "BulkSlotDescriptor \<Rightarrow> BulkLeasePool \<Rightarrow> bool" where
  "lease_fits d p \<longleftrightarrow> unat (ds_slot d) < 4 \<and> ds_generation d = lp_generation p \<and> 0 < unat (ds_len d) \<and> unat (ds_len d) \<le> 3584"

lemma lease_validate_iff: "lease_validate d p = Ok () \<longleftrightarrow> lease_fits d p"
  by (auto simp: lease_validate_def lease_fits_def unat_gt_0)

lemma lease_write_home:
  assumes "leases_ok p" and "lease_fits d p" and "at_home p (unat (ds_slot d))" and "length data = unat (ds_len d)"
  shows "\<exists>b. lp_buffers p ! unat (ds_slot d) = Some b \<and>
    lease_write d data p = (Ok (), p\<lparr>lp_buffers := (lp_buffers p)[unat (ds_slot d) := Some (data @ drop (length data) b)]\<rparr>)"
proof -
  from assms(3) obtain b where b: "lp_buffers p ! unat (ds_slot d) = Some b" "unat (ds_slot d) < 4" by (auto simp: at_home_def)
  then have "length b = 3584" using assms(1) leases_ok_nth by blast
  then have "put b 0 data = (Ok (data @ drop (length data) b) :: (bytes, BulkLeaseError) res)"
    using assms(2,4) by (simp add: put_def overwrite_start lease_fits_def)
  then show ?thesis
    using assms b by (simp add: lease_write_def lease_validate_iff[THEN iffD2] lease_buffer_def leases_ok_def)
qed

lemma lease_take_home:
  assumes "leases_ok p" and "lease_fits d p" and "lp_buffers p ! unat (ds_slot d) = Some b"
  shows "\<exists>slot. bulk_index slot = Some (ds_slot d) \<and>
    lease_take d p = (Ok \<lparr>lease_slot = slot, lease_bytes = b\<rparr>, p\<lparr>lp_buffers := (lp_buffers p)[unat (ds_slot d) := None]\<rparr>)"
proof -
  from assms(2) obtain slot where "BufferSlot_bulk (ds_slot d) = Some slot"
    using BufferSlot_bulk_None[of "ds_slot d"] by (cases "BufferSlot_bulk (ds_slot d)") (auto simp: lease_fits_def)
  then show ?thesis
    using assms
    by (auto simp: lease_take_def lease_validate_iff[THEN iffD2] byte_at_def leases_ok_def lease_fits_def bulk_index_bulk[symmetric]
        Let_def)
qed

definition lease_accepted :: "BulkSlotDescriptor \<Rightarrow> BufferLease \<Rightarrow> BulkLeasePool \<Rightarrow> bool" where
  "lease_accepted d lease p \<longleftrightarrow> unat (ds_slot d) < 4 \<and> bulk_index (lease_slot lease) = Some (ds_slot d) \<and>
    lp_buffers p ! unat (ds_slot d) = None \<and> length (lease_bytes lease) = 3584"

lemma lease_restore_accepted:
  "lease_accepted d lease p \<Longrightarrow>
    lease_restore d lease p = (Ok (), p\<lparr>lp_buffers := (lp_buffers p)[unat (ds_slot d) := Some (lease_bytes lease)]\<rparr>)"
  by (simp add: lease_restore_def lease_accepted_def)

lemma lease_restore_refused: "\<not> lease_accepted d lease p \<Longrightarrow> \<exists>e. lease_restore d lease p = (Err e, p)"
  by (auto simp: lease_restore_def lease_accepted_def Let_def not_le)

lemma lease_bytes_home:
  assumes "leases_ok p" and "lease_fits d p" and "lp_buffers p ! unat (ds_slot d) = Some b"
  shows "lease_bytes_of d p = Ok (take (unat (ds_len d)) b)"
proof -
  have "length b = 3584" using assms leases_ok_nth by (auto simp: lease_fits_def)
  then show ?thesis
    using assms by (simp add: lease_bytes_of_def lease_validate_iff[THEN iffD2] lease_buffer_def leases_ok_def
        lease_fits_def bytes_at_def subslice_def)
qed

text \<open>\<open>lending slots p\<close>: exactly the buffers of the distinct slots \<open>slots\<close> are lent.\<close>

definition lending :: "nat list \<Rightarrow> BulkLeasePool \<Rightarrow> bool" where
  "lending slots p \<longleftrightarrow> leases_ok p \<and> distinct slots \<and> set slots \<subseteq> {..<4} \<and> (\<forall>i<4. at_home p i \<longleftrightarrow> i \<notin> set slots)"

lemma lendingD:
  assumes "lending slots p"
  shows "leases_ok p" "distinct slots" "i \<in> set slots \<Longrightarrow> i < 4" "i < 4 \<Longrightarrow> at_home p i \<longleftrightarrow> i \<notin> set slots" "length slots \<le> 4"
proof -
  show "leases_ok p" "distinct slots" "i \<in> set slots \<Longrightarrow> i < 4" "i < 4 \<Longrightarrow> at_home p i \<longleftrightarrow> i \<notin> set slots"
    using assms by (auto simp: lending_def)
  then show "length slots \<le> 4"
    using assms card_mono[of "{..<4}" "set slots"] distinct_card[of slots] by (simp add: lending_def)
qed

lemma lending_available:
  assumes "lending slots p"
  shows "unat (lease_available p) = 4 \<longleftrightarrow> slots = []"
proof -
  have "unat (lease_available p) = 4 \<longleftrightarrow> (\<forall>i<4. i \<notin> set slots)"
    using available_4[of p] lendingD(1,4)[OF assms] by auto
  moreover have "set slots \<subseteq> {..<4}" using lendingD(3)[OF assms] by auto
  ultimately show ?thesis by (cases slots) auto
qed

lemma lending_generation [simp]: "lending slots (p\<lparr>lp_generation := g\<rparr>) = lending slots p"
  by (simp add: lending_def leases_ok_def at_home_def)

lemma lending_invalidate [simp]: "lending slots (lease_invalidate g p) = lending slots p"
  by (simp add: lease_invalidate_def)

lemma at_home_store:
  "leases_ok p \<Longrightarrow> j < 4 \<Longrightarrow> at_home (p\<lparr>lp_buffers := (lp_buffers p)[i := v]\<rparr>) j \<longleftrightarrow> (if i = j then v \<noteq> None else at_home p j)"
  by (auto simp: at_home_def leases_ok_def)

lemma lending_written:
  assumes "lending slots p" and "at_home p i" and "length b = 3584"
  shows "lending slots (p\<lparr>lp_buffers := (lp_buffers p)[i := Some b]\<rparr>)"
proof -
  have "i \<notin> set slots" using lendingD(4)[OF assms(1), of i] assms(2) by (auto simp: at_home_def)
  then show ?thesis
    using assms at_home_store[of p _ i "Some b"] leases_ok_store[of p "Some b" i] by (auto simp: lending_def)
qed

lemma lending_taken:
  assumes "lending slots p" and "at_home p i"
  shows "lending (slots @ [i]) (p\<lparr>lp_buffers := (lp_buffers p)[i := None]\<rparr>)"
proof -
  have "i \<notin> set slots" "i < 4" using lendingD(4)[OF assms(1), of i] assms(2) by (auto simp: at_home_def)
  then show ?thesis
    using assms at_home_store[of p _ i None] leases_ok_store[of p None i] by (auto simp: lending_def)
qed

lemma lending_restored:
  assumes l: "lending slots p" and j: "j < length slots" and "length b = 3584"
  shows "lending (remove_at j slots) (p\<lparr>lp_buffers := (lp_buffers p)[slots ! j := Some b]\<rparr>)"
proof -
  have d: "distinct (remove_at j slots)" "slots ! j \<notin> set (remove_at j slots)"
    using distinct_remove_at[OF lendingD(2)[OF l] j] by simp_all
  have s: "set slots = insert (slots ! j) (set (remove_at j slots))" by (rule set_remove_at[OF j])
  have "leases_ok (p\<lparr>lp_buffers := (lp_buffers p)[slots ! j := Some b]\<rparr>)"
    using leases_ok_store[of p "Some b"] l assms(3) by (simp add: lending_def)
  moreover have "at_home (p\<lparr>lp_buffers := (lp_buffers p)[slots ! j := Some b]\<rparr>) i \<longleftrightarrow> i \<notin> set (remove_at j slots)" if "i < 4" for i
    using at_home_store[OF lendingD(1)[OF l] that] lendingD(4)[OF l that] d(2) s by auto
  ultimately show ?thesis using l s d by (auto simp: lending_def)
qed

lemma lease_begin_Ok:
  assumes "lending [] p" and "generation \<noteq> 0"
  shows "lease_begin_session generation p = (Ok (), p\<lparr>lp_generation := generation\<rparr>)"
proof -
  have "\<forall>b\<in>set (lp_buffers p). b \<noteq> None"
    using assms(1) by (auto simp: lending_def leases_ok_def at_home_def in_set_conv_nth)
  then show ?thesis using assms(2) by (auto simp: lease_begin_session_def list_ex_iff)
qed

subsection \<open>Four buffers, for the examples\<close>

definition sample_block :: bytes where "sample_block = replicate 3584 0"

definition sample_leases :: BulkLeasePool where
  "sample_leases = BulkLeasePool_new [sample_block, sample_block, sample_block, sample_block]"

definition sample_response :: "u32 \<Rightarrow> Response \<Rightarrow> BufferLease option \<Rightarrow> OwnedResponse" where
  "sample_response sequence response buffer =
    \<lparr>ors_envelope = \<lparr>rs_client = ScDiagnostic, rs_sequence = sequence, rs_response = Ok response\<rparr>, ors_buffer = buffer\<rparr>"

lemma length_sample_block [simp]: "length sample_block = 3584"
  by (simp add: sample_block_def)

lemma replicate_4: "replicate 4 x = [x, x, x, x]"
  by (simp add: numeral_eq_Suc)

lemma less_4: "(i < 4) = (i = 0 \<or> i = 1 \<or> i = 2 \<or> i = (3 :: nat))"
  by auto

lemma sample_lending: "lending [] sample_leases"
  by (auto simp: lending_def sample_leases_def BulkLeasePool_new_def leases_ok_def at_home_def less_4)

subsection \<open>Replies that wait for the owner\<close>

record PendingBulkReply =
  pr_owner_sequence :: u32
  pr_header :: FrameHeader
  pr_stream_id :: "u32 option"

text \<open>\<open>BulkReplyTracker<N>\<close> is a vector of at most \<open>N\<close> replies; \<open>push\<close> gives a refused one back.\<close>

definition tracker_is_full :: "nat \<Rightarrow> PendingBulkReply list \<Rightarrow> bool" where
  "tracker_is_full n replies = (length replies = n)"

definition tracker_insert ::
    "nat \<Rightarrow> PendingBulkReply \<Rightarrow> PendingBulkReply list \<Rightarrow> (unit, PendingBulkReply) res \<times> PendingBulkReply list" where
  "tracker_insert n reply replies =
    (if length replies < n then (Ok (), replies @ [reply]) else (Err reply, replies))"

definition tracker_take ::
    "u32 \<Rightarrow> PendingBulkReply list \<Rightarrow> PendingBulkReply option \<times> PendingBulkReply list" where
  "tracker_take sequence replies =
    (case position (\<lambda>r. pr_owner_sequence r = sequence) replies of
       None \<Rightarrow> (None, replies)
     | Some index \<Rightarrow> (Some (replies ! index), remove_at index replies))"

definition tracker_is_finish :: "u32 \<Rightarrow> PendingBulkReply list \<Rightarrow> bool" where
  "tracker_is_finish sequence replies =
    list_ex (\<lambda>r. pr_owner_sequence r = sequence \<and> fh_opcode (pr_header r) = Op_StoreBulkFinish) replies"

text \<open>
  What the tracker promises: replies leave it once, by their owner sequence, and the others keep their order.
\<close>

lemma tracker_take_Some:
  "tracker_take sequence replies = (Some r, rest) \<Longrightarrow>
    \<exists>before after. replies = before @ r # after \<and> rest = before @ after \<and> pr_owner_sequence r = sequence \<and>
      (\<forall>x\<in>set before. pr_owner_sequence x \<noteq> sequence)"
proof -
  assume "tracker_take sequence replies = (Some r, rest)"
  then obtain i where i: "position (\<lambda>r. pr_owner_sequence r = sequence) replies = Some i"
    and r: "r = replies ! i" "rest = remove_at i replies"
    by (auto simp: tracker_take_def split: option.splits)
  then have "i < length replies" "pr_owner_sequence r = sequence" "\<forall>j<i. pr_owner_sequence (replies ! j) \<noteq> sequence"
    by (auto simp: position_Some)
  with r show ?thesis
    by (intro exI[of _ "take i replies"] exI[of _ "drop (Suc i) replies"])
      (auto simp: remove_at_def id_take_nth_drop in_set_conv_nth)
qed

lemma tracker_take_None: "tracker_take sequence replies = (None, rest) \<longleftrightarrow>
    rest = replies \<and> (\<forall>x\<in>set replies. pr_owner_sequence x \<noteq> sequence)"
proof -
  have "position (\<lambda>r. pr_owner_sequence r = sequence) replies = Some i \<Longrightarrow> \<exists>x\<in>set replies. pr_owner_sequence x = sequence" for i
    using position_SomeD[of _ replies i] nth_mem[of i replies] by blast
  then show ?thesis by (auto simp: tracker_take_def split: option.splits)
qed

subsection \<open>The idle timeout\<close>

definition BULK_IDLE_TIMEOUT_MS :: u64 where [simp]: "BULK_IDLE_TIMEOUT_MS = 60000"

text \<open>\<open>BulkIdleTimeout\<close> is its deadline.\<close>

definition idle_arm :: "u64 \<Rightarrow> u64 option \<Rightarrow> u64 option" where
  "idle_arm now_ms deadline = Some (saturating_add now_ms BULK_IDLE_TIMEOUT_MS)"

definition idle_touch :: "u64 \<Rightarrow> u64 option \<Rightarrow> u64 option" where
  "idle_touch now_ms deadline = (if deadline \<noteq> None then idle_arm now_ms deadline else deadline)"

definition idle_disarm :: "u64 option \<Rightarrow> u64 option" where
  "idle_disarm deadline = None"

definition idle_is_armed :: "u64 option \<Rightarrow> bool" where
  "idle_is_armed deadline = (deadline \<noteq> None)"

definition idle_remaining_ms :: "u64 \<Rightarrow> u64 option \<Rightarrow> u64 option" where
  "idle_remaining_ms now_ms deadline = map_option (\<lambda>d. saturating_sub d now_ms) deadline"

definition idle_take_expired :: "u64 \<Rightarrow> u64 option \<Rightarrow> bool \<times> u64 option" where
  "idle_take_expired now_ms deadline =
    (if (case deadline of None \<Rightarrow> True | Some d \<Rightarrow> now_ms < d) then (False, deadline) else (True, idle_disarm deadline))"

text \<open>A run of the timer: touched at each of the times \<open>ts\<close> after it was armed.\<close>

definition touched :: "u64 list \<Rightarrow> u64 option \<Rightarrow> u64 option" where
  "touched ts deadline = foldl (\<lambda>d t. idle_touch t d) deadline ts"

lemma touched_armed: "touched ts (idle_arm t d) = idle_arm (last (t # ts)) None"
  unfolding touched_def by (induction ts arbitrary: t d) (simp_all add: idle_touch_def idle_arm_def)

lemma touched_disarmed: "touched ts None = None"
  unfolding touched_def by (induction ts) (simp_all add: idle_touch_def)

text \<open>C33: The idle timer measures from the last activity: armed at \<open>t\<close> and touched at the times \<open>ts\<close>, it expires
  exactly from sixty seconds after the last of them on (the sum saturates at the end of the 64-bit clock), it then
  disarms itself so that it fires once, its remaining time is zero exactly when it has expired, and a timer that was
  never armed does not fire however often it is touched.\<close>

theorem idle_timeout_exact:
  "(let timer = touched ts (idle_arm t d); deadline = min (unat (last (t # ts)) + 60000) (2 ^ 64 - 1) in
     fst (idle_take_expired now_ms timer) = (deadline \<le> unat now_ms) \<and>
     fst (idle_take_expired now_ms (snd (idle_take_expired now_ms timer))) = False \<and>
     (idle_remaining_ms now_ms timer = Some 0) = (deadline \<le> unat now_ms) \<and>
     map_option unat (idle_remaining_ms now_ms timer) = Some (deadline - unat now_ms)) \<and>
   idle_take_expired now_ms (touched ts None) = (False, None)"
proof -
  let ?l = "last (t # ts)"
  have timer: "touched ts (idle_arm t d) = Some (saturating_add ?l 60000)"
    by (subst touched_armed) (simp add: idle_arm_def)
  have nat: "unat (saturating_add ?l 60000) = min (unat ?l + 60000) 18446744073709551615"
    by (simp only: unat_saturating_add) simp
  have zero: "saturating_sub x y = 0 \<longleftrightarrow> unat x \<le> unat y" for x y :: u64
    by (simp add: word_unat_eq_iff unat_saturating_sub)
  show ?thesis
    unfolding timer Let_def
    by (simp add: nat zero touched_disarmed idle_take_expired_def idle_disarm_def idle_remaining_ms_def
        word_less_nat_alt unat_saturating_sub not_less not_le min_le_iff_disj del: last.simps)
qed

end
