(* ===== verification/Bulk_Upload_Runtime.thy ===== *)
theory Bulk_Upload_Runtime
  imports Bulk_Upload Bulk_Leases
begin

text \<open>
  The upload runtime (\<^verbatim>\<open>binbook-fw/src/bulk_upload_runtime.rs\<close>, \<^verbatim>\<open>bulk_upload_runtime_control.rs\<close>,
  \<^verbatim>\<open>bulk_upload_runtime_types.rs\<close>) joins the pipeline with the buffers and with the storage owner: every operation
  sends the owner a request and is completed by its response.  The invariant says which buffers are lent and that
  the checksum covers exactly the bytes that the owner has stored.
\<close>

definition FIRST_SEQUENCE :: u32 where "FIRST_SEQUENCE = 500000"

datatype BulkUploadRuntimeError =
    RuActive | RuInvalidOpen | RuCorrelation | RuOwner | RuLease BulkLeaseError | RuPipeline BulkUploadError | RuBusy

record PendingOpen =
  pn_sequence :: u32
  pn_total_size :: u32
  pn_expected_crc32 :: u32
  pn_chunk :: u16
  pn_window :: u8

record OutstandingWrite =
  ow_sequence :: u32
  ow_descriptor :: BulkSlotDescriptor

record PendingFinish =
  pf_sequence :: u32
  pf_response :: StoreBulkFinishResponse
  pf_published :: bool

record BulkUploadFinish =
  uf_response :: StoreBulkFinishResponse
  uf_published :: bool

definition select_chunk :: "u16 \<Rightarrow> (u16, BulkUploadRuntimeError) res" where
  "select_chunk requested =
    (let automatic = of_nat TRANSFER_DATA_BYTES;
         selected = (if requested = 0 then automatic else min requested automatic div 512 * 512)
     in if selected \<noteq> 0 then Ok selected else Err RuInvalidOpen)"

definition select_window :: "u8 \<Rightarrow> u8" where
  "select_window requested =
    (if requested = 0 then of_nat TRANSFER_SLOT_COUNT else min (max requested 1) (of_nat TRANSFER_SLOT_COUNT))"

definition owned_request :: "u32 \<Rightarrow> Request \<Rightarrow> BufferLease option \<Rightarrow> OwnedRequest" where
  "owned_request sequence request buffer =
    \<lparr>orq_envelope = \<lparr>rq_client = ScDiagnostic, rq_sequence = sequence, rq_request = request\<rparr>, orq_buffer = buffer\<rparr>"

definition validate_response :: "OwnedResponse \<Rightarrow> u32 \<Rightarrow> (unit, BulkUploadRuntimeError) res" where
  "validate_response response sequence =
    (if rs_client (ors_envelope response) = ScDiagnostic \<and> rs_sequence (ors_envelope response) = sequence
     then Ok () else Err RuCorrelation)"

record BulkUploadRuntime =
  ur_pipeline :: BulkUploadPipeline
  ur_leases :: BulkLeasePool
  ur_pending_open :: "PendingOpen option"
  ur_pending_finish :: "PendingFinish option"
  ur_pending_abort :: "u32 option"
  ur_outstanding :: "OutstandingWrite list"
  ur_next_sequence :: u32

definition upload_from_lease_pool :: "BulkLeasePool \<Rightarrow> BulkUploadRuntime" where
  "upload_from_lease_pool leases =
    \<lparr>ur_pipeline = BulkUploadPipeline_new, ur_leases = leases, ur_pending_open = None, ur_pending_finish = None,
     ur_pending_abort = None, ur_outstanding = [], ur_next_sequence = FIRST_SEQUENCE\<rparr>"

definition upload_releasable :: "BulkUploadRuntime \<Rightarrow> bool" where
  "upload_releasable r =
    (ur_pending_open r = None \<and> ur_pending_finish r = None \<and> ur_pending_abort r = None \<and>
     \<not> upload_is_active (ur_pipeline r) \<and> ur_outstanding r = [] \<and>
     unat (lease_available (ur_leases r)) = TRANSFER_SLOT_COUNT)"

definition upload_into_lease_pool :: "BulkUploadRuntime \<Rightarrow> (BulkLeasePool, 'e) res" where
  "upload_into_lease_pool r = (if upload_releasable r then Ok (ur_leases r) else Panic)"

text \<open>\<open>sequence()\<close>: the number of the next request, and the state after it.\<close>

definition take_sequence :: "BulkUploadRuntime \<Rightarrow> u32 \<times> BulkUploadRuntime" where
  "take_sequence r = (ur_next_sequence r, r\<lparr>ur_next_sequence := next_id (ur_next_sequence r)\<rparr>)"

definition upload_begin_open ::
    "StoreBulkOpenRequest \<Rightarrow> BulkUploadRuntime \<Rightarrow> (OwnedRequest, BulkUploadRuntimeError) res \<times> BulkUploadRuntime" where
  "upload_begin_open request r =
    (if ur_pending_open r \<noteq> None \<or> upload_is_active (ur_pipeline r) \<or> ur_pending_finish r \<noteq> None \<or>
       ur_pending_abort r \<noteq> None \<or> ur_outstanding r \<noteq> [] \<or>
       unat (lease_available (ur_leases r)) \<noteq> TRANSFER_SLOT_COUNT
     then (Err RuActive, r)
     else if obr_direction request \<noteq> Td_Upload \<or> obr_backend request \<noteq> Sb_Sd \<or> obr_total_size request = 0
     then (Err RuInvalidOpen, r)
     else
       on_ok (select_chunk (obr_requested_chunk request)) r (\<lambda>chunk.
       let window = select_window (obr_requested_window request) in
       on_ok (map_err (\<lambda>_. RuInvalidOpen) (StorageName_new (obr_name request))) r (\<lambda>name.
       let (sequence, r) = take_sequence r;
           pending = \<lparr>pn_sequence = sequence, pn_total_size = obr_total_size request,
             pn_expected_crc32 = obr_expected_crc32 request, pn_chunk = chunk, pn_window = window\<rparr>
       in (Ok (owned_request sequence
             (UploadBegin name (ucast (obr_total_size request)) (obr_expected_crc32 request) False) None),
           r\<lparr>ur_pending_open := Some pending\<rparr>))))"

definition upload_complete_open ::
    "OwnedResponse \<Rightarrow> BulkUploadRuntime \<Rightarrow> (StoreBulkOpenResponse, BulkUploadRuntimeError) res \<times> BulkUploadRuntime" where
  "upload_complete_open response r =
    on_ok (ok_or RuCorrelation (ur_pending_open r)) r (\<lambda>pending.
    on_ok (validate_response response (pn_sequence pending)) r (\<lambda>_.
    if ors_buffer response \<noteq> None then (Err RuCorrelation, r)
    else
      on_ok (case rs_response (ors_envelope response) of
               Ok (UploadStarted v) \<Rightarrow> if v \<noteq> 0 then Ok v else Err RuCorrelation
             | Ok _ \<Rightarrow> Err RuCorrelation
             | _ \<Rightarrow> Err RuOwner) r (\<lambda>stream_id.
      let (credits, pipeline) = upload_open stream_id (pn_total_size pending) (pn_expected_crc32 pending)
             (pn_chunk pending) (pn_window pending) (ur_pipeline r);
          r = r\<lparr>ur_pipeline := pipeline\<rparr> in
      on_ok (map_err RuPipeline credits) r (\<lambda>credits.
      let (x, leases) = lease_begin_session (upload_generation (ur_pipeline r)) (ur_leases r);
          r = r\<lparr>ur_leases := leases\<rparr> in
      on_ok (map_err RuLease x) r (\<lambda>_.
      (Ok \<lparr>obs_stream_id = stream_id, obs_selected_chunk = pn_chunk pending, obs_initial_credits = credits,
           obs_direction = Td_Upload, obs_durable_offset = 0, obs_total_size = pn_total_size pending\<rparr>,
       r\<lparr>ur_pending_open := None\<rparr>))))))"

definition upload_runtime_admit ::
    "StoreBulkData \<Rightarrow> BulkUploadRuntime \<Rightarrow> (OwnedRequest, BulkUploadRuntimeError) res \<times> BulkUploadRuntime" where
  "upload_runtime_admit frame r =
    (let (x, pipeline) = upload_admit frame (ur_pipeline r); r = r\<lparr>ur_pipeline := pipeline\<rparr> in
     on_ok (map_err RuPipeline x) r (\<lambda>d.
     let (x, leases) = lease_write d (bd_data frame) (ur_leases r); r = r\<lparr>ur_leases := leases\<rparr> in
     on_ok (map_err RuLease x) r (\<lambda>_.
     let (x, pipeline) = upload_take_for_storage d (ur_pipeline r); r = r\<lparr>ur_pipeline := pipeline\<rparr> in
     on_ok (map_err RuPipeline x) r (\<lambda>_.
     let (x, leases) = lease_take d (ur_leases r); r = r\<lparr>ur_leases := leases\<rparr> in
     on_ok (map_err RuLease x) r (\<lambda>lease.
     let (sequence, r) = take_sequence r in
     if length (ur_outstanding r) \<ge> TRANSFER_SLOT_COUNT then (Err RuBusy, r)
     else
       (Ok (owned_request sequence
          (UploadWrite (bd_stream_id frame) (ucast (bd_offset frame)) 0 (ds_len d) (lease_slot lease) False) (Some lease)),
        r\<lparr>ur_outstanding := ur_outstanding r @ [\<lparr>ow_sequence = sequence, ow_descriptor = d\<rparr>]\<rparr>))))))"

definition upload_complete_write ::
    "OwnedResponse \<Rightarrow> BulkUploadRuntime \<Rightarrow> (StoreBulkCredit option, BulkUploadRuntimeError) res \<times> BulkUploadRuntime" where
  "upload_complete_write response r =
    on_ok (ok_or RuCorrelation
        (position (\<lambda>w. ow_sequence w = rs_sequence (ors_envelope response)) (ur_outstanding r))) r (\<lambda>pos.
    let d = ow_descriptor (ur_outstanding r ! pos) in
    if rs_client (ors_envelope response) \<noteq> ScDiagnostic then
      (case ors_buffer response of
         None \<Rightarrow> (Err RuCorrelation, r)
       | Some lease \<Rightarrow>
           if bulk_index (lease_slot lease) = Some (ds_slot d) then
             let (x, leases) = lease_restore d lease (ur_leases r); r = r\<lparr>ur_leases := leases\<rparr> in
             on_ok (map_err RuLease x) r (\<lambda>_.
             (Err RuCorrelation, r\<lparr>ur_outstanding := remove_at pos (ur_outstanding r)\<rparr>))
           else (Err RuCorrelation, r))
    else
      on_ok (ok_or RuCorrelation (ors_buffer response)) r (\<lambda>lease.
      let (x, leases) = lease_restore d lease (ur_leases r); r = r\<lparr>ur_leases := leases\<rparr> in
      on_ok (map_err RuLease x) r (\<lambda>_.
      let r = r\<lparr>ur_outstanding := remove_at pos (ur_outstanding r)\<rparr> in
      if ds_generation d \<noteq> upload_generation (ur_pipeline r) then (Ok None, r)
      else if pos \<noteq> 0 then (Err RuCorrelation, r)
      else
        on_ok (case rs_response (ors_envelope response) of
                 Ok (RespWritten len) \<Rightarrow> if len = ds_len d then Ok () else Err RuCorrelation
               | Ok _ \<Rightarrow> Err RuCorrelation
               | _ \<Rightarrow> Err RuOwner) r (\<lambda>_.
        on_ok (map_err RuLease (lease_bytes_of d (ur_leases r))) r (\<lambda>bytes.
        let (credit, pipeline) = upload_complete_storage d bytes (ur_pipeline r) in
        (map_err RuPipeline credit, r\<lparr>ur_pipeline := pipeline\<rparr>))))))"

definition upload_runtime_status ::
    "u32 \<Rightarrow> BulkUploadRuntime \<Rightarrow> (StoreBulkStatusResponse, BulkUploadRuntimeError) res \<times> BulkUploadRuntime" where
  "upload_runtime_status stream_id r =
    (let (x, pipeline) = upload_status stream_id (ur_pipeline r) in (map_err RuPipeline x, r\<lparr>ur_pipeline := pipeline\<rparr>))"

definition upload_begin_abort ::
    "u32 \<Rightarrow> BulkUploadRuntime \<Rightarrow> (OwnedRequest, BulkUploadRuntimeError) res \<times> BulkUploadRuntime" where
  "upload_begin_abort stream_id r =
    (if ur_pending_abort r \<noteq> None \<or> ur_pending_finish r \<noteq> None then (Err RuBusy, r)
     else
       let (x, pipeline) = upload_abort stream_id (ur_pipeline r); r = r\<lparr>ur_pipeline := pipeline\<rparr> in
       on_ok (map_err RuPipeline x) r (\<lambda>_.
       let r = r\<lparr>ur_leases := lease_invalidate (upload_generation (ur_pipeline r)) (ur_leases r)\<rparr>;
           (sequence, r) = take_sequence r
       in (Ok (owned_request sequence (UploadAbort stream_id) None), r\<lparr>ur_pending_abort := Some sequence\<rparr>)))"

text \<open>The owner's answer to a request that is only acknowledged.\<close>

definition require_ack :: "OwnedResponse \<Rightarrow> (unit, BulkUploadRuntimeError) res" where
  "require_ack response =
    (case rs_response (ors_envelope response) of Ok Ack \<Rightarrow> Ok () | Ok _ \<Rightarrow> Err RuCorrelation | _ \<Rightarrow> Err RuOwner)"

definition upload_complete_abort ::
    "OwnedResponse \<Rightarrow> BulkUploadRuntime \<Rightarrow> (unit, BulkUploadRuntimeError) res \<times> BulkUploadRuntime" where
  "upload_complete_abort response r =
    on_ok (ok_or RuCorrelation (ur_pending_abort r)) r (\<lambda>sequence.
    on_ok (validate_response response sequence) r (\<lambda>_.
    if ors_buffer response \<noteq> None then (Err RuCorrelation, r)
    else on_ok (require_ack response) r (\<lambda>_. (Ok (), r\<lparr>ur_pending_abort := None\<rparr>))))"

definition upload_begin_finish ::
    "u32 \<Rightarrow> BulkUploadRuntime \<Rightarrow> (OwnedRequest, BulkUploadRuntimeError) res \<times> BulkUploadRuntime" where
  "upload_begin_finish stream_id r =
    (if ur_pending_finish r \<noteq> None \<or> ur_outstanding r \<noteq> [] then (Err RuBusy, r)
     else
       let (x, pipeline) = upload_finish stream_id (ur_pipeline r); r = r\<lparr>ur_pipeline := pipeline\<rparr> in
       on_ok (map_err RuPipeline x) r (\<lambda>response.
       let published = (bf_result response = Uc_Ok);
           request = (if published then UploadCommit stream_id False else UploadAbort stream_id);
           (sequence, r) = take_sequence r
       in (Ok (owned_request sequence request None),
           r\<lparr>ur_pending_finish := Some \<lparr>pf_sequence = sequence, pf_response = response, pf_published = published\<rparr>\<rparr>)))"

definition upload_complete_finish ::
    "OwnedResponse \<Rightarrow> BulkUploadRuntime \<Rightarrow> (BulkUploadFinish, BulkUploadRuntimeError) res \<times> BulkUploadRuntime" where
  "upload_complete_finish response r =
    on_ok (ok_or RuCorrelation (ur_pending_finish r)) r (\<lambda>pending.
    on_ok (validate_response response (pf_sequence pending)) r (\<lambda>_.
    if ors_buffer response \<noteq> None then (Err RuCorrelation, r)
    else on_ok (require_ack response) r (\<lambda>_.
      (Ok \<lparr>uf_response = pf_response pending, uf_published = pf_published pending\<rparr>, r\<lparr>ur_pending_finish := None\<rparr>))))"

subsection \<open>The invariant\<close>

definition out_slots :: "BulkUploadRuntime \<Rightarrow> nat list" where
  "out_slots r = map (\<lambda>w. unat (ds_slot (ow_descriptor w))) (ur_outstanding r)"

definition open_ok :: "PendingOpen \<Rightarrow> bool" where
  "open_ok q \<longleftrightarrow> pn_total_size q \<noteq> 0 \<and> pn_chunk q \<noteq> 0 \<and> unat (pn_chunk q) \<le> 3584 \<and> pn_window q \<noteq> 0 \<and> unat (pn_window q) \<le> 4"

text \<open>
  \<open>D\<close> are the bytes stored so far.  While an upload is active its writes are among the claims \<open>ds\<close> of the pool; the
  writes of an aborted one carry an older generation.
\<close>

definition writes_ok :: "BulkSlotDescriptor list \<Rightarrow> bytes \<Rightarrow> BulkUploadRuntime \<Rightarrow> bool" where
  "writes_ok ds D r \<longleftrightarrow>
    (case ul_active (ur_pipeline r) of
       None \<Rightarrow> \<forall>w\<in>set (ur_outstanding r). ds_generation (ow_descriptor w) \<noteq> upload_generation (ur_pipeline r)
     | Some s \<Rightarrow> ur_pending_open r = None \<and> lp_generation (ur_leases r) = upload_generation (ur_pipeline r) \<and>
         (\<forall>w\<in>set (ur_outstanding r). ow_descriptor w \<in> set ds) \<and>
         (\<forall>d\<in>set ds. claims (ul_pool (ur_pipeline r)) (unat (ds_slot d)) = Some (d, SlStorageOwned)) \<and>
         length D = unat (us_durable_offset s) \<and> us_crc_state s = update (- 1) D)"

definition upload_runtime_inv :: "BulkSlotDescriptor list \<Rightarrow> bytes \<Rightarrow> BulkUploadRuntime \<Rightarrow> bool" where
  "upload_runtime_inv ds D r \<longleftrightarrow>
    flow_inv ds (ur_pipeline r) \<and> lending (out_slots r) (ur_leases r) \<and>
    (\<forall>q. ur_pending_open r = Some q \<longrightarrow> ur_outstanding r = [] \<and> open_ok q) \<and> writes_ok ds D r"

lemma runtime_invD:
  assumes "upload_runtime_inv ds D r"
  shows "flow_inv ds (ur_pipeline r)" "lending (out_slots r) (ur_leases r)" "writes_ok ds D r"
    "ur_pending_open r = Some q \<Longrightarrow> ur_outstanding r = []" "ur_pending_open r = Some q \<Longrightarrow> open_ok q"
  using assms by (auto simp: upload_runtime_inv_def)

text \<open>The fields that only correlate requests and responses are not constrained.\<close>

lemma runtime_inv_frame [simp]:
  "upload_runtime_inv ds D (r\<lparr>ur_next_sequence := n\<rparr>) = upload_runtime_inv ds D r"
  "upload_runtime_inv ds D (r\<lparr>ur_pending_abort := a\<rparr>) = upload_runtime_inv ds D r"
  "upload_runtime_inv ds D (r\<lparr>ur_pending_finish := f\<rparr>) = upload_runtime_inv ds D r"
  by (simp_all add: upload_runtime_inv_def writes_ok_def out_slots_def cong: option.case_cong)

lemma runtime_new:
  assumes "lending [] leases"
  shows "upload_runtime_inv [] D (upload_from_lease_pool leases)"
  using assms flow_new
  by (simp add: upload_runtime_inv_def upload_from_lease_pool_def writes_ok_def out_slots_def BulkUploadPipeline_new_def)

lemma select_chunk_Ok: "select_chunk requested = Ok chunk \<Longrightarrow> chunk \<noteq> 0 \<and> unat chunk \<le> 3584"
proof -
  assume s: "select_chunk requested = Ok chunk"
  have "min requested 3584 div 512 * 512 \<le> (3584 :: u16)"
  proof -
    have "unat (min requested 3584) \<le> 3584" by (simp add: unat_min)
    then have "unat (min requested 3584) div 512 * 512 \<le> 3584"
      by (meson div_times_less_eq_dividend order_trans)
    then have "unat (min requested 3584 div 512 * 512) \<le> 3584"
      by (simp add: unat_word_ariths unat_div)
    then show ?thesis by (simp add: word_le_nat_alt)
  qed
  then show ?thesis using s by (auto simp: select_chunk_def Let_def word_le_nat_alt split: if_splits)
qed

lemma select_window_ok: "select_window requested \<noteq> 0 \<and> unat (select_window requested) \<le> 4"
  by (auto simp: select_window_def unat_min min_def max_def word_le_nat_alt split: if_splits)

lemma open_arguments_total: "select_chunk requested \<noteq> Panic" "StorageName_new name \<noteq> Panic"
  by (simp_all add: select_chunk_def StorageName_new_def Let_def)

subsection \<open>Opening\<close>

lemma upload_begin_open_cases:
  assumes inv: "upload_runtime_inv ds D r"
  obtains (started) req r' where "upload_begin_open q r = (Ok req, r')" "upload_runtime_inv ds D r'"
      "upload_releasable r" "ur_pending_open r' \<noteq> None" "ur_pipeline r' = ur_pipeline r"
  | (refused) e where "upload_begin_open q r = (Err e, r)"
proof (cases "upload_releasable r \<and> obr_direction q = Td_Upload \<and> obr_backend q = Sb_Sd \<and> obr_total_size q \<noteq> 0 \<and>
    is_ok (select_chunk (obr_requested_chunk q)) \<and> is_ok (StorageName_new (obr_name q))")
  case True
  then obtain chunk name where chunk: "select_chunk (obr_requested_chunk q) = Ok chunk" and name: "StorageName_new (obr_name q) = Ok name"
    by (metis is_ok.elims(2))
  let ?r = "snd (upload_begin_open q r)"
  have "upload_runtime_inv ds D ?r"
    using inv True chunk name select_chunk_Ok[OF chunk] select_window_ok
    by (simp add: upload_begin_open_def upload_releasable_def take_sequence_def Let_def upload_runtime_inv_def writes_ok_def
        out_slots_def open_ok_def upload_is_active_def)
  then show ?thesis
    using True chunk name
    by (intro started[of _ ?r]) (auto simp: upload_begin_open_def upload_releasable_def take_sequence_def Let_def)
next
  case False
  then have "\<exists>e. upload_begin_open q r = (Err e, r)"
    by (cases "select_chunk (obr_requested_chunk q)"; cases "StorageName_new (obr_name q)")
      (auto simp: open_arguments_total upload_begin_open_def upload_releasable_def Let_def)
  then show ?thesis using refused by blast
qed

lemma upload_complete_open_cases:
  assumes inv: "upload_runtime_inv ds D r"
  obtains (opened) q sid x r' s where "upload_complete_open response r = (Ok x, r')" "upload_runtime_inv [] [] r'"
      "ur_pending_open r = Some q" "rs_response (ors_envelope response) = Ok (UploadStarted sid)"
      "ur_pending_open r' = None" "ul_active (ur_pipeline r') = Some s" "us_stream_id s = sid"
      "us_total_size s = pn_total_size q" "us_expected_crc32 s = pn_expected_crc32 q"
  | (refused) e where "upload_complete_open response r = (Err e, r)" "e = RuCorrelation \<or> e = RuOwner"
proof (cases "\<exists>q sid. ur_pending_open r = Some q \<and> validate_response response (pn_sequence q) = Ok () \<and>
    ors_buffer response = None \<and> rs_response (ors_envelope response) = Ok (UploadStarted sid) \<and> sid \<noteq> 0")
  case True
  then obtain q sid where q: "ur_pending_open r = Some q" and v: "validate_response response (pn_sequence q) = Ok ()"
    and b: "ors_buffer response = None" and sid: "rs_response (ors_envelope response) = Ok (UploadStarted sid)" "sid \<noteq> 0"
    by blast
  note d = runtime_invD[OF inv]
  have out: "ur_outstanding r = []" and okq: "open_ok q" using d(4,5)[OF q] by simp_all
  have inactive: "ul_active (ur_pipeline r) = None" using d(3) q by (simp add: writes_ok_def split: option.splits)
  obtain pl s where pl: "upload_open sid (pn_total_size q) (pn_expected_crc32 q) (pn_chunk q) (pn_window q) (ur_pipeline r) =
        (Ok (pn_window q), pl)" "flow_inv [] pl" "ul_active pl = Some s" "us_stream_id s = sid"
      "us_total_size s = pn_total_size q" "us_expected_crc32 s = pn_expected_crc32 q" "us_durable_offset s = 0"
      "us_crc_state s = - 1" "bp_generation (ul_pool pl) = next_id (bp_generation (ul_pool (ur_pipeline r)))"
    using d(1)
  proof (cases rule: upload_open_flow[where sid = sid and tot = "pn_total_size q" and crc = "pn_expected_crc32 q" and
        chunk = "pn_chunk q" and window = "pn_window q"])
    case (refused e)
    then show ?thesis using okq sid(2) inactive by (auto simp: open_ok_def)
  qed (use that in blast)
  have "upload_generation pl \<noteq> 0" using pl(9) next_id_neq(1) by (simp add: upload_generation_def)
  then have leases: "lease_begin_session (upload_generation pl) (ur_leases r) =
      (Ok (), (ur_leases r)\<lparr>lp_generation := upload_generation pl\<rparr>)"
    using lease_begin_Ok d(2) out by (simp add: out_slots_def)
  let ?r = "r\<lparr>ur_pipeline := pl, ur_leases := (ur_leases r)\<lparr>lp_generation := upload_generation pl\<rparr>, ur_pending_open := None\<rparr>"
  have "\<exists>x. upload_complete_open response r = (Ok x, ?r)"
    using q v b sid pl(1) leases by (simp add: upload_complete_open_def Let_def)
  moreover have "upload_runtime_inv [] [] ?r"
    using d(2) pl out by (simp add: upload_runtime_inv_def writes_ok_def out_slots_def)
  ultimately show ?thesis using opened[of _ ?r q sid s] q sid(1) pl by auto
next
  case False
  then have "\<exists>e. upload_complete_open response r = (Err e, r) \<and> (e = RuCorrelation \<or> e = RuOwner)"
    by (cases "ur_pending_open r"; cases "rs_response (ors_envelope response)")
      (auto simp: upload_complete_open_def validate_response_def split: Response.splits)
  then show ?thesis using refused by blast
qed

subsection \<open>Admitting a block\<close>

lemma upload_runtime_admit_cases:
  assumes inv: "upload_runtime_inv ds D r"
  obtains (admitted) s d lease b r' where "ul_active (ur_pipeline r) = Some s" "admissible frame s"
      "upload_runtime_admit frame r = (Ok (owned_request (ur_next_sequence r)
        (UploadWrite (bd_stream_id frame) (ucast (bd_offset frame)) 0 (ds_len d) (lease_slot lease) False) (Some lease)), r')"
      "upload_runtime_inv (ds @ [d]) D r'" "lease_bytes lease = bd_data frame @ b" "length (lease_bytes lease) = 3584"
      "unat (ds_len d) = length (bd_data frame)"
      "ur_outstanding r' = ur_outstanding r @ [\<lparr>ow_sequence = ur_next_sequence r, ow_descriptor = d\<rparr>]"
  | (refused) e where "upload_runtime_admit frame r = (Err (RuPipeline e), r)"
      "\<forall>s. ul_active (ur_pipeline r) = Some s \<longrightarrow> \<not> admissible frame s"
proof -
  note i = runtime_invD[OF inv]
  from i(1) show ?thesis
  proof (cases rule: upload_admit_flow[where frame = frame])
    case (refused e)
    then show ?thesis using that(2)[of e] by (simp add: upload_runtime_admit_def)
  next
    case (admitted s d pl)
    have w: "ur_pending_open r = None" "lp_generation (ur_leases r) = upload_generation (ur_pipeline r)"
      "\<forall>w\<in>set (ur_outstanding r). ow_descriptor w \<in> set ds"
      "\<forall>d\<in>set ds. claims (ul_pool (ur_pipeline r)) (unat (ds_slot d)) = Some (d, SlStorageOwned)"
      "length D = unat (us_durable_offset s)" "us_crc_state s = update (- 1) D"
      using i(3) admitted(3) by (auto simp: writes_ok_def)
    have ok: "pool_ok (ul_pool pl)" and held: "held (ds @ [d]) (ul_pool pl)" using admitted(2) by (simp_all add: flow_inv_def)
    have facts: "unat (ds_slot d) < 4" "ds_generation d = upload_generation (ur_pipeline r)" "0 < unat (ds_len d)"
      "unat (ds_len d) \<le> 3584"
      using held_facts[OF held ok, of d] admitted(6) by (simp_all add: upload_generation_def)
    have c: "claims (ul_pool pl) (unat (ds_slot d)) = Some (d, SlRxReady)" using admitted(8) by simp
    have notout: "unat (ds_slot d) \<notin> set (out_slots r)"
    proof
      assume "unat (ds_slot d) \<in> set (out_slots r)"
      then obtain e where "e \<in> set ds" "unat (ds_slot e) = unat (ds_slot d)" using w(3) by (auto simp: out_slots_def)
      then show False using w(4) admitted(7) by (metis option.distinct(1))
    qed
    then have home: "at_home (ur_leases r) (unat (ds_slot d))" using lendingD(4)[OF i(2) facts(1)] by simp
    have fits: "lease_fits d (ur_leases r)" using facts w(2) by (simp add: lease_fits_def)
    obtain b where b: "lp_buffers (ur_leases r) ! unat (ds_slot d) = Some b"
      and wr: "lease_write d (bd_data frame) (ur_leases r) =
        (Ok (), (ur_leases r)\<lparr>lp_buffers := (lp_buffers (ur_leases r))[unat (ds_slot d) := Some (bd_data frame @ drop (length (bd_data frame)) b)]\<rparr>)"
      using lease_write_home[OF lendingD(1)[OF i(2)] fits home admitted(10)[symmetric]] by blast
    let ?b = "bd_data frame @ drop (length (bd_data frame)) b"
    let ?l = "(ur_leases r)\<lparr>lp_buffers := (lp_buffers (ur_leases r))[unat (ds_slot d) := Some ?b]\<rparr>"
    have lenb: "length ?b = 3584"
      using leases_ok_nth[OF lendingD(1)[OF i(2)] facts(1) b] facts(4) admitted(10) by simp
    have l: "lending (out_slots r) ?l" by (rule lending_written[OF i(2) home lenb])
    obtain pl' where tk: "upload_take_for_storage d pl = (Ok (), pl')" "ul_active pl' = ul_active pl"
      "claims (ul_pool pl') = (claims (ul_pool pl))(unat (ds_slot d) \<mapsto> (d, SlStorageOwned))" "pool_ok (ul_pool pl')"
      "bp_generation (ul_pool pl') = bp_generation (ul_pool pl)"
      using upload_take_Ok[OF ok c admitted(11)] admitted(5) by auto
    have flow: "flow_inv (ds @ [d]) pl'" by (rule flow_moved[OF admitted(2) _ tk(2,4,3)]) simp
    have four: "length (lp_buffers (ur_leases r)) = 4" using lendingD(1)[OF i(2)] by (simp add: leases_ok_def)
    have "lp_buffers ?l ! unat (ds_slot d) = Some ?b" using facts(1) four by simp
    moreover have "lease_fits d ?l" using fits by (simp add: lease_fits_def)
    ultimately obtain slot where take: "lease_take d ?l = (Ok \<lparr>lease_slot = slot, lease_bytes = ?b\<rparr>,
        ?l\<lparr>lp_buffers := (lp_buffers ?l)[unat (ds_slot d) := None]\<rparr>)"
      using lease_take_home[OF lendingD(1)[OF l], of d ?b] by blast
    let ?l2 = "?l\<lparr>lp_buffers := (lp_buffers ?l)[unat (ds_slot d) := None]\<rparr>"
    have l2: "lending (out_slots r @ [unat (ds_slot d)]) ?l2"
      using lending_taken[OF l, of "unat (ds_slot d)"] lendingD(4)[OF l facts(1)] notout by simp
    have room: "length (ur_outstanding r) < 4" using lendingD(5)[OF l2] by (simp add: out_slots_def)
    let ?w = "\<lparr>ow_sequence = ur_next_sequence r, ow_descriptor = d\<rparr>"
    let ?r = "r\<lparr>ur_pipeline := pl', ur_leases := ?l2, ur_next_sequence := next_id (ur_next_sequence r),
      ur_outstanding := ur_outstanding r @ [?w]\<rparr>"
    have run: "upload_runtime_admit frame r = (Ok (owned_request (ur_next_sequence r)
        (UploadWrite (bd_stream_id frame) (ucast (bd_offset frame)) 0 (ds_len d) slot False)
        (Some \<lparr>lease_slot = slot, lease_bytes = ?b\<rparr>)), ?r)"
      using admitted(1) wr tk(1) take room by (simp add: upload_runtime_admit_def take_sequence_def Let_def)
    have "upload_runtime_inv (ds @ [d]) D ?r"
    proof -
      have "\<forall>e\<in>set (ds @ [d]). claims (ul_pool pl') (unat (ds_slot e)) = Some (e, SlStorageOwned)"
        using w(4) tk(3) admitted(7,8) by auto
      moreover have "length D = unat (us_durable_offset (admitted frame s))" "us_crc_state (admitted frame s) = update (- 1) D"
        using w(5,6) by (simp_all add: admitted_def)
      ultimately show ?thesis
        using flow l2 w(1-3) tk(2,5) admitted(5,6)
        by (simp add: upload_runtime_inv_def writes_ok_def out_slots_def upload_generation_def)
    qed
    then show ?thesis
      using that(1)[OF admitted(3,4), of d "\<lparr>lease_slot = slot, lease_bytes = ?b\<rparr>" ?r] run lenb admitted(10) by simp
  qed
qed

subsection \<open>Completing a write\<close>

text \<open>
  The block that a response acknowledges: the owner confirms that it has stored the whole block of a write of the
  current upload, and gives back the buffer of that write.  What the runtime makes of the response plays no part.
\<close>

definition confirms_write :: "OwnedResponse \<Rightarrow> BulkSlotDescriptor \<Rightarrow> BufferLease \<Rightarrow> bool" where
  "confirms_write response d lease \<longleftrightarrow>
    rs_client (ors_envelope response) = ScDiagnostic \<and>
    rs_response (ors_envelope response) = Ok (RespWritten (ds_len d)) \<and>
    bulk_index (lease_slot lease) = Some (ds_slot d) \<and> length (lease_bytes lease) = TRANSFER_DATA_BYTES"

definition acknowledged_block :: "OwnedResponse \<Rightarrow> BulkUploadRuntime \<Rightarrow> bytes" where
  "acknowledged_block response r =
    (case position (\<lambda>w. ow_sequence w = rs_sequence (ors_envelope response)) (ur_outstanding r) of
       None \<Rightarrow> []
     | Some pos \<Rightarrow>
         let d = ow_descriptor (ur_outstanding r ! pos) in
         (case ors_buffer response of
            None \<Rightarrow> []
          | Some lease \<Rightarrow>
              if confirms_write response d lease \<and> ds_generation d = upload_generation (ur_pipeline r)
              then take (unat (ds_len d)) (lease_bytes lease) else []))"

text \<open>
  A block of the current upload that waits for the owner's answer and never gets it: its answer has come and was
  refused.  Such an upload is never finished.
\<close>

definition lost_write :: "BulkSlotDescriptor list \<Rightarrow> BulkUploadRuntime \<Rightarrow> bool" where
  "lost_write ds r \<longleftrightarrow> (\<exists>d\<in>set ds. d \<notin> ow_descriptor ` set (ur_outstanding r))"

definition upload_stored_inv :: "BulkSlotDescriptor list \<Rightarrow> bytes \<Rightarrow> BulkUploadRuntime \<Rightarrow> bool" where
  "upload_stored_inv ds D r \<longleftrightarrow>
    (\<exists>C. upload_runtime_inv ds C r \<and> (ul_active (ur_pipeline r) \<noteq> None \<longrightarrow> C = D \<or> lost_write ds r))"

text \<open>The buffer is back and its write forgotten.\<close>

definition returned :: "nat \<Rightarrow> BufferLease \<Rightarrow> BulkUploadRuntime \<Rightarrow> BulkUploadRuntime" where
  "returned pos lease r =
    r\<lparr>ur_leases := (ur_leases r)\<lparr>lp_buffers := (lp_buffers (ur_leases r))
        [unat (ds_slot (ow_descriptor (ur_outstanding r ! pos))) := Some (lease_bytes lease)]\<rparr>,
      ur_outstanding := remove_at pos (ur_outstanding r)\<rparr>"

lemma returned_fields [simp]:
  "ur_pipeline (returned pos lease r) = ur_pipeline r" "ur_outstanding (returned pos lease r) = remove_at pos (ur_outstanding r)"
  "ur_pending_open (returned pos lease r) = ur_pending_open r"
  "lp_generation (ur_leases (returned pos lease r)) = lp_generation (ur_leases r)"
  by (simp_all add: returned_def)

lemma returned_inv:
  assumes inv: "upload_runtime_inv ds D r" and pos: "pos < length (ur_outstanding r)"
    and acc: "lease_accepted (ow_descriptor (ur_outstanding r ! pos)) lease (ur_leases r)"
  shows "upload_runtime_inv ds D (returned pos lease r)"
proof -
  note i = runtime_invD[OF inv]
  have "lending (remove_at pos (out_slots r)) (ur_leases (returned pos lease r))"
    using lending_restored[OF i(2), of pos "lease_bytes lease"] pos acc
    by (simp add: out_slots_def returned_def lease_accepted_def)
  moreover have "set (remove_at pos (ur_outstanding r)) \<subseteq> set (ur_outstanding r)" by (rule set_remove_at_subset)
  moreover have "ur_pending_open r = None" if "ur_outstanding r \<noteq> []"
    using i(4) that by (cases "ur_pending_open r") auto
  moreover have "ur_outstanding r \<noteq> []" using pos by auto
  ultimately show ?thesis
    using i(1,3) unfolding upload_runtime_inv_def writes_ok_def
    by (auto simp: out_slots_def map_remove_at split: option.splits)
qed

lemma outstanding_once:
  assumes inv: "upload_runtime_inv ds D r" and pos: "pos < length (ur_outstanding r)"
  shows "ow_descriptor (ur_outstanding r ! pos) \<notin> ow_descriptor ` set (remove_at pos (ur_outstanding r))"
proof
  let ?d = "ow_descriptor (ur_outstanding r ! pos)"
  assume "?d \<in> ow_descriptor ` set (remove_at pos (ur_outstanding r))"
  then have "unat (ds_slot ?d) \<in> set (remove_at pos (out_slots r))"
    by (auto simp: out_slots_def map_remove_at[symmetric])
  moreover have "distinct (out_slots r)" using lendingD(2)[OF runtime_invD(2)[OF inv]] .
  from conjunct2[OF distinct_remove_at[OF this, of pos]] have "unat (ds_slot ?d) \<notin> set (remove_at pos (out_slots r))"
    using pos by (simp add: out_slots_def)
  ultimately show False by blast
qed

lemma lost_returned:
  assumes inv: "upload_runtime_inv ds D r" and pos: "pos < length (ur_outstanding r)"
    and active: "ul_active (ur_pipeline r) \<noteq> None"
  shows "lost_write ds (returned pos lease r)"
proof -
  have "ow_descriptor (ur_outstanding r ! pos) \<in> set ds"
    using runtime_invD(3)[OF inv] active pos by (auto simp: writes_ok_def)
  then show ?thesis using outstanding_once[OF inv pos] by (auto simp: lost_write_def)
qed

lemma confirmed_accepted:
  assumes inv: "upload_runtime_inv ds D r" and pos: "pos < length (ur_outstanding r)"
    and ack: "confirms_write response (ow_descriptor (ur_outstanding r ! pos)) lease"
  shows "lease_accepted (ow_descriptor (ur_outstanding r ! pos)) lease (ur_leases r)"
proof -
  let ?i = "unat (ds_slot (ow_descriptor (ur_outstanding r ! pos)))"
  have "?i \<in> set (out_slots r)" using pos by (auto simp: out_slots_def)
  with lendingD(3,4)[OF runtime_invD(2)[OF inv], of ?i] have "?i < 4" "\<not> at_home (ur_leases r) ?i" by auto
  then show ?thesis using ack by (simp add: confirms_write_def lease_accepted_def at_home_def)
qed

lemma stored_inv:
  assumes inv: "upload_runtime_inv ds D r" and s: "ul_active (ur_pipeline r) = Some s"
    and d: "d \<in> set ds" and out: "\<forall>w\<in>set (ur_outstanding r). ow_descriptor w \<noteq> d" and len: "length bytes = unat (ds_len d)"
  obtains (stored) es pl durable where "ds = d # es" "ds_offset d = us_durable_offset s" "upload_complete_storage d bytes (ur_pipeline r) = (Ok (credit_message durable s), pl)"
      "upload_runtime_inv es (D @ bytes) (r\<lparr>ur_pipeline := pl\<rparr>)"
      "unat durable = unat (us_durable_offset s) + length bytes" "upload_durable_offset pl = durable"
  | (refused) "upload_complete_storage d bytes (ur_pipeline r) = (Err BuWrongOffset, ur_pipeline r)"
proof (cases "ds_offset d = us_durable_offset s")
  case False
  then show ?thesis using refused s by (simp add: upload_complete_storage_def)
next
  case True
  note i = runtime_invD[OF inv]
  have w: "ur_pending_open r = None" "lp_generation (ur_leases r) = upload_generation (ur_pipeline r)"
      "\<forall>w\<in>set (ur_outstanding r). ow_descriptor w \<in> set ds"
      "\<forall>d\<in>set ds. claims (ul_pool (ur_pipeline r)) (unat (ds_slot d)) = Some (d, SlStorageOwned)"
      "length D = unat (us_durable_offset s)" "us_crc_state s = update (- 1) D"
    using i(3) s by (auto simp: writes_ok_def)
  have c: "claims (ul_pool (ur_pipeline r)) (unat (ds_slot d)) = Some (d, SlStorageOwned)" using w(4) d by blast
  obtain es pl durable where e: "ds = d # es" "flow_inv es pl"
      "upload_complete_storage d bytes (ur_pipeline r) = (Ok (credit_message durable s), pl)"
      "unat durable = unat (us_durable_offset s) + length bytes"
      "ul_active pl = Some (credited durable (s\<lparr>us_crc_state := update (us_crc_state s) bytes\<rparr>))"
      "claims (ul_pool pl) = (claims (ul_pool (ur_pipeline r)))(unat (ds_slot d) := None)"
      "bp_generation (ul_pool pl) = bp_generation (ul_pool (ur_pipeline r))"
    using upload_complete_Ok[OF i(1) s c True len] .
  have held: "held (d # es) (ul_pool (ur_pipeline r))" using i(1) e(1) by (simp add: flow_inv_def)
  have "unat (ds_slot x) \<noteq> unat (ds_slot d)" if "x \<in> set es" for x
    using heldD(1)[OF held] imageI[OF that, of "\<lambda>d. unat (ds_slot d)"] by force
  then have "\<forall>x\<in>set es. claims (ul_pool pl) (unat (ds_slot x)) = Some (x, SlStorageOwned)"
    using w(4) e(1,6) by simp
  moreover have "\<forall>x\<in>set (ur_outstanding r). ow_descriptor x \<in> set es" using w(3) out e(1) by auto
  moreover have "us_durable_offset (credited durable s') = durable" "us_crc_state (credited durable s') = us_crc_state s'" for s'
    by (simp_all add: credited_def Let_def)
  moreover have "update (update (- 1) D) bytes = update (- 1) (D @ bytes)" by (simp add: update_append)
  ultimately have "upload_runtime_inv es (D @ bytes) (r\<lparr>ur_pipeline := pl\<rparr>)" "upload_durable_offset pl = durable"
    using i(2) w e by (simp_all add: upload_runtime_inv_def writes_ok_def out_slots_def upload_generation_def upload_durable_offset_def)
  then show ?thesis using stored[OF e(1) True] e by blast
qed

lemma upload_complete_write_cases:
  assumes inv: "upload_runtime_inv ds D r"
  obtains (unchanged) e where "upload_complete_write response r = (Err e, r)" "acknowledged_block response r = []"
  | (back_home) x pos lease where "upload_complete_write response r = (x, returned pos lease r)" "x \<noteq> Panic"
      "upload_runtime_inv ds D (returned pos lease r)"
      "x = Ok None \<or> (\<exists>e. x = Err e)"
      "ul_active (ur_pipeline r) \<noteq> None \<Longrightarrow> acknowledged_block response r = [] \<or> lost_write ds (returned pos lease r)"
  | (stored) s and d :: BulkSlotDescriptor and lease c es pl durable where
      "upload_complete_write response r = (Ok c, (returned 0 lease r)\<lparr>ur_pipeline := pl\<rparr>)"
      "ul_active (ur_pipeline r) = Some s" "ors_buffer response = Some lease" "c = credit_message durable s"
      "upload_durable_offset pl = durable"
      "unat durable = unat (us_durable_offset s) + unat (ds_len d)" "unat (ds_len d) \<le> length (lease_bytes lease)"
      "upload_runtime_inv es (D @ take (unat (ds_len d)) (lease_bytes lease)) ((returned 0 lease r)\<lparr>ur_pipeline := pl\<rparr>)"
      "rs_response (ors_envelope response) = Ok (RespWritten (ds_len d))"
      "acknowledged_block response r = take (unat (ds_len d)) (lease_bytes lease)"
      "ds = d # es" "d \<in> ow_descriptor ` set (ur_outstanding r)"
proof (cases "position (\<lambda>w. ow_sequence w = rs_sequence (ors_envelope response)) (ur_outstanding r)")
  case None
  then show ?thesis using unchanged by (simp add: upload_complete_write_def acknowledged_block_def del: position_None)
next
  case (Some pos)
  note i = runtime_invD[OF inv]
  let ?d = "ow_descriptor (ur_outstanding r ! pos)"
  have pos: "pos < length (ur_outstanding r)" using position_SomeD[OF Some] by simp
  show ?thesis
  proof (cases "\<exists>lease. ors_buffer response = Some lease \<and> lease_accepted ?d lease (ur_leases r)")
    case False
    have "\<exists>e. upload_complete_write response r = (Err e, r)"
    proof (cases "ors_buffer response")
      case (Some lease)
      then obtain e where "lease_restore ?d lease (ur_leases r) = (Err e, ur_leases r)"
        using False lease_restore_refused[of ?d lease "ur_leases r"] by auto
      then show ?thesis
        using Some \<open>position _ _ = Some pos\<close> by (simp add: upload_complete_write_def Let_def)
    qed (use Some in \<open>simp add: upload_complete_write_def Let_def\<close>)
    moreover have "acknowledged_block response r = []"
      using False Some confirmed_accepted[OF inv pos]
      by (auto simp: acknowledged_block_def Let_def split: option.splits)
    ultimately show ?thesis using unchanged by blast
  next
    case True
    then obtain lease where lease: "ors_buffer response = Some lease" and acc: "lease_accepted ?d lease (ur_leases r)" by blast
    note rinv = returned_inv[OF inv pos acc]
    have slot: "bulk_index (lease_slot lease) = Some (ds_slot ?d)" using acc by (simp only: lease_accepted_def)
    have rest: "lease_restore ?d lease (ur_leases r) = (Ok (), ur_leases (returned pos lease r))"
      using lease_restore_accepted[OF acc] by (simp add: returned_def)
    have eq: "r\<lparr>ur_leases := ur_leases (returned q lease r), ur_outstanding := remove_at q (ur_outstanding r)\<rparr> = returned q lease r" for q
      by (simp add: returned_def)
    show ?thesis
    proof (cases "rs_client (ors_envelope response) = ScDiagnostic \<and> ds_generation ?d = upload_generation (ur_pipeline r) \<and>
        pos = 0 \<and> rs_response (ors_envelope response) = Ok (RespWritten (ds_len ?d))")
      case False
      then have "\<exists>x. upload_complete_write response r = (x, returned pos lease r) \<and> (x = Ok None \<or> (\<exists>e. x = Err e))"
        using Some lease rest slot
        by (cases "rs_response (ors_envelope response)")
          (auto simp: upload_complete_write_def Let_def eq split: Response.splits)
      then show ?thesis using back_home rinv lost_returned[OF inv pos] by blast
    next
      case True
      then have dg: "ds_generation ?d = upload_generation (ur_pipeline r)" by blast
      have "ul_active (ur_pipeline r) \<noteq> None"
        using i(3) True pos by (auto simp: writes_ok_def split: option.splits)
      then obtain s where s: "ul_active (ur_pipeline r) = Some s" by auto
      let ?r = "returned 0 lease r" and ?bytes = "take (unat (ds_len ?d)) (lease_bytes lease)"
      have d: "?d \<in> set ds" and gen: "lp_generation (ur_leases r) = upload_generation (ur_pipeline r)"
        using i(3) s pos nth_mem[OF pos] by (auto simp: writes_ok_def)
      have facts: "unat (ds_slot ?d) < 4" "0 < unat (ds_len ?d)" "unat (ds_len ?d) \<le> 3584"
        using held_facts[of ds "ul_pool (ur_pipeline r)" ?d] i(1) d by (auto simp: flow_inv_def)
      have len: "length (lease_bytes lease) = 3584" using acc by (simp only: lease_accepted_def)
      have four: "length (lp_buffers (ur_leases r)) = 4" using lendingD(1)[OF i(2)] by (simp add: leases_ok_def)
      have fits: "lease_fits ?d (ur_leases ?r)"
        using facts gen dg by (simp add: lease_fits_def)
      have ok: "leases_ok (ur_leases ?r)" using rinv True by (auto dest: runtime_invD(2) lendingD(1))
      have "lp_buffers (ur_leases ?r) ! unat (ds_slot ?d) = Some (lease_bytes lease)"
        using facts(1) four True by (simp add: returned_def)
      from lease_bytes_home[OF ok fits this]
      have bytes: "lease_bytes_of ?d (ur_leases ?r) = Ok ?bytes" .
      have notout: "\<forall>w\<in>set (ur_outstanding ?r). ow_descriptor w \<noteq> ?d"
        using outstanding_once[OF inv pos] True by (metis (no_types) image_eqI returned_fields(2))
      have block: "acknowledged_block response r = ?bytes"
        using Some lease True slot len by (auto simp: acknowledged_block_def confirms_write_def Let_def)
      have rinv0: "upload_runtime_inv ds D ?r" using rinv True by simp
      have run: "upload_complete_write response r =
          (case upload_complete_storage ?d ?bytes (ur_pipeline r) of (c, pl) \<Rightarrow> (map_err RuPipeline c, ?r\<lparr>ur_pipeline := pl\<rparr>))"
        using Some lease rest dg True bytes eq by (simp add: upload_complete_write_def Let_def)
      have blen: "length ?bytes = unat (ds_len ?d)" using len facts(3) by simp
      have s': "ul_active (ur_pipeline ?r) = Some s" using s by simp
      from rinv0 s' d notout blen show ?thesis
      proof (cases rule: stored_inv)
        case (stored es pl durable)
        then show ?thesis
          using that(3)[where lease = lease and pl = pl and c = "credit_message durable s" and s = s and durable = durable and d = ?d and es = es]
            run s lease True len facts(3) blen block pos by simp
      next
        case refused
        then show ?thesis
          using back_home[of "Err (RuPipeline BuWrongOffset)" 0 lease] run rinv0 lost_returned[OF inv pos, of lease] True
          by (simp add: returned_def)
      qed
    qed
  qed
qed

subsection \<open>Status, abort and finish\<close>

lemma upload_runtime_status_inv:
  assumes inv: "upload_runtime_inv ds D r"
  shows "upload_runtime_inv ds D (snd (upload_runtime_status sid r))"
proof (cases "is_ok (fst (upload_status sid (ur_pipeline r)))")
  case True
  then obtain s where s: "ul_active (ur_pipeline r) = Some s" "us_stream_id s = sid" "occupied (ul_pool (ur_pipeline r)) = 0"
    by (cases "ul_active (ur_pipeline r)") (auto simp: upload_status_def split: if_splits)
  then show ?thesis
    using inv upload_status_flow[of ds "ur_pipeline r" sid]
    by (simp add: upload_runtime_status_def upload_status_def Let_def upload_runtime_inv_def writes_ok_def out_slots_def
        upload_generation_def)
next
  case False
  then have "snd (upload_status sid (ur_pipeline r)) = ur_pipeline r"
    by (cases "ul_active (ur_pipeline r)") (auto simp: upload_status_def Let_def)
  then show ?thesis using inv by (simp add: upload_runtime_status_def case_prod_beta)
qed

lemma upload_runtime_status_frame:
  "ur_outstanding (snd (upload_runtime_status sid r)) = ur_outstanding r"
  "ul_active (ur_pipeline (snd (upload_runtime_status sid r))) = None \<longleftrightarrow> ul_active (ur_pipeline r) = None"
  by (cases "ul_active (ur_pipeline r)"; simp add: upload_runtime_status_def upload_status_def Let_def case_prod_beta)+

lemma upload_begin_abort_frame:
  "snd (upload_begin_abort sid r) = r \<or> ul_active (ur_pipeline (snd (upload_begin_abort sid r))) = None"
  by (cases "ul_active (ur_pipeline r)")
    (auto simp: upload_begin_abort_def upload_abort_def take_sequence_def Let_def)

lemma upload_begin_abort_inv:
  assumes inv: "upload_runtime_inv ds D r"
  shows "\<exists>es. upload_runtime_inv es D (snd (upload_begin_abort sid r))"
proof (cases "ur_pending_abort r \<noteq> None \<or> ur_pending_finish r \<noteq> None")
  case True
  then show ?thesis using inv by (auto simp: upload_begin_abort_def)
next
  case False
  note i = runtime_invD[OF inv]
  from i(1) show ?thesis
  proof (cases rule: upload_abort_cases[where sid = sid])
    case (aborted s p')
    have gens: "ds_generation (ow_descriptor w) \<noteq> bp_generation (ul_pool p')" if "w \<in> set (ur_outstanding r)" for w
    proof -
      have "ow_descriptor w \<in> set ds" using i(3) aborted(1) that by (simp add: writes_ok_def)
      then have "ds_generation (ow_descriptor w) = bp_generation (ul_pool (ur_pipeline r))"
        using held_facts(2) i(1) by (auto simp: flow_inv_def)
      then show ?thesis using aborted(7) next_id_neq(2) by metis
    qed
    have "ur_pending_open r = None" using i(3) aborted(1) by (simp add: writes_ok_def)
    then have "upload_runtime_inv [] D (r\<lparr>ur_pipeline := p', ur_leases := lease_invalidate (upload_generation p') (ur_leases r)\<rparr>)"
      using i(2) aborted(4,5) gens by (simp add: upload_runtime_inv_def writes_ok_def out_slots_def upload_generation_def)
    then show ?thesis
      using False aborted(3) by (auto simp: upload_begin_abort_def take_sequence_def Let_def)
  next
    case again
    have "upload_runtime_inv ds D (r\<lparr>ur_leases := lease_invalidate (upload_generation (ur_pipeline r)) (ur_leases r)\<rparr>)"
      using inv again(1) by (simp add: upload_runtime_inv_def writes_ok_def out_slots_def)
    then show ?thesis
      using False again(3) by (auto simp: upload_begin_abort_def take_sequence_def Let_def)
  next
    case (refused e)
    then show ?thesis using inv False by (auto simp: upload_begin_abort_def)
  qed
qed

lemma upload_complete_abort_inv: "upload_runtime_inv ds D r \<Longrightarrow> upload_runtime_inv ds D (snd (upload_complete_abort response r))"
  by (cases "ur_pending_abort r"; cases "require_ack response")
    (auto simp: upload_complete_abort_def validate_response_def)

lemma upload_complete_abort_frame [simp]:
  "ur_outstanding (snd (upload_complete_abort response r)) = ur_outstanding r"
  "ur_pipeline (snd (upload_complete_abort response r)) = ur_pipeline r"
  by (cases "ur_pending_abort r"; cases "require_ack response";
      auto simp: upload_complete_abort_def validate_response_def)+

lemma upload_begin_finish_cases:
  assumes inv: "upload_runtime_inv ds D r"
  obtains (finished) s r' where "ul_active (ur_pipeline r) = Some s" "us_stream_id s = sid" "ur_outstanding r = []"
      "length D = unat (us_total_size s)" "upload_runtime_inv [] D r'"
      "upload_begin_finish sid r = (Ok (owned_request (ur_next_sequence r)
        (if iso_hdlc D = us_expected_crc32 s then UploadCommit sid False else UploadAbort sid) None), r')"
      "ul_active (ur_pipeline r') = None" "ds = []"
  | (refused) e where "upload_begin_finish sid r = (Err e, r)"
proof (cases "ur_pending_finish r \<noteq> None \<or> ur_outstanding r \<noteq> []")
  case True
  then show ?thesis using refused by (auto simp: upload_begin_finish_def)
next
  case False
  note i = runtime_invD[OF inv]
  from i(1) show ?thesis
  proof (cases rule: upload_finish_cases[where sid = sid])
    case (finished s)
    let ?pl = "(ur_pipeline r)\<lparr>ul_active := None\<rparr>"
    have w: "length D = unat (us_total_size s)" "us_crc_state s = update (- 1) D"
      using i(3) finished(1,5) by (simp_all add: writes_ok_def)
    have "upload_runtime_inv [] D (r\<lparr>ur_pipeline := ?pl\<rparr>)"
      using i(2,3) finished(1,7) False by (simp add: upload_runtime_inv_def writes_ok_def out_slots_def)
    then show ?thesis
      using that(1)[OF finished(1,2), of "snd (upload_begin_finish sid r)"] False w finished(2,3,6)
      by (simp add: upload_begin_finish_def take_sequence_def Let_def iso_hdlc_def ones32)
  next
    case (refused e)
    then show ?thesis using that(2) False by (simp add: upload_begin_finish_def)
  qed
qed

lemma upload_complete_finish_inv: "upload_runtime_inv ds D r \<Longrightarrow> upload_runtime_inv ds D (snd (upload_complete_finish response r))"
  by (cases "ur_pending_finish r"; cases "require_ack response")
    (auto simp: upload_complete_finish_def validate_response_def)

lemma upload_complete_finish_frame [simp]:
  "ur_outstanding (snd (upload_complete_finish response r)) = ur_outstanding r"
  "ur_pipeline (snd (upload_complete_finish response r)) = ur_pipeline r"
  by (cases "ur_pending_finish r"; cases "require_ack response";
      auto simp: upload_complete_finish_def validate_response_def)+

subsection \<open>The runtime as a state machine\<close>

text \<open>
  Any call of the runtime, with any arguments and any response of the owner.  The second component of the state is the
  stored file: the blocks that the responses of the owner have acknowledged since the upload was opened, in order.
\<close>

inductive upload_run_step :: "BulkUploadRuntime \<times> bytes \<Rightarrow> BulkUploadRuntime \<times> bytes \<Rightarrow> bool" where
  begin_open: "upload_run_step (r, D) (snd (upload_begin_open q r), D)"
| complete_open: "upload_run_step (r, D)
    (snd (upload_complete_open response r), if is_ok (fst (upload_complete_open response r)) then [] else D)"
| admit: "upload_run_step (r, D) (snd (upload_runtime_admit frame r), D)"
| complete_write: "upload_run_step (r, D)
    (snd (upload_complete_write response r), D @ acknowledged_block response r)"
| status: "upload_run_step (r, D) (snd (upload_runtime_status sid r), D)"
| begin_abort: "upload_run_step (r, D) (snd (upload_begin_abort sid r), D)"
| complete_abort: "upload_run_step (r, D) (snd (upload_complete_abort response r), D)"
| begin_finish: "upload_run_step (r, D) (snd (upload_begin_finish sid r), D)"
| complete_finish: "upload_run_step (r, D) (snd (upload_complete_finish response r), D)"

inductive_cases upload_run_stepE: "upload_run_step (r, D) (r', D')"

definition upload_run_init :: "BulkUploadRuntime \<times> bytes \<Rightarrow> bool" where
  "upload_run_init s \<longleftrightarrow> (\<exists>leases. lending [] leases \<and> fst s = upload_from_lease_pool leases)"

lemma stored_invI: "upload_runtime_inv ds D r \<Longrightarrow> upload_stored_inv ds D r"
  by (auto simp: upload_stored_inv_def)

lemma stored_inv_inactive: "upload_runtime_inv ds C r \<Longrightarrow> ul_active (ur_pipeline r) = None \<Longrightarrow> upload_stored_inv ds D r"
  by (auto simp: upload_stored_inv_def)

lemma upload_complete_write_stored:
  assumes "upload_stored_inv ds D r"
  shows "\<exists>es. upload_stored_inv es (D @ acknowledged_block response r) (snd (upload_complete_write response r))"
proof -
  obtain C where inv: "upload_runtime_inv ds C r" and C: "ul_active (ur_pipeline r) \<noteq> None \<Longrightarrow> C = D \<or> lost_write ds r"
    using assms by (auto simp: upload_stored_inv_def)
  from inv show ?thesis
  proof (cases rule: upload_complete_write_cases[where response = response])
    case (unchanged e)
    then show ?thesis using assms by auto
  next
    case (back_home x pos lease)
    have "lost_write ds r \<Longrightarrow> lost_write ds (returned pos lease r)"
      using set_remove_at_subset[of pos "ur_outstanding r"] by (auto simp: lost_write_def)
    then have "upload_stored_inv ds (D @ acknowledged_block response r) (returned pos lease r)"
      using back_home(3,5) C by (auto simp: upload_stored_inv_def)
    then show ?thesis using back_home(1) by auto
  next
    case (stored s d lease c es pl durable)
    let ?r = "(returned 0 lease r)\<lparr>ur_pipeline := pl\<rparr>"
    have "lost_write ds r \<Longrightarrow> lost_write es ?r"
      using set_remove_at_subset[of 0 "ur_outstanding r"] stored(11,12) by (auto simp: lost_write_def)
    then have "upload_stored_inv es (D @ acknowledged_block response r) ?r"
      using stored(2,8,10) C by (auto simp: upload_stored_inv_def)
    then show ?thesis using stored(1) by auto
  qed
qed

lemma upload_complete_write_inv:
  assumes "upload_runtime_inv ds D r"
  shows "\<exists>es C. upload_runtime_inv es C (snd (upload_complete_write response r))"
  using upload_complete_write_stored[OF stored_invI[OF assms], of response] by (auto simp: upload_stored_inv_def)

lemma upload_admit_stored:
  assumes "upload_stored_inv ds D r"
  shows "\<exists>es. upload_stored_inv es D (snd (upload_runtime_admit frame r))"
proof -
  obtain C where inv: "upload_runtime_inv ds C r" and C: "ul_active (ur_pipeline r) \<noteq> None \<Longrightarrow> C = D \<or> lost_write ds r"
    using assms by (auto simp: upload_stored_inv_def)
  from inv show ?thesis
  proof (cases rule: upload_runtime_admit_cases[where frame = frame])
    case (admitted s d lease b r')
    have "held (ds @ [d]) (ul_pool (ur_pipeline r'))"
      using runtime_invD(1)[OF admitted(4)] by (simp add: flow_inv_def)
    then have "d \<notin> set ds" using heldD(1) by fastforce
    then have "lost_write ds r \<Longrightarrow> lost_write (ds @ [d]) r'"
      unfolding lost_write_def admitted(8) by auto
    then have "upload_stored_inv (ds @ [d]) D r'"
      using admitted(1,4) C by (auto simp: upload_stored_inv_def)
    then show ?thesis using admitted(3) by auto
  next
    case (refused e)
    then show ?thesis using assms by auto
  qed
qed

lemma upload_status_stored: "upload_stored_inv ds D r \<Longrightarrow> upload_stored_inv ds D (snd (upload_runtime_status sid r))"
  using upload_runtime_status_inv[of ds _ r sid] upload_runtime_status_frame[of sid r]
  by (auto simp: upload_stored_inv_def lost_write_def)

lemma upload_abort_stored:
  assumes "upload_stored_inv ds D r"
  shows "\<exists>es. upload_stored_inv es D (snd (upload_begin_abort sid r))"
proof (cases "snd (upload_begin_abort sid r) = r \<or> ul_active (ur_pipeline (snd (upload_begin_abort sid r))) = None")
  case True
  obtain C where "upload_runtime_inv ds C r" using assms by (auto simp: upload_stored_inv_def)
  then show ?thesis
    using True assms upload_begin_abort_inv[of ds C r sid] stored_inv_inactive by metis
next
  case False
  then show ?thesis using upload_begin_abort_frame[of sid r] by blast
qed

lemma upload_run_step_stored:
  assumes "upload_run_step (r, D) (r', D')" and inv: "upload_stored_inv ds D r"
  shows "\<exists>es. upload_stored_inv es D' r'"
proof -
  obtain C where run: "upload_runtime_inv ds C r" using inv by (auto simp: upload_stored_inv_def)
  from assms(1) show ?thesis
  proof cases
    case (begin_open q)
    then show ?thesis
      using inv stored_inv_inactive[of ds C r' D]
      by (cases rule: upload_begin_open_cases[OF run, of q]) (auto simp: upload_releasable_def upload_is_active_def)
  next
    case (complete_open response)
    then show ?thesis
      using inv by (cases rule: upload_complete_open_cases[OF run, of response]) (auto intro: stored_invI)
  next
    case (admit frame)
    then show ?thesis using upload_admit_stored[OF inv] by blast
  next
    case (complete_write response)
    then show ?thesis using upload_complete_write_stored[OF inv, of response] by simp
  next
    case (status sid)
    then show ?thesis using upload_status_stored[OF inv] by blast
  next
    case (begin_abort sid)
    then show ?thesis using upload_abort_stored[OF inv] by blast
  next
    case (complete_abort response)
    then show ?thesis
      using inv upload_complete_abort_inv[of ds _ r response] upload_complete_abort_frame[of response r]
      by (auto simp: upload_stored_inv_def lost_write_def)
  next
    case (begin_finish sid)
    then show ?thesis
      using inv by (cases rule: upload_begin_finish_cases[OF run, of sid]) (auto intro: stored_inv_inactive)
  next
    case (complete_finish response)
    then show ?thesis
      using inv upload_complete_finish_inv[of ds _ r response] upload_complete_finish_frame[of response r]
      by (auto simp: upload_stored_inv_def lost_write_def)
  qed
qed

lemma upload_run_step_inv:
  assumes "upload_run_step (r, D) (r', D')" and "upload_runtime_inv ds D r"
  shows "\<exists>es C. upload_runtime_inv es C r'"
  using upload_run_step_stored[OF assms(1) stored_invI[OF assms(2)]] by (auto simp: upload_stored_inv_def)

interpretation upload_run: machine upload_run_init upload_run_step "\<lambda>(r, D). \<exists>ds. upload_stored_inv ds D r"
proof
  show "case s of (r, D) \<Rightarrow> \<exists>ds. upload_stored_inv ds D r" if "upload_run_init s" for s
    using that runtime_new stored_invI by (fastforce simp: upload_run_init_def case_prod_beta)
  show "case t of (r, D) \<Rightarrow> \<exists>ds. upload_stored_inv ds D r"
    if "case s of (r, D) \<Rightarrow> \<exists>ds. upload_stored_inv ds D r" "upload_run_step s t" for s t
    using that upload_run_step_stored by (auto simp: case_prod_beta) (metis prod.collapse)
qed

text \<open>C1: A file is published only when it is complete and intact: if the runtime, after any sequence of calls and
  responses, starts to finish an upload, then the blocks that the owner's responses have acknowledged since the upload
  was opened (\<open>acknowledged_block\<close>: what the owner confirms as stored, whatever the runtime makes of it) have together
  the announced size, no write is outstanding, all four buffers are back, and the request sent to the owner is a
  commit if the CRC-32 of exactly those bytes is the announced one and an abort otherwise.\<close>

theorem upload_publishes_checked_file:
  assumes "reachable upload_run_init upload_run_step (r, D)" and "upload_begin_finish sid r = (Ok req, r')"
  shows "\<exists>s. ul_active (ur_pipeline r) = Some s \<and> us_stream_id s = sid \<and> length D = unat (us_total_size s) \<and>
    rq_request (orq_envelope req) =
      (if iso_hdlc D = us_expected_crc32 s then UploadCommit sid False else UploadAbort sid) \<and>
    ur_outstanding r = [] \<and> unat (lease_available (ur_leases r)) = TRANSFER_SLOT_COUNT"
proof -
  obtain ds C where inv: "upload_runtime_inv ds C r"
    and C: "ul_active (ur_pipeline r) \<noteq> None \<Longrightarrow> C = D \<or> lost_write ds r"
    using upload_run.reachable_inv[OF assms(1)] by (auto simp: upload_stored_inv_def)
  from inv show ?thesis
  proof (cases rule: upload_begin_finish_cases[where sid = sid])
    case (finished s r2)
    then have "C = D" using C by (simp add: lost_write_def)
    then show ?thesis
      using finished assms(2) lending_available[OF runtime_invD(2)[OF inv]] by (simp add: owned_request_def out_slots_def)
  next
    case (refused e)
    then show ?thesis using assms(2) by simp
  qed
qed

text \<open>Admitting a block never fails half way: in every reachable state a data frame is accepted exactly when the
  pipeline admits it, a refused frame changes nothing, and an accepted one is handed to the owner as a write of the
  frame's bytes at the frame's offset, in a buffer that starts with these bytes.\<close>

theorem upload_admit_hands_over:
  assumes "reachable upload_run_init upload_run_step (r, D)"
  shows "is_ok (fst (upload_runtime_admit frame r)) = (\<exists>s. ul_active (ur_pipeline r) = Some s \<and> admissible frame s) \<and>
    (case upload_runtime_admit frame r of
       (Ok req, r') \<Rightarrow> \<exists>len lease b. rq_request (orq_envelope req) =
           UploadWrite (bd_stream_id frame) (ucast (bd_offset frame)) 0 len (lease_slot lease) False \<and>
         unat len = length (bd_data frame) \<and> orq_buffer req = Some lease \<and> lease_bytes lease = bd_data frame @ b
     | (Err e, r') \<Rightarrow> r' = r \<and> (\<exists>p. e = RuPipeline p)
     | (Panic, r') \<Rightarrow> False)"
proof -
  obtain ds C where inv: "upload_runtime_inv ds C r" using upload_run.reachable_inv[OF assms] by (auto simp: upload_stored_inv_def)
  show ?thesis
    using inv
  proof (cases rule: upload_runtime_admit_cases[where frame = frame])
    case (admitted s d lease b r')
    then show ?thesis by (auto simp: owned_request_def)
  next
    case (refused e)
    then show ?thesis by auto
  qed
qed

text \<open>Buffers are neither lost nor lent twice: in every reachable state the buffers that are not in the pool are
  exactly those of the outstanding writes, which use different slots, and they have their full size; the runtime gives up
  the pool without a panic exactly when it is idle.\<close>

theorem upload_lease_conservation:
  assumes "reachable upload_run_init upload_run_step (r, D)"
  shows "distinct (out_slots r) \<and> (\<forall>i<4. at_home (ur_leases r) i = (i \<notin> set (out_slots r))) \<and>
    (\<forall>b. Some b \<in> set (lp_buffers (ur_leases r)) \<longrightarrow> length b = TRANSFER_DATA_BYTES) \<and>
    upload_releasable r = (ur_pending_open r = None \<and> ur_pending_finish r = None \<and> ur_pending_abort r = None \<and>
      ul_active (ur_pipeline r) = None \<and> ur_outstanding r = [])"
proof -
  obtain ds C where inv: "upload_runtime_inv ds C r" using upload_run.reachable_inv[OF assms] by (auto simp: upload_stored_inv_def)
  note l = runtime_invD(2)[OF inv]
  have "\<forall>b. Some b \<in> set (lp_buffers (ur_leases r)) \<longrightarrow> length b = TRANSFER_DATA_BYTES"
    using lendingD(1)[OF l] by (simp add: leases_ok_def)
  then show ?thesis
    using lendingD(2,4)[OF l] lending_available[OF l]
    by (auto simp: upload_releasable_def upload_is_active_def out_slots_def)
qed

subsection \<open>A concrete upload\<close>

definition sample_open_request :: StoreBulkOpenRequest where
  "sample_open_request = \<lparr>obr_direction = Td_Upload, obr_backend = Sb_Sd, obr_requested_window = 1, obr_requested_chunk = 512,
    obr_name = [97], obr_total_size = 1, obr_expected_crc32 = 0\<rparr>"

definition sample_opened :: BulkUploadRuntime where
  "sample_opened = snd (upload_complete_open (sample_response 500000 (UploadStarted 7) None)
    (snd (upload_begin_open sample_open_request (upload_from_lease_pool sample_leases))))"

definition sample_data :: StoreBulkData where
  "sample_data = \<lparr>bd_stream_id = 7, bd_offset = 0, bd_end_of_data = True, bd_data = [42]\<rparr>"

definition sample_admitted :: BulkUploadRuntime where
  "sample_admitted = snd (upload_runtime_admit sample_data sample_opened)"

definition sample_lease :: BufferLease where
  "sample_lease = \<lparr>lease_slot = Bulk0, lease_bytes = 42 # drop 1 sample_block\<rparr>"

definition sample_written :: BulkUploadRuntime where
  "sample_written = snd (upload_complete_write (sample_response 500001 (RespWritten 1) (Some sample_lease)) sample_admitted)"

lemma sample_opened_eq: "sample_opened = \<lparr>ur_pipeline = \<lparr>ul_pool = snd (begin_session BulkSlotPool_new),
    ul_active = Some \<lparr>us_stream_id = 7, us_total_size = 1, us_expected_crc32 = 0, us_chunk_size = 512, us_window = 1,
      us_sender_credits = 1, us_pending_credits = 0, us_admitted_offset = 0, us_durable_offset = 0, us_crc_state = - 1,
      us_end_seen = False\<rparr>, ul_aborted_tombstone = None\<rparr>,
    ur_leases = sample_leases\<lparr>lp_generation := 1\<rparr>, ur_pending_open = None, ur_pending_finish = None, ur_pending_abort = None,
    ur_outstanding = [], ur_next_sequence = 500001\<rparr>"
  by (simp add: sample_opened_def sample_open_request_def sample_response_def upload_begin_open_def upload_complete_open_def
      upload_from_lease_pool_def sample_leases_def upload_is_active_def BulkUploadPipeline_new_def
      select_chunk_def select_window_def StorageName_new_def take_sequence_def FIRST_SEQUENCE_def validate_response_def
      upload_open_def upload_generation_def Let_def next_id_def begin_session_def pool_invalidate_def BulkSlotPool_new_def
      lease_begin_session_def BulkLeasePool_new_def lease_available_def)

definition sample_descriptor :: BulkSlotDescriptor where
  "sample_descriptor = \<lparr>ds_slot = 0, ds_generation = 1, ds_offset = 0, ds_len = 1, ds_direction = Td_Upload\<rparr>"

definition sample_free :: BulkSlot where
  "sample_free = \<lparr>sl_generation = 1, sl_offset = 0, sl_len = 0, sl_direction = Td_Unspecified, sl_state = SlFree\<rparr>"

lemma sample_admitted_eq: "sample_admitted = \<lparr>ur_pipeline = \<lparr>ul_pool = \<lparr>bp_slots = [\<lparr>sl_generation = 1, sl_offset = 0,
        sl_len = 1, sl_direction = Td_Upload, sl_state = SlStorageOwned\<rparr>, sample_free, sample_free, sample_free],
        bp_generation = 1, bp_peak_occupied = 1\<rparr>,
    ul_active = Some \<lparr>us_stream_id = 7, us_total_size = 1, us_expected_crc32 = 0, us_chunk_size = 512, us_window = 1,
      us_sender_credits = 0, us_pending_credits = 0, us_admitted_offset = 1, us_durable_offset = 0, us_crc_state = - 1,
      us_end_seen = True\<rparr>, ul_aborted_tombstone = None\<rparr>,
    ur_leases = \<lparr>lp_buffers = [None, Some sample_block, Some sample_block, Some sample_block], lp_generation = 1\<rparr>,
    ur_pending_open = None, ur_pending_finish = None, ur_pending_abort = None,
    ur_outstanding = [\<lparr>ow_sequence = 500001, ow_descriptor = sample_descriptor\<rparr>], ur_next_sequence = 500002\<rparr>"
  by (simp add: sample_admitted_def sample_opened_eq sample_data_def upload_runtime_admit_def upload_admit_def
      claim_upload_def checked_add_def occupied_def begin_session_def pool_invalidate_def BulkSlotPool_new_def
      lease_write_def lease_validate_def lease_buffer_def lease_take_def sample_leases_def BulkLeasePool_new_def
      upload_take_for_storage_def take_upload_for_storage_def validate_mut_def pool_validate_def slot_descriptor_def
      slot_reset_def BulkSlot_new_def replicate_4 update_peak_def put_def overwrite_def byte_at_def
      take_sequence_def next_id_def BufferSlot_bulk_def Let_def saturating_sub_def set_slot_def
      sample_descriptor_def sample_free_def)

lemma sample_written_eq: "ur_outstanding sample_written = []" "ur_pending_finish sample_written = None"
    "ur_pipeline sample_written = \<lparr>ul_pool = \<lparr>bp_slots = [sample_free, sample_free, sample_free, sample_free],
        bp_generation = 1, bp_peak_occupied = 1\<rparr>,
      ul_active = Some \<lparr>us_stream_id = 7, us_total_size = 1, us_expected_crc32 = 0, us_chunk_size = 512, us_window = 1,
        us_sender_credits = 1, us_pending_credits = 0, us_admitted_offset = 1, us_durable_offset = 1,
        us_crc_state = update (- 1) [42], us_end_seen = True\<rparr>, ul_aborted_tombstone = None\<rparr>"
  by (simp_all add: sample_written_def sample_admitted_eq upload_complete_write_def sample_response_def sample_descriptor_def
      sample_lease_def lease_restore_def upload_generation_def remove_at_def lease_bytes_of_def lease_validate_def
      lease_buffer_def bytes_at_def subslice_def upload_complete_storage_def complete_upload_def validate_mut_def
      pool_validate_def slot_descriptor_def checked_add_def set_slot_def slot_reset_def sample_free_def
      saturating_add_def Let_def del: update.simps)

lemma sample_written_reachable: "\<exists>D. reachable upload_run_init upload_run_step (sample_written, D)"
proof -
  let ?r0 = "upload_from_lease_pool sample_leases"
  let ?r1 = "snd (upload_begin_open sample_open_request ?r0)"
  have "reachable upload_run_init upload_run_step (?r0, [])"
    using sample_lending by (intro reachable.initial) (auto simp: upload_run_init_def)
  then have "reachable upload_run_init upload_run_step (?r1, [])"
    by (rule reachable.followed) (rule upload_run_step.begin_open)
  from reachable.followed[OF this upload_run_step.complete_open[of _ _ "sample_response 500000 (UploadStarted 7) None"]]
  obtain D where opened: "reachable upload_run_init upload_run_step (sample_opened, D)" unfolding sample_opened_def by blast
  from reachable.followed[OF this upload_run_step.admit[of _ _ sample_data]]
  have "reachable upload_run_init upload_run_step (sample_admitted, D)" unfolding sample_admitted_def .
  from reachable.followed[OF this
      upload_run_step.complete_write[of _ _ "sample_response 500001 (RespWritten 1) (Some sample_lease)"]]
  show ?thesis unfolding sample_written_def by blast
qed

theorem upload_publishes_checked_file_witness:
  "\<exists>D req r'. upload_begin_finish 7 sample_written = (Ok req, r') \<and> length D = 1 \<and>
    rq_request (orq_envelope req) = (if iso_hdlc D = 0 then UploadCommit 7 False else UploadAbort 7)"
proof -
  obtain D where D: "reachable upload_run_init upload_run_step (sample_written, D)" using sample_written_reachable by blast
  have "\<exists>req r'. upload_begin_finish 7 sample_written = (Ok req, r')"
    by (simp add: upload_begin_finish_def sample_written_eq upload_finish_def occupied_def sample_free_def Let_def
        take_sequence_def del: update.simps)
  then obtain req r' where run: "upload_begin_finish 7 sample_written = (Ok req, r')" by blast
  have s: "ul_active (ur_pipeline sample_written) = Some (the (ul_active (ur_pipeline sample_written)))"
    "us_total_size (the (ul_active (ur_pipeline sample_written))) = 1"
    "us_expected_crc32 (the (ul_active (ur_pipeline sample_written))) = 0"
    by (simp_all add: sample_written_eq)
  from upload_publishes_checked_file[OF D run] s
  have "length D = 1 \<and> rq_request (orq_envelope req) = (if iso_hdlc D = 0 then UploadCommit 7 False else UploadAbort 7)"
    by auto
  with run show ?thesis by blast
qed

theorem upload_admit_hands_over_witness:
  "is_ok (fst (upload_runtime_admit sample_data sample_opened))"
proof -
  have "reachable upload_run_init upload_run_step (upload_from_lease_pool sample_leases, [])"
    using sample_lending by (intro reachable.initial) (auto simp: upload_run_init_def)
  from reachable.followed[OF reachable.followed[OF this upload_run_step.begin_open[of _ _ sample_open_request]]
      upload_run_step.complete_open[of _ _ "sample_response 500000 (UploadStarted 7) None"]]
  obtain D where "reachable upload_run_init upload_run_step (sample_opened, D)" unfolding sample_opened_def by blast
  from upload_admit_hands_over[OF this, of sample_data] show ?thesis
    by (simp add: sample_opened_eq admissible_def sample_data_def)
qed

theorem upload_lease_conservation_witness:
  "\<exists>D. reachable upload_run_init upload_run_step (sample_written, D) \<and> distinct (out_slots sample_written)"
proof -
  obtain D where D: "reachable upload_run_init upload_run_step (sample_written, D)" using sample_written_reachable by blast
  from upload_lease_conservation[OF this] D show ?thesis by blast
qed

end
