(* ===== verification/Bulk_Readback.thy ===== *)
theory Bulk_Readback
  imports Bulk_Upload
begin

text \<open>
  The readback pipeline of a streaming transfer (\<^verbatim>\<open>binbook-fw/src/bulk_readback_types.rs\<close>,
  \<^verbatim>\<open>bulk_readback_pipeline.rs\<close>): blocks are reserved in file order, read by the storage owner, sent to the host and
  released by its credits.  The queue of the blocks in flight tiles the file between the durable offset (what the host has
  acknowledged) and the produced one.
\<close>

datatype BulkReadbackError =
    BrActive | BrInactive | BrWrongStream | BrWrongOffset | BrLength | BrCredit | BrStatus | BrBusy | BrIncomplete
  | BrSlot BulkSlotError

record ReadbackSession =
  rb_stream_id :: u32
  rb_total_size :: u32
  rb_chunk_size :: u16
  rb_window :: u8
  rb_produced_offset :: u32
  rb_durable_offset :: u32
  rb_crc_state :: u32

record BulkReadbackPipeline =
  rp_pool :: BulkSlotPool
  rp_queued :: "BulkSlotDescriptor list"
  rp_active :: "ReadbackSession option"
  rp_aborted_tombstone :: "u32 option"

definition BulkReadbackPipeline_new :: BulkReadbackPipeline where
  "BulkReadbackPipeline_new =
    \<lparr>rp_pool = BulkSlotPool_new, rp_queued = [], rp_active = None, rp_aborted_tombstone = None\<rparr>"

definition readback_open ::
    "u32 \<Rightarrow> u32 \<Rightarrow> u16 \<Rightarrow> u8 \<Rightarrow> BulkReadbackPipeline \<Rightarrow> (u8, BulkReadbackError) res \<times> BulkReadbackPipeline" where
  "readback_open stream_id total_size chunk_size window p =
    (if rp_active p \<noteq> None then (Err BrActive, p)
     else if stream_id = 0 \<or> total_size = 0 \<or> chunk_size = 0 \<or> unat chunk_size > TRANSFER_DATA_BYTES \<or> window = 0 \<or>
       unat window > TRANSFER_SLOT_COUNT
     then (Err BrLength, p)
     else
       let p = p\<lparr>rp_pool := snd (begin_session (rp_pool p)), rp_queued := [], rp_aborted_tombstone := None,
         rp_active := Some \<lparr>rb_stream_id = stream_id, rb_total_size = total_size, rb_chunk_size = chunk_size,
           rb_window = window, rb_produced_offset = 0, rb_durable_offset = 0, rb_crc_state = - 1\<rparr>\<rparr>
       in (Ok window, p))"

definition reserve_next :: "BulkReadbackPipeline \<Rightarrow> (BulkSlotDescriptor, BulkReadbackError) res \<times> BulkReadbackPipeline" where
  "reserve_next p =
    on_ok (ok_or BrInactive (rp_active p)) p (\<lambda>s.
    if rb_produced_offset s = rb_total_size s then (Err BrIncomplete, p)
    else if length (rp_queued p) \<ge> unat (rb_window s) then (Err (BrSlot SeFull), p)
    else
      let remaining = rb_total_size s - rb_produced_offset s;
          len = ucast (min remaining (ucast (rb_chunk_size s))) :: u16;
          (r, pool) = reserve_read (rb_produced_offset s) len (rp_pool p);
          p = p\<lparr>rp_pool := pool\<rparr> in
      on_ok (map_err BrSlot r) p (\<lambda>descriptor.
      if length (rp_queued p) \<ge> TRANSFER_SLOT_COUNT then (Err (BrSlot SeFull), p)
      else
        let s = s\<lparr>rb_produced_offset := rb_produced_offset s + ucast len\<rparr> in
        (Ok descriptor, p\<lparr>rp_queued := rp_queued p @ [descriptor], rp_active := Some s\<rparr>)))"

definition readback_complete_read ::
    "BulkSlotDescriptor \<Rightarrow> BulkReadbackPipeline \<Rightarrow> (unit, BulkReadbackError) res \<times> BulkReadbackPipeline" where
  "readback_complete_read d p =
    (if rp_active p = None then (Err BrInactive, p)
     else let (r, pool) = pool_complete_read d (rp_pool p) in (map_err BrSlot r, p\<lparr>rp_pool := pool\<rparr>))"

definition mark_sent ::
    "BulkSlotDescriptor \<Rightarrow> bytes \<Rightarrow> BulkReadbackPipeline \<Rightarrow> (StoreBulkData, BulkReadbackError) res \<times> BulkReadbackPipeline" where
  "mark_sent d data p =
    on_ok (ok_or BrInactive (rp_active p)) p (\<lambda>s.
    if list_all (\<lambda>q. q \<noteq> d) (rp_queued p) then (Err BrWrongOffset, p)
    else if length data \<noteq> unat (ds_len d) then (Err BrLength, p)
    else
      let (r, pool) = mark_awaiting_ack d (rp_pool p); p = p\<lparr>rp_pool := pool\<rparr> in
      on_ok (map_err BrSlot r) p (\<lambda>_.
      let end_offset = ds_offset d + ucast (ds_len d) in
      (Ok \<lparr>bd_stream_id = rb_stream_id s, bd_offset = ds_offset d, bd_end_of_data = (end_offset = rb_total_size s),
           bd_data = data\<rparr>, p)))"

text \<open>The loop of \<open>apply_credit\<close> over the acknowledged blocks.\<close>

fun ack_loop ::
    "(BulkSlotDescriptor \<times> bytes) list \<Rightarrow> BulkReadbackPipeline \<Rightarrow> (unit, BulkReadbackError) res \<times> BulkReadbackPipeline" where
  "ack_loop [] p = (Ok (), p)"
| "ack_loop ((d, bytes) # rest) p =
    (if length bytes \<noteq> unat (ds_len d) then (Err BrLength, p)
     else
       let p = p\<lparr>rp_active := map_option (\<lambda>s. s\<lparr>rb_crc_state := update (rb_crc_state s) bytes\<rparr>) (rp_active p)\<rparr>;
           (r, pool) = ack_read d (rp_pool p); p = p\<lparr>rp_pool := pool\<rparr> in
       on_ok (map_err BrSlot r) p (\<lambda>_. ack_loop rest (p\<lparr>rp_queued := tl (rp_queued p)\<rparr>)))"

definition readback_apply_credit ::
    "StoreBulkCredit \<Rightarrow> bytes list \<Rightarrow> BulkReadbackPipeline \<Rightarrow> (unit, BulkReadbackError) res \<times> BulkReadbackPipeline" where
  "readback_apply_credit credit acknowledged p =
    on_ok (ok_or BrInactive (rp_active p)) p (\<lambda>s.
    if bc_stream_id credit \<noteq> rb_stream_id s then (Err BrWrongStream, p)
    else if bc_status credit \<noteq> St_Ok \<or> bc_credits credit = 0 then (Err BrStatus, p)
    else
      let count = unat (bc_credits credit) in
      if count > length (rp_queued p) \<or> count > unat (rb_window s) then (Err BrCredit, p)
      else if length acknowledged \<noteq> count then (Err BrCredit, p)
      else
        let descriptors = take count (rp_queued p) in
        if length descriptors \<noteq> count \<or>
          list_ex (\<lambda>d. pool_state (ds_slot d) (rp_pool p) \<noteq> Ok SlAwaitingAck) descriptors
        then (Err BrCredit, p)
        else
          on_ok (ok_or BrCredit (if descriptors = [] then None
              else Some (ds_offset (last descriptors) + ucast (ds_len (last descriptors))))) p (\<lambda>expected.
          if bc_durable_offset credit \<noteq> expected then (Err BrWrongOffset, p)
          else
            let (r, p) = ack_loop (zip descriptors acknowledged) p in
            on_ok r p (\<lambda>_.
            (Ok (), p\<lparr>rp_active := map_option (\<lambda>s. s\<lparr>rb_durable_offset := expected\<rparr>) (rp_active p)\<rparr>))))"

definition readback_status ::
    "u32 \<Rightarrow> BulkReadbackPipeline \<Rightarrow> (StoreBulkStatusResponse, BulkReadbackError) res \<times> BulkReadbackPipeline" where
  "readback_status stream_id p =
    on_ok (ok_or BrInactive (rp_active p)) p (\<lambda>s.
    if stream_id \<noteq> rb_stream_id s then (Err BrWrongStream, p)
    else
      let s = s\<lparr>rb_produced_offset := rb_durable_offset s\<rparr>;
          p = p\<lparr>rp_pool := snd (abort_session (rp_pool p)), rp_queued := [], rp_active := Some s\<rparr> in
      (Ok \<lparr>bs_stream_id = stream_id, bs_direction = Td_Readback, bs_state = Bs_Receiving,
           bs_available_credits = rb_window s, bs_durable_offset = rb_durable_offset s, bs_total_size = rb_total_size s,
           bs_running_crc32 = (if rb_durable_offset s = 0 then 0 else NOT (rb_crc_state s))\<rparr>, p))"

definition readback_finish ::
    "u32 \<Rightarrow> BulkReadbackPipeline \<Rightarrow> (StoreBulkFinishResponse, BulkReadbackError) res \<times> BulkReadbackPipeline" where
  "readback_finish stream_id p =
    on_ok (ok_or BrInactive (rp_active p)) p (\<lambda>s.
    if stream_id \<noteq> rb_stream_id s then (Err BrWrongStream, p)
    else if rp_queued p \<noteq> [] \<or> rb_durable_offset s \<noteq> rb_total_size s then (Err BrIncomplete, p)
    else
      (Ok \<lparr>bf_stream_id = stream_id, bf_result = Uc_Ok, bf_total_bytes = rb_total_size s,
           bf_computed_crc32 = NOT (rb_crc_state s)\<rparr>, p\<lparr>rp_active := None\<rparr>))"

definition readback_abort :: "u32 \<Rightarrow> BulkReadbackPipeline \<Rightarrow> (unit, BulkReadbackError) res \<times> BulkReadbackPipeline" where
  "readback_abort stream_id p =
    (case rp_active p of
       Some s \<Rightarrow>
         if rb_stream_id s = stream_id
         then (Ok (), p\<lparr>rp_pool := snd (abort_session (rp_pool p)), rp_queued := [], rp_active := None,
                 rp_aborted_tombstone := Some stream_id\<rparr>)
         else (Err BrWrongStream, p)
     | None \<Rightarrow> if rp_aborted_tombstone p = Some stream_id then (Ok (), p) else (Err BrWrongStream, p))"

definition readback_produced_offset :: "BulkReadbackPipeline \<Rightarrow> u32" where
  "readback_produced_offset p = (case rp_active p of None \<Rightarrow> 0 | Some s \<Rightarrow> rb_produced_offset s)"

definition readback_durable_offset :: "BulkReadbackPipeline \<Rightarrow> u32" where
  "readback_durable_offset p = (case rp_active p of None \<Rightarrow> 0 | Some s \<Rightarrow> rb_durable_offset s)"

definition readback_generation :: "BulkReadbackPipeline \<Rightarrow> u32" where
  "readback_generation p = bp_generation (rp_pool p)"

definition readback_is_active :: "BulkReadbackPipeline \<Rightarrow> bool" where
  "readback_is_active p = (rp_active p \<noteq> None)"

definition readback_stream_id :: "BulkReadbackPipeline \<Rightarrow> u32 option" where
  "readback_stream_id p = (case rp_active p of Some s \<Rightarrow> Some (rb_stream_id s) | None \<Rightarrow> rp_aborted_tombstone p)"

subsection \<open>The flow invariant\<close>

definition read_session_ok :: "ReadbackSession \<Rightarrow> bool" where
  "read_session_ok s \<longleftrightarrow> rb_stream_id s \<noteq> 0 \<and> 0 < unat (rb_total_size s) \<and> 0 < unat (rb_chunk_size s) \<and>
    unat (rb_chunk_size s) \<le> 3584 \<and> 0 < unat (rb_window s) \<and> unat (rb_window s) \<le> 4 \<and>
    unat (rb_produced_offset s) \<le> unat (rb_total_size s)"

definition read_flow :: "BulkReadbackPipeline \<Rightarrow> bool" where
  "read_flow p \<longleftrightarrow> pool_ok (rp_pool p) \<and> held (rp_queued p) (rp_pool p) \<and>
    (\<forall>d\<in>set (rp_queued p). ds_direction d = Td_Readback) \<and>
    (case rp_active p of
       None \<Rightarrow> rp_queued p = []
     | Some s \<Rightarrow> read_session_ok s \<and> length (rp_queued p) \<le> unat (rb_window s) \<and>
         tiling (unat (rb_durable_offset s)) (rp_queued p) (unat (rb_produced_offset s)))"

lemma read_flow_new: "read_flow BulkReadbackPipeline_new"
  by (simp add: read_flow_def BulkReadbackPipeline_new_def pool_new_ok held_Nil)

lemma read_flow_active:
  assumes "read_flow p" and "rp_active p = Some s"
  shows "pool_ok (rp_pool p)" "held (rp_queued p) (rp_pool p)" "read_session_ok s"
    "\<forall>d\<in>set (rp_queued p). ds_direction d = Td_Readback" "length (rp_queued p) \<le> unat (rb_window s)"
    "tiling (unat (rb_durable_offset s)) (rp_queued p) (unat (rb_produced_offset s))"
  using assms by (auto simp: read_flow_def)

subsection \<open>The operations\<close>

lemma readback_open_cases:
  assumes "read_flow p"
  obtains (opened) p' s where "readback_open sid tot chunk window p = (Ok window, p')" "read_flow p'" "rp_queued p' = []"
      "rp_active p = None" "rp_active p' = Some s" "rb_stream_id s = sid" "rb_total_size s = tot"
      "rb_durable_offset s = 0" "rb_crc_state s = - 1" "bp_generation (rp_pool p') = next_id (bp_generation (rp_pool p))"
  | (refused) e where "readback_open sid tot chunk window p = (Err e, p)"
      "rp_active p = None \<longrightarrow> sid = 0 \<or> tot = 0 \<or> chunk = 0 \<or> unat chunk > 3584 \<or> window = 0 \<or> unat window > 4"
proof (cases "rp_active p = None \<and> \<not> (sid = 0 \<or> tot = 0 \<or> chunk = 0 \<or> unat chunk > 3584 \<or> window = 0 \<or> unat window > 4)")
  case True
  let ?p = "snd (readback_open sid tot chunk window p)"
  have "read_flow ?p"
    using True assms invalidate_spec[of "rp_pool p"]
    by (auto simp: readback_open_def Let_def read_flow_def read_session_ok_def held_Nil begin_session_def unat_gt_0)
  then show ?thesis
    using True invalidate_spec[of "rp_pool p"]
    by (intro opened[of ?p "the (rp_active ?p)"]) (simp_all add: readback_open_def Let_def begin_session_def)
next
  case False
  then have "\<exists>e. readback_open sid tot chunk window p = (Err e, p)" by (auto simp: readback_open_def)
  then show ?thesis using False refused by blast
qed

text \<open>The length of the next block.\<close>

lemma next_block_length:
  fixes remaining :: u32 and chunk :: u16
  assumes "0 < unat remaining" and "0 < unat chunk" and "unat chunk \<le> 3584"
  shows "unat (ucast (min remaining (ucast chunk)) :: u16) = min (unat remaining) (unat chunk)"
proof -
  have m: "unat (min remaining (ucast chunk)) = min (unat remaining) (unat chunk)" by (simp add: unat_min)
  then have "unat (min remaining (ucast chunk)) < 65536" using assms(3) by simp
  then show ?thesis using m by (simp add: unsigned_ucast_eq take_bit_nat_eq_self)
qed

lemma reserve_next_cases:
  assumes flow: "read_flow p"
  obtains (reserved) s d p' where "reserve_next p = (Ok d, p')" "read_flow p'" "rp_active p = Some s"
      "rp_active p' = Some (s\<lparr>rb_produced_offset := rb_produced_offset s + ucast (ds_len d)\<rparr>)"
      "rp_queued p' = rp_queued p @ [d]" "ds_offset d = rb_produced_offset s"
      "bp_generation (rp_pool p') = bp_generation (rp_pool p)" "claims (rp_pool p) (unat (ds_slot d)) = None"
      "claims (rp_pool p') = (claims (rp_pool p))(unat (ds_slot d) \<mapsto> (d, SlStorageOwned))"
  | (refused) e where "reserve_next p = (Err e, p)"
      "\<forall>s. rp_active p = Some s \<longrightarrow> rb_produced_offset s = rb_total_size s \<or> length (rp_queued p) \<ge> unat (rb_window s)"
proof (cases "\<exists>s. rp_active p = Some s \<and> rb_produced_offset s \<noteq> rb_total_size s \<and> length (rp_queued p) < unat (rb_window s)")
  case False
  then have "\<exists>e. reserve_next p = (Err e, p)"
    by (cases "rp_active p") (auto simp: reserve_next_def)
  moreover have "\<forall>s. rp_active p = Some s \<longrightarrow> rb_produced_offset s = rb_total_size s \<or> length (rp_queued p) \<ge> unat (rb_window s)"
    using False by (auto simp: not_less)
  ultimately show ?thesis using refused by blast
next
  case True
  then obtain s where s: "rp_active p = Some s" "rb_produced_offset s \<noteq> rb_total_size s" "length (rp_queued p) < unat (rb_window s)"
    by blast
  note f = read_flow_active[OF flow s(1)]
  have bounds: "unat (rb_produced_offset s) < unat (rb_total_size s)" "0 < unat (rb_chunk_size s)" "unat (rb_chunk_size s) \<le> 3584"
    "unat (rb_window s) \<le> 4"
    using f(3) s(2) by (auto simp: read_session_ok_def word_unat_eq_iff)
  have remaining: "unat (rb_total_size s - rb_produced_offset s) = unat (rb_total_size s) - unat (rb_produced_offset s)"
    using bounds(1) by (simp add: unat_sub word_le_nat_alt)
  define len :: u16 where "len = ucast (min (rb_total_size s - rb_produced_offset s) (ucast (rb_chunk_size s)))"
  have len: "unat len = min (unat (rb_total_size s) - unat (rb_produced_offset s)) (unat (rb_chunk_size s))"
    unfolding len_def using next_block_length[OF _ bounds(2,3), of "rb_total_size s - rb_produced_offset s"] bounds(1) remaining by simp
  have pos: "0 < unat len" "unat len \<le> 3584" "unat (rb_produced_offset s) + unat len \<le> unat (rb_total_size s)"
    using len bounds by simp_all
  have "card (dom (claims (rp_pool p))) < 4" using held_count(1)[OF f(2,1)] s(3) bounds(4) by (simp add: occupied_claims[OF f(1)])
  then have room: "dom (claims (rp_pool p)) \<noteq> {..<4}" by auto
  have nz: "len \<noteq> 0" using pos(1) by auto
  obtain r pool where rp: "reserve_read (rb_produced_offset s) len (rp_pool p) = (r, pool)" by fastforce
  then obtain d where d: "r = Ok d" "claims (rp_pool p) (unat (ds_slot d)) = None" "ds_offset d = rb_produced_offset s"
      "ds_len d = len" "ds_direction d = Td_Readback" "pool_ok pool" "bp_generation pool = bp_generation (rp_pool p)"
      "claims pool = (claims (rp_pool p))(unat (ds_slot d) \<mapsto> (d, SlStorageOwned))"
    using reserve_read_effect[OF f(1), of "rb_produced_offset s" len] room pos nz by (auto simp: claim_effect_def)
  let ?s = "s\<lparr>rb_produced_offset := rb_produced_offset s + ucast (ds_len d)\<rparr>"
  let ?p = "p\<lparr>rp_pool := pool, rp_queued := rp_queued p @ [d], rp_active := Some ?s\<rparr>"
  have "unat (rb_produced_offset s) + unat (ucast len :: u32) < 2 ^ 32"
    using pos(3) unat_u32_less[of "rb_total_size s"] by simp
  from unat_add_small[of "rb_produced_offset s" "ucast len"] this
  have add: "unat (rb_produced_offset s + ucast len) = unat (rb_produced_offset s) + unat len" by simp
  have "held (rp_queued p @ [d]) pool" by (rule held_claim[OF f(2) d(2,8)])
  then have "read_flow ?p"
    using d f s(3) add pos(3) by (simp add: read_flow_def read_session_ok_def tiling_snoc)
  moreover have "reserve_next p = (Ok d, ?p)"
    using s rp d bounds(4) len_def by (simp add: reserve_next_def Let_def)
  ultimately show ?thesis using reserved[of d ?p s] s(1) d by simp
qed

lemma read_flow_moved:
  assumes "read_flow p" and "d \<in> set (rp_queued p)" and "pool_ok pool"
    and "claims pool = (claims (rp_pool p))(unat (ds_slot d) \<mapsto> (d, st))"
  shows "read_flow (p\<lparr>rp_pool := pool\<rparr>)"
  using assms held_move[of "rp_queued p" "rp_pool p" d pool st] by (simp add: read_flow_def cong: option.case_cong)

lemma readback_complete_read_cases:
  assumes flow: "read_flow p"
  obtains (completed) pool where "readback_complete_read d p = (Ok (), p\<lparr>rp_pool := pool\<rparr>)" "read_flow (p\<lparr>rp_pool := pool\<rparr>)"
      "rp_active p \<noteq> None" "d \<in> set (rp_queued p)" "claims (rp_pool p) (unat (ds_slot d)) = Some (d, SlStorageOwned)"
      "claims pool = (claims (rp_pool p))(unat (ds_slot d) \<mapsto> (d, SlTxReady))" "bp_generation pool = bp_generation (rp_pool p)"
  | (refused) e where "readback_complete_read d p = (Err e, p)"
      "\<not> (d \<in> set (rp_queued p) \<and> claims (rp_pool p) (unat (ds_slot d)) = Some (d, SlStorageOwned))"
proof -
  have ok: "pool_ok (rp_pool p)" and held: "held (rp_queued p) (rp_pool p)" using flow by (simp_all add: read_flow_def)
  obtain r pool where rp: "pool_complete_read d (rp_pool p) = (r, pool)" by fastforce
  note e = pool_complete_read_effect[OF ok, of d, unfolded rp move_effect_def prod.case]
  show ?thesis
  proof (cases "claims (rp_pool p) (unat (ds_slot d)) = Some (d, SlStorageOwned) \<and> ds_direction d = Td_Readback \<and> rp_active p \<noteq> None")
    case True
    then have q: "d \<in> set (rp_queued p)" using held_claimed[OF held] by blast
    then show ?thesis
      using completed[of pool] True e rp read_flow_moved[OF flow q, of pool SlTxReady] by (simp add: readback_complete_read_def)
  next
    case False
    have "\<exists>e. readback_complete_read d p = (Err e, p)"
      using False e rp by (cases "rp_active p = None") (auto simp: readback_complete_read_def)
    moreover have "\<not> (d \<in> set (rp_queued p) \<and> claims (rp_pool p) (unat (ds_slot d)) = Some (d, SlStorageOwned))"
      using False flow by (auto simp: read_flow_def split: option.splits)
    ultimately show ?thesis using refused by blast
  qed
qed

lemma mark_sent_Ok:
  assumes flow: "read_flow p" and s: "rp_active p = Some s" and q: "d \<in> set (rp_queued p)"
    and c: "claims (rp_pool p) (unat (ds_slot d)) = Some (d, SlTxReady)" and len: "length data = unat (ds_len d)"
  obtains pool frame where "mark_sent d data p = (Ok frame, p\<lparr>rp_pool := pool\<rparr>)" "read_flow (p\<lparr>rp_pool := pool\<rparr>)"
      "claims pool = (claims (rp_pool p))(unat (ds_slot d) \<mapsto> (d, SlAwaitingAck))"
      "bp_generation pool = bp_generation (rp_pool p)"
      "frame = \<lparr>bd_stream_id = rb_stream_id s, bd_offset = ds_offset d,
        bd_end_of_data = (unat (ds_offset d) + unat (ds_len d) = unat (rb_total_size s)), bd_data = data\<rparr>"
proof -
  note f = read_flow_active[OF flow s]
  obtain r pool where rp: "mark_awaiting_ack d (rp_pool p) = (r, pool)" by fastforce
  have dir: "ds_direction d = Td_Readback" using f(4) q by blast
  from mark_awaiting_ack_effect[OF f(1), of d, unfolded rp move_effect_def prod.case] c dir
  have e: "\<exists>x. r = Ok x" "pool_ok pool" "bp_generation pool = bp_generation (rp_pool p)"
    "claims pool = (claims (rp_pool p))(unat (ds_slot d) \<mapsto> (d, SlAwaitingAck))" by simp_all
  have "unat (ds_offset d) + unat (ds_len d) \<le> unat (rb_produced_offset s)" using tiling_member[OF f(6) q] by simp
  then have small: "unat (ds_offset d) + unat (ucast (ds_len d) :: u32) < 2 ^ 32"
    using unat_u32_less[of "rb_produced_offset s"] by simp
  have end_offset: "ds_offset d + ucast (ds_len d) = rb_total_size s \<longleftrightarrow>
      unat (ds_offset d) + unat (ds_len d) = unat (rb_total_size s)"
    using unat_add_small[of "ds_offset d" "ucast (ds_len d)"] small by (simp add: word_unat_eq_iff)
  have "\<not> list_all (\<lambda>x. x \<noteq> d) (rp_queued p)" using q by (auto simp: list_all_iff)
  then show ?thesis
    using that[OF _ read_flow_moved[OF flow q e(2,4)] e(4,3) refl] s len rp e(1) end_offset by (auto simp: mark_sent_def Let_def)
qed

subsection \<open>Credits\<close>

lemma ack_loop_Ok:
  assumes "pool_ok (rp_pool p)" and "held (ds @ rest) (rp_pool p)" and "rp_queued p = ds @ rest"
    and "\<forall>d\<in>set ds. claims (rp_pool p) (unat (ds_slot d)) = Some (d, SlAwaitingAck) \<and> ds_direction d = Td_Readback"
    and "length bs = length ds" and "\<forall>i<length ds. length (bs ! i) = unat (ds_len (ds ! i))"
  shows "\<exists>pool. ack_loop (zip ds bs) p =
      (Ok (), p\<lparr>rp_active := map_option (\<lambda>s. s\<lparr>rb_crc_state := update (rb_crc_state s) (concat bs)\<rparr>) (rp_active p),
        rp_pool := pool, rp_queued := rest\<rparr>) \<and>
    pool_ok pool \<and> held rest pool \<and> bp_generation pool = bp_generation (rp_pool p) \<and>
    (\<forall>d\<in>set rest. claims pool (unat (ds_slot d)) = claims (rp_pool p) (unat (ds_slot d)))"
  using assms
proof (induction ds arbitrary: p bs)
  case Nil
  then show ?case
    by (intro exI[of _ "rp_pool p"]) (cases "rp_active p"; simp)
next
  case (Cons d ds)
  from Cons.prems(5) obtain b bs' where bs: "bs = b # bs'" "length bs' = length ds" by (cases bs) auto
  have b: "length b = unat (ds_len d)" using Cons.prems(6) bs by force
  obtain r pool where rp: "ack_read d (rp_pool p) = (r, pool)" by fastforce
  from ack_read_effect[OF Cons.prems(1), of d, unfolded rp move_effect_def prod.case] Cons.prems(4)
  have e: "\<exists>x. r = Ok x" "pool_ok pool" "bp_generation pool = bp_generation (rp_pool p)"
    "claims pool = (claims (rp_pool p))(unat (ds_slot d) := None)" by simp_all
  let ?p = "p\<lparr>rp_active := map_option (\<lambda>s. s\<lparr>rb_crc_state := update (rb_crc_state s) b\<rparr>) (rp_active p), rp_pool := pool,
    rp_queued := ds @ rest\<rparr>"
  have h: "held (d # (ds @ rest)) (rp_pool p)" using Cons.prems(2) by simp
  have other: "unat (ds_slot x) \<noteq> unat (ds_slot d)" if "x \<in> set (ds @ rest)" for x
    using heldD(1)[OF h] imageI[OF that, of "\<lambda>d. unat (ds_slot d)"] by force
  have "held (ds @ rest) pool" by (rule held_release[OF h e(4)])
  then have "\<exists>pool'. ack_loop (zip ds bs') ?p =
      (Ok (), ?p\<lparr>rp_active := map_option (\<lambda>s. s\<lparr>rb_crc_state := update (rb_crc_state s) (concat bs')\<rparr>) (rp_active ?p),
        rp_pool := pool', rp_queued := rest\<rparr>) \<and>
    pool_ok pool' \<and> held rest pool' \<and> bp_generation pool' = bp_generation (rp_pool ?p) \<and>
    (\<forall>d\<in>set rest. claims pool' (unat (ds_slot d)) = claims (rp_pool ?p) (unat (ds_slot d)))"
  proof (intro Cons.IH)
    show "\<forall>x\<in>set ds. claims (rp_pool ?p) (unat (ds_slot x)) = Some (x, SlAwaitingAck) \<and> ds_direction x = Td_Readback"
      using Cons.prems(4) other e(4) by simp
    show "\<forall>i<length ds. length (bs' ! i) = unat (ds_len (ds ! i))"
      using Cons.prems(6) bs by (metis Suc_less_eq length_Cons nth_Cons_Suc)
  qed (use e bs in simp_all)
  then obtain pool' where pool': "ack_loop (zip ds bs') ?p =
      (Ok (), ?p\<lparr>rp_active := map_option (\<lambda>s. s\<lparr>rb_crc_state := update (rb_crc_state s) (concat bs')\<rparr>) (rp_active ?p),
        rp_pool := pool', rp_queued := rest\<rparr>)"
    "pool_ok pool'" "held rest pool'" "bp_generation pool' = bp_generation (rp_pool p)"
    "\<forall>d\<in>set rest. claims pool' (unat (ds_slot d)) = claims pool (unat (ds_slot d))" using e(3) by auto
  have "ack_loop (zip (d # ds) bs) p = ack_loop (zip ds bs') ?p"
    using b rp e(1) Cons.prems(3) by (auto simp: bs Let_def)
  then show ?case
    using pool' e(4) other bs
    by (intro exI[of _ pool']) (auto simp: option.map_comp o_def update_append[symmetric])
qed

text \<open>What the first blocks of a tiling cover.\<close>

lemma tiling_append: "tiling a (ds @ es) b \<longleftrightarrow> (\<exists>m. tiling a ds m \<and> tiling m es b)"
  by (induction ds arbitrary: a) auto

lemma tiling_sum: "tiling a ds b \<Longrightarrow> b = a + sum_list (map (\<lambda>d. unat (ds_len d)) ds)"
proof (induction ds arbitrary: a)
  case (Cons d ds)
  from Cons.prems have "tiling (a + unat (ds_len d)) ds b" by simp
  from Cons.IH[OF this] show ?case by simp
qed simp

lemma tiling_last: "tiling a ds b \<Longrightarrow> ds \<noteq> [] \<Longrightarrow> b = unat (ds_offset (last ds)) + unat (ds_len (last ds))"
  by (cases ds rule: rev_cases) (simp_all add: tiling_snoc)

lemma length_concat_blocks:
  "length bs = length ds \<Longrightarrow> \<forall>i<length ds. length (bs ! i) = unat (ds_len (ds ! i)) \<Longrightarrow>
   length (concat bs) = sum_list (map (\<lambda>d. unat (ds_len d)) ds)"
proof -
  assume "length bs = length ds" "\<forall>i<length ds. length (bs ! i) = unat (ds_len (ds ! i))"
  then have "map length bs = map (\<lambda>d. unat (ds_len d)) ds" by (intro nth_equalityI) simp_all
  then show ?thesis by (simp add: length_concat)
qed

lemma readback_apply_credit_cases:
  assumes flow: "read_flow p"
    and len_all: "\<forall>n. n \<le> length (rp_queued p) \<longrightarrow> length acknowledged = n \<longrightarrow>
      (\<forall>d\<in>set (take n (rp_queued p)). claims (rp_pool p) (unat (ds_slot d)) = Some (d, SlAwaitingAck)) \<longrightarrow>
      (\<forall>i<n. length (acknowledged ! i) = unat (ds_len (rp_queued p ! i)))"
  obtains (acked) s n p' where "readback_apply_credit credit acknowledged p = (Ok (), p')" "rp_active p = Some s"
      "n = unat (bc_credits credit)" "0 < n" "n \<le> length (rp_queued p)" "length acknowledged = n"
      "\<forall>d\<in>set (take n (rp_queued p)). claims (rp_pool p) (unat (ds_slot d)) = Some (d, SlAwaitingAck)"
      "read_flow p'" "rp_queued p' = drop n (rp_queued p)"
      "rp_active p' = Some (s\<lparr>rb_crc_state := update (rb_crc_state s) (concat acknowledged),
        rb_durable_offset := bc_durable_offset credit\<rparr>)"
      "unat (bc_durable_offset credit) = unat (rb_durable_offset s) + length (concat acknowledged)"
      "bp_generation (rp_pool p') = bp_generation (rp_pool p)"
      "\<forall>d\<in>set (drop n (rp_queued p)). claims (rp_pool p') (unat (ds_slot d)) = claims (rp_pool p) (unat (ds_slot d))"
  | (refused) e where "readback_apply_credit credit acknowledged p = (Err e, p)"
proof (cases "\<exists>s. rp_active p = Some s \<and> bc_stream_id credit = rb_stream_id s \<and> bc_status credit = St_Ok \<and>
    bc_credits credit \<noteq> 0 \<and> unat (bc_credits credit) \<le> length (rp_queued p) \<and> unat (bc_credits credit) \<le> unat (rb_window s) \<and>
    length acknowledged = unat (bc_credits credit) \<and>
    \<not> list_ex (\<lambda>d. pool_state (ds_slot d) (rp_pool p) \<noteq> Ok SlAwaitingAck) (take (unat (bc_credits credit)) (rp_queued p)) \<and>
    bc_durable_offset credit = ds_offset (last (take (unat (bc_credits credit)) (rp_queued p))) +
      ucast (ds_len (last (take (unat (bc_credits credit)) (rp_queued p))))")
  case False
  then have "\<exists>e. readback_apply_credit credit acknowledged p = (Err e, p)"
    by (cases "rp_active p") (auto simp: readback_apply_credit_def Let_def)
  then show ?thesis using refused by blast
next
  case True
  have len: "\<And>n. n \<le> length (rp_queued p) \<Longrightarrow> length acknowledged = n \<Longrightarrow>
      \<forall>d\<in>set (take n (rp_queued p)). claims (rp_pool p) (unat (ds_slot d)) = Some (d, SlAwaitingAck) \<Longrightarrow>
      \<forall>i<n. length (acknowledged ! i) = unat (ds_len (rp_queued p ! i))"
    using len_all by blast
  let ?n = "unat (bc_credits credit)"
  let ?ds = "take ?n (rp_queued p)" and ?rest = "drop ?n (rp_queued p)"
  obtain s where s: "rp_active p = Some s" and g: "bc_stream_id credit = rb_stream_id s" "bc_status credit = St_Ok"
    "bc_credits credit \<noteq> 0" "?n \<le> length (rp_queued p)" "?n \<le> unat (rb_window s)" "length acknowledged = ?n"
    "\<not> list_ex (\<lambda>d. pool_state (ds_slot d) (rp_pool p) \<noteq> Ok SlAwaitingAck) ?ds"
    and dur: "bc_durable_offset credit = ds_offset (last ?ds) + ucast (ds_len (last ?ds))"
    using True by blast
  note f = read_flow_active[OF flow s]
  have n: "0 < ?n" using g(3) by (simp add: unat_gt_0)
  have ne: "?ds \<noteq> []" using n g(4) by auto
  have await: "claims (rp_pool p) (unat (ds_slot d)) = Some (d, SlAwaitingAck)" if "d \<in> set ?ds" for d
  proof -
    have "d \<in> set (rp_queued p)" using that in_set_takeD by fast
    then obtain st where st: "claims (rp_pool p) (unat (ds_slot d)) = Some (d, st)" using heldD(3)[OF f(2)] by blast
    have "pool_state (ds_slot d) (rp_pool p) = Ok SlAwaitingAck" using g(7) that by (auto simp: list_ex_iff)
    then have "st = SlAwaitingAck" using st by (auto simp: claims_def pool_state_def split: if_splits)
    then show ?thesis using st by simp
  qed
  have "\<forall>i<?n. length (acknowledged ! i) = unat (ds_len (rp_queued p ! i))"
    using await by (intro len g(4,6)) blast
  then have lens: "length acknowledged = length ?ds" "\<forall>i<length ?ds. length (acknowledged ! i) = unat (ds_len (?ds ! i))"
    using g(4,6) by simp_all
  obtain m where m: "tiling (unat (rb_durable_offset s)) ?ds m" "tiling m ?rest (unat (rb_produced_offset s))"
    using f(6) tiling_append[of _ ?ds ?rest] by auto
  have last: "m = unat (ds_offset (last ?ds)) + unat (ds_len (last ?ds))" by (rule tiling_last[OF m(1) ne])
  have "m \<le> unat (rb_produced_offset s)" by (rule tiling_le[OF m(2)])
  then have "unat (ds_offset (last ?ds)) + unat (ucast (ds_len (last ?ds)) :: u32) < 2 ^ 32"
    using last unat_u32_less[of "rb_produced_offset s"] by simp
  from unat_add_small[of "ds_offset (last ?ds)" "ucast (ds_len (last ?ds))"] this have durable: "unat (bc_durable_offset credit) = m"
    using last dur by simp
  have sum: "m = unat (rb_durable_offset s) + length (concat acknowledged)"
    using tiling_sum[OF m(1)] length_concat_blocks[OF lens] by simp
  have split: "held (?ds @ ?rest) (rp_pool p)" "rp_queued p = ?ds @ ?rest" using f(2) by simp_all
  have acks: "\<forall>d\<in>set ?ds. claims (rp_pool p) (unat (ds_slot d)) = Some (d, SlAwaitingAck) \<and> ds_direction d = Td_Readback"
    using await f(4) by (auto dest: in_set_takeD)
  obtain pool where pool: "ack_loop (zip ?ds acknowledged) p =
      (Ok (), p\<lparr>rp_active := map_option (\<lambda>s. s\<lparr>rb_crc_state := update (rb_crc_state s) (concat acknowledged)\<rparr>) (rp_active p),
        rp_pool := pool, rp_queued := ?rest\<rparr>)"
    "pool_ok pool" "held ?rest pool" "bp_generation pool = bp_generation (rp_pool p)"
    "\<forall>d\<in>set ?rest. claims pool (unat (ds_slot d)) = claims (rp_pool p) (unat (ds_slot d))"
    using ack_loop_Ok[OF f(1) split acks lens] by blast
  let ?s = "s\<lparr>rb_crc_state := update (rb_crc_state s) (concat acknowledged), rb_durable_offset := bc_durable_offset credit\<rparr>"
  let ?p = "p\<lparr>rp_active := Some ?s, rp_pool := pool, rp_queued := ?rest\<rparr>"
  have run: "readback_apply_credit credit acknowledged p = (Ok (), ?p)"
    using s g ne pool(1) by (simp add: readback_apply_credit_def Let_def dur)
  have "\<forall>d\<in>set ?rest. ds_direction d = Td_Readback" using f(4) in_set_dropD by fast
  then have "read_flow ?p"
    using pool f(3,5) m(2) durable by (simp add: read_flow_def read_session_ok_def)
  then show ?thesis
    using acked[OF run s refl n g(4,6)] await pool(4,5) durable sum by simp
qed

subsection \<open>Status, finish and abort\<close>

lemma readback_status_cases:
  assumes flow: "read_flow p"
  obtains (answered) s x p' where "readback_status sid p = (Ok x, p')" "rp_active p = Some s" "read_flow p'" "rp_queued p' = []"
      "rp_active p' = Some (s\<lparr>rb_produced_offset := rb_durable_offset s\<rparr>)"
      "bp_generation (rp_pool p') = next_id (bp_generation (rp_pool p))"
  | (refused) e where "readback_status sid p = (Err e, p)"
proof (cases "\<exists>s. rp_active p = Some s \<and> sid = rb_stream_id s")
  case True
  then obtain s where s: "rp_active p = Some s" "sid = rb_stream_id s" by blast
  note f = read_flow_active[OF flow s(1)]
  have "unat (rb_durable_offset s) \<le> unat (rb_produced_offset s)" by (rule tiling_le[OF f(6)])
  then have "read_flow (snd (readback_status sid p))"
    using s f(1,3) invalidate_spec[of "rp_pool p"]
    by (simp add: readback_status_def Let_def read_flow_def read_session_ok_def held_Nil abort_session_def)
  then show ?thesis
    using answered[of _ "snd (readback_status sid p)" s] s invalidate_spec[of "rp_pool p"]
    by (simp add: readback_status_def Let_def abort_session_def)
next
  case False
  then have "\<exists>e. readback_status sid p = (Err e, p)" by (cases "rp_active p") (auto simp: readback_status_def)
  then show ?thesis using refused by blast
qed

lemma readback_finish_cases:
  assumes flow: "read_flow p"
  obtains (finished) s where "rp_active p = Some s" "rb_stream_id s = sid" "rp_queued p = []"
      "rb_durable_offset s = rb_total_size s"
      "readback_finish sid p = (Ok \<lparr>bf_stream_id = sid, bf_result = Uc_Ok, bf_total_bytes = rb_total_size s,
        bf_computed_crc32 = NOT (rb_crc_state s)\<rparr>, p\<lparr>rp_active := None\<rparr>)" "read_flow (p\<lparr>rp_active := None\<rparr>)"
  | (refused) e where "readback_finish sid p = (Err e, p)"
proof (cases "\<exists>s. rp_active p = Some s \<and> sid = rb_stream_id s \<and> rp_queued p = [] \<and> rb_durable_offset s = rb_total_size s")
  case True
  then obtain s where s: "rp_active p = Some s" "sid = rb_stream_id s" "rp_queued p = []" "rb_durable_offset s = rb_total_size s"
    by blast
  have "read_flow (p\<lparr>rp_active := None\<rparr>)" using flow s by (simp add: read_flow_def)
  then show ?thesis using finished[of s] s by (simp add: readback_finish_def)
next
  case False
  then have "\<exists>e. readback_finish sid p = (Err e, p)" by (cases "rp_active p") (auto simp: readback_finish_def)
  then show ?thesis using refused by blast
qed

lemma readback_abort_cases:
  assumes flow: "read_flow p"
  obtains (aborted) s p' where "rp_active p = Some s" "rb_stream_id s = sid" "readback_abort sid p = (Ok (), p')"
      "read_flow p'" "rp_active p' = None" "rp_queued p' = []" "bp_generation (rp_pool p') = next_id (bp_generation (rp_pool p))"
  | (again) "rp_active p = None" "readback_abort sid p = (Ok (), p)"
  | (refused) e where "readback_abort sid p = (Err e, p)"
proof (cases "rp_active p")
  case None
  then show ?thesis
    using again refused by (cases "rp_aborted_tombstone p = Some sid") (simp_all add: readback_abort_def)
next
  case (Some s)
  show ?thesis
  proof (cases "rb_stream_id s = sid")
    case True
    have "read_flow (snd (readback_abort sid p))"
      using True Some flow invalidate_spec[of "rp_pool p"]
      by (simp add: readback_abort_def abort_session_def read_flow_def held_Nil)
    then show ?thesis
      using aborted[of s "snd (readback_abort sid p)"] True Some invalidate_spec[of "rp_pool p"]
      by (simp add: readback_abort_def abort_session_def)
  next
    case False
    then show ?thesis using refused Some by (simp add: readback_abort_def)
  qed
qed

end
