(* ===== verification/Bulk_Readback_Runtime.thy ===== *)
theory Bulk_Readback_Runtime
  imports Bulk_Readback Bulk_Leases
begin

text \<open>
  The readback runtime (\<^verbatim>\<open>binbook-fw/src/bulk_readback_runtime.rs\<close>, \<^verbatim>\<open>bulk_readback_runtime_control.rs\<close>,
  \<^verbatim>\<open>bulk_readback_runtime_types.rs\<close>): the readback pipeline with its buffers and the storage owner.  The
  invariant relates the blocks sent to the host, the queue and the buffers, so that the checksum of a finished readback is
  the one of the bytes the host has received.
\<close>

definition READ_FIRST_SEQUENCE :: u32 where "READ_FIRST_SEQUENCE = 500000"
definition FIRST_STREAM :: u32 where "FIRST_STREAM = 1"

datatype BulkReadbackRuntimeError =
    RrActive | RrInvalidOpen | RrCorrelation | RrOwner | RrLease BulkLeaseError | RrPipeline BulkReadbackError | RrBusy

record PendingReadOpen =
  pr_open_sequence :: u32
  pr_open_name :: StorageName
  pr_open_chunk :: u16
  pr_open_window :: u8

record OutstandingRead =
  or_sequence :: u32
  or_descriptor :: BulkSlotDescriptor

definition read_select_chunk :: "u16 \<Rightarrow> (u16, BulkReadbackRuntimeError) res" where
  "read_select_chunk requested =
    (let automatic = of_nat TRANSFER_DATA_BYTES;
         selected = (if requested = 0 then automatic else min requested automatic div 512 * 512)
     in if selected \<noteq> 0 then Ok selected else Err RrInvalidOpen)"

definition read_select_window :: "u8 \<Rightarrow> u8" where
  "read_select_window requested =
    (if requested = 0 then of_nat TRANSFER_SLOT_COUNT else min (max requested 1) (of_nat TRANSFER_SLOT_COUNT))"

definition read_owned_request :: "u32 \<Rightarrow> Request \<Rightarrow> BufferLease option \<Rightarrow> OwnedRequest" where
  "read_owned_request sequence request buffer =
    \<lparr>orq_envelope = \<lparr>rq_client = ScDiagnostic, rq_sequence = sequence, rq_request = request\<rparr>, orq_buffer = buffer\<rparr>"

definition read_validate_response :: "OwnedResponse \<Rightarrow> u32 \<Rightarrow> (unit, BulkReadbackRuntimeError) res" where
  "read_validate_response response sequence =
    (if rs_client (ors_envelope response) = ScDiagnostic \<and> rs_sequence (ors_envelope response) = sequence
     then Ok () else Err RrCorrelation)"

record BulkReadbackRuntime =
  rr_pipeline :: BulkReadbackPipeline
  rr_leases :: BulkLeasePool
  rr_pending_open :: "PendingReadOpen option"
  rr_name :: "StorageName option"
  rr_outstanding :: "OutstandingRead list"
  rr_sent :: "BulkSlotDescriptor list"
  rr_next_sequence :: u32
  rr_next_stream :: u32

definition readback_from_lease_pool :: "BulkLeasePool \<Rightarrow> BulkReadbackRuntime" where
  "readback_from_lease_pool leases =
    \<lparr>rr_pipeline = BulkReadbackPipeline_new, rr_leases = leases, rr_pending_open = None, rr_name = None,
     rr_outstanding = [], rr_sent = [], rr_next_sequence = READ_FIRST_SEQUENCE, rr_next_stream = FIRST_STREAM\<rparr>"

definition readback_releasable :: "BulkReadbackRuntime \<Rightarrow> bool" where
  "readback_releasable r =
    (rr_pending_open r = None \<and> rr_name r = None \<and> \<not> readback_is_active (rr_pipeline r) \<and> rr_outstanding r = [] \<and>
     rr_sent r = [] \<and> unat (lease_available (rr_leases r)) = TRANSFER_SLOT_COUNT)"

definition readback_into_lease_pool :: "BulkReadbackRuntime \<Rightarrow> (BulkLeasePool, 'e) res" where
  "readback_into_lease_pool r = (if readback_releasable r then Ok (rr_leases r) else Panic)"

definition read_take_sequence :: "BulkReadbackRuntime \<Rightarrow> u32 \<times> BulkReadbackRuntime" where
  "read_take_sequence r = (rr_next_sequence r, r\<lparr>rr_next_sequence := next_id (rr_next_sequence r)\<rparr>)"

definition read_take_stream :: "BulkReadbackRuntime \<Rightarrow> u32 \<times> BulkReadbackRuntime" where
  "read_take_stream r = (rr_next_stream r, r\<lparr>rr_next_stream := next_id (rr_next_stream r)\<rparr>)"

definition readback_begin_open ::
    "StoreBulkOpenRequest \<Rightarrow> BulkReadbackRuntime \<Rightarrow> (OwnedRequest, BulkReadbackRuntimeError) res \<times> BulkReadbackRuntime" where
  "readback_begin_open request r =
    (if rr_pending_open r \<noteq> None \<or> readback_is_active (rr_pipeline r) \<or> rr_outstanding r \<noteq> [] \<or>
       unat (lease_available (rr_leases r)) \<noteq> TRANSFER_SLOT_COUNT
     then (Err RrActive, r)
     else if obr_direction request \<noteq> Td_Readback \<or> obr_backend request \<noteq> Sb_Sd \<or> obr_total_size request \<noteq> 0 \<or>
       obr_expected_crc32 request \<noteq> 0
     then (Err RrInvalidOpen, r)
     else
       on_ok (map_err (\<lambda>_. RrInvalidOpen) (StorageName_new (obr_name request))) r (\<lambda>name.
       on_ok (read_select_chunk (obr_requested_chunk request)) r (\<lambda>chunk.
       let window = read_select_window (obr_requested_window request);
           (sequence, r) = read_take_sequence r;
           pending = \<lparr>pr_open_sequence = sequence, pr_open_name = name, pr_open_chunk = chunk, pr_open_window = window\<rparr>
       in (Ok (read_owned_request sequence (FileSize name) None), r\<lparr>rr_pending_open := Some pending\<rparr>))))"

definition readback_complete_open ::
    "OwnedResponse \<Rightarrow> BulkReadbackRuntime \<Rightarrow> (StoreBulkOpenResponse, BulkReadbackRuntimeError) res \<times> BulkReadbackRuntime" where
  "readback_complete_open response r =
    on_ok (ok_or RrCorrelation (rr_pending_open r)) r (\<lambda>pending.
    on_ok (read_validate_response response (pr_open_sequence pending)) r (\<lambda>_.
    if ors_buffer response \<noteq> None then (Err RrCorrelation, r)
    else
      on_ok (case rs_response (ors_envelope response) of
               Ok (RespFileSize v) \<Rightarrow> if unat v < 2 ^ 32 then Ok (ucast v :: u32) else Err RrInvalidOpen
             | Ok _ \<Rightarrow> Err RrCorrelation
             | _ \<Rightarrow> Err RrOwner) r (\<lambda>total_size.
      if total_size = 0 then (Err RrInvalidOpen, r)
      else
        let (stream_id, r) = read_take_stream r;
            (credits, pipeline) = readback_open stream_id total_size (pr_open_chunk pending) (pr_open_window pending)
               (rr_pipeline r);
            r = r\<lparr>rr_pipeline := pipeline\<rparr> in
        on_ok (map_err RrPipeline credits) r (\<lambda>credits.
        let (x, leases) = lease_begin_session (readback_generation (rr_pipeline r)) (rr_leases r);
            r = r\<lparr>rr_leases := leases\<rparr> in
        on_ok (map_err RrLease x) r (\<lambda>_.
        (Ok \<lparr>obs_stream_id = stream_id, obs_selected_chunk = pr_open_chunk pending, obs_initial_credits = credits,
             obs_direction = Td_Readback, obs_durable_offset = 0, obs_total_size = total_size\<rparr>,
         r\<lparr>rr_pending_open := None, rr_name := Some (pr_open_name pending)\<rparr>))))))"

definition readback_begin_read ::
    "BulkReadbackRuntime \<Rightarrow> (OwnedRequest, BulkReadbackRuntimeError) res \<times> BulkReadbackRuntime" where
  "readback_begin_read r =
    (if list_ex (\<lambda>x. ds_generation (or_descriptor x) \<noteq> readback_generation (rr_pipeline r)) (rr_outstanding r)
     then (Err RrBusy, r)
     else
       on_ok (ok_or RrBusy (rr_name r)) r (\<lambda>name.
       let (x, pipeline) = reserve_next (rr_pipeline r); r = r\<lparr>rr_pipeline := pipeline\<rparr> in
       on_ok (map_err RrPipeline x) r (\<lambda>d.
       let (x, leases) = lease_take d (rr_leases r); r = r\<lparr>rr_leases := leases\<rparr> in
       on_ok (map_err RrLease x) r (\<lambda>lease.
       let (sequence, r) = read_take_sequence r in
       if length (rr_outstanding r) \<ge> TRANSFER_SLOT_COUNT then (Err RrBusy, r)
       else
         let r = r\<lparr>rr_outstanding := rr_outstanding r @ [\<lparr>or_sequence = sequence, or_descriptor = d\<rparr>]\<rparr> in
         on_ok (map_err (\<lambda>_. RrInvalidOpen) (Request_read name (ucast (ds_offset d)) (ds_len d) (lease_slot lease))) r
           (\<lambda>request. (Ok (read_owned_request sequence request (Some lease)), r))))))"

definition readback_runtime_complete_read ::
    "OwnedResponse \<Rightarrow> BulkReadbackRuntime \<Rightarrow> (StoreBulkData option, BulkReadbackRuntimeError) res \<times> BulkReadbackRuntime" where
  "readback_runtime_complete_read response r =
    on_ok (ok_or RrCorrelation
        (position (\<lambda>x. or_sequence x = rs_sequence (ors_envelope response)) (rr_outstanding r))) r (\<lambda>pos.
    let expected = rr_outstanding r ! pos; d = or_descriptor expected in
    if \<not> is_ok (read_validate_response response (or_sequence expected)) then
      (case ors_buffer response of
         None \<Rightarrow> (Err RrCorrelation, r)
       | Some lease \<Rightarrow>
           if bulk_index (lease_slot lease) = Some (ds_slot d) then
             let (x, leases) = lease_restore d lease (rr_leases r); r = r\<lparr>rr_leases := leases\<rparr> in
             on_ok (map_err RrLease x) r (\<lambda>_.
             (Err RrCorrelation, r\<lparr>rr_outstanding := remove_at pos (rr_outstanding r)\<rparr>))
           else (Err RrCorrelation, r))
    else
      on_ok (ok_or RrCorrelation (ors_buffer response)) r (\<lambda>lease.
      let (x, leases) = lease_restore d lease (rr_leases r); r = r\<lparr>rr_leases := leases\<rparr> in
      on_ok (map_err RrLease x) r (\<lambda>_.
      let r = r\<lparr>rr_outstanding := remove_at pos (rr_outstanding r)\<rparr> in
      if ds_generation d \<noteq> readback_generation (rr_pipeline r) then (Ok None, r)
      else if pos \<noteq> 0 then (Err RrCorrelation, r)
      else
        on_ok (case rs_response (ors_envelope response) of
                 Ok (RespRead len) \<Rightarrow> if len = ds_len d then Ok () else Err RrCorrelation
               | Ok _ \<Rightarrow> Err RrCorrelation
               | _ \<Rightarrow> Err RrOwner) r (\<lambda>_.
        let (x, pipeline) = readback_complete_read d (rr_pipeline r); r = r\<lparr>rr_pipeline := pipeline\<rparr> in
        on_ok (map_err RrPipeline x) r (\<lambda>_.
        if length (rr_sent r) \<ge> TRANSFER_SLOT_COUNT then (Err RrBusy, r)
        else
          let r = r\<lparr>rr_sent := rr_sent r @ [d]\<rparr> in
          on_ok (map_err RrLease (lease_bytes_of d (rr_leases r))) r (\<lambda>bytes.
          let (x, pipeline) = mark_sent d bytes (rr_pipeline r); r = r\<lparr>rr_pipeline := pipeline\<rparr> in
          on_ok (map_err RrPipeline x) r (\<lambda>frame. (Ok (Some frame), r))))))))"

text \<open>\<open>collect::<Result<_, _>>\<close>.\<close>

fun collect_ok :: "('a, 'e) res list \<Rightarrow> ('a list, 'e) res" where
  "collect_ok [] = Ok []"
| "collect_ok (x # xs) = and_then x (\<lambda>v. and_then (collect_ok xs) (\<lambda>vs. Ok (v # vs)))"

definition readback_runtime_apply_credit ::
    "StoreBulkCredit \<Rightarrow> BulkReadbackRuntime \<Rightarrow> (unit, BulkReadbackRuntimeError) res \<times> BulkReadbackRuntime" where
  "readback_runtime_apply_credit credit r =
    (let count = unat (bc_credits credit) in
     if count = 0 \<or> count > length (rr_sent r) then (Err RrInvalidOpen, r)
     else
       on_ok (map_err RrLease (collect_ok (map (\<lambda>d. lease_bytes_of d (rr_leases r)) (take count (rr_sent r))))) r
         (\<lambda>acknowledged.
       let (x, pipeline) = readback_apply_credit credit acknowledged (rr_pipeline r); r = r\<lparr>rr_pipeline := pipeline\<rparr> in
       on_ok (map_err RrPipeline x) r (\<lambda>_. (Ok (), r\<lparr>rr_sent := drop count (rr_sent r)\<rparr>))))"

definition readback_runtime_status ::
    "u32 \<Rightarrow> BulkReadbackRuntime \<Rightarrow> (StoreBulkStatusResponse, BulkReadbackRuntimeError) res \<times> BulkReadbackRuntime" where
  "readback_runtime_status stream_id r =
    (let (x, pipeline) = readback_status stream_id (rr_pipeline r); r = r\<lparr>rr_pipeline := pipeline\<rparr> in
     on_ok (map_err RrPipeline x) r (\<lambda>status.
     (Ok status, r\<lparr>rr_leases := lease_invalidate (readback_generation (rr_pipeline r)) (rr_leases r), rr_sent := []\<rparr>)))"

definition readback_runtime_finish ::
    "u32 \<Rightarrow> BulkReadbackRuntime \<Rightarrow> (StoreBulkFinishResponse, BulkReadbackRuntimeError) res \<times> BulkReadbackRuntime" where
  "readback_runtime_finish stream_id r =
    (let (x, pipeline) = readback_finish stream_id (rr_pipeline r); r = r\<lparr>rr_pipeline := pipeline\<rparr> in
     on_ok (map_err RrPipeline x) r (\<lambda>response. (Ok response, r\<lparr>rr_name := None\<rparr>)))"

definition readback_runtime_abort ::
    "u32 \<Rightarrow> BulkReadbackRuntime \<Rightarrow> (unit, BulkReadbackRuntimeError) res \<times> BulkReadbackRuntime" where
  "readback_runtime_abort stream_id r =
    (let (x, pipeline) = readback_abort stream_id (rr_pipeline r); r = r\<lparr>rr_pipeline := pipeline\<rparr> in
     on_ok (map_err RrPipeline x) r (\<lambda>_.
     (Ok (), r\<lparr>rr_leases := lease_invalidate (readback_generation (rr_pipeline r)) (rr_leases r), rr_sent := [],
       rr_name := None\<rparr>)))"

subsection \<open>The invariant\<close>

definition read_slots :: "BulkReadbackRuntime \<Rightarrow> nat list" where
  "read_slots r = map (\<lambda>x. unat (ds_slot (or_descriptor x))) (rr_outstanding r)"

definition awaiting :: "BulkReadbackPipeline \<Rightarrow> BulkSlotDescriptor \<Rightarrow> bool" where
  "awaiting p d \<longleftrightarrow> claims (rp_pool p) (unat (ds_slot d)) = Some (d, SlAwaitingAck)"

text \<open>The frame \<open>f\<close> was sent from the buffer of \<open>d\<close>.\<close>

definition sent_frame :: "BulkLeasePool \<Rightarrow> BulkSlotDescriptor \<Rightarrow> StoreBulkData \<Rightarrow> bool" where
  "sent_frame leases d f \<longleftrightarrow> bd_offset f = ds_offset d \<and>
    (\<exists>b. lp_buffers leases ! unat (ds_slot d) = Some b \<and> bd_data f = take (unat (ds_len d)) b)"

text \<open>
  The outstanding reads belong either to blocks of the queue, in file order and behind every block that has been sent, or
  all to a generation that is over.
\<close>

definition live_reads :: "BulkReadbackRuntime \<Rightarrow> bool" where
  "live_reads r \<longleftrightarrow>
    (\<forall>x\<in>set (rr_outstanding r). or_descriptor x \<in> set (rp_queued (rr_pipeline r)) \<and>
      claims (rp_pool (rr_pipeline r)) (unat (ds_slot (or_descriptor x))) = Some (or_descriptor x, SlStorageOwned)) \<and>
    sorted_wrt (\<lambda>x y. unat (ds_offset (or_descriptor x)) < unat (ds_offset (or_descriptor y))) (rr_outstanding r) \<and>
    (\<forall>d\<in>set (rr_sent r). \<forall>x\<in>set (rr_outstanding r). unat (ds_offset d) < unat (ds_offset (or_descriptor x)))"

definition stale_reads :: "BulkReadbackRuntime \<Rightarrow> bool" where
  "stale_reads r \<longleftrightarrow> rp_queued (rr_pipeline r) = [] \<and>
    (\<forall>x\<in>set (rr_outstanding r). ds_generation (or_descriptor x) \<noteq> readback_generation (rr_pipeline r))"

definition read_open_ok :: "PendingReadOpen \<Rightarrow> bool" where
  "read_open_ok q \<longleftrightarrow> pr_open_chunk q \<noteq> 0 \<and> unat (pr_open_chunk q) \<le> 3584 \<and> pr_open_window q \<noteq> 0 \<and> unat (pr_open_window q) \<le> 4"

text \<open>\<open>D\<close> are the bytes acknowledged by the host, \<open>S\<close> the frames sent and not yet acknowledged.\<close>

definition readback_inv :: "bytes \<Rightarrow> StoreBulkData list \<Rightarrow> BulkReadbackRuntime \<Rightarrow> bool" where
  "readback_inv D S r \<longleftrightarrow>
    read_flow (rr_pipeline r) \<and> lending (read_slots r) (rr_leases r) \<and> rr_next_stream r \<noteq> 0 \<and>
    (\<forall>q. rr_pending_open r = Some q \<longrightarrow> rr_outstanding r = [] \<and> rp_active (rr_pipeline r) = None \<and> read_open_ok q) \<and>
    rr_sent r = filter (awaiting (rr_pipeline r)) (rp_queued (rr_pipeline r)) \<and>
    (live_reads r \<or> stale_reads r) \<and>
    (case rp_active (rr_pipeline r) of
       None \<Rightarrow> True
     | Some s \<Rightarrow> lp_generation (rr_leases r) = readback_generation (rr_pipeline r) \<and>
         list_all2 (sent_frame (rr_leases r)) (rr_sent r) S \<and>
         length D = unat (rb_durable_offset s) \<and> rb_crc_state s = update (- 1) D)"

lemma readback_invD:
  assumes "readback_inv D S r"
  shows "read_flow (rr_pipeline r)" "lending (read_slots r) (rr_leases r)" "rr_next_stream r \<noteq> 0"
    "rr_pending_open r = Some q \<Longrightarrow> rr_outstanding r = [] \<and> rp_active (rr_pipeline r) = None \<and> read_open_ok q"
    "rr_sent r = filter (awaiting (rr_pipeline r)) (rp_queued (rr_pipeline r))" "live_reads r \<or> stale_reads r"
    "rp_active (rr_pipeline r) = Some s \<Longrightarrow> lp_generation (rr_leases r) = readback_generation (rr_pipeline r)"
    "rp_active (rr_pipeline r) = Some s \<Longrightarrow> list_all2 (sent_frame (rr_leases r)) (rr_sent r) S"
    "rp_active (rr_pipeline r) = Some s \<Longrightarrow> length D = unat (rb_durable_offset s) \<and> rb_crc_state s = update (- 1) D"
  using assms by (auto simp: readback_inv_def)

lemma readback_new:
  assumes "lending [] leases"
  shows "readback_inv D S (readback_from_lease_pool leases)"
  using assms read_flow_new
  by (simp add: readback_inv_def readback_from_lease_pool_def read_slots_def BulkReadbackPipeline_new_def FIRST_STREAM_def
      live_reads_def)

lemma inactive_queue: "read_flow p \<Longrightarrow> rp_active p = None \<Longrightarrow> rp_queued p = []"
  by (simp add: read_flow_def)

lemma read_select_chunk_ok: "read_select_chunk requested = Ok chunk \<Longrightarrow> chunk \<noteq> 0 \<and> unat chunk \<le> 3584"
proof -
  assume s: "read_select_chunk requested = Ok chunk"
  have "unat (min requested 3584) \<le> 3584" by (simp add: unat_min)
  then have "unat (min requested 3584) div 512 * 512 \<le> 3584"
    by (meson div_times_less_eq_dividend order_trans)
  then have "unat (min requested 3584 div 512 * 512) \<le> 3584"
    by (simp add: unat_word_ariths unat_div)
  then show ?thesis using s by (auto simp: read_select_chunk_def Let_def split: if_splits)
qed

lemma read_select_window_ok: "read_select_window requested \<noteq> 0 \<and> unat (read_select_window requested) \<le> 4"
  by (auto simp: read_select_window_def unat_min min_def max_def word_le_nat_alt split: if_splits)

lemma read_open_arguments_total: "read_select_chunk requested \<noteq> Panic" "StorageName_new name \<noteq> Panic"
  by (simp_all add: read_select_chunk_def StorageName_new_def Let_def)

text \<open>The order of a queue is the order of the offsets.\<close>

lemma filter_mark_next:
  assumes t: "tiling a q b" and pos: "\<forall>x\<in>set q. 0 < unat (ds_len x)" and d: "d \<in> set q" and no: "\<not> P d" and yes: "P' d"
    and before: "\<forall>x\<in>set q. P x \<longrightarrow> unat (ds_offset x) < unat (ds_offset d)"
    and same: "\<forall>x\<in>set q. x \<noteq> d \<longrightarrow> P' x = P x"
  shows "filter P' q = filter P q @ [d]"
proof -
  obtain xs ys where q: "q = xs @ d # ys" using split_list[OF d] by blast
  then obtain m where m: "tiling a xs m" "unat (ds_offset d) = m" "tiling (m + unat (ds_len d)) ys b"
    using t by (auto simp: tiling_append)
  have "d \<notin> set xs" using tiling_member[OF m(1), of d] m(2) pos q by auto
  moreover have ys: "unat (ds_offset d) < unat (ds_offset x)" if "x \<in> set ys" for x
    using tiling_member[OF m(3) that] m(2) pos q by force
  then have "d \<notin> set ys" by auto
  moreover have "filter P ys = []" using before ys q by (force simp: filter_empty_conv)
  moreover have "filter P' xs = filter P xs" "filter P' ys = filter P ys"
    using same q calculation(1,2) by (auto intro!: filter_cong)
  ultimately show ?thesis using q no yes by simp
qed

lemma filter_prefix:
  assumes "\<forall>x\<in>set (take n q). P x" and "n \<le> length q"
  shows "take n (filter P q) = take n q" "drop n (filter P q) = filter P (drop n q)"
proof -
  have "filter P q = take n q @ filter P (drop n q)"
    using assms(1) filter_append[of P "take n q" "drop n q"] by (simp add: filter_True)
  then show "take n (filter P q) = take n q" "drop n (filter P q) = filter P (drop n q)"
    using assms(2) by simp_all
qed

subsection \<open>Opening\<close>

lemma readback_begin_open_cases:
  assumes inv: "readback_inv D S r"
  obtains (started) req r' where "readback_begin_open q r = (Ok req, r')" "readback_inv D S r'"
  | (refused) e where "readback_begin_open q r = (Err e, r)"
proof (cases "rr_pending_open r = None \<and> \<not> readback_is_active (rr_pipeline r) \<and> rr_outstanding r = [] \<and>
    unat (lease_available (rr_leases r)) = 4 \<and> obr_direction q = Td_Readback \<and> obr_backend q = Sb_Sd \<and> obr_total_size q = 0 \<and>
    obr_expected_crc32 q = 0 \<and> is_ok (read_select_chunk (obr_requested_chunk q)) \<and> is_ok (StorageName_new (obr_name q))")
  case True
  then obtain chunk name where chunk: "read_select_chunk (obr_requested_chunk q) = Ok chunk" and name: "StorageName_new (obr_name q) = Ok name"
    by (metis is_ok.elims(2))
  have "readback_inv D S (snd (readback_begin_open q r))"
    using inv True chunk name read_select_chunk_ok[OF chunk] read_select_window_ok
    by (simp add: readback_begin_open_def read_take_sequence_def Let_def readback_inv_def
        read_slots_def read_open_ok_def readback_is_active_def live_reads_def)
  then show ?thesis
    using True chunk name
    by (intro started[of _ "snd (readback_begin_open q r)"]) (auto simp: readback_begin_open_def read_take_sequence_def Let_def)
next
  case False
  then have "\<exists>e. readback_begin_open q r = (Err e, r)"
    by (cases "read_select_chunk (obr_requested_chunk q)"; cases "StorageName_new (obr_name q)")
      (auto simp: readback_begin_open_def read_open_arguments_total Let_def)
  then show ?thesis using refused by blast
qed

lemma readback_complete_open_cases:
  assumes inv: "readback_inv D S r"
  obtains (opened) q size x r' s where "readback_complete_open response r = (Ok x, r')" "readback_inv [] [] r'"
      "rr_pending_open r = Some q" "rs_response (ors_envelope response) = Ok (RespFileSize size)"
      "rr_pending_open r' = None" "rp_active (rr_pipeline r') = Some s" "unat (rb_total_size s) = unat size"
  | (refused) e where "readback_complete_open response r = (Err e, r)"
proof (cases "\<exists>q size. rr_pending_open r = Some q \<and> read_validate_response response (pr_open_sequence q) = Ok () \<and>
    ors_buffer response = None \<and> rs_response (ors_envelope response) = Ok (RespFileSize size) \<and> unat size < 2 ^ 32 \<and> 0 < unat size")
  case True
  then obtain q size where q: "rr_pending_open r = Some q" and v: "read_validate_response response (pr_open_sequence q) = Ok ()"
    and b: "ors_buffer response = None" and size: "rs_response (ors_envelope response) = Ok (RespFileSize size)"
      "unat size < 2 ^ 32" "0 < unat size"
    by blast
  note d = readback_invD[OF inv]
  have out: "rr_outstanding r = []" and inactive: "rp_active (rr_pipeline r) = None" and okq: "read_open_ok q"
    using d(4)[OF q] by simp_all
  have usize: "unat (ucast size :: u32) = unat size" using size(2) by (simp add: unsigned_ucast_eq take_bit_nat_eq_self)
  then have tot: "(ucast size :: u32) \<noteq> 0" using size(3) by (metis less_irrefl unat_0)
  obtain pl s where pl: "readback_open (rr_next_stream r) (ucast size) (pr_open_chunk q) (pr_open_window q) (rr_pipeline r) =
        (Ok (pr_open_window q), pl)" "read_flow pl" "rp_queued pl = []" "rp_active pl = Some s"
      "rb_total_size s = ucast size" "rb_durable_offset s = 0" "rb_crc_state s = - 1"
      "bp_generation (rp_pool pl) = next_id (bp_generation (rp_pool (rr_pipeline r)))"
    using d(1)
  proof (cases rule: readback_open_cases[where sid = "rr_next_stream r" and tot = "ucast size" and
        chunk = "pr_open_chunk q" and window = "pr_open_window q"])
    case (refused e)
    then show ?thesis using okq tot inactive d(3) by (auto simp: read_open_ok_def)
  qed (use that in blast)
  have "readback_generation pl \<noteq> 0" using pl(8) next_id_neq(1) by (simp add: readback_generation_def)
  then have leases: "lease_begin_session (readback_generation pl) (rr_leases r) =
      (Ok (), (rr_leases r)\<lparr>lp_generation := readback_generation pl\<rparr>)"
    using lease_begin_Ok d(2) out by (simp add: read_slots_def)
  let ?r = "r\<lparr>rr_next_stream := next_id (rr_next_stream r), rr_pipeline := pl,
    rr_leases := (rr_leases r)\<lparr>lp_generation := readback_generation pl\<rparr>, rr_pending_open := None,
    rr_name := Some (pr_open_name q)\<rparr>"
  have "\<exists>x. readback_complete_open response r = (Ok x, ?r)"
    using q v b size tot pl(1) leases by (simp add: readback_complete_open_def read_take_stream_def Let_def)
  moreover have "rr_sent r = []" using d(5) inactive_queue[OF d(1) inactive] by simp
  then have "readback_inv [] [] ?r"
    using d(2) pl out next_id_neq(1) by (simp add: readback_inv_def read_slots_def live_reads_def)
  ultimately show ?thesis using opened[of _ ?r q size s] q size(1) pl usize by auto
next
  case False
  have "\<exists>e. readback_complete_open response r = (Err e, r)"
  proof (cases "rr_pending_open r")
    case (Some q)
    show ?thesis
    proof (cases "\<exists>size. rs_response (ors_envelope response) = Ok (RespFileSize size) \<and> unat size < 2 ^ 32")
      case True
      then obtain size where size: "rs_response (ors_envelope response) = Ok (RespFileSize size)" "unat size < 2 ^ 32" by blast
      have "(ucast size :: u32) = 0" if "unat size = 0" using that by (simp add: unat_eq_0)
      then show ?thesis
        using Some False size
        by (cases "unat size = 0")
          (auto simp: readback_complete_open_def read_validate_response_def)
    next
      case False
      then show ?thesis
        using Some by (cases "rs_response (ors_envelope response)")
          (auto simp: readback_complete_open_def read_validate_response_def split: Response.splits)
    qed
  qed (simp add: readback_complete_open_def)
  then show ?thesis using refused by blast
qed

subsection \<open>Starting a read\<close>

lemma store_other: "j \<noteq> i \<Longrightarrow> lp_buffers (p\<lparr>lp_buffers := (lp_buffers p)[i := v]\<rparr>) ! j = lp_buffers p ! j"
  by simp

lemma list_all2_same_buffers:
  "list_all2 (sent_frame leases) ds S \<Longrightarrow>
   \<forall>d\<in>set ds. lp_buffers leases' ! unat (ds_slot d) = lp_buffers leases ! unat (ds_slot d) \<Longrightarrow>
   list_all2 (sent_frame leases') ds S"
  by (erule list.rel_mono_strong) (simp add: sent_frame_def)

lemma read_facts:
  assumes inv: "readback_inv D S r" and d: "d \<in> set (rp_queued (rr_pipeline r))"
  shows "unat (ds_slot d) < 4" "ds_generation d = readback_generation (rr_pipeline r)" "0 < unat (ds_len d)" "unat (ds_len d) \<le> 3584"
    "rp_active (rr_pipeline r) = Some s \<Longrightarrow> lease_fits d (rr_leases r)"
proof -
  have ok: "pool_ok (rp_pool (rr_pipeline r))" and held: "held (rp_queued (rr_pipeline r)) (rp_pool (rr_pipeline r))"
    using readback_invD(1)[OF inv] by (simp_all add: read_flow_def)
  show f: "unat (ds_slot d) < 4" "ds_generation d = readback_generation (rr_pipeline r)" "0 < unat (ds_len d)" "unat (ds_len d) \<le> 3584"
    using held_facts[OF held ok d] by (simp_all add: readback_generation_def)
  show "rp_active (rr_pipeline r) = Some s \<Longrightarrow> lease_fits d (rr_leases r)"
    using f readback_invD(7)[OF inv] by (simp add: lease_fits_def)
qed

lemma readback_begin_read_cases:
  assumes inv: "readback_inv D S r"
  obtains (started) req r' where "readback_begin_read r = (Ok req, r')" "readback_inv D S r'"
  | (refused) e where "readback_begin_read r = (Err e, r)"
proof -
  note i = readback_invD[OF inv]
  show ?thesis
  proof (cases "(\<exists>x\<in>set (rr_outstanding r). ds_generation (or_descriptor x) \<noteq> readback_generation (rr_pipeline r)) \<or> rr_name r = None")
    case True
    then have "\<exists>e. readback_begin_read r = (Err e, r)"
      by (auto simp: readback_begin_read_def list_ex_iff)
    then show ?thesis using refused by blast
  next
    case False
    then obtain name where name: "rr_name r = Some name" by auto
    have nostale: "\<not> list_ex (\<lambda>x. ds_generation (or_descriptor x) \<noteq> readback_generation (rr_pipeline r)) (rr_outstanding r)"
      using False by (auto simp: list_ex_iff)
    from i(1) show ?thesis
    proof (cases rule: reserve_next_cases)
      case (refused e)
      then show ?thesis using that(2) nostale name by (simp add: readback_begin_read_def)
    next
      case (reserved s d pl)
      have live: "live_reads r"
        using i(6) False by (cases "rr_outstanding r = []") (auto simp: stale_reads_def live_reads_def neq_Nil_conv)
      have ok: "pool_ok (rp_pool pl)" and held: "held (rp_queued pl) (rp_pool pl)" and dq: "d \<in> set (rp_queued pl)"
        using reserved(2,5) by (simp_all add: read_flow_def)
      note facts = held_facts[OF held ok dq]
      have gen: "ds_generation d = readback_generation (rr_pipeline r)" using facts(2) reserved(7) by (simp add: readback_generation_def)
      have other: "unat (ds_slot x) \<noteq> unat (ds_slot d)" if "x \<in> set (rp_queued (rr_pipeline r))" for x
        using heldD(3)[of "rp_queued (rr_pipeline r)" "rp_pool (rr_pipeline r)" x] i(1) reserved(8) that
        by (force simp: read_flow_def)
      have notout: "unat (ds_slot d) \<notin> set (read_slots r)"
      proof
        assume "unat (ds_slot d) \<in> set (read_slots r)"
        then obtain x where "x \<in> set (rr_outstanding r)" "unat (ds_slot d) = unat (ds_slot (or_descriptor x))"
          by (auto simp: read_slots_def)
        then show False using live other[of "or_descriptor x"] by (auto simp: live_reads_def)
      qed
      have home: "at_home (rr_leases r) (unat (ds_slot d))" using lendingD(4)[OF i(2) facts(1)] notout by simp
      then obtain b where b: "lp_buffers (rr_leases r) ! unat (ds_slot d) = Some b" by (auto simp: at_home_def)
      have fits: "lease_fits d (rr_leases r)" using facts gen i(7)[OF reserved(3)] by (simp add: lease_fits_def)
      from lease_take_home[OF lendingD(1)[OF i(2)] fits b] obtain slot where take: "lease_take d (rr_leases r) =
          (Ok \<lparr>lease_slot = slot, lease_bytes = b\<rparr>,
           (rr_leases r)\<lparr>lp_buffers := (lp_buffers (rr_leases r))[unat (ds_slot d) := None]\<rparr>)" by blast
      let ?l = "(rr_leases r)\<lparr>lp_buffers := (lp_buffers (rr_leases r))[unat (ds_slot d) := None]\<rparr>"
      have l: "lending (read_slots r @ [unat (ds_slot d)]) ?l" by (rule lending_taken[OF i(2) home])
      have room: "length (rr_outstanding r) < 4" using lendingD(5)[OF l] by (simp add: read_slots_def)
      have "validate_len (ds_len d) = Ok ()"
        using facts(3,4) by (auto simp: validate_len_def word_less_nat_alt)
      then have req: "Request_read name (ucast (ds_offset d)) (ds_len d) slot = Ok (ReadFile name (ucast (ds_offset d)) 0 (ds_len d) slot)"
        by (simp add: Request_read_def)
      let ?x = "\<lparr>or_sequence = rr_next_sequence r, or_descriptor = d\<rparr>"
      let ?r = "r\<lparr>rr_pipeline := pl, rr_leases := ?l, rr_next_sequence := next_id (rr_next_sequence r),
        rr_outstanding := rr_outstanding r @ [?x]\<rparr>"
      have run: "\<exists>req. readback_begin_read r = (Ok req, ?r)"
        using nostale name reserved(1) take room req by (simp add: readback_begin_read_def read_take_sequence_def Let_def)
      have aw: "awaiting pl x = awaiting (rr_pipeline r) x" if "x \<in> set (rp_queued (rr_pipeline r))" for x
        using other[OF that] reserved(9) by (simp add: awaiting_def)
      have "\<not> awaiting pl d" using reserved(9) by (simp add: awaiting_def)
      then have sent: "rr_sent r = filter (awaiting pl) (rp_queued pl)"
        using i(5) aw reserved(5) by (simp cong: filter_cong)
      have below: "unat (ds_offset x) < unat (ds_offset d)" if "x \<in> set (rp_queued (rr_pipeline r))" for x
      proof -
        note f = read_flow_active[OF i(1) reserved(3)]
        show ?thesis using tiling_member[OF f(6) that] held_facts(3)[OF f(2,1) that] reserved(6) by simp
      qed
      have "live_reads ?r"
      proof -
        have "claims (rp_pool pl) (unat (ds_slot (or_descriptor x))) = Some (or_descriptor x, SlStorageOwned)"
          if "x \<in> set (rr_outstanding r)" for x
          using live that other[of "or_descriptor x"] reserved(9) by (simp add: live_reads_def)
        moreover have "unat (ds_offset x) < unat (ds_offset d)" if "x \<in> set (rr_sent r)" for x
          using that i(5) below by auto
        ultimately show ?thesis
          using live below reserved(5,9) by (auto simp: live_reads_def sorted_wrt_append)
      qed
      moreover have "list_all2 (sent_frame ?l) (rr_sent r) S"
        using i(8)[OF reserved(3)]
      proof (rule list_all2_same_buffers)
        show "\<forall>x\<in>set (rr_sent r). lp_buffers ?l ! unat (ds_slot x) = lp_buffers (rr_leases r) ! unat (ds_slot x)"
        proof
          fix x assume "x \<in> set (rr_sent r)"
          then have "unat (ds_slot x) \<noteq> unat (ds_slot d)" using i(5) by (intro other) simp
          then show "lp_buffers ?l ! unat (ds_slot x) = lp_buffers (rr_leases r) ! unat (ds_slot x)" by (rule store_other)
        qed
      qed
      moreover have "rr_pending_open r = None" using i(4) reserved(3) by (cases "rr_pending_open r") auto
      ultimately have "readback_inv D S ?r"
        using reserved(2-4) l i(3) i(7)[OF reserved(3)] i(9)[OF reserved(3)] sent reserved(7)
        by (auto simp: readback_inv_def read_slots_def readback_generation_def)
      then show ?thesis using that(1) run by blast
    qed
  qed
qed

subsection \<open>Completing a read\<close>

definition read_returned :: "nat \<Rightarrow> BufferLease \<Rightarrow> BulkReadbackRuntime \<Rightarrow> BulkReadbackRuntime" where
  "read_returned pos lease r =
    r\<lparr>rr_leases := (rr_leases r)\<lparr>lp_buffers := (lp_buffers (rr_leases r))
        [unat (ds_slot (or_descriptor (rr_outstanding r ! pos))) := Some (lease_bytes lease)]\<rparr>,
      rr_outstanding := remove_at pos (rr_outstanding r)\<rparr>"

lemma read_returned_fields [simp]:
  "rr_pipeline (read_returned pos lease r) = rr_pipeline r" "rr_outstanding (read_returned pos lease r) = remove_at pos (rr_outstanding r)"
  "rr_pending_open (read_returned pos lease r) = rr_pending_open r" "rr_sent (read_returned pos lease r) = rr_sent r"
  "lp_generation (rr_leases (read_returned pos lease r)) = lp_generation (rr_leases r)"
  "rr_next_stream (read_returned pos lease r) = rr_next_stream r"
  by (simp_all add: read_returned_def)

lemma sorted_wrt_remove_at: "sorted_wrt R xs \<Longrightarrow> i < length xs \<Longrightarrow> sorted_wrt R (remove_at i xs)"
  by (subst (asm) remove_at_split[of i xs]) (auto simp: remove_at_def sorted_wrt_append)

text \<open>A sent block keeps its buffer while those of outstanding reads change.\<close>

lemma sent_not_read:
  assumes inv: "readback_inv D S r" and x: "x \<in> set (rr_sent r)" and y: "y \<in> set (rr_outstanding r)"
  shows "unat (ds_slot x) \<noteq> unat (ds_slot (or_descriptor y))"
proof
  assume eq: "unat (ds_slot x) = unat (ds_slot (or_descriptor y))"
  have "rp_queued (rr_pipeline r) \<noteq> []" "awaiting (rr_pipeline r) x" using x readback_invD(5)[OF inv] by auto
  moreover from this have "live_reads r" using readback_invD(6)[OF inv] by (auto simp: stale_reads_def)
  ultimately show False using y eq by (auto simp: live_reads_def awaiting_def)
qed

lemma read_returned_inv:
  assumes inv: "readback_inv D S r" and pos: "pos < length (rr_outstanding r)"
    and acc: "lease_accepted (or_descriptor (rr_outstanding r ! pos)) lease (rr_leases r)"
  shows "readback_inv D S (read_returned pos lease r)"
proof -
  note i = readback_invD[OF inv]
  let ?r = "read_returned pos lease r"
  have "lending (read_slots ?r) (rr_leases ?r)"
    using lending_restored[OF i(2), of pos "lease_bytes lease"] pos acc
    by (simp add: read_slots_def read_returned_def lease_accepted_def map_remove_at)
  moreover have "live_reads ?r \<or> stale_reads ?r"
    using i(6)
  proof
    assume "live_reads r"
    then have "live_reads ?r"
      using set_remove_at_subset[of pos "rr_outstanding r"] sorted_wrt_remove_at[OF _ pos] by (auto simp: live_reads_def)
    then show ?thesis ..
  next
    assume "stale_reads r"
    then have "stale_reads ?r"
      using set_remove_at_subset[of pos "rr_outstanding r"] by (auto simp: stale_reads_def)
    then show ?thesis ..
  qed
  moreover have "list_all2 (sent_frame (rr_leases ?r)) (rr_sent r) S" if s: "rp_active (rr_pipeline r) = Some s" for s
    using i(8)[OF s]
  proof (rule list_all2_same_buffers)
    show "\<forall>x\<in>set (rr_sent r). lp_buffers (rr_leases ?r) ! unat (ds_slot x) = lp_buffers (rr_leases r) ! unat (ds_slot x)"
    proof
      fix x assume "x \<in> set (rr_sent r)"
      then have "unat (ds_slot x) \<noteq> unat (ds_slot (or_descriptor (rr_outstanding r ! pos)))"
        using sent_not_read[OF inv] pos by simp
      then show "lp_buffers (rr_leases ?r) ! unat (ds_slot x) = lp_buffers (rr_leases r) ! unat (ds_slot x)"
        unfolding read_returned_def by (simp add: store_other del: BulkLeasePool.update_convs)
    qed
  qed
  moreover have "rr_pending_open r = None"
    using i(4) pos by (cases "rr_pending_open r") auto
  ultimately show ?thesis
    using i(1,3,5) i(7) i(9) by (auto simp: readback_inv_def split: option.splits)
qed

lemma read_sent_inv:
  assumes inv: "readback_inv D S r" and live: "live_reads r" and s: "rp_active (rr_pipeline r) = Some s"
    and d: "d \<in> set (rp_queued (rr_pipeline r))" and c: "claims (rp_pool (rr_pipeline r)) (unat (ds_slot d)) = Some (d, SlStorageOwned)"
    and b: "lp_buffers (rr_leases r) ! unat (ds_slot d) = Some b"
    and before: "\<forall>x\<in>set (rr_sent r). unat (ds_offset x) < unat (ds_offset d)"
    and after: "\<forall>x\<in>set (rr_outstanding r). unat (ds_offset d) < unat (ds_offset (or_descriptor x))"
  obtains pl pl' frame where "readback_complete_read d (rr_pipeline r) = (Ok (), pl)" "length (rr_sent r) < 4"
      "lease_bytes_of d (rr_leases r) = Ok (take (unat (ds_len d)) b)"
      "mark_sent d (take (unat (ds_len d)) b) pl = (Ok frame, pl')"
      "frame = \<lparr>bd_stream_id = rb_stream_id s, bd_offset = ds_offset d,
        bd_end_of_data = (unat (ds_offset d) + unat (ds_len d) = unat (rb_total_size s)), bd_data = take (unat (ds_len d)) b\<rparr>"
      "readback_inv D (S @ [frame]) (r\<lparr>rr_pipeline := pl', rr_sent := rr_sent r @ [d]\<rparr>)"
proof -
  note i = readback_invD[OF inv]
  note facts = read_facts[OF inv d]
  note f = read_flow_active[OF i(1) s]
  have lenb: "length b = 3584" using leases_ok_nth[OF lendingD(1)[OF i(2)] facts(1) b] .
  obtain pool where cr: "readback_complete_read d (rr_pipeline r) = (Ok (), (rr_pipeline r)\<lparr>rp_pool := pool\<rparr>)"
      "read_flow ((rr_pipeline r)\<lparr>rp_pool := pool\<rparr>)"
      "claims pool = (claims (rp_pool (rr_pipeline r)))(unat (ds_slot d) \<mapsto> (d, SlTxReady))"
      "bp_generation pool = bp_generation (rp_pool (rr_pipeline r))"
    using i(1)
  proof (cases rule: readback_complete_read_cases[where d = d])
    case (refused e)
    then show ?thesis using d c by blast
  qed (use that in blast)
  let ?pl = "(rr_pipeline r)\<lparr>rp_pool := pool\<rparr>" and ?data = "take (unat (ds_len d)) b"
  have "rp_active ?pl = Some s" "d \<in> set (rp_queued ?pl)" "claims (rp_pool ?pl) (unat (ds_slot d)) = Some (d, SlTxReady)"
    "length ?data = unat (ds_len d)"
    using s d cr(3) lenb facts(4) by simp_all
  then obtain pool' frame where ms0: "mark_sent d ?data ?pl = (Ok frame, ?pl\<lparr>rp_pool := pool'\<rparr>)"
      "read_flow (?pl\<lparr>rp_pool := pool'\<rparr>)" "claims pool' = (claims (rp_pool ?pl))(unat (ds_slot d) \<mapsto> (d, SlAwaitingAck))"
      "bp_generation pool' = bp_generation (rp_pool ?pl)"
      "frame = \<lparr>bd_stream_id = rb_stream_id s, bd_offset = ds_offset d,
        bd_end_of_data = (unat (ds_offset d) + unat (ds_len d) = unat (rb_total_size s)), bd_data = ?data\<rparr>"
    by (rule mark_sent_Ok[OF cr(2)])
  have "claims pool' = (claims pool)(unat (ds_slot d) \<mapsto> (d, SlAwaitingAck))" "bp_generation pool' = bp_generation pool"
    using ms0(3,4) by simp_all
  note ms = ms0(1,2) this ms0(5)
  let ?pl2 = "(rr_pipeline r)\<lparr>rp_pool := pool'\<rparr>"
  let ?r = "r\<lparr>rr_pipeline := ?pl2, rr_sent := rr_sent r @ [d]\<rparr>"
  have other: "unat (ds_slot x) \<noteq> unat (ds_slot d)" if "x \<in> set (rp_queued (rr_pipeline r))" "x \<noteq> d" for x
    using held_same[OF f(2) that(1) d] that(2) by blast
  have "filter (awaiting ?pl2) (rp_queued (rr_pipeline r)) = filter (awaiting (rr_pipeline r)) (rp_queued (rr_pipeline r)) @ [d]"
  proof (rule filter_mark_next[OF f(6) _ d])
    show "\<forall>x\<in>set (rp_queued (rr_pipeline r)). 0 < unat (ds_len x)" using held_facts(3)[OF f(2,1)] by blast
    show "\<not> awaiting (rr_pipeline r) d" using c by (simp add: awaiting_def)
    show "awaiting ?pl2 d" using ms(3) by (simp add: awaiting_def)
    show "\<forall>x\<in>set (rp_queued (rr_pipeline r)). awaiting (rr_pipeline r) x \<longrightarrow> unat (ds_offset x) < unat (ds_offset d)"
      using before i(5) by simp
    show "\<forall>x\<in>set (rp_queued (rr_pipeline r)). x \<noteq> d \<longrightarrow> awaiting ?pl2 x = awaiting (rr_pipeline r) x"
      using other ms(3) cr(3) by (simp add: awaiting_def)
  qed
  then have sent: "rr_sent r @ [d] = filter (awaiting ?pl2) (rp_queued (rr_pipeline r))" using i(5) by simp
  have "length (filter (awaiting ?pl2) (rp_queued (rr_pipeline r))) \<le> 4"
    by (rule order_trans[OF length_filter_le]) (use f(3,5) in \<open>simp add: read_session_ok_def\<close>)
  then have room: "length (rr_sent r) < 4" using arg_cong[OF sent, of length] by simp
  have "live_reads ?r"
  proof -
    have "unat (ds_slot (or_descriptor x)) \<noteq> unat (ds_slot d)" if "x \<in> set (rr_outstanding r)" for x
      using other[of "or_descriptor x"] live that after by (auto simp: live_reads_def)
    then show ?thesis using live after ms(3) cr(3) by (auto simp: live_reads_def)
  qed
  moreover have "list_all2 (sent_frame (rr_leases r)) (rr_sent r @ [d]) (S @ [frame])"
    using i(8)[OF s] b ms(5) by (intro list_all2_appendI) (simp_all add: sent_frame_def)
  moreover have "rr_pending_open r = None" using i(4) s by (cases "rr_pending_open r") auto
  ultimately have "readback_inv D (S @ [frame]) ?r"
    using i(2,3) i(7)[OF s] i(9)[OF s] s sent ms(2,4) cr(4) by (simp add: readback_inv_def read_slots_def readback_generation_def)
  then show ?thesis
    using that[OF cr(1) room] lease_bytes_home[OF lendingD(1)[OF i(2)] facts(5)[OF s] b] ms by simp
qed

lemma readback_complete_read_runtime_cases:
  assumes inv: "readback_inv D S r"
  obtains (unchanged) e where "readback_runtime_complete_read response r = (Err e, r)"
  | (back_home) x pos lease where "readback_runtime_complete_read response r = (x, read_returned pos lease r)"
      "readback_inv D S (read_returned pos lease r)" "x = Ok None \<or> (\<exists>e. x = Err e)"
  | (sent) s and d :: BulkSlotDescriptor and lease frame r' where
      "readback_runtime_complete_read response r = (Ok (Some frame), r')" "rp_active (rr_pipeline r) = Some s"
      "ors_buffer response = Some lease" "rs_response (ors_envelope response) = Ok (RespRead (ds_len d))"
      "frame = \<lparr>bd_stream_id = rb_stream_id s, bd_offset = ds_offset d,
        bd_end_of_data = (unat (ds_offset d) + unat (ds_len d) = unat (rb_total_size s)),
        bd_data = take (unat (ds_len d)) (lease_bytes lease)\<rparr>"
      "readback_inv D (S @ [frame]) r'"
proof (cases "position (\<lambda>x. or_sequence x = rs_sequence (ors_envelope response)) (rr_outstanding r)")
  case None
  then show ?thesis using unchanged by (simp add: readback_runtime_complete_read_def del: position_None)
next
  case (Some pos)
  note i = readback_invD[OF inv]
  let ?d = "or_descriptor (rr_outstanding r ! pos)"
  have pos: "pos < length (rr_outstanding r)" and sq: "or_sequence (rr_outstanding r ! pos) = rs_sequence (ors_envelope response)"
    using position_SomeD[OF Some] by simp_all
  show ?thesis
  proof (cases "\<exists>lease. ors_buffer response = Some lease \<and> lease_accepted ?d lease (rr_leases r)")
    case False
    have "\<exists>e. readback_runtime_complete_read response r = (Err e, r)"
    proof (cases "ors_buffer response")
      case (Some lease)
      then obtain e where "lease_restore ?d lease (rr_leases r) = (Err e, rr_leases r)"
        using False lease_restore_refused[of ?d lease "rr_leases r"] by auto
      then show ?thesis
        using Some \<open>position _ _ = Some pos\<close> by (simp add: readback_runtime_complete_read_def Let_def)
    qed (use Some in \<open>simp add: readback_runtime_complete_read_def Let_def\<close>)
    then show ?thesis using unchanged by blast
  next
    case True
    then obtain lease where lease: "ors_buffer response = Some lease" and acc: "lease_accepted ?d lease (rr_leases r)" by blast
    note rinv = read_returned_inv[OF inv pos acc]
    have slot: "bulk_index (lease_slot lease) = Some (ds_slot ?d)" using acc by (simp only: lease_accepted_def)
    have rest: "lease_restore ?d lease (rr_leases r) = (Ok (), rr_leases (read_returned pos lease r))"
      using lease_restore_accepted[OF acc] by (simp add: read_returned_def)
    have eq: "r\<lparr>rr_leases := rr_leases (read_returned q lease r), rr_outstanding := remove_at q (rr_outstanding r)\<rparr> = read_returned q lease r" for q
      by (simp add: read_returned_def)
    show ?thesis
    proof (cases "rs_client (ors_envelope response) = ScDiagnostic \<and> ds_generation ?d = readback_generation (rr_pipeline r) \<and>
        pos = 0 \<and> rs_response (ors_envelope response) = Ok (RespRead (ds_len ?d))")
      case False
      then have "\<exists>x. readback_runtime_complete_read response r = (x, read_returned pos lease r) \<and> (x = Ok None \<or> (\<exists>e. x = Err e))"
        using Some lease rest slot sq
        by (cases "rs_response (ors_envelope response)")
          (auto simp: readback_runtime_complete_read_def read_validate_response_def Let_def eq split: Response.splits)
      then show ?thesis using back_home rinv by blast
    next
      case True
      then have dg: "ds_generation ?d = readback_generation (rr_pipeline r)" and p0: "pos = 0" by blast+
      let ?r = "read_returned 0 lease r"
      have live: "live_reads r" using i(6) dg pos nth_mem[OF pos] by (auto simp: stale_reads_def)
      then have d: "?d \<in> set (rp_queued (rr_pipeline r))"
        and c: "claims (rp_pool (rr_pipeline r)) (unat (ds_slot ?d)) = Some (?d, SlStorageOwned)"
        using nth_mem[OF pos] by (auto simp: live_reads_def)
      have "rp_active (rr_pipeline r) \<noteq> None"
      proof
        assume "rp_active (rr_pipeline r) = None"
        from inactive_queue[OF i(1) this] d show False by simp
      qed
      then obtain s where s: "rp_active (rr_pipeline r) = Some s" by auto
      have rinv0: "readback_inv D S ?r" using rinv p0 by simp
      obtain x xs where out: "rr_outstanding r = x # xs" using pos by (cases "rr_outstanding r") auto
      have dx: "?d = or_descriptor x" using out p0 by simp
      have live0: "live_reads ?r"
        using live out by (auto simp: live_reads_def)
      have four: "length (lp_buffers (rr_leases r)) = 4" using lendingD(1)[OF i(2)] by (simp add: leases_ok_def)
      have b: "lp_buffers (rr_leases ?r) ! unat (ds_slot ?d) = Some (lease_bytes lease)"
        using read_facts(1)[OF inv d] four p0 by (simp add: read_returned_def)
      obtain pl pl' frame where sent: "readback_complete_read ?d (rr_pipeline ?r) = (Ok (), pl)" "length (rr_sent ?r) < 4"
          "lease_bytes_of ?d (rr_leases ?r) = Ok (take (unat (ds_len ?d)) (lease_bytes lease))"
          "mark_sent ?d (take (unat (ds_len ?d)) (lease_bytes lease)) pl = (Ok frame, pl')"
          "frame = \<lparr>bd_stream_id = rb_stream_id s, bd_offset = ds_offset ?d,
            bd_end_of_data = (unat (ds_offset ?d) + unat (ds_len ?d) = unat (rb_total_size s)),
            bd_data = take (unat (ds_len ?d)) (lease_bytes lease)\<rparr>"
          "readback_inv D (S @ [frame]) (?r\<lparr>rr_pipeline := pl', rr_sent := rr_sent ?r @ [?d]\<rparr>)"
      proof (rule read_sent_inv[OF rinv0 live0 _ _ _ b])
        show "rp_active (rr_pipeline ?r) = Some s" using s by simp
        show "?d \<in> set (rp_queued (rr_pipeline ?r))" using d by simp
        show "claims (rp_pool (rr_pipeline ?r)) (unat (ds_slot ?d)) = Some (?d, SlStorageOwned)" using c by simp
        show "\<forall>x\<in>set (rr_sent ?r). unat (ds_offset x) < unat (ds_offset ?d)"
          using live nth_mem[OF pos] by (auto simp: live_reads_def)
        show "\<forall>x\<in>set (rr_outstanding ?r). unat (ds_offset ?d) < unat (ds_offset (or_descriptor x))"
          using live out dx by (auto simp: live_reads_def)
      qed (rule that)
      let ?r' = "?r\<lparr>rr_pipeline := pl', rr_sent := rr_sent ?r @ [?d]\<rparr>"
      have "readback_runtime_complete_read response r = (Ok (Some frame), ?r')"
        using Some lease rest dg True sent(1-4) eq sq
        by (simp add: readback_runtime_complete_read_def read_validate_response_def Let_def)
      then show ?thesis
        using that(3)[of frame ?r' s lease ?d] s lease True sent(5,6) by simp
    qed
  qed
qed

subsection \<open>Credits\<close>

lemma collect_ok_map:
  "\<forall>x\<in>set xs. f x = Ok (g x) \<Longrightarrow> collect_ok (map f xs) = Ok (map g xs)"
  by (induction xs) simp_all

lemma sent_frame_data:
  assumes "leases_ok leases" and "unat (ds_slot d) < 4" and "unat (ds_len d) \<le> 3584" and "sent_frame leases d f"
  shows "length (bd_data f) = unat (ds_len d)"
  using assms leases_ok_nth[of leases "unat (ds_slot d)"] by (auto simp: sent_frame_def)

text \<open>The frames \<open>fs\<close> carry the bytes from offset \<open>a\<close> to offset \<open>b\<close>, in order.\<close>

fun frames_cover :: "nat \<Rightarrow> StoreBulkData list \<Rightarrow> nat \<Rightarrow> bool" where
  "frames_cover a [] b \<longleftrightarrow> a = b"
| "frames_cover a (f # fs) b \<longleftrightarrow> unat (bd_offset f) = a \<and> frames_cover (a + length (bd_data f)) fs b"

lemma frames_cover_tiling:
  "list_all2 (\<lambda>d f. bd_offset f = ds_offset d \<and> length (bd_data f) = unat (ds_len d)) ds fs \<Longrightarrow> tiling a ds b \<Longrightarrow> frames_cover a fs b"
  by (induction ds fs arbitrary: a rule: list_all2_induct) auto

lemma readback_runtime_credit_cases:
  assumes inv: "readback_inv D S r"
  obtains (acked) n r' where "readback_runtime_apply_credit credit r = (Ok (), r')" "n = unat (bc_credits credit)" "0 < n" "n \<le> length S"
      "readback_inv (D @ concat (map bd_data (take n S))) (drop n S) r'"
      "frames_cover (length D) (take n S) (unat (bc_durable_offset credit))"
      "unat (bc_durable_offset credit) = length D + length (concat (map bd_data (take n S)))"
      "readback_durable_offset (rr_pipeline r') = bc_durable_offset credit"
  | (refused) e where "readback_runtime_apply_credit credit r = (Err e, r)"
proof -
  note i = readback_invD[OF inv]
  let ?n = "unat (bc_credits credit)" and ?q = "rp_queued (rr_pipeline r)"
  show ?thesis
  proof (cases "?n = 0 \<or> ?n > length (rr_sent r)")
    case True
    then show ?thesis using refused by (auto simp: readback_runtime_apply_credit_def Let_def)
  next
    case False
    then have "rr_sent r \<noteq> []" by auto
    then have "?q \<noteq> []" using i(5) by auto
    have active: "rp_active (rr_pipeline r) \<noteq> None"
    proof
      assume "rp_active (rr_pipeline r) = None"
      from inactive_queue[OF i(1) this] \<open>?q \<noteq> []\<close> show False by simp
    qed
    then obtain s where s: "rp_active (rr_pipeline r) = Some s" by auto
    note f = read_flow_active[OF i(1) s]
    note frames = i(8)[OF s]
    have lenS: "length S = length (rr_sent r)" using frames by (simp add: list_all2_lengthD)
    have inq: "d \<in> set ?q" if "d \<in> set (rr_sent r)" for d using that i(5) by simp
    have data: "bd_offset (S ! j) = ds_offset (rr_sent r ! j) \<and> length (bd_data (S ! j)) = unat (ds_len (rr_sent r ! j)) \<and>
        lease_bytes_of (rr_sent r ! j) (rr_leases r) = Ok (bd_data (S ! j))" if "j < length (rr_sent r)" for j
    proof -
      have d: "rr_sent r ! j \<in> set ?q" using inq that by simp
      have sf: "sent_frame (rr_leases r) (rr_sent r ! j) (S ! j)" using frames that by (simp add: list_all2_nthD)
      note rf = read_facts[OF inv d]
      have "lease_bytes_of (rr_sent r ! j) (rr_leases r) = Ok (bd_data (S ! j))"
        using sf lease_bytes_home[OF lendingD(1)[OF i(2)] rf(5)[OF s]] by (auto simp: sent_frame_def)
      then show ?thesis using sf sent_frame_data[OF lendingD(1)[OF i(2)] rf(1,4) sf] by (simp add: sent_frame_def)
    qed
    have collected: "collect_ok (map (\<lambda>d. lease_bytes_of d (rr_leases r)) (take ?n (rr_sent r))) =
        (Ok (map bd_data (take ?n S)) :: (bytes list, BulkLeaseError) res)"
    proof -
      have "map (\<lambda>d. lease_bytes_of d (rr_leases r)) (take ?n (rr_sent r)) = map (\<lambda>x. Ok (bd_data x)) (take ?n S)"
        using data lenS False by (intro nth_equalityI) simp_all
      moreover have "collect_ok (map (\<lambda>x. Ok (bd_data x)) xs) = (Ok (map bd_data xs) :: (bytes list, BulkLeaseError) res)" for xs :: "StoreBulkData list"
        by (rule collect_ok_map) simp
      ultimately show ?thesis by simp
    qed
    have whole: "take n (rr_sent r) = take n ?q" "drop n (rr_sent r) = filter (awaiting (rr_pipeline r)) (drop n ?q)"
      if "\<forall>d\<in>set (take n ?q). claims (rp_pool (rr_pipeline r)) (unat (ds_slot d)) = Some (d, SlAwaitingAck)" "n \<le> length ?q" for n
      using filter_prefix[of n ?q "awaiting (rr_pipeline r)"] that i(5) by (simp_all add: awaiting_def)
    have lens: "\<forall>j<n. length (map bd_data (take ?n S) ! j) = unat (ds_len (?q ! j))"
      if "n \<le> length ?q" "length (map bd_data (take ?n S)) = n"
        "\<forall>d\<in>set (take n ?q). claims (rp_pool (rr_pipeline r)) (unat (ds_slot d)) = Some (d, SlAwaitingAck)" for n
    proof (intro allI impI)
      fix j assume j: "j < n"
      have n: "n = ?n" using that(2) lenS False by simp
      have "rr_sent r ! j = ?q ! j" using whole(1)[OF that(3,1)] j nth_take[of j n] by metis
      then show "length (map bd_data (take ?n S) ! j) = unat (ds_len (?q ! j))"
        using data[of j] j n lenS False by simp
    qed
    have lens': "\<forall>n. n \<le> length ?q \<longrightarrow> length (map bd_data (take ?n S)) = n \<longrightarrow>
        (\<forall>d\<in>set (take n ?q). claims (rp_pool (rr_pipeline r)) (unat (ds_slot d)) = Some (d, SlAwaitingAck)) \<longrightarrow>
        (\<forall>j<n. length (map bd_data (take ?n S) ! j) = unat (ds_len (?q ! j)))"
      using lens by blast
    from i(1) lens' show ?thesis
    proof (cases rule: readback_apply_credit_cases[where credit = credit])
      case (refused e)
      then show ?thesis
        using that(2) False collected by (simp add: readback_runtime_apply_credit_def Let_def)
    next
      case (acked s' n pl)
      have s': "s' = s" and n: "n = ?n" using acked(2,3) s by simp_all
      note w = whole[OF acked(7,5)]
      let ?r = "r\<lparr>rr_pipeline := pl, rr_sent := drop n (rr_sent r)\<rparr>"
      have run: "readback_runtime_apply_credit credit r = (Ok (), ?r)"
        using False collected acked(1) n by (simp add: readback_runtime_apply_credit_def Let_def)
      have rest: "x \<in> set (drop n ?q)" if "x \<in> set ?q" "claims (rp_pool (rr_pipeline r)) (unat (ds_slot x)) = Some (x, SlStorageOwned)" for x
      proof -
        have "set ?q = set (take n ?q) \<union> set (drop n ?q)" by (metis append_take_drop_id set_append)
        then show ?thesis using that acked(7) by auto
      qed
      have sent: "drop n (rr_sent r) = filter (awaiting pl) (rp_queued pl)"
        unfolding w(2) acked(9) using acked(13) by (intro filter_cong) (simp_all add: awaiting_def)
      have "live_reads ?r \<or> stale_reads ?r"
        using i(6)
      proof
        assume live: "live_reads r"
        have "or_descriptor x \<in> set (drop n ?q)" if "x \<in> set (rr_outstanding r)" for x
          using live that rest by (simp add: live_reads_def)
        then have "live_reads ?r"
          using live acked(9,13) by (auto simp: live_reads_def dest: in_set_dropD)
        then show ?thesis ..
      next
        assume "stale_reads r"
        then show ?thesis using \<open>?q \<noteq> []\<close> by (simp add: stale_reads_def)
      qed
      moreover have "list_all2 (sent_frame (rr_leases r)) (drop n (rr_sent r)) (drop n S)"
        using frames by (rule list_all2_dropI)
      moreover have "rr_pending_open r = None" using i(4) s by (cases "rr_pending_open r") auto
      moreover have "update (rb_crc_state s) (concat (map bd_data (take n S))) = update (- 1) (D @ concat (map bd_data (take n S)))"
        using i(9)[OF s] by (simp add: update_append)
      ultimately have inv': "readback_inv (D @ concat (map bd_data (take n S))) (drop n S) ?r"
        using i(2,3) i(7)[OF s] i(9)[OF s] acked(8,10,11,12) sent n s'
        by (simp add: readback_inv_def read_slots_def readback_generation_def)
      have durable: "unat (bc_durable_offset credit) = length D + length (concat (map bd_data (take n S)))"
        using acked(11) i(9)[OF s] n s' by simp
      have "tiling (unat (rb_durable_offset s)) (take n ?q) (unat (bc_durable_offset credit))"
      proof -
        obtain m where m: "tiling (unat (rb_durable_offset s)) (take n ?q) m"
          using f(6) tiling_append[of _ "take n ?q" "drop n ?q"] by auto
        have "length (concat (map bd_data (take n S))) = sum_list (map (\<lambda>d. unat (ds_len d)) (take n ?q))"
          using lens[OF acked(5) _ acked(7)] n acked(5) lenS False by (intro length_concat_blocks) simp_all
        then show ?thesis using m tiling_sum[OF m] durable i(9)[OF s] by simp
      qed
      moreover have "list_all2 (\<lambda>d f. bd_offset f = ds_offset d \<and> length (bd_data f) = unat (ds_len d)) (take n ?q) (take n S)"
        unfolding w(1)[symmetric] using data lenS False n by (auto simp: list_all2_conv_all_nth)
      ultimately have "frames_cover (length D) (take n S) (unat (bc_durable_offset credit))"
        using frames_cover_tiling i(9)[OF s] by simp
      then show ?thesis
        using that(1)[OF run n acked(4)] inv' durable acked(10) lenS False n by (simp add: readback_durable_offset_def)
    qed
  qed
qed

subsection \<open>Status, finishing and aborting\<close>

text \<open>
  A status request and an abort start a new generation.  A generation is a counter of 32 bits that skips zero: the reads that
  are outstanding are not mistaken for new ones as long as none of them is 2 ^ 32 - 1 status requests old.
\<close>

definition no_generation_wrap :: "BulkReadbackRuntime \<Rightarrow> bool" where
  "no_generation_wrap r \<longleftrightarrow>
    list_all (\<lambda>x. ds_generation (or_descriptor x) \<noteq> next_id (readback_generation (rr_pipeline r))) (rr_outstanding r)"

lemma next_generation_max: "max (next_id g) (1 :: u32) = next_id g"
proof -
  have "1 \<le> next_id g" using next_id_neq(1)[of g] by (simp add: word_le_nat_alt unat_gt_0 Suc_le_eq)
  then show ?thesis by (simp add: max_def)
qed

lemma readback_status_inv:
  assumes inv: "readback_inv D S r" and wrap: "no_generation_wrap r"
  shows "readback_inv D (if is_ok (fst (readback_runtime_status sid r)) then [] else S) (snd (readback_runtime_status sid r))"
proof -
  note i = readback_invD[OF inv]
  from i(1) show ?thesis
  proof (cases rule: readback_status_cases[where sid = sid])
    case (answered s x p')
    have "rr_pending_open r = None" using i(4) answered(2) by (cases "rr_pending_open r") auto
    then have "readback_inv D [] (r\<lparr>rr_pipeline := p', rr_leases := lease_invalidate (readback_generation p') (rr_leases r), rr_sent := []\<rparr>)"
      using i(2,3) i(9)[OF answered(2)] answered(2-6) wrap
      by (auto simp: readback_inv_def read_slots_def stale_reads_def readback_generation_def next_generation_max
          lease_invalidate_def no_generation_wrap_def list_all_iff)
    then show ?thesis using answered(1) by (simp add: readback_runtime_status_def Let_def)
  next
    case (refused e)
    then show ?thesis using inv by (simp add: readback_runtime_status_def Let_def)
  qed
qed

lemma readback_runtime_finish_cases:
  assumes inv: "readback_inv D S r"
  obtains (finished) s r' where "readback_runtime_finish sid r =
        (Ok \<lparr>bf_stream_id = sid, bf_result = Uc_Ok, bf_total_bytes = rb_total_size s, bf_computed_crc32 = iso_hdlc D\<rparr>, r')"
      "rp_active (rr_pipeline r) = Some s" "rb_stream_id s = sid" "length D = unat (rb_total_size s)" "rr_sent r = []"
      "readback_inv D S r'" "rp_active (rr_pipeline r') = None"
  | (refused) e where "readback_runtime_finish sid r = (Err e, r)"
proof -
  note i = readback_invD[OF inv]
  from i(1) show ?thesis
  proof (cases rule: readback_finish_cases[where sid = sid])
    case (finished s)
    let ?r = "r\<lparr>rr_pipeline := (rr_pipeline r)\<lparr>rp_active := None\<rparr>, rr_name := None\<rparr>"
    have "rr_sent r = []" using i(5) finished(3) by simp
    moreover have "readback_inv D S ?r"
      using i(2-6) finished(3,6) by (auto simp: readback_inv_def read_slots_def live_reads_def stale_reads_def awaiting_def readback_generation_def)
    ultimately show ?thesis
      using that(1)[of s ?r] finished i(9)[OF finished(1)]
      by (simp add: readback_runtime_finish_def Let_def iso_hdlc_def ones32)
  next
    case (refused e)
    then show ?thesis using that(2) by (simp add: readback_runtime_finish_def Let_def)
  qed
qed

lemma readback_abort_inv:
  assumes inv: "readback_inv D S r" and wrap: "no_generation_wrap r"
  shows "readback_inv D S (snd (readback_runtime_abort sid r))"
proof -
  note i = readback_invD[OF inv]
  from i(1) show ?thesis
  proof (cases rule: readback_abort_cases[where sid = sid])
    case (aborted s p')
    have "rr_pending_open r = None" using i(4) aborted(1) by (cases "rr_pending_open r") auto
    then show ?thesis
      using i(2,3) aborted(3-7) wrap
      by (auto simp: readback_runtime_abort_def Let_def readback_inv_def read_slots_def stale_reads_def readback_generation_def
          no_generation_wrap_def list_all_iff)
  next
    case again
    then have "rp_queued (rr_pipeline r) = []" using inactive_queue i(1) by blast
    then show ?thesis
      using i again by (auto simp: readback_runtime_abort_def Let_def readback_inv_def read_slots_def live_reads_def stale_reads_def)
  next
    case (refused e)
    then show ?thesis using inv by (simp add: readback_runtime_abort_def Let_def)
  qed
qed

subsection \<open>The runtime as a state machine\<close>

text \<open>
  Any call of the runtime, with any arguments and any response of the owner.  \<open>D\<close> are the bytes that the host has
  acknowledged since the readback was opened, \<open>S\<close> the frames sent and not yet acknowledged.
\<close>

definition frame_sent :: "(StoreBulkData option, BulkReadbackRuntimeError) res \<Rightarrow> StoreBulkData list" where
  "frame_sent result = (case result of Ok (Some frame) \<Rightarrow> [frame] | _ \<Rightarrow> [])"

definition acked_count :: "StoreBulkCredit \<Rightarrow> BulkReadbackRuntime \<Rightarrow> nat" where
  "acked_count credit r = (if is_ok (fst (readback_runtime_apply_credit credit r)) then unat (bc_credits credit) else 0)"

inductive readback_run_step ::
    "BulkReadbackRuntime \<times> bytes \<times> StoreBulkData list \<Rightarrow> BulkReadbackRuntime \<times> bytes \<times> StoreBulkData list \<Rightarrow> bool" where
  begin_open: "readback_run_step (r, D, S) (snd (readback_begin_open q r), D, S)"
| complete_open: "readback_run_step (r, D, S) (snd (readback_complete_open response r),
    if is_ok (fst (readback_complete_open response r)) then ([], []) else (D, S))"
| begin_read: "readback_run_step (r, D, S) (snd (readback_begin_read r), D, S)"
| complete_read: "readback_run_step (r, D, S)
    (snd (readback_runtime_complete_read response r), D, S @ frame_sent (fst (readback_runtime_complete_read response r)))"
| credit: "readback_run_step (r, D, S) (snd (readback_runtime_apply_credit credit r),
    D @ concat (map bd_data (take (acked_count credit r) S)), drop (acked_count credit r) S)"
| status: "no_generation_wrap r \<Longrightarrow> readback_run_step (r, D, S)
    (snd (readback_runtime_status sid r), D, if is_ok (fst (readback_runtime_status sid r)) then [] else S)"
| finish: "readback_run_step (r, D, S) (snd (readback_runtime_finish sid r), D, S)"
| abort_read: "no_generation_wrap r \<Longrightarrow> readback_run_step (r, D, S) (snd (readback_runtime_abort sid r), D, S)"

definition readback_run_init :: "BulkReadbackRuntime \<times> bytes \<times> StoreBulkData list \<Rightarrow> bool" where
  "readback_run_init s \<longleftrightarrow> (\<exists>leases. lending [] leases \<and> fst s = readback_from_lease_pool leases)"

lemma readback_run_step_inv:
  assumes "readback_run_step (r, D, S) (r', D', S')" and inv: "readback_inv D S r"
  shows "readback_inv D' S' r'"
  using assms(1)
proof cases
  case (begin_open q)
  then show ?thesis using inv by (cases rule: readback_begin_open_cases[OF inv, of q]) auto
next
  case (complete_open response)
  then show ?thesis using inv by (cases rule: readback_complete_open_cases[OF inv, of response]) auto
next
  case begin_read
  then show ?thesis using inv by (cases rule: readback_begin_read_cases[OF inv]) auto
next
  case (complete_read response)
  then show ?thesis
    using inv by (cases rule: readback_complete_read_runtime_cases[OF inv, of response]) (auto simp: frame_sent_def)
next
  case (credit credit)
  then show ?thesis
    using inv by (cases rule: readback_runtime_credit_cases[OF inv, of credit]) (auto simp: acked_count_def)
next
  case (status sid)
  then show ?thesis using readback_status_inv[OF inv] by simp
next
  case (finish sid)
  then show ?thesis using inv by (cases rule: readback_runtime_finish_cases[OF inv, of sid]) auto
next
  case (abort_read sid)
  then show ?thesis using readback_abort_inv[OF inv] by simp
qed

interpretation readback_run: machine readback_run_init readback_run_step "\<lambda>(r, D, S). readback_inv D S r"
proof
  show "case s of (r, D, S) \<Rightarrow> readback_inv D S r" if "readback_run_init s" for s
    using that readback_new by (cases s) (auto simp: readback_run_init_def)
  show "case t of (r, D, S) \<Rightarrow> readback_inv D S r"
    if "case s of (r, D, S) \<Rightarrow> readback_inv D S r" "readback_run_step s t" for s t
    using that readback_run_step_inv by (cases s; cases t) auto
qed



subsection \<open>A concrete readback\<close>

definition sample_read_request :: StoreBulkOpenRequest where
  "sample_read_request = \<lparr>obr_direction = Td_Readback, obr_backend = Sb_Sd, obr_requested_window = 1, obr_requested_chunk = 512,
    obr_name = [97], obr_total_size = 0, obr_expected_crc32 = 0\<rparr>"

definition sample_read_opened :: BulkReadbackRuntime where
  "sample_read_opened = snd (readback_complete_open (sample_response 500000 (RespFileSize 1) None)
    (snd (readback_begin_open sample_read_request (readback_from_lease_pool sample_leases))))"

definition sample_read_started :: BulkReadbackRuntime where
  "sample_read_started = snd (readback_begin_read sample_read_opened)"

definition sample_read_response :: OwnedResponse where
  "sample_read_response = sample_response 500001 (RespRead 1) (Some \<lparr>lease_slot = Bulk0, lease_bytes = 42 # drop 1 sample_block\<rparr>)"

definition sample_read_sent :: BulkReadbackRuntime where
  "sample_read_sent = snd (readback_runtime_complete_read sample_read_response sample_read_started)"

definition sample_credit :: StoreBulkCredit where
  "sample_credit = \<lparr>bc_stream_id = 1, bc_durable_offset = 1, bc_credits = 1, bc_status = St_Ok\<rparr>"

definition sample_read_acked :: BulkReadbackRuntime where
  "sample_read_acked = snd (readback_runtime_apply_credit sample_credit sample_read_sent)"

lemma sample_read_opened_eq: "sample_read_opened = \<lparr>rr_pipeline = \<lparr>rp_pool = snd (begin_session BulkSlotPool_new), rp_queued = [],
    rp_active = Some \<lparr>rb_stream_id = 1, rb_total_size = 1, rb_chunk_size = 512, rb_window = 1, rb_produced_offset = 0,
      rb_durable_offset = 0, rb_crc_state = - 1\<rparr>, rp_aborted_tombstone = None\<rparr>,
    rr_leases = sample_leases\<lparr>lp_generation := 1\<rparr>, rr_pending_open = None, rr_name = Some [97], rr_outstanding = [],
    rr_sent = [], rr_next_sequence = 500001, rr_next_stream = 2\<rparr>"
  by (simp add: sample_read_opened_def sample_read_request_def sample_response_def readback_begin_open_def readback_complete_open_def
      readback_from_lease_pool_def sample_leases_def readback_is_active_def BulkReadbackPipeline_new_def READ_FIRST_SEQUENCE_def
      FIRST_STREAM_def read_select_chunk_def read_select_window_def StorageName_new_def read_take_sequence_def
      read_take_stream_def read_validate_response_def readback_open_def readback_generation_def Let_def next_id_def
      begin_session_def pool_invalidate_def BulkSlotPool_new_def lease_begin_session_def BulkLeasePool_new_def lease_available_def)

definition sample_read_descriptor :: BulkSlotDescriptor where
  "sample_read_descriptor = \<lparr>ds_slot = 0, ds_generation = 1, ds_offset = 0, ds_len = 1, ds_direction = Td_Readback\<rparr>"

definition sample_read_free :: BulkSlot where
  "sample_read_free = \<lparr>sl_generation = 1, sl_offset = 0, sl_len = 0, sl_direction = Td_Unspecified, sl_state = SlFree\<rparr>"

lemma sample_read_started_eq: "sample_read_started = \<lparr>rr_pipeline = \<lparr>rp_pool = \<lparr>bp_slots = [\<lparr>sl_generation = 1, sl_offset = 0,
        sl_len = 1, sl_direction = Td_Readback, sl_state = SlStorageOwned\<rparr>, sample_read_free, sample_read_free, sample_read_free],
        bp_generation = 1, bp_peak_occupied = 1\<rparr>, rp_queued = [sample_read_descriptor],
    rp_active = Some \<lparr>rb_stream_id = 1, rb_total_size = 1, rb_chunk_size = 512, rb_window = 1, rb_produced_offset = 1,
      rb_durable_offset = 0, rb_crc_state = - 1\<rparr>, rp_aborted_tombstone = None\<rparr>,
    rr_leases = \<lparr>lp_buffers = [None, Some sample_block, Some sample_block, Some sample_block], lp_generation = 1\<rparr>,
    rr_pending_open = None, rr_name = Some [97],
    rr_outstanding = [\<lparr>or_sequence = 500001, or_descriptor = sample_read_descriptor\<rparr>],
    rr_sent = [], rr_next_sequence = 500002, rr_next_stream = 2\<rparr>"
  by (simp add: sample_read_started_def sample_read_opened_eq readback_begin_read_def reserve_next_def reserve_read_def
      readback_generation_def begin_session_def pool_invalidate_def BulkSlotPool_new_def occupied_def
      lease_validate_def lease_take_def sample_leases_def BulkLeasePool_new_def validate_len_def Request_read_def
      validate_mut_def pool_validate_def slot_descriptor_def slot_reset_def BulkSlot_new_def replicate_4 update_peak_def
      byte_at_def read_take_sequence_def next_id_def BufferSlot_bulk_def Let_def set_slot_def
      sample_read_descriptor_def sample_read_free_def)

lemma sample_read_sent_eq: "sample_read_sent = \<lparr>rr_pipeline = \<lparr>rp_pool = \<lparr>bp_slots = [\<lparr>sl_generation = 1, sl_offset = 0,
        sl_len = 1, sl_direction = Td_Readback, sl_state = SlAwaitingAck\<rparr>, sample_read_free, sample_read_free, sample_read_free],
        bp_generation = 1, bp_peak_occupied = 1\<rparr>, rp_queued = [sample_read_descriptor],
    rp_active = Some \<lparr>rb_stream_id = 1, rb_total_size = 1, rb_chunk_size = 512, rb_window = 1, rb_produced_offset = 1,
      rb_durable_offset = 0, rb_crc_state = - 1\<rparr>, rp_aborted_tombstone = None\<rparr>,
    rr_leases = \<lparr>lp_buffers = [Some (42 # drop 1 sample_block), Some sample_block, Some sample_block, Some sample_block],
      lp_generation = 1\<rparr>, rr_pending_open = None, rr_name = Some [97], rr_outstanding = [],
    rr_sent = [sample_read_descriptor], rr_next_sequence = 500002, rr_next_stream = 2\<rparr>"
  "frame_sent (fst (readback_runtime_complete_read sample_read_response sample_read_started)) =
    [\<lparr>bd_stream_id = 1, bd_offset = 0, bd_end_of_data = True, bd_data = [42]\<rparr>]"
  by (simp_all add: sample_read_sent_def sample_read_started_eq readback_runtime_complete_read_def sample_read_response_def
      sample_response_def sample_read_descriptor_def read_validate_response_def lease_restore_def remove_at_def
      readback_generation_def readback_complete_read_def pool_complete_read_def validate_mut_def pool_validate_def
      slot_descriptor_def set_slot_def lease_bytes_of_def lease_validate_def lease_buffer_def bytes_at_def subslice_def
      mark_sent_def mark_awaiting_ack_def transition_read_def frame_sent_def Let_def)

lemma sample_read_acked_eq: "fst (readback_runtime_apply_credit sample_credit sample_read_sent) = Ok ()"
    "rp_queued (rr_pipeline sample_read_acked) = []"
    "rp_active (rr_pipeline sample_read_acked) = Some \<lparr>rb_stream_id = 1, rb_total_size = 1, rb_chunk_size = 512, rb_window = 1,
      rb_produced_offset = 1, rb_durable_offset = 1, rb_crc_state = update (- 1) [42]\<rparr>"
  by (simp_all add: sample_read_acked_def sample_read_sent_eq readback_runtime_apply_credit_def sample_credit_def
      lease_bytes_of_def lease_validate_def lease_buffer_def bytes_at_def subslice_def sample_read_descriptor_def
      readback_apply_credit_def pool_state_def ack_read_def validate_mut_def pool_validate_def slot_descriptor_def set_slot_def
      byte_at_def Let_def del: update.simps)

lemma sample_read_reachable:
  "\<exists>D. reachable readback_run_init readback_run_step
     (sample_read_sent, D, [\<lparr>bd_stream_id = 1, bd_offset = 0, bd_end_of_data = True, bd_data = [42]\<rparr>])"
  "\<exists>D. reachable readback_run_init readback_run_step (sample_read_acked, D, [])"
proof -
  let ?f = "\<lparr>bd_stream_id = 1, bd_offset = 0, bd_end_of_data = True, bd_data = [42]\<rparr>"
  let ?r0 = "readback_from_lease_pool sample_leases"
  let ?r1 = "snd (readback_begin_open sample_read_request ?r0)"
  have "reachable readback_run_init readback_run_step (?r0, [], [])"
    using sample_lending by (intro reachable.initial) (auto simp: readback_run_init_def)
  then have "reachable readback_run_init readback_run_step (?r1, [], [])"
    by (rule reachable.followed) (rule readback_run_step.begin_open)
  from reachable.followed[OF this readback_run_step.complete_open[of _ _ _ "sample_response 500000 (RespFileSize 1) None"]]
  have "reachable readback_run_init readback_run_step (sample_read_opened, [], [])"
    by (simp add: sample_read_opened_def split: if_splits)
  from reachable.followed[OF this readback_run_step.begin_read]
  have "reachable readback_run_init readback_run_step (sample_read_started, [], [])" unfolding sample_read_started_def .
  from reachable.followed[OF this readback_run_step.complete_read[of _ _ _ sample_read_response]]
  have sent: "reachable readback_run_init readback_run_step (sample_read_sent, [], [?f])"
    unfolding sample_read_sent_def[symmetric] sample_read_sent_eq(2) by simp
  then show "\<exists>D. reachable readback_run_init readback_run_step (sample_read_sent, D, [?f])" by blast
  have "acked_count sample_credit sample_read_sent = 1"
    using sample_read_acked_eq(1) by (simp add: acked_count_def sample_credit_def)
  with reachable.followed[OF sent readback_run_step.credit[of _ _ _ sample_credit]]
  show "\<exists>D. reachable readback_run_init readback_run_step (sample_read_acked, D, [])"
    unfolding sample_read_acked_def[symmetric] by auto
qed



end
