(* ===== verification/Bulk_Coordinator.thy ===== *)
theory Bulk_Coordinator
  imports Bulk_Upload_Runtime Bulk_Readback_Runtime Frame Machine "HOL-Library.Multiset"
begin

text \<open>
  The transfer coordinator (\<^verbatim>\<open>binbook-fw/src/bulk_transfer_types.rs\<close>, \<^verbatim>\<open>bulk_transfer_coordinator.rs\<close>,
  \<^verbatim>\<open>bulk_transfer_control.rs\<close>) and the dispatch of protocol messages to it (\<^verbatim>\<open>bulk_protocol_dispatch.rs\<close>).  The
  coordinator owns the four buffers while it is idle and hands them to the upload or the readback runtime; it keeps a list
  of the requests the storage owner has not answered yet.
\<close>

subsection \<open>Types\<close>

definition OWNER_OPERATION_CAPACITY :: nat where [simp]: "OWNER_OPERATION_CAPACITY = 8"

datatype DirectionRuntime = DrIdle BulkLeasePool | DrUpload BulkUploadRuntime | DrReadback BulkReadbackRuntime

datatype OwnerOperationKind = OkUploadOpen | OkUploadWrite | OkUploadFinish | OkUploadAbort | OkReadbackOpen | OkReadbackRead

record PendingOwnerOperation =
  pp_sequence :: u32
  pp_kind :: OwnerOperationKind

datatype BulkTransferError =
    TeActive | TeWrongDirection | TeCorrelation | TeQueueFull | TeUpload BulkUploadRuntimeError | TeReadback BulkReadbackRuntimeError

datatype BulkOwnerEvent =
    EvOpened StoreBulkOpenResponse | EvUploadCredit "StoreBulkCredit option" | EvUploadFinished StoreBulkFinishResponse bool
  | EvUploadAborted

record BulkTransferCoordinator =
  co_runtime :: "DirectionRuntime option"
  co_pending :: "PendingOwnerOperation list"

subsection \<open>The coordinator\<close>

definition coordinator_new :: "bytes list \<Rightarrow> BulkTransferCoordinator" where
  "coordinator_new buffers = \<lparr>co_runtime = Some (DrIdle (BulkLeasePool_new buffers)), co_pending = []\<rparr>"

definition record_owner ::
    "OwnedRequest \<Rightarrow> OwnerOperationKind \<Rightarrow> BulkTransferCoordinator \<Rightarrow> (unit, BulkTransferError) res \<times> BulkTransferCoordinator" where
  "record_owner request kind c =
    (if length (co_pending c) < OWNER_OPERATION_CAPACITY
     then (Ok (), c\<lparr>co_pending := co_pending c @ [\<lparr>pp_sequence = rq_sequence (orq_envelope request), pp_kind = kind\<rparr>]\<rparr>)
     else (Err TeQueueFull, c))"

text \<open>The guard of each arm is the assertion of \<open>into_lease_pool\<close>.\<close>

definition release_if_quiescent :: "BulkTransferCoordinator \<Rightarrow> BulkTransferCoordinator" where
  "release_if_quiescent c =
    (if co_pending c \<noteq> [] then c
     else case co_runtime c of
         None \<Rightarrow> c
       | Some state \<Rightarrow> c\<lparr>co_runtime := Some (case state of
             DrUpload r \<Rightarrow> if upload_releasable r then DrIdle (ur_leases r) else state
           | DrReadback r \<Rightarrow> if readback_releasable r then DrIdle (rr_leases r) else state
           | _ \<Rightarrow> state)\<rparr>)"

definition coordinator_begin_open ::
    "StoreBulkOpenRequest \<Rightarrow> BulkTransferCoordinator \<Rightarrow> (OwnedRequest, BulkTransferError) res \<times> BulkTransferCoordinator" where
  "coordinator_begin_open request c =
    (case co_runtime c of
       Some (DrIdle pool) \<Rightarrow>
         let c = c\<lparr>co_runtime := None\<rparr> in
         (case obr_direction request of
            Td_Upload \<Rightarrow>
              (case upload_begin_open request (upload_from_lease_pool pool) of
                 (Ok owner, runtime) \<Rightarrow>
                   let (x, c) = record_owner owner OkUploadOpen c in
                   on_ok x c (\<lambda>_. (Ok owner, c\<lparr>co_runtime := Some (DrUpload runtime)\<rparr>))
               | (Err e, runtime) \<Rightarrow>
                   on_ok (upload_into_lease_pool runtime) c (\<lambda>pool.
                   (Err (TeUpload e), c\<lparr>co_runtime := Some (DrIdle pool)\<rparr>))
               | (Panic, runtime) \<Rightarrow> (Panic, c))
          | Td_Readback \<Rightarrow>
              (case readback_begin_open request (readback_from_lease_pool pool) of
                 (Ok owner, runtime) \<Rightarrow>
                   let (x, c) = record_owner owner OkReadbackOpen c in
                   on_ok x c (\<lambda>_. (Ok owner, c\<lparr>co_runtime := Some (DrReadback runtime)\<rparr>))
               | (Err e, runtime) \<Rightarrow>
                   on_ok (readback_into_lease_pool runtime) c (\<lambda>pool.
                   (Err (TeReadback e), c\<lparr>co_runtime := Some (DrIdle pool)\<rparr>))
               | (Panic, runtime) \<Rightarrow> (Panic, c))
          | Td_Unspecified \<Rightarrow> (Err TeWrongDirection, c\<lparr>co_runtime := Some (DrIdle pool)\<rparr>))
     | _ \<Rightarrow> (Err TeActive, c))"

definition coordinator_admit_upload ::
    "StoreBulkData \<Rightarrow> BulkTransferCoordinator \<Rightarrow> (OwnedRequest, BulkTransferError) res \<times> BulkTransferCoordinator" where
  "coordinator_admit_upload frame c =
    (case co_runtime c of
       None \<Rightarrow> (Err TeActive, c)
     | Some (DrUpload r) \<Rightarrow>
         let (x, r) = upload_runtime_admit frame r; c = c\<lparr>co_runtime := Some (DrUpload r)\<rparr> in
         on_ok (map_err TeUpload x) c (\<lambda>owner.
         let (x, c) = record_owner owner OkUploadWrite c in on_ok x c (\<lambda>_. (Ok owner, c)))
     | Some _ \<Rightarrow> (Err TeWrongDirection, c))"

definition coordinator_begin_read ::
    "BulkTransferCoordinator \<Rightarrow> (OwnedRequest, BulkTransferError) res \<times> BulkTransferCoordinator" where
  "coordinator_begin_read c =
    (case co_runtime c of
       None \<Rightarrow> (Err TeActive, c)
     | Some (DrReadback r) \<Rightarrow>
         let (x, r) = readback_begin_read r; c = c\<lparr>co_runtime := Some (DrReadback r)\<rparr> in
         on_ok (map_err TeReadback x) c (\<lambda>owner.
         let (x, c) = record_owner owner OkReadbackRead c in on_ok x c (\<lambda>_. (Ok owner, c)))
     | Some _ \<Rightarrow> (Err TeWrongDirection, c))"

definition complete_owner ::
    "OwnedResponse \<Rightarrow> BulkTransferCoordinator \<Rightarrow> (BulkOwnerEvent, BulkTransferError) res \<times> BulkTransferCoordinator" where
  "complete_owner response c =
    (if rs_client (ors_envelope response) \<noteq> ScDiagnostic then (Err TeCorrelation, c)
     else
       on_ok (ok_or TeCorrelation
           (position (\<lambda>p. pp_sequence p = rs_sequence (ors_envelope response)) (co_pending c))) c (\<lambda>index.
       let kind = pp_kind (co_pending c ! index); c = c\<lparr>co_pending := remove_at index (co_pending c)\<rparr> in
       case co_runtime c of
         None \<Rightarrow> (Err TeActive, c)
       | Some (DrUpload r) \<Rightarrow>
           (case kind of
              OkUploadOpen \<Rightarrow>
                let (x, r) = upload_complete_open response r; c = c\<lparr>co_runtime := Some (DrUpload r)\<rparr> in
                on_ok (map_err TeUpload x) c (\<lambda>v. (Ok (EvOpened v), release_if_quiescent c))
            | OkUploadWrite \<Rightarrow>
                let (x, r) = upload_complete_write response r; c = c\<lparr>co_runtime := Some (DrUpload r)\<rparr> in
                on_ok (map_err TeUpload x) c (\<lambda>v. (Ok (EvUploadCredit v), release_if_quiescent c))
            | OkUploadFinish \<Rightarrow>
                let (x, r) = upload_complete_finish response r; c = c\<lparr>co_runtime := Some (DrUpload r)\<rparr> in
                on_ok (map_err TeUpload x) c (\<lambda>v.
                (Ok (EvUploadFinished (uf_response v) (uf_published v)), release_if_quiescent c))
            | OkUploadAbort \<Rightarrow>
                let (x, r) = upload_complete_abort response r; c = c\<lparr>co_runtime := Some (DrUpload r)\<rparr> in
                on_ok (map_err TeUpload x) c (\<lambda>_. (Ok EvUploadAborted, release_if_quiescent c))
            | _ \<Rightarrow> (Err TeWrongDirection, c))
       | Some (DrReadback r) \<Rightarrow>
           if kind = OkReadbackOpen then
             let (x, r) = readback_complete_open response r; c = c\<lparr>co_runtime := Some (DrReadback r)\<rparr> in
             on_ok (map_err TeReadback x) c (\<lambda>v. (Ok (EvOpened v), c))
           else (Err TeWrongDirection, c)
       | Some (DrIdle _) \<Rightarrow> (Err TeWrongDirection, c)))"

definition complete_read_owner ::
    "OwnedResponse \<Rightarrow> BulkTransferCoordinator \<Rightarrow> (StoreBulkData option, BulkTransferError) res \<times> BulkTransferCoordinator" where
  "complete_read_owner response c =
    (if rs_client (ors_envelope response) \<noteq> ScDiagnostic then (Err TeCorrelation, c)
     else
       on_ok (ok_or TeCorrelation
           (position (\<lambda>p. pp_sequence p = rs_sequence (ors_envelope response)) (co_pending c))) c (\<lambda>index.
       if pp_kind (co_pending c ! index) \<noteq> OkReadbackRead then (Err TeCorrelation, c)
       else
         let c = c\<lparr>co_pending := remove_at index (co_pending c)\<rparr> in
         case co_runtime c of
           None \<Rightarrow> (Err TeActive, c)
         | Some (DrReadback r) \<Rightarrow>
             let (x, r) = readback_runtime_complete_read response r
             in (map_err TeReadback x, c\<lparr>co_runtime := Some (DrReadback r)\<rparr>)
         | Some _ \<Rightarrow> (Err TeWrongDirection, c)))"

definition pending_owner :: "BulkTransferCoordinator \<Rightarrow> nat" where
  "pending_owner c = length (co_pending c)"

definition pending_owner_is_read :: "u32 \<Rightarrow> BulkTransferCoordinator \<Rightarrow> bool" where
  "pending_owner_is_read sequence c = list_ex (\<lambda>p. pp_sequence p = sequence \<and> pp_kind p = OkReadbackRead) (co_pending c)"

definition pending_owner_is_upload_write :: "u32 \<Rightarrow> BulkTransferCoordinator \<Rightarrow> bool" where
  "pending_owner_is_upload_write sequence c = list_ex (\<lambda>p. pp_sequence p = sequence \<and> pp_kind p = OkUploadWrite) (co_pending c)"

definition coordinator_is_idle :: "BulkTransferCoordinator \<Rightarrow> bool" where
  "coordinator_is_idle c = (case co_runtime c of Some (DrIdle _) \<Rightarrow> True | _ \<Rightarrow> False)"

definition available_leases :: "BulkTransferCoordinator \<Rightarrow> u8" where
  "available_leases c =
    (case co_runtime c of
       Some (DrIdle pool) \<Rightarrow> lease_available pool
     | Some (DrUpload r) \<Rightarrow> lease_available (ur_leases r)
     | Some (DrReadback r) \<Rightarrow> lease_available (rr_leases r)
     | None \<Rightarrow> 0)"

definition reap_quiescent :: "BulkTransferCoordinator \<Rightarrow> BulkTransferCoordinator" where
  "reap_quiescent c = release_if_quiescent c"

subsection \<open>Control\<close>

definition coordinator_direction :: "BulkTransferCoordinator \<Rightarrow> TransferDirection" where
  "coordinator_direction c =
    (case co_runtime c of
       Some (DrUpload _) \<Rightarrow> Td_Upload
     | Some (DrReadback _) \<Rightarrow> Td_Readback
     | _ \<Rightarrow> Td_Unspecified)"

definition begin_upload_abort ::
    "u32 \<Rightarrow> BulkTransferCoordinator \<Rightarrow> (OwnedRequest, BulkTransferError) res \<times> BulkTransferCoordinator" where
  "begin_upload_abort stream_id c =
    (case co_runtime c of
       None \<Rightarrow> (Err TeActive, c)
     | Some (DrUpload r) \<Rightarrow>
         let (x, r) = upload_begin_abort stream_id r; c = c\<lparr>co_runtime := Some (DrUpload r)\<rparr> in
         on_ok (map_err TeUpload x) c (\<lambda>owner.
         let (x, c) = record_owner owner OkUploadAbort c in on_ok x c (\<lambda>_. (Ok owner, c)))
     | Some _ \<Rightarrow> (Err TeWrongDirection, c))"

definition begin_upload_finish ::
    "u32 \<Rightarrow> BulkTransferCoordinator \<Rightarrow> (OwnedRequest, BulkTransferError) res \<times> BulkTransferCoordinator" where
  "begin_upload_finish stream_id c =
    (case co_runtime c of
       None \<Rightarrow> (Err TeActive, c)
     | Some (DrUpload r) \<Rightarrow>
         let (x, r) = upload_begin_finish stream_id r; c = c\<lparr>co_runtime := Some (DrUpload r)\<rparr> in
         on_ok (map_err TeUpload x) c (\<lambda>owner.
         let (x, c) = record_owner owner OkUploadFinish c in on_ok x c (\<lambda>_. (Ok owner, c)))
     | Some _ \<Rightarrow> (Err TeWrongDirection, c))"

definition apply_readback_credit ::
    "StoreBulkCredit \<Rightarrow> BulkTransferCoordinator \<Rightarrow> (unit, BulkTransferError) res \<times> BulkTransferCoordinator" where
  "apply_readback_credit credit c =
    (case co_runtime c of
       None \<Rightarrow> (Err TeActive, c)
     | Some (DrReadback r) \<Rightarrow>
         let (x, r) = readback_runtime_apply_credit credit r in (map_err TeReadback x, c\<lparr>co_runtime := Some (DrReadback r)\<rparr>)
     | Some _ \<Rightarrow> (Err TeWrongDirection, c))"

definition coordinator_status ::
    "u32 \<Rightarrow> BulkTransferCoordinator \<Rightarrow> (StoreBulkStatusResponse, BulkTransferError) res \<times> BulkTransferCoordinator" where
  "coordinator_status stream_id c =
    (case co_runtime c of
       None \<Rightarrow> (Err TeActive, c)
     | Some (DrUpload r) \<Rightarrow>
         let (x, r) = upload_runtime_status stream_id r in (map_err TeUpload x, c\<lparr>co_runtime := Some (DrUpload r)\<rparr>)
     | Some (DrReadback r) \<Rightarrow>
         let (x, r) = readback_runtime_status stream_id r in (map_err TeReadback x, c\<lparr>co_runtime := Some (DrReadback r)\<rparr>)
     | Some (DrIdle _) \<Rightarrow> (Err TeWrongDirection, c))"

definition finish_readback ::
    "u32 \<Rightarrow> BulkTransferCoordinator \<Rightarrow> (StoreBulkFinishResponse, BulkTransferError) res \<times> BulkTransferCoordinator" where
  "finish_readback stream_id c =
    (case co_runtime c of
       None \<Rightarrow> (Err TeActive, c)
     | Some (DrReadback r) \<Rightarrow>
         let (x, r) = readback_runtime_finish stream_id r; c = c\<lparr>co_runtime := Some (DrReadback r)\<rparr> in
         on_ok (map_err TeReadback x) c (\<lambda>response. (Ok response, release_if_quiescent c))
     | Some _ \<Rightarrow> (Err TeWrongDirection, c))"

definition abort_readback ::
    "u32 \<Rightarrow> BulkTransferCoordinator \<Rightarrow> (unit, BulkTransferError) res \<times> BulkTransferCoordinator" where
  "abort_readback stream_id c =
    (case co_runtime c of
       None \<Rightarrow> (Err TeActive, c)
     | Some (DrReadback r) \<Rightarrow>
         let (x, r) = readback_runtime_abort stream_id r; c = c\<lparr>co_runtime := Some (DrReadback r)\<rparr> in
         on_ok (map_err TeReadback x) c (\<lambda>_. (Ok (), release_if_quiescent c))
     | Some _ \<Rightarrow> (Err TeWrongDirection, c))"

definition begin_timeout_cleanup ::
    "BulkTransferCoordinator \<Rightarrow> (OwnedRequest option, BulkTransferError) res \<times> BulkTransferCoordinator" where
  "begin_timeout_cleanup c =
    on_ok (ok_or TeActive
        (case co_runtime c of
           Some (DrUpload r) \<Rightarrow> upload_stream_id (ur_pipeline r)
         | Some (DrReadback r) \<Rightarrow> readback_stream_id (rr_pipeline r)
         | _ \<Rightarrow> None)) c (\<lambda>stream_id.
    case coordinator_direction c of
      Td_Upload \<Rightarrow> let (x, c) = begin_upload_abort stream_id c in on_ok x c (\<lambda>owner. (Ok (Some owner), c))
    | Td_Readback \<Rightarrow> let (x, c) = abort_readback stream_id c in on_ok x c (\<lambda>_. (Ok None, c))
    | Td_Unspecified \<Rightarrow> (Err TeWrongDirection, c))"

subsection \<open>Dispatch of protocol messages\<close>

definition BULK_CONTROL_PAYLOAD_BYTES :: nat where "BULK_CONTROL_PAYLOAD_BYTES = STORE_BULK_STATUS_RESPONSE_BYTES"

datatype BulkProtocolAction =
    ActOwner OwnedRequest "FrameHeader option" "u32 option"
  | ActImmediate Status bytes nat
  | ActAcceptedEvent
  | ActDeferredStatus u32
  | ActDeferredFinish u32

definition bad_request :: BulkProtocolAction where
  "bad_request = ActImmediate St_BadRequest (replicate BULK_CONTROL_PAYLOAD_BYTES 0) 0"

definition owner_or_error ::
    "(OwnedRequest, BulkTransferError) res \<Rightarrow> FrameHeader option \<Rightarrow> u32 option \<Rightarrow> (BulkProtocolAction, 'e) res" where
  "owner_or_error result reply_to reply_stream_id =
    (case result of
       Ok request \<Rightarrow> Ok (ActOwner request reply_to reply_stream_id)
     | Err _ \<Rightarrow> Ok bad_request
     | Panic \<Rightarrow> Panic)"

definition encode_immediate :: "(bytes \<Rightarrow> (nat \<times> bytes, ProtocolError) res) \<Rightarrow> (BulkProtocolAction, 'e) res" where
  "encode_immediate encode =
    (let payload = replicate BULK_CONTROL_PAYLOAD_BYTES 0 in
     case encode payload of
       Ok (payload_len, payload) \<Rightarrow> Ok (ActImmediate St_Ok payload payload_len)
     | Err _ \<Rightarrow> Ok (ActImmediate St_InternalError payload 0)
     | Panic \<Rightarrow> Panic)"

definition is_request :: "FrameHeader \<Rightarrow> bool" where
  "is_request header = (fh_kind header = Fk_Request \<and> fh_sequence header \<noteq> 0)"

definition is_event :: "FrameHeader \<Rightarrow> bool" where
  "is_event header = (fh_kind header = Fk_Event \<and> fh_sequence header = 0)"

text \<open>The callback \<open>observe\<close> only takes the time around the checksum of a credit; it is left out.\<close>

definition dispatch_bulk_protocol ::
    "FrameHeader \<Rightarrow> bytes \<Rightarrow> BulkTransferCoordinator \<Rightarrow> (BulkProtocolAction, unit) res \<times> BulkTransferCoordinator" where
  "dispatch_bulk_protocol header payload c =
    (if fh_status header \<noteq> St_Ok then (Ok bad_request, c)
     else if fh_opcode header = Op_StoreBulkOpen \<and> is_request header then
       (case decode_store_bulk_open_request payload of
          Ok request \<Rightarrow> let (x, c) = coordinator_begin_open request c in (owner_or_error x (Some header) None, c)
        | Err _ \<Rightarrow> (Ok bad_request, c)
        | Panic \<Rightarrow> (Panic, c))
     else if fh_opcode header = Op_StoreBulkData \<and> is_event header then
       (case decode_store_bulk_data payload of
          Ok frame \<Rightarrow> let (x, c) = coordinator_admit_upload frame c in (owner_or_error x None None, c)
        | Err _ \<Rightarrow> (Ok bad_request, c)
        | Panic \<Rightarrow> (Panic, c))
     else if fh_opcode header = Op_StoreBulkCredit \<and> is_event header then
       (case decode_store_bulk_credit payload of
          Ok credit \<Rightarrow>
            let (x, c) = apply_readback_credit credit c in
            (case x of Ok _ \<Rightarrow> (Ok ActAcceptedEvent, c) | Err _ \<Rightarrow> (Ok bad_request, c) | Panic \<Rightarrow> (Panic, c))
        | Err _ \<Rightarrow> (Ok bad_request, c)
        | Panic \<Rightarrow> (Panic, c))
     else if fh_opcode header = Op_StoreBulkStatus \<and> is_request header then
       (case decode_store_bulk_status_request payload of
          Ok stream_id \<Rightarrow>
            if coordinator_direction c = Td_Upload \<and> pending_owner c \<noteq> 0 then (Ok (ActDeferredStatus stream_id), c)
            else
              let (x, c) = coordinator_status stream_id c in
              (case x of
                 Ok status \<Rightarrow> (encode_immediate (encode_store_bulk_status_response status), c)
               | Err _ \<Rightarrow> (Ok bad_request, c)
               | Panic \<Rightarrow> (Panic, c))
        | Err _ \<Rightarrow> (Ok bad_request, c)
        | Panic \<Rightarrow> (Panic, c))
     else if fh_opcode header = Op_StoreBulkFinish \<and> is_request header then
       (case decode_store_bulk_finish_request payload of
          Ok stream_id \<Rightarrow>
            (case coordinator_direction c of
               Td_Upload \<Rightarrow>
                 if pending_owner c \<noteq> 0 then (Ok (ActDeferredFinish stream_id), c)
                 else let (x, c) = begin_upload_finish stream_id c in (owner_or_error x (Some header) None, c)
             | Td_Readback \<Rightarrow>
                 let (x, c) = finish_readback stream_id c in
                 (case x of
                    Ok finish \<Rightarrow> (encode_immediate (encode_store_bulk_finish_response finish), c)
                  | Err _ \<Rightarrow> (Ok bad_request, c)
                  | Panic \<Rightarrow> (Panic, c))
             | Td_Unspecified \<Rightarrow> (Ok bad_request, c))
        | Err _ \<Rightarrow> (Ok bad_request, c)
        | Panic \<Rightarrow> (Panic, c))
     else if fh_opcode header = Op_StoreBulkAbort \<and> is_request header then
       (case decode_store_bulk_abort_request payload of
          Ok stream_id \<Rightarrow>
            (case coordinator_direction c of
               Td_Upload \<Rightarrow>
                 let (x, c) = begin_upload_abort stream_id c in (owner_or_error x (Some header) (Some stream_id), c)
             | Td_Readback \<Rightarrow>
                 let (x, c) = abort_readback stream_id c in
                 (case x of
                    Ok _ \<Rightarrow> (encode_immediate (encode_store_bulk_abort_request stream_id), c)
                  | Err _ \<Rightarrow> (Ok bad_request, c)
                  | Panic \<Rightarrow> (Panic, c))
             | Td_Unspecified \<Rightarrow> (Ok bad_request, c))
        | Err _ \<Rightarrow> (Ok bad_request, c)
        | Panic \<Rightarrow> (Panic, c))
     else (Ok bad_request, c))"

subsection \<open>What an operation of a runtime leaves alone\<close>

lemma upload_frames:
  "ur_outstanding (snd (upload_begin_open q r)) = ur_outstanding r"
  "ur_pending_finish (snd (upload_begin_open q r)) = ur_pending_finish r"
  "ur_pending_abort (snd (upload_begin_open q r)) = ur_pending_abort r"
  "ur_outstanding (snd (upload_complete_open response r)) = ur_outstanding r"
  "ur_pending_finish (snd (upload_complete_open response r)) = ur_pending_finish r"
  "ur_pending_abort (snd (upload_complete_open response r)) = ur_pending_abort r"
  "ur_pending_open (snd (upload_runtime_admit frame r)) = ur_pending_open r"
  "ur_pending_finish (snd (upload_runtime_admit frame r)) = ur_pending_finish r"
  "ur_pending_abort (snd (upload_runtime_admit frame r)) = ur_pending_abort r"
  "ur_pending_open (snd (upload_complete_write response r)) = ur_pending_open r"
  "ur_pending_finish (snd (upload_complete_write response r)) = ur_pending_finish r"
  "ur_pending_abort (snd (upload_complete_write response r)) = ur_pending_abort r"
  "ur_outstanding (snd (upload_begin_abort sid r)) = ur_outstanding r"
  "ur_pending_open (snd (upload_begin_abort sid r)) = ur_pending_open r"
  "ur_pending_finish (snd (upload_begin_abort sid r)) = ur_pending_finish r"
  "ur_outstanding (snd (upload_complete_abort response r)) = ur_outstanding r"
  "ur_pending_open (snd (upload_complete_abort response r)) = ur_pending_open r"
  "ur_pending_finish (snd (upload_complete_abort response r)) = ur_pending_finish r"
  "ur_outstanding (snd (upload_begin_finish sid r)) = ur_outstanding r"
  "ur_pending_open (snd (upload_begin_finish sid r)) = ur_pending_open r"
  "ur_pending_abort (snd (upload_begin_finish sid r)) = ur_pending_abort r"
  "ur_outstanding (snd (upload_complete_finish response r)) = ur_outstanding r"
  "ur_pending_open (snd (upload_complete_finish response r)) = ur_pending_open r"
  "ur_pending_abort (snd (upload_complete_finish response r)) = ur_pending_abort r"
  by (auto simp: upload_begin_open_def upload_complete_open_def upload_runtime_admit_def upload_complete_write_def
      upload_begin_abort_def upload_complete_abort_def upload_begin_finish_def upload_complete_finish_def take_sequence_def
      Let_def case_prod_beta split: on_ok_split option.splits)

lemma readback_frames:
  "rr_outstanding (snd (readback_begin_open q r)) = rr_outstanding r"
  "rr_outstanding (snd (readback_complete_open response r)) = rr_outstanding r"
  "rr_pending_open (snd (readback_begin_read r)) = rr_pending_open r"
  "rr_pending_open (snd (readback_runtime_complete_read response r)) = rr_pending_open r"
  "rr_outstanding (snd (readback_runtime_apply_credit credit r)) = rr_outstanding r"
  "rr_pending_open (snd (readback_runtime_apply_credit credit r)) = rr_pending_open r"
  "rr_outstanding (snd (readback_runtime_status sid r)) = rr_outstanding r"
  "rr_pending_open (snd (readback_runtime_status sid r)) = rr_pending_open r"
  "rr_outstanding (snd (readback_runtime_finish sid r)) = rr_outstanding r"
  "rr_pending_open (snd (readback_runtime_finish sid r)) = rr_pending_open r"
  "rr_outstanding (snd (readback_runtime_abort sid r)) = rr_outstanding r"
  "rr_pending_open (snd (readback_runtime_abort sid r)) = rr_pending_open r"
  by (auto simp: readback_begin_open_def readback_complete_open_def readback_begin_read_def readback_runtime_complete_read_def
      readback_runtime_apply_credit_def readback_runtime_status_def readback_runtime_finish_def readback_runtime_abort_def
      read_take_sequence_def read_take_stream_def Let_def case_prod_beta split: on_ok_split option.splits)

lemma write_outstanding:
  "ur_outstanding (snd (upload_complete_write response r)) = ur_outstanding r \<or>
   (\<exists>i<length (ur_outstanding r). ow_sequence (ur_outstanding r ! i) = rs_sequence (ors_envelope response) \<and>
     ur_outstanding (snd (upload_complete_write response r)) = remove_at i (ur_outstanding r))"
proof (cases "position (\<lambda>w. ow_sequence w = rs_sequence (ors_envelope response)) (ur_outstanding r)")
  case (Some i)
  then have "ur_outstanding (snd (upload_complete_write response r)) \<in> {ur_outstanding r, remove_at i (ur_outstanding r)}"
    by (simp add: upload_complete_write_def Let_def case_prod_beta split: on_ok_split option.split)
  then show ?thesis using position_SomeD[OF Some] by auto
qed (simp add: upload_complete_write_def del: position_None)

lemma read_outstanding:
  "rr_outstanding (snd (readback_runtime_complete_read response r)) = rr_outstanding r \<or>
   (\<exists>i<length (rr_outstanding r). or_sequence (rr_outstanding r ! i) = rs_sequence (ors_envelope response) \<and>
     rr_outstanding (snd (readback_runtime_complete_read response r)) = remove_at i (rr_outstanding r))"
proof (cases "position (\<lambda>w. or_sequence w = rs_sequence (ors_envelope response)) (rr_outstanding r)")
  case (Some i)
  then have "rr_outstanding (snd (readback_runtime_complete_read response r)) \<in> {rr_outstanding r, remove_at i (rr_outstanding r)}"
    by (simp add: readback_runtime_complete_read_def Let_def case_prod_beta split: on_ok_split option.split)
  then show ?thesis using position_SomeD[OF Some] by auto
qed (simp add: readback_runtime_complete_read_def del: position_None)

lemma begin_read_outstanding:
  "fst (readback_begin_read r) = Ok req \<longrightarrow> (\<exists>d. rr_outstanding (snd (readback_begin_read r)) =
    rr_outstanding r @ [\<lparr>or_sequence = rq_sequence (orq_envelope req), or_descriptor = d\<rparr>])"
  by (auto simp: readback_begin_read_def read_owned_request_def read_take_sequence_def Let_def case_prod_beta split: on_ok_split)

subsection \<open>The requests the owner has not answered\<close>

text \<open>
  Every entry of the list belongs to a request that the runtime waits for: at most one open, finish and abort request, and for
  each write or read an outstanding one with its number.
\<close>

definition ops :: "OwnerOperationKind \<Rightarrow> PendingOwnerOperation list \<Rightarrow> u32 list" where
  "ops k ps = map pp_sequence (filter (\<lambda>p. pp_kind p = k) ps)"

definition upload_pending :: "BulkUploadRuntime \<Rightarrow> PendingOwnerOperation list \<Rightarrow> bool" where
  "upload_pending r ps \<longleftrightarrow>
    (\<forall>p\<in>set ps. pp_kind p \<in> {OkUploadOpen, OkUploadWrite, OkUploadFinish, OkUploadAbort}) \<and>
    length (ops OkUploadOpen ps) \<le> of_bool (ur_pending_open r \<noteq> None) \<and>
    length (ops OkUploadFinish ps) \<le> of_bool (ur_pending_finish r \<noteq> None) \<and>
    length (ops OkUploadAbort ps) \<le> of_bool (ur_pending_abort r \<noteq> None) \<and>
    mset (ops OkUploadWrite ps) \<subseteq># mset (map ow_sequence (ur_outstanding r))"

definition readback_pending :: "BulkReadbackRuntime \<Rightarrow> PendingOwnerOperation list \<Rightarrow> bool" where
  "readback_pending r ps \<longleftrightarrow>
    (\<forall>p\<in>set ps. pp_kind p \<in> {OkReadbackOpen, OkReadbackRead}) \<and>
    length (ops OkReadbackOpen ps) \<le> of_bool (rr_pending_open r \<noteq> None) \<and>
    mset (ops OkReadbackRead ps) \<subseteq># mset (map or_sequence (rr_outstanding r))"

primrec runtime_ok :: "DirectionRuntime \<Rightarrow> PendingOwnerOperation list \<Rightarrow> bool" where
  "runtime_ok (DrIdle pool) ps = (lending [] pool \<and> ps = [])"
| "runtime_ok (DrUpload r) ps = ((\<exists>ds D. upload_runtime_inv ds D r) \<and> upload_pending r ps)"
| "runtime_ok (DrReadback r) ps = ((\<exists>D S. readback_inv D S r) \<and> readback_pending r ps)"

definition coordinator_inv :: "BulkTransferCoordinator \<Rightarrow> bool" where
  "coordinator_inv c \<longleftrightarrow> (\<exists>rt. co_runtime c = Some rt \<and> runtime_ok rt (co_pending c))"

lemma ops_simps [simp]:
  "ops k [] = []"
  "ops k (ps @ [\<lparr>pp_sequence = s, pp_kind = k'\<rparr>]) = ops k ps @ (if k' = k then [s] else [])"
  by (simp_all add: ops_def)

lemma mset_map_remove_at:
  "i < length xs \<Longrightarrow> mset (map f (remove_at i xs)) = mset (map f xs) - {#f (xs ! i)#}"
  by (subst (2) remove_at_split[of i xs]) (simp_all add: remove_at_def)

lemma mset_ops_remove_at:
  "i < length ps \<Longrightarrow> mset (ops k (remove_at i ps)) =
    (if pp_kind (ps ! i) = k then mset (ops k ps) - {#pp_sequence (ps ! i)#} else mset (ops k ps))"
  by (subst (3 4) remove_at_split[of i ps]) (simp_all add: remove_at_def ops_def)

lemma length_ops_remove_at:
  assumes "i < length ps"
  shows "length (ops k (remove_at i ps)) = length (ops k ps) - of_bool (pp_kind (ps ! i) = k)"
proof -
  have "pp_kind (ps ! i) = k \<Longrightarrow> pp_sequence (ps ! i) \<in># mset (ops k ps)" using assms by (auto simp: ops_def)
  then have "size (mset (ops k (remove_at i ps))) = size (mset (ops k ps)) - of_bool (pp_kind (ps ! i) = k)"
    unfolding mset_ops_remove_at[OF assms] by (simp add: size_Diff_singleton)
  then show ?thesis by simp
qed

lemma length_by_kind:
  "length ps = length (ops OkUploadOpen ps) + length (ops OkUploadWrite ps) + length (ops OkUploadFinish ps) +
    length (ops OkUploadAbort ps) + length (ops OkReadbackOpen ps) + length (ops OkReadbackRead ps)"
proof (induction ps)
  case (Cons p ps)
  then show ?case by (cases "pp_kind p") (simp_all add: ops_def)
qed (simp add: ops_def)

lemma other_kind_empty: "\<forall>p\<in>set ps. pp_kind p \<noteq> k \<Longrightarrow> ops k ps = []"
  by (simp add: ops_def)

lemma pending_bound:
  assumes "runtime_ok rt ps"
  shows "length ps \<le> 7"
proof (cases rt)
  case (DrUpload r)
  then obtain ds D where inv: "upload_runtime_inv ds D r" and p: "upload_pending r ps" using assms by auto
  have "length (ops OkUploadWrite ps) \<le> length (ur_outstanding r)"
    using p size_mset_mono[of "mset (ops OkUploadWrite ps)"] by (fastforce simp: upload_pending_def)
  also have "\<dots> \<le> 4" using lendingD(5)[OF runtime_invD(2)[OF inv]] by (simp add: out_slots_def)
  finally have "length (ops OkUploadWrite ps) \<le> 4" .
  moreover have "ops OkReadbackOpen ps = []" "ops OkReadbackRead ps = []"
    using p by (auto simp: upload_pending_def intro!: other_kind_empty)
  ultimately show ?thesis using p length_by_kind[of ps] by (simp add: upload_pending_def of_bool_def split: if_splits)
next
  case (DrReadback r)
  then obtain D S where inv: "readback_inv D S r" and p: "readback_pending r ps" using assms by auto
  have "length (ops OkReadbackRead ps) \<le> length (rr_outstanding r)"
    using p size_mset_mono[of "mset (ops OkReadbackRead ps)"] by (fastforce simp: readback_pending_def)
  also have "\<dots> \<le> 4" using lendingD(5)[OF readback_invD(2)[OF inv]] by (simp add: read_slots_def)
  finally have "length (ops OkReadbackRead ps) \<le> 4" .
  moreover have "ops OkUploadOpen ps = []" "ops OkUploadWrite ps = []" "ops OkUploadFinish ps = []" "ops OkUploadAbort ps = []"
    using p by (auto simp: readback_pending_def intro!: other_kind_empty)
  ultimately show ?thesis using p length_by_kind[of ps] by (simp add: readback_pending_def of_bool_def split: if_splits)
qed (use assms in simp)

subsection \<open>The operations keep the invariant\<close>

text \<open>
  An outcome is sound if the invariant holds after it, nothing panicked and the list was not full; it is steady if an error
  also leaves the coordinator as it was.
\<close>

definition sound_outcome :: "('a, BulkTransferError) res \<times> BulkTransferCoordinator \<Rightarrow> bool" where
  "sound_outcome y \<longleftrightarrow> coordinator_inv (snd y) \<and> fst y \<noteq> Panic \<and> fst y \<noteq> Err TeQueueFull"

definition steady :: "BulkTransferCoordinator \<Rightarrow> ('a, BulkTransferError) res \<times> BulkTransferCoordinator \<Rightarrow> bool" where
  "steady c y \<longleftrightarrow> sound_outcome y \<and> (is_ok (fst y) \<or> snd y = c)"

lemma steady_refused: "coordinator_inv c \<Longrightarrow> e \<noteq> TeQueueFull \<Longrightarrow> steady c (Err e, c)"
  by (simp add: steady_def sound_outcome_def)

lemma steady_request:
  assumes inv: "coordinator_inv c" and rt: "co_runtime c = Some rt" and g: "\<And>e. g e \<noteq> TeQueueFull" and np: "x \<noteq> Panic"
    and same: "\<And>e. x = Err e \<Longrightarrow> rt' = rt"
    and asked: "\<And>owner. x = Ok owner \<Longrightarrow>
      runtime_ok rt' (co_pending c @ [\<lparr>pp_sequence = rq_sequence (orq_envelope owner), pp_kind = kind\<rparr>])"
  shows "steady c (on_ok (map_err g x) (c\<lparr>co_runtime := Some rt'\<rparr>) (\<lambda>owner.
    let (y, c) = record_owner owner kind (c\<lparr>co_runtime := Some rt'\<rparr>) in on_ok y c (\<lambda>_. (Ok owner, c))))"
proof (cases x)
  case (Ok owner)
  have "length (co_pending c) < 8"
    using inv rt pending_bound[of rt "co_pending c"] by (auto simp: coordinator_inv_def)
  then show ?thesis using Ok asked[OF Ok] by (simp add: record_owner_def steady_def sound_outcome_def coordinator_inv_def)
next
  case (Err e)
  then have "c\<lparr>co_runtime := Some rt'\<rparr> = c" using same rt by simp
  then show ?thesis using Err inv g by (simp add: steady_refused)
qed (use np in simp)

lemma steady_call:
  assumes inv: "coordinator_inv c" and rt: "co_runtime c = Some rt" and g: "\<And>e. g e \<noteq> TeQueueFull" and np: "x \<noteq> Panic"
    and same: "\<And>e. x = Err e \<Longrightarrow> rt' = rt" and ok: "\<And>v. x = Ok v \<Longrightarrow> runtime_ok rt' (co_pending c)"
  shows "steady c (map_err g x, c\<lparr>co_runtime := Some rt'\<rparr>)"
proof (cases x)
  case (Err e)
  then have "c\<lparr>co_runtime := Some rt'\<rparr> = c" using same rt by simp
  then show ?thesis using Err inv g by (simp add: steady_refused)
qed (use np ok in \<open>simp_all add: steady_def sound_outcome_def coordinator_inv_def\<close>)

lemma released_inv:
  assumes "coordinator_inv c"
  shows "coordinator_inv (release_if_quiescent c)"
proof -
  obtain rt where rt: "co_runtime c = Some rt" "runtime_ok rt (co_pending c)" using assms by (auto simp: coordinator_inv_def)
  have "lending [] (ur_leases r)" if "upload_releasable r" "upload_runtime_inv ds D r" for r ds D
    using that runtime_invD(2)[OF that(2)] by (simp add: upload_releasable_def out_slots_def)
  moreover have "lending [] (rr_leases r)" if "readback_releasable r" "readback_inv D S r" for r D S
    using that readback_invD(2)[OF that(2)] by (simp add: readback_releasable_def read_slots_def)
  ultimately show ?thesis
    using rt assms by (cases rt) (auto simp: release_if_quiescent_def coordinator_inv_def)
qed

lemma steady_release:
  assumes inv: "coordinator_inv c" and rt: "co_runtime c = Some rt" and g: "\<And>e. g e \<noteq> TeQueueFull" and np: "x \<noteq> Panic"
    and same: "\<And>e. x = Err e \<Longrightarrow> rt' = rt" and ok: "\<And>v. x = Ok v \<Longrightarrow> runtime_ok rt' (co_pending c)"
  shows "steady c (on_ok (map_err g x) (c\<lparr>co_runtime := Some rt'\<rparr>)
    (\<lambda>v. (Ok (h v), release_if_quiescent (c\<lparr>co_runtime := Some rt'\<rparr>))))"
proof (cases x)
  case (Ok v)
  have "coordinator_inv (c\<lparr>co_runtime := Some rt'\<rparr>)" using ok[OF Ok] by (simp add: coordinator_inv_def)
  from released_inv[OF this] show ?thesis using Ok by (simp add: steady_def sound_outcome_def)
next
  case (Err e)
  then have "c\<lparr>co_runtime := Some rt'\<rparr> = c" using same rt by simp
  then show ?thesis using Err inv g by (simp add: steady_refused)
qed (use np in simp)

text \<open>A call of a runtime is quiet if it does not panic and changes nothing when it is refused.\<close>

definition quiet :: "'s \<Rightarrow> ('a, 'e) res \<times> 's \<Rightarrow> bool" where
  "quiet r y \<longleftrightarrow> fst y \<noteq> Panic \<and> (\<forall>e. fst y = Err e \<longrightarrow> snd y = r)"

lemma map_err_Err_iff: "map_err g m = Err e \<longleftrightarrow> (\<exists>d. m = Err d \<and> e = g d)"
  by (cases m) auto

lemma ok_or_Err_iff: "ok_or e m = Err d \<longleftrightarrow> m = None \<and> d = e"
  by (cases m) auto

lemma pipeline_quiet:
  "quiet p (upload_status sid p)" "quiet p (upload_finish sid p)" "quiet p (upload_abort sid p)"
  "quiet q (readback_status sid q)" "quiet q (readback_finish sid q)" "quiet q (readback_abort sid q)"
  by (auto simp: quiet_def upload_status_def upload_finish_def upload_abort_def readback_status_def readback_finish_def
      readback_abort_def Let_def split: on_ok_split option.split)

lemma upload_control_quiet:
  "quiet r (upload_runtime_status sid r)" "quiet r (upload_begin_abort sid r)" "quiet r (upload_begin_finish sid r)"
  using pipeline_quiet(1-3)[of "ur_pipeline r" sid]
  by (auto simp: quiet_def upload_runtime_status_def upload_begin_abort_def upload_begin_finish_def take_sequence_def Let_def
      case_prod_beta map_err_Err_iff split: on_ok_split)

lemma readback_control_quiet:
  "quiet r (readback_runtime_status sid r)" "quiet r (readback_runtime_finish sid r)" "quiet r (readback_runtime_abort sid r)"
  using pipeline_quiet(4-6)[of "rr_pipeline r" sid]
  by (auto simp: quiet_def readback_runtime_status_def readback_runtime_finish_def readback_runtime_abort_def Let_def
      case_prod_beta map_err_Err_iff split: on_ok_split)

lemma upload_complete_quiet:
  "quiet r (upload_complete_abort response r)" "quiet r (upload_complete_finish response r)"
  by (auto simp: quiet_def upload_complete_abort_def upload_complete_finish_def validate_response_def require_ack_def
      split: on_ok_split res.splits Response.splits)

subsection \<open>Each operation\<close>

lemma coordinator_begin_open_steady:
  assumes inv: "coordinator_inv c"
  shows "steady c (coordinator_begin_open q c)"
proof -
  obtain rt where rt: "co_runtime c = Some rt" and ok: "runtime_ok rt (co_pending c)" using inv by (auto simp: coordinator_inv_def)
  show ?thesis
  proof (cases rt)
    case (DrIdle pool)
    then have pool: "lending [] pool" and none: "co_pending c = []" using ok by simp_all
    have c: "c\<lparr>co_runtime := Some (DrIdle pool)\<rparr> = c" using rt DrIdle by simp
    show ?thesis
    proof (cases "obr_direction q")
      case Td_Upload
      from runtime_new[OF pool, of "[]"] show ?thesis
      proof (cases rule: upload_begin_open_cases[where q = q])
        case (started req r')
        then show ?thesis
          using rt DrIdle Td_Upload none
          by (auto simp: coordinator_begin_open_def record_owner_def Let_def steady_def sound_outcome_def coordinator_inv_def
              upload_pending_def ops_def)
      next
        case (refused e)
        have "upload_releasable (upload_from_lease_pool pool)"
          using lending_available[OF pool]
          by (simp add: upload_releasable_def upload_from_lease_pool_def upload_is_active_def BulkUploadPipeline_new_def)
        then have "coordinator_begin_open q c = (Err (TeUpload e), c)"
          using rt DrIdle Td_Upload refused c
          by (simp add: coordinator_begin_open_def upload_into_lease_pool_def upload_from_lease_pool_def)
        then show ?thesis using inv by (simp add: steady_refused)
      qed
    next
      case Td_Readback
      from readback_new[OF pool, of "[]" "[]"] show ?thesis
      proof (cases rule: readback_begin_open_cases[where q = q])
        case (started req r')
        moreover from started have "rr_pending_open r' \<noteq> None"
          by (auto simp: readback_begin_open_def read_take_sequence_def Let_def split: if_splits on_ok_split_asm)
        ultimately show ?thesis
          using rt DrIdle Td_Readback none
          by (auto simp: coordinator_begin_open_def record_owner_def Let_def steady_def sound_outcome_def coordinator_inv_def
              readback_pending_def ops_def)
      next
        case (refused e)
        have "readback_releasable (readback_from_lease_pool pool)"
          using lending_available[OF pool]
          by (simp add: readback_releasable_def readback_from_lease_pool_def readback_is_active_def BulkReadbackPipeline_new_def)
        then have "coordinator_begin_open q c = (Err (TeReadback e), c)"
          using rt DrIdle Td_Readback refused c
          by (simp add: coordinator_begin_open_def readback_into_lease_pool_def readback_from_lease_pool_def)
        then show ?thesis using inv by (simp add: steady_refused)
      qed
    next
      case Td_Unspecified
      then have "coordinator_begin_open q c = (Err TeWrongDirection, c)"
        using rt DrIdle c by (simp add: coordinator_begin_open_def)
      then show ?thesis using inv by (simp add: steady_refused)
    qed
  qed (use rt inv in \<open>simp_all add: coordinator_begin_open_def steady_refused\<close>)
qed

text \<open>The runtime of an operation that is only meant for an upload, or only for a readback.\<close>

lemma coordinator_runtime:
  assumes "coordinator_inv c"
  obtains (idle) pool where "co_runtime c = Some (DrIdle pool)" "lending [] pool" "co_pending c = []"
  | (uploading) r ds D where "co_runtime c = Some (DrUpload r)" "upload_runtime_inv ds D r" "upload_pending r (co_pending c)"
  | (reading) r D S where "co_runtime c = Some (DrReadback r)" "readback_inv D S r" "readback_pending r (co_pending c)"
proof -
  obtain rt where "co_runtime c = Some rt" "runtime_ok rt (co_pending c)" using assms by (auto simp: coordinator_inv_def)
  then show ?thesis using idle uploading reading by (cases rt) auto
qed

lemma coordinator_admit_steady:
  assumes inv: "coordinator_inv c"
  shows "steady c (coordinator_admit_upload frame c)"
  using inv
proof (cases rule: coordinator_runtime)
  case (uploading r ds D)
  obtain x r' where x: "upload_runtime_admit frame r = (x, r')" by fastforce
  have i': "\<exists>ds D. upload_runtime_inv ds D r'"
    using upload_run_step_inv[OF upload_run_step.admit uploading(2), of frame] x by auto
  note f = upload_frames(7-9)[of frame r, unfolded x snd_conv]
  have "steady c (on_ok (map_err TeUpload x) (c\<lparr>co_runtime := Some (DrUpload r')\<rparr>) (\<lambda>owner.
    let (y, c) = record_owner owner OkUploadWrite (c\<lparr>co_runtime := Some (DrUpload r')\<rparr>) in on_ok y c (\<lambda>_. (Ok owner, c))))"
    using inv uploading(1)
  proof (rule steady_request)
    show "x \<noteq> Panic" and "\<And>e. x = Err e \<Longrightarrow> DrUpload r' = DrUpload r"
      using x by (cases rule: upload_runtime_admit_cases[OF uploading(2), of frame]; auto)+
    show "runtime_ok (DrUpload r') (co_pending c @ [\<lparr>pp_sequence = rq_sequence (orq_envelope owner), pp_kind = OkUploadWrite\<rparr>])"
      if "x = Ok owner" for owner
    proof -
      have "\<exists>d. ur_outstanding r' = ur_outstanding r @ [\<lparr>ow_sequence = rq_sequence (orq_envelope owner), ow_descriptor = d\<rparr>]"
        using that x by (cases rule: upload_runtime_admit_cases[OF uploading(2), of frame]) (auto simp: owned_request_def)
      then show ?thesis using uploading(3) i' f by (auto simp: upload_pending_def)
    qed
  qed simp
  then show ?thesis using uploading(1) x by (simp add: coordinator_admit_upload_def Let_def)
qed (use inv in \<open>simp_all add: coordinator_admit_upload_def steady_refused\<close>)

lemma coordinator_begin_read_steady:
  assumes inv: "coordinator_inv c"
  shows "steady c (coordinator_begin_read c)"
  using inv
proof (cases rule: coordinator_runtime)
  case (reading r D S)
  obtain x r' where x: "readback_begin_read r = (x, r')" by fastforce
  have i': "\<exists>D S. readback_inv D S r'"
    using readback_run_step_inv[OF readback_run_step.begin_read reading(2)] x by auto
  note f = readback_frames(3)[of r, unfolded x snd_conv]
  have "steady c (on_ok (map_err TeReadback x) (c\<lparr>co_runtime := Some (DrReadback r')\<rparr>) (\<lambda>owner.
    let (y, c) = record_owner owner OkReadbackRead (c\<lparr>co_runtime := Some (DrReadback r')\<rparr>) in on_ok y c (\<lambda>_. (Ok owner, c))))"
    using inv reading(1)
  proof (rule steady_request)
    show "x \<noteq> Panic" and "\<And>e. x = Err e \<Longrightarrow> DrReadback r' = DrReadback r"
      using x by (cases rule: readback_begin_read_cases[OF reading(2)]; auto)+
    show "runtime_ok (DrReadback r') (co_pending c @ [\<lparr>pp_sequence = rq_sequence (orq_envelope owner), pp_kind = OkReadbackRead\<rparr>])"
      if "x = Ok owner" for owner
      using begin_read_outstanding[of r owner] that x reading(3) i' f by (auto simp: readback_pending_def)
  qed simp
  then show ?thesis using reading(1) x by (simp add: coordinator_begin_read_def Let_def)
qed (use inv in \<open>simp_all add: coordinator_begin_read_def steady_refused\<close>)

lemma begin_upload_abort_steady:
  assumes inv: "coordinator_inv c"
  shows "steady c (begin_upload_abort sid c)"
  using inv
proof (cases rule: coordinator_runtime)
  case (uploading r ds D)
  obtain x r' where x: "upload_begin_abort sid r = (x, r')" by fastforce
  have i': "\<exists>ds D. upload_runtime_inv ds D r'"
    using upload_run_step_inv[OF upload_run_step.begin_abort uploading(2), of sid] x by auto
  note f = upload_frames(13-15)[of sid r, unfolded x snd_conv]
  have "steady c (on_ok (map_err TeUpload x) (c\<lparr>co_runtime := Some (DrUpload r')\<rparr>) (\<lambda>owner.
    let (y, c) = record_owner owner OkUploadAbort (c\<lparr>co_runtime := Some (DrUpload r')\<rparr>) in on_ok y c (\<lambda>_. (Ok owner, c))))"
    using inv uploading(1)
  proof (rule steady_request)
    show "x \<noteq> Panic" and "\<And>e. x = Err e \<Longrightarrow> DrUpload r' = DrUpload r"
      using x upload_control_quiet(2)[of r sid] by (auto simp: quiet_def)
    show "runtime_ok (DrUpload r') (co_pending c @ [\<lparr>pp_sequence = rq_sequence (orq_envelope owner), pp_kind = OkUploadAbort\<rparr>])"
      if "x = Ok owner" for owner
    proof -
      have "ur_pending_abort r = None" "ur_pending_abort r' \<noteq> None"
        using that x by (auto simp: upload_begin_abort_def take_sequence_def Let_def case_prod_beta split: if_splits on_ok_split_asm)
      then show ?thesis using uploading(3) i' f by (auto simp: upload_pending_def)
    qed
  qed simp
  then show ?thesis using uploading(1) x by (simp add: begin_upload_abort_def Let_def)
qed (use inv in \<open>simp_all add: begin_upload_abort_def steady_refused\<close>)

lemma begin_upload_finish_steady:
  assumes inv: "coordinator_inv c"
  shows "steady c (begin_upload_finish sid c)"
  using inv
proof (cases rule: coordinator_runtime)
  case (uploading r ds D)
  obtain x r' where x: "upload_begin_finish sid r = (x, r')" by fastforce
  have i': "\<exists>ds D. upload_runtime_inv ds D r'"
    using upload_run_step_inv[OF upload_run_step.begin_finish uploading(2), of sid] x by auto
  note f = upload_frames(19-21)[of sid r, unfolded x snd_conv]
  have "steady c (on_ok (map_err TeUpload x) (c\<lparr>co_runtime := Some (DrUpload r')\<rparr>) (\<lambda>owner.
    let (y, c) = record_owner owner OkUploadFinish (c\<lparr>co_runtime := Some (DrUpload r')\<rparr>) in on_ok y c (\<lambda>_. (Ok owner, c))))"
    using inv uploading(1)
  proof (rule steady_request)
    show "x \<noteq> Panic" and "\<And>e. x = Err e \<Longrightarrow> DrUpload r' = DrUpload r"
      using x upload_control_quiet(3)[of r sid] by (auto simp: quiet_def)
    show "runtime_ok (DrUpload r') (co_pending c @ [\<lparr>pp_sequence = rq_sequence (orq_envelope owner), pp_kind = OkUploadFinish\<rparr>])"
      if "x = Ok owner" for owner
    proof -
      have "ur_pending_finish r = None" "ur_pending_finish r' \<noteq> None"
        using that x by (auto simp: upload_begin_finish_def take_sequence_def Let_def case_prod_beta split: if_splits on_ok_split_asm)
      then show ?thesis using uploading(3) i' f by (auto simp: upload_pending_def)
    qed
  qed simp
  then show ?thesis using uploading(1) x by (simp add: begin_upload_finish_def Let_def)
qed (use inv in \<open>simp_all add: begin_upload_finish_def steady_refused\<close>)

text \<open>The generation counter does not wrap around while a read is outstanding (see the readback runtime).\<close>

definition no_wrap :: "BulkTransferCoordinator \<Rightarrow> bool" where
  "no_wrap c \<longleftrightarrow> (case co_runtime c of Some (DrReadback r) \<Rightarrow> no_generation_wrap r | _ \<Rightarrow> True)"

lemma apply_readback_credit_steady:
  assumes inv: "coordinator_inv c"
  shows "steady c (apply_readback_credit credit c)"
  using inv
proof (cases rule: coordinator_runtime)
  case (reading r D S)
  obtain x r' where x: "readback_runtime_apply_credit credit r = (x, r')" by fastforce
  have i': "\<exists>D S. readback_inv D S r'"
    using readback_run_step_inv[OF readback_run_step.credit reading(2), of credit] x by auto
  note f = readback_frames(5,6)[of credit r, unfolded x snd_conv]
  have "x \<noteq> Panic" and "\<And>e. x = Err e \<Longrightarrow> DrReadback r' = DrReadback r"
    using x by (cases rule: readback_runtime_credit_cases[OF reading(2), of credit]; auto)+
  then have "steady c (map_err TeReadback x, c\<lparr>co_runtime := Some (DrReadback r')\<rparr>)"
    using inv reading(1,3) i' f by (intro steady_call) (simp_all add: readback_pending_def)
  then show ?thesis using reading(1) x by (simp add: apply_readback_credit_def)
qed (use inv in \<open>simp_all add: apply_readback_credit_def steady_refused\<close>)

lemma coordinator_status_steady:
  assumes inv: "coordinator_inv c" and wrap: "no_wrap c"
  shows "steady c (coordinator_status sid c)"
  using inv
proof (cases rule: coordinator_runtime)
  case (uploading r ds D)
  obtain x r' where x: "upload_runtime_status sid r = (x, r')" by fastforce
  have i': "\<exists>ds D. upload_runtime_inv ds D r'"
    using upload_run_step_inv[OF upload_run_step.status uploading(2), of sid] x by auto
  have f: "r' = r\<lparr>ur_pipeline := ur_pipeline r'\<rparr>"
    using x by (auto simp: upload_runtime_status_def case_prod_beta)
  have p: "upload_pending (r\<lparr>ur_pipeline := pl\<rparr>) ps = upload_pending r ps" for pl ps by (simp add: upload_pending_def)
  have "x \<noteq> Panic" and "\<And>e. x = Err e \<Longrightarrow> DrUpload r' = DrUpload r"
    using x upload_control_quiet(1)[of r sid] by (auto simp: quiet_def)
  moreover have "runtime_ok (DrUpload r') (co_pending c)" using i' uploading(3) p[of "ur_pipeline r'"] f by simp
  ultimately have "steady c (map_err TeUpload x, c\<lparr>co_runtime := Some (DrUpload r')\<rparr>)"
    using inv uploading(1) by (intro steady_call) simp_all
  then show ?thesis using uploading(1) x by (simp add: coordinator_status_def)
next
  case (reading r D S)
  obtain x r' where x: "readback_runtime_status sid r = (x, r')" by fastforce
  have i': "\<exists>D S. readback_inv D S r'"
    using readback_run_step_inv[OF readback_run_step.status reading(2), of sid] x wrap reading(1) by (auto simp: no_wrap_def)
  note f = readback_frames(7,8)[of sid r, unfolded x snd_conv]
  have "x \<noteq> Panic" and "\<And>e. x = Err e \<Longrightarrow> DrReadback r' = DrReadback r"
    using x readback_control_quiet(1)[of r sid] by (auto simp: quiet_def)
  then have "steady c (map_err TeReadback x, c\<lparr>co_runtime := Some (DrReadback r')\<rparr>)"
    using inv reading(1,3) i' f by (intro steady_call) (simp_all add: readback_pending_def)
  then show ?thesis using reading(1) x by (simp add: coordinator_status_def)
qed (use inv in \<open>simp_all add: coordinator_status_def steady_refused\<close>)

lemma finish_readback_steady:
  assumes inv: "coordinator_inv c"
  shows "steady c (finish_readback sid c)"
  using inv
proof (cases rule: coordinator_runtime)
  case (reading r D S)
  obtain x r' where x: "readback_runtime_finish sid r = (x, r')" by fastforce
  have i': "\<exists>D S. readback_inv D S r'"
    using readback_run_step_inv[OF readback_run_step.finish reading(2), of sid] x by auto
  note f = readback_frames(9,10)[of sid r, unfolded x snd_conv]
  have "x \<noteq> Panic" and "\<And>e. x = Err e \<Longrightarrow> DrReadback r' = DrReadback r"
    using x readback_control_quiet(2)[of r sid] by (auto simp: quiet_def)
  then have "steady c (on_ok (map_err TeReadback x) (c\<lparr>co_runtime := Some (DrReadback r')\<rparr>)
      (\<lambda>v. (Ok v, release_if_quiescent (c\<lparr>co_runtime := Some (DrReadback r')\<rparr>))))"
    using inv reading(1,3) i' f by (intro steady_release[where h = "\<lambda>v. v"]) (simp_all add: readback_pending_def)
  then show ?thesis using reading(1) x by (simp add: finish_readback_def Let_def)
qed (use inv in \<open>simp_all add: finish_readback_def steady_refused\<close>)

lemma abort_readback_steady:
  assumes inv: "coordinator_inv c" and wrap: "no_wrap c"
  shows "steady c (abort_readback sid c)"
  using inv
proof (cases rule: coordinator_runtime)
  case (reading r D S)
  obtain x r' where x: "readback_runtime_abort sid r = (x, r')" by fastforce
  have i': "\<exists>D S. readback_inv D S r'"
    using readback_run_step_inv[OF readback_run_step.abort_read reading(2), of sid] x wrap reading(1) by (auto simp: no_wrap_def)
  note f = readback_frames(11,12)[of sid r, unfolded x snd_conv]
  have "x \<noteq> Panic" and "\<And>e. x = Err e \<Longrightarrow> DrReadback r' = DrReadback r"
    using x readback_control_quiet(3)[of r sid] by (auto simp: quiet_def)
  then have "steady c (on_ok (map_err TeReadback x) (c\<lparr>co_runtime := Some (DrReadback r')\<rparr>)
      (\<lambda>v. (Ok (), release_if_quiescent (c\<lparr>co_runtime := Some (DrReadback r')\<rparr>))))"
    using inv reading(1,3) i' f by (intro steady_release[where h = "\<lambda>v. ()"]) (simp_all add: readback_pending_def)
  then show ?thesis using reading(1) x by (simp add: abort_readback_def Let_def)
qed (use inv in \<open>simp_all add: abort_readback_def steady_refused\<close>)

lemma begin_timeout_cleanup_steady:
  assumes inv: "coordinator_inv c" and wrap: "no_wrap c"
  shows "steady c (begin_timeout_cleanup c)"
proof -
  have "steady c (let (x, c) = begin_upload_abort sid c in on_ok x c (\<lambda>owner. (Ok (Some owner), c)))" for sid
    using begin_upload_abort_steady[OF inv, of sid]
    by (cases "begin_upload_abort sid c"; cases "fst (begin_upload_abort sid c)") (auto simp: steady_def sound_outcome_def)
  moreover have "steady c (let (x, c) = abort_readback sid c in on_ok x c (\<lambda>_. (Ok None, c)))" for sid
    using abort_readback_steady[OF inv wrap, of sid]
    by (cases "abort_readback sid c"; cases "fst (abort_readback sid c)") (auto simp: steady_def sound_outcome_def)
  ultimately show ?thesis
    using inv by (auto simp: begin_timeout_cleanup_def steady_refused ok_or_Err_iff split: on_ok_split TransferDirection.split)
qed

subsection \<open>Responses of the owner\<close>

lemma sound_release:
  assumes "runtime_ok rt ps" and "co_pending c = ps" and "x \<noteq> Panic" and "\<And>e. g e \<noteq> TeQueueFull"
  shows "sound_outcome (on_ok (map_err g x) (c\<lparr>co_runtime := Some rt\<rparr>)
    (\<lambda>v. (Ok (h v), release_if_quiescent (c\<lparr>co_runtime := Some rt\<rparr>))))"
proof -
  have "coordinator_inv (c\<lparr>co_runtime := Some rt\<rparr>)" using assms(1,2) by (simp add: coordinator_inv_def)
  then show ?thesis using released_inv[of "c\<lparr>co_runtime := Some rt\<rparr>"] assms(3,4) by (cases x) (simp_all add: sound_outcome_def)
qed

lemma submset_minus: "A \<subseteq># B \<Longrightarrow> A - {#x#} \<subseteq># B - {#x#}"
  by (simp add: subseteq_mset_def diff_le_mono)

lemma upload_pending_dropped:
  assumes "upload_pending r ps" and "i < length ps"
  shows "upload_pending r (remove_at i ps)"
proof -
  have "mset (ops OkUploadWrite (remove_at i ps)) \<subseteq># mset (ops OkUploadWrite ps)"
    unfolding mset_ops_remove_at[OF assms(2)] by simp
  then show ?thesis
    using assms set_remove_at_subset[of i ps] length_ops_remove_at[OF assms(2)]
    by (auto simp: upload_pending_def intro: subset_mset.order_trans)
qed

lemma upload_pending_answered:
  assumes p: "upload_pending r ps" and i: "i < length ps"
    and o: "pp_kind (ps ! i) = OkUploadOpen \<or> ur_pending_open r' \<noteq> None \<or> ur_pending_open r = None"
    and f: "pp_kind (ps ! i) = OkUploadFinish \<or> ur_pending_finish r' = ur_pending_finish r"
    and a: "pp_kind (ps ! i) = OkUploadAbort \<or> ur_pending_abort r' = ur_pending_abort r"
    and w: "ur_outstanding r' = ur_outstanding r \<or> (pp_kind (ps ! i) = OkUploadWrite \<and>
      (\<exists>j<length (ur_outstanding r). ow_sequence (ur_outstanding r ! j) = pp_sequence (ps ! i) \<and>
        ur_outstanding r' = remove_at j (ur_outstanding r)))"
  shows "upload_pending r' (remove_at i ps)"
proof -
  have d: "upload_pending r (remove_at i ps)" by (rule upload_pending_dropped[OF p i])
  have ob: "n - Suc 0 = (0 :: nat)" if "n \<le> of_bool b" for n b using that by (cases b) simp_all
  note le = length_ops_remove_at[OF i]
  have "mset (ops OkUploadWrite (remove_at i ps)) \<subseteq># mset (map ow_sequence (ur_outstanding r'))"
    using w
  proof (elim disjE conjE exE)
    fix j assume j: "pp_kind (ps ! i) = OkUploadWrite" "j < length (ur_outstanding r)"
      "ow_sequence (ur_outstanding r ! j) = pp_sequence (ps ! i)" "ur_outstanding r' = remove_at j (ur_outstanding r)"
    then show ?thesis
      using p mset_ops_remove_at[OF i, of OkUploadWrite] mset_map_remove_at[of j "ur_outstanding r" ow_sequence]
        submset_minus[of "mset (ops OkUploadWrite ps)"]
      by (simp add: upload_pending_def)
  qed (use d in \<open>simp add: upload_pending_def\<close>)
  moreover have "length (ops OkUploadOpen (remove_at i ps)) \<le> of_bool (ur_pending_open r' \<noteq> None)"
    using o d le[of OkUploadOpen] p ob[of "length (ops OkUploadOpen ps)"] by (auto simp: upload_pending_def)
  moreover have "length (ops OkUploadFinish (remove_at i ps)) \<le> of_bool (ur_pending_finish r' \<noteq> None)"
    using f d le[of OkUploadFinish] p ob[of "length (ops OkUploadFinish ps)"] by (auto simp: upload_pending_def)
  moreover have "length (ops OkUploadAbort (remove_at i ps)) \<le> of_bool (ur_pending_abort r' \<noteq> None)"
    using a d le[of OkUploadAbort] p ob[of "length (ops OkUploadAbort ps)"] by (auto simp: upload_pending_def)
  ultimately show ?thesis using d by (simp add: upload_pending_def)
qed

lemma complete_owner_sound:
  assumes inv: "coordinator_inv c"
  shows "sound_outcome (complete_owner response c)"
proof (cases "rs_client (ors_envelope response) = ScDiagnostic \<and>
    position (\<lambda>p. pp_sequence p = rs_sequence (ors_envelope response)) (co_pending c) \<noteq> None")
  case False
  then show ?thesis using inv by (auto simp: complete_owner_def sound_outcome_def simp del: position_None)
next
  case True
  then obtain i where client: "rs_client (ors_envelope response) = ScDiagnostic"
    and pos: "position (\<lambda>p. pp_sequence p = rs_sequence (ors_envelope response)) (co_pending c) = Some i"
    by (auto simp del: position_None)
  let ?ps = "remove_at i (co_pending c)"
  have i: "i < length (co_pending c)" and sq: "pp_sequence (co_pending c ! i) = rs_sequence (ors_envelope response)"
    using position_SomeD[OF pos] by simp_all
  from inv show ?thesis
  proof (cases rule: coordinator_runtime)
    case (idle pool)
    then show ?thesis using i by simp
  next
    case (uploading r ds D)
    note ans = upload_pending_answered[OF uploading(3) i]
    note start = complete_owner_def client pos uploading(1) Let_def case_prod_beta
    have kind: "pp_kind (co_pending c ! i) \<in> {OkUploadOpen, OkUploadWrite, OkUploadFinish, OkUploadAbort}"
      using uploading(3) i by (simp add: upload_pending_def)
    then consider (o) "pp_kind (co_pending c ! i) = OkUploadOpen" | (w) "pp_kind (co_pending c ! i) = OkUploadWrite"
      | (f) "pp_kind (co_pending c ! i) = OkUploadFinish" | (a) "pp_kind (co_pending c ! i) = OkUploadAbort" by blast
    then show ?thesis
    proof cases
      case o
      let ?y = "upload_complete_open response r"
      have "upload_pending (snd ?y) ?ps" by (rule ans) (simp_all add: o upload_frames)
      moreover have "\<exists>ds D. upload_runtime_inv ds D (snd ?y)"
        using upload_run_step_inv[OF upload_run_step.complete_open uploading(2)] by blast
      moreover have "fst ?y \<noteq> Panic" by (cases rule: upload_complete_open_cases[OF uploading(2), of response]) auto
      ultimately show ?thesis by (simp add: start o) (intro sound_release; simp)
    next
      case w
      let ?y = "upload_complete_write response r"
      have "upload_pending (snd ?y) ?ps"
        by (rule ans) (use write_outstanding[of response r] in \<open>auto simp: w upload_frames sq\<close>)
      moreover have "\<exists>ds D. upload_runtime_inv ds D (snd ?y)"
        using upload_run_step_inv[OF upload_run_step.complete_write uploading(2)] by blast
      moreover have "fst ?y \<noteq> Panic" by (cases rule: upload_complete_write_cases[OF uploading(2), of response]) auto
      ultimately show ?thesis by (simp add: start w) (intro sound_release; simp)
    next
      case f
      let ?y = "upload_complete_finish response r"
      have "upload_pending (snd ?y) ?ps" by (rule ans) (auto simp: f upload_frames)
      moreover have "\<exists>ds D. upload_runtime_inv ds D (snd ?y)"
        using upload_run_step_inv[OF upload_run_step.complete_finish uploading(2)] by blast
      moreover have "fst ?y \<noteq> Panic" using upload_complete_quiet(2)[of r response] by (simp add: quiet_def)
      ultimately show ?thesis by (simp add: start f) (intro sound_release; simp)
    next
      case a
      let ?y = "upload_complete_abort response r"
      have "upload_pending (snd ?y) ?ps" by (rule ans) (auto simp: a upload_frames)
      moreover have "\<exists>ds D. upload_runtime_inv ds D (snd ?y)"
        using upload_run_step_inv[OF upload_run_step.complete_abort uploading(2)] by blast
      moreover have "fst ?y \<noteq> Panic" using upload_complete_quiet(1)[of r response] by (simp add: quiet_def)
      ultimately show ?thesis by (simp add: start a) (intro sound_release; simp)
    qed
  next
    case (reading r D S)
    have sub: "mset (ops OkReadbackRead ?ps) \<subseteq># mset (ops OkReadbackRead (co_pending c))"
      unfolding mset_ops_remove_at[OF i] by simp
    have dropped: "readback_pending r ?ps"
      using reading(3) set_remove_at_subset[of i "co_pending c"] length_ops_remove_at[OF i] sub
      by (auto simp: readback_pending_def intro: subset_mset.order_trans)
    show ?thesis
    proof (cases "pp_kind (co_pending c ! i) = OkReadbackOpen")
      case True
      let ?y = "readback_complete_open response r"
      have "length (ops OkReadbackOpen ?ps) = 0"
        using reading(3) length_ops_remove_at[OF i, of OkReadbackOpen] True
        by (cases "rr_pending_open r") (simp_all add: readback_pending_def)
      then have "readback_pending (snd ?y) ?ps" using dropped by (simp add: readback_pending_def readback_frames)
      moreover have "\<exists>D S. readback_inv D S (snd ?y)"
        using reading(2) by (cases rule: readback_complete_open_cases[OF reading(2), of response]) auto
      moreover have "fst ?y \<noteq> Panic" by (cases rule: readback_complete_open_cases[OF reading(2), of response]) auto
      ultimately show ?thesis
        using client pos reading(1) True
        by (cases "fst ?y") (simp_all add: complete_owner_def Let_def case_prod_beta sound_outcome_def coordinator_inv_def)
    next
      case False
      then show ?thesis
        using client pos reading(1,2) dropped
        by (auto simp: complete_owner_def Let_def sound_outcome_def coordinator_inv_def)
    qed
  qed
qed

lemma complete_read_owner_sound:
  assumes inv: "coordinator_inv c"
  shows "sound_outcome (complete_read_owner response c)"
proof (cases "rs_client (ors_envelope response) = ScDiagnostic \<and>
    (\<exists>i. position (\<lambda>p. pp_sequence p = rs_sequence (ors_envelope response)) (co_pending c) = Some i \<and>
      pp_kind (co_pending c ! i) = OkReadbackRead)")
  case False
  then show ?thesis
    using inv
    by (cases "position (\<lambda>p. pp_sequence p = rs_sequence (ors_envelope response)) (co_pending c)")
      (auto simp: complete_read_owner_def sound_outcome_def simp del: position_None)
next
  case True
  then obtain i where client: "rs_client (ors_envelope response) = ScDiagnostic" and kind: "pp_kind (co_pending c ! i) = OkReadbackRead"
    and pos: "position (\<lambda>p. pp_sequence p = rs_sequence (ors_envelope response)) (co_pending c) = Some i" by auto
  let ?ps = "remove_at i (co_pending c)"
  have i: "i < length (co_pending c)" and sq: "pp_sequence (co_pending c ! i) = rs_sequence (ors_envelope response)"
    using position_SomeD[OF pos] by simp_all
  from inv show ?thesis
  proof (cases rule: coordinator_runtime)
    case (idle pool)
    then show ?thesis using i by simp
  next
    case (uploading r ds D)
    then have "pp_kind (co_pending c ! i) \<noteq> OkReadbackRead" using i by (auto simp: upload_pending_def dest!: nth_mem)
    then show ?thesis using kind by simp
  next
    case (reading r D S)
    let ?y = "readback_runtime_complete_read response r"
    have "mset (ops OkReadbackRead ?ps) \<subseteq># mset (map or_sequence (rr_outstanding (snd ?y)))"
      using read_outstanding[of response r]
    proof (elim disjE exE conjE)
      assume "rr_outstanding (snd ?y) = rr_outstanding r"
      then show ?thesis
        using reading(3) mset_ops_remove_at[OF i, of OkReadbackRead] kind
        by (auto simp: readback_pending_def intro: subset_mset.order_trans[OF diff_subset_eq_self])
    next
      fix j assume j: "j < length (rr_outstanding r)" "or_sequence (rr_outstanding r ! j) = rs_sequence (ors_envelope response)"
        "rr_outstanding (snd ?y) = remove_at j (rr_outstanding r)"
      then show ?thesis
        using reading(3) mset_ops_remove_at[OF i, of OkReadbackRead] mset_map_remove_at[of j "rr_outstanding r" or_sequence]
          submset_minus[of "mset (ops OkReadbackRead (co_pending c))"] kind sq
        by (simp add: readback_pending_def)
    qed
    then have "readback_pending (snd ?y) ?ps"
      using reading(3) set_remove_at_subset[of i "co_pending c"] length_ops_remove_at[OF i, of OkReadbackOpen] kind
      by (auto simp: readback_pending_def readback_frames)
    moreover have "\<exists>D S. readback_inv D S (snd ?y)"
      using readback_run_step_inv[OF readback_run_step.complete_read reading(2)] by blast
    moreover have "fst ?y \<noteq> Panic" by (cases rule: readback_complete_read_runtime_cases[OF reading(2), of response]) auto
    ultimately show ?thesis
      using client pos reading(1) kind
      by (cases "fst ?y") (simp_all add: complete_read_owner_def Let_def case_prod_beta sound_outcome_def coordinator_inv_def)
  qed
qed

subsection \<open>The coordinator as a state machine\<close>

text \<open>Any call of the coordinator, with any arguments and any response.\<close>

inductive coordinator_step :: "BulkTransferCoordinator \<Rightarrow> BulkTransferCoordinator \<Rightarrow> bool" where
  begin_open: "coordinator_step c (snd (coordinator_begin_open q c))"
| admit: "coordinator_step c (snd (coordinator_admit_upload frame c))"
| begin_read: "coordinator_step c (snd (coordinator_begin_read c))"
| complete: "coordinator_step c (snd (complete_owner response c))"
| complete_read: "coordinator_step c (snd (complete_read_owner response c))"
| reap: "coordinator_step c (reap_quiescent c)"
| upload_abort: "coordinator_step c (snd (begin_upload_abort sid c))"
| upload_finish: "coordinator_step c (snd (begin_upload_finish sid c))"
| credit: "coordinator_step c (snd (apply_readback_credit credit c))"
| status: "no_wrap c \<Longrightarrow> coordinator_step c (snd (coordinator_status sid c))"
| read_finish: "coordinator_step c (snd (finish_readback sid c))"
| read_abort: "no_wrap c \<Longrightarrow> coordinator_step c (snd (abort_readback sid c))"
| timeout: "no_wrap c \<Longrightarrow> coordinator_step c (snd (begin_timeout_cleanup c))"

definition coordinator_init :: "BulkTransferCoordinator \<Rightarrow> bool" where
  "coordinator_init c \<longleftrightarrow>
    (\<exists>buffers. length buffers = TRANSFER_SLOT_COUNT \<and> (\<forall>b\<in>set buffers. length b = TRANSFER_DATA_BYTES) \<and> c = coordinator_new buffers)"

lemma new_pool_lending:
  assumes "length buffers = 4" and "\<forall>b\<in>set buffers. length b = 3584"
  shows "lending [] (BulkLeasePool_new buffers)"
proof -
  have "leases_ok (BulkLeasePool_new buffers)" by (rule leases_new_ok[OF assms])
  moreover have "at_home (BulkLeasePool_new buffers) i" if "i < 4" for i
    using that assms(1) by (simp add: at_home_def BulkLeasePool_new_def)
  ultimately show ?thesis by (simp add: lending_def)
qed

lemmas coordinator_ops_steady =
  coordinator_begin_open_steady coordinator_admit_steady coordinator_begin_read_steady begin_upload_abort_steady
  begin_upload_finish_steady apply_readback_credit_steady finish_readback_steady

lemmas coordinator_ops_steady_no_wrap = coordinator_status_steady abort_readback_steady begin_timeout_cleanup_steady

interpretation coordinator: machine coordinator_init coordinator_step coordinator_inv
proof
  show "coordinator_inv c" if "coordinator_init c" for c
    using that new_pool_lending by (auto simp: coordinator_init_def coordinator_new_def coordinator_inv_def)
  show "coordinator_inv d" if inv: "coordinator_inv c" and step: "coordinator_step c d" for c d
    using step
  proof cases
    case (complete response)
    then show ?thesis using complete_owner_sound[OF inv] by (simp add: sound_outcome_def)
  next
    case (complete_read response)
    then show ?thesis using complete_read_owner_sound[OF inv] by (simp add: sound_outcome_def)
  next
    case reap
    then show ?thesis using released_inv[OF inv] by (simp add: reap_quiescent_def)
  qed (use inv coordinator_ops_steady coordinator_ops_steady_no_wrap in \<open>auto simp: steady_def sound_outcome_def\<close>)
qed

lemma sound_np: "sound_outcome y \<Longrightarrow> fst y \<notin> {Panic, Err TeQueueFull}"
  by (simp add: sound_outcome_def)

lemma steady_np: "steady c y \<Longrightarrow> fst y \<notin> {Panic, Err TeQueueFull}"
  by (simp add: steady_def sound_outcome_def)

text \<open>The calls that may start a new generation answer as they should even if the counter wraps around.\<close>

lemma coordinator_status_np: "coordinator_inv c \<Longrightarrow> fst (coordinator_status sid c) \<notin> {Panic, Err TeQueueFull}"
  using upload_control_quiet(1) readback_control_quiet(1)
  by (auto simp: coordinator_inv_def coordinator_status_def case_prod_beta quiet_def map_err_Err_iff
      split: DirectionRuntime.splits)

lemma abort_readback_np: "coordinator_inv c \<Longrightarrow> fst (abort_readback sid c) \<notin> {Panic, Err TeQueueFull}"
  using readback_control_quiet(3)
  by (auto simp: coordinator_inv_def abort_readback_def case_prod_beta Let_def quiet_def map_err_Err_iff
      split: DirectionRuntime.splits on_ok_split on_ok_split_asm)

lemma begin_timeout_cleanup_np:
  assumes inv: "coordinator_inv c"
  shows "fst (begin_timeout_cleanup c) \<notin> {Panic, Err TeQueueFull}"
  using begin_upload_abort_steady[OF inv, THEN steady_np] abort_readback_np[OF inv]
  by (auto simp: begin_timeout_cleanup_def case_prod_beta Let_def ok_or_Err_iff
      split: on_ok_split on_ok_split_asm TransferDirection.splits)

text \<open>C3: The coordinator never loses its runtime or its buffers and never panics: in every reachable state it has a
  runtime; when it is idle all four buffers are in the pool and no request to the owner is open; at most seven requests
  are open, so the list of eight is never full; and no call, whatever its arguments and whatever the owner answers, panics
  (in particular not in the assertion of \<open>into_lease_pool\<close>) or fails because the list is full.  The states are those
  reached by any calls, except that a status request or an abort that starts a new generation must not find a read
  outstanding that is \<open>2 ^ 32 - 1\<close> generations old (\<open>no_generation_wrap\<close>); the answers stated here do not depend on
  that.\<close>

theorem coordinator_never_wedged:
  assumes "reachable coordinator_init coordinator_step c"
  shows "(case co_runtime c of
      None \<Rightarrow> False
    | Some (DrIdle pool) \<Rightarrow> co_pending c = [] \<and> unat (lease_available pool) = TRANSFER_SLOT_COUNT
    | Some _ \<Rightarrow> True) \<and> pending_owner c \<le> 7 \<and>
    fst (coordinator_begin_open q c) \<notin> {Panic, Err TeQueueFull} \<and>
    fst (coordinator_admit_upload frame c) \<notin> {Panic, Err TeQueueFull} \<and>
    fst (coordinator_begin_read c) \<notin> {Panic, Err TeQueueFull} \<and>
    fst (begin_upload_abort sid c) \<notin> {Panic, Err TeQueueFull} \<and>
    fst (begin_upload_finish sid c) \<notin> {Panic, Err TeQueueFull} \<and>
    fst (complete_owner response c) \<notin> {Panic, Err TeQueueFull} \<and>
    fst (complete_read_owner response c) \<notin> {Panic, Err TeQueueFull} \<and>
    fst (apply_readback_credit credit c) \<notin> {Panic, Err TeQueueFull} \<and>
    fst (coordinator_status sid c) \<notin> {Panic, Err TeQueueFull} \<and>
    fst (finish_readback sid c) \<notin> {Panic, Err TeQueueFull} \<and>
    fst (abort_readback sid c) \<notin> {Panic, Err TeQueueFull} \<and>
    fst (begin_timeout_cleanup c) \<notin> {Panic, Err TeQueueFull}"
proof -
  have inv: "coordinator_inv c" by (rule coordinator.reachable_inv[OF assms])
  obtain rt where rt: "co_runtime c = Some rt" "runtime_ok rt (co_pending c)" using inv by (auto simp: coordinator_inv_def)
  have "case co_runtime c of None \<Rightarrow> False
    | Some (DrIdle pool) \<Rightarrow> co_pending c = [] \<and> unat (lease_available pool) = TRANSFER_SLOT_COUNT | Some _ \<Rightarrow> True"
    using rt lending_available[of "[]"] by (cases rt) simp_all
  then show ?thesis
    using pending_bound[OF rt(2)] coordinator_ops_steady[OF inv, THEN steady_np]
      complete_owner_sound[OF inv, THEN sound_np] complete_read_owner_sound[OF inv, THEN sound_np]
      coordinator_status_np[OF inv] abort_readback_np[OF inv] begin_timeout_cleanup_np[OF inv]
    unfolding pending_owner_def by blast
qed

subsection \<open>A refused message\<close>

lemma bulk_codec_total:
  "decode_store_bulk_open_request p \<noteq> Panic" "decode_store_bulk_data p \<noteq> Panic" "decode_store_bulk_credit p \<noteq> Panic"
  "decode_store_bulk_status_request p \<noteq> Panic" "decode_store_bulk_finish_request p \<noteq> Panic"
  "decode_store_bulk_abort_request p \<noteq> Panic" "encode_store_bulk_status_response s out \<noteq> Panic"
  "encode_store_bulk_finish_response f out \<noteq> Panic" "encode_store_bulk_abort_request sid out \<noteq> Panic"
  by (simp_all add: open_request.dec_total bulk_data.dec_total bulk_credit.dec_total bulk_status_request.dec_total
      bulk_finish_request.dec_total bulk_abort_request.dec_total bulk_status_response.enc_total bulk_finish_response.enc_total
      bulk_abort_request.enc_total)

text \<open>A handler either answers \<open>BadRequest\<close> without an effect, or it answers something else.\<close>

definition refuses_unchanged :: "BulkTransferCoordinator \<Rightarrow> (BulkProtocolAction, 'e) res \<times> BulkTransferCoordinator \<Rightarrow> bool" where
  "refuses_unchanged c y \<longleftrightarrow> (case fst y of Ok action \<Rightarrow> action = bad_request \<longrightarrow> snd y = c | _ \<Rightarrow> False)"

lemma refuses_bad_request [simp]: "refuses_unchanged c (Ok bad_request, c)"
  by (simp add: refuses_unchanged_def)

lemma encode_immediate_refuses: "(\<And>out. encode out \<noteq> Panic) \<Longrightarrow> refuses_unchanged c (encode_immediate encode, c')"
  by (cases "encode (replicate BULK_CONTROL_PAYLOAD_BYTES 0)")
    (auto simp: refuses_unchanged_def encode_immediate_def bad_request_def Let_def)

lemma owner_or_error_refuses:
  "steady c y \<Longrightarrow> refuses_unchanged c (let (x, c) = y in (owner_or_error x reply sid, c))"
  by (cases y; cases "fst y") (auto simp: refuses_unchanged_def owner_or_error_def bad_request_def steady_def sound_outcome_def)

lemma answer_refuses:
  assumes "steady c y" and "\<And>v c'. refuses_unchanged c (f v c')"
  shows "refuses_unchanged c (let (x, c) = y in case x of Ok v \<Rightarrow> f v c | Err _ \<Rightarrow> (Ok bad_request, c) | Panic \<Rightarrow> (Panic, c))"
  using assms by (cases y; cases "fst y") (auto simp: refuses_unchanged_def steady_def sound_outcome_def)

lemma decoded_refuses:
  assumes "r \<noteq> Panic" and "\<And>v. r = Ok v \<Longrightarrow> refuses_unchanged c (f v)"
  shows "refuses_unchanged c (case r of Ok v \<Rightarrow> f v | Err _ \<Rightarrow> (Ok bad_request, c) | Panic \<Rightarrow> (Panic, c))"
  using assms by (cases r) (auto simp: refuses_unchanged_def)

lemma other_action_refuses: "action \<noteq> bad_request \<Longrightarrow> refuses_unchanged c (Ok action, c')"
  by (simp add: refuses_unchanged_def)

lemma refuses_if:
  "(b \<Longrightarrow> refuses_unchanged c x) \<Longrightarrow> (\<not> b \<Longrightarrow> refuses_unchanged c y) \<Longrightarrow> refuses_unchanged c (if b then x else y)"
  by simp

lemma refuses_direction:
  "refuses_unchanged c u \<Longrightarrow> refuses_unchanged c r \<Longrightarrow> refuses_unchanged c
    (case direction of Td_Upload \<Rightarrow> u | Td_Readback \<Rightarrow> r | Td_Unspecified \<Rightarrow> (Ok bad_request, c))"
  by (cases direction) simp_all

lemma deferred_refuses: "refuses_unchanged c (Ok (ActDeferredStatus sid), c')" "refuses_unchanged c (Ok (ActDeferredFinish sid), c')"
    "refuses_unchanged c (Ok ActAcceptedEvent, c')"
  by (simp_all add: other_action_refuses bad_request_def)

lemma dispatch_refuses:
  assumes inv: "coordinator_inv c" and wrap: "no_wrap c"
  shows "refuses_unchanged c (dispatch_bulk_protocol header payload c)"
  unfolding dispatch_bulk_protocol_def
  by (intro refuses_if refuses_bad_request refuses_direction deferred_refuses
      decoded_refuses[OF bulk_codec_total(1)] decoded_refuses[OF bulk_codec_total(2)] decoded_refuses[OF bulk_codec_total(3)]
      decoded_refuses[OF bulk_codec_total(4)] decoded_refuses[OF bulk_codec_total(5)] decoded_refuses[OF bulk_codec_total(6)]
      owner_or_error_refuses[OF coordinator_begin_open_steady[OF inv]] owner_or_error_refuses[OF coordinator_admit_steady[OF inv]]
      owner_or_error_refuses[OF begin_upload_finish_steady[OF inv]] owner_or_error_refuses[OF begin_upload_abort_steady[OF inv]]
      answer_refuses[OF apply_readback_credit_steady[OF inv]] answer_refuses[OF coordinator_status_steady[OF inv wrap]]
      answer_refuses[OF finish_readback_steady[OF inv]] answer_refuses[OF abort_readback_steady[OF inv wrap]]
      encode_immediate_refuses bulk_codec_total)

text \<open>A message that is answered with \<open>BadRequest\<close> has no effect: in every reachable state, whatever the header
  and the payload of a bulk transfer message, dispatching it does not panic, and if the answer is \<open>BadRequest\<close> the
  coordinator, its buffers and its open requests are as they were before.\<close>

theorem dispatch_bad_request_harmless:
  assumes "reachable coordinator_init coordinator_step c" and "no_wrap c"
  shows "case dispatch_bulk_protocol header payload c of
      (Ok action, c') \<Rightarrow> action \<noteq> bad_request \<or> c' = c
    | (_, c') \<Rightarrow> False"
proof -
  have "refuses_unchanged c (dispatch_bulk_protocol header payload c)"
    by (rule dispatch_refuses[OF coordinator.reachable_inv[OF assms(1)] assms(2)])
  then show ?thesis
    by (cases "dispatch_bulk_protocol header payload c"; cases "fst (dispatch_bulk_protocol header payload c)")
      (auto simp: refuses_unchanged_def)
qed

subsection \<open>A transfer that cannot be opened\<close>

text \<open>
  A runtime that waits for the answer to its open request while the coordinator does not know of any open request: no call
  changes it any more.
\<close>

definition stuck :: "BulkTransferCoordinator \<Rightarrow> bool" where
  "stuck c \<longleftrightarrow> co_pending c = [] \<and>
    (case co_runtime c of
       Some (DrUpload r) \<Rightarrow> ur_pipeline r = BulkUploadPipeline_new \<and> ur_pending_open r \<noteq> None \<and> ur_pending_finish r = None \<and>
         ur_pending_abort r = None \<and> ur_outstanding r = []
     | Some (DrReadback r) \<Rightarrow> rr_pipeline r = BulkReadbackPipeline_new \<and> rr_pending_open r \<noteq> None \<and> rr_name r = None \<and>
         rr_outstanding r = [] \<and> rr_sent r = []
     | _ \<Rightarrow> False)"

lemma stuck_upload:
  assumes "ur_pipeline r = BulkUploadPipeline_new" and "ur_outstanding r = []" and "ur_pending_finish r = None"
    and "ur_pending_abort r = None"
  shows "\<exists>e. upload_runtime_admit frame r = (Err e, r)" "\<exists>e. upload_runtime_status sid r = (Err e, r)"
    "\<exists>e. upload_begin_abort sid r = (Err e, r)" "\<exists>e. upload_begin_finish sid r = (Err e, r)"
proof -
  have p: "r\<lparr>ur_pipeline := BulkUploadPipeline_new\<rparr> = r" using assms(1) by (metis BulkUploadRuntime.surjective BulkUploadRuntime.update_convs(1))
  show "\<exists>e. upload_runtime_admit frame r = (Err e, r)" "\<exists>e. upload_runtime_status sid r = (Err e, r)"
    "\<exists>e. upload_begin_abort sid r = (Err e, r)" "\<exists>e. upload_begin_finish sid r = (Err e, r)"
    using assms p
    by (simp_all add: upload_runtime_admit_def upload_admit_def upload_runtime_status_def upload_status_def upload_begin_abort_def
        upload_abort_def upload_begin_finish_def upload_finish_def Let_def) (simp_all add: BulkUploadPipeline_new_def)
qed

lemma stuck_readback:
  assumes "rr_pipeline r = BulkReadbackPipeline_new" and "rr_outstanding r = []" and "rr_sent r = []" and "rr_name r = None"
  shows "\<exists>e. readback_begin_read r = (Err e, r)" "\<exists>e. readback_runtime_apply_credit credit r = (Err e, r)"
    "\<exists>e. readback_runtime_status sid r = (Err e, r)" "\<exists>e. readback_runtime_finish sid r = (Err e, r)"
    "\<exists>e. readback_runtime_abort sid r = (Err e, r)"
proof -
  have p: "r\<lparr>rr_pipeline := BulkReadbackPipeline_new\<rparr> = r" using assms(1) by (metis BulkReadbackRuntime.surjective BulkReadbackRuntime.update_convs(1))
  show "\<exists>e. readback_begin_read r = (Err e, r)" "\<exists>e. readback_runtime_apply_credit credit r = (Err e, r)"
    using assms by (auto simp: readback_begin_read_def readback_runtime_apply_credit_def Let_def)
  show "\<exists>e. readback_runtime_status sid r = (Err e, r)" "\<exists>e. readback_runtime_finish sid r = (Err e, r)"
    "\<exists>e. readback_runtime_abort sid r = (Err e, r)"
    using assms p
    by (simp_all add: readback_runtime_status_def readback_status_def readback_runtime_finish_def readback_finish_def
        readback_runtime_abort_def readback_abort_def Let_def) (simp_all add: BulkReadbackPipeline_new_def)
qed

lemma coordinator_step_unchanged:
  assumes step: "coordinator_step c d"
    and same: "\<And>q. snd (coordinator_begin_open q c) = c" "\<And>frame. snd (coordinator_admit_upload frame c) = c"
      "snd (coordinator_begin_read c) = c" "\<And>sid. snd (begin_upload_abort sid c) = c" "\<And>sid. snd (begin_upload_finish sid c) = c"
      "\<And>credit. snd (apply_readback_credit credit c) = c" "\<And>sid. snd (coordinator_status sid c) = c"
      "\<And>sid. snd (finish_readback sid c) = c" "\<And>sid. snd (abort_readback sid c) = c"
      "reap_quiescent c = c" "snd (begin_timeout_cleanup c) = c"
      "\<And>response. snd (complete_owner response c) = c" "\<And>response. snd (complete_read_owner response c) = c"
  shows "d = c"
  using step by cases (simp_all add: same)

lemma stuck_step:
  assumes stuck: "stuck c" and step: "coordinator_step c d"
  shows "d = c"
proof -
  have pending: "co_pending c = []" using stuck by (simp add: stuck_def)
  have same_state: "c\<lparr>co_runtime := Some rt\<rparr> = c" if "co_runtime c = Some rt" for rt using that by simp
  have answers: "snd (complete_owner response c) = c" "snd (complete_read_owner response c) = c" for response
    using pending by (simp_all add: complete_owner_def complete_read_owner_def)
  show ?thesis
  proof (cases "co_runtime c")
    case (Some rt)
    show ?thesis
    proof (cases rt)
      case (DrUpload r)
      then have r: "ur_pipeline r = BulkUploadPipeline_new" "ur_outstanding r = []" "ur_pending_finish r = None" "ur_pending_abort r = None"
        "ur_pending_open r \<noteq> None"
        using stuck Some by (simp_all add: stuck_def)
      have c: "co_runtime c = Some (DrUpload r)" using Some DrUpload by simp
      note s = stuck_upload[OF r(1-4)]
      have "snd (coordinator_begin_open q c) = c" "snd (coordinator_admit_upload frame c) = c" "snd (coordinator_begin_read c) = c"
        "snd (begin_upload_abort sid c) = c" "snd (begin_upload_finish sid c) = c" "snd (apply_readback_credit credit c) = c"
        "snd (coordinator_status sid c) = c" "snd (finish_readback sid c) = c" "snd (abort_readback sid c) = c"
        for q frame sid credit
        using s(1)[of frame] s(2-4)[of sid] c same_state[OF c]
        by (auto simp: coordinator_begin_open_def coordinator_admit_upload_def coordinator_begin_read_def begin_upload_abort_def
            begin_upload_finish_def apply_readback_credit_def coordinator_status_def finish_readback_def abort_readback_def)
      moreover have "reap_quiescent c = c" "snd (begin_timeout_cleanup c) = c"
        using r c pending same_state[OF c]
        by (auto simp: reap_quiescent_def release_if_quiescent_def upload_releasable_def begin_timeout_cleanup_def
            upload_stream_id_def BulkUploadPipeline_new_def)
      ultimately show ?thesis using coordinator_step_unchanged[OF step] answers by blast
    next
      case (DrReadback r)
      then have r: "rr_pipeline r = BulkReadbackPipeline_new" "rr_outstanding r = []" "rr_sent r = []" "rr_name r = None"
        "rr_pending_open r \<noteq> None"
        using stuck Some by (simp_all add: stuck_def)
      have c: "co_runtime c = Some (DrReadback r)" using Some DrReadback by simp
      note s = stuck_readback[OF r(1-4)]
      have "snd (coordinator_begin_open q c) = c" "snd (coordinator_admit_upload frame c) = c" "snd (coordinator_begin_read c) = c"
        "snd (begin_upload_abort sid c) = c" "snd (begin_upload_finish sid c) = c" "snd (apply_readback_credit credit c) = c"
        "snd (coordinator_status sid c) = c" "snd (finish_readback sid c) = c" "snd (abort_readback sid c) = c"
        for q frame sid credit
        using s(1) s(2)[of credit] s(3-5)[of sid] c same_state[OF c]
        by (auto simp: coordinator_begin_open_def coordinator_admit_upload_def coordinator_begin_read_def begin_upload_abort_def
            begin_upload_finish_def apply_readback_credit_def coordinator_status_def finish_readback_def abort_readback_def)
      moreover have "reap_quiescent c = c" "snd (begin_timeout_cleanup c) = c"
        using r c pending same_state[OF c]
        by (auto simp: reap_quiescent_def release_if_quiescent_def readback_releasable_def begin_timeout_cleanup_def
            readback_stream_id_def BulkReadbackPipeline_new_def)
      ultimately show ?thesis using coordinator_step_unchanged[OF step] answers by blast
    qed (use stuck Some in \<open>simp add: stuck_def\<close>)
  qed (use stuck in \<open>simp add: stuck_def\<close>)
qed

lemma stuck_begin_open: "stuck c \<Longrightarrow> coordinator_begin_open q c = (Err TeActive, c)"
  by (auto simp: stuck_def coordinator_begin_open_def split: option.splits DirectionRuntime.splits)

lemma failed_open_stuck:
  assumes inv: "coordinator_inv c" and idle: "coordinator_is_idle c" and opened: "coordinator_begin_open q c = (Ok req, c1)"
    and client: "rs_client (ors_envelope response) = ScDiagnostic"
    and sequence: "rs_sequence (ors_envelope response) = rq_sequence (orq_envelope req)"
    and failed: "complete_owner response c1 = (Err e, c2)"
  shows "stuck c2"
proof -
  obtain pool where pool: "co_runtime c = Some (DrIdle pool)" "lending [] pool" "co_pending c = []"
    using inv idle by (auto simp: coordinator_inv_def coordinator_is_idle_def split: option.splits DirectionRuntime.splits)
  show ?thesis
  proof (cases "obr_direction q")
    case Td_Upload
    from runtime_new[OF pool(2), of "[]"] opened show ?thesis
    proof (cases rule: upload_begin_open_cases[where q = q])
      case (started req' r')
      have c1: "c1 = c\<lparr>co_runtime := Some (DrUpload r'), co_pending := [\<lparr>pp_sequence = rq_sequence (orq_envelope req), pp_kind = OkUploadOpen\<rparr>]\<rparr>"
        and "req' = req"
        using opened started(1) pool Td_Upload by (auto simp: coordinator_begin_open_def record_owner_def)
      have r': "ur_pipeline r' = BulkUploadPipeline_new" "ur_outstanding r' = []" "ur_pending_finish r' = None" "ur_pending_abort r' = None"
        using started(1,5) upload_frames(1-3)[of q "upload_from_lease_pool pool"] by (simp_all add: upload_from_lease_pool_def)
      from started(2) failed show ?thesis
      proof (cases rule: upload_complete_open_cases[where response = response])
        case (opened q' sid x r2 s)
        then show ?thesis using failed c1 client sequence by (simp add: complete_owner_def Let_def)
      next
        case (refused e')
        then have "co_runtime c2 = Some (DrUpload r')" "co_pending c2 = []"
          using failed c1 client sequence by (auto simp: complete_owner_def Let_def remove_at_def)
        then show ?thesis using r' started(4) by (simp add: stuck_def)
      qed
    next
      case (refused e')
      then show ?thesis
        using opened pool Td_Upload by (auto simp: coordinator_begin_open_def split: on_ok_split_asm)
    qed
  next
    case Td_Readback
    from readback_new[OF pool(2), of "[]" "[]"] opened show ?thesis
    proof (cases rule: readback_begin_open_cases[where q = q])
      case (started req' r')
      have c1: "c1 = c\<lparr>co_runtime := Some (DrReadback r'), co_pending := [\<lparr>pp_sequence = rq_sequence (orq_envelope req), pp_kind = OkReadbackOpen\<rparr>]\<rparr>"
        and "req' = req"
        using opened started(1) pool Td_Readback by (auto simp: coordinator_begin_open_def record_owner_def)
      have r': "rr_pipeline r' = BulkReadbackPipeline_new" "rr_outstanding r' = []" "rr_sent r' = []" "rr_name r' = None"
          "rr_pending_open r' \<noteq> None"
        using started(1)
        by (auto simp: readback_begin_open_def read_take_sequence_def Let_def readback_from_lease_pool_def split: if_splits on_ok_split_asm)
      from started(2) failed show ?thesis
      proof (cases rule: readback_complete_open_cases[where response = response])
        case (opened q' size x r2 s)
        then show ?thesis using failed c1 client sequence by (simp add: complete_owner_def Let_def)
      next
        case (refused e')
        then have "co_runtime c2 = Some (DrReadback r')" "co_pending c2 = []"
          using failed c1 client sequence by (auto simp: complete_owner_def Let_def remove_at_def)
        then show ?thesis using r' by (simp add: stuck_def)
      qed
    next
      case (refused e')
      then show ?thesis
        using opened pool Td_Readback by (auto simp: coordinator_begin_open_def split: on_ok_split_asm)
    qed
  next
    case Td_Unspecified
    then show ?thesis using opened pool by (simp add: coordinator_begin_open_def)
  qed
qed

text \<open>C7: A transfer that the storage owner refuses to open blocks the coordinator for good: if an idle coordinator opens
  an upload or a readback and the owner's answer is an error (no such file, no space, an empty file), then whatever calls
  and responses follow, its state does not change any more and every later request to open a transfer fails with
  \<open>Active\<close>.\<close>

theorem open_failure_stuck:
  assumes "reachable coordinator_init coordinator_step c" and "coordinator_is_idle c"
    and "coordinator_begin_open q c = (Ok req, c1)" and "rs_client (ors_envelope response) = ScDiagnostic"
    and "rs_sequence (ors_envelope response) = rq_sequence (orq_envelope req)"
    and "complete_owner response c1 = (Err e, c2)" and "coordinator_step\<^sup>*\<^sup>* c2 d"
  shows "d = c2 \<and> coordinator_begin_open q' d = (Err TeActive, d)"
proof -
  have stuck: "stuck c2" by (rule failed_open_stuck[OF coordinator.reachable_inv[OF assms(1)] assms(2-6)])
  from assms(7) have "d = c2" by (induction rule: rtranclp_induct) (use stuck stuck_step in blast)+
  then show ?thesis using stuck stuck_begin_open by simp
qed

subsection \<open>A transfer that times out\<close>

definition acknowledges :: "OwnedRequest \<Rightarrow> OwnedResponse \<Rightarrow> bool" where
  "acknowledges request response \<longleftrightarrow> rs_client (ors_envelope response) = ScDiagnostic \<and>
    rs_sequence (ors_envelope response) = rq_sequence (orq_envelope request) \<and>
    rs_response (ors_envelope response) = Ok Ack \<and> ors_buffer response = None"

text \<open>A transfer is open and waits only for the host.\<close>

definition waits_for_host :: "BulkTransferCoordinator \<Rightarrow> bool" where
  "waits_for_host c \<longleftrightarrow> co_pending c = [] \<and>
    (case co_runtime c of
       Some (DrUpload r) \<Rightarrow> upload_is_active (ur_pipeline r) \<and> ur_outstanding r = [] \<and> ur_pending_finish r = None \<and>
         ur_pending_abort r = None
     | Some (DrReadback r) \<Rightarrow> readback_is_active (rr_pipeline r) \<and> rr_outstanding r = []
     | _ \<Rightarrow> False)"

lemma timeout_upload:
  assumes inv: "upload_runtime_inv ds D r" and c: "co_runtime c = Some (DrUpload r)" "co_pending c = []"
    and s: "ul_active (ur_pipeline r) = Some s" and r: "ur_outstanding r = []" "ur_pending_finish r = None" "ur_pending_abort r = None"
  obtains r' req where "begin_timeout_cleanup c = (Ok (Some req), c\<lparr>co_runtime := Some (DrUpload r'),
        co_pending := [\<lparr>pp_sequence = rq_sequence (orq_envelope req), pp_kind = OkUploadAbort\<rparr>]\<rparr>)"
      "rq_request (orq_envelope req) = UploadAbort (us_stream_id s)" "ur_pending_abort r' = Some (rq_sequence (orq_envelope req))"
      "upload_releasable (r'\<lparr>ur_pending_abort := None\<rparr>)"
      "rq_client (orq_envelope req) = ScDiagnostic"
proof -
  note i = runtime_invD[OF inv]
  have p: "ur_pending_open r = None" using i(3) s by (simp add: writes_ok_def)
  let ?y = "upload_begin_abort (us_stream_id s) r"
  obtain seq where y: "fst ?y = Ok (owned_request seq (UploadAbort (us_stream_id s)) None)" "ur_pending_abort (snd ?y) = Some seq"
      "ul_active (ur_pipeline (snd ?y)) = None" "lp_buffers (ur_leases (snd ?y)) = lp_buffers (ur_leases r)"
    using s r by (auto simp: upload_begin_abort_def upload_abort_def take_sequence_def Let_def lease_invalidate_def)
  have "unat (lease_available (ur_leases (snd ?y))) = 4"
    using lending_available[OF i(2)] r(1) y(4) by (simp add: out_slots_def lease_available_def)
  then have "upload_releasable ((snd ?y)\<lparr>ur_pending_abort := None\<rparr>)"
    using y(3) r p upload_frames(13-15)[of "us_stream_id s" r] by (simp add: upload_releasable_def upload_is_active_def)
  then show ?thesis
    using that[of "owned_request seq (UploadAbort (us_stream_id s)) None" "snd ?y"] s c y
    by (cases ?y) (simp add: begin_timeout_cleanup_def upload_stream_id_def coordinator_direction_def begin_upload_abort_def
        record_owner_def owned_request_def Let_def)
qed

text \<open>C5: A stalled transfer is cleaned up: in every reachable state in which a transfer is open and waits only for the
  host, the timeout ends it.  A readback is over at once (\<open>Ok None\<close>) and the coordinator is idle again.  For an upload the
  owner is asked to abort it, the request naming the stream that is open, and exactly this request is open then; any
  acknowledgement of it completes the abort and leaves the coordinator idle.\<close>

theorem timeout_cleanup_idles:
  assumes "reachable coordinator_init coordinator_step c" and "waits_for_host c"
  shows "case co_runtime c of
      Some (DrUpload r) \<Rightarrow>
        (\<exists>sid req c'. upload_stream_id (ur_pipeline r) = Some sid \<and> begin_timeout_cleanup c = (Ok (Some req), c') \<and>
          rq_client (orq_envelope req) = ScDiagnostic \<and> rq_request (orq_envelope req) = UploadAbort sid \<and>
          co_pending c' = [\<lparr>pp_sequence = rq_sequence (orq_envelope req), pp_kind = OkUploadAbort\<rparr>] \<and>
          (\<forall>response. acknowledges req response \<longrightarrow>
            fst (complete_owner response c') = Ok EvUploadAborted \<and> coordinator_is_idle (snd (complete_owner response c'))))
    | Some (DrReadback r) \<Rightarrow> \<exists>c'. begin_timeout_cleanup c = (Ok None, c') \<and> coordinator_is_idle c'
    | _ \<Rightarrow> False"
  using coordinator.reachable_inv[OF assms(1)]
proof (cases rule: coordinator_runtime)
  case (idle pool)
  then show ?thesis using assms(2) by (simp add: waits_for_host_def)
next
  case (uploading r ds D)
  then obtain s where s: "ul_active (ur_pipeline r) = Some s" "ur_outstanding r = []" "ur_pending_finish r = None"
      "ur_pending_abort r = None" "co_pending c = []"
    using assms(2) by (auto simp: waits_for_host_def upload_is_active_def)
  obtain r' req where t: "begin_timeout_cleanup c = (Ok (Some req), c\<lparr>co_runtime := Some (DrUpload r'),
        co_pending := [\<lparr>pp_sequence = rq_sequence (orq_envelope req), pp_kind = OkUploadAbort\<rparr>]\<rparr>)"
      "rq_request (orq_envelope req) = UploadAbort (us_stream_id s)" "ur_pending_abort r' = Some (rq_sequence (orq_envelope req))"
      "upload_releasable (r'\<lparr>ur_pending_abort := None\<rparr>)"
    "rq_client (orq_envelope req) = ScDiagnostic"
    using timeout_upload[OF uploading(2,1) s(5,1-4)] by blast
  then show ?thesis
    using uploading(1) s(1)
    by (auto simp: upload_stream_id_def acknowledges_def complete_owner_def upload_complete_abort_def validate_response_def require_ack_def
        release_if_quiescent_def coordinator_is_idle_def remove_at_def Let_def)
next
  case (reading r D S)
  then obtain s where s: "rp_active (rr_pipeline r) = Some s" "rr_outstanding r = []" "co_pending c = []"
    using assms(2) by (auto simp: waits_for_host_def readback_is_active_def)
  let ?y = "readback_runtime_abort (rb_stream_id s) r"
  have y: "fst ?y = Ok ()" "rp_active (rr_pipeline (snd ?y)) = None" "lp_buffers (rr_leases (snd ?y)) = lp_buffers (rr_leases r)"
      "rr_name (snd ?y) = None" "rr_sent (snd ?y) = []"
    using s by (simp_all add: readback_runtime_abort_def readback_abort_def lease_invalidate_def)
  have "unat (lease_available (rr_leases (snd ?y))) = 4"
    using lending_available[OF readback_invD(2)[OF reading(2)]] s(2) y(3) by (simp add: read_slots_def lease_available_def)
  moreover have "rr_pending_open r = None" using readback_invD(4)[OF reading(2)] s(1) by (cases "rr_pending_open r") auto
  ultimately have "readback_releasable (snd ?y)"
    using y s(2) readback_frames(11,12)[of "rb_stream_id s" r] by (simp add: readback_releasable_def readback_is_active_def)
  then show ?thesis
    using s reading(1) y(1)
    by (cases ?y) (simp add: begin_timeout_cleanup_def readback_stream_id_def coordinator_direction_def abort_readback_def
        release_if_quiescent_def coordinator_is_idle_def)
qed

subsection \<open>Concrete runs\<close>

definition sample_coordinator :: BulkTransferCoordinator where
  "sample_coordinator = coordinator_new [sample_block, sample_block, sample_block, sample_block]"

definition sample_owner :: OwnedRequest where
  "sample_owner = owned_request 500000 (UploadBegin [97] 1 0 False) None"

definition sample_opening :: BulkTransferCoordinator where
  "sample_opening = snd (coordinator_begin_open sample_open_request sample_coordinator)"

definition sample_refusal :: OwnedResponse where
  "sample_refusal = \<lparr>ors_envelope = \<lparr>rs_client = ScDiagnostic, rs_sequence = 500000, rs_response = Err CeBackend\<rparr>, ors_buffer = None\<rparr>"

definition sample_transfer :: BulkTransferCoordinator where
  "sample_transfer = snd (complete_owner (sample_response 500000 (UploadStarted 7) None) sample_opening)"

lemma sample_coordinator_reachable: "reachable coordinator_init coordinator_step sample_coordinator"
  by (intro reachable.initial) (auto simp: coordinator_init_def sample_coordinator_def intro!: exI[of _ "[sample_block, sample_block, sample_block, sample_block]"])

lemma sample_opening_eq:
  "coordinator_begin_open sample_open_request sample_coordinator = (Ok sample_owner, sample_opening)"
  "sample_opening = \<lparr>co_runtime = Some (DrUpload (snd (upload_begin_open sample_open_request (upload_from_lease_pool sample_leases)))),
     co_pending = [\<lparr>pp_sequence = 500000, pp_kind = OkUploadOpen\<rparr>]\<rparr>"
proof -
  have "fst (upload_begin_open sample_open_request (upload_from_lease_pool sample_leases)) = Ok sample_owner"
    by (simp add: upload_begin_open_def upload_from_lease_pool_def sample_open_request_def sample_leases_def upload_is_active_def
        BulkUploadPipeline_new_def BulkLeasePool_new_def lease_available_def select_chunk_def StorageName_new_def take_sequence_def
        FIRST_SEQUENCE_def sample_owner_def Let_def)
  then have "coordinator_begin_open sample_open_request sample_coordinator = (Ok sample_owner,
      \<lparr>co_runtime = Some (DrUpload (snd (upload_begin_open sample_open_request (upload_from_lease_pool sample_leases)))),
       co_pending = [\<lparr>pp_sequence = 500000, pp_kind = OkUploadOpen\<rparr>]\<rparr>)"
    by (cases "upload_begin_open sample_open_request (upload_from_lease_pool sample_leases)")
      (simp add: coordinator_begin_open_def sample_coordinator_def coordinator_new_def sample_leases_def record_owner_def
        sample_owner_def owned_request_def sample_open_request_def Let_def)
  then show "coordinator_begin_open sample_open_request sample_coordinator = (Ok sample_owner, sample_opening)"
    "sample_opening = \<lparr>co_runtime = Some (DrUpload (snd (upload_begin_open sample_open_request (upload_from_lease_pool sample_leases)))),
     co_pending = [\<lparr>pp_sequence = 500000, pp_kind = OkUploadOpen\<rparr>]\<rparr>"
    by (simp_all add: sample_opening_def)
qed

lemma sample_transfer_eq: "sample_transfer = \<lparr>co_runtime = Some (DrUpload sample_opened), co_pending = []\<rparr>"
proof -
  let ?y = "upload_complete_open (sample_response 500000 (UploadStarted 7) None)
    (snd (upload_begin_open sample_open_request (upload_from_lease_pool sample_leases)))"
  have "is_ok (fst ?y)"
    by (simp add: sample_open_request_def sample_response_def upload_begin_open_def upload_complete_open_def
      upload_from_lease_pool_def sample_leases_def upload_is_active_def BulkUploadPipeline_new_def
      select_chunk_def select_window_def StorageName_new_def take_sequence_def FIRST_SEQUENCE_def validate_response_def
      upload_open_def upload_generation_def Let_def next_id_def begin_session_def pool_invalidate_def BulkSlotPool_new_def
      lease_begin_session_def BulkLeasePool_new_def lease_available_def)
  moreover have "snd ?y = sample_opened" by (simp add: sample_opened_def)
  moreover have "\<not> upload_releasable sample_opened"
    by (simp add: sample_opened_eq upload_releasable_def upload_is_active_def)
  ultimately show ?thesis
    by (cases ?y; cases "fst ?y")
      (auto simp: sample_transfer_def sample_opening_eq(2) complete_owner_def sample_response_def remove_at_def
        release_if_quiescent_def Let_def)
qed

theorem coordinator_never_wedged_witness:
  "fst (coordinator_begin_open sample_open_request sample_coordinator) \<notin> {Panic, Err TeQueueFull} \<and> pending_owner sample_coordinator \<le> 7"
  using coordinator_never_wedged[OF sample_coordinator_reachable, where q = sample_open_request] by blast

definition sample_header :: FrameHeader where
  "sample_header = \<lparr>fh_kind = Fk_Event, fh_opcode = Op_StoreBulkOpen, fh_status = St_Ok, fh_sequence = 0, fh_payload_len = 0\<rparr>"

theorem dispatch_bad_request_harmless_witness:
  "dispatch_bulk_protocol sample_header [] sample_coordinator = (Ok bad_request, sample_coordinator)"
proof -
  have "no_wrap sample_coordinator" by (simp add: no_wrap_def sample_coordinator_def coordinator_new_def)
  from dispatch_bad_request_harmless[OF sample_coordinator_reachable this, of sample_header "[]"]
  show ?thesis by (simp add: dispatch_bulk_protocol_def sample_header_def is_request_def)
qed

theorem open_failure_stuck_witness:
  "coordinator_begin_open sample_open_request (snd (complete_owner sample_refusal sample_opening)) =
    (Err TeActive, snd (complete_owner sample_refusal sample_opening))"
proof -
  have "\<exists>e. fst (complete_owner sample_refusal sample_opening) = Err e"
    by (simp add: complete_owner_def sample_refusal_def sample_opening_eq(2) upload_complete_open_def
        upload_begin_open_def upload_from_lease_pool_def sample_open_request_def sample_leases_def upload_is_active_def
        BulkUploadPipeline_new_def BulkLeasePool_new_def lease_available_def select_chunk_def StorageName_new_def take_sequence_def
        FIRST_SEQUENCE_def validate_response_def Let_def)
  then obtain e where e: "complete_owner sample_refusal sample_opening = (Err e, snd (complete_owner sample_refusal sample_opening))"
    by (metis prod.collapse)
  have "coordinator_is_idle sample_coordinator"
    by (simp add: coordinator_is_idle_def sample_coordinator_def coordinator_new_def)
  from open_failure_stuck[OF sample_coordinator_reachable this sample_opening_eq(1) _ _ e rtranclp.rtrancl_refl]
  show ?thesis by (simp add: sample_refusal_def sample_owner_def owned_request_def)
qed

theorem timeout_cleanup_idles_witness:
  "\<exists>req. fst (begin_timeout_cleanup sample_transfer) = Ok (Some req) \<and> rq_request (orq_envelope req) = UploadAbort 7"
proof -
  have "reachable coordinator_init coordinator_step sample_opening"
    unfolding sample_opening_def by (rule reachable.followed[OF sample_coordinator_reachable coordinator_step.begin_open])
  then have "reachable coordinator_init coordinator_step sample_transfer"
    unfolding sample_transfer_def by (rule reachable.followed) (rule coordinator_step.complete)
  moreover have "waits_for_host sample_transfer"
    by (simp add: waits_for_host_def sample_transfer_eq sample_opened_eq upload_is_active_def)
  ultimately show ?thesis
    using timeout_cleanup_idles[of sample_transfer] by (auto simp: sample_transfer_eq sample_opened_eq upload_stream_id_def)
qed

end
