(* ===== verification/Orders.thy ===== *)
theory Orders
  imports Prelude "HOL-Library.Multiset"
begin

text \<open>
  Comparison functions and what the code builds from them: \<open>core::cmp::Ordering\<close> with \<open>then_with\<close>, the lexicographic
  \<open>cmp\<close> of two byte sequences, \<open>sort_unstable_by\<close> and \<open>min_by\<close>.  The locale \<open>comparison\<close> is the contract of a total
  order given by such a function; everything a client needs of sorting and of minima is proved in it once.
\<close>

datatype Ordering = Less | Equal | Greater

definition compare_words :: "'a::len word \<Rightarrow> 'a word \<Rightarrow> Ordering" where
  "compare_words a b = (if a < b then Less else if a = b then Equal else Greater)"

fun then_with :: "Ordering \<Rightarrow> Ordering \<Rightarrow> Ordering" where
  "then_with Equal other = other"
| "then_with decided other = decided"

fun compare_bytes :: "bytes \<Rightarrow> bytes \<Rightarrow> Ordering" where
  "compare_bytes [] [] = Equal"
| "compare_bytes [] (b # bs) = Less"
| "compare_bytes (a # as) [] = Greater"
| "compare_bytes (a # as) (b # bs) = then_with (compare_words a b) (compare_bytes as bs)"

fun opposite :: "Ordering \<Rightarrow> Ordering" where
  "opposite Less = Greater"
| "opposite Equal = Equal"
| "opposite Greater = Less"

lemma opposite_eq [simp]: "opposite r = Less \<longleftrightarrow> r = Greater" "opposite r = Equal \<longleftrightarrow> r = Equal" "opposite r = Greater \<longleftrightarrow> r = Less"
  by (cases r; simp)+

lemma then_with_eq:
  "then_with r s = Less \<longleftrightarrow> r = Less \<or> r = Equal \<and> s = Less"
  "then_with r s = Equal \<longleftrightarrow> r = Equal \<and> s = Equal"
  "then_with r s = Greater \<longleftrightarrow> r = Greater \<or> r = Equal \<and> s = Greater"
  by (cases r; simp)+

lemma opposite_then_with: "opposite (then_with r s) = then_with (opposite r) (opposite s)"
  by (cases r) simp_all

text \<open>
  \<open>sort_unstable_by\<close> promises a sorted permutation.  The model inserts the elements one after the other, which gives one
  of the results that the promise allows, and the only one if no two elements compare equal (\<open>sort_by_unique\<close>).
\<close>

fun insert_by :: "('a \<Rightarrow> 'a \<Rightarrow> Ordering) \<Rightarrow> 'a \<Rightarrow> 'a list \<Rightarrow> 'a list" where
  "insert_by compare x [] = [x]"
| "insert_by compare x (y # ys) = (if compare x y = Greater then y # insert_by compare x ys else x # y # ys)"

definition sort_by :: "('a \<Rightarrow> 'a \<Rightarrow> Ordering) \<Rightarrow> 'a list \<Rightarrow> 'a list" where
  "sort_by compare xs = foldr (insert_by compare) xs []"

text \<open>\<open>Iterator::min_by\<close> over the indices: the first of the least elements.\<close>

fun min_index_from :: "('a \<Rightarrow> 'a \<Rightarrow> Ordering) \<Rightarrow> 'a list \<Rightarrow> nat \<Rightarrow> nat \<Rightarrow> 'a \<Rightarrow> nat" where
  "min_index_from compare [] i k m = k"
| "min_index_from compare (x # xs) i k m =
    (if compare m x = Greater then min_index_from compare xs (Suc i) i x else min_index_from compare xs (Suc i) k m)"

fun min_index_by :: "('a \<Rightarrow> 'a \<Rightarrow> Ordering) \<Rightarrow> 'a list \<Rightarrow> nat option" where
  "min_index_by compare [] = None"
| "min_index_by compare (x # xs) = Some (min_index_from compare xs 1 0 x)"

lemma mset_insert_by [simp]: "mset (insert_by compare x xs) = add_mset x (mset xs)"
  by (induction xs) auto

lemma mset_sort_by [simp]: "mset (sort_by compare xs) = mset xs"
  unfolding sort_by_def by (induction xs) simp_all

lemma set_sort_by [simp]: "set (sort_by compare xs) = set xs"
  by (rule mset_eq_setD) simp

lemma length_sort_by [simp]: "length (sort_by compare xs) = length xs"
  by (rule mset_eq_length) simp

subsection \<open>The contract of a comparison\<close>

locale comparison =
  fixes compare :: "'a \<Rightarrow> 'a \<Rightarrow> Ordering"
  assumes compare_refl: "compare x x = Equal"
    and compare_flip: "compare y x = opposite (compare x y)"
    and compare_trans: "compare x y \<noteq> Greater \<Longrightarrow> compare y z \<noteq> Greater \<Longrightarrow> compare x z \<noteq> Greater"
begin

definition ascending :: "'a list \<Rightarrow> bool" where
  "ascending = sorted_wrt (\<lambda>x y. compare x y \<noteq> Greater)"

definition strictly_ascending :: "'a list \<Rightarrow> bool" where
  "strictly_ascending = sorted_wrt (\<lambda>x y. compare x y = Less)"

lemma compare_Equal_sym: "compare x y = Equal \<longleftrightarrow> compare y x = Equal"
  by (metis compare_flip opposite_eq(2))

lemma compare_Greater: "compare x y = Greater \<longleftrightarrow> compare y x = Less"
  by (metis compare_flip opposite_eq(1))

lemma compare_Equal_trans: "compare x y = Equal \<Longrightarrow> compare y z = Equal \<Longrightarrow> compare x z = Equal"
  by (metis Ordering.distinct(5) Ordering.exhaust compare_Equal_sym compare_Greater compare_trans Ordering.distinct(3))

lemma Less_trans: "compare x y \<noteq> Greater \<Longrightarrow> compare y z = Less \<Longrightarrow> compare x z = Less"
  by (metis Ordering.distinct(3) compare_Greater compare_trans)

lemma Less_trans2: "compare x y = Less \<Longrightarrow> compare y z \<noteq> Greater \<Longrightarrow> compare x z = Less"
  by (metis Ordering.distinct(3) compare_Greater compare_trans)

lemma ascending_insert: "ascending xs \<Longrightarrow> ascending (insert_by compare x xs)"
proof (induction xs)
  case (Cons y ys)
  have set: "set (insert_by compare x ys) = insert x (set ys)"
    by (metis mset_insert_by set_mset_add_mset_insert set_mset_mset)
  show ?case
  proof (cases "compare x y = Greater")
    case True
    then have "compare y x \<noteq> Greater" by (simp add: compare_Greater)
    then show ?thesis using Cons True by (auto simp: ascending_def set)
  next
    case False
    then show ?thesis using Cons.prems compare_trans by (auto simp: ascending_def)
  qed
qed (simp add: ascending_def)

lemma ascending_sort_by: "ascending (sort_by compare xs)"
  unfolding sort_by_def by (induction xs) (simp_all add: ascending_insert, simp add: ascending_def)

lemma strictly_ascendingI: "ascending xs \<Longrightarrow> sorted_wrt (\<lambda>x y. compare x y \<noteq> Equal) xs \<Longrightarrow> strictly_ascending xs"
  unfolding ascending_def strictly_ascending_def
  by (induction xs) (auto, metis Ordering.exhaust)

lemma strictly_ascending_ascending: "strictly_ascending xs \<Longrightarrow> ascending xs"
  unfolding ascending_def strictly_ascending_def by (erule sorted_wrt_mono_rel[rotated]) auto

lemma strictly_ascending_Cons2: "strictly_ascending (x # y # ys) \<longleftrightarrow> compare x y = Less \<and> strictly_ascending (y # ys)"
  using Less_trans[of x y] by (auto simp: strictly_ascending_def)

lemma strictly_ascending_short [simp]: "strictly_ascending []" "strictly_ascending [x]"
  by (simp_all add: strictly_ascending_def)

lemma sorted_wrt_unequal: "sorted_wrt (\<lambda>x y. compare x y \<noteq> Equal) xs \<longleftrightarrow>
    (\<forall>i j. i < j \<longrightarrow> j < length xs \<longrightarrow> compare (xs ! i) (xs ! j) \<noteq> Equal)"
  by (simp add: sorted_wrt_iff_nth_less)

text \<open>No two elements of a list compare equal.\<close>

definition unequal :: "'a list \<Rightarrow> bool" where
  "unequal xs \<longleftrightarrow> sorted_wrt (\<lambda>x y. compare x y \<noteq> Equal) xs"

lemma unequal_iff: "unequal xs \<longleftrightarrow> distinct xs \<and> (\<forall>x\<in>set xs. \<forall>y\<in>set xs. compare x y = Equal \<longrightarrow> x = y)"
proof (induction xs)
  case (Cons x xs)
  have "(\<forall>y\<in>set xs. compare x y \<noteq> Equal) \<Longrightarrow> x \<notin> set xs" using compare_refl by blast
  then show ?case using Cons compare_Equal_sym by (auto simp: unequal_def)
qed (simp add: unequal_def)

lemma unequal_mset: "mset xs = mset ys \<Longrightarrow> unequal xs \<longleftrightarrow> unequal ys"
  unfolding unequal_iff by (metis mset_eq_imp_distinct_iff mset_eq_setD)

lemma strictly_ascending_sort_by: "unequal xs \<Longrightarrow> strictly_ascending (sort_by compare xs)"
  by (rule strictly_ascendingI[OF ascending_sort_by]) (metis mset_sort_by unequal_def unequal_mset)

lemma strictly_ascending_unequal: "strictly_ascending xs \<Longrightarrow> unequal xs"
  unfolding strictly_ascending_def unequal_def by (erule sorted_wrt_mono_rel[rotated]) auto

lemma strictly_ascending_unique:
  "strictly_ascending xs \<Longrightarrow> ascending ys \<Longrightarrow> mset xs = mset ys \<Longrightarrow> xs = ys"
proof (induction xs arbitrary: ys)
  case (Cons x xs)
  obtain y ys' where ys: "ys = y # ys'" using Cons.prems(3) by (cases ys) auto
  have "x = y"
  proof (rule ccontr)
    assume ne: "x \<noteq> y"
    have "x \<in> set ys'" "y \<in> set xs" using Cons.prems(3) ne unfolding ys
      by (metis list.set_intros(1) mset_eq_setD set_ConsD)+
    then have "compare x y = Less" "compare y x \<noteq> Greater"
      using Cons.prems by (auto simp: strictly_ascending_def ascending_def ys)
    then show False by (simp add: compare_Greater)
  qed
  moreover have "xs = ys'" using Cons \<open>x = y\<close> by (intro Cons.IH) (auto simp: ys strictly_ascending_def ascending_def)
  ultimately show ?case by (simp add: ys)
qed simp

lemma sort_by_unique: "unequal xs \<Longrightarrow> ascending ys \<Longrightarrow> mset ys = mset xs \<Longrightarrow> ys = sort_by compare xs"
  using strictly_ascending_unique[OF strictly_ascending_sort_by, of xs ys] by simp

lemma sort_by_ascending: "strictly_ascending xs \<Longrightarrow> sort_by compare xs = xs"
  by (rule sort_by_unique[symmetric]) (simp_all add: strictly_ascending_unequal strictly_ascending_ascending)

lemma min_index_from_least:
  assumes "xs = ys @ zs" and "k < length ys" and "m = xs ! k" and "\<forall>y\<in>set ys. compare m y \<noteq> Greater"
  shows "min_index_from compare zs (length ys) k m < length xs \<and>
    (\<forall>x\<in>set xs. compare (xs ! min_index_from compare zs (length ys) k m) x \<noteq> Greater)"
  using assms
proof (induction zs arbitrary: ys k m)
  case (Cons z zs)
  have split: "xs = (ys @ [z]) @ zs" and len: "length (ys @ [z]) = Suc (length ys)" using Cons.prems(1) by simp_all
  have z: "z = xs ! length ys" using Cons.prems(1) by simp
  show ?case
  proof (cases "compare m z = Greater")
    case True
    then have less: "compare z m = Less" by (simp add: compare_Greater)
    have least: "\<forall>y\<in>set (ys @ [z]). compare z y \<noteq> Greater"
    proof
      fix y assume "y \<in> set (ys @ [z])"
      then consider "y = z" | "compare m y \<noteq> Greater" using Cons.prems(4) by auto
      then show "compare z y \<noteq> Greater" using Less_trans2[OF less, of y] by cases (simp_all add: compare_refl)
    qed
    show ?thesis using Cons.IH[OF split _ _ least, of "length ys"] True z len by simp
  next
    case False
    then show ?thesis using Cons.IH[OF split, of k m] Cons.prems len by simp
  qed
qed simp

lemma min_index_by_least:
  assumes "min_index_by compare xs = Some i"
  shows "i < length xs \<and> (\<forall>x\<in>set xs. compare (xs ! i) x \<noteq> Greater)"
proof -
  obtain x ys where xs: "xs = x # ys" using assms by (cases xs) auto
  then have "i = min_index_from compare ys 1 0 x" using assms by simp
  moreover have "min_index_from compare ys (length [x]) 0 x < length xs \<and>
      (\<forall>y\<in>set xs. compare (xs ! min_index_from compare ys (length [x]) 0 x) y \<noteq> Greater)"
    by (rule min_index_from_least) (simp_all add: xs compare_refl)
  ultimately show ?thesis by simp
qed

lemma min_index_by_None [simp]: "min_index_by compare xs = None \<longleftrightarrow> xs = []"
  by (cases xs) simp_all

end

subsection \<open>Comparisons\<close>

lemma comparison_on:
  assumes "comparison f"
  shows "comparison (\<lambda>x y. f (g x) (g y))"
proof
  fix x y z
  show "f (g y) (g x) = opposite (f (g x) (g y))" by (rule comparison.compare_flip[OF assms])
  show "f (g x) (g y) \<noteq> Greater \<Longrightarrow> f (g y) (g z) \<noteq> Greater \<Longrightarrow> f (g x) (g z) \<noteq> Greater"
    by (rule comparison.compare_trans[OF assms])
qed (rule comparison.compare_refl[OF assms])

lemma comparison_then_with:
  assumes f: "comparison f" and g: "comparison g"
  shows "comparison (\<lambda>x y. then_with (f x y) (g x y))"
proof
  fix x y z
  show "then_with (f y x) (g y x) = opposite (then_with (f x y) (g x y))"
    by (simp only: opposite_then_with comparison.compare_flip[OF f, symmetric] comparison.compare_flip[OF g, symmetric])
  note le = comparison.compare_trans[OF f, of x y z] comparison.Less_trans[OF f, of x y z]
    comparison.Less_trans2[OF f, of x y z] comparison.compare_Equal_trans[OF f, of x y z]
    comparison.compare_trans[OF g, of x y z]
  assume "then_with (f x y) (g x y) \<noteq> Greater" "then_with (f y z) (g y z) \<noteq> Greater"
  then show "then_with (f x z) (g x z) \<noteq> Greater"
    using le by (cases "f x y"; cases "f y z") (auto simp: then_with_eq)
qed (simp add: comparison.compare_refl[OF f] comparison.compare_refl[OF g])

interpretation words: comparison "compare_words :: 'a::len word \<Rightarrow> 'a word \<Rightarrow> Ordering"
  by unfold_locales (auto simp: compare_words_def split: if_splits)

lemma compare_words_Equal [simp]: "compare_words a b = Equal \<longleftrightarrow> a = b"
  by (auto simp: compare_words_def)

lemma compare_bytes_Equal [simp]: "compare_bytes a b = Equal \<longleftrightarrow> a = b"
  by (induction a b rule: compare_bytes.induct) (auto simp: then_with_eq)

interpretation bytes: comparison compare_bytes
proof
  fix x y z
  show "compare_bytes y x = opposite (compare_bytes x y)"
    by (induction x y rule: compare_bytes.induct) (simp_all add: opposite_then_with words.compare_flip[symmetric])
  show "compare_bytes x y \<noteq> Greater \<Longrightarrow> compare_bytes y z \<noteq> Greater \<Longrightarrow> compare_bytes x z \<noteq> Greater"
  proof (induction x y arbitrary: z rule: compare_bytes.induct)
    case (4 a as b bs)
    then obtain c cs where z: "z = c # cs" by (cases z) auto
    consider "compare_words a b = Less" | "a = b" using 4(2) by (auto simp: then_with_eq compare_words_def split: if_splits)
    then show ?case
    proof cases
      case 1
      then have "compare_words a c = Less" using 4(3) words.Less_trans2[OF 1, of c] by (auto simp: z then_with_eq)
      then show ?thesis by (simp add: z)
    next
      case 2
      then show ?thesis using 4 by (auto simp: z then_with_eq words.compare_refl)
    qed
  next
    case (2 b bs)
    then show ?case by (cases z) auto
  qed (auto split: list.splits)
qed simp

end
