(* ===== verification/Stores.thy ===== *)
theory Stores
  imports Prelude
begin

text \<open>
  Records that are filled by one \<open>copy_from_slice\<close> after the other.  If the stores go upwards into a zeroed buffer,
  the result is the concatenation of the stored bytes with zeros in the gaps (\<open>layout\<close>).
\<close>

type_synonym stores = "(nat \<times> bytes) list"

fun store_seq :: "stores \<Rightarrow> bytes \<Rightarrow> (bytes, 'e) res" where
  "store_seq [] out = Ok out"
| "store_seq ((i, bs) # rest) out = and_then (put out i bs) (store_seq rest)"

fun layout :: "nat \<Rightarrow> stores \<Rightarrow> bytes" where
  "layout at [] = []"
| "layout at ((i, bs) # rest) = replicate (i - at) 0 @ bs @ layout (i + length bs) rest"

fun upwards :: "nat \<Rightarrow> stores \<Rightarrow> bool" where
  "upwards at [] = True"
| "upwards at ((i, bs) # rest) = (at \<le> i \<and> upwards (i + length bs) rest)"

lemma put_zeros_in:
  assumes "length xs \<le> i" "i + length bs \<le> length xs + m"
  shows "put (xs @ replicate m 0 @ rest) i bs =
    Ok (xs @ replicate (i - length xs) 0 @ bs @ replicate (length xs + m - (i + length bs)) 0 @ rest)"
proof -
  have "replicate m 0 = replicate (i - length xs) (0::u8) @ replicate (length bs) 0 @ replicate (length xs + m - (i + length bs)) 0"
    using assms by (simp flip: replicate_add)
  then show ?thesis using assms by (simp add: put_def overwrite_def)
qed

lemma store_seq_layout:
  "upwards (length xs) ss \<Longrightarrow> length (layout (length xs) ss) \<le> m \<Longrightarrow>
    store_seq ss (xs @ replicate m 0 @ rest) =
      Ok (xs @ layout (length xs) ss @ replicate (m - length (layout (length xs) ss)) 0 @ rest)"
proof (induction ss arbitrary: xs m)
  case (Cons s ss)
  obtain i bs where s: "s = (i, bs)" by (cases s)
  let ?xs = "xs @ replicate (i - length xs) 0 @ bs"
  have up: "length xs \<le> i" "length ?xs = i + length bs" using Cons.prems(1) by (auto simp: s)
  have fits: "i + length bs \<le> length xs + m" "length (layout (length ?xs) ss) \<le> length xs + m - (i + length bs)"
    using Cons.prems up by (auto simp: s)
  show ?case using Cons.IH[of ?xs "length xs + m - (i + length bs)"] Cons.prems fits up
    by (simp add: s put_zeros_in[OF up(1) fits(1)] ac_simps)
qed simp

lemma store_seq_zeros:
  "upwards 0 ss \<Longrightarrow> length (layout 0 ss) \<le> m \<Longrightarrow>
    store_seq ss (replicate m 0 @ rest) = Ok (layout 0 ss @ replicate (m - length (layout 0 ss)) 0 @ rest)"
  using store_seq_layout[of "[]"] by simp

lemma store_seq_append: "store_seq (xs @ ys) out = and_then (store_seq xs out) (store_seq ys)"
  by (induction xs out rule: store_seq.induct) (auto simp: and_then_assoc intro: and_then_cong)


lemma subslice_join: "subslice p i m @ subslice p (i + m) n = subslice p i (m + n)"
  by (simp add: subslice_def take_add add.commute)

lemma subslice_join3: "subslice p i a @ subslice p (i + a) b @ subslice p (i + a + b) c = subslice p i (a + b + c)"
  using subslice_join[of p "i + a" b c] subslice_join[of p i a "b + c"] by (simp add: add.assoc)

text \<open>The checksum of a record is computed with its own four bytes taken as zero.\<close>

definition blank :: "nat \<Rightarrow> nat \<Rightarrow> bytes \<Rightarrow> bytes" where
  "blank start n bs = map (\<lambda>(index, byte). if start \<le> index \<and> index < start + n then 0 else byte) (enumerate 0 bs)"

lemma blank_append: "length xs = start \<Longrightarrow> length ys = n \<Longrightarrow> blank start n (xs @ ys @ zs) = xs @ replicate n 0 @ zs"
  by (rule nth_equalityI) (auto simp: blank_def nth_enumerate_eq nth_append)

lemma length_blank [simp]: "length (blank start n bs) = length bs"
  by (simp add: blank_def)

end
