(* ===== verification/Book_Format.thy ===== *)
theory Book_Format
  imports Prelude
begin

text \<open>
  The BinBook file format (\<^verbatim>\<open>crates/binbook-core/src\<close>): its identifiers and enumerations (\<^verbatim>\<open>types.rs\<close>,
  \<^verbatim>\<open>error.rs\<close>), the file header (\<^verbatim>\<open>header.rs\<close>), the section directory (\<^verbatim>\<open>section.rs\<close>), string references
  (\<^verbatim>\<open>strings.rs\<close>) and the decoders of the index records (\<^verbatim>\<open>page.rs\<close>, \<^verbatim>\<open>chunk.rs\<close>, \<^verbatim>\<open>navigation.rs\<close>,
  \<^verbatim>\<open>transition.rs\<close>, \<^verbatim>\<open>profile.rs\<close>, \<^verbatim>\<open>rendition_identity.rs\<close>).  Offsets in a slice are naturals: the sizes
  involved are far below the size of an address.
\<close>

named_theorems format_defs "definitions of the decoders of the file format"

subsection \<open>Types\<close>

datatype FormatError =
    InvalidMagic | UnsupportedVersion | InvalidHeader | FileOutOfBounds | MissingSection u16 | DuplicateSection u16
  | InvalidSection | InvalidPage | InvalidNavigation | InvalidChapter | InvalidChunk | InvalidTransition | InvalidFontResource
  | InvalidDisplayProfile | InvalidBookMetadata | InvalidStringRef | PageOutOfRange | NavOutOfRange | ChapterOutOfRange
  | ChunkOutOfRange | TransitionOutOfRange | PlaneSlotOutOfRange | UnsupportedPixelFormat u16 | UnsupportedCompression u16
  | UnsupportedWaveformHint u16

type_synonym 'a format_res = "('a, FormatError) res"

text \<open>The number types (\<open>PageNumber\<close>, \<open>FileOffset\<close> and so on) are their only field; \<open>new\<close> checks the range.\<close>

definition PageNumber_new :: "u32 \<Rightarrow> u32 \<Rightarrow> u32 format_res" where
  "PageNumber_new value page_count = (if value < page_count then Ok value else Err PageOutOfRange)"

definition ChunkIndex_new :: "u8 \<Rightarrow> u8 \<Rightarrow> u8 format_res" where
  "ChunkIndex_new value count = (if value < count then Ok value else Err ChunkOutOfRange)"

datatype PlaneSlot = OverlayMsb | OverlayLsb | FastBase | Reserved

primrec PlaneSlot_index :: "PlaneSlot \<Rightarrow> nat" where
  "PlaneSlot_index OverlayMsb = 0"
| "PlaneSlot_index OverlayLsb = 1"
| "PlaneSlot_index FastBase = 2"
| "PlaneSlot_index Reserved = 3"

definition PlaneSlot_try_from :: "u8 \<Rightarrow> PlaneSlot format_res" where
  "PlaneSlot_try_from value =
    (if value = 0 then Ok OverlayMsb else if value = 1 then Ok OverlayLsb else if value = 2 then Ok FastBase
     else if value = 3 then Ok Reserved else Err PlaneSlotOutOfRange)"

datatype CompressionMethod = CmNone | RlePackBits | Lz4

definition CompressionMethod_try_from :: "u16 \<Rightarrow> CompressionMethod format_res" where
  "CompressionMethod_try_from value =
    (if value = 0 then Ok CmNone else if value = 1 then Ok RlePackBits else if value = 2 then Ok Lz4
     else Err (UnsupportedCompression value))"

definition CompressionMethod_try_from_u8 :: "u8 \<Rightarrow> CompressionMethod format_res" where
  "CompressionMethod_try_from_u8 value = CompressionMethod_try_from (ucast value)"

datatype PixelFormat = Gray1Packed | Gray2Packed | Gray4Packed | Rgb565 | Rgb888 | Rgba8888

definition PixelFormat_try_from :: "u16 \<Rightarrow> PixelFormat format_res" where
  "PixelFormat_try_from value =
    (if value = 1 then Ok Gray1Packed else if value = 2 then Ok Gray2Packed else if value = 4 then Ok Gray4Packed
     else if value = 8 then Ok Rgb565 else if value = 16 then Ok Rgb888 else if value = 32 then Ok Rgba8888
     else Err (UnsupportedPixelFormat value))"

subsection \<open>The file header\<close>

definition HEADER_SIZE :: nat where [simp]: "HEADER_SIZE = 256"

text \<open>\<open>b"BINBOOK\0"\<close>\<close>

definition BOOK_MAGIC :: bytes where "BOOK_MAGIC = [0x42, 0x49, 0x4e, 0x42, 0x4f, 0x4f, 0x4b, 0]"

record Header =
  bh_file_length :: u64
  bh_section_table_offset :: u64
  bh_section_table_length :: u32
  bh_section_count :: u16
  bh_page_data_offset :: u64
  bh_page_data_length :: u64

definition read_u16 :: "bytes \<Rightarrow> nat \<Rightarrow> u16 format_res" where
  "read_u16 bytes offset = (if offset + 2 \<le> length bytes then Ok (of_le (subslice bytes offset 2)) else Err InvalidHeader)"

definition read_u32 :: "bytes \<Rightarrow> nat \<Rightarrow> u32 format_res" where
  "read_u32 bytes offset = (if offset + 4 \<le> length bytes then Ok (of_le (subslice bytes offset 4)) else Err InvalidHeader)"

definition read_u64 :: "bytes \<Rightarrow> nat \<Rightarrow> u64 format_res" where
  "read_u64 bytes offset = (if offset + 8 \<le> length bytes then Ok (of_le (subslice bytes offset 8)) else Err InvalidHeader)"

definition header_parse :: "bytes \<Rightarrow> u64 \<Rightarrow> Header format_res" where
  "header_parse bytes source_length =
    (if length bytes < HEADER_SIZE then Err InvalidHeader
     else if take 8 bytes \<noteq> BOOK_MAGIC then Err InvalidMagic
     else
       and_then (read_u16 bytes 12) (\<lambda>header_size.
       and_then (read_u16 bytes 36) (\<lambda>section_size.
       and_then (read_u16 bytes 40) (\<lambda>page_size.
       and_then (read_u16 bytes 42) (\<lambda>nav_size.
       if header_size \<noteq> 256 \<or> section_size \<noteq> 40 \<or> page_size \<noteq> 128 \<or> nav_size \<noteq> 48 then Err UnsupportedVersion
       else
         and_then (read_u64 bytes 16) (\<lambda>declared_length.
         if declared_length \<noteq> 0 \<and> declared_length > source_length then Err FileOutOfBounds
         else
           let file_length = (if declared_length = 0 then source_length else declared_length) in
           and_then (read_u64 bytes 24) (\<lambda>section_table_offset.
           and_then (read_u32 bytes 32) (\<lambda>section_table_length.
           and_then (read_u16 bytes 38) (\<lambda>section_count.
           and_then (read_u64 bytes 44) (\<lambda>page_data_offset.
           and_then (read_u64 bytes 52) (\<lambda>page_data_length.
           let header = \<lparr>bh_file_length = file_length, bh_section_table_offset = section_table_offset,
                 bh_section_table_length = section_table_length, bh_section_count = section_count,
                 bh_page_data_offset = page_data_offset, bh_page_data_length = page_data_length\<rparr> in
           and_then (ok_or InvalidHeader (checked_mul (ucast section_count) 40)) (\<lambda>required_table_length.
           if section_count = 0 \<or> section_table_offset < 256 \<or> section_table_length < required_table_length
           then Err InvalidHeader else Ok header))))))))))))"

subsection \<open>The section directory\<close>

definition ENTRY_SIZE :: nat where [simp]: "ENTRY_SIZE = 40"
definition STRING_TABLE :: u16 where "STRING_TABLE = 1"
definition DISPLAY_PROFILE :: u16 where "DISPLAY_PROFILE = 10"
definition READER_REQUIREMENTS :: u16 where "READER_REQUIREMENTS = 12"
definition BOOK_METADATA :: u16 where "BOOK_METADATA = 21"
definition RENDITION_IDENTITY :: u16 where "RENDITION_IDENTITY = 22"
definition FONT_RESOURCE_INDEX :: u16 where "FONT_RESOURCE_INDEX = 35"
definition PAGE_INDEX :: u16 where "PAGE_INDEX = 40"
definition NAV_INDEX :: u16 where "NAV_INDEX = 41"
definition CHAPTER_INDEX :: u16 where "CHAPTER_INDEX = 43"
definition PAGE_CHUNK_INDEX :: u16 where "PAGE_CHUNK_INDEX = 44"
definition PAGE_TRANSITION_INDEX :: u16 where "PAGE_TRANSITION_INDEX = 45"
definition PAGE_DATA :: u16 where "PAGE_DATA = 50"

text \<open>In the order of the slots; the remaining identifiers (layout profile, policies and so on) have no constant of their own.\<close>

definition REQUIRED :: "u16 list" where
  "REQUIRED = [1, 10, 11, 12, 20, 21, 22, 30, 31, 32, 33, 34, 35, 40, 41, 43, 44, 45, 50]"

record Section =
  sx_id :: u16
  sx_flags :: u16
  sx_offset :: u64
  sx_length :: u64
  sx_entry_size :: u32
  sx_record_count :: u32
  sx_crc32 :: u32

definition Section_EMPTY :: Section where
  "Section_EMPTY =
    \<lparr>sx_id = 0, sx_flags = 0, sx_offset = 0, sx_length = 0, sx_entry_size = 0, sx_record_count = 0, sx_crc32 = 0\<rparr>"

definition required_slot :: "u16 \<Rightarrow> nat option" where
  "required_slot section_id =
    (if section_id = 1 then Some 0
     else if section_id = 10 then Some 1
     else if section_id = 11 then Some 2
     else if section_id = 12 then Some 3
     else if section_id = 20 then Some 4
     else if section_id = 21 then Some 5
     else if section_id = 22 then Some 6
     else if section_id = 30 then Some 7
     else if section_id = 31 then Some 8
     else if section_id = 32 then Some 9
     else if section_id = 33 then Some 10
     else if section_id = 34 then Some 11
     else if section_id = 35 then Some 12
     else if section_id = 40 then Some 13
     else if section_id = 41 then Some 14
     else if section_id = 43 then Some 15
     else if section_id = 44 then Some 16
     else if section_id = 45 then Some 17
     else if section_id = 50 then Some 18
     else None)"

definition validate_record_section :: "Section \<Rightarrow> u32 \<Rightarrow> unit format_res" where
  "validate_record_section section expected = (if sx_entry_size section = expected then Ok () else Err InvalidSection)"

text \<open>The body of the loop over the table: one entry, and the bounds it must keep.\<close>

definition section_read :: "bytes \<Rightarrow> Section format_res" where
  "section_read bytes =
    and_then (read_u16 bytes 0) (\<lambda>section_id.
    and_then (read_u16 bytes 2) (\<lambda>flags.
    and_then (read_u64 bytes 4) (\<lambda>offset.
    and_then (read_u64 bytes 12) (\<lambda>len.
    and_then (read_u32 bytes 20) (\<lambda>entry_size.
    and_then (read_u32 bytes 24) (\<lambda>record_count.
    and_then (read_u32 bytes 28) (\<lambda>crc32.
    Ok \<lparr>sx_id = section_id, sx_flags = flags, sx_offset = offset, sx_length = len, sx_entry_size = entry_size,
        sx_record_count = record_count, sx_crc32 = crc32\<rparr>)))))))"

definition section_check :: "Header \<Rightarrow> Section \<Rightarrow> unit format_res" where
  "section_check header section =
    and_then (ok_or FileOutOfBounds (checked_add (sx_offset section) (sx_length section))) (\<lambda>end_offset.
    if end_offset > bh_file_length header then Err FileOutOfBounds
    else if sx_entry_size section \<noteq> 0 then
      and_then (ok_or InvalidSection (checked_mul (ucast (sx_entry_size section) :: u64) (ucast (sx_record_count section))))
        (\<lambda>records_length. if records_length > sx_length section then Err InvalidSection else Ok ())
    else Ok ())"

fun section_loop :: "nat \<Rightarrow> nat \<Rightarrow> bytes \<Rightarrow> Header \<Rightarrow> Section list \<Rightarrow> Section list format_res" where
  "section_loop 0 index table header entries = Ok entries"
| "section_loop (Suc n) index table header entries =
    (let start = index * ENTRY_SIZE in
     and_then (if start + ENTRY_SIZE \<le> length table then Ok (subslice table start ENTRY_SIZE) else Err InvalidSection) (\<lambda>bytes.
     and_then (section_read bytes) (\<lambda>section.
     and_then (section_check header section) (\<lambda>_.
     case required_slot (sx_id section) of
       None \<Rightarrow> section_loop n (Suc index) table header entries
     | Some slot \<Rightarrow>
         if sx_id (entries ! slot) \<noteq> 0 then Err (DuplicateSection (sx_id section))
         else section_loop n (Suc index) table header (entries[slot := section])))))"

fun require_sections :: "(nat \<times> u16) list \<Rightarrow> Section list \<Rightarrow> unit format_res" where
  "require_sections [] entries = Ok ()"
| "require_sections ((slot, required) # rest) entries =
    (if sx_id (entries ! slot) \<noteq> required then Err (MissingSection required) else require_sections rest entries)"

definition directory_parse :: "bytes \<Rightarrow> Header \<Rightarrow> Section list format_res" where
  "directory_parse table header =
    and_then (section_loop (unat (bh_section_count header)) 0 table header (replicate 19 Section_EMPTY)) (\<lambda>entries.
    and_then (require_sections (enumerate 0 REQUIRED) entries) (\<lambda>_.
    and_then (validate_record_section (entries ! 12) 80) (\<lambda>_.
    and_then (validate_record_section (entries ! 13) 128) (\<lambda>_.
    and_then (validate_record_section (entries ! 14) 48) (\<lambda>_.
    and_then (validate_record_section (entries ! 15) 32) (\<lambda>_.
    and_then (validate_record_section (entries ! 16) 24) (\<lambda>_.
    and_then (validate_record_section (entries ! 17) 24) (\<lambda>_.
    let page_data = entries ! 18 in
    if sx_entry_size page_data \<noteq> 0 \<or> sx_record_count page_data \<noteq> 0 \<or> sx_offset page_data \<noteq> bh_page_data_offset header \<or>
      sx_length page_data \<noteq> bh_page_data_length header
    then Err InvalidSection
    else if sx_record_count (entries ! 13) = 0 then Err InvalidPage else Ok entries))))))))"

definition directory_get :: "u16 \<Rightarrow> Section list \<Rightarrow> Section" where
  "directory_get section_id entries = (case required_slot section_id of Some slot \<Rightarrow> entries ! slot | None \<Rightarrow> Section_EMPTY)"

subsection \<open>String references\<close>

record StringRef =
  sr_offset :: u32
  sr_length :: u32

definition StringRef_parse :: "bytes \<Rightarrow> nat \<Rightarrow> StringRef format_res" where
  "StringRef_parse bytes offset =
    and_then (read_u32 bytes offset) (\<lambda>start.
    and_then (read_u32 bytes (offset + 4)) (\<lambda>len.
    Ok \<lparr>sr_offset = start, sr_length = len\<rparr>))"

definition StringRef_validate :: "u64 \<Rightarrow> StringRef \<Rightarrow> unit format_res" where
  "StringRef_validate table_length r =
    (if sr_length r = 0 then Ok ()
     else
       and_then (ok_or InvalidStringRef (checked_add (ucast (sr_offset r) :: u64) (ucast (sr_length r)))) (\<lambda>end_offset.
       if end_offset \<le> table_length then Ok () else Err InvalidStringRef))"

subsection \<open>What a parsed directory guarantees\<close>

lemma unat_widen [simp]: "unat (ucast (w :: u32) :: u64) = unat w"
  using unat_u32_less[of w] by (simp add: unsigned_ucast_eq take_bit_nat_eq_self)

lemma read_total [simp]: "read_u16 b i \<noteq> Panic" "read_u32 b i \<noteq> Panic" "read_u64 b i \<noteq> Panic"
  by (simp_all add: read_u16_def read_u32_def read_u64_def)

lemma header_parse_sound:
  assumes "header_parse bytes source_length = Ok header"
  shows "unat (bh_file_length header) \<le> unat source_length" "256 \<le> unat (bh_section_table_offset header)"
    "bh_section_count header \<noteq> 0" "take 8 bytes = BOOK_MAGIC"
  using assms by (auto simp: header_parse_def and_then_Ok_iff Let_def word_le_nat_alt not_less split: if_splits)

definition section_in_file :: "Header \<Rightarrow> Section \<Rightarrow> bool" where
  "section_in_file header s \<longleftrightarrow> unat (sx_offset s) + unat (sx_length s) \<le> unat (bh_file_length header) \<and>
    unat (sx_entry_size s) * unat (sx_record_count s) \<le> unat (sx_length s)"

lemma section_check_sound:
  assumes "section_check header s = Ok ()"
  shows "section_in_file header s"
proof -
  obtain e where e: "unat e = unat (sx_offset s) + unat (sx_length s)" "\<not> e > bh_file_length header"
    using assms by (auto simp: section_check_def and_then_Ok_iff checked_add_Some split: if_splits)
  have "unat (sx_entry_size s) * unat (sx_record_count s) \<le> unat (sx_length s)"
  proof (cases "sx_entry_size s = 0")
    case False
    then obtain r where "checked_mul (ucast (sx_entry_size s) :: u64) (ucast (sx_record_count s)) = Some r" "\<not> r > sx_length s"
      using assms by (auto simp: section_check_def and_then_Ok_iff split: if_splits)
    then show ?thesis using checked_mul_Some[of "ucast (sx_entry_size s)" "ucast (sx_record_count s) :: u64" r]
      by (simp add: word_less_nat_alt)
  qed simp
  then show ?thesis using e by (simp add: section_in_file_def word_less_nat_alt)
qed

lemma required_slot_Some: "required_slot x = Some k \<Longrightarrow> k < 19 \<and> REQUIRED ! k = x"
  by (auto simp: required_slot_def REQUIRED_def split: if_splits)

lemma length_REQUIRED [simp]: "length REQUIRED = 19"
  by (simp add: REQUIRED_def)

definition entries_ok :: "Header \<Rightarrow> Section list \<Rightarrow> bool" where
  "entries_ok header es \<longleftrightarrow> length es = 19 \<and>
    (\<forall>k<19. es ! k = Section_EMPTY \<or> (sx_id (es ! k) = REQUIRED ! k \<and> section_in_file header (es ! k)))"

lemma entries_ok_start: "entries_ok header (replicate 19 Section_EMPTY)"
  by (simp add: entries_ok_def)

lemma entries_ok_update:
  "entries_ok header es \<Longrightarrow> required_slot (sx_id s) = Some k \<Longrightarrow> section_in_file header s \<Longrightarrow> entries_ok header (es[k := s])"
  using required_slot_Some[of "sx_id s" k] by (auto simp: entries_ok_def nth_list_update)

lemma section_loop_ok:
  "section_loop n index table header es = Ok es' \<Longrightarrow> entries_ok header es \<Longrightarrow> entries_ok header es'"
proof (induction n arbitrary: index es)
  case (Suc n)
  from Suc.prems(1) obtain s where s: "section_check header s = Ok ()"
    "(case required_slot (sx_id s) of None \<Rightarrow> section_loop n (Suc index) table header es
      | Some slot \<Rightarrow> if sx_id (es ! slot) \<noteq> 0 then Err (DuplicateSection (sx_id s))
          else section_loop n (Suc index) table header (es[slot := s])) = Ok es'"
    by (auto simp: and_then_Ok_iff Let_def split: if_splits)
  show ?case
  proof (cases "required_slot (sx_id s)")
    case None
    then show ?thesis using s(2) Suc.IH Suc.prems(2) by simp
  next
    case (Some k)
    then have "section_loop n (Suc index) table header (es[k := s]) = Ok es'" using s(2) by (simp split: if_splits)
    then show ?thesis by (rule Suc.IH) (rule entries_ok_update[OF Suc.prems(2) Some section_check_sound[OF s(1)]])
  qed
qed simp

lemma require_sections_Ok:
  "require_sections (enumerate n xs) es = Ok () \<longleftrightarrow> (\<forall>i<length xs. sx_id (es ! (n + i)) = xs ! i)"
proof (induction xs arbitrary: n)
  case (Cons x xs)
  have "(\<forall>i<length (x # xs). sx_id (es ! (n + i)) = (x # xs) ! i) \<longleftrightarrow>
      sx_id (es ! n) = x \<and> (\<forall>i<length xs. sx_id (es ! (Suc n + i)) = xs ! i)"
    by (auto simp: less_Suc_eq_0_disj)
  then show ?case by (simp add: Cons.IH)
qed simp

lemma validate_record_section_Ok [simp]: "validate_record_section s n = Ok () \<longleftrightarrow> sx_entry_size s = n"
  by (simp add: validate_record_section_def)

definition directory_ok :: "Header \<Rightarrow> Section list \<Rightarrow> bool" where
  "directory_ok header es \<longleftrightarrow> length es = 19 \<and>
    (\<forall>k<19. sx_id (es ! k) = REQUIRED ! k \<and> section_in_file header (es ! k)) \<and>
    sx_entry_size (es ! 12) = 80 \<and> sx_entry_size (es ! 13) = 128 \<and> sx_entry_size (es ! 14) = 48 \<and>
    sx_entry_size (es ! 15) = 32 \<and> sx_entry_size (es ! 16) = 24 \<and> sx_entry_size (es ! 17) = 24 \<and>
    sx_offset (es ! 18) = bh_page_data_offset header \<and> sx_length (es ! 18) = bh_page_data_length header \<and>
    sx_record_count (es ! 13) \<noteq> 0"

lemma directory_parse_sound:
  assumes "directory_parse table header = Ok es"
  shows "directory_ok header es"
proof -
  have req: "\<forall>k<19. sx_id (es ! k) = REQUIRED ! k" and loop: "section_loop (unat (bh_section_count header)) 0 table header (replicate 19 Section_EMPTY) = Ok es"
    and rest: "sx_entry_size (es ! 12) = 80" "sx_entry_size (es ! 13) = 128" "sx_entry_size (es ! 14) = 48"
      "sx_entry_size (es ! 15) = 32" "sx_entry_size (es ! 16) = 24" "sx_entry_size (es ! 17) = 24"
      "sx_offset (es ! 18) = bh_page_data_offset header" "sx_length (es ! 18) = bh_page_data_length header"
      "sx_record_count (es ! 13) \<noteq> 0"
    using assms by (auto simp: directory_parse_def and_then_Ok_iff require_sections_Ok[of 0 REQUIRED, simplified] Let_def split: if_splits)
  have e: "entries_ok header es" using section_loop_ok[OF loop entries_ok_start] .
  have "REQUIRED ! k \<noteq> 0" if "k < 19" for k
  proof -
    have "\<forall>x\<in>set REQUIRED. x \<noteq> 0" by (simp add: REQUIRED_def)
    then show ?thesis using that nth_mem[of k REQUIRED] by auto
  qed
  then have "section_in_file header (es ! k)" if "k < 19" for k
    using e req that by (metis entries_ok_def Section_EMPTY_def Section.select_convs(1))
  then show ?thesis using e req rest by (simp add: directory_ok_def entries_ok_def)
qed

lemma directory_get_slots [simp]:
  "directory_get STRING_TABLE es = es ! 0" "directory_get DISPLAY_PROFILE es = es ! 1" "directory_get READER_REQUIREMENTS es = es ! 3"
  "directory_get BOOK_METADATA es = es ! 5" "directory_get RENDITION_IDENTITY es = es ! 6" "directory_get FONT_RESOURCE_INDEX es = es ! 12"
  "directory_get PAGE_INDEX es = es ! 13" "directory_get NAV_INDEX es = es ! 14" "directory_get CHAPTER_INDEX es = es ! 15"
  "directory_get PAGE_CHUNK_INDEX es = es ! 16" "directory_get PAGE_TRANSITION_INDEX es = es ! 17" "directory_get PAGE_DATA es = es ! 18"
  by (simp_all add: directory_get_def required_slot_def STRING_TABLE_def DISPLAY_PROFILE_def READER_REQUIREMENTS_def
      BOOK_METADATA_def RENDITION_IDENTITY_def FONT_RESOURCE_INDEX_def PAGE_INDEX_def NAV_INDEX_def CHAPTER_INDEX_def
      PAGE_CHUNK_INDEX_def PAGE_TRANSITION_INDEX_def PAGE_DATA_def)

text \<open>The records of a section lie in it.\<close>

lemma record_in_section:
  assumes "section_in_file header s" and "unat i < unat (sx_record_count s)"
  shows "unat i * unat (sx_entry_size s) + unat (sx_entry_size s) \<le> unat (sx_length s)"
proof -
  have "unat i * unat (sx_entry_size s) + unat (sx_entry_size s) = Suc (unat i) * unat (sx_entry_size s)" by simp
  also have "\<dots> \<le> unat (sx_record_count s) * unat (sx_entry_size s)" using assms(2) by (intro mult_le_mono) simp_all
  also have "\<dots> \<le> unat (sx_length s)" using assms(1) by (simp add: section_in_file_def mult.commute)
  finally show ?thesis .
qed

lemma StringRef_validate_Ok:
  "StringRef_validate n r = Ok () \<longleftrightarrow> sr_length r = 0 \<or> unat (sr_offset r) + unat (sr_length r) \<le> unat n"
proof -
  have "unat (ucast (sr_offset r) :: u64) + unat (ucast (sr_length r) :: u64) < 2 ^ 64"
    using unat_u32_less[of "sr_offset r"] unat_u32_less[of "sr_length r"] by simp
  then have "checked_add (ucast (sr_offset r) :: u64) (ucast (sr_length r)) = Some (ucast (sr_offset r) + ucast (sr_length r))"
    "unat (ucast (sr_offset r) + ucast (sr_length r) :: u64) = unat (sr_offset r) + unat (sr_length r)"
    by (simp_all add: checked_add_def unat_add_small)
  then show ?thesis by (auto simp: StringRef_validate_def word_le_nat_alt)
qed

end
