(* ===== verification/Book_Records.thy ===== *)
theory Book_Records
  imports Book_Format
begin

text \<open>
  The index records of a BinBook file: their decoders (\<^verbatim>\<open>page.rs\<close>, \<^verbatim>\<open>chunk.rs\<close>, \<^verbatim>\<open>navigation.rs\<close>,
  \<^verbatim>\<open>transition.rs\<close>, \<^verbatim>\<open>font_resource.rs\<close>, \<^verbatim>\<open>profile.rs\<close>, \<^verbatim>\<open>rendition_identity.rs\<close>) and their encoders
  (\<^verbatim>\<open>encode.rs\<close>, \<^verbatim>\<open>index_encode.rs\<close>).
\<close>

subsection \<open>Pages\<close>

definition PAGE_RECORD_SIZE :: nat where [simp]: "PAGE_RECORD_SIZE = 128"

record PlaneDescriptor =
  pd_slot :: PlaneSlot
  pd_compression :: CompressionMethod
  pd_offset :: u64
  pd_length :: u32

record PlaneDirectory =
  pdir_bitmap :: u8
  pdir_slots :: "PlaneDescriptor option list"

text \<open>The loop of \<open>PlaneDirectory::new\<close> over the slots.\<close>

fun plane_bitmap :: "PlaneDescriptor option list \<Rightarrow> nat \<Rightarrow> u8 \<Rightarrow> u8" where
  "plane_bitmap [] index bitmap = bitmap"
| "plane_bitmap (slot # slots) index bitmap =
    plane_bitmap slots (Suc index) (if slot \<noteq> None then bitmap OR push_bit index 1 else bitmap)"

definition PlaneDirectory_new :: "PlaneDescriptor option list \<Rightarrow> PlaneDirectory" where
  "PlaneDirectory_new slots = \<lparr>pdir_bitmap = plane_bitmap slots 0 0, pdir_slots = slots\<rparr>"

definition plane_get :: "PlaneSlot \<Rightarrow> PlaneDirectory \<Rightarrow> PlaneDescriptor option" where
  "plane_get slot planes = pdir_slots planes ! PlaneSlot_index slot"

record PageInfo =
  pg_page_number :: u32
  pg_page_kind :: u16
  pg_pixel_format :: PixelFormat
  pg_compression_method :: CompressionMethod
  pg_update_hint :: u16
  pg_page_flags :: u32
  pg_page_crc32 :: u32
  pg_stored_width :: u16
  pg_stored_height :: u16
  pg_placement_x :: u16
  pg_placement_y :: u16
  pg_progress_start_ppm :: u32
  pg_progress_end_ppm :: u32
  pg_planes :: PlaneDirectory

text \<open>The loop over the four plane slots; \<open>default_compression\<close> holds unless flag 0 selects one per plane.\<close>

definition plane_read ::
    "bytes \<Rightarrow> u64 \<Rightarrow> u32 \<Rightarrow> CompressionMethod \<Rightarrow> u8 \<Rightarrow> nat \<Rightarrow> PlaneDescriptor option format_res" where
  "plane_read bytes page_data_length page_flags default_compression bitmap index =
    (if bitmap AND push_bit index 1 = 0 then Ok None
     else
       and_then (PlaneSlot_try_from (of_nat index)) (\<lambda>slot.
       and_then (read_u32 bytes (52 + index * 4)) (\<lambda>offset.
       and_then (read_u32 bytes (68 + index * 4)) (\<lambda>len.
       and_then (ok_or InvalidPage (checked_add (ucast offset :: u64) (ucast len))) (\<lambda>end_offset.
       if len = 0 \<or> end_offset > page_data_length then Err InvalidPage
       else
         and_then (if page_flags AND 1 = 0 then Ok default_compression
             else and_then (byte_at bytes (45 + index)) CompressionMethod_try_from_u8) (\<lambda>compression.
         Ok (Some \<lparr>pd_slot = slot, pd_compression = compression, pd_offset = ucast offset, pd_length = len\<rparr>)))))))"

definition page_parse :: "bytes \<Rightarrow> u32 \<Rightarrow> u64 \<Rightarrow> PageInfo format_res" where
  "page_parse bytes expected page_data_length =
    (if length bytes < PAGE_RECORD_SIZE then Err InvalidPage
     else
       and_then (read_u32 bytes 0) (\<lambda>number.
       if number \<noteq> expected then Err InvalidPage
       else
         and_then (read_u16 bytes 8) (\<lambda>cmethod.
         and_then (CompressionMethod_try_from cmethod) (\<lambda>default_compression.
         and_then (read_u32 bytes 12) (\<lambda>page_flags.
         and_then (byte_at bytes 44) (\<lambda>bitmap.
         if bitmap AND NOT 0x0f \<noteq> 0 then Err InvalidPage
         else
           let plane = plane_read bytes page_data_length page_flags default_compression bitmap in
           and_then (plane 0) (\<lambda>slot0.
           and_then (plane 1) (\<lambda>slot1.
           and_then (plane 2) (\<lambda>slot2.
           and_then (plane 3) (\<lambda>slot3.
           and_then (read_u32 bytes 36) (\<lambda>progress_start_ppm.
           and_then (read_u32 bytes 40) (\<lambda>progress_end_ppm.
           if progress_start_ppm > progress_end_ppm \<or> progress_end_ppm > 1000000 then Err InvalidPage
           else
             and_then (read_u16 bytes 4) (\<lambda>page_kind.
             and_then (read_u16 bytes 6) (\<lambda>raw_format.
             and_then (PixelFormat_try_from raw_format) (\<lambda>pixel_format.
             and_then (read_u16 bytes 10) (\<lambda>update_hint.
             and_then (read_u32 bytes 16) (\<lambda>page_crc32.
             and_then (read_u16 bytes 20) (\<lambda>stored_width.
             and_then (read_u16 bytes 22) (\<lambda>stored_height.
             and_then (read_u16 bytes 24) (\<lambda>placement_x.
             and_then (read_u16 bytes 26) (\<lambda>placement_y.
             Ok \<lparr>pg_page_number = expected, pg_page_kind = page_kind, pg_pixel_format = pixel_format,
                 pg_compression_method = default_compression, pg_update_hint = update_hint, pg_page_flags = page_flags,
                 pg_page_crc32 = page_crc32, pg_stored_width = stored_width, pg_stored_height = stored_height,
                 pg_placement_x = placement_x, pg_placement_y = placement_y, pg_progress_start_ppm = progress_start_ppm,
                 pg_progress_end_ppm = progress_end_ppm,
                 pg_planes = \<lparr>pdir_bitmap = bitmap, pdir_slots = [slot0, slot1, slot2, slot3]\<rparr>\<rparr>)))))))))))))))))))))"

subsection \<open>Chunks\<close>

definition CHUNK_RECORD_SIZE :: nat where [simp]: "CHUNK_RECORD_SIZE = 24"

record PageChunk =
  ck_page_number :: u32
  ck_plane_slot :: PlaneSlot
  ck_chunk_index :: u8
  ck_row_start :: u16
  ck_row_count :: u16
  ck_offset :: u64
  ck_compressed_length :: u32
  ck_uncompressed_length :: u32

definition chunk_parse :: "bytes \<Rightarrow> u32 \<Rightarrow> u64 \<Rightarrow> PageChunk format_res" where
  "chunk_parse bytes page_count page_data_length =
    (if length bytes < CHUNK_RECORD_SIZE then Err InvalidChunk
     else
       and_then (read_u32 bytes 0) (\<lambda>page.
       if page \<ge> page_count then Err InvalidChunk
       else
         and_then (byte_at bytes 5) (\<lambda>raw_chunk.
         if raw_chunk \<ge> 32 then Err InvalidChunk
         else
           and_then (read_u32 bytes 12) (\<lambda>offset.
           and_then (read_u32 bytes 16) (\<lambda>compressed.
           and_then (ok_or InvalidChunk (checked_add (ucast offset :: u64) (ucast compressed))) (\<lambda>end_offset.
           if compressed = 0 \<or> end_offset > page_data_length then Err InvalidChunk
           else
             and_then (read_u16 bytes 10) (\<lambda>reserved.
             if reserved \<noteq> 0 then Err InvalidChunk
             else
               and_then (byte_at bytes 4) (\<lambda>raw_slot.
               and_then (PlaneSlot_try_from raw_slot) (\<lambda>plane_slot.
               and_then (read_u16 bytes 6) (\<lambda>row_start.
               and_then (read_u16 bytes 8) (\<lambda>row_count.
               and_then (read_u32 bytes 20) (\<lambda>uncompressed.
               Ok \<lparr>ck_page_number = page, ck_plane_slot = plane_slot, ck_chunk_index = raw_chunk, ck_row_start = row_start,
                   ck_row_count = row_count, ck_offset = ucast offset, ck_compressed_length = compressed,
                   ck_uncompressed_length = uncompressed\<rparr>))))))))))))"

subsection \<open>Navigation\<close>

definition NAV_RECORD_SIZE :: nat where [simp]: "NAV_RECORD_SIZE = 48"
definition CHAPTER_RECORD_SIZE :: nat where [simp]: "CHAPTER_RECORD_SIZE = 32"

record NavEntry =
  nv_number :: u32
  nv_nav_type :: u16
  nv_level :: u16
  nv_title :: StringRef
  nv_source_href :: StringRef
  nv_page :: u32

record ChapterEntry =
  ch_number :: u32
  ch_nav :: u32
  ch_title :: StringRef
  ch_page :: u32
  ch_level :: u16
  ch_nav_type :: u16

definition parse_nav :: "bytes \<Rightarrow> u32 \<Rightarrow> u32 \<Rightarrow> u64 \<Rightarrow> NavEntry format_res" where
  "parse_nav bytes expected page_count string_length =
    (if length bytes < NAV_RECORD_SIZE then Err InvalidNavigation
     else
       and_then (read_u32 bytes 0) (\<lambda>number.
       if number \<noteq> expected then Err InvalidNavigation
       else
         and_then (read_u32 bytes 28) (\<lambda>page.
         if page \<ge> page_count then Err InvalidNavigation
         else
           and_then (StringRef_parse bytes 8) (\<lambda>title.
           and_then (StringRef_parse bytes 16) (\<lambda>source_href.
           and_then (StringRef_validate string_length title) (\<lambda>_.
           and_then (StringRef_validate string_length source_href) (\<lambda>_.
           and_then (read_u16 bytes 4) (\<lambda>nav_type.
           and_then (read_u16 bytes 6) (\<lambda>level.
           Ok \<lparr>nv_number = expected, nv_nav_type = nav_type, nv_level = level, nv_title = title,
               nv_source_href = source_href, nv_page = page\<rparr>)))))))))"

definition parse_chapter :: "bytes \<Rightarrow> u32 \<Rightarrow> u32 \<Rightarrow> u32 \<Rightarrow> u64 \<Rightarrow> ChapterEntry format_res" where
  "parse_chapter bytes expected nav_count page_count string_length =
    (if length bytes < CHAPTER_RECORD_SIZE then Err InvalidChapter
     else
       and_then (read_u32 bytes 0) (\<lambda>number.
       if number \<noteq> expected then Err InvalidChapter
       else
         and_then (read_u32 bytes 4) (\<lambda>nav.
         and_then (read_u32 bytes 16) (\<lambda>page.
         and_then (read_u16 bytes 22) (\<lambda>nav_type.
         if nav \<ge> nav_count \<or> page \<ge> page_count \<or> nav_type \<notin> {3, 4} then Err InvalidChapter
         else
           and_then (StringRef_parse bytes 8) (\<lambda>title.
           and_then (StringRef_validate string_length title) (\<lambda>_.
           and_then (read_u16 bytes 20) (\<lambda>level.
           Ok \<lparr>ch_number = expected, ch_nav = nav, ch_title = title, ch_page = page, ch_level = level,
               ch_nav_type = nav_type\<rparr>))))))))"

subsection \<open>Transitions\<close>

definition TRANSITION_RECORD_SIZE :: nat where [simp]: "TRANSITION_RECORD_SIZE = 24"

record PageTransition =
  tr_from :: u32
  tr_to :: u32
  tr_changed_chunk_mask :: u32
  tr_first_changed_chunk :: u16
  tr_changed_chunk_count :: u16
  tr_flags :: u16

definition transition_parse :: "bytes \<Rightarrow> u32 \<Rightarrow> PageTransition format_res" where
  "transition_parse bytes page_count =
    (if length bytes < TRANSITION_RECORD_SIZE then Err InvalidTransition
     else
       and_then (read_u32 bytes 0) (\<lambda>from_page.
       and_then (read_u32 bytes 4) (\<lambda>to_page.
       and_then (read_u32 bytes 8) (\<lambda>mask.
       and_then (read_u16 bytes 12) (\<lambda>first.
       and_then (read_u16 bytes 14) (\<lambda>count.
       and_then (read_u16 bytes 16) (\<lambda>flags.
       if from_page \<ge> page_count \<or> to_page \<ge> page_count \<or> flags \<noteq> 0 then Err InvalidTransition
       else
         and_then (read_u16 bytes 18) (\<lambda>reserved16.
         if reserved16 \<noteq> 0 then Err InvalidTransition
         else
           and_then (read_u32 bytes 20) (\<lambda>reserved32.
           if reserved32 \<noteq> 0 \<or> (mask = 0 \<and> (first \<noteq> 0 \<or> count \<noteq> 0)) then Err InvalidTransition
           else
             Ok \<lparr>tr_from = from_page, tr_to = to_page, tr_changed_chunk_mask = mask, tr_first_changed_chunk = first,
                 tr_changed_chunk_count = count, tr_flags = flags\<rparr>)))))))))"

subsection \<open>Fonts\<close>

definition FONT_RESOURCE_RECORD_SIZE :: nat where [simp]: "FONT_RESOURCE_RECORD_SIZE = 80"
definition KNOWN_FLAGS :: u16 where "KNOWN_FLAGS = 0x0f"

datatype FontSourceKind = Bundled | Epub

primrec FontSourceKind_to_u16 :: "FontSourceKind \<Rightarrow> u16" where
  "FontSourceKind_to_u16 Bundled = 1"
| "FontSourceKind_to_u16 Epub = 2"

definition FontSourceKind_try_from :: "u16 \<Rightarrow> FontSourceKind format_res" where
  "FontSourceKind_try_from value =
    (if value = 1 then Ok Bundled else if value = 2 then Ok Epub else Err InvalidFontResource)"

datatype FontStyle = Normal | Italic | Oblique

primrec FontStyle_to_u8 :: "FontStyle \<Rightarrow> u8" where
  "FontStyle_to_u8 Normal = 0"
| "FontStyle_to_u8 Italic = 1"
| "FontStyle_to_u8 Oblique = 2"

definition FontStyle_try_from :: "u8 \<Rightarrow> FontStyle format_res" where
  "FontStyle_try_from value =
    (if value = 0 then Ok Normal else if value = 1 then Ok Italic else if value = 2 then Ok Oblique
     else Err InvalidFontResource)"

record FontResourceIndexEntry =
  fr_font_index :: u32
  fr_source_kind :: FontSourceKind
  fr_flags :: u16
  fr_weight :: u16
  fr_stretch_milli :: u16
  fr_style :: FontStyle
  fr_family :: StringRef
  fr_source_path :: StringRef
  fr_sha256 :: bytes
  fr_face_index :: u32

definition font_parse :: "bytes \<Rightarrow> u32 \<Rightarrow> u64 \<Rightarrow> FontResourceIndexEntry format_res" where
  "font_parse bytes expected_index string_table_length =
    (if length bytes < FONT_RESOURCE_RECORD_SIZE then Err InvalidFontResource
     else
       let record = take FONT_RESOURCE_RECORD_SIZE bytes in
       and_then (read_u32 record 0) (\<lambda>font_index.
       and_then (read_u16 record 6) (\<lambda>flags.
       if font_index \<noteq> expected_index \<or> flags AND NOT KNOWN_FLAGS \<noteq> 0 \<or> record ! 13 \<noteq> 0 \<or>
         subslice record 14 2 \<noteq> [0, 0] \<or> list_ex (\<lambda>byte. byte \<noteq> 0) (subslice record 68 12)
       then Err InvalidFontResource
       else
         and_then (StringRef_parse record 16) (\<lambda>family.
         and_then (StringRef_parse record 24) (\<lambda>source_path.
         and_then (StringRef_validate string_table_length family) (\<lambda>_.
         and_then (StringRef_validate string_table_length source_path) (\<lambda>_.
         let sha256 = subslice record 32 32 in
         and_then (read_u16 record 4) (\<lambda>raw_kind.
         and_then (FontSourceKind_try_from raw_kind) (\<lambda>source_kind.
         and_then (read_u16 record 8) (\<lambda>weight.
         and_then (read_u16 record 10) (\<lambda>stretch_milli.
         and_then (FontStyle_try_from (record ! 12)) (\<lambda>style.
         and_then (read_u32 record 64) (\<lambda>face_index.
         Ok \<lparr>fr_font_index = font_index, fr_source_kind = source_kind, fr_flags = flags, fr_weight = weight,
             fr_stretch_milli = stretch_milli, fr_style = style, fr_family = family, fr_source_path = source_path,
             fr_sha256 = sha256, fr_face_index = face_index\<rparr>)))))))))))))"

subsection \<open>Display profile and metadata\<close>

definition DISPLAY_PROFILE_MIN :: nat where [simp]: "DISPLAY_PROFILE_MIN = 56"
definition BOOK_METADATA_MIN :: nat where [simp]: "BOOK_METADATA_MIN = 56"
definition WAVEFORM_UNKNOWN :: u16 where "WAVEFORM_UNKNOWN = 0"
definition WAVEFORM_SSD1677_ABSOLUTE_GRAY2 :: u16 where "WAVEFORM_SSD1677_ABSOLUTE_GRAY2 = 1"
definition WAVEFORM_SSD1677_STAGED_GRAY2 :: u16 where "WAVEFORM_SSD1677_STAGED_GRAY2 = 2"

text \<open>The rotation is an \<open>i16\<close>: the word is read as a two's complement number where it is used.\<close>

record DisplayProfile =
  dp_profile_id :: StringRef
  dp_device_family :: StringRef
  dp_device_model :: StringRef
  dp_logical_width :: u16
  dp_logical_height :: u16
  dp_physical_width :: u16
  dp_physical_height :: u16
  dp_logical_orientation :: u8
  dp_logical_to_physical_rotation :: "16 word"
  dp_scan_order_hint :: u8
  dp_supported_storage_pixel_formats :: u32
  dp_native_output_pixel_formats :: u32
  dp_native_grayscale_levels :: u16
  dp_panel_grayscale_levels :: u16
  dp_framebuffer_bits_per_pixel :: u8
  dp_waveform_hint :: u16
  dp_dither_mode :: u8

definition DisplayProfile_parse :: "bytes \<Rightarrow> u64 \<Rightarrow> DisplayProfile format_res" where
  "DisplayProfile_parse bytes string_length =
    (if length bytes < DISPLAY_PROFILE_MIN then Err InvalidDisplayProfile
     else
       and_then (StringRef_parse bytes 0) (\<lambda>profile_id.
       and_then (StringRef_parse bytes 8) (\<lambda>device_family.
       and_then (StringRef_parse bytes 16) (\<lambda>device_model.
       and_then (read_u16 bytes 24) (\<lambda>logical_width.
       and_then (read_u16 bytes 26) (\<lambda>logical_height.
       and_then (read_u16 bytes 28) (\<lambda>physical_width.
       and_then (read_u16 bytes 30) (\<lambda>physical_height.
       and_then (read_u32 bytes 36) (\<lambda>storage_formats.
       and_then (read_u32 bytes 40) (\<lambda>output_formats.
       and_then (read_u16 bytes 48) (\<lambda>native_levels.
       and_then (read_u16 bytes 50) (\<lambda>panel_levels.
       and_then (read_u16 bytes 53) (\<lambda>waveform_hint.
       let profile = \<lparr>dp_profile_id = profile_id, dp_device_family = device_family, dp_device_model = device_model,
             dp_logical_width = logical_width, dp_logical_height = logical_height, dp_physical_width = physical_width,
             dp_physical_height = physical_height, dp_logical_orientation = bytes ! 32,
             dp_logical_to_physical_rotation = of_le [bytes ! 33, bytes ! 34], dp_scan_order_hint = bytes ! 35,
             dp_supported_storage_pixel_formats = storage_formats, dp_native_output_pixel_formats = output_formats,
             dp_native_grayscale_levels = native_levels, dp_panel_grayscale_levels = panel_levels,
             dp_framebuffer_bits_per_pixel = bytes ! 52, dp_waveform_hint = waveform_hint, dp_dither_mode = bytes ! 55\<rparr> in
       and_then (StringRef_validate string_length profile_id) (\<lambda>_.
       and_then (StringRef_validate string_length device_family) (\<lambda>_.
       and_then (StringRef_validate string_length device_model) (\<lambda>_.
       if logical_width = 0 \<or> logical_height = 0 then Err InvalidDisplayProfile
       else if waveform_hint \<notin> {WAVEFORM_UNKNOWN, WAVEFORM_SSD1677_ABSOLUTE_GRAY2, WAVEFORM_SSD1677_STAGED_GRAY2}
       then Err (UnsupportedWaveformHint waveform_hint) else Ok profile))))))))))))))))"

record BookMetadata =
  bm_title :: StringRef
  bm_subtitle :: StringRef
  bm_author :: StringRef
  bm_publisher :: StringRef
  bm_language :: StringRef
  bm_series_name :: StringRef
  bm_series_index_milli :: u32

fun validate_references :: "u64 \<Rightarrow> StringRef list \<Rightarrow> unit format_res" where
  "validate_references string_length [] = Ok ()"
| "validate_references string_length (reference # rest) =
    and_then (StringRef_validate string_length reference) (\<lambda>_. validate_references string_length rest)"

definition BookMetadata_parse :: "bytes \<Rightarrow> u64 \<Rightarrow> BookMetadata format_res" where
  "BookMetadata_parse bytes string_length =
    (if length bytes < BOOK_METADATA_MIN then Err InvalidBookMetadata
     else
       and_then (StringRef_parse bytes 0) (\<lambda>title.
       and_then (StringRef_parse bytes 8) (\<lambda>subtitle.
       and_then (StringRef_parse bytes 16) (\<lambda>author.
       and_then (StringRef_parse bytes 24) (\<lambda>publisher.
       and_then (StringRef_parse bytes 32) (\<lambda>language.
       and_then (StringRef_parse bytes 40) (\<lambda>series_name.
       and_then (read_u32 bytes 48) (\<lambda>series_index_milli.
       and_then (validate_references string_length [title, subtitle, author, publisher, language, series_name]) (\<lambda>_.
       Ok \<lparr>bm_title = title, bm_subtitle = subtitle, bm_author = author, bm_publisher = publisher,
           bm_language = language, bm_series_name = series_name, bm_series_index_milli = series_index_milli\<rparr>)))))))))"

subsection \<open>Rendition identity\<close>

definition RENDITION_IDENTITY_LENGTH :: u64 where "RENDITION_IDENTITY_LENGTH = 312"
definition RENDITION_HASH_LENGTH :: nat where [simp]: "RENDITION_HASH_LENGTH = 32"

record RenditionIdentity =
  rendition_hash :: bytes

definition rendition_parse :: "bytes \<Rightarrow> RenditionIdentity format_res" where
  "rendition_parse bytes =
    (if length bytes < RENDITION_HASH_LENGTH then Err InvalidSection
     else
       let hash = take RENDITION_HASH_LENGTH bytes in
       if list_all (\<lambda>byte. byte = 0) hash then Err InvalidSection else Ok \<lparr>rendition_hash = hash\<rparr>)"

subsection \<open>What parsed records guarantee\<close>

lemma byte_at_Ok_iff: "byte_at p i = Ok x \<longleftrightarrow> i < length p \<and> x = p ! i"
  by (auto simp: byte_at_def)

lemma widened_end:
  "(checked_add (ucast (a :: u32) :: u64) (ucast (b :: u32)) = Some e) \<longleftrightarrow> unat e = unat a + unat b"
  by (simp add: checked_add_Some)

lemma plane_read_sound:
  assumes "plane_read bytes limit flags cmethod bitmap index = Ok (Some plane)" and "index < 4"
  shows "PlaneSlot_index (pd_slot plane) = index" "0 < unat (pd_length plane)" "unat (pd_offset plane) < 2 ^ 32"
    "unat (pd_offset plane) + unat (pd_length plane) \<le> unat limit"
proof -
  have i: "index = 0 \<or> index = 1 \<or> index = 2 \<or> index = 3" using assms(2) by auto
  show "PlaneSlot_index (pd_slot plane) = index"
    using assms i by (auto simp: plane_read_def and_then_Ok_iff PlaneSlot_try_from_def split: if_splits)
  show "0 < unat (pd_length plane)" "unat (pd_offset plane) < 2 ^ 32" "unat (pd_offset plane) + unat (pd_length plane) \<le> unat limit"
    using assms unat_u32_less
    by (auto simp: plane_read_def and_then_Ok_iff widened_end word_less_nat_alt not_less unat_gt_0 split: if_splits)
qed

lemma page_parse_sound:
  assumes "page_parse bytes number limit = Ok page"
  shows "pg_page_number page = number" "length (pdir_slots (pg_planes page)) = 4"
    "unat (pg_progress_start_ppm page) \<le> unat (pg_progress_end_ppm page)" "unat (pg_progress_end_ppm page) \<le> 1000000"
    "plane_get slot (pg_planes page) = Some plane \<Longrightarrow> pd_slot plane = slot \<and> 0 < unat (pd_length plane) \<and>
      unat (pd_offset plane) < 2 ^ 32 \<and> unat (pd_offset plane) + unat (pd_length plane) \<le> unat limit"
proof -
  obtain flags cmethod bitmap s0 s1 s2 s3 where s: "plane_read bytes limit flags cmethod bitmap 0 = Ok s0"
      "plane_read bytes limit flags cmethod bitmap 1 = Ok s1" "plane_read bytes limit flags cmethod bitmap 2 = Ok s2"
      "plane_read bytes limit flags cmethod bitmap 3 = Ok s3" "pdir_slots (pg_planes page) = [s0, s1, s2, s3]"
      "pg_page_number page = number" "pg_progress_start_ppm page \<le> pg_progress_end_ppm page" "pg_progress_end_ppm page \<le> 1000000"
    using assms by (auto simp: page_parse_def and_then_Ok_iff Let_def not_less split: if_splits)
  then show "pg_page_number page = number" "length (pdir_slots (pg_planes page)) = 4"
    "unat (pg_progress_start_ppm page) \<le> unat (pg_progress_end_ppm page)" "unat (pg_progress_end_ppm page) \<le> 1000000"
    by (simp_all add: word_le_nat_alt)
  assume "plane_get slot (pg_planes page) = Some plane"
  then have p: "plane_read bytes limit flags cmethod bitmap (PlaneSlot_index slot) = Ok (Some plane)"
    using s by (cases slot) (simp_all add: plane_get_def)
  have lt: "PlaneSlot_index slot < 4" by (cases slot) simp_all
  have "PlaneSlot_index (pd_slot plane) = PlaneSlot_index slot" by (rule plane_read_sound(1)[OF p lt])
  then have "pd_slot plane = slot" by (cases slot; cases "pd_slot plane") simp_all
  then show "pd_slot plane = slot \<and> 0 < unat (pd_length plane) \<and> unat (pd_offset plane) < 2 ^ 32 \<and>
      unat (pd_offset plane) + unat (pd_length plane) \<le> unat limit"
    using plane_read_sound(2-4)[OF p lt] by simp
qed

lemma chunk_parse_sound:
  assumes "chunk_parse bytes page_count limit = Ok chunk"
  shows "ck_page_number chunk < page_count" "ck_chunk_index chunk < 32" "0 < unat (ck_compressed_length chunk)"
    "unat (ck_offset chunk) < 2 ^ 32" "unat (ck_offset chunk) + unat (ck_compressed_length chunk) \<le> unat limit"
    "read_u32 bytes 0 = Ok (ck_page_number chunk)" "bytes ! 5 = ck_chunk_index chunk"
    "unat (bytes ! 4) = PlaneSlot_index (ck_plane_slot chunk)"
  using assms unat_u32_less
  by (auto simp: chunk_parse_def and_then_Ok_iff widened_end byte_at_Ok_iff PlaneSlot_try_from_def word_less_nat_alt not_less
      unat_gt_0 not_le split: if_splits)

lemma parse_nav_sound:
  assumes "parse_nav bytes number page_count string_length = Ok nav"
  shows "nv_number nav = number" "nv_page nav < page_count" "StringRef_validate string_length (nv_title nav) = Ok ()"
    "StringRef_validate string_length (nv_source_href nav) = Ok ()"
  using assms by (auto simp: parse_nav_def and_then_Ok_iff not_le split: if_splits)

lemma parse_chapter_sound:
  assumes "parse_chapter bytes number nav_count page_count string_length = Ok chapter"
  shows "ch_number chapter = number" "ch_nav chapter < nav_count" "ch_page chapter < page_count"
    "StringRef_validate string_length (ch_title chapter) = Ok ()" "ch_nav_type chapter \<in> {3, 4}"
  using assms by (auto simp: parse_chapter_def and_then_Ok_iff not_le split: if_splits)

lemma transition_parse_sound:
  assumes "transition_parse bytes page_count = Ok transition"
  shows "tr_from transition < page_count" "tr_to transition < page_count"
  using assms by (auto simp: transition_parse_def and_then_Ok_iff not_le split: if_splits)

end
