(* ===== verification/Book_Encode.thy ===== *)
theory Book_Encode
  imports Book_Records
begin

text \<open>
  The encoders of the file format (\<^verbatim>\<open>encode.rs\<close>, \<^verbatim>\<open>index_encode.rs\<close> and the one of
  \<^verbatim>\<open>font_resource.rs\<close>), and what the decoders of \<open>Book_Format\<close> and \<open>Book_Records\<close> make of what
  they write.  An encoder zeroes the record and then stores its fields one after the other, in the order of the code.
\<close>

datatype BookEncodeError = EncBufferTooSmall nat nat

type_synonym encoded = "(bytes, BookEncodeError) res"

subsection \<open>Fields\<close>

text \<open>A store is an offset and the bytes that \<open>copy_from_slice\<close> puts there.\<close>

type_synonym field_stores = "(nat \<times> bytes) list"

definition put_u8 :: "nat \<Rightarrow> u8 \<Rightarrow> field_stores" where
  "put_u8 offset value = [(offset, [value])]"

definition put_u16 :: "nat \<Rightarrow> u16 \<Rightarrow> field_stores" where
  "put_u16 offset value = [(offset, to_le 2 value)]"

definition put_u32 :: "nat \<Rightarrow> u32 \<Rightarrow> field_stores" where
  "put_u32 offset value = [(offset, to_le 4 value)]"

definition put_u64 :: "nat \<Rightarrow> u64 \<Rightarrow> field_stores" where
  "put_u64 offset value = [(offset, to_le 8 value)]"

definition put_bytes :: "nat \<Rightarrow> bytes \<Rightarrow> field_stores" where
  "put_bytes offset values = [(offset, values)]"

definition put_string_ref :: "nat \<Rightarrow> StringRef \<Rightarrow> field_stores" where
  "put_string_ref offset value = put_u32 offset (sr_offset value) @ put_u32 (offset + 4) (sr_length value)"

fun store_all :: "field_stores \<Rightarrow> bytes \<Rightarrow> encoded" where
  "store_all [] record = Ok record"
| "store_all ((offset, bytes) # rest) record = and_then (put record offset bytes) (store_all rest)"

text \<open>\<open>require(output, n)?\<close>, \<open>record.fill(0)\<close> and the stores into \<open>record\<close>.\<close>

definition encode_record :: "nat \<Rightarrow> field_stores list \<Rightarrow> bytes \<Rightarrow> encoded" where
  "encode_record required puts out =
    (if length out < required then Err (EncBufferTooSmall required (length out))
     else and_then (store_all (concat puts) (replicate required 0)) (\<lambda>record. Ok (record @ drop required out)))"

subsection \<open>The header and the section table\<close>

record FileHeader =
  fh_file_size :: u64
  fh_section_table_offset :: u64
  fh_section_table_length :: u32
  fh_section_count :: u16
  fh_page_data_offset :: u64
  fh_page_data_length :: u64
  fh_file_crc32 :: u32
  fh_header_crc32 :: u32
  fh_header_flags :: u16

definition FileHeader_encode :: "FileHeader \<Rightarrow> bytes \<Rightarrow> encoded" where
  "FileHeader_encode h = encode_record HEADER_SIZE
    [put_bytes 0 BOOK_MAGIC, put_u16 12 256, put_u16 14 (fh_header_flags h), put_u64 16 (fh_file_size h),
     put_u64 24 (fh_section_table_offset h), put_u32 32 (fh_section_table_length h), put_u16 36 40,
     put_u16 38 (fh_section_count h), put_u16 40 128, put_u16 42 48, put_u64 44 (fh_page_data_offset h),
     put_u64 52 (fh_page_data_length h), put_u32 60 (fh_file_crc32 h), put_u32 64 (fh_header_crc32 h)]"

definition SectionTableEntry_encode :: "Section \<Rightarrow> bytes \<Rightarrow> encoded" where
  "SectionTableEntry_encode s = encode_record ENTRY_SIZE
    [put_u16 0 (sx_id s), put_u16 2 (sx_flags s), put_u64 4 (sx_offset s), put_u64 12 (sx_length s),
     put_u32 20 (sx_entry_size s), put_u32 24 (sx_record_count s), put_u32 28 (sx_crc32 s)]"

subsection \<open>Index records\<close>

text \<open>The arrays of a plane directory have four elements.\<close>

record PlaneDirectoryRecord =
  pdr_bitmap :: u8
  pdr_compression :: "u8 list"
  pdr_offsets :: "u32 list"
  pdr_sizes :: "u32 list"

record PageIndexRecord =
  pi_page_number :: u32
  pi_page_kind :: u16
  pi_pixel_format :: u16
  pi_compression_method :: u16
  pi_update_hint :: u16
  pi_page_flags :: u32
  pi_page_crc32 :: u32
  pi_stored_width :: u16
  pi_stored_height :: u16
  pi_placement_x :: u16
  pi_placement_y :: u16
  pi_source_spine_index :: u32
  pi_chapter_nav_index :: u32
  pi_progress_start_ppm :: u32
  pi_progress_end_ppm :: u32
  pi_plane_directory :: PlaneDirectoryRecord

definition put_u32_array :: "nat \<Rightarrow> u32 list \<Rightarrow> field_stores" where
  "put_u32_array start values = concat (map (\<lambda>(index, value). put_u32 (start + index * 4) value) (enumerate 0 values))"

text \<open>The stores of the loops of the code are listed.\<close>

definition page_stores :: "PageIndexRecord \<Rightarrow> field_stores list" where
  "page_stores p =
    [put_u32 0 (pi_page_number p),
     put_u16 4 (pi_page_kind p), put_u16 6 (pi_pixel_format p), put_u16 8 (pi_compression_method p),
     put_u16 10 (pi_update_hint p), put_u16 20 (pi_stored_width p), put_u16 22 (pi_stored_height p),
     put_u16 24 (pi_placement_x p), put_u16 26 (pi_placement_y p),
     put_u32 12 (pi_page_flags p), put_u32 16 (pi_page_crc32 p), put_u32 28 (pi_source_spine_index p),
     put_u32 32 (pi_chapter_nav_index p), put_u32 36 (pi_progress_start_ppm p), put_u32 40 (pi_progress_end_ppm p),
     put_u8 44 (pdr_bitmap (pi_plane_directory p)), put_bytes 45 (pdr_compression (pi_plane_directory p)),
     put_u32_array 52 (pdr_offsets (pi_plane_directory p)), put_u32_array 68 (pdr_sizes (pi_plane_directory p))]"

definition PageIndexRecord_encode :: "PageIndexRecord \<Rightarrow> bytes \<Rightarrow> encoded" where
  "PageIndexRecord_encode p = encode_record PAGE_RECORD_SIZE (page_stores p)"

record NavIndexRecord =
  ni_nav_index :: u32
  ni_nav_type :: u16
  ni_level :: u16
  ni_title :: StringRef
  ni_source_href :: StringRef
  ni_source_spine_index :: u32
  ni_target_page_number :: u32
  ni_parent_nav_index :: u32
  ni_first_child_nav_index :: u32
  ni_next_sibling_nav_index :: u32
  ni_nav_flags :: u32

definition NavIndexRecord_encode :: "NavIndexRecord \<Rightarrow> bytes \<Rightarrow> encoded" where
  "NavIndexRecord_encode n = encode_record NAV_RECORD_SIZE
    [put_u32 0 (ni_nav_index n), put_u16 4 (ni_nav_type n), put_u16 6 (ni_level n), put_string_ref 8 (ni_title n),
     put_string_ref 16 (ni_source_href n), put_u32 24 (ni_source_spine_index n), put_u32 28 (ni_target_page_number n),
     put_u32 32 (ni_parent_nav_index n), put_u32 36 (ni_first_child_nav_index n),
     put_u32 40 (ni_next_sibling_nav_index n), put_u32 44 (ni_nav_flags n)]"

record ChapterIndexRecord =
  ci_chapter_index :: u32
  ci_nav_index :: u32
  ci_title :: StringRef
  ci_target_page_number :: u32
  ci_level :: u16
  ci_nav_type :: u16
  ci_source_spine_index :: u32
  ci_chapter_flags :: u32

definition ChapterIndexRecord_encode :: "ChapterIndexRecord \<Rightarrow> bytes \<Rightarrow> encoded" where
  "ChapterIndexRecord_encode c = encode_record CHAPTER_RECORD_SIZE
    [put_u32 0 (ci_chapter_index c), put_u32 4 (ci_nav_index c), put_string_ref 8 (ci_title c),
     put_u32 16 (ci_target_page_number c), put_u16 20 (ci_level c), put_u16 22 (ci_nav_type c),
     put_u32 24 (ci_source_spine_index c), put_u32 28 (ci_chapter_flags c)]"

record PageChunkIndexRecord =
  pc_page_number :: u32
  pc_plane_slot :: u8
  pc_chunk_index :: u8
  pc_row_start :: u16
  pc_row_count :: u16
  pc_page_data_offset :: u32
  pc_compressed_size :: u32
  pc_uncompressed_size :: u32

definition PageChunkIndexRecord_encode :: "PageChunkIndexRecord \<Rightarrow> bytes \<Rightarrow> encoded" where
  "PageChunkIndexRecord_encode c = encode_record CHUNK_RECORD_SIZE
    [put_u32 0 (pc_page_number c), put_u8 4 (pc_plane_slot c), put_u8 5 (pc_chunk_index c), put_u16 6 (pc_row_start c),
     put_u16 8 (pc_row_count c), put_u32 12 (pc_page_data_offset c), put_u32 16 (pc_compressed_size c),
     put_u32 20 (pc_uncompressed_size c)]"

record PageTransitionIndexRecord =
  pt_from_page_number :: u32
  pt_to_page_number :: u32
  pt_changed_chunk_mask :: u32
  pt_first_changed_chunk :: u16
  pt_changed_chunk_count :: u16
  pt_flags :: u16

definition PageTransitionIndexRecord_encode :: "PageTransitionIndexRecord \<Rightarrow> bytes \<Rightarrow> encoded" where
  "PageTransitionIndexRecord_encode t = encode_record TRANSITION_RECORD_SIZE
    [put_u32 0 (pt_from_page_number t), put_u32 4 (pt_to_page_number t), put_u32 8 (pt_changed_chunk_mask t),
     put_u16 12 (pt_first_changed_chunk t), put_u16 14 (pt_changed_chunk_count t), put_u16 16 (pt_flags t)]"

definition FontResource_encode :: "FontResourceIndexEntry \<Rightarrow> bytes \<Rightarrow> encoded" where
  "FontResource_encode f = encode_record FONT_RESOURCE_RECORD_SIZE
    [put_u32 0 (fr_font_index f), put_u16 4 (FontSourceKind_to_u16 (fr_source_kind f)), put_u16 6 (fr_flags f),
     put_u16 8 (fr_weight f), put_u16 10 (fr_stretch_milli f), put_u8 12 (FontStyle_to_u8 (fr_style f)),
     put_u32 16 (sr_offset (fr_family f)), put_u32 20 (sr_length (fr_family f)), put_u32 24 (sr_offset (fr_source_path f)),
     put_u32 28 (sr_length (fr_source_path f)), put_bytes 32 (fr_sha256 f), put_u32 64 (fr_face_index f)]"

subsection \<open>Reading what was written\<close>

text \<open>
  Stores that lie in the record and do not overlap (\<open>apart\<close>) are all read back, and what they leave out is
  zero: the round trips below look their fields up in the list of stores.
\<close>

definition beside :: "nat \<Rightarrow> nat \<Rightarrow> field_stores \<Rightarrow> bool" where
  "beside i n puts = list_all (\<lambda>(j, bs). i + n \<le> j \<or> j + length bs \<le> i) puts"

fun apart :: "nat \<Rightarrow> field_stores \<Rightarrow> bool" where
  "apart n [] = True"
| "apart n ((i, bs) # puts) = (i + length bs \<le> n \<and> beside i (length bs) puts \<and> apart n puts)"

lemma store_all_beside:
  "apart (length r0) puts \<Longrightarrow> beside i n puts \<Longrightarrow> i + n \<le> length r0 \<Longrightarrow>
   \<exists>r. store_all puts r0 = Ok r \<and> length r = length r0 \<and> subslice r i n = subslice r0 i n"
proof (induction puts arbitrary: r0)
  case (Cons p puts)
  obtain j bs where p: "p = (j, bs)" by (cases p)
  have len: "length (overwrite r0 j bs) = length r0" using Cons.prems(1) p by (simp add: length_overwrite)
  have "\<exists>r. store_all puts (overwrite r0 j bs) = Ok r \<and> length r = length r0 \<and>
      subslice r i n = subslice (overwrite r0 j bs) i n"
    using Cons.IH[of "overwrite r0 j bs"] Cons.prems p len by (simp add: beside_def)
  moreover have "subslice (overwrite r0 j bs) i n = subslice r0 i n"
    using Cons.prems p by (intro subslice_overwrite_other) (auto simp: beside_def)
  ultimately show ?case using Cons.prems(1) p by (auto simp: put_Ok)
qed simp

lemma store_all_stores:
  "apart (length r0) puts \<Longrightarrow>
   \<exists>r. store_all puts r0 = Ok r \<and> length r = length r0 \<and> (\<forall>(i, bs)\<in>set puts. subslice r i (length bs) = bs)"
proof (induction puts arbitrary: r0)
  case (Cons p puts)
  obtain j bs where p: "p = (j, bs)" by (cases p)
  let ?o = "overwrite r0 j bs"
  have len: "length ?o = length r0" using Cons.prems(1) p by (simp add: length_overwrite)
  obtain r where r: "store_all puts ?o = Ok r" "length r = length r0" "\<forall>(i, bs)\<in>set puts. subslice r i (length bs) = bs"
    using Cons.IH[of ?o] Cons.prems p len by auto
  have "subslice r j (length bs) = subslice ?o j (length bs)"
    using store_all_beside[of ?o puts j "length bs"] Cons.prems p len r(1) by auto
  also have "\<dots> = bs" using Cons.prems p by (intro subslice_overwrite_same) simp_all
  finally show ?case using r Cons.prems(1) p by (auto simp: put_Ok)
qed simp

lemma encode_record_total:
  assumes "apart n (concat puts)" and "n \<le> length out"
  shows "\<exists>result. encode_record n puts out = Ok result"
  using store_all_stores[of "replicate n 0" "concat puts"] assms by (auto simp: encode_record_def)

lemma encode_record_length: "encode_record n puts out = Ok result \<Longrightarrow> n \<le> length out"
  by (auto simp: encode_record_def split: if_splits)

lemma encode_record_stored:
  assumes e: "encode_record n puts out = Ok result" and a: "apart n (concat puts)"
  shows "n \<le> length result" "(i, bs) \<in> set (concat puts) \<Longrightarrow> subslice result i (length bs) = bs"
    "beside i m (concat puts) \<Longrightarrow> i + m \<le> n \<Longrightarrow> subslice result i m = replicate m 0"
proof -
  obtain r where r: "store_all (concat puts) (replicate n 0) = Ok r" "length r = n"
      "\<forall>(i, bs)\<in>set (concat puts). subslice r i (length bs) = bs"
    using store_all_stores[of "replicate n 0" "concat puts"] a by auto
  have result: "result = r @ drop n out" using e r(1) by (auto simp: encode_record_def split: if_splits)
  then show "n \<le> length result" using r(2) by simp
  have left: "i + m \<le> n \<Longrightarrow> subslice result i m = subslice r i m" for i m
    using r(2) by (simp add: result subslice_append_left)
  have within: "(i, bs) \<in> set puts \<Longrightarrow> apart n puts \<Longrightarrow> i + length bs \<le> n" for i bs puts
    by (induction puts) auto
  show "(i, bs) \<in> set (concat puts) \<Longrightarrow> subslice result i (length bs) = bs"
    using r(3) left[of i "length bs"] within[OF _ a] by fastforce
  assume "beside i m (concat puts)" "i + m \<le> n"
  then show "subslice result i m = replicate m 0"
    using store_all_beside[of "replicate n 0" "concat puts" i m] a r(1,2) left[of i m]
    by (auto simp: subslice_def)
qed

text \<open>What the readers of \<open>Book_Format\<close> return at the place of a store.\<close>

definition read_back :: "bytes \<Rightarrow> nat \<times> bytes \<Rightarrow> bool" where
  "read_back result s \<longleftrightarrow>
    (case s of (i, bs) \<Rightarrow>
      if length bs = 1 then byte_at result i = (Ok (bs ! 0) :: u8 format_res)
      else if length bs = 2 then read_u16 result i = Ok (of_le bs)
      else if length bs = 4 then read_u32 result i = Ok (of_le bs)
      else if length bs = 8 then read_u64 result i = Ok (of_le bs)
      else subslice result i (length bs) = bs)"

lemma read_back_intro:
  "subslice result i (length bs) = bs \<Longrightarrow> i + length bs \<le> length result \<Longrightarrow> read_back result (i, bs)"
proof -
  assume s: "subslice result i (length bs) = bs" "i + length bs \<le> length result"
  then have "length bs = 1 \<Longrightarrow> result ! i = bs ! 0"
    by (metis One_nat_def add.right_neutral lessI subslice_def nth_take nth_drop add_leD1 )
  then show ?thesis using s by (auto simp: read_back_def byte_at_def read_u16_def read_u32_def read_u64_def)
qed

lemma encode_record_reads:
  assumes "encode_record n puts out = Ok result" and "apart n (concat puts)"
  shows "\<forall>s\<in>set (concat puts). read_back result s"
proof
  fix s assume s: "s \<in> set (concat puts)"
  obtain i bs where p: "s = (i, bs)" by (cases s)
  have "(i, bs) \<in> set puts \<Longrightarrow> apart n puts \<Longrightarrow> i + length bs \<le> n" for puts
    by (induction puts) auto
  then have "i + length bs \<le> length result"
    using assms(2) s p encode_record_stored(1)[OF assms] by (metis le_trans)
  then show "read_back result s" using encode_record_stored(2)[OF assms] s p by (simp add: read_back_intro)
qed

lemmas put_defs = put_u8_def put_u16_def put_u32_def put_u64_def put_bytes_def put_string_ref_def put_u32_array_def

lemma length_BOOK_MAGIC: "length BOOK_MAGIC = 8"
  by (simp add: BOOK_MAGIC_def)

lemmas stores_simps = put_defs beside_def read_back_def of_le_to_le length_BOOK_MAGIC

lemma header_roundtrip:
  assumes e: "FileHeader_encode h out = Ok result"
  shows "header_parse result source_length =
    (if fh_file_size h \<noteq> 0 \<and> fh_file_size h > source_length then Err FileOutOfBounds
     else if fh_section_count h = 0 \<or> fh_section_table_offset h < 256 \<or>
       fh_section_table_length h < 40 * ucast (fh_section_count h)
     then Err InvalidHeader
     else Ok \<lparr>bh_file_length = (if fh_file_size h = 0 then source_length else fh_file_size h),
         bh_section_table_offset = fh_section_table_offset h, bh_section_table_length = fh_section_table_length h,
         bh_section_count = fh_section_count h, bh_page_data_offset = fh_page_data_offset h,
         bh_page_data_length = fh_page_data_length h\<rparr>)"
proof -
  note e = e[unfolded FileHeader_encode_def]
  note stored = encode_record_stored[OF e] and reads = encode_record_reads[OF e]
  have "take 8 result = BOOK_MAGIC" using stored(2)[of 0 BOOK_MAGIC] by (simp add: stores_simps subslice_prefix)
  moreover have "checked_mul (ucast (fh_section_count h) :: u32) 40 = Some (40 * ucast (fh_section_count h))"
    using unat_u16_less[of "fh_section_count h"] by (simp add: checked_mul_def unsigned_ucast_eq take_bit_nat_eq_self mult.commute)
  ultimately show ?thesis using reads stored(1) by (simp add: stores_simps header_parse_def Let_def)
qed

lemma section_roundtrip: "SectionTableEntry_encode s out = Ok result \<Longrightarrow> section_read result = Ok s"
  using encode_record_reads[of ENTRY_SIZE _ out result]
  by (fastforce simp: SectionTableEntry_encode_def stores_simps section_read_def)

definition string_in_table :: "u64 \<Rightarrow> StringRef \<Rightarrow> bool" where
  "string_in_table table_length r \<longleftrightarrow> sr_length r = 0 \<or> unat (sr_offset r) + unat (sr_length r) \<le> unat table_length"

lemma StringRef_validate_eq:
  "StringRef_validate n r = (if string_in_table n r then Ok () else Err InvalidStringRef)"
proof -
  have "StringRef_validate n r = Ok () \<or> StringRef_validate n r = Err InvalidStringRef"
    by (cases "checked_add (ucast (sr_offset r) :: u64) (ucast (sr_length r))") (simp_all add: StringRef_validate_def)
  then show ?thesis using StringRef_validate_Ok[of n r] by (auto simp: string_in_table_def)
qed

lemma StringRef_eta [simp]: "\<lparr>sr_offset = sr_offset r, sr_length = sr_length r\<rparr> = r"
  by simp

lemma nav_roundtrip:
  assumes e: "NavIndexRecord_encode n out = Ok result"
  shows "parse_nav result expected page_count string_length =
    (if ni_nav_index n \<noteq> expected \<or> page_count \<le> ni_target_page_number n then Err InvalidNavigation
     else if \<not> string_in_table string_length (ni_title n) \<or> \<not> string_in_table string_length (ni_source_href n)
     then Err InvalidStringRef
     else Ok \<lparr>nv_number = expected, nv_nav_type = ni_nav_type n, nv_level = ni_level n, nv_title = ni_title n,
         nv_source_href = ni_source_href n, nv_page = ni_target_page_number n\<rparr>)"
proof -
  note e = e[unfolded NavIndexRecord_encode_def]
  show ?thesis using encode_record_reads[OF e] encode_record_stored(1)[OF e]
    by (simp add: stores_simps parse_nav_def StringRef_parse_def StringRef_validate_eq)
qed

lemma chapter_roundtrip:
  assumes e: "ChapterIndexRecord_encode c out = Ok result"
  shows "parse_chapter result expected nav_count page_count string_length =
    (if ci_chapter_index c \<noteq> expected \<or> nav_count \<le> ci_nav_index c \<or> page_count \<le> ci_target_page_number c \<or>
       ci_nav_type c \<notin> {3, 4} then Err InvalidChapter
     else if \<not> string_in_table string_length (ci_title c) then Err InvalidStringRef
     else Ok \<lparr>ch_number = expected, ch_nav = ci_nav_index c, ch_title = ci_title c, ch_page = ci_target_page_number c,
         ch_level = ci_level c, ch_nav_type = ci_nav_type c\<rparr>)"
proof -
  note e = e[unfolded ChapterIndexRecord_encode_def]
  show ?thesis using encode_record_reads[OF e] encode_record_stored(1)[OF e]
    by (simp add: stores_simps parse_chapter_def StringRef_parse_def StringRef_validate_eq)
qed

lemma read_zero: "subslice result i 2 = replicate 2 0 \<Longrightarrow> i + 2 \<le> length result \<Longrightarrow> read_u16 result i = Ok 0"
  "subslice result i 4 = replicate 4 0 \<Longrightarrow> i + 4 \<le> length result \<Longrightarrow> read_u32 result i = Ok 0"
  by (simp_all add: read_u16_def read_u32_def numeral_eq_Suc)

lemma widened_add: "checked_add (ucast (a :: u32) :: u64) (ucast (b :: u32)) = Some (ucast a + ucast b)"
  using unat_u32_less[of a] unat_u32_less[of b] by (simp add: checked_add_def)

text \<open>A chunk index record that the encoder wrote is decoded exactly: every field comes back when the page and the chunk
  number are in range, the chunk is not empty, it lies inside the page data and its plane slot exists, and otherwise the
  decoder reports the chunk, or the plane slot, as invalid.\<close>

theorem chunk_roundtrip:
  assumes e: "PageChunkIndexRecord_encode c out = Ok result"
  shows "chunk_parse result page_count limit =
    (if page_count \<le> pc_page_number c \<or> 32 \<le> pc_chunk_index c \<or> pc_compressed_size c = 0 \<or>
       limit < ucast (pc_page_data_offset c) + ucast (pc_compressed_size c) then Err InvalidChunk
     else and_then (PlaneSlot_try_from (pc_plane_slot c)) (\<lambda>slot.
       Ok \<lparr>ck_page_number = pc_page_number c, ck_plane_slot = slot, ck_chunk_index = pc_chunk_index c,
           ck_row_start = pc_row_start c, ck_row_count = pc_row_count c, ck_offset = ucast (pc_page_data_offset c),
           ck_compressed_length = pc_compressed_size c, ck_uncompressed_length = pc_uncompressed_size c\<rparr>))"
proof -
  note e = e[unfolded PageChunkIndexRecord_encode_def]
  have "read_u16 result 10 = Ok 0"
    using encode_record_stored(1)[OF e] encode_record_stored(3)[OF e, of 10 2]
    by (intro read_zero) (simp_all add: stores_simps)
  then show ?thesis using encode_record_reads[OF e] encode_record_stored(1)[OF e]
    by (simp add: stores_simps chunk_parse_def widened_add)
qed

lemma chunk_roundtrip_witness:
  "\<exists>result. PageChunkIndexRecord_encode \<lparr>pc_page_number = 2, pc_plane_slot = 1, pc_chunk_index = 3, pc_row_start = 48,
      pc_row_count = 16, pc_page_data_offset = 400, pc_compressed_size = 90, pc_uncompressed_size = 1600\<rparr> (replicate 24 7) = Ok result \<and>
    chunk_parse result 3 490 = Ok \<lparr>ck_page_number = 2, ck_plane_slot = OverlayLsb, ck_chunk_index = 3, ck_row_start = 48,
      ck_row_count = 16, ck_offset = 400, ck_compressed_length = 90, ck_uncompressed_length = 1600\<rparr> \<and>
    chunk_parse result 3 489 = Err InvalidChunk"
  (is "\<exists>result. ?encode = Ok result \<and> _")
proof -
  have "\<exists>result. ?encode = Ok result"
    unfolding PageChunkIndexRecord_encode_def by (rule encode_record_total) (simp_all add: stores_simps)
  then obtain result where "?encode = Ok result" by blast
  then show ?thesis using chunk_roundtrip[of _ _ result 3 490] chunk_roundtrip[of _ _ result 3 489]
    by (auto simp: PlaneSlot_try_from_def)
qed

lemma transition_roundtrip:
  assumes e: "PageTransitionIndexRecord_encode t out = Ok result"
  shows "transition_parse result page_count =
    (if page_count \<le> pt_from_page_number t \<or> page_count \<le> pt_to_page_number t \<or> pt_flags t \<noteq> 0 \<or>
       (pt_changed_chunk_mask t = 0 \<and> (pt_first_changed_chunk t \<noteq> 0 \<or> pt_changed_chunk_count t \<noteq> 0))
     then Err InvalidTransition
     else Ok \<lparr>tr_from = pt_from_page_number t, tr_to = pt_to_page_number t,
         tr_changed_chunk_mask = pt_changed_chunk_mask t, tr_first_changed_chunk = pt_first_changed_chunk t,
         tr_changed_chunk_count = pt_changed_chunk_count t, tr_flags = pt_flags t\<rparr>)"
proof -
  note e = e[unfolded PageTransitionIndexRecord_encode_def]
  have "read_u16 result 18 = Ok 0" "read_u32 result 20 = Ok 0"
    using encode_record_stored(1)[OF e] encode_record_stored(3)[OF e, of 18 2] encode_record_stored(3)[OF e, of 20 4]
    by (auto intro!: read_zero simp: stores_simps)
  then show ?thesis using encode_record_reads[OF e] encode_record_stored(1)[OF e]
    by (simp add: stores_simps transition_parse_def)
qed

lemma nth_zero: "subslice result i (Suc 0) = [0] \<Longrightarrow> i < length result \<Longrightarrow> result ! i = 0"
  by (simp add: subslice_Suc0)

lemma font_roundtrip:
  assumes e: "FontResource_encode f out = Ok result" and sha: "length (fr_sha256 f) = 32"
  shows "font_parse result expected string_length =
    (if fr_font_index f \<noteq> expected \<or> fr_flags f AND NOT KNOWN_FLAGS \<noteq> 0 then Err InvalidFontResource
     else if \<not> string_in_table string_length (fr_family f) \<or> \<not> string_in_table string_length (fr_source_path f)
     then Err InvalidStringRef
     else Ok f)"
proof -
  note e = e[unfolded FontResource_encode_def]
  have len: "80 \<le> length result" using encode_record_stored(1)[OF e] sha by (simp add: stores_simps)
  have zero: "result ! 13 = 0" "subslice result 14 2 = [0, 0]" "subslice result 68 12 = replicate 12 0"
    using encode_record_stored(3)[OF e, of 13 1] encode_record_stored(3)[OF e, of 14 2] encode_record_stored(3)[OF e, of 68 12]
      nth_zero[of result 13] len sha by (simp_all add: stores_simps numeral_eq_Suc)
  have reads: "byte_at result 12 = (Ok (FontStyle_to_u8 (fr_style f)) :: u8 format_res)" "subslice result 32 32 = fr_sha256 f"
    "read_u32 result 0 = Ok (fr_font_index f)" "read_u16 result 4 = Ok (FontSourceKind_to_u16 (fr_source_kind f))"
    "read_u16 result 6 = Ok (fr_flags f)" "read_u16 result 8 = Ok (fr_weight f)" "read_u16 result 10 = Ok (fr_stretch_milli f)"
    "read_u32 result 16 = Ok (sr_offset (fr_family f))" "read_u32 result 20 = Ok (sr_length (fr_family f))"
    "read_u32 result 24 = Ok (sr_offset (fr_source_path f))" "read_u32 result 28 = Ok (sr_length (fr_source_path f))"
    "read_u32 result 64 = Ok (fr_face_index f)"
    using encode_record_reads[OF e] sha by (simp_all add: stores_simps)
  have short: "read_u16 (take 80 result) i = read_u16 result i" if "i + 2 \<le> 80" for i
    using that len by (simp add: read_u16_def subslice_take)
  have short4: "read_u32 (take 80 result) i = read_u32 result i" if "i + 4 \<le> 80" for i
    using that len by (simp add: read_u32_def subslice_take)
  have "FontSourceKind_try_from (FontSourceKind_to_u16 k) = Ok k" "FontStyle_try_from (FontStyle_to_u8 s) = Ok s" for k s
    by (cases k; simp add: FontSourceKind_try_from_def) (cases s; simp add: FontStyle_try_from_def)
  moreover have "result ! 12 = FontStyle_to_u8 (fr_style f)" using reads(1) by (simp add: byte_at_Ok_iff)
  ultimately show ?thesis using zero reads len
    by (simp add: font_parse_def Let_def short short4 subslice_take StringRef_parse_def StringRef_validate_eq list_ex_iff)
qed

text \<open>The page record: the plane of a slot, as the fields of the record determine it.\<close>

definition record_method :: "PageIndexRecord \<Rightarrow> CompressionMethod \<Rightarrow> nat \<Rightarrow> CompressionMethod format_res" where
  "record_method p default_method index =
    (if pi_page_flags p AND 1 = 0 then Ok default_method
     else CompressionMethod_try_from_u8 (pdr_compression (pi_plane_directory p) ! index))"

definition record_plane :: "PageIndexRecord \<Rightarrow> CompressionMethod \<Rightarrow> PlaneSlot \<Rightarrow> PlaneDescriptor option" where
  "record_plane p default_method slot =
    (let d = pi_plane_directory p; index = PlaneSlot_index slot in
     if bit (pdr_bitmap d) index then
       case record_method p default_method index of
         Ok cmethod \<Rightarrow> Some \<lparr>pd_slot = slot, pd_compression = cmethod, pd_offset = ucast (pdr_offsets d ! index),
             pd_length = pdr_sizes d ! index\<rparr>
       | _ \<Rightarrow> None
     else None)"

definition record_plane_ok :: "PageIndexRecord \<Rightarrow> u64 \<Rightarrow> nat \<Rightarrow> bool" where
  "record_plane_ok p limit index =
    (let d = pi_plane_directory p in
     bit (pdr_bitmap d) index \<longrightarrow>
       pdr_sizes d ! index \<noteq> 0 \<and> unat (pdr_offsets d ! index) + unat (pdr_sizes d ! index) \<le> unat limit \<and>
       (pi_page_flags p AND 1 = 0 \<or> pdr_compression (pi_plane_directory p) ! index \<in> {0, 1, 2}))"

lemma widened_le:
  "unat a + unat b \<le> unat limit \<Longrightarrow> \<not> limit < ucast (a :: u32) + ucast (b :: u32)" for limit :: u64
  using unat_u32_less[of a] unat_u32_less[of b] by (simp add: word_less_nat_alt unat_add_small not_less)

lemma list_of_4: "length xs = 4 \<Longrightarrow> xs = [xs ! 0, xs ! 1, xs ! 2, xs ! 3]"
  by (cases xs; cases "tl xs"; cases "tl (tl xs)"; cases "tl (tl (tl xs))") (auto simp: numeral_eq_Suc)

definition directory_record_ok :: "PlaneDirectoryRecord \<Rightarrow> bool" where
  "directory_record_ok d \<longleftrightarrow> length (pdr_compression d) = 4 \<and> length (pdr_offsets d) = 4 \<and> length (pdr_sizes d) = 4"

lemma page_stores_apart:
  assumes "directory_record_ok (pi_plane_directory p)"
  shows "apart 128 (concat (page_stores p))"
proof -
  obtain o0 o1 o2 o3 s0 s1 s2 s3 where "pdr_offsets (pi_plane_directory p) = [o0, o1, o2, o3]"
      "pdr_sizes (pi_plane_directory p) = [s0, s1, s2, s3]" "length (pdr_compression (pi_plane_directory p)) = 4"
    using assms list_of_4 by (metis directory_record_ok_def)
  then show ?thesis by (simp add: page_stores_def stores_simps)
qed

lemma page_reads:
  assumes enc: "PageIndexRecord_encode p out = Ok result" and d: "directory_record_ok (pi_plane_directory p)"
  shows "128 \<le> length result" "read_u32 result 0 = Ok (pi_page_number p)" "read_u16 result 4 = Ok (pi_page_kind p)"
    "read_u16 result 6 = Ok (pi_pixel_format p)" "read_u16 result 8 = Ok (pi_compression_method p)"
    "read_u16 result 10 = Ok (pi_update_hint p)" "read_u16 result 20 = Ok (pi_stored_width p)"
    "read_u16 result 22 = Ok (pi_stored_height p)" "read_u16 result 24 = Ok (pi_placement_x p)"
    "read_u16 result 26 = Ok (pi_placement_y p)" "read_u32 result 12 = Ok (pi_page_flags p)"
    "read_u32 result 16 = Ok (pi_page_crc32 p)" "read_u32 result 36 = Ok (pi_progress_start_ppm p)"
    "read_u32 result 40 = Ok (pi_progress_end_ppm p)"
    "byte_at result 44 = (Ok (pdr_bitmap (pi_plane_directory p)) :: u8 format_res)"
    "i < 4 \<Longrightarrow> byte_at result (45 + i) = (Ok (pdr_compression (pi_plane_directory p) ! i) :: u8 format_res)"
    "i < 4 \<Longrightarrow> read_u32 result (52 + i * 4) = Ok (pdr_offsets (pi_plane_directory p) ! i)"
    "i < 4 \<Longrightarrow> read_u32 result (68 + i * 4) = Ok (pdr_sizes (pi_plane_directory p) ! i)"
proof -
  have e: "encode_record 128 (page_stores p) out = Ok result" using enc by (simp add: PageIndexRecord_encode_def)
  note reads = encode_record_reads[OF e page_stores_apart[OF d]] and stored = encode_record_stored[OF e page_stores_apart[OF d]]
  show len: "128 \<le> length result" by (rule stored(1))
  show "read_u32 result 0 = Ok (pi_page_number p)" "read_u16 result 4 = Ok (pi_page_kind p)"
    "read_u16 result 6 = Ok (pi_pixel_format p)" "read_u16 result 8 = Ok (pi_compression_method p)"
    "read_u16 result 10 = Ok (pi_update_hint p)" "read_u16 result 20 = Ok (pi_stored_width p)"
    "read_u16 result 22 = Ok (pi_stored_height p)" "read_u16 result 24 = Ok (pi_placement_x p)"
    "read_u16 result 26 = Ok (pi_placement_y p)" "read_u32 result 12 = Ok (pi_page_flags p)"
    "read_u32 result 16 = Ok (pi_page_crc32 p)" "read_u32 result 36 = Ok (pi_progress_start_ppm p)"
    "read_u32 result 40 = Ok (pi_progress_end_ppm p)"
    "byte_at result 44 = (Ok (pdr_bitmap (pi_plane_directory p)) :: u8 format_res)"
    using reads by (simp_all add: page_stores_def stores_simps)
  obtain o0 o1 o2 o3 s0 s1 s2 s3 where arrays: "pdr_offsets (pi_plane_directory p) = [o0, o1, o2, o3]"
      "pdr_sizes (pi_plane_directory p) = [s0, s1, s2, s3]"
    using d list_of_4 by (metis directory_record_ok_def)
  have cmethod: "subslice result 45 4 = pdr_compression (pi_plane_directory p)"
    using stored(2)[of 45 "pdr_compression (pi_plane_directory p)"] d
    by (simp add: page_stores_def put_defs directory_record_ok_def)
  assume i: "i < 4"
  then have "result ! (45 + i) = subslice result 45 4 ! i" using len by (simp add: subslice_def)
  then show "byte_at result (45 + i) = (Ok (pdr_compression (pi_plane_directory p) ! i) :: u8 format_res)"
    using cmethod i len by (simp add: byte_at_def)
  have "i = 0 \<or> i = 1 \<or> i = 2 \<or> i = 3" using i by auto
  then show "read_u32 result (52 + i * 4) = Ok (pdr_offsets (pi_plane_directory p) ! i)"
    "read_u32 result (68 + i * 4) = Ok (pdr_sizes (pi_plane_directory p) ! i)"
    using reads by (auto simp: page_stores_def stores_simps arrays)
qed

lemma plane_back:
  assumes enc: "PageIndexRecord_encode p out = Ok result" and d: "directory_record_ok (pi_plane_directory p)"
    and ok: "record_plane_ok p limit (PlaneSlot_index slot)"
  shows "plane_read result limit (pi_page_flags p) cmethod (pdr_bitmap (pi_plane_directory p)) (PlaneSlot_index slot) =
    Ok (record_plane p cmethod slot)"
proof -
  let ?i = "PlaneSlot_index slot"
  have i: "?i < 4" "?i < 8" by (cases slot; simp)+
  have slot: "PlaneSlot_try_from (of_nat ?i) = Ok slot" by (cases slot) (simp_all add: PlaneSlot_try_from_def)
  note reads = page_reads(16-18)[OF enc d i(1)]
  have compression: "\<exists>m. record_method p cmethod ?i = Ok m" if "bit (pdr_bitmap (pi_plane_directory p)) ?i"
    using ok that by (auto simp: record_plane_ok_def record_method_def CompressionMethod_try_from_u8_def
        CompressionMethod_try_from_def Let_def)
  show ?thesis
  proof (cases "bit (pdr_bitmap (pi_plane_directory p)) ?i")
    case True
    then obtain m where "record_method p cmethod ?i = Ok m" using compression by blast
    then show ?thesis using True ok slot reads i
      by (simp add: plane_read_def and_exp_eq_0_iff_not_bit record_plane_def record_plane_ok_def record_method_def widened_add widened_le Let_def split: if_splits)
  next
    case False
    then show ?thesis using i by (simp add: plane_read_def and_exp_eq_0_iff_not_bit record_plane_def Let_def)
  qed
qed

text \<open>C40: A page index record that the encoder wrote is parsed back field by field: when its format, compression cmethod,
  progress and every plane its bitmap names are in range (non-empty, inside the page data, known compression), the
  decoder returns the page with exactly those planes, in any buffer that is long enough.\<close>

theorem page_record_roundtrip:
  assumes enc: "PageIndexRecord_encode p out = Ok result" and d: "directory_record_ok (pi_plane_directory p)"
    and planes: "list_all (record_plane_ok p limit) [0..<4]" and bitmap: "pdr_bitmap (pi_plane_directory p) AND NOT 0x0f = 0"
    and kinds: "CompressionMethod_try_from (pi_compression_method p) = Ok cmethod" "PixelFormat_try_from (pi_pixel_format p) = Ok format"
    and progress: "pi_progress_start_ppm p \<le> pi_progress_end_ppm p" "pi_progress_end_ppm p \<le> 1000000"
  shows "page_parse result (pi_page_number p) limit =
    Ok \<lparr>pg_page_number = pi_page_number p, pg_page_kind = pi_page_kind p, pg_pixel_format = format,
        pg_compression_method = cmethod, pg_update_hint = pi_update_hint p, pg_page_flags = pi_page_flags p,
        pg_page_crc32 = pi_page_crc32 p, pg_stored_width = pi_stored_width p, pg_stored_height = pi_stored_height p,
        pg_placement_x = pi_placement_x p, pg_placement_y = pi_placement_y p,
        pg_progress_start_ppm = pi_progress_start_ppm p, pg_progress_end_ppm = pi_progress_end_ppm p,
        pg_planes = \<lparr>pdir_bitmap = pdr_bitmap (pi_plane_directory p),
          pdir_slots = map (record_plane p cmethod) [OverlayMsb, OverlayLsb, FastBase, Reserved]\<rparr>\<rparr>"
proof -
  have ok: "record_plane_ok p limit 0" "record_plane_ok p limit 1" "record_plane_ok p limit 2" "record_plane_ok p limit 3"
    using planes by (simp_all add: numeral_eq_Suc)
  note slots = plane_back[OF enc d, of limit OverlayMsb cmethod, simplified PlaneSlot_index.simps, OF ok(1)]
    plane_back[OF enc d, of limit OverlayLsb cmethod, simplified PlaneSlot_index.simps, OF ok(2)]
    plane_back[OF enc d, of limit FastBase cmethod, simplified PlaneSlot_index.simps, OF ok(3)]
    plane_back[OF enc d, of limit Reserved cmethod, simplified PlaneSlot_index.simps, OF ok(4)]
  show ?thesis using page_reads(1-15)[OF enc d] slots kinds progress bitmap
    by (simp add: page_parse_def Let_def not_le not_less)
qed

definition sample_page_record :: PageIndexRecord where
  "sample_page_record =
    \<lparr>pi_page_number = 7, pi_page_kind = 1, pi_pixel_format = 2, pi_compression_method = 1, pi_update_hint = 0,
     pi_page_flags = 1, pi_page_crc32 = 9, pi_stored_width = 800, pi_stored_height = 480, pi_placement_x = 0,
     pi_placement_y = 0, pi_source_spine_index = 0, pi_chapter_nav_index = 0, pi_progress_start_ppm = 10,
     pi_progress_end_ppm = 20,
     pi_plane_directory = \<lparr>pdr_bitmap = 7, pdr_compression = [0, 1, 2, 0], pdr_offsets = [0, 100, 200, 0],
       pdr_sizes = [100, 100, 50, 0]\<rparr>\<rparr>"

lemma page_record_roundtrip_witness:
  "\<exists>result page. PageIndexRecord_encode sample_page_record (replicate 130 5) = Ok result \<and>
    page_parse result 7 250 = Ok page \<and> plane_get FastBase (pg_planes page) =
      Some \<lparr>pd_slot = FastBase, pd_compression = Lz4, pd_offset = 200, pd_length = 50\<rparr>"
proof -
  have d: "directory_record_ok (pi_plane_directory sample_page_record)" by (simp add: directory_record_ok_def sample_page_record_def)
  have "\<exists>result. PageIndexRecord_encode sample_page_record (replicate 130 5) = Ok result"
    unfolding PageIndexRecord_encode_def by (rule encode_record_total) (simp_all add: page_stores_apart[OF d])
  then obtain result where r: "PageIndexRecord_encode sample_page_record (replicate 130 5) = Ok result" by blast
  have "list_all (record_plane_ok sample_page_record 250) [0..<4]" by code_simp
  note page_record_roundtrip[OF r d this, of RlePackBits Gray2Packed]
  then show ?thesis using r
    by (simp add: sample_page_record_def CompressionMethod_try_from_def PixelFormat_try_from_def plane_get_def record_plane_def
        record_method_def CompressionMethod_try_from_u8_def)
qed

subsection \<open>The section table\<close>

text \<open>The bytes that an encoder leaves in a zeroed buffer of \<open>n\<close> bytes.\<close>

definition encoded_bytes :: "encoded \<Rightarrow> bytes" where
  "encoded_bytes r = (case r of Ok bytes \<Rightarrow> bytes | _ \<Rightarrow> [])"

definition section_bytes :: "Section \<Rightarrow> bytes" where
  "section_bytes s = encoded_bytes (SectionTableEntry_encode s (replicate ENTRY_SIZE 0))"

lemma section_bytes_encoded: "SectionTableEntry_encode s (replicate ENTRY_SIZE 0) = Ok (section_bytes s)"
proof -
  have "\<exists>r. SectionTableEntry_encode s (replicate ENTRY_SIZE 0) = Ok r"
    unfolding SectionTableEntry_encode_def by (rule encode_record_total) (simp_all add: stores_simps)
  then show ?thesis by (auto simp: section_bytes_def encoded_bytes_def)
qed

lemma encode_record_length_eq:
  "encode_record n puts out = Ok result \<Longrightarrow> apart n (concat puts) \<Longrightarrow> length result = length out"
  using store_all_stores[of "replicate n 0" "concat puts"] by (auto simp: encode_record_def split: if_splits)

lemma section_bytes_laws [simp]: "length (section_bytes s) = 40" "section_read (section_bytes s) = Ok s"
proof -
  show "section_read (section_bytes s) = Ok s" by (rule section_roundtrip[OF section_bytes_encoded])
  show "length (section_bytes s) = 40"
    using section_bytes_encoded[of s] unfolding SectionTableEntry_encode_def
    by (drule_tac encode_record_length_eq) (simp_all add: stores_simps)
qed

lemma subslice_blocks:
  "(\<And>x. length (f x) = n) \<Longrightarrow> k < length xs \<Longrightarrow> subslice (concat (map f xs)) (k * n) n = f (xs ! k)"
proof (induction xs arbitrary: k)
  case (Cons x xs)
  show ?case
  proof (cases k)
    case 0
    then show ?thesis using Cons.prems by (simp add: subslice_def)
  next
    case (Suc j)
    then show ?thesis using Cons by (simp add: subslice_append_right)
  qed
qed simp

lemma length_blocks: "(\<And>x. length (f x) = n) \<Longrightarrow> length (concat (map f xs)) = length xs * n"
  by (induction xs) simp_all

lemma unat_u64_less: "unat (w :: u64) < 18446744073709551616"
  by (rule order_less_le_trans[OF unsigned_less]) simp

lemma section_check_complete: "section_in_file header s \<Longrightarrow> section_check header s = Ok ()"
proof -
  assume s: "section_in_file header s"
  have lt: "unat (sx_offset s) + unat (sx_length s) < 2 ^ 64"
    using s unat_u64_less[of "bh_file_length header"] by (simp add: section_in_file_def)
  have "unat (sx_entry_size s) * unat (sx_record_count s) < 2 ^ 64"
    using s unat_u64_less[of "sx_length s"] by (simp add: section_in_file_def)
  then have "checked_mul (ucast (sx_entry_size s) :: u64) (ucast (sx_record_count s)) = Some (ucast (sx_entry_size s) * ucast (sx_record_count s))"
    "unat (ucast (sx_entry_size s) * ucast (sx_record_count s) :: u64) = unat (sx_entry_size s) * unat (sx_record_count s)"
    by (simp_all add: checked_mul_def unat_word_ariths)
  then show ?thesis using s lt
    by (simp add: section_check_def section_in_file_def checked_add_def unat_add_small word_less_nat_alt)
qed

lemma all_below_19: "(\<forall>k<19. P k) \<longleftrightarrow> (\<forall>k\<in>set [0..<19]. P k)"
  by auto

lemma required_slot_REQUIRED: "k < 19 \<Longrightarrow> required_slot (REQUIRED ! k) = Some k"
proof -
  have "\<forall>k\<in>set [0..<19]. required_slot (REQUIRED ! k) = Some k" by (simp add: upt_conv_Cons REQUIRED_def required_slot_def)
  then show "k < 19 \<Longrightarrow> required_slot (REQUIRED ! k) = Some k" by simp
qed

lemma section_loop_table:
  assumes len: "length es = 19" and ids: "\<forall>k<19. sx_id (es ! k) = REQUIRED ! k \<and> section_in_file header (es ! k)"
  shows "k + n = 19 \<Longrightarrow> section_loop n k (concat (map section_bytes es)) header (take k es @ replicate n Section_EMPTY) = Ok es"
proof (induction n arbitrary: k)
  case 0
  then show ?case using len by simp
next
  case (Suc n)
  have k: "k < 19" "k < length es" using Suc.prems len by simp_all
  have "k * 40 + 40 \<le> length (concat (map section_bytes es))" using k by (simp add: length_blocks[where n = 40])
  moreover have "subslice (concat (map section_bytes es)) (k * 40) 40 = section_bytes (es ! k)"
    by (rule subslice_blocks) (simp_all add: k)
  moreover have "section_check header (es ! k) = Ok ()" "required_slot (sx_id (es ! k)) = Some k"
    using ids k by (simp_all add: section_check_complete required_slot_REQUIRED)
  moreover have "(take k es @ replicate (Suc n) Section_EMPTY) ! k = Section_EMPTY" using k by (simp add: nth_append)
  moreover have "(take k es @ replicate (Suc n) Section_EMPTY)[k := es ! k] = take (Suc k) es @ replicate n Section_EMPTY"
    using k by (simp add: list_update_append take_Suc_conv_app_nth)
  ultimately show ?case using Suc.IH[of "Suc k"] Suc.prems by (simp add: Section_EMPTY_def Let_def)
qed

lemma directory_roundtrip:
  assumes d: "directory_ok header es" and count: "bh_section_count header = 19"
    and plain: "sx_entry_size (es ! 18) = 0" "sx_record_count (es ! 18) = 0"
  shows "directory_parse (concat (map section_bytes es)) header = Ok es"
proof -
  have "section_loop 19 0 (concat (map section_bytes es)) header (replicate 19 Section_EMPTY) = Ok es"
    using section_loop_table[of es header 0 19] d by (simp add: directory_ok_def)
  moreover have "require_sections (enumerate 0 REQUIRED) es = Ok ()"
    using d by (simp add: require_sections_Ok[of 0, simplified] directory_ok_def)
  ultimately show ?thesis using d count plain by (simp add: directory_parse_def directory_ok_def validate_record_section_def Let_def)
qed

end
