(* ===== verification/Book_Sample.thy ===== *)
theory Book_Sample
  imports Book_Encode Crc32
begin

text \<open>
  A small book: two pages that show the same four bytes, each with one plane and one chunk, a navigation entry and a
  chapter, both with the title \<open>Ab\<close>.  The witnesses of the reader and of the validator use it.
\<close>

definition sample_page_bytes :: bytes where
  "sample_page_bytes = [1, 2, 3, 4]"

definition sample_section :: "nat \<Rightarrow> u64 \<Rightarrow> u64 \<Rightarrow> u32 \<Rightarrow> u32 \<Rightarrow> u32 \<Rightarrow> Section" where
  "sample_section k offset len entry_size record_count crc =
    \<lparr>sx_id = REQUIRED ! k, sx_flags = 0, sx_offset = offset, sx_length = len, sx_entry_size = entry_size,
     sx_record_count = record_count, sx_crc32 = crc\<rparr>"

text \<open>The header takes 256 bytes, the section table 760, and the parts of the body follow one another from 1016.\<close>

definition sample_sections :: "Section list" where
  "sample_sections =
    [sample_section 0 1016 2 0 0 0, sample_section 1 1018 56 0 0 0, sample_section 2 0 0 0 0 0,
     sample_section 3 1074 16 0 0 0, sample_section 4 0 0 0 0 0, sample_section 5 1090 56 0 0 0,
     sample_section 6 0 0 0 0 0, sample_section 7 0 0 0 0 0, sample_section 8 0 0 0 0 0, sample_section 9 0 0 0 0 0,
     sample_section 10 0 0 0 0 0, sample_section 11 0 0 0 0 0, sample_section 12 0 0 80 0 0,
     sample_section 13 1146 256 128 2 0, sample_section 14 1402 48 48 1 0, sample_section 15 1450 32 32 1 0,
     sample_section 16 1482 48 24 2 0, sample_section 17 0 0 24 0 0, sample_section 18 1530 4 0 0 (iso_hdlc sample_page_bytes)]"

definition sample_file_header :: FileHeader where
  "sample_file_header =
    \<lparr>fh_file_size = 1534, fh_section_table_offset = 256, fh_section_table_length = 760, fh_section_count = 19,
     fh_page_data_offset = 1530, fh_page_data_length = 4, fh_file_crc32 = 0, fh_header_crc32 = 0, fh_header_flags = 0\<rparr>"

definition sample_book_header :: Header where
  "sample_book_header =
    \<lparr>bh_file_length = 1534, bh_section_table_offset = 256, bh_section_table_length = 760, bh_section_count = 19,
     bh_page_data_offset = 1530, bh_page_data_length = 4\<rparr>"

definition sample_title :: StringRef where "sample_title = \<lparr>sr_offset = 0, sr_length = 2\<rparr>"
definition no_string :: StringRef where "no_string = \<lparr>sr_offset = 0, sr_length = 0\<rparr>"

definition sample_page :: "u32 \<Rightarrow> PageIndexRecord" where
  "sample_page n =
    \<lparr>pi_page_number = n, pi_page_kind = 1, pi_pixel_format = 1, pi_compression_method = 0, pi_update_hint = 0, pi_page_flags = 0,
     pi_page_crc32 = iso_hdlc sample_page_bytes, pi_stored_width = 8, pi_stored_height = 4, pi_placement_x = 0, pi_placement_y = 0,
     pi_source_spine_index = 0, pi_chapter_nav_index = 0, pi_progress_start_ppm = n * 500000,
     pi_progress_end_ppm = (n + 1) * 500000,
     pi_plane_directory = \<lparr>pdr_bitmap = 4, pdr_compression = [0, 0, 0, 0], pdr_offsets = [0, 0, 0, 0], pdr_sizes = [0, 0, 4, 0]\<rparr>\<rparr>"

definition sample_nav :: NavIndexRecord where
  "sample_nav =
    \<lparr>ni_nav_index = 0, ni_nav_type = 3, ni_level = 0, ni_title = sample_title, ni_source_href = no_string,
     ni_source_spine_index = 0, ni_target_page_number = 0, ni_parent_nav_index = - 1, ni_first_child_nav_index = - 1,
     ni_next_sibling_nav_index = - 1, ni_nav_flags = 0\<rparr>"

definition sample_chapter :: ChapterIndexRecord where
  "sample_chapter =
    \<lparr>ci_chapter_index = 0, ci_nav_index = 0, ci_title = sample_title, ci_target_page_number = 0, ci_level = 0,
     ci_nav_type = 3, ci_source_spine_index = 0, ci_chapter_flags = 0\<rparr>"

definition sample_chunk :: "u32 \<Rightarrow> PageChunkIndexRecord" where
  "sample_chunk n =
    \<lparr>pc_page_number = n, pc_plane_slot = 2, pc_chunk_index = 0, pc_row_start = 0, pc_row_count = 4,
     pc_page_data_offset = 0, pc_compressed_size = 4, pc_uncompressed_size = 4\<rparr>"

definition sample_profile :: bytes where
  "sample_profile = replicate 24 0 @ [8, 0, 4, 0] @ replicate 28 0"

definition sample_parts :: "bytes list" where
  "sample_parts =
    [encoded_bytes (FileHeader_encode sample_file_header (replicate 256 0)), concat (map section_bytes sample_sections),
     [0x41, 0x62], sample_profile, replicate 16 0, replicate 56 0,
     encoded_bytes (PageIndexRecord_encode (sample_page 0) (replicate 128 0)),
     encoded_bytes (PageIndexRecord_encode (sample_page 1) (replicate 128 0)),
     encoded_bytes (NavIndexRecord_encode sample_nav (replicate 48 0)),
     encoded_bytes (ChapterIndexRecord_encode sample_chapter (replicate 32 0)),
     encoded_bytes (PageChunkIndexRecord_encode (sample_chunk 0) (replicate 24 0)),
     encoded_bytes (PageChunkIndexRecord_encode (sample_chunk 1) (replicate 24 0)), sample_page_bytes]"

definition sample_file :: bytes where
  "sample_file = concat sample_parts"

lemma encode_record_encoded:
  assumes "apart n (concat puts)"
  shows "encode_record n puts (replicate n 0) = Ok (encoded_bytes (encode_record n puts (replicate n 0)))"
    "length (encoded_bytes (encode_record n puts (replicate n 0))) = n"
proof -
  obtain r where "encode_record n puts (replicate n 0) = Ok r" using encode_record_total[OF assms, of "replicate n 0"] by auto
  then show "encode_record n puts (replicate n 0) = Ok (encoded_bytes (encode_record n puts (replicate n 0)))"
    "length (encoded_bytes (encode_record n puts (replicate n 0))) = n"
    using encode_record_length_eq[OF _ assms] by (auto simp: encoded_bytes_def)
qed

lemma sample_encoded:
  "FileHeader_encode sample_file_header (replicate 256 0) = Ok (sample_parts ! 0)" "length (sample_parts ! 0) = 256"
  "PageIndexRecord_encode (sample_page 0) (replicate 128 0) = Ok (sample_parts ! 6)" "length (sample_parts ! 6) = 128"
  "PageIndexRecord_encode (sample_page 1) (replicate 128 0) = Ok (sample_parts ! 7)" "length (sample_parts ! 7) = 128"
  "NavIndexRecord_encode sample_nav (replicate 48 0) = Ok (sample_parts ! 8)" "length (sample_parts ! 8) = 48"
  "ChapterIndexRecord_encode sample_chapter (replicate 32 0) = Ok (sample_parts ! 9)" "length (sample_parts ! 9) = 32"
  "PageChunkIndexRecord_encode (sample_chunk 0) (replicate 24 0) = Ok (sample_parts ! 10)" "length (sample_parts ! 10) = 24"
  "PageChunkIndexRecord_encode (sample_chunk 1) (replicate 24 0) = Ok (sample_parts ! 11)" "length (sample_parts ! 11) = 24"
proof -
  show "FileHeader_encode sample_file_header (replicate 256 0) = Ok (sample_parts ! 0)" "length (sample_parts ! 0) = 256"
    unfolding sample_parts_def FileHeader_encode_def using encode_record_encoded by (simp_all add: stores_simps)
  have d: "directory_record_ok (pi_plane_directory (sample_page n))" for n by (simp add: directory_record_ok_def sample_page_def)
  show "PageIndexRecord_encode (sample_page 0) (replicate 128 0) = Ok (sample_parts ! 6)" "length (sample_parts ! 6) = 128"
    "PageIndexRecord_encode (sample_page 1) (replicate 128 0) = Ok (sample_parts ! 7)" "length (sample_parts ! 7) = 128"
    unfolding sample_parts_def PageIndexRecord_encode_def
    using encode_record_encoded[OF page_stores_apart[OF d[of 0]]] encode_record_encoded[OF page_stores_apart[OF d[of 1]]] by simp_all
  show "NavIndexRecord_encode sample_nav (replicate 48 0) = Ok (sample_parts ! 8)" "length (sample_parts ! 8) = 48"
    unfolding sample_parts_def NavIndexRecord_encode_def using encode_record_encoded by (simp_all add: stores_simps)
  show "ChapterIndexRecord_encode sample_chapter (replicate 32 0) = Ok (sample_parts ! 9)" "length (sample_parts ! 9) = 32"
    unfolding sample_parts_def ChapterIndexRecord_encode_def using encode_record_encoded by (simp_all add: stores_simps)
  show "PageChunkIndexRecord_encode (sample_chunk 0) (replicate 24 0) = Ok (sample_parts ! 10)" "length (sample_parts ! 10) = 24"
    "PageChunkIndexRecord_encode (sample_chunk 1) (replicate 24 0) = Ok (sample_parts ! 11)" "length (sample_parts ! 11) = 24"
    unfolding sample_parts_def PageChunkIndexRecord_encode_def using encode_record_encoded by (simp_all add: stores_simps)
qed

lemma subslice_concat:
  "k < length xss \<Longrightarrow> subslice (concat xss) (sum_list (map length (take k xss))) (length (xss ! k)) = xss ! k"
proof (induction xss arbitrary: k)
  case (Cons xs xss)
  show ?case
  proof (cases k)
    case 0
    then show ?thesis by (simp add: subslice_def)
  next
    case (Suc j)
    then show ?thesis using Cons by (simp add: subslice_append_right)
  qed
qed simp

lemma sample_lengths: "map length sample_parts = [256, 760, 2, 56, 16, 56, 128, 128, 48, 32, 24, 24, 4]"
proof -
  have "length (concat (map section_bytes sample_sections)) = 760"
    by (simp add: length_blocks[where n = 40] sample_sections_def)
  then show ?thesis using sample_encoded(2,4,6,8,10,12,14)
    by (simp add: sample_parts_def sample_profile_def sample_page_bytes_def)
qed

lemma length_sample_file: "length sample_file = 1534"
  using arg_cong[OF sample_lengths, of sum_list] by (simp add: sample_file_def length_concat)

lemma sample_part:
  assumes "k < 13" and "sum_list (take k [256, 760, 2, 56, 16, 56, 128, 128, 48, 32, 24, 24, 4]) = i"
    and "[256, 760, 2, 56, 16, 56, 128, 128, 48, 32, 24, 24, 4] ! k = n"
  shows "subslice sample_file i n = sample_parts ! k"
proof -
  have "length sample_parts = 13" by (simp add: sample_parts_def)
  then have "length (sample_parts ! k) = n" "sum_list (map length (take k sample_parts)) = i"
    using assms sample_lengths by (metis nth_map, metis take_map)
  then show ?thesis using subslice_concat[of k sample_parts] assms(1) \<open>length sample_parts = 13\<close>
    by (simp add: sample_file_def)
qed

lemma sample_reads:
  "subslice sample_file 0 256 = sample_parts ! 0" "subslice sample_file 256 760 = concat (map section_bytes sample_sections)"
  "subslice sample_file 1018 56 = sample_profile" "subslice sample_file 1074 16 = replicate 16 0"
  "subslice sample_file 1090 56 = replicate 56 0" "subslice sample_file 1146 128 = sample_parts ! 6"
  "subslice sample_file 1274 128 = sample_parts ! 7" "subslice sample_file 1402 48 = sample_parts ! 8"
  "subslice sample_file 1450 32 = sample_parts ! 9" "subslice sample_file 1482 24 = sample_parts ! 10"
  "subslice sample_file 1506 24 = sample_parts ! 11" "subslice sample_file 1530 4 = sample_page_bytes"
  using sample_part[of 0 0 256] sample_part[of 1 256 760] sample_part[of 3 1018 56] sample_part[of 4 1074 16]
    sample_part[of 5 1090 56] sample_part[of 6 1146 128] sample_part[of 7 1274 128] sample_part[of 8 1402 48]
    sample_part[of 9 1450 32] sample_part[of 10 1482 24] sample_part[of 11 1506 24] sample_part[of 12 1530 4]
  by (simp_all add: sample_parts_def)

lemma sample_header_parsed: "header_parse (sample_parts ! 0) 1534 = Ok sample_book_header"
  by (subst header_roundtrip[OF sample_encoded(1)]) (simp add: sample_file_header_def sample_book_header_def)

lemma sample_directory_ok: "directory_ok sample_book_header sample_sections"
proof -
  have "\<forall>k\<in>set [0..<19]. sx_id (sample_sections ! k) = REQUIRED ! k \<and> section_in_file sample_book_header (sample_sections ! k)"
    by (simp add: upt_conv_Cons sample_sections_def sample_section_def section_in_file_def sample_book_header_def REQUIRED_def)
  then show ?thesis by (simp add: directory_ok_def sample_sections_def sample_section_def sample_book_header_def)
qed

lemma sample_directory_parsed:
  "directory_parse (concat (map section_bytes sample_sections)) sample_book_header = Ok sample_sections"
  by (rule directory_roundtrip[OF sample_directory_ok])
    (simp_all add: sample_book_header_def sample_sections_def sample_section_def)

definition sample_page_info :: "u32 \<Rightarrow> PageInfo" where
  "sample_page_info n =
    \<lparr>pg_page_number = n, pg_page_kind = 1, pg_pixel_format = Gray1Packed, pg_compression_method = CmNone, pg_update_hint = 0,
     pg_page_flags = 0, pg_page_crc32 = iso_hdlc sample_page_bytes, pg_stored_width = 8, pg_stored_height = 4, pg_placement_x = 0,
     pg_placement_y = 0, pg_progress_start_ppm = n * 500000, pg_progress_end_ppm = (n + 1) * 500000,
     pg_planes = \<lparr>pdir_bitmap = 4, pdir_slots = [None, None,
       Some \<lparr>pd_slot = FastBase, pd_compression = CmNone, pd_offset = 0, pd_length = 4\<rparr>, None]\<rparr>\<rparr>"

definition sample_chunk_info :: "u32 \<Rightarrow> PageChunk" where
  "sample_chunk_info n =
    \<lparr>ck_page_number = n, ck_plane_slot = FastBase, ck_chunk_index = 0, ck_row_start = 0, ck_row_count = 4, ck_offset = 0,
     ck_compressed_length = 4, ck_uncompressed_length = 4\<rparr>"

lemma sample_page_parsed:
  assumes e: "PageIndexRecord_encode (sample_page n) out = Ok bytes" and n: "n \<in> {0, 1}"
  shows "page_parse bytes n 4 = Ok (sample_page_info n)"
proof -
  have d: "directory_record_ok (pi_plane_directory (sample_page n))" by (simp add: directory_record_ok_def sample_page_def)
  note slots = plane_back[OF e d, of 4 OverlayMsb CmNone] plane_back[OF e d, of 4 OverlayLsb CmNone]
    plane_back[OF e d, of 4 FastBase CmNone] plane_back[OF e d, of 4 Reserved CmNone]
  have "record_plane_ok (sample_page n) 4 i" if "i \<in> {0, 1, 2, 3}" for i
    using that by (auto simp: record_plane_ok_def sample_page_def)
  then have planes: "plane_read bytes 4 0 CmNone 4 0 = Ok None" "plane_read bytes 4 0 CmNone 4 (Suc 0) = Ok None"
    "plane_read bytes 4 0 CmNone 4 2 = Ok (Some \<lparr>pd_slot = FastBase, pd_compression = CmNone, pd_offset = 0, pd_length = 4\<rparr>)"
    "plane_read bytes 4 0 CmNone 4 3 = Ok None"
    using slots by (simp_all add: sample_page_def record_plane_def record_method_def)
  have progress: "n * 500000 \<le> (n + 1) * 500000" "(n + 1) * 500000 \<le> 1000000" using n by auto
  have kinds: "CompressionMethod_try_from 0 = Ok CmNone" "PixelFormat_try_from 1 = Ok Gray1Packed"
    by (simp_all add: CompressionMethod_try_from_def PixelFormat_try_from_def)
  note reads = page_reads(1-15)[OF e d, unfolded sample_page_def PageIndexRecord.select_convs PlaneDirectoryRecord.select_convs]
  show ?thesis using progress
    by (simp add: page_parse_def reads planes kinds sample_page_info_def Let_def not_less del: distrib_right_numeral)
qed

lemma sample_chunk_parsed:
  assumes e: "PageChunkIndexRecord_encode (sample_chunk n) out = Ok bytes" and n: "n < 2"
  shows "chunk_parse bytes 2 4 = Ok (sample_chunk_info n)"
proof -
  note e = e[unfolded PageChunkIndexRecord_encode_def]
  have "read_u16 bytes 10 = Ok 0"
    using encode_record_stored(1)[OF e] encode_record_stored(3)[OF e, of 10 2] by (intro read_zero) (simp_all add: stores_simps)
  then show ?thesis using encode_record_reads[OF e] encode_record_stored(1)[OF e] n
    by (simp add: stores_simps chunk_parse_def widened_add sample_chunk_def sample_chunk_info_def PlaneSlot_try_from_def not_le)
qed

lemma sample_nav_parsed:
  "parse_nav (sample_parts ! 8) 0 2 2 = Ok \<lparr>nv_number = 0, nv_nav_type = 3, nv_level = 0, nv_title = sample_title,
    nv_source_href = no_string, nv_page = 0\<rparr>"
  by (subst nav_roundtrip[OF sample_encoded(7)]) (simp add: sample_nav_def string_in_table_def sample_title_def no_string_def)

lemma sample_chapter_parsed:
  "parse_chapter (sample_parts ! 9) 0 1 2 2 = Ok \<lparr>ch_number = 0, ch_nav = 0, ch_title = sample_title, ch_page = 0,
    ch_level = 0, ch_nav_type = 3\<rparr>"
  by (subst chapter_roundtrip[OF sample_encoded(9)]) (simp add: sample_chapter_def string_in_table_def sample_title_def)

end
