(* ===== verification/Book_Reader.thy ===== *)
theory Book_Reader
  imports Book_Sample
begin

text \<open>
  Reading a book from a byte source (\<^verbatim>\<open>source.rs\<close>, \<^verbatim>\<open>book.rs\<close>, \<^verbatim>\<open>book_io.rs\<close>,
  \<^verbatim>\<open>book_records.rs\<close>) and the index that plans the reads of an asynchronous client (\<^verbatim>\<open>book_index.rs\<close>).  A
  source is a pair of functions: its length, and the bytes at an offset.  The scratch buffers of the code are overwritten
  before they are read; they are represented by their length, and a read returns the bytes it stores.
\<close>

subsection \<open>Sources\<close>

datatype 'e BookError = BkSource 'e | BkFormat FormatError | BkBufferTooSmall nat nat

type_synonym ('a, 'e) book_res = "('a, 'e BookError) res"

record 'e ReadAt =
  ra_len :: "(u64, 'e) res"
  ra_read_exact_at :: "u64 \<Rightarrow> nat \<Rightarrow> (bytes, 'e) res"

datatype SliceReadError = LengthOverflow | OutOfBounds u64 nat nat

definition slice_len :: "bytes \<Rightarrow> (u64, SliceReadError) res" where
  "slice_len bytes = (if length bytes < 2 ^ 64 then Ok (of_nat (length bytes)) else Err LengthOverflow)"

definition slice_read_exact_at :: "bytes \<Rightarrow> u64 \<Rightarrow> nat \<Rightarrow> (bytes, SliceReadError) res" where
  "slice_read_exact_at bytes offset n =
    (let start = unat offset in
     if start + n \<le> length bytes then Ok (subslice bytes start n) else Err (OutOfBounds offset n (length bytes)))"

definition SliceSource_new :: "bytes \<Rightarrow> SliceReadError ReadAt" where
  "SliceSource_new bytes = \<lparr>ra_len = slice_len bytes, ra_read_exact_at = slice_read_exact_at bytes\<rparr>"

definition require_buffer :: "nat \<Rightarrow> nat \<Rightarrow> (unit, 'e) book_res" where
  "require_buffer provided required = (if provided < required then Err (BkBufferTooSmall required provided) else Ok ())"

definition from_format :: "('a, FormatError) res \<Rightarrow> ('a, 'e) book_res" where
  "from_format r = map_err BkFormat r"

definition from_source :: "('a, 'e) res \<Rightarrow> ('a, 'e) book_res" where
  "from_source r = map_err BkSource r"

subsection \<open>Books\<close>

record 'e Book =
  bk_source :: "'e ReadAt"
  bk_header :: Header
  bk_sections :: "Section list"

definition book_section :: "u16 \<Rightarrow> 'e Book \<Rightarrow> Section" where
  "book_section section_id book = directory_get section_id (bk_sections book)"

definition book_page_count :: "'e Book \<Rightarrow> u32" where "book_page_count book = sx_record_count (book_section PAGE_INDEX book)"
definition book_nav_count :: "'e Book \<Rightarrow> u32" where "book_nav_count book = sx_record_count (book_section NAV_INDEX book)"
definition book_chapter_count :: "'e Book \<Rightarrow> u32" where "book_chapter_count book = sx_record_count (book_section CHAPTER_INDEX book)"
definition book_chunk_count :: "'e Book \<Rightarrow> u32" where "book_chunk_count book = sx_record_count (book_section PAGE_CHUNK_INDEX book)"

definition book_transition_count :: "'e Book \<Rightarrow> u32" where
  "book_transition_count book = sx_record_count (book_section PAGE_TRANSITION_INDEX book)"

definition book_page_data_offset :: "'e Book \<Rightarrow> u64" where "book_page_data_offset book = bh_page_data_offset (bk_header book)"
definition book_string_table :: "'e Book \<Rightarrow> Section" where "book_string_table book = book_section STRING_TABLE book"

definition book_page_number :: "u32 \<Rightarrow> 'e Book \<Rightarrow> u32 format_res" where
  "book_page_number raw book = (if raw < book_page_count book then Ok raw else Err PageOutOfRange)"

definition book_nav_number :: "u32 \<Rightarrow> 'e Book \<Rightarrow> u32 format_res" where
  "book_nav_number raw book = (if raw < book_nav_count book then Ok raw else Err NavOutOfRange)"

definition book_chapter_number :: "u32 \<Rightarrow> 'e Book \<Rightarrow> u32 format_res" where
  "book_chapter_number raw book = (if raw < book_chapter_count book then Ok raw else Err ChapterOutOfRange)"

definition book_chunk_record_number :: "u32 \<Rightarrow> 'e Book \<Rightarrow> u32 format_res" where
  "book_chunk_record_number raw book = (if raw < book_chunk_count book then Ok raw else Err ChunkOutOfRange)"

definition book_transition_number :: "u32 \<Rightarrow> 'e Book \<Rightarrow> u32 format_res" where
  "book_transition_number raw book = (if raw < book_transition_count book then Ok raw else Err TransitionOutOfRange)"

text \<open>\<open>scratch\<close> and \<open>out\<close> below are the lengths of the caller's buffers.\<close>

definition read_prefix :: "Section \<Rightarrow> nat \<Rightarrow> nat \<Rightarrow> 'e Book \<Rightarrow> (bytes, 'e) book_res" where
  "read_prefix section required out book =
    and_then (require_buffer out required) (\<lambda>_.
    if unat (sx_length section) < required then Err (BkFormat InvalidSection)
    else from_source (ra_read_exact_at (bk_source book) (sx_offset section) required))"

definition read_record :: "Section \<Rightarrow> u32 \<Rightarrow> nat \<Rightarrow> 'e Book \<Rightarrow> (bytes, 'e) book_res" where
  "read_record section index out book =
    (let required = unat (sx_entry_size section) in
     and_then (require_buffer out required) (\<lambda>_.
     and_then (from_format (ok_or InvalidSection (checked_mul (ucast index :: u64) (ucast (sx_entry_size section))))) (\<lambda>relative.
     and_then (from_format (ok_or InvalidSection (checked_add (sx_offset section) relative))) (\<lambda>offset.
     from_source (ra_read_exact_at (bk_source book) offset required)))))"

definition read_page_data :: "u64 \<Rightarrow> u32 \<Rightarrow> nat \<Rightarrow> 'e Book \<Rightarrow> (bytes, 'e) book_res" where
  "read_page_data relative_offset len out book =
    (let required = unat len in
     and_then (require_buffer out required) (\<lambda>_.
     and_then (from_format (ok_or InvalidSection (checked_add (sx_offset (book_section PAGE_DATA book)) relative_offset)))
       (\<lambda>offset. from_source (ra_read_exact_at (bk_source book) offset required))))"

definition read_string :: "StringRef \<Rightarrow> nat \<Rightarrow> 'e Book \<Rightarrow> (bytes, 'e) book_res" where
  "read_string reference out book =
    (let table = book_string_table book in
     and_then (from_format (StringRef_validate (sx_length table) reference)) (\<lambda>_.
     let required = unat (sr_length reference) in
     and_then (require_buffer out required) (\<lambda>_.
     and_then (from_format (ok_or InvalidStringRef (checked_add (sx_offset table) (ucast (sr_offset reference))))) (\<lambda>offset.
     from_source (ra_read_exact_at (bk_source book) offset required)))))"

definition read_plane :: "PlaneDescriptor \<Rightarrow> nat \<Rightarrow> 'e Book \<Rightarrow> (bytes, 'e) book_res" where
  "read_plane plane out book = read_page_data (pd_offset plane) (pd_length plane) out book"

definition read_plane_range :: "PlaneDescriptor \<Rightarrow> u32 \<Rightarrow> nat \<Rightarrow> 'e Book \<Rightarrow> (bytes, 'e) book_res" where
  "read_plane_range plane offset out book =
    (if out \<ge> 2 ^ 32 then Err (BkFormat InvalidPage)
     else
       let requested = of_nat out :: u32 in
       and_then (from_format (ok_or InvalidPage (checked_add offset requested))) (\<lambda>end_offset.
       if end_offset > pd_length plane then Err (BkFormat InvalidPage)
       else
         and_then (from_format (ok_or InvalidPage (checked_add (pd_offset plane) (ucast offset)))) (\<lambda>relative.
         read_page_data relative requested out book)))"

definition read_chunk :: "PageChunk \<Rightarrow> nat \<Rightarrow> 'e Book \<Rightarrow> (bytes, 'e) book_res" where
  "read_chunk chunk out book = read_page_data (ck_offset chunk) (ck_compressed_length chunk) out book"

subsection \<open>Records of a book\<close>

text \<open>The slice \<open>&record[..n]\<close> of a buffer into which at least \<open>n\<close> bytes were read.\<close>

definition book_rendition_identity :: "nat \<Rightarrow> 'e Book \<Rightarrow> (RenditionIdentity, 'e) book_res" where
  "book_rendition_identity record book =
    (let section = book_section RENDITION_IDENTITY book in
     if sx_length section \<noteq> RENDITION_IDENTITY_LENGTH then Err (BkFormat InvalidSection)
     else
       and_then (read_prefix section RENDITION_HASH_LENGTH record book) (\<lambda>bytes.
       from_format (rendition_parse (take RENDITION_HASH_LENGTH bytes))))"

definition book_display_profile :: "nat \<Rightarrow> 'e Book \<Rightarrow> (DisplayProfile, 'e) book_res" where
  "book_display_profile record book =
    and_then (read_prefix (book_section DISPLAY_PROFILE book) DISPLAY_PROFILE_MIN record book) (\<lambda>bytes.
    from_format (DisplayProfile_parse (take DISPLAY_PROFILE_MIN bytes) (sx_length (book_string_table book))))"

definition book_metadata :: "nat \<Rightarrow> 'e Book \<Rightarrow> (BookMetadata, 'e) book_res" where
  "book_metadata record book =
    and_then (read_prefix (book_section BOOK_METADATA book) BOOK_METADATA_MIN record book) (\<lambda>bytes.
    from_format (BookMetadata_parse (take BOOK_METADATA_MIN bytes) (sx_length (book_string_table book))))"

definition book_page :: "u32 \<Rightarrow> nat \<Rightarrow> 'e Book \<Rightarrow> (PageInfo, 'e) book_res" where
  "book_page number record book =
    and_then (read_record (book_section PAGE_INDEX book) number record book) (\<lambda>bytes.
    from_format (page_parse (take PAGE_RECORD_SIZE bytes) number (bh_page_data_length (bk_header book))))"

definition book_nav :: "u32 \<Rightarrow> nat \<Rightarrow> 'e Book \<Rightarrow> (NavEntry, 'e) book_res" where
  "book_nav number record book =
    and_then (read_record (book_section NAV_INDEX book) number record book) (\<lambda>bytes.
    from_format (parse_nav (take NAV_RECORD_SIZE bytes) number (book_page_count book) (sx_length (book_string_table book))))"

definition book_chapter :: "u32 \<Rightarrow> nat \<Rightarrow> 'e Book \<Rightarrow> (ChapterEntry, 'e) book_res" where
  "book_chapter number record book =
    and_then (read_record (book_section CHAPTER_INDEX book) number record book) (\<lambda>bytes.
    from_format (parse_chapter (take CHAPTER_RECORD_SIZE bytes) number (book_nav_count book) (book_page_count book)
      (sx_length (book_string_table book))))"

definition book_chunk :: "u32 \<Rightarrow> nat \<Rightarrow> 'e Book \<Rightarrow> (PageChunk, 'e) book_res" where
  "book_chunk number record book =
    and_then (read_record (book_section PAGE_CHUNK_INDEX book) number record book) (\<lambda>bytes.
    from_format (chunk_parse (take CHUNK_RECORD_SIZE bytes) (book_page_count book) (bh_page_data_length (bk_header book))))"

definition book_transition :: "u32 \<Rightarrow> nat \<Rightarrow> 'e Book \<Rightarrow> (PageTransition, 'e) book_res" where
  "book_transition number record book =
    and_then (read_record (book_section PAGE_TRANSITION_INDEX book) number record book) (\<lambda>bytes.
    from_format (transition_parse (take TRANSITION_RECORD_SIZE bytes) (book_page_count book)))"

text \<open>\<open>for raw in 0..count\<close> with an early return on an error.\<close>

fun for_records :: "nat \<Rightarrow> u32 \<Rightarrow> (u32 \<Rightarrow> ('a, 'e) res) \<Rightarrow> (unit, 'e) res" where
  "for_records 0 raw body = Ok ()"
| "for_records (Suc n) raw body = and_then (body raw) (\<lambda>_. for_records n (raw + 1) body)"

definition validate_string_references :: "nat \<Rightarrow> 'e Book \<Rightarrow> (unit, 'e) book_res" where
  "validate_string_references scratch book =
    and_then (book_display_profile scratch book) (\<lambda>_.
    and_then (book_metadata scratch book) (\<lambda>_.
    and_then (for_records (unat (book_nav_count book)) 0 (\<lambda>raw. book_nav raw scratch book)) (\<lambda>_.
    for_records (unat (book_chapter_count book)) 0 (\<lambda>raw. book_chapter raw scratch book))))"

definition Book_open :: "'e ReadAt \<Rightarrow> nat \<Rightarrow> ('e Book, 'e) book_res" where
  "Book_open source scratch =
    and_then (require_buffer scratch HEADER_SIZE) (\<lambda>_.
    and_then (from_source (ra_len source)) (\<lambda>source_length.
    and_then (from_source (ra_read_exact_at source 0 HEADER_SIZE)) (\<lambda>bytes.
    and_then (from_format (header_parse bytes source_length)) (\<lambda>header.
    let table_length = unat (bh_section_count header) * ENTRY_SIZE in
    and_then (require_buffer scratch table_length) (\<lambda>_.
    and_then (from_source (ra_read_exact_at source (bh_section_table_offset header) table_length)) (\<lambda>table.
    and_then (from_format (directory_parse table header)) (\<lambda>sections.
    let book = \<lparr>bk_source = source, bk_header = header, bk_sections = sections\<rparr> in
    and_then (validate_string_references scratch book) (\<lambda>_. Ok book))))))))"

subsection \<open>The index of an asynchronous reader\<close>

record ReadRange =
  rg_offset :: u64
  rg_length :: nat

definition index_table_range :: "Header \<Rightarrow> ReadRange" where
  "index_table_range header =
    \<lparr>rg_offset = bh_section_table_offset header, rg_length = unat (bh_section_count header) * ENTRY_SIZE\<rparr>"

record BookIndex =
  bi_header :: Header
  bi_sections :: "Section list"

definition index_parse_header :: "bytes \<Rightarrow> u64 \<Rightarrow> Header format_res" where
  "index_parse_header bytes source_length = header_parse bytes source_length"

definition index_parse :: "Header \<Rightarrow> bytes \<Rightarrow> BookIndex format_res" where
  "index_parse header table =
    (let expected = rg_length (index_table_range header) in
     if length table < expected then Err InvalidSection
     else
       and_then (directory_parse (take expected table) header) (\<lambda>sections.
       Ok \<lparr>bi_header = header, bi_sections = sections\<rparr>))"

definition index_page_count :: "BookIndex \<Rightarrow> u32" where
  "index_page_count index = sx_record_count (directory_get PAGE_INDEX (bi_sections index))"

definition index_chunk_count :: "BookIndex \<Rightarrow> u32" where
  "index_chunk_count index = sx_record_count (directory_get PAGE_CHUNK_INDEX (bi_sections index))"

definition index_record_range :: "u16 \<Rightarrow> u32 \<Rightarrow> FormatError \<Rightarrow> BookIndex \<Rightarrow> ReadRange format_res" where
  "index_record_range section_id i out_of_range index =
    (let section = directory_get section_id (bi_sections index) in
     if i \<ge> sx_record_count section then Err out_of_range
     else
       and_then (ok_or InvalidSection (checked_mul (ucast i :: u64) (ucast (sx_entry_size section)))) (\<lambda>relative.
       and_then (ok_or InvalidSection (checked_add (sx_offset section) relative)) (\<lambda>offset.
       Ok \<lparr>rg_offset = offset, rg_length = unat (sx_entry_size section)\<rparr>)))"

definition index_page_record_range :: "u32 \<Rightarrow> BookIndex \<Rightarrow> ReadRange format_res" where
  "index_page_record_range page index = index_record_range PAGE_INDEX page PageOutOfRange index"

definition index_chunk_record_range :: "u32 \<Rightarrow> BookIndex \<Rightarrow> ReadRange format_res" where
  "index_chunk_record_range chunk index = index_record_range PAGE_CHUNK_INDEX chunk ChunkOutOfRange index"

definition index_rendition_identity_range :: "BookIndex \<Rightarrow> ReadRange" where
  "index_rendition_identity_range index =
    \<lparr>rg_offset = sx_offset (directory_get RENDITION_IDENTITY (bi_sections index)), rg_length = RENDITION_HASH_LENGTH\<rparr>"

definition index_display_profile_range :: "BookIndex \<Rightarrow> ReadRange" where
  "index_display_profile_range index =
    \<lparr>rg_offset = sx_offset (directory_get DISPLAY_PROFILE (bi_sections index)), rg_length = DISPLAY_PROFILE_MIN\<rparr>"

definition index_parse_display_profile :: "bytes \<Rightarrow> BookIndex \<Rightarrow> DisplayProfile format_res" where
  "index_parse_display_profile bytes index =
    (if length bytes < DISPLAY_PROFILE_MIN then Err InvalidDisplayProfile
     else DisplayProfile_parse (take DISPLAY_PROFILE_MIN bytes) (sx_length (directory_get STRING_TABLE (bi_sections index))))"

definition index_parse_page :: "u32 \<Rightarrow> bytes \<Rightarrow> BookIndex \<Rightarrow> PageInfo format_res" where
  "index_parse_page expected bytes index =
    (if expected \<ge> index_page_count index then Err PageOutOfRange
     else page_parse bytes expected (bh_page_data_length (bi_header index)))"

definition index_parse_chunk :: "bytes \<Rightarrow> BookIndex \<Rightarrow> PageChunk format_res" where
  "index_parse_chunk bytes index = chunk_parse bytes (index_page_count index) (bh_page_data_length (bi_header index))"

definition index_page_data_range :: "u64 \<Rightarrow> u32 \<Rightarrow> BookIndex \<Rightarrow> ReadRange format_res" where
  "index_page_data_range relative_offset len index =
    and_then (ok_or InvalidPage (checked_add relative_offset (ucast len))) (\<lambda>end_offset.
    if end_offset > bh_page_data_length (bi_header index) then Err InvalidPage
    else
      and_then (ok_or InvalidPage (checked_add (bh_page_data_offset (bi_header index)) relative_offset)) (\<lambda>offset.
      Ok \<lparr>rg_offset = offset, rg_length = unat len\<rparr>))"

definition index_parse_rendition_identity :: "bytes \<Rightarrow> BookIndex \<Rightarrow> RenditionIdentity format_res" where
  "index_parse_rendition_identity bytes index =
    (let section = directory_get RENDITION_IDENTITY (bi_sections index) in
     if sx_length section \<noteq> RENDITION_IDENTITY_LENGTH \<or> length bytes < RENDITION_HASH_LENGTH then Err InvalidSection
     else rendition_parse (take RENDITION_HASH_LENGTH bytes))"

subsection \<open>What an open book guarantees\<close>

lemma for_records_Ok:
  "for_records n raw body = Ok () \<longleftrightarrow> (\<forall>i<n. \<exists>x. body (raw + of_nat i) = Ok x)"
proof (induction n arbitrary: raw)
  case (Suc n)
  have "(\<forall>i<Suc n. \<exists>x. body (raw + of_nat i) = Ok x) \<longleftrightarrow>
      (\<exists>x. body raw = Ok x) \<and> (\<forall>i<n. \<exists>x. body (raw + 1 + of_nat i) = Ok x)"
    by (auto simp: All_less_Suc2 add.assoc)
  then show ?case by (auto simp: and_then_Ok_iff Suc.IH)
qed simp

lemma for_records_all:
  assumes "for_records (unat count) 0 body = Ok ()" and "raw < count"
  shows "\<exists>x. body raw = Ok x"
  using assms by (auto simp: for_records_Ok word_less_nat_alt dest: spec[of _ "unat raw"])

definition book_ok :: "u64 \<Rightarrow> 'e Book \<Rightarrow> bool" where
  "book_ok source_length book \<longleftrightarrow> directory_ok (bk_header book) (bk_sections book) \<and>
    unat (bh_file_length (bk_header book)) \<le> unat source_length"

lemma from_Ok [simp]: "from_format r = Ok x \<longleftrightarrow> r = Ok x" "from_source s = Ok y \<longleftrightarrow> s = Ok y"
  by (simp_all add: from_format_def from_source_def)

lemma require_buffer_Ok [simp]: "require_buffer provided required = Ok u \<longleftrightarrow> required \<le> provided"
  by (auto simp: require_buffer_def)

lemma Book_open_Ok:
  assumes "Book_open source scratch = Ok book"
  obtains source_length table where "ra_len source = Ok source_length" "book_ok source_length book" "bk_source book = source"
    "validate_string_references scratch book = Ok ()" "256 \<le> scratch" "directory_parse table (bk_header book) = Ok (bk_sections book)"
  using assms
  by (auto simp: Book_open_def and_then_Ok_iff Let_def book_ok_def directory_parse_sound header_parse_sound(1))

lemma slice_len_Ok: "slice_len file = Ok n \<longleftrightarrow> length file < 2 ^ 64 \<and> n = of_nat (length file)"
  by (auto simp: slice_len_def)

lemma unat_of_length: "length file < 2 ^ 64 \<Longrightarrow> unat (of_nat (length file) :: u64) = length file"
  by (simp add: unat_of_nat take_bit_nat_eq_self)

text \<open>The sections of an open book lie in the file.\<close>

lemma book_section_in_file:
  assumes "book_ok source_length book" and "k < 19"
  shows "unat (sx_offset (bk_sections book ! k)) + unat (sx_length (bk_sections book ! k)) \<le> unat source_length"
  using assms by (auto simp: book_ok_def directory_ok_def section_in_file_def intro: order_trans)

lemma checked_add_below:
  "unat a + unat b \<le> unat (limit :: u64) \<Longrightarrow> checked_add a b = Some (a + b) \<and> unat (a + b) = unat a + unat b" for a :: u64
  using unat_u64_less[of limit] by (simp add: checked_add_def unat_add_small)

lemma read_string_slice:
  assumes ok: "book_ok source_length book" and src: "bk_source book = SliceSource_new file" "slice_len file = Ok source_length"
    and ref: "StringRef_validate (sx_length (book_string_table book)) r = Ok ()" "sr_length r \<noteq> 0"
    and room: "unat (sr_length r) \<le> room"
  shows "read_string r room book =
    Ok (subslice file (unat (sx_offset (book_string_table book)) + unat (sr_offset r)) (unat (sr_length r)))"
proof -
  let ?s = "book_string_table book"
  have s: "?s = bk_sections book ! 0" by (simp add: book_string_table_def book_section_def)
  have n: "unat source_length = length file" using src(2) by (auto simp: slice_len_Ok unat_of_length)
  have r: "unat (sr_offset r) + unat (sr_length r) \<le> unat (sx_length ?s)" using ref by (simp add: StringRef_validate_Ok)
  moreover have "unat (sx_offset ?s) + unat (sx_length ?s) \<le> length file" using book_section_in_file[OF ok, of 0] s n by simp
  ultimately have infile: "unat (sx_offset ?s) + unat (sr_offset r) + unat (sr_length r) \<le> length file" by linarith
  have "checked_add (sx_offset ?s) (ucast (sr_offset r)) = Some (sx_offset ?s + ucast (sr_offset r)) \<and>
      unat (sx_offset ?s + ucast (sr_offset r)) = unat (sx_offset ?s) + unat (sr_offset r)"
    using checked_add_below[of "sx_offset ?s" "ucast (sr_offset r)" source_length] n infile by simp
  then show ?thesis using ref(1) infile room
    by (simp add: read_string_def Let_def src(1) SliceSource_new_def slice_read_exact_at_def from_format_def from_source_def require_buffer_def)
qed

lemma validated_entries:
  assumes "validate_string_references scratch book = Ok ()"
  shows "raw < book_nav_count book \<Longrightarrow> \<exists>nav. book_nav raw scratch book = Ok nav"
    "raw < book_chapter_count book \<Longrightarrow> \<exists>chapter. book_chapter raw scratch book = Ok chapter"
  using assms for_records_all[of "book_nav_count book" "\<lambda>raw. book_nav raw scratch book" raw]
    for_records_all[of "book_chapter_count book" "\<lambda>raw. book_chapter raw scratch book" raw]
  by (auto simp: validate_string_references_def and_then_Ok_iff)

lemma book_nav_sound:
  "book_nav raw scratch book = Ok nav \<Longrightarrow> nv_number nav = raw \<and> nv_page nav < book_page_count book \<and>
    StringRef_validate (sx_length (book_string_table book)) (nv_title nav) = Ok ()"
  by (auto simp: book_nav_def and_then_Ok_iff dest: parse_nav_sound)

lemma book_chapter_sound:
  "book_chapter raw scratch book = Ok chapter \<Longrightarrow> ch_nav chapter < book_nav_count book \<and> ch_page chapter < book_page_count book \<and>
    StringRef_validate (sx_length (book_string_table book)) (ch_title chapter) = Ok ()"
  by (auto simp: book_chapter_def and_then_Ok_iff dest: parse_chapter_sound)

text \<open>
  What the reader returns for the title of an entry: the bytes of the string table, except that an empty title whose offset
  lies beyond the end of the file is refused by the read although the opening has accepted it.
\<close>

definition title_read :: "bytes \<Rightarrow> StringRef \<Rightarrow> 'e Book \<Rightarrow> bool" where
  "title_read file title book \<longleftrightarrow>
    (let table = book_string_table book;
         start = unat (sx_offset table) + unat (sr_offset title);
         answer = read_string title (unat (sr_length title)) book in
     if sr_length title = 0 \<and> length file < start then \<exists>e. answer = Err e
     else answer = Ok (subslice file start (unat (sr_length title))) \<and>
       (sr_length title = 0 \<or> unat (sr_offset title) + unat (sr_length title) \<le> unat (sx_length table)))"

lemma read_empty_string:
  assumes src: "bk_source book = SliceSource_new file" "slice_len file = Ok source_length" and len: "sr_length r = 0"
    and ref: "StringRef_validate (sx_length (book_string_table book)) r = Ok ()"
  shows "title_read file r book"
proof -
  let ?o = "sx_offset (book_string_table book)"
  have n: "length file < 2 ^ 64" using src(2) by (auto simp: slice_len_Ok)
  show ?thesis
  proof (cases "unat ?o + unat (sr_offset r) < 2 ^ 64")
    case True
    then have "checked_add ?o (ucast (sr_offset r)) = Some (?o + ucast (sr_offset r))"
      "unat (?o + ucast (sr_offset r)) = unat ?o + unat (sr_offset r)"
      by (simp_all add: checked_add_def unat_add_small)
    then show ?thesis using ref len
      by (simp add: title_read_def read_string_def src(1) SliceSource_new_def slice_read_exact_at_def from_format_def
          from_source_def require_buffer_def Let_def)
  next
    case False
    then have "checked_add ?o (ucast (sr_offset r)) = None" by (simp add: checked_add_def)
    then show ?thesis using False n ref len
      by (simp add: title_read_def read_string_def from_format_def require_buffer_def Let_def)
  qed
qed

subsection \<open>The sample opens\<close>

definition sample_book :: "SliceReadError Book" where
  "sample_book = \<lparr>bk_source = SliceSource_new sample_file, bk_header = sample_book_header, bk_sections = sample_sections\<rparr>"

lemma sample_sections_at:
  "sx_offset (sample_sections ! 0) = 1016" "sx_length (sample_sections ! 0) = 2" "sx_offset (sample_sections ! Suc 0) = 1018"
  "sx_length (sample_sections ! Suc 0) = 56" "sx_offset (sample_sections ! 3) = 1074" "sx_offset (sample_sections ! 5) = 1090"
  "sx_length (sample_sections ! 5) = 56" "sx_record_count (sample_sections ! 12) = 0"
  "sx_offset (sample_sections ! 13) = 1146" "sx_entry_size (sample_sections ! 13) = 128" "sx_record_count (sample_sections ! 13) = 2"
  "sx_offset (sample_sections ! 14) = 1402" "sx_entry_size (sample_sections ! 14) = 48" "sx_record_count (sample_sections ! 14) = 1"
  "sx_offset (sample_sections ! 15) = 1450" "sx_entry_size (sample_sections ! 15) = 32" "sx_record_count (sample_sections ! 15) = 1"
  "sx_offset (sample_sections ! 16) = 1482" "sx_entry_size (sample_sections ! 16) = 24" "sx_record_count (sample_sections ! 16) = 2"
  "sx_record_count (sample_sections ! 17) = 0"
  by (simp_all add: sample_sections_def sample_section_def)

lemmas sample_simps = sample_book_def sample_sections_at SliceSource_new_def slice_read_exact_at_def slice_len_def
  length_sample_file sample_reads from_format_def from_source_def require_buffer_def book_section_def book_string_table_def
  book_page_count_def book_nav_count_def book_chapter_count_def book_chunk_count_def book_transition_count_def

lemma sample_records:
  assumes "128 \<le> scratch"
  shows "read_record (book_section PAGE_INDEX sample_book) 0 scratch sample_book = Ok (sample_parts ! 6)"
    "read_record (book_section NAV_INDEX sample_book) 0 scratch sample_book = Ok (sample_parts ! 8)"
    "read_record (book_section CHAPTER_INDEX sample_book) 0 scratch sample_book = Ok (sample_parts ! 9)"
    "read_record (book_section PAGE_CHUNK_INDEX sample_book) 0 scratch sample_book = Ok (sample_parts ! 10)"
    "read_record (book_section PAGE_INDEX sample_book) 1 scratch sample_book = Ok (sample_parts ! 7)"
    "read_record (book_section PAGE_CHUNK_INDEX sample_book) 1 scratch sample_book = Ok (sample_parts ! 11)"
  using assms by (simp_all add: read_record_def sample_simps checked_mul_def checked_add_def)

lemma sample_profile_fields:
  "length sample_profile = 56" "read_u32 sample_profile 0 = Ok 0" "read_u32 sample_profile 4 = Ok 0" "read_u32 sample_profile 8 = Ok 0"
  "read_u32 sample_profile 12 = Ok 0" "read_u32 sample_profile 16 = Ok 0" "read_u32 sample_profile 20 = Ok 0"
  "read_u16 sample_profile 24 = Ok 8" "read_u16 sample_profile 26 = Ok 4" "read_u16 sample_profile 53 = Ok 0"
  by code_simp+

lemma sample_profile_parsed: "\<exists>profile. DisplayProfile_parse sample_profile 2 = Ok profile"
proof -
  have 16: "read_u16 sample_profile i = Ok (of_le (subslice sample_profile i 2))" if "i + 2 \<le> 56" for i
    using that by (simp add: read_u16_def sample_profile_fields(1))
  have 32: "read_u32 sample_profile i = Ok (of_le (subslice sample_profile i 4))" if "i + 4 \<le> 56" for i
    using that by (simp add: read_u32_def sample_profile_fields(1))
  show ?thesis
    using 16[of 28] 16[of 30] 16[of 48] 16[of 50] 32[of 36] 32[of 40] sample_profile_fields
    by (simp add: DisplayProfile_parse_def StringRef_parse_def StringRef_validate_def Let_def WAVEFORM_UNKNOWN_def)
qed

lemma sample_metadata_parsed: "\<exists>metadata. BookMetadata_parse (replicate 56 0) 2 = Ok metadata"
  by (simp add: BookMetadata_parse_def StringRef_parse_def StringRef_validate_def read_u32_def subslice_def numeral_eq_Suc)

lemma sample_strings_validated: "128 \<le> scratch \<Longrightarrow> validate_string_references scratch sample_book = Ok ()"
proof -
  assume s: "128 \<le> scratch"
  obtain profile where "book_display_profile scratch sample_book = Ok profile"
    using s sample_profile_parsed by (auto simp: book_display_profile_def read_prefix_def sample_simps sample_profile_fields(1))
  moreover obtain metadata where "book_metadata scratch sample_book = Ok metadata"
    using s sample_metadata_parsed by (auto simp: book_metadata_def read_prefix_def sample_simps)
  moreover have "book_nav_count sample_book = 1" "book_chapter_count sample_book = 1" "book_page_count sample_book = 2"
    by (simp_all add: sample_simps)
  moreover have "\<exists>nav. book_nav 0 scratch sample_book = Ok nav" "\<exists>chapter. book_chapter 0 scratch sample_book = Ok chapter"
    using sample_records[OF s] sample_encoded(8,10) sample_nav_parsed sample_chapter_parsed
    by (simp_all add: book_nav_def book_chapter_def from_format_def book_string_table_def book_section_def book_page_count_def
        book_nav_count_def sample_book_def sample_sections_at)
  ultimately show ?thesis by (auto simp: validate_string_references_def)
qed

lemma sample_opens: "Book_open (SliceSource_new sample_file) 760 = Ok sample_book"
proof -
  have "ra_len (SliceSource_new sample_file) = Ok 1534" "ra_read_exact_at (SliceSource_new sample_file) 0 256 = Ok (sample_parts ! 0)"
    "ra_read_exact_at (SliceSource_new sample_file) 256 760 = Ok (concat (map section_bytes sample_sections))"
    by (simp_all add: SliceSource_new_def slice_len_def slice_read_exact_at_def length_sample_file sample_reads)
  moreover have "bh_section_count sample_book_header = 19" "bh_section_table_offset sample_book_header = 256" by (simp_all add: sample_book_header_def)
  ultimately show ?thesis
    using sample_header_parsed sample_directory_parsed sample_strings_validated[of 760]
    by (simp add: Book_open_def from_source_def from_format_def require_buffer_def sample_book_def)
qed

subsection \<open>Navigation\<close>

text \<open>C37: A file that opens can be navigated: it has a page, and every navigation entry and every chapter below its count is
  read back without an error, leads to an existing page (a chapter also to an existing navigation entry), and has a title
  that the reader returns as the bytes of the file's string table.  The one exception is an empty title whose offset points
  beyond the end of the file: opening accepts it, and reading it is an error.\<close>

theorem book_open_navigable:
  assumes opened: "Book_open (SliceSource_new file) scratch = Ok book"
  shows "book_page_count book \<noteq> 0 \<and>
    (\<forall>raw<book_nav_count book. \<exists>nav. book_nav raw scratch book = Ok nav \<and> nv_page nav < book_page_count book \<and>
      title_read file (nv_title nav) book) \<and>
    (\<forall>raw<book_chapter_count book. \<exists>chapter. book_chapter raw scratch book = Ok chapter \<and>
      ch_page chapter < book_page_count book \<and> ch_nav chapter < book_nav_count book \<and>
      title_read file (ch_title chapter) book)"
proof -
  obtain n where n: "slice_len file = Ok n" "book_ok n book" "bk_source book = SliceSource_new file"
    "validate_string_references scratch book = Ok ()"
    using Book_open_Ok[OF opened] by (auto simp: SliceSource_new_def)
  have "title_read file r book" if ref: "StringRef_validate (sx_length (book_string_table book)) r = Ok ()" for r
  proof (cases "sr_length r = 0")
    case True
    then show ?thesis using read_empty_string[OF n(3,1) _ ref] by simp
  next
    case False
    then show ?thesis
      using read_string_slice[OF n(2,3,1) ref] ref by (simp add: title_read_def StringRef_validate_Ok Let_def)
  qed
  moreover have "book_page_count book \<noteq> 0"
    using n(2) by (auto simp: book_ok_def directory_ok_def book_page_count_def book_section_def)
  ultimately show ?thesis
    using validated_entries[OF n(4)] book_nav_sound[of _ scratch book] book_chapter_sound[of _ scratch book] by metis
qed

lemma book_open_navigable_witness:
  "Book_open (SliceSource_new sample_file) 760 = Ok sample_book \<and>
    (\<exists>nav. book_nav 0 760 sample_book = Ok nav \<and> nv_page nav < book_page_count sample_book)"
  using book_open_navigable[OF sample_opens] sample_opens by (auto simp: book_nav_count_def book_section_def sample_book_def sample_sections_at)

subsection \<open>The index and the book\<close>

lemma checked_record_offset:
  assumes "section_in_file header s" and "i < sx_record_count s"
  shows "checked_mul (ucast i :: u64) (ucast (sx_entry_size s)) = Some (ucast i * ucast (sx_entry_size s))"
    "checked_add (sx_offset s) (ucast i * ucast (sx_entry_size s)) = Some (sx_offset s + ucast i * ucast (sx_entry_size s))"
    "unat (sx_offset s + ucast i * ucast (sx_entry_size s)) = unat (sx_offset s) + unat i * unat (sx_entry_size s)"
    "unat (sx_offset s) + unat i * unat (sx_entry_size s) + unat (sx_entry_size s) \<le> unat (bh_file_length header)"
proof -
  have r: "unat i * unat (sx_entry_size s) + unat (sx_entry_size s) \<le> unat (sx_length s)"
    using record_in_section[OF assms(1)] assms(2) by (simp add: word_less_nat_alt)
  moreover have f: "unat (sx_offset s) + unat (sx_length s) \<le> unat (bh_file_length header)"
    using assms(1) by (simp add: section_in_file_def)
  ultimately show infile: "unat (sx_offset s) + unat i * unat (sx_entry_size s) + unat (sx_entry_size s) \<le> unat (bh_file_length header)"
    by linarith
  then have lt: "unat i * unat (sx_entry_size s) < 2 ^ 64" using unat_u64_less[of "bh_file_length header"] by simp
  then show "checked_mul (ucast i :: u64) (ucast (sx_entry_size s)) = Some (ucast i * ucast (sx_entry_size s))"
    by (simp add: checked_mul_def)
  have m: "unat (ucast i * ucast (sx_entry_size s) :: u64) = unat i * unat (sx_entry_size s)"
    using lt by (simp add: unat_word_ariths)
  show "checked_add (sx_offset s) (ucast i * ucast (sx_entry_size s)) = Some (sx_offset s + ucast i * ucast (sx_entry_size s))"
    "unat (sx_offset s + ucast i * ucast (sx_entry_size s)) = unat (sx_offset s) + unat i * unat (sx_entry_size s)"
    using checked_add_below[of "sx_offset s" "ucast i * ucast (sx_entry_size s)" "bh_file_length header"] infile m by simp_all
qed

lemma index_record_range_exact:
  assumes "section_in_file header (directory_get section_id (bi_sections index))"
    and "sx_entry_size (directory_get section_id (bi_sections index)) = of_nat n" and "n < 2 ^ 32"
  shows "case index_record_range section_id i e index of
      Ok r \<Rightarrow> i < sx_record_count (directory_get section_id (bi_sections index)) \<and>
        unat (rg_offset r) = unat (sx_offset (directory_get section_id (bi_sections index))) + unat i * n \<and>
        rg_length r = n \<and> unat (rg_offset r) + rg_length r \<le> unat (bh_file_length header)
    | Err e' \<Rightarrow> sx_record_count (directory_get section_id (bi_sections index)) \<le> i \<and> e' = e
    | Panic \<Rightarrow> False"
proof (cases "i < sx_record_count (directory_get section_id (bi_sections index))")
  case True
  have "unat (of_nat n :: u32) = n" using assms(3) by (simp add: unat_of_nat take_bit_nat_eq_self)
  then show ?thesis using True assms(2) checked_record_offset[OF assms(1) True]
    by (simp add: index_record_range_def Let_def)
qed (simp add: index_record_range_def Let_def not_less)

text \<open>\<open>n\<close> is the length of the source.\<close>

definition range_in_file :: "u64 \<Rightarrow> ReadRange \<Rightarrow> bool" where
  "range_in_file n r \<longleftrightarrow> unat (rg_offset r) + rg_length r \<le> unat n"

text \<open>C39: An asynchronous reader that follows the index it parsed never reads a record or page data outside the file and
  never reads the wrong record: when \<open>parse_header\<close> accepts the header for a source of \<open>n\<close> bytes and \<open>parse\<close> the section
  table, the range of page or chunk record \<open>i\<close> exists exactly when \<open>i\<close> is below the count, is then the \<open>i\<close>-th slot of its
  section, and lies within the \<open>n\<close> bytes; a range of page data is granted exactly within the page data section, and lies
  within the \<open>n\<close> bytes too.\<close>

theorem index_ranges_in_file:
  assumes "index_parse_header prefix n = Ok header" and "index_parse header table = Ok index"
  shows "(case index_page_record_range i index of
      Ok r \<Rightarrow> i < index_page_count index \<and> range_in_file n r \<and> rg_length r = 128 \<and>
        unat (rg_offset r) = unat (sx_offset (directory_get PAGE_INDEX (bi_sections index))) + unat i * 128
    | Err e \<Rightarrow> index_page_count index \<le> i \<and> e = PageOutOfRange
    | Panic \<Rightarrow> False) \<and>
    (case index_chunk_record_range i index of
      Ok r \<Rightarrow> i < index_chunk_count index \<and> range_in_file n r \<and> rg_length r = 24 \<and>
        unat (rg_offset r) = unat (sx_offset (directory_get PAGE_CHUNK_INDEX (bi_sections index))) + unat i * 24
    | Err e \<Rightarrow> index_chunk_count index \<le> i \<and> e = ChunkOutOfRange
    | Panic \<Rightarrow> False) \<and>
    (case index_page_data_range relative len index of
      Ok r \<Rightarrow> range_in_file n r \<and> rg_length r = unat len \<and> unat relative + unat len \<le> unat (bh_page_data_length header) \<and>
        unat (rg_offset r) = unat (bh_page_data_offset header) + unat relative
    | Err e \<Rightarrow> unat (bh_page_data_length header) < unat relative + unat len \<and> e = InvalidPage
    | Panic \<Rightarrow> False)"
  (is "?pages \<and> ?chunks \<and> ?data")
proof -
  have d: "directory_ok header (bi_sections index)" "bi_header index = header"
    using assms(2) by (auto simp: index_parse_def and_then_Ok_iff Let_def directory_parse_sound split: if_splits)
  have source: "unat (bh_file_length header) \<le> unat n"
    using header_parse_sound(1) assms(1) by (simp add: index_parse_header_def)
  have s: "section_in_file header (bi_sections index ! k)" if "k < 19" for k using d that by (simp add: directory_ok_def)
  have e: "sx_entry_size (bi_sections index ! 13) = 128" "sx_entry_size (bi_sections index ! 16) = 24"
    using d by (simp_all add: directory_ok_def)
  have pages: ?pages
    using index_record_range_exact[of header PAGE_INDEX index 128 i PageOutOfRange] s e source
    by (auto simp: index_page_record_range_def index_page_count_def range_in_file_def split: res.splits)
  have chunks: ?chunks
    using index_record_range_exact[of header PAGE_CHUNK_INDEX index 24 i ChunkOutOfRange] s e source
    by (auto simp: index_chunk_record_range_def index_chunk_count_def range_in_file_def split: res.splits)
  have data: "unat (bh_page_data_offset header) + unat (bh_page_data_length header) \<le> unat (bh_file_length header)"
    using d s[of 18] by (simp add: directory_ok_def section_in_file_def)
  have ?data
  proof (cases "unat relative + unat len \<le> unat (bh_page_data_length header)")
    case True
    then have "unat (bh_page_data_offset header) + unat relative \<le> unat (bh_file_length header)"
      "unat relative + unat (ucast len :: u64) \<le> unat (bh_page_data_length header)" using data by simp_all
    then show ?thesis using True data checked_add_below[of "bh_page_data_offset header" relative "bh_file_length header"]
        checked_add_below[of relative "ucast len" "bh_page_data_length header"] source
      by (simp add: index_page_data_range_def d(2) range_in_file_def word_less_nat_alt)
  next
    case False
    then show ?thesis
      by (auto simp: index_page_data_range_def d(2) checked_add_def unat_add_small word_less_nat_alt)
  qed
  with pages chunks show ?thesis by blast
qed

lemma sample_index_parsed:
  "index_parse sample_book_header (concat (map section_bytes sample_sections)) = Ok \<lparr>bi_header = sample_book_header, bi_sections = sample_sections\<rparr>"
proof -
  have "length (concat (map section_bytes sample_sections)) = 760" by (simp add: length_blocks[where n = 40] sample_sections_def)
  moreover have "bh_section_count sample_book_header = 19" by (simp add: sample_book_header_def)
  ultimately show ?thesis using sample_directory_parsed by (simp add: index_parse_def index_table_range_def)
qed

lemma index_ranges_in_file_witness:
  "\<exists>index. index_parse_header (sample_parts ! 0) 1534 = Ok sample_book_header \<and>
    index_parse sample_book_header (concat (map section_bytes sample_sections)) = Ok index \<and>
    (\<exists>r. index_page_record_range 0 index = Ok r \<and> range_in_file 1534 r) \<and> index_page_record_range 2 index = Err PageOutOfRange \<and>
    index_page_data_range 2 3 index = Err InvalidPage"
proof -
  let ?index = "\<lparr>bi_header = sample_book_header, bi_sections = sample_sections\<rparr>"
  have counts: "index_page_count ?index = 2" "unat (bh_page_data_length sample_book_header) = 4"
    by (simp_all add: index_page_count_def sample_sections_at sample_book_header_def)
  have header: "index_parse_header (sample_parts ! 0) 1534 = Ok sample_book_header"
    using sample_header_parsed by (simp add: index_parse_header_def)
  note ranges = index_ranges_in_file[OF header sample_index_parsed, where relative = 2 and len = 3]
  show ?thesis
    using ranges[of 0] ranges[of 2] counts header sample_index_parsed by (auto split: res.splits)
qed

text \<open>The read of a record of an open book.\<close>

lemma read_record_slice:
  assumes ok: "book_ok source_length book" and src: "bk_source book = SliceSource_new file" "slice_len file = Ok source_length"
    and k: "directory_get section_id (bk_sections book) = bk_sections book ! k" "k < 19"
    and i: "i < sx_record_count (bk_sections book ! k)" and room: "unat (sx_entry_size (bk_sections book ! k)) \<le> room"
  shows "\<exists>bytes. read_record (book_section section_id book) i room book = Ok bytes \<and>
    length bytes = unat (sx_entry_size (bk_sections book ! k)) \<and>
    slice_read_exact_at file (sx_offset (bk_sections book ! k) + ucast i * ucast (sx_entry_size (bk_sections book ! k)))
      (unat (sx_entry_size (bk_sections book ! k))) = Ok bytes"
proof -
  let ?s = "bk_sections book ! k"
  have s: "section_in_file (bk_header book) ?s" using ok k(2) by (simp add: book_ok_def directory_ok_def)
  note c = checked_record_offset[OF s i]
  have n: "unat source_length = length file" using src(2) by (auto simp: slice_len_Ok unat_of_length)
  then have "unat (sx_offset ?s) + unat i * unat (sx_entry_size ?s) + unat (sx_entry_size ?s) \<le> length file"
    using c(4) ok by (simp add: book_ok_def)
  then show ?thesis using c room
    by (simp add: read_record_def Let_def book_section_def k(1) require_buffer_def from_format_def from_source_def src(1)
        SliceSource_new_def slice_read_exact_at_def)
qed

text \<open>The header only depends on the first 256 bytes.\<close>

lemma read_take:
  "i + 2 \<le> n \<Longrightarrow> n \<le> length bytes \<Longrightarrow> read_u16 (take n bytes) i = read_u16 bytes i"
  "i + 4 \<le> n \<Longrightarrow> n \<le> length bytes \<Longrightarrow> read_u32 (take n bytes) i = read_u32 bytes i"
  "i + 8 \<le> n \<Longrightarrow> n \<le> length bytes \<Longrightarrow> read_u64 (take n bytes) i = read_u64 bytes i"
  by (simp_all add: read_u16_def read_u32_def read_u64_def subslice_take)

lemma header_parse_take: "256 \<le> length bytes \<Longrightarrow> header_parse (take 256 bytes) n = header_parse bytes n"
  by (simp add: header_parse_def read_take Let_def cong: if_cong)

lemma header_parse_prefix:
  assumes "256 \<le> m" and "256 \<le> length file"
  shows "header_parse (take m file) n = header_parse (take 256 file) n"
  using header_parse_take[of "take m file" n] assms by (simp add: min_def)

text \<open>What the opening has read and parsed on its way.\<close>

lemma Book_open_reads:
  assumes "Book_open (SliceSource_new file) scratch = Ok book" and "256 \<le> m"
  obtains table where "header_parse (take m file) (of_nat (length file)) = Ok (bk_header book)" "length file < 2 ^ 64"
    "slice_read_exact_at file (bh_section_table_offset (bk_header book)) (unat (bh_section_count (bk_header book)) * ENTRY_SIZE) = Ok table"
    "directory_parse table (bk_header book) = Ok (bk_sections book)"
    "validate_string_references scratch book = Ok ()"
proof -
  obtain n bytes table where o: "slice_len file = Ok n" "slice_read_exact_at file 0 256 = Ok bytes"
    "header_parse bytes n = Ok (bk_header book)"
    "slice_read_exact_at file (bh_section_table_offset (bk_header book)) (unat (bh_section_count (bk_header book)) * ENTRY_SIZE) = Ok table"
    "directory_parse table (bk_header book) = Ok (bk_sections book)" "validate_string_references scratch book = Ok ()"
    using assms(1) by (auto simp: Book_open_def and_then_Ok_iff Let_def SliceSource_new_def)
  have "256 \<le> length file" "bytes = take 256 file"
    using o(2) by (auto simp: slice_read_exact_at_def subslice_def split: if_splits)
  then have "header_parse (take m file) (of_nat (length file)) = Ok (bk_header book)"
    using o(1,3) header_parse_prefix[OF assms(2)] by (auto simp: slice_len_Ok)
  then show thesis using that o(1,4-6) by (auto simp: slice_len_Ok)
qed

lemma slice_read_length: "slice_read_exact_at file offset n = Ok bytes \<Longrightarrow> length bytes = n"
  by (auto simp: slice_read_exact_at_def Let_def split: if_splits)

text \<open>
  An index with the header and the sections of an opened book.  The range of a record can be read and holds the bytes of the
  record that the book reads.
\<close>

lemma index_record_read:
  assumes ok: "book_ok source_length book" and src: "bk_source book = SliceSource_new file" "slice_len file = Ok source_length"
    and k: "directory_get section_id (bk_sections book) = bk_sections book ! k" "k < 19"
    and i: "i < sx_record_count (bk_sections book ! k)" and room: "unat (sx_entry_size (bk_sections book ! k)) \<le> room"
  obtains r bytes where
    "index_record_range section_id i err \<lparr>bi_header = bk_header book, bi_sections = bk_sections book\<rparr> = Ok r"
    "slice_read_exact_at file (rg_offset r) (rg_length r) = Ok bytes"
    "read_record (book_section section_id book) i room book = Ok bytes" "length bytes = unat (sx_entry_size (bk_sections book ! k))"
proof -
  have s: "section_in_file (bk_header book) (bk_sections book ! k)" using ok k(2) by (simp add: book_ok_def directory_ok_def)
  obtain bytes where bytes: "read_record (book_section section_id book) i room book = Ok bytes"
    "length bytes = unat (sx_entry_size (bk_sections book ! k))"
    "slice_read_exact_at file (sx_offset (bk_sections book ! k) + ucast i * ucast (sx_entry_size (bk_sections book ! k)))
      (unat (sx_entry_size (bk_sections book ! k))) = Ok bytes"
    using read_record_slice[OF assms] by blast
  show thesis
    by (rule that[of "\<lparr>rg_offset = sx_offset (bk_sections book ! k) + ucast i * ucast (sx_entry_size (bk_sections book ! k)),
        rg_length = unat (sx_entry_size (bk_sections book ! k))\<rparr>" bytes])
      (use bytes i checked_record_offset[OF s i] in \<open>simp_all add: index_record_range_def k(1) Let_def\<close>)
qed

lemma index_pages_read:
  assumes "book_ok source_length book" and "bk_source book = SliceSource_new file" and "slice_len file = Ok source_length"
    and raw: "raw < book_page_count book" and "128 \<le> scratch"
    and index: "index = \<lparr>bi_header = bk_header book, bi_sections = bk_sections book\<rparr>"
  shows "\<exists>r bytes. index_page_record_range raw index = Ok r \<and>
    slice_read_exact_at file (rg_offset r) (rg_length r) = Ok bytes \<and>
    from_format (index_parse_page raw bytes index) = book_page raw scratch book"
proof -
  have entry: "sx_entry_size (bk_sections book ! 13) = 128" using assms(1) by (simp add: book_ok_def directory_ok_def)
  have i: "raw < sx_record_count (bk_sections book ! 13)" using raw by (simp add: book_page_count_def book_section_def)
  obtain r bytes where "index_page_record_range raw index = Ok r" "slice_read_exact_at file (rg_offset r) (rg_length r) = Ok bytes"
    "read_record (book_section PAGE_INDEX book) raw scratch book = Ok bytes" "length bytes = 128"
    by (rule index_record_read[OF assms(1-3) _ _ i, of PAGE_INDEX scratch PageOutOfRange])
      (use assms(5) entry in \<open>simp_all add: index_page_record_range_def index\<close>)
  then show ?thesis
    using raw by (auto simp: index index_parse_page_def index_page_count_def book_page_def book_page_count_def book_section_def)
qed

lemma index_chunks_read:
  assumes "book_ok source_length book" and "bk_source book = SliceSource_new file" and "slice_len file = Ok source_length"
    and raw: "raw < book_chunk_count book" and "128 \<le> scratch"
    and index: "index = \<lparr>bi_header = bk_header book, bi_sections = bk_sections book\<rparr>"
  shows "\<exists>r bytes. index_chunk_record_range raw index = Ok r \<and>
    slice_read_exact_at file (rg_offset r) (rg_length r) = Ok bytes \<and>
    from_format (index_parse_chunk bytes index) = book_chunk raw scratch book"
proof -
  have entry: "sx_entry_size (bk_sections book ! 16) = 24" using assms(1) by (simp add: book_ok_def directory_ok_def)
  have i: "raw < sx_record_count (bk_sections book ! 16)" using raw by (simp add: book_chunk_count_def book_section_def)
  obtain r bytes where "index_chunk_record_range raw index = Ok r" "slice_read_exact_at file (rg_offset r) (rg_length r) = Ok bytes"
    "read_record (book_section PAGE_CHUNK_INDEX book) raw scratch book = Ok bytes" "length bytes = 24"
    by (rule index_record_read[OF assms(1-3) _ _ i, of PAGE_CHUNK_INDEX scratch ChunkOutOfRange])
      (use assms(5) entry in \<open>simp_all add: index_chunk_record_range_def index\<close>)
  then show ?thesis
    using raw by (auto simp: index index_parse_chunk_def index_page_count_def book_chunk_def book_page_count_def
        book_chunk_count_def book_section_def)
qed

lemma index_profile_read:
  assumes "validate_string_references scratch book = Ok ()" and "bk_source book = SliceSource_new file"
    and index: "index = \<lparr>bi_header = bk_header book, bi_sections = bk_sections book\<rparr>"
  shows "\<exists>bytes. slice_read_exact_at file (rg_offset (index_display_profile_range index))
      (rg_length (index_display_profile_range index)) = Ok bytes \<and>
    from_format (index_parse_display_profile bytes index) = book_display_profile scratch book"
proof -
  obtain profile where "book_display_profile scratch book = Ok profile"
    using assms(1) by (auto simp: validate_string_references_def and_then_Ok_iff)
  then obtain bytes where b: "read_prefix (book_section DISPLAY_PROFILE book) DISPLAY_PROFILE_MIN scratch book = Ok bytes"
    by (auto simp: book_display_profile_def and_then_Ok_iff)
  then have r: "slice_read_exact_at file (sx_offset (book_section DISPLAY_PROFILE book)) DISPLAY_PROFILE_MIN = Ok bytes"
    by (auto simp: read_prefix_def and_then_Ok_iff assms(2) SliceSource_new_def split: if_splits)
  then show ?thesis
    using b slice_read_length[OF r]
    by (simp add: index_display_profile_range_def index_parse_display_profile_def book_display_profile_def index
        book_section_def book_string_table_def)
qed

lemma index_rendition_read:
  assumes r: "slice_read_exact_at file (rg_offset (index_rendition_identity_range index))
      (rg_length (index_rendition_identity_range index)) = Ok bytes"
    and "bk_source book = SliceSource_new file" and "128 \<le> scratch"
    and index: "index = \<lparr>bi_header = bk_header book, bi_sections = bk_sections book\<rparr>"
  shows "from_format (index_parse_rendition_identity bytes index) = book_rendition_identity scratch book"
  using r slice_read_length[OF r] assms(3)
  by (auto simp: index_rendition_identity_range_def index_parse_rendition_identity_def book_rendition_identity_def index
      book_section_def read_prefix_def require_buffer_def from_format_def from_source_def assms(2) SliceSource_new_def
      RENDITION_IDENTITY_LENGTH_def Let_def)

text \<open>C38: The asynchronous reader agrees with the synchronous one: for a file that opens, \<open>parse_header\<close> accepts every prefix
  of the file that holds the header, the range of the section table can be read, and \<open>parse\<close> makes an index of it.  The
  index has the same number of pages and chunks as the book; the range that it gives for a page or chunk record can be read,
  and parsing the bytes found there returns exactly what the book returns for that record, errors included; likewise for the
  display profile, and for the rendition identity if its range can be read.\<close>

theorem index_reads_as_book:
  assumes opened: "Book_open (SliceSource_new file) scratch = Ok book" and room: "128 \<le> scratch" and prefix: "256 \<le> m"
  shows "\<exists>header table index.
    index_parse_header (take m file) (of_nat (length file)) = Ok header \<and>
    slice_read_exact_at file (rg_offset (index_table_range header)) (rg_length (index_table_range header)) = Ok table \<and>
    index_parse header table = Ok index \<and>
    index_page_count index = book_page_count book \<and> index_chunk_count index = book_chunk_count book \<and>
    (\<forall>raw<book_page_count book. \<exists>r bytes. index_page_record_range raw index = Ok r \<and>
      slice_read_exact_at file (rg_offset r) (rg_length r) = Ok bytes \<and>
      from_format (index_parse_page raw bytes index) = book_page raw scratch book) \<and>
    (\<forall>raw<book_chunk_count book. \<exists>r bytes. index_chunk_record_range raw index = Ok r \<and>
      slice_read_exact_at file (rg_offset r) (rg_length r) = Ok bytes \<and>
      from_format (index_parse_chunk bytes index) = book_chunk raw scratch book) \<and>
    (\<exists>bytes. slice_read_exact_at file (rg_offset (index_display_profile_range index))
        (rg_length (index_display_profile_range index)) = Ok bytes \<and>
      from_format (index_parse_display_profile bytes index) = book_display_profile scratch book) \<and>
    (\<forall>bytes. slice_read_exact_at file (rg_offset (index_rendition_identity_range index))
        (rg_length (index_rendition_identity_range index)) = Ok bytes \<longrightarrow>
      from_format (index_parse_rendition_identity bytes index) = book_rendition_identity scratch book)"
proof -
  obtain n where n: "book_ok n book" "bk_source book = SliceSource_new file" "slice_len file = Ok n"
    using Book_open_Ok[OF opened] by (auto simp: SliceSource_new_def)
  obtain table where t: "header_parse (take m file) (of_nat (length file)) = Ok (bk_header book)"
    "slice_read_exact_at file (bh_section_table_offset (bk_header book)) (unat (bh_section_count (bk_header book)) * ENTRY_SIZE) = Ok table"
    "directory_parse table (bk_header book) = Ok (bk_sections book)"
    "validate_string_references scratch book = Ok ()"
    using Book_open_reads[OF opened prefix] by metis
  define index where "index = \<lparr>bi_header = bk_header book, bi_sections = bk_sections book\<rparr>"
  have "index_parse (bk_header book) table = Ok index"
    using t(2,3) slice_read_length[OF t(2)] by (simp add: index_parse_def index_table_range_def index_def)
  moreover have "index_page_count index = book_page_count book" "index_chunk_count index = book_chunk_count book"
    by (simp_all add: index_def index_page_count_def index_chunk_count_def book_page_count_def book_chunk_count_def book_section_def)
  ultimately show ?thesis
    using t(1,2) index_pages_read[OF n _ room index_def] index_chunks_read[OF n _ room index_def]
      index_profile_read[OF t(4) n(2) index_def] index_rendition_read[OF _ n(2) room index_def]
    by (intro exI[of _ "bk_header book"] exI[of _ table] exI[of _ index])
      (simp add: index_parse_header_def index_table_range_def)
qed

lemma index_reads_as_book_witness:
  "Book_open (SliceSource_new sample_file) 760 = Ok sample_book \<and>
    (\<exists>header table index r bytes. index_parse_header (take 256 sample_file) (of_nat (length sample_file)) = Ok header \<and>
      index_parse header table = Ok index \<and> index_page_record_range 1 index = Ok r \<and>
      slice_read_exact_at sample_file (rg_offset r) (rg_length r) = Ok bytes \<and>
      from_format (index_parse_page 1 bytes index) = book_page 1 760 sample_book)"
proof -
  have "(1 :: u32) < book_page_count sample_book" by (simp add: sample_simps)
  with index_reads_as_book[OF sample_opens, of 256] sample_opens show ?thesis
    by (simp only: numeral_le_iff semiring_norm simp_thms) blast
qed

end
