(* ===== verification/Book_Validate.thy ===== *)
theory Book_Validate
  imports Orders Stores Book_Reader Crc32 "HOL-Library.Product_Lexorder"
begin

text \<open>
  The validator (\<^verbatim>\<open>validate.rs\<close>, \<^verbatim>\<open>record_validation.rs\<close>, \<^verbatim>\<open>link_validation.rs\<close>,
  \<^verbatim>\<open>validation_crc.rs\<close>).  A check returns its result together with the issues it shows to the visitor, in order; the
  visitor itself is the caller's.
\<close>

subsection \<open>Issues and the visitor\<close>

datatype ValidationCode =
    VcFormat | VcBounds | VcOrdering | VcReservedBytes | VcSectionCrc | VcPageCrc | VcRequiredFeatures | VcProfile
  | VcStringReference | VcPlane | VcChunk | VcTransition | VcNavigation | VcChapter | VcFontResource

record ValidationIssue =
  is_code :: ValidationCode
  is_section_id :: "u16 option"
  is_record_index :: "u32 option"

datatype 'e ValidationError = VeSource 'e | VeFormat FormatError | VeBufferTooSmall nat nat

type_synonym ('a, 'e) check = "('a, 'e ValidationError) res \<times> ValidationIssue list"

text \<open>\<open>?\<close> and \<open>;\<close>: what the first part shows comes before what the second part shows.\<close>

definition check_then :: "('a, 'e) check \<Rightarrow> ('a \<Rightarrow> ('b, 'e) check) \<Rightarrow> ('b, 'e) check" where
  "check_then m f =
    (case fst m of
       Ok x \<Rightarrow> (fst (f x), snd m @ snd (f x))
     | Err e \<Rightarrow> (Err e, snd m)
     | Panic \<Rightarrow> (Panic, snd m))"

definition quietly :: "('a, 'e ValidationError) res \<Rightarrow> ('a, 'e) check" where
  "quietly r = (r, [])"

definition visit :: "ValidationCode \<Rightarrow> u16 option \<Rightarrow> u32 option \<Rightarrow> (unit, 'e) check" where
  "visit code section_id record_index =
    (Ok (), [\<lparr>is_code = code, is_section_id = section_id, is_record_index = record_index\<rparr>])"

definition visit_if :: "bool \<Rightarrow> ValidationCode \<Rightarrow> u16 option \<Rightarrow> u32 option \<Rightarrow> (unit, 'e) check" where
  "visit_if b code section_id record_index = (if b then visit code section_id record_index else quietly (Ok ()))"

definition require_scratch :: "nat \<Rightarrow> nat \<Rightarrow> (unit, 'e ValidationError) res" where
  "require_scratch scratch required = (if scratch < required then Err (VeBufferTooSmall required scratch) else Ok ())"

primrec map_book_error :: "'e BookError \<Rightarrow> 'e ValidationError" where
  "map_book_error (BkSource e) = VeSource e"
| "map_book_error (BkBufferTooSmall required provided) = VeBufferTooSmall required provided"
| "map_book_error (BkFormat e) = VeFormat e"

definition code_for_format :: "FormatError \<Rightarrow> ValidationCode" where
  "code_for_format error =
    (case error of
       FileOutOfBounds \<Rightarrow> VcBounds
     | InvalidDisplayProfile \<Rightarrow> VcProfile
     | UnsupportedWaveformHint _ \<Rightarrow> VcProfile
     | InvalidStringRef \<Rightarrow> VcStringReference
     | InvalidNavigation \<Rightarrow> VcNavigation
     | NavOutOfRange \<Rightarrow> VcNavigation
     | InvalidChapter \<Rightarrow> VcChapter
     | ChapterOutOfRange \<Rightarrow> VcChapter
     | InvalidChunk \<Rightarrow> VcChunk
     | ChunkOutOfRange \<Rightarrow> VcChunk
     | InvalidTransition \<Rightarrow> VcTransition
     | TransitionOutOfRange \<Rightarrow> VcTransition
     | InvalidFontResource \<Rightarrow> VcFontResource
     | InvalidPage \<Rightarrow> VcPlane
     | PlaneSlotOutOfRange \<Rightarrow> VcPlane
     | UnsupportedPixelFormat _ \<Rightarrow> VcPlane
     | UnsupportedCompression _ \<Rightarrow> VcPlane
     | _ \<Rightarrow> VcFormat)"

text \<open>\<open>unwrap_or\<close> of a read.\<close>

definition unwrap_or :: "'a \<Rightarrow> 'a format_res \<Rightarrow> 'a" where
  "unwrap_or d r = (case r of Ok v \<Rightarrow> v | _ \<Rightarrow> d)"

definition any_nonzero :: "bytes \<Rightarrow> bool" where
  "any_nonzero bytes = list_ex (\<lambda>byte. byte \<noteq> 0) bytes"

text \<open>A loop over records \<open>raw\<close>, \<open>raw + 1\<close> and so on that carries a value from one iteration to the next.\<close>

fun check_records :: "nat \<Rightarrow> u32 \<Rightarrow> (u32 \<Rightarrow> 's \<Rightarrow> ('s, 'e) check) \<Rightarrow> 's \<Rightarrow> (unit, 'e) check" where
  "check_records 0 raw body s = quietly (Ok ())"
| "check_records (Suc n) raw body s = check_then (body raw s) (\<lambda>s. check_records n (raw + 1) body s)"

subsection \<open>Checksums of a range\<close>

function crc_update_range :: "'e ReadAt \<Rightarrow> u32 \<Rightarrow> u64 \<Rightarrow> u64 \<Rightarrow> nat \<Rightarrow> (u32, 'e ValidationError) res" where
  "crc_update_range source crc offset len scratch =
    (if scratch = 0 then Err (VeBufferTooSmall 1 0)
     else if len = 0 then Ok crc
     else
       let count = min (unat len) scratch in
       and_then (map_err VeSource (ra_read_exact_at source offset count)) (\<lambda>bytes.
       crc_update_range source (core_crc32_update crc bytes) (saturating_add offset (of_nat count)) (len - of_nat count) scratch))"
  by pat_completeness auto
termination
proof (relation "measure (\<lambda>(source, crc, offset, len, scratch). unat len)", goal_cases)
  case (2 source crc offset len scratch count bytes)
  then have "0 < count" "count \<le> unat len" by (simp_all add: unat_gt_0)
  moreover from this have "unat (of_nat count :: u64) = count"
    using unat_u64_less[of len] by (simp add: unat_of_nat take_bit_nat_eq_self)
  ultimately show ?case by (simp add: unat_sub word_le_nat_alt)
qed simp

declare crc_update_range.simps [simp del]

definition crc_range :: "'e ReadAt \<Rightarrow> u64 \<Rightarrow> u64 \<Rightarrow> nat \<Rightarrow> (u32, 'e ValidationError) res" where
  "crc_range source offset len scratch =
    and_then (crc_update_range source (- 1) offset len scratch) (\<lambda>crc. Ok (core_crc32_finish crc))"

subsection \<open>The whole file\<close>

definition SUPPORTED_READER_FEATURES :: u64 where "SUPPORTED_READER_FEATURES = push_bit 11 1 - 1"

text \<open>The loop over \<open>chunks_exact\<close> of the table.\<close>

fun preflight_loop :: "nat \<Rightarrow> nat \<Rightarrow> bytes \<Rightarrow> u16 option \<Rightarrow> (unit, 'e) check" where
  "preflight_loop 0 index table previous = quietly (Ok ())"
| "preflight_loop (Suc n) index table previous =
    (let record = subslice table (index * ENTRY_SIZE) ENTRY_SIZE;
         section_id = unwrap_or 0 (read_u16 record 0) in
     check_then (visit_if (case previous of Some value \<Rightarrow> section_id \<le> value | None \<Rightarrow> False) VcOrdering (Some section_id) None) (\<lambda>_.
     check_then (visit_if (unwrap_or 1 (read_u16 record 2) \<noteq> 0 \<or> any_nonzero (subslice record 32 8)) VcReservedBytes
       (Some section_id) None) (\<lambda>_.
     preflight_loop n (Suc index) table (Some section_id))))"

definition preflight :: "'e ReadAt \<Rightarrow> nat \<Rightarrow> (bool, 'e) check" where
  "preflight source scratch =
    check_then (quietly (require_scratch scratch HEADER_SIZE)) (\<lambda>_.
    check_then (quietly (map_err VeSource (ra_len source))) (\<lambda>source_len.
    check_then (quietly (map_err VeSource (ra_read_exact_at source 0 HEADER_SIZE))) (\<lambda>header.
    check_then (visit_if (any_nonzero (subslice header 8 4) \<or> any_nonzero (drop 68 header)) VcReservedBytes None None) (\<lambda>_.
    let declared = unwrap_or (- 1) (read_u64 header 16) in
    if declared > source_len then check_then (visit VcBounds None None) (\<lambda>_. quietly (Ok False))
    else
      let table_offset = unwrap_or (- 1) (read_u64 header 24);
          count = unat (unwrap_or 0 (read_u16 header 38));
          table_len = count * ENTRY_SIZE;
          table_end = saturating_add table_offset (of_nat table_len) in
      if table_end > source_len then check_then (visit VcBounds None None) (\<lambda>_. quietly (Ok False))
      else
        check_then (quietly (require_scratch scratch table_len)) (\<lambda>_.
        check_then (quietly (map_err VeSource (ra_read_exact_at source table_offset table_len))) (\<lambda>table.
        check_then (preflight_loop count 0 table None) (\<lambda>_. quietly (Ok True))))))))"

fun validate_sections_loop :: "Section list \<Rightarrow> 'e Book \<Rightarrow> nat \<Rightarrow> (unit, 'e) check" where
  "validate_sections_loop [] book scratch = quietly (Ok ())"
| "validate_sections_loop (section # rest) book scratch =
    (if sx_crc32 section = 0 then validate_sections_loop rest book scratch
     else
       check_then (quietly (crc_range (bk_source book) (sx_offset section) (sx_length section) scratch)) (\<lambda>actual.
       check_then (visit_if (actual \<noteq> sx_crc32 section) VcSectionCrc (Some (sx_id section)) None) (\<lambda>_.
       validate_sections_loop rest book scratch)))"

definition validate_sections :: "'e Book \<Rightarrow> nat \<Rightarrow> (unit, 'e) check" where
  "validate_sections book scratch = validate_sections_loop (bk_sections book) book scratch"

definition read_section_prefix :: "'e Book \<Rightarrow> Section \<Rightarrow> nat \<Rightarrow> nat \<Rightarrow> (bytes, 'e ValidationError) res" where
  "read_section_prefix book section required scratch =
    and_then (require_scratch scratch required) (\<lambda>_.
    map_err VeSource (ra_read_exact_at (bk_source book) (sx_offset section) required))"

definition validate_requirements :: "'e Book \<Rightarrow> nat \<Rightarrow> (unit, 'e) check" where
  "validate_requirements book scratch =
    (let section = book_section READER_REQUIREMENTS book in
     check_then (quietly (read_section_prefix book section 16 scratch)) (\<lambda>bytes.
     visit_if (unwrap_or (- 1) (read_u64 bytes 8) AND NOT SUPPORTED_READER_FEATURES \<noteq> 0) VcRequiredFeatures
       (Some (sx_id section)) None))"

subsection \<open>Pages\<close>

definition slot_order :: "PlaneSlot list" where
  "slot_order = [OverlayMsb, OverlayLsb, FastBase, Reserved]"

definition expected_bitmap :: "PixelFormat \<Rightarrow> u8" where
  "expected_bitmap format =
    (case format of Gray1Packed \<Rightarrow> 0x04 | Gray2Packed \<Rightarrow> 0x07 | Gray4Packed \<Rightarrow> 0x0f | _ \<Rightarrow> 0x01)"

fun planes_clash :: "PlaneSlot list \<Rightarrow> PlaneDirectory \<Rightarrow> (u64 \<times> u64) list \<Rightarrow> bool" where
  "planes_clash [] planes ranges = False"
| "planes_clash (slot # rest) planes ranges =
    (case plane_get slot planes of
       None \<Rightarrow> planes_clash rest planes (ranges @ [(0, 0)])
     | Some plane \<Rightarrow>
         let start = pd_offset plane; end_offset = start + ucast (pd_length plane) in
         if start mod 4 \<noteq> 0 then True
         else if list_ex (\<lambda>prior. snd prior \<noteq> 0 \<and> start < snd prior \<and> fst prior < end_offset) ranges then True
         else planes_clash rest planes (ranges @ [(start, end_offset)]))"

definition invalid_plane_directory :: "PixelFormat \<Rightarrow> PlaneDirectory \<Rightarrow> bool" where
  "invalid_plane_directory format planes =
    (if pdir_bitmap planes \<noteq> expected_bitmap format \<or> pdir_bitmap planes AND 0x08 \<noteq> 0 then True
     else planes_clash slot_order planes [])"

fun page_crc_loop :: "PlaneSlot list \<Rightarrow> 'e Book \<Rightarrow> PageInfo \<Rightarrow> u32 \<Rightarrow> nat \<Rightarrow> (u32, 'e ValidationError) res" where
  "page_crc_loop [] book page crc scratch = Ok crc"
| "page_crc_loop (slot # rest) book page crc scratch =
    (case plane_get slot (pg_planes page) of
       None \<Rightarrow> page_crc_loop rest book page crc scratch
     | Some plane \<Rightarrow>
         and_then (crc_update_range (bk_source book) crc (bh_page_data_offset (bk_header book) + pd_offset plane)
           (ucast (pd_length plane)) scratch) (\<lambda>crc. page_crc_loop rest book page crc scratch))"

definition validate_page_crc :: "'e Book \<Rightarrow> PageInfo \<Rightarrow> u32 \<Rightarrow> nat \<Rightarrow> (unit, 'e) check" where
  "validate_page_crc book page raw scratch =
    (if pg_page_crc32 page = 0 then quietly (Ok ())
     else
       check_then (quietly (page_crc_loop slot_order book page (- 1) scratch)) (\<lambda>crc.
       visit_if (core_crc32_finish crc \<noteq> pg_page_crc32 page) VcPageCrc (Some PAGE_INDEX) (Some raw)))"

definition page_reserved :: "bytes \<Rightarrow> bool" where
  "page_reserved bytes =
    (any_nonzero (subslice bytes 49 3 @ subslice bytes 84 44) \<or> unwrap_or (- 1) (read_u32 bytes 12) AND NOT 1 \<noteq> 0)"

definition validate_page :: "'e Book \<Rightarrow> nat \<Rightarrow> u32 \<Rightarrow> u32 \<Rightarrow> (u32, 'e) check" where
  "validate_page book scratch raw previous_progress =
    (let pages = book_section PAGE_INDEX book; section_id = Some (sx_id pages) in
     check_then (quietly (map_err map_book_error (read_record pages raw scratch book))) (\<lambda>bytes.
     check_then (visit_if (page_reserved bytes) VcReservedBytes section_id (Some raw)) (\<lambda>_.
     case book_page raw scratch book of
       Ok page \<Rightarrow>
         check_then (visit_if (pg_progress_start_ppm page < previous_progress \<or> pg_page_kind page = 3) VcOrdering section_id (Some raw)) (\<lambda>_.
         check_then (visit_if (invalid_plane_directory (pg_pixel_format page) (pg_planes page)) VcPlane section_id (Some raw)) (\<lambda>_.
         check_then (validate_page_crc book page raw scratch) (\<lambda>_. quietly (Ok (pg_progress_end_ppm page)))))
     | _ \<Rightarrow> check_then (visit VcPlane section_id (Some raw)) (\<lambda>_. quietly (Ok previous_progress)))))"

definition validate_pages :: "'e Book \<Rightarrow> nat \<Rightarrow> (unit, 'e) check" where
  "validate_pages book scratch = check_records (unat (book_page_count book)) 0 (validate_page book scratch) 0"

subsection \<open>Chunks and transitions\<close>

definition chunk_key :: "bytes \<Rightarrow> u32 \<times> u8 \<times> u8" where
  "chunk_key bytes = (unwrap_or (- 1) (read_u32 bytes 0), bytes ! 4, bytes ! 5)"

definition chunk_outside :: "PageChunk \<Rightarrow> PageInfo \<Rightarrow> bool" where
  "chunk_outside chunk page =
    (case plane_get (ck_plane_slot chunk) (pg_planes page) of
       None \<Rightarrow> True
     | Some plane \<Rightarrow> ck_offset chunk < pd_offset plane \<or>
         ck_offset chunk + ucast (ck_compressed_length chunk) > pd_offset plane + ucast (pd_length plane))"

definition chunk_misshapen :: "PageChunk \<Rightarrow> PageInfo \<Rightarrow> bool" where
  "chunk_misshapen chunk page =
    (pg_stored_width page = 800 \<and> pg_stored_height page = 480 \<and> pg_pixel_format page = Gray2Packed \<and>
     (ck_row_count chunk \<noteq> 16 \<or> ck_uncompressed_length chunk \<noteq> 1600 \<or> ck_chunk_index chunk \<ge> 30))"

definition validate_chunk :: "'e Book \<Rightarrow> nat \<Rightarrow> u32 \<Rightarrow> (u32 \<times> u8 \<times> u8) option \<Rightarrow> ((u32 \<times> u8 \<times> u8) option, 'e) check" where
  "validate_chunk book scratch raw previous =
    (let section = book_section PAGE_CHUNK_INDEX book; section_id = Some (sx_id section) in
     check_then (quietly (map_err map_book_error (read_record section raw scratch book))) (\<lambda>bytes.
     let key = chunk_key bytes; parsed = book_chunk raw scratch book;
         unordered = (case previous of Some value \<Rightarrow> key \<le> value | None \<Rightarrow> False) in
     check_then
       (case parsed of
          Ok chunk \<Rightarrow>
            (case book_page (ck_page_number chunk) scratch book of
               Ok page \<Rightarrow> visit_if (unordered \<or> chunk_outside chunk page \<or> chunk_misshapen chunk page) VcChunk section_id (Some raw)
             | _ \<Rightarrow> visit VcChunk section_id (Some raw))
        | _ \<Rightarrow> visit VcChunk section_id (Some raw)) (\<lambda>_.
     quietly (Ok (Some key)))))"

definition validate_chunks :: "'e Book \<Rightarrow> nat \<Rightarrow> (unit, 'e) check" where
  "validate_chunks book scratch = check_records (unat (book_chunk_count book)) 0 (validate_chunk book scratch) None"

definition trailing_zeros :: "u32 \<Rightarrow> nat" where
  "trailing_zeros changed = (case position (bit changed) [0..<32] of Some k \<Rightarrow> k | None \<Rightarrow> 32)"

definition leading_zeros :: "u32 \<Rightarrow> nat" where
  "leading_zeros changed = (case position (\<lambda>k. bit changed (31 - k)) [0..<32] of Some k \<Rightarrow> k | None \<Rightarrow> 32)"

definition transition_invalid :: "PageTransition \<Rightarrow> bool" where
  "transition_invalid value =
    (let changed = tr_changed_chunk_mask value in
     if changed \<noteq> 0 then
       let first = of_nat (trailing_zeros changed) :: u16; last = of_nat (31 - leading_zeros changed) :: u16 in
       tr_first_changed_chunk value \<noteq> first \<or> tr_changed_chunk_count value \<noteq> last - first + 1
     else False)"

definition validate_transition :: "'e Book \<Rightarrow> nat \<Rightarrow> u32 \<Rightarrow> unit \<Rightarrow> (unit, 'e) check" where
  "validate_transition book scratch raw _ =
    visit_if (case book_transition raw scratch book of Ok value \<Rightarrow> transition_invalid value | _ \<Rightarrow> True) VcTransition
      (Some (sx_id (book_section PAGE_TRANSITION_INDEX book))) (Some raw)"

definition validate_transitions :: "'e Book \<Rightarrow> nat \<Rightarrow> (unit, 'e) check" where
  "validate_transitions book scratch =
    check_records (unat (book_transition_count book)) 0 (validate_transition book scratch) ()"

subsection \<open>Links\<close>

definition invalid_link :: "u32 \<Rightarrow> bytes \<Rightarrow> bool" where
  "invalid_link nav_count bytes =
    list_ex (\<lambda>value. value \<noteq> - 1 \<and> value \<ge> nav_count) (map (\<lambda>offset. unwrap_or (- 1) (read_u32 bytes offset)) [32, 36, 40])"

definition validate_nav :: "'e Book \<Rightarrow> nat \<Rightarrow> u32 \<Rightarrow> unit \<Rightarrow> (unit, 'e) check" where
  "validate_nav book scratch raw _ =
    (let nav = book_section NAV_INDEX book in
     check_then (quietly (map_err map_book_error (read_record nav raw scratch book))) (\<lambda>bytes.
     visit_if (invalid_link (book_nav_count book) bytes \<or> unwrap_or 1 (read_u32 bytes 44) \<noteq> 0) VcNavigation
       (Some (sx_id nav)) (Some raw)))"

definition validate_navigation :: "'e Book \<Rightarrow> nat \<Rightarrow> (unit, 'e) check" where
  "validate_navigation book scratch = check_records (unat (book_nav_count book)) 0 (validate_nav book scratch) ()"

text \<open>The fields that a chapter record repeats of its navigation record: title, page, level and kind.\<close>

definition chapter_fields :: "bytes \<Rightarrow> u32 list" where
  "chapter_fields bytes =
    [unwrap_or (- 1) (read_u32 bytes 8), unwrap_or (- 1) (read_u32 bytes 12), unwrap_or (- 1) (read_u32 bytes 16),
     ucast (unwrap_or (- 1) (read_u16 bytes 20)), ucast (unwrap_or (- 1) (read_u16 bytes 22))]"

definition nav_fields :: "bytes \<Rightarrow> u32 list" where
  "nav_fields bytes =
    [unwrap_or (- 1) (read_u32 bytes 8), unwrap_or (- 1) (read_u32 bytes 12), unwrap_or (- 1) (read_u32 bytes 28),
     ucast (unwrap_or (- 1) (read_u16 bytes 6)), ucast (unwrap_or (- 1) (read_u16 bytes 4))]"

definition validate_chapter :: "'e Book \<Rightarrow> nat \<Rightarrow> u32 \<Rightarrow> unit \<Rightarrow> (unit, 'e) check" where
  "validate_chapter book scratch raw _ =
    (let chapters = book_section CHAPTER_INDEX book; nav = book_section NAV_INDEX book in
     check_then (quietly (map_err map_book_error (read_record chapters raw scratch book))) (\<lambda>bytes.
     let nav_index = unwrap_or (- 1) (read_u32 bytes 4); chapter = chapter_fields bytes in
     if nav_index \<ge> book_nav_count book then quietly (Ok ())
     else
       check_then (quietly (map_err map_book_error (read_record nav nav_index scratch book))) (\<lambda>bytes.
       visit_if (chapter \<noteq> nav_fields bytes) VcChapter (Some (sx_id chapters)) (Some raw))))"

definition validate_chapters :: "'e Book \<Rightarrow> nat \<Rightarrow> (unit, 'e) check" where
  "validate_chapters book scratch = check_records (unat (book_chapter_count book)) 0 (validate_chapter book scratch) ()"

fun compare_strings_loop :: "nat \<Rightarrow> u32 \<Rightarrow> 'e Book \<Rightarrow> StringRef \<Rightarrow> StringRef \<Rightarrow> (Ordering, 'e ValidationError) res" where
  "compare_strings_loop 0 index book left right = Ok (compare_words (sr_length left) (sr_length right))"
| "compare_strings_loop (Suc n) index book left right =
    (let table = book_string_table book in
     and_then (map_err VeSource (ra_read_exact_at (bk_source book) (sx_offset table + ucast (sr_offset left + index)) 1)) (\<lambda>left_byte.
     and_then (map_err VeSource (ra_read_exact_at (bk_source book) (sx_offset table + ucast (sr_offset right + index)) 1)) (\<lambda>right_byte.
     case compare_words (left_byte ! 0) (right_byte ! 0) of
       Equal \<Rightarrow> compare_strings_loop n (index + 1) book left right
     | order \<Rightarrow> Ok order)))"

definition compare_strings :: "'e Book \<Rightarrow> StringRef \<Rightarrow> StringRef \<Rightarrow> (Ordering, 'e ValidationError) res" where
  "compare_strings book left right =
    compare_strings_loop (unat (min (sr_length left) (sr_length right))) 0 book left right"

definition validate_font ::
    "'e Book \<Rightarrow> nat \<Rightarrow> u32 \<Rightarrow> (StringRef \<times> u32) option \<Rightarrow> ((StringRef \<times> u32) option, 'e) check" where
  "validate_font book scratch raw previous =
    (let fonts = book_section FONT_RESOURCE_INDEX book; section_id = Some (sx_id fonts) in
     check_then (quietly (map_err map_book_error (read_record fonts raw scratch book))) (\<lambda>bytes.
     case font_parse bytes raw (sx_length (book_string_table book)) of
       Ok font \<Rightarrow>
         check_then
           (case previous of
              None \<Rightarrow> quietly (Ok ())
            | Some (path, face) \<Rightarrow>
                check_then (quietly (compare_strings book path (fr_source_path font))) (\<lambda>order.
                visit_if (order = Greater \<or> (order = Equal \<and> face \<ge> fr_face_index font)) VcOrdering section_id (Some raw))) (\<lambda>_.
         quietly (Ok (Some (fr_source_path font, fr_face_index font))))
     | _ \<Rightarrow> check_then (visit VcFontResource section_id (Some raw)) (\<lambda>_. quietly (Ok previous))))"

definition validate_fonts :: "'e Book \<Rightarrow> nat \<Rightarrow> (unit, 'e) check" where
  "validate_fonts book scratch =
    check_records (unat (sx_record_count (book_section FONT_RESOURCE_INDEX book))) 0 (validate_font book scratch) None"

definition validate_links :: "'e Book \<Rightarrow> nat \<Rightarrow> (unit, 'e) check" where
  "validate_links book scratch =
    check_then (validate_navigation book scratch) (\<lambda>_.
    check_then (validate_chapters book scratch) (\<lambda>_. validate_fonts book scratch))"

definition validate_records :: "'e Book \<Rightarrow> nat \<Rightarrow> (unit, 'e) check" where
  "validate_records book scratch =
    check_then (quietly (require_scratch scratch 128)) (\<lambda>_.
    check_then (validate_pages book scratch) (\<lambda>_.
    check_then (validate_chunks book scratch) (\<lambda>_.
    check_then (validate_transitions book scratch) (\<lambda>_. validate_links book scratch))))"

definition validate_all :: "'e ReadAt \<Rightarrow> nat \<Rightarrow> nat \<Rightarrow> (unit, 'e) check" where
  "validate_all source section_scratch record_scratch =
    check_then (preflight source section_scratch) (\<lambda>proceed.
    if \<not> proceed then quietly (Ok ())
    else
      (case Book_open source section_scratch of
         Ok book \<Rightarrow>
           check_then (validate_sections book record_scratch) (\<lambda>_.
           check_then (validate_requirements book record_scratch) (\<lambda>_.
           validate_records book record_scratch))
       | Err (BkSource error) \<Rightarrow> quietly (Err (VeSource error))
       | Err (BkBufferTooSmall required provided) \<Rightarrow> quietly (Err (VeBufferTooSmall required provided))
       | Err (BkFormat error) \<Rightarrow> visit (code_for_format error) None None
       | Panic \<Rightarrow> quietly Panic))"

subsection \<open>Clean checks\<close>

named_theorems clean "when a check succeeds and shows nothing"

lemma check_then_clean [clean]:
  "check_then m f = (Ok y, []) \<longleftrightarrow> (\<exists>x. m = (Ok x, []) \<and> f x = (Ok y, []))"
  by (cases m; cases "fst m") (auto simp: check_then_def prod_eq_iff)

lemma quietly_clean [clean]: "quietly r = (Ok y, []) \<longleftrightarrow> r = Ok y"
  by (simp add: quietly_def)

lemma visit_clean [clean]: "visit code section_id record_index \<noteq> (Ok y, [])"
  by (simp add: visit_def)

lemma visit_if_clean [clean]: "visit_if b code section_id record_index = (Ok y, []) \<longleftrightarrow> \<not> b"
  by (simp add: visit_if_def visit_def quietly_def)

lemma require_scratch_Ok [simp]: "require_scratch scratch required = Ok u \<longleftrightarrow> required \<le> scratch"
  by (auto simp: require_scratch_def)

text \<open>The states between the iterations of a clean loop.\<close>

lemma check_records_trace:
  "check_records n raw body s = (Ok (), []) \<Longrightarrow> \<exists>f. f 0 = s \<and> (\<forall>i<n. body (raw + of_nat i) (f i) = (Ok (f (Suc i)), []))"
proof (induction n arbitrary: raw s)
  case (Suc n)
  then obtain s' where s': "body raw s = (Ok s', [])" "check_records n (raw + 1) body s' = (Ok (), [])" by (auto simp: clean)
  obtain f where f: "f 0 = s'" "\<forall>i<n. body (raw + 1 + of_nat i) (f i) = (Ok (f (Suc i)), [])" using Suc.IH[OF s'(2)] by blast
  have "body (raw + of_nat i) (case i of 0 \<Rightarrow> s | Suc j \<Rightarrow> f j) = (Ok (f i), [])" if "i < Suc n" for i
    using that s'(1) f by (cases i) (auto simp: add.assoc)
  then show ?case by (intro exI[of _ "\<lambda>i. case i of 0 \<Rightarrow> s | Suc j \<Rightarrow> f j"]) simp
qed auto

lemma check_records_all:
  assumes "check_records (unat cnt) 0 body s = (Ok (), [])" and "raw < cnt"
  shows "\<exists>s s'. body raw s = (Ok s', [])"
proof -
  obtain f where "\<forall>i<unat cnt. body (0 + of_nat i) (f i) = (Ok (f (Suc i)), [])" using check_records_trace[OF assms(1)] by blast
  then have "body (0 + of_nat (unat raw)) (f (unat raw)) = (Ok (f (Suc (unat raw))), [])"
    using assms(2) by (auto simp: word_less_nat_alt)
  then show ?thesis by auto
qed

lemma check_records_adjacent:
  assumes "check_records (unat cnt) 0 body s = (Ok (), [])" and "raw + 1 < cnt" "raw < raw + 1"
  shows "\<exists>s s' s''. body raw s = (Ok s', []) \<and> body (raw + 1) s' = (Ok s'', [])"
proof -
  obtain f where f: "\<forall>i<unat cnt. body (0 + of_nat i) (f i) = (Ok (f (Suc i)), [])" using check_records_trace[OF assms(1)] by blast
  have "1 + raw \<noteq> 0" using assms(3) by (auto simp: add.commute)
  then have s: "unat (raw + 1) = Suc (unat raw)" using unatSuc[of raw] by (simp add: add.commute)
  then have "Suc (unat raw) < unat cnt" using assms(2) by (simp add: word_less_nat_alt)
  then have "body (of_nat (unat raw)) (f (unat raw)) = (Ok (f (Suc (unat raw))), [])"
    "body (of_nat (unat (raw + 1))) (f (Suc (unat raw))) = (Ok (f (Suc (Suc (unat raw)))), [])"
    using f[rule_format, of "unat raw"] f[rule_format, of "Suc (unat raw)"] s by simp_all
  then show ?thesis by (auto simp del: of_nat_Suc)
qed

subsection \<open>Checksums of a file\<close>

lemma crc_update_range_slice:
  "0 < scratch \<Longrightarrow> length file < 2 ^ 64 \<Longrightarrow> unat offset + unat len \<le> length file \<Longrightarrow>
   crc_update_range (SliceSource_new file) crc offset len scratch =
     Ok (core_crc32_update crc (subslice file (unat offset) (unat len)))"
proof (induction "unat len" arbitrary: crc offset len rule: less_induct)
  case less
  show ?case
  proof (cases "len = 0")
    case True
    then show ?thesis using less.prems(1) by (simp add: crc_update_range.simps)
  next
    case False
    define count where "count = min (unat len) scratch"
    have c: "0 < count" "count \<le> unat len" using False less.prems(1) by (simp_all add: count_def unat_gt_0)
    have cu: "unat (of_nat count :: u64) = count" using c(2) unat_u64_less[of len] by (simp add: unat_of_nat take_bit_nat_eq_self)
    have rest: "unat (len - of_nat count) = unat len - count" using c cu by (simp add: unat_sub word_le_nat_alt)
    have off: "saturating_add offset (of_nat count) = offset + of_nat count" "unat (offset + of_nat count) = unat offset + count"
      using less.prems(2,3) c cu by (simp_all add: saturating_add_def unat_add_small)
    have "crc_update_range (SliceSource_new file) (core_crc32_update crc (subslice file (unat offset) count)) (offset + of_nat count)
        (len - of_nat count) scratch =
      Ok (core_crc32_update (core_crc32_update crc (subslice file (unat offset) count))
        (subslice file (unat offset + count) (unat len - count)))"
      using less.hyps[of "len - of_nat count" "offset + of_nat count"] less.prems c rest off(2) by simp
    moreover have "ra_read_exact_at (SliceSource_new file) offset count = Ok (subslice file (unat offset) count)"
      using less.prems(3) c(2) by (simp add: SliceSource_new_def slice_read_exact_at_def)
    moreover have "subslice file (unat offset) (unat len) =
        subslice file (unat offset) count @ subslice file (unat offset + count) (unat len - count)"
      using c(2) by (simp add: subslice_join)
    ultimately show ?thesis using False less.prems(1)
      by (subst crc_update_range.simps) (simp add: Let_def count_def[symmetric] off(1) core_crc32_update_eq update_append)
  qed
qed

lemma crc_range_slice:
  assumes "0 < scratch" "length file < 2 ^ 64" "unat offset + unat len \<le> length file"
  shows "crc_range (SliceSource_new file) offset len scratch = Ok (iso_hdlc (subslice file (unat offset) (unat len)))"
  by (simp add: crc_range_def crc_update_range_slice[OF assms] core_crc32_update_eq core_crc32_finish_def iso_hdlc_def xor_ones)

subsection \<open>Planes\<close>

definition page_planes :: "PlaneDirectory \<Rightarrow> PlaneDescriptor list" where
  "page_planes planes = List.map_filter (\<lambda>slot. plane_get slot planes) slot_order"

definition planes_apart :: "PlaneDescriptor \<Rightarrow> PlaneDescriptor \<Rightarrow> bool" where
  "planes_apart p q \<longleftrightarrow> unat (pd_offset p) + unat (pd_length p) \<le> unat (pd_offset q) \<or>
    unat (pd_offset q) + unat (pd_length q) \<le> unat (pd_offset p)"

definition plane_bytes :: "bytes \<Rightarrow> u64 \<Rightarrow> PlaneDescriptor \<Rightarrow> bytes" where
  "plane_bytes file base p = subslice file (unat base + unat (pd_offset p)) (unat (pd_length p))"

definition planes_valid :: "u64 \<Rightarrow> PlaneDirectory \<Rightarrow> bool" where
  "planes_valid limit planes \<longleftrightarrow>
    (\<forall>slot plane. plane_get slot planes = Some plane \<longrightarrow> 0 < unat (pd_length plane) \<and> unat (pd_offset plane) < 2 ^ 32 \<and>
      unat (pd_offset plane) + unat (pd_length plane) \<le> unat limit)"

lemma planes_clash_sound:
  assumes v: "planes_valid limit planes"
  shows "\<not> planes_clash slots planes ranges \<Longrightarrow>
    (\<forall>slot\<in>set slots. \<forall>p. plane_get slot planes = Some p \<longrightarrow> unat (pd_offset p) mod 4 = 0 \<and>
      (\<forall>r\<in>set ranges. snd r \<noteq> 0 \<longrightarrow> unat (snd r) \<le> unat (pd_offset p) \<or> unat (pd_offset p) + unat (pd_length p) \<le> unat (fst r))) \<and>
    sorted_wrt (\<lambda>s t. \<forall>p q. plane_get s planes = Some p \<longrightarrow> plane_get t planes = Some q \<longrightarrow> planes_apart p q) slots"
proof (induction slots arbitrary: ranges)
  case (Cons slot slots)
  show ?case
  proof (cases "plane_get slot planes")
    case None
    then show ?thesis using Cons.IH[of "ranges @ [(0, 0)]"] Cons.prems by auto
  next
    case (Some p)
    let ?stop = "pd_offset p + ucast (pd_length p) :: u64"
    have e: "unat ?stop = unat (pd_offset p) + unat (pd_length p)"
    proof -
      have "unat (pd_offset p) < 2 ^ 32" using v Some by (auto simp: planes_valid_def)
      then show ?thesis using unat_u32_less[of "pd_length p"] by (simp add: unat_add_small)
    qed
    have ne: "?stop \<noteq> 0" using e v Some by (fastforce simp: planes_valid_def unat_eq_0[symmetric])
    have m: "pd_offset p mod 4 = 0" and here: "\<forall>r\<in>set ranges. \<not> (snd r \<noteq> 0 \<and> pd_offset p < snd r \<and> fst r < ?stop)"
      and rest: "\<not> planes_clash slots planes (ranges @ [(pd_offset p, ?stop)])"
      using Cons.prems Some by (auto simp: Let_def list_ex_iff split: if_splits)
    have "unat (pd_offset p mod 4) = unat (pd_offset p) mod 4" by (simp add: unat_mod_distrib)
    then have "unat (pd_offset p) mod 4 = 0" using m by simp
    moreover have "\<forall>r\<in>set ranges. snd r \<noteq> 0 \<longrightarrow> unat (snd r) \<le> unat (pd_offset p) \<or> unat (pd_offset p) + unat (pd_length p) \<le> unat (fst r)"
      using here e by (auto simp: word_less_nat_alt not_less)
    moreover note Cons.IH[OF rest]
    ultimately show ?thesis using Some ne e by (auto simp: planes_apart_def)
  qed
qed simp

text \<open>The two tests on the bitmap exclude each other for four-bit pages: no such page passes.\<close>

lemma gray4_never_valid: "invalid_plane_directory Gray4Packed planes"
proof -
  have "(0x0f :: u8) AND 0x08 \<noteq> 0" by simp
  then show ?thesis unfolding invalid_plane_directory_def expected_bitmap_def by auto
qed

lemma sorted_wrt_map_filter:
  "sorted_wrt (\<lambda>s t. \<forall>p q. f s = Some p \<longrightarrow> f t = Some q \<longrightarrow> R p q) slots \<Longrightarrow> sorted_wrt R (List.map_filter f slots)"
  by (induction slots) (auto simp: List.map_filter_def)

lemma page_crc_loop_slice:
  assumes v: "planes_valid limit (pg_planes page)" and scratch: "0 < scratch"
    and book: "bk_source book = SliceSource_new file" "length file < 2 ^ 64"
      "unat (bh_page_data_offset (bk_header book)) + unat limit \<le> length file"
  shows "page_crc_loop slots book page crc scratch =
    Ok (core_crc32_update crc (concat (map (plane_bytes file (bh_page_data_offset (bk_header book)))
      (List.map_filter (\<lambda>slot. plane_get slot (pg_planes page)) slots))))"
proof (induction slots arbitrary: crc)
  case (Cons slot slots)
  show ?case
  proof (cases "plane_get slot (pg_planes page)")
    case (Some p)
    let ?base = "bh_page_data_offset (bk_header book)"
    have p: "unat ?base + unat (pd_offset p) + unat (pd_length p) \<le> length file"
      using v Some book(3) by (fastforce simp: planes_valid_def)
    then have "unat (?base + pd_offset p) = unat ?base + unat (pd_offset p)"
      using book(2) by (intro unat_add_small) simp
    then have "crc_update_range (bk_source book) crc (?base + pd_offset p) (ucast (pd_length p)) scratch =
        Ok (core_crc32_update crc (plane_bytes file ?base p))"
      using crc_update_range_slice[OF scratch book(2), of "?base + pd_offset p" "ucast (pd_length p)" crc] p book(1)
      by (simp add: plane_bytes_def)
    then show ?thesis using Some Cons.IH by (simp add: List.map_filter_def core_crc32_update_eq update_append)
  qed (simp add: Cons.IH List.map_filter_def)
qed (simp add: List.map_filter_def)

subsection \<open>A validated file\<close>

lemma preflight_not_False: "preflight source a \<noteq> (Ok False, [])"
  by (auto simp: preflight_def clean Let_def)

lemma validate_all_clean:
  assumes "validate_all source a b = (Ok (), [])"
  obtains book where "Book_open source a = Ok book" "validate_sections book b = (Ok (), [])"
    "validate_requirements book b = (Ok (), [])" "validate_records book b = (Ok (), [])"
  using assms
  by (auto simp: validate_all_def clean preflight_not_False split: if_splits res.splits BookError.splits)

lemma validate_sections_clean:
  assumes "validate_sections_loop sections book scratch = (Ok (), [])" and "s \<in> set sections" and "sx_crc32 s \<noteq> 0"
  shows "crc_range (bk_source book) (sx_offset s) (sx_length s) scratch = Ok (sx_crc32 s)"
  using assms by (induction sections) (auto simp: clean split: if_splits)

lemma validate_records_clean:
  "validate_records book scratch = (Ok (), []) \<longleftrightarrow> 128 \<le> scratch \<and> validate_pages book scratch = (Ok (), []) \<and>
    validate_chunks book scratch = (Ok (), []) \<and> validate_transitions book scratch = (Ok (), []) \<and>
    validate_links book scratch = (Ok (), [])"
  by (auto simp: validate_records_def clean)

lemma validate_page_clean:
  assumes "validate_page book scratch raw previous = (Ok next_progress, [])"
  shows "\<exists>page. book_page raw scratch book = Ok page \<and> previous \<le> pg_progress_start_ppm page \<and>
    next_progress = pg_progress_end_ppm page \<and> \<not> invalid_plane_directory (pg_pixel_format page) (pg_planes page) \<and>
    validate_page_crc book page raw scratch = (Ok (), [])"
  using assms by (auto simp: validate_page_def clean Let_def not_less split: res.splits)

lemma book_page_planes_valid:
  "book_page raw scratch book = Ok page \<Longrightarrow> planes_valid (bh_page_data_length (bk_header book)) (pg_planes page)"
  unfolding book_page_def planes_valid_def by (auto simp: and_then_Ok_iff dest: page_parse_sound(5))

definition page_sound :: "bytes \<Rightarrow> 'e Book \<Rightarrow> PageInfo \<Rightarrow> bool" where
  "page_sound file book page \<longleftrightarrow> pdir_bitmap (pg_planes page) = expected_bitmap (pg_pixel_format page) \<and>
    list_all (\<lambda>p. unat (pd_offset p) mod 4 = 0 \<and>
      unat (pd_offset p) + unat (pd_length p) \<le> unat (bh_page_data_length (bk_header book))) (page_planes (pg_planes page)) \<and>
    sorted_wrt planes_apart (page_planes (pg_planes page)) \<and>
    (pg_page_crc32 page \<noteq> 0 \<longrightarrow>
      iso_hdlc (concat (map (plane_bytes file (bh_page_data_offset (bk_header book))) (page_planes (pg_planes page)))) =
        pg_page_crc32 page)"

lemma validated_page_sound:
  assumes ok: "book_ok source_length book" and src: "bk_source book = SliceSource_new file" "slice_len file = Ok source_length"
    and page: "book_page raw scratch book = Ok page" "\<not> invalid_plane_directory (pg_pixel_format page) (pg_planes page)"
    and crc: "validate_page_crc book page raw scratch = (Ok (), [])" and scratch: "0 < scratch"
  shows "page_sound file book page"
proof -
  let ?planes = "pg_planes page" and ?limit = "bh_page_data_length (bk_header book)"
  have v: "planes_valid ?limit ?planes" using book_page_planes_valid[OF page(1)] .
  have bitmap: "pdir_bitmap ?planes = expected_bitmap (pg_pixel_format page)" and clash: "\<not> planes_clash slot_order ?planes []"
    using page(2) by (auto simp: invalid_plane_directory_def split: if_splits)
  note sound = planes_clash_sound[OF v clash]
  have "sorted_wrt planes_apart (page_planes ?planes)"
    unfolding page_planes_def using sound by (intro sorted_wrt_map_filter) simp
  moreover have "list_all (\<lambda>p. unat (pd_offset p) mod 4 = 0 \<and> unat (pd_offset p) + unat (pd_length p) \<le> unat ?limit) (page_planes ?planes)"
    using sound v by (auto simp: list_all_iff page_planes_def List.map_filter_def planes_valid_def)
  moreover have "iso_hdlc (concat (map (plane_bytes file (bh_page_data_offset (bk_header book))) (page_planes ?planes))) =
      pg_page_crc32 page" if "pg_page_crc32 page \<noteq> 0"
  proof -
    have n: "length file < 2 ^ 64" "unat source_length = length file" using src(2) by (auto simp: slice_len_Ok unat_of_length)
    have "unat (bh_page_data_offset (bk_header book)) + unat ?limit \<le> length file"
      using book_section_in_file[OF ok, of 18] ok n(2) by (simp add: book_ok_def directory_ok_def)
    from page_crc_loop_slice[OF v scratch src(1) n(1) this, of slot_order "- 1"] that crc
    show ?thesis
      by (simp add: validate_page_crc_def clean page_planes_def core_crc32_update_eq core_crc32_finish_def iso_hdlc_def xor_ones)
  qed
  ultimately show ?thesis using bitmap by (simp add: page_sound_def)
qed

lemma validate_chunk_clean:
  assumes "validate_chunk book scratch raw previous = (Ok key, [])"
  shows "\<exists>bytes chunk page. read_record (book_section PAGE_CHUNK_INDEX book) raw scratch book = Ok bytes \<and> key = Some (chunk_key bytes) \<and>
    (\<forall>value. previous = Some value \<longrightarrow> value < chunk_key bytes) \<and> book_chunk raw scratch book = Ok chunk \<and>
    book_page (ck_page_number chunk) scratch book = Ok page \<and> \<not> chunk_outside chunk page \<and> \<not> chunk_misshapen chunk page"
proof (cases "book_chunk raw scratch book")
  case (Ok chunk)
  show ?thesis
  proof (cases "book_page (ck_page_number chunk) scratch book")
    case (Ok page)
    then show ?thesis using assms \<open>book_chunk raw scratch book = Ok chunk\<close>
      by (auto simp: validate_chunk_def clean Let_def not_le split: option.splits)
  qed (use assms Ok in \<open>auto simp: validate_chunk_def clean Let_def\<close>)
qed (use assms in \<open>auto simp: validate_chunk_def clean Let_def\<close>)

text \<open>What a sound chunk and a sound transition are, in numbers that do not wrap around.\<close>

definition chunk_sound :: "bytes \<Rightarrow> 'e Book \<Rightarrow> PageChunk \<Rightarrow> PageInfo \<Rightarrow> bool" where
  "chunk_sound file book chunk page \<longleftrightarrow>
    (\<exists>plane. plane_get (ck_plane_slot chunk) (pg_planes page) = Some plane \<and>
      unat (pd_offset plane) \<le> unat (ck_offset chunk) \<and>
      unat (ck_offset chunk) + unat (ck_compressed_length chunk) \<le> unat (pd_offset plane) + unat (pd_length plane)) \<and>
    0 < unat (ck_compressed_length chunk) \<and> unat (ck_chunk_index chunk) < 32 \<and>
    unat (bh_page_data_offset (bk_header book)) + unat (ck_offset chunk) + unat (ck_compressed_length chunk) \<le> length file \<and>
    (pg_stored_width page = 800 \<and> pg_stored_height page = 480 \<and> pg_pixel_format page = Gray2Packed \<longrightarrow>
      ck_row_count chunk = 16 \<and> ck_uncompressed_length chunk = 1600 \<and> unat (ck_chunk_index chunk) < 30)"

text \<open>The changed chunks lie between the first one and the last one, and these two are changed.\<close>

definition changes_sound :: "PageTransition \<Rightarrow> bool" where
  "changes_sound t \<longleftrightarrow>
    (let mask = tr_changed_chunk_mask t; first = unat (tr_first_changed_chunk t); count = unat (tr_changed_chunk_count t) in
     if mask = 0 then first = 0 \<and> count = 0
     else 0 < count \<and> bit mask first \<and> bit mask (first + count - 1) \<and> (\<forall>k. bit mask k \<longrightarrow> first \<le> k \<and> k < first + count))"

lemma validated_chunk_sound:
  assumes ok: "book_ok source_length book" and n: "unat source_length = length file"
    and chunk: "book_chunk raw scratch book = Ok chunk" and page: "book_page (ck_page_number chunk) scratch book = Ok page"
    and checks: "\<not> chunk_outside chunk page" "\<not> chunk_misshapen chunk page"
  shows "chunk_sound file book chunk page"
proof -
  let ?limit = "bh_page_data_length (bk_header book)"
  obtain bytes where "chunk_parse bytes (book_page_count book) ?limit = Ok chunk"
    using chunk by (auto simp: book_chunk_def and_then_Ok_iff)
  note c = chunk_parse_sound(2-5)[OF this]
  obtain plane where plane: "plane_get (ck_plane_slot chunk) (pg_planes page) = Some plane"
    and inside: "pd_offset plane \<le> ck_offset chunk"
      "ck_offset chunk + ucast (ck_compressed_length chunk) \<le> pd_offset plane + ucast (pd_length plane)"
    using checks(1) by (auto simp: chunk_outside_def not_less split: option.splits)
  have "unat (pd_offset plane) < 2 ^ 32"
    using book_page_planes_valid[OF page] plane by (auto simp: planes_valid_def)
  then have "unat (pd_offset plane + ucast (pd_length plane) :: u64) = unat (pd_offset plane) + unat (pd_length plane)"
    "unat (ck_offset chunk + ucast (ck_compressed_length chunk) :: u64) = unat (ck_offset chunk) + unat (ck_compressed_length chunk)"
    using unat_u32_less[of "pd_length plane"] unat_u32_less[of "ck_compressed_length chunk"] c(3) by (simp_all add: unat_add_small)
  moreover have "unat (bh_page_data_offset (bk_header book)) + unat ?limit \<le> length file"
    using book_section_in_file[OF ok, of 18] ok n by (simp add: book_ok_def directory_ok_def)
  ultimately show ?thesis
    using plane inside c checks(2)
    by (auto simp: chunk_sound_def chunk_misshapen_def word_le_nat_alt word_less_nat_alt not_le)
qed

lemma changed_bits:
  assumes "changed \<noteq> (0 :: u32)"
  obtains first last where "trailing_zeros changed = first" "31 - leading_zeros changed = last" "first \<le> last" "last < 32"
    "bit changed first" "bit changed last" "\<And>k. bit changed k \<Longrightarrow> first \<le> k \<and> k \<le> last"
proof -
  obtain i where i: "i < 32" "bit changed i" using assms bit_word_eqI[of changed 0] by auto
  obtain k where k: "position (bit changed) [0..<32] = Some k"
    using i by (cases "position (bit changed) [0..<32]") auto
  obtain m where m: "position (\<lambda>k. bit changed (31 - k)) [0..<32] = Some m"
  proof (cases "position (\<lambda>k. bit changed (31 - k)) [0..<32]")
    case None
    then have "\<not> bit changed (31 - (31 - i))" by (simp only: position_None) auto
    then show ?thesis using i by simp
  qed
  have first: "bit changed k" "\<forall>j<k. \<not> bit changed j" "k < 32" using k by (auto simp: position_Some)
  have last: "bit changed (31 - m)" "\<forall>j<m. \<not> bit changed (31 - j)" "m < 32" using m by (auto simp: position_Some)
  have between: "k \<le> j \<and> j \<le> 31 - m" if "bit changed j" for j
  proof -
    have "j < 32" using that bit_imp_le_length by fastforce
    moreover have "\<not> j < k" using first(2) that by blast
    moreover have "\<not> 31 - j < m" using last(2)[rule_format, of "31 - j"] that \<open>j < 32\<close> by auto
    ultimately show ?thesis by simp
  qed
  show thesis
    by (rule that[of k "31 - m"]) (use k m first last between in \<open>auto simp: trailing_zeros_def leading_zeros_def\<close>)
qed

lemma validated_transition_sound:
  assumes transition: "book_transition raw scratch book = Ok t" and valid: "\<not> transition_invalid t"
  shows "tr_from t < book_page_count book \<and> tr_to t < book_page_count book \<and> changes_sound t"
proof -
  obtain bytes where p: "transition_parse bytes (book_page_count book) = Ok t"
    using transition by (auto simp: book_transition_def and_then_Ok_iff)
  have "changes_sound t"
  proof (cases "tr_changed_chunk_mask t = 0")
    case True
    then show ?thesis
      using p by (auto simp: transition_parse_def changes_sound_def and_then_Ok_iff split: if_splits)
  next
    case False
    then obtain first last where b: "trailing_zeros (tr_changed_chunk_mask t) = first"
        "31 - leading_zeros (tr_changed_chunk_mask t) = last" "first \<le> last" "last < 32"
        "bit (tr_changed_chunk_mask t) first" "bit (tr_changed_chunk_mask t) last"
        "\<And>k. bit (tr_changed_chunk_mask t) k \<Longrightarrow> first \<le> k \<and> k \<le> last"
      by (rule changed_bits) blast
    have f: "tr_first_changed_chunk t = of_nat first" "tr_changed_chunk_count t = of_nat last - of_nat first + 1"
      using valid False b(1,2) by (simp_all add: transition_invalid_def Let_def)
    have count: "(of_nat last - of_nat first + 1 :: u16) = of_nat (last - first + 1)" using b(3) by simp
    have "unat (tr_first_changed_chunk t) = first" "unat (tr_changed_chunk_count t) = last - first + 1"
      using b(3,4) unfolding f count by (simp_all only: unat_of_nat) simp_all
    then show ?thesis using False b(3,5-7) by (auto simp: changes_sound_def less_Suc_eq_le)
  qed
  then show ?thesis using transition_parse_sound[OF p] by simp
qed

text \<open>C35: A file that the validator finds nothing wrong with is sound: it opens, every section with a checksum holds the bytes
  that the checksum was computed from, and every page record parses to aligned planes inside the page data that do not overlap
  and together match the page's checksum.  Every chunk belongs to an existing page and lies, with its offset and its end,
  inside one of the planes of that page and inside the file, and has the fixed shape where the page is a full screen in two
  bits.  Every transition leads from an existing page to an existing page, and its first changed chunk and their number
  describe exactly the span of its bit mask.\<close>

theorem validate_all_sound:
  assumes v: "validate_all (SliceSource_new file) a b = (Ok (), [])"
  shows "\<exists>book. Book_open (SliceSource_new file) a = Ok book \<and>
    (\<forall>s\<in>set (bk_sections book). sx_crc32 s \<noteq> 0 \<longrightarrow>
      iso_hdlc (subslice file (unat (sx_offset s)) (unat (sx_length s))) = sx_crc32 s) \<and>
    (\<forall>raw<book_page_count book. \<exists>page. book_page raw b book = Ok page \<and> page_sound file book page) \<and>
    (\<forall>raw<book_chunk_count book. \<exists>chunk page. book_chunk raw b book = Ok chunk \<and>
      book_page (ck_page_number chunk) b book = Ok page \<and> chunk_sound file book chunk page) \<and>
    (\<forall>raw<book_transition_count book. \<exists>transition. book_transition raw b book = Ok transition \<and>
      is_ok (book_page (tr_from transition) b book) \<and> is_ok (book_page (tr_to transition) b book) \<and>
      changes_sound transition)"
proof -
  obtain book where opened: "Book_open (SliceSource_new file) a = Ok book" and sections: "validate_sections book b = (Ok (), [])"
    and records: "validate_records book b = (Ok (), [])"
    using validate_all_clean[OF v] by blast
  obtain n where n: "slice_len file = Ok n" "book_ok n book" "bk_source book = SliceSource_new file"
    using Book_open_Ok[OF opened] by (auto simp: SliceSource_new_def)
  have len: "length file < 2 ^ 64" "unat n = length file" using n(1) by (auto simp: slice_len_Ok unat_of_length)
  have b: "128 \<le> b" and clean: "validate_pages book b = (Ok (), [])" "validate_chunks book b = (Ok (), [])"
    "validate_transitions book b = (Ok (), [])"
    using records by (simp_all add: validate_records_clean)
  have crc: "iso_hdlc (subslice file (unat (sx_offset s)) (unat (sx_length s))) = sx_crc32 s"
    if s: "s \<in> set (bk_sections book)" "sx_crc32 s \<noteq> 0" for s
  proof -
    obtain k where "k < 19" "s = bk_sections book ! k" using s(1) n(2) by (auto simp: in_set_conv_nth book_ok_def directory_ok_def)
    then have "unat (sx_offset s) + unat (sx_length s) \<le> length file" using book_section_in_file[OF n(2)] len(2) by simp
    then have "crc_range (SliceSource_new file) (sx_offset s) (sx_length s) b =
        (Ok (iso_hdlc (subslice file (unat (sx_offset s)) (unat (sx_length s)))) :: (u32, SliceReadError ValidationError) res)"
      using b len(1) by (intro crc_range_slice) simp_all
    then show ?thesis
      using validate_sections_clean[OF sections[unfolded validate_sections_def] s] n(3) by simp
  qed
  have pages: "\<exists>page. book_page raw b book = Ok page \<and> page_sound file book page" if raw: "raw < book_page_count book" for raw
    using check_records_all[OF clean(1)[unfolded validate_pages_def] raw] validated_page_sound[OF n(2,3,1)] b
    by (force dest: validate_page_clean)
  have chunks: "\<exists>chunk page. book_chunk raw b book = Ok chunk \<and> book_page (ck_page_number chunk) b book = Ok page \<and>
      chunk_sound file book chunk page" if raw: "raw < book_chunk_count book" for raw
    using check_records_all[OF clean(2)[unfolded validate_chunks_def] raw] validated_chunk_sound[OF n(2) len(2)]
    by (force dest: validate_chunk_clean)
  have "\<exists>transition. book_transition raw b book = Ok transition \<and> is_ok (book_page (tr_from transition) b book) \<and>
      is_ok (book_page (tr_to transition) b book) \<and> changes_sound transition"
    if raw: "raw < book_transition_count book" for raw
  proof -
    obtain t where t: "book_transition raw b book = Ok t" "\<not> transition_invalid t"
      using check_records_all[OF clean(3)[unfolded validate_transitions_def] raw]
      by (auto simp: validate_transition_def visit_if_clean split: res.splits)
    note sound = validated_transition_sound[OF this]
    with pages[of "tr_from t"] pages[of "tr_to t"] t(1) show ?thesis by auto
  qed
  with opened crc pages chunks show ?thesis by blast
qed

definition chunk_position :: "PageChunk \<Rightarrow> u32 \<times> nat \<times> u8" where
  "chunk_position chunk = (ck_page_number chunk, PlaneSlot_index (ck_plane_slot chunk), ck_chunk_index chunk)"

lemma chunk_key_position:
  assumes "book_chunk raw b book = Ok chunk" "read_record (book_section PAGE_CHUNK_INDEX book) raw b book = Ok bytes"
  shows "fst (chunk_key bytes) = ck_page_number chunk" "unat (fst (snd (chunk_key bytes))) = PlaneSlot_index (ck_plane_slot chunk)"
    "snd (snd (chunk_key bytes)) = ck_chunk_index chunk"
proof -
  have p: "chunk_parse (take 24 bytes) (book_page_count book) (bh_page_data_length (bk_header book)) = Ok chunk"
    using assms by (simp add: book_chunk_def from_format_def)
  note sound = chunk_parse_sound(6-8)[OF p]
  show "fst (chunk_key bytes) = ck_page_number chunk" using sound(1)
    by (auto simp: chunk_key_def unwrap_or_def read_u32_def subslice_take split: if_splits)
  show "unat (fst (snd (chunk_key bytes))) = PlaneSlot_index (ck_plane_slot chunk)" "snd (snd (chunk_key bytes)) = ck_chunk_index chunk"
    using sound(2,3) by (simp_all add: chunk_key_def)
qed

text \<open>C36: In a file that the validator finds nothing wrong with, reading moves forward: the progress of a page starts no earlier
  than the progress of the page before it ends, and the chunk records are strictly ordered by page, plane slot and chunk
  number, so that no two of them describe the same chunk.\<close>

theorem validated_order:
  assumes v: "validate_all (SliceSource_new file) a b = (Ok (), [])" and opened: "Book_open (SliceSource_new file) a = Ok book"
    and next_raw: "raw < raw + 1"
  shows "(raw + 1 < book_page_count book \<longrightarrow> (\<exists>page following. book_page raw b book = Ok page \<and>
      book_page (raw + 1) b book = Ok following \<and> pg_progress_end_ppm page \<le> pg_progress_start_ppm following)) \<and>
    (raw + 1 < book_chunk_count book \<longrightarrow> (\<exists>chunk following. book_chunk raw b book = Ok chunk \<and>
      book_chunk (raw + 1) b book = Ok following \<and> chunk_position chunk < chunk_position following))"
proof -
  have clean: "validate_pages book b = (Ok (), [])" "validate_chunks book b = (Ok (), [])"
    using validate_all_clean[OF v] opened by (auto simp: validate_records_clean)
  have "\<exists>page following. book_page raw b book = Ok page \<and> book_page (raw + 1) b book = Ok following \<and>
      pg_progress_end_ppm page \<le> pg_progress_start_ppm following" if "raw + 1 < book_page_count book"
    using check_records_adjacent[OF clean(1)[unfolded validate_pages_def] that next_raw] by (force dest: validate_page_clean)
  moreover have "\<exists>chunk following. book_chunk raw b book = Ok chunk \<and> book_chunk (raw + 1) b book = Ok following \<and>
      chunk_position chunk < chunk_position following" if chunks: "raw + 1 < book_chunk_count book"
  proof -
    obtain s s' s'' where s: "validate_chunk book b raw s = (Ok s', [])" "validate_chunk book b (raw + 1) s' = (Ok s'', [])"
      using check_records_adjacent[OF clean(2)[unfolded validate_chunks_def] chunks next_raw] by blast
    obtain bytes chunk where c: "read_record (book_section PAGE_CHUNK_INDEX book) raw b book = Ok bytes" "s' = Some (chunk_key bytes)"
        "book_chunk raw b book = Ok chunk" using validate_chunk_clean[OF s(1)] by blast
    obtain bytes' following where d: "read_record (book_section PAGE_CHUNK_INDEX book) (raw + 1) b book = Ok bytes'"
        "chunk_key bytes < chunk_key bytes'" "book_chunk (raw + 1) b book = Ok following"
      using validate_chunk_clean[OF s(2)] c(2) by blast
    have "chunk_position chunk < chunk_position following"
      using d(2) chunk_key_position[OF c(3,1)] chunk_key_position[OF d(3,1)]
      by (cases "chunk_key bytes"; cases "chunk_key bytes'") (auto simp: chunk_position_def less_prod_def word_less_nat_alt word_le_nat_alt)
    then show ?thesis using c(3) d(3) by blast
  qed
  ultimately show ?thesis by blast
qed

subsection \<open>The sample validates\<close>

lemma section_bytes_fields:
  "read_u16 (section_bytes s) 0 = Ok (sx_id s)" "read_u16 (section_bytes s) 2 = Ok (sx_flags s)"
  "subslice (section_bytes s) 32 8 = replicate 8 0"
proof -
  note e = section_bytes_encoded[of s, unfolded SectionTableEntry_encode_def]
  show "read_u16 (section_bytes s) 0 = Ok (sx_id s)" "read_u16 (section_bytes s) 2 = Ok (sx_flags s)"
    using encode_record_reads[OF e] by (simp_all add: stores_simps)
  show "subslice (section_bytes s) 32 8 = replicate 8 0"
    using encode_record_stored(3)[OF e, of 32 8] by (simp add: stores_simps)
qed

definition before_id :: "Section list \<Rightarrow> nat \<Rightarrow> u16 option" where
  "before_id es k = (if k = 0 then None else Some (sx_id (es ! (k - 1))))"

lemma preflight_loop_clean:
  assumes plain: "\<forall>s\<in>set es. sx_flags s = 0" and sorted: "\<forall>k. Suc k < length es \<longrightarrow> sx_id (es ! k) < sx_id (es ! Suc k)"
  shows "k + n = length es \<Longrightarrow> preflight_loop n k (concat (map section_bytes es)) (before_id es k) = ((Ok (), []) :: (unit, 'e) check)"
proof (induction n arbitrary: k)
  case (Suc n)
  have k: "k < length es" using Suc.prems by simp
  have r: "subslice (concat (map section_bytes es)) (k * 40) 40 = section_bytes (es ! k)"
    by (rule subslice_blocks) (simp_all add: k)
  have "\<not> (case before_id es k of Some value \<Rightarrow> sx_id (es ! k) \<le> value | None \<Rightarrow> False)"
    using sorted[rule_format, of "k - 1"] k by (cases k) (simp_all add: before_id_def)
  moreover have "preflight_loop n (Suc k) (concat (map section_bytes es)) (Some (sx_id (es ! k))) = ((Ok (), []) :: (unit, 'e) check)"
    using Suc.IH[of "Suc k"] Suc.prems by (simp add: before_id_def)
  ultimately show ?case using plain k
    by (simp add: Let_def r section_bytes_fields unwrap_or_def any_nonzero_def clean list_ex_iff cong: option.case_cong)
qed (simp add: clean)

lemma sample_preflight: "preflight (SliceSource_new sample_file) 760 = (Ok True, [])"
proof -
  note e = sample_encoded(1)[unfolded FileHeader_encode_def]
  note stored = encode_record_stored[OF e] and reads = encode_record_reads[OF e]
  have zero: "subslice (sample_parts ! 0) 8 4 = replicate 4 0" "subslice (sample_parts ! 0) 68 188 = replicate 188 0"
    using stored(3)[of 8 4] stored(3)[of 68 188] by (simp_all add: stores_simps)
  then have "drop 68 (sample_parts ! 0) = replicate 188 0" using sample_encoded(2) by (simp add: subslice_def)
  moreover have "read_u64 (sample_parts ! 0) 16 = Ok 1534" "read_u64 (sample_parts ! 0) 24 = Ok 256" "read_u16 (sample_parts ! 0) 38 = Ok 19"
    using reads by (simp_all add: stores_simps sample_file_header_def)
  moreover have "preflight_loop 19 0 (concat (map section_bytes sample_sections)) None = (Ok (), [])"
  proof -
    have "\<forall>k\<in>set [0..<18]. sx_id (sample_sections ! k) < sx_id (sample_sections ! Suc k)"
      by (simp add: upt_conv_Cons sample_sections_def sample_section_def REQUIRED_def)
    then have "\<forall>k. Suc k < length sample_sections \<longrightarrow> sx_id (sample_sections ! k) < sx_id (sample_sections ! Suc k)"
      by (simp add: sample_sections_def)
    then show ?thesis using preflight_loop_clean[of sample_sections 0 19]
      by (simp add: sample_sections_def sample_section_def before_id_def)
  qed
  ultimately show ?thesis using zero(1)
    by (simp add: preflight_def clean SliceSource_new_def slice_len_def slice_read_exact_at_def length_sample_file sample_reads
        unwrap_or_def any_nonzero_def Let_def saturating_add_def list_ex_iff)
qed



lemma validate_sections_complete:
  "\<forall>s\<in>set sections. sx_crc32 s \<noteq> 0 \<longrightarrow> crc_range (bk_source book) (sx_offset s) (sx_length s) scratch = Ok (sx_crc32 s) \<Longrightarrow>
   validate_sections_loop sections book scratch = (Ok (), [])"
  by (induction sections) (simp_all add: clean)

lemma sample_page_bytes_crc:
  "crc_range (SliceSource_new sample_file) 1530 4 128 = (Ok (iso_hdlc sample_page_bytes) :: (u32, SliceReadError ValidationError) res)"
  using crc_range_slice[of 128 sample_file 1530 4] by (simp add: length_sample_file sample_reads)

lemma sample_sections_valid: "validate_sections sample_book 128 = (Ok (), [])"
  unfolding validate_sections_def
  by (rule validate_sections_complete) (simp add: sample_book_def sample_sections_def sample_section_def sample_page_bytes_crc)

lemma sample_requirements_valid: "validate_requirements sample_book 128 = (Ok (), [])"
proof -
  have "read_u64 (replicate 16 0) 8 = Ok 0" by (simp add: read_u64_def subslice_def numeral_eq_Suc)
  then show ?thesis
    by (simp add: validate_requirements_def clean read_section_prefix_def sample_simps unwrap_or_def Let_def require_scratch_def)
qed

lemma sample_book_pages:
  "book_page 0 128 sample_book = Ok (sample_page_info 0)" "book_page 1 128 sample_book = Ok (sample_page_info 1)"
  using sample_page_parsed[OF sample_encoded(3)] sample_page_parsed[OF sample_encoded(5)] sample_records(1,5)[of 128] sample_encoded(4,6)
  by (simp_all add: book_page_def from_format_def sample_book_def sample_book_header_def)

lemma sample_book_chunks:
  "book_chunk 0 128 sample_book = Ok (sample_chunk_info 0)" "book_chunk 1 128 sample_book = Ok (sample_chunk_info 1)"
  using sample_chunk_parsed[OF sample_encoded(11)] sample_chunk_parsed[OF sample_encoded(13)] sample_records(4,6)[of 128]
    sample_encoded(12,14)
  by (simp_all add: book_chunk_def from_format_def book_page_count_def book_section_def sample_book_def sample_book_header_def sample_sections_at)

lemma sample_page_valid:
  assumes e: "PageIndexRecord_encode (sample_page n) (replicate 128 0) = Ok bytes"
    and r: "read_record (book_section PAGE_INDEX sample_book) n 128 sample_book = Ok bytes"
    and page: "book_page n 128 sample_book = Ok (sample_page_info n)"
  shows "validate_page sample_book 128 n (n * 500000) = (Ok ((n + 1) * 500000), [])"
proof -
  have d: "directory_record_ok (pi_plane_directory (sample_page n))" by (simp add: directory_record_ok_def sample_page_def)
  have e': "encode_record 128 (page_stores (sample_page n)) (replicate 128 0) = Ok bytes"
    using e by (simp add: PageIndexRecord_encode_def)
  note stored = encode_record_stored(3)[OF e' page_stores_apart[OF d]]
  have zero: "subslice bytes 49 3 = replicate 3 0" "subslice bytes 84 44 = replicate 44 0"
    using stored[of 49 3] stored[of 84 44] by (simp_all add: page_stores_def stores_simps sample_page_def)
  have "read_u32 bytes 12 = Ok 0" using page_reads(11)[OF e d] by (simp add: sample_page_def)
  then have reserved: "\<not> page_reserved bytes"
    using zero by (simp add: page_reserved_def any_nonzero_def unwrap_or_def list_ex_iff)
  have planes: "\<not> invalid_plane_directory Gray1Packed (pg_planes (sample_page_info n))"
    by (simp add: invalid_plane_directory_def expected_bitmap_def slot_order_def plane_get_def sample_page_info_def)
  have "crc_update_range (SliceSource_new sample_file) (- 1) 1530 4 128 =
      (Ok (core_crc32_update (- 1) sample_page_bytes) :: (u32, SliceReadError ValidationError) res)"
    using crc_update_range_slice[of 128 sample_file 1530 4] by (simp add: length_sample_file sample_reads)
  then have "page_crc_loop slot_order sample_book (sample_page_info n) (- 1) 128 = Ok (core_crc32_update (- 1) sample_page_bytes)"
    by (simp add: slot_order_def plane_get_def sample_page_info_def sample_book_def sample_book_header_def)
  then have "validate_page_crc sample_book (sample_page_info n) n 128 = (Ok (), [])"
    by (simp add: validate_page_crc_def clean core_crc32_finish_def core_crc32_update_eq iso_hdlc_def xor_ones sample_page_info_def)
  then show ?thesis using reserved planes page r
    by (simp add: validate_page_def clean Let_def) (simp add: sample_page_info_def)
qed

lemma check_records_2:
  "check_records 2 raw body s = (Ok (), []) \<longleftrightarrow> (\<exists>s' s''. body raw s = (Ok s', []) \<and> body (raw + 1) s' = (Ok s'', []))"
  by (simp add: numeral_2_eq_2 clean)

lemma sample_counts: "book_page_count sample_book = 2" "book_chunk_count sample_book = 2"
  by (simp_all add: sample_simps)

lemma sample_pages_valid: "validate_pages sample_book 128 = (Ok (), [])"
  using sample_page_valid[OF sample_encoded(3)] sample_page_valid[OF sample_encoded(5)] sample_book_pages sample_records(1,5)[of 128]
  by (simp add: validate_pages_def sample_counts check_records_2)

lemma sample_chunk_valid:
  assumes "read_record (book_section PAGE_CHUNK_INDEX sample_book) n 128 sample_book = Ok bytes"
    and "book_chunk n 128 sample_book = Ok (sample_chunk_info n)" "book_page n 128 sample_book = Ok (sample_page_info n)"
    and "\<forall>value. previous = Some value \<longrightarrow> value < chunk_key bytes"
  shows "validate_chunk sample_book 128 n previous = (Ok (Some (chunk_key bytes)), [])"
proof -
  have "\<not> chunk_outside (sample_chunk_info n) (sample_page_info n)" "\<not> chunk_misshapen (sample_chunk_info n) (sample_page_info n)"
    "ck_page_number (sample_chunk_info n) = n"
    by (simp_all add: chunk_outside_def chunk_misshapen_def plane_get_def sample_page_info_def sample_chunk_info_def)
  moreover have "\<not> (case previous of Some value \<Rightarrow> chunk_key bytes \<le> value | None \<Rightarrow> False)"
    using assms(4) by (cases previous) (auto simp: not_le)
  ultimately show ?thesis using assms(1-3) by (simp add: validate_chunk_def clean Let_def)
qed

lemma sample_chunks_valid: "validate_chunks sample_book 128 = (Ok (), [])"
proof -
  have "chunk_key (sample_parts ! 10) < chunk_key (sample_parts ! 11)"
    using chunk_key_position(1)[OF sample_book_chunks(1) sample_records(4)] chunk_key_position(1)[OF sample_book_chunks(2) sample_records(6)]
    by (simp add: less_prod_def sample_chunk_info_def)
  then have "validate_chunk sample_book 128 0 None = (Ok (Some (chunk_key (sample_parts ! 10))), [])"
    "validate_chunk sample_book 128 1 (Some (chunk_key (sample_parts ! 10))) = (Ok (Some (chunk_key (sample_parts ! 11))), [])"
    using sample_records(4,6)[of 128] sample_book_chunks sample_book_pages by (simp_all add: sample_chunk_valid)
  then show ?thesis
    by (simp add: validate_chunks_def sample_counts check_records_2)
qed

lemma sample_links_valid: "validate_links sample_book 128 = (Ok (), [])"
proof -
  note n = sample_encoded(7)[unfolded NavIndexRecord_encode_def] and c = sample_encoded(9)[unfolded ChapterIndexRecord_encode_def]
  note nav = encode_record_reads[OF n] and chapters = encode_record_reads[OF c]
  have "\<not> invalid_link 1 (sample_parts ! 8)" "read_u32 (sample_parts ! 8) 44 = Ok 0"
    using nav by (simp_all add: stores_simps invalid_link_def unwrap_or_def sample_nav_def)
  then have "validate_nav sample_book 128 0 () = (Ok (), [])"
    using sample_records(2)[of 128]
    by (simp add: validate_nav_def clean Let_def book_nav_count_def book_section_def sample_book_def sample_sections_at unwrap_or_def)
  moreover have "chapter_fields (sample_parts ! 9) = nav_fields (sample_parts ! 8)" "read_u32 (sample_parts ! 9) 4 = Ok 0"
    using nav chapters
    by (simp_all add: stores_simps chapter_fields_def nav_fields_def unwrap_or_def sample_nav_def sample_chapter_def sample_title_def)
  then have "validate_chapter sample_book 128 0 () = (Ok (), [])"
    using sample_records(2,3)[of 128]
    by (simp add: validate_chapter_def clean Let_def book_nav_count_def book_section_def sample_book_def sample_sections_at unwrap_or_def)
  ultimately show ?thesis
    by (simp add: validate_links_def validate_navigation_def validate_chapters_def validate_fonts_def clean book_nav_count_def
        book_chapter_count_def book_section_def sample_book_def sample_sections_at)
qed

lemma sample_validates: "validate_all (SliceSource_new sample_file) 760 128 = (Ok (), [])"
proof -
  have "validate_transitions sample_book 128 = (Ok (), [])"
    by (simp add: validate_transitions_def book_transition_count_def book_section_def sample_book_def sample_sections_at clean)
  then have "validate_records sample_book 128 = (Ok (), [])"
    using sample_pages_valid sample_chunks_valid sample_links_valid by (simp add: validate_records_clean)
  then show ?thesis
    using sample_preflight sample_opens sample_sections_valid sample_requirements_valid by (auto simp: validate_all_def clean)
qed

lemma validate_all_sound_witness:
  "validate_all (SliceSource_new sample_file) 760 128 = (Ok (), []) \<and>
    (\<exists>page. book_page 1 128 sample_book = Ok page \<and> page_sound sample_file sample_book page)"
proof -
  have "book_page_count sample_book = 2" by (simp add: sample_simps)
  then show ?thesis using validate_all_sound[OF sample_validates] sample_opens sample_validates by auto
qed

lemma validated_order_witness:
  "\<exists>chunk following. book_chunk 0 128 sample_book = Ok chunk \<and> book_chunk 1 128 sample_book = Ok following \<and>
    chunk_position chunk < chunk_position following"
proof -
  have "book_chunk_count sample_book = 2" by (simp add: sample_simps)
  then show ?thesis using validated_order[OF sample_validates sample_opens, of 0] by simp
qed

end
