(* ===== verification/Reader_State.thy ===== *)
theory Reader_State
  imports Orders Stores Codec Crc32 Machine
begin

text \<open>
  What the reader remembers between two sessions (\<^verbatim>\<open>reader_state.rs\<close>): the book that is open, the selected
  one, and the page of every book that was read, with its file format.  A hash of a rendition is a list of 32 bytes.
\<close>

definition MAX_PROGRESS_RECORDS :: nat where [simp]: "MAX_PROGRESS_RECORDS = 200"
definition STATE_HEADER_SIZE :: nat where [simp]: "STATE_HEADER_SIZE = 72"
definition STATE_RECORD_SIZE :: nat where [simp]: "STATE_RECORD_SIZE = 44"
definition MAX_STATE_BYTES :: nat where "MAX_STATE_BYTES = STATE_HEADER_SIZE + MAX_PROGRESS_RECORDS * STATE_RECORD_SIZE"
definition STATE_MAGIC :: bytes where "STATE_MAGIC = [0x42, 0x42, 0x53, 0x54]"
definition STATE_VERSION :: u16 where "STATE_VERSION = 1"
definition STATE_CRC_OFFSET :: nat where [simp]: "STATE_CRC_OFFSET = 68"

datatype SavedMode = SavedMenu | SavedReading

fun SavedMode_to_u8 :: "SavedMode \<Rightarrow> u8" where
  "SavedMode_to_u8 SavedMenu = 0"
| "SavedMode_to_u8 SavedReading = 1"

record ProgressRecord =
  gr_filename_hash :: u64
  gr_rendition_hash :: bytes
  gr_page :: u32

datatype ReaderStateError =
    StBufferTooSmall | StMagic | StVersion | StHeaderSize | StReserved | StMode | StLength | StCrc | StTooManyRecords
  | StDuplicate | StZeroRenditionHash | StInvalidModeState

record ReaderState =
  rst_generation :: u32
  rst_saved_mode :: SavedMode
  rst_selected_filename_hash :: u64
  rst_active_filename_hash :: u64
  rst_active_rendition_hash :: bytes
  rst_records :: "ProgressRecord list"

definition ReaderState_empty :: ReaderState where
  "ReaderState_empty = \<lparr>rst_generation = 0, rst_saved_mode = SavedMenu, rst_selected_filename_hash = 0, rst_active_filename_hash = 0,
     rst_active_rendition_hash = replicate 32 0, rst_records = []\<rparr>"

definition zero_hash :: "bytes \<Rightarrow> bool" where
  "zero_hash hash = list_all (\<lambda>byte. byte = 0) hash"

definition lookup_page :: "u64 \<Rightarrow> bytes \<Rightarrow> ReaderState \<Rightarrow> u32 option" where
  "lookup_page filename_hash rendition_hash s =
    map_option gr_page (find (\<lambda>r. gr_filename_hash r = filename_hash \<and> gr_rendition_hash r = rendition_hash) (rst_records s))"

type_synonym state_result = "(unit, ReaderStateError) res \<times> ReaderState"

definition same_key :: "ProgressRecord \<Rightarrow> ProgressRecord \<Rightarrow> bool" where
  "same_key new existing =
    (gr_filename_hash existing = gr_filename_hash new \<and> gr_rendition_hash existing = gr_rendition_hash new)"

definition set_progress :: "ProgressRecord \<Rightarrow> ReaderState \<Rightarrow> state_result" where
  "set_progress new s =
    (if zero_hash (gr_rendition_hash new) then (Err StZeroRenditionHash, s)
     else
       case position (same_key new) (rst_records s) of
         Some index \<Rightarrow> (Ok (), s\<lparr>rst_records := (rst_records s)[index := new]\<rparr>)
       | None \<Rightarrow>
           if length (rst_records s) \<ge> MAX_PROGRESS_RECORDS then (Err StTooManyRecords, s)
           else (Ok (), s\<lparr>rst_records := rst_records s @ [new]\<rparr>))"

definition set_reading :: "u64 \<Rightarrow> bytes \<Rightarrow> ReaderState \<Rightarrow> state_result" where
  "set_reading filename_hash rendition_hash s =
    (if filename_hash = 0 \<or> zero_hash rendition_hash \<or> lookup_page filename_hash rendition_hash s = None
     then (Err StInvalidModeState, s)
     else (Ok (), s\<lparr>rst_saved_mode := SavedReading, rst_active_filename_hash := filename_hash,
       rst_active_rendition_hash := rendition_hash\<rparr>))"

definition commit_visible_page :: "u64 \<Rightarrow> bytes \<Rightarrow> u32 \<Rightarrow> ReaderState \<Rightarrow> state_result" where
  "commit_visible_page filename_hash rendition_hash page s =
    (if filename_hash = 0 \<or> zero_hash rendition_hash then (Err StInvalidModeState, s)
     else
       let s = s\<lparr>rst_records := filter (\<lambda>r. gr_filename_hash r \<noteq> filename_hash \<or> gr_rendition_hash r = rendition_hash) (rst_records s)\<rparr>;
           (result, s) = set_progress \<lparr>gr_filename_hash = filename_hash, gr_rendition_hash = rendition_hash, gr_page = page\<rparr> s
       in on_ok result s (\<lambda>_. set_reading filename_hash rendition_hash (s\<lparr>rst_selected_filename_hash := filename_hash\<rparr>)))"

definition set_menu :: "ReaderState \<Rightarrow> ReaderState" where
  "set_menu s = s\<lparr>rst_saved_mode := SavedMenu, rst_active_filename_hash := 0, rst_active_rendition_hash := replicate 32 0\<rparr>"

definition prune_state :: "(u64 \<Rightarrow> bool) \<Rightarrow> ReaderState \<Rightarrow> ReaderState" where
  "prune_state keep_filename s =
    (let keep_selected = (rst_selected_filename_hash s = 0 \<or> keep_filename (rst_selected_filename_hash s));
         keep_active = (rst_saved_mode s \<noteq> SavedReading \<or> keep_filename (rst_active_filename_hash s));
         s = s\<lparr>rst_records := filter (\<lambda>r. keep_filename (gr_filename_hash r)) (rst_records s)\<rparr>;
         s = (if \<not> keep_selected then s\<lparr>rst_selected_filename_hash := 0\<rparr> else s)
     in if \<not> keep_active then set_menu s else s)"

definition retain_record_mask :: "bool list \<Rightarrow> ReaderState \<Rightarrow> nat \<times> ReaderState" where
  "retain_record_mask keep s =
    (let before = length (rst_records s);
         s = s\<lparr>rst_records := map snd (filter (\<lambda>(index, _). if index < length keep then keep ! index else False)
           (enumerate 0 (rst_records s)))\<rparr>
     in (before - length (rst_records s), s))"

definition validate_mode_state :: "ReaderState \<Rightarrow> (unit, ReaderStateError) res" where
  "validate_mode_state s =
    (if rst_saved_mode s = SavedMenu \<and> rst_active_filename_hash s = 0 \<and> rst_active_rendition_hash s = replicate 32 0 then Ok ()
     else if rst_saved_mode s = SavedReading \<and> rst_active_filename_hash s \<noteq> 0 \<and> rst_active_rendition_hash s \<noteq> replicate 32 0 \<and>
       lookup_page (rst_active_filename_hash s) (rst_active_rendition_hash s) s \<noteq> None then Ok ()
     else Err StInvalidModeState)"

definition record_order :: "ProgressRecord \<Rightarrow> ProgressRecord \<Rightarrow> Ordering" where
  "record_order left right = then_with (compare_words (gr_filename_hash left) (gr_filename_hash right))
    (compare_bytes (gr_rendition_hash left) (gr_rendition_hash right))"

definition rewrite_crc :: "bytes \<Rightarrow> (bytes, 'e) res" where
  "rewrite_crc data =
    and_then (put data STATE_CRC_OFFSET (replicate 4 0)) (\<lambda>data. put data STATE_CRC_OFFSET (to_le 4 (iso_hdlc data)))"

definition record_stores :: "nat \<Rightarrow> ProgressRecord \<Rightarrow> stores" where
  "record_stores index r =
    (let start = STATE_HEADER_SIZE + index * STATE_RECORD_SIZE in
     [(start, to_le 8 (gr_filename_hash r)), (start + 8, gr_rendition_hash r), (start + 40, to_le 4 (gr_page r))])"

definition state_stores :: "u32 \<Rightarrow> ReaderState \<Rightarrow> stores" where
  "state_stores generation s =
    [(0, STATE_MAGIC), (4, to_le 2 STATE_VERSION), (6, to_le 2 (of_nat STATE_HEADER_SIZE :: u16)), (8, to_le 4 generation),
     (12, [SavedMode_to_u8 (rst_saved_mode s)]), (16, to_le 8 (rst_selected_filename_hash s)),
     (24, to_le 8 (rst_active_filename_hash s)), (32, rst_active_rendition_hash s),
     (64, to_le 2 (of_nat (length (rst_records s)) :: u16))] @
    concat (map (\<lambda>(index, r). record_stores index r) (enumerate 0 (sort_by record_order (rst_records s))))"

definition state_encode_with_generation :: "u32 \<Rightarrow> ReaderState \<Rightarrow> bytes \<Rightarrow> (nat \<times> bytes, ReaderStateError) res" where
  "state_encode_with_generation generation s out =
    and_then (validate_mode_state s) (\<lambda>_.
    let used = STATE_HEADER_SIZE + length (rst_records s) * STATE_RECORD_SIZE in
    if length out < used then Err StBufferTooSmall
    else
      and_then (put out 0 (replicate used 0)) (\<lambda>out.
      and_then (store_seq (state_stores generation s) out) (\<lambda>out.
      and_then (rewrite_crc (take used out)) (\<lambda>data. Ok (used, data @ drop used out)))))"

definition state_encode :: "ReaderState \<Rightarrow> bytes \<Rightarrow> (nat \<times> bytes, ReaderStateError) res" where
  "state_encode s out = state_encode_with_generation (rst_generation s) s out"

definition matches_except_generation :: "ReaderState \<Rightarrow> ReaderState \<Rightarrow> bool" where
  "matches_except_generation s other =
    (rst_saved_mode s = rst_saved_mode other \<and> rst_selected_filename_hash s = rst_selected_filename_hash other \<and>
     rst_active_filename_hash s = rst_active_filename_hash other \<and> rst_active_rendition_hash s = rst_active_rendition_hash other \<and>
     length (rst_records s) = length (rst_records other) \<and>
     list_all (\<lambda>r. list_ex (\<lambda>candidate. candidate = r) (rst_records other)) (rst_records s))"

fun decode_records :: "nat \<Rightarrow> nat \<Rightarrow> bytes \<Rightarrow> ReaderState \<Rightarrow> (ReaderState, ReaderStateError) res" where
  "decode_records 0 index data decoded = Ok decoded"
| "decode_records (Suc n) index data decoded =
    (let start = STATE_HEADER_SIZE + index * STATE_RECORD_SIZE in
     and_then (u64_at data start) (\<lambda>filename_hash.
     and_then (bytes_at data (start + 8) 32) (\<lambda>rendition_hash.
     and_then (u32_at data (start + 40)) (\<lambda>page.
     if zero_hash rendition_hash then Err StZeroRenditionHash
     else if lookup_page filename_hash rendition_hash decoded \<noteq> None then Err StDuplicate
     else if length (rst_records decoded) \<ge> MAX_PROGRESS_RECORDS then Err StTooManyRecords
     else decode_records n (Suc index) data (decoded\<lparr>rst_records := rst_records decoded @
       [\<lparr>gr_filename_hash = filename_hash, gr_rendition_hash = rendition_hash, gr_page = page\<rparr>]\<rparr>)))))"

definition decode_mode :: "u8 \<Rightarrow> (SavedMode, ReaderStateError) res" where
  "decode_mode value = (if value = 0 then Ok SavedMenu else if value = 1 then Ok SavedReading else Err StMode)"

definition state_decode :: "bytes \<Rightarrow> (ReaderState, ReaderStateError) res" where
  "state_decode data =
    (if length data < STATE_HEADER_SIZE then Err StLength
     else if subslice data 0 4 \<noteq> STATE_MAGIC then Err StMagic
     else
       and_then (u16_at data 4) (\<lambda>version.
       if version \<noteq> STATE_VERSION then Err StVersion
       else
         and_then (u16_at data 6) (\<lambda>header_size.
         if unat header_size \<noteq> STATE_HEADER_SIZE then Err StHeaderSize
         else if subslice data 13 3 \<noteq> [0, 0, 0] \<or> subslice data 66 2 \<noteq> [0, 0] then Err StReserved
         else
           and_then (u16_at data 64) (\<lambda>record_count.
           let count = unat record_count in
           if count > MAX_PROGRESS_RECORDS then Err StTooManyRecords
           else if length data \<noteq> STATE_HEADER_SIZE + count * STATE_RECORD_SIZE then Err StLength
           else
             and_then (u32_at data STATE_CRC_OFFSET) (\<lambda>expected_crc.
             if NOT (update 0xFFFFFFFF (blank STATE_CRC_OFFSET 4 data)) \<noteq> expected_crc then Err StCrc
             else
               and_then (decode_mode (data ! 12)) (\<lambda>saved_mode.
               and_then (u32_at data 8) (\<lambda>generation.
               and_then (u64_at data 16) (\<lambda>selected.
               and_then (u64_at data 24) (\<lambda>active.
               and_then (bytes_at data 32 32) (\<lambda>rendition.
               and_then (decode_records count 0 data
                 \<lparr>rst_generation = generation, rst_saved_mode = saved_mode, rst_selected_filename_hash = selected,
                  rst_active_filename_hash = active, rst_active_rendition_hash = rendition, rst_records = []\<rparr>) (\<lambda>decoded.
               and_then (validate_mode_state decoded) (\<lambda>_. Ok decoded))))))))))))"

definition filename_hash :: "bytes \<Rightarrow> u64" where
  "filename_hash filename = fold (\<lambda>byte hash. (hash XOR ucast byte) * 0x00000100000001b3) filename 0xcbf29ce484222325"

definition select_newer :: "ReaderState option \<Rightarrow> ReaderState option \<Rightarrow> nat option" where
  "select_newer a b =
    (case (a, b) of
       (None, None) \<Rightarrow> None
     | (Some _, None) \<Rightarrow> Some 0
     | (None, Some _) \<Rightarrow> Some 1
     | (Some a, Some b) \<Rightarrow> if rst_generation b - rst_generation a < 0x80000000 then Some 1 else Some 0)"

subsection \<open>States and their files\<close>

definition progress_key :: "ProgressRecord \<Rightarrow> u64 \<times> bytes" where
  "progress_key r = (gr_filename_hash r, gr_rendition_hash r)"

definition progress_ok :: "ProgressRecord \<Rightarrow> bool" where
  "progress_ok r \<longleftrightarrow> length (gr_rendition_hash r) = 32 \<and> \<not> zero_hash (gr_rendition_hash r)"

definition state_wf :: "ReaderState \<Rightarrow> bool" where
  "state_wf s \<longleftrightarrow> length (rst_active_rendition_hash s) = 32 \<and> (\<forall>r\<in>set (rst_records s). progress_ok r) \<and>
    distinct (map progress_key (rst_records s)) \<and> length (rst_records s) \<le> 200 \<and> validate_mode_state s = Ok ()"

definition progress_bytes :: "ProgressRecord \<Rightarrow> bytes" where
  "progress_bytes r = to_le 8 (gr_filename_hash r) @ gr_rendition_hash r @ to_le 4 (gr_page r)"

definition state_head :: "ReaderState \<Rightarrow> bytes" where
  "state_head s = STATE_MAGIC @ to_le 2 STATE_VERSION @ to_le 2 (72 :: u16) @ to_le 4 (rst_generation s) @
    [SavedMode_to_u8 (rst_saved_mode s), 0, 0, 0] @ to_le 8 (rst_selected_filename_hash s) @
    to_le 8 (rst_active_filename_hash s) @ rst_active_rendition_hash s @
    to_le 2 (of_nat (length (rst_records s)) :: u16) @ [0, 0]"

definition state_tail :: "ReaderState \<Rightarrow> bytes" where
  "state_tail s = concat (map progress_bytes (rst_records s))"

definition state_wire :: "ReaderState \<Rightarrow> bytes" where
  "state_wire s = state_head s @ to_le 4 (iso_hdlc (state_head s @ replicate 4 0 @ state_tail s)) @ state_tail s"

definition canonical :: "ReaderState \<Rightarrow> ReaderState" where
  "canonical s = s\<lparr>rst_records := sort_by record_order (rst_records s)\<rparr>"

lemma same_key_iff: "same_key new existing \<longleftrightarrow> progress_key existing = progress_key new"
  by (simp add: same_key_def progress_key_def)

lemma length_progress_bytes: "progress_ok r \<Longrightarrow> length (progress_bytes r) = 44"
  by (simp add: progress_bytes_def progress_ok_def)

lemma length_state_head: "length (rst_active_rendition_hash s) = 32 \<Longrightarrow> length (state_head s) = 68"
  by (simp add: state_head_def STATE_MAGIC_def)

lemma length_state_tail: "\<forall>r\<in>set (rst_records s). progress_ok r \<Longrightarrow> length (state_tail s) = 44 * length (rst_records s)"
proof -
  have "\<forall>r\<in>set rs. progress_ok r \<Longrightarrow> length (concat (map progress_bytes rs)) = 44 * length rs" for rs
    by (induction rs) (auto simp: length_progress_bytes)
  then show "\<forall>r\<in>set (rst_records s). progress_ok r \<Longrightarrow> length (state_tail s) = 44 * length (rst_records s)"
    by (simp add: state_tail_def)
qed

interpretation progress: comparison record_order
  unfolding record_order_def[abs_def]
  by (rule comparison_then_with[OF comparison_on[OF words.comparison_axioms, of gr_filename_hash]
        comparison_on[OF bytes.comparison_axioms, of gr_rendition_hash]])

lemma record_order_Equal: "record_order a b = Equal \<longleftrightarrow> progress_key a = progress_key b"
  by (auto simp: record_order_def then_with_eq progress_key_def)

lemma progress_unequal: "progress.unequal rs \<longleftrightarrow> distinct (map progress_key rs)"
  unfolding progress.unequal_def by (induction rs) (auto simp: record_order_Equal)

lemma find_iff:
  assumes "distinct (map f xs)"
  shows "find (\<lambda>x. f x = k) xs = Some x \<longleftrightarrow> x \<in> set xs \<and> f x = k"
  using assms by (induction xs) (auto intro: rev_image_eqI)

lemma lookup_page_iff:
  assumes "distinct (map progress_key (rst_records s))"
  shows "lookup_page f h s = Some p \<longleftrightarrow> (\<exists>r\<in>set (rst_records s). progress_key r = (f, h) \<and> gr_page r = p)"
proof -
  have "lookup_page f h s = map_option gr_page (find (\<lambda>r. progress_key r = (f, h)) (rst_records s))"
    by (simp add: lookup_page_def progress_key_def)
  then show ?thesis using find_iff[OF assms] by auto
qed

lemma lookup_page_None: "lookup_page f h s = None \<longleftrightarrow> (f, h) \<notin> progress_key ` set (rst_records s)"
  by (auto simp: lookup_page_def find_None_iff progress_key_def)

lemma lookup_page_canonical:
  assumes "distinct (map progress_key (rst_records s))"
  shows "lookup_page f h (canonical s) = lookup_page f h s"
proof (rule option.expand)
  have d: "distinct (map progress_key (rst_records (canonical s)))"
    by (metis assms canonical_def mset_sort_by progress.unequal_mset progress_unequal ReaderState.select_convs(6) ReaderState.surjective ReaderState.update_convs(6))
  show "(lookup_page f h (canonical s) = None) = (lookup_page f h s = None)" by (simp add: lookup_page_None canonical_def)
  assume "lookup_page f h (canonical s) \<noteq> None" "lookup_page f h s \<noteq> None"
  then obtain p q where p: "lookup_page f h (canonical s) = Some p" "lookup_page f h s = Some q" by blast
  then have "lookup_page f h s = Some p" using lookup_page_iff[OF assms] lookup_page_iff[OF d] by (auto simp: canonical_def)
  then show "the (lookup_page f h (canonical s)) = the (lookup_page f h s)" using p by simp
qed

lemma canonical_wf: "state_wf s \<Longrightarrow> state_wf (canonical s)"
proof -
  assume wf: "state_wf s"
  then have d: "distinct (map progress_key (rst_records s))" by (simp add: state_wf_def)
  have "distinct (map progress_key (sort_by record_order (rst_records s)))"
    by (metis d mset_sort_by progress.unequal_mset progress_unequal)
  moreover have "validate_mode_state (canonical s) = validate_mode_state s"
    by (simp add: validate_mode_state_def lookup_page_canonical[OF d]) (simp add: canonical_def)
  ultimately show "state_wf (canonical s)" using wf by (simp add: state_wf_def canonical_def)
qed

subsection \<open>Writing\<close>

lemma records_layout:
  "\<forall>r\<in>set rs. progress_ok r \<Longrightarrow>
    layout (72 + k * 44) (concat (map (\<lambda>(i, r). record_stores i r) (enumerate k rs))) = concat (map progress_bytes rs) \<and>
    upwards (72 + k * 44) (concat (map (\<lambda>(i, r). record_stores i r) (enumerate k rs)))"
proof (induction rs arbitrary: k)
  case (Cons r rs)
  then show ?case using Cons.IH[of "Suc k"]
    by (simp add: record_stores_def Let_def progress_ok_def progress_bytes_def algebra_simps)
qed simp

lemma records_layout_gap:
  assumes "\<forall>r\<in>set rs. progress_ok r"
  shows "layout 66 (concat (map (\<lambda>(i, r). record_stores i r) (enumerate 0 rs))) @
      replicate (n - length (layout 66 (concat (map (\<lambda>(i, r). record_stores i r) (enumerate 0 rs))))) 0 =
    (if rs = [] then replicate n 0 else replicate 6 0 @ concat (map progress_bytes rs) @
      replicate (n - 6 - length (concat (map progress_bytes rs))) 0)" and
    "upwards 66 (concat (map (\<lambda>(i, r). record_stores i r) (enumerate 0 rs)))"
proof -
  let ?ss = "concat (map (\<lambda>(i, r). record_stores i r) (enumerate 0 rs))"
  have at72: "layout 72 ?ss = concat (map progress_bytes rs)" "upwards 72 ?ss" using records_layout[OF assms, of 0] by simp_all
  have gap: "ss \<noteq> [] \<Longrightarrow> upwards 72 ss \<Longrightarrow> fst (hd ss) = 72 \<Longrightarrow> layout 66 ss = replicate 6 0 @ layout 72 ss" for ss
    by (cases ss) auto
  have "rs \<noteq> [] \<Longrightarrow> ?ss \<noteq> [] \<and> fst (hd ?ss) = 72" by (cases rs) (simp_all add: record_stores_def Let_def)
  then have at66: "layout 66 ?ss = (if rs = [] then [] else replicate 6 0 @ layout 72 ?ss)"
    using at72(2) gap[of ?ss] by (cases "rs = []") simp_all
  have up: "upwards 66 ?ss"
  proof -
    have "upwards 72 ss \<Longrightarrow> upwards 66 ss" for ss by (cases ss) auto
    then show ?thesis using at72(2) .
  qed
  show "layout 66 ?ss @ replicate (n - length (layout 66 ?ss)) 0 =
    (if rs = [] then replicate n 0 else replicate 6 0 @ concat (map progress_bytes rs) @
      replicate (n - 6 - length (concat (map progress_bytes rs))) 0)"
    unfolding at66 at72(1) by simp
  show "upwards 66 ?ss" by (rule up)
qed

definition fixed_bytes :: "u32 \<Rightarrow> ReaderState \<Rightarrow> bytes" where
  "fixed_bytes generation s = STATE_MAGIC @ to_le 2 STATE_VERSION @ to_le 2 (72 :: u16) @ to_le 4 generation @
    [SavedMode_to_u8 (rst_saved_mode s), 0, 0, 0] @ to_le 8 (rst_selected_filename_hash s) @
    to_le 8 (rst_active_filename_hash s) @ rst_active_rendition_hash s @
    to_le 2 (of_nat (length (rst_records s)) :: u16)"

lemma state_layout:
  assumes "length (rst_active_rendition_hash s) = 32"
  shows "layout 0 (state_stores g s) = fixed_bytes g s @
      layout 66 (concat (map (\<lambda>(i, r). record_stores i r) (enumerate 0 (sort_by record_order (rst_records s)))))" and
    "upwards 0 (state_stores g s) =
      upwards 66 (concat (map (\<lambda>(i, r). record_stores i r) (enumerate 0 (sort_by record_order (rst_records s)))))"
  using assms by (simp_all add: state_stores_def fixed_bytes_def STATE_MAGIC_def numeral_3_eq_3)

lemma state_stored:
  assumes "length (rst_active_rendition_hash s) = 32" and ok: "\<forall>r\<in>set (rst_records s). progress_ok r"
  shows "store_seq (state_stores g s) (replicate (72 + length (rst_records s) * 44) 0 @ rest) =
    Ok (state_head (canonical (s\<lparr>rst_generation := g\<rparr>)) @ replicate 4 0 @ state_tail (canonical s) @ rest)"
proof -
  let ?rs = "sort_by record_order (rst_records s)"
  let ?ss = "concat (map (\<lambda>(i, r). record_stores i r) (enumerate 0 ?rs))"
  have ok': "\<forall>r\<in>set ?rs. progress_ok r" using ok by simp
  have fixed: "length (fixed_bytes g s) = 66" using assms(1) by (simp add: fixed_bytes_def STATE_MAGIC_def)
  have tail: "state_tail (canonical s) = concat (map progress_bytes ?rs)" by (simp add: state_tail_def canonical_def)
  have len: "length (concat (map progress_bytes ?rs)) = 44 * length (rst_records s)"
    using length_state_tail[of "canonical s"] ok' by (simp add: tail[symmetric]) (simp add: canonical_def)
  let ?n = "6 + length (rst_records s) * 44"
  have "length (layout 66 ?ss) \<le> ?n"
    using records_layout_gap(1)[OF ok', of 0] arg_cong[OF records_layout_gap(1)[OF ok', of 0], of length] len
    by (cases "rst_records s = []") (auto split: if_splits)
  then have "store_seq (state_stores g s) (replicate (66 + ?n) 0 @ rest) =
      (Ok (fixed_bytes g s @ (layout 66 ?ss @ replicate (?n - length (layout 66 ?ss)) 0) @ rest) :: (bytes, 'a) res)"
    using store_seq_zeros[of "state_stores g s" "66 + ?n" rest] records_layout_gap(2)[OF ok'] fixed
    by (simp add: state_layout[OF assms(1)])
  also have "layout 66 ?ss @ replicate (?n - length (layout 66 ?ss)) 0 = replicate 6 0 @ state_tail (canonical s)"
    unfolding records_layout_gap(1)[OF ok'] using len by (auto simp: tail)
  also have "fixed_bytes g s @ (replicate 6 0 @ state_tail (canonical s)) @ rest =
      state_head (canonical (s\<lparr>rst_generation := g\<rparr>)) @ replicate 4 0 @ state_tail (canonical s) @ rest"
  proof -
    have "replicate 6 (0 :: u8) = [0, 0] @ replicate 4 0" by (simp add: numeral_eq_Suc)
    then show ?thesis by (simp add: state_head_def fixed_bytes_def canonical_def)
  qed
  finally show ?thesis by (simp add: add.commute)
qed

lemma state_encode_eq:
  assumes wf: "state_wf s" and room: "72 + length (rst_records s) * 44 \<le> length out"
  shows "state_encode_with_generation g s out =
    Ok (72 + length (rst_records s) * 44, state_wire (canonical (s\<lparr>rst_generation := g\<rparr>)) @ drop (72 + length (rst_records s) * 44) out)"
proof -
  let ?used = "72 + length (rst_records s) * 44" and ?c = "canonical (s\<lparr>rst_generation := g\<rparr>)"
  have ok: "length (rst_active_rendition_hash s) = 32" "\<forall>r\<in>set (rst_records s). progress_ok r" "validate_mode_state s = Ok ()"
    using wf by (simp_all add: state_wf_def)
  have head: "length (state_head ?c) = 68" using ok(1) by (intro length_state_head) (simp add: canonical_def)
  have tail: "length (state_tail (canonical s)) = 44 * length (rst_records s)" "state_tail ?c = state_tail (canonical s)"
    using length_state_tail[of "canonical s"] ok(2) by (simp_all add: canonical_def state_tail_def)
  have "put out 0 (replicate ?used 0) = (Ok (replicate ?used 0 @ drop ?used out) :: (bytes, ReaderStateError) res)"
    using room by (simp add: put_def overwrite_start)
  moreover have "take ?used (state_head ?c @ replicate 4 0 @ state_tail (canonical s) @ drop ?used out) =
      state_head ?c @ replicate 4 0 @ state_tail (canonical s)"
    using head tail by simp
  moreover have "drop ?used (state_head ?c @ replicate 4 0 @ state_tail (canonical s) @ drop ?used out) = drop ?used out"
    using head tail by simp
  moreover have "put (state_head ?c @ replicate 4 0 @ state_tail (canonical s)) 68 bs =
      (Ok (state_head ?c @ bs @ state_tail (canonical s)) :: (bytes, ReaderStateError) res)" if "length bs = 4" for bs
    using head that by (simp add: put_def overwrite_def)
  ultimately show ?thesis using room ok
    by (simp add: state_encode_with_generation_def Let_def state_stored rewrite_crc_def state_wire_def tail(2) del: replicate.simps)
qed

subsection \<open>Reading back\<close>

lemma progress_bytes_read:
  assumes "length xs = start" "progress_ok r"
  shows "u64_at (xs @ progress_bytes r @ ys) start = Ok (gr_filename_hash r)"
    "bytes_at (xs @ progress_bytes r @ ys) (start + 8) 32 = Ok (gr_rendition_hash r)"
    "u32_at (xs @ progress_bytes r @ ys) (start + 40) = Ok (gr_page r)"
  using assms
  by (simp_all add: progress_bytes_def progress_ok_def u64_at_Ok u32_at_Ok bytes_at_Ok slice_read of_le_to_le)

lemma decode_records_eq:
  assumes "length pre = 72" "data = pre @ concat (map progress_bytes (seen @ rest))" "rst_records d = seen"
    "\<forall>r\<in>set (seen @ rest). progress_ok r" "distinct (map progress_key (seen @ rest))" "length (seen @ rest) \<le> 200"
  shows "decode_records (length rest) (length seen) data d = Ok (d\<lparr>rst_records := seen @ rest\<rparr>)"
  using assms
proof (induction rest arbitrary: seen d)
  case (Cons r rest)
  let ?xs = "pre @ concat (map progress_bytes seen)"
  have r: "progress_ok r" and seen: "\<forall>x\<in>set seen. progress_ok x" using Cons.prems(4) by simp_all
  have len: "length ?xs = 72 + length seen * 44"
    using Cons.prems(1) length_state_tail[of "d\<lparr>rst_records := seen\<rparr>"] seen by (simp add: state_tail_def)
  have data: "data = ?xs @ progress_bytes r @ concat (map progress_bytes rest)" using Cons.prems(2) by simp
  have new: "lookup_page (gr_filename_hash r) (gr_rendition_hash r) d = None"
    using Cons.prems(3,5) by (auto simp: lookup_page_None progress_key_def)
  have eta: "\<lparr>gr_filename_hash = gr_filename_hash r, gr_rendition_hash = gr_rendition_hash r, gr_page = gr_page r\<rparr> = r" by simp
  have reads: "u64_at data (72 + length seen * 44) = (Ok (gr_filename_hash r) :: (u64, ReaderStateError) res)"
    "bytes_at data (80 + length seen * 44) 32 = (Ok (gr_rendition_hash r) :: (bytes, ReaderStateError) res)"
    "u32_at data (112 + length seen * 44) = (Ok (gr_page r) :: (u32, ReaderStateError) res)"
    using progress_bytes_read[OF len r, of "concat (map progress_bytes rest)"] unfolding data
    by (simp_all add: add.commute[of _ 8] add.commute[of _ 40])
  have "decode_records (length rest) (Suc (length seen)) data (d\<lparr>rst_records := seen @ [r]\<rparr>) = Ok (d\<lparr>rst_records := seen @ r # rest\<rparr>)"
    using Cons.IH[of "seen @ [r]" "d\<lparr>rst_records := seen @ [r]\<rparr>"] Cons.prems by simp
  moreover have "\<not> zero_hash (gr_rendition_hash r)" "length seen < 200" using r Cons.prems(6) by (simp_all add: progress_ok_def)
  ultimately show ?case using new Cons.prems(3) by (simp add: reads Let_def eta)
qed simp

lemma decode_mode_to_u8 [simp]: "decode_mode (SavedMode_to_u8 m) = Ok m"
  by (cases m) (simp_all add: decode_mode_def)

lemma subslice_2: "subslice (a # b # xs) 0 2 = [a, b]"
  by (simp add: subslice_def)

lemma state_wire_fields:
  assumes "length (rst_active_rendition_hash s) = 32"
  shows "subslice (state_wire s) 0 4 = STATE_MAGIC"
    "u16_at (state_wire s) 4 = Ok STATE_VERSION"
    "u16_at (state_wire s) 6 = Ok 72"
    "subslice (state_wire s) 13 3 = [0, 0, 0]" "subslice (state_wire s) 66 2 = [0, 0]"
    "u16_at (state_wire s) 64 = Ok (of_nat (length (rst_records s)))"
    "u32_at (state_wire s) 68 = Ok (iso_hdlc (state_head s @ replicate 4 0 @ state_tail s))"
    "state_wire s ! 12 = SavedMode_to_u8 (rst_saved_mode s)"
    "u32_at (state_wire s) 8 = Ok (rst_generation s)"
    "u64_at (state_wire s) 16 = Ok (rst_selected_filename_hash s)"
    "u64_at (state_wire s) 24 = Ok (rst_active_filename_hash s)"
    "bytes_at (state_wire s) 32 32 = Ok (rst_active_rendition_hash s)"
    "blank 68 4 (state_wire s) = state_head s @ replicate 4 0 @ state_tail s"
proof -
  have head: "length (state_head s) = 68" by (rule length_state_head[OF assms])
  have magic: "length STATE_MAGIC = 4" by (simp add: STATE_MAGIC_def)
  show "blank 68 4 (state_wire s) = state_head s @ replicate 4 0 @ state_tail s"
    unfolding state_wire_def by (rule blank_append) (simp_all add: head)
  show "u32_at (state_wire s) 68 = Ok (iso_hdlc (state_head s @ replicate 4 0 @ state_tail s))"
    by (simp add: state_wire_def head u32_at_Ok slice_read of_le_to_le)
  show "subslice (state_wire s) 0 4 = STATE_MAGIC" "u16_at (state_wire s) 4 = Ok STATE_VERSION"
    "u16_at (state_wire s) 6 = Ok 72" "subslice (state_wire s) 13 3 = [0, 0, 0]" "subslice (state_wire s) 66 2 = [0, 0]"
    "u16_at (state_wire s) 64 = Ok (of_nat (length (rst_records s)))"
    "state_wire s ! 12 = SavedMode_to_u8 (rst_saved_mode s)" "u32_at (state_wire s) 8 = Ok (rst_generation s)"
    "u64_at (state_wire s) 16 = Ok (rst_selected_filename_hash s)" "u64_at (state_wire s) 24 = Ok (rst_active_filename_hash s)"
    "bytes_at (state_wire s) 32 32 = Ok (rst_active_rendition_hash s)"
    unfolding state_wire_def state_head_def
    by (simp_all add: assms magic u16_at_Ok u32_at_Ok u64_at_Ok bytes_at_Ok slice_read of_le_to_le subslice_3 subslice_2)
qed

lemma length_state_wire: "state_wf s \<Longrightarrow> length (state_wire s) = 72 + length (rst_records s) * 44"
  by (simp add: state_wire_def length_state_head length_state_tail state_wf_def)

lemma state_decode_wire:
  assumes "state_wf s"
  shows "state_decode (state_wire s) = Ok s"
proof -
  have ok: "length (rst_active_rendition_hash s) = 32" "\<forall>r\<in>set (rst_records s). progress_ok r"
    "distinct (map progress_key (rst_records s))" "length (rst_records s) \<le> 200" "validate_mode_state s = Ok ()"
    using assms by (simp_all add: state_wf_def)
  have "decode_records (length (rst_records s)) (length []) (state_wire s) (s\<lparr>rst_records := []\<rparr>) = Ok (s\<lparr>rst_records := [] @ rst_records s\<rparr>)"
    using decode_records_eq[of "state_head s @ to_le 4 (iso_hdlc (state_head s @ replicate 4 0 @ state_tail s))" "state_wire s"
        "[]" "rst_records s" "s\<lparr>rst_records := []\<rparr>"]
    by (simp add: ok length_state_head state_wire_def state_tail_def del: replicate.simps)
  then have records: "decode_records (length (rst_records s)) 0 (state_wire s)
    \<lparr>rst_generation = rst_generation s, rst_saved_mode = rst_saved_mode s, rst_selected_filename_hash = rst_selected_filename_hash s,
     rst_active_filename_hash = rst_active_filename_hash s, rst_active_rendition_hash = rst_active_rendition_hash s, rst_records = []\<rparr> = Ok s"
    by (cases s) simp
  have crc: "NOT (update 0xFFFFFFFF (state_head s @ replicate 4 0 @ state_tail s)) = iso_hdlc (state_head s @ replicate 4 0 @ state_tail s)"
    by (simp add: iso_hdlc_def ones32)
  show ?thesis using ok(4)
    by (simp add: state_decode_def length_state_wire[OF assms] state_wire_fields[OF ok(1)] crc records ok(5) Let_def del: replicate.simps)
qed

subsection \<open>Only such files are read\<close>

lemma decode_records_only:
  "decode_records n index data d = Ok d' \<Longrightarrow> 72 + (index + n) * 44 \<le> length data \<Longrightarrow>
    \<exists>rs. d' = d\<lparr>rst_records := rst_records d @ rs\<rparr> \<and> length rs = n \<and> (\<forall>r\<in>set rs. progress_ok r) \<and>
      subslice data (72 + index * 44) (n * 44) = concat (map progress_bytes rs) \<and>
      (distinct (map progress_key (rst_records d)) \<longrightarrow> distinct (map progress_key (rst_records d @ rs)))"
proof (induction n arbitrary: index d)
  case 0
  then show ?case by (cases d) auto
next
  case (Suc n)
  let ?at = "72 + index * 44"
  have fits: "?at + 44 + n * 44 \<le> length data" using Suc.prems(2) by (simp add: algebra_simps)
  define r where "r = \<lparr>gr_filename_hash = of_le (subslice data ?at 8), gr_rendition_hash = subslice data (?at + 8) 32,
    gr_page = of_le (subslice data (?at + 40) 4)\<rparr>"
  have reads: "u64_at data ?at = (Ok (gr_filename_hash r) :: (u64, ReaderStateError) res)"
    "bytes_at data (80 + index * 44) 32 = (Ok (gr_rendition_hash r) :: (bytes, ReaderStateError) res)"
    "u32_at data (112 + index * 44) = (Ok (gr_page r) :: (u32, ReaderStateError) res)"
    using fits by (simp_all add: r_def u64_at_Ok bytes_at_Ok u32_at_Ok add.commute[of _ 8] add.commute[of _ 40])
  have eta: "\<lparr>gr_filename_hash = gr_filename_hash r, gr_rendition_hash = gr_rendition_hash r, gr_page = gr_page r\<rparr> = r" by simp
  have step: "\<not> zero_hash (gr_rendition_hash r)" "lookup_page (gr_filename_hash r) (gr_rendition_hash r) d = None"
    "\<not> length (rst_records d) \<ge> 200" "decode_records n (Suc index) data (d\<lparr>rst_records := rst_records d @ [r]\<rparr>) = Ok d'"
    using Suc.prems(1) by (auto simp: Let_def reads eta split: if_splits)
  have ok: "progress_ok r" using fits step(1) by (simp add: progress_ok_def r_def)
  obtain rs where rs: "d' = d\<lparr>rst_records := rst_records d @ [r] @ rs\<rparr>" "length rs = n" "\<forall>r\<in>set rs. progress_ok r"
    "subslice data (?at + 44) (n * 44) = concat (map progress_bytes rs)"
    "distinct (map progress_key (rst_records d @ [r])) \<longrightarrow> distinct (map progress_key ((rst_records d @ [r]) @ rs))"
    using Suc.IH[OF step(4)] Suc.prems(2) by (auto simp: algebra_simps)
  have "subslice data ?at 8 @ subslice data (?at + 8) 32 @ subslice data (?at + 8 + 32) 4 = subslice data ?at (8 + 32 + 4)"
    by (rule subslice_join3)
  then have "progress_bytes r = subslice data ?at 44"
    using fits by (simp add: progress_bytes_def r_def to_le_of_le)
  moreover have "subslice data ?at (Suc n * 44) = subslice data ?at 44 @ subslice data (?at + 44) (n * 44)"
    by (simp add: subslice_def take_add add.commute)
  ultimately have "subslice data ?at (Suc n * 44) = concat (map progress_bytes (r # rs))" using rs(4) by simp
  moreover have "distinct (map progress_key (rst_records d)) \<longrightarrow> distinct (map progress_key (rst_records d @ [r]))"
    using step(2) by (auto simp: lookup_page_None progress_key_def)
  ultimately show ?case using rs ok by (intro exI[of _ "r # rs"]) auto
qed

lemma state_decode_checks:
  assumes "state_decode data = Ok s"
  obtains mode where "subslice data 0 4 = STATE_MAGIC" "of_le (subslice data 4 2) = STATE_VERSION"
    "unat (of_le (subslice data 6 2) :: u16) = 72" "subslice data 13 3 = [0, 0, 0]" "subslice data 66 2 = [0, 0]"
    "unat (of_le (subslice data 64 2) :: u16) \<le> 200" "length data = 72 + unat (of_le (subslice data 64 2) :: u16) * 44"
    "NOT (update 0xFFFFFFFF (blank 68 4 data)) = of_le (subslice data 68 4)" "decode_mode (data ! 12) = Ok mode"
    "decode_records (unat (of_le (subslice data 64 2) :: u16)) 0 data
      \<lparr>rst_generation = of_le (subslice data 8 4), rst_saved_mode = mode,
       rst_selected_filename_hash = of_le (subslice data 16 8), rst_active_filename_hash = of_le (subslice data 24 8),
       rst_active_rendition_hash = subslice data 32 32, rst_records = []\<rparr> = Ok s"
    "validate_mode_state s = Ok ()"
proof -
  have len: "72 \<le> length data" using assms by (auto simp: state_decode_def split: if_splits)
  show ?thesis
    using assms len that unfolding state_decode_def
    by (auto simp: u16_at_Ok u32_at_Ok u64_at_Ok bytes_at_Ok and_then_Ok_iff Let_def split: if_splits)
qed

lemma state_decode_only:
  assumes "state_decode data = Ok s"
  shows "state_wf s \<and> data = state_wire s"
proof -
  let ?count = "unat (of_le (subslice data 64 2) :: u16)"
  obtain mode where c: "subslice data 0 4 = STATE_MAGIC" "of_le (subslice data 4 2) = STATE_VERSION"
    "unat (of_le (subslice data 6 2) :: u16) = 72" "subslice data 13 3 = [0, 0, 0]" "subslice data 66 2 = [0, 0]"
    "?count \<le> 200" "length data = 72 + ?count * 44" "NOT (update 0xFFFFFFFF (blank 68 4 data)) = of_le (subslice data 68 4)"
    "decode_mode (data ! 12) = Ok mode" and d: "decode_records ?count 0 data
      \<lparr>rst_generation = of_le (subslice data 8 4), rst_saved_mode = mode,
       rst_selected_filename_hash = of_le (subslice data 16 8), rst_active_filename_hash = of_le (subslice data 24 8),
       rst_active_rendition_hash = subslice data 32 32, rst_records = []\<rparr> = Ok s" and v: "validate_mode_state s = Ok ()"
    using assms by (rule state_decode_checks)
  obtain rs where s: "s = \<lparr>rst_generation = of_le (subslice data 8 4), rst_saved_mode = mode,
       rst_selected_filename_hash = of_le (subslice data 16 8), rst_active_filename_hash = of_le (subslice data 24 8),
       rst_active_rendition_hash = subslice data 32 32, rst_records = rs\<rparr>" and rs: "length rs = ?count"
    "\<forall>r\<in>set rs. progress_ok r" "subslice data 72 (?count * 44) = concat (map progress_bytes rs)" "distinct (map progress_key rs)"
    using decode_records_only[OF d] c(7) by auto
  have wf: "state_wf s" using c(6,7) rs v by (simp add: state_wf_def s)
  have mode: "[data ! 12] = [SavedMode_to_u8 mode]" using c(9) by (auto simp: decode_mode_def split: if_splits)
  have size: "(of_le (subslice data 6 2) :: u16) = 72" using c(3) by (simp add: word_unat_eq_iff)
  have count: "(of_nat (length rs) :: u16) = of_le (subslice data 64 2)" using rs(1) by simp
  have le: "to_le 2 (of_le (subslice data i 2) :: u16) = subslice data i 2" if "i + 2 \<le> 72" for i
    using that c(7) by (intro to_le_of_le) simp_all
  have "to_le 2 STATE_VERSION = subslice data 4 2" "to_le 2 (72 :: u16) = subslice data 6 2"
    "to_le 2 (of_nat (length rs) :: u16) = subslice data 64 2"
    using le[of 4] le[of 6] le[of 64] c(2) size count by simp_all
  then have "state_head s = subslice data 0 4 @ subslice data 4 2 @ subslice data 6 2 @ subslice data 8 4 @ [data ! 12] @
      subslice data 13 3 @ subslice data 16 8 @ subslice data 24 8 @ subslice data 32 32 @ subslice data 64 2 @ subslice data 66 2"
    using c(7) mode by (simp add: state_head_def s c(1,4,5) to_le_of_le)
  then have joined: "state_head s @ drop 68 data = data"
    using c(7) by (simp add: slice_join subslice_prefix)
  have "length (state_head s) = 68" using wf by (intro length_state_head) (simp add: state_wf_def)
  then have "take 68 (state_head s @ drop 68 data) = state_head s" by simp
  then have head: "state_head s = take 68 data" by (simp only: joined)
  have tail: "state_tail s = drop 72 data" 
  proof -
    have "subslice data 72 (?count * 44) = drop 72 data" unfolding subslice_def[of data 72] by (rule take_all) (use c(7) in simp)
    then show ?thesis using rs(3) unfolding state_tail_def s by (simp only: ReaderState.simps)
  qed
  have "data = take 68 data @ subslice data 68 4 @ drop 72 data" by (simp add: slice_join)
  moreover have "blank 68 4 data = take 68 data @ replicate 4 0 @ drop 72 data"
    using blank_append[of "take 68 data" 68 "subslice data 68 4" 4 "drop 72 data"] c(7) by (simp add: slice_join)
  moreover have "to_le 4 (of_le (subslice data 68 4) :: u32) = subslice data 68 4" using c(7) by (intro to_le_of_le) simp_all
  ultimately have "data = state_wire s" using c(8) by (simp add: state_wire_def head tail iso_hdlc_def ones32)
  with wf show ?thesis by blast
qed

subsection \<open>The states of a reader\<close>

lemma zero_hash_iff: "length hash = 32 \<Longrightarrow> zero_hash hash \<longleftrightarrow> hash = replicate 32 0"
  by (auto simp: zero_hash_def list_all_iff replicate_eqI)

definition mode_ok :: "SavedMode \<Rightarrow> u64 \<Rightarrow> bytes \<Rightarrow> ProgressRecord list \<Rightarrow> bool" where
  "mode_ok mode active rendition rs \<longleftrightarrow>
    (if mode = SavedMenu then active = 0 \<and> rendition = replicate 32 0
     else active \<noteq> 0 \<and> rendition \<noteq> replicate 32 0 \<and> (active, rendition) \<in> progress_key ` set rs)"

lemma validate_mode_state_Ok:
  "validate_mode_state s = Ok () \<longleftrightarrow>
    mode_ok (rst_saved_mode s) (rst_active_filename_hash s) (rst_active_rendition_hash s) (rst_records s)"
  by (cases "rst_saved_mode s") (auto simp: validate_mode_state_def lookup_page_None mode_ok_def)

lemma mode_ok_mono: "mode_ok m a h rs \<Longrightarrow> progress_key ` set rs \<subseteq> progress_key ` set rs' \<Longrightarrow> mode_ok m a h rs'"
  by (auto simp: mode_ok_def split: if_splits)

text \<open>The records after \<open>set_progress\<close>.\<close>

lemma set_progress_cases:
  obtains (refused) e where "set_progress r s = (Err e, s)"
  | (replaced) i where "set_progress r s = (Ok (), s\<lparr>rst_records := (rst_records s)[i := r]\<rparr>)" "i < length (rst_records s)"
      "progress_key (rst_records s ! i) = progress_key r" "\<not> zero_hash (gr_rendition_hash r)"
  | (added) "set_progress r s = (Ok (), s\<lparr>rst_records := rst_records s @ [r]\<rparr>)" "length (rst_records s) < 200"
      "progress_key r \<notin> progress_key ` set (rst_records s)" "\<not> zero_hash (gr_rendition_hash r)"
proof (cases "zero_hash (gr_rendition_hash r)")
  case False
  show ?thesis
  proof (cases "position (same_key r) (rst_records s)")
    case None
    then have "progress_key r \<notin> progress_key ` set (rst_records s)" by (auto simp: same_key_iff)
    then show ?thesis using False None refused[of StTooManyRecords] added
      by (cases "length (rst_records s) < 200") (simp_all add: set_progress_def del: position_None)
  next
    case (Some i)
    then have i: "i < length (rst_records s)" "progress_key (rst_records s ! i) = progress_key r"
      using position_SomeD[OF Some] by (simp_all add: same_key_iff)
    show ?thesis by (rule replaced[of i]) (use i False Some in \<open>simp_all add: set_progress_def\<close>)
  qed
qed (use refused[of StZeroRenditionHash] in \<open>simp add: set_progress_def\<close>)

lemma keys_replaced: "progress_key (rs ! i) = progress_key r \<Longrightarrow> map progress_key (rs[i := r]) = map progress_key rs"
  by (cases "i < length rs") (auto simp: map_update list_update_same_conv list_update_beyond)

lemma set_progress_wf:
  assumes "state_wf s" "length (gr_rendition_hash r) = 32"
  shows "state_wf (snd (set_progress r s))"
proof (cases rule: set_progress_cases[of r s])
  case (replaced i)
  have keys: "map progress_key ((rst_records s)[i := r]) = map progress_key (rst_records s)"
    by (rule keys_replaced[OF replaced(3)])
  have "\<forall>x\<in>set ((rst_records s)[i := r]). progress_ok x"
    using assms replaced(4) set_update_subset_insert[of "rst_records s" i r] by (auto simp: state_wf_def progress_ok_def)
  moreover have "progress_key ` set ((rst_records s)[i := r]) = progress_key ` set (rst_records s)"
    using arg_cong[OF keys, of set] by simp
  ultimately show ?thesis using assms keys by (simp add: replaced(1) state_wf_def validate_mode_state_Ok mode_ok_def)
next
  case added
  then show ?thesis using assms
    by (auto simp: state_wf_def validate_mode_state_Ok progress_ok_def intro: mode_ok_mono)
qed (use assms in simp)

lemma set_progress_lookup:
  "fst (set_progress r s) = Ok () \<Longrightarrow> progress_key r \<in> progress_key ` set (rst_records (snd (set_progress r s)))"
  by (cases rule: set_progress_cases[of r s]) (auto simp: set_update_memI intro!: rev_image_eqI[OF set_update_memI])

lemma set_reading_wf: "state_wf s \<Longrightarrow> length h = 32 \<Longrightarrow> state_wf (snd (set_reading f h s))"
  by (auto simp: set_reading_def state_wf_def validate_mode_state_Ok mode_ok_def lookup_page_None zero_hash_iff)

lemma filter_records:
  "state_wf s \<Longrightarrow> mode_ok (rst_saved_mode s) (rst_active_filename_hash s) (rst_active_rendition_hash s) (filter P (rst_records s)) \<Longrightarrow>
    state_wf (s\<lparr>rst_records := filter P (rst_records s)\<rparr>)"
  by (auto simp: state_wf_def validate_mode_state_Ok distinct_map_filter intro: le_trans[OF length_filter_le])

text \<open>Dropping the other renditions of a book makes room, so that a full list is left as it was.\<close>

lemma commit_visible_page_wf:
  assumes wf: "state_wf s" and h: "length h = 32"
  shows "state_wf (snd (commit_visible_page f h page s))"
proof (cases "f = 0 \<or> zero_hash h")
  case False
  let ?P = "\<lambda>r. gr_filename_hash r \<noteq> f \<or> gr_rendition_hash r = h"
  let ?r = "\<lparr>gr_filename_hash = f, gr_rendition_hash = h, gr_page = page\<rparr>" and ?s = "s\<lparr>rst_records := filter ?P (rst_records s)\<rparr>"
  have parts: "length (rst_active_rendition_hash ?s) = 32" "\<forall>r\<in>set (rst_records ?s). progress_ok r"
    "distinct (map progress_key (rst_records ?s))" "length (rst_records ?s) \<le> 200"
    using wf by (auto simp: state_wf_def distinct_map_filter intro: le_trans[OF length_filter_le])
  have commit: "commit_visible_page f h page s = (let (result, s) = set_progress ?r ?s in
      on_ok result s (\<lambda>_. set_reading f h (s\<lparr>rst_selected_filename_hash := f\<rparr>)))"
    using False by (simp add: commit_visible_page_def)
  have wf_reading: "state_wf (snd (set_reading f h (t\<lparr>rst_selected_filename_hash := f\<rparr>)))"
    if "length (rst_active_rendition_hash t) = 32" "\<forall>r\<in>set (rst_records t). progress_ok r"
      "distinct (map progress_key (rst_records t))" "length (rst_records t) \<le> 200" "(f, h) \<in> progress_key ` set (rst_records t)" for t
    using that False h by (auto simp: set_reading_def state_wf_def validate_mode_state_Ok mode_ok_def lookup_page_None zero_hash_iff)
  show ?thesis
  proof (cases rule: set_progress_cases[of ?r ?s])
    case (refused e)
    then have "length (filter ?P (rst_records s)) \<ge> length (rst_records s)"
      using False wf by (auto simp: set_progress_def state_wf_def split: option.splits if_splits)
    then have "\<forall>r\<in>set (rst_records s). ?P r" using length_filter_less[of _ "rst_records s" ?P] by (meson not_le)
    then have "filter ?P (rst_records s) = rst_records s" by (rule filter_True)
    then show ?thesis using wf unfolding commit refused(1) by simp
  next
    case (replaced i)
    let ?rs = "(rst_records ?s)[i := ?r]"
    have "map progress_key ?rs = map progress_key (rst_records ?s)" by (rule keys_replaced[OF replaced(3)])
    moreover have "\<forall>x\<in>set ?rs. progress_ok x"
      using parts(2) False h set_update_subset_insert[of "rst_records ?s" i ?r] by (auto simp: progress_ok_def)
    moreover have "(f, h) \<in> progress_key ` set ?rs"
      using set_update_memI[OF replaced(2), of ?r] by (force simp: progress_key_def)
    ultimately show ?thesis using wf_reading[of "?s\<lparr>rst_records := ?rs\<rparr>"] parts replaced(1)
      by (simp add: commit)
  next
    case added
    then show ?thesis using wf_reading[of "?s\<lparr>rst_records := rst_records ?s @ [?r]\<rparr>"] parts False h
      by (simp add: commit progress_ok_def) (simp add: progress_key_def)
  qed
qed (use wf in \<open>auto simp: commit_visible_page_def\<close>)

lemma prune_state_wf: "state_wf s \<Longrightarrow> state_wf (prune_state keep s)"
  by (cases "rst_saved_mode s")
    (auto simp: prune_state_def set_menu_def Let_def state_wf_def validate_mode_state_Ok mode_ok_def distinct_map_filter progress_key_def
      intro: le_trans[OF length_filter_le])

text \<open>
  Pruning by a mask keeps the mode.  A reading state that loses the record of its active book is no longer saved, where
  pruning by name goes back to the menu.
\<close>

lemma masked_state_not_saved:
  assumes "rst_saved_mode s = SavedReading"
    and "lookup_page (rst_active_filename_hash s) (rst_active_rendition_hash s) (snd (retain_record_mask keep s)) = None"
  shows "state_encode (snd (retain_record_mask keep s)) out = Err StInvalidModeState"
  using assms by (simp add: state_encode_def state_encode_with_generation_def validate_mode_state_def retain_record_mask_def Let_def)

text \<open>
  What every operation keeps: the records are sound and the fields of the mode are those of the mode.  A reading state may
  have lost the record of its book to a mask; otherwise the state is well-formed.
\<close>

definition records_wf :: "ProgressRecord list \<Rightarrow> bool" where
  "records_wf rs \<longleftrightarrow> (\<forall>r\<in>set rs. progress_ok r) \<and> distinct (map progress_key rs) \<and> length rs \<le> 200"

definition mode_fields_ok :: "ReaderState \<Rightarrow> bool" where
  "mode_fields_ok s \<longleftrightarrow> length (rst_active_rendition_hash s) = 32 \<and>
    (rst_saved_mode s = SavedMenu \<and> rst_active_filename_hash s = 0 \<and> rst_active_rendition_hash s = replicate 32 0 \<or>
     rst_saved_mode s = SavedReading \<and> rst_active_filename_hash s \<noteq> 0 \<and> rst_active_rendition_hash s \<noteq> replicate 32 0)"

definition open_book_known :: "ReaderState \<Rightarrow> bool" where
  "open_book_known s \<longleftrightarrow> rst_saved_mode s = SavedMenu \<or>
    lookup_page (rst_active_filename_hash s) (rst_active_rendition_hash s) s \<noteq> None"

lemma state_wf_iff: "state_wf s \<longleftrightarrow> records_wf (rst_records s) \<and> mode_fields_ok s \<and> open_book_known s"
  by (cases "rst_saved_mode s")
    (auto simp: state_wf_def records_wf_def mode_fields_ok_def open_book_known_def validate_mode_state_def)

lemma set_menu_wf: "records_wf (rst_records s) \<Longrightarrow> state_wf (set_menu s)"
  by (simp add: state_wf_iff set_menu_def mode_fields_ok_def open_book_known_def)

lemma records_filter: "records_wf rs \<Longrightarrow> records_wf (filter P rs)"
  by (auto simp: records_wf_def distinct_map_filter intro: le_trans[OF length_filter_le])

lemma records_masked:
  assumes "records_wf rs"
  shows "records_wf (map snd (filter P (enumerate n rs)))"
proof -
  have keys: "map (progress_key \<circ> snd) (enumerate n rs) = map progress_key rs"
    by (metis map_map map_snd_enumerate)
  have "set (map snd (filter P (enumerate n rs))) \<subseteq> set rs"
    using image_mono[OF filter_is_subset, of snd P "enumerate n rs"] map_snd_enumerate[of n rs] by (metis set_map)
  moreover have "distinct (map (progress_key \<circ> snd) (filter P (enumerate n rs)))"
    using assms keys by (intro distinct_map_filter) (simp add: records_wf_def)
  moreover have "length (filter P (enumerate n rs)) \<le> 200"
    using assms length_filter_le[of P "enumerate n rs"] by (simp add: records_wf_def)
  ultimately show ?thesis using assms by (auto simp: records_wf_def)
qed

lemma set_progress_fields:
  "rst_saved_mode (snd (set_progress r s)) = rst_saved_mode s"
  "rst_active_filename_hash (snd (set_progress r s)) = rst_active_filename_hash s"
  "rst_active_rendition_hash (snd (set_progress r s)) = rst_active_rendition_hash s"
  by (cases rule: set_progress_cases[of r s]; simp)+

lemma records_progress:
  assumes "records_wf (rst_records s)" and "length (gr_rendition_hash r) = 32"
  shows "records_wf (rst_records (snd (set_progress r s)))"
proof -
  have "rst_records (snd (set_progress r (set_menu s))) = rst_records (snd (set_progress r s))"
    by (cases "position (same_key r) (rst_records s)") (simp_all add: set_progress_def set_menu_def del: position_None)
  then show ?thesis using set_progress_wf[OF set_menu_wf[OF assms(1)] assms(2)] by (simp add: state_wf_iff)
qed

lemma set_reading_parts:
  "rst_records (snd (set_reading f h s)) = rst_records s"
  "mode_fields_ok s \<Longrightarrow> length h = 32 \<Longrightarrow> mode_fields_ok (snd (set_reading f h s))"
  by (auto simp: set_reading_def mode_fields_ok_def zero_hash_iff)

lemma commit_parts:
  assumes "records_wf (rst_records s)" and "mode_fields_ok s" and "length h = 32"
  shows "records_wf (rst_records (snd (commit_visible_page f h page s))) \<and>
    mode_fields_ok (snd (commit_visible_page f h page s))"
proof (cases "f = 0 \<or> zero_hash h")
  case False
  let ?s = "s\<lparr>rst_records := filter (\<lambda>r. gr_filename_hash r \<noteq> f \<or> gr_rendition_hash r = h) (rst_records s)\<rparr>"
  let ?y = "set_progress \<lparr>gr_filename_hash = f, gr_rendition_hash = h, gr_page = page\<rparr> ?s"
  have "records_wf (rst_records (snd ?y))" using assms by (intro records_progress) (simp_all add: records_filter)
  moreover have "mode_fields_ok (snd ?y)" using assms(2) by (simp add: mode_fields_ok_def set_progress_fields)
  moreover have "mode_fields_ok t \<Longrightarrow> mode_fields_ok (t\<lparr>rst_selected_filename_hash := f\<rparr>)" for t
    by (simp add: mode_fields_ok_def)
  ultimately show ?thesis
    using False assms(3)
    by (simp add: commit_visible_page_def case_prod_beta set_reading_parts Let_def split: on_ok_split)
qed (use assms in \<open>simp add: commit_visible_page_def\<close>)

lemma prune_parts:
  assumes "records_wf (rst_records s)" and "mode_fields_ok s"
  shows "records_wf (rst_records (prune_state keep s)) \<and> mode_fields_ok (prune_state keep s)"
proof -
  have "rst_records (prune_state keep s) = filter (\<lambda>r. keep (gr_filename_hash r)) (rst_records s)"
    by (simp add: prune_state_def set_menu_def Let_def)
  moreover have "mode_fields_ok (prune_state keep s)"
    using assms(2) by (auto simp: prune_state_def set_menu_def mode_fields_ok_def Let_def)
  ultimately show ?thesis using assms(1) records_filter by simp
qed

lemma unrelated_fields_wf: "state_wf s \<Longrightarrow> state_wf (s\<lparr>rst_generation := g\<rparr>)" "state_wf s \<Longrightarrow> state_wf (s\<lparr>rst_selected_filename_hash := f\<rparr>)"
  by (simp_all add: state_wf_def validate_mode_state_Ok)

text \<open>
  What the rest of the reader does to the state; the generation and the selected book are written directly.  A saved state
  may be loaded at any time.
\<close>

inductive reader_step :: "ReaderState \<Rightarrow> ReaderState \<Rightarrow> bool" where
  progress: "length (gr_rendition_hash r) = 32 \<Longrightarrow> reader_step s (snd (set_progress r s))"
| committed: "length h = 32 \<Longrightarrow> reader_step s (snd (commit_visible_page f h page s))"
| reading: "length h = 32 \<Longrightarrow> reader_step s (snd (set_reading f h s))"
| menu: "reader_step s (set_menu s)"
| pruned: "reader_step s (prune_state keep s)"
| masked: "reader_step s (snd (retain_record_mask kept s))"
| generation: "reader_step s (s\<lparr>rst_generation := g\<rparr>)"
| selected: "reader_step s (s\<lparr>rst_selected_filename_hash := f\<rparr>)"
| loaded: "state_decode data = Ok t \<Longrightarrow> reader_step s t"

definition reader_init :: "ReaderState \<Rightarrow> bool" where
  "reader_init s \<longleftrightarrow> s = ReaderState_empty"

lemma reader_step_parts:
  "reader_step s t \<Longrightarrow> records_wf (rst_records s) \<and> mode_fields_ok s \<Longrightarrow> records_wf (rst_records t) \<and> mode_fields_ok t"
proof (induction rule: reader_step.induct)
  case (progress r s)
  then show ?case by (simp add: records_progress) (simp add: mode_fields_ok_def set_progress_fields)
next
  case (committed h s f page)
  then show ?case using commit_parts by blast
next
  case (reading h s f)
  then show ?case by (simp add: set_reading_parts)
next
  case (menu s)
  then show ?case using set_menu_wf by (simp add: state_wf_iff)
next
  case (pruned s keep)
  then show ?case using prune_parts by blast
next
  case (masked s kept)
  then show ?case by (simp add: retain_record_mask_def Let_def records_masked) (simp add: mode_fields_ok_def)
next
  case (loaded data t s)
  then show ?case using state_decode_only by (auto simp: state_wf_iff)
qed (simp_all add: mode_fields_ok_def)

text \<open>Only a mask takes the record of the open book away.\<close>

lemma reader_step_keeps_book:
  assumes "reader_step s t" and "state_wf s"
  shows "open_book_known t \<or> (\<exists>kept. t = snd (retain_record_mask kept s))"
  using assms(1)
proof cases
  case (masked kept)
  then show ?thesis by blast
next
  case (menu)
  then show ?thesis by (simp add: open_book_known_def set_menu_def)
next
  case (generation g)
  then show ?thesis using assms(2) by (simp add: state_wf_iff open_book_known_def lookup_page_def)
next
  case (selected f)
  then show ?thesis using assms(2) by (simp add: state_wf_iff open_book_known_def lookup_page_def)
next
  case (loaded data)
  then show ?thesis using state_decode_only state_wf_iff by blast
qed (use assms(2) set_progress_wf commit_visible_page_wf set_reading_wf prune_state_wf state_wf_iff in blast)+

interpretation reader: machine reader_init reader_step "\<lambda>s. records_wf (rst_records s) \<and> mode_fields_ok s"
proof
  show "records_wf (rst_records s) \<and> mode_fields_ok s" if "reader_init s" for s
    using that by (simp add: reader_init_def ReaderState_empty_def records_wf_def mode_fields_ok_def)
  show "records_wf (rst_records t) \<and> mode_fields_ok t" if "records_wf (rst_records s) \<and> mode_fields_ok s" "reader_step s t" for s t
    using reader_step_parts that by blast
qed

lemma canonical_matches: "matches_except_generation s (canonical s)"
  by (auto simp: matches_except_generation_def canonical_def list_all_iff list_ex_iff)

lemma state_saved_back:
  assumes wf: "state_wf s" and "MAX_STATE_BYTES \<le> length out"
  shows "\<exists>used result. state_encode s out = Ok (used, result) \<and> used \<le> MAX_STATE_BYTES \<and> length result = length out \<and>
    state_decode (take used result) = Ok (canonical s) \<and> matches_except_generation s (canonical s) \<and>
    (\<forall>filename rendition. lookup_page filename rendition (canonical s) = lookup_page filename rendition s)"
proof -
  have room: "72 + length (rst_records s) * 44 \<le> 8872" using wf by (simp add: state_wf_def)
  have "state_encode s out = Ok (72 + length (rst_records s) * 44, state_wire (canonical s) @ drop (72 + length (rst_records s) * 44) out)"
    using state_encode_eq[OF wf, of out "rst_generation s"] room assms(2) by (simp add: state_encode_def MAX_STATE_BYTES_def)
  moreover have "length (state_wire (canonical s)) = 72 + length (rst_records s) * 44"
    using length_state_wire[OF canonical_wf[OF wf]] by (simp add: canonical_def)
  moreover have "distinct (map progress_key (rst_records s))" using wf by (simp add: state_wf_def)
  ultimately show ?thesis
    using state_decode_wire[OF canonical_wf[OF wf]] lookup_page_canonical canonical_matches room assms(2)
    by (intro exI[of _ "72 + length (rst_records s) * 44"]
        exI[of _ "state_wire (canonical s) @ drop (72 + length (rst_records s) * 44) out"])
      (simp add: MAX_STATE_BYTES_def)
qed

lemma forgotten_book_refused: "mode_fields_ok s \<Longrightarrow> \<not> open_book_known s \<Longrightarrow> state_encode s out = Err StInvalidModeState"
  by (auto simp: state_encode_def state_encode_with_generation_def validate_mode_state_def open_book_known_def
      mode_fields_ok_def split: SavedMode.splits)

text \<open>C26: Whatever the reader did before (pages turned, books opened and closed, records pruned by name or by mask,
  earlier states loaded), its state can be saved exactly when the book that is open, if one is, still has a record.  Then
  the encoder needs at most \<open>MAX_STATE_BYTES\<close> and decoding its output gives the same state with its records in order, in
  which every book is on the page it had.  Otherwise the encoder refuses with \<open>InvalidModeState\<close>; going back to the menu
  makes the state fit to be saved again.  Of all operations only the pruning by a mask (\<open>retain_record_mask\<close>) can take the
  record of the open book away.\<close>

theorem reader_state_saved_back:
  assumes "reachable reader_init reader_step s" and "MAX_STATE_BYTES \<le> length out"
  shows "(if open_book_known s
     then \<exists>used result. state_encode s out = Ok (used, result) \<and> used \<le> MAX_STATE_BYTES \<and> length result = length out \<and>
       state_decode (take used result) = Ok (canonical s) \<and> matches_except_generation s (canonical s) \<and>
       (\<forall>filename rendition. lookup_page filename rendition (canonical s) = lookup_page filename rendition s)
     else state_encode s out = Err StInvalidModeState \<and> is_ok (state_encode (set_menu s) out)) \<and>
    (reader_step s t \<and> open_book_known s \<longrightarrow> open_book_known t \<or> (\<exists>kept. t = snd (retain_record_mask kept s)))"
proof -
  have inv: "records_wf (rst_records s)" "mode_fields_ok s" using reader.reachable_inv[OF assms(1)] by simp_all
  then have wf: "open_book_known s \<Longrightarrow> state_wf s" by (simp add: state_wf_iff)
  have "is_ok (state_encode (set_menu s) out)" using state_saved_back[OF set_menu_wf[OF inv(1)] assms(2)] by auto
  then show ?thesis
    using state_saved_back[OF wf assms(2)] forgotten_book_refused[OF inv(2)] reader_step_keeps_book[of s t] wf by simp
qed

lemma reader_state_saved_back_witness:
  "\<exists>used result. state_encode (snd (commit_visible_page 7 (replicate 32 1) 12 ReaderState_empty)) (replicate 8872 0) = Ok (used, result) \<and>
    (\<exists>t. state_decode (take used result) = Ok t \<and> lookup_page 7 (replicate 32 1) t = Some 12)"
proof -
  let ?s = "snd (commit_visible_page 7 (replicate 32 1) 12 ReaderState_empty)"
  have "reachable reader_init reader_step ReaderState_empty" by (rule reachable.initial) (simp add: reader_init_def)
  then have r: "reachable reader_init reader_step ?s" by (rule reachable.followed) (rule reader_step.committed, simp)
  have page: "lookup_page 7 (replicate 32 1) ?s = Some 12" by code_simp
  have known: "open_book_known ?s" by code_simp
  have room: "MAX_STATE_BYTES \<le> length (replicate 8872 (0 :: u8))" by (simp add: MAX_STATE_BYTES_def)
  from reader_state_saved_back[OF r room, of ?s] obtain used result where
    "state_encode ?s (replicate 8872 0) = Ok (used, result)" "state_decode (take used result) = Ok (canonical ?s)"
    "\<forall>filename rendition. lookup_page filename rendition (canonical ?s) = lookup_page filename rendition ?s"
    by (simp only: known if_True simp_thms) blast
  with page show ?thesis by metis
qed

text \<open>C27: Decoding a saved state is exact: a file is accepted if and only if it is the encoding of a well-formed state, that
  is, of at most 200 records with distinct keys and nonzero hashes, in which the book that is open has a record; every
  other file is refused with an error.\<close>

theorem state_decode_exact:
  "(state_decode data = Ok s \<longleftrightarrow> state_wf s \<and> data = state_wire s) \<and> state_decode data \<noteq> Panic"
proof -
  have "decode_records n index data d \<noteq> Panic" if "72 + (index + n) * 44 \<le> length data" for n index d
    using that by (induction n index data d rule: decode_records.induct)
      (auto simp: Let_def u64_at_Ok bytes_at_Ok u32_at_Ok algebra_simps)
  then have "state_decode data \<noteq> Panic"
    by (auto simp: state_decode_def u16_at_Ok u32_at_Ok u64_at_Ok bytes_at_Ok Let_def and_then_Panic_iff decode_mode_def
        validate_mode_state_def split: if_splits)
  then show ?thesis using state_decode_only state_decode_wire by blast
qed

subsection \<open>Two copies\<close>

text \<open>The newer copy is chosen as long as the other one is less than half the range of the counter behind, also when the
  counter has wrapped around.\<close>

lemma select_newer_counts:
  assumes "unat k < 2 ^ 31" "rst_generation b = rst_generation a + k"
  shows "select_newer (Some a) (Some b) = Some 1" and "k \<noteq> 0 \<Longrightarrow> select_newer (Some b) (Some a) = Some 0"
proof -
  show "select_newer (Some a) (Some b) = Some 1" using assms by (simp add: select_newer_def word_less_nat_alt)
  assume "k \<noteq> 0"
  then have "unat (- k) = 2 ^ 32 - unat k" 
    using unat_sub_if'[of 0 k] by (simp add: unat_eq_0)
  then show "select_newer (Some b) (Some a) = Some 0" using assms
    by (simp add: select_newer_def word_less_nat_alt)
qed

end
