(* ===== verification/Owner_Client.thy ===== *)
theory Owner_Client
  imports Storage_Owner
begin

text \<open>
  The clients of the storage owner: small state machines that send one request at a time and are driven by the responses.
  They share a contract.  A response to another client or to an earlier request is refused; a response that is accepted
  either ends the session or leads to one more request, which carries the sequence number that the client now expects
  (\<open>correlated_client\<close>).  A client whose requests bring the session closer to its end, whatever it is answered, has finite
  sessions only (\<open>owner_client\<close>).
\<close>

definition ascii :: "string \<Rightarrow> bytes" where
  "ascii s = map (\<lambda>c. of_nat (of_char c)) s"

definition envelope :: "StorageClient \<Rightarrow> u32 \<Rightarrow> Request \<Rightarrow> RequestEnvelope" where
  "envelope client sequence request = \<lparr>rq_client = client, rq_sequence = sequence, rq_request = request\<rparr>"

lemma envelope_simps [simp]: "rq_client (envelope c q r) = c" "rq_sequence (envelope c q r) = q" "rq_request (envelope c q r) = r"
  by (simp_all add: envelope_def)

text \<open>A response is the answer to the open request of a client.\<close>

definition uncorrelated :: "StorageClient \<Rightarrow> u32 \<Rightarrow> ResponseEnvelope \<Rightarrow> bool" where
  "uncorrelated client sequence response = (rs_client response \<noteq> client \<or> rs_sequence response \<noteq> sequence)"

text \<open>The state of a client after responses that each led to another request.\<close>

fun answered :: "(ResponseEnvelope \<Rightarrow> 'b \<Rightarrow> 's \<Rightarrow> ('u, 'e) res \<times> 's) \<Rightarrow> ('u \<Rightarrow> RequestEnvelope option) \<Rightarrow>
    (ResponseEnvelope \<times> 'b) list \<Rightarrow> 's \<Rightarrow> 's option" where
  "answered accept issued [] s = Some s"
| "answered accept issued ((response, buffer) # rest) s =
    (case accept response buffer s of
       (Ok u, t) \<Rightarrow> (case issued u of Some _ \<Rightarrow> answered accept issued rest t | None \<Rightarrow> None)
     | _ \<Rightarrow> None)"

locale correlated_client =
  fixes client :: StorageClient
    and accept :: "ResponseEnvelope \<Rightarrow> 'b \<Rightarrow> 's \<Rightarrow> ('u, 'e) res \<times> 's"
    and issued :: "'u \<Rightarrow> RequestEnvelope option"
    and expected :: "'s \<Rightarrow> u32"
    and inv :: "'s \<Rightarrow> bool"
  assumes refused: "uncorrelated client (expected s) response \<Longrightarrow> \<exists>e. fst (accept response buffer s) = Err e"
    and issues: "inv s \<Longrightarrow> accept response buffer s = (Ok u, t) \<Longrightarrow> issued u = Some request \<Longrightarrow>
      rq_client request = client \<and> rq_sequence request = expected t \<and> inv t"
begin

text \<open>Only the answer to the last request is accepted.\<close>

lemma accepts_answer: "fst (accept response buffer s) = Ok u \<Longrightarrow> rs_client response = client \<and> rs_sequence response = expected s"
  using refused[of s response buffer] by (auto simp: uncorrelated_def)

lemma answered_inv: "answered accept issued rs s = Some t \<Longrightarrow> inv s \<Longrightarrow> inv t"
proof (induction rs arbitrary: s)
  case (Cons x rs)
  obtain response buffer where x: "x = (response, buffer)" by (cases x)
  obtain u m where u: "accept response buffer s = (Ok u, m)" "issued u \<noteq> None" "answered accept issued rs m = Some t"
    using Cons.prems(1) by (auto simp: x split: prod.splits res.splits option.splits)
  then have "inv m" using issues[OF Cons.prems(2) u(1)] by blast
  then show ?case using Cons.IH[OF u(3)] by blast
qed simp

end

locale owner_client = correlated_client +
  fixes work :: "'b \<Rightarrow> nat"
  assumes shrinks: "inv s \<Longrightarrow> accept response buffer s = (Ok u, t) \<Longrightarrow> issued u = Some request \<Longrightarrow> work t < work s"
begin

lemma answered_bounded: "answered accept issued rs s = Some t \<Longrightarrow> inv s \<Longrightarrow> inv t \<and> length rs + work t \<le> work s"
proof (induction rs arbitrary: s)
  case (Cons x rs)
  obtain response buffer where x: "x = (response, buffer)" by (cases x)
  obtain u m where u: "accept response buffer s = (Ok u, m)" "issued u \<noteq> None" "answered accept issued rs m = Some t"
    using Cons.prems(1) by (auto simp: x split: prod.splits res.splits option.splits)
  then show ?case using issues[OF Cons.prems(2) u(1)] shrinks[OF Cons.prems(2) u(1)] Cons.IH[OF u(3)] by fastforce
qed simp

end

end
