(* ===== verification/Ideal_Card.thy ===== *)
theory Ideal_Card
  imports Owner_Client Scan_Records
begin

text \<open>
  The specification of the storage that the clients of the storage owner rely on: a card that keeps what is written to it.
  Files are read and written through the buffer of the client; a file that is uploaded appears under its name with the
  commit.  A scan delivers the books of the card in the batches that they come in.  There is one scratch file.
\<close>

record Card =
  cd_files :: "StorageName \<Rightarrow> bytes option"
  cd_upload :: "(StorageName \<times> bytes) option"
  cd_batches :: "ScanRecord list list"
  cd_scan :: "ScanRecord list list option"
  cd_scratch :: "bytes option"

text \<open>Reading and writing a part of a file through a part of the buffer; a write may extend the file.\<close>

definition file_read :: "bytes \<Rightarrow> u64 \<Rightarrow> bytes \<Rightarrow> u16 \<Rightarrow> u16 \<Rightarrow> bytes option" where
  "file_read data offset buffer buffer_offset len =
    (if unat offset + unat len \<le> length data \<and> unat buffer_offset + unat len \<le> length buffer
     then Some (overwrite buffer (unat buffer_offset) (subslice data (unat offset) (unat len))) else None)"

definition file_write :: "bytes \<Rightarrow> u64 \<Rightarrow> bytes \<Rightarrow> u16 \<Rightarrow> u16 \<Rightarrow> bytes option" where
  "file_write data offset buffer buffer_offset len =
    (if unat offset \<le> length data \<and> unat buffer_offset + unat len \<le> length buffer
     then Some (overwrite data (unat offset) (subslice buffer (unat buffer_offset) (unat len))) else None)"

fun card_serve :: "Request \<Rightarrow> bytes \<Rightarrow> Card \<Rightarrow> (Response, CompletionError) res \<times> bytes \<times> Card" where
  "card_serve (FileSize name) buffer sd =
    (case cd_files sd name of
       Some data \<Rightarrow>
         if length data < 2 ^ 64 then (Ok (RespFileSize (of_nat (length data))), buffer, sd) else (Err CeBackend, buffer, sd)
     | None \<Rightarrow> (Err CeBackend, buffer, sd))"
| "card_serve (ReadFile name offset buffer_offset len slot) buffer sd =
    (case Option.bind (cd_files sd name) (\<lambda>data. file_read data offset buffer buffer_offset len) of
       Some buffer \<Rightarrow> (Ok (RespRead len), buffer, sd)
     | None \<Rightarrow> (Err CeBackend, buffer, sd))"
| "card_serve (UploadBegin name expected_size crc power_save) buffer sd =
    (if cd_upload sd \<noteq> None then (Err (CeRequest ReBusy), buffer, sd)
     else (Ok (UploadStarted 1), buffer, sd\<lparr>cd_upload := Some (name, [])\<rparr>))"
| "card_serve (UploadWrite upload_id offset buffer_offset len slot power_save) buffer sd =
    (case cd_upload sd of
       Some (name, data) \<Rightarrow>
         (case file_write data offset buffer buffer_offset len of
            Some data \<Rightarrow>
              if upload_id = 1 then (Ok (RespWritten len), buffer, sd\<lparr>cd_upload := Some (name, data)\<rparr>)
              else (Err (CeRequest ReStale), buffer, sd)
          | None \<Rightarrow> (Err CeBackend, buffer, sd))
     | None \<Rightarrow> (Err (CeRequest ReStale), buffer, sd))"
| "card_serve (UploadCommit upload_id power_save) buffer sd =
    (case cd_upload sd of
       Some (name, data) \<Rightarrow>
         if upload_id = 1 then (Ok Ack, buffer, sd\<lparr>cd_files := (cd_files sd)(name \<mapsto> data), cd_upload := None\<rparr>)
         else (Err (CeRequest ReStale), buffer, sd)
     | None \<Rightarrow> (Err (CeRequest ReStale), buffer, sd))"
| "card_serve (UploadAbort upload_id) buffer sd = (Ok Ack, buffer, sd\<lparr>cd_upload := None\<rparr>)"
| "card_serve ScanStart buffer sd = (Ok (ScanStarted 1), buffer, sd\<lparr>cd_scan := Some (cd_batches sd)\<rparr>)"
| "card_serve (ScanPrefetch token name) buffer sd =
    (if cd_scan sd \<noteq> None then (Ok Ack, buffer, sd) else (Err (CeRequest ReStale), buffer, sd))"
| "card_serve (ScanStep token slot) buffer sd =
    (case cd_scan sd of
       None \<Rightarrow> (Err (CeRequest ReStale), buffer, sd)
     | Some [] \<Rightarrow> (Ok (RespScanProgress \<lparr>sp_entries = 0, sp_complete = True, sp_unsupported_name = False\<rparr>), buffer, sd)
     | Some (batch # batches) \<Rightarrow>
         (case encode_scan_records batch buffer of
            Ok buffer \<Rightarrow> (Ok (RespScanProgress \<lparr>sp_entries = of_nat (length batch), sp_complete = (batches = []),
              sp_unsupported_name = False\<rparr>), buffer, sd\<lparr>cd_scan := Some batches\<rparr>)
          | _ \<Rightarrow> (Err CeBackend, buffer, sd)))"
| "card_serve (ScanFinish token) buffer sd =
    (if cd_scan sd \<noteq> None then (Ok Ack, buffer, sd\<lparr>cd_scan := None\<rparr>) else (Err (CeRequest ReStale), buffer, sd))"
| "card_serve (ScanCancel token) buffer sd =
    (if cd_scan sd \<noteq> None then (Ok Ack, buffer, sd\<lparr>cd_scan := None\<rparr>) else (Err (CeRequest ReStale), buffer, sd))"
| "card_serve LibraryScratchCreate buffer sd = (Ok Ack, buffer, sd\<lparr>cd_scratch := Some []\<rparr>)"
| "card_serve (LibraryScratchWrite offset buffer_offset len slot) buffer sd =
    (case Option.bind (cd_scratch sd) (\<lambda>data. file_write data offset buffer buffer_offset len) of
       Some data \<Rightarrow> (Ok (RespWritten len), buffer, sd\<lparr>cd_scratch := Some data\<rparr>)
     | None \<Rightarrow> (Err CeBackend, buffer, sd))"
| "card_serve (LibraryScratchRead offset buffer_offset len slot) buffer sd =
    (case Option.bind (cd_scratch sd) (\<lambda>data. file_read data offset buffer buffer_offset len) of
       Some buffer \<Rightarrow> (Ok (RespRead len), buffer, sd)
     | None \<Rightarrow> (Err CeBackend, buffer, sd))"
| "card_serve LibraryScratchFlush buffer sd =
    (if cd_scratch sd \<noteq> None then (Ok Ack, buffer, sd) else (Err CeBackend, buffer, sd))"
| "card_serve LibraryScratchDelete buffer sd = (Ok Ack, buffer, sd\<lparr>cd_scratch := None\<rparr>)"
| "card_serve _ buffer sd = (Err CeBackend, buffer, sd)"

text \<open>
  A dialogue of a client with the card: it sends requests until a response ends it.  It has no result if it does not end.
  The client sees the request that was answered, since the buffer may be lent for some requests only.
\<close>

partial_function (option) dialogue ::
    "(Request \<Rightarrow> ResponseEnvelope \<Rightarrow> bytes \<Rightarrow> 's \<Rightarrow> ('u, 'e) res \<times> bytes \<times> 's) \<Rightarrow> ('u \<Rightarrow> RequestEnvelope option) \<Rightarrow>
     RequestEnvelope \<Rightarrow> bytes \<Rightarrow> Card \<Rightarrow> 's \<Rightarrow> (('u, 'e) res \<times> bytes \<times> Card \<times> 's) option" where
  "dialogue accept issued request buffer sd s =
    (let (response, buffer, sd) = card_serve (rq_request request) buffer sd;
         (result, buffer, s) = accept (rq_request request)
           \<lparr>rs_client = rq_client request, rs_sequence = rq_sequence request, rs_response = response\<rparr> buffer s
     in case result of
          Ok u \<Rightarrow> (case issued u of Some request \<Rightarrow> dialogue accept issued request buffer sd s | None \<Rightarrow> Some (Ok u, buffer, sd, s))
        | _ \<Rightarrow> Some (result, buffer, sd, s))"

text \<open>What follows a result of \<open>accept\<close>.\<close>

definition continue ::
    "(Request \<Rightarrow> ResponseEnvelope \<Rightarrow> bytes \<Rightarrow> 's \<Rightarrow> ('u, 'e) res \<times> bytes \<times> 's) \<Rightarrow> ('u \<Rightarrow> RequestEnvelope option) \<Rightarrow>
     Card \<Rightarrow> ('u, 'e) res \<times> bytes \<times> 's \<Rightarrow> (('u, 'e) res \<times> bytes \<times> Card \<times> 's) option" where
  "continue accept issued sd outcome =
    (case fst outcome of
       Ok u \<Rightarrow> (case issued u of Some request \<Rightarrow> dialogue accept issued request (fst (snd outcome)) sd (snd (snd outcome))
                  | None \<Rightarrow> Some (Ok u, fst (snd outcome), sd, snd (snd outcome)))
     | _ \<Rightarrow> Some (fst outcome, fst (snd outcome), sd, snd (snd outcome)))"

lemma dialogue_continue:
  "card_serve (rq_request request) buffer sd = (response, buffer', sd') \<Longrightarrow>
   dialogue accept issued request buffer sd s = continue accept issued sd'
     (accept (rq_request request) \<lparr>rs_client = rq_client request, rs_sequence = rq_sequence request, rs_response = response\<rparr> buffer' s)"
  by (subst dialogue.simps) (simp add: continue_def split: prod.split res.split option.split)

lemma dialogue_ends:
  assumes "\<And>request response buffer s u buffer' t request'. P s \<Longrightarrow> accept request response buffer s = (Ok u, buffer', t) \<Longrightarrow>
      issued u = Some request' \<Longrightarrow> P t \<and> work t < (work s :: nat)"
    and "P s"
  shows "dialogue accept issued request buffer sd s \<noteq> None"
  using assms(2)
proof (induction "work s" arbitrary: s request buffer sd rule: less_induct)
  case less
  obtain response buffer' sd' where served: "card_serve (rq_request request) buffer sd = (response, buffer', sd')"
    by (metis prod_cases3)
  obtain r b t where r: "accept (rq_request request) \<lparr>rs_client = rq_client request, rs_sequence = rq_sequence request,
      rs_response = response\<rparr> buffer' s = (r, b, t)" by (metis prod_cases3)
  have "P t \<and> work t < work s" if "r = Ok u" "issued u = Some q" for u q
    using assms(1)[OF less.prems r[unfolded that(1)] that(2)] .
  then show ?case using less.hyps[of t]
    by (auto simp: dialogue_continue[OF served] r continue_def split: res.split option.split)
qed

subsection \<open>Clients that read the buffer\<close>

text \<open>A session of a client that is shown the buffer with every response.\<close>

definition reading :: "(ResponseEnvelope \<Rightarrow> bytes \<Rightarrow> 's \<Rightarrow> ('u, 'e) res \<times> 's) \<Rightarrow>
    Request \<Rightarrow> ResponseEnvelope \<Rightarrow> bytes \<Rightarrow> 's \<Rightarrow> ('u, 'e) res \<times> bytes \<times> 's" where
  "reading accept request response buffer s = (let (u, t) = accept response buffer s in (u, buffer, t))"

definition session ::
    "(ResponseEnvelope \<Rightarrow> bytes \<Rightarrow> 's \<Rightarrow> ('u, 'e) res \<times> 's) \<Rightarrow> ('u \<Rightarrow> RequestEnvelope option) \<Rightarrow>
     RequestEnvelope \<Rightarrow> bytes \<Rightarrow> Card \<Rightarrow> 's \<Rightarrow> (('u, 'e) res \<times> bytes \<times> Card \<times> 's) option" where
  "session accept issued = dialogue (reading accept) issued"

definition resume ::
    "(ResponseEnvelope \<Rightarrow> bytes \<Rightarrow> 's \<Rightarrow> ('u, 'e) res \<times> 's) \<Rightarrow> ('u \<Rightarrow> RequestEnvelope option) \<Rightarrow>
     bytes \<Rightarrow> Card \<Rightarrow> ('u, 'e) res \<times> 's \<Rightarrow> (('u, 'e) res \<times> bytes \<times> Card \<times> 's) option" where
  "resume accept issued buffer sd outcome =
    (case fst outcome of
       Ok u \<Rightarrow> (case issued u of Some request \<Rightarrow> session accept issued request buffer sd (snd outcome)
                  | None \<Rightarrow> Some (Ok u, buffer, sd, snd outcome))
     | _ \<Rightarrow> Some (fst outcome, buffer, sd, snd outcome))"

lemma session_resume:
  "card_serve (rq_request request) buffer sd = (response, buffer', sd') \<Longrightarrow>
   session accept issued request buffer sd s = resume accept issued buffer' sd'
     (accept \<lparr>rs_client = rq_client request, rs_sequence = rq_sequence request, rs_response = response\<rparr> buffer' s)"
  by (simp add: session_def dialogue_continue reading_def continue_def resume_def case_prod_beta split: res.split option.split)

lemma session_ends:
  assumes "owner_client client accept issued expected P work" "P s"
  shows "session accept issued request buffer sd s \<noteq> None"
  unfolding session_def
proof (rule dialogue_ends[where P = P and work = work])
  fix request :: Request and response :: ResponseEnvelope and buffer buffer' :: bytes
  fix s :: 'a and u :: 'b and t :: 'a and request' :: RequestEnvelope
  assume s: "P s" and r: "reading accept request response buffer s = (Ok u, buffer', t)" and u: "issued u = Some request'"
  have "accept response buffer s = (Ok u, t)" using r by (simp add: reading_def split: prod.splits)
  then show "P t \<and> work t < work s"
    using s u correlated_client.issues[OF owner_client.axioms(1)[OF assms(1)]] owner_client.shrinks[OF assms(1)] by blast
qed (rule assms(2))

subsection \<open>Clients that write the buffer\<close>

text \<open>
  The client of \<^verbatim>\<open>runtime/library_refresh_task.rs\<close>: the buffer is lent to the storage owner with the requests that need it, and
  the client gets it with the responses to these (\<open>request_needs_buffer\<close>).
\<close>

fun request_needs_buffer :: "Request \<Rightarrow> bool" where
  "request_needs_buffer (UploadBegin _ _ _ _) = True"
| "request_needs_buffer (UploadWrite _ _ _ _ _ _) = True"
| "request_needs_buffer (LibraryScratchRead _ _ _ _) = True"
| "request_needs_buffer (ReadFile _ _ _ _ _) = True"
| "request_needs_buffer (ScanStep _ _) = True"
| "request_needs_buffer (LibraryScratchWrite _ _ _ _) = True"
| "request_needs_buffer _ = False"

definition lending :: "(ResponseEnvelope \<Rightarrow> bytes option \<Rightarrow> 's \<Rightarrow> ('u, 'e) res \<times> bytes option \<times> 's) \<Rightarrow>
    Request \<Rightarrow> ResponseEnvelope \<Rightarrow> bytes \<Rightarrow> 's \<Rightarrow> ('u, 'e) res \<times> bytes \<times> 's" where
  "lending accept request response buffer s =
    (let (u, lent, t) = accept response (if request_needs_buffer request then Some buffer else None) s in
     (u, case lent of Some buffer \<Rightarrow> buffer | None \<Rightarrow> buffer, t))"

definition exchange ::
    "(ResponseEnvelope \<Rightarrow> bytes option \<Rightarrow> 's \<Rightarrow> ('u, 'e) res \<times> bytes option \<times> 's) \<Rightarrow> ('u \<Rightarrow> RequestEnvelope option) \<Rightarrow>
     RequestEnvelope \<Rightarrow> bytes \<Rightarrow> Card \<Rightarrow> 's \<Rightarrow> (('u, 'e) res \<times> bytes \<times> Card \<times> 's) option" where
  "exchange accept issued = dialogue (lending accept) issued"

text \<open>One answered request of such a client.\<close>

lemma exchange_step:
  assumes "card_serve request buffer sd = (Ok response, buffer', sd')" "issued u = Some (envelope client sequence request)"
  shows "continue (lending accept) issued sd (Ok u, buffer, s) = continue (lending accept) issued sd'
    (lending accept request \<lparr>rs_client = client, rs_sequence = sequence, rs_response = Ok response\<rparr> buffer' s)"
  using assms dialogue_continue[of "envelope client sequence request" buffer sd "Ok response" buffer' sd' "lending accept" issued s]
  by (simp add: continue_def)

text \<open>The contract of a client is stated for what it does besides writing the buffer.\<close>

definition unlent :: "(ResponseEnvelope \<Rightarrow> bytes option \<Rightarrow> 's \<Rightarrow> ('u, 'e) res \<times> bytes option \<times> 's) \<Rightarrow>
    ResponseEnvelope \<Rightarrow> bytes option \<Rightarrow> 's \<Rightarrow> ('u, 'e) res \<times> 's" where
  "unlent accept response buffer s = (let (u, _, t) = accept response buffer s in (u, t))"

end
