(* ===== verification/State_Client.thy ===== *)
theory State_Client
  imports Reader_State Ideal_Card
begin

text \<open>
  The two clients that load and save the state of the reader through the storage owner (\<^verbatim>\<open>state_owner.rs\<close>).  The state is
  kept in two slots that are written in turn, and was kept in two legacy slots.  What a client borrows is part of its state.
\<close>

definition WRITE_CHUNK_BYTES :: nat where [simp]: "WRITE_CHUNK_BYTES = 512"
definition STATE_SLOT_A :: bytes where "STATE_SLOT_A = ascii ''BINBOOK.A.STATE''"
definition STATE_SLOT_B :: bytes where "STATE_SLOT_B = ascii ''BINBOOK.B.STATE''"
definition LEGACY_STATE_SLOT_A :: bytes where "LEGACY_STATE_SLOT_A = ascii ''LEGACY.BINBOOK.A.STATE''"
definition LEGACY_STATE_SLOT_B :: bytes where "LEGACY_STATE_SLOT_B = ascii ''LEGACY.BINBOOK.B.STATE''"

definition slot_name :: "nat \<Rightarrow> StorageName" where
  "slot_name slot = (if slot = 0 then STATE_SLOT_A else STATE_SLOT_B)"

text \<open>Only the slots 0 to 3 are asked for.\<close>

definition load_slot_name :: "nat \<Rightarrow> StorageName" where
  "load_slot_name slot =
    (if slot = 0 then STATE_SLOT_A else if slot = 1 then STATE_SLOT_B else if slot = 2 then LEGACY_STATE_SLOT_A
     else LEGACY_STATE_SLOT_B)"

record OwnerStateSlots =
  sl_loaded_slot :: "nat option"
  sl_loaded_generation :: u32

definition OwnerStateSlots_new :: OwnerStateSlots where
  "OwnerStateSlots_new = \<lparr>sl_loaded_slot = None, sl_loaded_generation = 0\<rparr>"

subsection \<open>Loading\<close>

datatype StateLoadError = LoadCorrelation | LoadCompletion

datatype StateLoadUpdate = LoadRequest RequestEnvelope | LoadComplete bool

datatype LoadPhase = LoadSize nat | LoadRead nat nat nat u16 | LoadDone

record StateLoadClient =
  lc_slots :: OwnerStateSlots
  lc_target :: ReaderState
  lc_phase :: LoadPhase
  lc_expected_sequence :: u32
  lc_next_sequence :: u32
  lc_selected_slot :: "nat option"
  lc_selected_generation :: u32

type_synonym load_result = "(StateLoadUpdate, StateLoadError) res \<times> StateLoadClient"

definition begin_load :: "OwnerStateSlots \<Rightarrow> u32 \<Rightarrow> StateLoadClient \<times> RequestEnvelope" where
  "begin_load slots sequence =
    (\<lparr>lc_slots = slots, lc_target = ReaderState_empty, lc_phase = LoadSize 0, lc_expected_sequence = sequence,
      lc_next_sequence = sequence + 1, lc_selected_slot = None, lc_selected_generation = 0\<rparr>,
     envelope ScState sequence (FileSize (slot_name 0)))"

definition load_take_sequence :: "StateLoadClient \<Rightarrow> u32 \<times> StateLoadClient" where
  "load_take_sequence c =
    (let sequence = lc_next_sequence c in
     (sequence, c\<lparr>lc_next_sequence := sequence + 1, lc_expected_sequence := sequence\<rparr>))"

definition load_issue_read :: "nat \<Rightarrow> nat \<Rightarrow> nat \<Rightarrow> StateLoadClient \<Rightarrow> load_result" where
  "load_issue_read slot file_len offset c =
    (let len = (of_nat (min (file_len - offset) (unat MAX_BOUNDED_IO_BYTES)) :: u16);
         (sequence, c) = load_take_sequence c;
         c = c\<lparr>lc_phase := LoadRead slot file_len offset len\<rparr>
     in case Request_read_into (load_slot_name slot) (of_nat offset) (of_nat offset) len BsState of
          Ok request \<Rightarrow> (Ok (LoadRequest (envelope ScState sequence request)), c)
        | _ \<Rightarrow> (Panic, c))"

definition finish_slot :: "nat \<Rightarrow> StateLoadClient \<Rightarrow> load_result" where
  "finish_slot slot c =
    (if slot > 3 then (Panic, c)
     else
       let next_slot = (if slot = 0 then Some 1
                        else if slot = 1 \<and> lc_selected_slot c = None then Some 2
                        else if slot = 2 then Some 3 else None)
       in case next_slot of
            Some next_slot \<Rightarrow>
              let (sequence, c) = load_take_sequence c;
                  c = c\<lparr>lc_phase := LoadSize next_slot\<rparr>
              in (Ok (LoadRequest (envelope ScState sequence (FileSize (load_slot_name next_slot)))), c)
          | None \<Rightarrow>
              (Ok (LoadComplete (lc_selected_slot c = None)),
               c\<lparr>lc_phase := LoadDone, lc_slots := \<lparr>sl_loaded_slot = lc_selected_slot c,
                 sl_loaded_generation = lc_selected_generation c\<rparr>\<rparr>))"

text \<open>
  The end of a read slot: \<open>absorb\<close> keeps the candidate if it is the first one or not older than the one before.  A size that
  does not fit in \<open>usize\<close> is out of the range that is tested next.
\<close>

definition absorb :: "nat \<Rightarrow> (ReaderState, ReaderStateError) res \<Rightarrow> StateLoadClient \<Rightarrow> StateLoadClient" where
  "absorb slot decoded c =
    (case decoded of
       Ok candidate \<Rightarrow>
         if lc_selected_slot c = None \<or> rst_generation candidate - lc_selected_generation c < 0x80000000
         then c\<lparr>lc_selected_slot := Some (slot mod 2), lc_selected_generation := rst_generation candidate, lc_target := candidate\<rparr>
         else c
     | _ \<Rightarrow> c)"

definition load_accept :: "ResponseEnvelope \<Rightarrow> bytes \<Rightarrow> StateLoadClient \<Rightarrow> load_result" where
  "load_accept response buffer c =
    (if uncorrelated ScState (lc_expected_sequence c) response then (Err LoadCorrelation, c)
     else
       case lc_phase c of
         LoadSize slot \<Rightarrow>
           (case rs_response response of
              Ok (RespFileSize file_size) \<Rightarrow>
                let file_len = unat file_size in
                if \<not> (STATE_HEADER_SIZE \<le> file_len \<and> file_len \<le> MAX_STATE_BYTES) \<or> length buffer < file_len then finish_slot slot c
                else load_issue_read slot file_len 0 c
            | Ok _ \<Rightarrow> (Err LoadCompletion, c)
            | _ \<Rightarrow> finish_slot slot c)
       | LoadRead slot file_len offset len \<Rightarrow>
           (case rs_response response of
              Ok (RespRead actual) \<Rightarrow>
                if actual = len then
                  let next_offset = offset + unat len in
                  if next_offset < file_len then load_issue_read slot file_len next_offset c
                  else if length buffer < file_len then (Panic, c)
                  else finish_slot slot (absorb slot (state_decode (take file_len buffer)) c)
                else (Err LoadCompletion, c)
            | Ok _ \<Rightarrow> (Err LoadCompletion, c)
            | _ \<Rightarrow> finish_slot slot c)
       | LoadDone \<Rightarrow> (Err LoadCompletion, c))"

subsection \<open>Saving\<close>

datatype StateSaveError = SaveCorrelation | SaveCompletion | SaveCodec ReaderStateError | SaveMismatch

datatype StateSaveUpdate = SaveRequest RequestEnvelope | SaveComplete

datatype SavePhase = SaveBegin | SaveWrite u32 nat u16 | SaveCommit u32 | SaveRead nat u16 | SaveAbort StateSaveError | SaveDone

record StateSaveClient =
  sv_slots :: OwnerStateSlots
  sv_state :: ReaderState
  sv_target_slot :: nat
  sv_next_generation :: u32
  sv_used :: nat
  sv_phase :: SavePhase
  sv_expected_sequence :: u32
  sv_next_sequence :: u32

type_synonym save_result = "(StateSaveUpdate, StateSaveError) res \<times> StateSaveClient"

text \<open>The buffer that holds the encoded state comes back with the result.\<close>

definition begin_save ::
    "OwnerStateSlots \<Rightarrow> ReaderState \<Rightarrow> bytes \<Rightarrow> u32 \<Rightarrow> (StateSaveClient \<times> RequestEnvelope \<times> bytes, StateSaveError) res" where
  "begin_save slots state buffer sequence =
    (let target = (case sl_loaded_slot slots of
                     None \<Rightarrow> Ok 0
                   | Some slot \<Rightarrow> if slot = 0 then Ok 1 else if slot = 1 then Ok 0 else Panic)
     in and_then target (\<lambda>target_slot.
        let next_generation = sl_loaded_generation slots + 1 in
        and_then (map_err SaveCodec (state_encode_with_generation next_generation state buffer)) (\<lambda>(used, buffer).
        Ok (\<lparr>sv_slots = slots, sv_state = state, sv_target_slot = target_slot, sv_next_generation = next_generation, sv_used = used,
              sv_phase = SaveBegin, sv_expected_sequence = sequence, sv_next_sequence = sequence + 1\<rparr>,
            envelope ScState sequence (UploadBegin (slot_name target_slot) (of_nat used) 0 True), buffer))))"

definition save_take_sequence :: "StateSaveClient \<Rightarrow> u32 \<times> StateSaveClient" where
  "save_take_sequence c =
    (let sequence = sv_next_sequence c in
     (sequence, c\<lparr>sv_next_sequence := sequence + 1, sv_expected_sequence := sequence\<rparr>))"

definition save_issue :: "Request \<Rightarrow> SavePhase \<Rightarrow> StateSaveClient \<Rightarrow> save_result" where
  "save_issue request phase c =
    (let (sequence, c) = save_take_sequence c in (Ok (SaveRequest (envelope ScState sequence request)), c\<lparr>sv_phase := phase\<rparr>))"

definition save_issue_write :: "u32 \<Rightarrow> nat \<Rightarrow> StateSaveClient \<Rightarrow> save_result" where
  "save_issue_write upload_id offset c =
    (let len = (of_nat (min (sv_used c - offset) WRITE_CHUNK_BYTES) :: u16) in
     save_issue (UploadWrite upload_id (of_nat offset) (of_nat offset) len BsState True) (SaveWrite upload_id offset len) c)"

definition save_issue_read :: "nat \<Rightarrow> StateSaveClient \<Rightarrow> save_result" where
  "save_issue_read offset c =
    (let len = (of_nat (min (sv_used c - offset) (unat MAX_BOUNDED_IO_BYTES)) :: u16) in
     case Request_read_into (slot_name (sv_target_slot c)) (of_nat offset) (of_nat offset) len BsState of
       Ok request \<Rightarrow> save_issue request (SaveRead offset len) c
     | _ \<Rightarrow> (Panic, c))"

definition fail_or_abort :: "StateSaveError \<Rightarrow> StateSaveClient \<Rightarrow> save_result" where
  "fail_or_abort error c =
    (case sv_phase c of
       SaveWrite upload_id _ _ \<Rightarrow> save_issue (UploadAbort upload_id) (SaveAbort error) c
     | SaveCommit upload_id \<Rightarrow> save_issue (UploadAbort upload_id) (SaveAbort error) c
     | _ \<Rightarrow> (Err error, c\<lparr>sv_phase := SaveDone\<rparr>))"

text \<open>The check of the copy that was read back.\<close>

definition save_verify :: "bytes \<Rightarrow> StateSaveClient \<Rightarrow> save_result" where
  "save_verify buffer c =
    (if length buffer < sv_used c then (Panic, c)
     else
       case map_err SaveCodec (state_decode (take (sv_used c) buffer)) of
         Ok verified \<Rightarrow>
           if rst_generation verified \<noteq> sv_next_generation c \<or> \<not> matches_except_generation (sv_state c) verified
           then (Err SaveMismatch, c)
           else (Ok SaveComplete, c\<lparr>sv_state := verified,
             sv_slots := \<lparr>sl_loaded_slot = Some (sv_target_slot c), sl_loaded_generation = sv_next_generation c\<rparr>,
             sv_phase := SaveDone\<rparr>)
       | Err e \<Rightarrow> (Err e, c)
       | Panic \<Rightarrow> (Panic, c))"

definition save_accept :: "ResponseEnvelope \<Rightarrow> bytes \<Rightarrow> StateSaveClient \<Rightarrow> save_result" where
  "save_accept response buffer c =
    (if uncorrelated ScState (sv_expected_sequence c) response then (Err SaveCorrelation, c)
     else
       case rs_response response of
         Ok response \<Rightarrow>
           (case (sv_phase c, response) of
              (SaveBegin, UploadStarted upload_id) \<Rightarrow> save_issue_write upload_id 0 c
            | (SaveWrite upload_id offset len, RespWritten actual) \<Rightarrow>
                if actual = len then
                  let next_offset = offset + unat len in
                  if next_offset < sv_used c then save_issue_write upload_id next_offset c
                  else save_issue (UploadCommit upload_id True) (SaveCommit upload_id) c
                else fail_or_abort SaveCompletion c
            | (SaveCommit _, Ack) \<Rightarrow> save_issue_read 0 c
            | (SaveRead offset len, RespRead actual) \<Rightarrow>
                if actual = len then
                  let next_offset = offset + unat len in
                  if next_offset < sv_used c then save_issue_read next_offset c else save_verify buffer c
                else fail_or_abort SaveCompletion c
            | (SaveAbort error, Ack) \<Rightarrow> (Err error, c\<lparr>sv_phase := SaveDone\<rparr>)
            | (SaveDone, _) \<Rightarrow> (Err SaveCompletion, c)
            | _ \<Rightarrow> fail_or_abort SaveCompletion c)
       | _ \<Rightarrow> fail_or_abort SaveCompletion c)"

subsection \<open>Every session ends\<close>

fun load_issued :: "StateLoadUpdate \<Rightarrow> RequestEnvelope option" where
  "load_issued (LoadRequest request) = Some request"
| "load_issued (LoadComplete _) = None"

fun save_issued :: "StateSaveUpdate \<Rightarrow> RequestEnvelope option" where
  "save_issued (SaveRequest request) = Some request"
| "save_issued SaveComplete = None"

text \<open>The number of chunks that are left, and of requests that may follow.\<close>

definition chunks :: "nat \<Rightarrow> nat \<Rightarrow> nat" where
  "chunks n limit = (n + limit - 1) div limit"

lemma chunks_step: "0 < n \<Longrightarrow> 0 < limit \<Longrightarrow> chunks n limit = Suc (chunks (n - min n limit) limit)"
proof -
  assume "0 < n" "0 < limit"
  then show ?thesis
  proof (cases "n \<le> limit")
    case True
    then have "(n + limit - 1) div limit = 1" using \<open>0 < n\<close> \<open>0 < limit\<close> by (intro div_nat_eqI) auto
    then show ?thesis using True \<open>0 < limit\<close> by (simp add: chunks_def)
  next
    case False
    then have "n + limit - 1 = (n - limit + limit - 1) + limit" using \<open>0 < limit\<close> by simp
    then have "(n + limit - 1) div limit = Suc ((n - limit + limit - 1) div limit)" using \<open>0 < limit\<close> by (metis div_add_self2 Suc_eq_plus1 less_numeral_extra(3))
    then show ?thesis using False by (simp add: chunks_def)
  qed
qed

lemma chunks_0 [simp]: "0 < limit \<Longrightarrow> chunks 0 limit = 0"
  by (simp add: chunks_def)

lemma chunks_mono: "m \<le> n \<Longrightarrow> chunks m limit \<le> chunks n limit"
  by (simp add: chunks_def div_le_mono)

definition load_inv :: "StateLoadClient \<Rightarrow> bool" where
  "load_inv c \<longleftrightarrow> (case lc_phase c of
       LoadSize slot \<Rightarrow> slot \<le> 3
     | LoadRead slot file_len offset len \<Rightarrow> slot \<le> 3 \<and> offset < file_len \<and> file_len \<le> 8872 \<and> unat len = min (file_len - offset) 4096
     | LoadDone \<Rightarrow> True)"

definition load_work :: "StateLoadClient \<Rightarrow> nat" where
  "load_work c = (case lc_phase c of
       LoadSize slot \<Rightarrow> (3 - slot) * 4 + 3
     | LoadRead slot file_len offset len \<Rightarrow> (3 - slot) * 4 + (chunks (file_len - offset) 4096 - 1)
     | LoadDone \<Rightarrow> 0)"

lemma load_issue_read_eq:
  assumes "offset < file_len" "file_len \<le> 8872"
  shows "load_issue_read slot file_len offset c =
    (Ok (LoadRequest (envelope ScState (lc_next_sequence c)
       (ReadFile (load_slot_name slot) (of_nat offset) (of_nat offset) (of_nat (min (file_len - offset) 4096)) BsState))),
     c\<lparr>lc_next_sequence := lc_next_sequence c + 1, lc_expected_sequence := lc_next_sequence c,
       lc_phase := LoadRead slot file_len offset (of_nat (min (file_len - offset) 4096))\<rparr>)"
proof -
  let ?len = "of_nat (min (file_len - offset) 4096) :: u16"
  have "unat ?len = min (file_len - offset) 4096" by (simp add: unat_of_nat)
  then have "?len \<noteq> 0" "\<not> 4096 < ?len" using assms(1) by (auto simp: word_less_nat_alt unat_eq_0[symmetric])
  then show ?thesis by (simp add: load_issue_read_def load_take_sequence_def Request_read_into_def validate_len_def Let_def)
qed

lemma unat_read_len: "unat (of_nat (min n 4096) :: u16) = min n 4096"
  by (simp add: unat_of_nat)

lemma finish_slot_cases:
  assumes "slot \<le> 3"
  shows "finish_slot slot c =
    (if slot = 0 \<or> slot = 1 \<and> lc_selected_slot c = None \<or> slot = 2
     then (Ok (LoadRequest (envelope ScState (lc_next_sequence c) (FileSize (load_slot_name (Suc slot))))),
       c\<lparr>lc_next_sequence := lc_next_sequence c + 1, lc_expected_sequence := lc_next_sequence c, lc_phase := LoadSize (Suc slot)\<rparr>)
     else (Ok (LoadComplete (lc_selected_slot c = None)),
       c\<lparr>lc_phase := LoadDone, lc_slots := \<lparr>sl_loaded_slot = lc_selected_slot c, sl_loaded_generation = lc_selected_generation c\<rparr>\<rparr>))"
proof -
  consider "slot = 0" | "slot = 1" | "slot = 2" | "slot = 3" using assms by linarith
  then show ?thesis by cases (simp_all add: finish_slot_def load_take_sequence_def Let_def numeral_2_eq_2 numeral_3_eq_3)
qed

lemma absorb_fields [simp]:
  "lc_phase (absorb slot decoded c) = lc_phase c" "lc_next_sequence (absorb slot decoded c) = lc_next_sequence c"
  by (simp_all add: absorb_def split: res.split)

lemma finish_slot_issues:
  assumes "slot \<le> 3" "finish_slot slot c = (Ok u, t)" "load_issued u = Some request"
  shows "rq_client request = ScState \<and> rq_sequence request = lc_expected_sequence t \<and> load_inv t \<and> load_work t < (3 - slot) * 4"
  using assms by (auto simp: finish_slot_cases load_inv_def load_work_def split: if_splits)

lemma load_issue_read_issues:
  assumes "slot \<le> 3" "offset < file_len" "file_len \<le> 8872" "load_issue_read slot file_len offset c = (Ok u, t)" "load_issued u = Some request"
  shows "rq_client request = ScState \<and> rq_sequence request = lc_expected_sequence t \<and> load_inv t \<and>
    load_work t = (3 - slot) * 4 + (chunks (file_len - offset) 4096 - 1)"
  using assms by (auto simp: load_issue_read_eq load_inv_def load_work_def unat_read_len)

lemma load_step:
  assumes inv: "load_inv c" and acc: "load_accept response buffer c = (Ok u, t)" and req: "load_issued u = Some request"
  shows "rq_client request = ScState \<and> rq_sequence request = lc_expected_sequence t \<and> load_inv t \<and> load_work t < load_work c"
proof -
  show ?thesis
  proof (cases "lc_phase c")
    case (LoadSize slot)
    consider (fin) "finish_slot slot c = (Ok u, t)"
      | (rd) file_len where "72 \<le> file_len" "file_len \<le> 8872" "load_issue_read slot file_len 0 c = (Ok u, t)"
      using acc LoadSize by (auto simp: load_accept_def MAX_STATE_BYTES_def Let_def split: if_splits res.splits Response.splits)
    then show ?thesis
    proof cases
      case fin
      then show ?thesis using finish_slot_issues[of slot c u t request] inv req LoadSize by (auto simp: load_inv_def load_work_def)
    next
      case rd
      have "chunks file_len 4096 \<le> 3" using chunks_mono[OF rd(2), of 4096] by (simp add: chunks_def)
      then show ?thesis using load_issue_read_issues[of slot 0 file_len c u t request] rd inv req LoadSize
        by (auto simp: load_inv_def load_work_def)
    qed
  next
    case (LoadRead slot file_len offset len)
    consider (fin) d where "finish_slot slot d = (Ok u, t)"
      | (rd) "offset + unat len < file_len" "load_issue_read slot file_len (offset + unat len) c = (Ok u, t)"
      using acc LoadRead by (auto simp: load_accept_def Let_def split: if_splits res.splits Response.splits)
    then show ?thesis
    proof cases
      case fin
      then show ?thesis using finish_slot_issues[of slot d u t request] inv req LoadRead by (auto simp: load_inv_def load_work_def)
    next
      case rd
      have "chunks (file_len - offset) 4096 = Suc (chunks (file_len - (offset + unat len)) 4096)"
        "0 < chunks (file_len - (offset + unat len)) 4096"
        using chunks_step[of "file_len - offset" 4096] chunks_step[of "file_len - (offset + unat len)" 4096] inv LoadRead rd(1)
        by (auto simp: load_inv_def)
      then show ?thesis using load_issue_read_issues[of slot "offset + unat len" file_len c u t request] rd inv req LoadRead
        by (auto simp: load_inv_def load_work_def)
    qed
  next
    case LoadDone
    then show ?thesis using acc by (auto simp: load_accept_def split: if_splits)
  qed
qed

interpretation load: owner_client ScState load_accept load_issued lc_expected_sequence load_inv load_work
  by unfold_locales (simp add: load_accept_def, (use load_step in blast)+)

definition save_inv :: "StateSaveClient \<Rightarrow> bool" where
  "save_inv c \<longleftrightarrow> 0 < sv_used c \<and> sv_used c \<le> 8872 \<and> (case sv_phase c of
       SaveWrite upload_id offset len \<Rightarrow> offset < sv_used c \<and> unat len = min (sv_used c - offset) 512
     | SaveRead offset len \<Rightarrow> offset < sv_used c \<and> unat len = min (sv_used c - offset) 4096
     | _ \<Rightarrow> True)"

definition save_work :: "StateSaveClient \<Rightarrow> nat" where
  "save_work c = (case sv_phase c of
       SaveBegin \<Rightarrow> chunks (sv_used c) 512 + chunks (sv_used c) 4096 + 2
     | SaveWrite upload_id offset len \<Rightarrow> chunks (sv_used c - offset) 512 + chunks (sv_used c) 4096 + 1
     | SaveCommit upload_id \<Rightarrow> chunks (sv_used c) 4096 + 1
     | SaveRead offset len \<Rightarrow> chunks (sv_used c - offset) 4096
     | SaveAbort error \<Rightarrow> 0
     | SaveDone \<Rightarrow> 0)"

lemma save_issue_eq:
  "save_issue request phase c = (Ok (SaveRequest (envelope ScState (sv_next_sequence c) request)),
    c\<lparr>sv_next_sequence := sv_next_sequence c + 1, sv_expected_sequence := sv_next_sequence c, sv_phase := phase\<rparr>)"
  by (simp add: save_issue_def save_take_sequence_def Let_def)

lemma save_issue_read_eq:
  assumes "offset < sv_used c" "sv_used c \<le> 8872"
  shows "save_issue_read offset c = save_issue
    (ReadFile (slot_name (sv_target_slot c)) (of_nat offset) (of_nat offset) (of_nat (min (sv_used c - offset) 4096)) BsState)
    (SaveRead offset (of_nat (min (sv_used c - offset) 4096))) c"
proof -
  let ?len = "of_nat (min (sv_used c - offset) 4096) :: u16"
  have "?len \<noteq> 0" "\<not> 4096 < ?len" using assms(1) unat_read_len[of "sv_used c - offset"]
    by (auto simp: word_less_nat_alt unat_eq_0[symmetric])
  then show ?thesis by (simp add: save_issue_read_def Request_read_into_def validate_len_def Let_def)
qed

lemma unat_write_len: "unat (of_nat (min n 512) :: u16) = min n 512"
  by (simp add: unat_of_nat)

text \<open>A session that fails while its file is open ends with the request that gives the file up.\<close>

lemma fail_or_abort_eq:
  "fail_or_abort error c = (case sv_phase c of
       SaveWrite upload_id _ _ \<Rightarrow> save_issue (UploadAbort upload_id) (SaveAbort error) c
     | SaveCommit upload_id \<Rightarrow> save_issue (UploadAbort upload_id) (SaveAbort error) c
     | _ \<Rightarrow> (Err error, c\<lparr>sv_phase := SaveDone\<rparr>))"
  by (simp add: fail_or_abort_def)

lemma save_accept_requests:
  assumes "save_accept response buffer c = (Ok (SaveRequest request), t)"
  obtains (writing) id offset where "save_issue_write id offset c = (Ok (SaveRequest request), t)"
      "sv_phase c = SaveBegin \<and> offset = 0 \<or> (\<exists>o' len. sv_phase c = SaveWrite id o' len \<and> offset = o' + unat len \<and> offset < sv_used c)"
  | (commit) id offset len where "save_issue (UploadCommit id True) (SaveCommit id) c = (Ok (SaveRequest request), t)"
      "sv_phase c = SaveWrite id offset len"
  | (readback) offset where "save_issue_read offset c = (Ok (SaveRequest request), t)"
      "(\<exists>id. sv_phase c = SaveCommit id) \<and> offset = 0 \<or> (\<exists>o' len. sv_phase c = SaveRead o' len \<and> offset = o' + unat len \<and> offset < sv_used c)"
  | (abort) id where "save_issue (UploadAbort id) (SaveAbort SaveCompletion) c = (Ok (SaveRequest request), t)"
      "sv_phase c = SaveCommit id \<or> (\<exists>offset len. sv_phase c = SaveWrite id offset len)"
  using assms
  by (auto simp: save_accept_def fail_or_abort_eq save_verify_def Let_def split: if_splits res.splits SavePhase.splits Response.splits)

lemma save_step:
  assumes inv: "save_inv c" and acc: "save_accept response buffer c = (Ok u, t)" and req: "save_issued u = Some request"
  shows "rq_client request = ScState \<and> rq_sequence request = sv_expected_sequence t \<and> save_inv t \<and> save_work t < save_work c"
proof -
  from req have u: "u = SaveRequest request" by (cases u) simp_all
  have chunk: "chunks (sv_used c - offset) limit = Suc (chunks (sv_used c - (offset + min (sv_used c - offset) limit)) limit)"
    if "offset < sv_used c" "0 < limit" for offset limit using chunks_step[of "sv_used c - offset" limit] that by simp
  have used: "0 < sv_used c" "sv_used c \<le> 8872" using inv by (simp_all add: save_inv_def)
  have positive: "0 < chunks (sv_used c - offset) limit" if "offset < sv_used c" "0 < limit" for offset limit using chunk[OF that] by simp
  from acc[unfolded u]
  show ?thesis
  proof (cases rule: save_accept_requests)
    case (writing id offset)
    have t: "rq_client request = ScState" "rq_sequence request = sv_expected_sequence t" "sv_used t = sv_used c"
      "sv_phase t = SaveWrite id offset (of_nat (min (sv_used c - offset) 512))"
      using writing(1) by (auto simp: save_issue_write_def save_issue_eq Let_def)
    from writing(2) show ?thesis
    proof
      assume "sv_phase c = SaveBegin \<and> offset = 0"
      then show ?thesis using t used by (simp add: save_inv_def save_work_def unat_write_len)
    next
      assume "\<exists>o' len. sv_phase c = SaveWrite id o' len \<and> offset = o' + unat len \<and> offset < sv_used c"
      then obtain o' len where o': "sv_phase c = SaveWrite id o' len" "offset = o' + unat len" "offset < sv_used c" by blast
      then have "chunks (sv_used c - o') 512 = Suc (chunks (sv_used c - offset) 512)"
        using chunk[of o' 512] inv by (simp add: save_inv_def)
      then show ?thesis using t used o' by (simp add: save_inv_def save_work_def unat_write_len)
    qed
  next
    case (commit id offset len)
    then show ?thesis using used inv positive[of offset 512]
      by (auto simp: save_issue_eq save_inv_def save_work_def)
  next
    case (readback offset)
    have "offset < sv_used c" using readback(2) used by auto
    then have t: "rq_client request = ScState" "rq_sequence request = sv_expected_sequence t" "sv_used t = sv_used c"
      "sv_phase t = SaveRead offset (of_nat (min (sv_used c - offset) 4096))" "offset < sv_used c"
      using readback(1) used by (auto simp: save_issue_read_eq save_issue_eq)
    from readback(2) show ?thesis
    proof
      assume "(\<exists>id. sv_phase c = SaveCommit id) \<and> offset = 0"
      then show ?thesis using t used by (auto simp: save_inv_def save_work_def unat_read_len)
    next
      assume "\<exists>o' len. sv_phase c = SaveRead o' len \<and> offset = o' + unat len \<and> offset < sv_used c"
      then obtain o' len where o': "sv_phase c = SaveRead o' len" "offset = o' + unat len" "offset < sv_used c" by blast
      then have "chunks (sv_used c - o') 4096 = Suc (chunks (sv_used c - offset) 4096)"
        using chunk[of o' 4096] inv by (simp add: save_inv_def)
      then show ?thesis using t used o' by (simp add: save_inv_def save_work_def unat_read_len)
    qed
  next
    case (abort id)
    then show ?thesis using used inv by (auto simp: save_issue_eq save_inv_def save_work_def)
  qed
qed

interpretation save: owner_client ScState save_accept save_issued sv_expected_sequence save_inv save_work
  by unfold_locales (simp add: save_accept_def, (use save_step in blast)+)

text \<open>C28: Loading and saving always end: if the client starts from the beginning, then, whatever the storage owner answers and
  in whatever order, at most 15 responses make the load client send another request, and at most 23 the save client.\<close>

theorem state_sessions_end:
  assumes "begin_save slots state buffer sequence = Ok (c, request, encoded)" "sv_used c \<le> MAX_STATE_BYTES"
  shows "(answered load_accept load_issued loading (fst (begin_load slots sequence)) = Some t \<longrightarrow> length loading \<le> 15) \<and>
    (answered save_accept save_issued saving c = Some t' \<longrightarrow> length saving \<le> 23)"
proof -
  have "load_inv (fst (begin_load slots sequence))" "load_work (fst (begin_load slots sequence)) = 15"
    by (simp_all add: begin_load_def load_inv_def load_work_def)
  then have load: "answered load_accept load_issued loading (fst (begin_load slots sequence)) = Some t \<Longrightarrow> length loading \<le> 15"
    using load.answered_bounded[of loading] by fastforce
  have c: "sv_phase c = SaveBegin" "0 < sv_used c"
    using assms(1) by (auto simp: begin_save_def and_then_Ok_iff state_encode_with_generation_def Let_def split: if_splits)
  have "chunks (sv_used c) 512 \<le> 18" "chunks (sv_used c) 4096 \<le> 3"
    using chunks_mono[of "sv_used c" 8872 512] chunks_mono[of "sv_used c" 8872 4096] assms(2) by (simp_all add: chunks_def MAX_STATE_BYTES_def)
  then have "save_inv c" "save_work c \<le> 23" using c assms(2) by (simp_all add: save_inv_def save_work_def MAX_STATE_BYTES_def)
  then have "answered save_accept save_issued saving c = Some t' \<Longrightarrow> length saving \<le> 23"
    using save.answered_bounded[of saving c t'] by fastforce
  then show ?thesis using load by blast
qed

subsection \<open>A sample\<close>

definition sample_state :: ReaderState where
  "sample_state = snd (commit_visible_page 7 (replicate 32 1) 12 ReaderState_empty)"

lemma sample_state_wf: "state_wf sample_state"
  unfolding sample_state_def
  by (rule commit_visible_page_wf) (simp_all add: ReaderState_empty_def state_wf_def validate_mode_state_def)

lemma sample_state_page: "lookup_page 7 (replicate 32 1) sample_state = Some 12"
  unfolding sample_state_def by code_simp

lemma begin_save_succeeds:
  assumes "state_wf s" "MAX_STATE_BYTES \<le> length buffer" "sl_loaded_slot slots \<in> {None, Some 0, Some 1}"
  shows "\<exists>c request encoded. begin_save slots s buffer sequence = Ok (c, request, encoded) \<and> sv_used c \<le> MAX_STATE_BYTES"
proof -
  have "72 + length (rst_records s) * 44 \<le> 8872" using assms(1) by (simp add: state_wf_def)
  then show ?thesis using state_encode_eq[OF assms(1), of buffer] assms(2,3)
    by (auto simp: begin_save_def MAX_STATE_BYTES_def Let_def split: option.splits)
qed

lemma state_sessions_end_witness:
  "\<exists>c request encoded t. begin_save OwnerStateSlots_new sample_state (replicate 8872 0) 5 = Ok (c, request, encoded) \<and>
    answered save_accept save_issued [(\<lparr>rs_client = ScState, rs_sequence = 5, rs_response = Ok (UploadStarted 1)\<rparr>, encoded)] c = Some t \<and>
    length [(\<lparr>rs_client = ScState, rs_sequence = 5, rs_response = Ok (UploadStarted 1)\<rparr>, encoded)] \<le> 23"
proof -
  obtain c request encoded where c: "begin_save OwnerStateSlots_new sample_state (replicate 8872 0) 5 = Ok (c, request, encoded)"
    "sv_used c \<le> MAX_STATE_BYTES"
    using begin_save_succeeds[OF sample_state_wf, of "replicate 8872 0" OwnerStateSlots_new 5]
    by (auto simp: MAX_STATE_BYTES_def OwnerStateSlots_new_def)
  then have "sv_phase c = SaveBegin" "sv_expected_sequence c = 5"
    by (auto simp: begin_save_def and_then_Ok_iff OwnerStateSlots_new_def Let_def)
  then obtain t where t: "answered save_accept save_issued [(\<lparr>rs_client = ScState, rs_sequence = 5, rs_response = Ok (UploadStarted 1)\<rparr>, encoded)] c = Some t"
    by (simp add: save_accept_def uncorrelated_def save_issue_write_def save_issue_eq Let_def)
  with state_sessions_end[OF c, THEN conjunct2, rule_format, OF t] c(1) show ?thesis by blast
qed

end
