(* ===== verification/State_Card.thy ===== *)
theory State_Card
  imports State_Client
begin

text \<open>
  Loading and saving on an ideal card: loading selects the newest valid copy, and what was saved is what the next session
  loads, whatever the card held before.
\<close>

subsection \<open>What loading selects\<close>

text \<open>The state in a slot, as the load client sees it with a buffer of \<open>n\<close> bytes.\<close>

definition slot_state :: "Card \<Rightarrow> nat \<Rightarrow> nat \<Rightarrow> (ReaderState, ReaderStateError) res" where
  "slot_state sd n slot =
    (case cd_files sd (load_slot_name slot) of
       Some data \<Rightarrow> if 72 \<le> length data \<and> length data \<le> 8872 \<and> length data \<le> n then state_decode data else Err StLength
     | None \<Rightarrow> Err StLength)"

fun ok_option :: "('a, 'e) res \<Rightarrow> 'a option" where
  "ok_option (Ok x) = Some x"
| "ok_option _ = None"

text \<open>The newer one of two slots, in the words of \<^verbatim>\<open>select_newer\<close>.\<close>

definition newest :: "ReaderState option \<Rightarrow> ReaderState option \<Rightarrow> (nat \<times> ReaderState) option" where
  "newest a b =
    (case select_newer a b of
       Some i \<Rightarrow> map_option (\<lambda>s. (i, s)) (if i = 0 then a else b)
     | None \<Rightarrow> None)"

definition selection :: "Card \<Rightarrow> nat \<Rightarrow> (nat \<times> ReaderState) option" where
  "selection sd n =
    (case newest (ok_option (slot_state sd n 0)) (ok_option (slot_state sd n 1)) of
       Some found \<Rightarrow> Some found
     | None \<Rightarrow> newest (ok_option (slot_state sd n 2)) (ok_option (slot_state sd n 3)))"

definition same_selection :: "StateLoadClient \<Rightarrow> StateLoadClient \<Rightarrow> bool" where
  "same_selection c d \<longleftrightarrow> lc_slots c = lc_slots d \<and> lc_target c = lc_target d \<and> lc_selected_slot c = lc_selected_slot d \<and>
    lc_selected_generation c = lc_selected_generation d"

lemma same_selection_refl [simp]: "same_selection c c"
  by (simp add: same_selection_def)

lemma same_selection_trans: "same_selection c d \<Longrightarrow> same_selection d e \<Longrightarrow> same_selection c e"
  by (simp add: same_selection_def)

abbreviation load_session where
  "load_session \<equiv> session load_accept load_issued"

abbreviation load_resume where
  "load_resume \<equiv> resume load_accept load_issued"

definition read_request :: "nat \<Rightarrow> nat \<Rightarrow> u16 \<Rightarrow> StateLoadClient \<Rightarrow> RequestEnvelope" where
  "read_request slot offset len c =
    envelope ScState (lc_expected_sequence c) (ReadFile (load_slot_name slot) (of_nat offset) (of_nat offset) len BsState)"

lemma read_served:
  assumes "cd_files sd name = Some data" "length data = n" "n \<le> 8872" "n \<le> length buffer" "take offset buffer = take offset data"
    "offset < n" "unat len = min (n - offset) 4096"
  obtains buffer' where
    "card_serve (ReadFile name (of_nat offset) (of_nat offset) len slot) buffer sd = (Ok (RespRead len), buffer', sd)"
    "length buffer' = length buffer" "take (offset + unat len) buffer' = take (offset + unat len) data"
proof -
  have u: "unat (of_nat offset :: u64) = offset" "unat (of_nat offset :: u16) = offset"
    using assms(3,6) by (simp_all add: unat_of_nat)
  have fits: "offset + unat len \<le> n" using assms(6,7) by simp
  let ?new = "overwrite buffer offset (subslice data offset (unat len))"
  have "take (offset + unat len) ?new = take (offset + unat len) data"
    using assms fits by (simp add: overwrite_def take_add subslice_def)
  moreover have "length ?new = length buffer" using assms fits by (intro length_overwrite) simp
  ultimately show ?thesis using that[of ?new] assms(1,2,4) fits u by (simp add: file_read_def)
qed

lemma read_rest:
  assumes "lc_phase c = LoadRead slot n offset len" "load_inv c" "cd_files sd (load_slot_name slot) = Some data" "length data = n"
    "n \<le> length buffer" "take offset buffer = take offset data"
  shows "\<exists>buffer' c'. load_session (read_request slot offset len c) buffer sd c =
      load_resume buffer' sd (finish_slot slot (absorb slot (state_decode data) c')) \<and>
    length buffer' = length buffer \<and> same_selection c c'"
  using assms
proof (induction "n - offset" arbitrary: offset len c buffer rule: less_induct)
  case less
  have r: "slot \<le> 3" "offset < n" "n \<le> 8872" "unat len = min (n - offset) 4096"
    using less.prems(1,2) by (simp_all add: load_inv_def)
  obtain buffer1 where b: "card_serve (ReadFile (load_slot_name slot) (of_nat offset) (of_nat offset) len BsState) buffer sd = (Ok (RespRead len), buffer1, sd)"
    "length buffer1 = length buffer" "take (offset + unat len) buffer1 = take (offset + unat len) data"
    using read_served[OF less.prems(3,4) r(3) less.prems(5,6) r(2,4)] by blast
  let ?response = "\<lparr>rs_client = ScState, rs_sequence = lc_expected_sequence c, rs_response = Ok (RespRead len)\<rparr>"
  have session: "load_session (read_request slot offset len c) buffer sd c = load_resume buffer1 sd (load_accept ?response buffer1 c)"
    by (subst session_resume[of _ _ _ "Ok (RespRead len)" buffer1 sd]) (simp_all add: read_request_def b(1) del: card_serve.simps)
  show ?case
  proof (cases "offset + unat len < n")
    case False
    then have "offset + unat len = n" using r by simp
    then have "take n buffer1 = data" using b(3) less.prems(4) by simp
    then have "load_accept ?response buffer1 c = finish_slot slot (absorb slot (state_decode data) c)"
      using False less.prems(1,5) b(2) by (simp add: load_accept_def uncorrelated_def)
    then show ?thesis using session b(2) by (intro exI[of _ buffer1] exI[of _ c]) simp
  next
    case True
    let ?next = "offset + unat len" and ?len = "of_nat (min (n - (offset + unat len)) 4096) :: u16"
    let ?c = "c\<lparr>lc_next_sequence := lc_next_sequence c + 1, lc_expected_sequence := lc_next_sequence c, lc_phase := LoadRead slot n ?next ?len\<rparr>"
    have "load_accept ?response buffer1 c = load_issue_read slot n ?next c"
      using True less.prems(1) by (simp add: load_accept_def uncorrelated_def)
    then have "load_accept ?response buffer1 c = (Ok (LoadRequest (read_request slot ?next ?len ?c)), ?c)"
      using load_issue_read_eq[of ?next n slot c] True r by (simp add: read_request_def)
    then have step: "load_session (read_request slot offset len c) buffer sd c = load_session (read_request slot ?next ?len ?c) buffer1 sd ?c"
      unfolding session by (simp add: resume_def)
    have closer: "n - ?next < n - offset" using True r by linarith
    have "load_inv ?c" using True r by (simp add: load_inv_def unat_read_len)
    then obtain buffer' c' where "load_session (read_request slot ?next ?len ?c) buffer1 sd ?c =
        load_resume buffer' sd (finish_slot slot (absorb slot (state_decode data) c'))" "length buffer' = length buffer1" "same_selection ?c c'"
      using less.hyps[of ?next ?c ?len buffer1, OF _ _ _ less.prems(3,4)] less.prems(5) b(2,3) closer by auto
    then show ?thesis using step b(2) by (intro exI[of _ buffer'] exI[of _ c']) (simp add: same_selection_def)
  qed
qed

text \<open>A whole slot.\<close>

lemma load_slot:
  assumes "lc_phase c = LoadSize slot" "slot \<le> 3"
  shows "\<exists>buffer' c'. load_session (envelope ScState (lc_expected_sequence c) (FileSize (load_slot_name slot))) buffer sd c =
      load_resume buffer' sd (finish_slot slot (absorb slot (slot_state sd (length buffer) slot) c')) \<and>
    length buffer' = length buffer \<and> same_selection c c'"
proof -
  let ?request = "envelope ScState (lc_expected_sequence c) (FileSize (load_slot_name slot))"
  let ?response = "\<lambda>r. \<lparr>rs_client = ScState, rs_sequence = lc_expected_sequence c, rs_response = r\<rparr>"
  have skipped: ?thesis if "card_serve (FileSize (load_slot_name slot)) buffer sd = (r, buffer, sd)"
      "load_accept (?response r) buffer c = finish_slot slot c" "slot_state sd (length buffer) slot = Err StLength" for r
  proof -
    have "absorb slot (slot_state sd (length buffer) slot) c = c" using that(3) by (simp add: absorb_def)
    moreover have "load_session ?request buffer sd c = load_resume buffer sd (finish_slot slot c)"
      using session_resume[of ?request buffer sd r buffer sd load_accept load_issued c] that(1,2) by simp
    ultimately show ?thesis by (intro exI[of _ buffer] exI[of _ c]) simp
  qed
  show ?thesis
  proof (cases "cd_files sd (load_slot_name slot)")
    case None
    then show ?thesis using assms(1) by (intro skipped) (auto simp: load_accept_def uncorrelated_def slot_state_def)
  next
    case (Some data)
    let ?n = "length data"
    have u: "unat (of_nat ?n :: u64) = ?n" if "?n < 2 ^ 64" using that by (simp add: unat_of_nat)
    show ?thesis
    proof (cases "72 \<le> ?n \<and> ?n \<le> 8872 \<and> ?n \<le> length buffer")
      case False
      show ?thesis
        by (rule skipped[of "if ?n < 2 ^ 64 then Ok (RespFileSize (of_nat ?n)) else Err CeBackend"])
          (use Some False u assms(1) in \<open>auto simp: load_accept_def uncorrelated_def slot_state_def MAX_STATE_BYTES_def Let_def\<close>)
    next
      case True
      let ?len = "of_nat (min (?n - 0) 4096) :: u16"
      let ?c = "c\<lparr>lc_next_sequence := lc_next_sequence c + 1, lc_expected_sequence := lc_next_sequence c, lc_phase := LoadRead slot ?n 0 ?len\<rparr>"
      have "load_accept (?response (Ok (RespFileSize (of_nat ?n)))) buffer c = load_issue_read slot ?n 0 c"
        using True u assms(1) by (simp add: load_accept_def uncorrelated_def MAX_STATE_BYTES_def)
      then have acc: "load_accept (?response (Ok (RespFileSize (of_nat ?n)))) buffer c = (Ok (LoadRequest (read_request slot 0 ?len ?c)), ?c)"
      proof -
        have "0 < ?n" "?n \<le> 8872" using True by linarith+
        from load_issue_read_eq[OF this, of slot c] show ?thesis
          using \<open>load_accept _ buffer c = load_issue_read slot ?n 0 c\<close> by (simp add: read_request_def)
      qed
      have served: "card_serve (FileSize (load_slot_name slot)) buffer sd = (Ok (RespFileSize (of_nat ?n)), buffer, sd)"
        using True Some by simp
      have step: "load_session ?request buffer sd c = load_session (read_request slot 0 ?len ?c) buffer sd ?c"
        using session_resume[of ?request buffer sd "Ok (RespFileSize (of_nat ?n))" buffer sd load_accept load_issued c] served acc
        by (simp add: resume_def)
      have "data \<noteq> []" using True by auto
      then have "load_inv ?c" using True assms(2) unat_read_len[of ?n] by (simp add: load_inv_def)
      then obtain buffer' c' where "load_session (read_request slot 0 ?len ?c) buffer sd ?c =
          load_resume buffer' sd (finish_slot slot (absorb slot (state_decode data) c'))" "length buffer' = length buffer" "same_selection ?c c'"
        using read_rest[of ?c slot ?n 0 ?len sd data buffer] True Some by auto
      then show ?thesis using step True Some
        by (intro exI[of _ buffer'] exI[of _ c']) (simp add: same_selection_def slot_state_def)
    qed
  qed
qed

text \<open>The selection, slot by slot.\<close>

definition selected :: "StateLoadClient \<Rightarrow> (nat \<times> ReaderState) option \<Rightarrow> bool" where
  "selected c found \<longleftrightarrow> lc_selected_slot c = map_option fst found \<and>
    (case found of Some (_, s) \<Rightarrow> lc_target c = s \<and> lc_selected_generation c = rst_generation s
     | None \<Rightarrow> lc_target c = ReaderState_empty \<and> lc_selected_generation c = 0)"

lemma selected_absorb_first:
  "selected c None \<Longrightarrow> slot mod 2 = 0 \<Longrightarrow> selected (absorb slot d c) (newest (ok_option d) None)"
  by (cases d) (simp_all add: selected_def absorb_def newest_def select_newer_def)

lemma selected_absorb_second:
  assumes "selected c (newest a None)" "slot mod 2 = 1"
  shows "selected (absorb slot d c) (newest a (ok_option d))"
  using assms by (cases a; cases d) (auto simp: selected_def absorb_def newest_def select_newer_def)

lemma newest_None: "newest a b = None \<longleftrightarrow> a = None \<and> b = None"
  by (auto simp: newest_def select_newer_def split: option.splits if_splits)

lemma selected_same: "same_selection c d \<Longrightarrow> selected c found \<Longrightarrow> selected d found"
  by (auto simp: same_selection_def selected_def split: option.splits prod.splits)

lemma absorb_slots: "lc_slots (absorb slot d c) = lc_slots c"
  by (simp add: absorb_def split: res.split)

text \<open>A slot that is followed by another one.\<close>

lemma load_slot_next:
  assumes "lc_phase c = LoadSize slot" "slot = 0 \<or> slot = 1 \<and> next = None \<or> slot = 2" "selected c before"
    "\<And>c. selected c before \<Longrightarrow> selected (absorb slot (slot_state sd (length buffer) slot) c) next"
  shows "\<exists>buffer' c'. load_session (envelope ScState (lc_expected_sequence c) (FileSize (load_slot_name slot))) buffer sd c =
      load_session (envelope ScState (lc_expected_sequence c') (FileSize (load_slot_name (Suc slot)))) buffer' sd c' \<and>
    length buffer' = length buffer \<and> selected c' next \<and> lc_phase c' = LoadSize (Suc slot)"
proof -
  have "slot \<le> 3" using assms(2) by auto
  then obtain buffer' c' where l: "load_session (envelope ScState (lc_expected_sequence c) (FileSize (load_slot_name slot))) buffer sd c =
      load_resume buffer' sd (finish_slot slot (absorb slot (slot_state sd (length buffer) slot) c'))"
    "length buffer' = length buffer" "same_selection c c'" using load_slot[OF assms(1)] by blast
  let ?d = "absorb slot (slot_state sd (length buffer) slot) c'"
  have sel: "selected ?d next" using assms(3,4) l(3) selected_same by blast
  then have "slot = 1 \<Longrightarrow> lc_selected_slot ?d = None" using assms(2) by (auto simp: selected_def)
  then show ?thesis using l sel \<open>slot \<le> 3\<close> assms(2)
    by (intro exI[of _ buffer'] exI[of _ "?d\<lparr>lc_next_sequence := lc_next_sequence ?d + 1, lc_expected_sequence := lc_next_sequence ?d,
        lc_phase := LoadSize (Suc slot)\<rparr>"])
      (auto simp: finish_slot_cases resume_def selected_def split: option.splits)
qed

text \<open>The last slot.\<close>

lemma load_slot_last:
  assumes "lc_phase c = LoadSize slot" "slot = 1 \<and> found \<noteq> None \<or> slot = 3" "selected c before"
    "\<And>c. selected c before \<Longrightarrow> selected (absorb slot (slot_state sd (length buffer) slot) c) found"
  shows "\<exists>buffer' c'. load_session (envelope ScState (lc_expected_sequence c) (FileSize (load_slot_name slot))) buffer sd c =
      Some (Ok (LoadComplete (found = None)), buffer', sd, c') \<and> length buffer' = length buffer \<and> selected c' found \<and>
    lc_slots c' = \<lparr>sl_loaded_slot = lc_selected_slot c', sl_loaded_generation = lc_selected_generation c'\<rparr>"
proof -
  have "slot \<le> 3" using assms(2) by auto
  then obtain buffer' c' where l: "load_session (envelope ScState (lc_expected_sequence c) (FileSize (load_slot_name slot))) buffer sd c =
      load_resume buffer' sd (finish_slot slot (absorb slot (slot_state sd (length buffer) slot) c'))"
    "length buffer' = length buffer" "same_selection c c'" using load_slot[OF assms(1)] by blast
  let ?d = "absorb slot (slot_state sd (length buffer) slot) c'"
  have sel: "selected ?d found" using assms(3,4) l(3) selected_same by blast
  then have "lc_selected_slot ?d = None \<longleftrightarrow> found = None" by (simp add: selected_def)
  then show ?thesis using l sel \<open>slot \<le> 3\<close> assms(2)
    by (intro exI[of _ buffer'] exI[of _ "?d\<lparr>lc_phase := LoadDone, lc_slots := \<lparr>sl_loaded_slot = lc_selected_slot ?d,
        sl_loaded_generation = lc_selected_generation ?d\<rparr>\<rparr>"])
      (auto simp: finish_slot_cases resume_def selected_def split: option.splits)
qed

lemma load_selects_newest_exists:
  "\<exists>buffer' c. load_session (snd (begin_load slots sequence)) buffer sd (fst (begin_load slots sequence)) =
      Some (Ok (LoadComplete (selection sd (length buffer) = None)), buffer', sd, c) \<and> length buffer' = length buffer \<and>
    lc_target c = (case selection sd (length buffer) of Some (_, s) \<Rightarrow> s | None \<Rightarrow> ReaderState_empty) \<and>
    lc_slots c = (case selection sd (length buffer) of
      Some (slot, s) \<Rightarrow> \<lparr>sl_loaded_slot = Some slot, sl_loaded_generation = rst_generation s\<rparr> | None \<Rightarrow> OwnerStateSlots_new)"
proof -
  let ?c = "fst (begin_load slots sequence)" and ?n = "length buffer"
  let ?s = "\<lambda>slot. ok_option (slot_state sd (length buffer) slot)"
  have start: "snd (begin_load slots sequence) = envelope ScState (lc_expected_sequence ?c) (FileSize (load_slot_name 0))"
    "lc_phase ?c = LoadSize 0" "selected ?c None"
    by (simp_all add: begin_load_def slot_name_def load_slot_name_def selected_def)
  obtain b1 c1 where 1: "load_session (snd (begin_load slots sequence)) buffer sd ?c =
      load_session (envelope ScState (lc_expected_sequence c1) (FileSize (load_slot_name 1))) b1 sd c1"
    "length b1 = ?n" "selected c1 (newest (?s 0) None)" "lc_phase c1 = LoadSize 1"
    using load_slot_next[OF start(2) _ start(3), of "newest (?s 0) None" sd buffer] selected_absorb_first[of _ 0] start(1) by auto
  have finish: ?thesis if h: "load_session (snd (begin_load slots sequence)) buffer sd ?c =
      load_session (envelope ScState (lc_expected_sequence c) (FileSize (load_slot_name slot))) b sd c"
    "length b = ?n" "lc_phase c = LoadSize slot" "slot = 1 \<and> selection sd ?n \<noteq> None \<or> slot = 3" "selected c before"
    "\<And>c. selected c before \<Longrightarrow> selected (absorb slot (slot_state sd (length b) slot) c) (selection sd ?n)" for b c slot before
  proof -
    obtain b' c' where "load_session (envelope ScState (lc_expected_sequence c) (FileSize (load_slot_name slot))) b sd c =
        Some (Ok (LoadComplete (selection sd ?n = None)), b', sd, c')" "length b' = length b" "selected c' (selection sd ?n)"
      "lc_slots c' = \<lparr>sl_loaded_slot = lc_selected_slot c', sl_loaded_generation = lc_selected_generation c'\<rparr>"
      using load_slot_last[OF h(3,4,5,6)] by blast
    then show ?thesis using h(1,2)
      by (intro exI[of _ b'] exI[of _ c']) (auto simp: selected_def OwnerStateSlots_new_def split: option.splits)
  qed
  show ?thesis
  proof (cases "newest (?s 0) (?s 1)")
    case (Some found)
    then have sel: "selection sd ?n = newest (?s 0) (?s 1)" by (simp add: selection_def)
    have "selected (absorb 1 (slot_state sd (length b1) 1) c) (selection sd ?n)" if "selected c (newest (?s 0) None)" for c
      using selected_absorb_second[OF that, of 1 "slot_state sd ?n 1"] 1(2) sel by simp
    then show ?thesis using finish[OF 1(1,2,4) _ 1(3)] Some sel by simp
  next
    case None
    then have sel: "selection sd ?n = newest (?s 2) (?s 3)" by (simp add: selection_def)
    have none: "newest (?s 0) None = None" using None by (simp add: newest_None)
    have second: "selected (absorb 1 (slot_state sd (length b1) 1) c) None" if "selected c (newest (?s 0) None)" for c
      using selected_absorb_second[OF that, of 1 "slot_state sd ?n 1"] 1(2) None by simp
    have third: "selected (absorb 2 (slot_state sd ?n 2) c) (newest (?s 2) None)" if "selected c None" for c
      using selected_absorb_first[OF that, of 2] by simp
    obtain b2 c2 where 2: "load_session (envelope ScState (lc_expected_sequence c1) (FileSize (load_slot_name 1))) b1 sd c1 =
        load_session (envelope ScState (lc_expected_sequence c2) (FileSize (load_slot_name 2))) b2 sd c2"
      "length b2 = ?n" "selected c2 None" "lc_phase c2 = LoadSize 2"
      using load_slot_next[OF 1(4) _ 1(3) second] 1(2) by (auto simp: numeral_2_eq_2)
    then obtain b3 c3 where 3: "load_session (envelope ScState (lc_expected_sequence c2) (FileSize (load_slot_name 2))) b2 sd c2 =
        load_session (envelope ScState (lc_expected_sequence c3) (FileSize (load_slot_name 3))) b3 sd c3"
      "length b3 = ?n" "selected c3 (newest (?s 2) None)" "lc_phase c3 = LoadSize 3"
      using load_slot_next[OF 2(4) _ 2(3) third[folded 2(2)]] 2(2) by (auto simp: numeral_3_eq_3)
    have "selected (absorb 3 (slot_state sd (length b3) 3) c) (selection sd ?n)" if "selected c (newest (?s 2) None)" for c
      using selected_absorb_second[OF that, of 3 "slot_state sd ?n 3"] 3(2) sel by simp
    then show ?thesis using finish[OF _ 3(2,4) _ 3(3)] 1(1) 2(1) 3(1) by simp
  qed
qed

text \<open>C25: Loading the state from a card always completes and selects the newest valid copy: the newer one of the two slots
  by their generation counters, or, if neither is valid, the newer one of the legacy slots, or the empty state with a
  warning; it remembers the slot and the generation for the next save.\<close>

theorem load_selects_newest:
  "\<exists>buffer' c. load_session (snd (begin_load slots sequence)) buffer sd (fst (begin_load slots sequence)) =
      Some (Ok (LoadComplete (selection sd (length buffer) = None)), buffer', sd, c) \<and> length buffer' = length buffer \<and>
    lc_target c = (case selection sd (length buffer) of Some (_, s) \<Rightarrow> s | None \<Rightarrow> ReaderState_empty) \<and>
    lc_slots c = (case selection sd (length buffer) of
      Some (slot, s) \<Rightarrow> \<lparr>sl_loaded_slot = Some slot, sl_loaded_generation = rst_generation s\<rparr> | None \<Rightarrow> OwnerStateSlots_new)"
  by (rule load_selects_newest_exists)

subsection \<open>What saving writes\<close>

abbreviation save_session where
  "save_session \<equiv> session save_accept save_issued"

text \<open>What does not change during a session.\<close>

definition same_save :: "StateSaveClient \<Rightarrow> StateSaveClient \<Rightarrow> bool" where
  "same_save c d \<longleftrightarrow> sv_slots c = sv_slots d \<and> sv_state c = sv_state d \<and> sv_target_slot c = sv_target_slot d \<and>
    sv_next_generation c = sv_next_generation d \<and> sv_used c = sv_used d"

lemma same_save_trans: "same_save c d \<Longrightarrow> same_save d e \<Longrightarrow> same_save c e"
  by (simp add: same_save_def)

lemma save_session_step:
  assumes "card_serve request buffer sd = (Ok response, buffer', sd')"
    "save_accept \<lparr>rs_client = ScState, rs_sequence = sv_expected_sequence c, rs_response = Ok response\<rparr> buffer' c = save_issue next phase c"
  shows "save_session (envelope ScState (sv_expected_sequence c) request) buffer sd c =
    save_session (envelope ScState (sv_next_sequence c) next) buffer' sd'
      (c\<lparr>sv_next_sequence := sv_next_sequence c + 1, sv_expected_sequence := sv_next_sequence c, sv_phase := phase\<rparr>)"
  using session_resume[of "envelope ScState (sv_expected_sequence c) request" buffer sd "Ok response" buffer' sd' save_accept save_issued c] assms
  by (simp add: save_issue_eq resume_def)

lemma write_served:
  assumes "cd_upload sd = Some (name, take offset buffer)" "offset < used" "used \<le> 8872" "used \<le> length buffer"
    "unat len = min (used - offset) 512"
  shows "card_serve (UploadWrite 1 (of_nat offset) (of_nat offset) len BsState True) buffer sd =
    (Ok (RespWritten len), buffer, sd\<lparr>cd_upload := Some (name, take (offset + unat len) buffer)\<rparr>)"
proof -
  have "unat (of_nat offset :: u64) = offset" "unat (of_nat offset :: u16) = offset"
    using assms(2,3) by (simp_all add: unat_of_nat)
  then show ?thesis using assms by (simp add: subslice_def take_add file_write_def overwrite_def)
qed

lemma save_writes:
  assumes "sv_phase c = SaveWrite 1 offset len" "save_inv c" "sv_used c \<le> length buffer" "cd_upload sd = Some (name, take offset buffer)"
  shows "\<exists>c'. save_session (envelope ScState (sv_expected_sequence c) (UploadWrite 1 (of_nat offset) (of_nat offset) len BsState True)) buffer sd c =
      save_session (envelope ScState (sv_expected_sequence c') (UploadCommit 1 True)) buffer
        (sd\<lparr>cd_upload := Some (name, take (sv_used c) buffer)\<rparr>) c' \<and> same_save c c' \<and> sv_phase c' = SaveCommit 1"
  using assms
proof (induction "sv_used c - offset" arbitrary: offset len c sd rule: less_induct)
  case less
  have r: "offset < sv_used c" "sv_used c \<le> 8872" "unat len = min (sv_used c - offset) 512"
    using less.prems(1,2) by (simp_all add: save_inv_def)
  note served = write_served[OF less.prems(4) r(1,2) less.prems(3) r(3)]
  let ?sd = "sd\<lparr>cd_upload := Some (name, take (offset + unat len) buffer)\<rparr>"
  show ?case
  proof (cases "offset + unat len < sv_used c")
    case False
    then have "offset + unat len = sv_used c" using r by simp
    moreover have "save_accept \<lparr>rs_client = ScState, rs_sequence = sv_expected_sequence c, rs_response = Ok (RespWritten len)\<rparr> buffer c =
        save_issue (UploadCommit 1 True) (SaveCommit 1) c"
      using False less.prems(1) by (simp add: save_accept_def uncorrelated_def)
    ultimately show ?thesis using save_session_step[OF served, of c]
      by (intro exI[of _ "c\<lparr>sv_next_sequence := sv_next_sequence c + 1, sv_expected_sequence := sv_next_sequence c, sv_phase := SaveCommit 1\<rparr>"])
        (simp add: same_save_def)
  next
    case True
    let ?next = "offset + unat len" and ?len = "of_nat (min (sv_used c - (offset + unat len)) 512) :: u16"
    let ?c = "c\<lparr>sv_next_sequence := sv_next_sequence c + 1, sv_expected_sequence := sv_next_sequence c, sv_phase := SaveWrite 1 ?next ?len\<rparr>"
    have "save_accept \<lparr>rs_client = ScState, rs_sequence = sv_expected_sequence c, rs_response = Ok (RespWritten len)\<rparr> buffer c =
        save_issue (UploadWrite 1 (of_nat ?next) (of_nat ?next) ?len BsState True) (SaveWrite 1 ?next ?len) c"
      using True less.prems(1) by (simp add: save_accept_def uncorrelated_def save_issue_write_def Let_def)
    note step = save_session_step[OF served this]
    have inv: "save_inv ?c" using True r by (simp add: save_inv_def unat_write_len)
    have closer: "sv_used ?c - ?next < sv_used c - offset" using True r(1,3) by simp
    have upload: "cd_upload ?sd = Some (name, take ?next buffer)" by simp
    obtain c' where "save_session (envelope ScState (sv_expected_sequence ?c) (UploadWrite 1 (of_nat ?next) (of_nat ?next) ?len BsState True)) buffer ?sd ?c =
        save_session (envelope ScState (sv_expected_sequence c') (UploadCommit 1 True)) buffer
        (?sd\<lparr>cd_upload := Some (name, take (sv_used ?c) buffer)\<rparr>) c'" "same_save ?c c'" "sv_phase c' = SaveCommit 1"
      using less.hyps[OF closer _ inv _ upload, of ?len] less.prems(3) by auto
    then show ?thesis using step by (intro exI[of _ c']) (simp add: same_save_def)
  qed
qed

lemma overwrite_same: "offset + n \<le> length buffer \<Longrightarrow> overwrite buffer offset (subslice buffer offset n) = buffer"
  by (simp add: overwrite_def slice_join)

lemma readback_served:
  assumes "cd_files sd name = Some (take used buffer)" "offset < used" "used \<le> 8872" "used \<le> length buffer"
    "unat len = min (used - offset) 4096"
  shows "card_serve (ReadFile name (of_nat offset) (of_nat offset) len BsState) buffer sd = (Ok (RespRead len), buffer, sd)"
proof -
  have "unat (of_nat offset :: u64) = offset" "unat (of_nat offset :: u16) = offset"
    using assms(2,3) by (simp_all add: unat_of_nat)
  moreover have "offset + unat len \<le> used" using assms(2,5) by simp
  ultimately show ?thesis using assms by (simp add: subslice_take overwrite_same file_read_def)
qed

lemma save_reads:
  assumes "sv_phase c = SaveRead offset len" "save_inv c" "sv_used c \<le> length buffer"
    "cd_files sd (slot_name (sv_target_slot c)) = Some (take (sv_used c) buffer)"
  shows "\<exists>c'. save_session (envelope ScState (sv_expected_sequence c)
      (ReadFile (slot_name (sv_target_slot c)) (of_nat offset) (of_nat offset) len BsState)) buffer sd c =
      resume save_accept save_issued buffer sd (save_verify buffer c') \<and> same_save c c'"
  using assms
proof (induction "sv_used c - offset" arbitrary: offset len c rule: less_induct)
  case less
  have r: "offset < sv_used c" "sv_used c \<le> 8872" "unat len = min (sv_used c - offset) 4096"
    using less.prems(1,2) by (simp_all add: save_inv_def)
  note served = readback_served[OF less.prems(4) r(1,2) less.prems(3) r(3)]
  show ?case
  proof (cases "offset + unat len < sv_used c")
    case False
    then have "save_accept \<lparr>rs_client = ScState, rs_sequence = sv_expected_sequence c, rs_response = Ok (RespRead len)\<rparr> buffer c = save_verify buffer c"
      using less.prems(1) by (simp add: save_accept_def uncorrelated_def)
    then show ?thesis
      using session_resume[of "envelope ScState (sv_expected_sequence c) (ReadFile (slot_name (sv_target_slot c)) (of_nat offset) (of_nat offset) len BsState)"
          buffer sd "Ok (RespRead len)" buffer sd save_accept save_issued c] served
      by (intro exI[of _ c]) (simp add: same_save_def)
  next
    case True
    let ?next = "offset + unat len" and ?len = "of_nat (min (sv_used c - (offset + unat len)) 4096) :: u16"
    let ?c = "c\<lparr>sv_next_sequence := sv_next_sequence c + 1, sv_expected_sequence := sv_next_sequence c, sv_phase := SaveRead ?next ?len\<rparr>"
    have "save_accept \<lparr>rs_client = ScState, rs_sequence = sv_expected_sequence c, rs_response = Ok (RespRead len)\<rparr> buffer c =
        save_issue (ReadFile (slot_name (sv_target_slot c)) (of_nat ?next) (of_nat ?next) ?len BsState) (SaveRead ?next ?len) c"
      using True less.prems(1) save_issue_read_eq[of ?next c] r(2) by (simp add: save_accept_def uncorrelated_def Let_def)
    note step = save_session_step[OF served this]
    have inv: "save_inv ?c" using True r by (simp add: save_inv_def unat_read_len)
    have closer: "sv_used ?c - ?next < sv_used c - offset" using True r(1,3) by simp
    obtain c' where "save_session (envelope ScState (sv_expected_sequence ?c)
        (ReadFile (slot_name (sv_target_slot ?c)) (of_nat ?next) (of_nat ?next) ?len BsState)) buffer sd ?c =
        resume save_accept save_issued buffer sd (save_verify buffer c')" "same_save ?c c'"
      using less.hyps[OF closer _ inv, of ?len] less.prems(3,4) by auto
    then show ?thesis using step by (intro exI[of _ c']) (simp add: same_save_def)
  qed
qed

text \<open>The client that \<open>begin_save\<close> makes.\<close>

lemma begin_save_client:
  assumes "begin_save slots s buffer sequence = Ok (c, request, encoded)" "state_wf s"
  obtains slot where "sl_loaded_slot slots \<noteq> Some slot" "slot = 0 \<or> slot = 1" "sl_loaded_slot slots \<in> {None, Some 0, Some 1}"
    "slot = (if sl_loaded_slot slots = Some 0 then 1 else 0)"
    "sv_slots c = slots" "sv_state c = s" "sv_target_slot c = slot" "sv_next_generation c = sl_loaded_generation slots + 1"
    "sv_used c = 72 + length (rst_records s) * 44" "sv_phase c = SaveBegin" "sv_used c \<le> length buffer" "length encoded = length buffer"
    "take (sv_used c) encoded = state_wire (canonical (s\<lparr>rst_generation := sl_loaded_generation slots + 1\<rparr>))"
    "request = envelope ScState (sv_expected_sequence c) (UploadBegin (slot_name slot) (of_nat (sv_used c)) 0 True)"
proof -
  let ?g = "sl_loaded_generation slots + 1" and ?used = "72 + length (rst_records s) * 44"
  obtain slot u where slot: "case sl_loaded_slot slots of None \<Rightarrow> slot = 0 | Some i \<Rightarrow> i = 0 \<and> slot = 1 \<or> i = 1 \<and> slot = 0"
    and e: "state_encode_with_generation ?g s buffer = Ok (u, encoded)"
    and c: "c = \<lparr>sv_slots = slots, sv_state = s, sv_target_slot = slot, sv_next_generation = ?g, sv_used = u,
      sv_phase = SaveBegin, sv_expected_sequence = sequence, sv_next_sequence = sequence + 1\<rparr>"
    and q: "request = envelope ScState sequence (UploadBegin (slot_name slot) (of_nat u) 0 True)"
    using assms(1) by (auto simp: begin_save_def and_then_Ok_iff Let_def split: option.splits if_splits)
  have room: "?used \<le> length buffer"
    using e by (auto simp: state_encode_with_generation_def and_then_Ok_iff Let_def split: if_splits)
  have wire: "length (state_wire (canonical (s\<lparr>rst_generation := ?g\<rparr>))) = ?used"
    using length_state_wire[OF canonical_wf[OF unrelated_fields_wf(1)[OF assms(2), of ?g]]] by (simp add: canonical_def)
  have u: "u = ?used" "encoded = state_wire (canonical (s\<lparr>rst_generation := ?g\<rparr>)) @ drop ?used buffer"
    using state_encode_eq[OF assms(2) room, of ?g] e by simp_all
  have target: "sl_loaded_slot slots \<noteq> Some slot" "slot = 0 \<or> slot = 1" "sl_loaded_slot slots \<in> {None, Some 0, Some 1}"
    "slot = (if sl_loaded_slot slots = Some 0 then 1 else 0)"
    using slot by (auto split: option.splits)
  have fields: "sv_slots c = slots" "sv_state c = s" "sv_target_slot c = slot" "sv_next_generation c = ?g" "sv_used c = ?used"
    "sv_phase c = SaveBegin" "sv_used c \<le> length buffer" "sv_expected_sequence c = sequence" using room by (simp_all add: c u(1))
  show ?thesis by (rule that[OF target fields(1-7)]) (simp_all add: u wire room q fields)
qed

text \<open>What the card holds after a save.\<close>

definition card_after_save :: "OwnerStateSlots \<Rightarrow> ReaderState \<Rightarrow> Card \<Rightarrow> Card" where
  "card_after_save slots s sd =
    sd\<lparr>cd_files := (cd_files sd)(slot_name (if sl_loaded_slot slots = Some 0 then 1 else 0) \<mapsto>
        state_wire (canonical (s\<lparr>rst_generation := sl_loaded_generation slots + 1\<rparr>))), cd_upload := None\<rparr>"

lemma save_session_eq:
  assumes "begin_save slots s buffer sequence = Ok (c, request, encoded)" "state_wf s" "cd_upload sd = None"
  shows "\<exists>c'. save_session request encoded sd c = Some (Ok SaveComplete, encoded, card_after_save slots s sd, c') \<and>
    sv_state c' = canonical (s\<lparr>rst_generation := sl_loaded_generation slots + 1\<rparr>) \<and>
    sv_slots c' = \<lparr>sl_loaded_slot = Some (sv_target_slot c), sl_loaded_generation = sl_loaded_generation slots + 1\<rparr>"
proof -
  let ?g = "sl_loaded_generation slots + 1"
  obtain slot where c: "slot = (if sl_loaded_slot slots = Some 0 then 1 else 0)"
    "sv_slots c = slots" "sv_state c = s" "sv_target_slot c = slot" "sv_next_generation c = ?g"
    "sv_used c = 72 + length (rst_records s) * 44" "sv_phase c = SaveBegin" "sv_used c \<le> length buffer" "length encoded = length buffer"
    "take (sv_used c) encoded = state_wire (canonical (s\<lparr>rst_generation := ?g\<rparr>))"
    "request = envelope ScState (sv_expected_sequence c) (UploadBegin (slot_name slot) (of_nat (sv_used c)) 0 True)"
    using begin_save_client[OF assms(1,2)] by metis
  have used: "0 < sv_used c" "sv_used c \<le> 8872" "sv_used c \<le> length encoded" using c(6,8,9) assms(2) by (simp_all add: state_wf_def)
  let ?len = "of_nat (min (sv_used c) 512) :: u16"
  let ?c1 = "c\<lparr>sv_next_sequence := sv_next_sequence c + 1, sv_expected_sequence := sv_next_sequence c, sv_phase := SaveWrite 1 0 ?len\<rparr>"
  let ?sd1 = "sd\<lparr>cd_upload := Some (slot_name slot, [])\<rparr>"
  have begun: "save_session request encoded sd c =
      save_session (envelope ScState (sv_expected_sequence ?c1) (UploadWrite 1 (of_nat 0) (of_nat 0) ?len BsState True)) encoded ?sd1 ?c1"
    using save_session_step[of "UploadBegin (slot_name slot) (of_nat (sv_used c)) 0 True" encoded sd "UploadStarted 1" encoded ?sd1 c]
      c(7,11) assms(3) by (simp add: save_accept_def uncorrelated_def save_issue_write_def Let_def)
  have "save_inv ?c1" using used unat_write_len[of "sv_used c"] by (simp add: save_inv_def)
  then obtain c2 where c2: "save_session request encoded sd c =
      save_session (envelope ScState (sv_expected_sequence c2) (UploadCommit 1 True)) encoded
        (?sd1\<lparr>cd_upload := Some (slot_name slot, take (sv_used c) encoded)\<rparr>) c2" "same_save ?c1 c2" "sv_phase c2 = SaveCommit 1"
    using save_writes[of ?c1 0 ?len encoded ?sd1 "slot_name slot"] used begun by auto
  have same: "same_save c c2" using c2(2) by (simp add: same_save_def)
  then have fields: "sv_used c2 = sv_used c" "sv_target_slot c2 = slot" using c(4) by (simp_all add: same_save_def)
  let ?sd2 = "card_after_save slots s sd"
  let ?len2 = "of_nat (min (sv_used c) 4096) :: u16"
  let ?c3 = "c2\<lparr>sv_next_sequence := sv_next_sequence c2 + 1, sv_expected_sequence := sv_next_sequence c2, sv_phase := SaveRead 0 ?len2\<rparr>"
  have "save_accept \<lparr>rs_client = ScState, rs_sequence = sv_expected_sequence c2, rs_response = Ok Ack\<rparr> encoded c2 = save_issue_read 0 c2"
    using c2(3) by (simp add: save_accept_def uncorrelated_def)
  also have "\<dots> = save_issue (ReadFile (slot_name slot) (of_nat 0) (of_nat 0) ?len2 BsState) (SaveRead 0 ?len2) c2"
    using save_issue_read_eq[of 0 c2] used fields by simp
  finally have accepted: "save_accept \<lparr>rs_client = ScState, rs_sequence = sv_expected_sequence c2, rs_response = Ok Ack\<rparr> encoded c2 =
      save_issue (ReadFile (slot_name slot) (of_nat 0) (of_nat 0) ?len2 BsState) (SaveRead 0 ?len2) c2" .
  have committed: "card_serve (UploadCommit 1 True) encoded (?sd1\<lparr>cd_upload := Some (slot_name slot, take (sv_used c) encoded)\<rparr>) = (Ok Ack, encoded, ?sd2)"
    using c(1,10) by (simp add: card_after_save_def)
  have rb: "save_session request encoded sd c =
      save_session (envelope ScState (sv_expected_sequence ?c3) (ReadFile (slot_name (sv_target_slot ?c3)) (of_nat 0) (of_nat 0) ?len2 BsState)) encoded ?sd2 ?c3"
    unfolding c2(1) using save_session_step[OF committed accepted] fields by simp
  have "save_inv ?c3" using used unat_read_len[of "sv_used c"] fields by (simp add: save_inv_def)
  then obtain c4 where c4: "save_session request encoded sd c = resume save_accept save_issued encoded ?sd2 (save_verify encoded c4)" "same_save ?c3 c4"
    using save_reads[of ?c3 0 ?len2 encoded ?sd2] used fields rb c(1,10) by (auto simp: card_after_save_def)
  have f: "sv_used c4 = sv_used c" "sv_state c4 = s" "sv_next_generation c4 = ?g" "sv_target_slot c4 = slot"
  proof -
    have "same_save c c4" using same c4(2) by (simp add: same_save_def)
    then show "sv_used c4 = sv_used c" "sv_state c4 = s" "sv_next_generation c4 = ?g" "sv_target_slot c4 = slot"
      using c(3,4,5) by (simp_all add: same_save_def)
  qed
  have wf: "state_wf (canonical (s\<lparr>rst_generation := ?g\<rparr>))" by (rule canonical_wf[OF unrelated_fields_wf(1)[OF assms(2)]])
  have "matches_except_generation s (canonical (s\<lparr>rst_generation := ?g\<rparr>))" "rst_generation (canonical (s\<lparr>rst_generation := ?g\<rparr>)) = ?g"
    using canonical_matches[of s] by (simp_all add: matches_except_generation_def canonical_def)
  then have "save_verify encoded c4 = (Ok SaveComplete, c4\<lparr>sv_state := canonical (s\<lparr>rst_generation := ?g\<rparr>),
      sv_slots := \<lparr>sl_loaded_slot = Some slot, sl_loaded_generation = ?g\<rparr>, sv_phase := SaveDone\<rparr>)"
    using used(3) by (simp add: save_verify_def f c(10) state_decode_wire[OF wf])
  then show ?thesis using c4(1) c(4) by (simp add: resume_def)
qed

lemma slot_names_distinct: "load_slot_name 0 \<noteq> load_slot_name 1"
  by (simp add: load_slot_name_def STATE_SLOT_A_def STATE_SLOT_B_def ascii_def)

lemma newest_slot: "newest a b = Some (i, s) \<Longrightarrow> i = 0 \<and> a = Some s \<or> i = 1 \<and> b = Some s"
  by (auto simp: newest_def select_newer_def split: option.splits if_splits)

text \<open>The copy that a save writes is the newest one.\<close>

lemma selection_after_save:
  assumes wf: "state_wf s" and n: "MAX_STATE_BYTES \<le> n"
    and slots: "slots = (case selection sd n of
      Some (slot, old) \<Rightarrow> \<lparr>sl_loaded_slot = Some slot, sl_loaded_generation = rst_generation old\<rparr> | None \<Rightarrow> OwnerStateSlots_new)"
  shows "\<exists>slot. selection (card_after_save slots s sd) n = Some (slot, canonical (s\<lparr>rst_generation := sl_loaded_generation slots + 1\<rparr>))"
proof -
  let ?new = "canonical (s\<lparr>rst_generation := sl_loaded_generation slots + 1\<rparr>)" and ?sd = "card_after_save slots s sd"
  let ?old = "\<lambda>slot. ok_option (slot_state sd n slot)"
  have wfn: "state_wf ?new" by (rule canonical_wf[OF unrelated_fields_wf(1)[OF wf]])
  have "length (state_wire ?new) = 72 + length (rst_records ?new) * 44" "length (rst_records ?new) \<le> 200"
    using length_state_wire[OF wfn] wfn by (simp_all add: state_wf_def)
  then have len: "72 \<le> length (state_wire ?new)" "length (state_wire ?new) \<le> 8872" "length (state_wire ?new) \<le> n"
    using n by (simp_all add: MAX_STATE_BYTES_def)
  have written: "ok_option (slot_state ?sd n slot) = (if slot = (if sl_loaded_slot slots = Some 0 then 1 else 0) then Some ?new else ?old slot)"
    if "slot = 0 \<or> slot = 1" for slot
    using that slot_names_distinct len
    by (auto simp: slot_state_def card_after_save_def slot_name_def load_slot_name_def state_decode_wire[OF wfn])
  have gen: "rst_generation ?new = sl_loaded_generation slots + 1" by (simp add: canonical_def)
  show ?thesis
  proof (cases "newest (?old 0) (?old 1)")
    case None
    then have "?old 0 = None" "?old 1 = None" by (simp_all add: newest_None)
    then show ?thesis using written[of 0] written[of 1]
      by (cases "sl_loaded_slot slots = Some 0") (auto simp: selection_def newest_def select_newer_def)
  next
    case (Some found)
    obtain i old where found: "found = (i, old)" by (cases found)
    then have s: "sl_loaded_slot slots = Some i" "sl_loaded_generation slots = rst_generation old"
      using slots Some by (simp_all add: selection_def)
    consider "i = 0" "?old 0 = Some old" | "i = 1" "?old 1 = Some old" using newest_slot Some found by blast
    then show ?thesis
    proof cases
      case 1
      then have "newest (ok_option (slot_state ?sd n 0)) (ok_option (slot_state ?sd n 1)) = Some (1, ?new)"
        using written[of 0] written[of 1] s gen by (simp add: newest_def select_newer_def)
      then show ?thesis by (simp add: selection_def)
    next
      case 2
      have "\<not> rst_generation old - rst_generation ?new < 0x80000000" using gen s by simp
      then have "newest (ok_option (slot_state ?sd n 0)) (ok_option (slot_state ?sd n 1)) = Some (0, ?new)"
        using 2 written[of 0] written[of 1] s by (simp add: newest_def select_newer_def)
      then show ?thesis by (simp add: selection_def)
    qed
  qed
qed

text \<open>C24: Nothing is lost between two sessions: if a reader loads its state from a card, whatever files that holds, while no
  upload is open on it, and then saves a well-formed state, the save begins (also when a copy was loaded), is verified and
  completes; it leaves every other file of the card alone, in particular the slot that was loaded, and the next load gives
  the saved state, with every book on the page it had.\<close>

theorem saved_state_is_loaded:
  assumes "load_session (snd (begin_load slots sequence)) buffer sd (fst (begin_load slots sequence)) = Some (result, buffer1, sd1, c)"
    and "state_wf s" and "MAX_STATE_BYTES \<le> length buffer" and "cd_upload sd = None"
  shows "\<exists>d request encoded d' sd2 name buffer2 e. begin_save (lc_slots c) s buffer1 sequence1 = Ok (d, request, encoded) \<and>
    save_session request encoded sd1 d = Some (Ok SaveComplete, encoded, sd2, d') \<and>
    (\<forall>other. other \<noteq> name \<longrightarrow> cd_files sd2 other = cd_files sd other) \<and>
    (case sl_loaded_slot (lc_slots c) of Some slot \<Rightarrow> name \<noteq> slot_name slot | None \<Rightarrow> True) \<and>
    load_session (snd (begin_load (sv_slots d') sequence2)) encoded sd2 (fst (begin_load (sv_slots d') sequence2)) =
      Some (Ok (LoadComplete False), buffer2, sd2, e) \<and>
    matches_except_generation s (lc_target e) \<and>
    (\<forall>filename rendition. lookup_page filename rendition (lc_target e) = lookup_page filename rendition s)"
proof -
  let ?n = "length buffer"
  obtain b' c' where "load_session (snd (begin_load slots sequence)) buffer sd (fst (begin_load slots sequence)) =
      Some (Ok (LoadComplete (selection sd ?n = None)), b', sd, c')" "length b' = ?n"
    "lc_slots c' = (case selection sd ?n of
      Some (slot, s) \<Rightarrow> \<lparr>sl_loaded_slot = Some slot, sl_loaded_generation = rst_generation s\<rparr> | None \<Rightarrow> OwnerStateSlots_new)"
    using load_selects_newest_exists by blast
  then have l: "sd1 = sd" "length buffer1 = ?n" "lc_slots c = (case selection sd ?n of
      Some (slot, s) \<Rightarrow> \<lparr>sl_loaded_slot = Some slot, sl_loaded_generation = rst_generation s\<rparr> | None \<Rightarrow> OwnerStateSlots_new)"
    using assms(1) by auto
  have "sl_loaded_slot (lc_slots c) \<in> {None, Some 0, Some 1}"
    using l(3) newest_slot
    by (auto simp: selection_def OwnerStateSlots_new_def split: option.splits)
  then obtain d request encoded where begun: "begin_save (lc_slots c) s buffer1 sequence1 = Ok (d, request, encoded)"
    using begin_save_succeeds[OF assms(2), of buffer1 "lc_slots c" sequence1] assms(3) l(2) by auto
  let ?new = "canonical (s\<lparr>rst_generation := sl_loaded_generation (lc_slots c) + 1\<rparr>)" and ?sd = "card_after_save (lc_slots c) s sd"
  obtain d' where saved: "save_session request encoded sd1 d = Some (Ok SaveComplete, encoded, ?sd, d')"
    using save_session_eq[OF begun assms(2,4)] l(1) by blast
  obtain slot where client: "sl_loaded_slot (lc_slots c) \<noteq> Some slot" "sl_loaded_slot (lc_slots c) \<in> {None, Some 0, Some 1}"
    "slot = (if sl_loaded_slot (lc_slots c) = Some 0 then 1 else 0)" "length encoded = length buffer1"
    using begin_save_client[OF begun assms(2)] by metis
  have sel: "\<exists>slot. selection ?sd (length encoded) = Some (slot, ?new)"
    using selection_after_save[OF assms(2,3) l(3)] client(4) l(2) by simp
  then obtain buffer2 e where loaded: "load_session (snd (begin_load (sv_slots d') sequence2)) encoded ?sd (fst (begin_load (sv_slots d') sequence2)) =
      Some (Ok (LoadComplete False), buffer2, ?sd, e)" "lc_target e = ?new"
    using load_selects_newest_exists[of "sv_slots d'" sequence2 encoded ?sd] by auto
  have "case sl_loaded_slot (lc_slots c) of Some slot' \<Rightarrow> slot_name slot \<noteq> slot_name slot' | None \<Rightarrow> True"
    using client(1,2,3) slot_names_distinct by (auto simp: slot_name_def load_slot_name_def split: option.splits)
  moreover have "\<forall>other. other \<noteq> slot_name slot \<longrightarrow> cd_files ?sd other = cd_files sd other"
    using client(3) by (auto simp: card_after_save_def)
  moreover have "matches_except_generation s ?new"
    using canonical_matches[of s] by (simp add: matches_except_generation_def canonical_def)
  moreover have "lookup_page f h ?new = lookup_page f h s" for f h
    using lookup_page_canonical[of "s\<lparr>rst_generation := sl_loaded_generation (lc_slots c) + 1\<rparr>"] assms(2)
    by (simp add: state_wf_def lookup_page_def)
  ultimately show ?thesis using begun saved loaded
    by (intro exI[of _ d] exI[of _ request] exI[of _ encoded] exI[of _ d'] exI[of _ ?sd] exI[of _ "slot_name slot"]
        exI[of _ buffer2] exI[of _ e]) simp
qed

text \<open>A card on which the first slot holds the empty state.\<close>

definition stored_card :: Card where
  "stored_card = \<lparr>cd_files = (\<lambda>name. if name = load_slot_name 0 then Some (state_wire ReaderState_empty) else None),
    cd_upload = None, cd_batches = [], cd_scan = None, cd_scratch = None\<rparr>"

lemma stored_card_selection: "selection stored_card 8872 = Some (0, ReaderState_empty)"
proof -
  have wf: "state_wf ReaderState_empty" by (simp add: ReaderState_empty_def state_wf_def validate_mode_state_def)
  have len: "length (state_wire ReaderState_empty) = 72"
    using length_state_wire[OF wf] by (simp add: ReaderState_empty_def)
  have "slot_state stored_card 8872 0 = Ok ReaderState_empty"
    using state_decode_wire[OF wf] len by (simp add: slot_state_def stored_card_def)
  moreover have "slot_state stored_card 8872 1 = Err StLength"
    using slot_names_distinct by (simp add: slot_state_def stored_card_def)
  ultimately show ?thesis by (simp add: selection_def newest_def select_newer_def)
qed

lemma saved_state_is_loaded_witness:
  "\<exists>buffer1 c d request encoded sd2 d' buffer2 e.
    load_session (snd (begin_load OwnerStateSlots_new 1)) (replicate 8872 0) stored_card (fst (begin_load OwnerStateSlots_new 1)) =
      Some (Ok (LoadComplete False), buffer1, stored_card, c) \<and> sl_loaded_slot (lc_slots c) = Some 0 \<and>
    begin_save (lc_slots c) sample_state buffer1 5 = Ok (d, request, encoded) \<and>
    save_session request encoded stored_card d = Some (Ok SaveComplete, encoded, sd2, d') \<and>
    cd_files sd2 (load_slot_name 0) = cd_files stored_card (load_slot_name 0) \<and>
    load_session (snd (begin_load (sv_slots d') 9)) encoded sd2 (fst (begin_load (sv_slots d') 9)) =
      Some (Ok (LoadComplete False), buffer2, sd2, e) \<and>
    lookup_page 7 (replicate 32 1) (lc_target e) = Some 12"
proof -
  have room: "MAX_STATE_BYTES \<le> length (replicate 8872 (0 :: u8))" "cd_upload stored_card = None"
    by (simp_all add: MAX_STATE_BYTES_def stored_card_def)
  obtain buffer1 c where l: "load_session (snd (begin_load OwnerStateSlots_new 1)) (replicate 8872 0) stored_card
      (fst (begin_load OwnerStateSlots_new 1)) = Some (Ok (LoadComplete False), buffer1, stored_card, c)"
    "sl_loaded_slot (lc_slots c) = Some 0"
    using load_selects_newest_exists[of OwnerStateSlots_new 1 "replicate 8872 0" stored_card] stored_card_selection by auto
  from saved_state_is_loaded[OF l(1) sample_state_wf room, of 5 9]
  obtain d request encoded and d' :: StateSaveClient and sd2 name buffer2 e where
    s: "begin_save (lc_slots c) sample_state buffer1 5 = Ok (d, request, encoded)"
    "save_session request encoded stored_card d = Some (Ok SaveComplete, encoded, sd2, d')"
    "\<forall>other. other \<noteq> name \<longrightarrow> cd_files sd2 other = cd_files stored_card other"
    "case sl_loaded_slot (lc_slots c) of Some slot \<Rightarrow> name \<noteq> slot_name slot | None \<Rightarrow> True"
    "load_session (snd (begin_load (sv_slots d') 9)) encoded sd2 (fst (begin_load (sv_slots d') 9)) =
      Some (Ok (LoadComplete False), buffer2, sd2, e)"
    "\<forall>filename rendition. lookup_page filename rendition (lc_target e) = lookup_page filename rendition sample_state"
    by (elim exE conjE) (rule that; assumption)
  have "cd_files sd2 (load_slot_name 0) = cd_files stored_card (load_slot_name 0)"
    using s(3,4) l(2) by (simp add: slot_name_def load_slot_name_def)
  moreover have "lookup_page 7 (replicate 32 1) (lc_target e) = Some 12" using s(6) sample_state_page by simp
  ultimately show ?thesis using l s(1,2,5)
    by (intro exI[of _ buffer1] exI[of _ c] exI[of _ d] exI[of _ request] exI[of _ encoded] exI[of _ sd2] exI[of _ d']
        exI[of _ buffer2] exI[of _ e]) simp
qed

end
