(* ===== verification/Reader_Input.thy ===== *)
theory Reader_Input
  imports Prelude Machine
begin

text \<open>
  The controls of the reader: the buttons and their debouncing (\<^verbatim>\<open>input.rs\<close>) and the menu (\<^verbatim>\<open>menu.rs\<close>),
  in the configuration with an SD card.  List positions are naturals.
\<close>

subsection \<open>Buttons\<close>

datatype Button = BtnLeft | BtnRight | BtnUp | BtnDown | BtnBack | BtnSelect | BtnPower

datatype PageTurn = TurnPrevious | TurnNext | TurnFirst | TurnLast

definition page_turn_for_button :: "Button \<Rightarrow> PageTurn option" where
  "page_turn_for_button button =
    (case button of
       BtnRight \<Rightarrow> Some TurnNext
     | BtnDown \<Rightarrow> Some TurnNext
     | BtnLeft \<Rightarrow> Some TurnPrevious
     | BtnUp \<Rightarrow> Some TurnPrevious
     | _ \<Rightarrow> None)"

definition target_page_for_button :: "Button \<Rightarrow> PageTurn" where
  "target_page_for_button button =
    (case button of
       BtnRight \<Rightarrow> TurnNext
     | BtnDown \<Rightarrow> TurnNext
     | BtnLeft \<Rightarrow> TurnPrevious
     | BtnUp \<Rightarrow> TurnPrevious
     | BtnBack \<Rightarrow> TurnFirst
     | BtnSelect \<Rightarrow> TurnLast
     | BtnPower \<Rightarrow> TurnNext)"

definition apply_page_turn :: "u32 \<Rightarrow> u32 \<Rightarrow> PageTurn \<Rightarrow> u32" where
  "apply_page_turn current_page page_count turn =
    (if page_count = 0 then 0
     else
       case turn of
         TurnNext \<Rightarrow> min (saturating_add current_page 1) (page_count - 1)
       | TurnPrevious \<Rightarrow> saturating_sub current_page 1
       | TurnFirst \<Rightarrow> 0
       | TurnLast \<Rightarrow> page_count - 1)"

datatype ButtonEvent = EvPress Button | EvRelease Button

datatype InputDecision = Unchanged | Press Button | Released | SuppressedByCooldown "Button option" u32

record InputPollOutcome =
  ip_previous :: "Button option"
  ip_observed :: "Button option"
  ip_elapsed_since_last_press_ms :: u32
  ip_decision :: InputDecision

record LadderState =
  la_candidate :: "Button option"
  la_candidate_since_ms :: u64
  la_stable :: "Button option"

definition LadderState_new :: LadderState where
  "LadderState_new = \<lparr>la_candidate = None, la_candidate_since_ms = 0, la_stable = None\<rparr>"

definition DEBOUNCE_MS :: u32 where "DEBOUNCE_MS = 30"

definition ladder_update :: "Button option \<Rightarrow> u64 \<Rightarrow> LadderState \<Rightarrow> LadderState" where
  "ladder_update observed now_ms s =
    (if observed \<noteq> la_candidate s then s\<lparr>la_candidate := observed, la_candidate_since_ms := now_ms\<rparr>
     else
       let elapsed = saturating_sub now_ms (la_candidate_since_ms s) in
       if elapsed \<ge> ucast DEBOUNCE_MS then s\<lparr>la_stable := observed\<rparr> else s)"

record InputState =
  in_raw_button :: "Button option"
  in_reported_button :: "Button option"
  in_last_decision_time :: u64
  in_ch1 :: LadderState
  in_ch2 :: LadderState

definition InputState_new :: InputState where
  "InputState_new = \<lparr>in_raw_button = None, in_reported_button = None, in_last_decision_time = 0, in_ch1 = LadderState_new,
    in_ch2 = LadderState_new\<rparr>"

definition X4_LADDER_LOW_MAX :: u16 where "X4_LADDER_LOW_MAX = 750"
definition X4_CH1_LEFT_MAX :: u16 where "X4_CH1_LEFT_MAX = 1750"
definition X4_CH1_SELECT_MAX :: u16 where "X4_CH1_SELECT_MAX = 3000"
definition X4_CH1_BACK_MAX :: u16 where "X4_CH1_BACK_MAX = 3800"
definition X4_CH2_UP_MAX :: u16 where "X4_CH2_UP_MAX = 2400"

definition decode_ch1_button :: "u16 \<Rightarrow> Button option" where
  "decode_ch1_button ch1 =
    (if ch1 \<le> X4_LADDER_LOW_MAX then Some BtnRight
     else if ch1 \<le> X4_CH1_LEFT_MAX then Some BtnLeft
     else if ch1 \<le> X4_CH1_SELECT_MAX then Some BtnSelect
     else if ch1 \<le> X4_CH1_BACK_MAX then Some BtnBack
     else None)"

definition decode_ch2_button :: "u16 \<Rightarrow> Button option" where
  "decode_ch2_button ch2 =
    (if ch2 \<le> X4_LADDER_LOW_MAX then Some BtnDown else if ch2 \<le> X4_CH2_UP_MAX then Some BtnUp else None)"

text \<open>\<open>Option::or\<close>\<close>

fun option_or :: "'a option \<Rightarrow> 'a option \<Rightarrow> 'a option" where
  "option_or (Some x) y = Some x"
| "option_or None y = y"

definition decode_buttons :: "u16 \<Rightarrow> u16 \<Rightarrow> Button option" where
  "decode_buttons ch1 ch2 = option_or (decode_ch1_button ch1) (decode_ch2_button ch2)"

definition poll_raw_detailed :: "u16 \<Rightarrow> u16 \<Rightarrow> u64 \<Rightarrow> InputState \<Rightarrow> InputPollOutcome \<times> InputState" where
  "poll_raw_detailed ch1 ch2 now_ms s =
    (let previous = in_raw_button s;
         raw_ch1 = decode_ch1_button ch1;
         raw_ch2 = decode_ch2_button ch2;
         raw_observed = option_or raw_ch1 raw_ch2;
         s = s\<lparr>in_raw_button := raw_observed, in_ch1 := ladder_update raw_ch1 now_ms (in_ch1 s),
               in_ch2 := ladder_update raw_ch2 now_ms (in_ch2 s)\<rparr>;
         debounced_observed = option_or (la_stable (in_ch1 s)) (la_stable (in_ch2 s));
         elapsed = saturating_sub now_ms (in_last_decision_time s);
         elapsed_ms = (ucast (min elapsed 0xFFFFFFFF) :: u32);
         (decision, s) =
           (if debounced_observed = in_reported_button s then (Unchanged, s)
            else
              (case debounced_observed of Some button \<Rightarrow> Press button | None \<Rightarrow> Released,
               s\<lparr>in_last_decision_time := now_ms, in_reported_button := debounced_observed\<rparr>))
     in (\<lparr>ip_previous = previous, ip_observed = raw_observed, ip_elapsed_since_last_press_ms = elapsed_ms,
          ip_decision = decision\<rparr>, s))"

definition poll_raw :: "u16 \<Rightarrow> u16 \<Rightarrow> u64 \<Rightarrow> InputState \<Rightarrow> ButtonEvent option \<times> InputState" where
  "poll_raw ch1 ch2 now_ms s =
    (let (outcome, s) = poll_raw_detailed ch1 ch2 now_ms s in
     (case ip_decision outcome of Press button \<Rightarrow> Some (EvPress button) | _ \<Rightarrow> None, s))"

subsection \<open>The menu\<close>

datatype MenuAction = MenuActNext | MenuActPrevious | MenuActOpen nat | MenuActNoOp

definition VIEWPORT_ROWS :: nat where "VIEWPORT_ROWS = 5"

record MenuState =
  ms_top :: nat
  ms_selected :: nat
  ms_count :: nat

definition MenuState_new :: "nat \<Rightarrow> MenuState" where
  "MenuState_new count = \<lparr>ms_top = 0, ms_selected = 0, ms_count = count\<rparr>"

definition menu_selected_row :: "MenuState \<Rightarrow> nat" where
  "menu_selected_row m = ms_selected m - ms_top m"

definition menu_is_visible :: "nat \<Rightarrow> MenuState \<Rightarrow> bool" where
  "menu_is_visible index m = (ms_top m \<le> index \<and> index < ms_top m + VIEWPORT_ROWS \<and> index < ms_count m)"

definition menu_visible_count :: "MenuState \<Rightarrow> nat" where
  "menu_visible_count m = min VIEWPORT_ROWS (ms_count m - ms_top m)"

definition menu_reset :: "nat \<Rightarrow> MenuState \<Rightarrow> MenuState" where
  "menu_reset count m = m\<lparr>ms_top := 0, ms_selected := 0, ms_count := count\<rparr>"

definition menu_restore_selected :: "nat \<Rightarrow> MenuState \<Rightarrow> MenuState" where
  "menu_restore_selected index m =
    (if ms_count m = 0 then m\<lparr>ms_top := 0, ms_selected := 0\<rparr>
     else
       let m = m\<lparr>ms_selected := min index (ms_count m - 1)\<rparr> in
       m\<lparr>ms_top := ms_selected m - (VIEWPORT_ROWS - 1)\<rparr>)"

definition menu_transition :: "MenuAction \<Rightarrow> MenuState \<Rightarrow> MenuAction \<times> MenuState" where
  "menu_transition action m =
    (if ms_count m = 0 then (MenuActNoOp, m)
     else
       case action of
         MenuActNext \<Rightarrow>
           let m = (if ms_selected m + 1 < ms_count m then m\<lparr>ms_selected := ms_selected m + 1\<rparr>
                    else m\<lparr>ms_selected := 0, ms_top := 0\<rparr>)
           in (MenuActNext,
               if ms_selected m \<ge> ms_top m + VIEWPORT_ROWS then m\<lparr>ms_top := ms_selected m + 1 - VIEWPORT_ROWS\<rparr> else m)
       | MenuActPrevious \<Rightarrow>
           let m = (if ms_selected m > 0 then m\<lparr>ms_selected := ms_selected m - 1\<rparr>
                    else m\<lparr>ms_selected := ms_count m - 1, ms_top := ms_count m - VIEWPORT_ROWS\<rparr>)
           in (MenuActPrevious, if ms_selected m < ms_top m then m\<lparr>ms_top := ms_selected m\<rparr> else m)
       | MenuActOpen _ \<Rightarrow> (MenuActOpen (ms_selected m), m)
       | MenuActNoOp \<Rightarrow> (MenuActNoOp, m))"

subsection \<open>Requests to the display\<close>

datatype PageRefreshMode = RefreshBalanced | RefreshFast

definition MODE_MENU :: u8 where "MODE_MENU = 0"
definition MODE_READING :: u8 where "MODE_READING = 1"
definition MODE_OPEN_ERROR :: u8 where "MODE_OPEN_ERROR = 2"

datatype DisplayProbeKind =
    FullRefreshCurrent | ClearWhite | WindowCorners | PartialWindowBusyMatrix | CustomLutFastA | CustomLutFastB

datatype DisplayRequest =
    DqTurn PageTurn "u16 option"
  | DqGoto u32 u16
  | DqSetRefreshMode PageRefreshMode u16
  | DqProbe DisplayProbeKind u16
  | DqMenuNext "u16 option"
  | DqMenuPrev "u16 option"
  | DqMenuSelect "u16 option"
  | DqMenuBack "u16 option"

definition button_to_request :: "Button \<Rightarrow> u8 \<Rightarrow> DisplayRequest option" where
  "button_to_request button mode =
    (if mode = MODE_MENU then
       (case button of
          BtnUp \<Rightarrow> Some (DqMenuPrev None)
        | BtnLeft \<Rightarrow> Some (DqMenuPrev None)
        | BtnDown \<Rightarrow> Some (DqMenuNext None)
        | BtnRight \<Rightarrow> Some (DqMenuNext None)
        | BtnSelect \<Rightarrow> Some (DqMenuSelect None)
        | _ \<Rightarrow> None)
     else if mode = MODE_READING then
       (case button of
          BtnUp \<Rightarrow> Some (DqTurn TurnPrevious None)
        | BtnLeft \<Rightarrow> Some (DqTurn TurnPrevious None)
        | BtnDown \<Rightarrow> Some (DqTurn TurnNext None)
        | BtnRight \<Rightarrow> Some (DqTurn TurnNext None)
        | BtnSelect \<Rightarrow> Some (DqMenuBack None)
        | BtnBack \<Rightarrow> Some (DqMenuBack None)
        | BtnPower \<Rightarrow> None)
     else if mode = MODE_OPEN_ERROR then
       (case button of
          BtnSelect \<Rightarrow> Some (DqMenuSelect None)
        | BtnBack \<Rightarrow> Some (DqMenuBack None)
        | _ \<Rightarrow> None)
     else None)"

definition activation_input_mode :: "DisplayRequest \<Rightarrow> u8 option" where
  "activation_input_mode request =
    (case request of DqMenuSelect _ \<Rightarrow> Some MODE_READING | DqMenuBack _ \<Rightarrow> Some MODE_MENU | _ \<Rightarrow> None)"

subsection \<open>Pages stay in range\<close>

lemma apply_page_turn_in_range: "page_count \<noteq> 0 \<Longrightarrow> current < page_count \<Longrightarrow> apply_page_turn current page_count turn < page_count"
proof -
  assume c: "page_count \<noteq> 0" "current < page_count"
  have "unat (page_count - 1) = unat page_count - 1" using c(1) by (simp add: unat_minus_one)
  then have p: "page_count - 1 < page_count" using c(1) by (simp add: word_less_nat_alt unat_gt_0)
  have "saturating_sub current 1 \<le> current" by (simp add: word_le_nat_alt unat_saturating_sub)
  then show ?thesis using c p
    by (cases turn) (auto simp: apply_page_turn_def word_gt_0 min_def)
qed

subsection \<open>Debouncing\<close>

text \<open>
  What debouncing means, for the polls of one channel with what the ladder decoded and when: the reading settles at poll
  \<open>j\<close> if the polls from \<open>i\<close>, where the reading changed last, to \<open>j\<close> span at least 30 ms.  The debounced reading is that of
  the last poll at which it settled.
\<close>

definition run_from :: "(Button option \<times> u64) list \<Rightarrow> nat \<Rightarrow> nat \<Rightarrow> bool" where
  "run_from rs i j \<longleftrightarrow> list_all (\<lambda>k. fst (rs ! k) = fst (rs ! j)) [i..<j] \<and> (i = 0 \<or> fst (rs ! (i - 1)) \<noteq> fst (rs ! j))"

definition settles :: "(Button option \<times> u64) list \<Rightarrow> nat \<Rightarrow> bool" where
  "settles rs j \<longleftrightarrow> list_ex (\<lambda>i. run_from rs i j \<and> unat (snd (rs ! i)) + 30 \<le> unat (snd (rs ! j))) [0..<Suc j]"

definition settled :: "(Button option \<times> u64) list \<Rightarrow> Button option" where
  "settled rs = (let js = filter (settles rs) [0..<length rs] in if js = [] then None else fst (rs ! last js))"

lemma run_from_iff: "run_from rs i j \<longleftrightarrow> (\<forall>k. i \<le> k \<and> k < j \<longrightarrow> fst (rs ! k) = fst (rs ! j)) \<and> (i = 0 \<or> fst (rs ! (i - 1)) \<noteq> fst (rs ! j))"
  by (simp add: run_from_def list_all_iff Ball_def)

lemma settles_iff: "settles rs j \<longleftrightarrow> (\<exists>i\<le>j. run_from rs i j \<and> unat (snd (rs ! i)) + 30 \<le> unat (snd (rs ! j)))"
  by (simp add: settles_def list_ex_iff Bex_def less_Suc_eq_le del: upt_Suc)

lemma run_from_append:
  assumes "i \<le> j" "j < length rs"
  shows "run_from (rs @ xs) i j \<longleftrightarrow> run_from rs i j"
proof -
  have "(rs @ xs) ! k = rs ! k" if "k \<le> j" for k using that assms(2) by (simp add: nth_append)
  then have "(rs @ xs) ! k = rs ! k" if "k < j" for k using that by simp
  note same = this \<open>\<And>k. k \<le> j \<Longrightarrow> (rs @ xs) ! k = rs ! k\<close>[OF order_refl] \<open>\<And>k. k \<le> j \<Longrightarrow> (rs @ xs) ! k = rs ! k\<close>[of "i - 1"]
  show ?thesis unfolding run_from_iff same(2) using same(1,3) assms(1) by simp
qed

lemma settles_append:
  assumes "j < length rs"
  shows "settles (rs @ xs) j \<longleftrightarrow> settles rs j"
proof -
  have "(rs @ xs) ! i = rs ! i \<and> (run_from (rs @ xs) i j \<longleftrightarrow> run_from rs i j)" if "i \<le> j" for i
    using that assms run_from_append[OF that assms] by (simp add: nth_append)
  then show ?thesis unfolding settles_iff by (metis order_refl)
qed

lemma settled_snoc: "settled (rs @ [r]) = (if settles (rs @ [r]) (length rs) then fst r else settled rs)"
proof -
  have "filter (settles (rs @ [r])) [0..<length rs] = filter (settles rs) [0..<length rs]"
    by (rule filter_cong) (simp_all add: settles_append)
  moreover have "last (filter (settles rs) [0..<length rs]) < length rs" if "filter (settles rs) [0..<length rs] \<noteq> []"
    using last_in_set[OF that] by simp
  ultimately show ?thesis by (auto simp: settled_def Let_def nth_append)
qed

text \<open>A run has one start.\<close>

lemma run_from_unique:
  assumes "run_from rs i j" "run_from rs i' j" "i \<le> j" "i' \<le> j"
  shows "i = i'"
proof (rule ccontr)
  assume "i \<noteq> i'"
  then consider "i \<le> i' - 1" "i' - 1 < j" "0 < i'" | "i' \<le> i - 1" "i - 1 < j" "0 < i" using assms(3,4) by linarith
  then show False using assms(1,2) by cases (auto simp: run_from_iff)
qed

text \<open>The state of a ladder: its candidate is the last reading with the time of its run, its stable reading the debounced one.\<close>

definition ladder_inv :: "(Button option \<times> u64) list \<Rightarrow> LadderState \<Rightarrow> bool" where
  "ladder_inv rs s \<longleftrightarrow> la_stable s = settled rs \<and>
    (if rs = [] then la_candidate s = None
     else la_candidate s = fst (last rs) \<and>
       (\<exists>i<length rs. run_from rs i (length rs - 1) \<and>
         (la_candidate_since_ms s = snd (rs ! i) \<or> i = 0 \<and> la_candidate s = None \<and> la_stable s = None)))"

lemma run_from_same:
  assumes "rs \<noteq> []" "i < length rs" "run_from rs i (length rs - 1)" "fst (last rs) = fst r"
  shows "run_from (rs @ [r]) i (length rs)"
proof -
  have r: "fst (rs ! (length rs - 1)) = fst r" using assms(1,4) by (simp add: last_conv_nth)
  have "fst (rs ! k) = fst r" if "i \<le> k" "k < length rs" for k
    using assms(3) that r unfolding run_from_iff by (cases "k = length rs - 1") auto
  moreover have "i = 0 \<or> fst (rs ! (i - 1)) \<noteq> fst r" using assms(3) r unfolding run_from_iff by simp
  ultimately show ?thesis using assms(2) unfolding run_from_iff by (auto simp: nth_append)
qed

lemma run_from_changed: "rs \<noteq> [] \<Longrightarrow> fst (last rs) \<noteq> fst r \<Longrightarrow> run_from (rs @ [r]) (length rs) (length rs)"
  unfolding run_from_iff by (auto simp: nth_append last_conv_nth)

lemma settles_run:
  assumes "run_from rs i j" "i \<le> j"
  shows "settles rs j \<longleftrightarrow> unat (snd (rs ! i)) + 30 \<le> unat (snd (rs ! j))"
  unfolding settles_iff using assms run_from_unique[OF assms(1) _ assms(2)] by metis

lemma debounce_elapsed: "(ucast DEBOUNCE_MS :: u64) \<le> saturating_sub now since \<longleftrightarrow> unat since + 30 \<le> unat now"
  by (auto simp: word_le_nat_alt unat_saturating_sub DEBOUNCE_MS_def)

lemma ladder_update_inv:
  assumes "ladder_inv rs s"
  shows "ladder_inv (rs @ [(observed, now)]) (ladder_update observed now s)"
proof (cases "rs = []")
  case True
  have "settled [(observed, now)] = None" by (simp add: settled_def settles_def run_from_def)
  then show ?thesis using True assms
    by (auto simp: ladder_inv_def ladder_update_def Let_def settled_def run_from_def)
next
  case False
  let ?rs = "rs @ [(observed, now)]"
  obtain i where i: "i < length rs" "run_from rs i (length rs - 1)"
    "la_candidate_since_ms s = snd (rs ! i) \<or> i = 0 \<and> la_candidate s = None \<and> la_stable s = None"
    and s: "la_stable s = settled rs" "la_candidate s = fst (last rs)"
    using assms False unfolding ladder_inv_def by (simp only: if_False) (elim conjE exE, rule that)
  show ?thesis
  proof (cases "observed = la_candidate s")
    case True
    have run: "run_from ?rs i (length rs)" by (rule run_from_same[OF False i(1,2)]) (simp add: s(2)[symmetric] True)
    then have settles: "settles ?rs (length rs) \<longleftrightarrow> unat (snd (rs ! i)) + 30 \<le> unat now"
      using settles_run[OF run] i(1) by (simp add: nth_append)
    show ?thesis
    proof (cases "la_candidate_since_ms s = snd (rs ! i)")
      case same: True
      then show ?thesis using True run settles i(1) s False
        unfolding ladder_inv_def settled_snoc
        by (auto simp: ladder_update_def Let_def debounce_elapsed nth_append intro!: exI[of _ i])
    next
      case no: False
      then have "i = 0" "la_candidate s = None" "la_stable s = None" using i(3) by simp_all
      then show ?thesis using True run i(1) s False
        unfolding ladder_inv_def settled_snoc
        by (auto simp: ladder_update_def Let_def intro!: exI[of _ 0])
    qed
  next
    case changed: False
    have run: "run_from ?rs (length rs) (length rs)" by (rule run_from_changed[OF False]) (use changed s(2) in auto)
    then have "\<not> settles ?rs (length rs)" using settles_run[OF run] by simp
    then show ?thesis using changed run s(1) unfolding ladder_inv_def settled_snoc
      by (auto simp: ladder_update_def intro!: exI[of _ "length rs"])
  qed
qed

fun poll_all :: "(u16 \<times> u16 \<times> u64) list \<Rightarrow> InputState \<Rightarrow> InputState" where
  "poll_all [] s = s"
| "poll_all ((ch1, ch2, now) # samples) s = poll_all samples (snd (poll_raw_detailed ch1 ch2 now s))"

definition readings1 :: "(u16 \<times> u16 \<times> u64) list \<Rightarrow> (Button option \<times> u64) list" where
  "readings1 = map (\<lambda>(ch1, ch2, now). (decode_ch1_button ch1, now))"

definition readings2 :: "(u16 \<times> u16 \<times> u64) list \<Rightarrow> (Button option \<times> u64) list" where
  "readings2 = map (\<lambda>(ch1, ch2, now). (decode_ch2_button ch2, now))"

lemma poll_ladders:
  "in_ch1 (snd (poll_raw_detailed ch1 ch2 now s)) = ladder_update (decode_ch1_button ch1) now (in_ch1 s)"
  "in_ch2 (snd (poll_raw_detailed ch1 ch2 now s)) = ladder_update (decode_ch2_button ch2) now (in_ch2 s)"
  by (simp_all add: poll_raw_detailed_def Let_def split: prod.split)

lemma poll_all_append: "poll_all (xs @ ys) s = poll_all ys (poll_all xs s)"
  by (induction xs s rule: poll_all.induct) simp_all

lemma poll_all_inv:
  "ladder_inv (readings1 samples) (in_ch1 (poll_all samples InputState_new)) \<and>
   ladder_inv (readings2 samples) (in_ch2 (poll_all samples InputState_new))"
proof (induction samples rule: rev_induct)
  case Nil
  then show ?case by (simp add: InputState_new_def LadderState_new_def ladder_inv_def settled_def readings1_def readings2_def)
next
  case (snoc x samples)
  obtain ch1 ch2 now where x: "x = (ch1, ch2, now)" by (cases x)
  show ?case using snoc ladder_update_inv
    by (simp add: x poll_all_append poll_ladders readings1_def readings2_def)
qed

text \<open>The debounced reading of both channels; the first one has priority.\<close>

definition debounced :: "(u16 \<times> u16 \<times> u64) list \<Rightarrow> Button option" where
  "debounced samples = option_or (settled (readings1 samples)) (settled (readings2 samples))"

lemma poll_reports:
  "in_reported_button (snd (poll_raw_detailed ch1 ch2 now s)) =
    option_or (la_stable (ladder_update (decode_ch1_button ch1) now (in_ch1 s))) (la_stable (ladder_update (decode_ch2_button ch2) now (in_ch2 s)))"
  by (simp add: poll_raw_detailed_def Let_def split: prod.split)

lemma poll_all_reported: "in_reported_button (poll_all samples InputState_new) = debounced samples"
proof (cases samples rule: rev_cases)
  case Nil
  then show ?thesis by (simp add: InputState_new_def debounced_def settled_def readings1_def readings2_def)
next
  case (snoc ys y)
  obtain ch1 ch2 now where y: "y = (ch1, ch2, now)" by (cases y)
  have "la_stable (in_ch1 (poll_all samples InputState_new)) = settled (readings1 samples)"
    "la_stable (in_ch2 (poll_all samples InputState_new)) = settled (readings2 samples)"
    using poll_all_inv[of samples] by (simp_all add: ladder_inv_def)
  then show ?thesis by (simp add: snoc y poll_all_append poll_reports poll_ladders debounced_def)
qed

text \<open>C29: A press is reported exactly when the debounced reading becomes a button: whatever the samples of the two channels, a poll
  reports nothing while the debounced reading stays what it was, the press of a button when it becomes that button, and a
  release when it becomes none; the debounced reading of a channel changes only at a poll that ends a run of equal readings
  of at least 30 milliseconds, so a bouncing contact neither gives a press nor repeats one.\<close>

theorem press_is_debounced:
  "ip_decision (fst (poll_raw_detailed ch1 ch2 now (poll_all samples InputState_new))) =
    (let before = debounced samples; after = debounced (samples @ [(ch1, ch2, now)]) in
     if after = before then Unchanged else case after of Some button \<Rightarrow> Press button | None \<Rightarrow> Released)"
proof -
  let ?s = "poll_all samples InputState_new"
  have "debounced (samples @ [(ch1, ch2, now)]) =
      option_or (la_stable (ladder_update (decode_ch1_button ch1) now (in_ch1 ?s))) (la_stable (ladder_update (decode_ch2_button ch2) now (in_ch2 ?s)))"
    using poll_all_reported[of "samples @ [(ch1, ch2, now)]"] by (simp add: poll_all_append poll_reports)
  then show ?thesis using poll_all_reported[of samples]
    by (simp add: poll_raw_detailed_def Let_def split: prod.split option.split)
qed

text \<open>A press that bounces once is reported once, after it settled.\<close>

lemma press_is_debounced_witness:
  "ip_decision (fst (poll_raw_detailed 100 4000 40 (poll_all [(100, 4000, 10), (100, 4000, 30)] InputState_new))) = Press BtnRight \<and>
   ip_decision (fst (poll_raw_detailed 100 4000 50 (poll_all [(100, 4000, 10), (100, 4000, 40), (4000, 4000, 45)] InputState_new))) = Unchanged"
proof -
  have "debounced [(100, 4000, 10), (100, 4000, 30)] = None" "debounced ([(100, 4000, 10), (100, 4000, 30)] @ [(100, 4000, 40)]) = Some BtnRight"
    "debounced [(100, 4000, 10), (100, 4000, 40), (4000, 4000, 45)] = Some BtnRight"
    "debounced ([(100, 4000, 10), (100, 4000, 40), (4000, 4000, 45)] @ [(100, 4000, 50)]) = Some BtnRight"
    by code_simp+
  then show ?thesis unfolding press_is_debounced by simp
qed

subsection \<open>The selection stays visible\<close>

definition menu_inv :: "MenuState \<Rightarrow> bool" where
  "menu_inv m \<longleftrightarrow> (if ms_count m = 0 then ms_selected m = 0 \<and> ms_top m = 0
    else ms_selected m < ms_count m \<and> ms_top m \<le> ms_selected m \<and> ms_selected m < ms_top m + VIEWPORT_ROWS)"

inductive menu_step :: "MenuState \<Rightarrow> MenuState \<Rightarrow> bool" where
  transition: "menu_step m (snd (menu_transition action m))"
| restore: "menu_step m (menu_restore_selected index m)"
| reset: "menu_step m (menu_reset count m)"

definition menu_init :: "MenuState \<Rightarrow> bool" where
  "menu_init m \<longleftrightarrow> (\<exists>count. m = MenuState_new count)"

lemma menu_transition_inv:
  assumes "menu_inv m"
  shows "menu_inv (snd (menu_transition action m))"
proof (cases "ms_count m = 0")
  case False
  then have m: "ms_selected m < ms_count m" "ms_top m \<le> ms_selected m" "ms_selected m < ms_top m + VIEWPORT_ROWS"
    using assms by (simp_all add: menu_inv_def)
  show ?thesis
  proof (cases action)
    case MenuActNext
    then show ?thesis using m False
      by (cases "ms_selected m + 1 < ms_count m") (auto simp: menu_inv_def menu_transition_def Let_def VIEWPORT_ROWS_def)
  next
    case MenuActPrevious
    then show ?thesis using m False
      by (cases "ms_selected m") (auto simp: menu_inv_def menu_transition_def Let_def VIEWPORT_ROWS_def)
  qed (use assms False in \<open>simp_all add: menu_transition_def\<close>)
qed (use assms in \<open>simp add: menu_transition_def\<close>)

lemma menu_set_inv: "menu_inv (menu_restore_selected index m)" "menu_inv (menu_reset count m)"
  by (auto simp: menu_inv_def menu_restore_selected_def menu_reset_def VIEWPORT_ROWS_def Let_def)

interpretation menu: machine menu_init menu_step menu_inv
proof
  fix m t assume m: "menu_inv m" and "menu_step m t"
  from this(2) m show "menu_inv t" by cases (simp_all add: menu_transition_inv menu_set_inv)
qed (auto simp: menu_init_def MenuState_new_def menu_inv_def VIEWPORT_ROWS_def)

text \<open>C30: The menu always shows what is selected: in every reachable state of a menu with entries the selection is one of
  them and is drawn in one of the five rows, the keys move it around the list in both directions without leaving a gap, and
  in a menu without entries no key has an effect.\<close>

theorem menu_selection_visible:
  assumes "reachable menu_init menu_step m"
  shows "if ms_count m = 0 then menu_transition action m = (MenuActNoOp, m)
    else menu_is_visible (ms_selected m) m \<and> menu_selected_row m < menu_visible_count m \<and>
      ms_selected (snd (menu_transition MenuActNext m)) = (ms_selected m + 1) mod ms_count m \<and>
      ms_selected (snd (menu_transition MenuActPrevious m)) = (ms_selected m + ms_count m - 1) mod ms_count m \<and>
      menu_transition (MenuActOpen index) m = (MenuActOpen (ms_selected m), m)"
proof (cases "ms_count m = 0")
  case False
  then have m: "ms_selected m < ms_count m" "ms_top m \<le> ms_selected m" "ms_selected m < ms_top m + VIEWPORT_ROWS"
    using menu.reachable_inv[OF assms] by (simp_all add: menu_inv_def)
  have "ms_selected (snd (menu_transition MenuActNext m)) = (ms_selected m + 1) mod ms_count m"
    using m by (cases "ms_selected m + 1 < ms_count m") (auto simp: menu_transition_def Let_def not_less le_Suc_eq)
  moreover have "ms_selected (snd (menu_transition MenuActPrevious m)) = (ms_selected m + ms_count m - 1) mod ms_count m"
    using m by (cases "ms_selected m") (auto simp: menu_transition_def Let_def)
  ultimately show ?thesis using m False
    by (simp add: menu_is_visible_def menu_selected_row_def menu_visible_count_def menu_transition_def) linarith
qed (simp add: menu_transition_def)

lemma menu_selection_visible_witness:
  "reachable menu_init menu_step (snd (menu_transition MenuActPrevious (MenuState_new 7))) \<and>
    menu_is_visible 6 (snd (menu_transition MenuActPrevious (MenuState_new 7)))"
proof -
  have "reachable menu_init menu_step (MenuState_new 7)" by (rule reachable.initial) (auto simp: menu_init_def)
  then have r: "reachable menu_init menu_step (snd (menu_transition MenuActPrevious (MenuState_new 7)))"
    by (rule reachable.followed) (rule menu_step.transition)
  have "ms_selected (snd (menu_transition MenuActPrevious (MenuState_new 7))) = 6"
    "ms_count (snd (menu_transition MenuActPrevious (MenuState_new 7))) = 7"
    by (simp_all add: menu_transition_def MenuState_new_def VIEWPORT_ROWS_def Let_def)
  then show ?thesis using menu_selection_visible[OF r] r by auto
qed

end
