(* ===== verification/Refresh_Coordinator.thy ===== *)
theory Refresh_Coordinator
  imports Prelude Machine
begin

text \<open>
  The coordinator of the screen refreshes (\<^verbatim>\<open>async_refresh.rs\<close>): it decides when a page is shown in black and
  white, when it is refined to gray levels, and how a failure is recovered from.
\<close>

subsection \<open>The refresh coordinator\<close>

definition GRAY_SETTLE_DELAY_MS :: u64 where "GRAY_SETTLE_DELAY_MS = 350"

datatype RefreshPhase = BwReady | BwRefreshing | PreviewDelay | GrayDelay | GrayRefreshing | BaseSync | Recovering | Fault

datatype RefreshAction =
    RenderBw u32 u32 | RenderGray u32 | SyncBwBase u32 | RecoverBw u32 | WaitForRequest | WaitUntil u64 | RefreshNone

record RefreshCoordinator =
  rc_page_count :: u32
  rc_displayed_page :: u32
  rc_active_target :: "u32 option"
  rc_gray_deadline_ms :: "u64 option"
  rc_phase :: RefreshPhase
  rc_next_action :: RefreshAction

definition RefreshCoordinator_new :: "u32 \<Rightarrow> RefreshCoordinator" where
  "RefreshCoordinator_new page_count =
    \<lparr>rc_page_count = page_count, rc_displayed_page = 0, rc_active_target = None, rc_gray_deadline_ms = None,
     rc_phase = Recovering, rc_next_action = RecoverBw 0\<rparr>"

text \<open>Every operation ends by returning the next action that it stored.\<close>

definition no_action :: "RefreshCoordinator \<Rightarrow> RefreshCoordinator" where
  "no_action c = c\<lparr>rc_next_action := RefreshNone\<rparr>"

definition start_bw :: "u32 \<Rightarrow> RefreshCoordinator \<Rightarrow> RefreshCoordinator" where
  "start_bw target c =
    (if target \<ge> rc_page_count c then no_action c
     else c\<lparr>rc_active_target := Some target, rc_phase := BwRefreshing, rc_next_action := RenderBw (rc_displayed_page c) target\<rparr>)"

definition record_bw_complete :: "u32 \<Rightarrow> u64 \<Rightarrow> RefreshCoordinator \<Rightarrow> RefreshCoordinator" where
  "record_bw_complete target now_ms c =
    (if rc_phase c \<noteq> BwRefreshing \<or> rc_active_target c \<noteq> Some target then no_action c
     else c\<lparr>rc_displayed_page := target, rc_active_target := None, rc_gray_deadline_ms := Some (now_ms + GRAY_SETTLE_DELAY_MS),
            rc_phase := GrayDelay, rc_next_action := WaitUntil (now_ms + GRAY_SETTLE_DELAY_MS)\<rparr>)"

definition gray_deadline_elapsed :: "u64 \<Rightarrow> RefreshCoordinator \<Rightarrow> RefreshCoordinator" where
  "gray_deadline_elapsed now_ms c =
    (if rc_phase c \<noteq> GrayDelay then no_action c
     else
       case rc_gray_deadline_ms c of
         None \<Rightarrow> no_action c
       | Some deadline_ms \<Rightarrow>
           if now_ms < deadline_ms then c\<lparr>rc_next_action := WaitUntil deadline_ms\<rparr>
           else c\<lparr>rc_phase := GrayRefreshing, rc_next_action := RenderGray (rc_displayed_page c)\<rparr>)"

definition record_gray_complete :: "RefreshCoordinator \<Rightarrow> RefreshCoordinator" where
  "record_gray_complete c =
    (if rc_phase c \<noteq> GrayRefreshing then no_action c
     else c\<lparr>rc_phase := BaseSync, rc_next_action := SyncBwBase (rc_displayed_page c)\<rparr>)"

definition record_gray_cancelled :: "RefreshCoordinator \<Rightarrow> RefreshCoordinator" where
  "record_gray_cancelled c =
    (if rc_phase c \<noteq> GrayRefreshing then no_action c else c\<lparr>rc_phase := BwReady, rc_next_action := WaitForRequest\<rparr>)"

definition record_base_sync_complete :: "RefreshCoordinator \<Rightarrow> RefreshCoordinator" where
  "record_base_sync_complete c =
    (if rc_phase c \<noteq> BaseSync then no_action c else c\<lparr>rc_phase := BwReady, rc_next_action := WaitForRequest\<rparr>)"

definition request_arrived :: "RefreshCoordinator \<Rightarrow> RefreshCoordinator" where
  "request_arrived c =
    no_action (if rc_phase c = GrayDelay then c\<lparr>rc_gray_deadline_ms := None, rc_phase := BwReady\<rparr> else c)"

definition record_seed_complete :: "u32 \<Rightarrow> u64 \<Rightarrow> RefreshCoordinator \<Rightarrow> RefreshCoordinator" where
  "record_seed_complete page now_ms c =
    c\<lparr>rc_displayed_page := page, rc_active_target := None, rc_gray_deadline_ms := Some (now_ms + GRAY_SETTLE_DELAY_MS),
      rc_phase := GrayDelay, rc_next_action := WaitUntil (now_ms + GRAY_SETTLE_DELAY_MS)\<rparr>"

definition record_failure :: "RefreshCoordinator \<Rightarrow> RefreshCoordinator" where
  "record_failure c =
    (case rc_phase c of
       Recovering \<Rightarrow> c\<lparr>rc_phase := Fault, rc_next_action := RefreshNone\<rparr>
     | Fault \<Rightarrow> no_action c
     | _ \<Rightarrow>
         let page = (case rc_active_target c of Some target \<Rightarrow> target | None \<Rightarrow> rc_displayed_page c) in
         c\<lparr>rc_active_target := Some page, rc_phase := Recovering, rc_next_action := RecoverBw page\<rparr>)"

definition begin_recovery :: "u32 \<Rightarrow> RefreshCoordinator \<Rightarrow> RefreshCoordinator" where
  "begin_recovery page c =
    (if page \<ge> rc_page_count c \<or> rc_phase c = Fault then no_action c
     else c\<lparr>rc_active_target := Some page, rc_phase := Recovering, rc_next_action := RecoverBw page\<rparr>)"

definition record_recovery_complete :: "u32 \<Rightarrow> u64 \<Rightarrow> RefreshCoordinator \<Rightarrow> RefreshCoordinator" where
  "record_recovery_complete page now_ms c =
    (if rc_phase c \<noteq> Recovering \<or> rc_active_target c \<noteq> Some page then no_action c
     else c\<lparr>rc_displayed_page := page, rc_active_target := None, rc_phase := BwReady, rc_next_action := WaitForRequest\<rparr>)"

subsection \<open>Gray only after the page has settled\<close>

text \<open>
  The task that owns the panel feeds the coordinator with what happened.  The second component of the state is not in the
  code: a log, newest entry first, of the requests that arrived and of the pages that were reported to be on the panel in black
  and white.  Assumed are a book with at least one page, seeds that name a page of it, since \<open>record_seed_complete\<close> does not
  test that, and a clock that is more than 350 ms before its end.
\<close>

datatype refresh_event = PageShown u32 nat | RequestMade

type_synonym refresh_state = "RefreshCoordinator \<times> refresh_event list"

inductive refresh_step :: "refresh_state \<Rightarrow> refresh_state \<Rightarrow> bool" where
  bw: "refresh_step (c, log) (start_bw target c, log)"
| bw_complete: "unat now + 350 < 2 ^ 64 \<Longrightarrow> rc_phase c = BwRefreshing \<Longrightarrow> rc_active_target c = Some target \<Longrightarrow>
    refresh_step (c, log) (record_bw_complete target now c, PageShown target (unat now) # log)"
| bw_refused: "rc_phase c \<noteq> BwRefreshing \<or> rc_active_target c \<noteq> Some target \<Longrightarrow>
    refresh_step (c, log) (record_bw_complete target now c, log)"
| gray_elapsed: "refresh_step (c, log) (gray_deadline_elapsed now c, log)"
| gray_complete: "refresh_step (c, log) (record_gray_complete c, log)"
| gray_cancelled: "refresh_step (c, log) (record_gray_cancelled c, log)"
| base_sync: "refresh_step (c, log) (record_base_sync_complete c, log)"
| request: "refresh_step (c, log) (request_arrived c, RequestMade # log)"
| seed: "page < rc_page_count c \<Longrightarrow> unat now + 350 < 2 ^ 64 \<Longrightarrow>
    refresh_step (c, log) (record_seed_complete page now c, PageShown page (unat now) # log)"
| failure: "refresh_step (c, log) (record_failure c, log)"
| recovery: "refresh_step (c, log) (begin_recovery page c, log)"
| recovered: "refresh_step (c, log) (record_recovery_complete page now c, log)"

definition refresh_init :: "refresh_state \<Rightarrow> bool" where
  "refresh_init s \<longleftrightarrow> (\<exists>page_count. page_count \<noteq> 0 \<and> s = (RefreshCoordinator_new page_count, []))"

fun action_pages :: "RefreshAction \<Rightarrow> u32 list" where
  "action_pages (RenderBw from_page target) = [from_page, target]"
| "action_pages (RenderGray page) = [page]"
| "action_pages (SyncBwBase page) = [page]"
| "action_pages (RecoverBw page) = [page]"
| "action_pages _ = []"

text \<open>The last entry of the log is that the page was shown, at least 350 ms ago.\<close>

fun shown_and_settled :: "u32 \<Rightarrow> nat \<Rightarrow> refresh_event list \<Rightarrow> bool" where
  "shown_and_settled page now (PageShown shown shown_at # older) = (shown = page \<and> shown_at + 350 \<le> now)"
| "shown_and_settled page now _ = False"

fun refresh_inv :: "refresh_state \<Rightarrow> bool" where
  "refresh_inv (c, log) \<longleftrightarrow> rc_displayed_page c < rc_page_count c \<and>
    (\<forall>target. rc_active_target c = Some target \<longrightarrow> target < rc_page_count c) \<and>
    (\<forall>page \<in> set (action_pages (rc_next_action c)). page < rc_page_count c) \<and>
    (rc_phase c = GrayDelay \<longrightarrow> (\<exists>deadline shown_at older. rc_gray_deadline_ms c = Some deadline \<and>
      log = PageShown (rc_displayed_page c) shown_at # older \<and> unat deadline = shown_at + 350))"

lemma gray_deadline_unat: "unat (now :: u64) + 350 < 2 ^ 64 \<Longrightarrow> unat (now + GRAY_SETTLE_DELAY_MS) = unat now + 350"
  by (simp add: GRAY_SETTLE_DELAY_MS_def unat_word_ariths)

lemmas refresh_defs = no_action_def start_bw_def record_bw_complete_def gray_deadline_elapsed_def record_gray_complete_def
  record_gray_cancelled_def record_base_sync_complete_def request_arrived_def record_seed_complete_def record_failure_def
  begin_recovery_def record_recovery_complete_def

lemma refresh_step_inv: "refresh_step s s' \<Longrightarrow> refresh_inv s \<Longrightarrow> refresh_inv s'"
  by (induction rule: refresh_step.induct)
    (auto simp: refresh_defs gray_deadline_unat Let_def split: option.splits RefreshPhase.splits)

interpretation refresh: machine refresh_init refresh_step refresh_inv
  by unfold_locales
    (auto simp: refresh_init_def RefreshCoordinator_new_def word_gt_0 intro: refresh_step_inv)



end
