(* ===== verification/Power_Key.thy ===== *)
theory Power_Key
  imports Prelude
begin

text \<open>
  The power key (\<^verbatim>\<open>power.rs\<close>): holding it for two seconds prepares the sleep, two short taps refresh the screen, and
  the processor sleeps only after the state was saved and the panel is asleep.
\<close>

definition POWER_HOLD_MS :: u64 where "POWER_HOLD_MS = 2000"
definition POWER_DOUBLE_TAP_MS :: u64 where "POWER_DOUBLE_TAP_MS = 500"

datatype PowerAction = PowerNone | PowerFullRefresh | PowerPrepareSleep

datatype PowerRequest = RequestFullRefresh | RequestPrepareSleep

datatype PowerAck = AckReady | AckFailed

record PowerRequestCompletion =
  pw_request :: PowerRequest
  pw_acknowledgement :: PowerAck

definition PowerRequestCompletion_new :: "PowerRequest \<Rightarrow> PowerAck \<Rightarrow> PowerRequestCompletion" where
  "PowerRequestCompletion_new request acknowledgement = \<lparr>pw_request = request, pw_acknowledgement = acknowledgement\<rparr>"

definition completion_may_enter_cpu_deep_sleep :: "PowerRequestCompletion \<Rightarrow> bool" where
  "completion_may_enter_cpu_deep_sleep c = ((pw_request c, pw_acknowledgement c) = (RequestPrepareSleep, AckReady))"

datatype SleepPreparationOutcome = AwaitPanelSleep | StateSaveFailed | PanelSleepFailed | SleepReady

definition after_state_save :: "bool \<Rightarrow> SleepPreparationOutcome" where
  "after_state_save succeeded = (if succeeded then AwaitPanelSleep else StateSaveFailed)"

definition after_panel_sleep :: "bool \<Rightarrow> SleepPreparationOutcome" where
  "after_panel_sleep succeeded = (if succeeded then SleepReady else PanelSleepFailed)"

fun sleep_status_code :: "SleepPreparationOutcome \<Rightarrow> u8" where
  "sleep_status_code SleepReady = 0"
| "sleep_status_code StateSaveFailed = 1"
| "sleep_status_code PanelSleepFailed = 2"
| "sleep_status_code AwaitPanelSleep = 255"

definition sleep_ack :: "SleepPreparationOutcome \<Rightarrow> PowerAck" where
  "sleep_ack outcome = (if outcome = SleepReady then AckReady else AckFailed)"

definition render_sleep_cancelled :: "SleepPreparationOutcome \<Rightarrow> bool" where
  "render_sleep_cancelled outcome = (outcome = StateSaveFailed)"

definition should_sleep_panel :: "SleepPreparationOutcome \<Rightarrow> bool" where
  "should_sleep_panel outcome = (outcome = AwaitPanelSleep)"

definition outcome_may_enter_cpu_deep_sleep :: "SleepPreparationOutcome \<Rightarrow> bool" where
  "outcome_may_enter_cpu_deep_sleep outcome = (outcome = SleepReady)"

definition release_gate_ready :: "bool \<Rightarrow> bool" where
  "release_gate_ready pressed = (\<not> pressed)"

text \<open>The state of \<open>PowerHold\<close>, and a poll of the key.\<close>

datatype HoldState = WaitingForRelease | Armed "u64 option" | Holding u64 "u64 option" | Triggered

definition PowerHold_new :: HoldState where "PowerHold_new = WaitingForRelease"

definition recent_tap :: "u64 \<Rightarrow> u64 option \<Rightarrow> u64 option" where
  "recent_tap now_ms first_tap_ms =
    (case first_tap_ms of
       Some first \<Rightarrow> if saturating_sub now_ms first \<le> POWER_DOUBLE_TAP_MS then Some first else None
     | None \<Rightarrow> None)"

fun power_update :: "bool \<Rightarrow> u64 \<Rightarrow> HoldState \<Rightarrow> PowerAction \<times> HoldState" where
  "power_update False now_ms WaitingForRelease = (PowerNone, Armed None)"
| "power_update False now_ms Triggered = (PowerNone, Armed None)"
| "power_update True now_ms (Armed first_tap_ms) = (PowerNone, Holding now_ms (recent_tap now_ms first_tap_ms))"
| "power_update False now_ms (Holding since_ms first_tap_ms) =
    (if recent_tap now_ms first_tap_ms \<noteq> None then (PowerFullRefresh, Armed None) else (PowerNone, Armed (Some now_ms)))"
| "power_update True now_ms (Holding since_ms first_tap_ms) =
    (if saturating_sub now_ms since_ms \<ge> POWER_HOLD_MS then (PowerPrepareSleep, Triggered)
     else (PowerNone, Holding since_ms first_tap_ms))"
| "power_update pressed now_ms state = (PowerNone, state)"

fun power_polls :: "(bool \<times> u64) list \<Rightarrow> HoldState \<Rightarrow> HoldState" where
  "power_polls [] state = state"
| "power_polls ((pressed, now_ms) # polls) state = power_polls polls (snd (power_update pressed now_ms state))"

text \<open>
  How the display task answers a request to prepare the sleep (\<^verbatim>\<open>runtime/mounted_display_task.rs\<close>): the state is saved, and
  only then is the panel put to sleep.  The results of both are arguments; the first result says whether the panel was asked.
\<close>

definition prepare_sleep :: "bool \<Rightarrow> bool \<Rightarrow> bool \<times> SleepPreparationOutcome" where
  "prepare_sleep saved panel_slept =
    (let save_outcome = after_state_save saved in
     if render_sleep_cancelled save_outcome then (False, save_outcome) else (True, after_panel_sleep panel_slept))"

subsection \<open>A real hold\<close>

text \<open>
  The key is held from poll \<open>i\<close> to poll \<open>k\<close> if all of them read it as pressed and the one before \<open>i\<close> as released.  Sleep is
  due at the first poll that is two seconds after the first one of the hold.
\<close>

definition held_from :: "(bool \<times> u64) list \<Rightarrow> nat \<Rightarrow> nat \<Rightarrow> bool" where
  "held_from polls i k \<longleftrightarrow> 0 < i \<and> i \<le> k \<and> \<not> fst (polls ! (i - 1)) \<and> (\<forall>j\<in>{i..k}. fst (polls ! j))"

definition long_held :: "(bool \<times> u64) list \<Rightarrow> nat \<Rightarrow> nat \<Rightarrow> bool" where
  "long_held polls i k \<longleftrightarrow> held_from polls i k \<and> unat (snd (polls ! i)) + 2000 \<le> unat (snd (polls ! k))"

definition sleep_due :: "(bool \<times> u64) list \<Rightarrow> nat \<Rightarrow> bool" where
  "sleep_due polls k \<longleftrightarrow> (\<exists>i\<le>k. long_held polls i k \<and> (\<forall>j<k. \<not> long_held polls i j))"

lemma held_from_unique: "held_from polls i k \<Longrightarrow> held_from polls i' k \<Longrightarrow> i = i'"
proof (rule ccontr)
  assume h: "held_from polls i k" "held_from polls i' k" and "i \<noteq> i'"
  then consider "i \<le> i' - 1" "i' - 1 \<le> k" | "i' \<le> i - 1" "i - 1 \<le> k" unfolding held_from_def by linarith
  then show False using h by cases (auto simp: held_from_def)
qed

lemma held_from_append: "k < length polls \<Longrightarrow> held_from (polls @ xs) i k \<longleftrightarrow> held_from polls i k"
  by (cases "0 < i \<and> i \<le> k") (auto simp: held_from_def nth_append)

lemma long_held_append: "k < length polls \<Longrightarrow> long_held (polls @ xs) i k \<longleftrightarrow> long_held polls i k"
  by (cases "i \<le> k") (auto simp: long_held_def held_from_append nth_append held_from_def)

lemma held_from_next: "k < length polls \<Longrightarrow> held_from polls i k \<Longrightarrow> fst (polls ! Suc k) \<Longrightarrow> held_from polls i (Suc k)"
  by (auto simp: held_from_def le_Suc_eq)

definition hold_inv :: "(bool \<times> u64) list \<Rightarrow> HoldState \<Rightarrow> bool" where
  "hold_inv polls state \<longleftrightarrow>
    (case state of
       WaitingForRelease \<Rightarrow> \<forall>j<length polls. fst (polls ! j)
     | Armed _ \<Rightarrow> polls \<noteq> [] \<and> \<not> fst (last polls)
     | Holding since_ms _ \<Rightarrow> \<exists>i. held_from polls i (length polls - 1) \<and> i < length polls \<and> snd (polls ! i) = since_ms \<and>
         (\<forall>j<length polls. \<not> long_held polls i j)
     | Triggered \<Rightarrow> \<exists>i j. held_from polls i (length polls - 1) \<and> i < length polls \<and> j < length polls \<and> long_held polls i j)"

lemma held_from_last:
  "held_from polls i (length polls - 1) \<Longrightarrow> i < length polls \<Longrightarrow> held_from (polls @ [(True, now)]) i (length polls)"
  by (auto simp: held_from_def nth_append le_less_Suc_eq)

lemma held_from_released: "\<not> held_from (polls @ [(False, now)]) i (length polls)"
proof
  assume "held_from (polls @ [(False, now)]) i (length polls)"
  then have "length polls \<in> {i..length polls}" "\<forall>j\<in>{i..length polls}. fst ((polls @ [(False, now)]) ! j)"
    unfolding held_from_def by simp_all
  from bspec[OF this(2,1)] show False by simp
qed

lemma held_from_start: "polls \<noteq> [] \<Longrightarrow> \<not> fst (last polls) \<Longrightarrow> held_from (polls @ [(True, now)]) i (length polls) \<longleftrightarrow> i = length polls"
  by (cases "i < length polls") (auto simp: held_from_def nth_append last_conv_nth intro!: bexI[of _ "length polls - 1"])

lemma held_from_never: "\<forall>j<length polls. fst (polls ! j) \<Longrightarrow> \<not> held_from (polls @ [(True, now)]) i (length polls)"
  by (auto simp: held_from_def nth_append)

lemma sleep_due_held:
  assumes "held_from (polls @ [(pressed, now)]) i (length polls)"
  shows "sleep_due (polls @ [(pressed, now)]) (length polls) \<longleftrightarrow>
    unat (snd ((polls @ [(pressed, now)]) ! i)) + 2000 \<le> unat now \<and> (\<forall>j<length polls. \<not> long_held polls i j)"
proof -
  let ?polls = "polls @ [(pressed, now)]"
  have i: "i \<le> length polls" using assms by (simp add: held_from_def)
  have earlier: "(\<forall>j<length polls. \<not> long_held ?polls i j) \<longleftrightarrow> (\<forall>j<length polls. \<not> long_held polls i j)"
    by (simp add: long_held_append)
  have last: "snd (?polls ! length polls) = now" by simp
  have key: "long_held ?polls i' (length polls) \<longleftrightarrow> i' = i \<and> unat (snd (?polls ! i)) + 2000 \<le> unat now" for i'
  proof (cases "i' = i")
    case True
    then show ?thesis using assms by (simp only: long_held_def last simp_thms)
  next
    case False
    then have "\<not> held_from ?polls i' (length polls)" using held_from_unique[OF assms] by metis
    then show ?thesis using False by (simp only: long_held_def simp_thms)
  qed
  show ?thesis unfolding sleep_due_def key earlier[symmetric] using i by metis
qed

text \<open>A poll asks for sleep exactly when it is due, and the state remembers what is needed to tell.\<close>

lemma not_due_released: "\<not> sleep_due (polls @ [(False, now)]) (length polls)"
  using held_from_released by (auto simp: sleep_due_def long_held_def)

lemma not_due_unheld: "(\<And>i. \<not> held_from polls' i k) \<Longrightarrow> \<not> sleep_due polls' k"
  by (auto simp: sleep_due_def long_held_def)

lemma hold_released: "hold_inv polls state \<Longrightarrow> hold_inv (polls @ [(False, now)]) (snd (power_update False now state))"
  by (cases state) (auto simp: hold_inv_def)

lemma held_long_enough: "saturating_sub now since \<ge> POWER_HOLD_MS \<longleftrightarrow> unat since + 2000 \<le> unat now"
  by (auto simp: word_le_nat_alt unat_saturating_sub POWER_HOLD_MS_def)

lemma hold_step:
  assumes inv: "hold_inv polls state"
  shows "(fst (power_update pressed now state) = PowerPrepareSleep \<longleftrightarrow> sleep_due (polls @ [(pressed, now)]) (length polls)) \<and>
    hold_inv (polls @ [(pressed, now)]) (snd (power_update pressed now state))"
proof (cases pressed)
  case False
  have "fst (power_update False now state) \<noteq> PowerPrepareSleep" by (cases state) simp_all
  then show ?thesis using False not_due_released hold_released[OF inv] by simp
next
  case pressed: True
  let ?polls = "polls @ [(True, now)]"
  show ?thesis
  proof (cases state)
    case WaitingForRelease
    then have "\<forall>j<length polls. fst (polls ! j)" using inv by (simp add: hold_inv_def)
    then show ?thesis using held_from_never not_due_unheld[of ?polls "length polls"] pressed WaitingForRelease
      by (auto simp: hold_inv_def nth_append)
  next
    case (Armed first)
    then have released: "polls \<noteq> []" "\<not> fst (last polls)" using inv by (simp_all add: hold_inv_def)
    have held: "held_from ?polls (length polls) (length polls)" using held_from_start[OF released] by simp
    have short: "\<not> long_held ?polls (length polls) j" if "j \<le> length polls" for j
      using that by (cases "j = length polls") (auto simp: long_held_def held_from_def)
    show ?thesis using held short sleep_due_held[OF held] pressed Armed
      by (auto simp: hold_inv_def less_Suc_eq_le)
  next
    case (Holding since first)
    then obtain i where i: "held_from polls i (length polls - 1)" "i < length polls" "snd (polls ! i) = since"
      "\<forall>j<length polls. \<not> long_held polls i j" using inv by (auto simp: hold_inv_def)
    have held: "held_from ?polls i (length polls)" by (rule held_from_last[OF i(1,2)])
    have at: "snd (?polls ! i) = since" using i(2,3) by (simp add: nth_append)
    have long: "long_held ?polls i (length polls) \<longleftrightarrow> unat since + 2000 \<le> unat now" using held at by (simp add: long_held_def)
    have due: "sleep_due ?polls (length polls) \<longleftrightarrow> unat since + 2000 \<le> unat now"
      using sleep_due_held[OF held] at i(4) by simp
    show ?thesis
    proof (cases "unat since + 2000 \<le> unat now")
      case True
      then have "hold_inv ?polls Triggered"
        unfolding hold_inv_def by (simp, intro exI[of _ i] conjI exI[of _ "length polls"]) (use held i(2) long in simp_all)
      then show ?thesis using True due pressed Holding held_long_enough[of now since] by simp
    next
      case False
      have "\<forall>j<Suc (length polls). \<not> long_held ?polls i j"
        using i(4) long False by (simp add: less_Suc_eq long_held_append)
      then show ?thesis using False due held i(2) at pressed Holding held_long_enough[of now since]
        by (auto simp: hold_inv_def intro!: exI[of _ i])
    qed
  next
    case Triggered
    then obtain i j where i: "held_from polls i (length polls - 1)" "i < length polls" "j < length polls" "long_held polls i j"
      using inv by (auto simp: hold_inv_def)
    have held: "held_from ?polls i (length polls)" by (rule held_from_last[OF i(1,2)])
    have "long_held ?polls i j" using i(3,4) by (simp add: long_held_append)
    then have "hold_inv ?polls Triggered"
      unfolding hold_inv_def by (simp, intro exI[of _ i] conjI exI[of _ j]) (use held i in simp_all)
    moreover have "\<not> sleep_due ?polls (length polls)" using sleep_due_held[OF held] i(3,4) by blast
    ultimately show ?thesis using pressed Triggered by simp
  qed
qed

lemma power_polls_append: "power_polls (xs @ ys) state = power_polls ys (power_polls xs state)"
  by (induction xs state rule: power_polls.induct) simp_all

lemma hold_inv_polls: "hold_inv polls (power_polls polls PowerHold_new)"
proof (induction polls rule: rev_induct)
  case (snoc p polls)
  then show ?case using hold_step[of polls "power_polls polls PowerHold_new" "fst p" "snd p"]
    by (cases p) (simp add: power_polls_append)
qed (simp add: hold_inv_def PowerHold_new_def)

text \<open>C32: The reader prepares to sleep once for every real hold of the power key: whatever the polls, a poll asks for sleep if and
  only if it is the first of its hold that comes at least two seconds after the first poll of the hold, which follows a poll that
  read the key as released; so the hold which starts the device never counts, and no hold counts twice.  In the
  preparation the panel is put to sleep only if the state was saved, and the processor may enter deep sleep if and only
  if sleep was asked for, the state was saved and the panel went to sleep.\<close>

theorem sleep_needs_hold:
  "(fst (power_update pressed now (power_polls polls PowerHold_new)) = PowerPrepareSleep \<longleftrightarrow>
      sleep_due (polls @ [(pressed, now)]) (length polls)) \<and>
   (fst (prepare_sleep saved panel_slept) \<longleftrightarrow> saved) \<and>
   (completion_may_enter_cpu_deep_sleep (PowerRequestCompletion_new request (sleep_ack (snd (prepare_sleep saved panel_slept)))) \<longleftrightarrow>
      request = RequestPrepareSleep \<and> saved \<and> panel_slept)"
  using hold_step[OF hold_inv_polls]
  by (auto simp: completion_may_enter_cpu_deep_sleep_def PowerRequestCompletion_new_def sleep_ack_def after_state_save_def
      prepare_sleep_def render_sleep_cancelled_def after_panel_sleep_def)

text \<open>A hold from the start of the device, and one after a release.\<close>

lemma sleep_needs_hold_witness:
  "fst (power_update True 6000 (power_polls [(True, 0), (True, 3000), (False, 3020), (True, 4000), (True, 5999)] PowerHold_new)) = PowerPrepareSleep \<and>
   \<not> sleep_due ([(True, 0)] @ [(True, 3000)]) 1 \<and>
   \<not> completion_may_enter_cpu_deep_sleep (PowerRequestCompletion_new RequestPrepareSleep (sleep_ack (snd (prepare_sleep True False))))"
proof -
  have "fst (power_update True 3000 (power_polls [(True, 0)] PowerHold_new)) = PowerNone" by code_simp
  then have "\<not> sleep_due ([(True, 0)] @ [(True, 3000)]) 1"
    using sleep_needs_hold[of True 3000 "[(True, 0)]"] by simp
  moreover have "fst (power_update True 6000 (power_polls [(True, 0), (True, 3000), (False, 3020), (True, 4000), (True, 5999)] PowerHold_new)) = PowerPrepareSleep"
    by code_simp
  ultimately show ?thesis using sleep_needs_hold[of _ _ _ True False RequestPrepareSleep] by simp
qed

end
