(* ===== verification/Book_Library.thy ===== *)
theory Book_Library
  imports Reader_State Ideal_Card
begin

text \<open>
  The library of \<^verbatim>\<open>binbook-fw/src/library.rs\<close>: the books that a scan of the card found, the viewport of the menu on them,
  and the index file in which they are kept, in its first version and in the second one with a generation.  The results about
  the index are in \<open>Library_Index\<close>; here are the operations, the order of the names and the scan.
\<close>

subsection \<open>Entries and names\<close>

definition MAX_LIBRARY_ENTRIES :: nat where [simp]: "MAX_LIBRARY_ENTRIES = 200"
definition LIBRARY_VIEWPORT_CAPACITY :: nat where [simp]: "LIBRARY_VIEWPORT_CAPACITY = 15"
definition INDEX_HEADER_SIZE :: nat where [simp]: "INDEX_HEADER_SIZE = 16"
definition INDEX_V2_HEADER_SIZE :: nat where [simp]: "INDEX_V2_HEADER_SIZE = 20"
definition INDEX_RECORD_SIZE :: nat where "INDEX_RECORD_SIZE = 18 + MAX_BINBOOK_NAME_BYTES"
definition INDEX_MAGIC :: bytes where "INDEX_MAGIC = ascii ''BBLI''"
definition INDEX_VERSION :: u16 where [simp]: "INDEX_VERSION = 1"
definition INDEX_CRC_OFFSET :: nat where [simp]: "INDEX_CRC_OFFSET = 12"

lemma INDEX_RECORD_SIZE_eq [simp]: "INDEX_RECORD_SIZE = 139"
  by (simp add: INDEX_RECORD_SIZE_def)

datatype LibraryStatus = LsNoCard | LsCardError | LsNoBooks | LsReady | LsTooManyBooks | LsUnsupportedName

fun library_status_code :: "LibraryStatus \<Rightarrow> u8" where
  "library_status_code LsReady = 0"
| "library_status_code LsNoCard = 1"
| "library_status_code LsCardError = 2"
| "library_status_code LsNoBooks = 3"
| "library_status_code LsTooManyBooks = 4"
| "library_status_code LsUnsupportedName = 5"

definition library_status_from_code :: "u8 \<Rightarrow> LibraryStatus" where
  "library_status_from_code code =
    (if code = 0 then LsReady else if code = 1 then LsNoCard else if code = 2 then LsCardError else if code = 3 then LsNoBooks
     else if code = 4 then LsTooManyBooks else if code = 5 then LsUnsupportedName else LsCardError)"

lemma library_status_code [simp]: "library_status_from_code (library_status_code s) = s"
  by (cases s) (simp_all add: library_status_from_code_def)

datatype ScanErrorKind = SkNoCard | SkCardError

record LibraryEntry =
  le_name :: bytes
  le_size :: u64
  le_filename_hash :: u64
  le_mount_token :: "MountFileToken option"

record Library =
  lb_entries :: "LibraryEntry list"
  lb_status :: LibraryStatus

definition Library_empty :: Library where
  "Library_empty = \<lparr>lb_entries = [], lb_status = LsNoBooks\<rparr>"

definition ascii_lower :: "u8 \<Rightarrow> u8" where
  "ascii_lower byte = (if 0x41 \<le> byte \<and> byte \<le> 0x5A then byte + (0x61 - 0x41) else byte)"

definition ascii_casefold_order :: "bytes \<Rightarrow> bytes \<Rightarrow> Ordering" where
  "ascii_casefold_order left right =
    then_with (compare_bytes (map ascii_lower left) (map ascii_lower right)) (compare_bytes left right)"

definition entry_order :: "LibraryEntry \<Rightarrow> LibraryEntry \<Rightarrow> Ordering" where
  "entry_order left right = ascii_casefold_order (le_name left) (le_name right)"

text \<open>\<open>str::ends_with\<close>, and \<open>String::try_from\<close> for a string of bounded capacity.\<close>

definition ends_with :: "bytes \<Rightarrow> bytes \<Rightarrow> bool" where
  "ends_with name suffix = (length suffix \<le> length name \<and> drop (length name - length suffix) name = suffix)"

definition bounded_name :: "bytes \<Rightarrow> bytes option" where
  "bounded_name name = (if length name \<le> MAX_BINBOOK_NAME_BYTES then Some name else None)"

definition BINBOOK_SUFFIX :: bytes where "BINBOOK_SUFFIX = ascii ''.binbook''"

subsection \<open>Scanning the card\<close>

record IncrementalLibraryScan =
  il_library :: Library
  il_unsupported_name :: bool
  il_overflow :: bool

definition library_scan_begin :: "Library \<Rightarrow> IncrementalLibraryScan" where
  "library_scan_begin library = \<lparr>il_library = library\<lparr>lb_entries := [], lb_status := LsCardError\<rparr>,
     il_unsupported_name = False, il_overflow = False\<rparr>"

definition push_mounted :: "bytes \<Rightarrow> u64 \<Rightarrow> MountFileToken option \<Rightarrow> IncrementalLibraryScan \<Rightarrow> IncrementalLibraryScan" where
  "push_mounted name sz mount_token s =
    (if \<not> ends_with name BINBOOK_SUFFIX then s
     else
       case bounded_name name of
         None \<Rightarrow> s\<lparr>il_unsupported_name := True\<rparr>
       | Some name \<Rightarrow>
           let entry = \<lparr>le_name = name, le_size = sz, le_filename_hash = filename_hash name, le_mount_token = mount_token\<rparr> in
           if length (lb_entries (il_library s)) < MAX_LIBRARY_ENTRIES
           then s\<lparr>il_library := (il_library s)\<lparr>lb_entries := lb_entries (il_library s) @ [entry]\<rparr>\<rparr>
           else s\<lparr>il_overflow := True\<rparr>)"

definition library_scan_push :: "bytes \<Rightarrow> u64 \<Rightarrow> IncrementalLibraryScan \<Rightarrow> IncrementalLibraryScan" where
  "library_scan_push name sz s = push_mounted name sz None s"

definition scan_status :: "bool \<Rightarrow> bool \<Rightarrow> LibraryEntry list \<Rightarrow> LibraryStatus" where
  "scan_status unsupported_name overflow entries =
    (if unsupported_name then LsUnsupportedName else if overflow then LsTooManyBooks
     else if entries = [] then LsNoBooks else LsReady)"

definition library_scan_finish :: "IncrementalLibraryScan \<Rightarrow> Library" where
  "library_scan_finish s =
    (let entries = sort_by entry_order (lb_entries (il_library s)) in
     (il_library s)\<lparr>lb_entries := entries, lb_status := scan_status (il_unsupported_name s) (il_overflow s) entries\<rparr>)"

definition library_scan_fail :: "LibraryStatus \<Rightarrow> IncrementalLibraryScan \<Rightarrow> Library" where
  "library_scan_fail status s = (il_library s)\<lparr>lb_entries := [],
     lb_status := (if status \<in> {LsNoCard, LsCardError, LsTooManyBooks, LsUnsupportedName} then status else LsCardError)\<rparr>"

text \<open>
  The file system is a parameter: the entries it visits, and whether the visit succeeded.
\<close>

definition scan_visit :: "bytes \<times> u64 \<Rightarrow> LibraryEntry list \<times> bool \<times> bool \<Rightarrow> LibraryEntry list \<times> bool \<times> bool" where
  "scan_visit visited state =
    (let (name, sz) = visited; (entries, unsupported_name, overflow) = state in
     if \<not> ends_with name BINBOOK_SUFFIX then state
     else
       case bounded_name name of
         None \<Rightarrow> (entries, True, overflow)
       | Some name \<Rightarrow>
           let entry = \<lparr>le_name = name, le_size = sz, le_filename_hash = filename_hash name, le_mount_token = None\<rparr> in
           if length entries < MAX_LIBRARY_ENTRIES then (entries @ [entry], unsupported_name, overflow)
           else (entries, unsupported_name, True))"

definition scan_in_place :: "(bytes \<times> u64) list \<times> (unit, 'e) res \<Rightarrow> ('e \<Rightarrow> ScanErrorKind) \<Rightarrow> Library \<Rightarrow> (unit, 'f) res \<times> Library" where
  "scan_in_place fs classify_error library =
    (let (entries, unsupported_name, overflow) = fold scan_visit (fst fs) ([], False, False) in
     case snd fs of
       Err error \<Rightarrow> (Ok (), library\<lparr>lb_entries := [],
         lb_status := (case classify_error error of SkNoCard \<Rightarrow> LsNoCard | SkCardError \<Rightarrow> LsCardError)\<rparr>)
     | Panic \<Rightarrow> (Panic, library\<lparr>lb_entries := entries\<rparr>)
     | Ok _ \<Rightarrow>
         let entries = sort_by entry_order entries in
         (Ok (), library\<lparr>lb_entries := entries, lb_status := scan_status unsupported_name overflow entries\<rparr>))"

definition library_scan :: "(bytes \<times> u64) list \<times> (unit, 'e) res \<Rightarrow> ('e \<Rightarrow> ScanErrorKind) \<Rightarrow> (unit, 'f) res \<times> Library" where
  "library_scan fs classify_error = scan_in_place fs classify_error Library_empty"

subsection \<open>Refreshing the library and the state of the reader\<close>

record RefreshOutcome =
  ro_scan_status :: LibraryStatus
  ro_adopted :: bool
  ro_changed :: bool

definition visible_content_eq :: "Library \<Rightarrow> Library \<Rightarrow> bool" where
  "visible_content_eq l other =
    (lb_status l = lb_status other \<and> length (lb_entries l) = length (lb_entries other) \<and>
     list_all (\<lambda>(left, right). le_name left = le_name right \<and> le_size left = le_size right \<and>
       le_filename_hash left = le_filename_hash right) (zip (lb_entries l) (lb_entries other)))"

definition usable_status :: "LibraryStatus \<Rightarrow> bool" where
  "usable_status status = (status = LsReady \<or> status = LsNoBooks)"

definition apply_refresh :: "Library \<Rightarrow> Library \<Rightarrow> RefreshOutcome \<times> Library" where
  "apply_refresh scanned l =
    (if \<not> usable_status (lb_status scanned)
     then (\<lparr>ro_scan_status = lb_status scanned, ro_adopted = False, ro_changed = False\<rparr>, l)
     else (\<lparr>ro_scan_status = lb_status scanned, ro_adopted = True, ro_changed = \<not> visible_content_eq l scanned\<rparr>, scanned))"

text \<open>The form that swaps the two buffers returns both.\<close>

definition apply_refresh_in_place :: "Library \<Rightarrow> Library \<Rightarrow> RefreshOutcome \<times> Library \<times> Library" where
  "apply_refresh_in_place l scanned =
    (if \<not> usable_status (lb_status scanned)
     then (\<lparr>ro_scan_status = lb_status scanned, ro_adopted = False, ro_changed = False\<rparr>, l, scanned)
     else (\<lparr>ro_scan_status = lb_status scanned, ro_adopted = True, ro_changed = \<not> visible_content_eq l scanned\<rparr>, scanned, l))"

definition resolve_refreshed_selection :: "nat \<Rightarrow> nat option \<Rightarrow> nat \<Rightarrow> nat option" where
  "resolve_refreshed_selection previous_index matching_index new_total =
    (if new_total = 0 then None
     else
       Some (case matching_index of
         Some index \<Rightarrow> if index < new_total then index
           else if previous_index < new_total then previous_index else new_total - 1
       | None \<Rightarrow> if previous_index < new_total then previous_index else new_total - 1))"

definition index_for_filename_hash :: "u64 \<Rightarrow> Library \<Rightarrow> nat option" where
  "index_for_filename_hash hash l = position (\<lambda>entry. le_filename_hash entry = hash) (lb_entries l)"

definition library_prune_state :: "Library \<Rightarrow> ReaderState \<Rightarrow> bool \<times> ReaderState" where
  "library_prune_state l s =
    (if \<not> usable_status (lb_status l) then (False, s)
     else (True, prune_state (\<lambda>hash. list_ex (\<lambda>entry. le_filename_hash entry = hash) (lb_entries l)) s))"

subsection \<open>The index file\<close>

datatype LibraryIndexError =
    LiBufferTooSmall | LiRecordIndex | LiStatus | LiMagic | LiVersion | LiHeaderSize | LiReserved | LiTooManyEntries | LiLength
  | LiCrc | LiNameLength | LiNameEncoding | LiNamePadding | LiExtension | LiFilenameHash | LiDuplicateName | LiGeneration | LiOrdering

datatype LibraryIndexSlot = SlotA | SlotB | SlotLegacy

record LibraryIndexCursor =
  lx_entry_count :: u16
  lx_header_size :: u16
  lx_generation :: u32
  lx_slot :: LibraryIndexSlot

definition validate_index_header :: "bytes \<Rightarrow> nat \<Rightarrow> (unit, LibraryIndexError) res" where
  "validate_index_header header file_len =
    (if take 4 header \<noteq> INDEX_MAGIC then Err LiMagic
     else
       and_then (u16_at header 4) (\<lambda>version.
       if version \<noteq> INDEX_VERSION then Err LiVersion
       else
         and_then (u16_at header 6) (\<lambda>header_size.
         if unat header_size \<noteq> INDEX_HEADER_SIZE then Err LiHeaderSize
         else if subslice header 10 2 \<noteq> [0, 0] then Err LiReserved
         else
           and_then (u16_at header 8) (\<lambda>entry_count.
           if unat entry_count > MAX_LIBRARY_ENTRIES then Err LiTooManyEntries
           else if file_len \<noteq> INDEX_HEADER_SIZE + unat entry_count * INDEX_RECORD_SIZE then Err LiLength
           else Ok ()))))"

definition cursor_from_header :: "bytes \<Rightarrow> nat \<Rightarrow> (LibraryIndexCursor, LibraryIndexError) res" where
  "cursor_from_header header file_len =
    and_then (validate_index_header header file_len) (\<lambda>_.
    and_then (u16_at header 8) (\<lambda>entry_count.
    Ok \<lparr>lx_entry_count = entry_count, lx_header_size = of_nat INDEX_HEADER_SIZE, lx_generation = 0, lx_slot = SlotLegacy\<rparr>))"

definition cursor_from_v2_header :: "LibraryIndexSlot \<Rightarrow> bytes \<Rightarrow> nat \<Rightarrow> (LibraryIndexCursor, LibraryIndexError) res" where
  "cursor_from_v2_header slot header file_len =
    (if slot = SlotLegacy then Err LiVersion
     else if take 4 header \<noteq> INDEX_MAGIC then Err LiMagic
     else
       and_then (u16_at header 4) (\<lambda>version.
       if version \<noteq> 2 then Err LiVersion
       else
         and_then (u16_at header 6) (\<lambda>header_size.
         if unat header_size \<noteq> INDEX_V2_HEADER_SIZE then Err LiHeaderSize
         else if subslice header 10 2 \<noteq> [0, 0] then Err LiReserved
         else
           and_then (u16_at header 8) (\<lambda>entry_count.
           if unat entry_count > MAX_LIBRARY_ENTRIES then Err LiTooManyEntries
           else if file_len \<noteq> INDEX_V2_HEADER_SIZE + unat entry_count * INDEX_RECORD_SIZE then Err LiLength
           else
             and_then (u32_at header 12) (\<lambda>generation.
             if generation = 0 then Err LiGeneration
             else Ok \<lparr>lx_entry_count = entry_count, lx_header_size = of_nat INDEX_V2_HEADER_SIZE,
               lx_generation = generation, lx_slot = slot\<rparr>)))))"

definition cursor_file_len :: "LibraryIndexCursor \<Rightarrow> nat" where
  "cursor_file_len c = unat (lx_header_size c) + unat (lx_entry_count c) * INDEX_RECORD_SIZE"

definition cursor_record_range :: "nat \<Rightarrow> LibraryIndexCursor \<Rightarrow> (nat \<times> nat, LibraryIndexError) res" where
  "cursor_record_range index c =
    (if index \<ge> unat (lx_entry_count c) then Err LiRecordIndex
     else let start = unat (lx_header_size c) + index * INDEX_RECORD_SIZE in Ok (start, start + INDEX_RECORD_SIZE))"

definition select_library_index_cursor ::
    "LibraryIndexCursor option \<Rightarrow> LibraryIndexCursor option \<Rightarrow> LibraryIndexCursor option \<Rightarrow> LibraryIndexCursor option" where
  "select_library_index_cursor a b legacy =
    (case (a, b) of
       (Some a, Some b) \<Rightarrow>
         let delta = lx_generation b - lx_generation a in if delta \<noteq> 0 \<and> delta < 0x80000000 then Some b else Some a
     | (Some a, None) \<Rightarrow> Some a
     | (None, Some b) \<Rightarrow> Some b
     | (None, None) \<Rightarrow> legacy)"

definition entry_stores :: "LibraryEntry \<Rightarrow> stores" where
  "entry_stores entry = [(0, [of_nat (length (le_name entry))]), (2, to_le 8 (le_size entry)),
     (10, to_le 8 (le_filename_hash entry)), (18, le_name entry)]"

definition encode_index_entry :: "LibraryEntry \<Rightarrow> bytes \<Rightarrow> (bytes, 'e) res" where
  "encode_index_entry entry out = store_seq (entry_stores entry) (replicate (length out) 0)"

definition decode_index_entry :: "bytes \<Rightarrow> (LibraryEntry, LibraryIndexError) res" where
  "decode_index_entry bytes =
    and_then (byte_at bytes 1) (\<lambda>reserved.
    if reserved \<noteq> 0 then Err LiReserved
    else
      and_then (byte_at bytes 0) (\<lambda>len.
      let name_len = unat len in
      if name_len = 0 \<or> name_len > MAX_BINBOOK_NAME_BYTES then Err LiNameLength
      else
        let name_end = 18 + name_len in
        and_then (bytes_at bytes name_end (length bytes - name_end)) (\<lambda>padding.
        if list_ex (\<lambda>byte. byte \<noteq> 0) padding then Err LiNamePadding
        else
          and_then (bytes_at bytes 18 name_len) (\<lambda>name.
          if \<not> utf8_valid name then Err LiNameEncoding
          else if \<not> ends_with name BINBOOK_SUFFIX then Err LiExtension
          else
            and_then (u64_at bytes 10) (\<lambda>stored_hash.
            if stored_hash \<noteq> filename_hash name then Err LiFilenameHash
            else
              and_then (ok_or LiNameLength (bounded_name name)) (\<lambda>name.
              and_then (u64_at bytes 2) (\<lambda>sz.
              Ok \<lparr>le_name = name, le_size = sz, le_filename_hash = stored_hash, le_mount_token = None\<rparr>)))))))"

definition index_crc_update :: "u32 \<Rightarrow> bytes \<Rightarrow> u32" where
  "index_crc_update state data = fold (\<lambda>byte state. update_byte state byte) data state"

definition fill_index_header :: "nat \<Rightarrow> bytes \<Rightarrow> (bytes, 'e) res" where
  "fill_index_header entry_count out = store_seq [(0, INDEX_MAGIC), (4, to_le 2 INDEX_VERSION),
     (6, to_le 2 (of_nat INDEX_HEADER_SIZE :: u16)), (8, to_le 2 (of_nat entry_count :: u16))] (replicate (length out) 0)"

definition fill_index_v2_header :: "nat \<Rightarrow> u32 \<Rightarrow> bytes \<Rightarrow> (bytes, 'e) res" where
  "fill_index_v2_header entry_count generation out = store_seq [(0, INDEX_MAGIC), (4, to_le 2 (2 :: u16)),
     (6, to_le 2 (of_nat INDEX_V2_HEADER_SIZE :: u16)), (8, to_le 2 (of_nat entry_count :: u16)), (12, to_le 4 generation)]
     (replicate (length out) 0)"

definition encode_v2_header_fields :: "nat \<Rightarrow> u32 \<Rightarrow> u32 \<Rightarrow> bytes \<Rightarrow> (bytes, LibraryIndexError) res" where
  "encode_v2_header_fields entry_count generation crc out =
    (if entry_count > MAX_LIBRARY_ENTRIES then Err LiTooManyEntries
     else if generation = 0 then Err LiGeneration
     else and_then (fill_index_v2_header entry_count generation out) (\<lambda>out. put out 16 (to_le 4 crc)))"

definition validate_index_status :: "Library \<Rightarrow> (unit, LibraryIndexError) res" where
  "validate_index_status l = (if usable_status (lb_status l) then Ok () else Err LiStatus)"

definition encode_index_record :: "nat \<Rightarrow> bytes \<Rightarrow> Library \<Rightarrow> (bytes, LibraryIndexError) res" where
  "encode_index_record index out l =
    and_then (validate_index_status l) (\<lambda>_.
    if index < length (lb_entries l) then encode_index_entry (lb_entries l ! index) out else Err LiRecordIndex)"

fun header_crc_loop :: "nat \<Rightarrow> nat \<Rightarrow> bytes \<Rightarrow> u32 \<Rightarrow> Library \<Rightarrow> (u32, LibraryIndexError) res" where
  "header_crc_loop 0 index encoded crc_state l = Ok crc_state"
| "header_crc_loop (Suc n) index encoded crc_state l =
    and_then (encode_index_record index encoded l) (\<lambda>encoded.
    header_crc_loop n (Suc index) encoded (index_crc_update crc_state encoded) l)"

fun encode_records_loop :: "nat \<Rightarrow> nat \<Rightarrow> nat \<Rightarrow> bytes \<Rightarrow> bytes \<Rightarrow> Library \<Rightarrow> (bytes, LibraryIndexError) res" where
  "encode_records_loop 0 index header_size encoded out l = Ok out"
| "encode_records_loop (Suc n) index header_size encoded out l =
    and_then (encode_index_record index encoded l) (\<lambda>encoded.
    and_then (put out (header_size + index * INDEX_RECORD_SIZE) encoded) (\<lambda>out.
    encode_records_loop n (Suc index) header_size encoded out l))"

definition encode_index_header :: "bytes \<Rightarrow> Library \<Rightarrow> (bytes, LibraryIndexError) res" where
  "encode_index_header out l =
    and_then (validate_index_status l) (\<lambda>_.
    and_then (fill_index_header (length (lb_entries l)) out) (\<lambda>out.
    and_then (header_crc_loop (length (lb_entries l)) 0 (replicate INDEX_RECORD_SIZE 0) (index_crc_update (- 1) out) l) (\<lambda>crc_state.
    put out INDEX_CRC_OFFSET (to_le 4 (NOT crc_state)))))"

definition encode_index_v2_header :: "u32 \<Rightarrow> bytes \<Rightarrow> Library \<Rightarrow> (bytes, LibraryIndexError) res" where
  "encode_index_v2_header generation out l =
    and_then (validate_index_status l) (\<lambda>_.
    if generation = 0 then Err LiGeneration
    else
      and_then (fill_index_v2_header (length (lb_entries l)) generation out) (\<lambda>out.
      and_then (header_crc_loop (length (lb_entries l)) 0 (replicate INDEX_RECORD_SIZE 0) (index_crc_update (- 1) out) l) (\<lambda>crc_state.
      put out 16 (to_le 4 (NOT crc_state)))))"

definition index_encoded_len :: "Library \<Rightarrow> nat" where
  "index_encoded_len l = INDEX_HEADER_SIZE + length (lb_entries l) * INDEX_RECORD_SIZE"

definition index_v2_encoded_len :: "Library \<Rightarrow> nat" where
  "index_v2_encoded_len l = INDEX_V2_HEADER_SIZE + length (lb_entries l) * INDEX_RECORD_SIZE"

definition encode_index :: "bytes \<Rightarrow> Library \<Rightarrow> (nat \<times> bytes, LibraryIndexError) res" where
  "encode_index out l =
    (let used = index_encoded_len l in
     if length out < used then Err LiBufferTooSmall
     else
       and_then (encode_index_header (replicate INDEX_HEADER_SIZE 0) l) (\<lambda>header.
       and_then (put out 0 header) (\<lambda>out.
       and_then (encode_records_loop (length (lb_entries l)) 0 INDEX_HEADER_SIZE (replicate INDEX_RECORD_SIZE 0) out l) (\<lambda>out.
       Ok (used, out)))))"

definition encode_index_v2 :: "u32 \<Rightarrow> bytes \<Rightarrow> Library \<Rightarrow> (nat \<times> bytes, LibraryIndexError) res" where
  "encode_index_v2 generation out l =
    (let used = index_v2_encoded_len l in
     if length out < used then Err LiBufferTooSmall
     else
       and_then (encode_index_v2_header generation (take INDEX_V2_HEADER_SIZE out) l) (\<lambda>header.
       and_then (put out 0 header) (\<lambda>out.
       and_then (encode_records_loop (length (lb_entries l)) 0 INDEX_V2_HEADER_SIZE (replicate INDEX_RECORD_SIZE 0) out l) (\<lambda>out.
       Ok (used, out)))))"

subsection \<open>Validating an index\<close>

record LibraryIndexCursorValidator =
  iv_cursor :: LibraryIndexCursor
  iv_next_record :: nat
  iv_stored_crc :: u32
  iv_crc_state :: u32
  iv_previous_name :: "bytes option"

definition validator_new :: "LibraryIndexCursor \<Rightarrow> bytes \<Rightarrow> (LibraryIndexCursorValidator, 'e) res" where
  "validator_new cursor header =
    (let crc_offset = (if lx_slot cursor = SlotLegacy then INDEX_CRC_OFFSET else 16) in
     and_then (u32_at header crc_offset) (\<lambda>stored_crc.
     Ok \<lparr>iv_cursor = cursor, iv_next_record = 0, iv_stored_crc = stored_crc,
       iv_crc_state = index_crc_update (- 1) (blank crc_offset 4 header), iv_previous_name = None\<rparr>))"

definition name_follows :: "bytes option \<Rightarrow> bytes \<Rightarrow> (unit, LibraryIndexError) res" where
  "name_follows previous_name name =
    (case previous_name of
       None \<Rightarrow> Ok ()
     | Some previous \<Rightarrow>
         (case ascii_casefold_order previous name of
            Less \<Rightarrow> Ok ()
          | Equal \<Rightarrow> if previous = name then Err LiDuplicateName else Err LiOrdering
          | Greater \<Rightarrow> Err LiOrdering))"

definition validator_push_record :: "bytes \<Rightarrow> LibraryIndexCursorValidator \<Rightarrow> (unit, LibraryIndexError) res \<times> LibraryIndexCursorValidator" where
  "validator_push_record bytes v =
    (if iv_next_record v \<ge> unat (lx_entry_count (iv_cursor v)) then (Err LiLength, v)
     else
       on_ok (decode_index_entry bytes) v (\<lambda>entry.
       on_ok (name_follows (iv_previous_name v) (le_name entry)) v (\<lambda>_.
       (Ok (), v\<lparr>iv_previous_name := Some (le_name entry), iv_crc_state := index_crc_update (iv_crc_state v) bytes,
         iv_next_record := iv_next_record v + 1\<rparr>))))"

definition validator_finish :: "LibraryIndexCursorValidator \<Rightarrow> (unit, LibraryIndexError) res" where
  "validator_finish v =
    (if iv_next_record v \<noteq> unat (lx_entry_count (iv_cursor v)) then Err LiLength
     else if NOT (iv_crc_state v) \<noteq> iv_stored_crc v then Err LiCrc
     else Ok ())"

text \<open>\<open>chunks_exact\<close> leaves out an incomplete last chunk.\<close>

function (sequential) chunks_exact :: "nat \<Rightarrow> 'a list \<Rightarrow> 'a list list" where
  "chunks_exact n xs = (if n = 0 \<or> length xs < n then [] else take n xs # chunks_exact n (drop n xs))"
  by pat_completeness auto
termination by (relation "measure (length \<circ> snd)") auto

declare chunks_exact.simps [simp del]

fun push_records :: "bytes list \<Rightarrow> LibraryIndexCursorValidator \<Rightarrow> (LibraryIndexCursorValidator, LibraryIndexError) res" where
  "push_records [] v = Ok v"
| "push_records (r # rs) v =
    (let (result, v) = validator_push_record r v in and_then result (\<lambda>_. push_records rs v))"

definition validate_library_index_bytes :: "LibraryIndexSlot \<Rightarrow> bytes \<Rightarrow> (LibraryIndexCursor, LibraryIndexError) res" where
  "validate_library_index_bytes slot bytes =
    and_then (case slot of
       SlotLegacy \<Rightarrow> if length bytes < INDEX_HEADER_SIZE then Err LiLength
         else cursor_from_header (take INDEX_HEADER_SIZE bytes) (length bytes)
     | _ \<Rightarrow> if length bytes < INDEX_V2_HEADER_SIZE then Err LiLength
         else cursor_from_v2_header slot (take INDEX_V2_HEADER_SIZE bytes) (length bytes)) (\<lambda>cursor.
    let header_size = unat (lx_header_size cursor) in
    and_then (bytes_at bytes 0 header_size) (\<lambda>header.
    and_then (validator_new cursor header) (\<lambda>validator.
    and_then (push_records (chunks_exact INDEX_RECORD_SIZE (drop header_size bytes)) validator) (\<lambda>validator.
    and_then (validator_finish validator) (\<lambda>_. Ok cursor)))))"

subsection \<open>Decoding an index\<close>

record LibraryIndexDecoder =
  id_library :: Library
  id_expected_count :: nat
  id_next_record :: nat
  id_stored_crc :: u32
  id_crc_state :: u32

definition fail_library :: "LibraryStatus \<Rightarrow> Library \<Rightarrow> Library" where
  "fail_library status l = library_scan_fail status (library_scan_begin l)"

definition index_decoder_new :: "bytes \<Rightarrow> nat \<Rightarrow> Library \<Rightarrow> (LibraryIndexDecoder, LibraryIndexError) res \<times> Library" where
  "index_decoder_new header file_len l =
    (case validate_index_header header file_len of
       Err error \<Rightarrow> (Err error, fail_library LsCardError l)
     | Panic \<Rightarrow> (Panic, l)
     | Ok _ \<Rightarrow>
         on_ok (u16_at header 8) l (\<lambda>entry_count.
         let l = l\<lparr>lb_entries := [], lb_status := LsNoBooks\<rparr> in
         on_ok (u32_at header INDEX_CRC_OFFSET) l (\<lambda>stored_crc.
         (Ok \<lparr>id_library = l, id_expected_count = unat entry_count, id_next_record = 0, id_stored_crc = stored_crc,
            id_crc_state = index_crc_update (- 1) (blank INDEX_CRC_OFFSET 4 header)\<rparr>, l))))"

definition decoder_push_record :: "bytes \<Rightarrow> LibraryIndexDecoder \<Rightarrow> (unit, LibraryIndexError) res \<times> LibraryIndexDecoder" where
  "decoder_push_record bytes d =
    (if id_next_record d \<ge> id_expected_count d then (Err LiLength, d)
     else
       let d = d\<lparr>id_crc_state := index_crc_update (id_crc_state d) bytes\<rparr> in
       on_ok (decode_index_entry bytes) d (\<lambda>entry.
       if length (lb_entries (id_library d)) \<ge> MAX_LIBRARY_ENTRIES then (Err LiTooManyEntries, d)
       else (Ok (), d\<lparr>id_library := (id_library d)\<lparr>lb_entries := lb_entries (id_library d) @ [entry]\<rparr>,
         id_next_record := id_next_record d + 1\<rparr>)))"

fun adjacent_equal :: "LibraryEntry list \<Rightarrow> bool" where
  "adjacent_equal (a # b # rest) = (le_name a = le_name b \<or> adjacent_equal (b # rest))"
| "adjacent_equal _ = False"

definition decoder_finish :: "LibraryIndexDecoder \<Rightarrow> (unit, LibraryIndexError) res \<times> Library" where
  "decoder_finish d =
    (if id_next_record d \<noteq> id_expected_count d then (Err LiLength, fail_library LsCardError (id_library d))
     else if NOT (id_crc_state d) \<noteq> id_stored_crc d then (Err LiCrc, fail_library LsCardError (id_library d))
     else
       let l = (id_library d)\<lparr>lb_entries := sort_by entry_order (lb_entries (id_library d))\<rparr> in
       if adjacent_equal (lb_entries l) then (Err LiDuplicateName, fail_library LsCardError l)
       else (Ok (), l\<lparr>lb_status := (if lb_entries l = [] then LsNoBooks else LsReady)\<rparr>))"

definition decoder_fail :: "LibraryStatus \<Rightarrow> LibraryIndexDecoder \<Rightarrow> Library" where
  "decoder_fail status d = fail_library status (id_library d)"

fun decoder_push_records :: "bytes list \<Rightarrow> LibraryIndexDecoder \<Rightarrow> (LibraryIndexDecoder, LibraryIndexError) res" where
  "decoder_push_records [] d = Ok d"
| "decoder_push_records (r # rs) d =
    (let (result, d) = decoder_push_record r d in and_then result (\<lambda>_. decoder_push_records rs d))"

definition decode_index :: "bytes \<Rightarrow> (Library, LibraryIndexError) res" where
  "decode_index data =
    (if length data < INDEX_HEADER_SIZE then Err LiLength
     else
       and_then (fst (index_decoder_new (take INDEX_HEADER_SIZE data) (length data) Library_empty)) (\<lambda>decoder.
       and_then (decoder_push_records (chunks_exact INDEX_RECORD_SIZE (drop INDEX_HEADER_SIZE data)) decoder) (\<lambda>decoder.
       let (result, l) = decoder_finish decoder in and_then result (\<lambda>_. Ok l))))"

subsection \<open>The viewport of the menu\<close>

record LibraryViewport =
  vw_start :: nat
  vw_total :: nat
  vw_entries :: "LibraryEntry list"
  vw_valid :: bool
  vw_cursor :: "LibraryIndexCursor option"

definition LibraryViewport_empty :: LibraryViewport where
  "LibraryViewport_empty = \<lparr>vw_start = 0, vw_total = 0, vw_entries = [], vw_valid = False, vw_cursor = None\<rparr>"

definition viewport_adopt_empty_cursor :: "LibraryIndexCursor \<Rightarrow> LibraryViewport \<Rightarrow> LibraryViewport" where
  "viewport_adopt_empty_cursor cursor w =
    w\<lparr>vw_start := 0, vw_total := 0, vw_entries := [], vw_valid := True, vw_cursor := Some cursor\<rparr>"

definition viewport_begin :: "nat \<Rightarrow> LibraryViewport \<Rightarrow> LibraryViewport" where
  "viewport_begin start w = w\<lparr>vw_start := start, vw_total := 0, vw_entries := [], vw_valid := False, vw_cursor := None\<rparr>"

definition viewport_push :: "LibraryEntry \<Rightarrow> LibraryViewport \<Rightarrow> (unit, LibraryIndexError) res \<times> LibraryViewport" where
  "viewport_push entry w =
    (if length (vw_entries w) < LIBRARY_VIEWPORT_CAPACITY then (Ok (), w\<lparr>vw_entries := vw_entries w @ [entry]\<rparr>)
     else (Err LiTooManyEntries, w))"

definition viewport_finish :: "LibraryIndexCursor \<Rightarrow> LibraryViewport \<Rightarrow> LibraryViewport" where
  "viewport_finish cursor w =
    w\<lparr>vw_total := unat (lx_entry_count cursor), vw_valid := True, vw_cursor := Some cursor\<rparr>"

definition viewport_fail :: "LibraryViewport \<Rightarrow> LibraryViewport" where
  "viewport_fail w = w\<lparr>vw_entries := [], vw_total := 0, vw_valid := False, vw_cursor := None\<rparr>"

end
