(* ===== verification/Library_Index.thy ===== *)
theory Library_Index
  imports Book_Library
begin

text \<open>
  The index file of \<^verbatim>\<open>binbook-fw/src/library.rs\<close>: the validator accepts exactly the files that hold the entries of a
  library in the strict order of their names, with the right checksum, and the encoders write such files.  The decoder of
  the first version accepts every order and sorts.
\<close>

subsection \<open>The order of the names\<close>

interpretation names: comparison ascii_casefold_order
  unfolding ascii_casefold_order_def[abs_def]
  by (rule comparison_then_with[OF comparison_on[OF bytes.comparison_axioms, of "map ascii_lower"] bytes.comparison_axioms])

interpretation entries: comparison entry_order
  unfolding entry_order_def[abs_def] by (rule comparison_on[OF names.comparison_axioms])

lemma casefold_Equal [simp]: "ascii_casefold_order a b = Equal \<longleftrightarrow> a = b"
  by (auto simp: ascii_casefold_order_def then_with_eq)

lemma entries_unequal: "entries.unequal es \<longleftrightarrow> distinct (map le_name es)"
  unfolding entries.unequal_def by (induction es) (auto simp: entry_order_def)

subsection \<open>Entries\<close>

definition entry_ok :: "LibraryEntry \<Rightarrow> bool" where
  "entry_ok e \<longleftrightarrow> le_name e \<noteq> [] \<and> length (le_name e) \<le> 121 \<and> utf8_valid (le_name e) \<and> ends_with (le_name e) BINBOOK_SUFFIX \<and>
    le_filename_hash e = filename_hash (le_name e) \<and> le_mount_token e = None"

definition entry_bytes :: "LibraryEntry \<Rightarrow> bytes" where
  "entry_bytes e = [of_nat (length (le_name e)), 0] @ to_le 8 (le_size e) @ to_le 8 (le_filename_hash e) @ le_name e @
    replicate (121 - length (le_name e)) 0"

lemma length_entry_bytes: "length (le_name e) \<le> 121 \<Longrightarrow> length (entry_bytes e) = 139"
  by (simp add: entry_bytes_def)

lemma encode_index_entry_eq:
  assumes "length (le_name e) \<le> 121" "length out = 139"
  shows "encode_index_entry e out = Ok (entry_bytes e)"
proof -
  have up: "upwards 0 (entry_stores e)" and len: "length (layout 0 (entry_stores e)) = 18 + length (le_name e)"
    and lay: "layout 0 (entry_stores e) = [of_nat (length (le_name e)), 0] @ to_le 8 (le_size e) @ to_le 8 (le_filename_hash e) @ le_name e"
    by (simp_all add: entry_stores_def)
  have "(store_seq (entry_stores e) (replicate 139 0 @ []) :: (bytes, 'a) res) =
      Ok (layout 0 (entry_stores e) @ replicate (139 - length (layout 0 (entry_stores e))) 0 @ [])"
    by (rule store_seq_zeros[OF up]) (use assms(1) len in simp)
  then show ?thesis using assms by (simp only: encode_index_entry_def entry_bytes_def len lay append_Nil2) simp
qed

lemma all_zero: "list_all (\<lambda>b. b = 0) xs \<longleftrightarrow> xs = replicate (length xs) 0"
  by (induction xs) auto

lemma not_ex_nonzero: "\<not> list_ex (\<lambda>b. b \<noteq> 0) xs \<longleftrightarrow> xs = replicate (length xs) 0"
  unfolding all_zero[symmetric] by (induction xs) simp_all

lemma decode_index_entry_bytes:
  assumes "entry_ok e"
  shows "decode_index_entry (entry_bytes e) = Ok e"
proof -
  let ?n = "length (le_name e)"
  have ok: "0 < ?n" "?n \<le> 121" "utf8_valid (le_name e)" "ends_with (le_name e) BINBOOK_SUFFIX"
    "le_filename_hash e = filename_hash (le_name e)" "le_mount_token e = None"
    using assms by (simp_all add: entry_ok_def)
  have n: "unat (of_nat ?n :: u8) = ?n" using ok(2) by (simp add: unat_of_nat take_bit_nat_eq_self)
  have b: "byte_at (entry_bytes e) (Suc 0) = (Ok 0 :: (_, LibraryIndexError) res)"
    "byte_at (entry_bytes e) 0 = (Ok (of_nat ?n) :: (_, LibraryIndexError) res)"
    "bytes_at (entry_bytes e) (18 + ?n) (121 - ?n) = (Ok (replicate (121 - ?n) 0) :: (_, LibraryIndexError) res)"
    "bytes_at (entry_bytes e) 18 ?n = (Ok (le_name e) :: (_, LibraryIndexError) res)"
    "u64_at (entry_bytes e) 10 = (Ok (le_filename_hash e) :: (_, LibraryIndexError) res)"
    "u64_at (entry_bytes e) 2 = (Ok (le_size e) :: (_, LibraryIndexError) res)"
    using ok(2) by (simp_all add: entry_bytes_def byte_at_Ok bytes_at_Ok u64_at_Ok slice_read of_le_to_le nth_append)
  have eta: "\<lparr>le_name = le_name e, le_size = le_size e, le_filename_hash = filename_hash (le_name e), le_mount_token = None\<rparr> = e"
    using ok(5,6) by (cases e) simp
  have "\<not> list_ex (\<lambda>b. b \<noteq> (0 :: u8)) (replicate m 0)" for m by (simp add: not_ex_nonzero)
  then show ?thesis using ok(1-5)
    by (simp add: decode_index_entry_def b n length_entry_bytes eta bounded_name_def Let_def not_le)
qed

lemma decode_index_entry_only:
  assumes "length bs = 139" "decode_index_entry bs = Ok e"
  shows "entry_ok e \<and> bs = entry_bytes e"
proof -
  let ?n = "unat (bs ! 0)"
  have c: "bs ! Suc 0 = 0" "0 < ?n" "?n \<le> 121" "subslice bs (18 + ?n) (121 - ?n) = replicate (121 - ?n) 0"
    "utf8_valid (subslice bs 18 ?n)" "ends_with (subslice bs 18 ?n) BINBOOK_SUFFIX"
    "of_le (subslice bs 10 8) = filename_hash (subslice bs 18 ?n)"
    and e: "e = \<lparr>le_name = subslice bs 18 ?n, le_size = of_le (subslice bs 2 8), le_filename_hash = of_le (subslice bs 10 8),
      le_mount_token = None\<rparr>"
    using assms
    by (auto simp: decode_index_entry_def byte_at_Ok bytes_at_Ok u64_at_Ok Let_def bounded_name_def not_ex_nonzero split: if_splits)
  have n: "length (subslice bs 18 ?n) = ?n" using assms(1) c(3) by simp
  have "subslice bs 18 ?n \<noteq> []" using n c(2) by force
  then have "entry_ok e" using c n by (simp add: entry_ok_def e)
  moreover have "entry_bytes e = take 2 bs @ subslice bs 2 8 @ subslice bs 10 8 @ subslice bs 18 ?n @ subslice bs (18 + ?n) (121 - ?n)"
  proof -
    have "take 2 bs = [bs ! 0, bs ! Suc 0]" using assms(1) by (simp add: numeral_2_eq_2 take_Suc_conv_app_nth)
    then show ?thesis using assms(1) c(1) n by (simp add: entry_bytes_def e to_le_of_le c(4))
  qed
  moreover have "\<dots> = bs"
  proof -
    have "subslice bs (18 + ?n) (121 - ?n) = drop (18 + ?n) bs" using assms(1) by (simp add: subslice_def)
    then show ?thesis by (simp add: slice_join)
  qed
  ultimately show ?thesis by simp
qed

lemma decode_index_entry_iff:
  "length bs = 139 \<Longrightarrow> decode_index_entry bs = Ok e \<longleftrightarrow> entry_ok e \<and> bs = entry_bytes e"
  using decode_index_entry_only decode_index_entry_bytes by blast

lemma entry_bytes_inject: "entry_ok e \<Longrightarrow> entry_ok e' \<Longrightarrow> entry_bytes e = entry_bytes e' \<longleftrightarrow> e = e'"
  by (metis decode_index_entry_bytes res.inject(1))

subsection \<open>Checksums and chunks\<close>

lemma index_crc_update_eq: "index_crc_update state data = update state data"
  unfolding index_crc_update_def by (induction data arbitrary: state) simp_all

lemma chunks_exact_concat:
  "0 < n \<Longrightarrow> \<forall>x\<in>set xss. length x = n \<Longrightarrow> chunks_exact n (concat xss) = xss"
proof (induction xss)
  case Nil
  then show ?case by (simp add: chunks_exact.simps)
next
  case (Cons x xss)
  then show ?case by (subst chunks_exact.simps) simp
qed

lemma chunks_exact_only:
  "0 < n \<Longrightarrow> length xs = k * n \<Longrightarrow>
    xs = concat (chunks_exact n xs) \<and> length (chunks_exact n xs) = k \<and> (\<forall>x\<in>set (chunks_exact n xs). length x = n)"
proof (induction k arbitrary: xs)
  case 0
  then show ?case by (simp add: chunks_exact.simps)
next
  case (Suc k)
  have "chunks_exact n xs = take n xs # chunks_exact n (drop n xs)"
    using Suc.prems by (subst chunks_exact.simps) simp
  moreover have "length (drop n xs) = k * n" using Suc.prems by simp
  note Suc.IH[OF Suc.prems(1) this]
  moreover have "length (take n xs) = n" using Suc.prems by simp
  ultimately show ?case by (metis append_take_drop_id concat.simps(2) length_Cons set_ConsD)
qed

subsection \<open>What the validator accepts\<close>

abbreviation index_ascending :: "LibraryEntry list \<Rightarrow> bool" where
  "index_ascending es \<equiv> names.strictly_ascending (map le_name es)"

definition preceded :: "bytes option \<Rightarrow> bytes list \<Rightarrow> bytes list" where
  "preceded previous ns = (case previous of None \<Rightarrow> ns | Some p \<Rightarrow> p # ns)"

lemma name_follows_Ok:
  "name_follows previous name = Ok () \<longleftrightarrow> names.strictly_ascending (preceded previous [name])"
  by (auto simp: name_follows_def preceded_def names.strictly_ascending_Cons2 names.compare_refl split: option.splits Ordering.splits)

lemma name_follows_not_Panic [simp]: "name_follows previous name \<noteq> Panic"
  by (auto simp: name_follows_def split: option.splits Ordering.splits)

lemma preceded_Cons: "names.strictly_ascending (preceded previous (n # ns)) \<longleftrightarrow>
    names.strictly_ascending (preceded previous [n]) \<and> names.strictly_ascending (preceded (Some n) ns)"
  by (auto simp: preceded_def names.strictly_ascending_Cons2 split: option.splits)

lemma validator_push_record_iff:
  assumes "length r = 139"
  shows "validator_push_record r v = (Ok (), w) \<longleftrightarrow>
    (\<exists>e. entry_ok e \<and> r = entry_bytes e \<and> iv_next_record v < unat (lx_entry_count (iv_cursor v)) \<and>
      names.strictly_ascending (preceded (iv_previous_name v) [le_name e]) \<and>
      w = v\<lparr>iv_previous_name := Some (le_name e), iv_crc_state := update (iv_crc_state v) r, iv_next_record := iv_next_record v + 1\<rparr>)"
  (is "_ = ?rhs")
proof
  assume "validator_push_record r v = (Ok (), w)"
  then show ?rhs
    using assms
    by (auto simp: validator_push_record_def decode_index_entry_iff name_follows_Ok index_crc_update_eq
        split: if_splits on_ok_split_asm)
next
  assume ?rhs
  then show "validator_push_record r v = (Ok (), w)"
    by (auto simp: validator_push_record_def decode_index_entry_bytes name_follows_Ok[THEN iffD2] index_crc_update_eq)
qed

lemma push_records_iff:
  "\<forall>r\<in>set rs. length r = 139 \<Longrightarrow> push_records rs v = Ok w \<longleftrightarrow>
    (\<exists>es. rs = map entry_bytes es \<and> (\<forall>e\<in>set es. entry_ok e) \<and>
      (es = [] \<or> iv_next_record v + length es \<le> unat (lx_entry_count (iv_cursor v))) \<and>
      names.strictly_ascending (preceded (iv_previous_name v) (map le_name es)) \<and>
      w = v\<lparr>iv_previous_name := (if es = [] then iv_previous_name v else Some (le_name (last es))),
        iv_crc_state := update (iv_crc_state v) (concat rs), iv_next_record := iv_next_record v + length es\<rparr>)"
  (is "_ \<Longrightarrow> _ = ?rhs rs v w")
proof (induction rs arbitrary: v)
  case Nil
  have "names.strictly_ascending (preceded p [])" for p by (simp add: preceded_def split: option.splits)
  then show ?case by auto
next
  case (Cons r rs)
  have r: "length r = 139" and rs: "\<forall>r\<in>set rs. length r = 139" using Cons.prems by simp_all
  let ?v = "\<lambda>e. v\<lparr>iv_previous_name := Some (le_name e), iv_crc_state := update (iv_crc_state v) r, iv_next_record := iv_next_record v + 1\<rparr>"
  have step: "push_records (r # rs) v = Ok w \<longleftrightarrow> (\<exists>u. validator_push_record r v = (Ok (), u) \<and> push_records rs u = Ok w)"
    by (cases "validator_push_record r v") (auto simp: and_then_Ok_iff)
  show ?case
  proof
    assume "push_records (r # rs) v = Ok w"
    then obtain e where e: "entry_ok e" "r = entry_bytes e" "iv_next_record v < unat (lx_entry_count (iv_cursor v))"
      "names.strictly_ascending (preceded (iv_previous_name v) [le_name e])" "push_records rs (?v e) = Ok w"
      unfolding step validator_push_record_iff[OF r] by blast
    obtain es where es: "rs = map entry_bytes es" "\<forall>e\<in>set es. entry_ok e"
      "es = [] \<or> Suc (iv_next_record v) + length es \<le> unat (lx_entry_count (iv_cursor v))"
      "names.strictly_ascending (preceded (Some (le_name e)) (map le_name es))"
      "w = ?v e\<lparr>iv_previous_name := (if es = [] then iv_previous_name (?v e) else Some (le_name (last es))),
        iv_crc_state := update (update (iv_crc_state v) r) (concat rs), iv_next_record := iv_next_record v + 1 + length es\<rparr>"
      using Cons.IH[OF rs, of "?v e"] e(5) by auto
    have "iv_next_record v + length (e # es) \<le> unat (lx_entry_count (iv_cursor v))" using es(3) e(3) by auto
    moreover have "names.strictly_ascending (preceded (iv_previous_name v) (map le_name (e # es)))"
      using e(4) es(4) by (simp add: preceded_Cons[of _ _ "map le_name es"])
    ultimately show "?rhs (r # rs) v w"
      using e es by (intro exI[of _ "e # es"]) (simp add: update_append)
  next
    assume "?rhs (r # rs) v w"
    then obtain es' where es': "r # rs = map entry_bytes es'" "\<forall>e\<in>set es'. entry_ok e"
      "es' = [] \<or> iv_next_record v + length es' \<le> unat (lx_entry_count (iv_cursor v))"
      "names.strictly_ascending (preceded (iv_previous_name v) (map le_name es'))"
      "w = v\<lparr>iv_previous_name := (if es' = [] then iv_previous_name v else Some (le_name (last es'))),
        iv_crc_state := update (iv_crc_state v) (concat (r # rs)), iv_next_record := iv_next_record v + length es'\<rparr>"
      by (elim exE conjE) (rule that)
    obtain e es where cons: "es' = e # es" using es'(1) by (cases es') auto
    have "push_records rs (?v e) = Ok w"
      unfolding Cons.IH[OF rs] using es' by (intro exI[of _ es]) (auto simp: cons preceded_Cons[of _ _ "map le_name es"] update_append)
    then show "push_records (r # rs) v = Ok w"
      unfolding step validator_push_record_iff[OF r] using es' by (auto simp: cons preceded_Cons[of _ _ "map le_name es"])
  qed
qed

definition header_size :: "LibraryIndexSlot \<Rightarrow> nat" where
  "header_size slot = (if slot = SlotLegacy then 16 else 20)"

definition index_head :: "LibraryIndexSlot \<Rightarrow> u32 \<Rightarrow> nat \<Rightarrow> bytes" where
  "index_head slot generation n = INDEX_MAGIC @
    (if slot = SlotLegacy then to_le 2 (1 :: u16) @ to_le 2 (16 :: u16) else to_le 2 (2 :: u16) @ to_le 2 (20 :: u16)) @
    to_le 2 (of_nat n :: u16) @ [0, 0] @ (if slot = SlotLegacy then [] else to_le 4 generation)"

definition index_body :: "LibraryEntry list \<Rightarrow> bytes" where
  "index_body es = concat (map entry_bytes es)"

definition index_crc :: "LibraryIndexSlot \<Rightarrow> u32 \<Rightarrow> LibraryEntry list \<Rightarrow> u32" where
  "index_crc slot generation es = iso_hdlc (index_head slot generation (length es) @ replicate 4 0 @ index_body es)"

definition index_wire :: "LibraryIndexSlot \<Rightarrow> u32 \<Rightarrow> LibraryEntry list \<Rightarrow> bytes" where
  "index_wire slot generation es =
    index_head slot generation (length es) @ to_le 4 (index_crc slot generation es) @ index_body es"

definition generation_ok :: "LibraryIndexSlot \<Rightarrow> u32 \<Rightarrow> bool" where
  "generation_ok slot generation \<longleftrightarrow> (slot = SlotLegacy \<longleftrightarrow> generation = 0)"

definition index_cursor :: "LibraryIndexSlot \<Rightarrow> u32 \<Rightarrow> nat \<Rightarrow> LibraryIndexCursor" where
  "index_cursor slot generation n =
    \<lparr>lx_entry_count = of_nat n, lx_header_size = of_nat (header_size slot), lx_generation = generation, lx_slot = slot\<rparr>"

lemma length_magic [simp]: "length INDEX_MAGIC = 4"
  by (simp add: INDEX_MAGIC_def ascii_def)

lemma length_index_head [simp]: "length (index_head slot generation n) = header_size slot - 4"
  by (simp add: index_head_def header_size_def)

lemma length_index_body: "\<forall>e\<in>set es. length (le_name e) \<le> 121 \<Longrightarrow> length (index_body es) = length es * 139"
  unfolding index_body_def by (induction es) (simp_all add: length_entry_bytes)

definition cursor_from :: "LibraryIndexSlot \<Rightarrow> bytes \<Rightarrow> nat \<Rightarrow> (LibraryIndexCursor, LibraryIndexError) res" where
  "cursor_from slot header file_len =
    (case slot of SlotLegacy \<Rightarrow> cursor_from_header header file_len | _ \<Rightarrow> cursor_from_v2_header slot header file_len)"

lemma subslice_fields:
  "take 12 p = take 4 p @ subslice p 4 2 @ subslice p 6 2 @ subslice p 8 2 @ subslice p 10 2"
  "take 16 p = take 4 p @ subslice p 4 2 @ subslice p 6 2 @ subslice p 8 2 @ subslice p 10 2 @ subslice p 12 4"
proof -
  have j: "take (m + n) p = take m p @ subslice p m n" for m n using subslice_join[of p 0 m n] by (simp add: subslice_prefix)
  show "take 12 p = take 4 p @ subslice p 4 2 @ subslice p 6 2 @ subslice p 8 2 @ subslice p 10 2"
    using j[of 4 2] j[of 6 2] j[of 8 2] j[of 10 2] by simp
  then show "take 16 p = take 4 p @ subslice p 4 2 @ subslice p 6 2 @ subslice p 8 2 @ subslice p 10 2 @ subslice p 12 4"
    using j[of 12 4] by simp
qed

lemma u16_bytes: "i + 2 \<le> length p \<Longrightarrow> subslice p i 2 = to_le 2 (of_le (subslice p i 2) :: u16)"
  by (simp add: to_le_of_le)

lemma index_header_only:
  assumes "length header = header_size slot" "cursor_from slot header file_len = Ok c"
  shows "\<exists>generation n. n \<le> 200 \<and> generation_ok slot generation \<and> take (header_size slot - 4) header = index_head slot generation n \<and>
    file_len = header_size slot + n * 139 \<and> c = index_cursor slot generation n"
proof (cases "slot = SlotLegacy")
  case True
  let ?n = "unat (of_le (subslice header 8 2) :: u16)"
  have len: "length header = 16" using assms(1) True by (simp add: header_size_def)
  have c: "take 4 header = INDEX_MAGIC" "of_le (subslice header 4 2) = (1 :: u16)" "unat (of_le (subslice header 6 2) :: u16) = 16"
    "subslice header 10 2 = [0, 0]" "?n \<le> 200" "file_len = 16 + ?n * 139"
    "c = \<lparr>lx_entry_count = of_le (subslice header 8 2), lx_header_size = 16, lx_generation = 0, lx_slot = SlotLegacy\<rparr>"
    using assms(2) True len
    by (auto simp: cursor_from_def cursor_from_header_def validate_index_header_def u16_at_Ok and_then_Ok_iff split: if_splits)
  have "of_le (subslice header 6 2) = (16 :: u16)" using c(3) by (simp add: word_unat_eq_iff)
  then have "take 12 header = index_head slot 0 ?n"
    using subslice_fields(1)[of header] u16_bytes[of 4 header] u16_bytes[of 6 header] u16_bytes[of 8 header] len
    by (simp add: index_head_def True c(1,2,4))
  then show ?thesis using c(5-7) True
    by (intro exI[of _ 0] exI[of _ ?n]) (simp add: header_size_def generation_ok_def index_cursor_def)
next
  case False
  let ?n = "unat (of_le (subslice header 8 2) :: u16)" and ?g = "of_le (subslice header 12 4) :: u32"
  have len: "length header = 20" using assms(1) False by (simp add: header_size_def)
  have "cursor_from_v2_header slot header file_len = Ok c" using assms(2) False by (cases slot) (simp_all add: cursor_from_def)
  then have c: "take 4 header = INDEX_MAGIC" "of_le (subslice header 4 2) = (2 :: u16)" "unat (of_le (subslice header 6 2) :: u16) = 20"
    "subslice header 10 2 = [0, 0]" "?n \<le> 200" "file_len = 20 + ?n * 139" "?g \<noteq> 0"
    "c = \<lparr>lx_entry_count = of_le (subslice header 8 2), lx_header_size = 20, lx_generation = ?g, lx_slot = slot\<rparr>"
    using False len
    by (auto simp: cursor_from_v2_header_def u16_at_Ok u32_at_Ok and_then_Ok_iff split: if_splits)
  have "of_le (subslice header 6 2) = (20 :: u16)" using c(3) by (simp add: word_unat_eq_iff)
  moreover have "subslice header 12 4 = to_le 4 ?g" using len by (simp add: to_le_of_le)
  ultimately have "take 16 header = index_head slot ?g ?n"
    using subslice_fields(2)[of header] u16_bytes[of 4 header] u16_bytes[of 6 header] u16_bytes[of 8 header] len
    by (simp add: index_head_def False c(1,2,4))
  then show ?thesis using c(5-8) False
    by (intro exI[of _ ?g] exI[of _ ?n]) (simp add: header_size_def generation_ok_def index_cursor_def)
qed

lemma small_count: "n \<le> 200 \<Longrightarrow> unat (of_nat n :: u16) = n"
  by (simp add: unat_of_nat take_bit_nat_eq_self)

lemma index_header_eq:
  assumes "n \<le> 200" "generation_ok slot generation" "length crc = 4"
  shows "cursor_from slot (index_head slot generation n @ crc) (header_size slot + n * 139) = Ok (index_cursor slot generation n)"
proof -
  let ?h = "index_head slot generation n @ crc"
  have f: "take 4 ?h = INDEX_MAGIC" "u16_at ?h 8 = (Ok (of_nat n) :: (_, LibraryIndexError) res)" "subslice ?h 10 2 = [0, 0]"
    "u16_at ?h 4 = (Ok (if slot = SlotLegacy then 1 else 2) :: (_, LibraryIndexError) res)"
    "u16_at ?h 6 = (Ok (if slot = SlotLegacy then 16 else 20) :: (_, LibraryIndexError) res)"
    "slot \<noteq> SlotLegacy \<Longrightarrow> u32_at ?h 12 = (Ok generation :: (_, LibraryIndexError) res)"
    using assms(3) by (simp_all add: index_head_def u16_at_Ok u32_at_Ok slice_read of_le_to_le subslice_2)
  note small_count[OF assms(1)]
  then show ?thesis
    using assms(1,2) f
    by (cases slot) (simp_all add: cursor_from_def cursor_from_header_def cursor_from_v2_header_def validate_index_header_def
        header_size_def generation_ok_def index_cursor_def)
qed

definition index_ok :: "LibraryIndexSlot \<Rightarrow> u32 \<Rightarrow> LibraryEntry list \<Rightarrow> bool" where
  "index_ok slot generation es \<longleftrightarrow> (\<forall>e\<in>set es. entry_ok e) \<and> index_ascending es \<and> length es \<le> 200 \<and> generation_ok slot generation"

lemma cursor_header_size [simp]: "unat (lx_header_size (index_cursor slot generation n)) = header_size slot"
  by (simp add: index_cursor_def header_size_def)

lemma cursor_entry_count: "n \<le> 200 \<Longrightarrow> unat (lx_entry_count (index_cursor slot generation n)) = n"
  by (simp add: index_cursor_def small_count)

lemma validate_library_index_bytes_eq:
  "validate_library_index_bytes slot bytes =
    (if length bytes < header_size slot then Err LiLength
     else and_then (cursor_from slot (take (header_size slot) bytes) (length bytes)) (\<lambda>cursor.
       let n = unat (lx_header_size cursor) in
       and_then (bytes_at bytes 0 n) (\<lambda>header.
       and_then (validator_new cursor header) (\<lambda>validator.
       and_then (push_records (chunks_exact 139 (drop n bytes)) validator) (\<lambda>validator.
       and_then (validator_finish validator) (\<lambda>_. Ok cursor))))))"
  by (cases slot) (simp_all add: validate_library_index_bytes_def cursor_from_def header_size_def)

lemma validator_new_eq:
  assumes "length header = header_size slot" "lx_slot cursor = slot"
  shows "validator_new cursor header = (Ok \<lparr>iv_cursor = cursor, iv_next_record = 0,
    iv_stored_crc = of_le (drop (header_size slot - 4) header),
    iv_crc_state = update (- 1) (take (header_size slot - 4) header @ replicate 4 0), iv_previous_name = None\<rparr> :: (_, 'e) res)"
proof -
  let ?o = "header_size slot - 4"
  have o: "(if lx_slot cursor = SlotLegacy then INDEX_CRC_OFFSET else 16) = ?o" "?o + 4 = length header"
    using assms by (simp_all add: header_size_def)
  have "blank ?o 4 (take ?o header @ drop ?o header @ []) = take ?o header @ replicate 4 0 @ []"
    by (rule blank_append) (use o(2) in simp_all)
  moreover have "u32_at header ?o = (Ok (of_le (drop ?o header)) :: (_, 'e) res)"
    using o(2) by (simp add: u32_at_Ok subslice_def)
  ultimately show ?thesis by (simp add: validator_new_def o(1) index_crc_update_eq Let_def)
qed

lemma index_crc_eq: "index_crc slot generation es =
    NOT (update (update (- 1) (index_head slot generation (length es) @ replicate 4 0)) (index_body es))"
  by (simp add: index_crc_def iso_hdlc_def update_append)

lemma index_entries_length: "\<forall>e\<in>set es. entry_ok e \<Longrightarrow> length (index_body es) = length es * 139"
  by (rule length_index_body) (simp add: entry_ok_def)

lemma validate_index_only:
  assumes "validate_library_index_bytes slot bytes = Ok c"
  shows "\<exists>generation es. index_ok slot generation es \<and> bytes = index_wire slot generation es \<and>
    c = index_cursor slot generation (length es)"
proof -
  let ?hs = "header_size slot"
  let ?h = "take ?hs bytes" and ?rest = "drop ?hs bytes"
  have len: "?hs \<le> length bytes" and cur: "cursor_from slot ?h (length bytes) = Ok c"
    using assms by (auto simp: validate_library_index_bytes_eq and_then_Ok_iff not_less Let_def split: if_splits)
  obtain generation n where n: "n \<le> 200" "generation_ok slot generation" "take (?hs - 4) ?h = index_head slot generation n"
    "length bytes = ?hs + n * 139" "c = index_cursor slot generation n"
    using index_header_only[OF _ cur] len by auto
  let ?v = "\<lparr>iv_cursor = c, iv_next_record = 0, iv_stored_crc = of_le (drop (?hs - 4) ?h),
    iv_crc_state = update (- 1) (take (?hs - 4) ?h @ replicate 4 0), iv_previous_name = None\<rparr>"
  have new: "validator_new c ?h = (Ok ?v :: (_, LibraryIndexError) res)"
    by (rule validator_new_eq) (use len n(5) in \<open>simp_all add: index_cursor_def\<close>)
  have hc: "unat (lx_header_size c) = ?hs" by (simp add: n(5))
  obtain w where w: "push_records (chunks_exact 139 ?rest) ?v = Ok w" "validator_finish w = Ok ()"
    using assms len by (auto simp: validate_library_index_bytes_eq and_then_Ok_iff cur bytes_at_Ok subslice_prefix new hc Let_def split: if_splits)
  have rest: "?rest = concat (chunks_exact 139 ?rest)" "length (chunks_exact 139 ?rest) = n" "\<forall>x\<in>set (chunks_exact 139 ?rest). length x = 139"
    using chunks_exact_only[of 139 ?rest n] n(4) by simp_all
  obtain es where es: "chunks_exact 139 ?rest = map entry_bytes es" "\<forall>e\<in>set es. entry_ok e" "index_ascending es"
    "w = ?v\<lparr>iv_previous_name := (if es = [] then None else Some (le_name (last es))),
      iv_crc_state := update (iv_crc_state ?v) (concat (chunks_exact 139 ?rest)), iv_next_record := length es\<rparr>"
    using w(1) unfolding push_records_iff[OF rest(3)] by (auto simp: preceded_def)
  have n_es: "n = length es" using rest(2) es(1) by simp
  have body: "?rest = index_body es" using rest(1) unfolding es(1) by (simp add: index_body_def)
  have "NOT (update (update (- 1) (index_head slot generation n @ replicate 4 0)) ?rest) = of_le (drop (?hs - 4) ?h)"
    using w(2) unfolding es(4) rest(1)[symmetric] unfolding validator_finish_def n(3)[symmetric]
    by (simp split: if_splits)
  then have "index_crc slot generation es = of_le (drop (?hs - 4) ?h)" by (simp add: index_crc_eq body n_es)
  moreover have "length (drop (?hs - 4) ?h) = 4" using len by (simp add: header_size_def)
  ultimately have "to_le 4 (index_crc slot generation es) = drop (?hs - 4) ?h" by (simp add: to_le_of_le)
  then have "index_wire slot generation es = take (?hs - 4) ?h @ drop (?hs - 4) ?h @ ?rest"
    by (simp only: index_wire_def n_es[symmetric] n(3) body)
  then have "bytes = index_wire slot generation es" by (metis append_assoc append_take_drop_id)
  moreover have "index_ok slot generation es" using es(2,3) n(1,2) n_es by (simp add: index_ok_def)
  ultimately show ?thesis using n(5) n_es by blast
qed

lemma append_parts: "length xs = n \<Longrightarrow> take n (xs @ ys) = xs" "length xs = n \<Longrightarrow> drop n (xs @ ys) = ys"
  by simp_all

lemma validate_index_wire:
  assumes "index_ok slot generation es"
  shows "validate_library_index_bytes slot (index_wire slot generation es) = Ok (index_cursor slot generation (length es))"
proof -
  let ?hs = "header_size slot" and ?b = "index_wire slot generation es" and ?c = "index_cursor slot generation (length es)"
  let ?h = "index_head slot generation (length es) @ to_le 4 (index_crc slot generation es)"
  have ok: "\<forall>e\<in>set es. entry_ok e" "index_ascending es" "length es \<le> 200" "generation_ok slot generation"
    using assms by (simp_all add: index_ok_def)
  have hs: "4 \<le> ?hs" "?hs - (?hs - 4) = 4" by (simp_all add: header_size_def)
  have len: "length ?h = ?hs" using hs by simp
  have b: "?b = ?h @ index_body es" by (simp add: index_wire_def)
  have total: "length ?b = ?hs + length es * 139" using len index_entries_length[OF ok(1)] unfolding b by simp
  have parts: "take ?hs ?b = ?h" "drop ?hs ?b = index_body es"
    unfolding b by (rule append_parts[OF len])+
  let ?v = "\<lparr>iv_cursor = ?c, iv_next_record = 0, iv_stored_crc = index_crc slot generation es,
    iv_crc_state = update (- 1) (index_head slot generation (length es) @ replicate 4 0), iv_previous_name = None\<rparr>"
  have new: "validator_new ?c ?h = (Ok ?v :: (_, LibraryIndexError) res)"
    using validator_new_eq[OF len, of ?c] hs by (simp add: index_cursor_def of_le_to_le)
  have "\<forall>r\<in>set (map entry_bytes es). length r = 139" using ok(1) by (auto simp: entry_ok_def length_entry_bytes)
  note recs = this
  have chunks: "chunks_exact 139 (index_body es) = map entry_bytes es"
    unfolding index_body_def by (rule chunks_exact_concat) (use recs in simp_all)
  define w where "w = ?v\<lparr>iv_previous_name := (if es = [] then None else Some (le_name (last es))),
      iv_crc_state := update (iv_crc_state ?v) (concat (map entry_bytes es)), iv_next_record := length es\<rparr>"
  have "push_records (map entry_bytes es) ?v = Ok w"
    unfolding push_records_iff[OF recs] w_def
    by (intro exI[of _ es]) (use ok cursor_entry_count[OF ok(3)] in \<open>simp add: preceded_def\<close>)
  moreover have "validator_finish w = Ok ()"
    by (simp add: w_def validator_finish_def cursor_entry_count[OF ok(3)] index_crc_eq index_body_def[symmetric])
  moreover have "bytes_at ?b 0 ?hs = (Ok ?h :: (_, LibraryIndexError) res)" using parts(1) total by (simp add: bytes_at_Ok subslice_prefix)
  ultimately show ?thesis
    using index_header_eq[OF ok(3,4), of "to_le 4 (index_crc slot generation es)"] total
    by (simp add: validate_library_index_bytes_eq parts chunks new Let_def)
qed

end
