(* ===== verification/Library_Files.thy ===== *)
theory Library_Files
  imports Library_Index
begin

text \<open>
  The other two ends of the index file: the encoders write the file that the validator accepts, the decoder of the first
  version reads exactly the files whose entries have different names, and a scan of the card sorts what it accepts.
\<close>

subsection \<open>Writing\<close>

definition named :: "LibraryEntry \<Rightarrow> bool" where
  "named e \<longleftrightarrow> entry_ok (e\<lparr>le_mount_token := None\<rparr>)"

lemma named_length: "named e \<Longrightarrow> length (le_name e) \<le> 121"
  by (simp add: named_def entry_ok_def)

lemma entry_bytes_token [simp]: "entry_bytes (e\<lparr>le_mount_token := t\<rparr>) = entry_bytes e"
  by (simp add: entry_bytes_def)

definition unmounted :: "LibraryEntry list \<Rightarrow> LibraryEntry list" where
  "unmounted es = map (\<lambda>e. e\<lparr>le_mount_token := None\<rparr>) es"

lemma length_unmounted [simp]: "length (unmounted es) = length es"
  by (simp add: unmounted_def)

lemma index_body_unmounted [simp]: "index_body (unmounted es) = index_body es"
  by (simp add: index_body_def unmounted_def comp_def)

lemma index_wire_unmounted [simp]: "index_wire slot generation (unmounted es) = index_wire slot generation es"
  by (simp add: index_wire_def index_crc_def)

lemma names_unmounted [simp]: "map le_name (unmounted es) = map le_name es"
  by (simp add: unmounted_def)

definition storable :: "Library \<Rightarrow> bool" where
  "storable l \<longleftrightarrow> usable_status (lb_status l) \<and> (\<forall>e\<in>set (lb_entries l). named e) \<and> length (lb_entries l) \<le> 200"

lemma encode_index_record_eq:
  assumes "storable l" "index < length (lb_entries l)" "length out = 139"
  shows "encode_index_record index out l = Ok (entry_bytes (lb_entries l ! index))"
  using assms by (simp add: encode_index_record_def validate_index_status_def storable_def encode_index_entry_eq named_length)

lemma length_record: "storable l \<Longrightarrow> index < length (lb_entries l) \<Longrightarrow> length (entry_bytes (lb_entries l ! index)) = 139"
  by (simp add: storable_def length_entry_bytes named_length)

lemma subslice_Suc: "i < length xs \<Longrightarrow> subslice xs i (Suc n) = xs ! i # subslice xs (Suc i) n"
  by (simp add: subslice_def Cons_nth_drop_Suc[symmetric])

lemma header_crc_loop_eq:
  assumes "storable l"
  shows "index + n \<le> length (lb_entries l) \<Longrightarrow> length encoded = 139 \<Longrightarrow>
    header_crc_loop n index encoded crc l = Ok (update crc (index_body (subslice (lb_entries l) index n)))"
proof (induction n arbitrary: index encoded crc)
  case (Suc n)
  then show ?case
    by (simp add: encode_index_record_eq[OF assms] length_record[OF assms] subslice_Suc index_body_def update_append index_crc_update_eq)
qed (simp add: index_body_def)

lemma encode_records_loop_eq:
  assumes "storable l"
  shows "index + n \<le> length (lb_entries l) \<Longrightarrow> length encoded = 139 \<Longrightarrow> hs + (index + n) * 139 \<le> length out \<Longrightarrow>
    encode_records_loop n index hs encoded out l =
      Ok (overwrite out (hs + index * 139) (index_body (subslice (lb_entries l) index n)))"
proof (induction n arbitrary: index encoded out)
  case (Suc n)
  have i: "index < length (lb_entries l)" using Suc.prems(1) by simp
  let ?r = "entry_bytes (lb_entries l ! index)"
  have r: "length ?r = 139" by (rule length_record[OF assms i])
  have fits: "hs + index * 139 + length ?r \<le> length out" using Suc.prems(3) r by (simp add: algebra_simps)
  have body: "length (index_body (subslice (lb_entries l) (Suc index) n)) = n * 139"
    using length_index_body[of "subslice (lb_entries l) (Suc index) n"] assms Suc.prems(1)
    by (auto simp: storable_def subslice_def dest!: in_set_takeD in_set_dropD named_length)
  have "overwrite (overwrite out (hs + index * 139) ?r) (hs + Suc index * 139) (index_body (subslice (lb_entries l) (Suc index) n)) =
      overwrite out (hs + index * 139) (?r @ index_body (subslice (lb_entries l) (Suc index) n))"
    by (rule overwrite_compose) (use Suc.prems(3) r body in \<open>simp_all add: algebra_simps\<close>)
  then show ?case using Suc.prems Suc.IH[of "Suc index" ?r "overwrite out (hs + index * 139) ?r"] fits r
    by (simp add: encode_index_record_eq[OF assms i] put_def length_overwrite subslice_Suc[OF i] index_body_def)
qed (simp add: index_body_def)

lemma fill_header_eq:
  "length out = 16 \<Longrightarrow> fill_index_header n out = (Ok (index_head SlotLegacy 0 n @ replicate 4 0) :: (_, 'e) res)"
  "length out = 20 \<Longrightarrow> slot \<noteq> SlotLegacy \<Longrightarrow> fill_index_v2_header n generation out = (Ok (index_head slot generation n @ replicate 4 0) :: (_, 'e) res)"
proof -
  let ?s = "[(0, INDEX_MAGIC), (4, to_le 2 INDEX_VERSION), (6, to_le 2 (of_nat INDEX_HEADER_SIZE :: u16)), (8, to_le 2 (of_nat n :: u16))]"
  have tail: "replicate 6 (0 :: u8) = [0, 0] @ replicate 4 0" by (simp add: numeral_eq_Suc)
  have lay: "layout 0 ?s = INDEX_MAGIC @ to_le 2 INDEX_VERSION @ to_le 2 (of_nat INDEX_HEADER_SIZE :: u16) @ to_le 2 (of_nat n :: u16)"
    by (simp del: to_le.simps)
  then have "length (layout 0 ?s) = 10" by (simp del: to_le.simps layout.simps)
  then have "(store_seq ?s (replicate 16 0 @ []) :: (bytes, 'e) res) = Ok (layout 0 ?s @ replicate 6 0 @ [])"
    using store_seq_zeros[of ?s 16 "[]"] by (simp del: to_le.simps layout.simps store_seq.simps replicate.simps)
  then show "fill_index_header n out = (Ok (index_head SlotLegacy 0 n @ replicate 4 0) :: (_, 'e) res)" if "length out = 16"
    using that by (simp only: fill_index_header_def index_head_def lay tail append_Nil2) (simp del: to_le.simps replicate.simps)
next
  let ?s = "[(0, INDEX_MAGIC), (4, to_le 2 (2 :: u16)), (6, to_le 2 (of_nat INDEX_V2_HEADER_SIZE :: u16)), (8, to_le 2 (of_nat n :: u16)),
    (12, to_le 4 generation)]"
  have gap: "replicate 2 (0 :: u8) = [0, 0]" by (simp add: numeral_eq_Suc)
  have lay: "layout 0 ?s = INDEX_MAGIC @ to_le 2 (2 :: u16) @ to_le 2 (of_nat INDEX_V2_HEADER_SIZE :: u16) @ to_le 2 (of_nat n :: u16) @
      [0, 0] @ to_le 4 generation"
    by (simp add: gap del: to_le.simps replicate.simps(2))
  then have "length (layout 0 ?s) = 16" by (simp del: to_le.simps layout.simps)
  then have "(store_seq ?s (replicate 20 0 @ []) :: (bytes, 'e) res) = Ok (layout 0 ?s @ replicate 4 0 @ [])"
    using store_seq_zeros[of ?s 20 "[]"] by (simp del: to_le.simps layout.simps store_seq.simps replicate.simps)
  then show "fill_index_v2_header n generation out = (Ok (index_head slot generation n @ replicate 4 0) :: (_, 'e) res)"
    if "length out = 20" "slot \<noteq> SlotLegacy"
    using that by (simp only: fill_index_v2_header_def index_head_def lay append_Nil2) (simp del: to_le.simps replicate.simps)
qed

lemma index_wire_parts:
  "index_wire slot generation es = (index_head slot generation (length es) @ to_le 4 (index_crc slot generation es)) @ index_body es"
  by (simp add: index_wire_def)

lemma index_body_loop: "index_body (subslice es 0 (length es)) = index_body es"
  by (simp add: subslice_full)

lemma encode_index_eq:
  assumes "storable l" "index_encoded_len l \<le> length out"
  shows "encode_index out l = Ok (index_encoded_len l, overwrite out 0 (index_wire SlotLegacy 0 (lb_entries l)))"
proof -
  let ?es = "lb_entries l"
  let ?h = "index_head SlotLegacy 0 (length ?es) @ to_le 4 (index_crc SlotLegacy 0 ?es)"
  have h: "length ?h = 16" by (simp add: header_size_def)
  have status: "validate_index_status l = Ok ()" using assms(1) by (simp add: storable_def validate_index_status_def)
  have "put (index_head SlotLegacy 0 (length ?es) @ replicate 4 0) 12 (to_le 4 (index_crc SlotLegacy 0 ?es)) =
      (Ok ?h :: (_, LibraryIndexError) res)"
    by (simp add: put_def overwrite_append header_size_def)
  then have header: "encode_index_header (replicate 16 0) l = Ok ?h"
    by (simp add: encode_index_header_def status fill_header_eq header_crc_loop_eq[OF assms(1)] index_body_loop index_crc_update_eq
        index_crc_eq del: replicate.simps)
  have n: "16 + length ?es * 139 \<le> length out" using assms(2) by (simp add: index_encoded_len_def)
  have body: "length (index_body ?es) = length ?es * 139"
    by (rule length_index_body) (use assms(1) named_length in \<open>auto simp: storable_def\<close>)
  have "put out 0 ?h = (Ok (overwrite out 0 ?h) :: (_, LibraryIndexError) res)" using n h by (simp add: put_def)
  moreover have "encode_records_loop (length ?es) 0 16 (replicate 139 0) (overwrite out 0 ?h) l =
      Ok (overwrite (overwrite out 0 ?h) (16 + 0 * 139) (index_body (subslice ?es 0 (length ?es))))"
    by (rule encode_records_loop_eq[OF assms(1)]) (use n h in \<open>simp_all add: length_overwrite\<close>)
  moreover have "overwrite (overwrite out 0 ?h) 16 (index_body ?es) = overwrite out 0 (?h @ index_body ?es)"
    by (rule overwrite_compose) (use n h body in simp_all)
  ultimately show ?thesis using n
    by (simp add: encode_index_def Let_def index_encoded_len_def header index_body_loop index_wire_parts del: replicate.simps append_assoc)
qed

lemma encode_index_v2_eq:
  assumes "storable l" "index_v2_encoded_len l \<le> length out" "slot \<noteq> SlotLegacy" "generation \<noteq> 0"
  shows "encode_index_v2 generation out l = Ok (index_v2_encoded_len l, overwrite out 0 (index_wire slot generation (lb_entries l)))"
proof -
  let ?es = "lb_entries l"
  let ?h = "index_head slot generation (length ?es) @ to_le 4 (index_crc slot generation ?es)"
  have h: "length ?h = 20" using assms(3) by (simp add: header_size_def)
  have status: "validate_index_status l = Ok ()" using assms(1) by (simp add: storable_def validate_index_status_def)
  have "put (index_head slot generation (length ?es) @ replicate 4 0) 16 (to_le 4 (index_crc slot generation ?es)) =
      (Ok ?h :: (_, LibraryIndexError) res)"
    using assms(3) by (simp add: put_def overwrite_append header_size_def)
  then have header: "encode_index_v2_header generation out' l = Ok ?h" if "length out' = 20" for out'
    using that assms(4)
    by (simp add: encode_index_v2_header_def status fill_header_eq(2)[OF _ assms(3)] header_crc_loop_eq[OF assms(1)] index_body_loop
        index_crc_update_eq index_crc_eq del: replicate.simps)
  have n: "20 + length ?es * 139 \<le> length out" using assms(2) by (simp add: index_v2_encoded_len_def)
  have body: "length (index_body ?es) = length ?es * 139"
    by (rule length_index_body) (use assms(1) named_length in \<open>auto simp: storable_def\<close>)
  have "put out 0 ?h = (Ok (overwrite out 0 ?h) :: (_, LibraryIndexError) res)" using n h by (simp add: put_def)
  moreover have "encode_records_loop (length ?es) 0 20 (replicate 139 0) (overwrite out 0 ?h) l =
      Ok (overwrite (overwrite out 0 ?h) (20 + 0 * 139) (index_body (subslice ?es 0 (length ?es))))"
    by (rule encode_records_loop_eq[OF assms(1)]) (use n h in \<open>simp_all add: length_overwrite\<close>)
  moreover have "overwrite (overwrite out 0 ?h) 20 (index_body ?es) = overwrite out 0 (?h @ index_body ?es)"
    by (rule overwrite_compose) (use n h body in simp_all)
  ultimately show ?thesis using n
    by (simp add: encode_index_v2_def Let_def index_v2_encoded_len_def header index_body_loop index_wire_parts
        del: replicate.simps append_assoc)
qed

subsection \<open>Reading the first version\<close>

lemma decoder_push_record_iff:
  assumes "length r = 139"
  shows "decoder_push_record r d = (Ok (), w) \<longleftrightarrow>
    (\<exists>e. entry_ok e \<and> r = entry_bytes e \<and> id_next_record d < id_expected_count d \<and> length (lb_entries (id_library d)) < 200 \<and>
      w = d\<lparr>id_crc_state := update (id_crc_state d) r, id_library := (id_library d)\<lparr>lb_entries := lb_entries (id_library d) @ [e]\<rparr>,
        id_next_record := id_next_record d + 1\<rparr>)"
  (is "_ = ?rhs")
proof
  assume "decoder_push_record r d = (Ok (), w)"
  then show ?rhs
    using assms
    by (auto simp: decoder_push_record_def decode_index_entry_iff index_crc_update_eq Let_def split: if_splits on_ok_split_asm)
next
  assume ?rhs
  then show "decoder_push_record r d = (Ok (), w)"
    by (auto simp: decoder_push_record_def decode_index_entry_bytes index_crc_update_eq Let_def)
qed

definition decoded_to :: "LibraryEntry list \<Rightarrow> LibraryIndexDecoder \<Rightarrow> LibraryIndexDecoder" where
  "decoded_to es d = d\<lparr>id_crc_state := update (id_crc_state d) (index_body es),
     id_library := (id_library d)\<lparr>lb_entries := lb_entries (id_library d) @ es\<rparr>, id_next_record := id_next_record d + length es\<rparr>"

lemma decoded_to_Cons [simp]:
  "decoded_to es (d\<lparr>id_crc_state := update (id_crc_state d) (entry_bytes e),
     id_library := (id_library d)\<lparr>lb_entries := lb_entries (id_library d) @ [e]\<rparr>, id_next_record := Suc (id_next_record d)\<rparr>) =
   decoded_to (e # es) d"
  by (simp add: decoded_to_def index_body_def update_append)

lemma decoder_push_records_iff:
  "\<forall>r\<in>set rs. length r = 139 \<Longrightarrow> decoder_push_records rs d = Ok w \<longleftrightarrow>
    (\<exists>es. rs = map entry_bytes es \<and> (\<forall>e\<in>set es. entry_ok e) \<and>
      (es = [] \<or> id_next_record d + length es \<le> id_expected_count d \<and> length (lb_entries (id_library d)) + length es \<le> 200) \<and>
      w = decoded_to es d)"
  (is "_ \<Longrightarrow> _ = ?rhs rs d w")
proof (induction rs arbitrary: d)
  case Nil
  then show ?case by (auto simp: decoded_to_def index_body_def)
next
  case (Cons r rs)
  have r: "length r = 139" and rs: "\<forall>r\<in>set rs. length r = 139" using Cons.prems by simp_all
  let ?d = "\<lambda>e. d\<lparr>id_crc_state := update (id_crc_state d) r, id_library := (id_library d)\<lparr>lb_entries := lb_entries (id_library d) @ [e]\<rparr>,
        id_next_record := id_next_record d + 1\<rparr>"
  have step: "decoder_push_records (r # rs) d = Ok w \<longleftrightarrow> (\<exists>u. decoder_push_record r d = (Ok (), u) \<and> decoder_push_records rs u = Ok w)"
    by (cases "decoder_push_record r d") (auto simp: and_then_Ok_iff)
  show ?case
  proof
    assume "decoder_push_records (r # rs) d = Ok w"
    then obtain e where e: "entry_ok e" "r = entry_bytes e" "id_next_record d < id_expected_count d"
      "length (lb_entries (id_library d)) < 200" "decoder_push_records rs (?d e) = Ok w"
      unfolding step decoder_push_record_iff[OF r] by blast
    obtain es where es: "rs = map entry_bytes es" "\<forall>e\<in>set es. entry_ok e"
      "es = [] \<or> Suc (id_next_record d) + length es \<le> id_expected_count d \<and> Suc (length (lb_entries (id_library d))) + length es \<le> 200"
      "w = decoded_to es (?d e)"
      using Cons.IH[OF rs, of "?d e"] e(5) by auto
    then show "?rhs (r # rs) d w"
      using e(1-4) by (intro exI[of _ "e # es"]) auto
  next
    assume "?rhs (r # rs) d w"
    then obtain es' where es': "r # rs = map entry_bytes es'" "\<forall>e\<in>set es'. entry_ok e"
      "es' = [] \<or> id_next_record d + length es' \<le> id_expected_count d \<and> length (lb_entries (id_library d)) + length es' \<le> 200"
      "w = decoded_to es' d"
      by (elim exE conjE) (rule that)
    obtain e es where cons: "es' = e # es" using es'(1) by (cases es') auto
    have "decoder_push_records rs (?d e) = Ok w"
      unfolding Cons.IH[OF rs] using es' by (intro exI[of _ es]) (auto simp: cons)
    then show "decoder_push_records (r # rs) d = Ok w"
      unfolding step decoder_push_record_iff[OF r] using es' by (auto simp: cons)
  qed
qed

lemma adjacent_equal_iff: "entries.ascending es \<Longrightarrow> adjacent_equal es \<longleftrightarrow> \<not> distinct (map le_name es)"
proof (induction es rule: adjacent_equal.induct)
  case (1 a b es)
  have tail: "entries.ascending (b # es)" using 1(2) by (simp add: entries.ascending_def)
  have "le_name a \<in> le_name ` set es \<Longrightarrow> le_name a = le_name b"
  proof -
    assume "le_name a \<in> le_name ` set es"
    then obtain c where c: "c \<in> set es" "le_name a = le_name c" by auto
    then have "entry_order a b \<noteq> Greater" "entry_order b c \<noteq> Greater" using 1(2) by (auto simp: entries.ascending_def)
    then have "ascii_casefold_order (le_name a) (le_name b) \<noteq> Greater" "ascii_casefold_order (le_name b) (le_name a) \<noteq> Greater"
      using c(2) by (simp_all add: entry_order_def)
    then have "ascii_casefold_order (le_name a) (le_name b) = Equal"
      using names.compare_Greater[of "le_name b" "le_name a"] by (cases "ascii_casefold_order (le_name a) (le_name b)") auto
    then show ?thesis by simp
  qed
  then show ?case using 1(1)[OF tail] by auto
qed simp_all

definition loaded_library :: "LibraryEntry list \<Rightarrow> Library" where
  "loaded_library es = \<lparr>lb_entries = sort_by entry_order es, lb_status = (if es = [] then LsNoBooks else LsReady)\<rparr>"

lemma sort_by_Nil_iff [simp]: "sort_by f xs = [] \<longleftrightarrow> xs = []"
  by (metis length_0_conv length_sort_by)

lemma distinct_sorted_names: "distinct (map le_name (sort_by entry_order es)) \<longleftrightarrow> distinct (map le_name es)"
  using entries.unequal_mset[of "sort_by entry_order es" es] by (simp add: entries_unequal)

lemma decoder_finish_iff:
  "decoder_finish d = (Ok (), l) \<longleftrightarrow> id_next_record d = id_expected_count d \<and> NOT (id_crc_state d) = id_stored_crc d \<and>
    distinct (map le_name (lb_entries (id_library d))) \<and> l = loaded_library (lb_entries (id_library d))"
  using adjacent_equal_iff[OF entries.ascending_sort_by, of "lb_entries (id_library d)"]
  by (cases "id_library d") (auto simp: decoder_finish_def Let_def distinct_sorted_names loaded_library_def)

definition starting :: "bytes \<Rightarrow> nat \<Rightarrow> LibraryIndexDecoder" where
  "starting header n = \<lparr>id_library = Library_empty, id_expected_count = n, id_next_record = 0, id_stored_crc = of_le (drop 12 header),
     id_crc_state = update (- 1) (take 12 header @ replicate 4 0)\<rparr>"

lemma index_decoder_new_iff:
  assumes "length header = 16"
  shows "fst (index_decoder_new header file_len Library_empty) = Ok d \<longleftrightarrow>
    (\<exists>n\<le>200. take 12 header = index_head SlotLegacy 0 n \<and> file_len = 16 + n * 139 \<and> d = starting header n)"
proof -
  have "blank 12 4 (take 12 header @ drop 12 header @ []) = take 12 header @ replicate 4 0 @ []"
    by (rule blank_append) (use assms in simp_all)
  then have b: "blank 12 4 header = take 12 header @ replicate 4 0" by simp
  have stored: "u32_at header 12 = (Ok (of_le (drop 12 header)) :: (_, LibraryIndexError) res)"
    using assms by (simp add: u32_at_Ok subslice_def)
  have n: "u16_at header 8 = (Ok (of_le (subslice header 8 2)) :: (_, LibraryIndexError) res)" using assms by (simp add: u16_at_Ok)
  have new: "fst (index_decoder_new header file_len Library_empty) = Ok d \<longleftrightarrow>
      validate_index_header header file_len = Ok () \<and> d = starting header (unat (of_le (subslice header 8 2) :: u16))"
    by (cases "validate_index_header header file_len")
      (auto simp: index_decoder_new_def n stored Let_def b index_crc_update_eq starting_def Library_empty_def)
  have cursor: "validate_index_header header file_len = Ok () \<longleftrightarrow> (\<exists>c. cursor_from SlotLegacy header file_len = Ok c)"
    by (auto simp: cursor_from_def cursor_from_header_def n and_then_Ok_iff)
  have hd: "of_le (subslice header 8 2) = (of_nat m :: u16)" if "take 12 header = index_head SlotLegacy 0 m" for m
  proof -
    have "subslice header 8 2 = subslice (take 12 header) 8 2" by (simp add: subslice_take)
    also have "\<dots> = to_le 2 (of_nat m :: u16)" unfolding that by (simp add: index_head_def slice_read)
    finally show ?thesis by (simp add: of_le_to_le)
  qed
  show ?thesis
  proof
    assume "fst (index_decoder_new header file_len Library_empty) = Ok d"
    then obtain c where d: "cursor_from SlotLegacy header file_len = Ok c" "d = starting header (unat (of_le (subslice header 8 2) :: u16))"
      unfolding new cursor by blast
    obtain g m where m: "m \<le> 200" "generation_ok SlotLegacy g" "take 12 header = index_head SlotLegacy g m" "file_len = 16 + m * 139"
      using index_header_only[OF _ d(1)] assms by (auto simp: header_size_def)
    moreover have "g = 0" using m(2) by (simp add: generation_ok_def)
    ultimately show "\<exists>n\<le>200. take 12 header = index_head SlotLegacy 0 n \<and> file_len = 16 + n * 139 \<and> d = starting header n"
      using d(2) hd[of m] by (intro exI[of _ m]) (simp add: small_count)
  next
    assume "\<exists>n\<le>200. take 12 header = index_head SlotLegacy 0 n \<and> file_len = 16 + n * 139 \<and> d = starting header n"
    then obtain m where m: "m \<le> 200" "take 12 header = index_head SlotLegacy 0 m" "file_len = 16 + m * 139" "d = starting header m" by blast
    have "cursor_from SlotLegacy (index_head SlotLegacy 0 m @ drop 12 header) (header_size SlotLegacy + m * 139) = Ok (index_cursor SlotLegacy 0 m)"
      by (rule index_header_eq) (use m(1) assms in \<open>simp_all add: generation_ok_def\<close>)
    then have "cursor_from SlotLegacy header file_len = Ok (index_cursor SlotLegacy 0 m)"
      unfolding m(2)[symmetric] using m(3) by (simp add: header_size_def)
    then show "fst (index_decoder_new header file_len Library_empty) = Ok d"
      unfolding new cursor using hd[OF m(2)] m(1,4) by (auto simp: small_count)
  qed
qed

lemma decode_index_only:
  assumes "decode_index data = Ok l"
  shows "\<exists>es. (\<forall>e\<in>set es. entry_ok e) \<and> distinct (map le_name es) \<and> length es \<le> 200 \<and> data = index_wire SlotLegacy 0 es \<and>
    l = loaded_library es"
proof -
  let ?h = "take 16 data" and ?rest = "drop 16 data"
  have len: "16 \<le> length data" using assms by (auto simp: decode_index_def split: if_splits)
  obtain d w where d: "fst (index_decoder_new ?h (length data) Library_empty) = Ok d"
    "decoder_push_records (chunks_exact 139 ?rest) d = Ok w" "decoder_finish w = (Ok (), l)"
    using assms len by (auto simp: decode_index_def and_then_Ok_iff split_beta prod_eq_iff)
  obtain n where n: "n \<le> 200" "take 12 ?h = index_head SlotLegacy 0 n" "length data = 16 + n * 139" "d = starting ?h n"
    using d(1) index_decoder_new_iff[of ?h] len by auto
  have rest: "?rest = concat (chunks_exact 139 ?rest)" "length (chunks_exact 139 ?rest) = n" "\<forall>x\<in>set (chunks_exact 139 ?rest). length x = 139"
    using chunks_exact_only[of 139 ?rest n] n(3) by simp_all
  obtain es where es: "chunks_exact 139 ?rest = map entry_bytes es" "\<forall>e\<in>set es. entry_ok e" "w = decoded_to es d"
    using d(2) unfolding decoder_push_records_iff[OF rest(3)] by blast
  have n_es: "n = length es" using rest(2) es(1) by simp
  have body: "?rest = index_body es" using rest(1) unfolding es(1) by (simp add: index_body_def)
  have f: "NOT (id_crc_state w) = id_stored_crc w" "distinct (map le_name (lb_entries (id_library w)))" "l = loaded_library (lb_entries (id_library w))"
    using d(3) by (simp_all add: decoder_finish_iff)
  have w: "lb_entries (id_library w) = es" "id_stored_crc w = of_le (drop 12 ?h)"
    "id_crc_state w = update (update (- 1) (index_head SlotLegacy 0 n @ replicate 4 0)) (index_body es)"
    unfolding es(3) n(4) by (simp_all add: decoded_to_def starting_def n(2)[symmetric] Library_empty_def)
  have "index_crc SlotLegacy 0 es = of_le (drop 12 ?h)" using f(1) unfolding w by (simp add: index_crc_eq n_es)
  moreover have "length (drop 12 ?h) = 4" using len by simp
  ultimately have "to_le 4 (index_crc SlotLegacy 0 es) = drop 12 ?h" by (simp add: to_le_of_le)
  then have "index_wire SlotLegacy 0 es = take 12 ?h @ drop 12 ?h @ ?rest"
    by (simp only: index_wire_def n_es[symmetric] n(2) body)
  then have "data = index_wire SlotLegacy 0 es" by (metis append_assoc append_take_drop_id)
  then show ?thesis using es(2) f(2,3) n(1) unfolding w(1) n_es by blast
qed

lemma decode_index_wire:
  assumes ok: "\<forall>e\<in>set es. entry_ok e" and names: "distinct (map le_name es)" and few: "length es \<le> 200"
  shows "decode_index (index_wire SlotLegacy 0 es) = Ok (loaded_library es)"
proof -
  let ?b = "index_wire SlotLegacy 0 es" and ?n = "length es"
  let ?h = "index_head SlotLegacy 0 ?n @ to_le 4 (index_crc SlotLegacy 0 es)"
  have len: "length ?h = 16" by (simp add: header_size_def)
  have b: "?b = ?h @ index_body es" by (simp add: index_wire_def)
  have total: "length ?b = 16 + ?n * 139" using len index_entries_length[OF ok] unfolding b by simp
  have parts: "take 16 ?b = ?h" "drop 16 ?b = index_body es" unfolding b by (rule append_parts[OF len])+
  have hd: "take 12 ?h = index_head SlotLegacy 0 ?n" "drop 12 ?h = to_le 4 (index_crc SlotLegacy 0 es)"
    by (rule append_parts, simp add: header_size_def)+
  have new: "fst (index_decoder_new ?h (16 + ?n * 139) Library_empty) = Ok (starting ?h ?n)"
    unfolding index_decoder_new_iff[OF len] using few hd(1) by blast
  have recs: "\<forall>r\<in>set (map entry_bytes es). length r = 139" using ok by (auto simp: entry_ok_def length_entry_bytes)
  have chunks: "chunks_exact 139 (index_body es) = map entry_bytes es"
    unfolding index_body_def by (rule chunks_exact_concat) (use recs in simp_all)
  have push: "decoder_push_records (map entry_bytes es) (starting ?h ?n) = Ok (decoded_to es (starting ?h ?n))"
    unfolding decoder_push_records_iff[OF recs] using ok few
    by (intro exI[of _ es]) (simp add: starting_def Library_empty_def)
  have w: "lb_entries (id_library (decoded_to es (starting ?h ?n))) = es" "id_stored_crc (decoded_to es (starting ?h ?n)) = index_crc SlotLegacy 0 es"
    "id_crc_state (decoded_to es (starting ?h ?n)) = update (update (- 1) (index_head SlotLegacy 0 ?n @ replicate 4 0)) (index_body es)"
    "id_next_record (decoded_to es (starting ?h ?n)) = id_expected_count (decoded_to es (starting ?h ?n))"
    unfolding starting_def hd by (simp_all add: decoded_to_def Library_empty_def of_le_to_le)
  have "decoder_finish (decoded_to es (starting ?h ?n)) = (Ok (), loaded_library es)"
    unfolding decoder_finish_iff w(1,2,3) using w(4) names by (simp add: index_crc_eq)
  then show ?thesis using total len
    by (simp add: decode_index_def parts new chunks push)
qed

subsection \<open>Scanning\<close>

definition accepted :: "bytes \<times> u64 \<times> MountFileToken option \<Rightarrow> bool" where
  "accepted visited \<longleftrightarrow> ends_with (fst visited) BINBOOK_SUFFIX \<and> length (fst visited) \<le> 121"

definition unsupported :: "bytes \<times> u64 \<times> MountFileToken option \<Rightarrow> bool" where
  "unsupported visited \<longleftrightarrow> ends_with (fst visited) BINBOOK_SUFFIX \<and> 121 < length (fst visited)"

definition scanned_entry :: "bytes \<times> u64 \<times> MountFileToken option \<Rightarrow> LibraryEntry" where
  "scanned_entry visited = (case visited of (name, sz, token) \<Rightarrow>
    \<lparr>le_name = name, le_size = sz, le_filename_hash = filename_hash name, le_mount_token = token\<rparr>)"

definition scan_all :: "(bytes \<times> u64 \<times> MountFileToken option) list \<Rightarrow> IncrementalLibraryScan \<Rightarrow> IncrementalLibraryScan" where
  "scan_all = fold (\<lambda>(name, sz, token). push_mounted name sz token)"

lemma scan_all_eq:
  "length (lb_entries (il_library s)) \<le> 200 \<Longrightarrow> scan_all vs s =
    s\<lparr>il_library := (il_library s)\<lparr>lb_entries := take 200 (lb_entries (il_library s) @ map scanned_entry (filter accepted vs))\<rparr>,
      il_unsupported_name := (il_unsupported_name s \<or> list_ex unsupported vs),
      il_overflow := (il_overflow s \<or> 200 < length (lb_entries (il_library s)) + length (filter accepted vs))\<rparr>"
proof (induction vs arbitrary: s)
  case Nil
  then show ?case by (simp add: scan_all_def)
next
  case (Cons v vs)
  obtain name sz token where v: "v = (name, sz, token)" by (cases v)
  let ?s = "push_mounted name sz token s"
  have step: "?s = s\<lparr>il_library := (il_library s)\<lparr>lb_entries := take 200 (lb_entries (il_library s) @ (if accepted v then [scanned_entry v] else []))\<rparr>,
      il_unsupported_name := (il_unsupported_name s \<or> unsupported v),
      il_overflow := (il_overflow s \<or> accepted v \<and> 200 \<le> length (lb_entries (il_library s)))\<rparr>"
    using Cons.prems by (auto simp: push_mounted_def bounded_name_def accepted_def unsupported_def scanned_entry_def v)
  have first: "scan_all (v # vs) s = scan_all vs ?s" by (simp add: scan_all_def v)
  have few: "length (lb_entries (il_library ?s)) \<le> 200" by (simp add: step)
  show ?case unfolding first Cons.IH[OF few] unfolding step
    by (cases "length (lb_entries (il_library s)) = 200"; cases "accepted v") (use Cons.prems in \<open>auto simp: take_Cons'\<close>)
qed

lemma scanned_named: "accepted v \<Longrightarrow> utf8_valid (fst v) \<Longrightarrow> named (scanned_entry v)"
  by (cases v) (auto simp: accepted_def named_def entry_ok_def scanned_entry_def ends_with_def BINBOOK_SUFFIX_def ascii_def)

lemma scanned_name [simp]: "le_name (scanned_entry v) = fst v"
  by (cases v) (simp add: scanned_entry_def)

lemma scan_finish_eq:
  "library_scan_finish (scan_all vs (library_scan_begin old)) =
    (let es = sort_by entry_order (take 200 (map scanned_entry (filter accepted vs))) in
     \<lparr>lb_entries = es, lb_status = scan_status (list_ex unsupported vs) (200 < length (filter accepted vs)) es\<rparr>)"
proof -
  have few: "length (lb_entries (il_library (library_scan_begin old))) \<le> 200" by (simp add: library_scan_begin_def)
  show ?thesis unfolding scan_all_eq[OF few]
    by (cases old) (simp add: library_scan_finish_def library_scan_begin_def Let_def)
qed

lemma validated_records:
  assumes "index_ok slot generation es" "i < length es"
  shows "\<exists>start. cursor_record_range i (index_cursor slot generation (length es)) = Ok (start, start + 139) \<and>
    start + 139 \<le> length (index_wire slot generation es) \<and>
    decode_index_entry (subslice (index_wire slot generation es) start 139) = Ok (es ! i)"
proof -
  have ok: "\<forall>e\<in>set es. entry_ok e" "length es \<le> 200" using assms(1) by (simp_all add: index_ok_def)
  let ?pre = "index_head slot generation (length es) @ to_le 4 (index_crc slot generation es) @ index_body (take i es)"
  have "es = take i es @ es ! i # drop (Suc i) es" using assms(2) by (rule id_take_nth_drop)
  then have "index_body es = index_body (take i es @ es ! i # drop (Suc i) es)" by simp
  then have wire: "index_wire slot generation es = ?pre @ entry_bytes (es ! i) @ index_body (drop (Suc i) es)"
    by (simp add: index_wire_def index_body_def)
  have r: "length (entry_bytes (es ! i)) = 139" using ok(1) assms(2) by (simp add: length_entry_bytes entry_ok_def)
  have "\<forall>e\<in>set (take i es). entry_ok e" using ok(1) by (auto dest: in_set_takeD)
  note index_entries_length[OF this]
  then have pre: "length ?pre = header_size slot + i * 139" using assms(2) by (simp add: header_size_def)
  have "cursor_record_range i (index_cursor slot generation (length es)) = Ok (length ?pre, length ?pre + 139)"
    unfolding pre using assms(2) by (simp add: cursor_record_range_def cursor_entry_count[OF ok(2)] Let_def)
  moreover have "subslice (index_wire slot generation es) (length ?pre) 139 = entry_bytes (es ! i)"
    unfolding wire using r by (simp add: subslice_def)
  moreover have "length ?pre + 139 \<le> length (index_wire slot generation es)" unfolding wire using r by simp
  ultimately show ?thesis using ok(1) assms(2) by (intro exI[of _ "length ?pre"]) (simp add: decode_index_entry_bytes)
qed

subsection \<open>Properties\<close>

definition loadable :: "LibraryEntry list \<Rightarrow> bool" where
  "loadable es \<longleftrightarrow> (\<forall>e\<in>set es. entry_ok e) \<and> distinct (map le_name es) \<and> length es \<le> 200"

text \<open>C6: The validator of an index file accepts a file if and only if it is the encoding of at most 200 entries in the strict
  order of their names, with the header, the generation and the checksum of its version; it answers with the cursor of that
  file.  The decoder of the first version accepts the same files in any order of different names, and sorts the entries.
\<close>

theorem library_index_exact:
  "(validate_library_index_bytes slot bytes = Ok cursor \<longleftrightarrow>
      (\<exists>generation es. index_ok slot generation es \<and> bytes = index_wire slot generation es \<and>
        cursor = index_cursor slot generation (length es))) \<and>
   (decode_index bytes = Ok l \<longleftrightarrow>
      (\<exists>es. loadable es \<and> bytes = index_wire SlotLegacy 0 es \<and> l = loaded_library es))"
proof (intro conjI iffI)
  show "validate_library_index_bytes slot bytes = Ok cursor" if "\<exists>generation es. index_ok slot generation es \<and>
      bytes = index_wire slot generation es \<and> cursor = index_cursor slot generation (length es)"
    using that validate_index_wire by (elim exE conjE) simp
  show "decode_index bytes = Ok l" if "\<exists>es. loadable es \<and> bytes = index_wire SlotLegacy 0 es \<and> l = loaded_library es"
    using that decode_index_wire unfolding loadable_def by (elim exE conjE) simp
  show "\<exists>es. loadable es \<and> bytes = index_wire SlotLegacy 0 es \<and> l = loaded_library es" if "decode_index bytes = Ok l"
    using decode_index_only[OF that] by (auto simp: loadable_def)
qed (rule validate_index_only)

text \<open>C34: What a scan of the card finds is kept by the index: if every book has a supported name, no two have the same one and there
  are at most 200, the scan is usable, its encoding is accepted by the validator with the generation it was written with, and
  the record at each position of the cursor is the book at that position of the scanned library, without its mount token.
  Bytes of the buffer behind the index are not touched.\<close>

theorem scanned_library_stored:
  assumes "\<forall>v\<in>set visited. utf8_valid (fst v) \<and> \<not> unsupported v"
    and "distinct (map fst (filter accepted visited))" and "length (filter accepted visited) \<le> 200"
    and "slot \<noteq> SlotLegacy" and "generation \<noteq> 0"
    and "l = library_scan_finish (scan_all visited (library_scan_begin old))" and "index_v2_encoded_len l \<le> length out"
  shows "\<exists>out' cursor. usable_status (lb_status l) \<and> mset (lb_entries l) = mset (map scanned_entry (filter accepted visited)) \<and>
    encode_index_v2 generation out l = Ok (index_v2_encoded_len l, out') \<and>
    drop (index_v2_encoded_len l) out' = drop (index_v2_encoded_len l) out \<and>
    validate_library_index_bytes slot (take (index_v2_encoded_len l) out') = Ok cursor \<and> lx_generation cursor = generation \<and>
    unat (lx_entry_count cursor) = length (lb_entries l) \<and>
    (\<forall>i<length (lb_entries l). \<exists>start. cursor_record_range i cursor = Ok (start, start + 139) \<and>
      decode_index_entry (subslice out' start 139) = Ok ((lb_entries l ! i)\<lparr>le_mount_token := None\<rparr>))"
proof -
  let ?es = "map scanned_entry (filter accepted visited)" and ?n = "index_v2_encoded_len l"
  have es: "\<forall>e\<in>set ?es. named e" using assms(1) scanned_named by auto
  have l: "lb_entries l = sort_by entry_order ?es" "usable_status (lb_status l)"
    using assms(1,3) by (auto simp: assms(6) scan_finish_eq Let_def scan_status_def usable_status_def list_ex_iff)
  have store: "storable l" using es assms(3) l by (simp add: storable_def)
  have "entries.unequal ?es" using assms(2) by (simp add: entries_unequal comp_def)
  then have "entries.strictly_ascending (lb_entries l)" unfolding l(1) by (rule entries.strictly_ascending_sort_by)
  then have asc: "index_ascending (unmounted (lb_entries l))"
    by (simp add: names.strictly_ascending_def entries.strictly_ascending_def sorted_wrt_map entry_order_def)
  have ok: "index_ok slot generation (unmounted (lb_entries l))"
    using store asc assms(4,5) by (auto simp: index_ok_def unmounted_def storable_def named_def generation_ok_def)
  let ?w = "index_wire slot generation (lb_entries l)" and ?out = "overwrite out 0 (index_wire slot generation (lb_entries l))"
  have len: "length ?w = ?n"
    using ok index_entries_length[of "unmounted (lb_entries l)"] assms(4)
    by (simp add: index_wire_def index_v2_encoded_len_def header_size_def index_ok_def)
  have valid: "validate_library_index_bytes slot ?w = Ok (index_cursor slot generation (length (lb_entries l)))"
    using validate_index_wire[OF ok] by simp
  have records: "\<exists>start. cursor_record_range i (index_cursor slot generation (length (lb_entries l))) = Ok (start, start + 139) \<and>
      decode_index_entry (subslice ?out start 139) = Ok ((lb_entries l ! i)\<lparr>le_mount_token := None\<rparr>)" if i: "i < length (lb_entries l)" for i
  proof -
    obtain start where s: "cursor_record_range i (index_cursor slot generation (length (lb_entries l))) = Ok (start, start + 139)"
      "start + 139 \<le> length ?w" "decode_index_entry (subslice ?w start 139) = Ok (unmounted (lb_entries l) ! i)"
      using validated_records[OF ok, of i] i by auto
    have "subslice ?out start 139 = subslice ?w start 139" using s(2) by (simp add: overwrite_start subslice_append_left)
    then show ?thesis using s i by (simp add: unmounted_def)
  qed
  have "take ?n ?out = ?w" "drop ?n ?out = drop ?n out" using len by (simp_all add: overwrite_start)
  then show ?thesis
    using l(2) encode_index_v2_eq[OF store assms(7,4,5)] valid records store
    by (intro exI[of _ ?out] exI[of _ "index_cursor slot generation (length (lb_entries l))"])
      (simp add: l(1) cursor_entry_count storable_def, simp add: index_cursor_def)
qed

definition sample_visit :: "u8 \<Rightarrow> bytes \<times> u64 \<times> MountFileToken option" where
  "sample_visit letter = (letter # BINBOOK_SUFFIX, 7, Some 257)"

lemma sample_visits:
  "utf8_valid (fst (sample_visit 0x62))" "utf8_valid (fst (sample_visit 0x41))" "accepted (sample_visit letter)" "\<not> unsupported (sample_visit letter)"
  by (simp_all add: sample_visit_def accepted_def unsupported_def ends_with_def BINBOOK_SUFFIX_def ascii_def)

lemma scanned_library_stored_witness:
  "\<exists>l out' cursor. lb_entries l \<noteq> [] \<and> encode_index_v2 5 (replicate 400 0) l = Ok (298, out') \<and>
     validate_library_index_bytes SlotB (take 298 out') = Ok cursor"
proof -
  let ?vs = "[sample_visit 0x62, sample_visit 0x41]"
  let ?l = "library_scan_finish (scan_all ?vs (library_scan_begin Library_empty))"
  have f: "filter accepted ?vs = ?vs" by (simp add: sample_visits)
  have n: "length (lb_entries ?l) = 2" by (simp add: scan_finish_eq Let_def sample_visits)
  have u: "index_v2_encoded_len ?l = 298" by (simp add: index_v2_encoded_len_def n)
  have "\<exists>out' cursor. usable_status (lb_status ?l) \<and> mset (lb_entries ?l) = mset (map scanned_entry (filter accepted ?vs)) \<and>
    encode_index_v2 5 (replicate 400 0) ?l = Ok (index_v2_encoded_len ?l, out') \<and>
    drop (index_v2_encoded_len ?l) out' = drop (index_v2_encoded_len ?l) (replicate 400 0) \<and>
    validate_library_index_bytes SlotB (take (index_v2_encoded_len ?l) out') = Ok cursor \<and> lx_generation cursor = 5 \<and>
    unat (lx_entry_count cursor) = length (lb_entries ?l) \<and>
    (\<forall>i<length (lb_entries ?l). \<exists>start. cursor_record_range i cursor = Ok (start, start + 139) \<and>
      decode_index_entry (subslice out' start 139) = Ok ((lb_entries ?l ! i)\<lparr>le_mount_token := None\<rparr>))"
    by (rule scanned_library_stored[OF _ _ _ _ _ refl]) (unfold f u, simp_all add: sample_visits, simp add: sample_visit_def)
  then show ?thesis using n unfolding u by (intro exI[of _ ?l]) auto
qed

end
