(* ===== verification/Library_Sort.thy ===== *)
theory Library_Sort
  imports Library_Files
begin

text \<open>
  The external sort of \<^verbatim>\<open>binbook-fw/src/library_external_sort.rs\<close>.  The workspace holds 15 entries.  While the card is
  scanned it collects runs of entries, sorts each and leaves it on a spool; then it holds the first entry of every run and
  merges them.
\<close>

definition SPOOL_RECORD_SIZE :: nat where "SPOOL_RECORD_SIZE = 2 + INDEX_RECORD_SIZE"
definition MAX_SORT_RUNS :: nat where
  "MAX_SORT_RUNS = (MAX_LIBRARY_ENTRIES + LIBRARY_VIEWPORT_CAPACITY - 1) div LIBRARY_VIEWPORT_CAPACITY"
definition MAX_RUN_BYTES :: nat where "MAX_RUN_BYTES = LIBRARY_VIEWPORT_CAPACITY * SPOOL_RECORD_SIZE"

lemma spool_sizes [simp]: "SPOOL_RECORD_SIZE = 141" "MAX_SORT_RUNS = 14" "MAX_RUN_BYTES = 2115"
  by (simp_all add: SPOOL_RECORD_SIZE_def MAX_SORT_RUNS_def MAX_RUN_BYTES_def)

record RunDescriptor =
  rd_start_record :: u16
  rd_len :: u8

record SpoolEntry =
  se_entry :: LibraryEntry
  se_mount_token :: "MountFileToken option"

datatype ExternalSortError =
    XsWorkspaceFull | XsTooManyBooks | XsTooManyRuns | XsBufferTooSmall | XsInvalidSpoolRecord LibraryIndexError | XsWrongPhase

datatype SortPhase = SortRuns | SortMerge

record LibraryRefreshWorkspace =
  xw_entries :: "LibraryEntry list"
  xw_runs :: "RunDescriptor list"
  xw_total :: u16
  xw_phase :: SortPhase
  xw_previous_name :: "bytes option"

definition workspace_new :: LibraryRefreshWorkspace where
  "workspace_new = \<lparr>xw_entries = [], xw_runs = [], xw_total = 0, xw_phase = SortRuns, xw_previous_name = None\<rparr>"

definition workspace_reset :: "LibraryRefreshWorkspace \<Rightarrow> LibraryRefreshWorkspace" where
  "workspace_reset w = w\<lparr>xw_entries := [], xw_runs := [], xw_total := 0, xw_phase := SortRuns, xw_previous_name := None\<rparr>"

subsection \<open>Spool records\<close>

definition encode_spool_entry :: "LibraryEntry \<Rightarrow> bytes \<Rightarrow> (bytes, 'e) res" where
  "encode_spool_entry entry out =
    (let token = (case le_mount_token entry of None \<Rightarrow> 0 | Some token \<Rightarrow> token) in
     and_then (put out 0 (to_le 2 token)) (\<lambda>out.
     and_then (encode_index_entry entry (drop 2 out)) (\<lambda>tail. Ok (take 2 out @ tail))))"

definition decode_spool_entry :: "bytes \<Rightarrow> (SpoolEntry, ExternalSortError) res" where
  "decode_spool_entry bytes =
    and_then (u16_at bytes 0) (\<lambda>raw.
    let token = MountFileToken_new raw in
    and_then (map_err XsInvalidSpoolRecord (decode_index_entry (drop 2 bytes))) (\<lambda>entry.
    Ok \<lparr>se_entry = entry\<lparr>le_mount_token := token\<rparr>, se_mount_token = token\<rparr>))"

subsection \<open>Collecting runs\<close>

type_synonym 'a sort_result = "('a, ExternalSortError) res \<times> LibraryRefreshWorkspace"

definition workspace_push :: "LibraryEntry \<Rightarrow> LibraryRefreshWorkspace \<Rightarrow> unit sort_result" where
  "workspace_push entry w =
    (if xw_phase w \<noteq> SortRuns then (Err XsWrongPhase, w)
     else if unat (xw_total w) = MAX_LIBRARY_ENTRIES then (Err XsTooManyBooks, w)
     else if length (xw_entries w) \<ge> LIBRARY_VIEWPORT_CAPACITY then (Err XsWorkspaceFull, w)
     else (Ok (), w\<lparr>xw_entries := xw_entries w @ [entry], xw_total := xw_total w + 1\<rparr>))"

fun flush_entries :: "nat \<Rightarrow> LibraryEntry list \<Rightarrow> bytes \<Rightarrow> (bytes, 'e) res" where
  "flush_entries index [] out = Ok out"
| "flush_entries index (entry # rest) out =
    and_then (bytes_at out (index * SPOOL_RECORD_SIZE) SPOOL_RECORD_SIZE) (\<lambda>slot.
    and_then (encode_spool_entry entry slot) (\<lambda>slot.
    and_then (put out (index * SPOOL_RECORD_SIZE) slot) (\<lambda>out.
    flush_entries (Suc index) rest out)))"

text \<open>The result of a flush is the number of bytes used and the filled buffer.\<close>

definition flush_run :: "bytes \<Rightarrow> LibraryRefreshWorkspace \<Rightarrow> (nat \<times> bytes) sort_result" where
  "flush_run out w =
    (if xw_phase w \<noteq> SortRuns then (Err XsWrongPhase, w)
     else if xw_entries w = [] then (Ok (0, out), w)
     else
       let used = length (xw_entries w) * SPOOL_RECORD_SIZE in
       if length out < used then (Err XsBufferTooSmall, w)
       else
         let w = w\<lparr>xw_entries := sort_by entry_order (xw_entries w)\<rparr>;
             start_record = xw_total w - of_nat (length (xw_entries w)) in
         if length (xw_runs w) \<ge> MAX_SORT_RUNS then (Err XsTooManyRuns, w)
         else
           let w = w\<lparr>xw_runs := xw_runs w @ [\<lparr>rd_start_record = start_record, rd_len = of_nat (length (xw_entries w))\<rparr>]\<rparr> in
           on_ok (flush_entries 0 (xw_entries w) out) w (\<lambda>out.
           (Ok (used, out), w\<lparr>xw_entries := []\<rparr>)))"

subsection \<open>Merging\<close>

definition start_merge :: "LibraryRefreshWorkspace \<Rightarrow> unit sort_result" where
  "start_merge w =
    (if xw_phase w \<noteq> SortRuns \<or> xw_entries w \<noteq> [] then (Err XsWrongPhase, w)
     else (Ok (), w\<lparr>xw_phase := SortMerge, xw_previous_name := None\<rparr>))"

definition next_initial_head_record :: "LibraryRefreshWorkspace \<Rightarrow> u16 option" where
  "next_initial_head_record w =
    (if xw_phase w \<noteq> SortMerge \<or> length (xw_entries w) \<ge> length (xw_runs w) then None
     else Some (rd_start_record (xw_runs w ! length (xw_entries w))))"

definition advance_run :: "nat \<Rightarrow> RunDescriptor list \<Rightarrow> RunDescriptor list" where
  "advance_run index runs =
    runs[index := \<lparr>rd_start_record = rd_start_record (runs ! index) + 1, rd_len = rd_len (runs ! index) - 1\<rparr>]"

definition accept_initial_head :: "bytes \<Rightarrow> LibraryRefreshWorkspace \<Rightarrow> unit sort_result" where
  "accept_initial_head bytes w =
    (let run_index = length (xw_entries w) in
     if xw_phase w \<noteq> SortMerge \<or> run_index \<ge> length (xw_runs w) then (Err XsWrongPhase, w)
     else
       on_ok (decode_spool_entry bytes) w (\<lambda>head.
       if length (xw_entries w) \<ge> LIBRARY_VIEWPORT_CAPACITY then (Err XsWorkspaceFull, w)
       else (Ok (), w\<lparr>xw_entries := xw_entries w @ [se_entry head], xw_runs := advance_run run_index (xw_runs w)\<rparr>)))"

lemma accept_initial_head_grows:
  "accept_initial_head bytes w = (Ok (), w') \<Longrightarrow>
    length (xw_entries w') = Suc (length (xw_entries w)) \<and> length (xw_runs w') = length (xw_runs w)"
  by (auto simp: accept_initial_head_def advance_run_def Let_def split: if_splits on_ok_split_asm)

text \<open>The spool is read by a function from the number of a record to its bytes.\<close>

function load_heads :: "(u16 \<Rightarrow> (bytes, ExternalSortError) res) \<Rightarrow> LibraryRefreshWorkspace \<Rightarrow> unit sort_result" where
  "load_heads read w =
    (case next_initial_head_record w of
       None \<Rightarrow> (Ok (), w)
     | Some index \<Rightarrow>
         on_ok (read index) w (\<lambda>bytes.
         case accept_initial_head bytes w of
           (Ok _, w') \<Rightarrow> load_heads read w'
         | (Err e, w') \<Rightarrow> (Err e, w')
         | (Panic, w') \<Rightarrow> (Panic, w')))"
  by pat_completeness auto
termination
  by (relation "measure (\<lambda>(read, w). length (xw_runs w) - length (xw_entries w))")
    (auto simp: next_initial_head_record_def dest!: accept_initial_head_grows[OF sym] split: if_splits)

declare load_heads.simps [simp del]

definition begin_merge :: "(u16 \<Rightarrow> (bytes, ExternalSortError) res) \<Rightarrow> LibraryRefreshWorkspace \<Rightarrow> unit sort_result" where
  "begin_merge read w =
    (if xw_phase w \<noteq> SortRuns \<or> xw_entries w \<noteq> [] then (Err XsWrongPhase, w)
     else
       let (started, w) = start_merge w in on_ok started w (\<lambda>_. load_heads read w))"

definition minimum_head :: "LibraryRefreshWorkspace \<Rightarrow> nat option" where
  "minimum_head w = (if xw_phase w = SortMerge then min_index_by entry_order (xw_entries w) else None)"

definition head_follows :: "bytes option \<Rightarrow> bytes \<Rightarrow> (unit, ExternalSortError) res" where
  "head_follows previous_name name =
    (case previous_name of
       None \<Rightarrow> Ok ()
     | Some previous \<Rightarrow>
         (case ascii_casefold_order previous name of
            Less \<Rightarrow> Ok ()
          | Equal \<Rightarrow> Err (XsInvalidSpoolRecord LiDuplicateName)
          | Greater \<Rightarrow> Err (XsInvalidSpoolRecord LiOrdering)))"

definition selected_head :: "nat \<Rightarrow> LibraryRefreshWorkspace \<Rightarrow> SpoolEntry sort_result" where
  "selected_head index w =
    (if xw_phase w \<noteq> SortMerge \<or> index \<ge> length (xw_entries w) then (Err XsWrongPhase, w)
     else
       let entry = xw_entries w ! index in
       on_ok (head_follows (xw_previous_name w) (le_name entry)) w (\<lambda>_.
       (Ok \<lparr>se_entry = entry, se_mount_token = le_mount_token entry\<rparr>, w\<lparr>xw_previous_name := Some (le_name entry)\<rparr>)))"

definition replacement_record :: "nat \<Rightarrow> LibraryRefreshWorkspace \<Rightarrow> u16 option" where
  "replacement_record index w =
    (if index < length (xw_runs w) \<and> rd_len (xw_runs w ! index) \<noteq> 0 then Some (rd_start_record (xw_runs w ! index)) else None)"

definition advance_head :: "nat \<Rightarrow> bytes option \<Rightarrow> LibraryRefreshWorkspace \<Rightarrow> unit sort_result" where
  "advance_head index replacement w =
    (if xw_phase w \<noteq> SortMerge \<or> index \<ge> length (xw_entries w) then (Err XsWrongPhase, w)
     else if index \<ge> length (xw_runs w) then (Panic, w)
     else if rd_len (xw_runs w ! index) = 0 then
       (if replacement \<noteq> None then (Err XsWrongPhase, w)
        else (Ok (), w\<lparr>xw_entries := remove_at index (xw_entries w), xw_runs := remove_at index (xw_runs w)\<rparr>))
     else
       on_ok (ok_or XsWrongPhase replacement) w (\<lambda>bytes.
       on_ok (decode_spool_entry bytes) w (\<lambda>head.
       (Ok (), w\<lparr>xw_entries := (xw_entries w)[index := se_entry head], xw_runs := advance_run index (xw_runs w)\<rparr>))))"

definition pop_min :: "(u16 \<Rightarrow> (bytes, ExternalSortError) res) \<Rightarrow> LibraryRefreshWorkspace \<Rightarrow> SpoolEntry option sort_result" where
  "pop_min read w =
    (if xw_phase w \<noteq> SortMerge then (Err XsWrongPhase, w)
     else
       case minimum_head w of
         None \<Rightarrow> (Ok None, w)
       | Some minimum \<Rightarrow>
           let (picked, w) = selected_head minimum w in
           on_ok picked w (\<lambda>selected.
           case replacement_record minimum w of
             Some next_record \<Rightarrow>
               on_ok (read next_record) w (\<lambda>bytes.
               let (advanced, w) = advance_head minimum (Some bytes) w in on_ok advanced w (\<lambda>_. (Ok (Some selected), w)))
           | None \<Rightarrow>
               let (advanced, w) = advance_head minimum None w in on_ok advanced w (\<lambda>_. (Ok (Some selected), w))))"

subsection \<open>The spool\<close>

definition spoolable :: "LibraryEntry \<Rightarrow> bool" where
  "spoolable e \<longleftrightarrow> named e \<and> le_mount_token e \<noteq> Some 0"

definition spool_bytes :: "LibraryEntry \<Rightarrow> bytes" where
  "spool_bytes e = to_le 2 (case le_mount_token e of None \<Rightarrow> 0 | Some token \<Rightarrow> token) @ entry_bytes e"

definition spool_of :: "LibraryEntry list \<Rightarrow> bytes" where
  "spool_of es = concat (map spool_bytes es)"

definition spooled :: "LibraryEntry \<Rightarrow> SpoolEntry" where
  "spooled e = \<lparr>se_entry = e, se_mount_token = le_mount_token e\<rparr>"

definition read_spool :: "bytes \<Rightarrow> u16 \<Rightarrow> (bytes, ExternalSortError) res" where
  "read_spool spool index =
    (if (unat index + 1) * 141 \<le> length spool then Ok (subslice spool (unat index * 141) 141) else Err XsBufferTooSmall)"

lemma length_spool_bytes: "named e \<Longrightarrow> length (spool_bytes e) = 141"
  by (simp add: spool_bytes_def length_entry_bytes named_length)

lemma length_spool_of: "\<forall>e\<in>set es. named e \<Longrightarrow> length (spool_of es) = length es * 141"
  unfolding spool_of_def by (induction es) (simp_all add: length_spool_bytes)

lemma decode_spool_bytes: "spoolable e \<Longrightarrow> decode_spool_entry (spool_bytes e) = Ok (spooled e)"
proof -
  assume e: "spoolable e"
  then have ok: "entry_ok (e\<lparr>le_mount_token := None\<rparr>)" by (simp add: spoolable_def named_def)
  have raw: "u16_at (spool_bytes e) 0 = (Ok (case le_mount_token e of None \<Rightarrow> 0 | Some token \<Rightarrow> token) :: (_, ExternalSortError) res)"
    by (simp add: spool_bytes_def u16_at_Ok slice_read of_le_to_le)
  have tail: "drop 2 (spool_bytes e) = entry_bytes e" by (simp add: spool_bytes_def)
  have dec: "decode_index_entry (entry_bytes e) = Ok (e\<lparr>le_mount_token := None\<rparr>)" using decode_index_entry_bytes[OF ok] by simp
  have "MountFileToken_new (case le_mount_token e of None \<Rightarrow> 0 | Some token \<Rightarrow> token) = le_mount_token e"
    using e by (auto simp: spoolable_def MountFileToken_new_def split: option.split)
  then show "decode_spool_entry (spool_bytes e) = Ok (spooled e)"
    by (simp add: decode_spool_entry_def raw tail dec Let_def spooled_def)
qed

lemma encode_spool_entry_eq:
  assumes "named e" "length out = 141"
  shows "encode_spool_entry e out = (Ok (spool_bytes e) :: (_, 'e) res)"
proof -
  have "encode_index_entry e (drop 2 out) = (Ok (entry_bytes e) :: (_, 'e) res)"
    by (rule encode_index_entry_eq) (use assms named_length in auto)
  then show ?thesis using assms(2) by (simp add: encode_spool_entry_def Let_def put_def overwrite_start spool_bytes_def)
qed

lemma flush_entries_eq:
  "\<forall>e\<in>set es. named e \<Longrightarrow> (index + length es) * 141 \<le> length out \<Longrightarrow>
    flush_entries index es out = (Ok (overwrite out (index * 141) (spool_of es)) :: (_, 'e) res)"
proof (induction es arbitrary: index out)
  case (Cons e es)
  have fits: "index * 141 + 141 \<le> length out" using Cons.prems(2) by simp
  have e: "length (spool_bytes e) = 141" using Cons.prems(1) by (simp add: length_spool_bytes)
  have "overwrite (overwrite out (index * 141) (spool_bytes e)) (Suc index * 141) (spool_of es) =
      overwrite out (index * 141) (spool_bytes e @ spool_of es)"
    by (rule overwrite_compose) (use Cons.prems e length_spool_of[of es] in simp_all)
  moreover have "flush_entries (Suc index) es (overwrite out (index * 141) (spool_bytes e)) =
      (Ok (overwrite (overwrite out (index * 141) (spool_bytes e)) (Suc index * 141) (spool_of es)) :: (_, 'e) res)"
    by (rule Cons.IH) (use Cons.prems fits e in \<open>simp_all add: length_overwrite\<close>)
  ultimately show ?case
    using Cons.prems(1) fits e by (simp add: bytes_at_Ok encode_spool_entry_eq put_def spool_of_def)
qed (simp add: spool_of_def)

lemma read_spool_of:
  assumes "\<forall>e\<in>set ss. named e" "i < length ss" "length ss \<le> 200"
  shows "read_spool (spool_of ss) (of_nat i) = Ok (spool_bytes (ss ! i))"
proof -
  have i: "unat (of_nat i :: u16) = i" using assms(2,3) by (simp add: unat_of_nat take_bit_nat_eq_self)
  have "ss = take i ss @ ss ! i # drop (Suc i) ss" using assms(2) by (rule id_take_nth_drop)
  then have split: "spool_of ss = spool_of (take i ss) @ spool_bytes (ss ! i) @ spool_of (drop (Suc i) ss)"
    by (metis concat.simps(2) concat_append list.simps(9) map_append spool_of_def)
  have pre: "length (spool_of (take i ss)) = i * 141"
    using length_spool_of[of "take i ss"] assms(1,2) by (auto dest: in_set_takeD)
  have "length (spool_bytes (ss ! i)) = 141" using assms(1,2) by (simp add: length_spool_bytes)
  then have "subslice (spool_of ss) (i * 141) 141 = spool_bytes (ss ! i)" unfolding split pre[symmetric] by (simp add: subslice_def)
  moreover have "(i + 1) * 141 \<le> length (spool_of ss)"
    unfolding length_spool_of[OF assms(1)] using assms(2) by (intro mult_right_mono) simp_all
  ultimately show ?thesis by (simp add: read_spool_def i)
qed

subsection \<open>One step of the merge\<close>

definition run_holds :: "LibraryEntry list \<Rightarrow> RunDescriptor \<Rightarrow> LibraryEntry list \<Rightarrow> bool" where
  "run_holds ss run xs \<longleftrightarrow> unat (rd_len run) = length xs \<and> unat (rd_start_record run) + length xs \<le> length ss \<and>
    subslice ss (unat (rd_start_record run)) (length xs) = xs"

definition merging :: "LibraryEntry list \<Rightarrow> LibraryEntry list list \<Rightarrow> LibraryRefreshWorkspace \<Rightarrow> bool" where
  "merging ss xss w \<longleftrightarrow> xw_phase w = SortMerge \<and> length (xw_entries w) = length xss \<and> length (xw_runs w) = length xss \<and>
    (\<forall>i<length xss. xss ! i \<noteq> [] \<and> hd (xss ! i) = xw_entries w ! i \<and> run_holds ss (xw_runs w ! i) (tl (xss ! i)) \<and>
      entries.ascending (xss ! i))"

definition spool_ok :: "LibraryEntry list \<Rightarrow> bool" where
  "spool_ok ss \<longleftrightarrow> (\<forall>e\<in>set ss. spoolable e) \<and> length ss \<le> 200"

lemma run_holds_Cons:
  assumes "spool_ok ss" "run_holds ss run (x # xs)"
  shows "read_spool (spool_of ss) (rd_start_record run) = Ok (spool_bytes x)" "spoolable x" "rd_len run \<noteq> 0"
    "run_holds ss \<lparr>rd_start_record = rd_start_record run + 1, rd_len = rd_len run - 1\<rparr> xs"
proof -
  let ?s = "unat (rd_start_record run)"
  have r: "unat (rd_len run) = Suc (length xs)" "?s + Suc (length xs) \<le> length ss" "subslice ss ?s (Suc (length xs)) = x # xs"
    using assms(2) by (simp_all add: run_holds_def)
  have s: "?s < length ss" and few: "length ss \<le> 200" using r(2) assms(1) by (simp_all add: spool_ok_def)
  have x: "ss ! ?s = x" "subslice ss (Suc ?s) (length xs) = xs" using r(3) by (simp_all add: subslice_Suc[OF s])
  have "\<forall>e\<in>set ss. named e" using assms(1) by (simp add: spool_ok_def spoolable_def)
  then show "read_spool (spool_of ss) (rd_start_record run) = Ok (spool_bytes x)"
    using read_spool_of[of ss ?s] s few x(1) by simp
  show "spoolable x" using assms(1) s x(1) by (auto simp: spool_ok_def)
  show "rd_len run \<noteq> 0" using r(1) by auto
  have "unat (rd_start_record run + 1) = Suc ?s" using s few by (simp add: unat_word_ariths)
  moreover have "unat (rd_len run - 1) = length xs" using r(1) \<open>rd_len run \<noteq> 0\<close> by (simp add: unat_minus_one)
  ultimately show "run_holds ss \<lparr>rd_start_record = rd_start_record run + 1, rd_len = rd_len run - 1\<rparr> xs"
    using r(2) x(2) by (simp add: run_holds_def)
qed

lemma run_holds_Nil: "run_holds ss run [] \<longleftrightarrow> rd_len run = 0 \<and> unat (rd_start_record run) \<le> length ss"
  by (auto simp: run_holds_def unat_eq_0)

lemma min_head:
  assumes "merging ss xss w" "xss \<noteq> []"
  obtains i e r where "minimum_head w = Some i" "i < length xss" "xss ! i = e # r" "xw_entries w ! i = e"
    "\<forall>x\<in>set (concat xss). entry_order e x \<noteq> Greater"
proof -
  have m: "xw_phase w = SortMerge" "length (xw_entries w) = length xss" using assms(1) by (simp_all add: merging_def)
  have "xw_entries w \<noteq> []" using m(2) assms(2) by auto
  then obtain i where i: "min_index_by entry_order (xw_entries w) = Some i"
    by (metis entries.min_index_by_None option.exhaust)
  have least: "i < length xss" "\<forall>x\<in>set (xw_entries w). entry_order (xw_entries w ! i) x \<noteq> Greater"
    using entries.min_index_by_least[OF i] m(2) by simp_all
  obtain e r where e: "xss ! i = e # r" "xw_entries w ! i = e"
    using assms(1) least(1) unfolding merging_def by (metis list.exhaust_sel)
  have "entry_order e x \<noteq> Greater" if x: "x \<in> set (concat xss)" for x
  proof -
    obtain xs where "xs \<in> set xss" "x \<in> set xs" using x by auto
    then obtain j where j: "j < length xss" "x \<in> set (xss ! j)" unfolding in_set_conv_nth[of xs] by blast
    have run: "xss ! j \<noteq> []" "hd (xss ! j) = xw_entries w ! j" "entries.ascending (xss ! j)" using assms(1) j(1) by (simp_all add: merging_def)
    then have "entry_order (hd (xss ! j)) x \<noteq> Greater"
      using j(2) by (cases "xss ! j") (auto simp: entries.ascending_def entries.compare_refl)
    moreover have "entry_order e (hd (xss ! j)) \<noteq> Greater" using least(2) e(2) run(2) j(1) m(2) by (auto simp: nth_mem)
    ultimately show ?thesis using entries.compare_trans by blast
  qed
  then have all: "\<forall>x\<in>set (concat xss). entry_order e x \<noteq> Greater" by blast
  have "minimum_head w = Some i" using i m(1) by (simp add: minimum_head_def)
  then show thesis using least(1) e all by (rule that)
qed

definition rest_of :: "nat \<Rightarrow> LibraryEntry list \<Rightarrow> LibraryEntry list list \<Rightarrow> LibraryEntry list list" where
  "rest_of i r xss = (if r = [] then remove_at i xss else xss[i := r])"

lemma nth_remove_at: "i < length xs \<Longrightarrow> j < length xs - 1 \<Longrightarrow> remove_at i xs ! j = xs ! (if j < i then j else Suc j)"
  by (auto simp: remove_at_def nth_append min_def)

lemma mset_rest_of:
  assumes "i < length xss" "xss ! i = e # r"
  shows "mset (concat xss) = add_mset e (mset (concat (rest_of i r xss)))"
proof -
  have split: "xss = take i xss @ (e # r) # drop (Suc i) xss" using assms by (metis id_take_nth_drop)
  have "mset (concat xss) = mset (concat (take i xss)) + add_mset e (mset r) + mset (concat (drop (Suc i) xss))"
    by (subst split) simp
  moreover have "mset (concat (rest_of i r xss)) = mset (concat (take i xss)) + mset r + mset (concat (drop (Suc i) xss))"
    using assms(1) by (simp add: rest_of_def remove_at_def upd_conv_take_nth_drop)
  ultimately show ?thesis by simp
qed

lemma merging_drop_run:
  assumes "merging ss xss w" "i < length xss"
  shows "merging ss (remove_at i xss) (w\<lparr>xw_previous_name := p, xw_entries := remove_at i (xw_entries w), xw_runs := remove_at i (xw_runs w)\<rparr>)"
  using assms by (auto simp: merging_def nth_remove_at)

lemma merging_next_head:
  assumes "spool_ok ss" "merging ss xss w" "i < length xss" "xss ! i = e # x # r"
  shows "merging ss (xss[i := x # r]) (w\<lparr>xw_previous_name := p, xw_entries := (xw_entries w)[i := x], xw_runs := advance_run i (xw_runs w)\<rparr>)"
proof -
  have "run_holds ss (xw_runs w ! i) (x # r)" "entries.ascending (x # r)"
    using assms(2-4) unfolding merging_def by (metis list.sel(3), metis entries.ascending_def sorted_wrt.simps(2))
  then show ?thesis
    using assms(2,3) run_holds_Cons(4)[OF assms(1), of "xw_runs w ! i" x r]
    by (auto simp: merging_def advance_run_def nth_list_update)
qed

definition after_pop :: "nat \<Rightarrow> LibraryEntry \<Rightarrow> LibraryEntry list \<Rightarrow> LibraryRefreshWorkspace \<Rightarrow> LibraryRefreshWorkspace" where
  "after_pop i e r w =
    (case r of
       [] \<Rightarrow> w\<lparr>xw_previous_name := Some (le_name e), xw_entries := remove_at i (xw_entries w), xw_runs := remove_at i (xw_runs w)\<rparr>
     | x # _ \<Rightarrow> w\<lparr>xw_previous_name := Some (le_name e), xw_entries := (xw_entries w)[i := x], xw_runs := advance_run i (xw_runs w)\<rparr>)"

lemma selected_head_eq:
  assumes "merging ss xss w" "i < length xss" "xss ! i = e # r"
  shows "selected_head i w = on_ok (head_follows (xw_previous_name w) (le_name e)) w (\<lambda>_.
      (Ok (spooled e), w\<lparr>xw_previous_name := Some (le_name e)\<rparr>))"
  using assms by (auto simp: selected_head_def merging_def Let_def spooled_def)

lemma replacement_eq:
  assumes "spool_ok ss" "merging ss xss w" "i < length xss" "xss ! i = e # r"
  shows "replacement_record i w = (if r = [] then None else Some (rd_start_record (xw_runs w ! i)))"
proof -
  have "run_holds ss (xw_runs w ! i) r" "i < length (xw_runs w)" using assms(2-4) by (auto simp: merging_def)
  then show ?thesis using run_holds_Cons(3)[OF assms(1), of "xw_runs w ! i"]
    by (cases r) (auto simp: replacement_record_def run_holds_Nil)
qed

lemma advance_head_eq:
  assumes "spool_ok ss" "merging ss xss w" "i < length xss" "xss ! i = e # r"
  shows "advance_head i (if r = [] then None else Some (spool_bytes (hd r))) (w\<lparr>xw_previous_name := Some (le_name e)\<rparr>) =
    (Ok (), after_pop i e r w)"
proof (cases r)
  case Nil
  have "run_holds ss (xw_runs w ! i) []" using assms(2-4) Nil unfolding merging_def by (metis list.sel(3))
  then show ?thesis using Nil assms(2,3) by (simp add: advance_head_def after_pop_def merging_def run_holds_Nil)
next
  case (Cons x xs)
  have "run_holds ss (xw_runs w ! i) (x # xs)" using assms(2-4) Cons unfolding merging_def by (metis list.sel(3))
  note x = run_holds_Cons(2,3)[OF assms(1) this]
  show ?thesis using Cons assms(2,3) x by (simp add: advance_head_def after_pop_def merging_def decode_spool_bytes spooled_def)
qed

lemma merging_after_pop:
  assumes "spool_ok ss" "merging ss xss w" "i < length xss" "xss ! i = e # r"
  shows "merging ss (rest_of i r xss) (after_pop i e r w)"
  using assms merging_drop_run[OF assms(2,3)] merging_next_head[OF assms(1-3)]
  by (cases r) (simp_all add: rest_of_def after_pop_def)

lemma pop_min_eq:
  assumes "spool_ok ss" "merging ss xss w" "minimum_head w = Some i" "i < length xss" "xss ! i = e # r"
  shows "pop_min (read_spool (spool_of ss)) w = on_ok (head_follows (xw_previous_name w) (le_name e)) w (\<lambda>_.
    (Ok (Some (spooled e)), after_pop i e r w))"
proof -
  let ?w = "w\<lparr>xw_previous_name := Some (le_name e)\<rparr>"
  have m: "merging ss xss ?w" "xw_phase w = SortMerge" using assms(2) by (simp_all add: merging_def)
  have rep: "replacement_record i ?w = (if r = [] then None else Some (rd_start_record (xw_runs w ! i)))"
    using replacement_eq[OF assms(1) m(1) assms(4,5)] by simp
  have adv: "advance_head i (if r = [] then None else Some (spool_bytes (hd r))) ?w = (Ok (), after_pop i e r w)"
    by (rule advance_head_eq[OF assms(1,2,4,5)])
  have "read_spool (spool_of ss) (rd_start_record (xw_runs w ! i)) = Ok (spool_bytes (hd r))" if "r \<noteq> []"
  proof -
    have "run_holds ss (xw_runs w ! i) (hd r # tl r)" using assms(2,4,5) that unfolding merging_def by (metis list.collapse list.sel(3))
    then show ?thesis by (rule run_holds_Cons(1)[OF assms(1)])
  qed
  then show ?thesis
    using m(2) assms(3) rep adv
    by (cases "r = []"; cases "head_follows (xw_previous_name w) (le_name e)")
      (simp_all add: pop_min_def selected_head_eq[OF assms(2,4,5)] Let_def)
qed

subsection \<open>The whole merge\<close>

partial_function (option) drain ::
    "(u16 \<Rightarrow> (bytes, ExternalSortError) res) \<Rightarrow> LibraryRefreshWorkspace \<Rightarrow> (SpoolEntry list, ExternalSortError) res option" where
  "drain read w =
    (let (popped, w') = pop_min read w in
     case popped of
       Ok None \<Rightarrow> Some (Ok [])
     | Ok (Some e) \<Rightarrow> Option.bind (drain read w') (\<lambda>rest. Some (and_then rest (\<lambda>es. Ok (e # es))))
     | Err x \<Rightarrow> Some (Err x)
     | Panic \<Rightarrow> Some Panic)"

definition not_before :: "bytes option \<Rightarrow> LibraryEntry list \<Rightarrow> bool" where
  "not_before previous es \<longleftrightarrow> (\<forall>p. previous = Some p \<longrightarrow> (\<forall>x\<in>set es. ascii_casefold_order p (le_name x) \<noteq> Greater))"

lemma after_pop_previous [simp]: "xw_previous_name (after_pop i e r w) = Some (le_name e)"
  by (cases r) (simp_all add: after_pop_def)

lemma sort_by_least:
  assumes "mset es = add_mset e (mset rest)" "\<forall>x\<in>set es. entry_order e x \<noteq> Greater" "distinct (map le_name es)"
  shows "sort_by entry_order es = e # sort_by entry_order rest"
proof (rule entries.sort_by_unique[symmetric])
  show "entries.unequal es" using assms(3) by (simp add: entries_unequal)
  have "set es = insert e (set rest)" using assms(1) by (metis set_mset_add_mset_insert set_mset_mset)
  then show "entries.ascending (e # sort_by entry_order rest)"
    using assms(2) entries.ascending_sort_by[of rest] by (simp add: entries.ascending_def)
  show "mset (e # sort_by entry_order rest) = mset es" using assms(1) by simp
qed

lemma distinct_names_mset: "mset es = mset es' \<Longrightarrow> distinct (map le_name es) \<longleftrightarrow> distinct (map le_name es')"
  by (metis mset_eq_imp_distinct_iff mset_map)

text \<open>What one step of the merge does, whatever executes it.\<close>

lemma merge_step:
  assumes "spool_ok ss" "merging ss xss w" "not_before (xw_previous_name w) (concat xss)" "xss \<noteq> []"
  obtains i e r where "minimum_head w = Some i" "i < length xss" "xss ! i = e # r"
    "mset (concat xss) = mset (e # concat (rest_of i r xss))"
    "head_follows (xw_previous_name w) (le_name e) =
      (if xw_previous_name w = Some (le_name e) then Err (XsInvalidSpoolRecord LiDuplicateName) else Ok ())"
    "merging ss (rest_of i r xss) (after_pop i e r w)" "not_before (Some (le_name e)) (concat (rest_of i r xss))"
    "distinct (preceded (xw_previous_name w) (map le_name (concat xss))) \<longleftrightarrow>
      xw_previous_name w \<noteq> Some (le_name e) \<and> distinct (preceded (Some (le_name e)) (map le_name (concat (rest_of i r xss))))"
    "distinct (map le_name (concat xss)) \<Longrightarrow> sort_by entry_order (concat xss) = e # sort_by entry_order (concat (rest_of i r xss))"
proof -
  obtain i e r where m: "minimum_head w = Some i" "i < length xss" "xss ! i = e # r"
    and least: "\<forall>x\<in>set (concat xss). entry_order e x \<noteq> Greater"
    using min_head[OF assms(2,4)] by metis
  let ?rest = "rest_of i r xss" and ?p = "xw_previous_name w"
  have ms: "mset (concat xss) = mset (e # concat ?rest)" using mset_rest_of[OF m(2,3)] by simp
  have sets: "set (concat xss) = insert e (set (concat ?rest))" using mset_eq_setD[OF ms] by simp
  have later: "not_before (Some (le_name e)) (concat ?rest)"
    using least unfolding not_before_def sets by (simp add: entry_order_def)
  have "e \<in> set (concat xss)" unfolding sets by simp
  then have notafter: "ascii_casefold_order p (le_name e) \<noteq> Greater" if "?p = Some p" for p
    using that assms(3) unfolding not_before_def by blast
  have follows: "head_follows ?p (le_name e) =
      (if ?p = Some (le_name e) then Err (XsInvalidSpoolRecord LiDuplicateName) else Ok ())"
    using notafter by (auto simp: head_follows_def names.compare_refl split: option.split Ordering.split)
  have fresh: "p \<notin> set (map le_name (concat xss))" if p: "?p = Some p" "p \<noteq> le_name e" for p
  proof
    assume "p \<in> set (map le_name (concat xss))"
    then obtain x where x: "x \<in> set (concat xss)" "le_name x = p" by auto
    have "ascii_casefold_order p (le_name e) \<noteq> Equal" using p(2) by simp
    then have "ascii_casefold_order p (le_name e) = Less" using notafter[OF p(1)] by (metis Ordering.exhaust)
    moreover have "ascii_casefold_order (le_name e) (le_name x) \<noteq> Greater" using bspec[OF least x(1)] by (simp add: entry_order_def)
    ultimately have "ascii_casefold_order p (le_name x) = Less" by (rule names.Less_trans2)
    then show False by (simp add: x(2) names.compare_refl)
  qed
  have dist: "distinct (map le_name (concat xss)) \<longleftrightarrow> distinct (preceded (Some (le_name e)) (map le_name (concat ?rest)))"
    using distinct_names_mset[OF ms] by (simp add: preceded_def)
  have mem: "le_name e \<in> set (map le_name (concat xss))" unfolding set_map sets by simp
  have split: "distinct (preceded ?p (map le_name (concat xss))) \<longleftrightarrow> ?p \<noteq> Some (le_name e) \<and> distinct (map le_name (concat xss))"
  proof (cases ?p)
    case (Some p)
    then show ?thesis using fresh[OF Some] mem by (cases "p = le_name e") (simp_all add: preceded_def)
  qed (simp add: preceded_def)
  have sorted: "sort_by entry_order (concat xss) = e # sort_by entry_order (concat ?rest)" if "distinct (map le_name (concat xss))"
    using sort_by_least[OF _ least that, of "concat ?rest"] ms by simp
  show thesis
    by (rule that[OF m ms follows merging_after_pop[OF assms(1,2) m(2,3)] later split[unfolded dist] sorted])
qed

lemma drain_eq:
  "spool_ok ss \<Longrightarrow> merging ss xss w \<Longrightarrow> not_before (xw_previous_name w) (concat xss) \<Longrightarrow>
    drain (read_spool (spool_of ss)) w =
      Some (if distinct (preceded (xw_previous_name w) (map le_name (concat xss)))
            then Ok (map spooled (sort_by entry_order (concat xss))) else Err (XsInvalidSpoolRecord LiDuplicateName))"
proof (induction "length (concat xss)" arbitrary: xss w rule: less_induct)
  case less
  show ?case
  proof (cases "xss = []")
    case True
    then have "pop_min (read_spool (spool_of ss)) w = (Ok None, w)"
      using less.prems(2) by (simp add: merging_def pop_min_def minimum_head_def)
    then show ?thesis using True by (subst drain.simps) (simp add: preceded_def sort_by_def split: option.split)
  next
    case False
    obtain i e r where m: "minimum_head w = Some i" "i < length xss" "xss ! i = e # r"
      and ms: "mset (concat xss) = mset (e # concat (rest_of i r xss))"
      and follows: "head_follows (xw_previous_name w) (le_name e) =
        (if xw_previous_name w = Some (le_name e) then Err (XsInvalidSpoolRecord LiDuplicateName) else Ok ())"
      and later: "merging ss (rest_of i r xss) (after_pop i e r w)" "not_before (Some (le_name e)) (concat (rest_of i r xss))"
      and dist: "distinct (preceded (xw_previous_name w) (map le_name (concat xss))) \<longleftrightarrow>
        xw_previous_name w \<noteq> Some (le_name e) \<and> distinct (preceded (Some (le_name e)) (map le_name (concat (rest_of i r xss))))"
      and sorted: "distinct (map le_name (concat xss)) \<Longrightarrow> sort_by entry_order (concat xss) = e # sort_by entry_order (concat (rest_of i r xss))"
      using merge_step[OF less.prems False] by blast
    have "length (concat xss) = Suc (length (concat (rest_of i r xss)))" using mset_eq_length[OF ms] by simp
    then have ih: "drain (read_spool (spool_of ss)) (after_pop i e r w) =
        Some (if distinct (preceded (Some (le_name e)) (map le_name (concat (rest_of i r xss))))
              then Ok (map spooled (sort_by entry_order (concat (rest_of i r xss)))) else Err (XsInvalidSpoolRecord LiDuplicateName))"
      using less.hyps[OF _ less.prems(1) later(1)] later(2) by simp
    have "distinct (map le_name (concat xss))" if "distinct (preceded (xw_previous_name w) (map le_name (concat xss)))"
      using that by (simp add: preceded_def split: option.splits)
    then show ?thesis
      using ih dist sorted by (subst drain.simps) (auto simp: pop_min_eq[OF less.prems(1,2) m] follows)
  qed
qed

subsection \<open>Loading the heads\<close>

definition loading :: "LibraryEntry list \<Rightarrow> LibraryEntry list list \<Rightarrow> LibraryRefreshWorkspace \<Rightarrow> bool" where
  "loading ss xss w \<longleftrightarrow> xw_phase w = SortMerge \<and> length (xw_entries w) \<le> length xss \<and> length (xw_runs w) = length xss \<and> length xss \<le> 14 \<and>
    (\<forall>i<length xss. xss ! i \<noteq> [] \<and> entries.ascending (xss ! i) \<and>
      (if i < length (xw_entries w) then hd (xss ! i) = xw_entries w ! i \<and> run_holds ss (xw_runs w ! i) (tl (xss ! i))
       else run_holds ss (xw_runs w ! i) (xss ! i)))"

lemma loading_head:
  assumes "spool_ok ss" "loading ss xss w" "length (xw_entries w) < length xss"
  obtains index bytes w' where "next_initial_head_record w = Some index" "read_spool (spool_of ss) index = Ok bytes"
    "accept_initial_head bytes w = (Ok (), w')" "loading ss xss w'" "length (xw_entries w') = Suc (length (xw_entries w))"
    "xw_previous_name w' = xw_previous_name w"
proof -
  let ?k = "length (xw_entries w)"
  have m: "xw_phase w = SortMerge" "length (xw_runs w) = length xss" "length xss \<le> 14" "xss ! ?k \<noteq> []" "run_holds ss (xw_runs w ! ?k) (xss ! ?k)"
    using assms(2,3) by (simp_all add: loading_def)
  obtain x r where x: "xss ! ?k = x # r" using m(4) by (cases "xss ! ?k") auto
  note run = run_holds_Cons[OF assms(1) m(5)[unfolded x]]
  let ?w = "w\<lparr>xw_entries := xw_entries w @ [x], xw_runs := advance_run ?k (xw_runs w)\<rparr>"
  have "accept_initial_head (spool_bytes x) w = (Ok (), ?w)"
    using m(1-3) assms(3) by (simp add: accept_initial_head_def decode_spool_bytes[OF run(2)] spooled_def)
  moreover have "next_initial_head_record w = Some (rd_start_record (xw_runs w ! ?k))"
    using m(1,2) assms(3) by (simp add: next_initial_head_record_def)
  moreover have "loading ss xss ?w"
    using assms(2,3) x run(4) unfolding loading_def
    by (auto simp: advance_run_def nth_append nth_list_update less_Suc_eq)
  ultimately show thesis using that[OF _ run(1)] by simp
qed

lemma loading_step:
  assumes "spool_ok ss" "loading ss xss w" "length (xw_entries w) < length xss"
  shows "\<exists>w'. load_heads (read_spool (spool_of ss)) w = load_heads (read_spool (spool_of ss)) w' \<and> loading ss xss w' \<and>
    length (xw_entries w') = Suc (length (xw_entries w)) \<and> xw_previous_name w' = xw_previous_name w"
proof -
  obtain index bytes w' where "next_initial_head_record w = Some index" "read_spool (spool_of ss) index = Ok bytes"
    "accept_initial_head bytes w = (Ok (), w')" "loading ss xss w'" "length (xw_entries w') = Suc (length (xw_entries w))"
    "xw_previous_name w' = xw_previous_name w"
    using loading_head[OF assms] by blast
  then show ?thesis by (intro exI[of _ w']) (subst load_heads.simps, simp)
qed

lemma load_heads_eq:
  "spool_ok ss \<Longrightarrow> loading ss xss w \<Longrightarrow>
    \<exists>w'. load_heads (read_spool (spool_of ss)) w = (Ok (), w') \<and> merging ss xss w' \<and> xw_previous_name w' = xw_previous_name w"
proof (induction "length xss - length (xw_entries w)" arbitrary: w)
  case 0
  then have all: "length (xw_entries w) = length xss" by (simp add: loading_def)
  then have "next_initial_head_record w = None" using 0 by (simp add: next_initial_head_record_def loading_def)
  then have "load_heads (read_spool (spool_of ss)) w = (Ok (), w)" by (subst load_heads.simps) simp
  moreover have "merging ss xss w" using 0 all by (simp add: loading_def merging_def)
  ultimately show ?case by blast
next
  case (Suc n)
  then have "length (xw_entries w) < length xss" by linarith
  then obtain w' where "load_heads (read_spool (spool_of ss)) w = load_heads (read_spool (spool_of ss)) w'" "loading ss xss w'"
    "length (xw_entries w') = Suc (length (xw_entries w))" "xw_previous_name w' = xw_previous_name w"
    using loading_step[OF Suc.prems] by blast
  then show ?case using Suc.hyps(1)[of w'] Suc.hyps(2) Suc.prems(1) by simp
qed

subsection \<open>Collecting the runs\<close>

text \<open>
  What a scan does to a workspace: it pushes entries, and it appends what a flush produced to the spool.
\<close>

inductive collects :: "LibraryEntry list \<Rightarrow> LibraryRefreshWorkspace \<Rightarrow> bytes \<Rightarrow> bool" where
  fresh: "collects [] (workspace_reset w) []"
| pushed: "collects es w spool \<Longrightarrow> workspace_push e w = (Ok (), w') \<Longrightarrow> collects (es @ [e]) w' spool"
| flushed: "collects es w spool \<Longrightarrow> flush_run out w = (Ok (used, out'), w') \<Longrightarrow> collects es w' (spool @ take used out')"

definition collected :: "LibraryEntry list \<Rightarrow> LibraryEntry list list \<Rightarrow> LibraryRefreshWorkspace \<Rightarrow> bytes \<Rightarrow> bool" where
  "collected es xss w spool \<longleftrightarrow> xw_phase w = SortRuns \<and> spool = spool_of (concat xss) \<and> unat (xw_total w) = length es \<and> length es \<le> 200 \<and>
    length (xw_entries w) \<le> 15 \<and> mset es = mset (concat xss @ xw_entries w) \<and> length (xw_runs w) = length xss \<and> length xss \<le> 14 \<and>
    (\<forall>i<length xss. xss ! i \<noteq> [] \<and> entries.ascending (xss ! i) \<and> length (xss ! i) \<le> 15 \<and>
      xw_runs w ! i = \<lparr>rd_start_record = of_nat (length (concat (take i xss))), rd_len = of_nat (length (xss ! i))\<rparr>)"

lemma collected_push:
  assumes "collected es xss w spool" "workspace_push e w = (Ok (), w')"
  shows "collected (es @ [e]) xss w' spool"
proof -
  have p: "unat (xw_total w) \<noteq> 200" "length (xw_entries w) < 15" "w' = w\<lparr>xw_entries := xw_entries w @ [e], xw_total := xw_total w + 1\<rparr>"
    using assms(2) by (auto simp: workspace_push_def split: if_splits)
  have "unat (xw_total w + 1) = Suc (length es)" "length es < 200"
    using assms(1) p(1) by (simp_all add: collected_def unat_word_ariths)
  then show ?thesis using assms(1) p by (simp add: collected_def)
qed

lemma flush_run_cases:
  assumes "\<forall>e\<in>set (xw_entries w). named e" "flush_run out w = (Ok (used, out'), w')"
  obtains "xw_entries w = []" "used = 0" "w' = w"
  | "xw_entries w \<noteq> []" "used = length (xw_entries w) * 141" "take used out' = spool_of (sort_by entry_order (xw_entries w))"
    "length (xw_runs w) < 14" "length out' = length out"
    "w' = w\<lparr>xw_runs := xw_runs w @ [\<lparr>rd_start_record = xw_total w - of_nat (length (xw_entries w)), rd_len = of_nat (length (xw_entries w))\<rparr>],
      xw_entries := []\<rparr>"
proof (cases "xw_entries w = []")
  case True
  then show thesis using assms(2) that(1) by (auto simp: flush_run_def split: if_splits)
next
  case False
  let ?es = "sort_by entry_order (xw_entries w)" and ?n = "length (xw_entries w)"
  have room: "?n * 141 \<le> length out" "length (xw_runs w) < 14"
    using assms(2) False by (auto simp: flush_run_def Let_def split: if_splits)
  have ok: "\<forall>e\<in>set ?es. named e" using assms(1) by simp
  have "flush_entries 0 ?es out = (Ok (overwrite out 0 (spool_of ?es)) :: (_, ExternalSortError) res)"
    using flush_entries_eq[OF ok, of 0 out] room(1) by simp
  then have w: "used = ?n * 141" "out' = overwrite out 0 (spool_of ?es)"
    "w' = w\<lparr>xw_runs := xw_runs w @ [\<lparr>rd_start_record = xw_total w - of_nat ?n, rd_len = of_nat ?n\<rparr>], xw_entries := []\<rparr>"
    using assms(2) False room by (auto simp: flush_run_def Let_def split: if_splits)
  have len: "length (spool_of ?es) = ?n * 141" using length_spool_of[OF ok] by simp
  have "take used out' = spool_of ?es" "length out' = length out" using w(1,2) len room(1) by (simp_all add: overwrite_start)
  then show thesis using that(2)[OF False w(1) _ room(2)] w(3) by simp
qed

lemma collected_flush:
  assumes "collected es xss w spool" "\<forall>e\<in>set es. named e" "flush_run out w = (Ok (used, out'), w')"
  shows "\<exists>xss. collected es xss w' (spool @ take used out')"
proof -
  have c: "mset es = mset (concat xss @ xw_entries w)" using assms(1) by (simp add: collected_def)
  have "set es = set (concat xss) \<union> set (xw_entries w)" using mset_eq_setD[OF c] by simp
  then have named: "\<forall>e\<in>set (xw_entries w). named e" using assms(2) by blast
  show ?thesis
  proof (rule flush_run_cases[OF named assms(3)])
    assume "xw_entries w = []" "used = 0" "w' = w"
    then show ?thesis using assms(1) by auto
  next
    let ?n = "length (xw_entries w)" and ?s = "sort_by entry_order (xw_entries w)"
    assume f: "xw_entries w \<noteq> []" "used = ?n * 141" "take used out' = spool_of ?s" "length (xw_runs w) < 14"
      "w' = w\<lparr>xw_runs := xw_runs w @ [\<lparr>rd_start_record = xw_total w - of_nat ?n, rd_len = of_nat ?n\<rparr>], xw_entries := []\<rparr>"
    have sum: "length es = length (concat xss) + ?n" using mset_eq_length[OF c] by simp
    have "unat (xw_total w) = length es" using assms(1) by (simp add: collected_def)
    then have "xw_total w = of_nat (length es)" by (metis of_nat_unat ucast_id)
    then have start: "xw_total w - of_nat ?n = of_nat (length (concat xss))" by (simp add: sum)
    have "collected es (xss @ [?s]) w' (spool @ take used out')"
      using assms(1) f c entries.ascending_sort_by[of "xw_entries w"]
      unfolding collected_def
      by (auto simp: start spool_of_def nth_append less_Suc_eq sum)
    then show ?thesis by blast
  qed
qed

lemma collects_collected: "collects es w spool \<Longrightarrow> \<forall>e\<in>set es. named e \<Longrightarrow> \<exists>xss. collected es xss w spool"
proof (induction rule: collects.induct)
  case (fresh w)
  then show ?case by (intro exI[of _ "[]"]) (simp add: collected_def workspace_reset_def spool_of_def)
next
  case (pushed es w spool e w')
  then show ?case using collected_push by fastforce
next
  case (flushed es w spool out used out' w')
  then show ?case using collected_flush by blast
qed

lemma flush_run_ok:
  assumes "xw_phase w = SortRuns" "\<forall>e\<in>set (xw_entries w). named e" "length (xw_entries w) * 141 \<le> length out" "length (xw_runs w) < 14"
  shows "\<exists>used out' w'. flush_run out w = (Ok (used, out'), w')"
proof -
  have "flush_entries 0 (sort_by entry_order (xw_entries w)) out =
      (Ok (overwrite out 0 (spool_of (sort_by entry_order (xw_entries w)))) :: (_, ExternalSortError) res)"
    using flush_entries_eq[of "sort_by entry_order (xw_entries w)" 0 out] assms(2,3) by simp
  then show ?thesis using assms(1,3,4) by (cases "xw_entries w = []") (simp_all add: flush_run_def Let_def)
qed

lemma collected_loading:
  assumes "collected es xss w spool" "xw_entries w = []" "\<forall>e\<in>set es. spoolable e"
  shows "start_merge w = (Ok (), w\<lparr>xw_phase := SortMerge, xw_previous_name := None\<rparr>)"
    "loading (concat xss) xss (w\<lparr>xw_phase := SortMerge, xw_previous_name := None\<rparr>)" "spool_ok (concat xss)"
proof -
  let ?ss = "concat xss"
  have c: "xw_phase w = SortRuns" "spool = spool_of ?ss" "mset es = mset ?ss" "length es \<le> 200" "length (xw_runs w) = length xss"
    "length xss \<le> 14" "\<forall>i<length xss. xss ! i \<noteq> [] \<and> entries.ascending (xss ! i) \<and> length (xss ! i) \<le> 15 \<and>
      xw_runs w ! i = \<lparr>rd_start_record = of_nat (length (concat (take i xss))), rd_len = of_nat (length (xss ! i))\<rparr>"
    using assms(1,2) by (auto simp: collected_def)
  have ok: "spool_ok ?ss"
    using assms(3) c(4) mset_eq_setD[OF c(3)] mset_eq_length[OF c(3)] by (simp add: spool_ok_def)
  have few: "length ?ss \<le> 200" using ok by (simp add: spool_ok_def)
  have holds: "run_holds ?ss (xw_runs w ! i) (xss ! i)" if i: "i < length xss" for i
  proof -
    have split: "?ss = concat (take i xss) @ xss ! i @ concat (drop (Suc i) xss)"
      by (metis i concat.simps(2) concat_append id_take_nth_drop)
    have len: "length (concat (take i xss)) + length (xss ! i) \<le> length ?ss"
      using arg_cong[OF split, of length] by (simp only: length_append)
    have u: "unat (of_nat (length (concat (take i xss))) :: u16) = length (concat (take i xss))"
      "unat (of_nat (length (xss ! i)) :: u8) = length (xss ! i)"
      using len few c(7)[rule_format, OF i] by (simp_all add: unat_of_nat take_bit_nat_eq_self)
    have "subslice ?ss (length (concat (take i xss))) (length (xss ! i)) = xss ! i" by (subst split) (simp add: subslice_def)
    then show ?thesis using c(7)[rule_format, OF i] len u by (simp add: run_holds_def)
  qed
  show "loading ?ss xss (w\<lparr>xw_phase := SortMerge, xw_previous_name := None\<rparr>)" using c(5-7) holds assms(2) by (simp add: loading_def)
  show "start_merge w = (Ok (), w\<lparr>xw_phase := SortMerge, xw_previous_name := None\<rparr>)" using c(1) assms(2) by (simp add: start_merge_def)
  show "spool_ok ?ss" by (rule ok)
qed

lemma collected_merge:
  assumes "collected es xss w spool" "xw_entries w = []" "\<forall>e\<in>set es. spoolable e"
  shows "\<exists>w'. begin_merge (read_spool spool) w = (Ok (), w') \<and> merging (concat xss) xss w' \<and> spool_ok (concat xss) \<and>
    xw_previous_name w' = None"
proof -
  note l = collected_loading[OF assms]
  obtain w' where w': "load_heads (read_spool (spool_of (concat xss))) (w\<lparr>xw_phase := SortMerge, xw_previous_name := None\<rparr>) = (Ok (), w')"
    "merging (concat xss) xss w'" "xw_previous_name w' = None"
    using load_heads_eq[OF l(3,2)] by force
  moreover have "spool = spool_of (concat xss)" "xw_phase w = SortRuns" using assms(1) by (simp_all add: collected_def)
  ultimately show ?thesis using l(1,3) assms(2) by (intro exI[of _ w']) (simp add: begin_merge_def)
qed

lemma external_sort_result:
  assumes "collects es w spool" "xw_entries w = []" "\<forall>e\<in>set es. spoolable e"
  shows "\<exists>w'. begin_merge (read_spool spool) w = (Ok (), w') \<and>
    drain (read_spool spool) w' = Some (if distinct (map le_name es) then Ok (map spooled (sort_by entry_order es))
      else Err (XsInvalidSpoolRecord LiDuplicateName))"
proof -
  obtain xss where c: "collected es xss w spool" using collects_collected[OF assms(1)] assms(3) by (auto simp: spoolable_def)
  then have spool: "spool = spool_of (concat xss)" and ms: "mset es = mset (concat xss)" using assms(2) by (simp_all add: collected_def)
  obtain w' where w': "begin_merge (read_spool spool) w = (Ok (), w')" "merging (concat xss) xss w'" "spool_ok (concat xss)"
    "xw_previous_name w' = None"
    using collected_merge[OF c assms(2,3)] by blast
  have "distinct (map le_name es) \<longleftrightarrow> distinct (map le_name (concat xss))" by (rule distinct_names_mset[OF ms])
  moreover have "sort_by entry_order (concat xss) = sort_by entry_order es" if "distinct (map le_name es)"
    by (rule entries.sort_by_unique) (use that entries.ascending_sort_by ms in \<open>simp_all add: entries_unequal\<close>)
  ultimately show ?thesis
    using w' drain_eq[OF w'(3,2)] by (intro exI[of _ w']) (simp add: spool not_before_def preceded_def)
qed

subsection \<open>Properties\<close>

text \<open>C22: The external sort is a sort: whatever entries a scan pushed and in whatever runs it flushed them to the spool, the merge
  starts, ends, and pops all of them in the strict order of their names, each with its mount token, exactly as sorting them in
  memory would; if two of them have the same name it ends with the error for a duplicate instead.\<close>

theorem external_sort_sorts:
  assumes "collects es w spool" and "xw_entries w = []" and "\<forall>e\<in>set es. spoolable e"
  shows "\<exists>w'. begin_merge (read_spool spool) w = (Ok (), w') \<and>
    drain (read_spool spool) w' = Some (if distinct (map le_name es) then Ok (map spooled (sort_by entry_order es))
      else Err (XsInvalidSpoolRecord LiDuplicateName))"
  using assms by (rule external_sort_result)

lemma external_sort_sorts_witness:
  "\<exists>w spool. let b = scanned_entry (sample_visit 0x62); a = scanned_entry (sample_visit 0x41) in
    collects [b, a] w spool \<and> (\<exists>w'. begin_merge (read_spool spool) w = (Ok (), w') \<and>
      drain (read_spool spool) w' = Some (Ok [spooled a, spooled b]))"
proof -
  let ?b = "scanned_entry (sample_visit 0x62)" and ?a = "scanned_entry (sample_visit 0x41)"
  have ok: "\<forall>e\<in>set [?b, ?a]. spoolable e"
    using scanned_named[OF sample_visits(3)] by (auto simp: spoolable_def sample_visits) (simp_all add: scanned_entry_def sample_visit_def)
  have order: "sort_by entry_order [?b, ?a] = [?a, ?b]" "distinct (map le_name [?b, ?a])"
    by (simp_all add: sort_by_def entry_order_def ascii_casefold_order_def sample_visit_def compare_words_def ascii_lower_def)
  let ?w1 = "workspace_new\<lparr>xw_entries := [?b], xw_total := 1\<rparr>" and ?w2 = "workspace_new\<lparr>xw_entries := [?b, ?a], xw_total := 2\<rparr>"
  have "collects [] (workspace_reset workspace_new) []" by (rule collects.fresh)
  then have "collects ([] @ [?b]) ?w1 []" by (rule collects.pushed) (simp add: workspace_push_def workspace_reset_def workspace_new_def)
  then have "collects (([] @ [?b]) @ [?a]) ?w2 []" by (rule collects.pushed) (simp add: workspace_push_def workspace_new_def)
  then have two: "collects [?b, ?a] ?w2 []" by simp
  obtain used out' w' where f: "flush_run (replicate 300 0) ?w2 = (Ok (used, out'), w')"
    using flush_run_ok[of ?w2 "replicate 300 0"] ok by (auto simp: workspace_new_def spoolable_def)
  have "collects [?b, ?a] w' ([] @ take used out')" by (rule collects.flushed[OF two f])
  moreover have "xw_entries w' = []" by (rule flush_run_cases[OF _ f]) (use ok in \<open>auto simp: workspace_new_def spoolable_def\<close>)
  ultimately show ?thesis
    using external_sort_sorts[of "[?b, ?a]" w' "[] @ take used out'"] ok order
    by (intro exI[of _ w'] exI[of _ "[] @ take used out'"]) (simp only: Let_def, simp)
qed

end
