(* ===== verification/Spec2Isabelle.thy ===== *)
theory Spec2Isabelle
  imports Frame Bulk_Messages Storage_Messages Control_Messages Trace_Messages PackBits_Decode Crc32
    Upload_Journal Storage_Safety Scan_Records Bulk_Coordinator Book_Validate
    State_Card Reader_Input Refresh_Coordinator Power_Key Library_Sort
begin

text \<open>
  BinBook: books for an e-paper reader.  A host program compiles a document into a \<^verbatim>\<open>.binbook\<close> file of prepared page
  images, and the firmware of the reader shows it.  This development models the parts of the repository that carry its own
  logic and states what makes them correct.

  \<^bold>\<open>The parts and how they interact.\<close>  A book file is a header, a table of sections and fixed-width index records
  (\<^verbatim>\<open>crates/binbook-core\<close>); its page images are compressed (\<^verbatim>\<open>crates/binbook-compress\<close>, \<^verbatim>\<open>binbook-decompress\<close>).
  The firmware (\<^verbatim>\<open>firmware/crates/binbook-fw\<close>) keeps books on an SD card.  One task, the storage owner
  (\<^verbatim>\<open>storage_owner.rs\<close>), has the card to itself; every other task sends it requests with a client and a sequence number
  and is answered.  A host program talks to the firmware over a serial line in stuffed frames
  (\<^verbatim>\<open>firmware/crates/binbook-diagnostic-protocol\<close>); files are streamed over it in blocks with credits, by an upload and a
  readback pipeline between the line and the owner.  The reader remembers its library (\<^verbatim>\<open>library.rs\<close>) and its state
  (\<^verbatim>\<open>reader_state.rs\<close>) in files that it writes through the owner, and is driven by buttons, a power key and the
  refreshes of its panel.

  \<^bold>\<open>The theories.\<close>
  \<^item> \<open>Prelude\<close>: words, the outcome of a Rust call (\<open>Ok\<close>, \<open>Err\<close>, or \<open>Panic\<close> for an index out of range), slices,
    little-endian fields, checked arithmetic, UTF-8.  \<open>Machine\<close>: reachable states and invariants.  \<open>Orders\<close>: comparison
    functions, sorting and minima, with the contract \<open>comparison\<close>.  \<open>Stores\<close>: records filled by stores at offsets.
    \<open>Codec\<close>: the contract of a message codec.
  \<^item> The protocol: \<open>Protocol_Types\<close> (\<^verbatim>\<open>types.rs\<close>), \<open>Cobs\<close> (\<^verbatim>\<open>cobs.rs\<close>), \<open>Frame\<close> (\<^verbatim>\<open>frame.rs\<close>), and the messages:
    \<open>Bulk_Messages\<close>, \<open>Storage_Messages\<close>, \<open>Control_Messages\<close>, \<open>Trace_Messages\<close>.  Every message type is an instance of the
    codec contract: what is encoded is decoded, the decoders are exact, and neither panics.  For frames: what is accepted was
    protected by a checksum, the decoder in place agrees with the other one, and which frames survive the byte stuffing.
  \<^item> Checksums and compression: \<open>Crc32\<close> (six implementations, one function), \<open>PackBits\<close>, \<open>PackBits_Decode\<close> (the streaming
    decoder against the format), \<open>Upload_Journal\<close> (\<^verbatim>\<open>embedded-sd-storage/src/upload_journal.rs\<close>).
  \<^item> The storage owner: \<open>Storage_Owner\<close> (requests), \<open>Storage_Queue\<close> (mailboxes by priority), \<open>Storage_Exec\<close> (upload and scan
    protocol, execution, pump), \<open>Storage_Safety\<close> (correlation, stale requests, one upload at a time), \<open>Scan_Records\<close>.
  \<^item> Streaming: \<open>Bulk_Slots\<close> and \<open>Bulk_Leases\<close> (the four buffers), \<open>Bulk_Upload\<close> and \<open>Bulk_Upload_Runtime\<close>,
    \<open>Bulk_Readback\<close> and \<open>Bulk_Readback_Runtime\<close>, \<open>Bulk_Coordinator\<close> (both directions, timeouts, protocol dispatch).  Each has
    an invariant that every operation keeps; from the invariants follow that only a file with the announced checksum is
    published, that a readback ends with the checksum of what the host received, and that the coordinator does not get stuck,
    but for the failure of an open request, which is stated.
  \<^item> The file format: \<open>Book_Format\<close>, \<open>Book_Records\<close> (decoders), \<open>Book_Encode\<close> (encoders, round trips), \<open>Book_Reader\<close> (a book
    and its index over a byte source), \<open>Book_Validate\<close> (the validator and what a valid book satisfies), \<open>Book_Sample\<close>.
  \<^item> The state of the reader: \<open>Reader_State\<close> (operations, invariant, exact file format), \<open>Owner_Client\<close> (the contract of a
    client of the storage owner), \<open>Ideal_Card\<close> (an ideal card as the specification of storage, and dialogues with it), \<open>State_Client\<close> (loading and saving
    as instances of that contract, so that every session ends), \<open>State_Card\<close> (what is saved is loaded, on an ideal card).
  \<^item> The library: \<open>Book_Library\<close> (scan, viewport, index), \<open>Library_Index\<close> (what the validator accepts), \<open>Library_Files\<close>
    (encoders, decoder, scan), \<open>Library_Sort\<close> (the external sort equals sorting in memory).
  \<^item> The controls: \<open>Reader_Input\<close> (buttons, debouncing, menu), \<open>Power_Key\<close>, \<open>Refresh_Coordinator\<close>.

  \<^bold>\<open>How code becomes a definition.\<close>  A struct is a record, an enum a datatype, an integer a word of its width; \<open>usize\<close> is a
  natural number, since every size in question is far below the size of an address.  A method that takes \<open>&mut self\<close>
  returns its result and the new object.  A buffer that is filled is returned; a scratch buffer that is only overwritten is
  represented by its length.  Where a debug build would stop at an overflow and a release build wraps, the model wraps.
  \<open>sort_unstable\<close> is insertion sort, which is one of the results it may have, and the only one where no two elements are
  equal.  \<open>?\<close> is \<open>and_then\<close> or \<open>on_ok\<close>.  Loops are recursive functions with a proof of termination; the two that depend on
  what another part answers (\<open>dialogue\<close>, \<open>drain\<close>) are partial functions that are proved to have a result.  No fuel is used.
  Parameters stand for what is not in the repository or is hardware: the backend of the storage owner, the byte source of a
  book, the file system that is scanned.

  \<^bold>\<open>Not modelled.\<close>  The host program (\<^verbatim>\<open>crates/binbook\<close>), the compiler and its inputs (\<^verbatim>\<open>binbook-compiler\<close>,
  \<^verbatim>\<open>-document\<close>, \<^verbatim>\<open>-epub\<close>, \<^verbatim>\<open>-image\<close>, \<^verbatim>\<open>-render\<close>, \<^verbatim>\<open>-encode\<close>): files, ports and packages of third parties, for ZIP, XML,
  fonts and pictures, make up most of them.  The adapter to the FAT file system (\<^verbatim>\<open>embedded-sd-storage\<close>) is built on a
  third-party driver and stands behind the parameter for the backend.  The drivers of the panel (\<^verbatim>\<open>ssd1677-driver\<close>,
  \<^verbatim>\<open>xteink-x4-display\<close>) and the asynchronous tasks (\<^verbatim>\<open>binbook-fw/src/runtime\<close>) are sequences of effects on hardware and on
  an executor; the state machines that they drive are modelled (and the preparation of sleep, in \<open>Power_Key\<close>).  Measurements, logs and the diagnostic console are left out.
\<close>

end
